(* ===== verification/Qmk_Prelude.thy ===== *)
theory Qmk_Prelude
  imports Main "HOL-Library.Word"
begin

text \<open>
  Shared vocabulary of the development: names for the machine integers of the firmware, the wrap-around
  time arithmetic of \<^verbatim>\<open>platforms/timer.h\<close>, and the generic facts on words, bits and lists that the
  component theories use. Simplification rules that describe what an operation leaves untouched go
  to the collection \<open>frame_simps\<close>, bit-level rules to \<open>bitlevel_simps\<close>.
\<close>

unbundle bit_operations_syntax

named_theorems frame_simps \<open>what an operation of the model leaves unchanged\<close>
named_theorems bitlevel_simps \<open>single-bit description of word expressions\<close>

subsection \<open>Machine integers\<close>

type_synonym u8 = "8 word"
type_synonym u16 = "16 word"
type_synonym u32 = "32 word"
type_synonym u64 = "64 word"

text \<open>The mask \<^verbatim>\<open>1 << n\<close> at the width of the expression it is used in.\<close>

definition bitmask :: "nat \<Rightarrow> 'a::len word" where
  "bitmask n = push_bit n 1"

lemma bit_bitmask [bitlevel_simps]:
  "bit (bitmask n :: 'a::len word) m \<longleftrightarrow> m = n \<and> n < LENGTH('a)"
  unfolding bitmask_def bit_push_bit_iff by (auto simp: bit_1_iff)

lemma and_bitmask_nonzero [bitlevel_simps]:
  "(w AND bitmask n \<noteq> (0 :: 'a::len word)) \<longleftrightarrow> bit w n"
proof
  assume "w AND bitmask n \<noteq> 0"
  then obtain k where "bit (w AND bitmask n) k"
    using bit_eqI [of "w AND bitmask n" 0] by auto
  then show "bit w n" by (auto simp: bit_and_iff bit_bitmask)
next
  assume a: "bit w n"
  then have "n < LENGTH('a)" by (rule bit_imp_le_length)
  with a have "bit (w AND bitmask n) n" by (simp add: bit_and_iff bit_bitmask)
  then show "w AND bitmask n \<noteq> 0" by (metis bit_0_eq bot_apply bot_bool_def)
qed

lemma and_bitmask_zero [bitlevel_simps]:
  "(w AND bitmask n = (0 :: 'a::len word)) \<longleftrightarrow> \<not> bit w n"
  using and_bitmask_nonzero [of w n] by blast

lemma and_bitmask_eq [bitlevel_simps]:
  "n < LENGTH('a) \<Longrightarrow> (w AND bitmask n = (bitmask n :: 'a::len word)) \<longleftrightarrow> bit w n"
proof
  assume "n < LENGTH('a)" "w AND bitmask n = (bitmask n :: 'a word)"
  then show "bit w n" by (metis bit_and_iff bit_bitmask)
next
  assume "n < LENGTH('a)" "bit w n"
  then show "w AND bitmask n = (bitmask n :: 'a word)"
    by (intro bit_word_eqI) (auto simp: bit_and_iff bit_bitmask)
qed

lemma word_eq_zero_iff_bits: "(w :: 'a::len word) = 0 \<longleftrightarrow> (\<forall>n < LENGTH('a). \<not> bit w n)"
  by (auto intro: bit_word_eqI)

lemma bit_u8_less: "bit (w :: u8) n \<Longrightarrow> n < 8"
  by (drule bit_imp_le_length) simp

lemma xor_eq_zero_iff: "(a XOR b = 0) \<longleftrightarrow> a = (b :: 'a::len word)"
proof
  assume "a XOR b = 0"
  then have "bit (a XOR b) n = False" for n by simp
  then show "a = b" by (intro bit_word_eqI) (auto simp: bit_xor_iff)
qed simp

lemma upt_3: "[0..<3] = [0, 1, 2 :: nat]"
  by (simp add: upt_rec)

lemma word_in_upt:
  assumes "a \<le> unat (w :: 'a::len word)" "unat w < b"
  shows "w \<in> set (map of_nat [a..<b])"
  unfolding set_map by (rule image_eqI [of _ _ "unat w"]) (use assms in auto)

subsection \<open>Time arithmetic\<close>

text \<open>
  \<^verbatim>\<open>TIMER_DIFF_16\<close> and \<^verbatim>\<open>TIMER_DIFF_32\<close> subtract at the width of the timer, so a timer that has
  wrapped once still gives the right distance.
\<close>

definition TIMER_DIFF_16 :: "u16 \<Rightarrow> u16 \<Rightarrow> u16" where
  "TIMER_DIFF_16 a b = a - b"

definition TIMER_DIFF_32 :: "u32 \<Rightarrow> u32 \<Rightarrow> u32" where
  "TIMER_DIFF_32 a b = a - b"

lemma TIMER_DIFF_32_elapsed:
  "d < 2 ^ 32 \<Longrightarrow> unat (TIMER_DIFF_32 (t + of_nat d) t) = d"
  by (simp add: TIMER_DIFF_32_def unat_of_nat take_bit_nat_eq_self)

lemma TIMER_DIFF_16_elapsed:
  "d < 2 ^ 16 \<Longrightarrow> unat (TIMER_DIFF_16 (t + of_nat d) t) = d"
  by (simp add: TIMER_DIFF_16_def unat_of_nat take_bit_nat_eq_self)

end
