(* ===== verification/Qmk_Bitwise.thy ===== *)
theory Qmk_Bitwise
  imports Qmk_Prelude
begin

text \<open>
  The bit-twiddling helpers of \<^verbatim>\<open>quantum/bitwise.c\<close>: population count by clearing the lowest set bit,
  index of the highest set bit by binary search, and bit reversal by swapping halves. Each is
  shown equal to its mathematical meaning.
\<close>

subsection \<open>Definitions\<close>

text \<open>Clearing the lowest set bit makes a nonzero word smaller, so the counting loop ends.\<close>

lemma and_minus_one_less: "x \<noteq> 0 \<Longrightarrow> x AND (x - 1) < (x :: 'a::len word)"
proof -
  assume "x \<noteq> 0"
  then have "x - 1 < x" by (simp add: word_less_nat_alt unat_minus_one unat_gt_0)
  moreover have "x AND (x - 1) \<le> x - 1" by (rule word_and_le1)
  ultimately show ?thesis by simp
qed

function bitpop_loop :: "'a::len word \<Rightarrow> u8 \<Rightarrow> u8" where
  "bitpop_loop bits c = (if bits = 0 then c else bitpop_loop (bits AND (bits - 1)) (c + 1))"
  by pat_completeness auto
termination
  by (relation "measure (\<lambda>(bits, c). unat bits)") (auto simp: and_minus_one_less unat_mono)

declare bitpop_loop.simps [simp del]

definition bitpop :: "u8 \<Rightarrow> u8" where
  "bitpop bits = bitpop_loop bits 0"

definition bitpop16 :: "u16 \<Rightarrow> u8" where
  "bitpop16 bits = bitpop_loop bits 0"

definition bitpop32 :: "u32 \<Rightarrow> u8" where
  "bitpop32 bits = bitpop_loop bits 0"

text \<open>One halving step \<^verbatim>\<open>if (bits >> k) { bits >>= k; n += k; }\<close> of the search for the highest set bit.\<close>

fun biton_step :: "nat \<Rightarrow> 'a::len word \<times> u8 \<Rightarrow> 'a word \<times> u8" where
  "biton_step k (bits, n) =
     (if drop_bit k bits \<noteq> 0 then (drop_bit k bits, n + of_nat k) else (bits, n))"

declare biton_step.simps [simp del]

definition biton :: "u8 \<Rightarrow> u8" where
  "biton bits = snd (biton_step 1 (biton_step 2 (biton_step 4 (bits, 0))))"

definition biton16 :: "u16 \<Rightarrow> u8" where
  "biton16 bits = snd (biton_step 1 (biton_step 2 (biton_step 4 (biton_step 8 (bits, 0)))))"

definition biton32 :: "u32 \<Rightarrow> u8" where
  "biton32 bits =
     snd (biton_step 1 (biton_step 2 (biton_step 4 (biton_step 8 (biton_step 16 (bits, 0))))))"

text \<open>One line \<^verbatim>\<open>bits = (bits & m1) << k | (bits & m2) >> k\<close> of the reversal.\<close>

definition swap_bits :: "nat \<Rightarrow> u8 \<Rightarrow> u8 \<Rightarrow> u8 \<Rightarrow> u8" where
  "swap_bits k m1 m2 bits = push_bit k (bits AND m1) OR drop_bit k (bits AND m2)"

definition bitrev :: "u8 \<Rightarrow> u8" where
  "bitrev bits = swap_bits 1 0x55 0xaa (swap_bits 2 0x33 0xcc (swap_bits 4 0x0f 0xf0 bits))"

definition bitrev16 :: "u16 \<Rightarrow> u16" where
  "bitrev16 bits =
     push_bit 8 (ucast (bitrev (ucast (bits AND 0x00ff))))
       OR ucast (bitrev (ucast (drop_bit 8 (bits AND 0xff00))))"

definition bitrev32 :: "u32 \<Rightarrow> u32" where
  "bitrev32 bits =
     push_bit 16 (ucast (bitrev16 (ucast (bits AND 0x0000ffff))))
       OR ucast (bitrev16 (ucast (drop_bit 16 (bits AND 0xffff0000))))"

subsection \<open>Population count\<close>

definition bits_of :: "'a::semiring_bits \<Rightarrow> nat set" where
  "bits_of x = {i. bit x i}"

lemma bits_of_nat_double: "bits_of (2 * n :: nat) = Suc ` bits_of n"
proof -
  have "bit (2 * n) i \<longleftrightarrow> (\<exists>j. i = Suc j \<and> bit n j)" for i
    by (cases i) (auto simp: bit_Suc bit_0)
  then show ?thesis by (auto simp: bits_of_def)
qed

lemma bits_of_nat_double_Suc: "bits_of (Suc (2 * n)) = insert 0 (Suc ` bits_of n)"
proof -
  have "bit (Suc (2 * n)) i \<longleftrightarrow> i = 0 \<or> (\<exists>j. i = Suc j \<and> bit n j)" for i
    by (cases i) (auto simp: bit_Suc bit_0)
  then show ?thesis by (auto simp: bits_of_def)
qed

lemma finite_bits_of_nat [simp]: "finite (bits_of (n :: nat))"
proof (induction n rule: nat_bit_induct)
  case zero
  then show ?case by (simp add: bits_of_def)
qed (simp_all add: bits_of_nat_double bits_of_nat_double_Suc)

lemma even_and_pred: "0 < n \<Longrightarrow> (2 * n) AND (2 * n - 1) = 2 * (n AND (n - 1))" for n :: nat
proof -
  assume "0 < n"
  then obtain m where n: "n = Suc m" by (cases n) auto
  have eq: "2 * n - 1 = Suc (2 * m)" using n by simp
  have "bit ((2 * n) AND Suc (2 * m)) i = bit (2 * (n AND m)) i" for i
    unfolding bit_and_iff by (cases i) (simp_all add: bit_Suc bit_0 bit_and_iff)
  then have "(2 * n) AND Suc (2 * m) = 2 * (n AND m)" by (simp add: bit_eq_iff)
  then show ?thesis using n unfolding eq by simp
qed

lemma odd_and_pred: "Suc (2 * n) AND (Suc (2 * n) - 1) = 2 * n" for n :: nat
proof -
  have "bit (Suc (2 * n) AND (2 * n)) i = bit (2 * n) i" for i
    unfolding bit_and_iff by (cases i) (simp_all add: bit_Suc bit_0)
  then show ?thesis by (simp add: bit_eq_iff)
qed

lemma card_bits_of_and_pred:
  "0 < n \<Longrightarrow> card (bits_of n) = Suc (card (bits_of (n AND (n - 1))))" for n :: nat
proof (induction n rule: nat_bit_induct)
  case zero
  then show ?case by simp
next
  case (even n)
  then show ?case unfolding even_and_pred [OF even.hyps] by (simp add: bits_of_nat_double card_image)
next
  case (odd n)
  then show ?case
    unfolding odd_and_pred by (simp add: bits_of_nat_double_Suc bits_of_nat_double card_image)
qed

lemma bits_of_unat: "bits_of (unat x) = bits_of (x :: 'a::len word)"
  by (simp add: bits_of_def bit_unsigned_iff)

lemma card_bits_of_word_step:
  fixes x :: "'a::len word"
  assumes "x \<noteq> 0"
  shows "card (bits_of x) = Suc (card (bits_of (x AND (x - 1))))"
proof -
  have "0 < unat x" using assms by (simp add: unat_gt_0)
  moreover have "unat (x AND (x - 1)) = unat x AND (unat x - 1)"
    using assms by (simp add: unsigned_and_eq unat_minus_one)
  ultimately show ?thesis
    using card_bits_of_and_pred [of "unat x"] by (metis bits_of_unat)
qed

lemma bitpop_loop_card: "bitpop_loop bits c = c + of_nat (card (bits_of bits))"
proof (induction bits c rule: bitpop_loop.induct)
  case (1 bits c)
  show ?case
  proof (cases "bits = 0")
    case True
    then show ?thesis by (simp add: bitpop_loop.simps bits_of_def)
  next
    case False
    then show ?thesis
      using "1.IH" by (simp add: bitpop_loop.simps [of bits c] card_bits_of_word_step [of bits])
  qed
qed

lemma card_bits_of_word_le: "card (bits_of (x :: 'a::len word)) \<le> LENGTH('a)"
proof -
  have "bits_of x \<subseteq> {..<LENGTH('a)}" by (auto simp: bits_of_def dest: bit_imp_le_length)
  then show ?thesis using card_mono [of "{..<LENGTH('a)}"] by simp
qed

lemma bitpop_card: "unat (bitpop x) = card (bits_of x)"
  using card_bits_of_word_le [of x]
  by (simp add: bitpop_def bitpop_loop_card unat_of_nat take_bit_nat_eq_self)

lemma bitpop16_card: "unat (bitpop16 x) = card (bits_of x)"
  using card_bits_of_word_le [of x]
  by (simp add: bitpop16_def bitpop_loop_card unat_of_nat take_bit_nat_eq_self)

lemma bitpop32_card: "unat (bitpop32 x) = card (bits_of x)"
  using card_bits_of_word_le [of x]
  by (simp add: bitpop32_def bitpop_loop_card unat_of_nat take_bit_nat_eq_self)

subsection \<open>Highest set bit\<close>

text \<open>
  The search keeps \<open>bits\<close> equal to the input shifted right by the index found so far, nonzero, and
  below two to the width still to be searched.
\<close>

definition biton_inv :: "nat \<Rightarrow> 'a::len word \<Rightarrow> 'a word \<times> u8 \<Rightarrow> bool" where
  "biton_inv w x s \<longleftrightarrow>
     fst s \<noteq> 0 \<and> unat (fst s) < 2 ^ w \<and> fst s = drop_bit (unat (snd s)) x \<and> unat (snd s) + w \<le> 32"

lemma biton_step_inv:
  assumes "biton_inv (2 * k) x s"
  shows "biton_inv k x (biton_step k s)"
proof -
  obtain bits n where s: "s = (bits, n)" by (cases s)
  have inv: "bits \<noteq> 0" "unat bits < 2 ^ (2 * k)" "bits = drop_bit (unat n) x" "unat n + 2 * k \<le> 32"
    using assms by (auto simp: s biton_inv_def)
  have un: "unat (n + of_nat k) = unat n + k"
    using inv(4) by (simp add: unat_word_ariths unat_of_nat take_bit_nat_eq_self)
  have pw: "(2 :: nat) ^ (2 * k) = 2 ^ k * 2 ^ k" by (simp add: mult_2 power_add)
  show ?thesis
  proof (cases "drop_bit k bits = 0")
    case True
    then have "unat bits div 2 ^ k = 0"
      by (metis unat_0 unat_drop_bit_eq drop_bit_eq_div)
    then have "unat bits < 2 ^ k" by (simp add: div_eq_0_iff)
    with True inv show ?thesis by (simp add: s biton_inv_def biton_step.simps)
  next
    case False
    have "unat (drop_bit k bits) = unat bits div 2 ^ k"
      by (metis unat_drop_bit_eq drop_bit_eq_div)
    then have "unat (drop_bit k bits) < 2 ^ k"
      using inv(2) pw by (simp add: less_mult_imp_div_less)
    with False inv un show ?thesis
      by (simp add: s biton_inv_def biton_step.simps drop_bit_drop_bit add.commute)
  qed
qed

lemma biton_inv_final:
  assumes "biton_inv 1 x s"
  shows "2 ^ unat (snd s) \<le> unat x \<and> unat x < 2 ^ Suc (unat (snd s))"
proof -
  have "unat (fst s) \<noteq> 0" "unat (fst s) < 2" using assms by (auto simp: biton_inv_def unat_eq_0)
  then have "unat (fst s) = 1" by linarith
  then have "fst s = 1" by (metis unat_1 word_unat_eq_iff)
  then have "unat x div 2 ^ unat (snd s) = 1"
    using assms unfolding biton_inv_def by (metis unat_1 unat_drop_bit_eq drop_bit_eq_div)
  then show ?thesis
    by (metis Suc_eq_plus1 div_less_iff_less_mult less_eq_div_iff_mult_less_eq
        mult_1 order_refl one_add_one power_Suc lessI zero_less_numeral zero_less_power Suc_1)
qed

lemma biton_inv_start: "x \<noteq> 0 \<Longrightarrow> LENGTH('a) \<le> 32 \<Longrightarrow> biton_inv LENGTH('a) x (x :: 'a::len word, 0)"
  using unsigned_less [of x, where ?'a = nat] by (simp add: biton_inv_def)

lemmas biton_chain = biton_step_inv [of 16, simplified] biton_step_inv [of 8, simplified]
  biton_step_inv [of 4, simplified] biton_step_inv [of 2, simplified]
  biton_step_inv [of 1, simplified]

lemma biton_highest:
  "x \<noteq> 0 \<Longrightarrow> 2 ^ unat (biton x) \<le> unat x \<and> unat x < 2 ^ Suc (unat (biton x))"
proof -
  assume "x \<noteq> 0"
  then have start: "biton_inv 8 x (x, 0)" using biton_inv_start [of x] by simp
  show ?thesis unfolding biton_def by (rule biton_inv_final) (simp add: biton_chain start)
qed

lemma biton16_highest:
  "x \<noteq> 0 \<Longrightarrow> 2 ^ unat (biton16 x) \<le> unat x \<and> unat x < 2 ^ Suc (unat (biton16 x))"
proof -
  assume "x \<noteq> 0"
  then have start: "biton_inv 16 x (x, 0)" using biton_inv_start [of x] by simp
  show ?thesis unfolding biton16_def by (rule biton_inv_final) (simp add: biton_chain start)
qed

lemma biton32_highest:
  "x \<noteq> 0 \<Longrightarrow> 2 ^ unat (biton32 x) \<le> unat x \<and> unat x < 2 ^ Suc (unat (biton32 x))"
proof -
  assume "x \<noteq> 0"
  then have start: "biton_inv 32 x (x, 0)" using biton_inv_start [of x] by simp
  show ?thesis unfolding biton32_def by (rule biton_inv_final) (simp add: biton_chain start)
qed

lemma highest_bit_unique:
  fixes x :: "'a::len word"
  assumes "2 ^ n \<le> unat x" "unat x < 2 ^ Suc n"
  shows "bit x n \<and> (\<forall>m > n. \<not> bit x m)"
proof -
  have "unat x div 2 ^ n = 1" using assms by (simp add: div_nat_eqI)
  then have "bit (unat x) n" by (simp add: bit_iff_odd)
  moreover have "\<not> bit (unat x) m" if "m > n" for m
  proof -
    have "(2 :: nat) ^ Suc n \<le> 2 ^ m" using that by (intro power_increasing) auto
    then have "unat x div 2 ^ m = 0" using assms(2) by simp
    then show ?thesis by (simp add: bit_iff_odd)
  qed
  ultimately show ?thesis by (simp add: bit_unsigned_iff)
qed

text \<open>On a zero argument every search returns 0, as the comment in the source says.\<close>

lemma biton_zero [simp]: "biton 0 = 0" "biton16 0 = 0" "biton32 0 = 0"
  by (simp_all add: biton_def biton16_def biton32_def biton_step.simps)

lemma biton_less: "unat (biton x) < 8"
proof (cases "x = 0")
  case False
  then have "bit x (unat (biton x))" using biton_highest highest_bit_unique by blast
  then show ?thesis by (auto dest: bit_imp_le_length)
qed simp

subsection \<open>Bit reversal\<close>

lemma swap_bits_bit:
  assumes "i < 8"
  shows "bit (swap_bits k m1 m2 x) i \<longleftrightarrow>
    (k \<le> i \<and> bit x (i - k) \<and> bit m1 (i - k)) \<or> (bit x (k + i) \<and> bit m2 (k + i))"
  using assms
  by (auto simp: swap_bits_def bit_or_iff bit_and_iff bit_push_bit_iff bit_drop_bit_eq possible_bit_def)

lemma less8_cases: "i < 8 \<longleftrightarrow> i \<in> {0, 1, 2, 3, 4, 5, 6, 7 :: nat}"
  by auto

lemma bit_u8_ge [simp]: "8 \<le> n \<Longrightarrow> \<not> bit (x :: u8) n"
  by (auto dest: bit_imp_le_length)

lemma bitrev_bit: "i < 8 \<Longrightarrow> bit (bitrev x) i = bit x (7 - i)"
  unfolding bitrev_def less8_cases
  by (elim insertE emptyE) (simp_all add: swap_bits_bit bit_numeral_rec)

lemma ucast_low_byte: "(ucast (x AND 0x00ff :: u16) :: u8) = ucast x"
proof -
  have m: "(0x00ff :: u16) = mask 8" by (simp add: mask_eq_exp_minus_1)
  show ?thesis unfolding m by (rule bit_word_eqI) (simp add: bit_ucast_iff bit_and_iff bit_mask_iff)
qed

lemma ucast_high_byte: "(ucast (drop_bit 8 (x AND 0xff00 :: u16)) :: u8) = ucast (drop_bit 8 x)"
proof -
  have m: "(0xff00 :: u16) = NOT (mask 8)" by (simp add: mask_eq_exp_minus_1)
  show ?thesis unfolding m
    by (rule bit_word_eqI)
      (auto simp: bit_ucast_iff bit_and_iff bit_not_iff bit_mask_iff bit_drop_bit_eq possible_bit_def
        dest: bit_imp_le_length)
qed

lemma bitrev16_bit: "i < 16 \<Longrightarrow> bit (bitrev16 x) i = bit x (15 - i)"
proof -
  assume i: "i < 16"
  show ?thesis
  proof (cases "i < 8")
    case True
    have "7 - i < 8" by simp
    with True show ?thesis
      by (simp add: bitrev16_def ucast_low_byte ucast_high_byte bit_or_iff bit_push_bit_iff
          bit_ucast_iff bitrev_bit bit_drop_bit_eq)
  next
    case False
    with i have "15 - i = 7 - (i - 8)" "i - 8 < 16" "15 - i < 8" by auto
    with False i show ?thesis
      by (simp add: bitrev16_def ucast_low_byte ucast_high_byte bit_or_iff bit_push_bit_iff
          bit_ucast_iff bitrev_bit possible_bit_def)
  qed
qed

lemma bitrev_bitrev: "bitrev (bitrev x) = x"
  by (rule bit_word_eqI) (simp add: bitrev_bit)

lemma bitrev16_bitrev16: "bitrev16 (bitrev16 x) = x"
  by (rule bit_word_eqI) (simp add: bitrev16_bit)

end
