(* ===== verification/Qmk_Report.thy ===== *)
theory Qmk_Report
  imports Qmk_Bitwise
begin

text \<open>
  The keyboard report of \<^verbatim>\<open>tmk_core/protocol/report.h\<close> and its operations
  (\<^verbatim>\<open>tmk_core/protocol/report.c\<close>), for the build of the keyboard: NKRO enabled, no report id in the boot
  report, no ring-buffered 6KRO.  The report is a union, so it is modelled as its bytes:
  the boot view has \<open>mods\<close> at offset 0 and six key bytes from offset 2, the NKRO view
  has its report id at offset 0, its own \<open>mods\<close> at offset 1 and thirty bitmap bytes from offset 2.
  The two key areas overlap, exactly as they do in memory.

  Both views satisfy one contract, the locale \<open>key_report\<close>: what adding, deleting and clearing do
  to the set of keys the host sees.  The absence of stuck keys is proved once from the contract.
\<close>

subsection \<open>The report and its two views\<close>

definition KEYBOARD_REPORT_KEYS :: nat where "KEYBOARD_REPORT_KEYS = 6"
definition SHARED_EPSIZE :: nat where "SHARED_EPSIZE = 32"
definition KEYBOARD_REPORT_BITS :: nat where "KEYBOARD_REPORT_BITS = SHARED_EPSIZE - 2"

lemmas report_sizes [simp] = KEYBOARD_REPORT_KEYS_def KEYBOARD_REPORT_BITS_def SHARED_EPSIZE_def

text \<open>The bytes of \<^verbatim>\<open>report_keyboard_t\<close>: as many as its longest view, the NKRO one.\<close>

type_synonym report_keyboard_t = "u8 list"

definition report_size :: nat where "report_size = KEYBOARD_REPORT_BITS + 2"

lemma report_size_eq [simp]: "report_size = 32"
  by (simp add: report_size_def)

definition empty_report :: report_keyboard_t where "empty_report = replicate report_size 0"

definition wf_report :: "report_keyboard_t \<Rightarrow> bool" where
  "wf_report r \<longleftrightarrow> length r = report_size"

definition report_mods :: "report_keyboard_t \<Rightarrow> u8" where "report_mods r = r ! 0"
definition report_keys :: "report_keyboard_t \<Rightarrow> u8 list" where
  "report_keys r = take KEYBOARD_REPORT_KEYS (drop 2 r)"
definition nkro_mods :: "report_keyboard_t \<Rightarrow> u8" where "nkro_mods r = r ! 1"
definition nkro_bits :: "report_keyboard_t \<Rightarrow> u8 list" where
  "nkro_bits r = take KEYBOARD_REPORT_BITS (drop 2 r)"

definition set_key :: "report_keyboard_t \<Rightarrow> nat \<Rightarrow> u8 \<Rightarrow> report_keyboard_t" where
  "set_key r i v = r[i + 2 := v]"

definition set_nkro_bits :: "report_keyboard_t \<Rightarrow> nat \<Rightarrow> u8 \<Rightarrow> report_keyboard_t" where
  "set_nkro_bits r i v = r[i + 2 := v]"

text \<open>
  The two globals every function consults: the protocol the host selected and the NKRO switch of
  \<^verbatim>\<open>keymap_config\<close>.
\<close>

record host_mode =
  keyboard_protocol :: u8
  nkro_enabled :: bool

definition nkro_on :: "host_mode \<Rightarrow> bool" where
  "nkro_on h \<longleftrightarrow> keyboard_protocol h \<noteq> 0 \<and> nkro_enabled h"

subsection \<open>Operations\<close>

fun count_nonzero :: "u8 list \<Rightarrow> u8 \<Rightarrow> u8" where
  "count_nonzero [] cnt = cnt"
| "count_nonzero (b # bs) cnt = count_nonzero bs (if b \<noteq> 0 then cnt + 1 else cnt)"

definition has_anykey :: "host_mode \<Rightarrow> report_keyboard_t \<Rightarrow> u8" where
  "has_anykey h r = count_nonzero (if nkro_on h then nkro_bits r else report_keys r) 0"

text \<open>
  The scan of the bitmap stops at the first nonzero byte or at the end.  When it stops at the end the
  source still reads \<^verbatim>\<open>bits[KEYBOARD_REPORT_BITS]\<close>, one byte past the array: \<open>None\<close> here.
\<close>

fun first_nonzero :: "u8 list \<Rightarrow> nat \<Rightarrow> nat" where
  "first_nonzero [] i = i"
| "first_nonzero (b # bs) i = (if b \<noteq> 0 then i else first_nonzero bs (Suc i))"

definition get_first_key :: "host_mode \<Rightarrow> report_keyboard_t \<Rightarrow> u8 option" where
  "get_first_key h r =
     (if nkro_on h
      then (let i = first_nonzero (nkro_bits r) 0
            in if i < KEYBOARD_REPORT_BITS
               then Some (push_bit 3 (of_nat i) OR biton (nkro_bits r ! i))
               else None)
      else Some (report_keys r ! 0))"

definition is_key_pressed :: "host_mode \<Rightarrow> report_keyboard_t \<Rightarrow> u8 \<Rightarrow> bool" where
  "is_key_pressed h r key =
     (if key = 0 then False
      else if nkro_on h
      then (if unat (drop_bit 3 key) < KEYBOARD_REPORT_BITS
            then nkro_bits r ! unat (drop_bit 3 key) AND bitmask (unat (key AND 7)) \<noteq> 0
            else False)
      else key \<in> set (report_keys r))"

text \<open>
  \<open>key_slot\<close> is the scan of \<^verbatim>\<open>add_key_byte\<close>: it stops at the key if present (index below the number of
  keys) and remembers the first free slot, \<open>-1\<close> if there is none.
\<close>

fun key_slot :: "u8 \<Rightarrow> u8 list \<Rightarrow> nat \<Rightarrow> int \<Rightarrow> nat \<times> int" where
  "key_slot code [] i free = (i, free)"
| "key_slot code (k # ks) i free =
     (if k = code then (i, free)
      else key_slot code ks (Suc i) (if free = -1 \<and> k = 0 then int i else free))"

definition add_key_byte :: "report_keyboard_t \<Rightarrow> u8 \<Rightarrow> report_keyboard_t" where
  "add_key_byte r code =
     (case key_slot code (report_keys r) 0 (-1) of (i, free) \<Rightarrow>
        if i = KEYBOARD_REPORT_KEYS then if free \<noteq> -1 then set_key r (nat free) code else r else r)"

fun del_key_byte_loop :: "nat list \<Rightarrow> u8 \<Rightarrow> report_keyboard_t \<Rightarrow> report_keyboard_t" where
  "del_key_byte_loop [] code r = r"
| "del_key_byte_loop (i # is) code r =
     del_key_byte_loop is code (if report_keys r ! i = code then set_key r i 0 else r)"

definition del_key_byte :: "report_keyboard_t \<Rightarrow> u8 \<Rightarrow> report_keyboard_t" where
  "del_key_byte r code = del_key_byte_loop [0..<KEYBOARD_REPORT_KEYS] code r"

definition add_key_bit :: "report_keyboard_t \<Rightarrow> u8 \<Rightarrow> report_keyboard_t" where
  "add_key_bit r code =
     (let i = unat (drop_bit 3 code)
      in if i < KEYBOARD_REPORT_BITS
         then set_nkro_bits r i (nkro_bits r ! i OR bitmask (unat (code AND 7)))
         else r)"

definition del_key_bit :: "report_keyboard_t \<Rightarrow> u8 \<Rightarrow> report_keyboard_t" where
  "del_key_bit r code =
     (let i = unat (drop_bit 3 code)
      in if i < KEYBOARD_REPORT_BITS
         then set_nkro_bits r i (nkro_bits r ! i AND NOT (bitmask (unat (code AND 7))))
         else r)"

definition add_key_to_report :: "host_mode \<Rightarrow> report_keyboard_t \<Rightarrow> u8 \<Rightarrow> report_keyboard_t" where
  "add_key_to_report h r key = (if nkro_on h then add_key_bit r key else add_key_byte r key)"

definition del_key_from_report :: "host_mode \<Rightarrow> report_keyboard_t \<Rightarrow> u8 \<Rightarrow> report_keyboard_t" where
  "del_key_from_report h r key = (if nkro_on h then del_key_bit r key else del_key_byte r key)"

definition clear_keys_from_report :: "host_mode \<Rightarrow> report_keyboard_t \<Rightarrow> report_keyboard_t" where
  "clear_keys_from_report h r =
     (if nkro_on h
      then take 2 r @ replicate KEYBOARD_REPORT_BITS 0 @ drop (KEYBOARD_REPORT_BITS + 2) r
      else take 2 r @ replicate KEYBOARD_REPORT_KEYS 0 @ drop (KEYBOARD_REPORT_KEYS + 2) r)"

subsection \<open>Byte-level facts\<close>

lemma report_keys_set_key [simp]:
  "wf_report r \<Longrightarrow> i < 6 \<Longrightarrow> report_keys (set_key r i v) = (report_keys r)[i := v]"
  by (simp add: report_keys_def set_key_def wf_report_def drop_update_swap take_update_swap)

lemma nkro_bits_set [simp]:
  "wf_report r \<Longrightarrow> i < 30 \<Longrightarrow> nkro_bits (set_nkro_bits r i v) = (nkro_bits r)[i := v]"
  by (simp add: nkro_bits_def set_nkro_bits_def wf_report_def drop_update_swap take_update_swap)

lemma length_report_keys [simp]: "wf_report r \<Longrightarrow> length (report_keys r) = 6"
  by (simp add: report_keys_def wf_report_def)

lemma length_nkro_bits [simp]: "wf_report r \<Longrightarrow> length (nkro_bits r) = 30"
  by (simp add: nkro_bits_def wf_report_def)

lemma wf_set_key [simp]: "wf_report (set_key r i v) = wf_report r"
  by (simp add: wf_report_def set_key_def)

lemma wf_set_nkro_bits [simp]: "wf_report (set_nkro_bits r i v) = wf_report r"
  by (simp add: wf_report_def set_nkro_bits_def)

lemma report_mods_set_key [simp]: "report_mods (set_key r i v) = report_mods r"
  by (simp add: report_mods_def set_key_def)

lemma report_mods_set_nkro_bits [simp]: "report_mods (set_nkro_bits r i v) = report_mods r"
  by (simp add: report_mods_def set_nkro_bits_def)

lemma wf_empty_report [simp]: "wf_report empty_report"
  by (simp add: wf_report_def empty_report_def)

subsection \<open>The boot view: six key bytes\<close>

lemma key_slot_eq:
  "key_slot code ks i free =
     (if code \<in> set ks then key_slot code ks i free
      else (i + length ks,
            if free \<noteq> -1 then free
            else if 0 \<in> set ks then int (i + length (takeWhile (\<lambda>k. k \<noteq> 0) ks)) else -1))"
  by (induction ks arbitrary: i free) auto

lemma key_slot_found: "code \<in> set ks \<Longrightarrow> fst (key_slot code ks i free) < i + length ks"
proof (induction ks arbitrary: i free)
  case (Cons k ks)
  then show ?case using Cons.IH [of "Suc i"] by auto
qed simp

lemma add_key_byte_eq:
  assumes "wf_report r"
  shows "add_key_byte r code =
    (if code \<in> set (report_keys r) then r
     else if 0 \<in> set (report_keys r)
     then set_key r (length (takeWhile (\<lambda>k. k \<noteq> 0) (report_keys r))) code
     else r)"
proof (cases "code \<in> set (report_keys r)")
  case True
  then have "fst (key_slot code (report_keys r) 0 (-1)) < 6"
    using key_slot_found [OF True, of 0 "-1"] assms by simp
  with True show ?thesis by (auto simp: add_key_byte_def split: prod.splits)
next
  case False
  then show ?thesis
    using assms by (subst add_key_byte_def, subst key_slot_eq) auto
qed

lemma free_slot_bound:
  "0 \<in> set ks \<Longrightarrow> length (takeWhile (\<lambda>k. k \<noteq> 0) ks) < length ks"
  by (induction ks) auto

lemma nth_free_slot:
  "0 \<in> set ks \<Longrightarrow> ks ! length (takeWhile (\<lambda>k. k \<noteq> 0) ks) = (0 :: 'a::zero)"
  by (induction ks) auto

lemma del_key_byte_loop_keys:
  assumes "wf_report r" "set is \<subseteq> {..<6}"
  shows "wf_report (del_key_byte_loop is code r) \<and>
    (\<forall>j < 6. report_keys (del_key_byte_loop is code r) ! j =
       (if j \<in> set is \<and> report_keys r ! j = code then 0 else report_keys r ! j))"
  using assms
proof (induction "is" arbitrary: r)
  case Nil
  then show ?case by simp
next
  case (Cons i "is")
  define r' where "r' = (if report_keys r ! i = code then set_key r i 0 else r)"
  have "i < 6" "set is \<subseteq> {..<6}" and wf: "wf_report r'" using Cons.prems by (auto simp: r'_def)
  then have keys: "report_keys r' ! j = (if j = i \<and> report_keys r ! j = code then 0 else report_keys r ! j)"
    if "j < 6" for j using that Cons.prems(1) by (auto simp: nth_list_update r'_def)
  have step: "del_key_byte_loop (i # is) code r = del_key_byte_loop is code r'" by (simp add: r'_def)
  show ?case unfolding step using Cons.IH [OF wf \<open>set is \<subseteq> {..<6}\<close>] by (auto simp: keys)
qed

lemma del_key_byte_keys:
  assumes "wf_report r"
  shows "wf_report (del_key_byte r code)"
    and "report_keys (del_key_byte r code) = map (\<lambda>k. if k = code then 0 else k) (report_keys r)"
proof -
  have sub: "set [0..<6] \<subseteq> {..<6 :: nat}" by auto
  note loop = del_key_byte_loop_keys [OF assms sub, of code]
  then show wf: "wf_report (del_key_byte r code)" by (simp add: del_key_byte_def)
  show "report_keys (del_key_byte r code) = map (\<lambda>k. if k = code then 0 else k) (report_keys r)"
    using loop wf assms by (intro nth_equalityI) (auto simp: del_key_byte_def)
qed

definition pressed_keys :: "report_keyboard_t \<Rightarrow> u8 set" where
  "pressed_keys r = {k. k \<noteq> 0 \<and> k \<in> set (report_keys r)}"

text \<open>Each held key occupies one slot only.\<close>

definition wf_boot :: "report_keyboard_t \<Rightarrow> bool" where
  "wf_boot r \<longleftrightarrow> wf_report r \<and> distinct (filter (\<lambda>k. k \<noteq> 0) (report_keys r))"

lemma update_free_slot:
  assumes "0 \<in> set ks" "v \<notin> set ks" "distinct (filter (\<lambda>k. k \<noteq> 0) ks)"
  defines "i \<equiv> length (takeWhile (\<lambda>k. k \<noteq> 0) ks)"
  shows "distinct (filter (\<lambda>k. k \<noteq> 0) (ks[i := v :: u8]))"
    and "set (ks[i := v]) - {0} = insert v (set ks - {0})"
proof -
  have i: "i < length ks" "ks ! i = 0"
    using assms(1) by (auto simp: i_def free_slot_bound nth_free_slot)
  then have ks: "ks = take i ks @ 0 # drop (Suc i) ks" by (metis id_take_nth_drop)
  have upd: "ks[i := v] = take i ks @ v # drop (Suc i) ks" using i by (simp add: upd_conv_take_nth_drop)
  have "v \<noteq> 0" using assms(1,2) by auto
  have nin: "v \<notin> set (take i ks)" "v \<notin> set (drop (Suc i) ks)"
    using assms(2) by (auto dest: in_set_takeD in_set_dropD)
  have "distinct (filter (\<lambda>k. k \<noteq> 0) (take i ks @ 0 # drop (Suc i) ks))"
    using assms(3) ks by simp
  then show "distinct (filter (\<lambda>k. k \<noteq> 0) (ks[i := v]))"
    unfolding upd using nin \<open>v \<noteq> 0\<close> by auto
  have "set ks = insert 0 (set (take i ks) \<union> set (drop (Suc i) ks))"
    by (subst ks) auto
  then show "set (ks[i := v]) - {0} = insert v (set ks - {0})"
    unfolding upd using \<open>v \<noteq> 0\<close> by auto
qed

lemma wf_boot_add_key_byte: "wf_boot r \<Longrightarrow> wf_boot (add_key_byte r k)"
  using free_slot_bound [of "report_keys r"] update_free_slot(1) [of "report_keys r" k]
  by (auto simp: wf_boot_def add_key_byte_eq)

lemma pressed_keys_alt: "pressed_keys r = set (report_keys r) - {0}"
  by (auto simp: pressed_keys_def)

lemma pressed_add_key_byte:
  assumes "wf_boot r"
  shows "pressed_keys (add_key_byte r k) =
    (if k \<noteq> 0 \<and> 0 \<in> set (report_keys r) then insert k (pressed_keys r) else pressed_keys r)"
proof -
  have wf: "wf_report r" and d: "distinct (filter (\<lambda>k. k \<noteq> 0) (report_keys r))"
    using assms by (auto simp: wf_boot_def)
  show ?thesis
    using wf free_slot_bound [of "report_keys r"] update_free_slot(2) [OF _ _ d, of k]
    by (auto simp: add_key_byte_eq pressed_keys_alt)
qed

lemma wf_boot_del_key_byte: "wf_boot r \<Longrightarrow> wf_boot (del_key_byte r k)"
proof -
  have "filter (\<lambda>x. x \<noteq> 0) (map (\<lambda>x. if x = k then 0 else x) xs) = filter (\<lambda>x. x \<noteq> k) (filter (\<lambda>x. x \<noteq> 0) xs)"
    for xs by (induction xs) auto
  then show "wf_boot r \<Longrightarrow> wf_boot (del_key_byte r k)"
    by (simp add: wf_boot_def del_key_byte_keys del: filter_filter)
qed

lemma pressed_del_key_byte: "wf_boot r \<Longrightarrow> pressed_keys (del_key_byte r k) = pressed_keys r - {k}"
  by (auto simp: pressed_keys_alt wf_boot_def del_key_byte_keys)

subsection \<open>The NKRO view: a bitmap\<close>

text \<open>The bitmap position of a key code: byte \<^verbatim>\<open>code >> 3\<close>, bit \<^verbatim>\<open>code & 7\<close>.\<close>

definition key_byte :: "u8 \<Rightarrow> nat" where "key_byte k = unat (drop_bit 3 k)"
definition key_bit :: "u8 \<Rightarrow> nat" where "key_bit k = unat (k AND 7)"

lemma and_7_take_bit: "k AND 7 = take_bit 3 (k :: u8)"
  by (simp add: take_bit_eq_mask mask_eq_exp_minus_1)

lemma key_bit_less [simp]: "key_bit k < 8"
proof -
  have "k AND 7 \<le> 7" by (rule word_and_le1)
  then have "unat (k AND 7) \<le> unat (7 :: u8)" by (simp add: word_le_nat_alt)
  then show ?thesis by (simp add: key_bit_def)
qed

lemma key_position_inject: "key_byte k = key_byte k' \<and> key_bit k = key_bit k' \<longleftrightarrow> k = k'"
proof
  assume "key_byte k = key_byte k' \<and> key_bit k = key_bit k'"
  then have "drop_bit 3 k = drop_bit 3 k'" "take_bit 3 k = take_bit 3 k'"
    by (auto simp: key_byte_def key_bit_def and_7_take_bit word_unat_eq_iff)
  then show "k = k'" by (metis bits_ident)
qed simp

definition pressed_bits :: "report_keyboard_t \<Rightarrow> u8 set" where
  "pressed_bits r = {k. key_byte k < 30 \<and> bit (nkro_bits r ! key_byte k) (key_bit k)}"

lemma wf_add_key_bit: "wf_report r \<Longrightarrow> wf_report (add_key_bit r k)"
  by (simp add: add_key_bit_def Let_def)

lemma wf_del_key_bit: "wf_report r \<Longrightarrow> wf_report (del_key_bit r k)"
  by (simp add: del_key_bit_def Let_def)

lemma nkro_bits_add_key_bit:
  "wf_report r \<Longrightarrow> key_byte j < 30 \<Longrightarrow>
     bit (nkro_bits (add_key_bit r k) ! key_byte j) (key_bit j) \<longleftrightarrow>
     bit (nkro_bits r ! key_byte j) (key_bit j) \<or> j = k"
  using key_position_inject [of j k] key_bit_less [of j]
  by (auto simp: add_key_bit_def Let_def nth_list_update bit_or_iff bit_bitmask
      simp flip: key_byte_def key_bit_def)

lemma nkro_bits_del_key_bit:
  "wf_report r \<Longrightarrow> key_byte j < 30 \<Longrightarrow>
     bit (nkro_bits (del_key_bit r k) ! key_byte j) (key_bit j) \<longleftrightarrow>
     bit (nkro_bits r ! key_byte j) (key_bit j) \<and> j \<noteq> k"
  using key_position_inject [of j k] key_bit_less [of j]
  by (auto simp: del_key_bit_def Let_def nth_list_update bit_and_iff bit_not_iff bit_bitmask
      simp flip: key_byte_def key_bit_def)

lemma pressed_add_key_bit:
  "wf_report r \<Longrightarrow> pressed_bits (add_key_bit r k) =
     (if key_byte k < 30 then insert k (pressed_bits r) else pressed_bits r)"
  by (auto simp: pressed_bits_def nkro_bits_add_key_bit)

lemma pressed_del_key_bit:
  "wf_report r \<Longrightarrow> pressed_bits (del_key_bit r k) = pressed_bits r - {k}"
  by (auto simp: pressed_bits_def nkro_bits_del_key_bit)

subsection \<open>Clearing\<close>

lemma clear_keys_boot:
  assumes "\<not> nkro_on h" "wf_report r"
  shows "wf_report (clear_keys_from_report h r)" "report_keys (clear_keys_from_report h r) = replicate 6 0"
  using assms by (auto simp: clear_keys_from_report_def wf_report_def report_keys_def)

lemma clear_keys_nkro:
  assumes "nkro_on h" "wf_report r"
  shows "wf_report (clear_keys_from_report h r)" "nkro_bits (clear_keys_from_report h r) = replicate 30 0"
  using assms by (auto simp: clear_keys_from_report_def wf_report_def nkro_bits_def)

subsection \<open>The contract of a report\<close>

datatype key_event = Press u8 | Release u8

text \<open>The keys a sequence of events holds down, starting from the set \<open>S\<close>.\<close>

fun held :: "key_event list \<Rightarrow> u8 set \<Rightarrow> u8 set" where
  "held [] S = S"
| "held (Press k # es) S = held es (insert k S)"
| "held (Release k # es) S = held es (S - {k})"

lemma held_mono: "S \<subseteq> T \<Longrightarrow> held es S \<subseteq> held es T"
  by (induction es S arbitrary: T rule: held.induct) (auto, blast+)

text \<open>Applying a sequence of events to a report with given add and delete operations.\<close>

fun run_events :: "('r \<Rightarrow> u8 \<Rightarrow> 'r) \<Rightarrow> ('r \<Rightarrow> u8 \<Rightarrow> 'r) \<Rightarrow> key_event list \<Rightarrow> 'r \<Rightarrow> 'r" where
  "run_events add del [] r = r"
| "run_events add del (Press k # es) r = run_events add del es (add r k)"
| "run_events add del (Release k # es) r = run_events add del es (del r k)"

locale key_report =
  fixes add :: "'r \<Rightarrow> u8 \<Rightarrow> 'r"
    and del :: "'r \<Rightarrow> u8 \<Rightarrow> 'r"
    and clear :: "'r \<Rightarrow> 'r"
    and pressed :: "'r \<Rightarrow> u8 set"
    and wf :: "'r \<Rightarrow> bool"
    and room :: "'r \<Rightarrow> u8 \<Rightarrow> bool"
  assumes wf_add: "wf r \<Longrightarrow> wf (add r k)"
    and wf_del: "wf r \<Longrightarrow> wf (del r k)"
    and wf_clear: "wf r \<Longrightarrow> wf (clear r)"
    and pressed_add: "wf r \<Longrightarrow> pressed (add r k) = (if room r k then insert k (pressed r) else pressed r)"
    and pressed_del: "wf r \<Longrightarrow> pressed (del r k) = pressed r - {k}"
    and pressed_clear: "wf r \<Longrightarrow> pressed (clear r) = {}"
begin

lemma wf_run: "wf r \<Longrightarrow> wf (run_events add del es r)"
proof (induction es arbitrary: r)
  case (Cons e es)
  then show ?case by (cases e) (auto simp: wf_add wf_del)
qed simp

text \<open>A report never shows a key that is not held.\<close>

lemma run_sound: "wf r \<Longrightarrow> pressed (run_events add del es r) \<subseteq> held es (pressed r)"
proof (induction es arbitrary: r)
  case Nil
  then show ?case by simp
next
  case (Cons e es)
  show ?case
  proof (cases e)
    case (Press k)
    have "pressed (run_events add del es (add r k)) \<subseteq> held es (pressed (add r k))"
      using Cons by (simp add: wf_add)
    also have "\<dots> \<subseteq> held es (insert k (pressed r))"
      using Cons.prems by (intro held_mono) (auto simp: pressed_add)
    finally show ?thesis using Press by simp
  next
    case (Release k)
    then show ?thesis using Cons by (simp add: wf_del pressed_del flip: pressed_del)
  qed
qed

lemma run_no_stuck_key:
  "wf r \<Longrightarrow> held es (pressed r) = {} \<Longrightarrow> pressed (run_events add del es r) = {}"
  using run_sound by blast

text \<open>While there is room for every press, the report shows exactly the held keys.\<close>

fun roomy :: "key_event list \<Rightarrow> 'r \<Rightarrow> bool" where
  "roomy [] r = True"
| "roomy (Press k # es) r = (room r k \<and> roomy es (add r k))"
| "roomy (Release k # es) r = roomy es (del r k)"

lemma run_exact: "wf r \<Longrightarrow> roomy es r \<Longrightarrow> pressed (run_events add del es r) = held es (pressed r)"
proof (induction es arbitrary: r)
  case Nil
  then show ?case by simp
next
  case (Cons e es)
  then show ?case by (cases e) (auto simp: wf_add wf_del pressed_add pressed_del)
qed

end

text \<open>What the host sees of a report, and when a press still fits, in the mode the host is in.\<close>

definition report_pressed :: "host_mode \<Rightarrow> report_keyboard_t \<Rightarrow> u8 set" where
  "report_pressed h r = (if nkro_on h then pressed_bits r else pressed_keys r)"

definition report_wf :: "host_mode \<Rightarrow> report_keyboard_t \<Rightarrow> bool" where
  "report_wf h r = (if nkro_on h then wf_report r else wf_boot r)"

definition report_room :: "host_mode \<Rightarrow> report_keyboard_t \<Rightarrow> u8 \<Rightarrow> bool" where
  "report_room h r k = (if nkro_on h then key_byte k < 30 else k \<noteq> 0 \<and> 0 \<in> set (report_keys r))"

lemmas report_mode_defs = report_pressed_def report_wf_def report_room_def

interpretation report: key_report "add_key_to_report h" "del_key_from_report h"
  "clear_keys_from_report h" "report_pressed h" "report_wf h" "report_room h"
  for h
proof unfold_locales
  fix r k
  assume wf: "report_wf h r"
  show "report_wf h (add_key_to_report h r k)"
    using wf by (simp add: report_mode_defs add_key_to_report_def wf_boot_add_key_byte wf_add_key_bit)
  show "report_wf h (del_key_from_report h r k)"
    using wf by (simp add: report_mode_defs del_key_from_report_def wf_boot_del_key_byte wf_del_key_bit)
  show "report_wf h (clear_keys_from_report h r)"
    using wf by (auto simp: report_mode_defs wf_boot_def clear_keys_boot clear_keys_nkro)
  show "report_pressed h (add_key_to_report h r k) =
      (if report_room h r k then insert k (report_pressed h r) else report_pressed h r)"
    using wf by (auto simp: report_mode_defs add_key_to_report_def pressed_add_key_byte pressed_add_key_bit)
  show "report_pressed h (del_key_from_report h r k) = report_pressed h r - {k}"
    using wf by (simp add: report_mode_defs del_key_from_report_def pressed_del_key_byte pressed_del_key_bit)
  show "report_pressed h (clear_keys_from_report h r) = {}"
    using wf
    by (auto simp: report_mode_defs wf_boot_def clear_keys_boot clear_keys_nkro pressed_keys_alt pressed_bits_def)
qed

subsection \<open>The first key of the bitmap\<close>

lemma first_nonzero_eq: "first_nonzero bs i = i + length (takeWhile (\<lambda>b. b = 0) bs)"
  by (induction bs arbitrary: i) auto

lemma small_word_bit: "unat (w :: u8) < 2 ^ m \<Longrightarrow> bit w n \<Longrightarrow> n < m"
proof -
  assume a: "unat w < 2 ^ m" "bit w n"
  have "take_bit m (unat w) = unat w" using a(1) by (simp add: take_bit_nat_eq_self)
  then have "take_bit m w = w" by (metis unsigned_take_bit_eq word_unat_eq_iff)
  with a(2) show "n < m" by (metis bit_take_bit_iff)
qed

lemma key_of_position:
  fixes b :: u8
  assumes "i < 30" "unat b < 8"
  shows "key_byte (push_bit 3 (of_nat i) OR b) = i" "key_bit (push_bit 3 (of_nat i) OR b) = unat b"
proof -
  have ui: "unat (of_nat i :: u8) = i" using assms(1) by (simp add: unat_of_nat take_bit_nat_eq_self)
  have i5: "bit (of_nat i :: u8) n \<Longrightarrow> n < 5" for n
    using small_word_bit [of "of_nat i" 5 n] ui assms(1) by simp
  have b3: "bit b n \<Longrightarrow> n < 3" for n using small_word_bit [of b 3 n] assms(2) by simp
  have "drop_bit 3 (push_bit 3 (of_nat i) OR b) = (of_nat i :: u8)"
    by (rule bit_word_eqI)
      (use i5 b3 in \<open>fastforce simp: bit_drop_bit_eq bit_or_iff bit_push_bit_iff possible_bit_def\<close>)
  then show "key_byte (push_bit 3 (of_nat i) OR b) = i" by (simp add: key_byte_def ui)
  have "take_bit 3 (push_bit 3 (of_nat i) OR b) = b"
    by (rule bit_word_eqI)
      (use b3 in \<open>fastforce simp: bit_take_bit_iff bit_or_iff bit_push_bit_iff\<close>)
  then show "key_bit (push_bit 3 (of_nat i) OR b) = unat b"
    by (simp add: key_bit_def and_7_take_bit)
qed

lemma takeWhile_zero_end: "length (takeWhile (\<lambda>b. b = 0) bs) = length bs \<longleftrightarrow> (\<forall>b \<in> set bs. b = 0)"
  by (induction bs) auto

lemma pressed_bits_empty: "wf_report r \<Longrightarrow> pressed_bits r = {} \<longleftrightarrow> (\<forall>b \<in> set (nkro_bits r). b = 0)"
proof
  assume wf: "wf_report r" and e: "pressed_bits r = {}"
  show "\<forall>b \<in> set (nkro_bits r). b = 0"
  proof (rule ballI, rule ccontr)
    fix b
    assume "b \<in> set (nkro_bits r)" "b \<noteq> 0"
    then obtain i n where i: "i < 30" "nkro_bits r ! i = b" and n: "bit b n" "n < 8"
      using wf by (auto simp: in_set_conv_nth word_eq_zero_iff_bits)
    have "unat (of_nat n :: u8) = n" using n by (simp add: unat_of_nat take_bit_nat_eq_self)
    then have "push_bit 3 (of_nat i) OR of_nat n \<in> pressed_bits r"
      using key_of_position [of i "of_nat n"] i n by (simp add: pressed_bits_def)
    with e show False by simp
  qed
next
  assume wf: "wf_report r" and z: "\<forall>b \<in> set (nkro_bits r). b = 0"
  have "nkro_bits r ! i = 0" if "i < 30" for i using z wf that by (simp add: nth_mem)
  then show "pressed_bits r = {}" by (auto simp: pressed_bits_def)
qed

lemma count_nonzero_eq: "count_nonzero bs cnt = cnt + of_nat (length (filter (\<lambda>b. b \<noteq> 0) bs))"
  by (induction bs arbitrary: cnt) auto

lemma has_anykey_zero:
  assumes "wf_report r"
  shows "has_anykey h r = 0 \<longleftrightarrow> report_pressed h r = {}"
proof -
  let ?bs = "if nkro_on h then nkro_bits r else report_keys r"
  have "length ?bs < 256" using assms by simp
  then have "length (filter (\<lambda>b. b \<noteq> 0) ?bs) < 256"
    by (meson le_less_trans length_filter_le)
  then have "has_anykey h r = 0 \<longleftrightarrow> filter (\<lambda>b. b \<noteq> 0) ?bs = []"
    by (simp add: has_anykey_def count_nonzero_eq of_nat_eq_0_iff word_of_nat_eq_0_iff)
      (auto dest: dvd_imp_le)
  then show ?thesis
    using assms pressed_bits_empty [of r] by (auto simp: report_pressed_def pressed_keys_alt filter_empty_conv)
qed

subsection \<open>Properties\<close>

text \<open>No sequence of presses and releases leaves a key in the report after every pressed key was released, in either view.\<close>

lemma report_no_stuck_keys:
  assumes "report_wf h r" "held es (report_pressed h r) = {}"
  shows "report_pressed h (run_events (add_key_to_report h) (del_key_from_report h) es r) = {}"
  using assms by (rule report.run_no_stuck_key)

lemma report_wf_empty [simp]: "report_wf h empty_report"
  by (simp add: report_wf_def wf_boot_def empty_report_def wf_report_def report_keys_def)

lemma report_pressed_empty [simp]: "report_pressed h empty_report = {}"
  using pressed_bits_empty [of empty_report]
  by (auto simp: report_pressed_def pressed_keys_alt empty_report_def report_keys_def nkro_bits_def
      wf_report_def)

text \<open>Six-key rollover.  While fewer than six keys are held, a further key press always enters the boot report, and the report then holds exactly one key more.\<close>

lemma boot_report_six_keys:
  assumes "wf_boot r" "card (pressed_keys r) < 6" "k \<noteq> 0"
  shows "pressed_keys (add_key_byte r k) = insert k (pressed_keys r)"
proof (cases "0 \<in> set (report_keys r)")
  case True
  then show ?thesis using assms by (simp add: pressed_add_key_byte)
next
  case False
  then have "filter (\<lambda>k. k \<noteq> 0) (report_keys r) = report_keys r"
    by (intro filter_True) metis
  then have "distinct (report_keys r)" "length (report_keys r) = 6"
    using assms(1) by (auto simp: wf_boot_def)
  moreover have "pressed_keys r = set (report_keys r)" using False by (auto simp: pressed_keys_def)
  ultimately have "card (pressed_keys r) = 6" by (simp add: distinct_card)
  with assms(2) show ?thesis by simp
qed

text \<open>\<^verbatim>\<open>is_key_pressed\<close> answers membership in the set of keys the host sees, except that it never reports \<^verbatim>\<open>KC_NO\<close>.\<close>

lemma is_key_pressed_iff:
  "wf_report r \<Longrightarrow> is_key_pressed h r k \<longleftrightarrow> k \<noteq> 0 \<and> k \<in> report_pressed h r"
  by (auto simp: is_key_pressed_def report_pressed_def pressed_keys_def pressed_bits_def
      and_bitmask_nonzero simp flip: key_byte_def key_bit_def)

text \<open>In NKRO mode \<^verbatim>\<open>get_first_key\<close> returns a key of the report when there is one; when the report is empty its scan runs off the bitmap and it reads one byte past the array (the \<open>None\<close> of the model).\<close>

lemma get_first_key_nkro:
  assumes "wf_report r" "nkro_on h"
  shows "(get_first_key h r = None \<longleftrightarrow> report_pressed h r = {}) \<and>
    (\<forall>k. get_first_key h r = Some k \<longrightarrow> k \<in> report_pressed h r)"
proof -
  let ?i = "length (takeWhile (\<lambda>b. b = 0) (nkro_bits r))"
  have le: "?i \<le> 30" using length_takeWhile_le [of _ "nkro_bits r"] assms(1) by simp
  have none: "?i = 30 \<longleftrightarrow> pressed_bits r = {}"
    using assms(1) takeWhile_zero_end [of "nkro_bits r"] pressed_bits_empty by simp
  have some: "push_bit 3 (of_nat ?i) OR biton (nkro_bits r ! ?i) \<in> pressed_bits r" if "?i < 30"
  proof -
    have "nkro_bits r ! ?i \<noteq> 0" using that assms(1) nth_length_takeWhile [of "\<lambda>b. b = 0" "nkro_bits r"] by simp
    then have "bit (nkro_bits r ! ?i) (unat (biton (nkro_bits r ! ?i)))"
      using biton_highest highest_bit_unique by blast
    then show ?thesis using that key_of_position [OF that biton_less] by (simp add: pressed_bits_def)
  qed
  show ?thesis
    using assms(2) none some le by (auto simp: get_first_key_def first_nonzero_eq report_pressed_def Let_def)
qed

end
