(* ===== verification/Qmk_Store.thy ===== *)
theory Qmk_Store
  imports Main
begin

text \<open>
  The contract of everything in the firmware that stores values under keys: bytes of the emulated
  EEPROM, key codes of the dynamic keymap, layers of the source-layer cache.  A read returns what was
  last written under the same key and writes to other keys do not disturb it; the consequence for
  whole sequences of writes is proved here once.
\<close>

fun puts :: "('k \<Rightarrow> 'v \<Rightarrow> 's \<Rightarrow> 's) \<Rightarrow> ('k \<times> 'v) list \<Rightarrow> 's \<Rightarrow> 's" where
  "puts put [] s = s"
| "puts put ((k, v) # ws) s = puts put ws (put k v s)"

lemma puts_append: "puts put (ws @ vs) s = puts put vs (puts put ws s)"
  by (induction ws arbitrary: s) auto

lemma puts_concat_map:
  "(\<And>x s. x \<in> set xs \<Longrightarrow> f x s = puts put (g x) s) \<Longrightarrow> puts put (concat (map g xs)) s = fold f xs s"
  by (induction xs arbitrary: s) (auto simp: puts_append)

locale indexed_store =
  fixes get :: "'k \<Rightarrow> 's \<Rightarrow> 'v"
    and put :: "'k \<Rightarrow> 'v \<Rightarrow> 's \<Rightarrow> 's"
    and wf :: "'s \<Rightarrow> bool"
    and key_ok :: "'k \<Rightarrow> bool"
    and val_ok :: "'v \<Rightarrow> bool"
  assumes wf_put: "wf s \<Longrightarrow> key_ok k \<Longrightarrow> val_ok v \<Longrightarrow> wf (put k v s)"
    and get_put_same: "wf s \<Longrightarrow> key_ok k \<Longrightarrow> val_ok v \<Longrightarrow> get k (put k v s) = v"
    and get_put_other: "wf s \<Longrightarrow> key_ok k \<Longrightarrow> key_ok k' \<Longrightarrow> val_ok v \<Longrightarrow> k' \<noteq> k \<Longrightarrow>
      get k' (put k v s) = get k' s"
begin

lemma wf_puts:
  "wf s \<Longrightarrow> \<forall>(k, v) \<in> set ws. key_ok k \<and> val_ok v \<Longrightarrow> wf (puts put ws s)"
  by (induction ws arbitrary: s) (auto simp: wf_put)

text \<open>The last write to a key wins; a key never written keeps its value.\<close>

lemma get_puts:
  assumes "wf s" "\<forall>(k, v) \<in> set ws. key_ok k \<and> val_ok v" "key_ok k"
  shows "get k (puts put ws s) = (case map_of (rev ws) k of None \<Rightarrow> get k s | Some v \<Rightarrow> v)"
  using assms
proof (induction ws arbitrary: s)
  case Nil
  then show ?case by simp
next
  case (Cons w ws)
  obtain k' v' where w: "w = (k', v')" by (cases w)
  have ok: "key_ok k'" "val_ok v'" "wf (put k' v' s)" using Cons.prems w by (auto simp: wf_put)
  then have IH: "get k (puts put ws (put k' v' s)) =
      (case map_of (rev ws) k of None \<Rightarrow> get k (put k' v' s) | Some v \<Rightarrow> v)"
    using Cons.IH Cons.prems w by simp
  show ?case
    using IH ok Cons.prems get_put_same [of s k' v'] get_put_other [of s k' k v']
    by (auto simp: w map_add_def split: option.splits)
qed

text \<open>Writing a function on a list of keys makes it readable on these keys.\<close>

lemma get_puts_fun:
  assumes "wf s" "\<forall>k \<in> set ks. key_ok k \<and> val_ok (f k)" "k \<in> set ks"
  shows "get k (puts put (map (\<lambda>k. (k, f k)) ks) s) = f k"
proof -
  have "map_of (rev (map (\<lambda>k. (k, f k)) ks)) k = Some (f k)"
    using assms(3) by (simp add: rev_map map_of_map_restrict)
  then show ?thesis using get_puts [of s "map (\<lambda>k. (k, f k)) ks" k] assms by auto
qed

end

end
