(* ===== verification/Qmk_Layers.thy ===== *)
theory Qmk_Layers
  imports Qmk_Bitwise Qmk_Store
begin

text \<open>
  Layer state and the source-layer cache of \<^verbatim>\<open>quantum/action_layer.c\<close>, for the build with dynamic
  keymaps: four layers, an 8-bit layer mask, three cache planes.  Turning layers on and off is a
  refinement of set operations on layer numbers; the packed cache is a map from keys to layers;
  together they give the guarantee the cache exists for: a release resolves to the layer that was
  used for the press, whatever happened to the layers in between.
\<close>

subsection \<open>State\<close>

type_synonym layer_state_t = u8

definition MATRIX_ROWS :: nat where "MATRIX_ROWS = 6"
definition MATRIX_COLS :: nat where "MATRIX_COLS = 16"
definition MAX_LAYER :: nat where "MAX_LAYER = 4"
definition MAX_LAYER_BITS :: nat where "MAX_LAYER_BITS = 3"
definition CHAR_BIT :: nat where "CHAR_BIT = 8"

lemmas layer_sizes [simp] = MATRIX_ROWS_def MATRIX_COLS_def MAX_LAYER_def MAX_LAYER_BITS_def CHAR_BIT_def

record keypos_t =
  col :: u8
  row :: u8

record layer_st =
  default_layer_state :: layer_state_t
  layer_state :: layer_state_t
  source_layers_cache :: "u8 list list"
  disable_action_cache :: bool

subsection \<open>Default layer and layer mask\<close>

text \<open>The weak hooks of the keyboard and user level, as the core defines them.\<close>

definition default_layer_state_set_user :: "layer_state_t \<Rightarrow> layer_state_t" where
  "default_layer_state_set_user state = state"

definition default_layer_state_set_kb :: "layer_state_t \<Rightarrow> layer_state_t" where
  "default_layer_state_set_kb state = default_layer_state_set_user state"

definition default_layer_state_set :: "layer_state_t \<Rightarrow> layer_st \<Rightarrow> layer_st" where
  "default_layer_state_set state s = s\<lparr>default_layer_state := default_layer_state_set_kb state\<rparr>"

definition default_layer_set :: "layer_state_t \<Rightarrow> layer_st \<Rightarrow> layer_st" where
  "default_layer_set state s = default_layer_state_set state s"

definition default_layer_or :: "layer_state_t \<Rightarrow> layer_st \<Rightarrow> layer_st" where
  "default_layer_or state s = default_layer_state_set (default_layer_state s OR state) s"

definition default_layer_and :: "layer_state_t \<Rightarrow> layer_st \<Rightarrow> layer_st" where
  "default_layer_and state s = default_layer_state_set (default_layer_state s AND state) s"

definition default_layer_xor :: "layer_state_t \<Rightarrow> layer_st \<Rightarrow> layer_st" where
  "default_layer_xor state s = default_layer_state_set (default_layer_state s XOR state) s"

definition layer_state_set_user :: "layer_state_t \<Rightarrow> layer_state_t" where
  "layer_state_set_user state = state"

definition layer_state_set_kb :: "layer_state_t \<Rightarrow> layer_state_t" where
  "layer_state_set_kb state = layer_state_set_user state"

definition layer_state_set :: "layer_state_t \<Rightarrow> layer_st \<Rightarrow> layer_st" where
  "layer_state_set state s = s\<lparr>layer_state := layer_state_set_kb state\<rparr>"

definition layer_clear :: "layer_st \<Rightarrow> layer_st" where
  "layer_clear s = layer_state_set 0 s"

definition layer_state_cmp :: "layer_state_t \<Rightarrow> u8 \<Rightarrow> bool" where
  "layer_state_cmp cmp_layer_state layer =
     (if cmp_layer_state = 0 then layer = 0 else cmp_layer_state AND bitmask (unat layer) \<noteq> 0)"

definition layer_state_is :: "u8 \<Rightarrow> layer_st \<Rightarrow> bool" where
  "layer_state_is layer s = layer_state_cmp (layer_state s) layer"

definition layer_move :: "u8 \<Rightarrow> layer_st \<Rightarrow> layer_st" where
  "layer_move layer s = layer_state_set (bitmask (unat layer)) s"

definition layer_on :: "u8 \<Rightarrow> layer_st \<Rightarrow> layer_st" where
  "layer_on layer s = layer_state_set (layer_state s OR bitmask (unat layer)) s"

definition layer_off :: "u8 \<Rightarrow> layer_st \<Rightarrow> layer_st" where
  "layer_off layer s = layer_state_set (layer_state s AND NOT (bitmask (unat layer))) s"

definition layer_invert :: "u8 \<Rightarrow> layer_st \<Rightarrow> layer_st" where
  "layer_invert layer s = layer_state_set (layer_state s XOR bitmask (unat layer)) s"

definition layer_or :: "layer_state_t \<Rightarrow> layer_st \<Rightarrow> layer_st" where
  "layer_or state s = layer_state_set (layer_state s OR state) s"

definition layer_and :: "layer_state_t \<Rightarrow> layer_st \<Rightarrow> layer_st" where
  "layer_and state s = layer_state_set (layer_state s AND state) s"

definition layer_xor :: "layer_state_t \<Rightarrow> layer_st \<Rightarrow> layer_st" where
  "layer_xor state s = layer_state_set (layer_state s XOR state) s"

definition update_tri_layer_state :: "layer_state_t \<Rightarrow> u8 \<Rightarrow> u8 \<Rightarrow> u8 \<Rightarrow> layer_state_t" where
  "update_tri_layer_state state layer1 layer2 layer3 =
     (let mask12 = bitmask (unat layer1) OR bitmask (unat layer2); mask3 = bitmask (unat layer3)
      in if state AND mask12 = mask12 then state OR mask3 else state AND NOT mask3)"

definition update_tri_layer :: "u8 \<Rightarrow> u8 \<Rightarrow> u8 \<Rightarrow> layer_st \<Rightarrow> layer_st" where
  "update_tri_layer layer1 layer2 layer3 s =
     layer_state_set (update_tri_layer_state (layer_state s) layer1 layer2 layer3) s"

subsection \<open>The source-layer cache\<close>

definition update_plane :: "u8 \<Rightarrow> nat \<Rightarrow> nat \<Rightarrow> u8 \<Rightarrow> u8" where
  "update_plane layer storage_bit bit_number c =
     c XOR ((- of_bool (layer AND bitmask bit_number \<noteq> 0) XOR c) AND bitmask storage_bit)"

fun update_planes :: "nat list \<Rightarrow> u8 \<Rightarrow> nat \<Rightarrow> u8 list \<Rightarrow> u8 list" where
  "update_planes [] layer storage_bit cs = cs"
| "update_planes (b # bs) layer storage_bit cs =
     update_planes bs layer storage_bit (cs[b := update_plane layer storage_bit b (cs ! b)])"

definition update_source_layers_cache_impl :: "u8 \<Rightarrow> nat \<Rightarrow> u8 list list \<Rightarrow> u8 list list" where
  "update_source_layers_cache_impl layer entry_number cache =
     (let storage_idx = entry_number div CHAR_BIT; storage_bit = entry_number mod CHAR_BIT
      in cache[storage_idx :=
           update_planes [0..<MAX_LAYER_BITS] layer storage_bit (cache ! storage_idx)])"

fun read_planes :: "nat list \<Rightarrow> nat \<Rightarrow> u8 list \<Rightarrow> u8 \<Rightarrow> u8" where
  "read_planes [] storage_bit cs layer = layer"
| "read_planes (b # bs) storage_bit cs layer =
     read_planes bs storage_bit cs (layer OR push_bit b (of_bool (cs ! b AND bitmask storage_bit \<noteq> 0)))"

definition read_source_layers_cache_impl :: "nat \<Rightarrow> u8 list list \<Rightarrow> u8" where
  "read_source_layers_cache_impl entry_number cache =
     (let storage_idx = entry_number div CHAR_BIT; storage_bit = entry_number mod CHAR_BIT
      in read_planes [0..<MAX_LAYER_BITS] storage_bit (cache ! storage_idx) 0)"

definition in_matrix :: "keypos_t \<Rightarrow> bool" where
  "in_matrix key \<longleftrightarrow> unat (row key) < MATRIX_ROWS \<and> unat (col key) < MATRIX_COLS"

definition entry_number :: "keypos_t \<Rightarrow> nat" where
  "entry_number key = unat (row key) * MATRIX_COLS + unat (col key)"

definition update_source_layers_cache :: "keypos_t \<Rightarrow> u8 \<Rightarrow> layer_st \<Rightarrow> layer_st" where
  "update_source_layers_cache key layer s =
     (if in_matrix key
      then s\<lparr>source_layers_cache :=
               update_source_layers_cache_impl layer (entry_number key) (source_layers_cache s)\<rparr>
      else s)"

definition read_source_layers_cache :: "keypos_t \<Rightarrow> layer_st \<Rightarrow> u8" where
  "read_source_layers_cache key s =
     (if in_matrix key
      then read_source_layers_cache_impl (entry_number key) (source_layers_cache s)
      else 0)"

subsection \<open>Resolving a key to an action\<close>

text \<open>
  The keymap itself is an argument: \<open>action_for_key\<close> gives the 16-bit action code of a layer and
  a key position; code 1 is \<^verbatim>\<open>ACTION_TRANSPARENT\<close>.
\<close>

type_synonym action_t = u16
type_synonym keymap_fun = "u8 \<Rightarrow> keypos_t \<Rightarrow> action_t"

definition ACTION_TRANSPARENT :: action_t where "ACTION_TRANSPARENT = 1"

fun layer_search :: "keymap_fun \<Rightarrow> layer_state_t \<Rightarrow> keypos_t \<Rightarrow> nat \<Rightarrow> u8" where
  "layer_search action_for_key layers key 0 = 0"
| "layer_search action_for_key layers key (Suc i) =
     (if layers AND bitmask i \<noteq> 0 \<and> action_for_key (of_nat i) key \<noteq> ACTION_TRANSPARENT
      then of_nat i
      else layer_search action_for_key layers key i)"

definition layer_switch_get_layer :: "keymap_fun \<Rightarrow> keypos_t \<Rightarrow> layer_st \<Rightarrow> u8" where
  "layer_switch_get_layer action_for_key key s =
     layer_search action_for_key (layer_state s OR default_layer_state s) key MAX_LAYER"

definition layer_switch_get_action :: "keymap_fun \<Rightarrow> keypos_t \<Rightarrow> layer_st \<Rightarrow> action_t" where
  "layer_switch_get_action action_for_key key s =
     action_for_key (layer_switch_get_layer action_for_key key s) key"

definition store_or_get_action ::
  "keymap_fun \<Rightarrow> bool \<Rightarrow> keypos_t \<Rightarrow> layer_st \<Rightarrow> action_t \<times> layer_st" where
  "store_or_get_action action_for_key pressed key s =
     (if disable_action_cache s then (layer_switch_get_action action_for_key key s, s)
      else if pressed
      then (let layer = layer_switch_get_layer action_for_key key s
            in (action_for_key layer key, update_source_layers_cache key layer s))
      else (action_for_key (read_source_layers_cache key s) key, s))"

subsection \<open>Layers as a set\<close>

definition active :: "layer_st \<Rightarrow> nat set" where
  "active s = {i. bit (layer_state s) i}"

lemmas layer_op_defs = layer_state_set_def layer_state_set_kb_def layer_state_set_user_def

lemma active_layer_on: "unat l < 8 \<Longrightarrow> active (layer_on l s) = insert (unat l) (active s)"
  by (auto simp: active_def layer_on_def layer_op_defs bit_or_iff bit_bitmask)

lemma active_layer_off: "active (layer_off l s) = active s - {unat l}"
  by (auto simp: active_def layer_off_def layer_op_defs bit_and_iff bit_not_iff bit_bitmask
      dest: bit_imp_le_length)

lemma active_layer_invert:
  "unat l < 8 \<Longrightarrow> active (layer_invert l s) =
     (if unat l \<in> active s then active s - {unat l} else insert (unat l) (active s))"
  by (auto simp: active_def layer_invert_def layer_op_defs bit_xor_iff bit_bitmask)

lemma active_layer_move: "unat l < 8 \<Longrightarrow> active (layer_move l s) = {unat l}"
  by (auto simp: active_def layer_move_def layer_op_defs bit_bitmask)

lemma active_layer_clear: "active (layer_clear s) = {}"
  by (simp add: active_def layer_clear_def layer_op_defs)

lemma active_layer_mask_ops:
  "active (layer_or m s) = active s \<union> {i. bit m i}"
  "active (layer_and m s) = active s \<inter> {i. bit m i}"
  "active (layer_xor m s) = (active s - {i. bit m i}) \<union> ({i. bit m i} - active s)"
  by (auto simp: active_def layer_or_def layer_and_def layer_xor_def layer_op_defs
      bit_or_iff bit_and_iff bit_xor_iff)

lemma layer_state_zero_iff: "layer_state s = 0 \<longleftrightarrow> active s = {}"
proof
  assume "active s = {}"
  then show "layer_state s = 0" by (simp add: active_def word_eq_zero_iff_bits)
qed (simp add: active_def)

subsection \<open>The cache as a store\<close>

lemma bit_update_plane:
  "bit (update_plane layer sb b c) n =
     (if n = sb \<and> sb < 8 then bit layer b else bit c n)"
  by (cases "bit layer b")
    (auto simp: update_plane_def and_bitmask_nonzero bit_xor_iff bit_and_iff bit_bitmask bit_simps)

lemma bit_of_bool_shift: "bit (push_bit b (of_bool P) :: u8) n \<longleftrightarrow> n = b \<and> b < 8 \<and> P"
  by (cases P) (auto simp: bit_push_bit_iff bit_1_iff possible_bit_def simp del: push_bit_of_1)

lemma bit_read_planes:
  "bit (read_planes bs sb cs l) n \<longleftrightarrow> bit l n \<or> (n \<in> set bs \<and> n < 8 \<and> bit (cs ! n) sb)"
  by (induction bs sb cs l rule: read_planes.induct)
    (auto simp: bit_or_iff bit_of_bool_shift and_bitmask_nonzero)

lemma nth_update_planes:
  assumes "set bs \<subseteq> {..<length cs}" "distinct bs" "j < length cs"
  shows "update_planes bs layer sb cs ! j =
    (if j \<in> set bs then update_plane layer sb j (cs ! j) else cs ! j)"
  using assms
proof (induction bs arbitrary: cs)
  case Nil
  then show ?case by simp
next
  case (Cons b bs)
  then show ?case by (auto simp: nth_list_update)
qed

lemma length_update_planes [simp]: "length (update_planes bs layer sb cs) = length cs"
  by (induction bs layer sb cs rule: update_planes.induct) auto

definition wf_cache :: "u8 list list \<Rightarrow> bool" where
  "wf_cache c \<longleftrightarrow> length c = (MATRIX_ROWS * MATRIX_COLS + CHAR_BIT - 1) div CHAR_BIT \<and>
     (\<forall>cs \<in> set c. length cs = MAX_LAYER_BITS)"

lemma wf_cache_update:
  "wf_cache c \<Longrightarrow> e < 96 \<Longrightarrow> wf_cache (update_source_layers_cache_impl layer e c)"
  by (auto simp: wf_cache_def update_source_layers_cache_impl_def Let_def
      dest!: set_update_subset_insert [THEN subsetD])

lemma bit_read_cache:
  "wf_cache c \<Longrightarrow> e < 96 \<Longrightarrow>
     bit (read_source_layers_cache_impl e c) n \<longleftrightarrow> n < 3 \<and> bit (c ! (e div 8) ! n) (e mod 8)"
  by (auto simp: read_source_layers_cache_impl_def bit_read_planes)

lemma nth_update_cache:
  assumes "wf_cache c" "e < 96" "e' < 96" "n < 3"
  shows "bit (update_source_layers_cache_impl layer e c ! (e' div 8) ! n) (e' mod 8) =
    (if e' = e then bit layer n else bit (c ! (e' div 8) ! n) (e' mod 8))"
proof -
  have len: "length c = 12" "length (c ! (e div 8)) = 3"
    using assms by (auto simp: wf_cache_def)
  have planes: "update_planes [0..<3] layer sb (c ! (e div 8)) ! n =
      update_plane layer sb n (c ! (e div 8) ! n)" for sb
    using assms(4) len by (subst nth_update_planes) auto
  have eq: "e' = e \<longleftrightarrow> e' div 8 = e div 8 \<and> e' mod 8 = e mod 8"
    by (metis div_mult_mod_eq)
  show ?thesis
  proof (cases "e' div 8 = e div 8")
    case True
    then show ?thesis
      using assms len planes eq
      by (auto simp: update_source_layers_cache_impl_def Let_def bit_update_plane)
  next
    case False
    then show ?thesis using eq by (auto simp: update_source_layers_cache_impl_def Let_def)
  qed
qed

lemma read_update_same:
  "wf_cache c \<Longrightarrow> e < 96 \<Longrightarrow>
     read_source_layers_cache_impl e (update_source_layers_cache_impl layer e c) = take_bit 3 layer"
  by (rule bit_word_eqI)
    (auto simp: bit_read_cache wf_cache_update nth_update_cache bit_take_bit_iff)

lemma read_update_other:
  "wf_cache c \<Longrightarrow> e < 96 \<Longrightarrow> e' < 96 \<Longrightarrow> e' \<noteq> e \<Longrightarrow>
     read_source_layers_cache_impl e' (update_source_layers_cache_impl layer e c) =
     read_source_layers_cache_impl e' c"
  by (rule bit_word_eqI) (auto simp: bit_read_cache wf_cache_update nth_update_cache)

lemma entry_number_less: "in_matrix key \<Longrightarrow> entry_number key < 96"
  by (auto simp: in_matrix_def entry_number_def)

lemma entry_number_inject:
  "in_matrix key \<Longrightarrow> in_matrix key' \<Longrightarrow> entry_number key = entry_number key' \<longleftrightarrow> key = key'"
proof -
  assume m: "in_matrix key" "in_matrix key'"
  {
    assume e: "entry_number key = entry_number key'"
    have "unat (row key) = unat (row key')"
      using m e by (auto simp: in_matrix_def entry_number_def)
    moreover have "unat (col key) = unat (col key')"
      using e calculation by (simp add: entry_number_def)
    ultimately have "key = key'" by (cases key, cases key') (simp add: word_unat_eq_iff)
  }
  then show ?thesis by auto
qed

definition wf_layers :: "layer_st \<Rightarrow> bool" where
  "wf_layers s \<longleftrightarrow> wf_cache (source_layers_cache s)"

lemma take_bit_3_small: "unat l < 8 \<Longrightarrow> take_bit 3 l = (l :: u8)"
proof -
  assume "unat l < 8"
  then have "take_bit 3 (unat l) = unat l" by (simp add: take_bit_nat_eq_self)
  then show ?thesis by (metis unsigned_take_bit_eq word_unat_eq_iff)
qed

interpretation layer_cache: indexed_store read_source_layers_cache update_source_layers_cache
  wf_layers in_matrix "\<lambda>l. unat l < 8"
proof unfold_locales
  fix s k v
  assume "wf_layers s" "in_matrix k" "unat (v :: u8) < 8"
  then show "wf_layers (update_source_layers_cache k v s)"
    "read_source_layers_cache k (update_source_layers_cache k v s) = v"
    by (simp_all add: wf_layers_def update_source_layers_cache_def read_source_layers_cache_def
        wf_cache_update entry_number_less read_update_same take_bit_3_small)
next
  fix s k k' v
  assume "wf_layers s" "in_matrix k" "in_matrix k'" "unat (v :: u8) < 8" "k' \<noteq> k"
  then show "read_source_layers_cache k' (update_source_layers_cache k v s) = read_source_layers_cache k' s"
    by (simp add: wf_layers_def update_source_layers_cache_def read_source_layers_cache_def
        entry_number_less read_update_other entry_number_inject)
qed

subsection \<open>Resolving a press\<close>

lemma unat_of_nat_u8: "i < 256 \<Longrightarrow> unat (of_nat i :: u8) = i"
  by (simp add: unat_of_nat take_bit_nat_eq_self)

lemma layer_search_result:
  assumes "n \<le> 8"
  shows "unat (layer_search akf ls key n) < 8 \<and>
    ((\<forall>i < n. \<not> (bit ls i \<and> akf (of_nat i) key \<noteq> ACTION_TRANSPARENT)) \<and> layer_search akf ls key n = 0 \<or>
     (\<exists>i < n. layer_search akf ls key n = of_nat i \<and> bit ls i \<and> akf (of_nat i) key \<noteq> ACTION_TRANSPARENT \<and>
        (\<forall>j. i < j \<and> j < n \<longrightarrow> \<not> (bit ls j \<and> akf (of_nat j) key \<noteq> ACTION_TRANSPARENT))))"
  using assms
proof (induction n)
  case 0
  then show ?case by simp
next
  case (Suc n)
  show ?case
  proof (cases "bit ls n \<and> akf (of_nat n) key \<noteq> ACTION_TRANSPARENT")
    case True
    then have "layer_search akf ls key (Suc n) = of_nat n" by (simp add: and_bitmask_nonzero)
    with True Suc.prems show ?thesis by (auto simp: unat_of_nat_u8 intro!: exI [of _ n])
  next
    case False
    then have "layer_search akf ls key (Suc n) = layer_search akf ls key n"
      by (auto simp: and_bitmask_nonzero)
    with False Suc show ?thesis by (auto simp: less_Suc_eq)
  qed
qed

lemma layer_switch_get_layer_less: "unat (layer_switch_get_layer akf key s) < 8"
  using layer_search_result [of 4] by (simp add: layer_switch_get_layer_def)

subsection \<open>Events between a press and its release\<close>

datatype layer_event =
    LayerOn u8 | LayerOff u8 | LayerMove u8 | LayerInvert u8 | LayerClear
  | LayerOr layer_state_t | LayerAnd layer_state_t | LayerXor layer_state_t
  | TriLayer u8 u8 u8
  | DefaultSet layer_state_t | DefaultOr layer_state_t | DefaultAnd layer_state_t | DefaultXor layer_state_t
  | KeyEvent bool keypos_t

fun layer_event_step :: "keymap_fun \<Rightarrow> layer_event \<Rightarrow> layer_st \<Rightarrow> layer_st" where
  "layer_event_step akf (LayerOn l) s = layer_on l s"
| "layer_event_step akf (LayerOff l) s = layer_off l s"
| "layer_event_step akf (LayerMove l) s = layer_move l s"
| "layer_event_step akf (LayerInvert l) s = layer_invert l s"
| "layer_event_step akf LayerClear s = layer_clear s"
| "layer_event_step akf (LayerOr m) s = layer_or m s"
| "layer_event_step akf (LayerAnd m) s = layer_and m s"
| "layer_event_step akf (LayerXor m) s = layer_xor m s"
| "layer_event_step akf (TriLayer a b c) s = update_tri_layer a b c s"
| "layer_event_step akf (DefaultSet m) s = default_layer_set m s"
| "layer_event_step akf (DefaultOr m) s = default_layer_or m s"
| "layer_event_step akf (DefaultAnd m) s = default_layer_and m s"
| "layer_event_step akf (DefaultXor m) s = default_layer_xor m s"
| "layer_event_step akf (KeyEvent p k) s = snd (store_or_get_action akf p k s)"

definition layer_events :: "keymap_fun \<Rightarrow> layer_event list \<Rightarrow> layer_st \<Rightarrow> layer_st" where
  "layer_events akf es s = fold (layer_event_step akf) es s"

lemmas layer_cache_frame =
  layer_on_def layer_off_def layer_move_def layer_invert_def layer_clear_def layer_or_def layer_and_def
  layer_xor_def update_tri_layer_def layer_state_set_def default_layer_set_def default_layer_or_def
  default_layer_and_def default_layer_xor_def default_layer_state_set_def

lemma layer_event_step_cache:
  assumes "wf_layers s" "in_matrix key" "e \<noteq> KeyEvent True key"
  shows "wf_layers (layer_event_step akf e s) \<and>
    disable_action_cache (layer_event_step akf e s) = disable_action_cache s \<and>
    read_source_layers_cache key (layer_event_step akf e s) = read_source_layers_cache key s"
proof (cases e)
  case (KeyEvent p k)
  show ?thesis
  proof (cases "p \<and> in_matrix k \<and> \<not> disable_action_cache s")
    case True
    with assms KeyEvent have "k \<noteq> key" by auto
    with True KeyEvent assms show ?thesis
      using layer_cache.wf_put [of s k] layer_cache.get_put_other [of s k key]
        layer_switch_get_layer_less [of akf k s]
      by (auto simp: store_or_get_action_def Let_def update_source_layers_cache_def)
  next
    case False
    with KeyEvent assms show ?thesis
      by (auto simp: store_or_get_action_def Let_def update_source_layers_cache_def)
  qed
qed (use assms in \<open>auto simp: layer_cache_frame wf_layers_def read_source_layers_cache_def\<close>)

lemma layer_events_cache:
  assumes "wf_layers s" "in_matrix key" "KeyEvent True key \<notin> set es"
  shows "wf_layers (layer_events akf es s) \<and>
    disable_action_cache (layer_events akf es s) = disable_action_cache s \<and>
    read_source_layers_cache key (layer_events akf es s) = read_source_layers_cache key s"
  using assms
proof (induction es arbitrary: s)
  case Nil
  then show ?case by (simp add: layer_events_def)
next
  case (Cons e es)
  then have "wf_layers (layer_event_step akf e s)" "e \<noteq> KeyEvent True key"
    using layer_event_step_cache [of s key e akf] by auto
  with Cons layer_event_step_cache [of s key e akf] show ?case by (auto simp: layer_events_def)
qed

subsection \<open>Properties\<close>

text \<open>C5: a release resolves to the action of its press.  After a press of a key of the matrix, any layer changes and any events of other keys, the release of the key yields the very action the press yielded.\<close>

theorem release_gets_pressed_action:
  assumes "wf_layers s" "in_matrix key" "\<not> disable_action_cache s"
    and "store_or_get_action akf True key s = (a, s1)"
    and "KeyEvent True key \<notin> set es"
  shows "fst (store_or_get_action akf False key (layer_events akf es s1)) = a"
proof -
  let ?l = "layer_switch_get_layer akf key s"
  have s1: "s1 = update_source_layers_cache key ?l s" and a: "a = akf ?l key"
    using assms(3,4) by (auto simp: store_or_get_action_def Let_def)
  have wf: "wf_layers s1" and get: "read_source_layers_cache key s1 = ?l"
    using assms(1,2) layer_switch_get_layer_less [of akf key s]
    by (auto simp: s1 layer_cache.wf_put layer_cache.get_put_same)
  have "disable_action_cache s1 = disable_action_cache s"
    by (simp add: s1 update_source_layers_cache_def)
  then show ?thesis
    using layer_events_cache [OF wf assms(2,5), of akf] assms(3) get a
    by (simp add: store_or_get_action_def)
qed

definition init_layers :: layer_st where
  "init_layers = \<lparr>default_layer_state = 1, layer_state = 0,
     source_layers_cache = replicate 12 (replicate 3 0), disable_action_cache = False\<rparr>"

theorem release_gets_pressed_action_witness:
  "fst (store_or_get_action (\<lambda>l _. if l = 0 then 4 else 5) False \<lparr>col = 3, row = 2\<rparr>
     (layer_events (\<lambda>l _. if l = 0 then 4 else 5) [LayerOn 1]
       (snd (store_or_get_action (\<lambda>l _. if l = 0 then 4 else 5) True \<lparr>col = 3, row = 2\<rparr> init_layers)))) = 4"
proof -
  have "store_or_get_action (\<lambda>l _. if l = 0 then 4 else 5) True \<lparr>col = 3, row = 2\<rparr> init_layers =
      (4, snd (store_or_get_action (\<lambda>l _. if l = 0 then 4 else 5) True \<lparr>col = 3, row = 2\<rparr> init_layers))"
    by (simp add: store_or_get_action_def init_layers_def layer_switch_get_layer_def Let_def
        numeral_eq_Suc bitmask_def ACTION_TRANSPARENT_def)
  from release_gets_pressed_action [OF _ _ _ this, of "[LayerOn 1]"] show ?thesis
    by (simp add: init_layers_def wf_layers_def wf_cache_def in_matrix_def)
qed

text \<open>The resolved layer is the highest active layer on which the key is not transparent, and layer 0 when there is none.\<close>

lemma layer_switch_get_layer_highest:
  "let active_layers = layer_state s OR default_layer_state s;
       l = layer_switch_get_layer akf key s;
       candidates = {i. i < MAX_LAYER \<and> bit active_layers i \<and> akf (of_nat i) key \<noteq> ACTION_TRANSPARENT}
   in (if candidates = {} then l = 0 else unat l = Max candidates)"
proof -
  let ?ls = "layer_state s OR default_layer_state s"
  let ?C = "{i. i < MAX_LAYER \<and> bit ?ls i \<and> akf (of_nat i) key \<noteq> ACTION_TRANSPARENT}"
  have fin: "finite ?C" by (rule finite_subset [of _ "{..<4}"]) auto
  from layer_search_result [of 4 akf ?ls key]
  consider "?C = {}" "layer_switch_get_layer akf key s = 0"
    | i where "i \<in> ?C" "layer_switch_get_layer akf key s = of_nat i" "\<forall>j \<in> ?C. j \<le> i"
    by (auto simp: layer_switch_get_layer_def not_less) (metis not_le_imp_less)+
  then show ?thesis
  proof cases
    case 1
    then show ?thesis by (simp add: Let_def)
  next
    case (2 i)
    then have "Max ?C = i" using fin by (intro Max_eqI) auto
    with 2 show ?thesis by (auto simp: Let_def unat_of_nat_u8)
  qed
qed

text \<open>C37: the mask operations are set operations on layer numbers: on adds, off removes, invert toggles, move leaves exactly the given layer, clear leaves none.\<close>

theorem layer_operations_refine_sets:
  assumes "unat l < 8"
  shows "active (layer_on l s) = insert (unat l) (active s) \<and>
    active (layer_off l s) = active s - {unat l} \<and>
    active (layer_invert l s) = (active s - {unat l}) \<union> ({unat l} - active s) \<and>
    active (layer_move l s) = {unat l} \<and> active (layer_clear s) = {} \<and>
    (layer_state_is l s \<longleftrightarrow> (if active s = {} then unat l = 0 else unat l \<in> active s))"
proof -
  have "layer_state_is l s \<longleftrightarrow> (if active s = {} then unat l = 0 else unat l \<in> active s)"
    using layer_state_zero_iff [of s]
    by (auto simp: layer_state_is_def layer_state_cmp_def and_bitmask_nonzero active_def unat_eq_0)
  then show ?thesis
    using assms
    by (auto simp: active_layer_on active_layer_off active_layer_invert active_layer_move active_layer_clear)
qed

theorem layer_operations_refine_sets_witness: "active (layer_on 2 init_layers) = {2}"
  using layer_operations_refine_sets [of 2 init_layers] by (simp add: active_def init_layers_def)

lemma both_bits_set:
  assumes "a < 8" "b < 8"
  shows "(w :: u8) AND (bitmask a OR bitmask b) = bitmask a OR bitmask b \<longleftrightarrow> bit w a \<and> bit w b"
proof
  assume eq: "w AND (bitmask a OR bitmask b) = bitmask a OR bitmask b"
  have "bit (w AND (bitmask a OR bitmask b)) n \<longleftrightarrow> n = a \<or> n = b" for n
    unfolding eq using assms by (auto simp: bit_or_iff bit_bitmask)
  then show "bit w a \<and> bit w b" by (metis bit_and_iff)
next
  assume "bit w a \<and> bit w b"
  then show "w AND (bitmask a OR bitmask b) = bitmask a OR bitmask b"
    by (intro bit_word_eqI) (auto simp: bit_and_iff bit_or_iff bit_bitmask)
qed

text \<open>The tri-layer update turns the third layer on exactly when both others are on, and changes no other layer.\<close>

lemma tri_layer_correct:
  assumes "unat a < 8" "unat b < 8" "unat c < 8" "c \<noteq> a" "c \<noteq> b"
  shows "active (update_tri_layer a b c s) =
    (if unat a \<in> active s \<and> unat b \<in> active s then insert (unat c) (active s) else active s - {unat c})"
proof -
  have st: "layer_state (update_tri_layer a b c s) =
      (if bit (layer_state s) (unat a) \<and> bit (layer_state s) (unat b)
       then layer_state s OR bitmask (unat c) else layer_state s AND NOT (bitmask (unat c)))"
    using both_bits_set [OF assms(1,2), of "layer_state s"]
    by (simp add: update_tri_layer_def update_tri_layer_state_def Let_def layer_op_defs)
  show ?thesis
    unfolding active_def st using assms(3)
    by (auto simp: bit_or_iff bit_and_iff bit_not_iff bit_bitmask possible_bit_def dest: bit_u8_less)
qed

end
