(* ===== verification/Qmk_Bytes.thy ===== *)
theory Qmk_Bytes
  imports Qmk_Prelude
begin

text \<open>
  Byte arrays and the little-endian layout of wider integers in them: reading and overwriting a range
  of an array (\<^verbatim>\<open>memcpy\<close> and the casts of the storage drivers), and the conversion between a word and
  its bytes.  A write outside the array, undefined in C, is ignored by \<open>write_at\<close>; the drivers check
  their ranges first and the lemmas are about accesses inside the array.
\<close>

named_theorems byte_simps \<open>lengths and elements of byte ranges\<close>

subsection \<open>Ranges of an array\<close>

definition read_at :: "'a list \<Rightarrow> nat \<Rightarrow> nat \<Rightarrow> 'a list" where
  "read_at xs a n = take n (drop a xs)"

primrec write_at :: "'a list \<Rightarrow> nat \<Rightarrow> 'a list \<Rightarrow> 'a list" where
  "write_at xs a [] = xs"
| "write_at xs a (y # ys) = write_at (xs[a := y]) (Suc a) ys"

lemma length_write_at [simp]: "length (write_at xs a ys) = length xs"
  by (induction ys arbitrary: xs a) auto

lemma length_read_at [byte_simps]: "a + n \<le> length xs \<Longrightarrow> length (read_at xs a n) = n"
  by (simp add: read_at_def)

lemma nth_read_at [byte_simps]: "i < n \<Longrightarrow> a + n \<le> length xs \<Longrightarrow> read_at xs a n ! i = xs ! (a + i)"
  by (simp add: read_at_def)

lemma nth_write_at [byte_simps]:
  "i < length xs \<Longrightarrow> write_at xs a ys ! i = (if a \<le> i \<and> i < a + length ys then ys ! (i - a) else xs ! i)"
proof (induction ys arbitrary: xs a)
  case (Cons y ys)
  then show ?case by (auto simp: nth_list_update nth_Cons' not_less_eq_eq)
qed auto

lemma write_at_outside: "length xs \<le> a \<Longrightarrow> write_at xs a ys = xs"
  by (rule nth_equalityI) (auto simp: nth_write_at)

lemma read_at_eqI:
  assumes "a + n \<le> length xs" "length ys = n" "\<And>i. i < n \<Longrightarrow> xs ! (a + i) = ys ! i"
  shows "read_at xs a n = ys"
  using assms by (intro nth_equalityI) (auto simp: byte_simps)

lemma read_at_write_at_same:
  "a + length ys \<le> length xs \<Longrightarrow> read_at (write_at xs a ys) a (length ys) = ys"
  by (rule read_at_eqI) (auto simp: byte_simps)

lemma read_at_write_at_other:
  assumes "b + n \<le> length xs" "b + n \<le> a \<or> a + length ys \<le> b"
  shows "read_at (write_at xs a ys) b n = read_at xs b n"
  using assms by (intro read_at_eqI) (auto simp: byte_simps)

lemma read_at_write_at_inside:
  assumes "a + length ys \<le> length xs" "a \<le> b" "b + n \<le> a + length ys"
  shows "read_at (write_at xs a ys) b n = read_at ys (b - a) n"
  using assms by (intro read_at_eqI) (auto simp: byte_simps)

lemma write_at_read_at [simp]: "a + n \<le> length xs \<Longrightarrow> write_at xs a (read_at xs a n) = xs"
  by (rule nth_equalityI) (auto simp: byte_simps)

lemma write_at_append:
  "write_at xs a (ys @ zs) = write_at (write_at xs a ys) (a + length ys) zs"
  by (induction ys arbitrary: xs a) auto

lemma write_at_commute:
  assumes "a + length ys \<le> b \<or> b + length zs \<le> a"
  shows "write_at (write_at xs a ys) b zs = write_at (write_at xs b zs) a ys"
  using assms by (intro nth_equalityI) (auto simp: byte_simps)

lemma write_at_cover:
  assumes "b \<le> a" "a + length ys \<le> b + length zs"
  shows "write_at (write_at xs a ys) b zs = write_at xs b zs"
  using assms by (intro nth_equalityI) (auto simp: byte_simps)

lemma write_at_split: "a + length ys \<le> length xs \<Longrightarrow>
  write_at xs a ys = take a xs @ ys @ drop (a + length ys) xs"
  by (rule nth_equalityI) (auto simp: byte_simps nth_append)

lemma write_at_append_right: "length xs \<le> a \<Longrightarrow> write_at (xs @ zs) a ys = xs @ write_at zs (a - length xs) ys"
  by (rule nth_equalityI) (auto simp: byte_simps nth_append)

lemma write_at_append_left: "a + length ys \<le> length xs \<Longrightarrow> write_at (xs @ zs) a ys = write_at xs a ys @ zs"
  by (rule nth_equalityI) (auto simp: byte_simps nth_append)

lemma map_write_at: "map f (write_at xs a ys) = write_at (map f xs) a (map f ys)"
  by (rule nth_equalityI) (auto simp: byte_simps)

lemma read_at_map: "read_at (map f xs) a n = map f (read_at xs a n)"
  by (simp add: read_at_def take_map drop_map)

lemma read_at_append_left: "a + n \<le> length xs \<Longrightarrow> read_at (xs @ ys) a n = read_at xs a n"
  by (simp add: read_at_def)

lemma read_at_append_right: "length xs \<le> a \<Longrightarrow> read_at (xs @ ys) a n = read_at ys (a - length xs) n"
  by (simp add: read_at_def)

subsection \<open>Little-endian layout\<close>

primrec le_bytes :: "nat \<Rightarrow> 'a::len word \<Rightarrow> u8 list" where
  "le_bytes 0 w = []"
| "le_bytes (Suc n) w = ucast w # le_bytes n (drop_bit 8 w)"

primrec le_word :: "u8 list \<Rightarrow> 'a::len word" where
  "le_word [] = 0"
| "le_word (b # bs) = ucast b OR push_bit 8 (le_word bs)"

lemma length_le_bytes [simp]: "length (le_bytes n w) = n"
  by (induction n arbitrary: w) auto

lemma nth_le_bytes [byte_simps]: "i < n \<Longrightarrow> le_bytes n w ! i = ucast (drop_bit (8 * i) w)"
proof (induction n arbitrary: w i)
  case (Suc n)
  then show ?case by (cases i) (simp_all add: algebra_simps)
qed simp

lemma bit_le_word [bitlevel_simps]:
  "bit (le_word bs :: 'a::len word) k \<longleftrightarrow> k < LENGTH('a) \<and> k div 8 < length bs \<and> bit (bs ! (k div 8)) (k mod 8)"
proof (induction bs arbitrary: k)
  case Nil
  then show ?case by simp
next
  case (Cons b bs)
  show ?case
  proof (cases "k < 8")
    case True
    then show ?thesis by (auto simp: bit_simps)
  next
    case False
    then obtain j where j: "k = 8 + j" by (metis le_Suc_ex not_less)
    then have "k div 8 = Suc (j div 8)" "k mod 8 = j mod 8" by simp_all
    moreover have "\<not> bit b k" using False bit_u8_less by blast
    ultimately show ?thesis using Cons.IH [of j] j
      by (auto simp add: bit_or_iff bit_push_bit_iff bit_unsigned_iff)
  qed
qed

lemma le_word_le_bytes:
  "le_word (le_bytes n w) = take_bit (8 * n) (w :: 'a::len word)"
proof (rule bit_word_eqI)
  fix k
  assume k: "k < LENGTH('a)"
  show "bit (le_word (le_bytes n w) :: 'a word) k \<longleftrightarrow> bit (take_bit (8 * n) w) k"
  proof (cases "k div 8 < n")
    case True
    moreover from True have "k < 8 * n" by linarith
    moreover have "8 * (k div 8) + k mod 8 = k" by simp
    ultimately show ?thesis using k 
      by (auto simp: bit_le_word nth_le_bytes bit_unsigned_iff bit_drop_bit_eq bit_take_bit_iff)
  next
    case False
    then have "\<not> k < 8 * n" by linarith
    then show ?thesis using False by (simp add: bitlevel_simps bit_simps)
  qed
qed

lemma le_word_le_bytes_all [simp]:
  "LENGTH('a) \<le> 8 * n \<Longrightarrow> le_word (le_bytes n w) = (w :: 'a::len word)"
  unfolding le_word_le_bytes by (rule bit_word_eqI) (simp add: bit_simps)

lemma le_bytes_le_word:
  assumes "8 * length bs \<le> LENGTH('a)"
  shows "le_bytes (length bs) (le_word bs :: 'a::len word) = bs"
proof (rule nth_equalityI)
  fix i
  assume i: "i < length (le_bytes (length bs) (le_word bs :: 'a word))"
  show "le_bytes (length bs) (le_word bs :: 'a word) ! i = bs ! i"
  proof (rule bit_word_eqI)
    fix k assume k: "k < LENGTH(8)"
    then have "(8 * i + k) div 8 = i" "(8 * i + k) mod 8 = k" by auto
    moreover have "8 * i + k < LENGTH('a)" using i k assms by simp
    ultimately show "bit (le_bytes (length bs) (le_word bs :: 'a word) ! i) k = bit (bs ! i) k"
      using i k by (simp add: byte_simps bitlevel_simps bit_simps)
  qed
qed simp

lemma le_bytes_eq_iff:
  fixes w v :: "'a::len word"
  assumes "LENGTH('a) \<le> 8 * n"
  shows "le_bytes n w = le_bytes n v \<longleftrightarrow> w = v"
  using le_word_le_bytes_all [OF assms] by metis

lemma le_bytes_not: "8 * n \<le> LENGTH('a) \<Longrightarrow> le_bytes n (NOT (w :: 'a::len word)) = map NOT (le_bytes n w)"
proof (rule nth_equalityI)
  fix i assume *: "8 * n \<le> LENGTH('a)" "i < length (le_bytes n (NOT w))"
  show "le_bytes n (NOT w) ! i = map NOT (le_bytes n w) ! i"
  proof (rule bit_word_eqI)
    fix k assume "k < LENGTH(8)"
    then show "bit (le_bytes n (NOT w) ! i) k = bit (map NOT (le_bytes n w) ! i) k"
      using * by (simp add: byte_simps bit_simps)
  qed
qed simp

lemma le_word_take:
  "8 * n \<le> LENGTH('b) \<Longrightarrow> (le_word (read_at (le_bytes m (w :: 'a::len word)) a n) :: 'b::len word)
    = take_bit (8 * min n (m - a)) (ucast (drop_bit (8 * a) w))"
proof (rule bit_word_eqI)
  fix k assume *: "8 * n \<le> LENGTH('b)" "k < LENGTH('b)"
  have "8 * (k div 8) + k mod 8 = k" by simp
  then have e: "8 * (a + k div 8) + k mod 8 = 8 * a + k" by simp
  have c: "k < 8 * min n (m - a) \<longleftrightarrow> k div 8 < min n (m - a)"
    by linarith
  show "bit (le_word (read_at (le_bytes m w) a n) :: 'b word) k =
    bit (take_bit (8 * min n (m - a)) (ucast (drop_bit (8 * a) w) :: 'b word)) k"
    using * e c by (auto simp: read_at_def bitlevel_simps byte_simps bit_simps add.commute)
qed

end
