(* ===== verification/Qmk_Flash.thy ===== *)
theory Qmk_Flash
  imports Qmk_Bytes
begin

text \<open>
  The flash memory under the EEPROM emulation.  The flash controller is hardware: its operations
  (\<^verbatim>\<open>platforms/chibios/flash_stm32.c\<close>) are a parameter of the storage model, a record of functions
  over a device state, and the locale \<open>nor_flash\<close> states what the storage code relies on.  The locale
  is interpreted on the host-side flash of the repository
  (\<^verbatim>\<open>platforms/test/legacy_flash_ops_mock.c\<close>).  Addresses are offsets from \<^verbatim>\<open>FEE_PAGE_BASE_ADDRESS\<close>,
  which is page aligned.
\<close>

subsection \<open>Status codes and geometry\<close>

definition FLASH_BUSY :: u8 where "FLASH_BUSY = 1"
definition FLASH_ERROR_PG :: u8 where "FLASH_ERROR_PG = 2"
definition FLASH_ERROR_WRP :: u8 where "FLASH_ERROR_WRP = 3"
definition FLASH_COMPLETE :: u8 where "FLASH_COMPLETE = 5"
definition FLASH_BAD_ADDRESS :: u8 where "FLASH_BAD_ADDRESS = 7"

definition FEE_PAGE_SIZE :: nat where "FEE_PAGE_SIZE = 2048"
definition FEE_PAGE_COUNT :: nat where "FEE_PAGE_COUNT = 4"

lemmas flash_consts = FEE_PAGE_SIZE_def FEE_PAGE_COUNT_def
lemmas flash_status_consts = FLASH_BUSY_def FLASH_ERROR_PG_def FLASH_ERROR_WRP_def
  FLASH_COMPLETE_def FLASH_BAD_ADDRESS_def

subsection \<open>The operations of the controller\<close>

record 'f flash_ops =
  FLASH_Unlock :: "'f \<Rightarrow> 'f"
  FLASH_Lock :: "'f \<Rightarrow> 'f"
  FLASH_ErasePage :: "nat \<Rightarrow> 'f \<Rightarrow> u8 \<times> 'f"
  FLASH_ProgramHalfWord :: "nat \<Rightarrow> u16 \<Rightarrow> 'f \<Rightarrow> u8 \<times> 'f"
  FLASH_ProgramDoubleWord :: "nat \<Rightarrow> u64 \<Rightarrow> 'f \<Rightarrow> u8 \<times> 'f"
  flash_mem :: "'f \<Rightarrow> u8 list"

abbreviation blank_bytes :: "nat \<Rightarrow> u8 list" where
  "blank_bytes n \<equiv> replicate n 0xFF"

text \<open>
  What the emulation relies on: locking and unlocking keep the contents; on an unlocked device an
  erased page reads \<^verbatim>\<open>0xFF\<close>, and programming a blank, aligned unit stores it and nothing else.
\<close>

locale nor_flash =
  fixes fl :: "'f flash_ops" and wf :: "'f \<Rightarrow> bool" and ready :: "'f \<Rightarrow> bool"
  assumes mem_size: "wf f \<Longrightarrow> length (flash_mem fl f) = FEE_PAGE_COUNT * FEE_PAGE_SIZE"
    and unlock: "wf f \<Longrightarrow> wf (FLASH_Unlock fl f) \<and> ready (FLASH_Unlock fl f) \<and>
      flash_mem fl (FLASH_Unlock fl f) = flash_mem fl f"
    and lock: "wf f \<Longrightarrow> wf (FLASH_Lock fl f) \<and> flash_mem fl (FLASH_Lock fl f) = flash_mem fl f"
    and erase: "wf f \<Longrightarrow> ready f \<Longrightarrow> p < FEE_PAGE_COUNT \<Longrightarrow>
      \<exists>f'. FLASH_ErasePage fl (p * FEE_PAGE_SIZE) f = (FLASH_COMPLETE, f') \<and> wf f' \<and> ready f' \<and>
        flash_mem fl f' = write_at (flash_mem fl f) (p * FEE_PAGE_SIZE) (blank_bytes FEE_PAGE_SIZE)"
    and program_half: "wf f \<Longrightarrow> ready f \<Longrightarrow> 2 dvd a \<Longrightarrow> a + 2 \<le> FEE_PAGE_COUNT * FEE_PAGE_SIZE \<Longrightarrow>
      read_at (flash_mem fl f) a 2 = blank_bytes 2 \<Longrightarrow>
      \<exists>f'. FLASH_ProgramHalfWord fl a h f = (FLASH_COMPLETE, f') \<and> wf f' \<and> ready f' \<and>
        flash_mem fl f' = write_at (flash_mem fl f) a (le_bytes 2 h)"
    and program_double: "wf f \<Longrightarrow> ready f \<Longrightarrow> 8 dvd a \<Longrightarrow> a + 8 \<le> FEE_PAGE_COUNT * FEE_PAGE_SIZE \<Longrightarrow>
      read_at (flash_mem fl f) a 8 = blank_bytes 8 \<Longrightarrow>
      \<exists>f'. FLASH_ProgramDoubleWord fl a d f = (FLASH_COMPLETE, f') \<and> wf f' \<and> ready f' \<and>
        flash_mem fl f' = write_at (flash_mem fl f) a (le_bytes 8 d)"
begin

text \<open>Erasing the pages one after the other blanks them all.\<close>

lemma erase_pages:
  assumes "wf f" "ready f" "n \<le> FEE_PAGE_COUNT"
  shows "\<exists>f'. fold (\<lambda>p g. snd (FLASH_ErasePage fl (p * FEE_PAGE_SIZE) g)) [0..<n] f = f' \<and> wf f' \<and> ready f' \<and>
    flash_mem fl f' = write_at (flash_mem fl f) 0 (blank_bytes (n * FEE_PAGE_SIZE))"
  using assms(3)
proof (induction n)
  case 0
  then show ?case using assms by simp
next
  case (Suc n)
  then obtain g where g: "fold (\<lambda>p g. snd (FLASH_ErasePage fl (p * FEE_PAGE_SIZE) g)) [0..<n] f = g"
    "wf g" "ready g" "flash_mem fl g = write_at (flash_mem fl f) 0 (blank_bytes (n * FEE_PAGE_SIZE))"
    by auto
  obtain f' where f': "FLASH_ErasePage fl (n * FEE_PAGE_SIZE) g = (FLASH_COMPLETE, f')" "wf f'" "ready f'"
    "flash_mem fl f' = write_at (flash_mem fl g) (n * FEE_PAGE_SIZE) (blank_bytes FEE_PAGE_SIZE)"
    using erase [of g n] g Suc.prems by auto
  have "blank_bytes (Suc n * FEE_PAGE_SIZE) = blank_bytes (n * FEE_PAGE_SIZE) @ blank_bytes FEE_PAGE_SIZE"
    by (simp add: replicate_add [symmetric] add.commute)
  then show ?case using f' g by (simp add: write_at_append)
qed

end

subsection \<open>The host-side flash\<close>

record mock_flash =
  FlashBuf :: "u8 list"
  flash_locked :: bool

definition mock_FLASH_ErasePage :: "nat \<Rightarrow> mock_flash \<Rightarrow> u8 \<times> mock_flash" where
  "mock_FLASH_ErasePage Page_Address f =
    (if flash_locked f then (FLASH_ERROR_WRP, f)
     else let Page_Address = Page_Address - Page_Address mod FEE_PAGE_SIZE in
       if length (FlashBuf f) \<le> Page_Address then (FLASH_BAD_ADDRESS, f)
       else (FLASH_COMPLETE, f\<lparr>FlashBuf := write_at (FlashBuf f) Page_Address (blank_bytes FEE_PAGE_SIZE)\<rparr>))"

definition mock_FLASH_ProgramHalfWord :: "nat \<Rightarrow> u16 \<Rightarrow> mock_flash \<Rightarrow> u8 \<times> mock_flash" where
  "mock_FLASH_ProgramHalfWord Address Data f =
    (if flash_locked f then (FLASH_ERROR_WRP, f)
     else if length (FlashBuf f) \<le> Address then (FLASH_BAD_ADDRESS, f)
     else let oldData = (le_word (read_at (FlashBuf f) Address 2) :: u16) in
       if oldData = 0xFFFF \<or> Data = 0
       then (FLASH_COMPLETE, f\<lparr>FlashBuf := write_at (FlashBuf f) Address (le_bytes 2 Data)\<rparr>)
       else (FLASH_ERROR_PG, f))"

definition mock_FLASH_Unlock :: "mock_flash \<Rightarrow> mock_flash" where
  "mock_FLASH_Unlock f = f\<lparr>flash_locked := False\<rparr>"

definition mock_FLASH_Lock :: "mock_flash \<Rightarrow> mock_flash" where
  "mock_FLASH_Lock f = f\<lparr>flash_locked := True\<rparr>"

text \<open>The double-word counterpart of the half-word operation, for the part with 64-bit flash.\<close>

definition sim_FLASH_ProgramDoubleWord :: "nat \<Rightarrow> u64 \<Rightarrow> mock_flash \<Rightarrow> u8 \<times> mock_flash" where
  "sim_FLASH_ProgramDoubleWord Address Data f =
    (if flash_locked f then (FLASH_ERROR_WRP, f)
     else if length (FlashBuf f) \<le> Address then (FLASH_BAD_ADDRESS, f)
     else if read_at (FlashBuf f) Address 8 = blank_bytes 8 \<or> Data = 0
       then (FLASH_COMPLETE, f\<lparr>FlashBuf := write_at (FlashBuf f) Address (le_bytes 8 Data)\<rparr>)
       else (FLASH_ERROR_PG, f))"

definition mock_ops :: "mock_flash flash_ops" where
  "mock_ops = \<lparr>FLASH_Unlock = mock_FLASH_Unlock, FLASH_Lock = mock_FLASH_Lock,
    FLASH_ErasePage = mock_FLASH_ErasePage, FLASH_ProgramHalfWord = mock_FLASH_ProgramHalfWord,
    FLASH_ProgramDoubleWord = sim_FLASH_ProgramDoubleWord, flash_mem = FlashBuf\<rparr>"

definition mock_wf :: "mock_flash \<Rightarrow> bool" where
  "mock_wf f \<longleftrightarrow> length (FlashBuf f) = FEE_PAGE_COUNT * FEE_PAGE_SIZE"

definition mock_ready :: "mock_flash \<Rightarrow> bool" where
  "mock_ready f \<longleftrightarrow> \<not> flash_locked f"

definition mock_blank :: mock_flash where
  "mock_blank = \<lparr>FlashBuf = blank_bytes (FEE_PAGE_COUNT * FEE_PAGE_SIZE), flash_locked = True\<rparr>"

lemma mock_wf_blank [simp]: "mock_wf mock_blank"
  by (simp add: mock_wf_def mock_blank_def)

lemma le_word_blank_half [simp]: "(le_word (blank_bytes 2) :: u16) = 0xFFFF"
  by code_simp

interpretation mock: nor_flash mock_ops mock_wf mock_ready
proof unfold_locales
  fix f :: mock_flash and p :: nat
  assume *: "mock_wf f" "mock_ready f" "p < FEE_PAGE_COUNT"
  have "p * FEE_PAGE_SIZE < FEE_PAGE_COUNT * FEE_PAGE_SIZE"
    using * by (simp add: flash_consts)
  then show "\<exists>f'. FLASH_ErasePage mock_ops (p * FEE_PAGE_SIZE) f = (FLASH_COMPLETE, f') \<and> mock_wf f' \<and> mock_ready f' \<and>
        flash_mem mock_ops f' = write_at (flash_mem mock_ops f) (p * FEE_PAGE_SIZE) (blank_bytes FEE_PAGE_SIZE)"
    using * by (simp add: mock_ops_def mock_FLASH_ErasePage_def mock_wf_def mock_ready_def)
qed (auto simp: mock_ops_def mock_wf_def mock_ready_def mock_FLASH_Unlock_def mock_FLASH_Lock_def
    mock_FLASH_ProgramHalfWord_def sim_FLASH_ProgramDoubleWord_def Let_def)

end
