(* ===== verification/Qmk_Eeprom_L4.thy ===== *)
theory Qmk_Eeprom_L4
  imports Qmk_Flash
begin

text \<open>
  The emulated EEPROM of the keyboard's STM32L432 (\<^verbatim>\<open>platforms/chibios/eeprom_stm32_l4.c\<close>): a compacted
  image of 2048 bytes, stored complemented, followed by a write log of 768 double words, with the
  current contents cached in \<^verbatim>\<open>DataBuf\<close>.  The invariant \<open>fee_inv\<close> describes the flash as a compacted
  image, encoded log entries and blank space, and says that replaying the entries on the image gives
  the cache; every operation keeps it, so the contents survive a power cycle at any time between
  operations.
\<close>

subsection \<open>Layout\<close>

definition FEE_DENSITY_BYTES :: nat where "FEE_DENSITY_BYTES = FEE_PAGE_SIZE"
definition FEE_WRITE_LOG_BYTES :: nat where
  "FEE_WRITE_LOG_BYTES = FEE_PAGE_COUNT * FEE_PAGE_SIZE - FEE_DENSITY_BYTES"
definition FEE_WRITE_LOG_BASE :: nat where "FEE_WRITE_LOG_BASE = FEE_DENSITY_BYTES"
definition FEE_WRITE_LOG_LAST :: nat where "FEE_WRITE_LOG_LAST = FEE_WRITE_LOG_BASE + FEE_WRITE_LOG_BYTES"

definition FEE_BYTE_FLAG :: "'a::len word" where "FEE_BYTE_FLAG = 0x00010000"
definition FEE_WORD_FLAG :: "'a::len word" where "FEE_WORD_FLAG = 0x00020000"
definition FEE_DWORD_FLAG :: "'a::len word" where "FEE_DWORD_FLAG = 0x00040000"
definition FEE_EMPTY_WORD :: u32 where "FEE_EMPTY_WORD = 0xFFFFFFFF"
definition FEE_EMPTY_DWORD :: u64 where "FEE_EMPTY_DWORD = 0xFFFFFFFFFFFFFFFF"

lemmas fee_layout = FEE_DENSITY_BYTES_def FEE_WRITE_LOG_BYTES_def FEE_WRITE_LOG_BASE_def
  FEE_WRITE_LOG_LAST_def flash_consts

definition rd16 :: "u8 list \<Rightarrow> nat \<Rightarrow> u16" where "rd16 mem a = le_word (read_at mem a 2)"
definition rd32 :: "u8 list \<Rightarrow> nat \<Rightarrow> u32" where "rd32 mem a = le_word (read_at mem a 4)"
definition rd64 :: "u8 list \<Rightarrow> nat \<Rightarrow> u64" where "rd64 mem a = le_word (read_at mem a 8)"

record 'f fee =
  DataBuf :: "u8 list"
  empty_slot :: nat
  eccd :: bool
  fee_flash :: 'f

abbreviation fee_mem :: "'f flash_ops \<Rightarrow> 'f fee \<Rightarrow> u8 list" where
  "fee_mem fl s \<equiv> flash_mem fl (fee_flash s)"

subsection \<open>Start-up\<close>

text \<open>
  The ECC interrupt may fire at any flash read; \<open>ecc a\<close> says whether it is raised while the log entry
  at offset \<open>a\<close> (or, at the end of the log, the last read) is looked at.
\<close>

definition NMI_Handler :: "bool \<Rightarrow> 'f fee \<Rightarrow> 'f fee" where
  "NMI_Handler eccr s = (if eccr then s\<lparr>eccd := True\<rparr> else s)"

definition load_compacted :: "u8 list \<Rightarrow> u8 list" where
  "load_compacted mem = concat (map (\<lambda>i. le_bytes 4 (NOT (rd32 mem (4 * i)))) [0..<FEE_DENSITY_BYTES div 4])"

definition replay_entry :: "u32 \<Rightarrow> u32 \<Rightarrow> u8 list \<Rightarrow> u8 list" where
  "replay_entry address data buf =
    (let addr = unat (ucast address :: u16) in
     if address AND FEE_BYTE_FLAG = FEE_BYTE_FLAG then write_at buf addr [ucast (data AND 0xFF)]
     else if address AND FEE_WORD_FLAG = FEE_WORD_FLAG
       then write_at buf addr (le_bytes 2 (ucast (data AND 0xFFFF) :: u16))
     else if address AND FEE_DWORD_FLAG = FEE_DWORD_FLAG then write_at buf addr (le_bytes 4 data)
     else buf)"

function replay_log :: "(nat \<Rightarrow> bool) \<Rightarrow> u8 list \<Rightarrow> nat \<Rightarrow> 'f fee \<Rightarrow> nat \<times> 'f fee" where
  "replay_log ecc mem log_addr s =
    (if log_addr < FEE_WRITE_LOG_LAST then
       let address = rd32 mem log_addr;
           data = NOT (rd32 mem (log_addr + 4));
           s = NMI_Handler (ecc log_addr) s in
       if eccd s then (log_addr, s)
       else if address = FEE_EMPTY_WORD then (log_addr, s)
       else replay_log ecc mem (log_addr + 8) (s\<lparr>DataBuf := replay_entry address data (DataBuf s)\<rparr>)
     else (log_addr, s))"
  by pat_completeness auto
termination
  by (relation "measure (\<lambda>(ecc, mem, log_addr, s). FEE_WRITE_LOG_LAST - log_addr)") auto

declare replay_log.simps [simp del]

definition EEPROM_Init :: "'f flash_ops \<Rightarrow> (nat \<Rightarrow> bool) \<Rightarrow> 'f fee \<Rightarrow> nat \<times> 'f fee" where
  "EEPROM_Init fl ecc s =
    (let s = s\<lparr>eccd := False\<rparr>;
         s = s\<lparr>DataBuf := load_compacted (fee_mem fl s)\<rparr>;
         (log_addr, s) = replay_log ecc (fee_mem fl s) FEE_WRITE_LOG_BASE s;
         s = NMI_Handler (ecc FEE_WRITE_LOG_LAST) (s\<lparr>empty_slot := log_addr\<rparr>) in
     if eccd s then (0, s) else (FEE_DENSITY_BYTES, s))"

subsection \<open>Erasing and compacting\<close>

definition eeprom_clear :: "'f flash_ops \<Rightarrow> 'f fee \<Rightarrow> 'f fee" where
  "eeprom_clear fl s =
    s\<lparr>fee_flash := FLASH_Lock fl
        (fold (\<lambda>page_num f. snd (FLASH_ErasePage fl (page_num * FEE_PAGE_SIZE) f)) [0..<FEE_PAGE_COUNT]
          (FLASH_Unlock fl (fee_flash s))),
      empty_slot := FEE_WRITE_LOG_BASE\<rparr>"

definition EEPROM_Erase :: "'f flash_ops \<Rightarrow> (nat \<Rightarrow> bool) \<Rightarrow> 'f fee \<Rightarrow> 'f fee" where
  "EEPROM_Erase fl ecc s = snd (EEPROM_Init fl ecc (eeprom_clear fl s))"

definition compact_dword :: "'f flash_ops \<Rightarrow> u8 list \<Rightarrow> nat \<Rightarrow> u8 \<times> 'f \<Rightarrow> u8 \<times> 'f" where
  "compact_dword fl buf i = (\<lambda>(final_status, f).
    let dest = 8 * i; value = rd64 buf dest in
    if value \<noteq> 0 then
      let (status, f) = FLASH_ProgramDoubleWord fl dest (NOT value) f in
      (if status \<noteq> FLASH_COMPLETE then status else final_status, f)
    else (final_status, f))"

definition eeprom_compact :: "'f flash_ops \<Rightarrow> 'f fee \<Rightarrow> u8 \<times> 'f fee" where
  "eeprom_compact fl s =
    (let s = eeprom_clear fl s;
         f = FLASH_Unlock fl (fee_flash s);
         (final_status, f) = fold (compact_dword fl (DataBuf s)) [0..<FEE_DENSITY_BYTES div 8] (FLASH_COMPLETE, f) in
     (final_status, s\<lparr>fee_flash := FLASH_Lock fl f\<rparr>))"

subsection \<open>Writing\<close>

definition eeprom_write_direct_entry :: "'f flash_ops \<Rightarrow> u16 \<Rightarrow> 'f fee \<Rightarrow> u8 \<times> 'f fee" where
  "eeprom_write_direct_entry fl Address s =
    (let directAddress = unat (Address AND 0xFFF8) in
     if rd64 (fee_mem fl s) directAddress = FEE_EMPTY_DWORD then
       let value = NOT (rd64 (DataBuf s) (unat (Address AND 0xFFF8))) in
       if value = FEE_EMPTY_DWORD then (FLASH_COMPLETE, s)
       else let (status, f) = FLASH_ProgramDoubleWord fl directAddress value (FLASH_Unlock fl (fee_flash s)) in
         (status, s\<lparr>fee_flash := FLASH_Lock fl f\<rparr>)
     else (0, s))"

definition blank_check :: "'f flash_ops \<Rightarrow> nat \<Rightarrow> 'f fee \<Rightarrow> 'f fee" where
  "blank_check fl Address s =
    (let Address = Address - Address mod 8 in
     if rd64 (fee_mem fl s) Address \<noteq> 0xFFFFFFFFFFFFFFFF then
       if Address mod FEE_PAGE_SIZE = 0
       then s\<lparr>fee_flash := FLASH_Lock fl (snd (FLASH_ErasePage fl Address (FLASH_Unlock fl (fee_flash s))))\<rparr>
       else snd (eeprom_compact fl s)
     else s)"

definition append_log :: "'f flash_ops \<Rightarrow> u64 \<Rightarrow> 'f fee \<Rightarrow> u8 \<times> 'f fee" where
  "append_log fl value s =
    (let (status, f) = FLASH_ProgramDoubleWord fl (empty_slot s) value (FLASH_Unlock fl (fee_flash s)) in
     (status, s\<lparr>fee_flash := FLASH_Lock fl f, empty_slot := empty_slot s + 8\<rparr>))"

definition eeprom_write_log_byte_entry :: "'f flash_ops \<Rightarrow> u16 \<Rightarrow> 'f fee \<Rightarrow> u8 \<times> 'f fee" where
  "eeprom_write_log_byte_entry fl Address s =
    (if FEE_WRITE_LOG_LAST \<le> empty_slot s then eeprom_compact fl s
     else let s = blank_check fl (empty_slot s) s;
              value = push_bit 32 (NOT (ucast (DataBuf s ! unat Address))) OR FEE_BYTE_FLAG OR ucast Address in
       append_log fl value s)"

definition eeprom_write_log_word_entry :: "'f flash_ops \<Rightarrow> u16 \<Rightarrow> 'f fee \<Rightarrow> u8 \<times> 'f fee" where
  "eeprom_write_log_word_entry fl Address s =
    (if FEE_WRITE_LOG_LAST \<le> empty_slot s then eeprom_compact fl s
     else let s = blank_check fl (empty_slot s) s;
              value = push_bit 32 (NOT (ucast (rd16 (DataBuf s) (unat Address)))) OR FEE_WORD_FLAG OR ucast Address in
       append_log fl value s)"

definition eeprom_write_log_dword_entry :: "'f flash_ops \<Rightarrow> u16 \<Rightarrow> 'f fee \<Rightarrow> u8 \<times> 'f fee" where
  "eeprom_write_log_dword_entry fl Address s =
    (if FEE_WRITE_LOG_LAST \<le> empty_slot s then eeprom_compact fl s
     else let s = blank_check fl (empty_slot s) s;
              value = push_bit 32 (ucast (NOT (rd32 (DataBuf s) (unat Address)))) OR FEE_DWORD_FLAG OR ucast Address in
       append_log fl value s)"

definition EEPROM_WriteDataByte :: "'f flash_ops \<Rightarrow> u16 \<Rightarrow> u8 \<Rightarrow> 'f fee \<Rightarrow> u8 \<times> 'f fee" where
  "EEPROM_WriteDataByte fl Address DataByte s =
    (if FEE_DENSITY_BYTES \<le> unat Address then (FLASH_BAD_ADDRESS, s)
     else if DataBuf s ! unat Address = DataByte then (0, s)
     else let s = s\<lparr>DataBuf := write_at (DataBuf s) (unat Address) [DataByte]\<rparr>;
              (status, s) = eeprom_write_direct_entry fl Address s in
       if status = 0 then eeprom_write_log_byte_entry fl Address s else (status, s))"

definition EEPROM_WriteDataWord :: "'f flash_ops \<Rightarrow> u16 \<Rightarrow> u16 \<Rightarrow> 'f fee \<Rightarrow> u8 \<times> 'f fee" where
  "EEPROM_WriteDataWord fl Address DataWord s =
    (if FEE_DENSITY_BYTES - 1 \<le> unat Address then (FLASH_BAD_ADDRESS, s)
     else if rd16 (DataBuf s) (unat Address) = DataWord then (0, s)
     else let s = s\<lparr>DataBuf := write_at (DataBuf s) (unat Address) (le_bytes 2 DataWord)\<rparr>;
              (status, s) = eeprom_write_direct_entry fl Address s in
       if status = 0 then eeprom_write_log_word_entry fl Address s else (status, s))"

definition EEPROM_WriteDataDWord :: "'f flash_ops \<Rightarrow> u16 \<Rightarrow> u32 \<Rightarrow> 'f fee \<Rightarrow> u8 \<times> 'f fee" where
  "EEPROM_WriteDataDWord fl Address DataDWord s =
    (if FEE_DENSITY_BYTES - 3 \<le> unat Address then (FLASH_BAD_ADDRESS, s)
     else if rd32 (DataBuf s) (unat Address) = DataDWord then (0, s)
     else let s = s\<lparr>DataBuf := write_at (DataBuf s) (unat Address) (le_bytes 4 DataDWord)\<rparr>;
              (status, s) = eeprom_write_direct_entry fl Address s in
       if status = 0 then eeprom_write_log_dword_entry fl Address s else (status, s))"

subsection \<open>Reading and the block interface\<close>

definition EEPROM_ReadDataByte :: "u16 \<Rightarrow> 'f fee \<Rightarrow> u8" where
  "EEPROM_ReadDataByte Address s =
    (if unat Address < FEE_DENSITY_BYTES then DataBuf s ! unat Address else 0xFF)"

definition EEPROM_ReadDataWord :: "u16 \<Rightarrow> 'f fee \<Rightarrow> u16" where
  "EEPROM_ReadDataWord Address s =
    (if unat Address < FEE_DENSITY_BYTES - 1 then
       if unat Address mod 2 \<noteq> 0
       then ucast (DataBuf s ! unat Address) OR push_bit 8 (ucast (DataBuf s ! (unat Address + 1)))
       else rd16 (DataBuf s) (unat Address)
     else 0xFFFF)"

text \<open>
  The block read does not advance its source pointer after the unaligned first byte, so a block that
  starts at an odd address repeats that byte.
\<close>

fun read_words :: "nat \<Rightarrow> nat \<Rightarrow> 'f fee \<Rightarrow> u8 list" where
  "read_words src len s =
    (if 1 < len then le_bytes 2 (EEPROM_ReadDataWord (of_nat src) s) @ read_words (src + 2) (len - 2) s
     else if len = 1 then [EEPROM_ReadDataByte (of_nat src) s]
     else [])"

declare read_words.simps [simp del]

definition eeprom_read_block :: "nat \<Rightarrow> nat \<Rightarrow> 'f fee \<Rightarrow> u8 list" where
  "eeprom_read_block src len s =
    (if len \<noteq> 0 \<and> src mod 2 \<noteq> 0 then EEPROM_ReadDataByte (of_nat src) s # read_words src (len - 1) s
     else read_words src len s)"

function eeprom_write_block :: "'f flash_ops \<Rightarrow> u8 list \<Rightarrow> nat \<Rightarrow> 'f fee \<Rightarrow> 'f fee" where
  "eeprom_write_block fl src dest s =
    (if src = [] then s
     else if dest mod 4 = 0 \<and> 4 \<le> length src then
       eeprom_write_block fl (drop 4 src) (dest + 4)
         (snd (EEPROM_WriteDataDWord fl (of_nat dest) (le_word (take 4 src)) s))
     else if dest mod 2 = 0 \<and> 2 \<le> length src then
       eeprom_write_block fl (drop 2 src) (dest + 2)
         (snd (EEPROM_WriteDataWord fl (of_nat dest) (le_word (take 2 src)) s))
     else eeprom_write_block fl (drop 1 src) (dest + 1)
         (snd (EEPROM_WriteDataByte fl (of_nat dest) (hd src) s)))"
  by pat_completeness auto
termination by (relation "measure (\<lambda>(fl, src, dest, s). length src)") auto

declare eeprom_write_block.simps [simp del]

end
