(* ===== verification/Qmk_Fee_Correct.thy ===== *)
theory Qmk_Fee_Correct
  imports Qmk_Eeprom_L4
begin

text \<open>
  Correctness of the emulated EEPROM: the encoding of log entries, the invariant of the flash image,
  and what every operation does to the cached contents and to the invariant.
\<close>

subsection \<open>Log entries\<close>

type_synonym fee_entry = "u16 \<times> u8 list"

definition entry_value :: "fee_entry \<Rightarrow> u64" where
  "entry_value e = push_bit 32 (NOT (le_word (snd e))) OR push_bit 16 (of_nat (length (snd e))) OR ucast (fst e)"

definition entry_bytes :: "fee_entry \<Rightarrow> u8 list" where
  "entry_bytes e = le_bytes 8 (entry_value e)"

definition apply_entry :: "u8 list \<Rightarrow> fee_entry \<Rightarrow> u8 list" where
  "apply_entry buf e = write_at buf (unat (fst e)) (snd e)"

text \<open>An entry of the driver carries one, two or four bytes and stays within one double word.\<close>

definition entry_ok :: "fee_entry \<Rightarrow> bool" where
  "entry_ok e \<longleftrightarrow> length (snd e) \<in> {1, 2, 4} \<and> unat (fst e) + length (snd e) \<le> FEE_DENSITY_BYTES \<and>
    unat (fst e) mod 8 + length (snd e) \<le> 8"

definition entry_dword :: "fee_entry \<Rightarrow> nat" where
  "entry_dword e = unat (fst e) div 8"

lemma length_entry_bytes [simp]: "length (entry_bytes e) = 8"
  by (simp add: entry_bytes_def)

lemma length_apply_entry [simp]: "length (apply_entry buf e) = length buf"
  by (simp add: apply_entry_def)

lemma length_foldl_apply [simp]: "length (foldl apply_entry buf es) = length buf"
  by (induction es arbitrary: buf) auto

lemma bit_of_nat_small: "n < 8 \<Longrightarrow> bit (of_nat n :: 'a::len word) k \<Longrightarrow> k < 3"
proof -
  assume n: "n < 8" and b: "bit (of_nat n :: 'a word) k"
  from b have "bit n k" by (simp add: bit_of_nat_iff)
  then have "\<not> n < 2 ^ k" by (auto simp: bit_iff_odd)
  then have "2 ^ k \<le> n" by simp
  with n have "2 ^ k < (2::nat) ^ 3" by simp
  then show "k < 3" by (rule power_less_imp_less_exp [rotated]) simp
qed

lemma entry_address_word:
  assumes "length (snd e) < 8"
  shows "rd32 (entry_bytes e) 0 = push_bit 16 (of_nat (length (snd e))) OR ucast (fst e)"
proof -
  have "rd32 (entry_bytes e) 0 = ucast (entry_value e)"
    unfolding rd32_def entry_bytes_def by (subst le_word_take) (auto intro!: bit_word_eqI simp: bit_simps)
  also have "\<dots> = push_bit 16 (of_nat (length (snd e))) OR ucast (fst e)"
    by (rule bit_word_eqI)
      (auto simp: entry_value_def bit_simps bit_of_nat_iff)
  finally show ?thesis .
qed

lemma entry_data_word:
  assumes "length (snd e) \<in> {1, 2, 4}"
  shows "NOT (rd32 (entry_bytes e) 4) = le_word (snd e)"
proof -
  have "rd32 (entry_bytes e) 4 = ucast (drop_bit 32 (entry_value e))"
    unfolding rd32_def entry_bytes_def by (subst le_word_take) (auto intro!: bit_word_eqI simp: bit_simps)
  moreover have "drop_bit 32 (entry_value e) = take_bit 32 (NOT (le_word (snd e)))"
    using assms bit_of_nat_small [of "length (snd e)", where ?'a = 64]
    by (intro bit_word_eqI) (fastforce simp: entry_value_def bit_simps dest: bit_imp_le_length)
  ultimately show ?thesis
    by (intro bit_word_eqI) (auto simp: bit_simps bitlevel_simps)
qed

lemma entry_not_empty:
  assumes "length (snd e) \<in> {1, 2, 4}"
  shows "rd32 (entry_bytes e) 0 \<noteq> FEE_EMPTY_WORD"
proof
  assume "rd32 (entry_bytes e) 0 = FEE_EMPTY_WORD"
  then have "bit (rd32 (entry_bytes e) 0) 31" by (simp add: FEE_EMPTY_WORD_def)
  moreover have "length (snd e) < 8" using assms by auto
  moreover have "\<not> bit (fst e) 31" using bit_imp_le_length [of "fst e" 31] by auto
  ultimately have "bit (of_nat (length (snd e)) :: u32) 15"
    by (simp add: entry_address_word bit_simps del: bit_of_nat_iff)
  then show False using bit_of_nat_small [of "length (snd e)"] assms by fastforce
qed

lemma le_bytes_ucast_le_word:
  assumes "8 * length bs = LENGTH('a)" "LENGTH('a) \<le> LENGTH('b)"
  shows "le_bytes (length bs) (ucast (le_word bs AND mask LENGTH('a) :: 'b::len word) :: 'a::len word) = bs"
proof -
  have "(ucast (le_word bs AND mask LENGTH('a) :: 'b word) :: 'a word) = le_word bs"
    using assms(2) by (intro bit_word_eqI) (auto simp: bit_simps bitlevel_simps)
  then show ?thesis using assms(1) by (simp add: le_bytes_le_word)
qed

lemma replay_entry_flags:
  assumes "length (snd e) \<in> {1, 2, 4}" "k < 3"
  shows "(rd32 (entry_bytes e) 0 AND bitmask (16 + k) = bitmask (16 + k)) \<longleftrightarrow> bit (length (snd e)) k"
proof -
  have "length (snd e) < 8" using assms by auto
  moreover have "\<not> bit (fst e) (16 + k)" using bit_imp_le_length [of "fst e" "16 + k"] by auto
  ultimately show ?thesis using assms(2)
    by (auto simp: and_bitmask_eq entry_address_word bit_simps)
qed

lemma fee_flag_masks:
  "FEE_BYTE_FLAG = (bitmask (16 + 0) :: u32)" "FEE_WORD_FLAG = (bitmask (16 + 1) :: u32)"
  "FEE_DWORD_FLAG = (bitmask (16 + 2) :: u32)"
  by (simp_all add: FEE_BYTE_FLAG_def FEE_WORD_FLAG_def FEE_DWORD_FLAG_def bitmask_def)

lemma nat_bits_124:
  "bit (1::nat) 0" "\<not> bit (2::nat) 0" "bit (2::nat) 1" "\<not> bit (4::nat) 0" "\<not> bit (4::nat) 1" "bit (4::nat) 2"
  by (simp_all add: bit_iff_odd)

lemma replay_entry_apply:
  assumes "length (snd e) \<in> {1, 2, 4}"
  shows "replay_entry (rd32 (entry_bytes e) 0) (NOT (rd32 (entry_bytes e) 4)) buf = apply_entry buf e"
proof -
  have "length (snd e) < 8" using assms by auto
  then have "ucast (rd32 (entry_bytes e) 0) = fst e"
    by (intro bit_word_eqI) (simp add: entry_address_word bit_simps)
  then have r: "replay_entry (rd32 (entry_bytes e) 0) (NOT (rd32 (entry_bytes e) 4)) buf =
    (if bit (length (snd e)) 0 then write_at buf (unat (fst e)) [ucast (le_word (snd e) AND 0xFF :: u32)]
     else if bit (length (snd e)) 1 then write_at buf (unat (fst e)) (le_bytes 2 (ucast (le_word (snd e) AND 0xFFFF :: u32) :: u16))
     else if bit (length (snd e)) 2 then write_at buf (unat (fst e)) (le_bytes 4 (le_word (snd e) :: u32))
     else buf)"
    unfolding replay_entry_def Let_def fee_flag_masks entry_data_word [OF assms]
    by (subst (1 2 3) replay_entry_flags) (use assms in auto)
  have m: "(0xFF :: u32) = mask LENGTH(8)" "(0xFFFF :: u32) = mask LENGTH(16)"
    by (simp_all add: mask_eq_exp_minus_1)
  consider (1) "length (snd e) = 1" | (2) "length (snd e) = 2" | (4) "length (snd e) = 4"
    using assms by blast
  then show ?thesis
  proof cases
    case 1
    have "le_bytes (length (snd e)) (ucast (le_word (snd e) AND mask LENGTH(8) :: u32) :: u8) = snd e"
      using 1 by (intro le_bytes_ucast_le_word) simp_all
    then have "[ucast (le_word (snd e) AND mask LENGTH(8) :: u32)] = snd e" using 1 by simp
    then show ?thesis unfolding r m 1 using nat_bits_124 by (simp add: apply_entry_def)
  next
    case 2
    have "le_bytes (length (snd e)) (ucast (le_word (snd e) AND mask LENGTH(16) :: u32) :: u16) = snd e"
      using 2 by (intro le_bytes_ucast_le_word) simp_all
    then show ?thesis unfolding r m 2 using nat_bits_124 by (simp add: apply_entry_def)
  next
    case 4
    have "le_bytes (length (snd e)) (le_word (snd e) :: u32) = snd e"
      using 4 by (intro le_bytes_le_word) simp
    then show ?thesis unfolding r m 4 using nat_bits_124 by (simp add: apply_entry_def)
  qed
qed

subsection \<open>Replaying a log\<close>

lemma load_compacted_eq:
  assumes "FEE_DENSITY_BYTES \<le> length mem"
  shows "load_compacted mem = map NOT (take FEE_DENSITY_BYTES mem)"
proof -
  have "concat (map (\<lambda>i. le_bytes 4 (NOT (rd32 mem (4 * i)))) [0..<n]) = map NOT (take (4 * n) mem)"
    if "4 * n \<le> length mem" for n
    using that
  proof (induction n)
    case (Suc n)
    have l: "length (read_at mem (4 * n) 4) = 4" using Suc.prems by (simp add: byte_simps)
    have "le_bytes 4 (NOT (rd32 mem (4 * n))) = map NOT (le_bytes (length (read_at mem (4 * n) 4)) (rd32 mem (4 * n)))"
      using l by (simp add: le_bytes_not)
    also have "\<dots> = map NOT (read_at mem (4 * n) 4)"
      unfolding rd32_def using l by (subst le_bytes_le_word) simp_all
    finally have "le_bytes 4 (NOT (rd32 mem (4 * n))) = map NOT (read_at mem (4 * n) 4)" .
    moreover have "take (4 * Suc n) mem = take (4 * n) mem @ read_at mem (4 * n) 4"
      by (simp add: read_at_def take_add [symmetric] add.commute)
    ultimately show ?case using Suc by simp
  qed simp
  from this [of "FEE_DENSITY_BYTES div 4"] show ?thesis
    using assms by (simp add: load_compacted_def fee_layout)
qed

lemma rd32_blank:
  assumes "a + 4 \<le> n"
  shows "rd32 (blank_bytes n) a = FEE_EMPTY_WORD"
proof -
  have "read_at (blank_bytes n) a 4 = blank_bytes 4" using assms by (simp add: read_at_def)
  moreover have "le_word (blank_bytes 4) = FEE_EMPTY_WORD" by code_simp
  ultimately show ?thesis by (simp add: rd32_def)
qed

text \<open>
  A log of encoded entries followed by blank space replays to the effect of the entries, and the
  replay stops at the first blank slot.
\<close>

lemma rd32_at_entry:
  assumes "i + 4 \<le> 8"
  shows "rd32 (pre @ entry_bytes e @ post) (length pre + i) = rd32 (entry_bytes e) i"
proof -
  have "read_at (pre @ entry_bytes e @ post) (length pre + i) 4 = read_at (entry_bytes e @ post) i 4"
    by (simp add: read_at_append_right)
  then show ?thesis using assms by (simp add: rd32_def read_at_append_left)
qed

lemma replay_log_entries:
  assumes "mem = pre @ concat (map entry_bytes es) @ blank_bytes r"
    and "length mem = FEE_WRITE_LOG_LAST" "8 dvd r" "\<forall>e \<in> set es. entry_ok e" "\<forall>a. \<not> ecc a" "\<not> eccd s"
  shows "replay_log ecc mem (length pre) s =
    (length pre + 8 * length es, s\<lparr>DataBuf := foldl apply_entry (DataBuf s) es\<rparr>)"
  using assms(1,4,6)
proof (induction es arbitrary: pre s)
  case Nil
  have n: "NMI_Handler (ecc a) s = s" for a using assms(5) by (simp add: NMI_Handler_def)
  have "length pre < FEE_WRITE_LOG_LAST \<Longrightarrow> rd32 mem (length pre) = FEE_EMPTY_WORD"
  proof -
    assume "length pre < FEE_WRITE_LOG_LAST"
    then have "4 \<le> r" using Nil(1) assms(2,3) by (auto elim!: dvdE)
    then have "rd32 (blank_bytes r) 0 = FEE_EMPTY_WORD" by (simp add: rd32_blank)
    then show ?thesis using Nil(1) by (simp add: rd32_def read_at_append_right)
  qed
  then show ?case using Nil n by (subst replay_log.simps) (auto simp: Let_def)
next
  case (Cons e es)
  have m: "mem = pre @ entry_bytes e @ (concat (map entry_bytes es) @ blank_bytes r)" using Cons.prems by simp
  have l: "length pre < FEE_WRITE_LOG_LAST" unfolding assms(2) [symmetric] m by simp
  have ok: "length (snd e) \<in> {1, 2, 4}" using Cons.prems by (simp add: entry_ok_def)
  have n: "NMI_Handler (ecc a) s = s" for a using assms(5) by (simp add: NMI_Handler_def)
  have r0: "rd32 mem (length pre) = rd32 (entry_bytes e) 0"
    using rd32_at_entry [of 0 pre e] m by simp
  have r4: "rd32 mem (length pre + 4) = rd32 (entry_bytes e) 4"
    using rd32_at_entry [of 4 pre e] m by simp
  have "replay_log ecc mem (length pre) s =
    replay_log ecc mem (length (pre @ entry_bytes e)) (s\<lparr>DataBuf := apply_entry (DataBuf s) e\<rparr>)"
    using l n Cons.prems(3) entry_not_empty [OF ok]
    by (subst replay_log.simps) (simp add: Let_def r0 r4 replay_entry_apply [OF ok])
  also have "\<dots> = (length pre + 8 * length (e # es), s\<lparr>DataBuf := foldl apply_entry (DataBuf s) (e # es)\<rparr>)"
    using Cons.prems m by (subst Cons.IH) simp_all
  finally show ?case .
qed

subsection \<open>The invariant\<close>

definition dword_blank :: "u8 list \<Rightarrow> nat \<Rightarrow> bool" where
  "dword_blank img d \<longleftrightarrow> read_at img (8 * d) 8 = blank_bytes 8"

definition fee_image :: "u8 list \<Rightarrow> fee_entry list \<Rightarrow> u8 list" where
  "fee_image img es = img @ concat (map entry_bytes es) @ blank_bytes (FEE_WRITE_LOG_BYTES - 8 * length es)"

definition fee_rel :: "u8 list \<Rightarrow> u8 list \<Rightarrow> nat \<Rightarrow> u8 list \<Rightarrow> fee_entry list \<Rightarrow> bool" where
  "fee_rel mem buf slot img es \<longleftrightarrow>
    length img = FEE_DENSITY_BYTES \<and> 8 * length es \<le> FEE_WRITE_LOG_BYTES \<and> mem = fee_image img es \<and>
    slot = FEE_WRITE_LOG_BASE + 8 * length es \<and> buf = foldl apply_entry (map NOT img) es \<and>
    (\<forall>e \<in> set es. entry_ok e \<and> \<not> dword_blank img (entry_dword e))"

definition fee_inv :: "'f flash_ops \<Rightarrow> ('f \<Rightarrow> bool) \<Rightarrow> 'f fee \<Rightarrow> bool" where
  "fee_inv fl dev_ok s \<longleftrightarrow> dev_ok (fee_flash s) \<and>
    (\<exists>img es. fee_rel (fee_mem fl s) (DataBuf s) (empty_slot s) img es)"

lemma length_concat_entries [simp]: "length (concat (map entry_bytes es)) = 8 * length es"
  by (induction es) auto

lemma fee_rel_length: "fee_rel mem buf slot img es \<Longrightarrow> length buf = FEE_DENSITY_BYTES"
  by (simp add: fee_rel_def)

lemma fee_inv_wf: "fee_inv fl dev_ok s \<Longrightarrow> dev_ok (fee_flash s)"
  by (simp add: fee_inv_def)

lemma fee_inv_length: "fee_inv fl dev_ok s \<Longrightarrow> length (DataBuf s) = FEE_DENSITY_BYTES"
  by (auto simp: fee_inv_def dest: fee_rel_length)

lemma range_in_dword:
  fixes a l d :: nat
  assumes "a mod 8 + l \<le> 8" "a div 8 \<noteq> d"
  shows "a + l \<le> 8 * d \<or> 8 * d + 8 \<le> a"
proof (cases "a div 8 < d")
  case True
  then have "8 * (a div 8) + 8 \<le> 8 * d" by simp
  moreover have "a = 8 * (a div 8) + a mod 8" by simp
  ultimately show ?thesis using assms(1) by linarith
next
  case False
  then have "8 * d + 8 \<le> 8 * (a div 8)" using assms(2) by simp
  moreover have "8 * (a div 8) \<le> a" by simp
  ultimately show ?thesis by linarith
qed

text \<open>Entries for other double words commute with a change of one double word.\<close>

lemma foldl_apply_write_dword:
  assumes "\<forall>e \<in> set es. entry_ok e \<and> entry_dword e \<noteq> d" "length v = 8"
  shows "foldl apply_entry (write_at b (8 * d) v) es = write_at (foldl apply_entry b es) (8 * d) v"
  using assms(1)
proof (induction es arbitrary: b)
  case (Cons e es)
  then have e: "entry_ok e" "entry_dword e \<noteq> d" by auto
  have "unat (fst e) + length (snd e) \<le> 8 * d \<or> 8 * d + 8 \<le> unat (fst e)"
    using e unfolding entry_ok_def entry_dword_def by (intro range_in_dword) auto
  then have "apply_entry (write_at b (8 * d) v) e = write_at (apply_entry b e) (8 * d) v"
    using assms(2) by (auto simp: apply_entry_def write_at_commute)
  then show ?case using Cons by simp
qed simp

lemma rd64_eq_iff:
  assumes "a + 8 \<le> length mem" "length bs = 8"
  shows "rd64 mem a = le_word bs \<longleftrightarrow> read_at mem a 8 = bs"
proof -
  have l: "length (read_at mem a 8) = 8" using assms by (simp add: byte_simps)
  have "le_bytes 8 (rd64 mem a) = read_at mem a 8"
    using le_bytes_le_word [of "read_at mem a 8", where ?'a = 64] l by (simp add: rd64_def)
  moreover have "le_bytes 8 (le_word bs :: u64) = bs"
    using le_bytes_le_word [of bs, where ?'a = 64] assms by simp
  ultimately show ?thesis by (metis rd64_def)
qed

lemma le_bytes_rd64: "a + 8 \<le> length mem \<Longrightarrow> le_bytes 8 (rd64 mem a) = read_at mem a 8"
  using le_bytes_le_word [of "read_at mem a 8", where ?'a = 64] by (simp add: rd64_def byte_simps)

lemma rd64_blank_iff:
  assumes "a + 8 \<le> length mem"
  shows "rd64 mem a = FEE_EMPTY_DWORD \<longleftrightarrow> read_at mem a 8 = blank_bytes 8"
proof -
  have "FEE_EMPTY_DWORD = le_word (blank_bytes 8)" by code_simp
  then show ?thesis using rd64_eq_iff [of a mem "blank_bytes 8"] assms by simp
qed

lemma rd64_zero_iff:
  assumes "a + 8 \<le> length mem"
  shows "rd64 mem a = 0 \<longleftrightarrow> read_at mem a 8 = replicate 8 0"
proof -
  have "(0 :: u64) = le_word (replicate 8 0)" by code_simp
  then show ?thesis using rd64_eq_iff [of a mem "replicate 8 0"] assms by simp
qed

lemma unat_and_FFF8: "unat ((a :: u16) AND 0xFFF8) = 8 * (unat a div 8)"
proof -
  have "a AND 0xFFF8 = push_bit 3 (drop_bit 3 a)"
  proof (rule bit_word_eqI)
    fix k assume k: "k < LENGTH(16)"
    have m: "(0xFFF8 :: u16) = NOT (mask 3)" by code_simp
    show "bit (a AND 0xFFF8) k = bit (push_bit 3 (drop_bit 3 a)) k"
      unfolding m using k by (auto simp: bit_and_iff bit_not_iff bit_mask_iff bit_push_bit_iff bit_drop_bit_eq)
  qed
  also have "unat \<dots> = 8 * (unat a div 8)"
    using unsigned_less [of a, where ?'a = nat]
    by (simp add: unat_word_ariths(2) push_bit_eq_mult unat_drop_bit_eq drop_bit_eq_div mult.commute unat_div_distrib)
  finally show ?thesis .
qed

lemma le_word_le_bytes_ucast:
  assumes "LENGTH('a) = 8 * n"
  shows "le_word (le_bytes n (w :: 'a::len word)) = (ucast w :: 'b::len word)"
proof (rule bit_word_eqI)
  fix k assume k: "k < LENGTH('b)"
  have d: "k div 8 < n \<longleftrightarrow> k < LENGTH('a)" using assms by linarith
  have "8 * (k div 8) + k mod 8 = k" by simp
  then show "bit (le_word (le_bytes n w) :: 'b word) k = bit (ucast w :: 'b word) k"
    using k d by (auto simp: bit_le_word nth_le_bytes bit_unsigned_iff bit_drop_bit_eq
        simp del: div_mult_mod_eq dest: bit_imp_le_length)
qed

lemma entry_value_byte:
  "entry_value (a, [b]) = push_bit 32 (NOT (ucast b)) OR FEE_BYTE_FLAG OR ucast a"
  by (simp add: entry_value_def FEE_BYTE_FLAG_def)

lemma entry_value_word:
  "entry_value (a, le_bytes 2 (w :: u16)) = push_bit 32 (NOT (ucast w)) OR FEE_WORD_FLAG OR ucast a"
  by (simp add: entry_value_def FEE_WORD_FLAG_def le_word_le_bytes_ucast)

lemma entry_value_dword:
  "entry_value (a, le_bytes 4 (w :: u32)) = push_bit 32 (ucast (NOT w)) OR FEE_DWORD_FLAG OR ucast a"
proof -
  have "push_bit 32 (ucast (NOT w)) = (push_bit 32 (NOT (ucast w)) :: u64)"
    by (rule bit_word_eqI) (auto simp: bit_simps)
  then show ?thesis by (simp add: entry_value_def FEE_DWORD_FLAG_def le_word_le_bytes_ucast)
qed

subsection \<open>Operations\<close>

lemma fee_relI:
  assumes "length img = FEE_DENSITY_BYTES" "8 * length es \<le> FEE_WRITE_LOG_BYTES"
    "\<And>e. e \<in> set es \<Longrightarrow> entry_ok e \<and> \<not> dword_blank img (entry_dword e)"
    "mem = fee_image img es" "slot = FEE_WRITE_LOG_BASE + 8 * length es" "buf = foldl apply_entry (map NOT img) es"
  shows "fee_rel mem buf slot img es"
  using assms by (simp add: fee_rel_def)

lemma NOT_o_NOT [simp]: "NOT \<circ> NOT = (id :: 'a::len word \<Rightarrow> 'a word)"
  by (simp add: fun_eq_iff)

lemma map_NOT_NOT [simp]: "map NOT (map NOT (xs :: 'a::len word list)) = xs"
  by (simp add: map_idI)

lemma image_dword:
  assumes "length img = FEE_DENSITY_BYTES" "8 * d + 8 \<le> FEE_DENSITY_BYTES"
  shows "read_at (fee_image img es) (8 * d) 8 = read_at img (8 * d) 8"
  using assms by (simp add: fee_image_def read_at_append_left)

text \<open>The double word of an address range that stays within one double word.\<close>

lemma entry_dword_bounds:
  assumes "entry_ok e"
  shows "8 * entry_dword e + 8 \<le> FEE_DENSITY_BYTES" "8 * entry_dword e \<le> unat (fst e)"
    "unat (fst e) + length (snd e) \<le> 8 * entry_dword e + 8"
proof -
  have a: "unat (fst e) = 8 * entry_dword e + unat (fst e) mod 8" by (simp add: entry_dword_def)
  have "unat (fst e) < FEE_DENSITY_BYTES" using assms by (auto simp: entry_ok_def)
  then show "8 * entry_dword e + 8 \<le> FEE_DENSITY_BYTES" unfolding entry_dword_def fee_layout by presburger
  show "8 * entry_dword e \<le> unat (fst e)" using a by linarith
  show "unat (fst e) + length (snd e) \<le> 8 * entry_dword e + 8" using a assms unfolding entry_ok_def by linarith
qed

text \<open>
  A blank double word of the image is not touched by the log, so the entry can go directly into the
  image: the new image still replays to the new contents.
\<close>

lemma fee_rel_direct:
  assumes rel: "fee_rel mem buf slot img es" and e: "entry_ok e" and bl: "dword_blank img (entry_dword e)"
  defines "d \<equiv> entry_dword e"
  defines "v \<equiv> read_at (apply_entry buf e) (8 * d) 8"
  shows "fee_rel (write_at mem (8 * d) (map NOT v)) (apply_entry buf e) slot (write_at img (8 * d) (map NOT v)) es"
proof (rule fee_relI)
  note r = rel [unfolded fee_rel_def]
  note b = entry_dword_bounds [OF e, folded d_def]
  have lb: "length buf = FEE_DENSITY_BYTES" by (rule fee_rel_length [OF rel])
  have lv: "length v = 8" using b lb by (simp add: v_def byte_simps)
  show "length (write_at img (8 * d) (map NOT v)) = FEE_DENSITY_BYTES" using r by simp
  show "8 * length es \<le> FEE_WRITE_LOG_BYTES" "slot = FEE_WRITE_LOG_BASE + 8 * length es" using r by auto
  have other: "entry_ok x \<and> entry_dword x \<noteq> d" if "x \<in> set es" for x using r bl that d_def by auto
  show "entry_ok x \<and> \<not> dword_blank (write_at img (8 * d) (map NOT v)) (entry_dword x)" if x: "x \<in> set es" for x
  proof -
    have "8 * entry_dword x + 8 \<le> 8 * d \<or> 8 * d + 8 \<le> 8 * entry_dword x" using other [OF x] by linarith
    then have "read_at (write_at img (8 * d) (map NOT v)) (8 * entry_dword x) 8 = read_at img (8 * entry_dword x) 8"
      using entry_dword_bounds(1) [of x] other [OF x] r lv by (intro read_at_write_at_other) auto
    then show ?thesis using r x by (simp add: dword_blank_def)
  qed
  show "write_at mem (8 * d) (map NOT v) = fee_image (write_at img (8 * d) (map NOT v)) es"
    using r b lv by (simp add: fee_image_def write_at_append_left)
  have "foldl apply_entry (map NOT (write_at img (8 * d) (map NOT v))) es = write_at buf (8 * d) v"
    using other lv r by (simp add: map_write_at foldl_apply_write_dword)
  also have "\<dots> = write_at (apply_entry buf e) (8 * d) v"
    unfolding apply_entry_def using b lv by (simp add: write_at_cover)
  also have "\<dots> = apply_entry buf e" unfolding v_def using b lb by simp
  finally show "apply_entry buf e = foldl apply_entry (map NOT (write_at img (8 * d) (map NOT v))) es" ..
qed

text \<open>Appending an entry for a double word of the image that is not blank.\<close>

lemma fee_rel_append:
  assumes rel: "fee_rel mem buf slot img es" and e: "entry_ok e" "\<not> dword_blank img (entry_dword e)"
    and room: "slot < FEE_WRITE_LOG_LAST"
  shows "fee_rel (write_at mem slot (entry_bytes e)) (apply_entry buf e) (slot + 8) img (es @ [e])"
    and "read_at mem slot 8 = blank_bytes 8" "8 dvd slot" "slot + 8 \<le> FEE_WRITE_LOG_LAST"
proof -
  note r = rel [unfolded fee_rel_def]
  have len: "8 * length es + 8 \<le> FEE_WRITE_LOG_BYTES" using r room by (auto simp: fee_layout)
  show "8 dvd slot" "slot + 8 \<le> FEE_WRITE_LOG_LAST" using r len by (auto simp: fee_layout)
  have m: "mem = (img @ concat (map entry_bytes es)) @ blank_bytes (FEE_WRITE_LOG_BYTES - 8 * length es)"
    using r by (simp add: fee_image_def)
  have sl: "slot = length (img @ concat (map entry_bytes es))" using r by (simp add: fee_layout)
  have "blank_bytes (FEE_WRITE_LOG_BYTES - 8 * length es) =
    blank_bytes 8 @ blank_bytes (FEE_WRITE_LOG_BYTES - 8 * length (es @ [e]))"
    using len by (simp add: replicate_add [symmetric])
  then have m2: "mem = (img @ concat (map entry_bytes es)) @ blank_bytes 8 @
    blank_bytes (FEE_WRITE_LOG_BYTES - 8 * length (es @ [e]))" using m by simp
  show "read_at mem slot 8 = blank_bytes 8"
    unfolding m2 sl by (simp add: read_at_append_right read_at_append_left) (simp add: read_at_def)
  have "write_at mem slot (entry_bytes e) = fee_image img (es @ [e])"
    unfolding m2 sl fee_image_def by (simp add: write_at_append_right write_at_append_left) (simp add: write_at_split)
  then show "fee_rel (write_at mem slot (entry_bytes e)) (apply_entry buf e) (slot + 8) img (es @ [e])"
    using r e len by (intro fee_relI) auto
qed

lemma EEPROM_Init_rel:
  assumes "fee_rel (fee_mem fl s) buf slot img es" "\<forall>a. \<not> ecc a"
  shows "EEPROM_Init fl ecc s = (FEE_DENSITY_BYTES, s\<lparr>DataBuf := buf, empty_slot := slot, eccd := False\<rparr>)"
proof -
  note r = assms(1) [unfolded fee_rel_def]
  have m: "fee_mem fl s = img @ concat (map entry_bytes es) @ blank_bytes (FEE_WRITE_LOG_BYTES - 8 * length es)"
    using r by (simp add: fee_image_def)
  have l: "length (fee_mem fl s) = FEE_WRITE_LOG_LAST" unfolding m using r by (simp add: fee_layout)
  have ld: "load_compacted (fee_mem fl s) = map NOT img"
    unfolding m using r by (subst load_compacted_eq) simp_all
  define s1 where "s1 = s\<lparr>eccd := False, DataBuf := map NOT img\<rparr>"
  have "replay_log ecc (fee_mem fl s) (length img) s1 =
      (length img + 8 * length es, s1\<lparr>DataBuf := foldl apply_entry (DataBuf s1) es\<rparr>)"
    using r assms(2) l by (intro replay_log_entries [OF m]) (auto simp: s1_def fee_layout intro: dvd_diff_nat)
  then have rp: "replay_log ecc (fee_mem fl s) FEE_WRITE_LOG_BASE s1 =
      (slot, s1\<lparr>DataBuf := buf\<rparr>)"
    using r by (simp add: s1_def FEE_WRITE_LOG_BASE_def)
  show ?thesis
    using ld rp assms(2) by (simp add: EEPROM_Init_def s1_def Let_def NMI_Handler_def)
qed

context nor_flash
begin

lemma eeprom_clear_blank:
  assumes "wf (fee_flash s)"
  shows "wf (fee_flash (eeprom_clear fl s)) \<and> fee_mem fl (eeprom_clear fl s) = blank_bytes FEE_WRITE_LOG_LAST \<and>
    DataBuf (eeprom_clear fl s) = DataBuf s \<and> empty_slot (eeprom_clear fl s) = FEE_WRITE_LOG_BASE"
proof -
  let ?f = "FLASH_Unlock fl (fee_flash s)"
  have u: "wf ?f" "ready ?f" using unlock [OF assms] by auto
  obtain f' where f': "fold (\<lambda>p g. snd (FLASH_ErasePage fl (p * FEE_PAGE_SIZE) g)) [0..<FEE_PAGE_COUNT] ?f = f'"
    "wf f'" "ready f'" "flash_mem fl f' = write_at (flash_mem fl ?f) 0 (blank_bytes (FEE_PAGE_COUNT * FEE_PAGE_SIZE))"
    using erase_pages [OF u, of FEE_PAGE_COUNT] by auto
  have "flash_mem fl f' = blank_bytes FEE_WRITE_LOG_LAST"
    using f'(4) mem_size [OF u(1)] by (simp add: write_at_split) (simp add: fee_layout)
  then show ?thesis using f' lock [of f'] by (simp add: eeprom_clear_def)
qed

lemma compact_dwords:
  assumes "wf f" "ready f" "flash_mem fl f = blank_bytes FEE_WRITE_LOG_LAST" "length buf = FEE_DENSITY_BYTES"
    "n \<le> FEE_DENSITY_BYTES div 8"
  shows "\<exists>f'. fold (compact_dword fl buf) [0..<n] (FLASH_COMPLETE, f) = (FLASH_COMPLETE, f') \<and> wf f' \<and> ready f' \<and>
    flash_mem fl f' = map NOT (take (8 * n) buf) @ blank_bytes (FEE_WRITE_LOG_LAST - 8 * n)"
  using assms(5)
proof (induction n)
  case 0
  then show ?case using assms by simp
next
  case (Suc n)
  let ?pre = "map NOT (take (8 * n) buf)"
  obtain g where g: "fold (compact_dword fl buf) [0..<n] (FLASH_COMPLETE, f) = (FLASH_COMPLETE, g)" "wf g" "ready g"
    "flash_mem fl g = ?pre @ blank_bytes (FEE_WRITE_LOG_LAST - 8 * n)"
    using Suc by auto
  have n: "8 * n + 8 \<le> FEE_DENSITY_BYTES" using Suc.prems by (simp add: fee_layout)
  have lp: "length ?pre = 8 * n" using n assms(4) by simp
  have "blank_bytes (FEE_WRITE_LOG_LAST - 8 * n) = blank_bytes 8 @ blank_bytes (FEE_WRITE_LOG_LAST - 8 * Suc n)"
    using n by (simp add: replicate_add [symmetric] fee_layout)
  then have m: "flash_mem fl g = ?pre @ blank_bytes 8 @ blank_bytes (FEE_WRITE_LOG_LAST - 8 * Suc n)"
    using g(4) by simp
  have bl: "read_at (flash_mem fl g) (8 * n) 8 = blank_bytes 8"
    unfolding m using lp by (simp add: read_at_append_right read_at_append_left) (simp add: read_at_def)
  have t: "map NOT (take (8 * Suc n) buf) = ?pre @ map NOT (read_at buf (8 * n) 8)"
    by (simp add: read_at_def take_add [symmetric] add.commute flip: map_append)
  show ?case
  proof (cases "rd64 buf (8 * n) = 0")
    case True
    then have "read_at buf (8 * n) 8 = replicate 8 0" using n assms(4) by (simp add: rd64_zero_iff)
    then have "map NOT (read_at buf (8 * n) 8) = blank_bytes 8" by simp
    then show ?thesis using True g(1-3) m t
      by (simp add: compact_dword_def [of fl buf n])
  next
    case False
    obtain f' where f': "FLASH_ProgramDoubleWord fl (8 * n) (NOT (rd64 buf (8 * n))) g = (FLASH_COMPLETE, f')"
      "wf f'" "ready f'" "flash_mem fl f' = write_at (flash_mem fl g) (8 * n) (le_bytes 8 (NOT (rd64 buf (8 * n))))"
      using program_double [of g "8 * n" "NOT (rd64 buf (8 * n))"] g bl n by (auto simp: fee_layout)
    have "le_bytes 8 (NOT (rd64 buf (8 * n))) = map NOT (read_at buf (8 * n) 8)"
      using n assms(4) by (simp add: le_bytes_not le_bytes_rd64)
    then have "flash_mem fl f' = ?pre @ map NOT (read_at buf (8 * n) 8) @ blank_bytes (FEE_WRITE_LOG_LAST - 8 * Suc n)"
      unfolding f'(4) m using lp n assms(4)
      by (simp add: write_at_append_right write_at_append_left byte_simps) (simp add: write_at_split byte_simps)
    then show ?thesis using False g(1) f' t
      by (simp add: compact_dword_def [of fl buf n])
  qed
qed

lemma eeprom_compact_inv:
  assumes "wf (fee_flash s)" "length (DataBuf s) = FEE_DENSITY_BYTES"
  shows "\<exists>s'. eeprom_compact fl s = (FLASH_COMPLETE, s') \<and> fee_inv fl wf s' \<and> DataBuf s' = DataBuf s"
proof -
  let ?s = "eeprom_clear fl s" and ?n = "FEE_DENSITY_BYTES div 8"
  note c = eeprom_clear_blank [OF assms(1)]
  have u: "wf (FLASH_Unlock fl (fee_flash ?s))" "ready (FLASH_Unlock fl (fee_flash ?s))"
    "flash_mem fl (FLASH_Unlock fl (fee_flash ?s)) = blank_bytes FEE_WRITE_LOG_LAST"
    using unlock [of "fee_flash ?s"] c by auto
  obtain f' where f': "fold (compact_dword fl (DataBuf s)) [0..<?n] (FLASH_COMPLETE, FLASH_Unlock fl (fee_flash ?s)) =
      (FLASH_COMPLETE, f')" "wf f'"
    "flash_mem fl f' = map NOT (take (8 * ?n) (DataBuf s)) @ blank_bytes (FEE_WRITE_LOG_LAST - 8 * ?n)"
    using compact_dwords [OF u assms(2), of ?n] by auto
  have "flash_mem fl f' = fee_image (map NOT (DataBuf s)) []"
    using f'(3) assms(2) by (simp add: fee_image_def fee_layout)
  then have "fee_rel (flash_mem fl f') (DataBuf s) FEE_WRITE_LOG_BASE (map NOT (DataBuf s)) []"
    using assms(2) by (intro fee_relI) simp_all
  then have "fee_inv fl wf (?s\<lparr>fee_flash := FLASH_Lock fl f'\<rparr>)"
    using lock [OF f'(2)] c by (auto simp: fee_inv_def)
  then show ?thesis using f' c by (simp add: eeprom_compact_def Let_def)
qed

lemma eeprom_write_direct_entry_cases:
  assumes w: "wf (fee_flash s)" and rel: "fee_rel (fee_mem fl s) buf (empty_slot s) img es"
    and e: "entry_ok e" and buf: "DataBuf s = apply_entry buf e"
  shows "if dword_blank img (entry_dword e)
    then \<exists>s'. eeprom_write_direct_entry fl (fst e) s = (FLASH_COMPLETE, s') \<and> fee_inv fl wf s' \<and> DataBuf s' = DataBuf s
    else eeprom_write_direct_entry fl (fst e) s = (0, s)"
proof -
  let ?d = "entry_dword e"
  let ?v = "read_at (DataBuf s) (8 * ?d) 8"
  have a: "unat (fst e AND 0xFFF8) = 8 * ?d" by (simp add: unat_and_FFF8 entry_dword_def)
  note b = entry_dword_bounds [OF e]
  have li: "length img = FEE_DENSITY_BYTES" and mm: "fee_mem fl s = fee_image img es" using rel by (auto simp: fee_rel_def)
  have lb: "length (DataBuf s) = FEE_DENSITY_BYTES" using fee_rel_length [OF rel] buf by simp
  have lm: "8 * ?d + 8 \<le> length (fee_mem fl s)" using mm b li by (simp add: fee_image_def)
  have rm: "read_at (fee_mem fl s) (8 * ?d) 8 = read_at img (8 * ?d) 8" unfolding mm by (rule image_dword [OF li b(1)])
  have bl: "rd64 (fee_mem fl s) (8 * ?d) = FEE_EMPTY_DWORD \<longleftrightarrow> dword_blank img ?d"
    using rd64_blank_iff [OF lm] rm by (simp add: dword_blank_def)
  have lv: "le_bytes 8 (NOT (rd64 (DataBuf s) (8 * ?d))) = map NOT ?v"
    using b lb by (simp add: le_bytes_not le_bytes_rd64)
  show ?thesis
  proof (cases "dword_blank img ?d")
    case False
    then show ?thesis using bl a by (simp add: eeprom_write_direct_entry_def)
  next
    case True
    have rel': "fee_rel (write_at (fee_mem fl s) (8 * ?d) (map NOT ?v)) (DataBuf s) (empty_slot s)
        (write_at img (8 * ?d) (map NOT ?v)) es"
      using fee_rel_direct [OF rel e True] buf by simp
    show ?thesis
    proof (cases "NOT (rd64 (DataBuf s) (8 * ?d)) = FEE_EMPTY_DWORD")
      case empty: True
      have "FEE_EMPTY_DWORD = le_word (blank_bytes 8)" by code_simp
      then have "map NOT ?v = blank_bytes 8"
        using empty lv le_bytes_le_word [of "blank_bytes 8", where ?'a = 64] by simp
      then have "map NOT ?v = read_at (fee_mem fl s) (8 * ?d) 8" using rm True by (simp add: dword_blank_def)
      then have "write_at (fee_mem fl s) (8 * ?d) (map NOT ?v) = fee_mem fl s" using lm by simp
      then have "fee_inv fl wf s" using rel' w by (auto simp: fee_inv_def)
      then show ?thesis using True empty bl a by (simp add: eeprom_write_direct_entry_def)
    next
      case prog: False
      have u: "wf (FLASH_Unlock fl (fee_flash s))" "ready (FLASH_Unlock fl (fee_flash s))"
        "flash_mem fl (FLASH_Unlock fl (fee_flash s)) = fee_mem fl s" using unlock [OF w] by auto
      obtain f' where f': "FLASH_ProgramDoubleWord fl (8 * ?d) (NOT (rd64 (DataBuf s) (8 * ?d))) (FLASH_Unlock fl (fee_flash s)) =
          (FLASH_COMPLETE, f')" "wf f'" "flash_mem fl f' = write_at (fee_mem fl s) (8 * ?d) (map NOT ?v)"
        using program_double [OF u(1,2), of "8 * ?d" "NOT (rd64 (DataBuf s) (8 * ?d))"] b rm True u(3) lv
        by (auto simp: dword_blank_def fee_layout)
      have "fee_inv fl wf (s\<lparr>fee_flash := FLASH_Lock fl f'\<rparr>)"
        using rel' lock [OF f'(2)] f'(3) by (auto simp: fee_inv_def)
      then show ?thesis using True prog bl a f' by (simp add: eeprom_write_direct_entry_def Let_def)
    qed
  qed
qed

text \<open>The common part of the three functions that append to the log.\<close>

lemma log_entry_inv:
  assumes w: "wf (fee_flash s)" and rel: "fee_rel (fee_mem fl s) buf (empty_slot s) img es"
    and e: "entry_ok e" "\<not> dword_blank img (entry_dword e)" and buf: "DataBuf s = apply_entry buf e"
  shows "FEE_WRITE_LOG_LAST \<le> empty_slot s \<Longrightarrow>
      \<exists>s'. eeprom_compact fl s = (FLASH_COMPLETE, s') \<and> fee_inv fl wf s' \<and> DataBuf s' = DataBuf s"
    and "\<not> FEE_WRITE_LOG_LAST \<le> empty_slot s \<Longrightarrow> blank_check fl (empty_slot s) s = s"
    and "\<not> FEE_WRITE_LOG_LAST \<le> empty_slot s \<Longrightarrow>
      \<exists>s'. append_log fl (entry_value e) s = (FLASH_COMPLETE, s') \<and> fee_inv fl wf s' \<and> DataBuf s' = DataBuf s"
proof -
  show "\<exists>s'. eeprom_compact fl s = (FLASH_COMPLETE, s') \<and> fee_inv fl wf s' \<and> DataBuf s' = DataBuf s"
    using eeprom_compact_inv [OF w] fee_rel_length [OF rel] buf by simp
  assume "\<not> FEE_WRITE_LOG_LAST \<le> empty_slot s"
  then have "empty_slot s < FEE_WRITE_LOG_LAST" by simp
  note app = fee_rel_append [OF rel e this]
  have lm: "length (fee_mem fl s) = FEE_WRITE_LOG_LAST" using mem_size [OF w] by (simp add: fee_layout)
  have "rd64 (fee_mem fl s) (empty_slot s) = FEE_EMPTY_DWORD"
    using rd64_blank_iff [of "empty_slot s" "fee_mem fl s"] app lm by simp
  then show "blank_check fl (empty_slot s) s = s"
    using app(3) by (simp add: blank_check_def FEE_EMPTY_DWORD_def)
  have u: "wf (FLASH_Unlock fl (fee_flash s))" "ready (FLASH_Unlock fl (fee_flash s))"
    "flash_mem fl (FLASH_Unlock fl (fee_flash s)) = fee_mem fl s" using unlock [OF w] by auto
  obtain f' where f': "FLASH_ProgramDoubleWord fl (empty_slot s) (entry_value e) (FLASH_Unlock fl (fee_flash s)) =
      (FLASH_COMPLETE, f')" "wf f'" "flash_mem fl f' = write_at (fee_mem fl s) (empty_slot s) (entry_bytes e)"
    using program_double [OF u(1,2), of "empty_slot s" "entry_value e"] app u(3) lm
    by (auto simp: fee_layout entry_bytes_def)
  have "fee_inv fl wf (s\<lparr>fee_flash := FLASH_Lock fl f', empty_slot := empty_slot s + 8\<rparr>)"
    using app(1) lock [OF f'(2)] f'(3) buf by (auto simp: fee_inv_def)
  then show "\<exists>s'. append_log fl (entry_value e) s = (FLASH_COMPLETE, s') \<and> fee_inv fl wf s' \<and> DataBuf s' = DataBuf s"
    using f' by (simp add: append_log_def Let_def)
qed

text \<open>A write of one, two or four bytes: first directly into the image, else as a log entry.\<close>

lemma store_entry_inv:
  assumes inv: "fee_inv fl wf s" and e: "entry_ok e"
    and log: "\<And>s. FEE_WRITE_LOG_LAST \<le> empty_slot s \<Longrightarrow> log_entry s = eeprom_compact fl s"
      "\<And>s b. \<not> FEE_WRITE_LOG_LAST \<le> empty_slot s \<Longrightarrow> blank_check fl (empty_slot s) s = s \<Longrightarrow>
        DataBuf s = apply_entry b e \<Longrightarrow> length b = FEE_DENSITY_BYTES \<Longrightarrow> log_entry s = append_log fl (entry_value e) s"
  defines "s1 \<equiv> s\<lparr>DataBuf := apply_entry (DataBuf s) e\<rparr>"
  shows "\<exists>s'. (let (status, s2) = eeprom_write_direct_entry fl (fst e) s1 in
      if status = 0 then log_entry s2 else (status, s2)) = (FLASH_COMPLETE, s') \<and>
    fee_inv fl wf s' \<and> DataBuf s' = apply_entry (DataBuf s) e"
proof -
  obtain img es where w: "wf (fee_flash s1)" and rel: "fee_rel (fee_mem fl s1) (DataBuf s) (empty_slot s1) img es"
    using inv by (auto simp: fee_inv_def s1_def)
  have buf: "DataBuf s1 = apply_entry (DataBuf s) e" by (simp add: s1_def)
  have c: "FLASH_COMPLETE \<noteq> 0" by (simp add: FLASH_COMPLETE_def)
  note direct = eeprom_write_direct_entry_cases [OF w rel e buf]
  show ?thesis
  proof (cases "dword_blank img (entry_dword e)")
    case True
    then show ?thesis using direct c buf by auto
  next
    case False
    note l = log_entry_inv [OF w rel e False buf]
    have "\<exists>s'. log_entry s1 = (FLASH_COMPLETE, s') \<and> fee_inv fl wf s' \<and> DataBuf s' = DataBuf s1"
    proof (cases "FEE_WRITE_LOG_LAST \<le> empty_slot s1")
      case True
      then show ?thesis using l(1) log(1) by simp
    next
      case no: False
      then have "log_entry s1 = append_log fl (entry_value e) s1"
        using log(2) [OF no l(2) [OF no] buf] fee_inv_length [OF inv] by simp
      then show ?thesis using l(3) [OF no] by simp
    qed
    then show ?thesis using direct False buf by auto
  qed
qed

lemma EEPROM_WriteDataByte_inv:
  assumes inv: "fee_inv fl wf s" and a: "unat a < FEE_DENSITY_BYTES"
  shows "fee_inv fl wf (snd (EEPROM_WriteDataByte fl a b s)) \<and>
    DataBuf (snd (EEPROM_WriteDataByte fl a b s)) = write_at (DataBuf s) (unat a) [b]"
proof (cases "DataBuf s ! unat a = b")
  case True
  moreover have "write_at (DataBuf s) (unat a) [b] = DataBuf s" using True by auto
  ultimately show ?thesis using inv a by (simp add: EEPROM_WriteDataByte_def)
next
  case False
  let ?e = "(a, [b])"
  have e: "entry_ok ?e" using a by (simp add: entry_ok_def)
  obtain s' where "(let (status, s2) = eeprom_write_direct_entry fl (fst ?e) (s\<lparr>DataBuf := apply_entry (DataBuf s) ?e\<rparr>) in
      if status = 0 then eeprom_write_log_byte_entry fl a s2 else (status, s2)) = (FLASH_COMPLETE, s')"
    "fee_inv fl wf s'" "DataBuf s' = apply_entry (DataBuf s) ?e"
    using store_entry_inv [OF inv e, of "eeprom_write_log_byte_entry fl a"] a
    by (auto simp: eeprom_write_log_byte_entry_def Let_def entry_value_byte apply_entry_def)
  then show ?thesis using False a
    by (simp add: EEPROM_WriteDataByte_def Let_def apply_entry_def)
qed

lemma EEPROM_WriteDataWord_inv:
  assumes inv: "fee_inv fl wf s" and a: "unat a + 2 \<le> FEE_DENSITY_BYTES" and al: "unat a mod 2 = 0"
  shows "fee_inv fl wf (snd (EEPROM_WriteDataWord fl a v s)) \<and>
    DataBuf (snd (EEPROM_WriteDataWord fl a v s)) = write_at (DataBuf s) (unat a) (le_bytes 2 v)"
proof (cases "rd16 (DataBuf s) (unat a) = v")
  case True
  have l: "length (read_at (DataBuf s) (unat a) 2) = 2" using fee_inv_length [OF inv] a by (simp add: byte_simps)
  have "le_bytes 2 v = read_at (DataBuf s) (unat a) 2"
    using le_bytes_le_word [of "read_at (DataBuf s) (unat a) 2", where ?'a = 16] l True by (simp add: rd16_def)
  then have "write_at (DataBuf s) (unat a) (le_bytes 2 v) = DataBuf s" using fee_inv_length [OF inv] a by simp
  then show ?thesis using True inv a by (simp add: EEPROM_WriteDataWord_def)
next
  case False
  let ?e = "(a, le_bytes 2 v)"
  have e: "entry_ok ?e" using a al by (simp add: entry_ok_def) presburger
  have rd: "rd16 (apply_entry b ?e) (unat a) = v" if "length b = FEE_DENSITY_BYTES" for b
    using read_at_write_at_same [of "unat a" "le_bytes 2 v" b] that a by (simp add: rd16_def apply_entry_def)
  obtain s' where "(let (status, s2) = eeprom_write_direct_entry fl (fst ?e) (s\<lparr>DataBuf := apply_entry (DataBuf s) ?e\<rparr>) in
      if status = 0 then eeprom_write_log_word_entry fl a s2 else (status, s2)) = (FLASH_COMPLETE, s')"
    "fee_inv fl wf s'" "DataBuf s' = apply_entry (DataBuf s) ?e"
    using store_entry_inv [OF inv e, of "eeprom_write_log_word_entry fl a"]
    by (auto simp: eeprom_write_log_word_entry_def Let_def entry_value_word rd)
  then show ?thesis using False a
    by (simp add: EEPROM_WriteDataWord_def Let_def apply_entry_def) linarith
qed

lemma EEPROM_WriteDataDWord_inv:
  assumes inv: "fee_inv fl wf s" and a: "unat a + 4 \<le> FEE_DENSITY_BYTES" and al: "unat a mod 4 = 0"
  shows "fee_inv fl wf (snd (EEPROM_WriteDataDWord fl a v s)) \<and>
    DataBuf (snd (EEPROM_WriteDataDWord fl a v s)) = write_at (DataBuf s) (unat a) (le_bytes 4 v)"
proof (cases "rd32 (DataBuf s) (unat a) = v")
  case True
  have l: "length (read_at (DataBuf s) (unat a) 4) = 4" using fee_inv_length [OF inv] a by (simp add: byte_simps)
  have "le_bytes 4 v = read_at (DataBuf s) (unat a) 4"
    using le_bytes_le_word [of "read_at (DataBuf s) (unat a) 4", where ?'a = 32] l True by (simp add: rd32_def)
  then have "write_at (DataBuf s) (unat a) (le_bytes 4 v) = DataBuf s" using fee_inv_length [OF inv] a by simp
  then show ?thesis using True inv a by (simp add: EEPROM_WriteDataDWord_def)
next
  case False
  let ?e = "(a, le_bytes 4 v)"
  have e: "entry_ok ?e" using a al by (simp add: entry_ok_def) presburger
  have rd: "rd32 (apply_entry b ?e) (unat a) = v" if "length b = FEE_DENSITY_BYTES" for b
    using read_at_write_at_same [of "unat a" "le_bytes 4 v" b] that a by (simp add: rd32_def apply_entry_def)
  obtain s' where "(let (status, s2) = eeprom_write_direct_entry fl (fst ?e) (s\<lparr>DataBuf := apply_entry (DataBuf s) ?e\<rparr>) in
      if status = 0 then eeprom_write_log_dword_entry fl a s2 else (status, s2)) = (FLASH_COMPLETE, s')"
    "fee_inv fl wf s'" "DataBuf s' = apply_entry (DataBuf s) ?e"
    using store_entry_inv [OF inv e, of "eeprom_write_log_dword_entry fl a"]
    by (auto simp: eeprom_write_log_dword_entry_def Let_def entry_value_dword rd)
  then show ?thesis using False a
    by (simp add: EEPROM_WriteDataDWord_def Let_def apply_entry_def) linarith
qed

lemma EEPROM_Erase_inv:
  assumes "wf (fee_flash s)" "\<forall>a. \<not> ecc a"
  shows "fee_inv fl wf (EEPROM_Erase fl ecc s) \<and> DataBuf (EEPROM_Erase fl ecc s) = replicate FEE_DENSITY_BYTES 0"
proof -
  note c = eeprom_clear_blank [OF assms(1)]
  have "fee_mem fl (eeprom_clear fl s) = fee_image (blank_bytes FEE_DENSITY_BYTES) []"
    using c by (simp add: fee_image_def fee_layout flip: replicate_add)
  then have "fee_rel (fee_mem fl (eeprom_clear fl s)) (replicate FEE_DENSITY_BYTES 0) FEE_WRITE_LOG_BASE (blank_bytes FEE_DENSITY_BYTES) []"
    by (intro fee_relI) simp_all
  then show ?thesis
    using EEPROM_Init_rel [OF _ assms(2)] c by (fastforce simp: EEPROM_Erase_def fee_inv_def)
qed

lemma unat_of_nat_u16: "n < 65536 \<Longrightarrow> unat (of_nat n :: u16) = n"
  by (simp add: unat_of_nat take_bit_nat_eq_self)

text \<open>A block write inside the emulated range updates exactly the block.\<close>

lemma eeprom_write_block_inv:
  assumes "fee_inv fl wf s" "dest + length src \<le> FEE_DENSITY_BYTES"
  shows "fee_inv fl wf (eeprom_write_block fl src dest s) \<and>
    DataBuf (eeprom_write_block fl src dest s) = write_at (DataBuf s) dest src"
  using assms
proof (induction src arbitrary: dest s rule: length_induct)
  case (1 src)
  have u: "unat (of_nat dest :: u16) = dest" if "src \<noteq> []"
    using 1(3) that by (intro unat_of_nat_u16) (simp add: fee_layout)
  have step: ?case
    if n: "0 < n" "n \<le> length src"
      and eq: "eeprom_write_block fl src dest s = eeprom_write_block fl (drop n src) (dest + n) s'"
      and s': "fee_inv fl wf s' \<and> DataBuf s' = write_at (DataBuf s) dest (take n src)" for n s'
  proof -
    have "write_at (DataBuf s) dest (take n src @ drop n src) = write_at (DataBuf s') (dest + n) (drop n src)"
      using s' n unfolding write_at_append by simp
    then show ?thesis using 1 n eq s' by simp
  qed
  consider (nil) "src = []" | (dword) "src \<noteq> []" "dest mod 4 = 0" "4 \<le> length src"
    | (word) "src \<noteq> []" "\<not> (dest mod 4 = 0 \<and> 4 \<le> length src)" "dest mod 2 = 0" "2 \<le> length src"
    | (byte) "src \<noteq> []" "\<not> (dest mod 4 = 0 \<and> 4 \<le> length src)" "\<not> (dest mod 2 = 0 \<and> 2 \<le> length src)"
    by argo
  then show ?case
  proof cases
    case nil
    then show ?thesis using 1 by (simp add: eeprom_write_block.simps)
  next
    case dword
    have b: "le_bytes 4 (le_word (take 4 src) :: u32) = take 4 src"
      using le_bytes_le_word [of "take 4 src", where ?'a = 32] dword by simp
    show ?thesis
      using dword u 1(3) EEPROM_WriteDataDWord_inv [OF 1(2), of "of_nat dest" "le_word (take 4 src)"] b
      by (intro step [of 4]) (simp_all add: eeprom_write_block.simps [of fl src])
  next
    case word
    have b: "le_bytes 2 (le_word (take 2 src) :: u16) = take 2 src"
      using le_bytes_le_word [of "take 2 src", where ?'a = 16] word by simp
    show ?thesis
      using word u 1(3) EEPROM_WriteDataWord_inv [OF 1(2), of "of_nat dest" "le_word (take 2 src)"] b
      by (intro step [of 2]) (auto simp: eeprom_write_block.simps [of fl src])
  next
    case byte
    have b: "[hd src] = take 1 src" using byte by (cases src) auto
    have "0 < length src" using byte by simp
    then have "dest < FEE_DENSITY_BYTES" using 1(3) by linarith
    then show ?thesis
      using byte u EEPROM_WriteDataByte_inv [OF 1(2), of "of_nat dest" "hd src"] b
      by (intro step [of 1]) (auto simp: eeprom_write_block.simps [of fl src] Suc_le_eq)
  qed
qed

end

text \<open>A block read at an even address returns the cached bytes.\<close>

lemma read_words_eq:
  assumes "length (DataBuf s) = FEE_DENSITY_BYTES" "src mod 2 = 0" "src + len \<le> FEE_DENSITY_BYTES"
  shows "read_words src len s = read_at (DataBuf s) src len"
  using assms
proof (induction src len s rule: read_words.induct)
  case (1 src len s)
  have u: "len \<noteq> 0 \<Longrightarrow> unat (of_nat src :: u16) = src"
    using 1(4) by (simp add: unat_of_nat take_bit_nat_eq_self fee_layout)
  consider "len = 0" | "len = 1" | "1 < len" by linarith
  then show ?case
  proof cases
    case 1
    then show ?thesis by (simp add: read_words.simps read_at_def)
  next
    case 2
    then have "read_at (DataBuf s) src len = [DataBuf s ! src]"
      using 1(2,4) by (intro read_at_eqI) auto
    then show ?thesis using 2 u 1(4) by (simp add: read_words.simps EEPROM_ReadDataByte_def)
  next
    case 3
    have l: "length (read_at (DataBuf s) src 2) = 2" using 3 1(2,4) by (simp add: byte_simps)
    have "le_bytes 2 (EEPROM_ReadDataWord (of_nat src) s) = read_at (DataBuf s) src 2"
      using le_bytes_le_word [of "read_at (DataBuf s) src 2", where ?'a = 16] l 3 u 1(3,4)
      by (simp add: EEPROM_ReadDataWord_def rd16_def) linarith
    moreover have "read_words (src + 2) (len - 2) s = read_at (DataBuf s) (src + 2) (len - 2)"
      using 3 1 by (intro 1(1)) auto
    moreover have "read_at (DataBuf s) src len = read_at (DataBuf s) src 2 @ read_at (DataBuf s) (src + 2) (len - 2)"
    proof -
      have "len = 2 + (len - 2)" using 3 by simp
      then show ?thesis by (metis read_at_def take_add drop_drop add.commute)
    qed
    ultimately show ?thesis using 3 by (simp add: read_words.simps [of src])
  qed
qed

lemma eeprom_read_block_eq:
  assumes "length (DataBuf s) = FEE_DENSITY_BYTES" "src + len \<le> FEE_DENSITY_BYTES" "src mod 2 = 0 \<or> len \<le> 1"
  shows "eeprom_read_block src len s = read_at (DataBuf s) src len"
proof (cases "src mod 2 = 0")
  case True
  then show ?thesis using assms by (simp add: eeprom_read_block_def read_words_eq)
next
  case False
  consider "len = 0" | "len = 1" using False assms(3) by linarith
  then show ?thesis
  proof cases
    case 1
    then show ?thesis by (simp add: eeprom_read_block_def read_words.simps read_at_def)
  next
    case 2
    then have "read_at (DataBuf s) src len = [DataBuf s ! src]" using assms by (intro read_at_eqI) auto
    moreover have "unat (of_nat src :: u16) = src"
      using 2 assms(2) by (simp add: unat_of_nat take_bit_nat_eq_self fee_layout)
    ultimately show ?thesis using 2 False assms
      by (simp add: eeprom_read_block_def read_words.simps EEPROM_ReadDataByte_def)
  qed
qed

end
