(* ===== verification/Qmk_Eeprom.thy ===== *)
theory Qmk_Eeprom
  imports Qmk_Fee_Correct Qmk_Store
begin

text \<open>
  The EEPROM interface of the firmware (\<^verbatim>\<open>drivers/eeprom/eeprom_driver.c\<close>): byte, word and double-word
  access and the update operations, written on the block operations that a driver provides.  The
  locale \<open>eeprom_device\<close> is the contract of a driver; its clients, the configuration store and the
  dynamic keymap, are verified against it.  It is interpreted on the STM32L432 driver.
\<close>

subsection \<open>Byte, word and double-word access\<close>

text \<open>
  A block read gets the previous contents of the destination buffer, which stay where a driver does
  not deliver data.
\<close>

record 's eeprom_dev =
  read_block :: "u8 list \<Rightarrow> nat \<Rightarrow> 's \<Rightarrow> u8 list"
  write_block :: "u8 list \<Rightarrow> nat \<Rightarrow> 's \<Rightarrow> 's"
  driver_erase :: "'s \<Rightarrow> 's"

definition eeprom_read_byte :: "'s eeprom_dev \<Rightarrow> nat \<Rightarrow> 's \<Rightarrow> u8" where
  "eeprom_read_byte d addr s = read_block d [0] addr s ! 0"

definition eeprom_read_word :: "'s eeprom_dev \<Rightarrow> nat \<Rightarrow> 's \<Rightarrow> u16" where
  "eeprom_read_word d addr s = le_word (read_block d (replicate 2 0) addr s)"

definition eeprom_read_dword :: "'s eeprom_dev \<Rightarrow> nat \<Rightarrow> 's \<Rightarrow> u32" where
  "eeprom_read_dword d addr s = le_word (read_block d (replicate 4 0) addr s)"

definition eeprom_write_byte :: "'s eeprom_dev \<Rightarrow> nat \<Rightarrow> u8 \<Rightarrow> 's \<Rightarrow> 's" where
  "eeprom_write_byte d addr value s = write_block d [value] addr s"

definition eeprom_write_word :: "'s eeprom_dev \<Rightarrow> nat \<Rightarrow> u16 \<Rightarrow> 's \<Rightarrow> 's" where
  "eeprom_write_word d addr value s = write_block d (le_bytes 2 value) addr s"

definition eeprom_write_dword :: "'s eeprom_dev \<Rightarrow> nat \<Rightarrow> u32 \<Rightarrow> 's \<Rightarrow> 's" where
  "eeprom_write_dword d addr value s = write_block d (le_bytes 4 value) addr s"

text \<open>\<open>junk\<close> is the uninitialised read buffer of the block update.\<close>

definition eeprom_update_block :: "'s eeprom_dev \<Rightarrow> u8 list \<Rightarrow> u8 list \<Rightarrow> nat \<Rightarrow> 's \<Rightarrow> 's" where
  "eeprom_update_block d junk buf addr s =
    (if buf \<noteq> read_block d junk addr s then write_block d buf addr s else s)"

definition eeprom_update_byte :: "'s eeprom_dev \<Rightarrow> nat \<Rightarrow> u8 \<Rightarrow> 's \<Rightarrow> 's" where
  "eeprom_update_byte d addr value s =
    (if eeprom_read_byte d addr s \<noteq> value then eeprom_write_byte d addr value s else s)"

definition eeprom_update_word :: "'s eeprom_dev \<Rightarrow> nat \<Rightarrow> u16 \<Rightarrow> 's \<Rightarrow> 's" where
  "eeprom_update_word d addr value s =
    (if eeprom_read_word d addr s \<noteq> value then eeprom_write_word d addr value s else s)"

definition eeprom_update_dword :: "'s eeprom_dev \<Rightarrow> nat \<Rightarrow> u32 \<Rightarrow> 's \<Rightarrow> 's" where
  "eeprom_update_dword d addr value s =
    (if eeprom_read_dword d addr s \<noteq> value then eeprom_write_dword d addr value s else s)"

subsection \<open>The contract of a driver\<close>

locale eeprom_device =
  fixes d :: "'s eeprom_dev"
    and dev_ok :: "'s \<Rightarrow> bool"
    and size :: nat
    and contents :: "'s \<Rightarrow> u8 list"
    and read_ok :: "nat \<Rightarrow> nat \<Rightarrow> bool"
  assumes length_contents: "dev_ok s \<Longrightarrow> length (contents s) = size"
    and read_law: "dev_ok s \<Longrightarrow> a + length b \<le> size \<Longrightarrow> read_ok a (length b) \<Longrightarrow>
      read_block d b a s = read_at (contents s) a (length b)"
    and write_law: "dev_ok s \<Longrightarrow> a + length b \<le> size \<Longrightarrow>
      dev_ok (write_block d b a s) \<and> contents (write_block d b a s) = write_at (contents s) a b"
    and erase_law: "dev_ok s \<Longrightarrow> dev_ok (driver_erase d s) \<and> contents (driver_erase d s) = replicate size 0"
    and read_ok_byte: "read_ok a 1"
begin

lemma read_byte_contents: "dev_ok s \<Longrightarrow> a < size \<Longrightarrow> eeprom_read_byte d a s = contents s ! a"
  using read_law [of s a "[0]"] read_ok_byte [of a] length_contents [of s]
  by (simp add: eeprom_read_byte_def read_at_def)

lemma read_word_contents:
  "dev_ok s \<Longrightarrow> a + 2 \<le> size \<Longrightarrow> read_ok a 2 \<Longrightarrow> eeprom_read_word d a s = le_word (read_at (contents s) a 2)"
  using read_law [of s a "replicate 2 0"] by (simp add: eeprom_read_word_def)

lemma read_dword_contents:
  "dev_ok s \<Longrightarrow> a + 4 \<le> size \<Longrightarrow> read_ok a 4 \<Longrightarrow> eeprom_read_dword d a s = le_word (read_at (contents s) a 4)"
  using read_law [of s a "replicate 4 0"] by (simp add: eeprom_read_dword_def)

lemma write_byte_contents: "dev_ok s \<Longrightarrow> a < size \<Longrightarrow>
  dev_ok (eeprom_write_byte d a v s) \<and> contents (eeprom_write_byte d a v s) = write_at (contents s) a [v]"
  using write_law [of s a "[v]"] by (simp add: eeprom_write_byte_def)

lemma write_word_contents: "dev_ok s \<Longrightarrow> a + 2 \<le> size \<Longrightarrow>
  dev_ok (eeprom_write_word d a v s) \<and> contents (eeprom_write_word d a v s) = write_at (contents s) a (le_bytes 2 v)"
  using write_law [of s a "le_bytes 2 v"] by (simp add: eeprom_write_word_def)

lemma write_dword_contents: "dev_ok s \<Longrightarrow> a + 4 \<le> size \<Longrightarrow>
  dev_ok (eeprom_write_dword d a v s) \<and> contents (eeprom_write_dword d a v s) = write_at (contents s) a (le_bytes 4 v)"
  using write_law [of s a "le_bytes 4 v"] by (simp add: eeprom_write_dword_def)

text \<open>An update writes only when the value differs, and has the effect of a write.\<close>

lemma update_byte_contents:
  assumes "dev_ok s" "a < size"
  shows "dev_ok (eeprom_update_byte d a v s) \<and> contents (eeprom_update_byte d a v s) = write_at (contents s) a [v]"
  using write_byte_contents [OF assms] read_byte_contents [OF assms] assms(1)
  by (auto simp: eeprom_update_byte_def)

lemma le_bytes_read:
  assumes "a + n \<le> size" "dev_ok s" "8 * n = LENGTH('a::len)" "le_word (read_at (contents s) a n) = (v :: 'a word)"
  shows "write_at (contents s) a (le_bytes n v) = contents s"
proof -
  have l: "length (read_at (contents s) a n) = n" using assms length_contents by (simp add: byte_simps)
  have "le_bytes n v = read_at (contents s) a n"
    using le_bytes_le_word [of "read_at (contents s) a n", where ?'a = 'a] l assms(3,4) by simp
  then show ?thesis using assms length_contents by simp
qed

lemma update_word_contents:
  assumes "dev_ok s" "a + 2 \<le> size" "read_ok a 2"
  shows "dev_ok (eeprom_update_word d a v s) \<and> contents (eeprom_update_word d a v s) = write_at (contents s) a (le_bytes 2 v)"
  using write_word_contents [OF assms(1,2)] read_word_contents [OF assms] assms(1) le_bytes_read [OF assms(2,1), of v]
  by (auto simp: eeprom_update_word_def)

lemma update_dword_contents:
  assumes "dev_ok s" "a + 4 \<le> size" "read_ok a 4"
  shows "dev_ok (eeprom_update_dword d a v s) \<and> contents (eeprom_update_dword d a v s) = write_at (contents s) a (le_bytes 4 v)"
  using write_dword_contents [OF assms(1,2)] read_dword_contents [OF assms] assms(1) le_bytes_read [OF assms(2,1), of v]
  by (auto simp: eeprom_update_dword_def)

lemma update_block_contents:
  assumes "dev_ok s" "a + length b \<le> size" "read_ok a (length b)" "length junk = length b"
  shows "dev_ok (eeprom_update_block d junk b a s) \<and> contents (eeprom_update_block d junk b a s) = write_at (contents s) a b"
proof -
  have r: "read_block d junk a s = read_at (contents s) a (length b)" using read_law assms by metis
  moreover have "write_at (contents s) a (read_at (contents s) a (length b)) = contents s"
    using assms(2) length_contents [OF assms(1)] by simp
  ultimately show ?thesis using write_law [OF assms(1,2)] assms(1) by (auto simp: eeprom_update_block_def)
qed

end

text \<open>Bytes of the device form a store in the sense of \<open>indexed_store\<close>.\<close>

sublocale eeprom_device \<subseteq> bytes: indexed_store "eeprom_read_byte d" "eeprom_update_byte d" dev_ok "\<lambda>a. a < size" "\<lambda>_. True"
  by unfold_locales (auto simp: update_byte_contents read_byte_contents length_contents)


subsection \<open>The driver of the keyboard\<close>

text \<open>The ECC interrupt does not fire.\<close>

definition no_ecc :: "nat \<Rightarrow> bool" where
  "no_ecc a \<longleftrightarrow> False"

definition l4_dev :: "'f flash_ops \<Rightarrow> 'f fee eeprom_dev" where
  "l4_dev fl = \<lparr>read_block = (\<lambda>buf addr s. eeprom_read_block addr (length buf) s),
    write_block = eeprom_write_block fl, driver_erase = EEPROM_Erase fl no_ecc\<rparr>"

definition l4_read_ok :: "nat \<Rightarrow> nat \<Rightarrow> bool" where
  "l4_read_ok a n \<longleftrightarrow> a mod 2 = 0 \<or> n \<le> 1"

sublocale nor_flash \<subseteq> l4: eeprom_device "l4_dev fl" "fee_inv fl wf" FEE_DENSITY_BYTES DataBuf l4_read_ok
  by unfold_locales
    (auto simp: l4_dev_def l4_read_ok_def fee_inv_length eeprom_read_block_eq eeprom_write_block_inv
      EEPROM_Erase_inv fee_inv_wf no_ecc_def)

context nor_flash
begin

lemma write_blocks_inv:
  assumes "fee_inv fl wf s" "\<forall>(a, b) \<in> set ws. a + length b \<le> FEE_DENSITY_BYTES"
  shows "fee_inv fl wf (fold (\<lambda>(a, b). eeprom_write_block fl b a) ws s) \<and>
    DataBuf (fold (\<lambda>(a, b). eeprom_write_block fl b a) ws s) = fold (\<lambda>(a, b) m. write_at m a b) ws (DataBuf s)"
  using assms by (induction ws arbitrary: s) (auto simp: eeprom_write_block_inv)

lemma restart_same:
  assumes "fee_inv fl wf s" "\<forall>a. \<not> ecc a" "fee_flash ram = fee_flash s"
  shows "\<exists>s'. EEPROM_Init fl ecc ram = (FEE_DENSITY_BYTES, s') \<and> fee_inv fl wf s' \<and> DataBuf s' = DataBuf s"
proof -
  obtain img es where "fee_rel (fee_mem fl ram) (DataBuf s) (empty_slot s) img es" "wf (fee_flash ram)"
    using assms by (auto simp: fee_inv_def)
  then show ?thesis
    using EEPROM_Init_rel [of fl ram "DataBuf s" "empty_slot s" img es ecc] assms(2) by (auto simp: fee_inv_def)
qed

lemma restart_after_writes:
  assumes "fee_inv fl wf s" "\<forall>(a, b) \<in> set ws. a + length b \<le> FEE_DENSITY_BYTES" "\<forall>a. \<not> ecc a"
    "fee_flash ram = fee_flash (fold (\<lambda>(a, b). eeprom_write_block fl b a) ws s)"
  shows "\<exists>s'. EEPROM_Init fl ecc ram = (FEE_DENSITY_BYTES, s') \<and> fee_inv fl wf s' \<and>
    DataBuf s' = fold (\<lambda>(a, b) m. write_at m a b) ws (DataBuf s)"
  using restart_same [of "fold (\<lambda>(a, b). eeprom_write_block fl b a) ws s" ecc ram] write_blocks_inv [OF assms(1,2)]
    assms(3,4) by simp

end

lemma odd_read4:
  assumes "length (DataBuf s) = FEE_DENSITY_BYTES" "src mod 2 = 1" "src + 4 \<le> FEE_DENSITY_BYTES"
  shows "eeprom_read_block src 4 s = [DataBuf s ! src, DataBuf s ! src, DataBuf s ! (src + 1), DataBuf s ! (src + 2)]"
proof -
  have u: "unat (of_nat src :: u16) = src" "unat (of_nat (src + 2) :: u16) = src + 2"
    using assms(3) by (simp_all add: unat_of_nat take_bit_nat_eq_self fee_layout del: of_nat_Suc of_nat_add)
  have b: "le_bytes 2 (ucast a OR push_bit 8 (ucast b) :: u16) = [a, b]" for a b :: u8
    using le_bytes_le_word [of "[a, b]", where ?'a = 16] by (simp add: Suc_1 [symmetric] del: Suc_1)
  have w: "le_bytes 2 (EEPROM_ReadDataWord (of_nat src) s) = [DataBuf s ! src, DataBuf s ! (src + 1)]"
    using assms(2,3) unfolding EEPROM_ReadDataWord_def u(1) by (simp add: b fee_layout)
  have "read_words src 3 s = le_bytes 2 (EEPROM_ReadDataWord (of_nat src) s) @ read_words (src + 2) 1 s"
    by (simp add: read_words.simps [of src])
  also have "read_words (src + 2) 1 s = [DataBuf s ! (src + 2)]"
    using assms(3) u(2) by (simp add: read_words.simps [of "Suc (Suc src)"] EEPROM_ReadDataByte_def)
  finally show ?thesis
    using assms(2,3) u(1) w by (simp add: eeprom_read_block_def EEPROM_ReadDataByte_def)
qed

subsection \<open>Properties\<close>

definition fresh_fee :: "mock_flash fee" where
  "fresh_fee = \<lparr>DataBuf = replicate FEE_DENSITY_BYTES 0, empty_slot = FEE_WRITE_LOG_BASE, eccd = False, fee_flash = mock_blank\<rparr>"

lemma fresh_fee_inv: "fee_inv mock_ops mock_wf fresh_fee"
proof -
  have "fee_rel (blank_bytes (FEE_PAGE_COUNT * FEE_PAGE_SIZE)) (replicate FEE_DENSITY_BYTES 0) FEE_WRITE_LOG_BASE (blank_bytes FEE_DENSITY_BYTES) []"
    by (intro fee_relI) (simp_all add: fee_image_def fee_layout flip: replicate_add)
  then show ?thesis
    by (auto simp: fee_inv_def fresh_fee_def mock_ops_def mock_blank_def mock_wf_def)
qed

text \<open>C3: Whatever blocks were written to the emulated EEPROM, after a power cycle (the RAM state is
  arbitrary, only the flash remains) the start-up replay delivers exactly the contents the writes left,
  on every flash device that satisfies the documented flash behaviour.\<close>
theorem eeprom_survives_power_cycle:
  assumes "nor_flash fl dev_ok ready" "fee_inv fl dev_ok s" "\<forall>(a, b) \<in> set ws. a + length b \<le> FEE_DENSITY_BYTES"
    "\<forall>a. \<not> ecc a" "fee_flash ram = fee_flash (fold (\<lambda>(a, b). eeprom_write_block fl b a) ws s)"
  shows "\<exists>s'. EEPROM_Init fl ecc ram = (FEE_DENSITY_BYTES, s') \<and> fee_inv fl dev_ok s' \<and>
    DataBuf s' = fold (\<lambda>(a, b) m. write_at m a b) ws (DataBuf s)"
  using nor_flash.restart_after_writes [OF assms(1,2) assms(3,4,5)] .

theorem eeprom_survives_power_cycle_witness:
  "\<exists>s'. EEPROM_Init mock_ops no_ecc
      (fresh_fee\<lparr>fee_flash := fee_flash (eeprom_write_block mock_ops [1, 2, 3] 5 fresh_fee), DataBuf := []\<rparr>) =
      (FEE_DENSITY_BYTES, s') \<and> fee_inv mock_ops mock_wf s' \<and>
    DataBuf s' = write_at (DataBuf fresh_fee) 5 [1, 2, 3]"
  using eeprom_survives_power_cycle [OF mock.nor_flash_axioms fresh_fee_inv, of "[(5, [1, 2, 3])]" no_ecc
      "fresh_fee\<lparr>fee_flash := fee_flash (eeprom_write_block mock_ops [1, 2, 3] 5 fresh_fee), DataBuf := []\<rparr>"]
  by (simp add: no_ecc_def fee_layout del: write_at.simps)

text \<open>Erasing works from any flash contents, corrupted or not: afterwards every byte reads 0 and
  the invariant of the emulation holds.\<close>
lemma eeprom_erase_from_any_state:
  assumes "nor_flash fl dev_ok ready" "dev_ok (fee_flash s)" "\<forall>a. \<not> ecc a"
  shows "fee_inv fl dev_ok (EEPROM_Erase fl ecc s) \<and> DataBuf (EEPROM_Erase fl ecc s) = replicate FEE_DENSITY_BYTES 0"
  using nor_flash.EEPROM_Erase_inv [OF assms] .

text \<open>A block read at an odd address delivers the first byte twice and loses the last one, because
  the source pointer is not advanced past the unaligned first byte.\<close>
lemma odd_block_read_repeats_first_byte:
  assumes "length (DataBuf s) = FEE_DENSITY_BYTES" "src mod 2 = 1" "src + 4 \<le> FEE_DENSITY_BYTES"
  shows "eeprom_read_block src 4 s = [DataBuf s ! src, DataBuf s ! src, DataBuf s ! (src + 1), DataBuf s ! (src + 2)]"
  by (rule odd_read4 [OF assms])

end
