(* ===== verification/Qmk_Dynamic_Keymap.thy ===== *)
theory Qmk_Dynamic_Keymap
  imports Qmk_Eeprom Qmk_Layers
begin

text \<open>
  The keymap and the macros that the host can change (\<^verbatim>\<open>quantum/dynamic_keymap.c\<close>), stored in the
  EEPROM.  The operations take the EEPROM driver as a parameter; their lemmas are proved for every
  driver that satisfies the contract of \<open>Qmk_Eeprom\<close>.  The build has four layers, a 6 by 16 matrix, no
  encoders, and \<^verbatim>\<open>DYNAMIC_KEYMAP_EEPROM_MAX_ADDR\<close> 2047.
\<close>

subsection \<open>Layout\<close>

definition EECONFIG_SIZE :: nat where "EECONFIG_SIZE = 34"
definition VIA_EEPROM_MAGIC_ADDR :: nat where "VIA_EEPROM_MAGIC_ADDR = EECONFIG_SIZE"
definition VIA_EEPROM_LAYOUT_OPTIONS_ADDR :: nat where "VIA_EEPROM_LAYOUT_OPTIONS_ADDR = VIA_EEPROM_MAGIC_ADDR + 3"
definition VIA_EEPROM_LAYOUT_OPTIONS_SIZE :: nat where "VIA_EEPROM_LAYOUT_OPTIONS_SIZE = 1"
definition VIA_EEPROM_CONFIG_END :: nat where
  "VIA_EEPROM_CONFIG_END = VIA_EEPROM_LAYOUT_OPTIONS_ADDR + VIA_EEPROM_LAYOUT_OPTIONS_SIZE"

definition DYNAMIC_KEYMAP_LAYER_COUNT :: nat where "DYNAMIC_KEYMAP_LAYER_COUNT = 4"
definition DYNAMIC_KEYMAP_MACRO_COUNT :: nat where "DYNAMIC_KEYMAP_MACRO_COUNT = 16"
definition DYNAMIC_KEYMAP_EEPROM_ADDR :: nat where "DYNAMIC_KEYMAP_EEPROM_ADDR = VIA_EEPROM_CONFIG_END"
definition DYNAMIC_KEYMAP_EEPROM_MAX_ADDR :: nat where "DYNAMIC_KEYMAP_EEPROM_MAX_ADDR = 2047"
definition DYNAMIC_KEYMAP_MACRO_EEPROM_ADDR :: nat where
  "DYNAMIC_KEYMAP_MACRO_EEPROM_ADDR =
    DYNAMIC_KEYMAP_EEPROM_ADDR + DYNAMIC_KEYMAP_LAYER_COUNT * MATRIX_ROWS * MATRIX_COLS * 2"
definition DYNAMIC_KEYMAP_MACRO_EEPROM_SIZE :: nat where
  "DYNAMIC_KEYMAP_MACRO_EEPROM_SIZE = DYNAMIC_KEYMAP_EEPROM_MAX_ADDR - DYNAMIC_KEYMAP_MACRO_EEPROM_ADDR + 1"

lemmas keymap_layout = EECONFIG_SIZE_def VIA_EEPROM_MAGIC_ADDR_def VIA_EEPROM_LAYOUT_OPTIONS_ADDR_def
  VIA_EEPROM_LAYOUT_OPTIONS_SIZE_def VIA_EEPROM_CONFIG_END_def DYNAMIC_KEYMAP_LAYER_COUNT_def
  DYNAMIC_KEYMAP_EEPROM_ADDR_def DYNAMIC_KEYMAP_EEPROM_MAX_ADDR_def DYNAMIC_KEYMAP_MACRO_EEPROM_ADDR_def
  DYNAMIC_KEYMAP_MACRO_EEPROM_SIZE_def MATRIX_ROWS_def MATRIX_COLS_def

definition KC_NO :: u16 where "KC_NO = 0"
definition KC_TRANSPARENT :: u16 where "KC_TRANSPARENT = 1"

subsection \<open>Key codes\<close>

definition dynamic_keymap_get_layer_count :: u8 where
  "dynamic_keymap_get_layer_count = of_nat DYNAMIC_KEYMAP_LAYER_COUNT"

definition dynamic_keymap_key_to_eeprom_address :: "u8 \<Rightarrow> u8 \<Rightarrow> u8 \<Rightarrow> nat" where
  "dynamic_keymap_key_to_eeprom_address layer r c =
    DYNAMIC_KEYMAP_EEPROM_ADDR + unat layer * MATRIX_ROWS * MATRIX_COLS * 2 +
      unat r * MATRIX_COLS * 2 + unat c * 2"

definition in_keymap :: "u8 \<Rightarrow> u8 \<Rightarrow> u8 \<Rightarrow> bool" where
  "in_keymap layer r c \<longleftrightarrow>
    unat layer < DYNAMIC_KEYMAP_LAYER_COUNT \<and> unat r < MATRIX_ROWS \<and> unat c < MATRIX_COLS"

definition dynamic_keymap_get_keycode :: "'s eeprom_dev \<Rightarrow> u8 \<Rightarrow> u8 \<Rightarrow> u8 \<Rightarrow> 's \<Rightarrow> u16" where
  "dynamic_keymap_get_keycode d layer r c s =
    (if \<not> in_keymap layer r c then KC_NO
     else let address = dynamic_keymap_key_to_eeprom_address layer r c;
              keycode = push_bit 8 (ucast (eeprom_read_byte d address s)) in
       keycode OR ucast (eeprom_read_byte d (address + 1) s))"

definition dynamic_keymap_set_keycode :: "'s eeprom_dev \<Rightarrow> u8 \<Rightarrow> u8 \<Rightarrow> u8 \<Rightarrow> u16 \<Rightarrow> 's \<Rightarrow> 's" where
  "dynamic_keymap_set_keycode d layer r c keycode s =
    (if \<not> in_keymap layer r c then s
     else let address = dynamic_keymap_key_to_eeprom_address layer r c;
              s = eeprom_update_byte d address (ucast (drop_bit 8 keycode)) s in
       eeprom_update_byte d (address + 1) (ucast (keycode AND 0xFF)) s)"

text \<open>
  \<open>raw\<close> and \<open>layers\<close> are the compiled-in keymap: \<^verbatim>\<open>keycode_at_keymap_location_raw\<close> and
  \<^verbatim>\<open>keymap_layer_count\<close> of the keymap's own file.
\<close>

definition reset_key :: "'s eeprom_dev \<Rightarrow> nat \<Rightarrow> (u8 \<Rightarrow> u8 \<Rightarrow> u8 \<Rightarrow> u16) \<Rightarrow> nat \<times> nat \<times> nat \<Rightarrow> 's \<Rightarrow> 's" where
  "reset_key d layers raw = (\<lambda>(layer, r, c) s.
    if layer < layers
    then dynamic_keymap_set_keycode d (of_nat layer) (of_nat r) (of_nat c)
      (raw (of_nat layer) (of_nat r) (of_nat c)) s
    else dynamic_keymap_set_keycode d (of_nat layer) (of_nat r) (of_nat c) KC_TRANSPARENT s)"

definition all_keys :: "(nat \<times> nat \<times> nat) list" where
  "all_keys = List.product [0..<DYNAMIC_KEYMAP_LAYER_COUNT] (List.product [0..<MATRIX_ROWS] [0..<MATRIX_COLS])"

definition dynamic_keymap_reset :: "'s eeprom_dev \<Rightarrow> nat \<Rightarrow> (u8 \<Rightarrow> u8 \<Rightarrow> u8 \<Rightarrow> u16) \<Rightarrow> 's \<Rightarrow> 's" where
  "dynamic_keymap_reset d layers raw s = fold (reset_key d layers raw) all_keys s"

definition keycode_at_keymap_location :: "'s eeprom_dev \<Rightarrow> u8 \<Rightarrow> u8 \<Rightarrow> u8 \<Rightarrow> 's \<Rightarrow> u16" where
  "keycode_at_keymap_location d layer_num r c s =
    (if in_keymap layer_num r c then dynamic_keymap_get_keycode d layer_num r c s else KC_NO)"

subsection \<open>Bulk access\<close>

text \<open>Both buffers are read and written byte by byte; bytes outside the area read 0 and are not written.\<close>

fun get_area :: "'s eeprom_dev \<Rightarrow> nat \<Rightarrow> nat \<Rightarrow> nat \<Rightarrow> nat \<Rightarrow> 's \<Rightarrow> u8 list" where
  "get_area d base limit offset 0 s = []"
| "get_area d base limit offset (Suc n) s =
    (if offset < limit then eeprom_read_byte d (base + offset) s else 0) # get_area d base limit (offset + 1) n s"

fun set_area :: "'s eeprom_dev \<Rightarrow> nat \<Rightarrow> nat \<Rightarrow> nat \<Rightarrow> u8 list \<Rightarrow> 's \<Rightarrow> 's" where
  "set_area d base limit offset [] s = s"
| "set_area d base limit offset (b # bs) s =
    set_area d base limit (offset + 1) bs
      (if offset < limit then eeprom_update_byte d (base + offset) b s else s)"

definition dynamic_keymap_eeprom_size :: nat where
  "dynamic_keymap_eeprom_size = DYNAMIC_KEYMAP_LAYER_COUNT * MATRIX_ROWS * MATRIX_COLS * 2"

definition dynamic_keymap_get_buffer :: "'s eeprom_dev \<Rightarrow> u16 \<Rightarrow> u16 \<Rightarrow> 's \<Rightarrow> u8 list" where
  "dynamic_keymap_get_buffer d offset sz s =
    get_area d DYNAMIC_KEYMAP_EEPROM_ADDR dynamic_keymap_eeprom_size (unat offset) (unat sz) s"

definition dynamic_keymap_set_buffer :: "'s eeprom_dev \<Rightarrow> u16 \<Rightarrow> u8 list \<Rightarrow> 's \<Rightarrow> 's" where
  "dynamic_keymap_set_buffer d offset data s =
    set_area d DYNAMIC_KEYMAP_EEPROM_ADDR dynamic_keymap_eeprom_size (unat offset) data s"

definition dynamic_keymap_macro_get_count :: u8 where
  "dynamic_keymap_macro_get_count = of_nat DYNAMIC_KEYMAP_MACRO_COUNT"

definition dynamic_keymap_macro_get_buffer_size :: u16 where
  "dynamic_keymap_macro_get_buffer_size = of_nat DYNAMIC_KEYMAP_MACRO_EEPROM_SIZE"

definition dynamic_keymap_macro_get_buffer :: "'s eeprom_dev \<Rightarrow> u16 \<Rightarrow> u16 \<Rightarrow> 's \<Rightarrow> u8 list" where
  "dynamic_keymap_macro_get_buffer d offset sz s =
    get_area d DYNAMIC_KEYMAP_MACRO_EEPROM_ADDR DYNAMIC_KEYMAP_MACRO_EEPROM_SIZE (unat offset) (unat sz) s"

definition dynamic_keymap_macro_set_buffer :: "'s eeprom_dev \<Rightarrow> u16 \<Rightarrow> u8 list \<Rightarrow> 's \<Rightarrow> 's" where
  "dynamic_keymap_macro_set_buffer d offset data s =
    set_area d DYNAMIC_KEYMAP_MACRO_EEPROM_ADDR DYNAMIC_KEYMAP_MACRO_EEPROM_SIZE (unat offset) data s"

definition dynamic_keymap_macro_reset :: "'s eeprom_dev \<Rightarrow> 's \<Rightarrow> 's" where
  "dynamic_keymap_macro_reset d s =
    fold (\<lambda>p. eeprom_update_byte d p 0)
      [DYNAMIC_KEYMAP_MACRO_EEPROM_ADDR ..< DYNAMIC_KEYMAP_MACRO_EEPROM_ADDR + DYNAMIC_KEYMAP_MACRO_EEPROM_SIZE] s"

subsection \<open>Sending a macro\<close>

definition SS_QMK_PREFIX :: u8 where "SS_QMK_PREFIX = 1"
definition SS_TAP_CODE :: u8 where "SS_TAP_CODE = 1"
definition SS_DOWN_CODE :: u8 where "SS_DOWN_CODE = 2"
definition SS_UP_CODE :: u8 where "SS_UP_CODE = 3"
definition SS_DELAY_CODE :: u8 where "SS_DELAY_CODE = 4"
definition SS_BAR :: u8 where "SS_BAR = 124"

lemmas ss_consts = SS_QMK_PREFIX_def SS_TAP_CODE_def SS_DOWN_CODE_def SS_UP_CODE_def SS_DELAY_CODE_def SS_BAR_def

abbreviation macro_end :: nat where
  "macro_end \<equiv> DYNAMIC_KEYMAP_MACRO_EEPROM_ADDR + DYNAMIC_KEYMAP_MACRO_EEPROM_SIZE"

text \<open>The search for the start of the macro; \<open>None\<close> when the buffer ends first.\<close>

function macro_skip :: "(nat \<Rightarrow> u8) \<Rightarrow> nat \<Rightarrow> nat \<Rightarrow> nat option" where
  "macro_skip rd n p =
    (if n = 0 then Some p
     else if macro_end \<le> p then None
     else macro_skip rd (if rd p = 0 then n - 1 else n) (p + 1))"
  by pat_completeness auto
termination by (relation "measure (\<lambda>(rd, n, p). macro_end - p)") auto

declare macro_skip.simps [simp del]

text \<open>
  One piece of a macro, assembled in the eight-byte array \<^verbatim>\<open>data\<close> that keeps its contents between
  pieces: \<open>None\<close> stops the macro, otherwise the array to send and the next position.
\<close>

function macro_delay :: "(nat \<Rightarrow> u8) \<Rightarrow> nat \<Rightarrow> nat \<Rightarrow> u8 list \<Rightarrow> (u8 list \<times> nat) option" where
  "macro_delay rd i p data =
    (let data = data[i := rd p] in
     if data ! i = 0 then None
     else if data ! i = SS_BAR then Some (data[i + 1 := 0], p + 1)
     else if 6 \<le> i then None
     else macro_delay rd (i + 1) (p + 1) data)"
  by pat_completeness auto
termination by (relation "measure (\<lambda>(rd, i, p, data). 6 - i)") auto

declare macro_delay.simps [simp del]

definition macro_piece :: "(nat \<Rightarrow> u8) \<Rightarrow> nat \<Rightarrow> u8 list \<Rightarrow> (u8 list \<times> nat) option" where
  "macro_piece rd p data =
    (let data = data[0 := rd p, 1 := 0]; p = p + 1 in
     if data ! 0 = 0 then None
     else if data ! 0 = SS_QMK_PREFIX then
       let data = data[1 := rd p]; p = p + 1 in
       if data ! 1 = 0 then None
       else if data ! 1 = SS_TAP_CODE \<or> data ! 1 = SS_DOWN_CODE \<or> data ! 1 = SS_UP_CODE then
         let data = data[2 := rd p]; p = p + 1 in
         if data ! 2 = 0 then None else Some (data[3 := 0], p)
       else if data ! 1 = SS_DELAY_CODE then macro_delay rd 2 p data
       else Some (data, p)
     else Some (data, p))"

text \<open>
  The sending loop stops only at a null byte, so it may run on; not returning is \<open>None\<close>.  The result
  is the list of strings handed to \<^verbatim>\<open>send_string_with_delay\<close>.
\<close>

partial_function (option) macro_loop :: "(nat \<Rightarrow> u8) \<Rightarrow> nat \<Rightarrow> u8 list \<Rightarrow> u8 list list \<Rightarrow> u8 list list option" where
  "macro_loop rd p data out =
    (case macro_piece rd p data of
       None \<Rightarrow> Some out
     | Some (data, p) \<Rightarrow> macro_loop rd p data (out @ [takeWhile (\<lambda>b. b \<noteq> 0) data]))"

definition dynamic_keymap_macro_send :: "'s eeprom_dev \<Rightarrow> u8 \<Rightarrow> 's \<Rightarrow> u8 list list option" where
  "dynamic_keymap_macro_send d macro_id s =
    (let rd = (\<lambda>p. eeprom_read_byte d p s) in
     if DYNAMIC_KEYMAP_MACRO_COUNT \<le> unat macro_id then Some []
     else if rd (macro_end - 1) \<noteq> 0 then Some []
     else case macro_skip rd (unat macro_id) DYNAMIC_KEYMAP_MACRO_EEPROM_ADDR of
         None \<Rightarrow> Some []
       | Some p \<Rightarrow> macro_loop rd p (replicate 8 0) [])"

subsection \<open>Key codes are stored independently\<close>

lemma key_address_bounds:
  assumes "in_keymap l r c"
  shows "DYNAMIC_KEYMAP_EEPROM_ADDR \<le> dynamic_keymap_key_to_eeprom_address l r c"
    and "dynamic_keymap_key_to_eeprom_address l r c + 2 \<le> DYNAMIC_KEYMAP_MACRO_EEPROM_ADDR"
  using assms by (auto simp: in_keymap_def dynamic_keymap_key_to_eeprom_address_def keymap_layout)

lemma mixed_radix_inj:
  fixes q q' r r' k :: nat
  assumes "r < k" "r' < k" "q * k + r = q' * k + r'"
  shows "q = q' \<and> r = r'"
proof -
  have "q = (q * k + r) div k" "q' = (q' * k + r') div k" using assms(1,2) by auto
  then have "q = q'" using assms(3) by simp
  then show ?thesis using assms(3) by simp
qed

lemma key_address_inj:
  assumes "in_keymap l r c" "in_keymap l' r' c'"
    "dynamic_keymap_key_to_eeprom_address l r c = dynamic_keymap_key_to_eeprom_address l' r' c'"
  shows "l = l' \<and> r = r' \<and> c = c'"
proof -
  have b: "unat r < 6" "unat r' < 6" "unat c < 16" "unat c' < 16"
    using assms by (simp_all add: in_keymap_def)
  have "(unat l * 6 + unat r) * 16 + unat c = (unat l' * 6 + unat r') * 16 + unat c'"
    using assms(3) by (simp add: dynamic_keymap_key_to_eeprom_address_def)
  then have "unat l * 6 + unat r = unat l' * 6 + unat r' \<and> unat c = unat c'"
    using b by (intro mixed_radix_inj)
  moreover from this have "unat l = unat l' \<and> unat r = unat r'" using b by (intro mixed_radix_inj) auto
  ultimately show ?thesis by (simp add: word_unat_eq_iff)
qed

lemma key_address_even: "dynamic_keymap_key_to_eeprom_address l r c mod 2 = 0"
  by (simp add: dynamic_keymap_key_to_eeprom_address_def keymap_layout)

lemma key_address_apart:
  assumes "in_keymap l r c" "in_keymap l' r' c'" "(l, r, c) \<noteq> (l', r', c')"
  shows "dynamic_keymap_key_to_eeprom_address l r c + 2 \<le> dynamic_keymap_key_to_eeprom_address l' r' c' \<or>
    dynamic_keymap_key_to_eeprom_address l' r' c' + 2 \<le> dynamic_keymap_key_to_eeprom_address l r c"
  using key_address_inj [OF assms(1,2)] assms(3) key_address_even [of l r c] key_address_even [of l' r' c']
  by auto presburger+

lemma keycode_bytes: "push_bit 8 (ucast (ucast (drop_bit 8 k) :: u8)) OR ucast (ucast (k AND 0xFF) :: u8) = (k :: u16)"
proof (rule bit_word_eqI)
  fix n assume n: "n < LENGTH(16)"
  have m: "(0xFF :: u16) = mask 8" by (simp add: mask_eq_exp_minus_1)
  show "bit (push_bit 8 (ucast (ucast (drop_bit 8 k) :: u8)) OR ucast (ucast (k AND 0xFF) :: u8) :: u16) n = bit k n"
    unfolding m using n by (auto simp: bit_or_iff bit_push_bit_iff bit_unsigned_iff bit_drop_bit_eq bit_and_iff bit_mask_iff)
qed

locale keymap_eeprom = eeprom_device +
  assumes room: "DYNAMIC_KEYMAP_EEPROM_MAX_ADDR < size"
begin

lemma set_keycode_contents:
  assumes "dev_ok s" "in_keymap l r c"
  shows "dev_ok (dynamic_keymap_set_keycode d l r c k s) \<and>
    contents (dynamic_keymap_set_keycode d l r c k s) =
      write_at (contents s) (dynamic_keymap_key_to_eeprom_address l r c) [ucast (drop_bit 8 k), ucast (k AND 0xFF)]"
proof -
  let ?a = "dynamic_keymap_key_to_eeprom_address l r c"
  have a: "?a < size" "?a + 1 < size"
    using key_address_bounds(2) [OF assms(2)] room by (auto simp: keymap_layout)
  note u1 = update_byte_contents [OF assms(1) a(1), of "ucast (drop_bit 8 k)"]
  then show ?thesis
    using update_byte_contents [of "eeprom_update_byte d ?a (ucast (drop_bit 8 k)) s" "?a + 1" "ucast (k AND 0xFF)"] a assms(2)
    by (simp add: dynamic_keymap_set_keycode_def Let_def)
qed

lemma get_keycode_contents:
  assumes "dev_ok s" "in_keymap l r c"
  shows "dynamic_keymap_get_keycode d l r c s =
    push_bit 8 (ucast (contents s ! dynamic_keymap_key_to_eeprom_address l r c)) OR
    ucast (contents s ! (dynamic_keymap_key_to_eeprom_address l r c + 1))"
proof -
  have a: "dynamic_keymap_key_to_eeprom_address l r c + 1 < size"
    using key_address_bounds(2) [OF assms(2)] room by (auto simp: keymap_layout)
  then show ?thesis using assms by (simp add: dynamic_keymap_get_keycode_def read_byte_contents Let_def)
qed

lemma get_set_keycode_same:
  assumes "dev_ok s" "in_keymap l r c"
  shows "dynamic_keymap_get_keycode d l r c (dynamic_keymap_set_keycode d l r c k s) = k"
proof -
  have "dynamic_keymap_key_to_eeprom_address l r c + 2 \<le> length (contents s)"
    using key_address_bounds(2) [OF assms(2)] room length_contents [OF assms(1)] by (simp add: keymap_layout)
  then show ?thesis
    using set_keycode_contents [OF assms, of k] assms
    by (subst get_keycode_contents) (auto simp: byte_simps keycode_bytes simp del: write_at.simps)
qed

lemma get_set_keycode_other:
  assumes "dev_ok s" "in_keymap l r c" "in_keymap l' r' c'" "(l', r', c') \<noteq> (l, r, c)"
  shows "dynamic_keymap_get_keycode d l' r' c' (dynamic_keymap_set_keycode d l r c k s) =
    dynamic_keymap_get_keycode d l' r' c' s"
proof -
  have "dynamic_keymap_key_to_eeprom_address l' r' c' + 2 \<le> length (contents s)"
    using key_address_bounds(2) [OF assms(3)] room length_contents [OF assms(1)] by (simp add: keymap_layout)
  moreover have "dynamic_keymap_key_to_eeprom_address l r c + 2 \<le> dynamic_keymap_key_to_eeprom_address l' r' c' \<or>
    dynamic_keymap_key_to_eeprom_address l' r' c' + 2 \<le> dynamic_keymap_key_to_eeprom_address l r c"
    using assms by (intro key_address_apart) auto
  ultimately show ?thesis
    using set_keycode_contents [OF assms(1,2), of k] assms
    by (subst (1 2) get_keycode_contents) (auto simp: byte_simps simp del: write_at.simps)
qed

end

sublocale keymap_eeprom \<subseteq> keycodes: indexed_store "\<lambda>(l, r, c). dynamic_keymap_get_keycode d l r c"
  "\<lambda>(l, r, c). dynamic_keymap_set_keycode d l r c" dev_ok "\<lambda>(l, r, c). in_keymap l r c" "\<lambda>_. True"
  by unfold_locales
    (auto simp: set_keycode_contents get_set_keycode_same split: prod.splits intro!: get_set_keycode_other)

context keymap_eeprom
begin

lemmas axioms_keycodes = keycodes.indexed_store_axioms

end

sublocale nor_flash \<subseteq> l4_keymap: keymap_eeprom "l4_dev fl" "fee_inv fl wf" FEE_DENSITY_BYTES DataBuf l4_read_ok
  by unfold_locales (simp add: fee_layout keymap_layout)

subsection \<open>Bulk access and reset\<close>

context keymap_eeprom
begin

lemma set_area_contents:
  assumes "dev_ok s" "base + limit \<le> size"
  shows "dev_ok (set_area d base limit offset bs s) \<and>
    contents (set_area d base limit offset bs s) = write_at (contents s) (base + offset) (take (limit - offset) bs)"
  using assms(1)
proof (induction bs arbitrary: offset s)
  case (Cons b bs)
  show ?case
  proof (cases "offset < limit")
    case True
    then have "limit - offset = Suc (limit - Suc offset)" by simp
    moreover have "base + offset < size" using True assms(2) by simp
    ultimately show ?thesis
      using True Cons.IH [of "eeprom_update_byte d (base + offset) b s" "offset + 1"]
        update_byte_contents [OF Cons.prems, of "base + offset" b] by simp
  next
    case False
    then show ?thesis using Cons.IH [OF Cons.prems, of "offset + 1"] by simp
  qed
qed simp

lemma get_area_contents:
  assumes "dev_ok s" "base + limit \<le> size"
  shows "get_area d base limit offset n s =
    read_at (contents s) (base + offset) (min n (limit - offset)) @ replicate (n - (limit - offset)) 0"
proof (induction n arbitrary: offset)
  case 0
  then show ?case by (simp add: read_at_def)
next
  case (Suc n)
  show ?case
  proof (cases "offset < limit")
    case True
    then have l: "limit - offset = Suc (limit - Suc offset)" by simp
    have b: "base + offset < length (contents s)" using True assms length_contents by simp
    then have "drop (base + offset) (contents s) = contents s ! (base + offset) # drop (Suc (base + offset)) (contents s)"
      by (rule Cons_nth_drop_Suc [symmetric])
    then show ?thesis using True b Suc [of "offset + 1"] assms length_contents [OF assms(1)] unfolding l
      by (simp add: read_byte_contents read_at_def)
  next
    case False
    then show ?thesis using Suc [of "offset + 1"] by (simp add: read_at_def)
  qed
qed

lemma area_roundtrip:
  assumes "dev_ok s" "base + limit \<le> size"
  shows "get_area d base limit offset (length bs) (set_area d base limit offset bs s) =
    take (limit - offset) bs @ replicate (length bs - (limit - offset)) 0"
proof -
  let ?t = "take (limit - offset) bs"
  have "read_at (write_at (contents s) (base + offset) ?t) (base + offset) (length ?t) = ?t"
    if "offset < limit" using that assms length_contents [OF assms(1)] by (intro read_at_write_at_same) auto
  moreover have "?t = []" if "\<not> offset < limit" using that by simp
  ultimately have "read_at (write_at (contents s) (base + offset) ?t) (base + offset) (min (length bs) (limit - offset)) = ?t"
    by (cases "offset < limit") (auto simp: read_at_def min.commute)
  then show ?thesis
    using set_area_contents [OF assms, of offset bs] assms(2) by (simp add: get_area_contents)
qed

lemma reset_puts:
  "fold (reset_key d layers raw) ks s =
    puts (\<lambda>(l, r, c). dynamic_keymap_set_keycode d l r c)
      (map (\<lambda>k. (k, case k of (l, r, c) \<Rightarrow> if unat l < layers then raw l r c else KC_TRANSPARENT))
        (map (\<lambda>(l, r, c). (of_nat l, of_nat r, of_nat c)) ks)) s"
  if "\<forall>(l, r, c) \<in> set ks. l < 256"
  using that by (induction ks arbitrary: s) (auto simp: reset_key_def unat_of_nat take_bit_nat_eq_self)

lemma keymap_reset_keycodes:
  assumes "dev_ok s" "in_keymap l r c"
  shows "dynamic_keymap_get_keycode d l r c (dynamic_keymap_reset d layers raw s) =
    (if unat l < layers then raw l r c else KC_TRANSPARENT)"
proof -
  let ?conv = "\<lambda>(l, r, c). (of_nat l, of_nat r, of_nat c) :: u8 \<times> u8 \<times> u8"
  let ?f = "\<lambda>(l, r, c). if unat l < layers then raw l r c else KC_TRANSPARENT"
  have "(unat l, unat r, unat c) \<in> set all_keys" using assms(2) by (simp add: all_keys_def in_keymap_def)
  then have "?conv (unat l, unat r, unat c) \<in> set (map ?conv all_keys)"
    unfolding set_map by (rule imageI)
  then have k: "(l, r, c) \<in> set (map ?conv all_keys)" by simp
  have ok: "\<forall>k \<in> set (map ?conv all_keys). (case k of (l, r, c) \<Rightarrow> in_keymap l r c) \<and> True"
    by (auto simp: all_keys_def in_keymap_def DYNAMIC_KEYMAP_LAYER_COUNT_def unat_of_nat take_bit_nat_eq_self)
  have small: "\<forall>(l, r, c) \<in> set all_keys. l < 256" by (auto simp: all_keys_def DYNAMIC_KEYMAP_LAYER_COUNT_def)
  show ?thesis
    using keycodes.get_puts_fun [OF assms(1) ok k, of ?f]
    unfolding dynamic_keymap_reset_def reset_puts [OF small] by (simp only: prod.case)
qed

end

subsection \<open>Macros\<close>

definition reads :: "(nat \<Rightarrow> u8) \<Rightarrow> nat \<Rightarrow> u8 list \<Rightarrow> bool" where
  "reads rd p xs \<longleftrightarrow> (\<forall>i < length xs. rd (p + i) = xs ! i)"

lemma reads_Cons [simp]: "reads rd p (x # xs) \<longleftrightarrow> rd p = x \<and> reads rd (Suc p) xs"
  unfolding reads_def by (auto simp: less_Suc_eq_0_disj nth_Cons split: nat.splits)

lemma reads_Nil [simp]: "reads rd p []" by (simp add: reads_def)

lemma reads_append [simp]: "reads rd p (xs @ ys) \<longleftrightarrow> reads rd p xs \<and> reads rd (p + length xs) ys"
  by (induction xs arbitrary: p) auto

text \<open>A text macro: neither the terminator nor the command prefix occurs in it.\<close>

definition plain :: "u8 list \<Rightarrow> bool" where
  "plain m \<longleftrightarrow> (\<forall>b \<in> set m. b \<noteq> 0 \<and> b \<noteq> SS_QMK_PREFIX)"

lemma macro_loop_plain:
  assumes "plain m" "reads rd p (m @ [0])" "length data = 8"
  shows "macro_loop rd p data out = Some (out @ map (\<lambda>b. [b]) m)"
  using assms
proof (induction m arbitrary: p data out)
  case Nil
  then show ?case by (subst macro_loop.simps) (simp add: macro_piece_def nth_list_update)
next
  case (Cons b m)
  let ?data = "data[0 := b, 1 := 0]"
  have b: "b \<noteq> 0" "b \<noteq> SS_QMK_PREFIX" "rd p = b" using Cons.prems by (auto simp: plain_def)
  have n: "?data ! 0 = b" using Cons.prems(3) by (simp add: nth_list_update)
  have piece: "macro_piece rd p data = Some (?data, p + 1)"
    unfolding macro_piece_def Let_def b(3) n using b by simp
  obtain rest where "?data = b # 0 # rest"
    using Cons.prems(3) by (cases data; cases "tl data") auto
  then have t: "takeWhile (\<lambda>b. b \<noteq> 0) ?data = [b]" using b by simp
  have "macro_loop rd (p + 1) ?data (out @ [[b]]) = Some ((out @ [[b]]) @ map (\<lambda>b. [b]) m)"
    using Cons.prems by (intro Cons.IH) (auto simp: plain_def)
  then show ?case by (subst macro_loop.simps) (simp add: piece t del: One_nat_def)
qed

lemma macro_skip_string:
  assumes "\<forall>b \<in> set m. b \<noteq> 0" "reads rd p (m @ [0])" "p + length m < macro_end"
  shows "macro_skip rd (Suc n) p = macro_skip rd n (p + length m + 1)"
  using assms
proof (induction m arbitrary: p)
  case Nil
  then show ?case by (subst macro_skip.simps) simp
next
  case (Cons b m)
  then show ?case by (subst macro_skip.simps) auto
qed

lemma macro_skip_strings:
  assumes "\<forall>m \<in> set ms. \<forall>b \<in> set m. b \<noteq> 0" "reads rd p (concat (map (\<lambda>m. m @ [0]) ms))"
    "p + length (concat (map (\<lambda>m. m @ [0]) ms)) \<le> macro_end"
  shows "macro_skip rd (length ms) p = Some (p + length (concat (map (\<lambda>m. m @ [0]) ms)))"
  using assms
proof (induction ms arbitrary: p)
  case Nil
  then show ?case by (subst macro_skip.simps) simp
next
  case (Cons m ms)
  have "macro_skip rd (Suc (length ms)) p = macro_skip rd (length ms) (p + length m + 1)"
    using Cons.prems by (intro macro_skip_string) auto
  also have "\<dots> = Some (p + length m + 1 + length (concat (map (\<lambda>m. m @ [0]) ms)))"
    using Cons.prems by (intro Cons.IH) auto
  finally show ?case by simp
qed

context keymap_eeprom
begin

lemma reads_contents:
  assumes "dev_ok s" "a + length xs \<le> size" "read_at (contents s) a (length xs) = xs"
  shows "reads (\<lambda>p. eeprom_read_byte d p s) a xs"
  unfolding reads_def
proof (intro allI impI)
  fix i assume i: "i < length xs"
  have "xs ! i = read_at (contents s) a (length xs) ! i" using assms(3) by simp
  also have "\<dots> = contents s ! (a + i)" using i assms(1,2) length_contents [of s] by (intro nth_read_at) auto
  finally show "eeprom_read_byte d (a + i) s = xs ! i" using i assms by (simp add: read_byte_contents)
qed

text \<open>The macro buffer holds the macros one after the other, each with its terminator.\<close>

lemma macro_send_plain:
  assumes ok: "dev_ok s" and plain: "\<forall>m \<in> set ms. plain m" and k: "k < length ms" "k < DYNAMIC_KEYMAP_MACRO_COUNT"
    and area: "read_at (contents s) DYNAMIC_KEYMAP_MACRO_EEPROM_ADDR DYNAMIC_KEYMAP_MACRO_EEPROM_SIZE =
      concat (map (\<lambda>m. m @ [0]) ms) @ rest"
    and last: "last (concat (map (\<lambda>m. m @ [0]) ms) @ rest) = 0"
  shows "dynamic_keymap_macro_send d (of_nat k) s = Some (map (\<lambda>b. [b]) (ms ! k))"
proof -
  let ?rd = "\<lambda>p. eeprom_read_byte d p s" and ?A = DYNAMIC_KEYMAP_MACRO_EEPROM_ADDR and ?S = DYNAMIC_KEYMAP_MACRO_EEPROM_SIZE
  let ?pre = "concat (map (\<lambda>m. m @ [0]) (take k ms))"
  let ?all = "concat (map (\<lambda>m. m @ [0]) ms) @ rest"
  have room': "?A + ?S \<le> size" using room by (simp add: keymap_layout)
  have len: "length ?all = ?S" using area room' length_contents [OF ok] by (metis length_read_at)
  have rall: "reads ?rd ?A ?all" using ok room' len area by (intro reads_contents) auto
  have split: "?all = ?pre @ (ms ! k @ [0]) @ (concat (map (\<lambda>m. m @ [0]) (drop (Suc k) ms)) @ rest)"
    using id_take_nth_drop [OF k(1)] by (metis (no_types, lifting) append.assoc concat.simps(2) concat_append list.simps(9) map_append)
  have r: "reads ?rd ?A ?pre" "reads ?rd (?A + length ?pre) (ms ! k @ [0])" using rall unfolding split by auto
  have lp: "?A + length ?pre \<le> macro_end" using len unfolding split by simp
  have pl: "\<forall>m \<in> set (take k ms). \<forall>b \<in> set m. b \<noteq> 0" using plain by (auto simp: plain_def dest: in_set_takeD)
  have skip: "macro_skip ?rd k ?A = Some (?A + length ?pre)"
    using macro_skip_strings [OF pl r(1) lp] k by simp
  have "?rd (macro_end - 1) = 0"
  proof -
    have S: "0 < ?S" by (simp add: keymap_layout)
    then have "?rd (?A + (?S - 1)) = ?all ! (?S - 1)"
      using rall [unfolded reads_def, rule_format, of "?S - 1"] len by simp
    also have "\<dots> = 0" using last len S by (metis last_conv_nth length_greater_0_conv)
    finally show ?thesis using S by simp
  qed
  moreover have "plain (ms ! k)" using plain k by simp
  moreover have "unat (of_nat k :: u8) = k" using k by (simp add: DYNAMIC_KEYMAP_MACRO_COUNT_def unat_of_nat take_bit_nat_eq_self)
  ultimately show ?thesis
    using skip k macro_loop_plain [OF _ r(2), of "replicate 8 0" "[]"]
    by (simp add: dynamic_keymap_macro_send_def Let_def)
qed

end

subsection \<open>Properties\<close>

lemmas mock_keymap_eeprom = mock.l4_keymap.keymap_eeprom_axioms

lemma text_macro_fee:
  shows "fee_inv mock_ops mock_wf (eeprom_write_block mock_ops [104, 105] 806 fresh_fee)"
    and "read_at (DataBuf (eeprom_write_block mock_ops [104, 105] 806 fresh_fee))
      DYNAMIC_KEYMAP_MACRO_EEPROM_ADDR DYNAMIC_KEYMAP_MACRO_EEPROM_SIZE = 104 # 105 # 0 # replicate 1239 0"
proof -
  note w = mock.eeprom_write_block_inv [OF fresh_fee_inv, of 806 "[104, 105]"]
  show "fee_inv mock_ops mock_wf (eeprom_write_block mock_ops [104, 105] 806 fresh_fee)"
    using w by (simp add: fee_layout)
  have "DataBuf (eeprom_write_block mock_ops [104, 105] 806 fresh_fee) =
      replicate 806 0 @ [104, 105] @ replicate (Suc 1239) 0"
    using w by (simp add: write_at_split fresh_fee_def fee_layout del: replicate_Suc write_at.simps)
  then show "read_at (DataBuf (eeprom_write_block mock_ops [104, 105] 806 fresh_fee))
      DYNAMIC_KEYMAP_MACRO_EEPROM_ADDR DYNAMIC_KEYMAP_MACRO_EEPROM_SIZE = 104 # 105 # 0 # replicate 1239 0"
    by (simp only: keymap_layout read_at_def) (simp add: replicate_Suc [of 1239, simplified])
qed

text \<open>On every EEPROM driver that meets its contract, reading a key code after any sequence of
  key-code writes gives the last value written for that layer, row and column, or the old value if
  there was none: entries never disturb each other.\<close>
lemma keymap_reads_last_write:
  assumes "keymap_eeprom d dev_ok n contents read_ok" "dev_ok s"
    "\<forall>((l, r, c), k) \<in> set ws. in_keymap l r c" "in_keymap l r c"
  shows "dynamic_keymap_get_keycode d l r c (puts (\<lambda>(l, r, c). dynamic_keymap_set_keycode d l r c) ws s) =
    (case map_of (rev ws) (l, r, c) of None \<Rightarrow> dynamic_keymap_get_keycode d l r c s | Some k \<Rightarrow> k)"
  using indexed_store.get_puts [OF keymap_eeprom.axioms_keycodes [OF assms(1)] assms(2), of ws "(l, r, c)"] assms(3,4)
  by (auto simp: split_beta)

text \<open>Resetting the keymap makes every key read its compiled-in key code, and the transparent key
  code on layers the firmware does not define.\<close>
lemma keymap_reset_restores_defaults:
  assumes "keymap_eeprom d dev_ok n contents read_ok" "dev_ok s" "in_keymap l r c"
  shows "dynamic_keymap_get_keycode d l r c (dynamic_keymap_reset d layers raw s) =
    (if unat l < layers then raw l r c else KC_TRANSPARENT)"
  using keymap_eeprom.keymap_reset_keycodes [OF assms] .

text \<open>If the macro buffer holds text macros, each followed by its terminator, and its last byte is
  null, then sending macro k terminates and sends exactly the characters of the k-th text.\<close>
lemma macro_send_sends_text:
  assumes "keymap_eeprom d dev_ok n contents read_ok" "dev_ok s" "\<forall>m \<in> set ms. plain m"
    "k < length ms" "k < DYNAMIC_KEYMAP_MACRO_COUNT"
    "read_at (contents s) DYNAMIC_KEYMAP_MACRO_EEPROM_ADDR DYNAMIC_KEYMAP_MACRO_EEPROM_SIZE =
      concat (map (\<lambda>m. m @ [0]) ms) @ rest"
    "last (concat (map (\<lambda>m. m @ [0]) ms) @ rest) = 0"
  shows "dynamic_keymap_macro_send d (of_nat k) s = Some (map (\<lambda>b. [b]) (ms ! k))"
  using keymap_eeprom.macro_send_plain [OF assms] .

text \<open>Bytes written through the keymap buffer interface are read back through it; what lies beyond
  the keymap area is not written and reads as 0.\<close>
lemma keymap_buffer_roundtrip:
  assumes "keymap_eeprom d dev_ok n contents read_ok" "dev_ok s" "length bs < 65536"
  shows "dynamic_keymap_get_buffer d offset (of_nat (length bs)) (dynamic_keymap_set_buffer d offset bs s) =
    take (dynamic_keymap_eeprom_size - unat offset) bs @
      replicate (length bs - (dynamic_keymap_eeprom_size - unat offset)) 0"
  using keymap_eeprom.area_roundtrip [OF assms(1,2), of DYNAMIC_KEYMAP_EEPROM_ADDR dynamic_keymap_eeprom_size "unat offset" bs] assms
    keymap_eeprom.room [OF assms(1)]
  by (simp add: dynamic_keymap_get_buffer_def dynamic_keymap_set_buffer_def unat_of_nat take_bit_nat_eq_self
      dynamic_keymap_eeprom_size_def keymap_layout)

end
