(* ===== verification/Qmk_Via.thy ===== *)
theory Qmk_Via
  imports Qmk_Dynamic_Keymap
begin

text \<open>
  The persistent configuration (\<^verbatim>\<open>quantum/eeconfig.c\<close>) and the host protocol that edits it
  (\<^verbatim>\<open>quantum/via.c\<close>), for the white-LED build of the keyboard: no RGB, backlight, audio or encoder
  channel, so custom values are unhandled.  Code of other files is a parameter in the record \<open>via_env\<close>:
  the build date, the compiled-in keymap, the uptime, the matrix rows, and the handlers of the two
  vendor commands.
\<close>

record 's via_env =
  QMK_BUILDDATE :: "u8 list"
  keymap_layer_count :: nat
  keymap_raw :: "u8 \<Rightarrow> u8 \<Rightarrow> u8 \<Rightarrow> u16"
  timer_read32 :: u32
  matrix_get_row :: "nat \<Rightarrow> u16"
  vendor_rx :: "u8 list \<Rightarrow> 's \<Rightarrow> 's"

subsection \<open>Validity of the VIA area\<close>

definition via_magic :: "u8 list \<Rightarrow> nat \<Rightarrow> u8" where
  "via_magic p i = push_bit 4 (p ! i AND 0x0F) OR (p ! (i + 1) AND 0x0F)"

definition via_eeprom_is_valid :: "'s eeprom_dev \<Rightarrow> 's via_env \<Rightarrow> 's \<Rightarrow> bool" where
  "via_eeprom_is_valid d env s \<longleftrightarrow>
    (let p = QMK_BUILDDATE env in
     eeprom_read_byte d (VIA_EEPROM_MAGIC_ADDR + 0) s = via_magic p 2 \<and>
     eeprom_read_byte d (VIA_EEPROM_MAGIC_ADDR + 1) s = via_magic p 5 \<and>
     eeprom_read_byte d (VIA_EEPROM_MAGIC_ADDR + 2) s = via_magic p 8)"

definition via_eeprom_set_valid :: "'s eeprom_dev \<Rightarrow> 's via_env \<Rightarrow> bool \<Rightarrow> 's \<Rightarrow> 's" where
  "via_eeprom_set_valid d env valid s =
    (let p = QMK_BUILDDATE env;
         s = eeprom_update_byte d (VIA_EEPROM_MAGIC_ADDR + 0) (if valid then via_magic p 2 else 0xFF) s;
         s = eeprom_update_byte d (VIA_EEPROM_MAGIC_ADDR + 1) (if valid then via_magic p 5 else 0xFF) s in
     eeprom_update_byte d (VIA_EEPROM_MAGIC_ADDR + 2) (if valid then via_magic p 8 else 0xFF) s)"

subsection \<open>Layout options\<close>

fun get_options :: "'s eeprom_dev \<Rightarrow> nat \<Rightarrow> nat \<Rightarrow> u32 \<Rightarrow> 's \<Rightarrow> u32" where
  "get_options d source 0 value s = value"
| "get_options d source (Suc n) value s =
    get_options d (source + 1) n (push_bit 8 value OR ucast (eeprom_read_byte d source s)) s"

definition via_get_layout_options :: "'s eeprom_dev \<Rightarrow> 's \<Rightarrow> u32" where
  "via_get_layout_options d s = get_options d VIA_EEPROM_LAYOUT_OPTIONS_ADDR VIA_EEPROM_LAYOUT_OPTIONS_SIZE 0 s"

fun set_options :: "'s eeprom_dev \<Rightarrow> nat \<Rightarrow> nat \<Rightarrow> u32 \<Rightarrow> 's \<Rightarrow> 's" where
  "set_options d target 0 value s = s"
| "set_options d target (Suc n) value s =
    set_options d (target - 1) n (drop_bit 8 value) (eeprom_update_byte d target (ucast (value AND 0xFF)) s)"

definition via_set_layout_options :: "'s eeprom_dev \<Rightarrow> u32 \<Rightarrow> 's \<Rightarrow> 's" where
  "via_set_layout_options d value s =
    set_options d (VIA_EEPROM_LAYOUT_OPTIONS_ADDR + VIA_EEPROM_LAYOUT_OPTIONS_SIZE - 1)
      VIA_EEPROM_LAYOUT_OPTIONS_SIZE value s"

definition VIA_EEPROM_LAYOUT_OPTIONS_DEFAULT :: u32 where "VIA_EEPROM_LAYOUT_OPTIONS_DEFAULT = 0"

subsection \<open>Initialisation\<close>

definition eeconfig_init_via :: "'s eeprom_dev \<Rightarrow> 's via_env \<Rightarrow> 's \<Rightarrow> 's" where
  "eeconfig_init_via d env s =
    (let s = via_eeprom_set_valid d env False s;
         s = via_set_layout_options d VIA_EEPROM_LAYOUT_OPTIONS_DEFAULT s;
         s = dynamic_keymap_reset d (keymap_layer_count env) (keymap_raw env) s;
         s = dynamic_keymap_macro_reset d s in
     via_eeprom_set_valid d env True s)"

definition via_init :: "'s eeprom_dev \<Rightarrow> 's via_env \<Rightarrow> 's \<Rightarrow> 's" where
  "via_init d env s = (if \<not> via_eeprom_is_valid d env s then eeconfig_init_via d env s else s)"

definition QK_MACRO :: u16 where "QK_MACRO = 0x7700"
definition QK_MACRO_MAX :: u16 where "QK_MACRO_MAX = 0x777F"

text \<open>The result is whether processing goes on, and the macro strings sent.\<close>

definition process_record_via :: "'s eeprom_dev \<Rightarrow> u16 \<Rightarrow> bool \<Rightarrow> 's \<Rightarrow> bool \<times> u8 list list option" where
  "process_record_via d keycode pressed s =
    (if pressed \<and> QK_MACRO \<le> keycode \<and> keycode \<le> QK_MACRO_MAX
     then (False, dynamic_keymap_macro_send d (ucast (keycode - QK_MACRO)) s)
     else (True, Some []))"

subsection \<open>The core configuration\<close>

definition EECONFIG_MAGIC :: nat where "EECONFIG_MAGIC = 0"
definition EECONFIG_DEBUG :: nat where "EECONFIG_DEBUG = 2"
definition EECONFIG_DEFAULT_LAYER :: nat where "EECONFIG_DEFAULT_LAYER = 3"
definition EECONFIG_KEYMAP :: nat where "EECONFIG_KEYMAP = 4"
definition EECONFIG_BACKLIGHT :: nat where "EECONFIG_BACKLIGHT = 6"
definition EECONFIG_AUDIO :: nat where "EECONFIG_AUDIO = 7"
definition EECONFIG_RGBLIGHT :: nat where "EECONFIG_RGBLIGHT = 8"
definition EECONFIG_STENOMODE :: nat where "EECONFIG_STENOMODE = 13"
definition EECONFIG_HANDEDNESS :: nat where "EECONFIG_HANDEDNESS = 14"
definition EECONFIG_KEYBOARD :: nat where "EECONFIG_KEYBOARD = 15"
definition EECONFIG_USER :: nat where "EECONFIG_USER = 19"
definition EECONFIG_VELOCIKEY :: nat where "EECONFIG_VELOCIKEY = 23"
definition EECONFIG_HAPTIC :: nat where "EECONFIG_HAPTIC = 24"
definition EECONFIG_RGB_MATRIX :: nat where "EECONFIG_RGB_MATRIX = 28"
definition EECONFIG_RGB_MATRIX_EXTENDED :: nat where "EECONFIG_RGB_MATRIX_EXTENDED = 32"
definition EECONFIG_MAGIC_NUMBER :: u16 where "EECONFIG_MAGIC_NUMBER = 0xFEE7"
definition EECONFIG_MAGIC_NUMBER_OFF :: u16 where "EECONFIG_MAGIC_NUMBER_OFF = 0xFFFF"

lemmas eeconfig_addresses = EECONFIG_MAGIC_def EECONFIG_DEBUG_def EECONFIG_DEFAULT_LAYER_def EECONFIG_KEYMAP_def
  EECONFIG_BACKLIGHT_def EECONFIG_AUDIO_def EECONFIG_RGBLIGHT_def EECONFIG_STENOMODE_def EECONFIG_HANDEDNESS_def
  EECONFIG_KEYBOARD_def EECONFIG_USER_def EECONFIG_VELOCIKEY_def EECONFIG_HAPTIC_def EECONFIG_RGB_MATRIX_def
  EECONFIG_RGB_MATRIX_EXTENDED_def

definition eeconfig_read_debug :: "'s eeprom_dev \<Rightarrow> 's \<Rightarrow> u8" where
  "eeconfig_read_debug d s = eeprom_read_byte d EECONFIG_DEBUG s"
definition eeconfig_update_debug :: "'s eeprom_dev \<Rightarrow> u8 \<Rightarrow> 's \<Rightarrow> 's" where
  "eeconfig_update_debug d val s = eeprom_update_byte d EECONFIG_DEBUG val s"
definition eeconfig_read_default_layer :: "'s eeprom_dev \<Rightarrow> 's \<Rightarrow> u8" where
  "eeconfig_read_default_layer d s = eeprom_read_byte d EECONFIG_DEFAULT_LAYER s"
definition eeconfig_update_default_layer :: "'s eeprom_dev \<Rightarrow> u8 \<Rightarrow> 's \<Rightarrow> 's" where
  "eeconfig_update_default_layer d val s = eeprom_update_byte d EECONFIG_DEFAULT_LAYER val s"
definition eeconfig_read_keymap :: "'s eeprom_dev \<Rightarrow> 's \<Rightarrow> u16" where
  "eeconfig_read_keymap d s = eeprom_read_word d EECONFIG_KEYMAP s"
definition eeconfig_update_keymap :: "'s eeprom_dev \<Rightarrow> u16 \<Rightarrow> 's \<Rightarrow> 's" where
  "eeconfig_update_keymap d val s = eeprom_update_word d EECONFIG_KEYMAP val s"
definition eeconfig_read_audio :: "'s eeprom_dev \<Rightarrow> 's \<Rightarrow> u8" where
  "eeconfig_read_audio d s = eeprom_read_byte d EECONFIG_AUDIO s"
definition eeconfig_update_audio :: "'s eeprom_dev \<Rightarrow> u8 \<Rightarrow> 's \<Rightarrow> 's" where
  "eeconfig_update_audio d val s = eeprom_update_byte d EECONFIG_AUDIO val s"
definition eeconfig_read_kb :: "'s eeprom_dev \<Rightarrow> 's \<Rightarrow> u32" where
  "eeconfig_read_kb d s = eeprom_read_dword d EECONFIG_KEYBOARD s"
definition eeconfig_update_kb :: "'s eeprom_dev \<Rightarrow> u32 \<Rightarrow> 's \<Rightarrow> 's" where
  "eeconfig_update_kb d val s = eeprom_update_dword d EECONFIG_KEYBOARD val s"
definition eeconfig_read_user :: "'s eeprom_dev \<Rightarrow> 's \<Rightarrow> u32" where
  "eeconfig_read_user d s = eeprom_read_dword d EECONFIG_USER s"
definition eeconfig_update_user :: "'s eeprom_dev \<Rightarrow> u32 \<Rightarrow> 's \<Rightarrow> 's" where
  "eeconfig_update_user d val s = eeprom_update_dword d EECONFIG_USER val s"
definition eeconfig_read_haptic :: "'s eeprom_dev \<Rightarrow> 's \<Rightarrow> u32" where
  "eeconfig_read_haptic d s = eeprom_read_dword d EECONFIG_HAPTIC s"
definition eeconfig_update_haptic :: "'s eeprom_dev \<Rightarrow> u32 \<Rightarrow> 's \<Rightarrow> 's" where
  "eeconfig_update_haptic d val s = eeprom_update_dword d EECONFIG_HAPTIC val s"
definition eeconfig_read_handedness :: "'s eeprom_dev \<Rightarrow> 's \<Rightarrow> bool" where
  "eeconfig_read_handedness d s \<longleftrightarrow> eeprom_read_byte d EECONFIG_HANDEDNESS s \<noteq> 0"
definition eeconfig_update_handedness :: "'s eeprom_dev \<Rightarrow> bool \<Rightarrow> 's \<Rightarrow> 's" where
  "eeconfig_update_handedness d val s = eeprom_update_byte d EECONFIG_HANDEDNESS (if val then 1 else 0) s"

definition eeconfig_init_user :: "'s eeprom_dev \<Rightarrow> 's \<Rightarrow> 's" where
  "eeconfig_init_user d s = eeconfig_update_user d 0 s"

definition eeconfig_init_kb :: "'s eeprom_dev \<Rightarrow> 's \<Rightarrow> 's" where
  "eeconfig_init_kb d s = eeconfig_init_user d (eeconfig_update_kb d 0 s)"

text \<open>The second component is the new \<^verbatim>\<open>default_layer_state\<close>.\<close>

definition eeconfig_init_quantum :: "'s eeprom_dev \<Rightarrow> 's via_env \<Rightarrow> 's \<Rightarrow> 's \<times> layer_state_t" where
  "eeconfig_init_quantum d env s =
    (let s = driver_erase d s;
         s = eeprom_update_word d EECONFIG_MAGIC EECONFIG_MAGIC_NUMBER s;
         s = eeprom_update_byte d EECONFIG_DEBUG 0 s;
         s = eeprom_update_byte d EECONFIG_DEFAULT_LAYER 0 s;
         dls = 0;
         s = eeprom_update_word d EECONFIG_KEYMAP 0x1400 s;
         s = eeprom_update_byte d EECONFIG_BACKLIGHT 0 s;
         s = eeprom_update_byte d EECONFIG_AUDIO 0xFF s;
         s = eeprom_update_dword d EECONFIG_RGBLIGHT 0 s;
         s = eeprom_update_byte d EECONFIG_STENOMODE 0 s;
         s = eeprom_update_dword d EECONFIG_HAPTIC 0 s;
         s = eeprom_update_byte d EECONFIG_VELOCIKEY 0 s;
         s = eeprom_update_dword d EECONFIG_RGB_MATRIX 0 s;
         s = eeprom_update_word d EECONFIG_RGB_MATRIX_EXTENDED 0 s;
         s = eeprom_update_dword d EECONFIG_HAPTIC 0 s;
         s = via_eeprom_set_valid d env False s;
         s = eeconfig_init_via d env s in
     (eeconfig_init_kb d s, dls))"

definition eeconfig_init :: "'s eeprom_dev \<Rightarrow> 's via_env \<Rightarrow> 's \<Rightarrow> 's \<times> layer_state_t" where
  "eeconfig_init d env s = eeconfig_init_quantum d env s"

definition eeconfig_enable :: "'s eeprom_dev \<Rightarrow> 's \<Rightarrow> 's" where
  "eeconfig_enable d s = eeprom_update_word d EECONFIG_MAGIC EECONFIG_MAGIC_NUMBER s"

definition eeconfig_disable :: "'s eeprom_dev \<Rightarrow> 's \<Rightarrow> 's" where
  "eeconfig_disable d s = eeprom_update_word d EECONFIG_MAGIC EECONFIG_MAGIC_NUMBER_OFF (driver_erase d s)"

definition eeconfig_is_enabled :: "'s eeprom_dev \<Rightarrow> 's via_env \<Rightarrow> 's \<Rightarrow> bool" where
  "eeconfig_is_enabled d env s \<longleftrightarrow>
    (if eeprom_read_word d EECONFIG_MAGIC s = EECONFIG_MAGIC_NUMBER then via_eeprom_is_valid d env s else False)"

definition eeconfig_is_disabled :: "'s eeprom_dev \<Rightarrow> 's via_env \<Rightarrow> 's \<Rightarrow> bool" where
  "eeconfig_is_disabled d env s \<longleftrightarrow>
    (if eeprom_read_word d EECONFIG_MAGIC s \<noteq> EECONFIG_MAGIC_NUMBER_OFF then \<not> via_eeprom_is_valid d env s else True)"

subsection \<open>The host protocol\<close>

definition VIA_PROTOCOL_VERSION :: u16 where "VIA_PROTOCOL_VERSION = 0x000C"
definition VIA_FIRMWARE_VERSION :: u32 where "VIA_FIRMWARE_VERSION = 0"
definition id_unhandled :: u8 where "id_unhandled = 0xFF"

definition be32 :: "u32 \<Rightarrow> u8 list" where
  "be32 value = [ucast (drop_bit 24 value AND 0xFF), ucast (drop_bit 16 value AND 0xFF),
    ucast (drop_bit 8 value AND 0xFF), ucast (value AND 0xFF)]"

definition of_be16 :: "u8 \<Rightarrow> u8 \<Rightarrow> u16" where
  "of_be16 hi lo = push_bit 8 (ucast hi) OR ucast lo"

definition via_command_kb :: "'s via_env \<Rightarrow> u8 list \<Rightarrow> 's \<Rightarrow> bool \<times> 's" where
  "via_command_kb env data s =
    (if data ! 0 = 0xAA \<or> data ! 0 = 0xAB then (True, vendor_rx env data s) else (False, s))"

definition via_custom_value_command :: "u8 list \<Rightarrow> u8 list" where
  "via_custom_value_command data = data[0 := id_unhandled]"

definition matrix_state_bytes :: "'s via_env \<Rightarrow> nat \<Rightarrow> u8 list" where
  "matrix_state_bytes env offset =
    (let rows = 28 div ((MATRIX_COLS + 7) div 8) in
     concat (map (\<lambda>row. let value = matrix_get_row env (row + offset) in
         [ucast (drop_bit 8 value AND 0xFF), ucast (value AND 0xFF)])
       (filter (\<lambda>row. row + offset < MATRIX_ROWS) [0..<rows])))"

definition get_keyboard_value :: "'s eeprom_dev \<Rightarrow> 's via_env \<Rightarrow> u8 list \<Rightarrow> 's \<Rightarrow> u8 list" where
  "get_keyboard_value d env data s =
    (if data ! 1 = 0x01 then write_at data 2 (be32 (timer_read32 env))
     else if data ! 1 = 0x02 then write_at data 2 (be32 (via_get_layout_options d s))
     else if data ! 1 = 0x03 then write_at data 3 (matrix_state_bytes env (unat (data ! 2)))
     else if data ! 1 = 0x04 then write_at data 2 (be32 VIA_FIRMWARE_VERSION)
     else data[0 := id_unhandled])"

definition set_keyboard_value :: "'s eeprom_dev \<Rightarrow> u8 list \<Rightarrow> 's \<Rightarrow> u8 list \<times> 's" where
  "set_keyboard_value d data s =
    (if data ! 1 = 0x02 then
       (data, via_set_layout_options d
          (push_bit 24 (ucast (data ! 2)) OR push_bit 16 (ucast (data ! 3)) OR push_bit 8 (ucast (data ! 4)) OR
            ucast (data ! 5)) s)
     else if data ! 1 = 0x05 then (data, s)
     else (data[0 := id_unhandled], s))"

text \<open>
  The command switch on a packet \<open>data\<close> of 32 bytes.  The buffer commands take their size from the
  packet; \<open>write_at\<close> and \<open>take\<close> stay inside the packet, where the C code relies on a size of at most 28.
\<close>

definition via_command :: "'s eeprom_dev \<Rightarrow> 's via_env \<Rightarrow> u8 list \<Rightarrow> 's \<Rightarrow> u8 list \<times> 's" where
  "via_command d env data s =
    (let cmd = data ! 0 in
     if cmd = 0x01 then (data[1 := ucast (drop_bit 8 VIA_PROTOCOL_VERSION), 2 := ucast (VIA_PROTOCOL_VERSION AND 0xFF)], s)
     else if cmd = 0x02 then (get_keyboard_value d env data s, s)
     else if cmd = 0x03 then set_keyboard_value d data s
     else if cmd = 0x04 then
       let keycode = dynamic_keymap_get_keycode d (data ! 1) (data ! 2) (data ! 3) s in
       (data[4 := ucast (drop_bit 8 keycode), 5 := ucast (keycode AND 0xFF)], s)
     else if cmd = 0x05 then
       (data, dynamic_keymap_set_keycode d (data ! 1) (data ! 2) (data ! 3) (of_be16 (data ! 4) (data ! 5)) s)
     else if cmd = 0x06 then (data, dynamic_keymap_reset d (keymap_layer_count env) (keymap_raw env) s)
     else if cmd = 0x07 \<or> cmd = 0x08 \<or> cmd = 0x09 then (via_custom_value_command data, s)
     else if cmd = 0x0C then (data[1 := dynamic_keymap_macro_get_count], s)
     else if cmd = 0x0D then
       (data[1 := ucast (drop_bit 8 dynamic_keymap_macro_get_buffer_size),
             2 := ucast (dynamic_keymap_macro_get_buffer_size AND 0xFF)], s)
     else if cmd = 0x0E then
       (write_at data 4 (dynamic_keymap_macro_get_buffer d (of_be16 (data ! 1) (data ! 2)) (ucast (data ! 3)) s), s)
     else if cmd = 0x0F then
       (data, dynamic_keymap_macro_set_buffer d (of_be16 (data ! 1) (data ! 2)) (take (unat (data ! 3)) (drop 4 data)) s)
     else if cmd = 0x10 then (data, dynamic_keymap_macro_reset d s)
     else if cmd = 0x11 then (data[1 := dynamic_keymap_get_layer_count], s)
     else if cmd = 0x12 then
       (write_at data 4 (dynamic_keymap_get_buffer d (of_be16 (data ! 1) (data ! 2)) (ucast (data ! 3)) s), s)
     else if cmd = 0x13 then
       (data, dynamic_keymap_set_buffer d (of_be16 (data ! 1) (data ! 2)) (take (unat (data ! 3)) (drop 4 data)) s)
     else (data[0 := id_unhandled], s))"

text \<open>The packet handed to \<^verbatim>\<open>raw_hid_send\<close>, if any, and the new EEPROM.\<close>

definition raw_hid_receive :: "'s eeprom_dev \<Rightarrow> 's via_env \<Rightarrow> u8 list \<Rightarrow> 's \<Rightarrow> u8 list option \<times> 's" where
  "raw_hid_receive d env data s =
    (let (handled, s) = via_command_kb env data s in
     if handled then (None, s)
     else let (data, s) = via_command d env data s in (Some data, s))"

subsection \<open>Initialisation as a sequence of byte writes\<close>

definition keycode_writes :: "'s via_env \<Rightarrow> nat \<times> nat \<times> nat \<Rightarrow> (nat \<times> u8) list" where
  "keycode_writes env = (\<lambda>(l, r, c).
    let a = dynamic_keymap_key_to_eeprom_address (of_nat l) (of_nat r) (of_nat c);
        k = (if l < keymap_layer_count env then keymap_raw env (of_nat l) (of_nat r) (of_nat c) else KC_TRANSPARENT) in
    [(a, ucast (drop_bit 8 k)), (a + 1, ucast (k AND 0xFF))])"

definition invalid_writes :: "(nat \<times> u8) list" where
  "invalid_writes = map (\<lambda>i. (VIA_EEPROM_MAGIC_ADDR + i, 0xFF)) [0..<3]"

definition body_writes :: "'s via_env \<Rightarrow> (nat \<times> u8) list" where
  "body_writes env = (VIA_EEPROM_LAYOUT_OPTIONS_ADDR, 0) # concat (map (keycode_writes env) all_keys) @
    map (\<lambda>p. (p, 0)) [DYNAMIC_KEYMAP_MACRO_EEPROM_ADDR ..< macro_end]"

definition valid_writes :: "'s via_env \<Rightarrow> (nat \<times> u8) list" where
  "valid_writes env = map (\<lambda>i. (VIA_EEPROM_MAGIC_ADDR + i, via_magic (QMK_BUILDDATE env) (2 + 3 * i))) [0..<3]"

definition init_via_writes :: "'s via_env \<Rightarrow> (nat \<times> u8) list" where
  "init_via_writes env = invalid_writes @ body_writes env @ valid_writes env"

lemma set_valid_puts:
  "via_eeprom_set_valid d env False s = puts (eeprom_update_byte d) invalid_writes s"
  "via_eeprom_set_valid d env True s = puts (eeprom_update_byte d) (valid_writes env) s"
  by (simp_all add: via_eeprom_set_valid_def invalid_writes_def valid_writes_def upt_3 Let_def numeral_2_eq_2)

lemma in_keymap_all_keys:
  "(l, r, c) \<in> set all_keys \<Longrightarrow> in_keymap (of_nat l) (of_nat r) (of_nat c)"
  by (auto simp: all_keys_def in_keymap_def DYNAMIC_KEYMAP_LAYER_COUNT_def unat_of_nat take_bit_nat_eq_self)

lemma reset_key_puts:
  "k \<in> set all_keys \<Longrightarrow>
    reset_key d (keymap_layer_count env) (keymap_raw env) k s = puts (eeprom_update_byte d) (keycode_writes env k) s"
  using in_keymap_all_keys
  by (cases k) (auto simp: reset_key_def keycode_writes_def dynamic_keymap_set_keycode_def Let_def)

lemma puts_zeros: "fold (\<lambda>p. put p v) ps s = puts put (map (\<lambda>p. (p, v)) ps) s"
  by (induction ps arbitrary: s) auto

lemma eeconfig_init_via_puts:
  "eeconfig_init_via d env s = puts (eeprom_update_byte d) (init_via_writes env) s"
proof -
  have "via_set_layout_options d VIA_EEPROM_LAYOUT_OPTIONS_DEFAULT s = eeprom_update_byte d VIA_EEPROM_LAYOUT_OPTIONS_ADDR 0 s" for s
    by (simp add: via_set_layout_options_def VIA_EEPROM_LAYOUT_OPTIONS_SIZE_def VIA_EEPROM_LAYOUT_OPTIONS_DEFAULT_def)
  moreover have "dynamic_keymap_reset d (keymap_layer_count env) (keymap_raw env) s =
      puts (eeprom_update_byte d) (concat (map (keycode_writes env) all_keys)) s" for s
    unfolding dynamic_keymap_reset_def by (rule puts_concat_map [symmetric]) (rule reset_key_puts)
  ultimately show ?thesis
    by (simp add: eeconfig_init_via_def Let_def set_valid_puts init_via_writes_def body_writes_def puts_append
        dynamic_keymap_macro_reset_def puts_zeros)
qed

text \<open>Addresses and layout of the writes: only the first and the last group touch the magic bytes.\<close>

lemma keycode_writes_bounds:
  assumes "k \<in> set all_keys" "(a, v) \<in> set (keycode_writes env k)"
  shows "DYNAMIC_KEYMAP_EEPROM_ADDR \<le> a \<and> a < DYNAMIC_KEYMAP_MACRO_EEPROM_ADDR"
proof -
  obtain l r c where k: "k = (l, r, c)" by (cases k)
  show ?thesis using key_address_bounds [OF in_keymap_all_keys [OF assms(1) [unfolded k]]] assms(2)
    by (auto simp: k keycode_writes_def Let_def)
qed

lemma body_writes_bounds:
  assumes "(a, v) \<in> set (body_writes env)"
  shows "VIA_EEPROM_LAYOUT_OPTIONS_ADDR \<le> a \<and> a \<le> DYNAMIC_KEYMAP_EEPROM_MAX_ADDR"
proof -
  have e: "macro_end = Suc DYNAMIC_KEYMAP_EEPROM_MAX_ADDR"
    "VIA_EEPROM_LAYOUT_OPTIONS_ADDR \<le> DYNAMIC_KEYMAP_EEPROM_ADDR"
    "DYNAMIC_KEYMAP_EEPROM_ADDR \<le> DYNAMIC_KEYMAP_MACRO_EEPROM_ADDR"
    "DYNAMIC_KEYMAP_MACRO_EEPROM_ADDR \<le> DYNAMIC_KEYMAP_EEPROM_MAX_ADDR"
    by (simp_all add: keymap_layout)
  have "a = VIA_EEPROM_LAYOUT_OPTIONS_ADDR \<or> (\<exists>k \<in> set all_keys. (a, v) \<in> set (keycode_writes env k)) \<or>
      a \<in> {DYNAMIC_KEYMAP_MACRO_EEPROM_ADDR ..< macro_end}"
    using assms unfolding body_writes_def by auto
  then consider "a = VIA_EEPROM_LAYOUT_OPTIONS_ADDR"
    | k where "k \<in> set all_keys" "(a, v) \<in> set (keycode_writes env k)"
    | "DYNAMIC_KEYMAP_MACRO_EEPROM_ADDR \<le> a" "a < macro_end" by auto
  then show ?thesis
  proof cases
    case 2
    then show ?thesis using e keycode_writes_bounds [OF 2] by linarith
  qed (use e in linarith)+
qed

lemma init_writes_ok:
  "(a, v) \<in> set (init_via_writes env) \<Longrightarrow> a \<le> DYNAMIC_KEYMAP_EEPROM_MAX_ADDR"
  using body_writes_bounds [of a v env]
  by (auto simp: init_via_writes_def invalid_writes_def valid_writes_def keymap_layout)

definition builddate_ok :: "u8 list \<Rightarrow> bool" where
  "builddate_ok p \<longleftrightarrow> via_magic p 2 \<noteq> 0xFF \<and> via_magic p 5 \<noteq> 0xFF \<and> via_magic p 8 \<noteq> 0xFF"

lemma map_of_rev_append_None:
  assumes "\<forall>v. (k, v) \<notin> set ys"
  shows "map_of (rev (xs @ ys)) k = map_of (rev xs) k"
proof -
  have "map_of (rev ys) k = None" using assms by (auto simp: map_of_eq_None_iff)
  then show ?thesis by (simp add: map_add_def)
qed

lemma take_invalid_writes:
  assumes "0 < n" "n < 3"
  shows "map_of (rev (take n (invalid_writes @ ws))) VIA_EEPROM_MAGIC_ADDR = Some 0xFF"
proof -
  consider "n = 1" | "n = 2" using assms by linarith
  then show ?thesis by cases (simp_all add: invalid_writes_def upt_3)
qed

context keymap_eeprom
begin

lemma init_byte:
  assumes "dev_ok s" "map_of (rev (take n (init_via_writes env))) a = Some v" "a \<le> DYNAMIC_KEYMAP_EEPROM_MAX_ADDR"
  shows "eeprom_read_byte d a (puts (eeprom_update_byte d) (take n (init_via_writes env)) s) = v"
proof -
  have "\<forall>(k, v) \<in> set (take n (init_via_writes env)). k < size \<and> True"
    using init_writes_ok [of _ _ env] room by (fastforce dest: in_set_takeD)
  then show ?thesis using bytes.get_puts [OF assms(1), of "take n (init_via_writes env)" a] assms(2,3) room by auto
qed

text \<open>Until the last byte is written, the area is marked invalid.\<close>

lemma interrupted_init_invalid:
  assumes ok: "dev_ok s" and bd: "builddate_ok (QMK_BUILDDATE env)"
    and n: "0 < n" "n < length (init_via_writes env)"
  shows "\<not> via_eeprom_is_valid d env (puts (eeprom_update_byte d) (take n (init_via_writes env)) s)"
proof (cases "n < 3")
  case True
  have "map_of (rev (take n (init_via_writes env))) VIA_EEPROM_MAGIC_ADDR = Some 0xFF"
    unfolding init_via_writes_def by (rule take_invalid_writes [OF n(1) True])
  then have "eeprom_read_byte d VIA_EEPROM_MAGIC_ADDR (puts (eeprom_update_byte d) (take n (init_via_writes env)) s) = 0xFF"
    by (rule init_byte [OF ok]) (simp add: keymap_layout)
  then show ?thesis using bd by (simp add: via_eeprom_is_valid_def Let_def builddate_ok_def)
next
  case False
  let ?vs = "valid_writes env" and ?rest = "take (n - 3) (body_writes env @ valid_writes env)"
  have li: "length invalid_writes = 3" "length ?vs = 3" by (simp_all add: invalid_writes_def valid_writes_def)
  have tk: "take n (init_via_writes env) = invalid_writes @ ?rest"
    using False li by (simp add: init_via_writes_def)
  have "n - 3 < length (body_writes env @ ?vs)" using n False li by (simp add: init_via_writes_def)
  then have pre: "\<exists>m < 3. ?rest = take (n - 3) (body_writes env) @ take m ?vs"
    using li by (intro exI [of _ "n - 3 - length (body_writes env)"]) auto
  have "(VIA_EEPROM_MAGIC_ADDR + 2, v) \<notin> set ?rest" for v
  proof
    assume "(VIA_EEPROM_MAGIC_ADDR + 2, v) \<in> set ?rest"
    then consider "(VIA_EEPROM_MAGIC_ADDR + 2, v) \<in> set (body_writes env)"
      | m where "m < 3" "(VIA_EEPROM_MAGIC_ADDR + 2, v) \<in> set (take m ?vs)"
      using pre by (auto dest: in_set_takeD)
    then show False
    proof cases
      case 1
      then show ?thesis using body_writes_bounds [OF 1] by (simp add: VIA_EEPROM_LAYOUT_OPTIONS_ADDR_def)
    next
      case 2
      then have "m = 0 \<or> m = 1 \<or> m = 2" by linarith
      then show ?thesis using 2 by (auto simp: valid_writes_def upt_3)
    qed
  qed
  then have "map_of (rev (take n (init_via_writes env))) (VIA_EEPROM_MAGIC_ADDR + 2) =
      map_of (rev invalid_writes) (VIA_EEPROM_MAGIC_ADDR + 2)"
    unfolding tk by (intro map_of_rev_append_None) simp
  also have "\<dots> = Some 0xFF" by (simp add: invalid_writes_def upt_3)
  finally have "eeprom_read_byte d (VIA_EEPROM_MAGIC_ADDR + 2) (puts (eeprom_update_byte d) (take n (init_via_writes env)) s) = 0xFF"
    by (rule init_byte [OF ok]) (simp add: keymap_layout)
  then show ?thesis using bd by (simp add: via_eeprom_is_valid_def Let_def builddate_ok_def)
qed

lemma set_valid_contents:
  assumes "dev_ok s"
  shows "dev_ok (via_eeprom_set_valid d env v s) \<and> contents (via_eeprom_set_valid d env v s) =
    write_at (contents s) VIA_EEPROM_MAGIC_ADDR
      (if v then [via_magic (QMK_BUILDDATE env) 2, via_magic (QMK_BUILDDATE env) 5, via_magic (QMK_BUILDDATE env) 8]
       else [0xFF, 0xFF, 0xFF])"
proof -
  have "VIA_EEPROM_MAGIC_ADDR < size" "Suc VIA_EEPROM_MAGIC_ADDR < size" "Suc (Suc VIA_EEPROM_MAGIC_ADDR) < size"
    using room by (simp_all add: keymap_layout)
  then show ?thesis using assms by (simp add: via_eeprom_set_valid_def Let_def update_byte_contents numeral_2_eq_2)
qed

lemma set_valid_is_valid:
  assumes "dev_ok s"
  shows "via_eeprom_is_valid d env (via_eeprom_set_valid d env True s)"
proof -
  have b: "VIA_EEPROM_MAGIC_ADDR + 3 \<le> length (contents s)" "VIA_EEPROM_MAGIC_ADDR + 2 < size"
    using room length_contents [OF assms] by (simp_all add: keymap_layout)
  then show ?thesis using set_valid_contents [OF assms, of env True]
    by (simp add: via_eeprom_is_valid_def Let_def read_byte_contents nth_write_at numeral_2_eq_2 del: write_at.simps)
qed

lemma keycode_frame:
  assumes "dev_ok s" "dev_ok s'" "in_keymap l r c"
    "\<And>a. DYNAMIC_KEYMAP_EEPROM_ADDR \<le> a \<Longrightarrow> a < DYNAMIC_KEYMAP_MACRO_EEPROM_ADDR \<Longrightarrow> contents s' ! a = contents s ! a"
  shows "dynamic_keymap_get_keycode d l r c s' = dynamic_keymap_get_keycode d l r c s"
  using assms key_address_bounds [OF assms(3)] by (simp add: get_keycode_contents)

lemma zero_range_contents:
  assumes "dev_ok s" "a + n \<le> size"
  shows "dev_ok (fold (\<lambda>p. eeprom_update_byte d p 0) [a..<a + n] s) \<and>
    contents (fold (\<lambda>p. eeprom_update_byte d p 0) [a..<a + n] s) = write_at (contents s) a (replicate n 0)"
  using assms(2)
proof (induction n)
  case 0
  then show ?case using assms by simp
next
  case (Suc n)
  have "replicate (Suc n) (0 :: u8) = replicate n 0 @ [0]" by (simp add: replicate_append_same)
  then show ?case using Suc update_byte_contents [of "fold (\<lambda>p. eeprom_update_byte d p 0) [a..<a + n] s" "a + n" 0]
    by (simp add: write_at_append del: replicate_Suc)
qed

lemma macro_reset_contents:
  assumes "dev_ok s"
  shows "dev_ok (dynamic_keymap_macro_reset d s) \<and> contents (dynamic_keymap_macro_reset d s) =
    write_at (contents s) DYNAMIC_KEYMAP_MACRO_EEPROM_ADDR (replicate DYNAMIC_KEYMAP_MACRO_EEPROM_SIZE 0)"
  unfolding dynamic_keymap_macro_reset_def
  using room by (intro zero_range_contents [OF assms]) (simp add: keymap_layout)

lemma keymap_reset_ok: "dev_ok s \<Longrightarrow> dev_ok (dynamic_keymap_reset d layers raw s)"
proof -
  have "dev_ok s \<Longrightarrow> set ks \<subseteq> set all_keys \<Longrightarrow> dev_ok (fold (reset_key d layers raw) ks s)" for ks
  proof (induction ks arbitrary: s)
    case (Cons k ks)
    obtain l r c where k: "k = (l, r, c)" by (cases k)
    have "in_keymap (of_nat l) (of_nat r) (of_nat c)" using Cons.prems(2) k by (intro in_keymap_all_keys) auto
    then have "dev_ok (reset_key d layers raw k s)" using Cons.prems(1) by (simp add: k reset_key_def set_keycode_contents)
    then show ?case using Cons by simp
  qed simp
  then show "dev_ok s \<Longrightarrow> dev_ok (dynamic_keymap_reset d layers raw s)" by (simp add: dynamic_keymap_reset_def)
qed

lemma init_via_result:
  assumes "dev_ok s"
  shows "dev_ok (eeconfig_init_via d env s) \<and> via_eeprom_is_valid d env (eeconfig_init_via d env s) \<and>
    read_at (contents (eeconfig_init_via d env s)) DYNAMIC_KEYMAP_MACRO_EEPROM_ADDR DYNAMIC_KEYMAP_MACRO_EEPROM_SIZE =
      replicate DYNAMIC_KEYMAP_MACRO_EEPROM_SIZE 0"
    and "in_keymap l r c \<Longrightarrow> dynamic_keymap_get_keycode d l r c (eeconfig_init_via d env s) =
      (if unat l < keymap_layer_count env then keymap_raw env l r c else KC_TRANSPARENT)"
proof -
  define s1 where "s1 = via_set_layout_options d VIA_EEPROM_LAYOUT_OPTIONS_DEFAULT (via_eeprom_set_valid d env False s)"
  define s2 where "s2 = dynamic_keymap_reset d (keymap_layer_count env) (keymap_raw env) s1"
  define s3 where "s3 = dynamic_keymap_macro_reset d s2"
  have e: "eeconfig_init_via d env s = via_eeprom_set_valid d env True s3"
    by (simp add: eeconfig_init_via_def s1_def s2_def s3_def)
  have s1: "dev_ok s1"
    using set_valid_contents [OF assms, of env False] room
    by (simp add: s1_def via_set_layout_options_def VIA_EEPROM_LAYOUT_OPTIONS_SIZE_def update_byte_contents keymap_layout)
  have s2: "dev_ok s2" using keymap_reset_ok [OF s1] by (simp add: s2_def)
  note m = macro_reset_contents [OF s2, folded s3_def]
  note v = set_valid_contents [of s3 env True, folded e]
  have L: "length (contents s2) = size" "DYNAMIC_KEYMAP_MACRO_EEPROM_ADDR + DYNAMIC_KEYMAP_MACRO_EEPROM_SIZE \<le> size"
    using length_contents s2 room by (auto simp: keymap_layout)
  have a: "VIA_EEPROM_MAGIC_ADDR + 3 \<le> DYNAMIC_KEYMAP_EEPROM_ADDR" "DYNAMIC_KEYMAP_EEPROM_ADDR \<le> DYNAMIC_KEYMAP_MACRO_EEPROM_ADDR"
    by (simp_all add: keymap_layout)
  have "read_at (contents (eeconfig_init_via d env s)) DYNAMIC_KEYMAP_MACRO_EEPROM_ADDR DYNAMIC_KEYMAP_MACRO_EEPROM_SIZE =
      replicate DYNAMIC_KEYMAP_MACRO_EEPROM_SIZE 0"
    using m v L a read_at_write_at_same [of DYNAMIC_KEYMAP_MACRO_EEPROM_ADDR "replicate DYNAMIC_KEYMAP_MACRO_EEPROM_SIZE 0" "contents s2"]
    by (simp add: read_at_write_at_other del: write_at.simps)
  then show "dev_ok (eeconfig_init_via d env s) \<and> via_eeprom_is_valid d env (eeconfig_init_via d env s) \<and>
    read_at (contents (eeconfig_init_via d env s)) DYNAMIC_KEYMAP_MACRO_EEPROM_ADDR DYNAMIC_KEYMAP_MACRO_EEPROM_SIZE =
      replicate DYNAMIC_KEYMAP_MACRO_EEPROM_SIZE 0"
    using m v set_valid_is_valid [of s3 env] e by simp
  assume k: "in_keymap l r c"
  have "dynamic_keymap_get_keycode d l r c (eeconfig_init_via d env s) = dynamic_keymap_get_keycode d l r c s2"
    using m v s2 k L a by (intro keycode_frame) (auto simp: nth_write_at simp del: write_at.simps)
  then show "dynamic_keymap_get_keycode d l r c (eeconfig_init_via d env s) =
      (if unat l < keymap_layer_count env then keymap_raw env l r c else KC_TRANSPARENT)"
    using keymap_reset_keycodes [OF s1 k] by (simp add: s2_def)
qed

text \<open>Setting and getting a key code through packets.\<close>

lemma update_4_5: "(a # b # c # e # f # g # xs)[4 := u, 5 := v] = a # b # c # e # u # v # xs"
  by (simp add: numeral_eq_Suc)

lemma be16_keycode: "of_be16 (ucast (drop_bit 8 k)) (ucast (k AND 0xFF)) = k"
  unfolding of_be16_def by (rule keycode_bytes)

lemma via_set_get_keycode:
  assumes "dev_ok s" "in_keymap l r c" "length rest = 26" "length rest' = 26"
  shows "fst (raw_hid_receive d env (4 # l # r # c # x # y # rest')
      (snd (raw_hid_receive d env (5 # l # r # c # hi # lo # rest) s))) =
    Some (4 # l # r # c # hi # lo # rest')"
proof -
  have hl: "ucast (drop_bit 8 (of_be16 hi lo)) = hi" "ucast (of_be16 hi lo AND 0xFF) = lo"
  proof -
    have m: "(0xFF :: u16) = mask 8" by (simp add: mask_eq_exp_minus_1)
    show "ucast (drop_bit 8 (of_be16 hi lo)) = hi"
      by (rule bit_word_eqI) (auto simp: of_be16_def bit_simps dest: bit_u8_less)
    show "ucast (of_be16 hi lo AND 0xFF) = lo"
      unfolding m by (rule bit_word_eqI) (auto simp: of_be16_def bit_simps)
  qed
  have "snd (raw_hid_receive d env (5 # l # r # c # hi # lo # rest) s) = dynamic_keymap_set_keycode d l r c (of_be16 hi lo) s"
    by (simp add: raw_hid_receive_def via_command_kb_def via_command_def Let_def)
  moreover have "fst (raw_hid_receive d env (4 # l # r # c # x # y # rest') t) =
      Some (4 # l # r # c # ucast (drop_bit 8 (dynamic_keymap_get_keycode d l r c t)) #
        ucast (dynamic_keymap_get_keycode d l r c t AND 0xFF) # rest')" for t
    by (simp add: raw_hid_receive_def via_command_kb_def via_command_def Let_def update_4_5)
  ultimately show ?thesis using get_set_keycode_same [OF assms(1,2)] hl by simp
qed

end

subsection \<open>Properties\<close>

definition demo_env :: "mock_flash fee via_env" where
  "demo_env = \<lparr>QMK_BUILDDATE = map of_char ''2023-05-17-12:00:00'', keymap_layer_count = 4,
    keymap_raw = (\<lambda>l r c. 7), timer_read32 = 0, matrix_get_row = (\<lambda>_. 0), vendor_rx = (\<lambda>_ s. s)\<rparr>"

lemma demo_builddate: "builddate_ok (QMK_BUILDDATE demo_env)"
  by (simp add: demo_env_def builddate_ok_def via_magic_def)

text \<open>C12: The initialisation of the VIA area is a sequence of byte writes, and if it is cut short after
  any of them but the last, the area is recognised as invalid, so the next start initialises it again.\<close>
theorem interrupted_init_is_detected:
  assumes "keymap_eeprom d dev_ok n contents read_ok" "dev_ok s" "builddate_ok (QMK_BUILDDATE env)"
  shows "eeconfig_init_via d env s = puts (eeprom_update_byte d) (init_via_writes env) s \<and>
    (\<forall>m. 0 < m \<and> m < length (init_via_writes env) \<longrightarrow>
      \<not> via_eeprom_is_valid d env (puts (eeprom_update_byte d) (take m (init_via_writes env)) s))"
proof (intro conjI allI impI)
  show "eeconfig_init_via d env s = puts (eeprom_update_byte d) (init_via_writes env) s"
    by (rule eeconfig_init_via_puts)
  fix m assume "0 < m \<and> m < length (init_via_writes env)"
  then show "\<not> via_eeprom_is_valid d env (puts (eeprom_update_byte d) (take m (init_via_writes env)) s)"
    by (intro keymap_eeprom.interrupted_init_invalid [OF assms]) auto
qed

theorem interrupted_init_is_detected_witness:
  "\<not> via_eeprom_is_valid (l4_dev mock_ops) demo_env
    (puts (eeprom_update_byte (l4_dev mock_ops)) (take 4 (init_via_writes demo_env)) fresh_fee)"
proof -
  have "4 < length (init_via_writes demo_env)"
    by (simp add: init_via_writes_def invalid_writes_def valid_writes_def body_writes_def)
  then show ?thesis
    using interrupted_init_is_detected [OF mock_keymap_eeprom fresh_fee_inv demo_builddate] by simp
qed

text \<open>After the initialisation the area is valid, every key has its compiled-in key code
  (transparent where the firmware has no layer), and the macro buffer is empty.\<close>
lemma init_via_restores_defaults:
  assumes "keymap_eeprom d dev_ok n contents read_ok" "dev_ok s"
  shows "dev_ok (eeconfig_init_via d env s) \<and> via_eeprom_is_valid d env (eeconfig_init_via d env s) \<and>
    read_at (contents (eeconfig_init_via d env s)) DYNAMIC_KEYMAP_MACRO_EEPROM_ADDR DYNAMIC_KEYMAP_MACRO_EEPROM_SIZE =
      replicate DYNAMIC_KEYMAP_MACRO_EEPROM_SIZE 0 \<and>
    (\<forall>l r c. in_keymap l r c \<longrightarrow> dynamic_keymap_get_keycode d l r c (eeconfig_init_via d env s) =
      (if unat l < keymap_layer_count env then keymap_raw env l r c else KC_TRANSPARENT))"
  using keymap_eeprom.init_via_result [OF assms] by blast

text \<open>Over the host protocol, a set-keycode packet followed by a get-keycode packet for the same
  key is answered with the key code that was set.\<close>
lemma via_keycode_roundtrip:
  assumes "keymap_eeprom d dev_ok n contents read_ok" "dev_ok s" "in_keymap l r c" "length rest = 26" "length rest' = 26"
  shows "fst (raw_hid_receive d env (4 # l # r # c # x # y # rest')
      (snd (raw_hid_receive d env (5 # l # r # c # hi # lo # rest) s))) =
    Some (4 # l # r # c # hi # lo # rest')"
  using keymap_eeprom.via_set_get_keycode [OF assms] .

context nor_flash
begin

lemma read_kb_after_write:
  assumes "fee_inv fl wf s"
  shows "eeconfig_read_kb (l4_dev fl) (eeprom_write_dword (l4_dev fl) EECONFIG_KEYBOARD v s) =
    le_word [le_bytes 4 v ! 0, le_bytes 4 v ! 0, le_bytes 4 v ! 1, le_bytes 4 v ! 2]"
proof -
  let ?s = "eeprom_write_dword (l4_dev fl) EECONFIG_KEYBOARD v s"
  have w: "fee_inv fl wf ?s" "DataBuf ?s = write_at (DataBuf s) 15 (le_bytes 4 v)"
    using l4.write_dword_contents [OF assms, of 15 v] by (simp_all add: EECONFIG_KEYBOARD_def fee_layout)
  have l: "length (DataBuf ?s) = FEE_DENSITY_BYTES" "length (DataBuf s) = FEE_DENSITY_BYTES"
    using fee_inv_length w(1) assms by auto
  have "eeprom_read_block 15 4 ?s = [DataBuf ?s ! 15, DataBuf ?s ! 15, DataBuf ?s ! 16, DataBuf ?s ! 17]"
    using odd_read4 [OF l(1), of 15] by (simp add: fee_layout)
  then show ?thesis
    using l(2) by (simp add: eeconfig_read_kb_def eeprom_read_dword_def l4_dev_def EECONFIG_KEYBOARD_def
        w(2) [unfolded l4_dev_def EECONFIG_KEYBOARD_def] nth_write_at fee_layout del: write_at.simps)
qed

end

text \<open>The keyboard's configuration word is stored at the odd address 15, where the block read of the
  STM32L432 driver repeats the first byte: a value that was written is read back with its first byte
  doubled and its last byte lost.\<close>
lemma eeconfig_kb_read_is_shifted:
  assumes "nor_flash fl dev_ok ready" "fee_inv fl dev_ok s"
  shows "eeconfig_read_kb (l4_dev fl) (eeprom_write_dword (l4_dev fl) EECONFIG_KEYBOARD v s) =
    le_word [le_bytes 4 v ! 0, le_bytes 4 v ! 0, le_bytes 4 v ! 1, le_bytes 4 v ! 2]"
  using nor_flash.read_kb_after_write [OF assms] .

end
