(* ===== verification/Qmk_Wear_Leveling.thy ===== *)
theory Qmk_Wear_Leveling
  imports Qmk_Flash
begin

text \<open>
  The wear-leveling EEPROM emulation (\<^verbatim>\<open>quantum/wear_leveling/wear_leveling.c\<close> and its internal header),
  in the variant with two-byte writes, the only one with the optimised log entries.  The backing store
  is a parameter: a record of operations over a store state, each returning whether it succeeded.
  Sizes are fields of that record.  Addresses in the backing store are natural numbers: they start at
  the end of the consolidated area, grow by two and stop at the backing size, so the 32-bit variable
  does not wrap; the logical address and length that the caller supplies keep their 32 bits.
\<close>

subsection \<open>Checksum\<close>

definition FNV1A_64_INIT :: u64 where "FNV1A_64_INIT = 0xcbf29ce484222325"
definition FNV_64_PRIME :: u64 where "FNV_64_PRIME = 0x100000001b3"

fun fnv_64a_buf :: "u8 list \<Rightarrow> u64 \<Rightarrow> u64" where
  "fnv_64a_buf [] hval = hval"
| "fnv_64a_buf (b # bs) hval =
    (let hval = hval XOR ucast b;
         hval = hval + (push_bit 1 hval + push_bit 4 hval + push_bit 5 hval + push_bit 7 hval + push_bit 8 hval + push_bit 40 hval)
     in fnv_64a_buf bs hval)"

subsection \<open>Log entries\<close>

type_synonym log_entry = "u8 list"

definition raw16 :: "log_entry \<Rightarrow> nat \<Rightarrow> u16" where
  "raw16 entry i = le_word (read_at entry (2 * i) 2)"

definition set_raw16 :: "log_entry \<Rightarrow> nat \<Rightarrow> u16 \<Rightarrow> log_entry" where
  "set_raw16 entry i v = write_at entry (2 * i) (le_bytes 2 v)"

definition LOG_ENTRY_TYPE_MULTIBYTE :: u8 where "LOG_ENTRY_TYPE_MULTIBYTE = 0"
definition LOG_ENTRY_TYPE_OPTIMIZED_64 :: u8 where "LOG_ENTRY_TYPE_OPTIMIZED_64 = 1"
definition LOG_ENTRY_TYPE_WORD_01 :: u8 where "LOG_ENTRY_TYPE_WORD_01 = 2"
definition LOG_ENTRY_MULTIBYTE_MAX_BYTES :: nat where "LOG_ENTRY_MULTIBYTE_MAX_BYTES = 5"

definition LOG_ENTRY_GET_TYPE :: "log_entry \<Rightarrow> u8" where
  "LOG_ENTRY_GET_TYPE entry = drop_bit 6 (entry ! 0) AND mask 2"

definition LOG_ENTRY_MULTIBYTE_GET_ADDRESS :: "log_entry \<Rightarrow> u32" where
  "LOG_ENTRY_MULTIBYTE_GET_ADDRESS entry =
    push_bit 16 (ucast (entry ! 0) AND mask 3) OR push_bit 8 (ucast (entry ! 1)) OR ucast (entry ! 2)"

definition LOG_ENTRY_MULTIBYTE_GET_LENGTH :: "log_entry \<Rightarrow> u8" where
  "LOG_ENTRY_MULTIBYTE_GET_LENGTH entry = drop_bit 3 (entry ! 0) AND mask 3"

definition LOG_ENTRY_MAKE_MULTIBYTE :: "u32 \<Rightarrow> nat \<Rightarrow> log_entry" where
  "LOG_ENTRY_MAKE_MULTIBYTE address len =
    [push_bit 6 (LOG_ENTRY_TYPE_MULTIBYTE AND mask 2) OR push_bit 3 (of_nat len AND mask 3) OR
       (ucast (drop_bit 16 address) AND mask 3),
     ucast (drop_bit 8 address), ucast address, 0, 0, 0, 0, 0]"

definition LOG_ENTRY_OPTIMIZED_64_GET_ADDRESS :: "log_entry \<Rightarrow> u32" where
  "LOG_ENTRY_OPTIMIZED_64_GET_ADDRESS entry = ucast (entry ! 0 AND mask 6)"

definition LOG_ENTRY_OPTIMIZED_64_GET_VALUE :: "log_entry \<Rightarrow> u8" where
  "LOG_ENTRY_OPTIMIZED_64_GET_VALUE entry = entry ! 1"

definition LOG_ENTRY_MAKE_OPTIMIZED_64 :: "u32 \<Rightarrow> u8 \<Rightarrow> log_entry" where
  "LOG_ENTRY_MAKE_OPTIMIZED_64 address value =
    [push_bit 6 (LOG_ENTRY_TYPE_OPTIMIZED_64 AND mask 2) OR (ucast address AND mask 6), value, 0, 0, 0, 0, 0, 0]"

definition LOG_ENTRY_WORD_01_GET_ADDRESS :: "log_entry \<Rightarrow> u32" where
  "LOG_ENTRY_WORD_01_GET_ADDRESS entry = push_bit 9 (ucast (entry ! 0 AND mask 5)) OR push_bit 1 (ucast (entry ! 1))"

definition LOG_ENTRY_WORD_01_GET_VALUE :: "log_entry \<Rightarrow> u8" where
  "LOG_ENTRY_WORD_01_GET_VALUE entry = drop_bit 5 (entry ! 0) AND mask 1"

definition LOG_ENTRY_MAKE_WORD_01 :: "u32 \<Rightarrow> u16 \<Rightarrow> log_entry" where
  "LOG_ENTRY_MAKE_WORD_01 address value =
    [push_bit 6 (LOG_ENTRY_TYPE_WORD_01 AND mask 2) OR push_bit 5 ((if value \<noteq> 0 then 1 else 0) AND mask 1) OR
       (ucast (drop_bit 9 address) AND mask 5),
     ucast (drop_bit 1 address), 0, 0, 0, 0, 0, 0]"

subsection \<open>State and backing store\<close>

datatype wear_leveling_status_t = WEAR_LEVELING_FAILED | WEAR_LEVELING_SUCCESS | WEAR_LEVELING_CONSOLIDATED
datatype backing_store_lock_status_t = STATUS_FAILURE | STATUS_SUCCESS | STATUS_UNCHANGED

text \<open>\<open>stack_entry\<close> is what an uninitialised \<^verbatim>\<open>write_log_entry_t\<close> holds.\<close>

record 'b backing_store =
  WEAR_LEVELING_LOGICAL_SIZE :: nat
  WEAR_LEVELING_BACKING_SIZE :: nat
  backing_store_init :: "'b \<Rightarrow> bool \<times> 'b"
  backing_store_unlock :: "'b \<Rightarrow> bool \<times> 'b"
  backing_store_lock :: "'b \<Rightarrow> bool \<times> 'b"
  backing_store_erase :: "'b \<Rightarrow> bool \<times> 'b"
  backing_store_write :: "nat \<Rightarrow> u16 \<Rightarrow> 'b \<Rightarrow> bool \<times> 'b"
  backing_store_read :: "nat \<Rightarrow> 'b \<Rightarrow> u16 option"
  stack_entry :: log_entry

record 'b wear_leveling =
  cache :: "u8 list"
  write_address :: nat
  unlocked :: bool
  backing :: 'b

text \<open>Bulk access stops at the first failure; the buffer keeps what was read so far.\<close>

fun backing_store_read_bulk :: "'b backing_store \<Rightarrow> nat \<Rightarrow> u16 list \<Rightarrow> 'b \<Rightarrow> bool \<times> u16 list" where
  "backing_store_read_bulk bs address [] b = (True, [])"
| "backing_store_read_bulk bs address (v # values) b =
    (case backing_store_read bs address b of
       None \<Rightarrow> (False, v # values)
     | Some w \<Rightarrow> (let (ok, rest) = backing_store_read_bulk bs (address + 2) values b in (ok, w # rest)))"

fun backing_store_write_bulk :: "'b backing_store \<Rightarrow> nat \<Rightarrow> u16 list \<Rightarrow> 'b \<Rightarrow> bool \<times> 'b" where
  "backing_store_write_bulk bs address [] b = (True, b)"
| "backing_store_write_bulk bs address (v # values) b =
    (let (ok, b) = backing_store_write bs address v b in
     if \<not> ok then (False, b) else backing_store_write_bulk bs (address + 2) values b)"

fun halfwords :: "u8 list \<Rightarrow> u16 list" where
  "halfwords (a # b # bs) = le_word [a, b] # halfwords bs"
| "halfwords _ = []"

definition unhalfwords :: "u16 list \<Rightarrow> u8 list" where
  "unhalfwords ws = concat (map (le_bytes 2) ws)"

subsection \<open>Locking, cache, consolidation\<close>

definition wear_leveling_unlock :: "'b backing_store \<Rightarrow> 'b wear_leveling \<Rightarrow> backing_store_lock_status_t \<times> 'b wear_leveling" where
  "wear_leveling_unlock bs s =
    (if unlocked s then (STATUS_UNCHANGED, s)
     else let (ok, b) = backing_store_unlock bs (backing s); s = s\<lparr>backing := b\<rparr> in
       if \<not> ok then (STATUS_FAILURE, s) else (STATUS_SUCCESS, s\<lparr>unlocked := True\<rparr>))"

definition wear_leveling_lock :: "'b backing_store \<Rightarrow> 'b wear_leveling \<Rightarrow> backing_store_lock_status_t \<times> 'b wear_leveling" where
  "wear_leveling_lock bs s =
    (if \<not> unlocked s then (STATUS_UNCHANGED, s)
     else let (ok, b) = backing_store_lock bs (backing s); s = s\<lparr>backing := b\<rparr> in
       if \<not> ok then (STATUS_FAILURE, s) else (STATUS_SUCCESS, s\<lparr>unlocked := False\<rparr>))"

definition wear_leveling_clear_cache :: "'b backing_store \<Rightarrow> 'b wear_leveling \<Rightarrow> 'b wear_leveling" where
  "wear_leveling_clear_cache bs s =
    s\<lparr>cache := replicate (WEAR_LEVELING_LOGICAL_SIZE bs) 0, write_address := WEAR_LEVELING_LOGICAL_SIZE bs + 8\<rparr>"

definition wear_leveling_read_consolidated :: "'b backing_store \<Rightarrow> 'b wear_leveling \<Rightarrow> wear_leveling_status_t \<times> 'b wear_leveling" where
  "wear_leveling_read_consolidated bs s =
    (let (ok, values) = backing_store_read_bulk bs 0 (halfwords (cache s)) (backing s);
         s = s\<lparr>cache := unhalfwords values\<rparr> in
     if \<not> ok then (WEAR_LEVELING_FAILED, wear_leveling_clear_cache bs s)
     else let expected = fnv_64a_buf (cache s) FNV1A_64_INIT;
              (_, entry) = backing_store_read_bulk bs (WEAR_LEVELING_LOGICAL_SIZE bs) (halfwords (stack_entry bs)) (backing s) in
       if (le_word (unhalfwords entry) :: u64) = expected then (WEAR_LEVELING_SUCCESS, s)
       else (WEAR_LEVELING_SUCCESS, wear_leveling_clear_cache bs s))"

definition wear_leveling_write_consolidated :: "'b backing_store \<Rightarrow> 'b wear_leveling \<Rightarrow> wear_leveling_status_t \<times> 'b wear_leveling" where
  "wear_leveling_write_consolidated bs s =
    (let (lock_status, s) = wear_leveling_unlock bs s;
         (ok, b) = backing_store_write_bulk bs 0 (halfwords (cache s)) (backing s);
         s = s\<lparr>backing := b\<rparr>;
         (status, s) =
           (if \<not> ok then (WEAR_LEVELING_FAILED, s)
            else let entry = le_bytes 8 (fnv_64a_buf (cache s) FNV1A_64_INIT);
                     (ok, b) = backing_store_write_bulk bs (WEAR_LEVELING_LOGICAL_SIZE bs) (halfwords entry) (backing s) in
              (if \<not> ok then WEAR_LEVELING_FAILED else WEAR_LEVELING_CONSOLIDATED, s\<lparr>backing := b\<rparr>)) in
     (status, if lock_status = STATUS_SUCCESS then snd (wear_leveling_lock bs s) else s))"

definition wear_leveling_consolidate_force :: "'b backing_store \<Rightarrow> 'b wear_leveling \<Rightarrow> wear_leveling_status_t \<times> 'b wear_leveling" where
  "wear_leveling_consolidate_force bs s =
    (let (ok, b) = backing_store_erase bs (backing s); s = s\<lparr>backing := b\<rparr> in
     if \<not> ok then (WEAR_LEVELING_FAILED, s)
     else let (status, s) = wear_leveling_write_consolidated bs s in
       (status, s\<lparr>write_address := WEAR_LEVELING_LOGICAL_SIZE bs + 8\<rparr>))"

definition wear_leveling_consolidate_if_needed :: "'b backing_store \<Rightarrow> 'b wear_leveling \<Rightarrow> wear_leveling_status_t \<times> 'b wear_leveling" where
  "wear_leveling_consolidate_if_needed bs s =
    (if WEAR_LEVELING_BACKING_SIZE bs \<le> write_address s then wear_leveling_consolidate_force bs s
     else (WEAR_LEVELING_SUCCESS, s))"

subsection \<open>Writing the log\<close>

definition wear_leveling_append_raw :: "'b backing_store \<Rightarrow> u16 \<Rightarrow> 'b wear_leveling \<Rightarrow> wear_leveling_status_t \<times> 'b wear_leveling" where
  "wear_leveling_append_raw bs value s =
    (let (ok, b) = backing_store_write bs (write_address s) value (backing s); s = s\<lparr>backing := b\<rparr> in
     if \<not> ok then (WEAR_LEVELING_FAILED, s)
     else wear_leveling_consolidate_if_needed bs (s\<lparr>write_address := write_address s + 2\<rparr>))"

text \<open>The sequence of appends with a return after the first status other than success.\<close>

fun append_all :: "'b backing_store \<Rightarrow> u16 list \<Rightarrow> 'b wear_leveling \<Rightarrow> wear_leveling_status_t \<times> 'b wear_leveling" where
  "append_all bs [] s = (WEAR_LEVELING_SUCCESS, s)"
| "append_all bs (v # vs) s =
    (let (status, s) = wear_leveling_append_raw bs v s in
     if status \<noteq> WEAR_LEVELING_SUCCESS then (status, s) else append_all bs vs s)"

definition wear_leveling_write_raw_multibyte ::
  "'b backing_store \<Rightarrow> u32 \<Rightarrow> u8 list \<Rightarrow> 'b wear_leveling \<Rightarrow> wear_leveling_status_t \<times> 'b wear_leveling" where
  "wear_leveling_write_raw_multibyte bs address p s =
    (let log = write_at (LOG_ENTRY_MAKE_MULTIBYTE address (length p)) 3 p in
     append_all bs ([raw16 log 0, raw16 log 1] @ (if 1 < length p then [raw16 log 2] else []) @
       (if 3 < length p then [raw16 log 3] else [])) s)"

function wear_leveling_write_raw ::
  "'b backing_store \<Rightarrow> u32 \<Rightarrow> u8 list \<Rightarrow> 'b wear_leveling \<Rightarrow> wear_leveling_status_t \<times> 'b wear_leveling" where
  "wear_leveling_write_raw bs address p s =
    (if p = [] then (WEAR_LEVELING_SUCCESS, s)
     else if 2 \<le> length p \<and> address mod 2 = 0 \<and> address < 16384 \<and>
         ((le_word (take 2 p) :: u16) = 0 \<or> (le_word (take 2 p) :: u16) = 1) then
       let (status, s) = wear_leveling_append_raw bs (raw16 (LOG_ENTRY_MAKE_WORD_01 address (le_word (take 2 p))) 0) s in
       if status \<noteq> WEAR_LEVELING_SUCCESS then (status, s)
       else wear_leveling_write_raw bs (address + 2) (drop 2 p) s
     else if address < 64 then
       let (status, s) = wear_leveling_append_raw bs (raw16 (LOG_ENTRY_MAKE_OPTIMIZED_64 address (hd p)) 0) s in
       if status \<noteq> WEAR_LEVELING_SUCCESS then (status, s)
       else wear_leveling_write_raw bs (address + 1) (drop 1 p) s
     else
       let this_length = (if LOG_ENTRY_MULTIBYTE_MAX_BYTES \<le> length p then LOG_ENTRY_MULTIBYTE_MAX_BYTES else length p);
           (status, s) = wear_leveling_write_raw_multibyte bs address (take this_length p) s in
       if status \<noteq> WEAR_LEVELING_SUCCESS then (status, s)
       else wear_leveling_write_raw bs (address + of_nat this_length) (drop this_length p) s)"
  by pat_completeness auto
termination
  by (relation "measure (\<lambda>(bs, address, p, s). length p)") (auto simp: LOG_ENTRY_MULTIBYTE_MAX_BYTES_def)

declare wear_leveling_write_raw.simps [simp del]

subsection \<open>Playback\<close>

text \<open>
  The body of the playback loop after a non-zero half-word was read: \<open>address\<close> is behind it.  The flag
  says whether playback goes on.  The bytes of the entry that were not read are those of the
  uninitialised variable; the length of a multi-byte entry is not checked, so a corrupt length of
  more than five copies only what the entry has, where the C code reads behind it.
\<close>

definition playback_multibyte ::
  "'b backing_store \<Rightarrow> nat \<Rightarrow> log_entry \<Rightarrow> 'b wear_leveling \<Rightarrow> bool \<times> nat \<times> 'b wear_leveling" where
  "playback_multibyte bs address log s =
    (case backing_store_read bs address (backing s) of
       None \<Rightarrow> (False, address, s)
     | Some v1 \<Rightarrow>
       let log = set_raw16 log 1 v1; address = address + 2;
           a = LOG_ENTRY_MULTIBYTE_GET_ADDRESS log; l = LOG_ENTRY_MULTIBYTE_GET_LENGTH log in
       if WEAR_LEVELING_LOGICAL_SIZE bs < unat a + unat l then (False, address, s)
       else
         (case (if 1 < l then backing_store_read bs address (backing s) else Some (raw16 log 2)) of
            None \<Rightarrow> (False, address, s)
          | Some v2 \<Rightarrow>
            let address = (if 1 < l then address + 2 else address); log = set_raw16 log 2 v2 in
            (case (if 3 < l then backing_store_read bs address (backing s) else Some (raw16 log 3)) of
               None \<Rightarrow> (False, address, s)
             | Some v3 \<Rightarrow>
               let address = (if 3 < l then address + 2 else address); log = set_raw16 log 3 v3 in
               (True, address, s\<lparr>cache := write_at (cache s) (unat a) (read_at log 3 (unat l))\<rparr>))))"

definition playback_entry :: "'b backing_store \<Rightarrow> nat \<Rightarrow> u16 \<Rightarrow> 'b wear_leveling \<Rightarrow> bool \<times> nat \<times> 'b wear_leveling" where
  "playback_entry bs address value s =
    (let log = set_raw16 (stack_entry bs) 0 value in
     if LOG_ENTRY_GET_TYPE log = LOG_ENTRY_TYPE_MULTIBYTE then playback_multibyte bs address log s
     else if LOG_ENTRY_GET_TYPE log = LOG_ENTRY_TYPE_OPTIMIZED_64 then
       let a = LOG_ENTRY_OPTIMIZED_64_GET_ADDRESS log; v = LOG_ENTRY_OPTIMIZED_64_GET_VALUE log in
       if WEAR_LEVELING_LOGICAL_SIZE bs \<le> unat a then (False, address, s)
       else (True, address, s\<lparr>cache := (cache s)[unat a := v]\<rparr>)
     else if LOG_ENTRY_GET_TYPE log = LOG_ENTRY_TYPE_WORD_01 then
       let a = LOG_ENTRY_WORD_01_GET_ADDRESS log; v = LOG_ENTRY_WORD_01_GET_VALUE log in
       if WEAR_LEVELING_LOGICAL_SIZE bs \<le> unat a + 1 then (False, address, s)
       else (True, address, s\<lparr>cache := (cache s)[unat a := v, unat a + 1 := 0]\<rparr>)
     else (False, address, s))"

lemma playback_multibyte_address: "address \<le> fst (snd (playback_multibyte bs address log s))"
  by (auto simp: playback_multibyte_def Let_def split: option.splits)

lemma playback_entry_address: "address \<le> fst (snd (playback_entry bs address value s))"
  by (auto simp: playback_entry_def Let_def playback_multibyte_address)

text \<open>The loop returns whether playback succeeded, the next write address, and the state.\<close>

function playback_loop :: "'b backing_store \<Rightarrow> nat \<Rightarrow> 'b wear_leveling \<Rightarrow> bool \<times> nat \<times> 'b wear_leveling" where
  "playback_loop bs address s =
    (if address < WEAR_LEVELING_BACKING_SIZE bs then
       case backing_store_read bs address (backing s) of
         None \<Rightarrow> (False, address, s)
       | Some value \<Rightarrow>
           if value = 0 then (True, address, s)
           else if fst (playback_entry bs (address + 2) value s)
             then playback_loop bs (fst (snd (playback_entry bs (address + 2) value s)))
               (snd (snd (playback_entry bs (address + 2) value s)))
             else playback_entry bs (address + 2) value s
     else (True, address, s))"
  by pat_completeness auto
termination
  apply (relation "measure (\<lambda>(bs, address, s). WEAR_LEVELING_BACKING_SIZE bs - address)")
   apply simp
  subgoal for bs address s v
    using playback_entry_address [of "address + 2" bs v s] by (auto simp: split_beta)
  done

declare playback_loop.simps [simp del]

definition wear_leveling_playback_log :: "'b backing_store \<Rightarrow> 'b wear_leveling \<Rightarrow> wear_leveling_status_t \<times> 'b wear_leveling" where
  "wear_leveling_playback_log bs s =
    (let (ok, address, s) = playback_loop bs (WEAR_LEVELING_LOGICAL_SIZE bs + 8) s;
         s = s\<lparr>write_address := address\<rparr> in
     if \<not> ok then wear_leveling_consolidate_force bs s else wear_leveling_consolidate_if_needed bs s)"

subsection \<open>The interface\<close>

definition wear_leveling_init :: "'b backing_store \<Rightarrow> 'b wear_leveling \<Rightarrow> wear_leveling_status_t \<times> 'b wear_leveling" where
  "wear_leveling_init bs s =
    (let s = wear_leveling_clear_cache bs s;
         (ok, b) = backing_store_init bs (backing s); s = s\<lparr>backing := b\<rparr> in
     if \<not> ok then (WEAR_LEVELING_FAILED, wear_leveling_clear_cache bs s)
     else let (status, s) = wear_leveling_read_consolidated bs s in
       if status = WEAR_LEVELING_FAILED then (status, wear_leveling_clear_cache bs s)
       else let (status, s) = wear_leveling_playback_log bs s in
         if status = WEAR_LEVELING_FAILED then (status, wear_leveling_clear_cache bs s) else (status, s))"

definition wear_leveling_erase :: "'b backing_store \<Rightarrow> 'b wear_leveling \<Rightarrow> wear_leveling_status_t \<times> 'b wear_leveling" where
  "wear_leveling_erase bs s =
    (let (lock_status, s) = wear_leveling_unlock bs s in
     if lock_status = STATUS_FAILURE then (WEAR_LEVELING_FAILED, snd (wear_leveling_lock bs s))
     else let (ret, b) = backing_store_erase bs (backing s);
              s = wear_leveling_clear_cache bs (s\<lparr>backing := b\<rparr>);
              (ret, s) = (if lock_status = STATUS_SUCCESS
                then let (l, s) = wear_leveling_lock bs s in (ret \<and> l \<noteq> STATUS_FAILURE, s) else (ret, s)) in
       (if ret then WEAR_LEVELING_SUCCESS else WEAR_LEVELING_FAILED, s))"

definition out_of_range :: "'b backing_store \<Rightarrow> u32 \<Rightarrow> nat \<Rightarrow> bool" where
  "out_of_range bs address len \<longleftrightarrow> WEAR_LEVELING_LOGICAL_SIZE bs < unat (address + of_nat len)"

definition wear_leveling_write ::
  "'b backing_store \<Rightarrow> u32 \<Rightarrow> u8 list \<Rightarrow> 'b wear_leveling \<Rightarrow> wear_leveling_status_t \<times> 'b wear_leveling" where
  "wear_leveling_write bs address value s =
    (if out_of_range bs address (length value) then (WEAR_LEVELING_FAILED, s)
     else if read_at (cache s) (unat address) (length value) = value then (WEAR_LEVELING_SUCCESS, s)
     else let s = s\<lparr>cache := write_at (cache s) (unat address) value\<rparr>;
              (lock_status, s) = wear_leveling_unlock bs s in
       if lock_status = STATUS_FAILURE then (WEAR_LEVELING_FAILED, snd (wear_leveling_lock bs s))
       else let (status, s) = wear_leveling_write_raw bs address value s;
                (status, s) = (if status = WEAR_LEVELING_SUCCESS then wear_leveling_consolidate_if_needed bs s else (status, s)) in
         if lock_status = STATUS_SUCCESS then
           let (l, s) = wear_leveling_lock bs s in (if l = STATUS_FAILURE then WEAR_LEVELING_FAILED else status, s)
         else (status, s))"

text \<open>A failed read leaves the destination buffer \<open>buf\<close> as it is.\<close>

definition wear_leveling_read :: "'b backing_store \<Rightarrow> u32 \<Rightarrow> u8 list \<Rightarrow> 'b wear_leveling \<Rightarrow> wear_leveling_status_t \<times> u8 list" where
  "wear_leveling_read bs address buf s =
    (if out_of_range bs address (length buf) then (WEAR_LEVELING_FAILED, buf)
     else (WEAR_LEVELING_SUCCESS, read_at (cache s) (unat address) (length buf)))"

end
