(* ===== verification/Qmk_Wl_Correct.thy ===== *)
theory Qmk_Wl_Correct
  imports Qmk_Wear_Leveling
begin

text \<open>
  Correctness of the wear-leveling emulation: the log entry encodings, the contract of a backing store,
  the invariant that relates the store to the cache, and its preservation by every operation.
\<close>

subsection \<open>Checksum\<close>

text \<open>The shift-and-add sequence is the multiplication by the FNV prime.\<close>

lemma fnv_step_is_multiplication:
  "h + (push_bit 1 h + push_bit 4 h + push_bit 5 h + push_bit 7 h + push_bit 8 h + push_bit 40 h) = h * FNV_64_PRIME"
proof -
  have "push_bit n h = h * 2 ^ n" for n by (simp add: push_bit_eq_mult)
  then have "h + (push_bit 1 h + push_bit 4 h + push_bit 5 h + push_bit 7 h + push_bit 8 h + push_bit 40 h) =
      h * (1 + 2 ^ 1 + 2 ^ 4 + 2 ^ 5 + 2 ^ 7 + 2 ^ 8 + 2 ^ 40)"
    by (simp only: distrib_left mult_1_right add.assoc)
  also have "(1 + 2 ^ 1 + 2 ^ 4 + 2 ^ 5 + 2 ^ 7 + 2 ^ 8 + 2 ^ 40 :: u64) = FNV_64_PRIME"
    by (simp add: FNV_64_PRIME_def)
  finally show ?thesis .
qed

subsection \<open>Encoding and decoding of log entries\<close>

lemma bit_less_power:
  assumes "unat (a :: 'a::len word) < 2 ^ n" "bit a k"
  shows "k < n"
proof -
  have "bit (unat a) k" using assms(2) by (simp add: bit_unsigned_iff)
  then have "odd (unat a div 2 ^ k)" by (simp add: bit_iff_odd)
  then have "unat a div 2 ^ k \<noteq> 0" by (metis even_zero)
  then have "2 ^ k \<le> unat a" by (metis div_less not_le)
  then have "(2::nat) ^ k < 2 ^ n" using assms(1) by linarith
  then show ?thesis by (rule power_less_imp_less_exp [rotated]) simp
qed

lemma raw16_0: "raw16 (a # b # rest) 0 = le_word [a, b]"
  by (simp add: raw16_def read_at_def)

lemma raw16_1: "raw16 (x0 # x1 # a # b # rest) (Suc 0) = le_word [a, b]"
  by (simp add: raw16_def read_at_def)

lemma raw16_2: "raw16 (x0 # x1 # x2 # x3 # a # b # rest) 2 = le_word [a, b]"
  by (simp add: raw16_def read_at_def)

lemma raw16_3: "raw16 (x0 # x1 # x2 # x3 # x4 # x5 # a # b # rest) 3 = le_word [a, b]"
  by (simp add: raw16_def read_at_def)

lemma le_bytes_2_le_word [simp]: "le_bytes 2 (le_word [a, b] :: u16) = [a, b]"
  using le_bytes_le_word [of "[a, b]", where ?'a = 16] by (simp only: list.size) (simp add: Suc_1 [symmetric] del: Suc_1)

lemma set_raw16_nths:
  assumes "length st = 8"
  shows "set_raw16 st 0 (le_word [a, b]) = a # b # drop 2 st"
    and "set_raw16 (x0 # x1 # drop 2 st) (Suc 0) (le_word [a, b]) = x0 # x1 # a # b # drop 4 st"
    and "set_raw16 (x0 # x1 # x2 # x3 # drop 4 st) 2 (le_word [a, b]) = x0 # x1 # x2 # x3 # a # b # drop 6 st"
    and "set_raw16 (x0 # x1 # x2 # x3 # x4 # x5 # drop 6 st) 3 (le_word [a, b]) = [x0, x1, x2, x3, x4, x5, a, b]"
proof -
  obtain s0 s1 s2 s3 s4 s5 s6 s7 where "st = [s0, s1, s2, s3, s4, s5, s6, s7]"
    using assms by (auto simp: length_Suc_conv eval_nat_numeral)
  then show "set_raw16 st 0 (le_word [a, b]) = a # b # drop 2 st"
    "set_raw16 (x0 # x1 # drop 2 st) (Suc 0) (le_word [a, b]) = x0 # x1 # a # b # drop 4 st"
    "set_raw16 (x0 # x1 # x2 # x3 # drop 4 st) 2 (le_word [a, b]) = x0 # x1 # x2 # x3 # a # b # drop 6 st"
    "set_raw16 (x0 # x1 # x2 # x3 # x4 # x5 # drop 6 st) 3 (le_word [a, b]) = [x0, x1, x2, x3, x4, x5, a, b]"
    by (simp_all add: set_raw16_def write_at_split del: le_word.simps)
qed

lemma set_raw16_same:
  assumes "2 * i + 2 \<le> length log"
  shows "set_raw16 log i (raw16 log i) = log"
proof -
  have "length (read_at log (2 * i) 2) = 2" using assms by (simp add: byte_simps)
  then have "le_bytes 2 (raw16 log i) = read_at log (2 * i) 2"
    using le_bytes_le_word [of "read_at log (2 * i) 2", where ?'a = 16] by (simp add: raw16_def)
  then show ?thesis using assms by (simp add: set_raw16_def)
qed

lemma five_bytes:
  assumes "length p \<le> 5"
  obtains c0 c1 c2 c3 c4 :: u8 where "p @ replicate (5 - length p) 0 = [c0, c1, c2, c3, c4]"
proof -
  have "length (p @ replicate (5 - length p) (0 :: u8)) = Suc (Suc (Suc (Suc (Suc 0))))" using assms by simp
  then show thesis using that by (auto simp only: length_Suc_conv length_0_conv)
qed

text \<open>A word entry: an even address below 16384 and a value of 0 or 1.\<close>

lemma word_01_decode:
  fixes address :: u32
  assumes "unat address < 2 ^ 14" "even address" "v = 0 \<or> v = 1"
    and "LOG_ENTRY_MAKE_WORD_01 address v = x # y # rest"
  shows "LOG_ENTRY_GET_TYPE (x # y # r) = LOG_ENTRY_TYPE_WORD_01"
    and "LOG_ENTRY_WORD_01_GET_ADDRESS (x # y # r) = address"
    and "LOG_ENTRY_WORD_01_GET_VALUE (x # y # r) = ucast v"
proof -
  have x: "x = push_bit 6 (LOG_ENTRY_TYPE_WORD_01 AND mask 2) OR push_bit 5 ((if v \<noteq> 0 then 1 else 0) AND mask 1) OR
      (ucast (drop_bit 9 address) AND mask 5)" and y: "y = ucast (drop_bit 1 address)"
    using assms(4) by (simp_all add: LOG_ENTRY_MAKE_WORD_01_def)
  have "drop_bit 6 x AND mask 2 = LOG_ENTRY_TYPE_WORD_01 AND mask 2"
    by (rule bit_word_eqI) (auto simp: x bit_simps)
  then show "LOG_ENTRY_GET_TYPE (x # y # r) = LOG_ENTRY_TYPE_WORD_01"
    by (simp add: LOG_ENTRY_GET_TYPE_def LOG_ENTRY_TYPE_WORD_01_def mask_eq_exp_minus_1)
  have "drop_bit 5 x AND mask 1 = (if v \<noteq> 0 then 1 else 0) AND mask 1"
    by (rule bit_word_eqI) (auto simp: x bit_simps)
  then show "LOG_ENTRY_WORD_01_GET_VALUE (x # y # r) = ucast v"
    using assms(3) by (auto simp: LOG_ENTRY_WORD_01_GET_VALUE_def)
  show "LOG_ENTRY_WORD_01_GET_ADDRESS (x # y # r) = address"
  proof (rule bit_word_eqI)
    fix k assume k: "k < LENGTH(32)"
    have hi: "bit address k \<Longrightarrow> k < 14" using bit_less_power [OF assms(1)] .
    have lo: "\<not> bit address 0" using assms(2) by (simp add: bit_0)
    have x5: "x AND mask 5 = ucast (drop_bit 9 address) AND mask 5"
      by (rule bit_word_eqI) (auto simp: x bit_simps)
    have "bit (LOG_ENTRY_WORD_01_GET_ADDRESS (x # y # r)) k \<longleftrightarrow>
        (9 \<le> k \<and> k - 9 < 5 \<and> bit address (9 + (k - 9))) \<or> (1 \<le> k \<and> k - 1 < 8 \<and> bit address (1 + (k - 1)))"
      unfolding LOG_ENTRY_WORD_01_GET_ADDRESS_def nth_Cons_0 x5 bit_or_iff bit_push_bit_iff bit_unsigned_iff
        bit_and_iff bit_mask_iff y bit_drop_bit_eq
      using k by (auto simp: y bit_unsigned_iff bit_drop_bit_eq)
    then show "bit (LOG_ENTRY_WORD_01_GET_ADDRESS (x # y # r)) k = bit address k"
      using hi lo by (cases "k = 0") auto
  qed
qed

text \<open>A byte entry: an address below 64.\<close>

lemma optimized_64_decode:
  fixes address :: u32
  assumes "unat address < 2 ^ 6" "LOG_ENTRY_MAKE_OPTIMIZED_64 address v = x # y # rest"
  shows "LOG_ENTRY_GET_TYPE (x # y # r) = LOG_ENTRY_TYPE_OPTIMIZED_64"
    and "LOG_ENTRY_OPTIMIZED_64_GET_ADDRESS (x # y # r) = address"
    and "LOG_ENTRY_OPTIMIZED_64_GET_VALUE (x # y # r) = v"
proof -
  have x: "x = push_bit 6 (LOG_ENTRY_TYPE_OPTIMIZED_64 AND mask 2) OR (ucast address AND mask 6)" and y: "y = v"
    using assms(2) by (simp_all add: LOG_ENTRY_MAKE_OPTIMIZED_64_def)
  have "drop_bit 6 x AND mask 2 = LOG_ENTRY_TYPE_OPTIMIZED_64 AND mask 2"
    by (rule bit_word_eqI) (auto simp: x bit_simps)
  then show "LOG_ENTRY_GET_TYPE (x # y # r) = LOG_ENTRY_TYPE_OPTIMIZED_64"
    by (simp add: LOG_ENTRY_GET_TYPE_def LOG_ENTRY_TYPE_OPTIMIZED_64_def mask_eq_exp_minus_1)
  show "LOG_ENTRY_OPTIMIZED_64_GET_ADDRESS (x # y # r) = address"
  proof (rule bit_word_eqI)
    fix k assume k: "k < LENGTH(32)"
    have hi: "bit address k \<Longrightarrow> k < 6" using bit_less_power [OF assms(1)] .
    show "bit (LOG_ENTRY_OPTIMIZED_64_GET_ADDRESS (x # y # r)) k = bit address k"
      using k hi by (auto simp: LOG_ENTRY_OPTIMIZED_64_GET_ADDRESS_def x bit_simps)
  qed
  show "LOG_ENTRY_OPTIMIZED_64_GET_VALUE (x # y # r) = v"
    by (simp add: LOG_ENTRY_OPTIMIZED_64_GET_VALUE_def y)
qed

text \<open>A multi-byte entry: a 19-bit address and up to five bytes.\<close>

lemma multibyte_decode:
  fixes address :: u32
  assumes "unat address < 2 ^ 19" "n < 8" "LOG_ENTRY_MAKE_MULTIBYTE address n = x # y # z # rest"
  shows "LOG_ENTRY_GET_TYPE (x # r) = LOG_ENTRY_TYPE_MULTIBYTE"
    and "LOG_ENTRY_MULTIBYTE_GET_ADDRESS (x # y # z # r) = address"
    and "LOG_ENTRY_MULTIBYTE_GET_LENGTH (x # r) = of_nat n"
proof -
  have x: "x = push_bit 6 (LOG_ENTRY_TYPE_MULTIBYTE AND mask 2) OR push_bit 3 (of_nat n AND mask 3) OR
       (ucast (drop_bit 16 address) AND mask 3)"
    and y: "y = ucast (drop_bit 8 address)" and z: "z = ucast address"
    using assms(3) by (simp_all add: LOG_ENTRY_MAKE_MULTIBYTE_def)
  have "drop_bit 6 x AND mask 2 = LOG_ENTRY_TYPE_MULTIBYTE AND mask 2"
    by (rule bit_word_eqI) (auto simp: x bit_simps)
  then show "LOG_ENTRY_GET_TYPE (x # r) = LOG_ENTRY_TYPE_MULTIBYTE"
    by (simp add: LOG_ENTRY_GET_TYPE_def LOG_ENTRY_TYPE_MULTIBYTE_def mask_eq_exp_minus_1)
  show "LOG_ENTRY_MULTIBYTE_GET_ADDRESS (x # y # z # r) = address"
  proof (rule bit_word_eqI)
    fix k assume k: "k < LENGTH(32)"
    have hi: "bit address k \<Longrightarrow> k < 19" using bit_less_power [OF assms(1)] .
    show "bit (LOG_ENTRY_MULTIBYTE_GET_ADDRESS (x # y # z # r)) k = bit address k"
      using k hi by (auto simp: LOG_ENTRY_MULTIBYTE_GET_ADDRESS_def x y z bit_simps LOG_ENTRY_TYPE_MULTIBYTE_def)
  qed
  show "LOG_ENTRY_MULTIBYTE_GET_LENGTH (x # r) = of_nat n"
  proof (rule bit_word_eqI)
    fix k assume k: "k < LENGTH(8)"
    have "unat (of_nat n :: u8) < 2 ^ 3" using assms(2) by (simp add: unat_of_nat take_bit_nat_eq_self)
    then have hi: "bit (of_nat n :: u8) k \<Longrightarrow> k < 3" by (rule bit_less_power)
    show "bit (LOG_ENTRY_MULTIBYTE_GET_LENGTH (x # r)) k = bit (of_nat n :: u8) k"
      using k hi by (auto simp: LOG_ENTRY_MULTIBYTE_GET_LENGTH_def x bit_simps LOG_ENTRY_TYPE_MULTIBYTE_def)
  qed
qed

text \<open>No entry starts with the empty half-word.\<close>

lemma type_nonzero:
  assumes "LOG_ENTRY_GET_TYPE (x # r) = LOG_ENTRY_TYPE_OPTIMIZED_64 \<or> LOG_ENTRY_GET_TYPE (x # r) = LOG_ENTRY_TYPE_WORD_01 \<or>
    LOG_ENTRY_MULTIBYTE_GET_LENGTH (x # r) \<noteq> 0"
  shows "(le_word [x, y] :: u16) \<noteq> 0"
proof
  assume "(le_word [x, y] :: u16) = 0"
  then have "le_bytes 2 (0 :: u16) = [x, y]" using le_bytes_2_le_word [of x y] by simp
  moreover have "le_bytes 2 (0 :: u16) = [0, 0]" by code_simp
  ultimately have "x = 0" by simp
  then show False using assms
    by (simp add: LOG_ENTRY_GET_TYPE_def LOG_ENTRY_MULTIBYTE_GET_LENGTH_def LOG_ENTRY_TYPE_OPTIMIZED_64_def LOG_ENTRY_TYPE_WORD_01_def)
qed

subsection \<open>Abstract log entries\<close>

datatype wl_entry = WMulti u32 "u8 list" | WOpt u32 u8 | WWord u32 u16

definition multi_log :: "u32 \<Rightarrow> u8 list \<Rightarrow> log_entry" where
  "multi_log a p = write_at (LOG_ENTRY_MAKE_MULTIBYTE a (length p)) 3 p"

fun wl_enc :: "wl_entry \<Rightarrow> u16 list" where
  "wl_enc (WMulti a p) = [raw16 (multi_log a p) 0, raw16 (multi_log a p) 1] @
    (if 1 < length p then [raw16 (multi_log a p) 2] else []) @ (if 3 < length p then [raw16 (multi_log a p) 3] else [])"
| "wl_enc (WOpt a v) = [raw16 (LOG_ENTRY_MAKE_OPTIMIZED_64 a v) 0]"
| "wl_enc (WWord a v) = [raw16 (LOG_ENTRY_MAKE_WORD_01 a v) 0]"

fun wl_apply :: "u8 list \<Rightarrow> wl_entry \<Rightarrow> u8 list" where
  "wl_apply c (WMulti a p) = write_at c (unat a) p"
| "wl_apply c (WOpt a v) = write_at c (unat a) [v]"
| "wl_apply c (WWord a v) = write_at c (unat a) [ucast v, 0]"

fun wl_ok :: "nat \<Rightarrow> wl_entry \<Rightarrow> bool" where
  "wl_ok L (WMulti a p) \<longleftrightarrow> 1 \<le> length p \<and> length p \<le> 5 \<and> unat a + length p \<le> L"
| "wl_ok L (WOpt a v) \<longleftrightarrow> unat a < 64 \<and> unat a < L"
| "wl_ok L (WWord a v) \<longleftrightarrow> unat a < 16384 \<and> even a \<and> (v = 0 \<or> v = 1) \<and> unat a + 2 \<le> L"

lemma length_wl_apply [simp]: "length (wl_apply c e) = length c"
  by (cases e) simp_all

lemma length_foldl_wl_apply [simp]: "length (foldl wl_apply c es) = length c"
  by (induction es arbitrary: c) auto

lemma wl_enc_nonempty: "wl_enc e \<noteq> []"
  by (cases e) simp_all

lemma raw16_multi_log_0:
  assumes "LOG_ENTRY_MAKE_MULTIBYTE a (length p) = x # y # rest"
  shows "raw16 (multi_log a p) 0 = le_word [x, y]"
proof -
  have "read_at (multi_log a p) 0 2 = read_at (x # y # rest) 0 2"
    unfolding multi_log_def assms by (intro read_at_write_at_other) auto
  then show ?thesis by (simp add: raw16_def read_at_def del: le_word.simps)
qed

lemma wl_enc_multi_2:
  assumes "3 < length p"
  shows "2 < length (tl (wl_enc (WMulti a p))) \<and> tl (wl_enc (WMulti a p)) ! 2 = raw16 (multi_log a p) 3"
  using assms by simp

subsection \<open>Half-words and bytes\<close>

lemma halfwords_unhalfwords: "halfwords (unhalfwords ws) = ws"
proof (induction ws)
  case (Cons w ws)
  obtain a b where "le_bytes 2 w = [a, b]" by (auto simp: numeral_2_eq_2)
  moreover from this have "le_word [a, b] = w" using le_word_le_bytes_all [of 2 w] by simp
  ultimately show ?case using Cons by (simp add: unhalfwords_def)
qed (simp add: unhalfwords_def)

lemma unhalfwords_halfwords: "even (length bs) \<Longrightarrow> unhalfwords (halfwords bs) = bs"
  by (induction bs rule: halfwords.induct) (auto simp: unhalfwords_def simp del: le_word.simps)

lemma length_halfwords: "length (halfwords bs) = length bs div 2"
  by (induction bs rule: halfwords.induct) auto

lemma length_unhalfwords [simp]: "length (unhalfwords ws) = 2 * length ws"
  by (induction ws) (auto simp: unhalfwords_def)

subsection \<open>The invariant\<close>

definition wl_consolidated :: "nat \<Rightarrow> (nat \<Rightarrow> u16) \<Rightarrow> u8 list" where
  "wl_consolidated L m = unhalfwords (map m [0..<L div 2])"

definition wl_stored_hash :: "nat \<Rightarrow> (nat \<Rightarrow> u16) \<Rightarrow> u64" where
  "wl_stored_hash L m = le_word (unhalfwords (map m [L div 2..<L div 2 + 4]))"

definition wl_base :: "nat \<Rightarrow> (nat \<Rightarrow> u16) \<Rightarrow> u8 list" where
  "wl_base L m = (if wl_stored_hash L m = fnv_64a_buf (wl_consolidated L m) FNV1A_64_INIT
    then wl_consolidated L m else replicate L 0)"

definition raw_log :: "'b backing_store \<Rightarrow> (nat \<Rightarrow> u16) \<Rightarrow> nat \<Rightarrow> u16 list \<Rightarrow> bool" where
  "raw_log bs m W hs \<longleftrightarrow> W = WEAR_LEVELING_LOGICAL_SIZE bs + 8 + 2 * length hs \<and> W < WEAR_LEVELING_BACKING_SIZE bs \<and>
    (\<forall>i < length hs. m ((WEAR_LEVELING_LOGICAL_SIZE bs + 8) div 2 + i) = hs ! i) \<and>
    (\<forall>i. W div 2 \<le> i \<and> i < WEAR_LEVELING_BACKING_SIZE bs div 2 \<longrightarrow> m i = 0)"

definition wl_log :: "'b backing_store \<Rightarrow> (nat \<Rightarrow> u16) \<Rightarrow> nat \<Rightarrow> u8 list \<Rightarrow> wl_entry list \<Rightarrow> bool" where
  "wl_log bs m W c es \<longleftrightarrow> raw_log bs m W (concat (map wl_enc es)) \<and>
    (\<forall>e \<in> set es. wl_ok (WEAR_LEVELING_LOGICAL_SIZE bs) e) \<and>
    c = foldl wl_apply (wl_base (WEAR_LEVELING_LOGICAL_SIZE bs) m) es"

definition wl_inv :: "'b backing_store \<Rightarrow> ('b \<Rightarrow> bool) \<Rightarrow> ('b \<Rightarrow> nat \<Rightarrow> u16) \<Rightarrow> 'b wear_leveling \<Rightarrow> bool" where
  "wl_inv bs ok mem s \<longleftrightarrow> ok (backing s) \<and> \<not> unlocked s \<and>
    length (cache s) = WEAR_LEVELING_LOGICAL_SIZE bs \<and>
    (\<exists>es. wl_log bs (mem (backing s)) (write_address s) (cache s) es)"

subsection \<open>The contract of a backing store\<close>

text \<open>\<open>mem\<close> is the store as half-words; programming is only guaranteed on an erased half-word.\<close>

locale reliable_store =
  fixes bs :: "'b backing_store" and ok :: "'b \<Rightarrow> bool" and ready :: "'b \<Rightarrow> bool" and mem :: "'b \<Rightarrow> nat \<Rightarrow> u16"
  assumes sizes: "even (WEAR_LEVELING_LOGICAL_SIZE bs)" "even (WEAR_LEVELING_BACKING_SIZE bs)"
      "WEAR_LEVELING_LOGICAL_SIZE bs + 8 < WEAR_LEVELING_BACKING_SIZE bs" "WEAR_LEVELING_LOGICAL_SIZE bs \<le> 2 ^ 19"
    and stack_entry: "length (stack_entry bs) = 8"
    and init_law: "ok b \<Longrightarrow> \<exists>b'. backing_store_init bs b = (True, b') \<and> ok b' \<and> mem b' = mem b"
    and unlock_law: "ok b \<Longrightarrow> \<exists>b'. backing_store_unlock bs b = (True, b') \<and> ok b' \<and> ready b' \<and> mem b' = mem b"
    and lock_law: "ok b \<Longrightarrow> \<exists>b'. backing_store_lock bs b = (True, b') \<and> ok b' \<and> mem b' = mem b"
    and erase_law: "ok b \<Longrightarrow> ready b \<Longrightarrow> \<exists>b'. backing_store_erase bs b = (True, b') \<and> ok b' \<and> ready b' \<and>
      (\<forall>i < WEAR_LEVELING_BACKING_SIZE bs div 2. mem b' i = 0)"
    and write_law: "ok b \<Longrightarrow> ready b \<Longrightarrow> even a \<Longrightarrow> a < WEAR_LEVELING_BACKING_SIZE bs \<Longrightarrow> mem b (a div 2) = 0 \<Longrightarrow>
      \<exists>b'. backing_store_write bs a v b = (True, b') \<and> ok b' \<and> ready b' \<and> mem b' = (mem b)(a div 2 := v)"
    and read_law: "ok b \<Longrightarrow> even a \<Longrightarrow> a < WEAR_LEVELING_BACKING_SIZE bs \<Longrightarrow>
      backing_store_read bs a b = Some (mem b (a div 2))"
begin

abbreviation L :: nat where "L \<equiv> WEAR_LEVELING_LOGICAL_SIZE bs"
abbreviation B :: nat where "B \<equiv> WEAR_LEVELING_BACKING_SIZE bs"

lemma playback_word:
  assumes "wl_ok L (WWord a v)"
  shows "playback_entry bs address (raw16 (LOG_ENTRY_MAKE_WORD_01 a v) 0) s =
    (True, address, s\<lparr>cache := wl_apply (cache s) (WWord a v)\<rparr>)"
proof -
  obtain x y rest where xy: "LOG_ENTRY_MAKE_WORD_01 a v = x # y # rest" by (simp add: LOG_ENTRY_MAKE_WORD_01_def)
  have "unat a < 2 ^ 14" "even a" "v = 0 \<or> v = 1" "unat a + 2 \<le> L" using assms by simp_all
  note dec = word_01_decode [OF this(1-3) xy, of "drop 2 (stack_entry bs)"]
  have "\<not> L \<le> Suc (unat a)" using assms by auto
  then show ?thesis
    using dec xy by (simp add: playback_entry_def raw16_0 set_raw16_nths [OF stack_entry] Let_def
        LOG_ENTRY_TYPE_MULTIBYTE_def LOG_ENTRY_TYPE_OPTIMIZED_64_def LOG_ENTRY_TYPE_WORD_01_def del: le_word.simps)
qed

lemma playback_opt:
  assumes "wl_ok L (WOpt a v)"
  shows "playback_entry bs address (raw16 (LOG_ENTRY_MAKE_OPTIMIZED_64 a v) 0) s =
    (True, address, s\<lparr>cache := wl_apply (cache s) (WOpt a v)\<rparr>)"
proof -
  obtain x y rest where xy: "LOG_ENTRY_MAKE_OPTIMIZED_64 a v = x # y # rest" by (simp add: LOG_ENTRY_MAKE_OPTIMIZED_64_def)
  have "unat a < 2 ^ 6" using assms by simp
  note dec = optimized_64_decode [OF this xy, of "drop 2 (stack_entry bs)"]
  have "\<not> L \<le> unat a" using assms by auto
  then show ?thesis
    using dec xy by (simp add: playback_entry_def raw16_0 set_raw16_nths [OF stack_entry] Let_def
        LOG_ENTRY_TYPE_MULTIBYTE_def LOG_ENTRY_TYPE_OPTIMIZED_64_def del: le_word.simps)
qed

lemma playback_multi:
  assumes e: "wl_ok L (WMulti a p)" and b: "ok (backing s)" and ev: "even address"
    and rd: "\<forall>i < length (tl (wl_enc (WMulti a p))). mem (backing s) (address div 2 + i) = tl (wl_enc (WMulti a p)) ! i"
    and room: "address + 2 * length (tl (wl_enc (WMulti a p))) \<le> B"
  shows "playback_entry bs address (raw16 (multi_log a p) 0) s =
    (True, address + 2 * length (tl (wl_enc (WMulti a p))), s\<lparr>cache := wl_apply (cache s) (WMulti a p)\<rparr>)"
proof -
  let ?n = "length p" and ?st = "stack_entry bs"
  obtain x y z where xyz: "LOG_ENTRY_MAKE_MULTIBYTE a ?n = x # y # z # replicate 5 0"
    by (simp add: LOG_ENTRY_MAKE_MULTIBYTE_def numeral_eq_Suc)
  have n: "?n < 8" "1 \<le> ?n" "?n \<le> 5" "unat a < 2 ^ 19" using e sizes(4) by auto
  obtain c0 c1 c2 c3 c4 where c: "p @ replicate (5 - ?n) 0 = [c0, c1, c2, c3, c4]" using n(3) by (rule five_bytes)
  have "multi_log a p = x # y # z # (p @ replicate (5 - ?n) 0)"
    using n(3) by (simp add: multi_log_def xyz write_at_split numeral_3_eq_3)
  then have log: "multi_log a p = [x, y, z, c0, c1, c2, c3, c4]" unfolding c .
  have p: "p = take ?n [c0, c1, c2, c3, c4]" unfolding c [symmetric] by simp
  note dec = multibyte_decode [OF n(4,1) xyz]
  have ul: "unat (of_nat ?n :: u8) = ?n" using n by (simp add: unat_of_nat take_bit_nat_eq_self)
  have l1: "(1 :: u8) < of_nat ?n \<longleftrightarrow> 1 < ?n" and l3: "(3 :: u8) < of_nat ?n \<longleftrightarrow> 3 < ?n"
    by (simp_all add: word_less_nat_alt ul)
  have nl: "\<not> L < unat a + ?n" using e by auto
  have r: "backing_store_read bs (address + 2 * i) (backing s) = Some (tl (wl_enc (WMulti a p)) ! i)"
    if "i < length (tl (wl_enc (WMulti a p)))" for i
    using that rd room read_law [OF b, of "address + 2 * i"] ev by simp
  have r0: "backing_store_read bs address (backing s) = Some (le_word [z, c0])"
    using r [of 0] by (simp add: log raw16_1 del: le_word.simps)
  have r1: "backing_store_read bs (address + 2) (backing s) = Some (le_word [c1, c2])" if "1 < ?n"
    using r [of 1] that by (simp add: log raw16_2 del: le_word.simps)
  have r2: "backing_store_read bs (address + 2 + 2) (backing s) = Some (le_word [c3, c4])" if "3 < ?n"
  proof -
    have "address + 2 * 2 = address + 2 + 2" by simp
    then show ?thesis using r [of 2] that by (metis (no_types, lifting) log raw16_3 wl_enc_multi_2)
  qed
  have "playback_entry bs address (raw16 (multi_log a p) 0) s = playback_multibyte bs address (x # y # drop 2 ?st) s"
    by (simp add: playback_entry_def log raw16_0 set_raw16_nths [OF stack_entry] Let_def dec(1) del: le_word.simps)
  also have "\<dots> = (True, address + 2 * length (tl (wl_enc (WMulti a p))), s\<lparr>cache := wl_apply (cache s) (WMulti a p)\<rparr>)"
    (is "?l = ?r")
  proof -
    note s1 = set_raw16_nths(2) [OF stack_entry, of x y z c0] and s2 = set_raw16_nths(3) [OF stack_entry, of x y z c0 c1 c2]
      and s3 = set_raw16_nths(4) [OF stack_entry, of x y z c0 c1 c2 c3 c4]
    have same: "set_raw16 (x # y # z # c0 # drop 4 ?st) i (raw16 (x # y # z # c0 # drop 4 ?st) i) = x # y # z # c0 # drop 4 ?st"
      if "i < 4" for i using that stack_entry by (intro set_raw16_same) simp
    have same2: "set_raw16 (x # y # z # c0 # c1 # c2 # drop 6 ?st) 3 (raw16 (x # y # z # c0 # c1 # c2 # drop 6 ?st) 3) =
        x # y # z # c0 # c1 # c2 # drop 6 ?st" using stack_entry by (intro set_raw16_same) simp
    consider (1) "?n = 1" | (23) "1 < ?n" "?n \<le> 3" | (45) "3 < ?n" using n by linarith
    then show ?thesis
    proof cases
      case 1
      have "p = [c0]" using p 1 by simp
      then show ?thesis using r0 l1 l3 nl 1 same
        by (simp add: playback_multibyte_def Let_def s1 dec l1 l3 ul read_at_def del: le_word.simps)
    next
      case 23
      have "read_at (x # y # z # c0 # c1 # c2 # drop 6 ?st) 3 ?n = p"
        using 23 p by (subst p) (auto simp: read_at_def take_Cons' numeral_3_eq_3)
      then show ?thesis using r0 r1 nl 23 same2
        by (simp add: playback_multibyte_def Let_def s1 s2 dec l1 l3 ul del: le_word.simps)
    next
      case 45
      have "read_at [x, y, z, c0, c1, c2, c3, c4] 3 ?n = p"
        using p by (simp add: read_at_def)
      then show ?thesis using r0 r1 r2 nl 45
        by (simp add: playback_multibyte_def Let_def s1 s2 s3 dec l1 l3 ul del: le_word.simps)
    qed
  qed
  finally show ?thesis .
qed

lemma length_base [simp]: "length (wl_base L m) = L"
  using sizes(1) by (auto simp: wl_base_def wl_consolidated_def)

lemma read_bulk:
  assumes "ok b" "even a" "a + 2 * length vs \<le> B"
  shows "backing_store_read_bulk bs a vs b = (True, map (mem b) [a div 2..<a div 2 + length vs])"
  using assms(2,3)
proof (induction vs arbitrary: a)
  case (Cons v vs)
  have "backing_store_read bs a b = Some (mem b (a div 2))" using read_law [OF assms(1)] Cons.prems by simp
  moreover have "backing_store_read_bulk bs (a + 2) vs b = (True, map (mem b) [(a + 2) div 2..<(a + 2) div 2 + length vs])"
    using Cons.prems by (intro Cons.IH) auto
  moreover have "[a div 2..<a div 2 + length (v # vs)] = a div 2 # [(a + 2) div 2..<(a + 2) div 2 + length vs]"
    by (subst upt_rec) simp
  ultimately show ?case by (simp only: backing_store_read_bulk.simps option.case prod.case Let_def list.map)
qed simp

lemma write_bulk:
  assumes "ok b" "ready b" "even a" "a + 2 * length vs \<le> B" "\<forall>i < length vs. mem b (a div 2 + i) = 0"
  shows "\<exists>b'. backing_store_write_bulk bs a vs b = (True, b') \<and> ok b' \<and> ready b' \<and>
    mem b' = (\<lambda>i. if a div 2 \<le> i \<and> i < a div 2 + length vs then vs ! (i - a div 2) else mem b i)"
  using assms
proof (induction vs arbitrary: a b)
  case Nil
  then show ?case by (auto simp: fun_eq_iff)
next
  case (Cons v vs)
  have "mem b (a div 2) = 0" using Cons.prems(5) by (auto dest: spec [of _ 0])
  then obtain b1 where b1: "backing_store_write bs a v b = (True, b1)" "ok b1" "ready b1" "mem b1 = (mem b)(a div 2 := v)"
    using write_law [OF Cons.prems(1-3), of v] Cons.prems(4) by auto
  have d: "(a + 2) div 2 = Suc (a div 2)" by simp
  have "\<forall>i < length vs. mem b1 ((a + 2) div 2 + i) = 0"
    using Cons.prems(5) unfolding b1(4) d by (auto dest: spec [of _ "Suc _"])
  then obtain b' where b': "backing_store_write_bulk bs (a + 2) vs b1 = (True, b')" "ok b'" "ready b'"
    "mem b' = (\<lambda>i. if (a + 2) div 2 \<le> i \<and> i < (a + 2) div 2 + length vs then vs ! (i - (a + 2) div 2) else mem b1 i)"
    using Cons.IH [OF b1(2,3), of "a + 2"] Cons.prems by auto
  have "mem b' = (\<lambda>i. if a div 2 \<le> i \<and> i < a div 2 + length (v # vs) then (v # vs) ! (i - a div 2) else mem b i)"
  proof (rule ext)
    fix i
    consider "i = a div 2" | "Suc (a div 2) \<le> i" | "i < a div 2" by linarith
    then show "mem b' i = (if a div 2 \<le> i \<and> i < a div 2 + length (v # vs) then (v # vs) ! (i - a div 2) else mem b i)"
      by cases (auto simp: b'(4) d b1(4) nth_Cons' Suc_diff_Suc)
  qed
  then show ?case using b1 b' by (simp add: Let_def)
qed

text \<open>
  The state during an operation: unlocked, with a cache of the right size.  After a consolidation the
  store holds exactly the cache and an empty log.
\<close>

definition busy :: "'b wear_leveling \<Rightarrow> bool" where
  "busy s \<longleftrightarrow> ok (backing s) \<and> ready (backing s) \<and> unlocked s \<and> length (cache s) = L"

lemma map_nth_range: "(\<And>i. i < length xs \<Longrightarrow> f (k + i) = xs ! i) \<Longrightarrow> map f [k..<k + length xs] = xs"
  by (rule nth_equalityI) auto

lemma consolidated_image:
  assumes len: "length c = L"
    and m: "\<And>i. i < L div 2 \<Longrightarrow> m i = halfwords c ! i" "\<And>i. i < 4 \<Longrightarrow> m (L div 2 + i) = halfwords (le_bytes 8 (fnv_64a_buf c FNV1A_64_INIT)) ! i"
  shows "wl_base L m = c"
proof -
  have lh: "length (halfwords c) = L div 2" using len by (simp add: length_halfwords)
  have "map m [0..<0 + length (halfwords c)] = halfwords c" using m(1) lh by (intro map_nth_range) simp
  then have c: "wl_consolidated L m = c" using lh len sizes(1) by (simp add: wl_consolidated_def unhalfwords_halfwords)
  have l4: "length (halfwords (le_bytes 8 (fnv_64a_buf c FNV1A_64_INIT))) = 4" by (simp add: length_halfwords)
  have "map m [L div 2..<L div 2 + length (halfwords (le_bytes 8 (fnv_64a_buf c FNV1A_64_INIT)))] = halfwords (le_bytes 8 (fnv_64a_buf c FNV1A_64_INIT))"
    using m(2) l4 by (intro map_nth_range) simp
  then have "wl_stored_hash L m = fnv_64a_buf c FNV1A_64_INIT"
    unfolding wl_stored_hash_def l4 by (simp add: unhalfwords_halfwords)
  then show ?thesis by (simp add: wl_base_def c)
qed

lemma consolidate_force:
  assumes "busy s"
  shows "\<exists>s'. wear_leveling_consolidate_force bs s = (WEAR_LEVELING_CONSOLIDATED, s') \<and> busy s' \<and> cache s' = cache s \<and>
    wl_log bs (mem (backing s')) (write_address s') (cache s') []"
proof -
  have b: "ok (backing s)" "ready (backing s)" "unlocked s" "length (cache s) = L" using assms by (auto simp: busy_def)
  obtain b1 where b1: "backing_store_erase bs (backing s) = (True, b1)" "ok b1" "ready b1" "\<forall>i < B div 2. mem b1 i = 0"
    using erase_law [OF b(1,2)] by auto
  let ?hc = "halfwords (cache s)" and ?hh = "halfwords (le_bytes 8 (fnv_64a_buf (cache s) FNV1A_64_INIT))"
  have lc: "length ?hc = L div 2" using b(4) by (simp add: length_halfwords)
  have lh: "length ?hh = 4" by (simp add: length_halfwords)
  have z1: "\<forall>i < length ?hc. mem b1 (0 div 2 + i) = 0" using b1(4) sizes lc by auto
  obtain b2 where b2: "backing_store_write_bulk bs 0 ?hc b1 = (True, b2)" "ok b2" "ready b2"
    "mem b2 = (\<lambda>i. if 0 div 2 \<le> i \<and> i < 0 div 2 + length ?hc then ?hc ! (i - 0 div 2) else mem b1 i)"
    using write_bulk [OF b1(2,3) _ _ z1] sizes lc by auto
  have z2: "\<forall>i < length ?hh. mem b2 (L div 2 + i) = 0" using b1(4) sizes lh unfolding b2(4) lc by (auto elim!: evenE)
  obtain b3 where b3: "backing_store_write_bulk bs L ?hh b2 = (True, b3)" "ok b3" "ready b3"
    "mem b3 = (\<lambda>i. if L div 2 \<le> i \<and> i < L div 2 + length ?hh then ?hh ! (i - L div 2) else mem b2 i)"
    using write_bulk [OF b2(2,3) sizes(1) _ z2] sizes lh by auto
  let ?s = "s\<lparr>backing := b3, write_address := L + 8\<rparr>"
  have "wear_leveling_consolidate_force bs s = (WEAR_LEVELING_CONSOLIDATED, ?s)"
    using b b1 b2 b3 by (simp add: wear_leveling_consolidate_force_def wear_leveling_write_consolidated_def
        wear_leveling_unlock_def Let_def)
  moreover have "wl_base L (mem b3) = cache s"
    using b(4) by (intro consolidated_image) (auto simp: b3(4) b2(4) lc lh)
  moreover have "raw_log bs (mem b3) (L + 8) []"
    unfolding raw_log_def using sizes b1(4) lc lh by (auto simp: b3(4) b2(4))
  ultimately show ?thesis using b b3 by (auto simp: busy_def wl_log_def)
qed

lemma append_raw_cases:
  assumes "busy s" "raw_log bs (mem (backing s)) (write_address s) hs"
  shows "(\<exists>s'. wear_leveling_append_raw bs v s = (WEAR_LEVELING_SUCCESS, s') \<and> busy s' \<and> cache s' = cache s \<and>
      wl_base L (mem (backing s')) = wl_base L (mem (backing s)) \<and>
      raw_log bs (mem (backing s')) (write_address s') (hs @ [v])) \<or>
    (\<exists>s'. wear_leveling_append_raw bs v s = (WEAR_LEVELING_CONSOLIDATED, s') \<and> busy s' \<and> cache s' = cache s \<and>
      wl_log bs (mem (backing s')) (write_address s') (cache s') [])"
proof -
  let ?W = "write_address s" and ?m = "mem (backing s)"
  have b: "ok (backing s)" "ready (backing s)" "unlocked s" "length (cache s) = L" using assms(1) by (auto simp: busy_def)
  note r = assms(2) [unfolded raw_log_def]
  have W: "even ?W" "?W < B" using r sizes by auto
  have W2: "?W div 2 = (L + 8) div 2 + length hs" using r by simp
  have Wb: "?W div 2 < B div 2" using W sizes(2) by (auto elim!: evenE)
  have "?m (?W div 2) = 0" using r Wb by auto
  then obtain b1 where b1: "backing_store_write bs ?W v (backing s) = (True, b1)" "ok b1" "ready b1" "mem b1 = ?m(?W div 2 := v)"
    using write_law [OF b(1,2) W] by auto
  let ?s = "s\<lparr>backing := b1, write_address := ?W + 2\<rparr>"
  have busy: "busy ?s" using b b1 by (simp add: busy_def)
  show ?thesis
  proof (cases "B \<le> ?W + 2")
    case True
    then show ?thesis using consolidate_force [OF busy] b1
      by (simp add: wear_leveling_append_raw_def wear_leveling_consolidate_if_needed_def Let_def)
  next
    case False
    have L2: "L div 2 + 4 = (L + 8) div 2" by simp
    have "map (mem b1) [0..<L div 2] = map ?m [0..<L div 2]" "map (mem b1) [L div 2..<L div 2 + 4] = map ?m [L div 2..<L div 2 + 4]"
      using W2 L2 by (auto simp: b1(4))
    then have base: "wl_base L (mem b1) = wl_base L ?m"
      by (simp only: wl_base_def wl_consolidated_def wl_stored_hash_def)
    have "raw_log bs (mem b1) (?W + 2) (hs @ [v])"
      using r False W2 by (auto simp: raw_log_def b1(4) nth_append less_Suc_eq)
    then show ?thesis using False b1 busy base
      by (simp add: wear_leveling_append_raw_def wear_leveling_consolidate_if_needed_def Let_def)
  qed
qed

lemma append_all_cases:
  assumes "busy s" "raw_log bs (mem (backing s)) (write_address s) hs"
  shows "(\<exists>s'. append_all bs vs s = (WEAR_LEVELING_SUCCESS, s') \<and> busy s' \<and> cache s' = cache s \<and>
      wl_base L (mem (backing s')) = wl_base L (mem (backing s)) \<and>
      raw_log bs (mem (backing s')) (write_address s') (hs @ vs)) \<or>
    (\<exists>s'. append_all bs vs s = (WEAR_LEVELING_CONSOLIDATED, s') \<and> busy s' \<and> cache s' = cache s \<and>
      wl_log bs (mem (backing s')) (write_address s') (cache s') [])"
  using assms
proof (induction vs arbitrary: s hs)
  case Nil
  then show ?case by simp
next
  case (Cons v vs)
  from append_raw_cases [OF Cons.prems, of v] show ?case
  proof (elim disjE exE conjE)
    fix s1 assume s1: "wear_leveling_append_raw bs v s = (WEAR_LEVELING_SUCCESS, s1)" "busy s1" "cache s1 = cache s"
      "wl_base L (mem (backing s1)) = wl_base L (mem (backing s))" "raw_log bs (mem (backing s1)) (write_address s1) (hs @ [v])"
    then show ?thesis using Cons.IH [OF s1(2,5)] by simp
  next
    fix s1 assume "wear_leveling_append_raw bs v s = (WEAR_LEVELING_CONSOLIDATED, s1)" "busy s1" "cache s1 = cache s"
      "wl_log bs (mem (backing s1)) (write_address s1) (cache s1) []"
    then show ?thesis by simp
  qed
qed

lemma append_entry_cases:
  assumes "busy s" "wl_log bs (mem (backing s)) (write_address s) c es" "wl_ok L e"
  shows "(\<exists>s'. append_all bs (wl_enc e) s = (WEAR_LEVELING_SUCCESS, s') \<and> busy s' \<and> cache s' = cache s \<and>
      wl_log bs (mem (backing s')) (write_address s') (wl_apply c e) (es @ [e])) \<or>
    (\<exists>s'. append_all bs (wl_enc e) s = (WEAR_LEVELING_CONSOLIDATED, s') \<and> busy s' \<and> cache s' = cache s \<and>
      wl_log bs (mem (backing s')) (write_address s') (cache s') [])"
  using append_all_cases [OF assms(1), of "concat (map wl_enc es)" "wl_enc e"] assms(2,3)
  by (auto simp: wl_log_def)

lemma append_all_single: "append_all bs [v] s = wear_leveling_append_raw bs v s"
  by (cases "wear_leveling_append_raw bs v s") simp

text \<open>What a step of the writing loop contributes: an entry for the first bytes, then the rest.\<close>

lemma le_word_01:
  assumes "length q = 2" "v = le_word q" "(v :: u16) = 0 \<or> v = 1"
  shows "[ucast v, 0] = q"
proof -
  have "le_bytes 2 v = q" using le_bytes_le_word [of q, where ?'a = 16] assms by simp
  moreover have "le_bytes 2 (0 :: u16) = [0, 0]" "le_bytes 2 (1 :: u16) = [1, 0]" by code_simp+
  ultimately show ?thesis using assms(3) by auto
qed

lemma write_raw_cases:
  assumes "busy s" "wl_log bs (mem (backing s)) (write_address s) c es" "unat address + length p \<le> L"
  shows "(\<exists>s' es'. wear_leveling_write_raw bs address p s = (WEAR_LEVELING_SUCCESS, s') \<and> busy s' \<and> cache s' = cache s \<and>
      wl_log bs (mem (backing s')) (write_address s') (write_at c (unat address) p) es') \<or>
    (\<exists>s'. wear_leveling_write_raw bs address p s = (WEAR_LEVELING_CONSOLIDATED, s') \<and> busy s' \<and> cache s' = cache s \<and>
      wl_log bs (mem (backing s')) (write_address s') (cache s') [])"
  using assms
proof (induction p arbitrary: s address c es rule: length_induct)
  case (1 p)
  note prems = 1(2-4)
  have step: ?case if n: "0 < n" "n \<le> length p" and e: "wl_ok L e" "wl_apply c e = write_at c (unat address) (take n p)"
    and eq: "wear_leveling_write_raw bs address p s = (let (status, s) = append_all bs (wl_enc e) s in
        if status \<noteq> WEAR_LEVELING_SUCCESS then (status, s) else wear_leveling_write_raw bs (address + of_nat n) (drop n p) s)" for n e
  proof -
    have a: "unat (address + of_nat n) = unat address + n"
      using n prems(3) sizes(4) by (subst unat_add_lem [THEN iffD1]) (auto simp: unat_of_nat take_bit_nat_eq_self)
    have w: "write_at (write_at c (unat address) (take n p)) (unat address + n) (drop n p) = write_at c (unat address) p"
      using n write_at_append [of c "unat address" "take n p" "drop n p"] by simp
    from append_entry_cases [OF prems(1,2) e(1)] show ?thesis
    proof (elim disjE exE conjE)
      fix s1 assume s1: "append_all bs (wl_enc e) s = (WEAR_LEVELING_SUCCESS, s1)" "busy s1" "cache s1 = cache s"
        "wl_log bs (mem (backing s1)) (write_address s1) (wl_apply c e) (es @ [e])"
      have "length (drop n p) < length p" using n by simp
      moreover have "unat (address + of_nat n) + length (drop n p) \<le> L" using a n prems(3) by simp
      ultimately show ?thesis
        using 1(1) [rule_format, of "drop n p" s1 "wl_apply c e" "es @ [e]" "address + of_nat n"] s1
        unfolding a e(2) w eq by simp
    next
      fix s1 assume "append_all bs (wl_enc e) s = (WEAR_LEVELING_CONSOLIDATED, s1)" "busy s1" "cache s1 = cache s"
        "wl_log bs (mem (backing s1)) (write_address s1) (cache s1) []"
      then show ?thesis unfolding eq by simp
    qed
  qed
  let ?v = "le_word (take 2 p) :: u16"
  consider (nil) "p = []"
    | (word) "p \<noteq> []" "2 \<le> length p \<and> address mod 2 = 0 \<and> address < 16384 \<and> (?v = 0 \<or> ?v = 1)"
    | (opt) "p \<noteq> []" "\<not> (2 \<le> length p \<and> address mod 2 = 0 \<and> address < 16384 \<and> (?v = 0 \<or> ?v = 1))" "address < 64"
    | (multi) "p \<noteq> []" "\<not> (2 \<le> length p \<and> address mod 2 = 0 \<and> address < 16384 \<and> (?v = 0 \<or> ?v = 1))" "\<not> address < 64"
    by blast
  then show ?case
  proof cases
    case nil
    then show ?thesis using prems by (auto simp: wear_leveling_write_raw.simps)
  next
    case word
    have "even address" using word by (simp add: even_iff_mod_2_eq_zero)
    moreover have "unat address < 16384" using word by (simp add: word_less_nat_alt)
    ultimately have "wl_ok L (WWord address ?v)" using word prems(3) by auto
    moreover have "[ucast ?v, 0] = take 2 p" using word by (intro le_word_01) auto
    moreover have "wear_leveling_write_raw bs address p s = (let (status, s) = append_all bs (wl_enc (WWord address ?v)) s in
        if status \<noteq> WEAR_LEVELING_SUCCESS then (status, s) else wear_leveling_write_raw bs (address + of_nat 2) (drop 2 p) s)"
      using word by (subst wear_leveling_write_raw.simps)
        (simp only: wl_enc.simps append_all_single if_False if_True simp_thms of_nat_numeral)
    ultimately show ?thesis using word by (intro step [of 2 "WWord address ?v"]) (auto simp del: write_at.simps wl_ok.simps wl_enc.simps)
  next
    case opt
    have l: "0 < length p" using opt by simp
    have "unat address < 64" using opt by (simp add: word_less_nat_alt)
    moreover have "unat address < L" using l prems(3) by linarith
    ultimately have "wl_ok L (WOpt address (hd p))" by simp
    moreover have "[hd p] = take 1 p" using opt by (cases p) auto
    moreover have "wear_leveling_write_raw bs address p s = (let (status, s) = append_all bs (wl_enc (WOpt address (hd p))) s in
        if status \<noteq> WEAR_LEVELING_SUCCESS then (status, s) else wear_leveling_write_raw bs (address + of_nat 1) (drop 1 p) s)"
      using opt by (subst wear_leveling_write_raw.simps) (simp only: wl_enc.simps append_all_single if_False if_True of_nat_1)
    ultimately show ?thesis using l by (intro step [of 1 "WOpt address (hd p)"]) (auto simp: Suc_le_eq)
  next
    case multi
    let ?n = "if LOG_ENTRY_MULTIBYTE_MAX_BYTES \<le> length p then LOG_ENTRY_MULTIBYTE_MAX_BYTES else length p"
    have l: "0 < length p" using multi by simp
    have n: "0 < ?n" "?n \<le> length p" "?n \<le> 5" using l by (auto simp: LOG_ENTRY_MULTIBYTE_MAX_BYTES_def)
    have "wl_ok L (WMulti address (take ?n p))" using n prems(3) by auto
    moreover have "wear_leveling_write_raw bs address p s = (let (status, s) = append_all bs (wl_enc (WMulti address (take ?n p))) s in
        if status \<noteq> WEAR_LEVELING_SUCCESS then (status, s) else wear_leveling_write_raw bs (address + of_nat ?n) (drop ?n p) s)"
      using multi by (subst wear_leveling_write_raw.simps)
        (simp only: wl_enc.simps wear_leveling_write_raw_multibyte_def multi_log_def Let_def if_False simp_thms)
    ultimately show ?thesis using n by (intro step [of ?n "WMulti address (take ?n p)"]) auto
  qed
qed

subsection \<open>The interface keeps the invariant\<close>

lemma unlock_idle:
  assumes "ok (backing s)" "\<not> unlocked s"
  shows "\<exists>s'. wear_leveling_unlock bs s = (STATUS_SUCCESS, s') \<and> ok (backing s') \<and> ready (backing s') \<and> unlocked s' \<and>
    mem (backing s') = mem (backing s) \<and> cache s' = cache s \<and> write_address s' = write_address s"
  using unlock_law [OF assms(1)] assms(2) by (auto simp: wear_leveling_unlock_def)

lemma lock_busy:
  assumes "busy s"
  shows "\<exists>s'. wear_leveling_lock bs s = (STATUS_SUCCESS, s') \<and> ok (backing s') \<and> \<not> unlocked s' \<and>
    mem (backing s') = mem (backing s) \<and> cache s' = cache s \<and> write_address s' = write_address s"
  using lock_law [of "backing s"] assms by (auto simp: wear_leveling_lock_def busy_def)

lemma in_range_iff:
  assumes "unat a + n \<le> L"
  shows "\<not> out_of_range bs a n"
proof -
  have "unat (a + of_nat n) = unat a + n"
    using assms sizes(4) by (subst unat_add_lem [THEN iffD1]) (auto simp: unat_of_nat take_bit_nat_eq_self)
  then show ?thesis using assms by (simp add: out_of_range_def)
qed

lemma wl_write_inv:
  assumes inv: "wl_inv bs ok mem s" and a: "unat a + length v \<le> L"
  shows "\<exists>status s'. wear_leveling_write bs a v s = (status, s') \<and> status \<noteq> WEAR_LEVELING_FAILED \<and>
    wl_inv bs ok mem s' \<and> cache s' = write_at (cache s) (unat a) v"
proof (cases "read_at (cache s) (unat a) (length v) = v")
  case True
  then have "write_at (cache s) (unat a) v = cache s"
    using inv a write_at_read_at [of "unat a" "length v" "cache s"] by (simp add: wl_inv_def)
  then show ?thesis using True inv in_range_iff [OF a] by (simp add: wear_leveling_write_def)
next
  case False
  obtain es where es: "wl_log bs (mem (backing s)) (write_address s) (cache s) es" and len: "length (cache s) = L"
    and i: "ok (backing s)" "\<not> unlocked s" using inv by (auto simp: wl_inv_def)
  let ?s = "s\<lparr>cache := write_at (cache s) (unat a) v\<rparr>"
  obtain s1 where s1: "wear_leveling_unlock bs ?s = (STATUS_SUCCESS, s1)" "ok (backing s1)" "ready (backing s1)" "unlocked s1"
    "mem (backing s1) = mem (backing s)" "cache s1 = write_at (cache s) (unat a) v" "write_address s1 = write_address s"
    using unlock_idle [of ?s] i by auto
  have b1: "busy s1" using s1 len by (simp add: busy_def)
  have log1: "wl_log bs (mem (backing s1)) (write_address s1) (cache s) es" using es s1 by simp
  obtain status s2 es2 where s2: "wear_leveling_write_raw bs a v s1 = (status, s2)" "status \<noteq> WEAR_LEVELING_FAILED" "busy s2"
    "cache s2 = cache s1" "wl_log bs (mem (backing s2)) (write_address s2) (cache s2) es2"
    using write_raw_cases [OF b1 log1 a] s1(6) by fastforce
  have "\<not> B \<le> write_address s2" using s2(5) by (auto simp: wl_log_def raw_log_def)
  then have c: "wear_leveling_consolidate_if_needed bs s2 = (WEAR_LEVELING_SUCCESS, s2)"
    by (simp add: wear_leveling_consolidate_if_needed_def)
  obtain s3 where s3: "wear_leveling_lock bs s2 = (STATUS_SUCCESS, s3)" "ok (backing s3)" "\<not> unlocked s3"
    "mem (backing s3) = mem (backing s2)" "cache s3 = cache s2" "write_address s3 = write_address s2"
    using lock_busy [OF s2(3)] by auto
  have "wear_leveling_write bs a v s = (status, s3)"
    using False in_range_iff [OF a] s1(1) s2(1,2) s3(1) c by (simp add: wear_leveling_write_def Let_def)
  moreover have "wl_inv bs ok mem s3" using s2 s3 by (auto simp: wl_inv_def busy_def)
  ultimately show ?thesis using s2 s3 s1 by auto
qed

lemma playback_entries:
  assumes "ok (backing s)" "even address" "\<forall>e \<in> set es. wl_ok L e"
    "address + 2 * length (concat (map wl_enc es)) < B"
    "\<forall>i < length (concat (map wl_enc es)). mem (backing s) (address div 2 + i) = concat (map wl_enc es) ! i"
    "mem (backing s) (address div 2 + length (concat (map wl_enc es))) = 0"
  shows "playback_loop bs address s =
    (True, address + 2 * length (concat (map wl_enc es)), s\<lparr>cache := foldl wl_apply (cache s) es\<rparr>)"
  using assms
proof (induction es arbitrary: address s)
  case Nil
  then show ?case using read_law [of "backing s" address] by (subst playback_loop.simps) simp
next
  case (Cons e es)
  let ?hs = "wl_enc e" and ?rest = "concat (map wl_enc es)"
  obtain h hs where h: "?hs = h # hs" using wl_enc_nonempty by (cases "wl_enc e") auto
  have e: "wl_ok L e" using Cons.prems by simp
  have rd: "mem (backing s) (address div 2 + i) = (?hs @ ?rest) ! i" if "i < length ?hs + length ?rest" for i
    using Cons.prems(5) that by simp
  have room: "address + 2 * (length ?hs + length ?rest) < B" using Cons.prems(4) by simp
  have r0: "backing_store_read bs address (backing s) = Some h"
    using read_law [OF Cons.prems(1,2)] room rd [of 0] h by simp
  have tl: "\<forall>i < length (tl ?hs). mem (backing s) ((address + 2) div 2 + i) = tl ?hs ! i"
  proof (intro allI impI)
    fix i assume "i < length (tl ?hs)"
    then show "mem (backing s) ((address + 2) div 2 + i) = tl ?hs ! i"
      using rd [of "Suc i"] h by (simp add: nth_append)
  qed
  have ev: "even (address + 2)" and rm: "address + 2 + 2 * length (tl ?hs) \<le> B" using Cons.prems(2) room h by auto
  have pe: "playback_entry bs (address + 2) h s = (True, address + 2 * length ?hs, s\<lparr>cache := wl_apply (cache s) e\<rparr>) \<and> h \<noteq> 0"
  proof (cases e)
    case (WMulti a p)
    have hh: "h = raw16 (multi_log a p) 0" using h WMulti by simp
    have "h \<noteq> 0"
    proof -
      obtain x y z where xyz: "LOG_ENTRY_MAKE_MULTIBYTE a (length p) = x # y # z # replicate 5 0"
        by (simp add: LOG_ENTRY_MAKE_MULTIBYTE_def numeral_eq_Suc)
      have "unat a < 2 ^ 19" "length p < 8" "0 < length p" using e WMulti sizes(4) by auto
      then have "LOG_ENTRY_MULTIBYTE_GET_LENGTH (x # []) = of_nat (length p)" "(of_nat (length p) :: u8) \<noteq> 0"
        using multibyte_decode(3) [OF _ _ xyz] by (auto simp: word_unat_eq_iff unat_of_nat take_bit_nat_eq_self)
      then have "(le_word [x, y] :: u16) \<noteq> 0" by (intro type_nonzero [of x "[]"]) auto
      moreover have "h = le_word [x, y]" using hh raw16_multi_log_0 [OF xyz] by simp
      ultimately show ?thesis by simp
    qed
    then show ?thesis
      using playback_multi [of a p s "address + 2"] e WMulti Cons.prems(1) ev tl rm hh h
      by (simp del: wl_enc.simps wl_ok.simps)
  next
    case (WOpt a v)
    obtain x y rest where xy: "LOG_ENTRY_MAKE_OPTIMIZED_64 a v = x # y # rest" by (simp add: LOG_ENTRY_MAKE_OPTIMIZED_64_def)
    have "(le_word [x, y] :: u16) \<noteq> 0"
      using optimized_64_decode(1) [OF _ xy, of "[]"] e WOpt by (intro type_nonzero [of x "[y]"]) auto
    then show ?thesis using playback_opt [of a v "address + 2" s] e WOpt h xy by (simp add: raw16_0 del: le_word.simps)
  next
    case (WWord a v)
    obtain x y rest where xy: "LOG_ENTRY_MAKE_WORD_01 a v = x # y # rest" by (simp add: LOG_ENTRY_MAKE_WORD_01_def)
    have "(le_word [x, y] :: u16) \<noteq> 0"
      using word_01_decode(1) [OF _ _ _ xy, of "[]"] e WWord by (intro type_nonzero [of x "[y]"]) auto
    then show ?thesis using playback_word [of a v "address + 2" s] e WWord h xy by (simp add: raw16_0 del: le_word.simps)
  qed
  have "playback_loop bs address s = playback_loop bs (address + 2 * length ?hs) (s\<lparr>cache := wl_apply (cache s) e\<rparr>)"
    using r0 pe room by (subst playback_loop.simps) simp
  also have "\<dots> = (True, address + 2 * length ?hs + 2 * length ?rest,
      s\<lparr>cache := wl_apply (cache s) e, cache := foldl wl_apply (cache (s\<lparr>cache := wl_apply (cache s) e\<rparr>)) es\<rparr>)"
  proof (rule Cons.IH)
    show "\<forall>i < length ?rest. mem (backing (s\<lparr>cache := wl_apply (cache s) e\<rparr>)) ((address + 2 * length ?hs) div 2 + i) = ?rest ! i"
      using rd [of "length ?hs + _"] Cons.prems(2) by (auto simp: nth_append ac_simps)
    show "mem (backing (s\<lparr>cache := wl_apply (cache s) e\<rparr>)) ((address + 2 * length ?hs) div 2 + length ?rest) = 0"
      using Cons.prems(6) by (simp add: ac_simps)
  qed (use Cons.prems room in auto)
  finally show ?case by simp
qed

text \<open>Start-up reads the consolidated data and replays the log: it recovers the cache.\<close>

lemma wl_init_restores:
  assumes inv: "wl_inv bs ok mem s" and ram: "ok (backing ram)" "mem (backing ram) = mem (backing s)" "\<not> unlocked ram"
  shows "\<exists>s'. wear_leveling_init bs ram = (WEAR_LEVELING_SUCCESS, s') \<and> wl_inv bs ok mem s' \<and> cache s' = cache s"
proof -
  obtain es where es: "wl_log bs (mem (backing s)) (write_address s) (cache s) es" and len: "length (cache s) = L"
    using inv by (auto simp: wl_inv_def)
  obtain b1 where b1: "backing_store_init bs (backing ram) = (True, b1)" "ok b1" "mem b1 = mem (backing s)"
    using init_law [OF ram(1)] ram(2) by auto
  let ?m = "mem b1"
  let ?s1 = "(wear_leveling_clear_cache bs ram)\<lparr>backing := b1\<rparr>"
  have c1: "length (halfwords (cache ?s1)) = L div 2" by (simp add: wear_leveling_clear_cache_def length_halfwords)
  have r1: "backing_store_read_bulk bs 0 (halfwords (cache ?s1)) b1 = (True, map ?m [0..<L div 2])"
    using read_bulk [OF b1(2), of 0 "halfwords (cache ?s1)"] c1 sizes by simp
  have c2: "length (halfwords (stack_entry bs)) = 4" using stack_entry by (simp add: length_halfwords)
  have r2: "backing_store_read_bulk bs L (halfwords (stack_entry bs)) b1 = (True, map ?m [L div 2..<L div 2 + 4])"
    using read_bulk [OF b1(2) sizes(1), of "halfwords (stack_entry bs)"] c2 sizes by simp
  let ?s2 = "?s1\<lparr>cache := wl_base L ?m\<rparr>" and ?hs = "concat (map wl_enc es)"
  have rc: "wear_leveling_read_consolidated bs ?s1 = (WEAR_LEVELING_SUCCESS, ?s2)"
    using r1 r2 unfolding wear_leveling_read_consolidated_def wl_base_def wl_consolidated_def wl_stored_hash_def
    by (simp add: Let_def wear_leveling_clear_cache_def)
  note log = es [unfolded wl_log_def raw_log_def]
  have Wd: "write_address s = L + 8 + 2 * length ?hs" "write_address s < B" using log by auto
  have "write_address s div 2 = (L + 8) div 2 + length ?hs" using Wd(1) by simp
  moreover have "write_address s div 2 < B div 2" using Wd sizes(1,2) by (auto elim!: evenE)
  ultimately have z: "?m ((L + 8) div 2 + length ?hs) = 0" using log b1(3) by auto
  have pb: "playback_loop bs (L + 8) ?s2 = (True, write_address s, ?s2\<lparr>cache := cache s\<rparr>)"
    using playback_entries [of ?s2 "L + 8" es] b1 sizes(1) log z by (auto simp: ac_simps)
  have "wear_leveling_init bs ram = (WEAR_LEVELING_SUCCESS, ?s2\<lparr>cache := cache s, write_address := write_address s\<rparr>)"
    using b1(1) rc pb Wd(2) by (simp add: wear_leveling_init_def Let_def wear_leveling_playback_log_def
        wear_leveling_consolidate_if_needed_def wear_leveling_clear_cache_def)
  moreover have "wl_inv bs ok mem (?s2\<lparr>cache := cache s, write_address := write_address s\<rparr>)"
    using es len b1 ram(3) by (auto simp: wl_inv_def wear_leveling_clear_cache_def)
  ultimately show ?thesis by auto
qed

lemma wl_erase_inv:
  assumes "ok (backing s)" "\<not> unlocked s"
  shows "\<exists>s'. wear_leveling_erase bs s = (WEAR_LEVELING_SUCCESS, s') \<and> wl_inv bs ok mem s' \<and> cache s' = replicate L 0"
proof -
  obtain s1 where s1: "wear_leveling_unlock bs s = (STATUS_SUCCESS, s1)" "ok (backing s1)" "ready (backing s1)" "unlocked s1"
    using unlock_idle [OF assms] by auto
  obtain b where b: "backing_store_erase bs (backing s1) = (True, b)" "ok b" "ready b" "\<forall>i < B div 2. mem b i = 0"
    using erase_law [OF s1(2,3)] by auto
  let ?s2 = "wear_leveling_clear_cache bs (s1\<lparr>backing := b\<rparr>)"
  have "busy ?s2" using s1 b by (simp add: busy_def wear_leveling_clear_cache_def)
  then obtain s3 where s3: "wear_leveling_lock bs ?s2 = (STATUS_SUCCESS, s3)" "ok (backing s3)" "\<not> unlocked s3"
    "mem (backing s3) = mem b" "cache s3 = replicate L 0" "write_address s3 = L + 8"
    using lock_busy [of ?s2] by (auto simp: wear_leveling_clear_cache_def)
  have "map (mem b) [0..<L div 2] = replicate (L div 2) 0"
    by (rule nth_equalityI) (use b(4) sizes in auto)
  then have "wl_consolidated L (mem b) = replicate L 0"
  proof -
    have u: "unhalfwords (replicate n 0) = replicate (2 * n) 0" for n
      by (induction n) (simp_all add: unhalfwords_def numeral_2_eq_2)
    assume "map (mem b) [0..<L div 2] = replicate (L div 2) 0"
    then show ?thesis using u [of "L div 2"] sizes(1) by (simp add: wl_consolidated_def)
  qed
  then have "wl_log bs (mem b) (L + 8) (replicate L 0) []"
    using sizes b(4) by (auto simp: wl_log_def raw_log_def wl_base_def)
  then have "wl_inv bs ok mem s3" using s3 by (auto simp: wl_inv_def)
  moreover have "wear_leveling_erase bs s = (WEAR_LEVELING_SUCCESS, s3)"
    using s1(1) b(1) s3(1) by (simp add: wear_leveling_erase_def Let_def)
  ultimately show ?thesis using s3 by auto
qed

lemma wl_read_cache:
  assumes "unat a + length buf \<le> L"
  shows "wear_leveling_read bs a buf s = (WEAR_LEVELING_SUCCESS, read_at (cache s) (unat a) (length buf))"
  using in_range_iff [OF assms] by (simp add: wear_leveling_read_def)

end

end
