(* ===== verification/Qmk_Wl_Driver.thy ===== *)
theory Qmk_Wl_Driver
  imports Qmk_Wl_Correct Qmk_Eeprom
begin

text \<open>
  The wear-leveling stack put together: the flash driver with complemented half-words
  (\<^verbatim>\<open>platforms/chibios/drivers/wear_leveling/wear_leveling_legacy.c\<close>, with the sizes of the STM32F072) as
  a backing store, and the binding to the EEPROM interface
  (\<^verbatim>\<open>drivers/eeprom/eeprom_wear_leveling.c\<close>).
\<close>

subsection \<open>The flash driver\<close>

definition WEAR_LEVELING_LEGACY_EMULATION_PAGE_SIZE :: nat where "WEAR_LEVELING_LEGACY_EMULATION_PAGE_SIZE = 2048"
definition WEAR_LEVELING_LEGACY_EMULATION_PAGE_COUNT :: nat where "WEAR_LEVELING_LEGACY_EMULATION_PAGE_COUNT = 1"

definition legacy_backing_store_init :: "'f \<Rightarrow> bool \<times> 'f" where
  "legacy_backing_store_init f = (True, f)"

definition legacy_backing_store_unlock :: "'f flash_ops \<Rightarrow> 'f \<Rightarrow> bool \<times> 'f" where
  "legacy_backing_store_unlock fl f = (True, FLASH_Unlock fl f)"

definition legacy_backing_store_lock :: "'f flash_ops \<Rightarrow> 'f \<Rightarrow> bool \<times> 'f" where
  "legacy_backing_store_lock fl f = (True, FLASH_Lock fl f)"

definition legacy_backing_store_erase :: "'f flash_ops \<Rightarrow> 'f \<Rightarrow> bool \<times> 'f" where
  "legacy_backing_store_erase fl f =
    fold (\<lambda>i (ret, f). let (status, f) = FLASH_ErasePage fl (i * WEAR_LEVELING_LEGACY_EMULATION_PAGE_SIZE) f in
        (if status \<noteq> FLASH_COMPLETE then False else ret, f))
      [0..<WEAR_LEVELING_LEGACY_EMULATION_PAGE_COUNT] (True, f)"

definition legacy_backing_store_write :: "'f flash_ops \<Rightarrow> nat \<Rightarrow> u16 \<Rightarrow> 'f \<Rightarrow> bool \<times> 'f" where
  "legacy_backing_store_write fl address value f =
    (let (status, f) = FLASH_ProgramHalfWord fl address (NOT value) f in (status = FLASH_COMPLETE, f))"

definition legacy_backing_store_read :: "'f flash_ops \<Rightarrow> nat \<Rightarrow> 'f \<Rightarrow> u16 option" where
  "legacy_backing_store_read fl address f = Some (NOT (le_word (read_at (flash_mem fl f) address 2)))"

text \<open>\<open>st\<close> is the arbitrary content of an uninitialised log entry, eight bytes long.\<close>

definition legacy_store :: "'f flash_ops \<Rightarrow> u8 list \<Rightarrow> 'f backing_store" where
  "legacy_store fl st = \<lparr>WEAR_LEVELING_LOGICAL_SIZE = 1024, WEAR_LEVELING_BACKING_SIZE = 2048,
    backing_store_init = legacy_backing_store_init, backing_store_unlock = legacy_backing_store_unlock fl,
    backing_store_lock = legacy_backing_store_lock fl, backing_store_erase = legacy_backing_store_erase fl,
    backing_store_write = legacy_backing_store_write fl, backing_store_read = legacy_backing_store_read fl,
    stack_entry = take 8 (st @ replicate 8 0)\<rparr>"

lemmas legacy_defs = legacy_backing_store_init_def legacy_backing_store_unlock_def legacy_backing_store_lock_def
  legacy_backing_store_erase_def legacy_backing_store_write_def legacy_backing_store_read_def

definition legacy_mem :: "'f flash_ops \<Rightarrow> 'f \<Rightarrow> nat \<Rightarrow> u16" where
  "legacy_mem fl f i = NOT (le_word (read_at (flash_mem fl f) (2 * i) 2))"

lemma halfword_of_write:
  assumes "2 * j + 2 \<le> length m"
  shows "NOT (le_word (read_at (write_at m (2 * j) (le_bytes 2 (NOT v))) (2 * i) 2)) =
    ((\<lambda>i. NOT (le_word (read_at m (2 * i) 2) :: u16))(j := v)) i"
proof (cases "i = j")
  case True
  have "read_at (write_at m (2 * j) (le_bytes 2 (NOT v))) (2 * j) 2 = le_bytes 2 (NOT v)"
    using read_at_write_at_same [of "2 * j" "le_bytes 2 (NOT v)" m] assms by simp
  then show ?thesis using True by simp
next
  case False
  have "read_at (write_at m (2 * j) (le_bytes 2 (NOT v))) (2 * i) 2 = read_at m (2 * i) 2"
  proof (cases "2 * i + 2 \<le> length m")
    case True
    then show ?thesis using False by (intro read_at_write_at_other) auto
  next
    case out: False
    then have "j < i" using assms by simp
    show ?thesis
    proof (rule nth_equalityI)
      fix k assume "k < length (read_at (write_at m (2 * j) (le_bytes 2 (NOT v))) (2 * i) 2)"
      then have "2 * i + k < length m" "k < 2" by (auto simp: read_at_def)
      moreover have "\<not> 2 * i + k < 2 * j + 2" using \<open>j < i\<close> by linarith
      ultimately show "read_at (write_at m (2 * j) (le_bytes 2 (NOT v))) (2 * i) 2 ! k = read_at m (2 * i) 2 ! k"
        by (simp add: read_at_def nth_write_at)
    qed (simp add: read_at_def)
  qed
  then show ?thesis using False by simp
qed

lemma blank_halfword:
  assumes "length m = 2" "NOT (le_word m :: u16) = 0"
  shows "m = blank_bytes 2"
proof -
  have "(le_word m :: u16) = NOT 0" using assms(2) by (metis bit.double_compl)
  then have "le_word m = (0xFFFF :: u16)" by simp
  moreover have "le_bytes 2 (le_word m :: u16) = m"
    using le_bytes_le_word [of m, where ?'a = 16] assms(1) by simp
  moreover have "le_bytes 2 (0xFFFF :: u16) = blank_bytes 2" by code_simp
  ultimately show ?thesis by simp
qed

text \<open>On a flash that keeps its contract, the driver is a reliable backing store.\<close>

sublocale nor_flash \<subseteq> legacy: reliable_store "legacy_store fl st" wf ready "legacy_mem fl" for st
proof unfold_locales
  have B: "2048 \<le> FEE_PAGE_COUNT * FEE_PAGE_SIZE" by (simp add: flash_consts)
  fix b
  show "wf b \<Longrightarrow> ready b \<Longrightarrow> \<exists>b'. backing_store_erase (legacy_store fl st) b = (True, b') \<and> wf b' \<and> ready b' \<and>
      (\<forall>i<WEAR_LEVELING_BACKING_SIZE (legacy_store fl st) div 2. legacy_mem fl b' i = 0)"
  proof -
    assume b: "wf b" "ready b"
    obtain f where f: "FLASH_ErasePage fl (0 * FEE_PAGE_SIZE) b = (FLASH_COMPLETE, f)" "wf f" "ready f"
      "flash_mem fl f = write_at (flash_mem fl b) (0 * FEE_PAGE_SIZE) (blank_bytes FEE_PAGE_SIZE)"
      using erase [OF b, of 0] by (auto simp: FEE_PAGE_COUNT_def)
    have "legacy_mem fl f i = 0" if "i < 1024" for i
    proof -
      have "read_at (flash_mem fl f) (2 * i) 2 = blank_bytes 2"
        using that mem_size [OF b(1)] by (intro read_at_eqI) (auto simp: f(4) nth_write_at flash_consts)
      then show ?thesis by (simp add: legacy_mem_def)
    qed
    then show ?thesis using f by (simp add: legacy_store_def legacy_defs WEAR_LEVELING_LEGACY_EMULATION_PAGE_COUNT_def)
  qed
  fix a v
  show "wf b \<Longrightarrow> ready b \<Longrightarrow> even a \<Longrightarrow> a < WEAR_LEVELING_BACKING_SIZE (legacy_store fl st) \<Longrightarrow> legacy_mem fl b (a div 2) = 0 \<Longrightarrow>
      \<exists>b'. backing_store_write (legacy_store fl st) a v b = (True, b') \<and> wf b' \<and> ready b' \<and> legacy_mem fl b' = (legacy_mem fl b)(a div 2 := v)"
  proof -
    assume b: "wf b" "ready b" and a: "even a" "a < WEAR_LEVELING_BACKING_SIZE (legacy_store fl st)" and z: "legacy_mem fl b (a div 2) = 0"
    have a2: "a = 2 * (a div 2)" "a + 2 \<le> FEE_PAGE_COUNT * FEE_PAGE_SIZE" using a by (auto simp: legacy_store_def flash_consts elim!: evenE)
    then have "read_at (flash_mem fl b) a 2 = blank_bytes 2"
      using z mem_size [OF b(1)] by (intro blank_halfword) (simp_all add: legacy_mem_def length_read_at)
    then obtain f where f: "FLASH_ProgramHalfWord fl a (NOT v) b = (FLASH_COMPLETE, f)" "wf f" "ready f"
      "flash_mem fl f = write_at (flash_mem fl b) a (le_bytes 2 (NOT v))"
      using program_half [OF b, of a "NOT v"] a(1) a2(2) by auto
    have "legacy_mem fl f = (legacy_mem fl b)(a div 2 := v)"
      using halfword_of_write [of "a div 2" "flash_mem fl b" v] a2 mem_size [OF b(1)]
      by (simp add: fun_eq_iff legacy_mem_def f(4))
    then show ?thesis using f by (simp add: legacy_store_def legacy_defs)
  qed
  show "wf b \<Longrightarrow> even a \<Longrightarrow> a < WEAR_LEVELING_BACKING_SIZE (legacy_store fl st) \<Longrightarrow>
      backing_store_read (legacy_store fl st) a b = Some (legacy_mem fl b (a div 2))"
    by (simp add: legacy_store_def legacy_defs legacy_mem_def)
qed (use unlock lock in \<open>auto simp: legacy_store_def legacy_defs legacy_mem_def fun_eq_iff\<close>)

subsection \<open>Binding to the EEPROM interface\<close>

definition wl_eeprom_driver_init :: "'b backing_store \<Rightarrow> 'b wear_leveling \<Rightarrow> 'b wear_leveling" where
  "wl_eeprom_driver_init bs s = snd (wear_leveling_init bs s)"

definition wl_eeprom_driver_erase :: "'b backing_store \<Rightarrow> 'b wear_leveling \<Rightarrow> 'b wear_leveling" where
  "wl_eeprom_driver_erase bs s = snd (wear_leveling_erase bs s)"

definition wl_eeprom_read_block :: "'b backing_store \<Rightarrow> u8 list \<Rightarrow> nat \<Rightarrow> 'b wear_leveling \<Rightarrow> u8 list" where
  "wl_eeprom_read_block bs buf addr s = snd (wear_leveling_read bs (of_nat addr) buf s)"

definition wl_eeprom_write_block :: "'b backing_store \<Rightarrow> u8 list \<Rightarrow> nat \<Rightarrow> 'b wear_leveling \<Rightarrow> 'b wear_leveling" where
  "wl_eeprom_write_block bs buf addr s = snd (wear_leveling_write bs (of_nat addr) buf s)"

definition wl_dev :: "'b backing_store \<Rightarrow> 'b wear_leveling eeprom_dev" where
  "wl_dev bs = \<lparr>read_block = wl_eeprom_read_block bs, write_block = wl_eeprom_write_block bs,
    driver_erase = wl_eeprom_driver_erase bs\<rparr>"

context reliable_store
begin

lemma unat_addr: "a \<le> L \<Longrightarrow> unat (of_nat a :: u32) = a"
  using sizes(4) by (simp add: unat_of_nat take_bit_nat_eq_self)

lemma write_blocks_wl:
  assumes "wl_inv bs ok mem s" "\<forall>(a, v) \<in> set ws. unat a + length v \<le> L"
  shows "wl_inv bs ok mem (fold (\<lambda>(a, v) s. snd (wear_leveling_write bs a v s)) ws s) \<and>
    cache (fold (\<lambda>(a, v) s. snd (wear_leveling_write bs a v s)) ws s) = fold (\<lambda>(a, v) c. write_at c (unat a) v) ws (cache s)"
  using assms
proof (induction ws arbitrary: s)
  case (Cons w ws)
  obtain a v where w: "w = (a, v)" by (cases w)
  then show ?case using wl_write_inv [OF Cons.prems(1), of a v] Cons by fastforce
qed simp

lemma restart_wl:
  assumes "wl_inv bs ok mem s" "\<forall>(a, v) \<in> set ws. unat a + length v \<le> L" "ok (backing ram)" "\<not> unlocked ram"
    "mem (backing ram) = mem (backing (fold (\<lambda>(a, v) s. snd (wear_leveling_write bs a v s)) ws s))"
  shows "\<exists>s'. wear_leveling_init bs ram = (WEAR_LEVELING_SUCCESS, s') \<and> wl_inv bs ok mem s' \<and>
    cache s' = fold (\<lambda>(a, v) c. write_at c (unat a) v) ws (cache s)"
  using wl_init_restores [of "fold (\<lambda>(a, v) s. snd (wear_leveling_write bs a v s)) ws s" ram] write_blocks_wl [OF assms(1,2)] assms(3-5)
  by auto

end

sublocale reliable_store \<subseteq> wl: eeprom_device "wl_dev bs" "wl_inv bs ok mem" "WEAR_LEVELING_LOGICAL_SIZE bs" cache "\<lambda>_ _. True"
proof unfold_locales
  fix s a b
  show "wl_inv bs ok mem s \<Longrightarrow> a + length b \<le> L \<Longrightarrow> read_block (wl_dev bs) b a s = read_at (cache s) a (length b)"
    using wl_read_cache [of "of_nat a" b s] unat_addr [of a] by (simp add: wl_dev_def wl_eeprom_read_block_def)
  show "wl_inv bs ok mem s \<Longrightarrow> a + length b \<le> L \<Longrightarrow>
      wl_inv bs ok mem (write_block (wl_dev bs) b a s) \<and> cache (write_block (wl_dev bs) b a s) = write_at (cache s) a b"
    using wl_write_inv [of s "of_nat a" b] unat_addr [of a] by (auto simp: wl_dev_def wl_eeprom_write_block_def)
  show "wl_inv bs ok mem s \<Longrightarrow> wl_inv bs ok mem (driver_erase (wl_dev bs) s) \<and> cache (driver_erase (wl_dev bs) s) = replicate L 0"
    using wl_erase_inv [of s] by (auto simp: wl_dev_def wl_eeprom_driver_erase_def wl_inv_def)
qed (auto simp: wl_inv_def)

subsection \<open>Properties\<close>

definition demo_store :: "mock_flash backing_store" where
  "demo_store = legacy_store mock_ops []"

definition demo_wl :: "mock_flash wear_leveling" where
  "demo_wl = snd (wear_leveling_erase demo_store \<lparr>cache = [], write_address = 0, unlocked = False, backing = mock_blank\<rparr>)"

lemmas demo_reliable = mock.legacy.reliable_store_axioms [of "[]", folded demo_store_def]

lemma demo_wl_inv: "wl_inv demo_store mock_wf (legacy_mem mock_ops) demo_wl"
proof -
  obtain s' where "wear_leveling_erase demo_store \<lparr>cache = [], write_address = 0, unlocked = False, backing = mock_blank\<rparr> =
      (WEAR_LEVELING_SUCCESS, s')" "wl_inv demo_store mock_wf (legacy_mem mock_ops) s'"
    using reliable_store.wl_erase_inv [OF demo_reliable, of "\<lparr>cache = [], write_address = 0, unlocked = False, backing = mock_blank\<rparr>"]
    by auto
  then show ?thesis by (simp add: demo_wl_def)
qed

lemma demo_sizes: "WEAR_LEVELING_LOGICAL_SIZE demo_store = 1024"
  by (simp add: demo_store_def legacy_store_def)

text \<open>C4: On every reliable backing store, whatever was written to the wear-leveled EEPROM, log entries
  and consolidations included, is restored by the initialisation after a power cycle.\<close>
theorem wear_leveling_survives_power_cycle:
  assumes "reliable_store bs ok ready mem" "wl_inv bs ok mem s"
    "\<forall>(a, v) \<in> set ws. unat a + length v \<le> WEAR_LEVELING_LOGICAL_SIZE bs" "ok (backing ram)" "\<not> unlocked ram"
    "mem (backing ram) = mem (backing (fold (\<lambda>(a, v) s. snd (wear_leveling_write bs a v s)) ws s))"
  shows "\<exists>s'. wear_leveling_init bs ram = (WEAR_LEVELING_SUCCESS, s') \<and> wl_inv bs ok mem s' \<and>
    cache s' = fold (\<lambda>(a, v) c. write_at c (unat a) v) ws (cache s)"
  using reliable_store.restart_wl [OF assms] .

theorem wear_leveling_survives_power_cycle_witness:
  "\<exists>s'. wear_leveling_init demo_store \<lparr>cache = [], write_address = 7, unlocked = False,
      backing = backing (snd (wear_leveling_write demo_store 100 [1, 2, 3] demo_wl))\<rparr> = (WEAR_LEVELING_SUCCESS, s') \<and>
    wl_inv demo_store mock_wf (legacy_mem mock_ops) s' \<and> cache s' = write_at (cache demo_wl) 100 [1, 2, 3]"
  using wear_leveling_survives_power_cycle [OF demo_reliable demo_wl_inv, of "[(100, [1, 2, 3])]"
      "\<lparr>cache = [], write_address = 7, unlocked = False, backing = backing (snd (wear_leveling_write demo_store 100 [1, 2, 3] demo_wl))\<rparr>"]
    reliable_store.write_blocks_wl [OF demo_reliable demo_wl_inv, of "[(100, [1, 2, 3])]"]
  by (simp add: demo_sizes wl_inv_def del: write_at.simps)

text \<open>A write inside the logical range succeeds, keeps the invariant, and changes exactly the bytes
  written; a read returns the cached bytes.\<close>
lemma wear_leveling_write_then_read:
  assumes "reliable_store bs ok ready mem" "wl_inv bs ok mem s" "unat a + length v \<le> WEAR_LEVELING_LOGICAL_SIZE bs"
    "unat b + length buf \<le> WEAR_LEVELING_LOGICAL_SIZE bs"
  shows "\<exists>status s'. wear_leveling_write bs a v s = (status, s') \<and> status \<noteq> WEAR_LEVELING_FAILED \<and> wl_inv bs ok mem s' \<and>
    wear_leveling_read bs b buf s' = (WEAR_LEVELING_SUCCESS, read_at (write_at (cache s) (unat a) v) (unat b) (length buf))"
  using reliable_store.wl_write_inv [OF assms(1-3)] reliable_store.wl_read_cache [OF assms(1,4)] by metis

text \<open>The range check of reads and writes adds at 32 bits: an address just below the end of the
  address space passes it although it lies outside the logical area.\<close>
lemma range_check_wraps:
  assumes "WEAR_LEVELING_LOGICAL_SIZE bs < 2 ^ 32 - 1"
  shows "\<not> out_of_range bs 0xFFFFFFFF 1 \<and> WEAR_LEVELING_LOGICAL_SIZE bs < unat (0xFFFFFFFF :: u32)"
  using assms by (simp add: out_of_range_def)

text \<open>C39: The checksum is the FNV-1a hash: the shifts and additions multiply by the FNV prime modulo
  2 to the 64, one byte at a time.\<close>
theorem fnv_64a_is_fnv1a:
  "fnv_64a_buf bs h = foldl (\<lambda>h b. (h XOR ucast b) * FNV_64_PRIME) h bs"
  by (induction bs h rule: fnv_64a_buf.induct) (simp_all only: fnv_64a_buf.simps Let_def fnv_step_is_multiplication foldl.simps)

end
