(* ===== verification/Qmk_Ring.thy ===== *)
theory Qmk_Ring
  imports Qmk_Prelude
begin

text \<open>
  The two ring buffers of the Bluetooth code: \<^verbatim>\<open>report_buffer_queue\<close> (\<^verbatim>\<open>report_buffer.c\<close>, 512 slots) and
  \<^verbatim>\<open>bt_event_queue\<close> (\<^verbatim>\<open>bluetooth.c\<close>, 16 slots).  Both keep the slot at \<open>ring_head\<close> free, so they hold one element
  less than they have slots; when they are full the first drops the new element and the second the
  oldest one.  The contract they share is the locale \<open>bounded_queue\<close>, over the list of the elements held
  (oldest first) and the list they turn into when an element is offered.
\<close>

subsection \<open>Rings\<close>

record 'a ring =
  ring_slots :: "'a list"
  ring_head :: nat
  ring_tail :: nat

definition REPORT_BUFFER_QUEUE_SIZE :: nat where "REPORT_BUFFER_QUEUE_SIZE = 512"
definition BLUETOOTH_EVENT_QUEUE_SIZE :: nat where "BLUETOOTH_EVENT_QUEUE_SIZE = 16"

lemmas queue_sizes [simp] = REPORT_BUFFER_QUEUE_SIZE_def BLUETOOTH_EVENT_QUEUE_SIZE_def

definition report_buffer_enqueue :: "'a \<Rightarrow> 'a ring \<Rightarrow> bool \<times> 'a ring" where
  "report_buffer_enqueue report q =
    (let next = (ring_head q + 1) mod REPORT_BUFFER_QUEUE_SIZE in
     if next = ring_tail q then (False, q)
     else (True, q\<lparr>ring_slots := (ring_slots q)[ring_head q := report], ring_head := next\<rparr>))"

definition report_buffer_dequeue :: "'a ring \<Rightarrow> ('a \<times> 'a ring) option" where
  "report_buffer_dequeue q =
    (if ring_head q = ring_tail q then None
     else Some (ring_slots q ! ring_tail q, q\<lparr>ring_tail := (ring_tail q + 1) mod REPORT_BUFFER_QUEUE_SIZE\<rparr>))"

definition report_buffer_is_empty :: "'a ring \<Rightarrow> bool" where
  "report_buffer_is_empty q \<longleftrightarrow> ring_head q = ring_tail q"

definition bluetooth_event_queue_enqueue :: "'a \<Rightarrow> 'a ring \<Rightarrow> bool \<times> 'a ring" where
  "bluetooth_event_queue_enqueue event q =
    (let next = (ring_head q + 1) mod BLUETOOTH_EVENT_QUEUE_SIZE;
         q = (if next = ring_tail q then q\<lparr>ring_tail := (ring_tail q + 1) mod BLUETOOTH_EVENT_QUEUE_SIZE\<rparr> else q) in
     (True, q\<lparr>ring_slots := (ring_slots q)[ring_head q := event], ring_head := next\<rparr>))"

definition bluetooth_event_queue_dequeue :: "'a ring \<Rightarrow> ('a \<times> 'a ring) option" where
  "bluetooth_event_queue_dequeue q =
    (if ring_head q = ring_tail q then None
     else Some (ring_slots q ! ring_tail q, q\<lparr>ring_tail := (ring_tail q + 1) mod BLUETOOTH_EVENT_QUEUE_SIZE\<rparr>))"

subsection \<open>What a ring holds\<close>

definition ring_inv :: "nat \<Rightarrow> 'a ring \<Rightarrow> bool" where
  "ring_inv n q \<longleftrightarrow> length (ring_slots q) = n \<and> ring_head q < n \<and> ring_tail q < n"

definition ring_count :: "nat \<Rightarrow> 'a ring \<Rightarrow> nat" where
  "ring_count n q = (if ring_tail q \<le> ring_head q then ring_head q - ring_tail q else ring_head q + n - ring_tail q)"

definition ring_contents :: "nat \<Rightarrow> 'a ring \<Rightarrow> 'a list" where
  "ring_contents n q = map (\<lambda>i. ring_slots q ! ((ring_tail q + i) mod n)) [0..<ring_count n q]"

lemma length_ring_contents [simp]: "length (ring_contents n q) = ring_count n q"
  by (simp add: ring_contents_def)

lemma ring_next: "i < n \<Longrightarrow> Suc i mod n = (if Suc i = n then 0 else Suc i)"
  by (simp add: mod_Suc)

lemma ring_empty_iff: "ring_inv n q \<Longrightarrow> ring_contents n q = [] \<longleftrightarrow> ring_head q = ring_tail q"
  by (auto simp: ring_inv_def ring_contents_def ring_count_def)

lemma ring_full_iff:
  "ring_inv n q \<Longrightarrow> (ring_head q + 1) mod n = ring_tail q \<longleftrightarrow> length (ring_contents n q) + 1 = n"
  by (auto simp: ring_inv_def ring_next ring_count_def split: if_splits)

lemma ring_count_less: "ring_inv n q \<Longrightarrow> ring_count n q < n"
  by (auto simp: ring_inv_def ring_count_def)

text \<open>Storing at the head appends, advancing the tail drops the oldest element.\<close>

lemma ring_put:
  assumes "ring_inv n q" "(ring_head q + 1) mod n \<noteq> ring_tail q"
    "q' = q\<lparr>ring_slots := (ring_slots q)[ring_head q := x], ring_head := (ring_head q + 1) mod n\<rparr>"
  shows "ring_inv n q' \<and> ring_contents n q' = ring_contents n q @ [x]"
proof -
  have inv: "length (ring_slots q) = n" "ring_head q < n" "ring_tail q < n" using assms(1) by (simp_all add: ring_inv_def)
  have count: "ring_count n q' = Suc (ring_count n q)"
    using inv assms(2) by (auto simp: assms(3) ring_count_def ring_next)
  have last: "(ring_tail q + ring_count n q) mod n = ring_head q"
    using inv by (auto simp: ring_count_def)
  have other: "(ring_tail q + i) mod n \<noteq> ring_head q" if "i < ring_count n q" for i
  proof (cases "ring_tail q + i < n")
    case True
    then show ?thesis using that inv by (auto simp: ring_count_def split: if_splits)
  next
    case False
    moreover have "ring_tail q + i - n < n" using that inv by (auto simp: ring_count_def split: if_splits)
    ultimately have "(ring_tail q + i) mod n = ring_tail q + i - n" by (simp add: le_mod_geq)
    then show ?thesis using that inv False by (auto simp: ring_count_def split: if_splits)
  qed
  let ?slots = "(ring_slots q)[ring_head q := x]"
  have "map (\<lambda>i. ?slots ! ((ring_tail q + i) mod n)) [0..<ring_count n q] = ring_contents n q"
    unfolding ring_contents_def using other [symmetric] by (intro map_cong) auto
  moreover have "ring_contents n q' = map (\<lambda>i. ?slots ! ((ring_tail q + i) mod n)) ([0..<ring_count n q] @ [ring_count n q])"
    unfolding ring_contents_def count by (simp add: assms(3))
  moreover have "?slots ! ((ring_tail q + ring_count n q) mod n) = x" using inv last by simp
  ultimately have "ring_contents n q' = ring_contents n q @ [x]" by simp
  then show ?thesis using inv by (simp add: assms(3) ring_inv_def)
qed

lemma ring_drop:
  assumes "ring_inv n q" "ring_head q \<noteq> ring_tail q" "q' = q\<lparr>ring_tail := (ring_tail q + 1) mod n\<rparr>"
  shows "ring_inv n q' \<and> ring_contents n q = ring_slots q ! ring_tail q # ring_contents n q'"
proof -
  have inv: "length (ring_slots q) = n" "ring_head q < n" "ring_tail q < n" using assms(1) by (simp_all add: ring_inv_def)
  have count: "ring_count n q = Suc (ring_count n q')"
    using inv assms(2) by (auto simp: assms(3) ring_count_def ring_next)
  have "ring_contents n q = ring_slots q ! ring_tail q # map (\<lambda>i. ring_slots q ! ((ring_tail q + Suc i) mod n)) [0..<ring_count n q']"
    unfolding ring_contents_def count using inv by (simp add: upt_conv_Cons comp_def del: upt_Suc flip: map_Suc_upt)
  moreover have "(ring_tail q + Suc i) mod n = ((ring_tail q + 1) mod n + i) mod n" for i
    by (simp add: mod_simps)
  ultimately show ?thesis using inv by (simp add: assms(3) ring_inv_def ring_contents_def)
qed

subsection \<open>The contract\<close>

datatype 'a queue_op = Enqueue 'a | Dequeue

text \<open>The elements dequeued by a sequence of calls, on a queue and on a bounded list.\<close>

fun queue_outputs :: "('a \<Rightarrow> 'q \<Rightarrow> bool \<times> 'q) \<Rightarrow> ('q \<Rightarrow> ('a \<times> 'q) option) \<Rightarrow> 'a queue_op list \<Rightarrow> 'q \<Rightarrow> 'a list" where
  "queue_outputs enq deq [] q = []"
| "queue_outputs enq deq (Enqueue x # os) q = queue_outputs enq deq os (snd (enq x q))"
| "queue_outputs enq deq (Dequeue # os) q =
    (case deq q of None \<Rightarrow> queue_outputs enq deq os q | Some (x, q') \<Rightarrow> x # queue_outputs enq deq os q')"

definition offer :: "nat \<Rightarrow> ('a \<Rightarrow> 'a list \<Rightarrow> 'a list) \<Rightarrow> 'a \<Rightarrow> 'a list \<Rightarrow> 'a list" where
  "offer capacity full x xs = (if length xs < capacity then xs @ [x] else full x xs)"

fun list_outputs :: "('a \<Rightarrow> 'a list \<Rightarrow> 'a list) \<Rightarrow> 'a queue_op list \<Rightarrow> 'a list \<Rightarrow> 'a list" where
  "list_outputs put [] xs = []"
| "list_outputs put (Enqueue x # os) xs = list_outputs put os (put x xs)"
| "list_outputs put (Dequeue # os) [] = list_outputs put os []"
| "list_outputs put (Dequeue # os) (x # xs) = x # list_outputs put os xs"

locale bounded_queue =
  fixes contents :: "'q \<Rightarrow> 'a list"
    and inv :: "'q \<Rightarrow> bool"
    and enq :: "'a \<Rightarrow> 'q \<Rightarrow> bool \<times> 'q"
    and deq :: "'q \<Rightarrow> ('a \<times> 'q) option"
    and capacity :: nat
    and full :: "'a \<Rightarrow> 'a list \<Rightarrow> 'a list"
  assumes bounded: "inv q \<Longrightarrow> length (contents q) \<le> capacity"
    and enq_inv: "inv q \<Longrightarrow> inv (snd (enq x q))"
    and contents_enq: "inv q \<Longrightarrow> contents (snd (enq x q)) = offer capacity full x (contents q)"
    and deq_None: "inv q \<Longrightarrow> deq q = None \<longleftrightarrow> contents q = []"
    and deq_Some: "inv q \<Longrightarrow> deq q = Some (x, q') \<Longrightarrow> inv q' \<and> contents q = x # contents q'"
begin

lemma deq_Cons:
  assumes "inv q" "contents q = x # xs"
  obtains q' where "deq q = Some (x, q')" "inv q'" "contents q' = xs"
proof (cases "deq q")
  case None
  then show ?thesis using assms deq_None by simp
next
  case (Some p)
  then show ?thesis using assms that deq_Some [of q "fst p" "snd p"] by (cases p) auto
qed

lemma outputs_refine:
  "inv q \<Longrightarrow> queue_outputs enq deq os q = list_outputs (offer capacity full) os (contents q)"
proof (induction os arbitrary: q)
  case (Cons e os)
  show ?case
  proof (cases e)
    case (Enqueue x)
    then show ?thesis using Cons by (simp add: enq_inv contents_enq)
  next
    case Dequeue
    show ?thesis
    proof (cases "contents q")
      case Nil
      then show ?thesis using Cons deq_None [of q] by (simp add: Dequeue)
    next
      case (Cons x xs)
      obtain q' where "deq q = Some (x, q')" "inv q'" "contents q' = xs" using deq_Cons [OF Cons.prems Cons] .
      then show ?thesis using Cons.IH by (simp add: Dequeue Cons)
    qed
  qed
qed simp

end

text \<open>Both buffers dequeue in the same way.\<close>

lemma ring_dequeue:
  assumes "ring_inv n q"
    "d = (if ring_head q = ring_tail q then None else Some (ring_slots q ! ring_tail q, q\<lparr>ring_tail := (ring_tail q + 1) mod n\<rparr>))"
  shows "d = None \<longleftrightarrow> ring_contents n q = []"
    "d = Some (x, q') \<Longrightarrow> ring_inv n q' \<and> ring_contents n q = x # ring_contents n q'"
  using ring_drop [OF assms(1) _ refl] ring_empty_iff [OF assms(1)] by (auto simp: assms(2) split: if_splits)

interpretation report_queue: bounded_queue "ring_contents 512" "ring_inv 512" report_buffer_enqueue report_buffer_dequeue 511 "\<lambda>x xs. xs"
proof
  fix q q' :: "'a ring" and x :: 'a
  assume inv: "ring_inv 512 q"
  show "length (ring_contents 512 q) \<le> 511" using ring_count_less [OF inv] by simp
  note put = ring_put [OF inv _ refl, of x] and fulls = ring_full_iff [OF inv] ring_count_less [OF inv]
  show "ring_inv 512 (snd (report_buffer_enqueue x q))"
    using put inv by (simp add: report_buffer_enqueue_def Let_def)
  show "ring_contents 512 (snd (report_buffer_enqueue x q)) = offer 511 (\<lambda>x xs. xs) x (ring_contents 512 q)"
    using put fulls by (auto simp: report_buffer_enqueue_def Let_def offer_def)
  note deq = ring_dequeue [OF inv, of "report_buffer_dequeue q"]
  show "report_buffer_dequeue q = None \<longleftrightarrow> ring_contents 512 q = []"
    by (rule deq(1)) (simp add: report_buffer_dequeue_def)
  show "ring_inv 512 q' \<and> ring_contents 512 q = x # ring_contents 512 q'" if "report_buffer_dequeue q = Some (x, q')"
    using that by (rule deq(2) [rotated]) (simp add: report_buffer_dequeue_def)
qed

interpretation event_queue: bounded_queue "ring_contents 16" "ring_inv 16" bluetooth_event_queue_enqueue bluetooth_event_queue_dequeue 15
  "\<lambda>x xs. tl xs @ [x]"
proof
  fix q q' :: "'a ring" and x :: 'a
  assume inv: "ring_inv 16 q"
  show "length (ring_contents 16 q) \<le> 15" using ring_count_less [OF inv] by simp
  note fulls = ring_full_iff [OF inv] ring_count_less [OF inv]
  have enq: "ring_inv 16 (snd (bluetooth_event_queue_enqueue x q)) \<and>
    ring_contents 16 (snd (bluetooth_event_queue_enqueue x q)) = offer 15 (\<lambda>x xs. tl xs @ [x]) x (ring_contents 16 q)"
  proof (cases "(ring_head q + 1) mod 16 = ring_tail q")
    case False
    then show ?thesis
      using ring_put [OF inv _ refl, of x] fulls by (auto simp: bluetooth_event_queue_enqueue_def Let_def offer_def)
  next
    case True
    define p where "p = q\<lparr>ring_tail := (ring_tail q + 1) mod 16\<rparr>"
    have ne: "ring_head q \<noteq> ring_tail q" using True inv by (auto simp: ring_inv_def ring_next split: if_splits)
    have p: "ring_inv 16 p" "ring_contents 16 q = ring_slots q ! ring_tail q # ring_contents 16 p"
      using ring_drop [OF inv ne p_def] by simp_all
    have "(ring_head p + 1) mod 16 \<noteq> ring_tail p"
      using True inv by (auto simp: p_def ring_inv_def ring_next split: if_splits)
    note put = ring_put [OF p(1) this refl, of x]
    have "snd (bluetooth_event_queue_enqueue x q) =
        p\<lparr>ring_slots := (ring_slots p)[ring_head p := x], ring_head := (ring_head p + 1) mod 16\<rparr>"
      using True by (simp add: bluetooth_event_queue_enqueue_def Let_def p_def)
    then show ?thesis using put p(2) fulls True by (simp add: offer_def)
  qed
  then show "ring_inv 16 (snd (bluetooth_event_queue_enqueue x q))"
    "ring_contents 16 (snd (bluetooth_event_queue_enqueue x q)) = offer 15 (\<lambda>x xs. tl xs @ [x]) x (ring_contents 16 q)" by simp_all
  note deq = ring_dequeue [OF inv, of "bluetooth_event_queue_dequeue q"]
  show "bluetooth_event_queue_dequeue q = None \<longleftrightarrow> ring_contents 16 q = []"
    by (rule deq(1)) (simp add: bluetooth_event_queue_dequeue_def)
  show "ring_inv 16 q' \<and> ring_contents 16 q = x # ring_contents 16 q'" if "bluetooth_event_queue_dequeue q = Some (x, q')"
    using that by (rule deq(2) [rotated]) (simp add: bluetooth_event_queue_dequeue_def)
qed

text \<open>An empty ring, as the init functions leave it.\<close>

definition empty_ring :: "nat \<Rightarrow> 'a \<Rightarrow> 'a ring" where
  "empty_ring n x = \<lparr>ring_slots = replicate n x, ring_head = 0, ring_tail = 0\<rparr>"

lemma empty_ring_facts: "0 < n \<Longrightarrow> ring_inv n (empty_ring n x)" "ring_contents n (empty_ring n x) = []"
  by (simp_all add: empty_ring_def ring_inv_def ring_contents_def ring_count_def)

text \<open>C30: Whatever is enqueued and dequeued in whatever order, the report buffer delivers what a first-in
  first-out list of at most 511 elements that refuses new ones delivers, and the event queue what a list
  of at most 15 elements that forgets its oldest one delivers.\<close>
theorem ring_queues_refine_lists:
  "queue_outputs report_buffer_enqueue report_buffer_dequeue os (empty_ring REPORT_BUFFER_QUEUE_SIZE x) =
    list_outputs (offer 511 (\<lambda>x xs. xs)) os [] \<and>
   queue_outputs bluetooth_event_queue_enqueue bluetooth_event_queue_dequeue os (empty_ring BLUETOOTH_EVENT_QUEUE_SIZE x) =
    list_outputs (offer 15 (\<lambda>x xs. tl xs @ [x])) os []"
  using report_queue.outputs_refine [of "empty_ring 512 x" os] event_queue.outputs_refine [of "empty_ring 16 x" os]
  by (simp add: empty_ring_facts)

end
