(* ===== verification/Qmk_Ckbt51.thy ===== *)
theory Qmk_Ckbt51
  imports Qmk_Prelude
begin

text \<open>
  The serial protocol of the Bluetooth module (\<^verbatim>\<open>keyboards/keychron/bluetooth/ckbt51.c\<close>): the frames the
  keyboard sends, the frames it receives, and the firmware-update packets it passes between the module
  and raw HID.  A \<open>link\<close> holds the static variables of the file, the frames written to the serial port
  (newest first) and the bytes waiting in its input queue.  The payload buffer is cleared before each
  use, so a payload is the list of the bytes sent of it.  An access outside an array is the value \<open>None\<close>.
\<close>

subsection \<open>Frames\<close>

definition PACKECT_HEADER_LEN :: nat where "PACKECT_HEADER_LEN = 5"
definition PACKET_MAX_LEN :: nat where "PACKET_MAX_LEN = 64"
definition RAW_EPSIZE :: nat where "RAW_EPSIZE = 32"

lemmas packet_sizes [simp] = PACKECT_HEADER_LEN_def PACKET_MAX_LEN_def RAW_EPSIZE_def

definition CKBT51_CMD_SEND_KB :: u8 where "CKBT51_CMD_SEND_KB = 0x11"
definition CKBT51_CMD_SEND_KB_NKRO :: u8 where "CKBT51_CMD_SEND_KB_NKRO = 0x12"
definition CKBT51_CMD_SEND_CONSUMER :: u8 where "CKBT51_CMD_SEND_CONSUMER = 0x13"
definition CKBT51_CMD_SEND_SYSTEM :: u8 where "CKBT51_CMD_SEND_SYSTEM = 0x14"
definition CKBT51_CMD_SEND_MOUSE :: u8 where "CKBT51_CMD_SEND_MOUSE = 0x16"
definition CKBT51_CMD_PAIRING :: u8 where "CKBT51_CMD_PAIRING = 0x21"
definition CKBT51_CMD_CONNECT :: u8 where "CKBT51_CMD_CONNECT = 0x22"
definition CKBT51_CMD_DISCONNECT :: u8 where "CKBT51_CMD_DISCONNECT = 0x23"
definition CKBT51_CMD_SWITCH_HOST :: u8 where "CKBT51_CMD_SWITCH_HOST = 0x24"
definition CKBT51_CMD_READ_STATE_REG :: u8 where "CKBT51_CMD_READ_STATE_REG = 0x25"
definition CKBT51_CMD_GET_MODULE_INFO :: u8 where "CKBT51_CMD_GET_MODULE_INFO = 0x40"
definition CKBT51_CMD_SET_CONFIG :: u8 where "CKBT51_CMD_SET_CONFIG = 0x41"
definition CKBT51_CMD_GET_CONFIG :: u8 where "CKBT51_CMD_GET_CONFIG = 0x42"
definition CKBT51_CMD_SET_NAME :: u8 where "CKBT51_CMD_SET_NAME = 0x45"
definition CKBT51_CMD_GET_NAME :: u8 where "CKBT51_CMD_GET_NAME = 0x46"
definition CKBT51_CMD_FACTORY_RESET :: u8 where "CKBT51_CMD_FACTORY_RESET = 0x71"
definition CKBT51_CMD_INT_PIN_TEST :: u8 where "CKBT51_CMD_INT_PIN_TEST = 0x72"
definition CKBT51_CMD_RADIO_TEST :: u8 where "CKBT51_CMD_RADIO_TEST = 0x73"
definition CKBT51_CONNECTION_EVT_ACK :: u8 where "CKBT51_CONNECTION_EVT_ACK = 0xA4"
definition CKBT51_EVT_ACK :: u8 where "CKBT51_EVT_ACK = 0xA1"
definition CKBT51_EVT_QUERY_RSP :: u8 where "CKBT51_EVT_QUERY_RSP = 0xA2"
definition CKBT51_EVT_OTA_RSP :: u8 where "CKBT51_EVT_OTA_RSP = 0xA3"
definition CKBT51_EVT_RESET :: u8 where "CKBT51_EVT_RESET = 0xB0"
definition CKBT51_EVT_CONNECTION :: u8 where "CKBT51_EVT_CONNECTION = 0xB3"
definition CKBT51_EVT_HID_EVENT :: u8 where "CKBT51_EVT_HID_EVENT = 0xB4"
definition CKBT51_EVT_BATTERY :: u8 where "CKBT51_EVT_BATTERY = 0xB5"

lemmas ckbt51_report_codes = CKBT51_CMD_SEND_KB_def CKBT51_CMD_SEND_KB_NKRO_def CKBT51_CMD_SEND_CONSUMER_def
  CKBT51_CMD_SEND_SYSTEM_def CKBT51_CMD_SEND_MOUSE_def
lemmas ckbt51_event_codes = CKBT51_EVT_ACK_def CKBT51_EVT_QUERY_RSP_def CKBT51_EVT_OTA_RSP_def CKBT51_EVT_RESET_def
  CKBT51_EVT_CONNECTION_def CKBT51_EVT_HID_EVENT_def CKBT51_EVT_BATTERY_def

record link =
  link_sn :: u8
  dfu_sn :: u8
  reg_offset :: u8
  serial_out :: "u8 list list"
  serial_in :: "u8 list"
  wait_for_new_pkt :: bool
  pkt_len :: u8
  pkt_sn :: u8

definition checksum16 :: "u8 list \<Rightarrow> u16" where
  "checksum16 bs = foldl (\<lambda>sum b. sum + ucast b) 0 bs"

definition low_byte :: "u16 \<Rightarrow> u8" where "low_byte w = ucast (w AND 0xFF)"
definition high_byte :: "u16 \<Rightarrow> u8" where "high_byte w = ucast (drop_bit 8 w AND 0xFF)"

definition next_sn :: "bool \<Rightarrow> u8 \<Rightarrow> u8" where
  "next_sn retry sn = (let sn = (if retry then sn else sn + 1) in if sn = 0 then sn + 1 else sn)"

definition frame :: "u8 \<Rightarrow> u8 \<Rightarrow> u8 list \<Rightarrow> u8 list" where
  "frame mark sn payload =
    (let len = of_nat (length payload) :: u8 in
     [0xAA, mark, len + 2, NOT (len + 2), sn] @ payload @ [low_byte (checksum16 payload), high_byte (checksum16 payload)])"

text \<open>The level of the wake-up pin and the waiting around it are left out.\<close>

definition ckbt51_send_cmd :: "u8 list \<Rightarrow> bool \<Rightarrow> bool \<Rightarrow> link \<Rightarrow> link" where
  "ckbt51_send_cmd payload ack_enable retry s =
    (let sn = next_sn retry (link_sn s) in
     s\<lparr>link_sn := sn, serial_out := frame (if ack_enable then 0x56 else 0x55) sn payload # serial_out s\<rparr>)"

subsection \<open>Commands\<close>

definition ckbt51_send_keyboard :: "u8 list \<Rightarrow> link \<Rightarrow> link" where
  "ckbt51_send_keyboard report = ckbt51_send_cmd (CKBT51_CMD_SEND_KB # take 8 report) True False"

definition ckbt51_send_nkro :: "u8 list \<Rightarrow> link \<Rightarrow> link" where
  "ckbt51_send_nkro report = ckbt51_send_cmd (CKBT51_CMD_SEND_KB_NKRO # take 20 report) True False"

definition ckbt51_send_consumer :: "u16 \<Rightarrow> link \<Rightarrow> link" where
  "ckbt51_send_consumer report =
    ckbt51_send_cmd [CKBT51_CMD_SEND_CONSUMER, low_byte report, high_byte report, 0, 0, 0, 0] True False"

definition ckbt51_send_system :: "u16 \<Rightarrow> link \<Rightarrow> link" where
  "ckbt51_send_system report s =
    (if report AND 0xFF \<noteq> 0x82 then s
     else ckbt51_send_cmd [CKBT51_CMD_SEND_SYSTEM, bitmask (unat (report AND 0xFF) - 0x82)] True False s)"

definition sign_byte :: "u8 \<Rightarrow> u8" where "sign_byte b = (if b AND 0x80 \<noteq> 0 then 0xFF else 0)"

definition ckbt51_send_mouse :: "u8 list \<Rightarrow> link \<Rightarrow> link" where
  "ckbt51_send_mouse report = ckbt51_send_cmd
    [CKBT51_CMD_SEND_MOUSE, report ! 1, report ! 2, sign_byte (report ! 2), report ! 3, sign_byte (report ! 3), report ! 4, report ! 5]
    False False"

definition ckbt51_send_conn_evt_ack :: "link \<Rightarrow> link" where
  "ckbt51_send_conn_evt_ack = ckbt51_send_cmd [CKBT51_CONNECTION_EVT_ACK] False False"

record pairing_param_t =
  pairing_timeout :: u16
  pairingMode :: u8
  BRorLE :: u8
  txPower :: u8
  leName :: "u8 list option"

definition default_pairing_param :: pairing_param_t where
  "default_pairing_param = \<lparr>pairing_timeout = 0, pairingMode = 3, BRorLE = 1, txPower = 0, leName = None\<rparr>"

definition ckbt51_become_discoverable :: "u8 \<Rightarrow> pairing_param_t option \<Rightarrow> link \<Rightarrow> link" where
  "ckbt51_become_discoverable host_idx param =
    (let p = (case param of None \<Rightarrow> default_pairing_param | Some p \<Rightarrow> p) in
     ckbt51_send_cmd ([CKBT51_CMD_PAIRING, host_idx, low_byte (pairing_timeout p), high_byte (pairing_timeout p),
       pairingMode p, BRorLE p, txPower p] @ (case leName p of None \<Rightarrow> [] | Some name \<Rightarrow> name)) True False)"

definition ckbt51_connect :: "u8 \<Rightarrow> u16 \<Rightarrow> link \<Rightarrow> link" where
  "ckbt51_connect hostIndex timeout =
    ckbt51_send_cmd [CKBT51_CMD_CONNECT, hostIndex, low_byte timeout, high_byte timeout] True False"

definition ckbt51_disconnect :: "link \<Rightarrow> link" where
  "ckbt51_disconnect = ckbt51_send_cmd [CKBT51_CMD_DISCONNECT, 0] True False"

definition ckbt51_switch_host :: "u8 \<Rightarrow> link \<Rightarrow> link" where
  "ckbt51_switch_host hostIndex = ckbt51_send_cmd [CKBT51_CMD_SWITCH_HOST, hostIndex] True False"

definition ckbt51_read_state_reg :: "u8 \<Rightarrow> u8 \<Rightarrow> link \<Rightarrow> link" where
  "ckbt51_read_state_reg reg len s =
    ckbt51_send_cmd [CKBT51_CMD_READ_STATE_REG, reg, len] False False (s\<lparr>reg_offset := reg\<rparr>)"

definition ckbt51_get_info :: "link \<Rightarrow> link" where
  "ckbt51_get_info = ckbt51_send_cmd [CKBT51_CMD_GET_MODULE_INFO] False False"

definition ckbt51_get_param :: "link \<Rightarrow> link" where
  "ckbt51_get_param = ckbt51_send_cmd [CKBT51_CMD_GET_CONFIG] False False"

text \<open>The parameters as the bytes of the packed structure.\<close>

record module_param_t =
  event_mode :: u8
  connected_idle_timeout :: u16
  param_pairing_timeout :: u16
  pairing_mode :: u8
  reconnect_timeout :: u16
  report_rate :: u8
  rsvd1 :: u8
  rsvd2 :: u8
  vendor_id_source :: u8
  verndor_id :: u16
  product_id :: u16
  le_connection_interval_min :: u16
  le_connection_interval_max :: u16
  le_connection_interval_timeout :: u16

definition le16 :: "u16 \<Rightarrow> u8 list" where "le16 w = [low_byte w, high_byte w]"

definition module_param_bytes :: "module_param_t \<Rightarrow> u8 list" where
  "module_param_bytes p = [event_mode p] @ le16 (connected_idle_timeout p) @ le16 (param_pairing_timeout p) @ [pairing_mode p] @
    le16 (reconnect_timeout p) @ [report_rate p, rsvd1 p, rsvd2 p, vendor_id_source p] @ le16 (verndor_id p) @ le16 (product_id p) @
    le16 (le_connection_interval_min p) @ le16 (le_connection_interval_max p) @ le16 (le_connection_interval_timeout p)"

definition ckbt51_set_param :: "module_param_t \<Rightarrow> link \<Rightarrow> link" where
  "ckbt51_set_param param = ckbt51_send_cmd (CKBT51_CMD_SET_CONFIG # module_param_bytes param) True False"

text \<open>The length of the name is cut to a byte.\<close>

definition ckbt51_set_local_name :: "u8 list \<Rightarrow> link \<Rightarrow> link" where
  "ckbt51_set_local_name name =
    (let len = of_nat (length name) :: u8 in ckbt51_send_cmd (CKBT51_CMD_SET_NAME # take (unat len) name) True False)"

definition ckbt51_get_local_name :: "link \<Rightarrow> link" where
  "ckbt51_get_local_name = ckbt51_send_cmd [CKBT51_CMD_GET_NAME] False False"

definition ckbt51_factory_reset :: "link \<Rightarrow> link" where
  "ckbt51_factory_reset = ckbt51_send_cmd [CKBT51_CMD_FACTORY_RESET] False False"

definition ckbt51_int_pin_test :: "bool \<Rightarrow> link \<Rightarrow> link" where
  "ckbt51_int_pin_test enable = ckbt51_send_cmd [CKBT51_CMD_INT_PIN_TEST, if enable then 1 else 0] False False"

definition ckbt51_radio_test :: "u8 \<Rightarrow> link \<Rightarrow> link" where
  "ckbt51_radio_test channel = ckbt51_send_cmd [CKBT51_CMD_RADIO_TEST, channel, 0] False False"

subsection \<open>Firmware update\<close>

text \<open>
  A raw HID packet for the module is checked and passed on.  The two checksum bytes are read at
  \<^verbatim>\<open>payload[payload_len - 2]\<close> and \<^verbatim>\<open>payload[payload_len - 1]\<close>, which for a length below two are bytes of the header.
\<close>

definition ckbt51_dfu_rx :: "u8 list \<Rightarrow> link \<Rightarrow> link" where
  "ckbt51_dfu_rx data s =
    (if data ! 0 = 0xAA \<and> (data ! 1 = 0x55 \<or> data ! 1 = 0x56) \<and> data ! 2 = NOT (data ! 3) then
       let payload_len = data ! 2; n = unat payload_len; payload = drop PACKECT_HEADER_LEN data in
       if RAW_EPSIZE - PACKECT_HEADER_LEN < n then s
       else let checksum = checksum16 (take (n - 2) payload) in
         if checksum AND 0xFF \<noteq> ucast (data ! (PACKECT_HEADER_LEN + n - 2)) \<or>
            drop_bit 8 checksum \<noteq> ucast (data ! (PACKECT_HEADER_LEN + n - 1)) then s
         else let retry = (dfu_sn s = data ! 4); s = s\<lparr>dfu_sn := data ! 4\<rparr> in
           if payload ! 0 AND 0xF0 = 0x60
           then ckbt51_send_cmd (take (unat (payload_len - 2)) payload) (data ! 1 = 0x56) retry s else s
     else s)"

text \<open>A copy into a buffer of the size of the list.\<close>

definition copy_into :: "u8 list \<Rightarrow> nat \<Rightarrow> u8 list \<Rightarrow> u8 list option" where
  "copy_into buf i bs =
    (if i + length bs \<le> length buf then Some (take i buf @ bs @ drop (i + length bs) buf) else None)"

text \<open>
  The reports sent to raw HID.  The sum the function computes is not used; its loop reads
  \<^verbatim>\<open>buf[i]\<close> at the end of the data.
\<close>

definition ckbt51_dfu_tx :: "u8 \<Rightarrow> u8 list \<Rightarrow> u8 \<Rightarrow> u8 list list option" where
  "ckbt51_dfu_tx rsp data sn =
    (let len = of_nat (length data) :: u8; n = length data in
     case copy_into ([0x03, 0xAA, 0x57, len, NOT len, sn, rsp] @ replicate (RAW_EPSIZE - 7) 0) 7 data of
       None \<Rightarrow> None
     | Some buf \<Rightarrow>
         if n \<le> 25 then Some [buf]
         else case copy_into (0x03 # replicate (RAW_EPSIZE - 1) 0) 1 (drop 25 data) of
             None \<Rightarrow> None
           | Some buf2 \<Rightarrow> Some [buf, buf2])"

subsection \<open>Receiving\<close>

text \<open>The header is read while five bytes are waiting; a first byte that does not match leaves the rest.\<close>

definition read_header :: "link \<Rightarrow> link" where
  "read_header s =
    (if wait_for_new_pkt s \<and> PACKECT_HEADER_LEN \<le> length (serial_in s) then
       let q = serial_in s in
       if q ! 0 \<noteq> 0xAA then s\<lparr>serial_in := drop 1 q\<rparr>
       else if q ! 1 \<noteq> 0x57 then s\<lparr>serial_in := drop 2 q\<rparr>
       else let s = s\<lparr>serial_in := drop 5 q\<rparr> in
         if NOT (q ! 2) = q ! 3 then s\<lparr>pkt_len := q ! 2, pkt_sn := q ! 4, wait_for_new_pkt := False\<rparr> else s
     else s)"

text \<open>
  The body goes to a buffer of 32 bytes and is checked against its last two bytes: a length
  above 32 or below two leaves the buffer.  A packet that passes is handed to the event handler as its type,
  the buffer behind the type, the length and the sequence number.
\<close>

type_synonym packet = "u8 \<times> u8 list \<times> u8 \<times> u8"

definition read_body :: "link \<Rightarrow> (link \<times> packet option) option" where
  "read_body s =
    (let n = unat (pkt_len s) in
     if \<not> wait_for_new_pkt s \<and> n \<le> length (serial_in s) then
       case copy_into (replicate 32 0) 0 (take n (serial_in s)) of
         None \<Rightarrow> None
       | Some buf \<Rightarrow>
           if n < 2 then None
           else let s = s\<lparr>serial_in := drop n (serial_in s), wait_for_new_pkt := True\<rparr>;
                    checksum = checksum16 (take (n - 2) buf) in
             if checksum AND 0xFF = ucast (buf ! (n - 2)) \<and> drop_bit 8 checksum AND 0xFF = ucast (buf ! (n - 1))
             then Some (s, Some (buf ! 0, drop 1 buf, pkt_len s - 3, pkt_sn s)) else Some (s, None)
     else Some (s, None))"

definition ckbt51_task :: "link \<Rightarrow> (link \<times> packet option) option" where
  "ckbt51_task s = read_body (read_header s)"

subsection \<open>Properties\<close>

lemma ucast_16_inj: "(ucast a :: u16) = ucast b \<longleftrightarrow> a = (b :: u8)"
proof
  assume "(ucast a :: u16) = ucast b"
  then have same: "bit (ucast a :: u16) n = bit (ucast b :: u16) n" for n by simp
  show "a = b"
  proof (rule bit_word_eqI)
    fix n assume "n < LENGTH(8)"
    then show "bit a n = bit b n" using same [of n] by (simp add: bit_simps)
  qed
qed simp

lemma mask_8: "(0xFF :: u16) = mask 8"
  by (simp add: mask_eq_exp_minus_1)

lemma low_byte_cast: "ucast (low_byte w) = w AND 0xFF"
  unfolding low_byte_def mask_8 by (rule bit_word_eqI) (auto simp: bit_simps)

lemma high_byte_cast: "ucast (high_byte w) = drop_bit 8 w"
  unfolding high_byte_def mask_8 by (rule bit_word_eqI) (auto simp: bit_simps dest: bit_imp_le_length)

lemma high_byte_and: "drop_bit 8 w AND 0xFF = (drop_bit 8 w :: u16)"
  unfolding mask_8 by (rule bit_word_eqI) (auto simp: bit_simps dest: bit_imp_le_length)

lemma frame_fields:
  assumes "length payload < 254"
  shows "frame mark sn payload ! 0 = 0xAA" "frame mark sn payload ! 1 = mark"
    "unat (frame mark sn payload ! 2) = length payload + 2" "frame mark sn payload ! 3 = NOT (frame mark sn payload ! 2)"
    "frame mark sn payload ! 4 = sn" "drop 5 (frame mark sn payload) = payload @ [low_byte (checksum16 payload), high_byte (checksum16 payload)]"
    "length (frame mark sn payload) = length payload + 7"
  using assms by (simp_all add: frame_def Let_def unat_word_ariths unat_of_nat)

text \<open>The two bytes behind the payload of a frame pass the check.\<close>

lemma frame_checksum:
  fixes p :: "u8 list"
  defines "c \<equiv> checksum16 p"
  assumes "buf = p @ [low_byte c, high_byte c] @ rest"
  shows "take (length p) buf = p" "c AND 0xFF = ucast (buf ! length p)" "drop_bit 8 c = ucast (buf ! Suc (length p))"
  unfolding assms(2) by (simp_all add: nth_append low_byte_cast high_byte_cast)

lemma task_receives_frame:
  assumes "wait_for_new_pkt s" "serial_in s = frame 0x57 sn (evt # data) @ rest" "length data < 30"
  shows "\<exists>s' buf. ckbt51_task s = Some (s', Some (evt, data @ buf, of_nat (length data), sn)) \<and>
    wait_for_new_pkt s' \<and> serial_in s' = rest \<and> serial_out s' = serial_out s"
proof -
  let ?p = "evt # data"
  let ?f = "frame 0x57 sn ?p"
  let ?tail = "[low_byte (checksum16 ?p), high_byte (checksum16 ?p)]"
  have len: "length ?p < 254" using assms(3) by simp
  note f = frame_fields [OF len, of "0x57" sn]
  define h where "h = read_header s"
  have q: "serial_in s = [0xAA, 0x57, ?f ! 2, NOT (?f ! 2), sn] @ ?p @ ?tail @ rest"
    unfolding assms(2) by (simp add: frame_def Let_def)
  have h: "h = s\<lparr>serial_in := ?p @ ?tail @ rest, pkt_len := ?f ! 2, pkt_sn := sn, wait_for_new_pkt := False\<rparr>"
    using assms(1) by (simp add: h_def read_header_def q Let_def)
  define n where "n = length ?p"
  define buf where "buf = ?p @ ?tail @ replicate (32 - (n + 2)) 0"
  have n: "unat (pkt_len h) = n + 2" using f(3) by (simp add: h n_def)
  have copy: "copy_into (replicate 32 0) 0 (take (n + 2) (serial_in h)) = Some buf"
    using assms(3) by (simp add: copy_into_def h n_def buf_def)
  note chk = frame_checksum [OF buf_def]
  have b: "take n buf = ?p" "checksum16 ?p AND 0xFF = ucast (buf ! n)" "drop_bit 8 (checksum16 ?p) AND 0xFF = ucast (buf ! Suc n)"
    unfolding high_byte_and using chk by (simp_all only: n_def)
  have "pkt_len h - 3 = of_nat (length data)"
    by (simp add: h frame_def Let_def)
  then have "read_body h = Some (h\<lparr>serial_in := rest, wait_for_new_pkt := True\<rparr>,
      Some (evt, data @ ?tail @ replicate (32 - (n + 2)) 0, of_nat (length data), sn))"
    unfolding read_body_def n using copy b by (simp add: Let_def) (simp add: h n_def buf_def)
  then show ?thesis by (auto simp: ckbt51_task_def h_def [symmetric] h)
qed

definition idle_link :: link where
  "idle_link = \<lparr>link_sn = 0, dfu_sn = 0, reg_offset = 0xFF, serial_out = [], serial_in = [], wait_for_new_pkt = True,
    pkt_len = 0xFF, pkt_sn = 0\<rparr>"



text \<open>The receive buffer has 32 bytes and the length of a packet comes from the module: a packet with a
  longer body, or a body of less than two bytes, makes the task access memory outside the
  buffer, and so does the forwarding of a firmware-update response of more than 25 bytes.\<close>
lemma module_packet_overflow:
  "(read_body s = None \<longleftrightarrow> \<not> wait_for_new_pkt s \<and> unat (pkt_len s) \<le> length (serial_in s) \<and>
      (32 < unat (pkt_len s) \<or> unat (pkt_len s) < 2)) \<and>
   (ckbt51_dfu_tx rsp data sn = None \<longleftrightarrow> 25 < length data)"
  by (auto simp: read_body_def copy_into_def ckbt51_dfu_tx_def Let_def)

lemma take_5: "5 \<le> length xs \<Longrightarrow> take 5 xs = [xs ! 0, xs ! 1, xs ! 2, xs ! 3, xs ! 4]"
  by (rule nth_equalityI) (auto simp: less_Suc_eq numeral_eq_Suc)

text \<open>The packets of raw HID that are frames of a firmware-update command.\<close>

definition dfu_frame :: "u8 list \<Rightarrow> u8 list \<Rightarrow> bool" where
  "dfu_frame payload data \<longleftrightarrow> payload \<noteq> [] \<and> length payload \<le> 25 \<and> (data ! 1 = 0x55 \<or> data ! 1 = 0x56) \<and>
    payload ! 0 AND 0xF0 = 0x60 \<and> take (length payload + 7) data = frame (data ! 1) (data ! 4) payload"

lemma dfu_frame_fields:
  assumes "dfu_frame payload data" "length data = 32"
  shows "data ! 0 = 0xAA" "unat (data ! 2) = length payload + 2" "data ! 2 = NOT (data ! 3)"
    "take (length payload) (drop 5 data) = payload" "drop 5 data ! 0 = payload ! 0"
    "checksum16 payload AND 0xFF = ucast (data ! (5 + length payload))"
    "drop_bit 8 (checksum16 payload) = ucast (data ! (6 + length payload))"
proof -
  let ?f = "frame (data ! 1) (data ! 4) payload"
  have p: "payload \<noteq> []" "length payload < 254" "length payload + 7 \<le> 32" and t: "take (length payload + 7) data = ?f"
    using assms(1) by (auto simp: dfu_frame_def)
  note f = frame_fields [OF p(2), of "data ! 1" "data ! 4"]
  have nth: "data ! i = ?f ! i" if "i < length payload + 7" for i
    unfolding t [symmetric] using that by simp
  show "data ! 0 = 0xAA" "unat (data ! 2) = length payload + 2" "data ! 2 = NOT (data ! 3)"
    using f nth [of 0] nth [of 2] nth [of 3] by simp_all
  have d: "drop 5 data = payload @ [low_byte (checksum16 payload), high_byte (checksum16 payload)] @ drop (length payload + 7) data"
  proof -
    have "drop 5 data = drop 5 (?f @ drop (length payload + 7) data)" unfolding t [symmetric] by simp
    then show ?thesis using f(6,7) by simp
  qed
  note chk = frame_checksum [OF d]
  have i: "data ! (5 + k) = drop 5 data ! k" for k using assms(2) by (simp add: add.commute)
  show "take (length payload) (drop 5 data) = payload" "drop 5 data ! 0 = payload ! 0"
    using d p(1) by (simp_all add: nth_append)
  show "checksum16 payload AND 0xFF = ucast (data ! (5 + length payload))" using chk(2) i by simp
  show "drop_bit 8 (checksum16 payload) = ucast (data ! (6 + length payload))"
    using chk(3) i [of "Suc (length payload)"] by simp
qed

text \<open>The firmware-update receiver writes nothing to the module but the payload of a raw packet that is
  a complete frame of one to 25 payload bytes, and such a packet it always passes on; a length too short
  for the checksum never gets through, although the checksum position and the length wrap there.\<close>
lemma dfu_packet_forwarded:
  assumes "length data = 32"
  shows "(\<forall>payload. dfu_frame payload data \<longrightarrow>
      serial_out (ckbt51_dfu_rx data s) = frame (data ! 1) (next_sn (dfu_sn s = data ! 4) (link_sn s)) payload # serial_out s) \<and>
    (serial_out (ckbt51_dfu_rx data s) \<noteq> serial_out s \<longrightarrow> (\<exists>payload. dfu_frame payload data))"
proof (intro conjI allI impI)
  fix payload
  assume d: "dfu_frame payload data"
  note f = dfu_frame_fields [OF d assms]
  have p: "data ! 1 = 0x55 \<or> data ! 1 = 0x56" "payload ! 0 AND 0xF0 = 0x60" "length payload \<le> 25" using d by (auto simp: dfu_frame_def)
  have l: "unat (data ! 2 - 2) = length payload"
    using f(2) by (simp add: unat_sub word_le_nat_alt)
  have c1: "data ! 0 = 0xAA \<and> (data ! 1 = 0x55 \<or> data ! 1 = 0x56) \<and> data ! 2 = NOT (data ! 3)" using p f by blast
  have c2: "\<not> RAW_EPSIZE - PACKECT_HEADER_LEN < unat (data ! 2)" using p f(2) by simp
  have c3: "\<not> (checksum16 (take (unat (data ! 2) - 2) (drop PACKECT_HEADER_LEN data)) AND 0xFF \<noteq> ucast (data ! (PACKECT_HEADER_LEN + unat (data ! 2) - 2)) \<or>
      drop_bit 8 (checksum16 (take (unat (data ! 2) - 2) (drop PACKECT_HEADER_LEN data))) \<noteq> ucast (data ! (PACKECT_HEADER_LEN + unat (data ! 2) - 1)))"
    using f(4,6,7) by (simp add: f(2))
  have c4: "drop PACKECT_HEADER_LEN data ! 0 AND 0xF0 = 0x60" using p f(5) by simp
  show "serial_out (ckbt51_dfu_rx data s) = frame (data ! 1) (next_sn (dfu_sn s = data ! 4) (link_sn s)) payload # serial_out s"
    unfolding ckbt51_dfu_rx_def Let_def if_P [OF c1] if_not_P [OF c2] if_not_P [OF c3] if_P [OF c4]
    using p(1) f(4) by (auto simp: l ckbt51_send_cmd_def Let_def)
next
  assume ne: "serial_out (ckbt51_dfu_rx data s) \<noteq> serial_out s"
  define n where "n = unat (data ! 2)"
  have g: "data ! 0 = 0xAA" "data ! 1 = 0x55 \<or> data ! 1 = 0x56" "data ! 2 = NOT (data ! 3)" "n \<le> 27" "drop 5 data ! 0 AND 0xF0 = 0x60"
      "checksum16 (take (n - 2) (drop 5 data)) AND 0xFF = ucast (data ! (5 + n - 2))"
      "drop_bit 8 (checksum16 (take (n - 2) (drop 5 data))) = ucast (data ! (5 + n - 1))"
    using ne by (auto simp: ckbt51_dfu_rx_def Let_def n_def split: if_splits)
  have zero: "ucast w = (0 :: u16) \<longleftrightarrow> w = 0" for w :: u8 using ucast_16_inj [of w 0] by simp
  have n: "2 < n"
  proof (rule ccontr)
    assume "\<not> 2 < n"
    then have "checksum16 (take (n - 2) (drop 5 data)) = 0" "n = 0 \<or> n = 1 \<or> n = 2" by (auto simp: checksum16_def)
    then have "n = 0 \<and> data ! 3 = 0 \<or> n \<noteq> 0 \<and> data ! 5 = 0" using g(6,7) zero by (auto simp: numeral_eq_Suc)
    then show False
    proof
      assume z: "n = 0 \<and> data ! 3 = 0"
      then have "data ! 2 = 0" by (simp add: n_def unat_eq_0)
      then show False using g(3) z by simp
    next
      assume "n \<noteq> 0 \<and> data ! 5 = 0"
      then show False using g(5) assms by simp
    qed
  qed
  define payload where "payload = take (n - 2) (drop 5 data)"
  let ?c = "checksum16 payload"
  have len: "length payload = n - 2" using g(4) assms by (simp add: payload_def)
  have chk: "data ! (n + 3) = low_byte ?c" "data ! (n + 4) = high_byte ?c"
    using g(6,7) n by (auto simp: payload_def add.commute simp flip: ucast_16_inj simp: low_byte_cast high_byte_cast)
  have two: "of_nat (n - 2) + 2 = data ! 2"
  proof -
    have "of_nat (n - 2) + 2 = (of_nat n :: u8)" using n by (simp add: of_nat_diff)
    then show ?thesis by (simp add: n_def)
  qed
  have "take (n + 5) data = take 5 data @ take (n - 2) (drop 5 data) @ [data ! (n + 3), data ! (n + 4)]"
  proof -
    have "take (Suc (Suc (n + 3))) data = take (n + 3) data @ [data ! (n + 3), data ! Suc (n + 3)]"
      using g(4) assms by (simp only: take_Suc_conv_app_nth) (simp add: take_Suc_conv_app_nth)
    moreover have "Suc (Suc (n + 3)) = n + 5" "Suc (n + 3) = n + 4" "n + 3 = 5 + (n - 2)" using n by simp_all
    ultimately show ?thesis by (simp only: take_add append_assoc)
  qed
  also have "\<dots> = frame (data ! 1) (data ! 4) payload"
    using g(1,3) by (simp add: frame_def Let_def len two chk) (simp add: payload_def take_5 assms)
  finally have t0: "take (n + 5) data = frame (data ! 1) (data ! 4) payload" .
  have "length payload + 7 = n + 5" using n by (simp add: len)
  with t0 have t: "take (length payload + 7) data = frame (data ! 1) (data ! 4) payload" by (simp only:)
  have "payload \<noteq> []" "length payload \<le> 25" "payload ! 0 = drop 5 data ! 0"
    using n g(4) assms len by (auto simp: payload_def)
  then have "dfu_frame payload data" using t g(2,5) unfolding dfu_frame_def by simp
  then show "\<exists>payload. dfu_frame payload data" by blast
qed

end
