(* ===== verification/Qmk_Host.thy ===== *)
theory Qmk_Host
  imports Qmk_Report
begin

text \<open>
  The host interface of \<^verbatim>\<open>tmk_core/protocol/host.c\<close>: the driver that reports go to, the remembered usages
  of the system and consumer pages, and the sending functions.  What the drivers receive is recorded
  in \<open>sent\<close>, newest first.  The two drivers are those the keyboard switches between.
\<close>

datatype host_driver_t = chibios_driver | bluetooth_driver

definition REPORT_ID_MOUSE :: u8 where "REPORT_ID_MOUSE = 2"
definition REPORT_ID_SYSTEM :: u8 where "REPORT_ID_SYSTEM = 3"
definition REPORT_ID_CONSUMER :: u8 where "REPORT_ID_CONSUMER = 4"
definition REPORT_ID_NKRO :: u8 where "REPORT_ID_NKRO = 6"

text \<open>The mouse report of the shared endpoint; the extended variant is not configured.\<close>

record report_mouse_t =
  mouse_report_id :: u8
  buttons :: u8
  mouse_x :: u8
  mouse_y :: u8
  mouse_v :: u8
  mouse_h :: u8

datatype report =
    Keyboard_report report_keyboard_t
  | Mouse_report report_mouse_t
  | Extra_report u8 u16

record host =
  driver :: "host_driver_t option"
  last_system_usage :: u16
  last_consumer_usage :: u16
  sent :: "(host_driver_t \<times> report) list"

definition host_set_driver :: "host_driver_t option \<Rightarrow> host \<Rightarrow> host" where
  "host_set_driver d s = s\<lparr>driver := d\<rparr>"

definition host_get_driver :: "host \<Rightarrow> host_driver_t option" where
  "host_get_driver s = driver s"

definition host_keyboard_leds :: "(host_driver_t \<Rightarrow> u8) \<Rightarrow> host \<Rightarrow> u8" where
  "host_keyboard_leds keyboard_leds s = (case driver s of None \<Rightarrow> 0 | Some d \<Rightarrow> keyboard_leds d)"

definition to_driver :: "report \<Rightarrow> host \<Rightarrow> host" where
  "to_driver r s = (case driver s of None \<Rightarrow> s | Some d \<Rightarrow> s\<lparr>sent := (d, r) # sent s\<rparr>)"

text \<open>
  The report is passed by reference and rewritten in place in NKRO mode: the modifiers move from the
  boot position (byte 0) to the NKRO position (byte 1), and byte 0 becomes the report id.  The result
  is the caller's report after the call.
\<close>

definition host_keyboard_send :: "host_mode \<Rightarrow> report_keyboard_t \<Rightarrow> host \<Rightarrow> report_keyboard_t \<times> host" where
  "host_keyboard_send h report s =
    (if driver s = None then (report, s)
     else let report = (if nkro_on h then report[1 := report_mods report, 0 := REPORT_ID_NKRO] else report) in
       (report, to_driver (Keyboard_report report) s))"

definition host_mouse_send :: "report_mouse_t \<Rightarrow> host \<Rightarrow> report_mouse_t \<times> host" where
  "host_mouse_send report s =
    (if driver s = None then (report, s)
     else let report = report\<lparr>mouse_report_id := REPORT_ID_MOUSE\<rparr> in (report, to_driver (Mouse_report report) s))"

definition host_system_send :: "u16 \<Rightarrow> host \<Rightarrow> host" where
  "host_system_send usage s =
    (if usage = last_system_usage s then s
     else to_driver (Extra_report REPORT_ID_SYSTEM usage) (s\<lparr>last_system_usage := usage\<rparr>))"

definition host_consumer_send :: "u16 \<Rightarrow> host \<Rightarrow> host" where
  "host_consumer_send usage s =
    (if usage = last_consumer_usage s then s
     else to_driver (Extra_report REPORT_ID_CONSUMER usage) (s\<lparr>last_consumer_usage := usage\<rparr>))"

definition host_last_system_usage :: "host \<Rightarrow> u16" where
  "host_last_system_usage s = last_system_usage s"

definition host_last_consumer_usage :: "host \<Rightarrow> u16" where
  "host_last_consumer_usage s = last_consumer_usage s"

subsection \<open>What the host has received\<close>

text \<open>The newest keyboard report that reached a driver.\<close>

fun newest_keyboard :: "(host_driver_t \<times> report) list \<Rightarrow> report_keyboard_t option" where
  "newest_keyboard [] = None"
| "newest_keyboard ((d, Keyboard_report r) # rs) = Some r"
| "newest_keyboard (_ # rs) = newest_keyboard rs"

text \<open>Modifiers and key area as the host decodes them from a report it received.\<close>

definition host_view :: "host_mode \<Rightarrow> report_keyboard_t \<Rightarrow> u8 \<times> u8 list" where
  "host_view h r = (if nkro_on h then nkro_mods r else report_mods r, drop 2 r)"

lemma driver_to_driver [simp]: "driver (to_driver r s) = driver s"
  by (simp add: to_driver_def split: option.splits)

lemma newest_to_driver [simp]:
  "driver s \<noteq> None \<Longrightarrow> newest_keyboard (sent (to_driver (Keyboard_report r) s)) = Some r"
  by (auto simp: to_driver_def)

lemma keyboard_send_view:
  assumes "driver s \<noteq> None" "wf_report r" "host_keyboard_send h r s = (r', s')"
  shows "newest_keyboard (sent s') = Some r'" "host_view h r' = (report_mods r, drop 2 r)"
    "drop 2 r' = drop 2 r" "driver s' = driver s" "wf_report r'"
  using assms
  by (auto simp: host_keyboard_send_def Let_def host_view_def nkro_mods_def report_mods_def wf_report_def split: if_splits)

end
