(* ===== verification/Qmk_Action_Util.thy ===== *)
theory Qmk_Action_Util
  imports Qmk_Host Qmk_Layers
begin

text \<open>
  Modifiers, one-shot modifiers and layers, and the composition of the keyboard report
  (\<^verbatim>\<open>quantum/action_util.c\<close>, \<^verbatim>\<open>action_util.h\<close>).  The optional features of the file are part of the state: without
  key overrides their modifiers stay 0, and an \<open>ONESHOT_TIMEOUT\<close> of 0 stands for the build without
  a timeout.  \<open>now\<close> is the value of \<^verbatim>\<open>timer_read\<close>.  Calls of the weak hooks and the
  stored configuration are recorded as \<open>notices\<close>, newest first.
\<close>

subsection \<open>State\<close>

datatype notice =
    oneshot_mods_changed u8
  | oneshot_locked_mods_changed u8
  | oneshot_layer_changed u8
  | keymap_config_stored u16
  | mouse_key u8 bool
  | mouse_cleared
  | leds_set u8
  | led_matrix_key u16
  | handedness_stored bool
  | debug_toggled
  | eeprom_disabled
  | mcu_reset
  | bootloader_jump

datatype swap_hands_oneshot_t = SHO_OFF | SHO_ACTIVE | SHO_PRESSED | SHO_USED

record action_st =
  real_mods :: u8
  weak_mods :: u8
  weak_override_mods :: u8
  suppressed_mods :: u8
  oneshot_mods :: u8
  oneshot_locked_mods :: u8
  oneshot_time :: u16
  oneshot_layer_data :: u8
  oneshot_layer_time :: u16
  swap_hands_oneshot :: swap_hands_oneshot_t
  swap_hands :: bool
  oneshot_swaphands_time :: u16
  keymap_config :: u16
  protocol :: u8
  keyboard_report :: report_keyboard_t
  last_report :: report_keyboard_t
  layers :: layer_st
  host_if :: host
  notices :: "notice list"

text \<open>Bits of \<^verbatim>\<open>keymap_config_t\<close>.\<close>

definition NKRO_BIT :: nat where "NKRO_BIT = 7"
definition ONESHOT_ENABLE_BIT :: nat where "ONESHOT_ENABLE_BIT = 10"

definition is_oneshot_enabled :: "action_st \<Rightarrow> bool" where
  "is_oneshot_enabled s = bit (keymap_config s) ONESHOT_ENABLE_BIT"

definition mode :: "action_st \<Rightarrow> host_mode" where
  "mode s = \<lparr>keyboard_protocol = protocol s, nkro_enabled = bit (keymap_config s) NKRO_BIT\<rparr>"

definition notify :: "notice \<Rightarrow> action_st \<Rightarrow> action_st" where
  "notify n s = s\<lparr>notices := n # notices s\<rparr>"

subsection \<open>Keys and modifiers\<close>

definition add_key :: "u8 \<Rightarrow> action_st \<Rightarrow> action_st" where
  "add_key key s = s\<lparr>keyboard_report := add_key_to_report (mode s) (keyboard_report s) key\<rparr>"

definition del_key :: "u8 \<Rightarrow> action_st \<Rightarrow> action_st" where
  "del_key key s = s\<lparr>keyboard_report := del_key_from_report (mode s) (keyboard_report s) key\<rparr>"

definition clear_keys :: "action_st \<Rightarrow> action_st" where
  "clear_keys s = s\<lparr>keyboard_report := clear_keys_from_report (mode s) (keyboard_report s)\<rparr>"

definition get_mods :: "action_st \<Rightarrow> u8" where "get_mods s = real_mods s"
definition add_mods :: "u8 \<Rightarrow> action_st \<Rightarrow> action_st" where "add_mods mods s = s\<lparr>real_mods := real_mods s OR mods\<rparr>"
definition del_mods :: "u8 \<Rightarrow> action_st \<Rightarrow> action_st" where "del_mods mods s = s\<lparr>real_mods := real_mods s AND NOT mods\<rparr>"
definition set_mods :: "u8 \<Rightarrow> action_st \<Rightarrow> action_st" where "set_mods mods s = s\<lparr>real_mods := mods\<rparr>"
definition clear_mods :: "action_st \<Rightarrow> action_st" where "clear_mods s = s\<lparr>real_mods := 0\<rparr>"
definition get_weak_mods :: "action_st \<Rightarrow> u8" where "get_weak_mods s = weak_mods s"
definition add_weak_mods :: "u8 \<Rightarrow> action_st \<Rightarrow> action_st" where "add_weak_mods mods s = s\<lparr>weak_mods := weak_mods s OR mods\<rparr>"
definition del_weak_mods :: "u8 \<Rightarrow> action_st \<Rightarrow> action_st" where "del_weak_mods mods s = s\<lparr>weak_mods := weak_mods s AND NOT mods\<rparr>"
definition set_weak_mods :: "u8 \<Rightarrow> action_st \<Rightarrow> action_st" where "set_weak_mods mods s = s\<lparr>weak_mods := mods\<rparr>"
definition clear_weak_mods :: "action_st \<Rightarrow> action_st" where "clear_weak_mods s = s\<lparr>weak_mods := 0\<rparr>"
definition set_weak_override_mods :: "u8 \<Rightarrow> action_st \<Rightarrow> action_st" where "set_weak_override_mods mods s = s\<lparr>weak_override_mods := mods\<rparr>"
definition clear_weak_override_mods :: "action_st \<Rightarrow> action_st" where "clear_weak_override_mods s = s\<lparr>weak_override_mods := 0\<rparr>"
definition set_suppressed_override_mods :: "u8 \<Rightarrow> action_st \<Rightarrow> action_st" where "set_suppressed_override_mods mods s = s\<lparr>suppressed_mods := mods\<rparr>"
definition clear_suppressed_override_mods :: "action_st \<Rightarrow> action_st" where "clear_suppressed_override_mods s = s\<lparr>suppressed_mods := 0\<rparr>"
definition has_anymod :: "action_st \<Rightarrow> u8" where "has_anymod s = bitpop (real_mods s)"

subsection \<open>One-shot modifiers\<close>

definition get_oneshot_locked_mods :: "action_st \<Rightarrow> u8" where "get_oneshot_locked_mods s = oneshot_locked_mods s"

definition set_oneshot_locked_mods :: "u8 \<Rightarrow> action_st \<Rightarrow> action_st" where
  "set_oneshot_locked_mods mods s =
    (if mods \<noteq> oneshot_locked_mods s
     then notify (oneshot_locked_mods_changed mods) (s\<lparr>oneshot_locked_mods := mods\<rparr>) else s)"

definition clear_oneshot_locked_mods :: "action_st \<Rightarrow> action_st" where
  "clear_oneshot_locked_mods s =
    (if oneshot_locked_mods s \<noteq> 0
     then notify (oneshot_locked_mods_changed 0) (s\<lparr>oneshot_locked_mods := 0\<rparr>) else s)"

definition has_oneshot_mods_timed_out :: "u16 \<Rightarrow> u16 \<Rightarrow> action_st \<Rightarrow> bool" where
  "has_oneshot_mods_timed_out ONESHOT_TIMEOUT now s \<longleftrightarrow>
    0 < ONESHOT_TIMEOUT \<and> ONESHOT_TIMEOUT \<le> TIMER_DIFF_16 now (oneshot_time s)"

definition get_oneshot_mods :: "action_st \<Rightarrow> u8" where "get_oneshot_mods s = oneshot_mods s"

definition add_oneshot_mods :: "u16 \<Rightarrow> u8 \<Rightarrow> action_st \<Rightarrow> action_st" where
  "add_oneshot_mods now mods s =
    (if oneshot_mods s AND mods \<noteq> mods
     then notify (oneshot_mods_changed mods) (s\<lparr>oneshot_time := now, oneshot_mods := oneshot_mods s OR mods\<rparr>) else s)"

definition del_oneshot_mods :: "u16 \<Rightarrow> u8 \<Rightarrow> action_st \<Rightarrow> action_st" where
  "del_oneshot_mods now mods s =
    (if oneshot_mods s AND mods \<noteq> 0
     then let left = oneshot_mods s AND NOT mods in
       notify (oneshot_mods_changed left) (s\<lparr>oneshot_mods := left, oneshot_time := (if left \<noteq> 0 then now else 0)\<rparr>)
     else s)"

definition set_oneshot_mods :: "u16 \<Rightarrow> u8 \<Rightarrow> action_st \<Rightarrow> action_st" where
  "set_oneshot_mods now mods s =
    (if is_oneshot_enabled s \<and> oneshot_mods s \<noteq> mods
     then notify (oneshot_mods_changed mods) (s\<lparr>oneshot_time := now, oneshot_mods := mods\<rparr>) else s)"

definition clear_oneshot_mods :: "action_st \<Rightarrow> action_st" where
  "clear_oneshot_mods s =
    (if oneshot_mods s \<noteq> 0 then notify (oneshot_mods_changed 0) (s\<lparr>oneshot_mods := 0, oneshot_time := 0\<rparr>) else s)"

subsection \<open>One-shot layers\<close>

definition ONESHOT_PRESSED :: u8 where "ONESHOT_PRESSED = 1"
definition ONESHOT_OTHER_KEY_PRESSED :: u8 where "ONESHOT_OTHER_KEY_PRESSED = 2"
definition ONESHOT_START :: u8 where "ONESHOT_START = 3"
definition ONESHOT_TOGGLED :: u8 where "ONESHOT_TOGGLED = 4"

text \<open>
  The data is an \<^verbatim>\<open>int8_t\<close>: its right shift copies the sign, and it is compared as a signed value.
\<close>

definition get_oneshot_layer :: "action_st \<Rightarrow> u8" where
  "get_oneshot_layer s = signed_drop_bit 3 (oneshot_layer_data s)"

definition get_oneshot_layer_state :: "action_st \<Rightarrow> u8" where
  "get_oneshot_layer_state s = oneshot_layer_data s AND 7"

definition has_oneshot_layer_timed_out :: "u16 \<Rightarrow> u16 \<Rightarrow> action_st \<Rightarrow> bool" where
  "has_oneshot_layer_timed_out ONESHOT_TIMEOUT now s \<longleftrightarrow>
    ONESHOT_TIMEOUT \<le> TIMER_DIFF_16 now (oneshot_layer_time s) \<and> get_oneshot_layer_state s AND ONESHOT_TOGGLED = 0"

definition set_oneshot_layer :: "u16 \<Rightarrow> u8 \<Rightarrow> u8 \<Rightarrow> action_st \<Rightarrow> action_st" where
  "set_oneshot_layer now layer state s =
    (if is_oneshot_enabled s then
       let s = s\<lparr>oneshot_layer_data := push_bit 3 layer OR state\<rparr>;
           s = s\<lparr>layers := layer_on layer (layers s), oneshot_layer_time := now\<rparr> in
       notify (oneshot_layer_changed (get_oneshot_layer s)) s
     else s\<lparr>layers := layer_on layer (layers s)\<rparr>)"

definition reset_oneshot_layer :: "action_st \<Rightarrow> action_st" where
  "reset_oneshot_layer s =
    (let s = s\<lparr>oneshot_layer_data := 0, oneshot_layer_time := 0\<rparr> in
     notify (oneshot_layer_changed (get_oneshot_layer s)) s)"

definition clear_oneshot_layer_state :: "u8 \<Rightarrow> action_st \<Rightarrow> action_st" where
  "clear_oneshot_layer_state state s =
    (let start_state = oneshot_layer_data s;
         s = s\<lparr>oneshot_layer_data := oneshot_layer_data s AND NOT state\<rparr> in
     if get_oneshot_layer_state s = 0 \<and> uint start_state \<noteq> sint (oneshot_layer_data s) \<and> is_oneshot_enabled s
     then reset_oneshot_layer (s\<lparr>layers := layer_off (get_oneshot_layer s) (layers s)\<rparr>) else s)"

definition is_oneshot_layer_active :: "action_st \<Rightarrow> bool" where
  "is_oneshot_layer_active s \<longleftrightarrow> get_oneshot_layer_state s \<noteq> 0"

definition oneshot_set :: "bool \<Rightarrow> action_st \<Rightarrow> action_st" where
  "oneshot_set act s =
    (if is_oneshot_enabled s \<noteq> act then
       let s = s\<lparr>keymap_config := (if act then set_bit ONESHOT_ENABLE_BIT else unset_bit ONESHOT_ENABLE_BIT) (keymap_config s)\<rparr>;
           s = notify (keymap_config_stored (keymap_config s)) s in
       clear_oneshot_layer_state ONESHOT_OTHER_KEY_PRESSED s
     else s)"

definition oneshot_toggle :: "action_st \<Rightarrow> action_st" where "oneshot_toggle s = oneshot_set (\<not> is_oneshot_enabled s) s"
definition oneshot_enable :: "action_st \<Rightarrow> action_st" where "oneshot_enable s = oneshot_set True s"
definition oneshot_disable :: "action_st \<Rightarrow> action_st" where "oneshot_disable s = oneshot_set False s"

subsection \<open>One-shot swap hands\<close>

definition set_oneshot_swaphands :: "u16 \<Rightarrow> action_st \<Rightarrow> action_st" where
  "set_oneshot_swaphands now s =
    (let s = s\<lparr>swap_hands_oneshot := SHO_PRESSED, swap_hands := True, oneshot_swaphands_time := now\<rparr> in
     if oneshot_layer_time s \<noteq> 0 then s\<lparr>oneshot_layer_time := oneshot_swaphands_time s\<rparr> else s)"

definition clear_oneshot_swaphands :: "action_st \<Rightarrow> action_st" where
  "clear_oneshot_swaphands s = s\<lparr>swap_hands_oneshot := SHO_OFF, swap_hands := False, oneshot_swaphands_time := 0\<rparr>"

definition release_oneshot_swaphands :: "action_st \<Rightarrow> action_st" where
  "release_oneshot_swaphands s =
    (let s = (if swap_hands_oneshot s = SHO_PRESSED then s\<lparr>swap_hands_oneshot := SHO_ACTIVE\<rparr> else s) in
     if swap_hands_oneshot s = SHO_USED then clear_oneshot_swaphands s else s)"

definition use_oneshot_swaphands :: "action_st \<Rightarrow> action_st" where
  "use_oneshot_swaphands s =
    (let s = (if swap_hands_oneshot s = SHO_PRESSED then s\<lparr>swap_hands_oneshot := SHO_USED\<rparr> else s) in
     if swap_hands_oneshot s = SHO_ACTIVE then clear_oneshot_swaphands s else s)"

definition has_oneshot_swaphands_timed_out :: "u16 \<Rightarrow> u16 \<Rightarrow> action_st \<Rightarrow> bool" where
  "has_oneshot_swaphands_timed_out ONESHOT_TIMEOUT now s \<longleftrightarrow>
    ONESHOT_TIMEOUT \<le> TIMER_DIFF_16 now (oneshot_swaphands_time s) \<and> swap_hands_oneshot s = SHO_ACTIVE"

subsection \<open>Sending the report\<close>

definition set_report_mods :: "u8 \<Rightarrow> action_st \<Rightarrow> action_st" where
  "set_report_mods mods s = s\<lparr>keyboard_report := (keyboard_report s)[0 := mods]\<rparr>"

definition compose_oneshot :: "u16 \<Rightarrow> u16 \<Rightarrow> action_st \<Rightarrow> action_st" where
  "compose_oneshot ONESHOT_TIMEOUT now s =
    (if oneshot_mods s \<noteq> 0 then
       let s = (if has_oneshot_mods_timed_out ONESHOT_TIMEOUT now s then clear_oneshot_mods s else s);
           s = set_report_mods (report_mods (keyboard_report s) OR oneshot_mods s) s in
       if has_anykey (mode s) (keyboard_report s) \<noteq> 0 then clear_oneshot_mods s else s
     else s)"

definition send_keyboard_report :: "u16 \<Rightarrow> u16 \<Rightarrow> action_st \<Rightarrow> action_st" where
  "send_keyboard_report ONESHOT_TIMEOUT now s =
    (let s = set_report_mods (real_mods s OR weak_mods s) s;
         s = compose_oneshot ONESHOT_TIMEOUT now s;
         s = set_report_mods (report_mods (keyboard_report s) AND NOT (suppressed_mods s)) s;
         s = set_report_mods (report_mods (keyboard_report s) OR weak_override_mods s) s in
     if keyboard_report s \<noteq> last_report s then
       let (report, host) = host_keyboard_send (mode s) (keyboard_report s) (host_if s) in
       s\<lparr>last_report := keyboard_report s, keyboard_report := report, host_if := host\<rparr>
     else s)"


subsection \<open>The report the host ends up with\<close>

text \<open>The modifiers the code composes, and the invariant between what was sent and \<open>last_report\<close>.\<close>

definition effective_mods :: "u16 \<Rightarrow> u16 \<Rightarrow> action_st \<Rightarrow> u8" where
  "effective_mods T now s =
    ((real_mods s OR weak_mods s OR (if has_oneshot_mods_timed_out T now s then 0 else oneshot_mods s))
      AND NOT (suppressed_mods s)) OR weak_override_mods s"

definition report_sync :: "action_st \<Rightarrow> bool" where
  "report_sync s \<longleftrightarrow> wf_report (keyboard_report s) \<and> wf_report (last_report s) \<and> driver (host_if s) \<noteq> None \<and>
    (\<exists>r. newest_keyboard (sent (host_if s)) = Some r \<and>
      host_view (mode s) r = (report_mods (last_report s), drop 2 (last_report s)))"

lemma mode_frame [frame_simps]:
  "mode (notify n s) = mode s" "mode (clear_oneshot_mods s) = mode s" "mode (set_report_mods m s) = mode s"
  "mode (s\<lparr>keyboard_report := r\<rparr>) = mode s" "mode (s\<lparr>last_report := r\<rparr>) = mode s" "mode (s\<lparr>host_if := hi\<rparr>) = mode s"
  "mode (s\<lparr>real_mods := m\<rparr>) = mode s" "mode (s\<lparr>weak_mods := m\<rparr>) = mode s"
  by (simp_all add: mode_def notify_def clear_oneshot_mods_def set_report_mods_def)

lemma clear_oneshot_mods_frame [frame_simps]:
  "keyboard_report (clear_oneshot_mods s) = keyboard_report s" "last_report (clear_oneshot_mods s) = last_report s"
  "host_if (clear_oneshot_mods s) = host_if s" "suppressed_mods (clear_oneshot_mods s) = suppressed_mods s"
  "weak_override_mods (clear_oneshot_mods s) = weak_override_mods s" "oneshot_mods (clear_oneshot_mods s) = 0"
  "real_mods (clear_oneshot_mods s) = real_mods s" "weak_mods (clear_oneshot_mods s) = weak_mods s"
  by (simp_all add: clear_oneshot_mods_def notify_def)

lemma set_report_mods_frame [frame_simps]:
  "keyboard_report (set_report_mods m s) = (keyboard_report s)[0 := m]" "last_report (set_report_mods m s) = last_report s"
  "host_if (set_report_mods m s) = host_if s" "suppressed_mods (set_report_mods m s) = suppressed_mods s"
  "weak_override_mods (set_report_mods m s) = weak_override_mods s" "oneshot_mods (set_report_mods m s) = oneshot_mods s"
  "oneshot_time (set_report_mods m s) = oneshot_time s" "real_mods (set_report_mods m s) = real_mods s"
  "weak_mods (set_report_mods m s) = weak_mods s"
  by (simp_all add: set_report_mods_def)

lemma report_mods_update [simp]: "wf_report r \<Longrightarrow> report_mods (r[0 := m]) = m" "drop 2 (r[0 := m]) = drop 2 r"
  by (simp_all add: report_mods_def wf_report_def)

lemma has_anykey_update [simp]: "has_anykey h (r[0 := m]) = has_anykey h r"
  by (simp add: has_anykey_def nkro_bits_def report_keys_def)

lemma timed_out_frame [frame_simps]:
  "has_oneshot_mods_timed_out T now (set_report_mods m s) = has_oneshot_mods_timed_out T now s"
  by (simp add: has_oneshot_mods_timed_out_def set_report_mods_def)

text \<open>The state from which \<^verbatim>\<open>send_keyboard_report\<close> decides whether to send.\<close>

definition composed :: "u16 \<Rightarrow> u16 \<Rightarrow> action_st \<Rightarrow> action_st" where
  "composed T now s =
    (let s = compose_oneshot T now (set_report_mods (real_mods s OR weak_mods s) s);
         s = set_report_mods (report_mods (keyboard_report s) AND NOT (suppressed_mods s)) s
     in set_report_mods (report_mods (keyboard_report s) OR weak_override_mods s) s)"

lemma composed_facts:
  assumes "wf_report (keyboard_report s)"
  shows "keyboard_report (composed T now s) = (keyboard_report s)[0 := effective_mods T now s]"
    "last_report (composed T now s) = last_report s" "host_if (composed T now s) = host_if s"
    "mode (composed T now s) = mode s" "real_mods (composed T now s) = real_mods s" "weak_mods (composed T now s) = weak_mods s"
    "oneshot_mods (composed T now s) =
      (if has_anykey (mode s) (keyboard_report s) \<noteq> 0 \<or> has_oneshot_mods_timed_out T now s then 0 else oneshot_mods s)"
  using assms
  by (simp_all add: composed_def compose_oneshot_def Let_def frame_simps effective_mods_def wf_report_def or.assoc)

lemma composed_mods:
  "suppressed_mods (composed T now s) = suppressed_mods s" "weak_override_mods (composed T now s) = weak_override_mods s"
  by (simp_all add: composed_def compose_oneshot_def Let_def frame_simps)

lemma send_keyboard_report_eq:
  "send_keyboard_report T now s = (let c = composed T now s in
    if keyboard_report c \<noteq> last_report c then
      c\<lparr>last_report := keyboard_report c, keyboard_report := fst (host_keyboard_send (mode c) (keyboard_report c) (host_if c)),
        host_if := snd (host_keyboard_send (mode c) (keyboard_report c) (host_if c))\<rparr>
    else c)"
  by (simp add: send_keyboard_report_def composed_def Let_def split_beta)


lemma send_sync:
  assumes "report_sync s"
  shows "report_sync (send_keyboard_report T now s)"
    "\<exists>r. newest_keyboard (sent (host_if (send_keyboard_report T now s))) = Some r \<and>
      host_view (mode s) r = (effective_mods T now s, drop 2 (keyboard_report s))"
    "drop 2 (keyboard_report (send_keyboard_report T now s)) = drop 2 (keyboard_report s)"
    "mode (send_keyboard_report T now s) = mode s"
proof -
  let ?c = "composed T now s"
  let ?s' = "send_keyboard_report T now s"
  have wf: "wf_report (keyboard_report s)" and d: "driver (host_if s) \<noteq> None" and wl: "wf_report (last_report s)"
    using assms by (auto simp: report_sync_def)
  note c = composed_facts [OF wf, of T now]
  have wc: "wf_report (keyboard_report ?c)" using wf by (simp add: c wf_report_def)
  obtain r' h' where send: "host_keyboard_send (mode ?c) (keyboard_report ?c) (host_if ?c) = (r', h')" by fastforce
  have dc: "driver (host_if ?c) \<noteq> None" using d by (simp add: c)
  note v = keyboard_send_view [OF dc wc send]
  show m: "mode ?s' = mode s" by (simp add: send_keyboard_report_eq Let_def frame_simps c)
  have e: "report_mods (keyboard_report ?c) = effective_mods T now s" "drop 2 (keyboard_report ?c) = drop 2 (keyboard_report s)"
    using wf by (simp_all add: c)
  then show k: "drop 2 (keyboard_report ?s') = drop 2 (keyboard_report s)"
    using v(3) send by (auto simp: send_keyboard_report_eq Let_def)
  have new: "\<exists>r. newest_keyboard (sent (host_if ?s')) = Some r \<and> host_view (mode s) r = (effective_mods T now s, drop 2 (keyboard_report s)) \<and>
      (report_mods (last_report ?s'), drop 2 (last_report ?s')) = (effective_mods T now s, drop 2 (keyboard_report s))"
  proof (cases "keyboard_report ?c = last_report ?c")
    case True
    then have s': "?s' = ?c" by (simp add: send_keyboard_report_eq Let_def)
    have l: "last_report s = keyboard_report ?c" using True c(2) by simp
    show ?thesis using assms unfolding s' report_sync_def by (auto simp: c(2,3) l e)
  next
    case False
    then have "host_if ?s' = h'" "last_report ?s' = keyboard_report ?c"
      using send by (simp_all add: send_keyboard_report_eq Let_def)
    then show ?thesis using v e by (auto simp: c(4))
  qed
  then show "\<exists>r. newest_keyboard (sent (host_if ?s')) = Some r \<and>
      host_view (mode s) r = (effective_mods T now s, drop 2 (keyboard_report s))" by blast
  have "wf_report (keyboard_report ?s')" "wf_report (last_report ?s')" "driver (host_if ?s') \<noteq> None"
    using wc wl v send dc by (auto simp: send_keyboard_report_eq Let_def c)
  then show "report_sync ?s'" using new unfolding report_sync_def m by auto
qed

lemma send_oneshot:
  assumes "wf_report (keyboard_report s)"
  shows "oneshot_mods (send_keyboard_report T now s) =
    (if has_anykey (mode s) (keyboard_report s) \<noteq> 0 \<or> has_oneshot_mods_timed_out T now s then 0 else oneshot_mods s)"
  using composed_facts(7) [OF assms, of T now] by (simp add: send_keyboard_report_eq Let_def)

subsection \<open>Sequences of calls\<close>

datatype util_event = Add_key u8 | Del_key u8 | Add_mods u8 | Del_mods u8 | Add_weak_mods u8 | Del_weak_mods u8 | Send u16

fun util_step :: "u16 \<Rightarrow> util_event \<Rightarrow> action_st \<Rightarrow> action_st" where
  "util_step T (Add_key k) s = add_key k s"
| "util_step T (Del_key k) s = del_key k s"
| "util_step T (Add_mods m) s = add_mods m s"
| "util_step T (Del_mods m) s = del_mods m s"
| "util_step T (Add_weak_mods m) s = add_weak_mods m s"
| "util_step T (Del_weak_mods m) s = del_weak_mods m s"
| "util_step T (Send now) s = send_keyboard_report T now s"

fun key_events :: "util_event list \<Rightarrow> key_event list" where
  "key_events [] = []"
| "key_events (Add_key k # es) = Press k # key_events es"
| "key_events (Del_key k # es) = Release k # key_events es"
| "key_events (_ # es) = key_events es"

lemma report_depends_on_keys:
  assumes "drop 2 r = drop 2 r'" "length r = length r'"
  shows "report_wf h r = report_wf h r'" "report_pressed h r = report_pressed h r'"
  using assms
  by (simp_all add: report_wf_def report_pressed_def wf_report_def wf_boot_def pressed_keys_def pressed_bits_def report_keys_def nkro_bits_def)

lemma report_wf_imp: "report_wf h r \<Longrightarrow> wf_report r"
  by (auto simp: report_wf_def wf_boot_def split: if_splits)

lemma util_step_inv:
  assumes "report_sync s" "report_wf (mode s) (keyboard_report s)"
  shows "report_sync (util_step T e s) \<and> mode (util_step T e s) = mode s \<and>
    report_wf (mode s) (keyboard_report (util_step T e s)) \<and>
    report_pressed (mode s) (keyboard_report (util_step T e s)) \<subseteq> held (key_events [e]) (report_pressed (mode s) (keyboard_report s))"
proof (cases e)
  case (Add_key k)
  have w: "report_wf (mode s) (add_key_to_report (mode s) (keyboard_report s) k)" using assms(2) by (rule report.wf_add)
  then show ?thesis
    using assms report_wf_imp [OF w] by (auto simp: Add_key add_key_def report_sync_def frame_simps report.pressed_add)
next
  case (Del_key k)
  have w: "report_wf (mode s) (del_key_from_report (mode s) (keyboard_report s) k)" using assms(2) by (rule report.wf_del)
  then show ?thesis
    using assms report_wf_imp [OF w] by (auto simp: Del_key del_key_def report_sync_def frame_simps report.pressed_del)
next
  case (Send now)
  note c = send_sync [OF assms(1), of T now]
  have "length (keyboard_report (send_keyboard_report T now s)) = length (keyboard_report s)"
    using c(1) assms(1) by (simp add: report_sync_def wf_report_def)
  note k = report_depends_on_keys [OF c(3) this]
  show ?thesis using assms c(1,4) k by (simp add: Send)
qed (use assms in \<open>auto simp: add_mods_def del_mods_def add_weak_mods_def del_weak_mods_def report_sync_def frame_simps\<close>)

lemma held_key_events_Cons: "held (key_events (e # es)) S = held (key_events es) (held (key_events [e]) S)"
  by (cases e) simp_all

lemma util_steps_inv:
  assumes "report_sync s" "report_wf (mode s) (keyboard_report s)"
  shows "report_sync (fold (util_step T) es s) \<and> mode (fold (util_step T) es s) = mode s \<and>
    report_wf (mode s) (keyboard_report (fold (util_step T) es s)) \<and>
    report_pressed (mode s) (keyboard_report (fold (util_step T) es s)) \<subseteq> held (key_events es) (report_pressed (mode s) (keyboard_report s))"
  using assms
proof (induction es arbitrary: s)
  case (Cons e es)
  let ?s = "util_step T e s"
  note u = util_step_inv [OF Cons.prems, of T e]
  have sync: "report_sync ?s" and m: "mode ?s = mode s" and w: "report_wf (mode s) (keyboard_report ?s)"
    and p: "report_pressed (mode s) (keyboard_report ?s) \<subseteq> held (key_events [e]) (report_pressed (mode s) (keyboard_report s))"
    using u by blast+
  note i = Cons.IH [OF sync, unfolded m, OF w]
  have "held (key_events es) (report_pressed (mode s) (keyboard_report ?s)) \<subseteq> held (key_events (e # es)) (report_pressed (mode s) (keyboard_report s))"
    by (subst held_key_events_Cons) (rule held_mono [OF p])
  then show ?case using i unfolding fold_simps by blast
qed simp


subsection \<open>Properties\<close>

definition idle_action :: action_st where
  "idle_action = \<lparr>real_mods = 0, weak_mods = 0, weak_override_mods = 0, suppressed_mods = 0, oneshot_mods = 0,
    oneshot_locked_mods = 0, oneshot_time = 0, oneshot_layer_data = 0, oneshot_layer_time = 0,
    swap_hands_oneshot = SHO_OFF, swap_hands = False, oneshot_swaphands_time = 0, keymap_config = 0x400,
    protocol = 1, keyboard_report = empty_report, last_report = empty_report, layers = init_layers,
    host_if = \<lparr>driver = Some chibios_driver, last_system_usage = 0, last_consumer_usage = 0,
      sent = [(chibios_driver, Keyboard_report empty_report)]\<rparr>, notices = []\<rparr>"

lemma idle_action_sync: "report_sync idle_action"
  by (simp add: report_sync_def idle_action_def host_view_def mode_def nkro_on_def NKRO_BIT_def)

lemma idle_action_mode: "mode idle_action = \<lparr>keyboard_protocol = 1, nkro_enabled = False\<rparr>"
  by (simp add: mode_def idle_action_def NKRO_BIT_def)

lemma idle_action_report: "keyboard_report idle_action = empty_report"
  by (simp add: idle_action_def)

lemma idle_action_wf: "report_wf (mode idle_action) (keyboard_report idle_action)"
  by (simp add: idle_action_mode idle_action_report report_wf_def nkro_on_def wf_boot_def) (simp add: report_keys_def empty_report_def)

lemma idle_action_pressed: "report_pressed (mode idle_action) (keyboard_report idle_action) = {}"
  by (simp add: idle_action_mode idle_action_report report_pressed_def nkro_on_def pressed_keys_alt report_keys_def empty_report_def)

text \<open>C14: After \<^verbatim>\<open>send_keyboard_report\<close> the newest report the host has received shows the composed
  modifiers and the key area of the current report, in boot and in NKRO mode, although unchanged
  reports are not sent and the NKRO path rewrites the first two bytes in place.\<close>
theorem host_sees_current_report:
  assumes "report_sync s"
  shows "report_sync (send_keyboard_report T now s) \<and>
    (\<exists>r. newest_keyboard (sent (host_if (send_keyboard_report T now s))) = Some r \<and>
      host_view (mode s) r = (effective_mods T now s, drop 2 (keyboard_report s)))"
  using send_sync [OF assms] by blast

theorem host_sees_current_report_witness:
  "\<exists>r. newest_keyboard (sent (host_if (send_keyboard_report 0 0 (add_mods 2 idle_action)))) = Some r \<and>
    host_view (mode idle_action) r = (2, drop 2 empty_report)"
proof -
  have "report_sync (add_mods 2 idle_action)"
    using util_step_inv [OF idle_action_sync idle_action_wf, of 0 "Add_mods 2"] by simp
  from host_sees_current_report [OF this, of 0 0] show ?thesis
    by (simp add: add_mods_def frame_simps effective_mods_def has_oneshot_mods_timed_out_def) (simp add: idle_action_def)
qed

text \<open>C6: No stuck keys at the host: whatever keys and modifiers were pressed and released, and however
  many reports were sent in between, once every pressed key is released and a report is sent the
  host has no key pressed and only the composed modifiers.\<close>
theorem host_has_no_stuck_keys:
  assumes "report_sync s" "report_wf (mode s) (keyboard_report s)"
    "held (key_events es) (report_pressed (mode s) (keyboard_report s)) = {}"
  shows "\<exists>r. newest_keyboard (sent (host_if (send_keyboard_report T now (fold (util_step T) es s)))) = Some r \<and>
    report_pressed (mode s) r = {} \<and> fst (host_view (mode s) r) = effective_mods T now (fold (util_step T) es s)"
proof -
  let ?s = "fold (util_step T) es s"
  have s: "report_sync ?s" "mode ?s = mode s" "report_pressed (mode s) (keyboard_report ?s) = {}" "wf_report (keyboard_report ?s)"
    using util_steps_inv [OF assms(1,2), of T es] assms(3) report_wf_imp by auto
  obtain r where r: "newest_keyboard (sent (host_if (send_keyboard_report T now ?s))) = Some r"
    "host_view (mode s) r = (effective_mods T now ?s, drop 2 (keyboard_report ?s))"
    using send_sync(2) [OF s(1), of T now] s(2) by auto
  have "drop 2 r = drop 2 (keyboard_report ?s)" using r(2) by (simp add: host_view_def)
  then have "report_pressed (mode s) r = report_pressed (mode s) (keyboard_report ?s)"
    by (simp add: report_pressed_def pressed_keys_def pressed_bits_def report_keys_def nkro_bits_def)
  then show ?thesis using r s(3) by auto
qed

theorem host_has_no_stuck_keys_witness:
  "\<exists>r. newest_keyboard (sent (host_if (send_keyboard_report 0 9
      (fold (util_step 0) [Add_key 4, Send 1, Add_mods 2, Add_key 5, Send 2, Del_key 4, Send 3, Del_key 5] idle_action)))) = Some r \<and>
    report_pressed (mode idle_action) r = {}"
proof -
  have "held (key_events [Add_key 4, Send 1, Add_mods 2, Add_key 5, Send 2, Del_key 4, Send 3, Del_key 5])
      (report_pressed (mode idle_action) (keyboard_report idle_action)) = {}"
    by (auto simp: idle_action_pressed)
  from host_has_no_stuck_keys [OF idle_action_sync idle_action_wf this] show ?thesis by blast
qed


text \<open>One-shot modifiers: a report with a key uses them up, a report without a key keeps them,
  and one after the timeout drops them without showing them to the host.\<close>
lemma oneshot_mods_lifecycle:
  assumes "report_sync s" "suppressed_mods s = 0" "weak_override_mods s = 0"
  shows "(\<exists>r. newest_keyboard (sent (host_if (send_keyboard_report T now s))) = Some r \<and>
      fst (host_view (mode s) r) = real_mods s OR weak_mods s OR (if has_oneshot_mods_timed_out T now s then 0 else oneshot_mods s)) \<and>
    oneshot_mods (send_keyboard_report T now s) =
      (if has_anykey (mode s) (keyboard_report s) \<noteq> 0 \<or> has_oneshot_mods_timed_out T now s then 0 else oneshot_mods s)"
proof -
  have "wf_report (keyboard_report s)" using assms(1) by (simp add: report_sync_def)
  then show ?thesis
    using send_sync(2) [OF assms(1), of T now] send_oneshot [of s T now] assms(2,3) by (auto simp: effective_mods_def)
qed

lemma less_8_word_cases:
  assumes "unat (l :: u8) < 8"
  shows "l = 0 \<or> l = 1 \<or> l = 2 \<or> l = 3 \<or> l = 4 \<or> l = 5 \<or> l = 6 \<or> l = 7"
  using assms by (simp add: word_unat_eq_iff) linarith

text \<open>What clearing one of the two flags, and then the other, does to the packed byte.\<close>

lemma oneshot_byte:
  assumes "unat (l :: u8) < 8" "(a, b) = (ONESHOT_PRESSED, ONESHOT_OTHER_KEY_PRESSED) \<or> (a, b) = (ONESHOT_OTHER_KEY_PRESSED, ONESHOT_PRESSED)"
  shows "((push_bit 3 l OR ONESHOT_START) AND NOT a) AND 7 = b"
    "signed_drop_bit 3 ((push_bit 3 l OR ONESHOT_START) AND NOT a) = l"
    "((push_bit 3 l OR ONESHOT_START) AND NOT a) AND NOT b = push_bit 3 l"
    "push_bit 3 l AND 7 = 0" "signed_drop_bit 3 (push_bit 3 l) = l"
    "uint ((push_bit 3 l OR ONESHOT_START) AND NOT a) \<noteq> sint (push_bit 3 l)" "b \<noteq> 0"
  using less_8_word_cases [OF assms(1)] assms(2) by (elim disjE; simp; code_simp)+


lemma clear_one_flag:
  assumes "oneshot_layer_data s = data" "(data AND NOT st) AND 7 \<noteq> 0"
  shows "clear_oneshot_layer_state st s = s\<lparr>oneshot_layer_data := data AND NOT st\<rparr>"
  using assms by (simp add: clear_oneshot_layer_state_def get_oneshot_layer_state_def Let_def)

lemma clear_last_flag:
  assumes "oneshot_layer_data s = data" "(data AND NOT st) AND 7 = 0" "uint data \<noteq> sint (data AND NOT st)" "is_oneshot_enabled s"
  shows "clear_oneshot_layer_state st s =
    reset_oneshot_layer (s\<lparr>oneshot_layer_data := data AND NOT st, layers := layer_off (signed_drop_bit 3 (data AND NOT st)) (layers s)\<rparr>)"
  using assms by (simp add: clear_oneshot_layer_state_def get_oneshot_layer_state_def get_oneshot_layer_def is_oneshot_enabled_def Let_def)

text \<open>A one-shot layer stays on until both the one-shot key is released and another key was pressed,
  in either order; then exactly that layer is turned off and the one-shot state is reset.\<close>
lemma oneshot_layer_lifecycle:
  assumes "is_oneshot_enabled s" "unat l < 8"
    "(a, b) = (ONESHOT_PRESSED, ONESHOT_OTHER_KEY_PRESSED) \<or> (a, b) = (ONESHOT_OTHER_KEY_PRESSED, ONESHOT_PRESSED)"
    "s1 = clear_oneshot_layer_state a (set_oneshot_layer now l ONESHOT_START s)" "s2 = clear_oneshot_layer_state b s1"
  shows "is_oneshot_layer_active s1 \<and> get_oneshot_layer s1 = l \<and> active (layers s1) = insert (unat l) (active (layers s)) \<and>
    \<not> is_oneshot_layer_active s2 \<and> oneshot_layer_data s2 = 0 \<and> active (layers s2) = active (layers s) - {unat l}"
proof -
  note byte = oneshot_byte [OF assms(2,3)]
  let ?d = "push_bit 3 l OR ONESHOT_START"
  let ?s0 = "set_oneshot_layer now l ONESHOT_START s"
  have s0: "oneshot_layer_data ?s0 = ?d" "layers ?s0 = layer_on l (layers s)" "is_oneshot_enabled ?s0"
    using assms(1) by (simp_all add: set_oneshot_layer_def notify_def is_oneshot_enabled_def Let_def)
  have s1: "s1 = ?s0\<lparr>oneshot_layer_data := ?d AND NOT a\<rparr>"
    unfolding assms(4) using byte(1,7) by (intro clear_one_flag [OF s0(1)]) simp
  have d1: "oneshot_layer_data s1 = ?d AND NOT a" "layers s1 = layer_on l (layers s)" and en: "is_oneshot_enabled s1"
    using s0 by (simp_all add: s1 is_oneshot_enabled_def)
  have s2: "s2 = reset_oneshot_layer (s1\<lparr>oneshot_layer_data := push_bit 3 l, layers := layer_off l (layers s1)\<rparr>)"
    unfolding assms(5) using clear_last_flag [OF d1(1) _ _ en, of b] byte by simp
  have d2: "oneshot_layer_data s2 = 0" "layers s2 = layer_off l (layers s1)"
    by (simp_all add: s2 reset_oneshot_layer_def notify_def Let_def)
  show ?thesis
    using byte d1 d2 assms(2)
    by (auto simp: is_oneshot_layer_active_def get_oneshot_layer_state_def get_oneshot_layer_def active_layer_on active_layer_off)
qed

lemma sign_extended_layers:
  "list_all (\<lambda>l. list_all (\<lambda>st. signed_drop_bit 3 (push_bit 3 l OR st) = l + (224 :: u8)) (map of_nat [0..<8])) (map of_nat [16..<32])"
  by code_simp

text \<open>The signed byte loses the layers from 16 on: a one-shot layer between 16 and 31 is reported
  as that layer plus 224, although the format reserves five bits for the layer.\<close>
lemma oneshot_layer_sign_extension:
  assumes "is_oneshot_enabled s" "16 \<le> unat l" "unat l < 32" "unat st < 8"
  shows "get_oneshot_layer (set_oneshot_layer now l st s) = l + 224"
proof -
  have "l \<in> set (map of_nat [16..<32])" "st \<in> set (map of_nat [0..<8])"
    using assms(2-4) by (simp_all only: word_in_upt zero_le)
  then have "signed_drop_bit 3 (push_bit 3 l OR st) = l + 224"
    using sign_extended_layers unfolding list_all_iff by blast
  then show ?thesis using assms(1) by (simp add: set_oneshot_layer_def get_oneshot_layer_def notify_def Let_def)
qed

text \<open>In NKRO mode a report is sent a second time although nothing changed: the copy kept for the
  comparison still has the old byte 1, which the first send replaced by the new modifiers.\<close>
lemma nkro_unchanged_report_sent_again:
  assumes "report_sync s" "nkro_on (mode s)" "oneshot_mods s = 0" "suppressed_mods s = 0" "weak_override_mods s = 0"
    "real_mods s OR weak_mods s \<noteq> keyboard_report s ! 1"
    "sent (host_if (send_keyboard_report T now s)) \<noteq> sent (host_if s)"
  shows "length (sent (host_if (send_keyboard_report T now' (send_keyboard_report T now s)))) = length (sent (host_if s)) + 2"
proof -
  let ?s' = "send_keyboard_report T now s"
  let ?m = "real_mods s OR weak_mods s"
  have wf: "wf_report (keyboard_report s)" and d: "driver (host_if s) \<noteq> None" using assms(1) by (auto simp: report_sync_def)
  note c = composed_facts [OF wf, of T now] composed_mods [of T now s]
  have m: "effective_mods T now s = ?m" using assms(3-5) by (simp add: effective_mods_def)
  have "keyboard_report (composed T now s) \<noteq> last_report (composed T now s)"
    using assms(7) c(3) by (auto simp: send_keyboard_report_eq Let_def)
  then have s': "keyboard_report ?s' = (keyboard_report s)[0 := ?m, 1 := ?m, 0 := REPORT_ID_NKRO]"
      "last_report ?s' = (keyboard_report s)[0 := ?m]" "length (sent (host_if ?s')) = Suc (length (sent (host_if s)))"
      "real_mods ?s' = real_mods s" "weak_mods ?s' = weak_mods s" "oneshot_mods ?s' = 0"
      "suppressed_mods ?s' = 0" "weak_override_mods ?s' = 0" "driver (host_if ?s') \<noteq> None" "mode ?s' = mode s"
    using assms(2-5) d wf
    by (auto simp: send_keyboard_report_eq Let_def c m host_keyboard_send_def to_driver_def frame_simps)
  have wf': "wf_report (keyboard_report ?s')" using wf by (simp add: s' wf_report_def)
  note c' = composed_facts [OF wf', of T now'] composed_mods [of T now' ?s']
  have m': "effective_mods T now' ?s' = ?m" by (simp add: effective_mods_def s')
  have "(keyboard_report ?s')[0 := ?m] ! 1 = ?m" "last_report ?s' ! 1 = keyboard_report s ! 1"
    using wf by (simp_all add: s' wf_report_def)
  then have "keyboard_report (composed T now' ?s') \<noteq> last_report (composed T now' ?s')"
    using assms(6) unfolding c'(1,2) m' by metis
  then show ?thesis
    using assms(2) s'(3,9,10)
    by (auto simp: send_keyboard_report_eq [of T now'] Let_def c'(3,4) host_keyboard_send_def to_driver_def)
qed

definition nkro_action :: action_st where
  "nkro_action = add_mods 2 (idle_action\<lparr>keymap_config := 0x480\<rparr>)"

lemma nkro_action_facts:
  "nkro_on (mode nkro_action)" "report_sync nkro_action"
  by (simp_all add: nkro_action_def add_mods_def idle_action_def mode_def nkro_on_def NKRO_BIT_def report_sync_def host_view_def
    nkro_mods_def report_mods_def empty_report_def) (simp add: wf_report_def)

end
