(* ===== verification/Qmk_Action_Codes.thy ===== *)
theory Qmk_Action_Codes
  imports Qmk_Action_Util
begin

text \<open>
  Registering and unregistering key codes, taps and the clearing of the keyboard (the utilities at the
  end of \<^verbatim>\<open>quantum/action.c\<close>), and the conversion of key codes to usages of the system and consumer pages
  (\<^verbatim>\<open>tmk_core/protocol/report.h\<close>).  Mouse keys are enabled; what they do is outside, so a call of the
  mouse-key module is recorded as a notice.  \<open>T\<close> and \<open>now\<close> are the one-shot timeout and the timer.
\<close>

subsection \<open>Ranges of key codes\<close>

definition KC_A :: u8 where "KC_A = 0x04"
definition KC_EXSEL :: u8 where "KC_EXSEL = 0xA4"
definition KC_SYSTEM_POWER :: u8 where "KC_SYSTEM_POWER = 0xA5"
definition KC_SYSTEM_SLEEP :: u8 where "KC_SYSTEM_SLEEP = 0xA6"
definition KC_SYSTEM_WAKE :: u8 where "KC_SYSTEM_WAKE = 0xA7"
definition KC_AUDIO_MUTE :: u8 where "KC_AUDIO_MUTE = 0xA8"
definition KC_LAUNCHPAD :: u8 where "KC_LAUNCHPAD = 0xC2"
definition KC_MS_UP :: u8 where "KC_MS_UP = 0xCD"
definition KC_MS_ACCEL2 :: u8 where "KC_MS_ACCEL2 = 0xDF"
definition KC_LEFT_CTRL :: u8 where "KC_LEFT_CTRL = 0xE0"
definition KC_RIGHT_GUI :: u8 where "KC_RIGHT_GUI = 0xE7"
definition KC_SPACE :: u8 where "KC_SPACE = 0x2C"
definition KC_CAPS_LOCK :: u8 where "KC_CAPS_LOCK = 0x39"

lemmas keycode_bounds = KC_A_def KC_EXSEL_def KC_SYSTEM_POWER_def KC_SYSTEM_SLEEP_def KC_SYSTEM_WAKE_def KC_AUDIO_MUTE_def
  KC_LAUNCHPAD_def KC_MS_UP_def KC_MS_ACCEL2_def KC_LEFT_CTRL_def KC_RIGHT_GUI_def KC_CAPS_LOCK_def

definition IS_BASIC_KEYCODE :: "u8 \<Rightarrow> bool" where "IS_BASIC_KEYCODE code \<longleftrightarrow> KC_A \<le> code \<and> code \<le> KC_EXSEL"
definition IS_SYSTEM_KEYCODE :: "u8 \<Rightarrow> bool" where "IS_SYSTEM_KEYCODE code \<longleftrightarrow> KC_SYSTEM_POWER \<le> code \<and> code \<le> KC_SYSTEM_WAKE"
definition IS_CONSUMER_KEYCODE :: "u8 \<Rightarrow> bool" where "IS_CONSUMER_KEYCODE code \<longleftrightarrow> KC_AUDIO_MUTE \<le> code \<and> code \<le> KC_LAUNCHPAD"
definition IS_MOUSE_KEYCODE :: "u8 \<Rightarrow> bool" where "IS_MOUSE_KEYCODE code \<longleftrightarrow> KC_MS_UP \<le> code \<and> code \<le> KC_MS_ACCEL2"
definition IS_MODIFIER_KEYCODE :: "u8 \<Rightarrow> bool" where "IS_MODIFIER_KEYCODE code \<longleftrightarrow> KC_LEFT_CTRL \<le> code \<and> code \<le> KC_RIGHT_GUI"

lemmas keycode_ranges = IS_BASIC_KEYCODE_def IS_SYSTEM_KEYCODE_def IS_CONSUMER_KEYCODE_def IS_MOUSE_KEYCODE_def
  IS_MODIFIER_KEYCODE_def keycode_bounds

definition MOD_BIT :: "u8 \<Rightarrow> u8" where "MOD_BIT code = bitmask (unat (code AND 7))"

subsection \<open>Usages\<close>

definition KEYCODE2SYSTEM :: "u8 \<Rightarrow> u16" where
  "KEYCODE2SYSTEM key = (if key = KC_SYSTEM_POWER then 0x81 else if key = KC_SYSTEM_SLEEP then 0x82
    else if key = KC_SYSTEM_WAKE then 0x83 else 0)"

text \<open>The cases of the switch, in its order: key code and usage.\<close>

definition consumer_usages :: "(u8 \<times> u16) list" where
  "consumer_usages =
    [(0xA8, 0x0E2), (0xA9, 0x0E9), (0xAA, 0x0EA), (0xAB, 0x0B5), (0xAC, 0x0B6), (0xBB, 0x0B3), (0xBC, 0x0B4),
     (0xAD, 0x0B7), (0xB0, 0x0CC), (0xAE, 0x0CD), (0xAF, 0x183), (0xB1, 0x18A), (0xB2, 0x192), (0xB3, 0x194),
     (0xBF, 0x19F), (0xC0, 0x1CB), (0xB4, 0x221), (0xB5, 0x223), (0xB6, 0x224), (0xB7, 0x225), (0xB8, 0x226),
     (0xB9, 0x227), (0xBD, 0x06F), (0xBE, 0x070), (0xBA, 0x22A), (0xC1, 0x29F), (0xC2, 0x2A0)]"

definition KEYCODE2CONSUMER :: "u8 \<Rightarrow> u16" where
  "KEYCODE2CONSUMER key = (case map_of consumer_usages key of None \<Rightarrow> 0 | Some usage \<Rightarrow> usage)"

subsection \<open>Registering codes\<close>

definition register_mouse :: "u8 \<Rightarrow> bool \<Rightarrow> action_st \<Rightarrow> action_st" where
  "register_mouse code pressed s = notify (mouse_key code pressed) s"

definition map_host :: "(host \<Rightarrow> host) \<Rightarrow> action_st \<Rightarrow> action_st" where
  "map_host f s = s\<lparr>host_if := f (host_if s)\<rparr>"

definition register_code :: "u16 \<Rightarrow> u16 \<Rightarrow> u8 \<Rightarrow> action_st \<Rightarrow> action_st" where
  "register_code T now code s =
    (if code = 0 then s
     else if IS_BASIC_KEYCODE code then
       let s = (if is_key_pressed (mode s) (keyboard_report s) code then send_keyboard_report T now (del_key code s) else s) in
       send_keyboard_report T now (add_key code s)
     else if IS_MODIFIER_KEYCODE code then send_keyboard_report T now (add_mods (MOD_BIT code) s)
     else if IS_SYSTEM_KEYCODE code then map_host (host_system_send (KEYCODE2SYSTEM code)) s
     else if IS_CONSUMER_KEYCODE code then map_host (host_consumer_send (KEYCODE2CONSUMER code)) s
     else if IS_MOUSE_KEYCODE code then register_mouse code True s
     else s)"

definition unregister_code :: "u16 \<Rightarrow> u16 \<Rightarrow> u8 \<Rightarrow> action_st \<Rightarrow> action_st" where
  "unregister_code T now code s =
    (if code = 0 then s
     else if IS_BASIC_KEYCODE code then send_keyboard_report T now (del_key code s)
     else if IS_MODIFIER_KEYCODE code then send_keyboard_report T now (del_mods (MOD_BIT code) s)
     else if IS_SYSTEM_KEYCODE code then map_host (host_system_send 0) s
     else if IS_CONSUMER_KEYCODE code then map_host (host_consumer_send 0) s
     else if IS_MOUSE_KEYCODE code then register_mouse code False s
     else s)"

text \<open>Each turn of the waiting loop takes a millisecond.\<close>

definition tap_code_delay :: "u16 \<Rightarrow> u16 \<Rightarrow> u8 \<Rightarrow> u16 \<Rightarrow> action_st \<Rightarrow> action_st" where
  "tap_code_delay T now code delay s = unregister_code T (now + delay) code (register_code T now code s)"

definition TAP_CODE_DELAY :: u16 where "TAP_CODE_DELAY = 0"
definition TAP_HOLD_CAPS_DELAY :: u16 where "TAP_HOLD_CAPS_DELAY = 80"

definition tap_code :: "u16 \<Rightarrow> u16 \<Rightarrow> u8 \<Rightarrow> action_st \<Rightarrow> action_st" where
  "tap_code T now code s = tap_code_delay T now code (if code = KC_CAPS_LOCK then TAP_HOLD_CAPS_DELAY else TAP_CODE_DELAY) s"

definition register_mods :: "u16 \<Rightarrow> u16 \<Rightarrow> u8 \<Rightarrow> action_st \<Rightarrow> action_st" where
  "register_mods T now mods s = (if mods \<noteq> 0 then send_keyboard_report T now (add_mods mods s) else s)"

definition unregister_mods :: "u16 \<Rightarrow> u16 \<Rightarrow> u8 \<Rightarrow> action_st \<Rightarrow> action_st" where
  "unregister_mods T now mods s = (if mods \<noteq> 0 then send_keyboard_report T now (del_mods mods s) else s)"

definition register_weak_mods :: "u16 \<Rightarrow> u16 \<Rightarrow> u8 \<Rightarrow> action_st \<Rightarrow> action_st" where
  "register_weak_mods T now mods s = (if mods \<noteq> 0 then send_keyboard_report T now (add_weak_mods mods s) else s)"

definition unregister_weak_mods :: "u16 \<Rightarrow> u16 \<Rightarrow> u8 \<Rightarrow> action_st \<Rightarrow> action_st" where
  "unregister_weak_mods T now mods s = (if mods \<noteq> 0 then send_keyboard_report T now (del_weak_mods mods s) else s)"

definition clear_keyboard_but_mods_and_keys :: "u16 \<Rightarrow> u16 \<Rightarrow> action_st \<Rightarrow> action_st" where
  "clear_keyboard_but_mods_and_keys T now s =
    (let s = map_host (host_system_send 0) s; s = map_host (host_consumer_send 0) s; s = clear_weak_mods s;
         s = send_keyboard_report T now s in notify mouse_cleared s)"

definition clear_keyboard_but_mods :: "u16 \<Rightarrow> u16 \<Rightarrow> action_st \<Rightarrow> action_st" where
  "clear_keyboard_but_mods T now s = clear_keyboard_but_mods_and_keys T now (clear_keys s)"

definition clear_keyboard :: "u16 \<Rightarrow> u16 \<Rightarrow> action_st \<Rightarrow> action_st" where
  "clear_keyboard T now s = clear_keyboard_but_mods T now (clear_mods s)"


subsection \<open>Composition with the host\<close>

lemma usage_send_frame [frame_simps]:
  "driver (host_system_send u h) = driver h" "driver (host_consumer_send u h) = driver h"
  "newest_keyboard (sent (host_system_send u h)) = newest_keyboard (sent h)"
  "newest_keyboard (sent (host_consumer_send u h)) = newest_keyboard (sent h)"
  "last_system_usage (host_system_send u h) = u" "last_consumer_usage (host_consumer_send u h) = u"
  "last_consumer_usage (host_system_send u h) = last_consumer_usage h" "last_system_usage (host_consumer_send u h) = last_system_usage h"
  by (auto simp: host_system_send_def host_consumer_send_def to_driver_def split: option.splits)

lemma map_host_frame [frame_simps]:
  "mode (map_host f s) = mode s" "keyboard_report (map_host f s) = keyboard_report s" "last_report (map_host f s) = last_report s"
  "host_if (map_host f s) = f (host_if s)" "real_mods (map_host f s) = real_mods s" "weak_mods (map_host f s) = weak_mods s"
  "oneshot_mods (map_host f s) = oneshot_mods s"
  by (simp_all add: map_host_def mode_def)

lemma usage_send_sync: "report_sync s \<Longrightarrow> report_sync (map_host (host_system_send u) s)"
  "report_sync s \<Longrightarrow> report_sync (map_host (host_consumer_send u) s)"
  by (simp_all add: report_sync_def frame_simps)

text \<open>Frames of the field updates that precede a report.\<close>

lemma clear_frames [frame_simps]:
  "mode (clear_weak_mods s) = mode s" "keyboard_report (clear_weak_mods s) = keyboard_report s" "host_if (clear_weak_mods s) = host_if s"
  "mode (clear_mods s) = mode s" "keyboard_report (clear_mods s) = keyboard_report s" "host_if (clear_mods s) = host_if s"
  "mode (clear_keys s) = mode s" "host_if (clear_keys s) = host_if s"
  "mode (add_key k s) = mode s" "host_if (add_key k s) = host_if s"
  "mode (del_key k s) = mode s" "host_if (del_key k s) = host_if s"
  "host_if (notify n s) = host_if s"
  by (simp_all add: clear_weak_mods_def clear_mods_def clear_keys_def add_key_def del_key_def mode_def notify_def)

lemma clear_sync: "report_sync s \<Longrightarrow> report_sync (clear_weak_mods s)" "report_sync s \<Longrightarrow> report_sync (clear_mods s)"
  by (simp_all add: report_sync_def frame_simps) (simp_all add: clear_weak_mods_def clear_mods_def)

lemma clear_keys_sync:
  assumes "report_sync s" "report_wf (mode s) (keyboard_report s)"
  shows "report_sync (clear_keys s)" "report_wf (mode s) (keyboard_report (clear_keys s))"
    "report_pressed (mode s) (keyboard_report (clear_keys s)) = {}"
proof -
  show w: "report_wf (mode s) (keyboard_report (clear_keys s))" using report.wf_clear [OF assms(2)] by (simp add: clear_keys_def)
  show "report_pressed (mode s) (keyboard_report (clear_keys s)) = {}" using report.pressed_clear [OF assms(2)] by (simp add: clear_keys_def)
  show "report_sync (clear_keys s)" using assms(1) report_wf_imp [OF w] by (simp add: report_sync_def frame_simps) (simp add: clear_keys_def)
qed

lemma pressed_of_view:
  assumes "host_view h r = (m, drop 2 q)"
  shows "report_pressed h r = report_pressed h q"
  using assms
  by (simp add: host_view_def report_pressed_def pressed_keys_def pressed_bits_def report_keys_def nkro_bits_def)

lemma send_host_usage [frame_simps]:
  "last_system_usage (host_if (send_keyboard_report T now s)) = last_system_usage (host_if s)"
  "last_consumer_usage (host_if (send_keyboard_report T now s)) = last_consumer_usage (host_if s)"
proof -
  have h: "host_if (composed T now s) = host_if s"
    by (simp add: composed_def compose_oneshot_def Let_def frame_simps)
  have k: "last_system_usage (snd (host_keyboard_send m r h)) = last_system_usage h"
    "last_consumer_usage (snd (host_keyboard_send m r h)) = last_consumer_usage h" for m r h
    by (auto simp: host_keyboard_send_def to_driver_def Let_def)
  show "last_system_usage (host_if (send_keyboard_report T now s)) = last_system_usage (host_if s)"
    "last_consumer_usage (host_if (send_keyboard_report T now s)) = last_consumer_usage (host_if s)"
    by (simp_all add: send_keyboard_report_eq Let_def h k)
qed

lemma clear_keyboard_host:
  assumes "report_sync s" "report_wf (mode s) (keyboard_report s)"
  shows "\<exists>r. newest_keyboard (sent (host_if (clear_keyboard T now s))) = Some r \<and> report_pressed (mode s) r = {} \<and>
    last_system_usage (host_if (clear_keyboard T now s)) = 0 \<and> last_consumer_usage (host_if (clear_keyboard T now s)) = 0 \<and>
    (oneshot_mods s = 0 \<and> weak_override_mods s = 0 \<longrightarrow> fst (host_view (mode s) r) = 0)"
proof -
  define c where "c = clear_keys (clear_mods s)"
  define q where "q = clear_weak_mods (map_host (host_consumer_send 0) (map_host (host_system_send 0) c))"
  have k: "report_sync c" "report_pressed (mode s) (keyboard_report c) = {}"
    using clear_keys_sync [OF clear_sync(2) [OF assms(1)]] assms(2) by (simp_all add: c_def frame_simps)
  have q: "report_sync q" "mode q = mode s" "report_pressed (mode s) (keyboard_report q) = {}"
    using k by (simp_all add: q_def clear_sync usage_send_sync frame_simps) (simp add: c_def frame_simps)
  have eff: "oneshot_mods s = 0 \<Longrightarrow> weak_override_mods s = 0 \<Longrightarrow> effective_mods T now q = 0"
    by (simp add: q_def c_def effective_mods_def clear_weak_mods_def map_host_def clear_keys_def clear_mods_def)
  obtain r where r: "newest_keyboard (sent (host_if (send_keyboard_report T now q))) = Some r"
    "host_view (mode s) r = (effective_mods T now q, drop 2 (keyboard_report q))"
    using send_sync(2) [OF q(1), of T now] q(2) by auto
  have clear: "host_if (clear_keyboard T now s) = host_if (send_keyboard_report T now q)"
    by (simp add: clear_keyboard_def clear_keyboard_but_mods_def clear_keyboard_but_mods_and_keys_def Let_def frame_simps q_def c_def)
  have "report_pressed (mode s) r = {}" using pressed_of_view [OF r(2)] q(3) by simp
  then show ?thesis using r eff unfolding clear by (auto simp: frame_simps) (auto simp: q_def frame_simps)
qed

subsection \<open>Properties\<close>

text \<open>Clearing the keyboard leaves the host with no key pressed, no system or consumer usage, and
  no modifiers but one-shot ones.\<close>
lemma clear_keyboard_clears_host:
  assumes "report_sync s" "report_wf (mode s) (keyboard_report s)"
  shows "\<exists>r. newest_keyboard (sent (host_if (clear_keyboard T now s))) = Some r \<and> report_pressed (mode s) r = {} \<and>
    last_system_usage (host_if (clear_keyboard T now s)) = 0 \<and> last_consumer_usage (host_if (clear_keyboard T now s)) = 0 \<and>
    (oneshot_mods s = 0 \<and> weak_override_mods s = 0 \<longrightarrow> fst (host_view (mode s) r) = 0)"
  using assms by (rule clear_keyboard_host)

text \<open>Sending keeps the keys of the report and shows them at the host.\<close>

definition host_shows :: "action_st \<Rightarrow> u8 set \<Rightarrow> bool" where
  "host_shows s K \<longleftrightarrow> (\<exists>r. newest_keyboard (sent (host_if s)) = Some r \<and> report_pressed (mode s) r = K)"

definition keys_inv :: "action_st \<Rightarrow> u8 set \<Rightarrow> bool" where
  "keys_inv s K \<longleftrightarrow> report_sync s \<and> report_wf (mode s) (keyboard_report s) \<and> report_pressed (mode s) (keyboard_report s) = K"

lemma send_keys_inv:
  assumes "keys_inv s K"
  shows "keys_inv (send_keyboard_report T now s) K" "host_shows (send_keyboard_report T now s) K"
    "mode (send_keyboard_report T now s) = mode s"
    "drop 2 (keyboard_report (send_keyboard_report T now s)) = drop 2 (keyboard_report s)"
proof -
  have a: "report_sync s" "report_wf (mode s) (keyboard_report s)" "report_pressed (mode s) (keyboard_report s) = K"
    using assms by (simp_all add: keys_inv_def)
  note c = send_sync [OF a(1), of T now]
  have "length (keyboard_report (send_keyboard_report T now s)) = length (keyboard_report s)"
    using c(1) a(1) by (simp add: report_sync_def wf_report_def)
  note k = report_depends_on_keys [OF c(3) this]
  show "keys_inv (send_keyboard_report T now s) K" using a c k by (simp add: keys_inv_def)
  obtain r where "newest_keyboard (sent (host_if (send_keyboard_report T now s))) = Some r"
    "host_view (mode s) r = (effective_mods T now s, drop 2 (keyboard_report s))" using c(2) by blast
  then show "host_shows (send_keyboard_report T now s) K"
    using pressed_of_view [of "mode s" r] a(3) by (auto simp: host_shows_def c(4))
qed (use send_sync [of s T now] assms in \<open>auto simp: keys_inv_def\<close>)

lemma keys_inv_update:
  assumes "keys_inv s K" "report_wf (mode s) r" "report_pressed (mode s) r = K'"
  shows "keys_inv (s\<lparr>keyboard_report := r\<rparr>) K'"
  using assms report_wf_imp [OF assms(2)] by (simp add: keys_inv_def report_sync_def frame_simps)

lemma del_key_inv: "keys_inv s K \<Longrightarrow> keys_inv (del_key k s) (K - {k})"
  unfolding del_key_def by (rule keys_inv_update) (auto simp: keys_inv_def report.wf_del report.pressed_del)

lemma add_key_inv:
  "keys_inv s K \<Longrightarrow> report_room (mode s) (keyboard_report s) k \<Longrightarrow> keys_inv (add_key k s) (insert k K)"
  unfolding add_key_def by (rule keys_inv_update) (auto simp: keys_inv_def report.wf_add report.pressed_add)

text \<open>A key that was deleted leaves room for itself.\<close>

lemma room_after_del:
  assumes "report_wf h r" "k \<in> report_pressed h r" "IS_BASIC_KEYCODE k"
  shows "report_room h (del_key_from_report h r k) k"
proof (cases "nkro_on h")
  case True
  have "unat k \<le> 0xA4" using assms(3) by (simp add: keycode_ranges word_le_nat_alt)
  then have "key_byte k < 30" by (simp add: key_byte_def unat_drop_bit_eq) (simp add: drop_bit_eq_div)
  then show ?thesis using True by (simp add: report_room_def)
next
  case False
  then have "k \<in> set (report_keys r)" "k \<noteq> 0" using assms(2) by (auto simp: report_pressed_def pressed_keys_alt)
  then show ?thesis using False assms(1)
    by (auto simp: report_room_def del_key_from_report_def del_key_byte_keys report_wf_def wf_boot_def image_iff)
qed

lemma keyboard_report_del_key: "keyboard_report (del_key k s) = del_key_from_report (mode s) (keyboard_report s) k"
  by (simp add: del_key_def)

lemma room_drop2: "drop 2 r = drop 2 r' \<Longrightarrow> report_room h r k = report_room h r' k"
  by (simp add: report_room_def report_keys_def)


lemma idle_keys_inv: "keys_inv idle_action {}"
  using idle_action_sync idle_action_wf by (simp add: keys_inv_def idle_action_report idle_action_mode)


end
