(* ===== verification/Qmk_Bluetooth.thy ===== *)
theory Qmk_Bluetooth
  imports Qmk_Ring Qmk_Ckbt51 Qmk_Action_Codes
begin

text \<open>
  The Bluetooth side of the keyboard (\<^verbatim>\<open>keyboards/keychron/bluetooth\<close>: \<^verbatim>\<open>bluetooth.c\<close>, \<^verbatim>\<open>report_buffer.c\<close>, the
  timers of \<^verbatim>\<open>lpm.c\<close>, and the hooks of \<^verbatim>\<open>k3_pro.c\<close>): connection state machine, host driver, event queue and report buffer.
  One record holds the static variables of these files, the link to the module and the state
  of the report composition.  What a call reads of its surroundings is the record \<open>bt_env\<close>; what goes to
  the indicators and the power management is recorded in \<open>bt_notices\<close>, and what goes to raw HID in \<open>raw_out\<close>, newest first.
\<close>

subsection \<open>State\<close>

datatype bluetooth_state_t =
    BLUETOOTH_RESET | BLUETOOTH_INITIALIZED | BLUETOOTH_DISCONNECTED | BLUETOOTH_CONNECTED
  | BLUETOOTH_PARING | BLUETOOTH_RECONNECTING | BLUETOOTH_SUSPEND

datatype bluetooth_event_t =
    EVT_NONE
  | EVT_RESET u8
  | EVT_DISCOVERABLE u8
  | EVT_RECONNECTING u8
  | EVT_CONNECTED u8
  | EVT_DISCONNECTED u8
  | EVT_PINCODE_ENTRY u8
  | EVT_EXIT_PINCODE_ENTRY u8
  | EVT_HID_SET_PROTOCOL u8
  | EVT_HID_INDICATOR u8
  | EVT_CONECTION_INTERVAL u8

datatype report_buffer_t =
    REPORT_TYPE_NONE
  | REPORT_TYPE_KB report_keyboard_t
  | REPORT_TYPE_NKRO report_keyboard_t
  | REPORT_TYPE_CONSUMER u16

datatype transport_t = TRANSPORT_NONE | TRANSPORT_USB | TRANSPORT_BLUETOOTH

datatype bt_notice =
    Indicator_set bluetooth_state_t u8
  | Indicator_stop
  | Battery_low_indication bool
  | Battery_low_backlit bool
  | Led_driver_restarted
  | Battery_animation u8
  | Low_power

record battery =
  voltage :: u16
  bat_empty :: u8
  critical_low :: u8
  bat_monitor_timer_buffer :: u32
  power_on_sample :: u8

record bt_st =
  bt_state :: bluetooth_state_t
  pincodeEntry :: bool
  bluetooth_report_protocol :: bool
  host_index :: u8
  led_state :: u8
  ev_queue :: "bluetooth_event_t ring"
  report_interval :: u8
  report_timer_buffer :: u32
  retry_time_buffer :: u32
  rb_queue :: "report_buffer_t ring"
  kb_rpt :: report_buffer_t
  retry :: u8
  module_link :: link
  bat :: battery
  transport :: transport_t
  nkro_usb :: bool
  nkro_bluetooth :: bool
  act :: action_st
  lpm_time_up :: bool
  lpm_timer_buffer :: u32
  firstDisconnect :: bool
  bt_factory_reset :: bool
  raw_out :: "u8 list list"
  bt_notices :: "bt_notice list"

text \<open>
  The timers, the product name and id of the build, whether USB is active and powered, what the indicators and
  the LED matrix report (with the sum of its buffer when it is enabled), and whether a key is down.
\<close>

record bt_env =
  env_now :: u32
  env_rtc_ms :: u32
  env_product :: "u8 list"
  env_product_id :: u16
  env_usb_active :: bool
  env_usb_power :: bool
  env_indicator_enabled :: bool
  env_indicator_running :: bool
  env_led_total :: "u32 option"
  env_led_shutdown :: bool
  env_any_key :: bool

definition sync_timer_elapsed32 :: "bt_env \<Rightarrow> u32 \<Rightarrow> u32" where
  "sync_timer_elapsed32 e t0 = TIMER_DIFF_32 (env_now e) t0"

definition bt_notify :: "bt_notice \<Rightarrow> bt_st \<Rightarrow> bt_st" where
  "bt_notify n s = s\<lparr>bt_notices := n # bt_notices s\<rparr>"

definition on_link :: "(link \<Rightarrow> link) \<Rightarrow> bt_st \<Rightarrow> bt_st" where
  "on_link f s = s\<lparr>module_link := f (module_link s)\<rparr>"

definition keymap_nkro :: "bt_st \<Rightarrow> bool" where
  "keymap_nkro s = bit (keymap_config (act s)) NKRO_BIT"

definition set_keymap_nkro :: "bool \<Rightarrow> bt_st \<Rightarrow> bt_st" where
  "set_keymap_nkro b s = s\<lparr>act := (act s)\<lparr>keymap_config :=
    (if b then set_bit NKRO_BIT (keymap_config (act s)) else unset_bit NKRO_BIT (keymap_config (act s)))\<rparr>\<rparr>"

definition FULL_VOLTAGE_VALUE :: u16 where "FULL_VOLTAGE_VALUE = 4100"
definition BATTERY_EMPTY_COUNT :: u8 where "BATTERY_EMPTY_COUNT = 10"
definition CRITICAL_LOW_COUNT :: u8 where "CRITICAL_LOW_COUNT = 20"

definition battery_is_empty :: "bt_st \<Rightarrow> bool" where
  "battery_is_empty s \<longleftrightarrow> BATTERY_EMPTY_COUNT < bat_empty (bat s)"

definition battery_is_critical_low :: "bt_st \<Rightarrow> bool" where
  "battery_is_critical_low s \<longleftrightarrow> CRITICAL_LOW_COUNT < critical_low (bat s)"

definition lpm_timer_reset :: "bt_env \<Rightarrow> bt_st \<Rightarrow> bt_st" where
  "lpm_timer_reset e s = s\<lparr>lpm_time_up := False, lpm_timer_buffer := env_now e\<rparr>"

definition lpm_timer_stop :: "bt_st \<Rightarrow> bt_st" where
  "lpm_timer_stop s = s\<lparr>lpm_time_up := False, lpm_timer_buffer := 0\<rparr>"

subsection \<open>The report buffer\<close>

definition DEFAULT_REPORT_INVERVAL_MS :: u8 where "DEFAULT_REPORT_INVERVAL_MS = 3"
definition RETPORT_RETRY_COUNT :: u8 where "RETPORT_RETRY_COUNT = 30"

definition report_buffer_init :: "bt_env \<Rightarrow> bt_st \<Rightarrow> bt_st" where
  "report_buffer_init e s =
    s\<lparr>rb_queue := empty_ring REPORT_BUFFER_QUEUE_SIZE REPORT_TYPE_NONE, retry := 0, report_timer_buffer := env_now e\<rparr>"

definition report_buffer_put :: "report_buffer_t \<Rightarrow> bt_st \<Rightarrow> bt_st" where
  "report_buffer_put r s = s\<lparr>rb_queue := snd (report_buffer_enqueue r (rb_queue s))\<rparr>"

definition report_buffer_update_timer :: "bt_env \<Rightarrow> bt_st \<Rightarrow> bt_st" where
  "report_buffer_update_timer e s = s\<lparr>report_timer_buffer := env_now e\<rparr>"

definition report_buffer_next_inverval :: "bt_env \<Rightarrow> bt_st \<Rightarrow> bool" where
  "report_buffer_next_inverval e s \<longleftrightarrow> ucast (report_interval s) < sync_timer_elapsed32 e (report_timer_buffer s)"

definition report_buffer_set_inverval :: "u8 \<Rightarrow> bt_st \<Rightarrow> bt_st" where
  "report_buffer_set_inverval interval s = s\<lparr>report_interval := interval\<rparr>"

definition report_buffer_get_retry :: "bt_st \<Rightarrow> u8" where "report_buffer_get_retry s = retry s"
definition report_buffer_set_retry :: "u8 \<Rightarrow> bt_st \<Rightarrow> bt_st" where "report_buffer_set_retry n s = s\<lparr>retry := n\<rparr>"

text \<open>The module's functions are all present, and the fields are sent from the first byte the code takes the address of.\<close>

definition send_report :: "report_buffer_t \<Rightarrow> link \<Rightarrow> link" where
  "send_report r = (case r of
     REPORT_TYPE_NONE \<Rightarrow> id
   | REPORT_TYPE_KB rep \<Rightarrow> ckbt51_send_keyboard rep
   | REPORT_TYPE_NKRO rep \<Rightarrow> ckbt51_send_nkro (drop 1 rep)
   | REPORT_TYPE_CONSUMER usage \<Rightarrow> ckbt51_send_consumer usage)"

text \<open>Taking the next report, or repeating the last one; the flag is \<^verbatim>\<open>pending_data\<close>.\<close>

definition report_buffer_next :: "bt_env \<Rightarrow> bt_st \<Rightarrow> bool \<times> bt_st" where
  "report_buffer_next e s =
    (if retry s = 0 then
       case report_buffer_dequeue (rb_queue s) of
         None \<Rightarrow> (False, s)
       | Some (r, q) \<Rightarrow>
           let s = s\<lparr>kb_rpt := r, rb_queue := q\<rparr> in
           if r \<noteq> REPORT_TYPE_NONE \<and> 2 < env_now e
           then (True, s\<lparr>retry := RETPORT_RETRY_COUNT, retry_time_buffer := env_now e\<rparr>) else (False, s)
     else if 7 < sync_timer_elapsed32 e (retry_time_buffer s)
       then (True, s\<lparr>retry := retry s - 1, retry_time_buffer := env_now e\<rparr>)
     else (False, s))"

definition report_buffer_task :: "bt_env \<Rightarrow> bt_st \<Rightarrow> bt_st" where
  "report_buffer_task e s =
    (if bt_state s = BLUETOOTH_CONNECTED \<and> (\<not> report_buffer_is_empty (rb_queue s) \<or> retry s \<noteq> 0) \<and> report_buffer_next_inverval e s then
       let (pending_data, s) = report_buffer_next e s in
       if pending_data then lpm_timer_reset e (report_buffer_update_timer e (on_link (send_report (kb_rpt s)) s)) else s
     else s)"

subsection \<open>Connections\<close>

definition bluetooth_bt_event_queue_init :: "bt_st \<Rightarrow> bt_st" where
  "bluetooth_bt_event_queue_init s = s\<lparr>ev_queue := empty_ring BLUETOOTH_EVENT_QUEUE_SIZE EVT_NONE\<rparr>"

definition bluetooth_pairing_ex :: "u8 \<Rightarrow> bt_st \<Rightarrow> bt_st" where
  "bluetooth_pairing_ex host_idx s =
    (if battery_is_critical_low s then s
     else (on_link (ckbt51_become_discoverable host_idx None) s)\<lparr>bt_state := BLUETOOTH_PARING, host_index := host_idx\<rparr>)"

definition bluetooth_pairing :: "bt_st \<Rightarrow> bt_st" where
  "bluetooth_pairing s =
    (if battery_is_critical_low s then s else (bluetooth_pairing_ex 0 s)\<lparr>bt_state := BLUETOOTH_PARING\<rparr>)"

definition bluetooth_connect :: "bt_env \<Rightarrow> bt_st \<Rightarrow> bt_st" where
  "bluetooth_connect e s =
    (if battery_is_critical_low s \<or> env_now e = 0 then s
     else (on_link (ckbt51_connect 0 0) s)\<lparr>bt_state := BLUETOOTH_RECONNECTING\<rparr>)"

definition bluetooth_connect_ex :: "u8 \<Rightarrow> u16 \<Rightarrow> bt_st \<Rightarrow> bt_st" where
  "bluetooth_connect_ex host_idx timeout s =
    (if battery_is_critical_low s then s
     else if host_idx \<noteq> 0 \<and> host_index s = host_idx \<and> bt_state s = BLUETOOTH_CONNECTED then s
     else let s = (if host_idx \<noteq> 0 then s\<lparr>host_index := host_idx, led_state := 0\<rparr> else s) in
       (on_link (ckbt51_connect host_idx timeout) s)\<lparr>bt_state := BLUETOOTH_RECONNECTING\<rparr>)"

definition bluetooth_disconnect :: "bt_st \<Rightarrow> bt_st" where
  "bluetooth_disconnect s = on_link ckbt51_disconnect s"

subsection \<open>The host driver\<close>

definition bluetooth_keyboard_leds :: "bt_st \<Rightarrow> u8" where
  "bluetooth_keyboard_leds s = (if bt_state s = BLUETOOTH_CONNECTED then led_state s else 0)"

definition reconnect :: "bt_env \<Rightarrow> bt_st \<Rightarrow> bt_st" where
  "reconnect e s = (if bt_state s \<noteq> BLUETOOTH_RESET then bluetooth_connect e s else s)"

definition bluetooth_send_keyboard :: "bt_env \<Rightarrow> report_keyboard_t \<Rightarrow> bt_st \<Rightarrow> bt_st" where
  "bluetooth_send_keyboard e report s =
    (if bt_state s = BLUETOOTH_PARING \<and> \<not> pincodeEntry s then s
     else if bt_state s = BLUETOOTH_CONNECTED \<or> bt_state s = BLUETOOTH_PARING \<and> pincodeEntry s then
       if bluetooth_report_protocol s \<and> keymap_nkro s then
         let firstBuffer = (report_buffer_is_empty (rb_queue s) \<and> report_buffer_next_inverval e s \<and> report_buffer_get_retry s = 0);
             s = report_buffer_put (REPORT_TYPE_NKRO report) s in
         if firstBuffer then report_buffer_task e (report_buffer_set_retry 0 s) else s
       else if report_buffer_is_empty (rb_queue s) \<and> report_buffer_next_inverval e s
         then report_buffer_update_timer e (on_link (ckbt51_send_keyboard report) s)
       else report_buffer_put (REPORT_TYPE_KB report) s
     else reconnect e s)"

text \<open>The mouse report in the order of its fields.\<close>

definition mouse_bytes :: "report_mouse_t \<Rightarrow> u8 list" where
  "mouse_bytes r = [mouse_report_id r, buttons r, mouse_x r, mouse_y r, mouse_v r, mouse_h r]"

definition bluetooth_send_mouse :: "bt_env \<Rightarrow> report_mouse_t \<Rightarrow> bt_st \<Rightarrow> bt_st" where
  "bluetooth_send_mouse e report s =
    (if bt_state s = BLUETOOTH_CONNECTED then on_link (ckbt51_send_mouse (mouse_bytes report)) s else reconnect e s)"

definition bluetooth_send_system :: "bt_env \<Rightarrow> u16 \<Rightarrow> bt_st \<Rightarrow> bt_st" where
  "bluetooth_send_system e data s =
    (if bt_state s = BLUETOOTH_CONNECTED then on_link (ckbt51_send_system data) s else reconnect e s)"

definition bluetooth_send_consumer :: "bt_env \<Rightarrow> u16 \<Rightarrow> bt_st \<Rightarrow> bt_st" where
  "bluetooth_send_consumer e data s =
    (if bt_state s = BLUETOOTH_CONNECTED then
       if report_buffer_is_empty (rb_queue s) \<and> report_buffer_next_inverval e s
       then report_buffer_update_timer e (on_link (ckbt51_send_consumer data) s)
       else report_buffer_put (REPORT_TYPE_CONSUMER data) s
     else reconnect e s)"

definition bluetooth_send_extra :: "bt_env \<Rightarrow> u8 \<Rightarrow> u16 \<Rightarrow> bt_st \<Rightarrow> bt_st" where
  "bluetooth_send_extra e report_id usage s =
    (if report_id = REPORT_ID_SYSTEM then bluetooth_send_system e usage s
     else if report_id = REPORT_ID_CONSUMER then bluetooth_send_consumer e usage s
     else s)"

text \<open>
  Running code of the report composition: what it hands to the Bluetooth driver is delivered in order.
  The composition does not read what the driver changes.
\<close>

definition deliver :: "bt_env \<Rightarrow> host_driver_t \<times> report \<Rightarrow> bt_st \<Rightarrow> bt_st" where
  "deliver e dr s = (case dr of
     (bluetooth_driver, Keyboard_report r) \<Rightarrow> bluetooth_send_keyboard e r s
   | (bluetooth_driver, Mouse_report r) \<Rightarrow> bluetooth_send_mouse e r s
   | (bluetooth_driver, Extra_report i u) \<Rightarrow> bluetooth_send_extra e i u s
   | (chibios_driver, _) \<Rightarrow> s)"

definition newly_sent :: "action_st \<Rightarrow> action_st \<Rightarrow> (host_driver_t \<times> report) list" where
  "newly_sent a a' = take (length (sent (host_if a')) - length (sent (host_if a))) (sent (host_if a'))"

definition run_action :: "bt_env \<Rightarrow> (action_st \<Rightarrow> action_st) \<Rightarrow> bt_st \<Rightarrow> bt_st" where
  "run_action e f s = foldr (deliver e) (newly_sent (act s) (f (act s))) (s\<lparr>act := f (act s)\<rparr>)"

text \<open>The build has no \<^verbatim>\<open>ONESHOT_TIMEOUT\<close>, and \<^verbatim>\<open>timer_read\<close> is the low half of the timer.\<close>

definition bt_clear_keyboard :: "bt_env \<Rightarrow> bt_st \<Rightarrow> bt_st" where
  "bt_clear_keyboard e = run_action e (clear_keyboard 0 (ucast (env_now e)))"

subsection \<open>Start-up\<close>

text \<open>The initial values of the static variables; the composition of reports starts as \<open>a\<close>.\<close>

definition bt_boot :: "action_st \<Rightarrow> bt_st" where
  "bt_boot a =
    \<lparr>bt_state = BLUETOOTH_RESET, pincodeEntry = False, bluetooth_report_protocol = True, host_index = 0, led_state = 0,
      ev_queue = empty_ring BLUETOOTH_EVENT_QUEUE_SIZE EVT_NONE, report_interval = DEFAULT_REPORT_INVERVAL_MS,
      report_timer_buffer = 0, retry_time_buffer = 0, rb_queue = empty_ring REPORT_BUFFER_QUEUE_SIZE REPORT_TYPE_NONE,
      kb_rpt = REPORT_TYPE_NONE, retry = 0,
      module_link = \<lparr>link_sn = 0, dfu_sn = 0, reg_offset = 0xFF, serial_out = [], serial_in = [], wait_for_new_pkt = True,
        pkt_len = 0xFF, pkt_sn = 0\<rparr>,
      bat = \<lparr>voltage = FULL_VOLTAGE_VALUE, bat_empty = 0, critical_low = 0, bat_monitor_timer_buffer = 0, power_on_sample = 0\<rparr>,
      transport = TRANSPORT_USB, nkro_usb = False, nkro_bluetooth = False, act = a, lpm_time_up = False, lpm_timer_buffer = 0,
      firstDisconnect = True, bt_factory_reset = False, raw_out = [], bt_notices = []\<rparr>"

text \<open>Pins, the indicators and the real-time clock are set up elsewhere.  \<open>keymap\<close> is the value of \<^verbatim>\<open>eeconfig_read_keymap\<close>.\<close>

definition bluetooth_init :: "bt_env \<Rightarrow> u16 \<Rightarrow> bt_st \<Rightarrow> bt_st" where
  "bluetooth_init e keymap s =
    (let s = bluetooth_bt_event_queue_init (s\<lparr>bt_state := BLUETOOTH_INITIALIZED\<rparr>);
         s = report_buffer_init e s;
         s = lpm_timer_reset e s;
         s = s\<lparr>act := (act s)\<lparr>keymap_config := keymap\<rparr>\<rparr> in
     s\<lparr>nkro_bluetooth := keymap_nkro s\<rparr>)"

subsection \<open>Events of the module\<close>

definition k3_pro_module_param :: "bt_env \<Rightarrow> module_param_t" where
  "k3_pro_module_param e =
    \<lparr>event_mode = 0x02, connected_idle_timeout = 7200, param_pairing_timeout = 180, pairing_mode = 0, reconnect_timeout = 5,
      report_rate = 90, rsvd1 = 0, rsvd2 = 0, vendor_id_source = 1, verndor_id = 0, product_id = env_product_id e,
      le_connection_interval_min = 0, le_connection_interval_max = 0, le_connection_interval_timeout = 0\<rparr>"

definition ckbt51_param_init :: "bt_env \<Rightarrow> bt_st \<Rightarrow> bt_st" where
  "ckbt51_param_init e s =
    on_link (ckbt51_set_param (k3_pro_module_param e)) (on_link (ckbt51_set_local_name (env_product e)) s)"

definition bluetooth_enter_disconnected_kb :: "bt_env \<Rightarrow> u8 \<Rightarrow> bt_st \<Rightarrow> bt_st" where
  "bluetooth_enter_disconnected_kb e host_idx s =
    (let s = (if bt_factory_reset s then ckbt51_param_init e (s\<lparr>bt_factory_reset := False\<rparr>) else s) in
     if firstDisconnect s \<and> env_now e < 1000 \<and> transport s = TRANSPORT_BLUETOOTH
     then (bluetooth_connect e (ckbt51_param_init e s))\<lparr>firstDisconnect := False\<rparr> else s)"

definition bluetooth_enter_reset :: "u8 \<Rightarrow> bt_st \<Rightarrow> bt_st" where
  "bluetooth_enter_reset reason s = s\<lparr>bt_state := BLUETOOTH_RESET\<rparr>"

definition bluetooth_enter_discoverable :: "u8 \<Rightarrow> bt_st \<Rightarrow> bt_st" where
  "bluetooth_enter_discoverable host_idx s =
    bt_notify (Indicator_set BLUETOOTH_PARING host_idx) (s\<lparr>bt_state := BLUETOOTH_PARING\<rparr>)"

definition bluetooth_enter_reconnecting :: "u8 \<Rightarrow> bt_st \<Rightarrow> bt_st" where
  "bluetooth_enter_reconnecting host_idx s =
    bt_notify (Indicator_set BLUETOOTH_RECONNECTING host_idx) (s\<lparr>bt_state := BLUETOOTH_RECONNECTING\<rparr>)"

definition bluetooth_enter_connected :: "bt_env \<Rightarrow> u8 \<Rightarrow> bt_st \<Rightarrow> bt_st" where
  "bluetooth_enter_connected e host_idx s =
    (let s = bt_notify (Indicator_set BLUETOOTH_CONNECTED host_idx) (s\<lparr>bt_state := BLUETOOTH_CONNECTED\<rparr>);
         s = bt_clear_keyboard e (s\<lparr>host_index := host_idx\<rparr>);
         s = set_keymap_nkro (nkro_bluetooth s) s in
     if battery_is_empty s then bt_notify (Battery_low_indication True) s else s)"

definition bluetooth_enter_disconnected :: "bt_env \<Rightarrow> u8 \<Rightarrow> bt_st \<Rightarrow> bt_st" where
  "bluetooth_enter_disconnected e host_idx s =
    (let previous_state = bt_state s;
         s = s\<lparr>bt_state := BLUETOOTH_DISCONNECTED\<rparr>;
         s = (if previous_state = BLUETOOTH_CONNECTED
              then bt_notify (Indicator_set BLUETOOTH_SUSPEND host_idx) (lpm_timer_reset e s)
              else bt_notify (Indicator_set BLUETOOTH_DISCONNECTED host_idx) s);
         s = (report_buffer_init e s)\<lparr>retry := 0\<rparr>;
         s = bluetooth_enter_disconnected_kb e host_idx s in
     bt_notify (Battery_low_backlit False) (bt_notify (Battery_low_indication False) s))"

definition bluetooth_enter_pin_code_entry :: "bt_st \<Rightarrow> bt_st" where
  "bluetooth_enter_pin_code_entry s = (set_keymap_nkro False s)\<lparr>pincodeEntry := True\<rparr>"

definition bluetooth_exit_pin_code_entry :: "bt_st \<Rightarrow> bt_st" where
  "bluetooth_exit_pin_code_entry s = (set_keymap_nkro True s)\<lparr>pincodeEntry := False\<rparr>"

definition bluetooth_hid_set_protocol :: "bool \<Rightarrow> bt_st \<Rightarrow> bt_st" where
  "bluetooth_hid_set_protocol report_protocol s = s\<lparr>bluetooth_report_protocol := False\<rparr>"

definition bluetooth_event :: "bt_env \<Rightarrow> bluetooth_event_t \<Rightarrow> bt_st \<Rightarrow> bt_st" where
  "bluetooth_event e ev s = (case ev of
     EVT_RESET reason \<Rightarrow> bluetooth_enter_reset reason s
   | EVT_CONNECTED host_idx \<Rightarrow> bluetooth_enter_connected e host_idx s
   | EVT_DISCOVERABLE host_idx \<Rightarrow> bluetooth_enter_discoverable host_idx s
   | EVT_RECONNECTING host_idx \<Rightarrow> bluetooth_enter_reconnecting host_idx s
   | EVT_DISCONNECTED host_idx \<Rightarrow> bluetooth_enter_disconnected e host_idx (s\<lparr>led_state := 0\<rparr>)
   | EVT_PINCODE_ENTRY _ \<Rightarrow> bluetooth_enter_pin_code_entry s
   | EVT_EXIT_PINCODE_ENTRY _ \<Rightarrow> bluetooth_exit_pin_code_entry s
   | EVT_HID_INDICATOR led \<Rightarrow> s\<lparr>led_state := led\<rparr>
   | EVT_HID_SET_PROTOCOL proto \<Rightarrow> bluetooth_hid_set_protocol (proto \<noteq> 0) s
   | EVT_CONECTION_INTERVAL interval \<Rightarrow> report_buffer_set_inverval interval s
   | EVT_NONE \<Rightarrow> s)"

text \<open>The loop ends when the queue is empty: \<open>None\<close> would be a loop that does not end.\<close>

partial_function (option) bluetooth_event_queue_task :: "bt_env \<Rightarrow> bt_st \<Rightarrow> bt_st option" where
  "bluetooth_event_queue_task e s =
    (case bluetooth_event_queue_dequeue (ev_queue s) of
       None \<Rightarrow> Some s
     | Some (ev, q) \<Rightarrow> bluetooth_event_queue_task e (bluetooth_event e ev (s\<lparr>ev_queue := q\<rparr>)))"

definition bluetooth_low_battery_shutdown :: "bt_st \<Rightarrow> bt_st" where
  "bluetooth_low_battery_shutdown s =
    bluetooth_disconnect (bt_notify (Battery_low_backlit False) (bt_notify (Battery_low_indication False) s))"

subsection \<open>Frames of the operations\<close>

lemma on_link_frame [frame_simps]:
  "ev_queue (on_link f s) = ev_queue s" "bt_state (on_link f s) = bt_state s" "rb_queue (on_link f s) = rb_queue s"
  "act (on_link f s) = act s" "nkro_usb (on_link f s) = nkro_usb s" "nkro_bluetooth (on_link f s) = nkro_bluetooth s"
  "transport (on_link f s) = transport s" "retry (on_link f s) = retry s" "module_link (on_link f s) = f (module_link s)"
  "kb_rpt (on_link f s) = kb_rpt s" "bluetooth_report_protocol (on_link f s) = bluetooth_report_protocol s"
  "report_interval (on_link f s) = report_interval s" "report_timer_buffer (on_link f s) = report_timer_buffer s"
  "bat (on_link f s) = bat s"
  by (simp_all add: on_link_def)

lemma bt_notify_frame [frame_simps]:
  "ev_queue (bt_notify n s) = ev_queue s" "bt_state (bt_notify n s) = bt_state s" "rb_queue (bt_notify n s) = rb_queue s"
  "act (bt_notify n s) = act s" "nkro_usb (bt_notify n s) = nkro_usb s" "nkro_bluetooth (bt_notify n s) = nkro_bluetooth s"
  "transport (bt_notify n s) = transport s" "retry (bt_notify n s) = retry s" "module_link (bt_notify n s) = module_link s"
  "bat (bt_notify n s) = bat s"
  by (simp_all add: bt_notify_def)

lemmas bt_small_defs = lpm_timer_reset_def lpm_timer_stop_def report_buffer_init_def report_buffer_put_def
  report_buffer_update_timer_def report_buffer_set_inverval_def report_buffer_set_retry_def set_keymap_nkro_def

lemma set_keymap_nkro_frame [frame_simps]:
  "ev_queue (set_keymap_nkro b s) = ev_queue s" "nkro_usb (set_keymap_nkro b s) = nkro_usb s"
  "nkro_bluetooth (set_keymap_nkro b s) = nkro_bluetooth s" "keymap_nkro (set_keymap_nkro b s) = b"
  "transport (set_keymap_nkro b s) = transport s"
  by (simp_all add: set_keymap_nkro_def keymap_nkro_def NKRO_BIT_def bit_simps)

text \<open>What the operations below the driver keep.\<close>

definition same_side :: "bt_st \<Rightarrow> bt_st \<Rightarrow> bool" where
  "same_side s' s \<longleftrightarrow> ev_queue s' = ev_queue s \<and> act s' = act s \<and> nkro_usb s' = nkro_usb s \<and>
    nkro_bluetooth s' = nkro_bluetooth s \<and> transport s' = transport s"

lemma same_side_refl [simp]: "same_side s s"
  by (simp add: same_side_def)

lemma same_side_trans: "same_side s'' s' \<Longrightarrow> same_side s' s \<Longrightarrow> same_side s'' s"
  by (simp add: same_side_def)

lemma report_buffer_next_side: "same_side (snd (report_buffer_next e s)) s"
  by (auto simp: report_buffer_next_def same_side_def Let_def split: option.splits)

lemma report_buffer_task_side: "same_side (report_buffer_task e s) s"
  using report_buffer_next_side [of e s]
  by (auto simp: report_buffer_task_def same_side_def bt_small_defs frame_simps split: prod.splits)

lemma reconnect_side: "same_side (reconnect e s) s"
  by (auto simp: reconnect_def bluetooth_connect_def same_side_def frame_simps)

lemma send_keyboard_side: "same_side (bluetooth_send_keyboard e r s) s"
  using reconnect_side [of e s] report_buffer_task_side [of e "report_buffer_set_retry 0 (report_buffer_put (REPORT_TYPE_NKRO r) s)"]
  by (auto simp: bluetooth_send_keyboard_def same_side_def bt_small_defs frame_simps Let_def)

lemma deliver_side: "same_side (deliver e dr s) s"
proof -
  have "same_side (bluetooth_send_mouse e m s) s" "same_side (bluetooth_send_extra e i u s) s" for m i u
    using reconnect_side [of e s]
    by (auto simp: bluetooth_send_mouse_def bluetooth_send_extra_def bluetooth_send_system_def bluetooth_send_consumer_def
      same_side_def bt_small_defs frame_simps)
  then show ?thesis by (auto simp: deliver_def send_keyboard_side split: prod.splits host_driver_t.splits report.splits)
qed

lemma deliver_all_side: "same_side (foldr (deliver e) ds s) s"
  by (induction ds) (auto intro: same_side_trans deliver_side)

lemma run_action_side:
  "ev_queue (run_action e f s) = ev_queue s" "nkro_usb (run_action e f s) = nkro_usb s"
  "nkro_bluetooth (run_action e f s) = nkro_bluetooth s" "transport (run_action e f s) = transport s"
  "act (run_action e f s) = f (act s)"
  using deliver_all_side [of e "newly_sent (act s) (f (act s))" "s\<lparr>act := f (act s)\<rparr>"]
  by (simp_all add: run_action_def same_side_def)

lemma bluetooth_event_queue_frame: "ev_queue (bluetooth_event e ev s) = ev_queue s"
  by (cases ev) (simp_all add: bluetooth_event_def bluetooth_enter_reset_def bluetooth_enter_discoverable_def
    bluetooth_enter_reconnecting_def bluetooth_enter_connected_def bluetooth_enter_disconnected_def
    bluetooth_enter_disconnected_kb_def bluetooth_connect_def ckbt51_param_init_def
    bluetooth_enter_pin_code_entry_def bluetooth_exit_pin_code_entry_def bluetooth_hid_set_protocol_def bt_clear_keyboard_def
    bt_small_defs Let_def frame_simps run_action_side)

text \<open>The events are handled the same whatever is waiting behind them.\<close>

lemma queue_apart [frame_simps]:
  "on_link f (s\<lparr>ev_queue := q\<rparr>) = (on_link f s)\<lparr>ev_queue := q\<rparr>"
  "bt_notify n (s\<lparr>ev_queue := q\<rparr>) = (bt_notify n s)\<lparr>ev_queue := q\<rparr>"
  "set_keymap_nkro b (s\<lparr>ev_queue := q\<rparr>) = (set_keymap_nkro b s)\<lparr>ev_queue := q\<rparr>"
  "keymap_nkro (s\<lparr>ev_queue := q\<rparr>) = keymap_nkro s"
  "battery_is_critical_low (s\<lparr>ev_queue := q\<rparr>) = battery_is_critical_low s"
  "battery_is_empty (s\<lparr>ev_queue := q\<rparr>) = battery_is_empty s"
  "report_buffer_next_inverval e (s\<lparr>ev_queue := q\<rparr>) = report_buffer_next_inverval e s"
  by (simp_all add: on_link_def bt_notify_def set_keymap_nkro_def keymap_nkro_def battery_is_critical_low_def
    battery_is_empty_def report_buffer_next_inverval_def)

lemma report_buffer_next_apart [frame_simps]:
  "report_buffer_next e (s\<lparr>ev_queue := q\<rparr>) =
    (fst (report_buffer_next e s), (snd (report_buffer_next e s))\<lparr>ev_queue := q\<rparr>)"
  by (simp add: report_buffer_next_def Let_def split: option.splits prod.splits)

lemma report_buffer_task_apart [frame_simps]:
  "report_buffer_task e (s\<lparr>ev_queue := q\<rparr>) = (report_buffer_task e s)\<lparr>ev_queue := q\<rparr>"
  by (auto simp: report_buffer_task_def frame_simps bt_small_defs split_beta)

lemma send_keyboard_apart:
  "bluetooth_send_keyboard e r (s\<lparr>ev_queue := q\<rparr>) = (bluetooth_send_keyboard e r s)\<lparr>ev_queue := q\<rparr>"
proof -
  have put: "report_buffer_put x (s\<lparr>ev_queue := q\<rparr>) = (report_buffer_put x s)\<lparr>ev_queue := q\<rparr>"
    "report_buffer_set_retry k (s\<lparr>ev_queue := q\<rparr>) = (report_buffer_set_retry k s)\<lparr>ev_queue := q\<rparr>"
    "report_buffer_update_timer e (s\<lparr>ev_queue := q\<rparr>) = (report_buffer_update_timer e s)\<lparr>ev_queue := q\<rparr>"
    "report_buffer_get_retry (s\<lparr>ev_queue := q\<rparr>) = report_buffer_get_retry s" for x k s
    by (simp_all add: bt_small_defs report_buffer_get_retry_def)
  show ?thesis
    by (simp add: bluetooth_send_keyboard_def reconnect_def bluetooth_connect_def Let_def frame_simps put)
qed

lemma deliver_apart: "deliver e dr (s\<lparr>ev_queue := q\<rparr>) = (deliver e dr s)\<lparr>ev_queue := q\<rparr>"
proof -
  have "bluetooth_send_mouse e m (s\<lparr>ev_queue := q\<rparr>) = (bluetooth_send_mouse e m s)\<lparr>ev_queue := q\<rparr>"
    "bluetooth_send_extra e i u (s\<lparr>ev_queue := q\<rparr>) = (bluetooth_send_extra e i u s)\<lparr>ev_queue := q\<rparr>" for m i u
    by (simp_all add: bluetooth_send_mouse_def bluetooth_send_extra_def bluetooth_send_system_def bluetooth_send_consumer_def
      reconnect_def bluetooth_connect_def bt_small_defs frame_simps)
  then show ?thesis by (simp add: deliver_def send_keyboard_apart split: prod.splits host_driver_t.splits report.splits)
qed

lemma clear_keyboard_apart: "bt_clear_keyboard e (s\<lparr>ev_queue := q\<rparr>) = (bt_clear_keyboard e s)\<lparr>ev_queue := q\<rparr>"
proof -
  have all: "foldr (deliver e) ds (s\<lparr>ev_queue := q\<rparr>) = (foldr (deliver e) ds s)\<lparr>ev_queue := q\<rparr>" for ds s
    by (induction ds) (simp_all add: deliver_apart)
  have swap: "s\<lparr>ev_queue := q, act := a\<rparr> = s\<lparr>act := a, ev_queue := q\<rparr>" for a by simp
  show ?thesis by (simp add: bt_clear_keyboard_def run_action_def) (simp only: swap all)
qed

lemma param_init_apart: "ckbt51_param_init e (s\<lparr>ev_queue := q\<rparr>) = (ckbt51_param_init e s)\<lparr>ev_queue := q\<rparr>"
  by (simp add: ckbt51_param_init_def frame_simps)

lemma connect_apart: "bluetooth_connect e (s\<lparr>ev_queue := q\<rparr>) = (bluetooth_connect e s)\<lparr>ev_queue := q\<rparr>"
  by (simp add: bluetooth_connect_def frame_simps)

lemma enter_disconnected_kb_apart:
  "bluetooth_enter_disconnected_kb e i (s\<lparr>ev_queue := q\<rparr>) = (bluetooth_enter_disconnected_kb e i s)\<lparr>ev_queue := q\<rparr>"
proof -
  define s1 where "s1 = (if bt_factory_reset s then ckbt51_param_init e (s\<lparr>bt_factory_reset := False\<rparr>) else s)"
  have swap: "s\<lparr>ev_queue := q, bt_factory_reset := False\<rparr> = s\<lparr>bt_factory_reset := False, ev_queue := q\<rparr>" by simp
  have s1: "(if bt_factory_reset (s\<lparr>ev_queue := q\<rparr>) then ckbt51_param_init e (s\<lparr>ev_queue := q, bt_factory_reset := False\<rparr>)
      else s\<lparr>ev_queue := q\<rparr>) = s1\<lparr>ev_queue := q\<rparr>"
    by (simp only: swap param_init_apart) (simp add: s1_def)
  show ?thesis
    unfolding bluetooth_enter_disconnected_kb_def Let_def s1 s1_def [symmetric]
    by (simp only: param_init_apart connect_apart) simp
qed

lemma enter_disconnected_apart:
  "bluetooth_enter_disconnected e i (s\<lparr>ev_queue := q, led_state := 0\<rparr>) = (bluetooth_enter_disconnected e i (s\<lparr>led_state := 0\<rparr>))\<lparr>ev_queue := q\<rparr>"
proof -
  define pre where "pre s = (report_buffer_init e (if bt_state s = BLUETOOTH_CONNECTED
      then bt_notify (Indicator_set BLUETOOTH_SUSPEND i) (lpm_timer_reset e (s\<lparr>bt_state := BLUETOOTH_DISCONNECTED\<rparr>))
      else bt_notify (Indicator_set BLUETOOTH_DISCONNECTED i) (s\<lparr>bt_state := BLUETOOTH_DISCONNECTED\<rparr>)))\<lparr>retry := 0\<rparr>" for s
  have d: "bluetooth_enter_disconnected e i s = bt_notify (Battery_low_backlit False) (bt_notify (Battery_low_indication False)
      (bluetooth_enter_disconnected_kb e i (pre s)))" for s
    by (simp add: bluetooth_enter_disconnected_def Let_def pre_def)
  have p: "pre (s\<lparr>ev_queue := q, led_state := 0\<rparr>) = (pre (s\<lparr>led_state := 0\<rparr>))\<lparr>ev_queue := q\<rparr>"
    by (simp add: pre_def bt_small_defs bt_notify_def)
  show ?thesis unfolding d p enter_disconnected_kb_apart by (simp add: bt_notify_def)
qed

lemma bluetooth_event_apart: "bluetooth_event e ev (s\<lparr>ev_queue := q\<rparr>) = (bluetooth_event e ev s)\<lparr>ev_queue := q\<rparr>"
proof (cases ev)
  case (EVT_CONNECTED i)
  have "bluetooth_enter_connected e i (s\<lparr>ev_queue := q\<rparr>) = (bluetooth_enter_connected e i s)\<lparr>ev_queue := q\<rparr>"
  proof -
    define s1 where "s1 = (bt_notify (Indicator_set BLUETOOTH_CONNECTED i) (s\<lparr>bt_state := BLUETOOTH_CONNECTED\<rparr>))\<lparr>host_index := i\<rparr>"
    have "bluetooth_enter_connected e i s = (let s = bt_clear_keyboard e s1; s = set_keymap_nkro (nkro_bluetooth s) s in
        if battery_is_empty s then bt_notify (Battery_low_indication True) s else s)"
      by (simp add: bluetooth_enter_connected_def Let_def s1_def)
    moreover have "bluetooth_enter_connected e i (s\<lparr>ev_queue := q\<rparr>) =
        (let s = bt_clear_keyboard e (s1\<lparr>ev_queue := q\<rparr>); s = set_keymap_nkro (nkro_bluetooth s) s in
        if battery_is_empty s then bt_notify (Battery_low_indication True) s else s)"
    proof -
      have "(bt_notify (Indicator_set BLUETOOTH_CONNECTED i) (s\<lparr>ev_queue := q\<rparr>\<lparr>bt_state := BLUETOOTH_CONNECTED\<rparr>))\<lparr>host_index := i\<rparr> = s1\<lparr>ev_queue := q\<rparr>"
        by (simp add: s1_def bt_notify_def)
      then show ?thesis by (simp only: bluetooth_enter_connected_def Let_def)
    qed
    ultimately show ?thesis by (simp add: clear_keyboard_apart Let_def frame_simps)
  qed
  then show ?thesis by (simp add: EVT_CONNECTED bluetooth_event_def)
next
  case (EVT_DISCONNECTED i)
  then show ?thesis by (simp add: bluetooth_event_def enter_disconnected_apart)
qed (simp_all add: bluetooth_event_def bluetooth_enter_reset_def bluetooth_enter_discoverable_def bluetooth_enter_reconnecting_def
    bluetooth_enter_pin_code_entry_def bluetooth_exit_pin_code_entry_def bluetooth_hid_set_protocol_def bt_small_defs bt_notify_def)

lemma fold_event_apart:
  "fold (bluetooth_event e) evs (s\<lparr>ev_queue := q\<rparr>) = (fold (bluetooth_event e) evs s)\<lparr>ev_queue := q\<rparr>"
  by (induction evs arbitrary: s) (simp_all add: bluetooth_event_apart)

lemma event_queue_task_eq:
  assumes "ring_inv 16 (ev_queue s)"
  shows "\<exists>q. bluetooth_event_queue_task e s =
      Some ((fold (bluetooth_event e) (ring_contents 16 (ev_queue s)) s)\<lparr>ev_queue := q\<rparr>) \<and>
    ring_inv 16 q \<and> ring_contents 16 q = []"
  using assms
proof (induction "ring_contents 16 (ev_queue s)" arbitrary: s)
  case Nil
  then have "bluetooth_event_queue_dequeue (ev_queue s) = None" by (simp add: event_queue.deq_None)
  then have "bluetooth_event_queue_task e s = Some (s\<lparr>ev_queue := ev_queue s\<rparr>)"
    by (subst bluetooth_event_queue_task.simps) simp
  then show ?case using Nil by (intro exI [of _ "ev_queue s"]) simp
next
  case (Cons ev evs)
  obtain q where q: "bluetooth_event_queue_dequeue (ev_queue s) = Some (ev, q)" "ring_inv 16 q" "ring_contents 16 q = evs"
    using event_queue.deq_Cons [OF Cons.prems Cons.hyps(2) [symmetric]] .
  let ?s = "bluetooth_event e ev (s\<lparr>ev_queue := q\<rparr>)"
  have "evs = ring_contents 16 (ev_queue ?s)" "ring_inv 16 (ev_queue ?s)"
    using q by (simp_all add: bluetooth_event_queue_frame)
  note ih = Cons.hyps(1) [OF this]
  have "bluetooth_event_queue_task e s = bluetooth_event_queue_task e ?s"
    by (subst bluetooth_event_queue_task.simps) (simp add: q)
  then show ?case
    using ih by (simp add: bluetooth_event_apart fold_event_apart bluetooth_event_queue_frame q flip: Cons.hyps(2))
qed

subsection \<open>Properties\<close>

text \<open>C33: The event task returns, and it has handled every event that was waiting, oldest first, and emptied
  the queue.\<close>
theorem event_queue_task_handles_all:
  assumes "ring_inv 16 (ev_queue s)"
  shows "\<exists>q. bluetooth_event_queue_task e s =
      Some ((fold (bluetooth_event e) (ring_contents 16 (ev_queue s)) s)\<lparr>ev_queue := q\<rparr>) \<and>
    ring_inv 16 q \<and> ring_contents 16 q = []"
  using assms by (rule event_queue_task_eq)

definition at_time :: "u32 \<Rightarrow> bt_env" where
  "at_time t = \<lparr>env_now = t, env_rtc_ms = 0, env_product = [], env_product_id = 0, env_usb_active = False, env_usb_power = False,
    env_indicator_enabled = False, env_indicator_running = False, env_led_total = None, env_led_shutdown = False, env_any_key = False\<rparr>"

theorem event_queue_task_handles_all_witness:
  "\<exists>q. bluetooth_event_queue_task (at_time 40) ((bt_boot idle_action)\<lparr>ev_queue := snd (bluetooth_event_queue_enqueue (EVT_HID_INDICATOR 2) (ev_queue (bt_boot idle_action)))\<rparr>) =
    Some ((bt_boot idle_action)\<lparr>led_state := 2, ev_queue := q\<rparr>)"
proof -
  let ?q = "snd (bluetooth_event_queue_enqueue (EVT_HID_INDICATOR 2) (ev_queue (bt_boot idle_action)))"
  have i: "ring_inv 16 (ev_queue (bt_boot idle_action))" "ring_contents 16 (ev_queue (bt_boot idle_action)) = []" by (simp_all add: bt_boot_def empty_ring_facts)
  have "ring_inv 16 ?q" "ring_contents 16 ?q = [EVT_HID_INDICATOR 2]"
    using event_queue.enq_inv [OF i(1)] event_queue.contents_enq [OF i(1)] i(2) by (simp_all add: offer_def)
  then show ?thesis
    using event_queue_task_handles_all [of "(bt_boot idle_action)\<lparr>ev_queue := ?q\<rparr>" "at_time 40"] by (auto simp: bluetooth_event_def bt_boot_def)
qed

end
