(* ===== verification/Qmk_Bt_Reports.thy ===== *)
theory Qmk_Bt_Reports
  imports Qmk_Bluetooth
begin

text \<open>
  What reaches the module of the reports sent to a connected host: the payloads of the frames, over any
  interleaving of reports, task calls and acknowledgements.  The retransmission of \<^verbatim>\<open>report_buffer_task\<close>
  repeats a report, and the properties say what it can and cannot do to the order.
\<close>

subsection \<open>Payloads\<close>

definition frame_payload :: "u8 list \<Rightarrow> u8 list" where
  "frame_payload f = take (length f - 7) (drop 5 f)"

lemma frame_payload_frame [simp]: "frame_payload (frame mark sn p) = p"
  by (simp add: frame_payload_def frame_def Let_def)

text \<open>The payloads written to the module so far, newest first.\<close>

definition payloads :: "bt_st \<Rightarrow> u8 list list" where
  "payloads s = map frame_payload (serial_out (module_link s))"

definition report_payload :: "report_buffer_t \<Rightarrow> u8 list" where
  "report_payload r = (case r of
     REPORT_TYPE_NONE \<Rightarrow> []
   | REPORT_TYPE_KB rep \<Rightarrow> CKBT51_CMD_SEND_KB # take 8 rep
   | REPORT_TYPE_NKRO rep \<Rightarrow> CKBT51_CMD_SEND_KB_NKRO # take 20 (drop 1 rep)
   | REPORT_TYPE_CONSUMER usage \<Rightarrow> [CKBT51_CMD_SEND_CONSUMER, low_byte usage, high_byte usage, 0, 0, 0, 0])"

lemma payloads_send_report:
  "r \<noteq> REPORT_TYPE_NONE \<Longrightarrow> payloads (on_link (send_report r) s) = report_payload r # payloads s"
  by (cases r) (simp_all add: payloads_def on_link_def send_report_def report_payload_def ckbt51_send_keyboard_def
    ckbt51_send_nkro_def ckbt51_send_consumer_def ckbt51_send_cmd_def Let_def)

lemma payloads_frame [frame_simps]:
  "payloads (report_buffer_update_timer e s) = payloads s" "payloads (lpm_timer_reset e s) = payloads s"
  "payloads (report_buffer_put r s) = payloads s" "payloads (report_buffer_set_retry k s) = payloads s"
  "payloads (report_buffer_set_inverval i s) = payloads s"
  by (simp_all add: payloads_def bt_small_defs)

subsection \<open>Operations while connected\<close>

datatype rb_op = Send bt_env report_keyboard_t | Task bt_env | Set_retry u8 | Set_interval u8

fun rb_step :: "rb_op \<Rightarrow> bt_st \<Rightarrow> bt_st" where
  "rb_step (Send e r) s = bluetooth_send_keyboard e r s"
| "rb_step (Task e) s = report_buffer_task e s"
| "rb_step (Set_retry k) s = report_buffer_set_retry k s"
| "rb_step (Set_interval i) s = report_buffer_set_inverval i s"

definition rb_run :: "rb_op list \<Rightarrow> bt_st \<Rightarrow> bt_st" where
  "rb_run ops s = fold rb_step ops s"

fun sent_reports :: "rb_op list \<Rightarrow> report_buffer_t list" where
  "sent_reports [] = []"
| "sent_reports (Send e r # ops) = REPORT_TYPE_NKRO r # sent_reports ops"
| "sent_reports (_ # ops) = sent_reports ops"

text \<open>The timer is past its first two milliseconds.\<close>

fun timed :: "rb_op \<Rightarrow> bool" where
  "timed (Send e r) \<longleftrightarrow> 2 < env_now e"
| "timed (Task e) \<longleftrightarrow> 2 < env_now e"
| "timed _ \<longleftrightarrow> True"

definition nkro_connected :: "bt_st \<Rightarrow> bool" where
  "nkro_connected s \<longleftrightarrow> bt_state s = BLUETOOTH_CONNECTED \<and> bluetooth_report_protocol s \<and> keymap_nkro s \<and>
    ring_inv 512 (rb_queue s) \<and> REPORT_TYPE_NONE \<notin> set (ring_contents 512 (rb_queue s))"

abbreviation queued :: "bt_st \<Rightarrow> report_buffer_t list" where
  "queued s \<equiv> ring_contents 512 (rb_queue s)"

text \<open>The effect of one task call.\<close>

lemma is_empty_iff: "ring_inv 512 q \<Longrightarrow> report_buffer_is_empty q \<longleftrightarrow> ring_contents 512 q = []"
  by (simp add: report_buffer_is_empty_def ring_empty_iff)

inductive task_effect :: "bt_env \<Rightarrow> bt_st \<Rightarrow> bt_st \<Rightarrow> bool" where
  idle: "s' = s \<Longrightarrow> task_effect e s s'"
| repeat: "retry s \<noteq> 0 \<Longrightarrow> queued s' = queued s \<Longrightarrow> kb_rpt s' = kb_rpt s \<Longrightarrow> retry s' = retry s - 1 \<Longrightarrow>
    payloads s' = (if kb_rpt s = REPORT_TYPE_NONE then [] else [report_payload (kb_rpt s)]) @ payloads s \<Longrightarrow> task_effect e s s'"
| deliver_next: "retry s = 0 \<Longrightarrow> queued s = r # queued s' \<Longrightarrow> r \<noteq> REPORT_TYPE_NONE \<Longrightarrow> kb_rpt s' = r \<Longrightarrow> retry s' = 30 \<Longrightarrow>
    payloads s' = report_payload r # payloads s \<Longrightarrow> task_effect e s s'"

lemma task_cases:
  assumes "nkro_connected s" "2 < env_now e"
  shows "task_effect e s (report_buffer_task e s) \<and> nkro_connected (report_buffer_task e s)"
proof (cases "(\<not> report_buffer_is_empty (rb_queue s) \<or> retry s \<noteq> 0) \<and> report_buffer_next_inverval e s")
  case False
  then have "report_buffer_task e s = s" by (auto simp: report_buffer_task_def)
  then show ?thesis using assms(1) by (simp add: task_effect.idle)
next
  case go: True
  have inv: "ring_inv 512 (rb_queue s)" and con: "bt_state s = BLUETOOTH_CONNECTED" using assms(1) by (simp_all add: nkro_connected_def)
  have task: "report_buffer_task e s = (let (p, s) = report_buffer_next e s in
      if p then lpm_timer_reset e (report_buffer_update_timer e (on_link (send_report (kb_rpt s)) s)) else s)"
    using go con by (simp add: report_buffer_task_def)
  show ?thesis
  proof (cases "retry s = 0")
    case True
    then have "queued s \<noteq> []" using go inv by (simp add: is_empty_iff)
    then obtain r rs where rs: "queued s = r # rs" by (cases "queued s") auto
    obtain q where q: "report_buffer_dequeue (rb_queue s) = Some (r, q)" "ring_inv 512 q" "ring_contents 512 q = rs"
      using report_queue.deq_Cons [OF inv rs] .
    have r: "r \<noteq> REPORT_TYPE_NONE" using assms(1) rs by (auto simp: nkro_connected_def)
    define t where "t = s\<lparr>kb_rpt := r, rb_queue := q, retry := RETPORT_RETRY_COUNT, retry_time_buffer := env_now e\<rparr>"
    have s': "report_buffer_task e s = lpm_timer_reset e (report_buffer_update_timer e (on_link (send_report r) t))"
      using True q r assms(2) by (simp add: task report_buffer_next_def t_def)
    have "task_effect e s (report_buffer_task e s)"
    proof (rule task_effect.deliver_next [OF True _ r])
      show "payloads (report_buffer_task e s) = report_payload r # payloads s"
        unfolding s' by (simp add: frame_simps payloads_send_report [OF r]) (simp add: payloads_def t_def)
    qed (simp_all add: s' bt_small_defs frame_simps t_def rs q RETPORT_RETRY_COUNT_def)
    moreover have "nkro_connected (report_buffer_task e s)"
      using assms(1) q rs by (simp add: s' nkro_connected_def bt_small_defs keymap_nkro_def frame_simps t_def)
    ultimately show ?thesis by simp
  next
    case False
    show ?thesis
    proof (cases "7 < sync_timer_elapsed32 e (retry_time_buffer s)")
      case True
      define t where "t = s\<lparr>retry := retry s - 1, retry_time_buffer := env_now e\<rparr>"
      have s': "report_buffer_task e s = lpm_timer_reset e (report_buffer_update_timer e (on_link (send_report (kb_rpt s)) t))"
        using False True by (simp add: task report_buffer_next_def t_def)
      have "payloads (on_link (send_report (kb_rpt s)) t) = (if kb_rpt s = REPORT_TYPE_NONE then [] else [report_payload (kb_rpt s)]) @ payloads s"
        using payloads_send_report [of "kb_rpt s" t] by (auto simp: payloads_def on_link_def send_report_def t_def)
      then have "task_effect e s (report_buffer_task e s)"
        by (intro task_effect.repeat [OF False]) (simp_all add: s' frame_simps, simp_all add: bt_small_defs frame_simps t_def)
      moreover have "nkro_connected (report_buffer_task e s)"
        using assms(1) by (simp add: s' nkro_connected_def bt_small_defs keymap_nkro_def frame_simps t_def)
      ultimately show ?thesis by simp
    next
      case no: False
      then have "report_buffer_task e s = s" using False by (simp add: task report_buffer_next_def)
      then show ?thesis using assms(1) by (simp add: task_effect.idle)
    qed
  qed
qed

subsection \<open>Order\<close>

text \<open>A list in which the elements of another occur in order, each repeated at least once.\<close>

inductive repeats :: "'a list \<Rightarrow> 'a list \<Rightarrow> bool" where
  none: "repeats [] []"
| once: "repeats xs ys \<Longrightarrow> repeats (xs @ [x]) (ys @ [x])"
| again: "repeats xs ys \<Longrightarrow> ys \<noteq> [] \<Longrightarrow> x = last ys \<Longrightarrow> repeats (xs @ [x]) ys"

text \<open>
  Since the state \<open>s0\<close>, the reports \<open>ds\<close> have been taken from the queue and the newest is in \<^verbatim>\<open>kb_rpt\<close>.  What was there
  before may still be repeated once more, so it counts as delivered before \<open>s0\<close>.
\<close>

definition previous :: "bt_st \<Rightarrow> report_buffer_t list" where
  "previous s = (if kb_rpt s = REPORT_TYPE_NONE then [] else [kb_rpt s])"

definition delivered :: "bt_st \<Rightarrow> bt_st \<Rightarrow> report_buffer_t list \<Rightarrow> bool" where
  "delivered s0 s ds \<longleftrightarrow> (\<exists>out. payloads s = rev out @ payloads s0 \<and>
      repeats (map report_payload (previous s0) @ out) (map report_payload (previous s0 @ ds))) \<and>
    REPORT_TYPE_NONE \<notin> set ds \<and> kb_rpt s = last (kb_rpt s0 # ds)"

lemma delivered_refl: "delivered s s []"
  using repeats.once [OF repeats.none, of "report_payload (kb_rpt s)"]
  by (simp add: delivered_def previous_def repeats.none)

lemma delivered_task:
  assumes "task_effect e s s'" "delivered s0 s ds"
  shows "\<exists>ds'. delivered s0 s' ds' \<and> ds' @ queued s' = ds @ queued s"
  using assms(1)
proof cases
  case idle
  then show ?thesis using assms(2) by blast
next
  case repeat
  let ?p = "map report_payload (previous s0)"
  obtain out where out: "payloads s = rev out @ payloads s0" "repeats (?p @ out) (map report_payload (previous s0 @ ds))"
    and k: "kb_rpt s = last (kb_rpt s0 # ds)" and nn: "REPORT_TYPE_NONE \<notin> set ds" using assms(2) by (auto simp: delivered_def)
  have "delivered s0 s' ds"
  proof (cases "kb_rpt s = REPORT_TYPE_NONE")
    case True
    then show ?thesis using repeat out k nn by (auto simp: delivered_def)
  next
    case False
    have ne: "previous s0 @ ds \<noteq> []" "last (previous s0 @ ds) = kb_rpt s"
      using False k nn by (auto simp: previous_def)
    have "repeats ((?p @ out) @ [report_payload (kb_rpt s)]) (map report_payload (previous s0 @ ds))"
      using ne by (intro repeats.again [OF out(2)]) (simp, metis last_map)
    moreover have "payloads s' = rev (out @ [report_payload (kb_rpt s)]) @ payloads s0" using repeat False out(1) by simp
    ultimately show ?thesis using repeat k nn unfolding delivered_def by (metis append_assoc)
  qed
  then show ?thesis using repeat by auto
next
  case (deliver_next r)
  let ?p = "map report_payload (previous s0)"
  obtain out where out: "payloads s = rev out @ payloads s0" "repeats (?p @ out) (map report_payload (previous s0 @ ds))"
    and nn: "REPORT_TYPE_NONE \<notin> set ds" using assms(2) by (auto simp: delivered_def)
  have "repeats (?p @ (out @ [report_payload r])) (map report_payload (previous s0 @ (ds @ [r])))"
    using repeats.once [OF out(2), of "report_payload r"] by simp
  moreover have "payloads s' = rev (out @ [report_payload r]) @ payloads s0" using deliver_next out(1) by simp
  ultimately have "\<exists>out. payloads s' = rev out @ payloads s0 \<and>
      repeats (?p @ out) (map report_payload (previous s0 @ (ds @ [r])))" by blast
  then have "delivered s0 s' (ds @ [r])"
    using nn deliver_next unfolding delivered_def by auto
  then show ?thesis using deliver_next by auto
qed

text \<open>Sending puts the report at the end of the queue and may call the task at once.\<close>

definition with_report :: "report_keyboard_t \<Rightarrow> bt_st \<Rightarrow> bt_st" where
  "with_report r s = report_buffer_put (REPORT_TYPE_NKRO r) s"

lemma send_cases:
  assumes "nkro_connected s"
  shows "bluetooth_send_keyboard e r s = with_report r s \<or>
    retry s = 0 \<and> bluetooth_send_keyboard e r s = report_buffer_task e (with_report r s)"
proof -
  have "report_buffer_set_retry 0 (with_report r s) = with_report r s" if "retry s = 0"
    using that by (simp add: bt_small_defs with_report_def)
  then show ?thesis using assms
    by (auto simp: bluetooth_send_keyboard_def nkro_connected_def Let_def with_report_def report_buffer_get_retry_def)
qed

lemma with_report_facts:
  assumes "nkro_connected s" "length (queued s) < 511"
  shows "nkro_connected (with_report r s)" "queued (with_report r s) = queued s @ [REPORT_TYPE_NKRO r]"
    "payloads (with_report r s) = payloads s" "kb_rpt (with_report r s) = kb_rpt s"
proof -
  have inv: "ring_inv 512 (rb_queue s)" using assms(1) by (simp add: nkro_connected_def)
  show q: "queued (with_report r s) = queued s @ [REPORT_TYPE_NKRO r]"
    using report_queue.contents_enq [OF inv] assms(2) by (simp add: with_report_def bt_small_defs offer_def)
  show "nkro_connected (with_report r s)"
    using assms(1) report_queue.enq_inv [OF inv] q by (simp add: nkro_connected_def with_report_def bt_small_defs keymap_nkro_def)
qed (simp_all add: with_report_def frame_simps, simp add: bt_small_defs)

lemma delivered_same: "payloads s' = payloads s \<Longrightarrow> kb_rpt s' = kb_rpt s \<Longrightarrow> delivered s0 s' ds = delivered s0 s ds"
  by (simp add: delivered_def)

lemma queue_shrinks: "task_effect e s s' \<Longrightarrow> length (queued s') \<le> length (queued s)"
  by (cases rule: task_effect.cases) (auto simp del: length_ring_contents)

lemma rb_step_order:
  assumes "nkro_connected s" "delivered s0 s ds" "timed op" "length (queued s) + length (sent_reports [op]) \<le> 511"
  shows "nkro_connected (rb_step op s) \<and>
    length (queued (rb_step op s)) \<le> length (queued s) + length (sent_reports [op]) \<and>
    (\<exists>ds'. delivered s0 (rb_step op s) ds' \<and> ds' @ queued (rb_step op s) = (ds @ queued s) @ sent_reports [op])"
proof (cases op)
  case (Send e r)
  have room: "length (queued s) < 511" using assms(4) Send by simp
  note w = with_report_facts [OF assms(1) room, of r]
  have d: "delivered s0 (with_report r s) ds" using assms(2) w delivered_same by blast
  have t: "task_effect e (with_report r s) (report_buffer_task e (with_report r s))" "nkro_connected (report_buffer_task e (with_report r s))"
    using task_cases [OF w(1), of e] assms(3) Send by simp_all
  show ?thesis
    using send_cases [OF assms(1), of e r]
  proof
    assume "bluetooth_send_keyboard e r s = with_report r s"
    then show ?thesis using w d Send by auto
  next
    assume "retry s = 0 \<and> bluetooth_send_keyboard e r s = report_buffer_task e (with_report r s)"
    then show ?thesis using t delivered_task [OF t(1) d] queue_shrinks [OF t(1)] w(2) Send by auto
  qed
next
  case (Task e)
  have t: "task_effect e s (report_buffer_task e s)" "nkro_connected (report_buffer_task e s)"
    using task_cases [OF assms(1), of e] assms(3) Task by simp_all
  then show ?thesis using delivered_task [OF t(1) assms(2)] queue_shrinks [OF t(1)] Task by simp
next
  case (Set_retry k)
  then show ?thesis using assms
    by (auto simp: nkro_connected_def bt_small_defs keymap_nkro_def delivered_def payloads_def intro!: exI [of _ ds])
next
  case (Set_interval i)
  then show ?thesis using assms
    by (auto simp: nkro_connected_def bt_small_defs keymap_nkro_def delivered_def payloads_def intro!: exI [of _ ds])
qed

lemma rb_run_order:
  assumes "nkro_connected s" "delivered s0 s ds" "list_all timed ops" "length (queued s) + length (sent_reports ops) \<le> 511"
  shows "\<exists>ds'. delivered s0 (rb_run ops s) ds' \<and> ds' @ queued (rb_run ops s) = (ds @ queued s) @ sent_reports ops"
  using assms
proof (induction ops arbitrary: s ds)
  case (Cons op ops)
  have split: "sent_reports (op # ops) = sent_reports [op] @ sent_reports ops" by (cases op) simp_all
  have len: "length (queued s) + length (sent_reports [op]) + length (sent_reports ops) \<le> 511"
    using Cons.prems(4) unfolding split by simp
  then have "length (queued s) + length (sent_reports [op]) \<le> 511" by simp
  note step = rb_step_order [OF Cons.prems(1,2) _ this]
  have "timed op" "list_all timed ops" using Cons.prems(3) by simp_all
  with step obtain ds' where ds': "nkro_connected (rb_step op s)" "delivered s0 (rb_step op s) ds'"
      "ds' @ queued (rb_step op s) = (ds @ queued s) @ sent_reports [op]"
      "length (queued (rb_step op s)) \<le> length (queued s) + length (sent_reports [op])" by blast
  have "length (queued (rb_step op s)) + length (sent_reports ops) \<le> 511" using ds'(4) len by linarith
  from Cons.IH [OF ds'(1,2) \<open>list_all timed ops\<close> this] ds'(3) show ?case by (simp add: rb_run_def split)
qed (auto simp: rb_run_def)

subsection \<open>Progress\<close>

text \<open>The task calls that are still needed when the module never answers.\<close>

definition work :: "bt_st \<Rightarrow> nat" where
  "work s = 31 * length (queued s) + unat (retry s)"

definition eligible :: "bt_env \<Rightarrow> bt_st \<Rightarrow> bool" where
  "eligible e s \<longleftrightarrow> 2 < env_now e \<and> report_buffer_next_inverval e s \<and> 7 < sync_timer_elapsed32 e (retry_time_buffer s)"

text \<open>Calls more than seven milliseconds and more than the report interval apart.\<close>

fun spaced :: "u8 \<Rightarrow> u32 \<Rightarrow> bt_env list \<Rightarrow> bool" where
  "spaced interval t [] \<longleftrightarrow> True"
| "spaced interval t (e # es) \<longleftrightarrow> 2 < env_now e \<and> 7 < env_now e - t \<and> ucast interval < env_now e - t \<and> spaced interval (env_now e) es"

lemma task_progress:
  assumes "nkro_connected s" "eligible e s" "work s \<noteq> 0"
  defines "s' \<equiv> report_buffer_task e s"
  shows "work s' = work s - 1" "report_timer_buffer s' = env_now e" "retry_time_buffer s' = env_now e"
    "report_interval s' = report_interval s"
proof -
  have inv: "ring_inv 512 (rb_queue s)" and con: "bt_state s = BLUETOOTH_CONNECTED" using assms(1) by (simp_all add: nkro_connected_def)
  have busy: "queued s \<noteq> [] \<or> retry s \<noteq> 0" using assms(3) by (auto simp: work_def simp del: length_ring_contents)
  have el: "2 < env_now e" "report_buffer_next_inverval e s" "7 < sync_timer_elapsed32 e (retry_time_buffer s)"
    using assms(2) by (simp_all add: eligible_def)
  have task: "s' = (let (p, s) = report_buffer_next e s in
      if p then lpm_timer_reset e (report_buffer_update_timer e (on_link (send_report (kb_rpt s)) s)) else s)"
    using busy el(2) con inv by (auto simp: s'_def report_buffer_task_def is_empty_iff)
  have "work s' = work s - 1 \<and> report_timer_buffer s' = env_now e \<and> retry_time_buffer s' = env_now e \<and> report_interval s' = report_interval s"
  proof (cases "retry s = 0")
    case True
    then obtain r rs where rs: "queued s = r # rs" using busy by (cases "queued s") auto
    obtain q where q: "report_buffer_dequeue (rb_queue s) = Some (r, q)" "ring_contents 512 q = rs"
      using report_queue.deq_Cons [OF inv rs] .
    have "r \<noteq> REPORT_TYPE_NONE" using assms(1) rs by (auto simp: nkro_connected_def)
    then show ?thesis using True q el rs
      by (simp add: task report_buffer_next_def bt_small_defs work_def on_link_def RETPORT_RETRY_COUNT_def del: length_ring_contents)
  next
    case False
    then have "unat (retry s - 1) = unat (retry s) - 1" by (simp add: unat_minus_one)
    moreover have "0 < unat (retry s)" using False by (simp add: unat_gt_0)
    ultimately show ?thesis using False el
      by (simp add: task report_buffer_next_def bt_small_defs work_def on_link_def)
  qed
  then show "work s' = work s - 1" "report_timer_buffer s' = env_now e" "retry_time_buffer s' = env_now e"
    "report_interval s' = report_interval s" by simp_all
qed

lemma no_work: "nkro_connected s \<Longrightarrow> work s = 0 \<Longrightarrow> report_buffer_task e s = s"
  by (auto simp: work_def report_buffer_task_def nkro_connected_def is_empty_iff unat_eq_0 simp del: length_ring_contents)

lemma tasks_drain:
  assumes "nkro_connected s" "delivered s0 s ds" "eligible e s" "spaced (report_interval s) (env_now e) es"
  shows "\<exists>ds'. nkro_connected (fold report_buffer_task (e # es) s) \<and> delivered s0 (fold report_buffer_task (e # es) s) ds' \<and>
    ds' @ queued (fold report_buffer_task (e # es) s) = ds @ queued s \<and>
    work (fold report_buffer_task (e # es) s) = work s - length (e # es)"
  using assms
proof (induction es arbitrary: e s ds)
  case Nil
  have t: "task_effect e s (report_buffer_task e s)" "nkro_connected (report_buffer_task e s)"
    using task_cases [OF Nil.prems(1), of e] Nil.prems(3) by (simp_all add: eligible_def)
  have "work (report_buffer_task e s) = work s - 1"
    using task_progress(1) [OF Nil.prems(1,3)] no_work [OF Nil.prems(1), of e] by (cases "work s = 0") auto
  then show ?case using t delivered_task [OF t(1) Nil.prems(2)] by auto
next
  case (Cons e' es)
  let ?s = "report_buffer_task e s"
  show ?case
  proof (cases "work s = 0")
    case True
    have idle: "report_buffer_task x s = s" for x by (rule no_work [OF Cons.prems(1) True])
    have all: "fold report_buffer_task xs s = s" for xs by (induction xs) (simp_all add: idle)
    show ?thesis unfolding all using Cons.prems(1,2) True by auto
  next
    case False
    note p = task_progress [OF Cons.prems(1,3) False]
    have t: "task_effect e s ?s" "nkro_connected ?s"
      using task_cases [OF Cons.prems(1), of e] Cons.prems(3) by (simp_all add: eligible_def)
    obtain ds1 where ds1: "delivered s0 ?s ds1" "ds1 @ queued ?s = ds @ queued s" using delivered_task [OF t(1) Cons.prems(2)] by blast
    have "eligible e' ?s" "spaced (report_interval ?s) (env_now e') es"
      using Cons.prems(4) p by (simp_all add: eligible_def report_buffer_next_inverval_def sync_timer_elapsed32_def TIMER_DIFF_32_def)
    from Cons.IH [OF t(2) ds1(1) this] ds1(2) p(1) show ?thesis by auto
  qed
qed

subsection \<open>Properties\<close>



text \<open>A connected keyboard in NKRO mode with nothing queued.\<close>

definition connected_bt :: bt_st where
  "connected_bt = (bt_boot (idle_action\<lparr>keymap_config := 0x480\<rparr>))\<lparr>bt_state := BLUETOOTH_CONNECTED\<rparr>"

lemma connected_bt_facts: "nkro_connected connected_bt" "queued connected_bt = []" "retry connected_bt = 0" "previous connected_bt = []"
  by (simp_all add: connected_bt_def bt_boot_def nkro_connected_def keymap_nkro_def NKRO_BIT_def empty_ring_facts previous_def)



text \<open>In boot mode a report is sent around a repetition that is still pending: the repetition then
  follows it, so the module receives the older report last.\<close>
lemma boot_report_overtaken:
  assumes "bt_state s = BLUETOOTH_CONNECTED" "\<not> (bluetooth_report_protocol s \<and> keymap_nkro s)" "report_buffer_is_empty (rb_queue s)"
    "retry s \<noteq> 0" "kb_rpt s = REPORT_TYPE_KB old" "report_buffer_next_inverval e s" "7 < sync_timer_elapsed32 e' (retry_time_buffer s)"
    "ucast (report_interval s) < sync_timer_elapsed32 e' (env_now e)"
  shows "payloads (report_buffer_task e' (bluetooth_send_keyboard e new s)) =
    report_payload (REPORT_TYPE_KB old) # report_payload (REPORT_TYPE_KB new) # payloads s"
proof -
  have send: "bluetooth_send_keyboard e new s = report_buffer_update_timer e (on_link (send_report (REPORT_TYPE_KB new)) s)"
    using assms(1-3,6) by (auto simp: bluetooth_send_keyboard_def send_report_def)
  define t where "t = bluetooth_send_keyboard e new s"
  have t: "retry t = retry s" "kb_rpt t = kb_rpt s" "bt_state t = BLUETOOTH_CONNECTED" "retry_time_buffer t = retry_time_buffer s"
    "report_interval t = report_interval s" "report_timer_buffer t = env_now e"
    using assms(1) unfolding t_def send by (simp_all add: bt_small_defs on_link_def)
  have "report_buffer_task e' t = lpm_timer_reset e' (report_buffer_update_timer e'
      (on_link (send_report (REPORT_TYPE_KB old)) (t\<lparr>retry := retry s - 1, retry_time_buffer := env_now e'\<rparr>)))"
    using assms t by (simp add: report_buffer_task_def report_buffer_next_def report_buffer_next_inverval_def)
  moreover have "payloads (t\<lparr>retry := r, retry_time_buffer := b\<rparr>) = payloads t" for r b by (simp add: payloads_def)
  moreover have "payloads t = report_payload (REPORT_TYPE_KB new) # payloads s"
    unfolding t_def send by (simp add: frame_simps payloads_send_report)
  ultimately show ?thesis by (simp add: frame_simps payloads_send_report flip: t_def)
qed

end
