(* ===== verification/Qmk_Bt_Module.thy ===== *)
theory Qmk_Bt_Module
  imports Qmk_Bt_Reports
begin

text \<open>
  From a packet of the module to the state of the keyboard: the event handlers of \<^verbatim>\<open>ckbt51.c\<close>, battery
  supervision (\<^verbatim>\<open>battery.c\<close> and its part of \<^verbatim>\<open>k3_pro.c\<close>), the low-power timer of \<^verbatim>\<open>lpm.c\<close> and the task that
  calls them all (\<^verbatim>\<open>bluetooth_task\<close>).
\<close>

subsection \<open>Battery\<close>

definition EMPTY_VOLTAGE_VALUE :: u16 where "EMPTY_VOLTAGE_VALUE = 3500"
definition SHUTDOWN_VOLTAGE_VALUE :: u16 where "SHUTDOWN_VOLTAGE_VALUE = 3300"
definition VOLTAGE_MEASURE_INTERVAL :: u32 where "VOLTAGE_MEASURE_INTERVAL = 3000"
definition VOLTAGE_POWER_ON_MEASURE_COUNT :: u8 where "VOLTAGE_POWER_ON_MEASURE_COUNT = 15"
definition BACKLIGHT_OFF_VOLTAGE_MEASURE_INTERVAL :: u32 where "BACKLIGHT_OFF_VOLTAGE_MEASURE_INTERVAL = 200"
definition RTC_MAX_TIME :: u32 where "RTC_MAX_TIME = 24 * 3600 * 1000"
definition LED_MATRIX_LED_COUNT :: u32 where "LED_MATRIX_LED_COUNT = 84"

lemmas battery_constants = EMPTY_VOLTAGE_VALUE_def SHUTDOWN_VOLTAGE_VALUE_def FULL_VOLTAGE_VALUE_def

definition map_bat :: "(battery \<Rightarrow> battery) \<Rightarrow> bt_st \<Rightarrow> bt_st" where
  "map_bat f s = s\<lparr>bat := f (bat s)\<rparr>"

definition battery_set_voltage :: "u16 \<Rightarrow> bt_st \<Rightarrow> bt_st" where
  "battery_set_voltage v = map_bat (\<lambda>b. b\<lparr>voltage := v\<rparr>)"

definition battery_get_voltage :: "bt_st \<Rightarrow> u16" where
  "battery_get_voltage s = voltage (bat s)"

definition battery_percentage :: "u16 \<Rightarrow> u8" where
  "battery_percentage v =
    (if FULL_VOLTAGE_VALUE < v then 100
     else if EMPTY_VOLTAGE_VALUE < v then
       ucast ((ucast v - ucast EMPTY_VOLTAGE_VALUE) * 80 div ucast (FULL_VOLTAGE_VALUE - EMPTY_VOLTAGE_VALUE) + 20 :: u32)
     else if SHUTDOWN_VOLTAGE_VALUE < v then
       ucast ((ucast v - ucast SHUTDOWN_VOLTAGE_VALUE) * 20 div ucast (EMPTY_VOLTAGE_VALUE - SHUTDOWN_VOLTAGE_VALUE) :: u32)
     else 0)"

definition battery_get_percentage :: "bt_st \<Rightarrow> u8" where
  "battery_get_percentage s = battery_percentage (voltage (bat s))"

definition battery_calculte_voltage :: "bt_env \<Rightarrow> u16 \<Rightarrow> bt_st \<Rightarrow> bt_st" where
  "battery_calculte_voltage e value_read s =
    (let v = ucast (ucast value_read * 2246 div 1000 :: u32) :: u16;
         v = (case env_led_total e of
                None \<Rightarrow> v
              | Some totalBuf \<Rightarrow> ucast (ucast v + 30 * totalBuf div LED_MATRIX_LED_COUNT div 255)) in
     battery_set_voltage v s)"

definition battery_check_empty :: "bt_st \<Rightarrow> bt_st" where
  "battery_check_empty s =
    (if voltage (bat s) < EMPTY_VOLTAGE_VALUE \<and> bat_empty (bat s) \<le> BATTERY_EMPTY_COUNT then
       let s = map_bat (\<lambda>b. b\<lparr>bat_empty := bat_empty b + 1\<rparr>) s in
       if BATTERY_EMPTY_COUNT < bat_empty (bat s)
       then map_bat (\<lambda>b. b\<lparr>power_on_sample := VOLTAGE_POWER_ON_MEASURE_COUNT\<rparr>)
         (bt_notify (Battery_low_backlit True) (bt_notify (Battery_low_indication True) s))
       else s
     else s)"

definition battery_check_critical_low :: "bt_st \<Rightarrow> bt_st" where
  "battery_check_critical_low s =
    (if voltage (bat s) < SHUTDOWN_VOLTAGE_VALUE then
       if critical_low (bat s) \<le> CRITICAL_LOW_COUNT then
         let s = map_bat (\<lambda>b. b\<lparr>critical_low := critical_low b + 1\<rparr>) s in
         if CRITICAL_LOW_COUNT < critical_low (bat s) then bluetooth_low_battery_shutdown s else s
       else s
     else if critical_low (bat s) \<le> CRITICAL_LOW_COUNT then map_bat (\<lambda>b. b\<lparr>critical_low := 0\<rparr>) s
     else s)"

definition battery_power_on_sample :: "bt_st \<Rightarrow> bool" where
  "battery_power_on_sample s \<longleftrightarrow> power_on_sample (bat s) < VOLTAGE_POWER_ON_MEASURE_COUNT"

definition battery_measure :: "bt_st \<Rightarrow> bt_st" where
  "battery_measure = on_link (ckbt51_read_state_reg 0x05 0x02)"

text \<open>\<^verbatim>\<open>rtc_timer_elapsed_ms\<close> is given the time as the environment reads it; clearing the clock is left out.\<close>

definition battery_task :: "bt_env \<Rightarrow> bt_st \<Rightarrow> bt_st" where
  "battery_task e s =
    (let t = env_rtc_ms e - bat_monitor_timer_buffer (bat s);
         s = (if transport s = TRANSPORT_BLUETOOTH \<and> bt_state s = BLUETOOTH_CONNECTED \<and>
               (battery_power_on_sample s \<and> \<not> env_indicator_enabled e \<and> BACKLIGHT_OFF_VOLTAGE_MEASURE_INTERVAL < t \<or> VOLTAGE_MEASURE_INTERVAL < t)
             then
               let s = battery_check_critical_low (battery_check_empty s);
                   s = map_bat (\<lambda>b. b\<lparr>bat_monitor_timer_buffer := (if RTC_MAX_TIME < env_rtc_ms e then 0 else env_rtc_ms e)\<rparr>) s;
                   s = battery_measure s;
                   n = power_on_sample (bat s) + 1 in
               map_bat (\<lambda>b. b\<lparr>power_on_sample := (if VOLTAGE_POWER_ON_MEASURE_COUNT < n then VOLTAGE_POWER_ON_MEASURE_COUNT else n)\<rparr>) s
             else s) in
     if (bat_empty (bat s) \<noteq> 0 \<or> critical_low (bat s) \<noteq> 0) \<and> env_usb_power e
     then bt_notify (Battery_low_backlit False) (bt_notify (Battery_low_indication False)
       (map_bat (\<lambda>b. b\<lparr>bat_empty := 0, critical_low := 0\<rparr>) s))
     else s)"

subsection \<open>Packets of the module\<close>

definition ACK_SUCCESS :: u8 where "ACK_SUCCESS = 0"
definition ACK_FIFO_HALF_WARNING :: u8 where "ACK_FIFO_HALF_WARNING = 2"
definition ACK_FIFO_FULL_ERROR :: u8 where "ACK_FIFO_FULL_ERROR = 3"

definition ckbt51_default_ack_handler :: "bt_env \<Rightarrow> u8 list \<Rightarrow> bt_st \<Rightarrow> bt_st" where
  "ckbt51_default_ack_handler e data s =
    (if data ! 1 = 0x45 then on_link (ckbt51_set_param (k3_pro_module_param e)) s else s)"

definition ack_handler :: "bt_env \<Rightarrow> u8 list \<Rightarrow> bt_st \<Rightarrow> bt_st" where
  "ack_handler e data s =
    (if data ! 1 \<in> {CKBT51_CMD_SEND_KB, CKBT51_CMD_SEND_KB_NKRO, CKBT51_CMD_SEND_CONSUMER, CKBT51_CMD_SEND_SYSTEM, CKBT51_CMD_SEND_MOUSE} then
       if data ! 2 = ACK_SUCCESS then report_buffer_set_inverval DEFAULT_REPORT_INVERVAL_MS (report_buffer_set_retry 0 s)
       else if data ! 2 = ACK_FIFO_HALF_WARNING
         then report_buffer_set_inverval (DEFAULT_REPORT_INVERVAL_MS + 5) (report_buffer_set_retry 0 s)
       else if data ! 2 = ACK_FIFO_FULL_ERROR then report_buffer_set_retry 10 s
       else s
     else ckbt51_default_ack_handler e data s)"

definition word16 :: "u8 \<Rightarrow> u8 \<Rightarrow> u16" where "word16 lo hi = ucast lo OR push_bit 8 (ucast hi)"

definition query_rsp_handler :: "bt_env \<Rightarrow> u8 list \<Rightarrow> bt_st \<Rightarrow> bt_st" where
  "query_rsp_handler e data s =
    (if data ! 2 \<noteq> 0 then s
     else if data ! 1 = CKBT51_CMD_READ_STATE_REG then
       let s = (if reg_offset (module_link s) = 0x05 then battery_calculte_voltage e (word16 (data ! 3) (data ! 4)) s else s) in
       on_link (\<lambda>l. l\<lparr>reg_offset := 0xFF\<rparr>) s
     else s)"

definition connection_event :: "u8 \<Rightarrow> u8 \<Rightarrow> bluetooth_event_t" where
  "connection_event kind hostIndex =
    (if kind = 0x20 then EVT_CONNECTED hostIndex
     else if kind = 0x21 then EVT_DISCOVERABLE hostIndex
     else if kind = 0x22 then EVT_RECONNECTING hostIndex
     else if kind = 0x23 then EVT_DISCONNECTED hostIndex
     else if kind = 0x24 then EVT_PINCODE_ENTRY hostIndex
     else if kind = 0x25 then EVT_EXIT_PINCODE_ENTRY hostIndex
     else EVT_NONE)"

definition enqueue_event :: "bluetooth_event_t \<Rightarrow> bt_st \<Rightarrow> bt_st" where
  "enqueue_event ev s = (if ev \<noteq> EVT_NONE then s\<lparr>ev_queue := snd (bluetooth_event_queue_enqueue ev (ev_queue s))\<rparr> else s)"

text \<open>The handler is given the bytes behind the type; \<open>None\<close> is the overflow of the firmware-update response.\<close>

definition ckbt51_event_handler :: "bt_env \<Rightarrow> packet \<Rightarrow> bt_st \<Rightarrow> bt_st option" where
  "ckbt51_event_handler e p s = (case p of (evt_type, data, len, sn) \<Rightarrow>
    if evt_type = CKBT51_EVT_ACK then Some (ack_handler e data s)
    else if evt_type = CKBT51_EVT_RESET then Some (enqueue_event (EVT_RESET (data ! 0)) s)
    else if evt_type = CKBT51_EVT_CONNECTION
      then Some (enqueue_event (connection_event (data ! 0) (data ! 2)) (on_link ckbt51_send_conn_evt_ack s))
    else if evt_type = CKBT51_EVT_HID_EVENT then Some (enqueue_event (EVT_HID_INDICATOR (data ! 0)) s)
    else if evt_type = CKBT51_EVT_QUERY_RSP then Some (query_rsp_handler e data s)
    else if evt_type = CKBT51_EVT_OTA_RSP
      then map_option (\<lambda>reps. s\<lparr>raw_out := rev reps @ raw_out s\<rparr>) (ckbt51_dfu_tx CKBT51_EVT_OTA_RSP (take (unat len) data) sn)
    else if evt_type = CKBT51_EVT_BATTERY
      then Some (if data ! 0 = 0x01 then battery_calculte_voltage e (word16 (data ! 1) (data ! 2)) s else s)
    else Some s)"

definition module_task :: "bt_env \<Rightarrow> bt_st \<Rightarrow> bt_st option" where
  "module_task e s = (case ckbt51_task (module_link s) of
     None \<Rightarrow> None
   | Some (l, None) \<Rightarrow> Some (s\<lparr>module_link := l\<rparr>)
   | Some (l, Some p) \<Rightarrow> ckbt51_event_handler e p (s\<lparr>module_link := l\<rparr>))"

subsection \<open>Low power\<close>

definition RUN_MODE_PROCESS_TIME :: u32 where "RUN_MODE_PROCESS_TIME = 1000"

definition lpm_task :: "bt_env \<Rightarrow> bt_st \<Rightarrow> bt_st" where
  "lpm_task e s =
    (let s = (if \<not> lpm_time_up s \<and> RUN_MODE_PROCESS_TIME < sync_timer_elapsed32 e (lpm_timer_buffer s)
              then s\<lparr>lpm_time_up := True, lpm_timer_buffer := 0\<rparr> else s) in
     if transport s = TRANSPORT_BLUETOOTH \<and> lpm_time_up s \<and> \<not> env_indicator_running e \<and> env_led_shutdown e \<and>
        \<not> env_any_key e \<and> \<not> battery_power_on_sample s
     then bt_notify Low_power s else s)"

subsection \<open>The task\<close>

text \<open>\<open>None\<close> is an access outside an array on a packet of the module; the task of the indicators is left out.\<close>

definition bluetooth_task :: "bt_env \<Rightarrow> bt_st \<Rightarrow> bt_st option" where
  "bluetooth_task e s =
    (case module_task e s of
       None \<Rightarrow> None
     | Some s \<Rightarrow> (case bluetooth_event_queue_task e s of
         None \<Rightarrow> None
       | Some s \<Rightarrow> Some (lpm_task e (battery_task e (report_buffer_task e s)))))"

subsection \<open>Properties\<close>

text \<open>Delivering reports while connected leaves the connection alone.\<close>

definition same_conn :: "bt_st \<Rightarrow> bt_st \<Rightarrow> bool" where
  "same_conn s' s \<longleftrightarrow> bt_state s' = bt_state s \<and> host_index s' = host_index s"

lemma report_buffer_next_conn: "same_conn (snd (report_buffer_next e s)) s"
  by (auto simp: report_buffer_next_def same_conn_def Let_def split: option.splits)

lemma report_buffer_task_conn: "same_conn (report_buffer_task e s) s"
  using report_buffer_next_conn [of e s]
  by (auto simp: report_buffer_task_def same_conn_def bt_small_defs on_link_def split: prod.splits)

lemma deliver_conn:
  assumes "bt_state s = BLUETOOTH_CONNECTED"
  shows "same_conn (deliver e dr s) s"
proof -
  have "same_conn (bluetooth_send_keyboard e r s) s" for r
    using assms report_buffer_task_conn [of e "report_buffer_set_retry 0 (report_buffer_put (REPORT_TYPE_NKRO r) s)"]
    by (auto simp: bluetooth_send_keyboard_def same_conn_def bt_small_defs on_link_def Let_def)
  moreover have "same_conn (bluetooth_send_mouse e m s) s" "same_conn (bluetooth_send_extra e i u s) s" for m i u
    using assms
    by (auto simp: bluetooth_send_mouse_def bluetooth_send_extra_def bluetooth_send_system_def bluetooth_send_consumer_def
      same_conn_def bt_small_defs on_link_def)
  ultimately show ?thesis by (auto simp: deliver_def same_conn_def split: prod.splits host_driver_t.splits report.splits)
qed

lemma run_action_conn:
  assumes "bt_state s = BLUETOOTH_CONNECTED"
  shows "same_conn (run_action e f s) s"
proof -
  have "bt_state (foldr (deliver e) ds t) = BLUETOOTH_CONNECTED \<and> same_conn (foldr (deliver e) ds t) t"
    if "bt_state t = BLUETOOTH_CONNECTED" for ds t
    using that
  proof (induction ds)
    case (Cons d ds)
    then show ?case using deliver_conn [of "foldr (deliver e) ds t" e d] by (simp add: same_conn_def)
  qed (simp add: same_conn_def)
  from this [of "s\<lparr>act := f (act s)\<rparr>"] assms show ?thesis by (simp add: run_action_def same_conn_def)
qed

lemma map_bat_side [frame_simps]:
  "same_conn (map_bat f s) s" "act (map_bat f s) = act s" "ev_queue (map_bat f s) = ev_queue s"
  by (simp_all add: map_bat_def same_conn_def)

lemma battery_checks_side [frame_simps]:
  "same_conn (battery_check_empty s) s" "act (battery_check_empty s) = act s" "ev_queue (battery_check_empty s) = ev_queue s"
  "same_conn (battery_check_critical_low s) s" "act (battery_check_critical_low s) = act s"
  "ev_queue (battery_check_critical_low s) = ev_queue s"
  "same_conn (battery_measure s) s" "act (battery_measure s) = act s" "ev_queue (battery_measure s) = ev_queue s"
  by (simp_all add: battery_check_empty_def battery_check_critical_low_def battery_measure_def bluetooth_low_battery_shutdown_def
    bluetooth_disconnect_def map_bat_def bt_notify_def on_link_def same_conn_def Let_def)

lemma same_conn_trans: "same_conn s'' s' \<Longrightarrow> same_conn s' s \<Longrightarrow> same_conn s'' s"
  by (simp add: same_conn_def)

lemma battery_task_conn:
  "same_conn (battery_task e s) s" "act (battery_task e s) = act s" "same_conn (lpm_task e s) s" "act (lpm_task e s) = act s"
  "ev_queue (battery_task e s) = ev_queue s" "ev_queue (lpm_task e s) = ev_queue s"
proof -
  define d where "d = (transport s = TRANSPORT_BLUETOOTH \<and> bt_state s = BLUETOOTH_CONNECTED \<and>
    (battery_power_on_sample s \<and> \<not> env_indicator_enabled e \<and>
      BACKLIGHT_OFF_VOLTAGE_MEASURE_INTERVAL < env_rtc_ms e - bat_monitor_timer_buffer (bat s) \<or>
     VOLTAGE_MEASURE_INTERVAL < env_rtc_ms e - bat_monitor_timer_buffer (bat s)))"
  define t where "t = battery_check_critical_low (battery_check_empty s)"
  obtain f g h where b: "battery_task e s = (let s = (if d then map_bat g (battery_measure (map_bat f t)) else s) in
      if (bat_empty (bat s) \<noteq> 0 \<or> critical_low (bat s) \<noteq> 0) \<and> env_usb_power e
      then bt_notify (Battery_low_backlit False) (bt_notify (Battery_low_indication False) (map_bat h s)) else s)"
    unfolding battery_task_def Let_def d_def t_def by blast
  have t: "same_conn t s" "act t = act s" "ev_queue t = ev_queue s"
    using same_conn_trans [OF battery_checks_side(4) battery_checks_side(1), of s] by (simp_all add: t_def frame_simps)
  have m: "same_conn (battery_measure (map_bat f t)) s" 
    by (rule same_conn_trans [OF battery_checks_side(7) same_conn_trans [OF map_bat_side(1) t(1)]])
  show "same_conn (battery_task e s) s" "act (battery_task e s) = act s" "ev_queue (battery_task e s) = ev_queue s"
    using t m by (simp_all add: b Let_def frame_simps) (simp_all add: same_conn_def map_bat_def bt_notify_def)
  show "same_conn (lpm_task e s) s" "act (lpm_task e s) = act s" "ev_queue (lpm_task e s) = ev_queue s"
    by (simp_all add: lpm_task_def bt_notify_def Let_def same_conn_def)
qed

lemma enter_connected_facts:
  defines "s' \<equiv> \<lambda>e h s. bluetooth_enter_connected e h s"
  shows "bt_state (s' e h s) = BLUETOOTH_CONNECTED" "host_index (s' e h s) = h" "keymap_nkro (s' e h s) = nkro_bluetooth s"
proof -
  define t where "t = (bt_notify (Indicator_set BLUETOOTH_CONNECTED h) (s\<lparr>bt_state := BLUETOOTH_CONNECTED\<rparr>))\<lparr>host_index := h\<rparr>"
  define u where "u = bt_clear_keyboard e t"
  have s': "s' e h s = (let s = set_keymap_nkro (nkro_bluetooth u) u in
      if battery_is_empty s then bt_notify (Battery_low_indication True) s else s)"
    by (simp add: s'_def bluetooth_enter_connected_def Let_def t_def u_def)
  have "same_conn u t" unfolding u_def bt_clear_keyboard_def by (rule run_action_conn) (simp add: t_def bt_notify_def)
  moreover have "nkro_bluetooth u = nkro_bluetooth s"
    by (simp add: u_def bt_clear_keyboard_def run_action_side t_def bt_notify_def)
  ultimately have u: "bt_state u = BLUETOOTH_CONNECTED" "host_index u = h" "nkro_bluetooth u = nkro_bluetooth s"
    by (simp_all add: same_conn_def t_def bt_notify_def)
  show "bt_state (s' e h s) = BLUETOOTH_CONNECTED" "host_index (s' e h s) = h"
    using u by (simp_all add: s' Let_def bt_notify_def set_keymap_nkro_def)
  have "keymap_nkro (bt_notify n v) = keymap_nkro v" for n v by (simp add: keymap_nkro_def bt_notify_def)
  then show "keymap_nkro (s' e h s) = nkro_bluetooth s" using u by (simp add: s' Let_def frame_simps)
qed

text \<open>When the module reports a connection, one run of the task takes the packet from the serial line through
  the event queue to the connected state, with the host number of the packet and the NKRO setting kept for Bluetooth.\<close>
lemma connection_packet_connects:
  assumes "wait_for_new_pkt (module_link s)" "serial_in (module_link s) = frame 0x57 sn [CKBT51_EVT_CONNECTION, 0x20, x, host] @ rest"
    "ring_inv 16 (ev_queue s)" "ring_contents 16 (ev_queue s) = []"
  shows "\<exists>s'. bluetooth_task e s = Some s' \<and> bt_state s' = BLUETOOTH_CONNECTED \<and> host_index s' = host \<and>
    keymap_nkro s' = nkro_bluetooth s \<and> ring_contents 16 (ev_queue s') = []"
proof -
  obtain l buf where l: "ckbt51_task (module_link s) = Some (l, Some (CKBT51_EVT_CONNECTION, [0x20, x, host] @ buf, 3, sn))"
    using task_receives_frame [OF assms(1), of sn CKBT51_EVT_CONNECTION "[0x20, x, host]" rest] assms(2) by auto
  define t where "t = on_link ckbt51_send_conn_evt_ack (s\<lparr>module_link := l\<rparr>)"
  define u where "u = t\<lparr>ev_queue := snd (bluetooth_event_queue_enqueue (EVT_CONNECTED host) (ev_queue t))\<rparr>"
  have t: "ev_queue t = ev_queue s" "nkro_bluetooth t = nkro_bluetooth s" by (simp_all add: t_def on_link_def)
  have task: "module_task e s = Some u"
    using l by (simp add: module_task_def ckbt51_event_handler_def ckbt51_event_codes t_def u_def connection_event_def enqueue_event_def)
  have q: "ring_inv 16 (ev_queue u)" "ring_contents 16 (ev_queue u) = [EVT_CONNECTED host]"
    using event_queue.enq_inv [OF assms(3)] event_queue.contents_enq [OF assms(3)] assms(4) by (simp_all add: u_def t offer_def)
  obtain q' where v: "bluetooth_event_queue_task e u = Some ((bluetooth_enter_connected e host u)\<lparr>ev_queue := q'\<rparr>)" "ring_contents 16 q' = []"
    using event_queue_task_eq [OF q(1), of e] unfolding q(2) by (auto simp: bluetooth_event_def)
  define v where "v = (bluetooth_enter_connected e host u)\<lparr>ev_queue := q'\<rparr>"
  have facts: "bt_state v = BLUETOOTH_CONNECTED" "host_index v = host" "keymap_nkro v = nkro_bluetooth s" "ev_queue v = q'"
    using enter_connected_facts [of e host u] t by (simp_all add: v_def u_def keymap_nkro_def)
  define w where "w = report_buffer_task e v"
  have w: "bt_state w = BLUETOOTH_CONNECTED" "host_index w = host" "act w = act v" "ev_queue w = q'"
    using report_buffer_task_conn [of e v] report_buffer_task_side [of e v] facts by (simp_all add: w_def same_conn_def same_side_def)
  have "bluetooth_task e s = Some (lpm_task e (battery_task e w))"
    by (simp add: bluetooth_task_def task v(1) w_def v_def)
  moreover have "bt_state (lpm_task e (battery_task e w)) = BLUETOOTH_CONNECTED" "host_index (lpm_task e (battery_task e w)) = host"
    using battery_task_conn(1) [of e w] battery_task_conn(3) [of e "battery_task e w"] w by (simp_all add: same_conn_def)
  moreover have "keymap_nkro (lpm_task e (battery_task e w)) = nkro_bluetooth s"
    using facts(3) w(3) by (simp add: keymap_nkro_def battery_task_conn)
  ultimately show ?thesis using v(2) w(4) by (auto simp: battery_task_conn)
qed

end
