(* ===== verification/Qmk_Transport.thy ===== *)
theory Qmk_Transport
  imports Qmk_Bt_Module
begin

text \<open>
  Switching between USB and Bluetooth (\<^verbatim>\<open>transport.c\<close>): the driver the reports go to, the connections,
  and the NKRO setting each side keeps.  The connection of USB is kept in Bluetooth mode.
\<close>

text \<open>A call of a driver that does not go through the host interface.\<close>

definition call_driver :: "bt_env \<Rightarrow> host_driver_t \<Rightarrow> report \<Rightarrow> bt_st \<Rightarrow> bt_st" where
  "call_driver e d r s =
    deliver e (d, r) (s\<lparr>act := (act s)\<lparr>host_if := (host_if (act s))\<lparr>sent := (d, r) # sent (host_if (act s))\<rparr>\<rparr>\<rparr>)"

definition set_host_driver :: "host_driver_t \<Rightarrow> bt_st \<Rightarrow> bt_st" where
  "set_host_driver d s = s\<lparr>act := (act s)\<lparr>host_if := host_set_driver (Some d) (host_if (act s))\<rparr>\<rparr>"

definition bt_transport_enable :: "bt_env \<Rightarrow> bool \<Rightarrow> bt_st \<Rightarrow> bt_st" where
  "bt_transport_enable e enable s =
    (if enable then
       if host_get_driver (host_if (act s)) \<noteq> Some bluetooth_driver
       then bluetooth_connect e (bluetooth_disconnect (set_host_driver bluetooth_driver s)) else s
     else let s = bt_notify Indicator_stop s in
       if bt_state s = BLUETOOTH_CONNECTED then call_driver e bluetooth_driver (Keyboard_report empty_report) s else s)"

definition usb_transport_enable :: "bt_env \<Rightarrow> bool \<Rightarrow> bt_st \<Rightarrow> bt_st" where
  "usb_transport_enable e enable s =
    (if enable then
       if host_get_driver (host_if (act s)) \<noteq> Some chibios_driver then set_host_driver chibios_driver s else s
     else if env_usb_active e then call_driver e chibios_driver (Keyboard_report empty_report) s else s)"

text \<open>The LED driver is restarted after a wait.\<close>

definition transport_changed :: "transport_t \<Rightarrow> bt_st \<Rightarrow> bt_st" where
  "transport_changed new_transport s = bt_notify Led_driver_restarted s"

definition set_transport :: "bt_env \<Rightarrow> transport_t \<Rightarrow> bt_st \<Rightarrow> bt_st" where
  "set_transport e new_transport s =
    (if transport s = new_transport then s
     else
       let s = bt_clear_keyboard e (s\<lparr>transport := new_transport\<rparr>);
           s = (case new_transport of
                  TRANSPORT_USB \<Rightarrow>
                    let s = lpm_timer_stop (bt_transport_enable e False (usb_transport_enable e True s));
                        s = s\<lparr>nkro_bluetooth := keymap_nkro s\<rparr> in
                    set_keymap_nkro (nkro_usb s) s
                | TRANSPORT_BLUETOOTH \<Rightarrow>
                    let s = lpm_timer_reset e (usb_transport_enable e False (bt_transport_enable e True s));
                        s = s\<lparr>nkro_usb := keymap_nkro s\<rparr> in
                    set_keymap_nkro (nkro_bluetooth s) s
                | TRANSPORT_NONE \<Rightarrow> s) in
       transport_changed new_transport s)"

definition get_transport :: "bt_st \<Rightarrow> transport_t" where
  "get_transport s = transport s"

text \<open>The mode switch (\<^verbatim>\<open>bluetooth_pre_task\<close>): the level of its pin is read three times, and the last mode is kept.\<close>

definition bluetooth_pre_task :: "bt_env \<Rightarrow> u8 \<Rightarrow> u8 \<Rightarrow> u8 \<Rightarrow> u8 \<times> bt_st \<Rightarrow> u8 \<times> bt_st" where
  "bluetooth_pre_task e pin1 pin2 pin3 ms = (case ms of (mode_pin, s) \<Rightarrow>
    if pin1 \<noteq> mode_pin \<and> pin2 \<noteq> mode_pin
    then (pin3, set_transport e (if pin3 = 0 then TRANSPORT_BLUETOOTH else TRANSPORT_USB) s) else (mode_pin, s))"

subsection \<open>Lemmas\<close>

lemma keymap_config_send [frame_simps]: "keymap_config (send_keyboard_report T now s) = keymap_config s"
proof -
  have "keymap_config (composed T now s) = keymap_config s"
    by (simp add: composed_def compose_oneshot_def set_report_mods_def clear_oneshot_mods_def notify_def Let_def)
  then show ?thesis by (simp add: send_keyboard_report_eq Let_def)
qed

lemma clear_keyboard_keymap [frame_simps]: "keymap_config (clear_keyboard T now s) = keymap_config s"
  by (simp add: clear_keyboard_def clear_keyboard_but_mods_def clear_keyboard_but_mods_and_keys_def Let_def notify_def frame_simps)
    (simp add: clear_weak_mods_def map_host_def clear_keys_def clear_mods_def)

lemma clear_keyboard_nkro: "keymap_nkro (bt_clear_keyboard e s) = keymap_nkro s" "nkro_usb (bt_clear_keyboard e s) = nkro_usb s"
  "nkro_bluetooth (bt_clear_keyboard e s) = nkro_bluetooth s" "transport (bt_clear_keyboard e s) = transport s"
  by (simp_all add: bt_clear_keyboard_def run_action_side keymap_nkro_def frame_simps)

lemma call_driver_nkro [frame_simps]:
  "keymap_nkro (call_driver e d r s) = keymap_nkro s" "nkro_usb (call_driver e d r s) = nkro_usb s"
  "nkro_bluetooth (call_driver e d r s) = nkro_bluetooth s" "transport (call_driver e d r s) = transport s"
  using deliver_side [of e "(d, r)"] by (simp_all add: call_driver_def same_side_def keymap_nkro_def)

lemma transport_enable_nkro [frame_simps]:
  "keymap_nkro (bt_transport_enable e b s) = keymap_nkro s" "nkro_usb (bt_transport_enable e b s) = nkro_usb s"
  "nkro_bluetooth (bt_transport_enable e b s) = nkro_bluetooth s" "transport (bt_transport_enable e b s) = transport s"
  "keymap_nkro (usb_transport_enable e b s) = keymap_nkro s" "nkro_usb (usb_transport_enable e b s) = nkro_usb s"
  "nkro_bluetooth (usb_transport_enable e b s) = nkro_bluetooth s" "transport (usb_transport_enable e b s) = transport s"
proof -
  have k: "keymap_nkro (bt_notify n s) = keymap_nkro s" "keymap_nkro (set_host_driver d s) = keymap_nkro s"
    "keymap_nkro (bluetooth_connect e s) = keymap_nkro s" "keymap_nkro (bluetooth_disconnect s) = keymap_nkro s" for n d s
    by (simp_all add: keymap_nkro_def bt_notify_def set_host_driver_def bluetooth_connect_def bluetooth_disconnect_def on_link_def)
  have d: "f (bt_notify n s) = f s \<and> f (set_host_driver d s) = f s \<and> f (bluetooth_connect e s) = f s \<and> f (bluetooth_disconnect s) = f s"
    if "f \<in> {nkro_usb, nkro_bluetooth}" for f n d s
    using that by (auto simp: bt_notify_def set_host_driver_def bluetooth_connect_def bluetooth_disconnect_def on_link_def)
  have t: "transport (bt_notify n s) = transport s \<and> transport (set_host_driver d s) = transport s \<and>
      transport (bluetooth_connect e s) = transport s \<and> transport (bluetooth_disconnect s) = transport s" for n d s
    by (auto simp: bt_notify_def set_host_driver_def bluetooth_connect_def bluetooth_disconnect_def on_link_def)
  show "keymap_nkro (bt_transport_enable e b s) = keymap_nkro s" "nkro_usb (bt_transport_enable e b s) = nkro_usb s"
    "nkro_bluetooth (bt_transport_enable e b s) = nkro_bluetooth s" "transport (bt_transport_enable e b s) = transport s"
    by (simp_all add: bt_transport_enable_def Let_def k d t frame_simps)
  show "keymap_nkro (usb_transport_enable e b s) = keymap_nkro s" "nkro_usb (usb_transport_enable e b s) = nkro_usb s"
    "nkro_bluetooth (usb_transport_enable e b s) = nkro_bluetooth s" "transport (usb_transport_enable e b s) = transport s"
    by (simp_all add: usb_transport_enable_def k d t frame_simps)
qed

lemma lpm_timer_nkro [frame_simps]:
  "keymap_nkro (lpm_timer_stop s) = keymap_nkro s" "nkro_usb (lpm_timer_stop s) = nkro_usb s"
  "nkro_bluetooth (lpm_timer_stop s) = nkro_bluetooth s" "transport (lpm_timer_stop s) = transport s"
  "keymap_nkro (lpm_timer_reset e s) = keymap_nkro s" "nkro_usb (lpm_timer_reset e s) = nkro_usb s"
  "nkro_bluetooth (lpm_timer_reset e s) = nkro_bluetooth s" "transport (lpm_timer_reset e s) = transport s"
  by (simp_all add: lpm_timer_stop_def lpm_timer_reset_def keymap_nkro_def)

text \<open>The NKRO settings after a switch: of the new side, of the old one, and the new transport.\<close>

lemma set_transport_nkro:
  assumes "transport s \<noteq> t"
  shows "t = TRANSPORT_USB \<Longrightarrow> keymap_nkro (set_transport e t s) = nkro_usb s \<and> nkro_bluetooth (set_transport e t s) = keymap_nkro s"
    "t = TRANSPORT_BLUETOOTH \<Longrightarrow> keymap_nkro (set_transport e t s) = nkro_bluetooth s \<and> nkro_usb (set_transport e t s) = keymap_nkro s"
    "transport (set_transport e t s) = t"
proof -
  have upd: "keymap_nkro (x\<lparr>nkro_usb := b\<rparr>) = keymap_nkro x" "keymap_nkro (x\<lparr>nkro_bluetooth := b\<rparr>) = keymap_nkro x"
    "keymap_nkro (x\<lparr>transport := t'\<rparr>) = keymap_nkro x" "keymap_nkro (bt_notify n x) = keymap_nkro x" for x b n t'
    by (simp_all add: keymap_nkro_def bt_notify_def)
  show "t = TRANSPORT_USB \<Longrightarrow> keymap_nkro (set_transport e t s) = nkro_usb s \<and> nkro_bluetooth (set_transport e t s) = keymap_nkro s"
    "t = TRANSPORT_BLUETOOTH \<Longrightarrow> keymap_nkro (set_transport e t s) = nkro_bluetooth s \<and> nkro_usb (set_transport e t s) = keymap_nkro s"
    using assms by (simp_all add: set_transport_def Let_def transport_changed_def frame_simps upd clear_keyboard_nkro)
  show "transport (set_transport e t s) = t"
    using assms by (cases t) (simp_all add: set_transport_def Let_def transport_changed_def frame_simps clear_keyboard_nkro)
qed

text \<open>The newest keyboard report a driver received.\<close>

definition newest_for :: "host_driver_t \<Rightarrow> action_st \<Rightarrow> report_keyboard_t option" where
  "newest_for d a = newest_keyboard (filter (\<lambda>(d', r). d' = d) (sent (host_if a)))"

definition driver_of :: "transport_t \<Rightarrow> host_driver_t" where
  "driver_of t = (if t = TRANSPORT_BLUETOOTH then bluetooth_driver else chibios_driver)"

text \<open>Everything a composition sends goes to the current driver.\<close>

definition sends_to :: "host_driver_t \<Rightarrow> host \<Rightarrow> host \<Rightarrow> bool" where
  "sends_to d h h' \<longleftrightarrow> driver h' = Some d \<and> (\<exists>rs. sent h' = map (Pair d) rs @ sent h)"

lemma sends_to_refl: "driver h = Some d \<Longrightarrow> sends_to d h h"
  unfolding sends_to_def by (intro conjI exI [of _ "[]"]) simp_all

lemma sends_to_trans: "sends_to d h h' \<Longrightarrow> sends_to d h' h'' \<Longrightarrow> sends_to d h h''"
  unfolding sends_to_def by (metis append_assoc map_append)

lemma host_sends_to:
  assumes "driver h = Some d"
  shows "sends_to d h (host_system_send u h)" "sends_to d h (host_consumer_send u h)"
    "sends_to d h (snd (host_keyboard_send m r h))"
proof -
  have one: "sends_to d h (to_driver r (h\<lparr>last_system_usage := u, last_consumer_usage := v\<rparr>))" for r u v
    using assms by (auto simp: sends_to_def to_driver_def intro!: exI [of _ "[r]"])
  have refl: "sends_to d h h" using assms by (rule sends_to_refl)
  show "sends_to d h (host_system_send u h)" "sends_to d h (host_consumer_send u h)" "sends_to d h (snd (host_keyboard_send m r h))"
    using one [where u = u and v = "last_consumer_usage h"] one [where u = "last_system_usage h" and v = u]
      one [where u = "last_system_usage h" and v = "last_consumer_usage h"] refl assms
    by (auto simp: host_system_send_def host_consumer_send_def host_keyboard_send_def Let_def)
qed

lemma send_keyboard_sends_to:
  assumes "driver (host_if s) = Some d"
  shows "sends_to d (host_if s) (host_if (send_keyboard_report T now s))"
proof -
  have "host_if (composed T now s) = host_if s"
    by (simp add: composed_def compose_oneshot_def Let_def frame_simps)
  then show ?thesis using host_sends_to(3) [OF assms] sends_to_refl [OF assms] by (simp add: send_keyboard_report_eq Let_def)
qed

lemma clear_keyboard_sends_to:
  assumes "driver (host_if s) = Some d"
  shows "sends_to d (host_if s) (host_if (clear_keyboard T now s))"
proof -
  define q where "q = clear_weak_mods (map_host (host_consumer_send 0) (map_host (host_system_send 0) (clear_keys (clear_mods s))))"
  have q: "host_if q = host_consumer_send 0 (host_system_send 0 (host_if s))" by (simp add: q_def frame_simps)
  note a = host_sends_to(1) [OF assms, of 0]
  note b = sends_to_trans [OF a host_sends_to(2)]
  have ab: "sends_to d (host_if s) (host_if q)" using a b [of 0] unfolding q by (simp add: sends_to_def)
  then have "sends_to d (host_if q) (host_if (send_keyboard_report T now q))" by (intro send_keyboard_sends_to) (simp add: sends_to_def)
  moreover have "host_if (clear_keyboard T now s) = host_if (send_keyboard_report T now q)"
    by (simp add: clear_keyboard_def clear_keyboard_but_mods_def clear_keyboard_but_mods_and_keys_def Let_def frame_simps q_def)
  ultimately show ?thesis using sends_to_trans [OF ab] by simp
qed

lemma newest_for_sends:
  assumes "sends_to d h h'" "newest_keyboard (filter (\<lambda>(d', r). d' = d) (sent h)) = newest_keyboard (sent h)"
  shows "newest_keyboard (filter (\<lambda>(d', r). d' = d) (sent h')) = newest_keyboard (sent h')"
proof -
  obtain rs where rs: "sent h' = map (Pair d) rs @ sent h" using assms(1) by (auto simp: sends_to_def)
  have "newest_keyboard (map (Pair d) rs @ filter (\<lambda>(d', r). d' = d) (sent h)) = newest_keyboard (map (Pair d) rs @ sent h)"
  proof (induction rs)
    case (Cons r rs)
    then show ?case by (cases r) simp_all
  qed (simp add: assms(2))
  moreover have "filter (\<lambda>(d', r). d' = d) (map (Pair d) rs) = map (Pair d) rs" by (induction rs) simp_all
  ultimately show ?thesis by (simp add: rs)
qed

text \<open>What the steps of a switch send.\<close>

abbreviation sent_by :: "bt_st \<Rightarrow> (host_driver_t \<times> report) list" where
  "sent_by s \<equiv> sent (host_if (act s))"

lemma switch_sends:
  "sent_by (call_driver e d r s) = (d, r) # sent_by s"
  "sent_by (bt_transport_enable e True s) = sent_by s"
  "sent_by (usb_transport_enable e True s) = sent_by s"
  "sent_by (bt_transport_enable e False s) \<in> {sent_by s, (bluetooth_driver, Keyboard_report empty_report) # sent_by s}"
  "sent_by (usb_transport_enable e False s) \<in> {sent_by s, (chibios_driver, Keyboard_report empty_report) # sent_by s}"
  "sent_by (lpm_timer_stop s) = sent_by s" "sent_by (lpm_timer_reset e s) = sent_by s" "sent_by (set_keymap_nkro b s) = sent_by s"
proof -
  show c: "sent_by (call_driver e d r s) = (d, r) # sent_by s" for d r s
    using deliver_side [of e "(d, r)"] by (simp add: call_driver_def same_side_def)
  show "sent_by (bt_transport_enable e True s) = sent_by s" "sent_by (usb_transport_enable e True s) = sent_by s"
    by (simp_all add: bt_transport_enable_def usb_transport_enable_def set_host_driver_def bluetooth_connect_def bluetooth_disconnect_def
      on_link_def host_set_driver_def)
  show "sent_by (bt_transport_enable e False s) \<in> {sent_by s, (bluetooth_driver, Keyboard_report empty_report) # sent_by s}"
    "sent_by (usb_transport_enable e False s) \<in> {sent_by s, (chibios_driver, Keyboard_report empty_report) # sent_by s}"
    by (simp_all add: bt_transport_enable_def usb_transport_enable_def c bt_notify_def Let_def)
qed (simp_all add: lpm_timer_stop_def lpm_timer_reset_def set_keymap_nkro_def)

lemma set_transport_sends:
  assumes "transport s \<noteq> t" "t \<noteq> TRANSPORT_NONE" "transport s \<noteq> TRANSPORT_NONE"
  shows "sent_by (set_transport e t s) \<in> {sent_by (bt_clear_keyboard e (s\<lparr>transport := t\<rparr>)),
    (driver_of (transport s), Keyboard_report empty_report) # sent_by (bt_clear_keyboard e (s\<lparr>transport := t\<rparr>))}"
proof -
  define c where "c = bt_clear_keyboard e (s\<lparr>transport := t\<rparr>)"
  have upd: "sent_by (x\<lparr>nkro_usb := b\<rparr>) = sent_by x" "sent_by (x\<lparr>nkro_bluetooth := b\<rparr>) = sent_by x" "sent_by (bt_notify n x) = sent_by x" for x b n
    by (simp_all add: bt_notify_def)
  consider "t = TRANSPORT_USB" "transport s = TRANSPORT_BLUETOOTH" | "t = TRANSPORT_BLUETOOTH" "transport s = TRANSPORT_USB"
    using assms by (cases t; cases "transport s") auto
  then show ?thesis
  proof cases
    case 1
    then have "sent_by (set_transport e t s) = sent_by (bt_transport_enable e False (usb_transport_enable e True c))"
      by (simp add: set_transport_def Let_def transport_changed_def switch_sends upd c_def)
    then show ?thesis using 1 switch_sends(4) [of e "usb_transport_enable e True c"] switch_sends(3) [of e c]
      by (auto simp: driver_of_def c_def)
  next
    case 2
    then have "sent_by (set_transport e t s) = sent_by (usb_transport_enable e False (bt_transport_enable e True c))"
      by (simp add: set_transport_def Let_def transport_changed_def switch_sends upd c_def)
    then show ?thesis using 2 switch_sends(5) [of e "bt_transport_enable e True c"] switch_sends(2) [of e c]
      by (auto simp: driver_of_def c_def)
  qed
qed

subsection \<open>Properties\<close>

text \<open>C11: Switching between USB and Bluetooth leaves no key pressed at the host that is left: the newest
  keyboard report it received shows none.\<close>
theorem transport_switch_releases_keys:
  assumes "transport s \<noteq> t" "t \<noteq> TRANSPORT_NONE" "transport s \<noteq> TRANSPORT_NONE" "report_sync (act s)"
    "report_wf (mode (act s)) (keyboard_report (act s))" "driver (host_if (act s)) = Some (driver_of (transport s))"
    "newest_for (driver_of (transport s)) (act s) = newest_keyboard (sent_by s)"
  shows "\<exists>r. newest_for (driver_of (transport s)) (act (set_transport e t s)) = Some r \<and> report_pressed (mode (act s)) r = {}"
proof -
  let ?d = "driver_of (transport s)"
  let ?c = "bt_clear_keyboard e (s\<lparr>transport := t\<rparr>)"
  let ?now = "ucast (env_now e)"
  have c: "act ?c = clear_keyboard 0 ?now (act s)" by (simp add: bt_clear_keyboard_def run_action_side)
  obtain r where r: "newest_keyboard (sent_by ?c) = Some r" "report_pressed (mode (act s)) r = {}"
    using clear_keyboard_host [OF assms(4,5), of 0 ?now] unfolding c by blast
  have "newest_for ?d (act ?c) = newest_keyboard (sent_by ?c)"
    using newest_for_sends [OF clear_keyboard_sends_to [OF assms(6)]] assms(7) unfolding newest_for_def c by blast
  then have n: "newest_for ?d (act ?c) = Some r" using r(1) by simp
  show ?thesis
    using set_transport_sends [OF assms(1-3), of e] n r(2) by (auto simp: newest_for_def)
qed

theorem transport_switch_releases_keys_witness:
  "\<exists>r. newest_for chibios_driver (act (set_transport (at_time 9) TRANSPORT_BLUETOOTH (bt_boot idle_action))) = Some r \<and>
    report_pressed (mode idle_action) r = {}"
proof -
  have "newest_for chibios_driver idle_action = newest_keyboard (sent (host_if idle_action))" "driver (host_if idle_action) = Some chibios_driver"
    by (simp_all add: newest_for_def idle_action_def)
  then show ?thesis
    using transport_switch_releases_keys [of "bt_boot idle_action" TRANSPORT_BLUETOOTH "at_time 9"] idle_action_sync idle_action_wf
    by (simp add: bt_boot_def driver_of_def)
qed

text \<open>Each side keeps its own NKRO setting: switching installs the setting of the new side, and switching back
  restores the old one.\<close>
lemma transport_keeps_nkro:
  assumes "transport s \<noteq> t" "t \<noteq> TRANSPORT_NONE" "transport s \<noteq> TRANSPORT_NONE" "s1 = set_transport e t s"
  shows "keymap_nkro s1 = (if t = TRANSPORT_USB then nkro_usb s else nkro_bluetooth s) \<and>
    keymap_nkro (set_transport e' (transport s) s1) = keymap_nkro s"
proof -
  have ret: "transport s1 \<noteq> transport s" using set_transport_nkro(3) [OF assms(1), of e] assms(1,4) by simp
  consider "t = TRANSPORT_USB" "transport s = TRANSPORT_BLUETOOTH" | "t = TRANSPORT_BLUETOOTH" "transport s = TRANSPORT_USB"
    using assms by (cases t; cases "transport s") auto
  then show ?thesis
    using set_transport_nkro(1,2) [OF assms(1), of e] set_transport_nkro(1,2) [OF ret, of e'] assms(4) by cases auto
qed

end
