(* ===== verification/Qmk_K3_Pro.thy ===== *)
theory Qmk_K3_Pro
  imports Qmk_Transport
begin

text \<open>
  The keyboard itself (\<^verbatim>\<open>keyboards/keychron/k3_pro/k3_pro.c\<close> and \<^verbatim>\<open>process_record_kb\<close> of
  \<^verbatim>\<open>bluetooth.c\<close>): its own key codes, the two timers that are polled by the matrix scan, the pairing timer, the DIP switch
  and the two LED pins.
\<close>

subsection \<open>State\<close>

record k3_pro =
  power_on_indicator_timer_buffer :: u32
  siri_timer_buffer :: u32
  host_idx :: u8
  pairing_key_timer :: bool
  mode_pin :: u8
  bat_low_pin :: bool
  caps_lock_pin :: bool
  host_pin :: bool
  bt :: bt_st

definition map_bt :: "(bt_st \<Rightarrow> bt_st) \<Rightarrow> k3_pro \<Rightarrow> k3_pro" where
  "map_bt f s = s\<lparr>bt := f (bt s)\<rparr>"

definition now16 :: "bt_env \<Rightarrow> u16" where "now16 e = ucast (env_now e)"

definition k3_register_code :: "bt_env \<Rightarrow> u8 \<Rightarrow> k3_pro \<Rightarrow> k3_pro" where
  "k3_register_code e code = map_bt (run_action e (register_code 0 (now16 e) code))"

definition k3_unregister_code :: "bt_env \<Rightarrow> u8 \<Rightarrow> k3_pro \<Rightarrow> k3_pro" where
  "k3_unregister_code e code = map_bt (run_action e (unregister_code 0 (now16 e) code))"

subsection \<open>Key codes of the keyboard\<close>

definition KC_LOPTN :: u16 where "KC_LOPTN = 0x7E00"
definition KC_TASK :: u16 where "KC_TASK = 0x7E04"
definition KC_SIRI :: u16 where "KC_SIRI = 0x7E08"
definition BT_HST1 :: u16 where "BT_HST1 = 0x7E09"
definition BAT_LVL :: u16 where "BAT_LVL = 0x7E0C"
definition KC_LGUI :: u8 where "KC_LGUI = 0xE3"

lemmas k3_keycodes = KC_LOPTN_def KC_TASK_def KC_SIRI_def BT_HST1_def BAT_LVL_def KC_LGUI_def KC_SPACE_def

text \<open>Option and command keys: \<^verbatim>\<open>KC_LOPT\<close>, \<^verbatim>\<open>KC_ROPT\<close>, \<^verbatim>\<open>KC_LCMD\<close>, \<^verbatim>\<open>KC_RCMD\<close>.\<close>

definition mac_keycode :: "u8 list" where "mac_keycode = [0xE2, 0xE6, 0xE3, 0xE7]"

text \<open>Task, files, snapshot and Cortana: the window key with tab, E or C, and shift-GUI-4.\<close>

definition key_comb_list :: "u8 list list" where
  "key_comb_list = [[0xE3, 0x2B], [0xE3, 0x08], [0xE1, 0xE3, 0x21], [0xE3, 0x06]]"

definition POWER_ON_LED_DURATION :: u32 where "POWER_ON_LED_DURATION = 3000"

subsection \<open>Key events\<close>

text \<open>The result says whether the key code is processed further.\<close>

definition process_record_kb_bt :: "bt_env \<Rightarrow> u16 \<Rightarrow> bool \<Rightarrow> k3_pro \<Rightarrow> bool \<times> k3_pro" where
  "process_record_kb_bt e keycode pressed s =
    (if KC_LOPTN \<le> keycode \<and> keycode < KC_LOPTN + 4 then
       let code = mac_keycode ! unat (keycode - KC_LOPTN) in
       (False, if pressed then k3_register_code e code s else k3_unregister_code e code s)
     else if KC_TASK \<le> keycode \<and> keycode < KC_TASK + 4 then
       let codes = key_comb_list ! unat (keycode - KC_TASK) in
       (False, fold (if pressed then k3_register_code e else k3_unregister_code e) codes s)
     else if keycode = KC_SIRI then
       (False, if pressed \<and> siri_timer_buffer s = 0
               then (k3_register_code e KC_SPACE (k3_register_code e KC_LGUI s))\<lparr>siri_timer_buffer := env_now e OR 1\<rparr> else s)
     else if BT_HST1 \<le> keycode \<and> keycode < BT_HST1 + 3 then
       (True, if get_transport (bt s) = TRANSPORT_BLUETOOTH then
                if pressed then
                  let i = ucast (keycode - BT_HST1 + 1) in
                  map_bt (bluetooth_connect_ex i 0) (s\<lparr>host_idx := i, pairing_key_timer := True\<rparr>)
                else s\<lparr>host_idx := 0, pairing_key_timer := False\<rparr>
              else s)
     else if keycode = BAT_LVL then
       (True, if get_transport (bt s) = TRANSPORT_BLUETOOTH \<and> \<not> env_usb_power e
              then map_bt (bt_notify (Battery_animation (battery_get_percentage (bt s)))) s else s)
     else (True, s))"

text \<open>\<open>user\<close> is the result of \<^verbatim>\<open>process_record_user\<close>.\<close>

definition process_record_kb :: "bt_env \<Rightarrow> bool \<Rightarrow> u16 \<Rightarrow> bool \<Rightarrow> k3_pro \<Rightarrow> bool \<times> k3_pro" where
  "process_record_kb e user keycode pressed s =
    (if \<not> user then (False, s)
     else
       let s = (if get_transport (bt s) = TRANSPORT_BLUETOOTH then
                  let s = map_bt (lpm_timer_reset e) s in
                  if battery_is_empty (bt s) \<and> bt_state (bt s) = BLUETOOTH_CONNECTED \<and> pressed
                  then map_bt (bt_notify (Battery_low_backlit True)) (map_bt (bt_notify (Battery_low_indication True)) s) else s
                else s) in
       process_record_kb_bt e keycode pressed s)"

text \<open>The pairing timer, two seconds after its key went down.\<close>

definition pairing_key_timer_cb :: "k3_pro \<Rightarrow> k3_pro" where
  "pairing_key_timer_cb s = map_bt (bluetooth_pairing_ex (host_idx s)) (s\<lparr>pairing_key_timer := False\<rparr>)"

definition dip_switch_update_kb :: "u8 \<Rightarrow> bool \<Rightarrow> k3_pro \<Rightarrow> k3_pro" where
  "dip_switch_update_kb index on s =
    (if index = 0 then map_bt (\<lambda>b. b\<lparr>act := (act b)\<lparr>layers := default_layer_set (bitmask (if on then 0 else 2)) (layers (act b))\<rparr>\<rparr>) s
     else s)"

subsection \<open>Start-up and matrix scan\<close>

definition keyboard_post_init_kb :: "bt_env \<Rightarrow> u16 \<Rightarrow> k3_pro \<Rightarrow> k3_pro" where
  "keyboard_post_init_kb e keymap s =
    (map_bt (bluetooth_init e keymap) s)
      \<lparr>power_on_indicator_timer_buffer := env_now e OR 1, bat_low_pin := True, caps_lock_pin := True, host_pin := True\<rparr>"

definition caps_lock_led :: "u8 \<Rightarrow> k3_pro \<Rightarrow> bool" where
  "caps_lock_led usb_leds s =
    bit (host_keyboard_leds (\<lambda>d. case d of chibios_driver \<Rightarrow> usb_leds | bluetooth_driver \<Rightarrow> bluetooth_keyboard_leds (bt s))
      (host_if (act (bt s)))) 1"

definition matrix_scan_kb :: "bt_env \<Rightarrow> u8 \<Rightarrow> k3_pro \<Rightarrow> k3_pro" where
  "matrix_scan_kb e usb_leds s =
    (let s = (if power_on_indicator_timer_buffer s \<noteq> 0 then
                if POWER_ON_LED_DURATION < sync_timer_elapsed32 e (power_on_indicator_timer_buffer s)
                then let s = s\<lparr>power_on_indicator_timer_buffer := 0, bat_low_pin := False\<rparr> in
                  if \<not> caps_lock_led usb_leds s then s\<lparr>caps_lock_pin := False\<rparr> else s
                else s\<lparr>bat_low_pin := True, caps_lock_pin := True\<rparr>
              else s) in
     if siri_timer_buffer s \<noteq> 0 \<and> 500 < sync_timer_elapsed32 e (siri_timer_buffer s)
     then k3_unregister_code e KC_SPACE (k3_unregister_code e KC_LGUI (s\<lparr>siri_timer_buffer := 0\<rparr>))
     else s)"

subsection \<open>Properties\<close>

text \<open>Setting the lowest bit of an even time gives the next millisecond.\<close>

lemma or_one_even:
  assumes "\<not> bit (w :: u32) 0"
  shows "w OR 1 = w + 1"
proof -
  have "w AND 1 = 0" using assms by (intro bit_word_eqI) (auto simp: bit_simps bit_1_iff intro: gr0I)
  then show ?thesis using word_plus_and_or [of w 1] by simp
qed

lemma or_one_odd: "bit (w :: u32) 0 \<Longrightarrow> w OR 1 = w"
  by (rule bit_word_eqI) (auto simp: bit_simps bit_1_iff)

lemma siri_pressed:
  assumes "siri_timer_buffer s = 0"
  shows "snd (process_record_kb_bt e KC_SIRI True s) =
    (k3_register_code e KC_SPACE (k3_register_code e KC_LGUI s))\<lparr>siri_timer_buffer := env_now e OR 1\<rparr>"
  using assms by (simp add: process_record_kb_bt_def k3_keycodes word_le_nat_alt word_less_nat_alt)

text \<open>The Siri key holds GUI and space down until more than 500 milliseconds later when it is pressed at an odd
  millisecond; pressed at an even one, a scan in the same millisecond finds the timer ahead of the clock and releases
  both keys at once.\<close>
lemma siri_key_timer:
  assumes "siri_timer_buffer s = 0" "s1 = snd (process_record_kb_bt e KC_SIRI True s)" "power_on_indicator_timer_buffer s = 0"
  shows "(bit (env_now e) 0 \<and> env_now e' - env_now e \<le> 500 \<longrightarrow> matrix_scan_kb e' leds s1 = s1) \<and>
    (\<not> bit (env_now e) 0 \<and> env_now e' = env_now e \<longrightarrow>
      matrix_scan_kb e' leds s1 = k3_unregister_code e' KC_SPACE (k3_unregister_code e' KC_LGUI (s1\<lparr>siri_timer_buffer := 0\<rparr>)))"
proof -
  note s1 = siri_pressed [OF assms(1), of e, folded assms(2)]
  have t: "siri_timer_buffer s1 = env_now e OR 1" by (simp add: s1)
  have p: "power_on_indicator_timer_buffer s1 = 0" using assms(3) by (simp add: s1 k3_register_code_def map_bt_def)
  have nz: "env_now e OR 1 \<noteq> 0"
  proof
    assume "env_now e OR 1 = 0"
    then have "bit (env_now e OR 1) 0 = bit (0 :: u32) 0" by simp
    then show False by (simp add: bit_simps)
  qed
  have scan: "matrix_scan_kb e' leds s1 = (if 500 < env_now e' - (env_now e OR 1)
      then k3_unregister_code e' KC_SPACE (k3_unregister_code e' KC_LGUI (s1\<lparr>siri_timer_buffer := 0\<rparr>)) else s1)"
    using p t nz by (simp add: matrix_scan_kb_def sync_timer_elapsed32_def TIMER_DIFF_32_def)
  show ?thesis
  proof (intro conjI impI)
    assume "bit (env_now e) 0 \<and> env_now e' - env_now e \<le> 500"
    then show "matrix_scan_kb e' leds s1 = s1" using scan or_one_odd by (auto simp: not_less)
  next
    assume a: "\<not> bit (env_now e) 0 \<and> env_now e' = env_now e"
    then have "env_now e' - (env_now e OR 1) = - 1" by (simp add: or_one_even)
    then show "matrix_scan_kb e' leds s1 = k3_unregister_code e' KC_SPACE (k3_unregister_code e' KC_LGUI (s1\<lparr>siri_timer_buffer := 0\<rparr>))"
      using scan by simp
  qed
qed

definition idle_k3 :: k3_pro where
  "idle_k3 = \<lparr>power_on_indicator_timer_buffer = 0, siri_timer_buffer = 0, host_idx = 0, pairing_key_timer = False, mode_pin = 1,
    bat_low_pin = False, caps_lock_pin = False, host_pin = False, bt = bt_boot idle_action\<rparr>"

end
