(* ===== verification/Qmk_Keymap.thy ===== *)
theory Qmk_Keymap
  imports Qmk_Action_Codes
begin

text \<open>
  From key codes to actions: the remapping of key codes and modifiers that the magic settings ask for
  (\<^verbatim>\<open>quantum/keycode_config.c\<close>), the ranges of key codes with their fields (\<^verbatim>\<open>quantum/keycodes.h\<close>,
  \<^verbatim>\<open>quantum/quantum_keycodes.h\<close>), the fields and constructors of action codes (\<^verbatim>\<open>quantum/action_code.h\<close>),
  and the translation itself (\<^verbatim>\<open>quantum/keymap_common.c\<close>).  \<open>cfg\<close> is the word \<^verbatim>\<open>keymap_config.raw\<close>.
\<close>

subsection \<open>The settings\<close>

definition swap_control_capslock :: "u16 \<Rightarrow> bool" where "swap_control_capslock cfg = bit cfg 0"
definition capslock_to_control :: "u16 \<Rightarrow> bool" where "capslock_to_control cfg = bit cfg 1"
definition swap_lalt_lgui :: "u16 \<Rightarrow> bool" where "swap_lalt_lgui cfg = bit cfg 2"
definition swap_ralt_rgui :: "u16 \<Rightarrow> bool" where "swap_ralt_rgui cfg = bit cfg 3"
definition no_gui :: "u16 \<Rightarrow> bool" where "no_gui cfg = bit cfg 4"
definition swap_grave_esc :: "u16 \<Rightarrow> bool" where "swap_grave_esc cfg = bit cfg 5"
definition swap_backslash_backspace :: "u16 \<Rightarrow> bool" where "swap_backslash_backspace cfg = bit cfg 6"
definition swap_lctl_lgui :: "u16 \<Rightarrow> bool" where "swap_lctl_lgui cfg = bit cfg 8"
definition swap_rctl_rgui :: "u16 \<Rightarrow> bool" where "swap_rctl_rgui cfg = bit cfg 9"
definition swap_escape_capslock :: "u16 \<Rightarrow> bool" where "swap_escape_capslock cfg = bit cfg 11"

lemmas config_bits = swap_control_capslock_def capslock_to_control_def swap_lalt_lgui_def swap_ralt_rgui_def no_gui_def
  swap_grave_esc_def swap_backslash_backspace_def swap_lctl_lgui_def swap_rctl_rgui_def swap_escape_capslock_def

definition KC_ESCAPE :: u8 where "KC_ESCAPE = 0x29"
definition KC_BACKSPACE :: u8 where "KC_BACKSPACE = 0x2A"
definition KC_BACKSLASH :: u8 where "KC_BACKSLASH = 0x31"
definition KC_GRAVE :: u8 where "KC_GRAVE = 0x35"
definition KC_LOCKING_CAPS_LOCK :: u8 where "KC_LOCKING_CAPS_LOCK = 0x82"
definition KC_LEFT_SHIFT :: u8 where "KC_LEFT_SHIFT = 0xE1"
definition KC_LEFT_ALT :: u8 where "KC_LEFT_ALT = 0xE2"
definition KC_LEFT_GUI :: u8 where "KC_LEFT_GUI = 0xE3"
definition KC_RIGHT_CTRL :: u8 where "KC_RIGHT_CTRL = 0xE4"
definition KC_RIGHT_SHIFT :: u8 where "KC_RIGHT_SHIFT = 0xE5"
definition KC_RIGHT_ALT :: u8 where "KC_RIGHT_ALT = 0xE6"

lemmas remapped_codes = KC_ESCAPE_def KC_BACKSPACE_def KC_BACKSLASH_def KC_GRAVE_def KC_LOCKING_CAPS_LOCK_def
  KC_LEFT_SHIFT_def KC_LEFT_ALT_def KC_LEFT_GUI_def KC_RIGHT_CTRL_def KC_RIGHT_SHIFT_def KC_RIGHT_ALT_def

definition keycode_config :: "u16 \<Rightarrow> u16 \<Rightarrow> u16" where
  "keycode_config cfg keycode =
    (if keycode = ucast KC_CAPS_LOCK \<or> keycode = ucast KC_LOCKING_CAPS_LOCK then
       (if swap_control_capslock cfg \<or> capslock_to_control cfg then ucast KC_LEFT_CTRL
        else if swap_escape_capslock cfg then ucast KC_ESCAPE else keycode)
     else if keycode = ucast KC_LEFT_CTRL then
       (if swap_control_capslock cfg then ucast KC_CAPS_LOCK
        else if swap_lctl_lgui cfg then (if no_gui cfg then 0 else ucast KC_LEFT_GUI)
        else ucast KC_LEFT_CTRL)
     else if keycode = ucast KC_LEFT_ALT then
       (if swap_lalt_lgui cfg then (if no_gui cfg then 0 else ucast KC_LEFT_GUI) else ucast KC_LEFT_ALT)
     else if keycode = ucast KC_LEFT_GUI then
       (if swap_lalt_lgui cfg then ucast KC_LEFT_ALT
        else if swap_lctl_lgui cfg then ucast KC_LEFT_CTRL
        else if no_gui cfg then 0 else ucast KC_LEFT_GUI)
     else if keycode = ucast KC_RIGHT_CTRL then
       (if swap_rctl_rgui cfg then (if no_gui cfg then 0 else ucast KC_RIGHT_GUI) else ucast KC_RIGHT_CTRL)
     else if keycode = ucast KC_RIGHT_ALT then
       (if swap_ralt_rgui cfg then (if no_gui cfg then 0 else ucast KC_RIGHT_GUI) else ucast KC_RIGHT_ALT)
     else if keycode = ucast KC_RIGHT_GUI then
       (if swap_ralt_rgui cfg then ucast KC_RIGHT_ALT
        else if swap_rctl_rgui cfg then ucast KC_RIGHT_CTRL
        else if no_gui cfg then 0 else ucast KC_RIGHT_GUI)
     else if keycode = ucast KC_GRAVE then (if swap_grave_esc cfg then ucast KC_ESCAPE else ucast KC_GRAVE)
     else if keycode = ucast KC_ESCAPE then
       (if swap_grave_esc cfg then ucast KC_GRAVE
        else if swap_escape_capslock cfg then ucast KC_CAPS_LOCK else ucast KC_ESCAPE)
     else if keycode = ucast KC_BACKSLASH then
       (if swap_backslash_backspace cfg then ucast KC_BACKSPACE else ucast KC_BACKSLASH)
     else if keycode = ucast KC_BACKSPACE then
       (if swap_backslash_backspace cfg then ucast KC_BACKSLASH else ucast KC_BACKSPACE)
     else keycode)"

subsection \<open>Modifiers in five bits\<close>

text \<open>Four modifiers and the flag for the right hand.\<close>

definition MOD_LCTL :: u8 where "MOD_LCTL = 0x01"
definition MOD_LSFT :: u8 where "MOD_LSFT = 0x02"
definition MOD_LALT :: u8 where "MOD_LALT = 0x04"
definition MOD_LGUI :: u8 where "MOD_LGUI = 0x08"
definition MOD_RCTL :: u8 where "MOD_RCTL = 0x11"
definition MOD_RSFT :: u8 where "MOD_RSFT = 0x12"
definition MOD_RALT :: u8 where "MOD_RALT = 0x14"
definition MOD_RGUI :: u8 where "MOD_RGUI = 0x18"

lemmas five_bit_mods = MOD_LCTL_def MOD_LSFT_def MOD_LALT_def MOD_LGUI_def MOD_RCTL_def MOD_RSFT_def MOD_RALT_def MOD_RGUI_def

text \<open>One of the four swaps: \<open>gui\<close> and \<open>other\<close> on their hand, tested with the flag of that hand.\<close>

definition swap_with_gui :: "u8 \<Rightarrow> u8 \<Rightarrow> u8 \<Rightarrow> u8 \<Rightarrow> u8 \<Rightarrow> u8" where
  "swap_with_gui gui gui_mask other other_mask md =
    (if md AND gui_mask = gui then (md AND NOT gui) OR other
     else if md AND other_mask = other then (md AND NOT other) OR gui else md)"

definition mod_config :: "u16 \<Rightarrow> u8 \<Rightarrow> u8" where
  "mod_config cfg md =
    (let md = (if swap_lalt_lgui cfg then swap_with_gui MOD_LGUI MOD_RGUI MOD_LALT MOD_RALT md else md);
         md = (if swap_ralt_rgui cfg then swap_with_gui MOD_RGUI MOD_RGUI MOD_RALT MOD_RALT md else md);
         md = (if swap_lctl_lgui cfg then swap_with_gui MOD_LGUI MOD_RGUI MOD_LCTL MOD_RCTL md else md);
         md = (if swap_rctl_rgui cfg then swap_with_gui MOD_RGUI MOD_RGUI MOD_RCTL MOD_RCTL md else md) in
     if no_gui cfg then (md AND NOT MOD_LGUI) AND NOT MOD_RGUI else md)"

subsection \<open>Fields of an action code\<close>

definition kind_id :: "action_t \<Rightarrow> u8" where "kind_id action = ucast (drop_bit 12 action)"
definition key_code :: "action_t \<Rightarrow> u8" where "key_code action = ucast action"
definition key_mods :: "action_t \<Rightarrow> u8" where "key_mods action = ucast (drop_bit 8 action) AND 0x0F"
definition layer_tap_val :: "action_t \<Rightarrow> u8" where "layer_tap_val action = ucast (drop_bit 8 action) AND 0x1F"
definition layer_mods_layer :: "action_t \<Rightarrow> u8" where "layer_mods_layer action = ucast (drop_bit 8 action) AND 0x0F"
definition layer_mods_mods :: "action_t \<Rightarrow> u8" where "layer_mods_mods action = ucast action"
definition usage_code :: "action_t \<Rightarrow> u16" where "usage_code action = action AND 0x3FF"
definition usage_page :: "action_t \<Rightarrow> u8" where "usage_page action = ucast (drop_bit 10 action) AND 0x03"
definition bitop_bits :: "action_t \<Rightarrow> u8" where "bitop_bits action = ucast action AND 0x0F"
definition bitop_xbit :: "action_t \<Rightarrow> bool" where "bitop_xbit action = bit action 4"
definition bitop_part :: "action_t \<Rightarrow> u8" where "bitop_part action = ucast (drop_bit 5 action) AND 0x07"
definition bitop_on :: "action_t \<Rightarrow> u8" where "bitop_on action = ucast (drop_bit 8 action) AND 0x03"
definition bitop_op :: "action_t \<Rightarrow> u8" where "bitop_op action = ucast (drop_bit 10 action) AND 0x03"

lemmas action_fields = kind_id_def key_code_def key_mods_def layer_tap_val_def layer_mods_layer_def layer_mods_mods_def
  usage_code_def usage_page_def bitop_bits_def bitop_xbit_def bitop_part_def bitop_on_def bitop_op_def

definition ACT_LMODS :: u8 where "ACT_LMODS = 0x0"
definition ACT_RMODS :: u8 where "ACT_RMODS = 0x1"
definition ACT_LMODS_TAP :: u8 where "ACT_LMODS_TAP = 0x2"
definition ACT_RMODS_TAP :: u8 where "ACT_RMODS_TAP = 0x3"
definition ACT_USAGE :: u8 where "ACT_USAGE = 0x4"
definition ACT_MOUSEKEY :: u8 where "ACT_MOUSEKEY = 0x5"
definition ACT_SWAP_HANDS :: u8 where "ACT_SWAP_HANDS = 0x6"
definition ACT_LAYER :: u8 where "ACT_LAYER = 0x8"
definition ACT_LAYER_MODS :: u8 where "ACT_LAYER_MODS = 0x9"
definition ACT_LAYER_TAP :: u8 where "ACT_LAYER_TAP = 0xA"
definition ACT_LAYER_TAP_EXT :: u8 where "ACT_LAYER_TAP_EXT = 0xB"

lemmas action_kinds = ACT_LMODS_def ACT_RMODS_def ACT_LMODS_TAP_def ACT_RMODS_TAP_def ACT_USAGE_def ACT_MOUSEKEY_def
  ACT_SWAP_HANDS_def ACT_LAYER_def ACT_LAYER_MODS_def ACT_LAYER_TAP_def ACT_LAYER_TAP_EXT_def

definition PAGE_SYSTEM :: u8 where "PAGE_SYSTEM = 0"
definition PAGE_CONSUMER :: u8 where "PAGE_CONSUMER = 1"
definition ON_PRESS :: u8 where "ON_PRESS = 1"
definition ON_RELEASE :: u8 where "ON_RELEASE = 2"
definition OP_BIT_AND :: u8 where "OP_BIT_AND = 0"
definition OP_BIT_OR :: u8 where "OP_BIT_OR = 1"
definition OP_BIT_XOR :: u8 where "OP_BIT_XOR = 2"
definition OP_BIT_SET :: u8 where "OP_BIT_SET = 3"
definition MODS_ONESHOT :: u8 where "MODS_ONESHOT = 0x00"
definition MODS_TAP_TOGGLE :: u8 where "MODS_TAP_TOGGLE = 0x01"
definition OP_TAP_TOGGLE :: u8 where "OP_TAP_TOGGLE = 0xF0"
definition OP_ON_OFF :: u8 where "OP_ON_OFF = 0xF1"
definition OP_OFF_ON :: u8 where "OP_OFF_ON = 0xF2"
definition OP_SET_CLEAR :: u8 where "OP_SET_CLEAR = 0xF3"
definition OP_ONESHOT :: u8 where "OP_ONESHOT = 0xF4"

lemmas action_params = PAGE_SYSTEM_def PAGE_CONSUMER_def ON_PRESS_def ON_RELEASE_def OP_BIT_AND_def OP_BIT_OR_def
  OP_BIT_XOR_def OP_BIT_SET_def MODS_ONESHOT_def MODS_TAP_TOGGLE_def OP_TAP_TOGGLE_def OP_ON_OFF_def OP_OFF_ON_def
  OP_SET_CLEAR_def OP_ONESHOT_def

subsection \<open>Constructors of action codes\<close>

definition ACTION_NO :: action_t where "ACTION_NO = 0"

definition ACTION :: "u8 \<Rightarrow> u16 \<Rightarrow> action_t" where "ACTION kind param = push_bit 12 (ucast kind) OR param"

definition ACTION_KEY :: "u16 \<Rightarrow> action_t" where "ACTION_KEY code = ACTION ACT_LMODS code"
definition ACTION_MODS_KEY :: "u8 \<Rightarrow> u16 \<Rightarrow> action_t" where
  "ACTION_MODS_KEY mods code = ACTION ACT_LMODS (push_bit 8 (ucast mods AND 0x1F) OR code)"
definition ACTION_MODS_TAP_KEY :: "u8 \<Rightarrow> u16 \<Rightarrow> action_t" where
  "ACTION_MODS_TAP_KEY mods code = ACTION ACT_LMODS_TAP (push_bit 8 (ucast mods AND 0x1F) OR code)"
definition ACTION_MODS_ONESHOT :: "u8 \<Rightarrow> action_t" where
  "ACTION_MODS_ONESHOT mods = ACTION ACT_LMODS_TAP (push_bit 8 (ucast mods AND 0x1F) OR ucast MODS_ONESHOT)"
definition ACTION_USAGE_SYSTEM :: "u16 \<Rightarrow> action_t" where
  "ACTION_USAGE_SYSTEM i = ACTION ACT_USAGE (push_bit 10 (ucast PAGE_SYSTEM) OR i)"
definition ACTION_USAGE_CONSUMER :: "u16 \<Rightarrow> action_t" where
  "ACTION_USAGE_CONSUMER i = ACTION ACT_USAGE (push_bit 10 (ucast PAGE_CONSUMER) OR i)"
definition ACTION_MOUSEKEY :: "u16 \<Rightarrow> action_t" where "ACTION_MOUSEKEY code = ACTION ACT_MOUSEKEY code"
definition ACTION_LAYER_BITOP :: "u8 \<Rightarrow> u16 \<Rightarrow> u16 \<Rightarrow> u8 \<Rightarrow> action_t" where
  "ACTION_LAYER_BITOP op part bits on =
    ACTION ACT_LAYER (push_bit 10 (ucast op) OR push_bit 8 (ucast on) OR push_bit 5 part OR (bits AND 0x1F))"
definition ACTION_LAYER_TAP :: "u8 \<Rightarrow> u16 \<Rightarrow> action_t" where
  "ACTION_LAYER_TAP layer code = ACTION ACT_LAYER_TAP (push_bit 8 (ucast layer) OR code)"
definition ACTION_LAYER_MODS :: "u8 \<Rightarrow> u16 \<Rightarrow> action_t" where
  "ACTION_LAYER_MODS layer mods = ACTION ACT_LAYER_MODS (push_bit 8 (ucast layer) OR mods)"

definition layer_in_part :: "u8 \<Rightarrow> u16" where "layer_in_part layer = bitmask (unat (layer mod 4))"

definition ACTION_LAYER_GOTO :: "u8 \<Rightarrow> action_t" where
  "ACTION_LAYER_GOTO layer = ACTION_LAYER_BITOP OP_BIT_SET (ucast (layer div 4)) (layer_in_part layer) ON_PRESS"
definition ACTION_LAYER_TOGGLE :: "u8 \<Rightarrow> action_t" where
  "ACTION_LAYER_TOGGLE layer = ACTION_LAYER_BITOP OP_BIT_XOR (ucast (layer div 4)) (layer_in_part layer) ON_RELEASE"
definition ACTION_DEFAULT_LAYER_SET :: "u8 \<Rightarrow> action_t" where
  "ACTION_DEFAULT_LAYER_SET layer = ACTION_LAYER_BITOP OP_BIT_SET (ucast (layer div 4)) (layer_in_part layer) 0"
definition ACTION_LAYER_MOMENTARY :: "u8 \<Rightarrow> action_t" where
  "ACTION_LAYER_MOMENTARY layer = ACTION_LAYER_TAP layer (ucast OP_ON_OFF)"
definition ACTION_LAYER_ONESHOT :: "u8 \<Rightarrow> action_t" where
  "ACTION_LAYER_ONESHOT layer = ACTION_LAYER_TAP layer (ucast OP_ONESHOT)"
definition ACTION_LAYER_TAP_TOGGLE :: "u8 \<Rightarrow> action_t" where
  "ACTION_LAYER_TAP_TOGGLE layer = ACTION_LAYER_TAP layer (ucast OP_TAP_TOGGLE)"

lemmas action_makers = ACTION_NO_def ACTION_def ACTION_KEY_def ACTION_MODS_KEY_def ACTION_MODS_TAP_KEY_def ACTION_MODS_ONESHOT_def
  ACTION_USAGE_SYSTEM_def ACTION_USAGE_CONSUMER_def ACTION_MOUSEKEY_def ACTION_LAYER_BITOP_def ACTION_LAYER_TAP_def
  ACTION_LAYER_MODS_def layer_in_part_def ACTION_LAYER_GOTO_def ACTION_LAYER_TOGGLE_def ACTION_DEFAULT_LAYER_SET_def
  ACTION_LAYER_MOMENTARY_def ACTION_LAYER_ONESHOT_def ACTION_LAYER_TAP_TOGGLE_def

subsection \<open>The translation\<close>

definition keycode_in :: "u16 \<Rightarrow> u16 \<Rightarrow> u16 \<Rightarrow> bool" where
  "keycode_in lo hi keycode \<longleftrightarrow> lo \<le> keycode \<and> keycode \<le> hi"

definition low_code :: "u16 \<Rightarrow> u16" where "low_code keycode = keycode AND 0xFF"
definition mods_at_8 :: "u16 \<Rightarrow> u8" where "mods_at_8 keycode = ucast (drop_bit 8 keycode AND 0x1F)"
definition layer_at_8 :: "u16 \<Rightarrow> u8" where "layer_at_8 keycode = ucast (drop_bit 8 keycode AND 0x0F)"
definition layer_at_0 :: "u16 \<Rightarrow> u8" where "layer_at_0 keycode = ucast (keycode AND 0x1F)"
definition layer_at_5 :: "u16 \<Rightarrow> u8" where "layer_at_5 keycode = ucast (drop_bit 5 keycode AND 0x0F)"

lemmas keycode_fields = low_code_def mods_at_8_def layer_at_8_def layer_at_0_def layer_at_5_def

text \<open>
  The modifiers of a layer-mod key are shifted as an \<^verbatim>\<open>int\<close>, not as a byte.
\<close>

definition layer_mod_param :: "u8 \<Rightarrow> u16" where
  "layer_mod_param md = (if bit md 4 then push_bit 4 (ucast md) else ucast md)"

definition action_for_keycode :: "u16 \<Rightarrow> u16 \<Rightarrow> action_t" where
  "action_for_keycode cfg keycode =
    (let k = keycode_config cfg keycode in
     if keycode_in (ucast KC_A) (ucast KC_EXSEL) k \<or> keycode_in (ucast KC_LEFT_CTRL) (ucast KC_RIGHT_GUI) k then ACTION_KEY k
     else if keycode_in (ucast KC_SYSTEM_POWER) (ucast KC_SYSTEM_WAKE) k then ACTION_USAGE_SYSTEM (KEYCODE2SYSTEM (ucast k))
     else if keycode_in (ucast KC_AUDIO_MUTE) (ucast KC_LAUNCHPAD) k then ACTION_USAGE_CONSUMER (KEYCODE2CONSUMER (ucast k))
     else if keycode_in (ucast KC_MS_UP) (ucast KC_MS_ACCEL2) k then ACTION_MOUSEKEY k
     else if k = ACTION_TRANSPARENT then ACTION_TRANSPARENT
     else if keycode_in 0x0100 0x1FFF k then
       ACTION_MODS_KEY (mod_config cfg (mods_at_8 k)) (keycode_config cfg (low_code k))
     else if keycode_in 0x4000 0x4FFF k then ACTION_LAYER_TAP (layer_at_8 k) (keycode_config cfg (low_code k))
     else if keycode_in 0x5200 0x521F k then ACTION_LAYER_GOTO (layer_at_0 k)
     else if keycode_in 0x5220 0x523F k then ACTION_LAYER_MOMENTARY (layer_at_0 k)
     else if keycode_in 0x5240 0x525F k then ACTION_DEFAULT_LAYER_SET (layer_at_0 k)
     else if keycode_in 0x5260 0x527F k then ACTION_LAYER_TOGGLE (layer_at_0 k)
     else if keycode_in 0x5280 0x529F k then ACTION_LAYER_ONESHOT (layer_at_0 k)
     else if keycode_in 0x52A0 0x52BF k then ACTION_MODS_ONESHOT (mod_config cfg (layer_at_0 k))
     else if keycode_in 0x52C0 0x52DF k then ACTION_LAYER_TAP_TOGGLE (layer_at_0 k)
     else if keycode_in 0x5000 0x51FF k then
       ACTION_LAYER_MODS (layer_at_5 k) (layer_mod_param (mod_config cfg (layer_at_0 k)))
     else if keycode_in 0x2000 0x3FFF k then
       ACTION_MODS_TAP_KEY (mod_config cfg (mods_at_8 k)) (keycode_config cfg (low_code k))
     else ACTION_NO)"

text \<open>\<open>km\<close> reads the keymap: the dynamic keymap, or the one in flash.\<close>

definition keymap_key_to_keycode :: "(u8 \<Rightarrow> keypos_t \<Rightarrow> u16) \<Rightarrow> u8 \<Rightarrow> keypos_t \<Rightarrow> u16" where
  "keymap_key_to_keycode km layer p = (if in_matrix p then km layer p else 0)"

definition action_for_key :: "(u8 \<Rightarrow> keypos_t \<Rightarrow> u16) \<Rightarrow> u16 \<Rightarrow> u8 \<Rightarrow> keypos_t \<Rightarrow> action_t" where
  "action_for_key km cfg layer p = action_for_keycode cfg (keymap_key_to_keycode km layer p)"

subsection \<open>Decoding\<close>

lemma config_identity:
  assumes "0x100 \<le> k"
  shows "keycode_config cfg k = k"
proof -
  have "k \<noteq> ucast c" for c :: u8
  proof
    assume "k = ucast c"
    moreover have "unat c < 256" using unsigned_less [of c, where ?'a = nat] by simp
    ultimately have "unat k < 256" by (simp add: unsigned_ucast_eq take_bit_nat_eq_self)
    then show False using assms by (simp add: word_le_nat_alt)
  qed
  then show ?thesis by (simp add: keycode_config_def)
qed

lemma bit_ucast_u8 [bitlevel_simps]: "bit (ucast (w :: u8) :: u16) n \<longleftrightarrow> bit w n"
  by (auto simp: bit_ucast_iff dest: bit_u8_less)

lemma kind_id_ACTION: "kind_id (ACTION a p) = (a AND 0x0F) OR ucast (drop_bit 12 p)"
proof (rule bit_word_eqI)
  fix n assume "n < LENGTH(8)"
  then show "bit (kind_id (ACTION a p)) n = bit ((a AND 0x0F) OR ucast (drop_bit 12 p)) n"
    using bit_mask_iff [of 4 n, where ?'a = "8 word"]
    by (auto simp: kind_id_def ACTION_def bit_ucast_iff bit_drop_bit_eq bit_or_iff bit_and_iff bit_push_bit_iff bitlevel_simps
        mask_eq_exp_minus_1 possible_bit_def dest: bit_u8_less bit_imp_le_length)
qed

lemma drop_small: "unat p < 4096 \<Longrightarrow> drop_bit 12 p = (0 :: u16)"
  by (intro word_unat_eq_iff [THEN iffD2]) (simp add: unsigned_drop_bit_eq drop_bit_eq_div [where ?'a = nat] take_bit_nat_eq_self)

lemma kind_id_small: "unat p < 4096 \<Longrightarrow> kind_id (ACTION a p) = a AND 0x0F"
  by (simp add: kind_id_ACTION drop_small)

text \<open>The key codes of the layer and modifier keys, as the keymap author writes them.\<close>

definition TO :: "u8 \<Rightarrow> u16" where "TO layer = 0x5200 OR (ucast layer AND 0x1F)"
definition MO :: "u8 \<Rightarrow> u16" where "MO layer = 0x5220 OR (ucast layer AND 0x1F)"
definition DF :: "u8 \<Rightarrow> u16" where "DF layer = 0x5240 OR (ucast layer AND 0x1F)"
definition TG :: "u8 \<Rightarrow> u16" where "TG layer = 0x5260 OR (ucast layer AND 0x1F)"
definition OSL :: "u8 \<Rightarrow> u16" where "OSL layer = 0x5280 OR (ucast layer AND 0x1F)"
definition OSM :: "u8 \<Rightarrow> u16" where "OSM mods = 0x52A0 OR (ucast mods AND 0x1F)"
definition TT :: "u8 \<Rightarrow> u16" where "TT layer = 0x52C0 OR (ucast layer AND 0x1F)"
definition LM :: "u8 \<Rightarrow> u8 \<Rightarrow> u16" where
  "LM layer mods = 0x5000 OR push_bit 5 (ucast layer AND 0xF) OR (ucast mods AND 0x1F)"
definition LT :: "u8 \<Rightarrow> u8 \<Rightarrow> u16" where "LT layer kc = 0x4000 OR push_bit 8 (ucast layer AND 0xF) OR ucast kc"
definition MT :: "u8 \<Rightarrow> u8 \<Rightarrow> u16" where "MT mods kc = 0x2000 OR push_bit 8 (ucast mods AND 0x1F) OR ucast kc"

lemmas keycode_makers = TO_def MO_def DF_def TG_def OSL_def OSM_def TT_def LM_def LT_def MT_def

definition layer_numbers :: "u8 list" where "layer_numbers = map of_nat [0..<32]"

lemma layer_number_cases: "l < 32 \<Longrightarrow> l \<in> set layer_numbers"
  unfolding layer_numbers_def by (rule word_in_upt) (simp_all add: word_less_nat_alt)

definition selects_layer :: "u8 \<Rightarrow> action_t \<Rightarrow> bool" where
  "selects_layer l a \<longleftrightarrow> kind_id a = ACT_LAYER \<and> \<not> bitop_xbit a \<and>
    push_bit (4 * unat (bitop_part a)) (ucast (bitop_bits a)) = (bitmask (unat l) :: u32)"

definition tap_layer :: "u8 \<Rightarrow> u8 \<Rightarrow> action_t \<Rightarrow> bool" where
  "tap_layer l op a \<longleftrightarrow> (kind_id a = ACT_LAYER_TAP \<or> kind_id a = ACT_LAYER_TAP_EXT) \<and> layer_tap_val a = l \<and> key_code a = op"

lemma tap_layer_decode:
  assumes "l < 32"
  shows "tap_layer l OP_ON_OFF (ACTION_LAYER_MOMENTARY l)" "tap_layer l OP_ONESHOT (ACTION_LAYER_ONESHOT l)"
    "tap_layer l OP_TAP_TOGGLE (ACTION_LAYER_TAP_TOGGLE l)"
    "selects_layer l (ACTION_LAYER_GOTO l) \<and> bitop_op (ACTION_LAYER_GOTO l) = OP_BIT_SET \<and> bitop_on (ACTION_LAYER_GOTO l) = ON_PRESS"
    "selects_layer l (ACTION_LAYER_TOGGLE l) \<and> bitop_op (ACTION_LAYER_TOGGLE l) = OP_BIT_XOR \<and> bitop_on (ACTION_LAYER_TOGGLE l) = ON_RELEASE"
    "selects_layer l (ACTION_DEFAULT_LAYER_SET l) \<and> bitop_op (ACTION_DEFAULT_LAYER_SET l) = OP_BIT_SET \<and> bitop_on (ACTION_DEFAULT_LAYER_SET l) = 0"
proof -
  have "\<forall>l \<in> set layer_numbers. tap_layer l OP_ON_OFF (ACTION_LAYER_MOMENTARY l) \<and> tap_layer l OP_ONESHOT (ACTION_LAYER_ONESHOT l) \<and>
    tap_layer l OP_TAP_TOGGLE (ACTION_LAYER_TAP_TOGGLE l) \<and>
    selects_layer l (ACTION_LAYER_GOTO l) \<and> bitop_op (ACTION_LAYER_GOTO l) = OP_BIT_SET \<and> bitop_on (ACTION_LAYER_GOTO l) = ON_PRESS \<and>
    selects_layer l (ACTION_LAYER_TOGGLE l) \<and> bitop_op (ACTION_LAYER_TOGGLE l) = OP_BIT_XOR \<and> bitop_on (ACTION_LAYER_TOGGLE l) = ON_RELEASE \<and>
    selects_layer l (ACTION_DEFAULT_LAYER_SET l) \<and> bitop_op (ACTION_DEFAULT_LAYER_SET l) = OP_BIT_SET \<and> bitop_on (ACTION_DEFAULT_LAYER_SET l) = 0"
    by code_simp
  then show "tap_layer l OP_ON_OFF (ACTION_LAYER_MOMENTARY l)" "tap_layer l OP_ONESHOT (ACTION_LAYER_ONESHOT l)"
    "tap_layer l OP_TAP_TOGGLE (ACTION_LAYER_TAP_TOGGLE l)"
    "selects_layer l (ACTION_LAYER_GOTO l) \<and> bitop_op (ACTION_LAYER_GOTO l) = OP_BIT_SET \<and> bitop_on (ACTION_LAYER_GOTO l) = ON_PRESS"
    "selects_layer l (ACTION_LAYER_TOGGLE l) \<and> bitop_op (ACTION_LAYER_TOGGLE l) = OP_BIT_XOR \<and> bitop_on (ACTION_LAYER_TOGGLE l) = ON_RELEASE"
    "selects_layer l (ACTION_DEFAULT_LAYER_SET l) \<and> bitop_op (ACTION_DEFAULT_LAYER_SET l) = OP_BIT_SET \<and> bitop_on (ACTION_DEFAULT_LAYER_SET l) = 0"
    using layer_number_cases [OF assms] by blast+
qed

lemma layer_keycodes:
  assumes "l < 32"
  shows "keycode_in 0x5200 0x521F (TO l) \<and> layer_at_0 (TO l) = l" "keycode_in 0x5220 0x523F (MO l) \<and> layer_at_0 (MO l) = l"
    "keycode_in 0x5240 0x525F (DF l) \<and> layer_at_0 (DF l) = l" "keycode_in 0x5260 0x527F (TG l) \<and> layer_at_0 (TG l) = l"
    "keycode_in 0x5280 0x529F (OSL l) \<and> layer_at_0 (OSL l) = l" "keycode_in 0x52C0 0x52DF (TT l) \<and> layer_at_0 (TT l) = l"
    "keycode_in 0x52A0 0x52BF (OSM l) \<and> layer_at_0 (OSM l) = l"
proof -
  have "\<forall>l \<in> set layer_numbers.
    (keycode_in 0x5200 0x521F (TO l) \<and> layer_at_0 (TO l) = l) \<and> (keycode_in 0x5220 0x523F (MO l) \<and> layer_at_0 (MO l) = l) \<and>
    (keycode_in 0x5240 0x525F (DF l) \<and> layer_at_0 (DF l) = l) \<and> (keycode_in 0x5260 0x527F (TG l) \<and> layer_at_0 (TG l) = l) \<and>
    (keycode_in 0x5280 0x529F (OSL l) \<and> layer_at_0 (OSL l) = l) \<and> (keycode_in 0x52C0 0x52DF (TT l) \<and> layer_at_0 (TT l) = l) \<and>
    (keycode_in 0x52A0 0x52BF (OSM l) \<and> layer_at_0 (OSM l) = l)"
    by code_simp
  then show "keycode_in 0x5200 0x521F (TO l) \<and> layer_at_0 (TO l) = l" "keycode_in 0x5220 0x523F (MO l) \<and> layer_at_0 (MO l) = l"
    "keycode_in 0x5240 0x525F (DF l) \<and> layer_at_0 (DF l) = l" "keycode_in 0x5260 0x527F (TG l) \<and> layer_at_0 (TG l) = l"
    "keycode_in 0x5280 0x529F (OSL l) \<and> layer_at_0 (OSL l) = l" "keycode_in 0x52C0 0x52DF (TT l) \<and> layer_at_0 (TT l) = l"
    "keycode_in 0x52A0 0x52BF (OSM l) \<and> layer_at_0 (OSM l) = l"
    using layer_number_cases [OF assms] by blast+
qed

lemma range_nat: "keycode_in lo hi k \<longleftrightarrow> unat lo \<le> unat k \<and> unat k \<le> unat hi"
  by (simp add: keycode_in_def word_le_nat_alt)

lemma action_in_range:
  "keycode_in 0x5200 0x521F k \<Longrightarrow> action_for_keycode cfg k = ACTION_LAYER_GOTO (layer_at_0 k)"
  "keycode_in 0x5220 0x523F k \<Longrightarrow> action_for_keycode cfg k = ACTION_LAYER_MOMENTARY (layer_at_0 k)"
  "keycode_in 0x5240 0x525F k \<Longrightarrow> action_for_keycode cfg k = ACTION_DEFAULT_LAYER_SET (layer_at_0 k)"
  "keycode_in 0x5260 0x527F k \<Longrightarrow> action_for_keycode cfg k = ACTION_LAYER_TOGGLE (layer_at_0 k)"
  "keycode_in 0x5280 0x529F k \<Longrightarrow> action_for_keycode cfg k = ACTION_LAYER_ONESHOT (layer_at_0 k)"
  "keycode_in 0x52A0 0x52BF k \<Longrightarrow> action_for_keycode cfg k = ACTION_MODS_ONESHOT (mod_config cfg (layer_at_0 k))"
  "keycode_in 0x52C0 0x52DF k \<Longrightarrow> action_for_keycode cfg k = ACTION_LAYER_TAP_TOGGLE (layer_at_0 k)"
  "keycode_in 0x5000 0x51FF k \<Longrightarrow> action_for_keycode cfg k =
    ACTION_LAYER_MODS (layer_at_5 k) (layer_mod_param (mod_config cfg (layer_at_0 k)))"
  "keycode_in 0x4000 0x4FFF k \<Longrightarrow> action_for_keycode cfg k = ACTION_LAYER_TAP (layer_at_8 k) (keycode_config cfg (low_code k))"
  "keycode_in 0x2000 0x3FFF k \<Longrightarrow> action_for_keycode cfg k =
    ACTION_MODS_TAP_KEY (mod_config cfg (mods_at_8 k)) (keycode_config cfg (low_code k))"
  "keycode_in 0x0100 0x1FFF k \<Longrightarrow> action_for_keycode cfg k =
    ACTION_MODS_KEY (mod_config cfg (mods_at_8 k)) (keycode_config cfg (low_code k))"
proof -
  have id: "keycode_config cfg k = k" if "0x100 \<le> unat k" using that by (intro config_identity) (simp add: word_le_nat_alt)
  have tr: "k \<noteq> ACTION_TRANSPARENT" if "0x100 \<le> unat k" using that by (auto simp: ACTION_TRANSPARENT_def)
  note d = action_for_keycode_def range_nat keycode_bounds id tr
  show "keycode_in 0x5200 0x521F k \<Longrightarrow> action_for_keycode cfg k = ACTION_LAYER_GOTO (layer_at_0 k)" by (simp add: d)
  show "keycode_in 0x5220 0x523F k \<Longrightarrow> action_for_keycode cfg k = ACTION_LAYER_MOMENTARY (layer_at_0 k)" by (simp add: d)
  show "keycode_in 0x5240 0x525F k \<Longrightarrow> action_for_keycode cfg k = ACTION_DEFAULT_LAYER_SET (layer_at_0 k)" by (simp add: d)
  show "keycode_in 0x5260 0x527F k \<Longrightarrow> action_for_keycode cfg k = ACTION_LAYER_TOGGLE (layer_at_0 k)" by (simp add: d)
  show "keycode_in 0x5280 0x529F k \<Longrightarrow> action_for_keycode cfg k = ACTION_LAYER_ONESHOT (layer_at_0 k)" by (simp add: d)
  show "keycode_in 0x52A0 0x52BF k \<Longrightarrow> action_for_keycode cfg k = ACTION_MODS_ONESHOT (mod_config cfg (layer_at_0 k))" by (simp add: d)
  show "keycode_in 0x52C0 0x52DF k \<Longrightarrow> action_for_keycode cfg k = ACTION_LAYER_TAP_TOGGLE (layer_at_0 k)" by (simp add: d)
  show "keycode_in 0x5000 0x51FF k \<Longrightarrow> action_for_keycode cfg k =
    ACTION_LAYER_MODS (layer_at_5 k) (layer_mod_param (mod_config cfg (layer_at_0 k)))" by (simp add: d)
  show "keycode_in 0x4000 0x4FFF k \<Longrightarrow> action_for_keycode cfg k = ACTION_LAYER_TAP (layer_at_8 k) (keycode_config cfg (low_code k))"
    by (simp add: d)
  show "keycode_in 0x2000 0x3FFF k \<Longrightarrow> action_for_keycode cfg k =
    ACTION_MODS_TAP_KEY (mod_config cfg (mods_at_8 k)) (keycode_config cfg (low_code k))" by (simp add: d)
  show "keycode_in 0x0100 0x1FFF k \<Longrightarrow> action_for_keycode cfg k =
    ACTION_MODS_KEY (mod_config cfg (mods_at_8 k)) (keycode_config cfg (low_code k))" by (simp add: d)
qed

subsection \<open>Properties\<close>

definition valid_action :: "action_t \<Rightarrow> bool" where
  "valid_action a \<longleftrightarrow>
    kind_id a \<in> {ACT_LMODS, ACT_RMODS, ACT_LMODS_TAP, ACT_RMODS_TAP, ACT_USAGE, ACT_MOUSEKEY, ACT_LAYER, ACT_LAYER_MODS,
      ACT_LAYER_TAP, ACT_LAYER_TAP_EXT} \<and>
    (kind_id a = ACT_USAGE \<longrightarrow> usage_page a = PAGE_SYSTEM \<or> usage_page a = PAGE_CONSUMER) \<and>
    (kind_id a = ACT_MOUSEKEY \<longrightarrow> IS_MOUSE_KEYCODE (key_code a)) \<and>
    (kind_id a = ACT_LAYER \<longrightarrow> (\<exists>l < 32. selects_layer l a))"

lemma unat_or_less: "unat (x :: u16) < 2 ^ n \<Longrightarrow> unat y < 2 ^ n \<Longrightarrow> unat (x OR y) < 2 ^ n"
  by (simp only: unsigned_or_eq take_bit_nat_eq_self_iff [symmetric] take_bit_or)

lemma unat_and_less: "unat m < 2 ^ n \<Longrightarrow> unat (x AND m :: u16) < 2 ^ n"
  by (meson le_less_trans word_and_le1 word_le_nat_alt)

lemma unat_ucast_byte: "unat (ucast (c :: u8) :: u16) = unat c"
proof -
  have "unat c < 256" using unsigned_less [of c, where ?'a = nat] by simp
  then show ?thesis by (simp add: unsigned_ucast_eq take_bit_nat_eq_self)
qed

lemma keycode_config_low: "unat k < 256 \<Longrightarrow> unat (keycode_config cfg k) < 256"
  by (simp add: keycode_config_def unat_ucast_byte remapped_codes keycode_bounds)

lemma unat_low_code: "unat (low_code k) < 256"
  using unat_and_less [of "0xFF" 8 k] by (simp add: low_code_def)

lemma kind_id_two:
  assumes "unat p < 8192"
  shows "kind_id (ACTION a p) = a AND 0x0F \<or> kind_id (ACTION a p) = (a AND 0x0F) OR 1"
proof -
  have "unat (drop_bit 12 p) = unat p div 4096" using assms
    by (simp add: unsigned_drop_bit_eq drop_bit_eq_div [where ?'a = nat] take_bit_nat_eq_self)
  then have "unat (drop_bit 12 p) = 0 \<or> unat (drop_bit 12 p) = 1" using assms by auto
  then have "drop_bit 12 p = 0 \<or> drop_bit 12 p = 1" by (metis unat_0 unat_1 word_unat_eq_iff)
  then show ?thesis by (auto simp: kind_id_ACTION)
qed

lemma unat_shift_less:
  assumes "unat (x :: u16) < 2 ^ n"
  shows "unat (push_bit m x) < 2 ^ (n + m)"
proof -
  have "unat (push_bit m x) = take_bit 16 (unat x * 2 ^ m)"
    by (simp add: unsigned_push_bit_eq push_bit_eq_mult [where ?'a = nat])
  also have "\<dots> \<le> unat x * 2 ^ m" by (rule take_bit_nat_less_eq_self)
  also have "\<dots> < 2 ^ n * 2 ^ m" using assms by (intro mult_strict_right_mono) simp_all
  finally show ?thesis by (simp add: power_add)
qed

lemma kind_table [simp]:
  "ACT_LMODS AND 0x0F = ACT_LMODS" "ACT_LMODS OR 1 = ACT_RMODS" "ACT_LMODS_TAP AND 0x0F = ACT_LMODS_TAP" "ACT_LMODS_TAP OR 1 = ACT_RMODS_TAP"
  "ACT_USAGE AND 0x0F = ACT_USAGE" "ACT_MOUSEKEY AND 0x0F = ACT_MOUSEKEY" "ACT_LAYER AND 0x0F = ACT_LAYER"
  "ACT_LAYER_MODS AND 0x0F = ACT_LAYER_MODS" "ACT_LAYER_TAP AND 0x0F = ACT_LAYER_TAP" "ACT_LAYER_TAP OR 1 = ACT_LAYER_TAP_EXT"
  by (simp_all add: action_kinds)

lemma valid_by_kind:
  "kind_id a \<in> {ACT_LMODS, ACT_RMODS, ACT_LMODS_TAP, ACT_RMODS_TAP, ACT_LAYER_MODS, ACT_LAYER_TAP, ACT_LAYER_TAP_EXT} \<Longrightarrow> valid_action a"
  by (auto simp: valid_action_def action_kinds)

lemma valid_mods:
  assumes "unat c < 256"
  shows "valid_action (ACTION_MODS_KEY md c)" "valid_action (ACTION_MODS_TAP_KEY md c)" "valid_action (ACTION_KEY c)"
    "valid_action (ACTION_MODS_ONESHOT md)"
proof -
  have "unat (push_bit 8 (ucast md AND 0x1F) :: u16) < 8192"
    using unat_shift_less [of "ucast md AND 0x1F" 5 8] unat_and_less [of "0x1F" 5] by simp
  then have p: "unat (push_bit 8 (ucast md AND 0x1F) OR c) < 8192" if "unat c < 256" for c :: u16
    using that unat_or_less [of _ 13 c] by simp
  show "valid_action (ACTION_MODS_KEY md c)" "valid_action (ACTION_MODS_TAP_KEY md c)"
    unfolding ACTION_MODS_KEY_def ACTION_MODS_TAP_KEY_def
    using kind_id_two [OF p [OF assms], of ACT_LMODS] kind_id_two [OF p [OF assms], of ACT_LMODS_TAP]
    by (auto intro!: valid_by_kind simp del: push_bit_and)
  show "valid_action (ACTION_KEY c)"
    using kind_id_small [of c ACT_LMODS] assms by (auto intro!: valid_by_kind simp: ACTION_KEY_def)
  show "valid_action (ACTION_MODS_ONESHOT md)"
    unfolding ACTION_MODS_ONESHOT_def
    using kind_id_two [OF p [of "ucast MODS_ONESHOT"], of ACT_LMODS_TAP]
    by (auto intro!: valid_by_kind simp: MODS_ONESHOT_def simp del: push_bit_and)
qed

lemma valid_layer_tap:
  assumes "l < 32" "unat c < 256"
  shows "valid_action (ACTION_LAYER_TAP l c)"
proof -
  have "unat (ucast l :: u16) < 2 ^ 5" using assms(1) by (simp add: unat_ucast_byte word_less_nat_alt)
  then have "unat (push_bit 8 (ucast l) :: u16) < 8192" using unat_shift_less [of "ucast l" 5 8] by simp
  then have "unat (push_bit 8 (ucast l) OR c) < 8192" using assms(2) unat_or_less [of _ 13 c] by simp
  then show ?thesis
    using kind_id_two [of "push_bit 8 (ucast l) OR c" ACT_LAYER_TAP] by (auto intro!: valid_by_kind simp: ACTION_LAYER_TAP_def)
qed

lemma valid_layer_mods:
  assumes "l < 16" "md < 32"
  shows "valid_action (ACTION_LAYER_MODS l (layer_mod_param md))"
proof -
  have "unat (ucast l :: u16) < 2 ^ 4" using assms(1) by (simp add: unat_ucast_byte word_less_nat_alt)
  then have a: "unat (push_bit 8 (ucast l) :: u16) < 2 ^ 12" using unat_shift_less [of "ucast l" 4 8] by simp
  have "unat (ucast md :: u16) < 2 ^ 5" using assms(2) by (simp add: unat_ucast_byte word_less_nat_alt)
  then have "unat (layer_mod_param md) < 2 ^ 12"
    using unat_shift_less [of "ucast md" 5 4] by (simp add: layer_mod_param_def)
  then have "unat (push_bit 8 (ucast l) OR layer_mod_param md) < 4096" using unat_or_less [OF a] by simp
  then show ?thesis
    using kind_id_small [of "push_bit 8 (ucast l) OR layer_mod_param md" ACT_LAYER_MODS]
    by (auto intro!: valid_by_kind simp: ACTION_LAYER_MODS_def)
qed

lemma valid_usages:
  "valid_action (ACTION_USAGE_SYSTEM (KEYCODE2SYSTEM k))" "valid_action (ACTION_USAGE_CONSUMER (KEYCODE2CONSUMER k))"
proof -
  have "\<forall>u \<in> set (0 # map snd consumer_usages). kind_id (ACTION_USAGE_CONSUMER u) = ACT_USAGE \<and> usage_page (ACTION_USAGE_CONSUMER u) = PAGE_CONSUMER"
    by code_simp
  moreover have "KEYCODE2CONSUMER k \<in> set (0 # map snd consumer_usages)"
    by (cases "map_of consumer_usages k") (force simp: KEYCODE2CONSUMER_def dest: map_of_SomeD)+
  ultimately show "valid_action (ACTION_USAGE_CONSUMER (KEYCODE2CONSUMER k))"
    by (auto simp: valid_action_def action_kinds)
  have "\<forall>u \<in> set [0, 0x81, 0x82, 0x83]. kind_id (ACTION_USAGE_SYSTEM u) = ACT_USAGE \<and> usage_page (ACTION_USAGE_SYSTEM u) = PAGE_SYSTEM"
    by code_simp
  moreover have "KEYCODE2SYSTEM k \<in> set [0, 0x81, 0x82, 0x83]" by (simp add: KEYCODE2SYSTEM_def)
  ultimately show "valid_action (ACTION_USAGE_SYSTEM (KEYCODE2SYSTEM k))"
    by (auto simp: valid_action_def action_kinds)
qed

lemma selects_kind: "l < 32 \<Longrightarrow> selects_layer l a \<Longrightarrow> valid_action a"
  by (auto simp: valid_action_def selects_layer_def action_kinds)

lemma layer_fields_small: "layer_at_0 k < 32" "layer_at_8 k < 16" "layer_at_5 k < 16"
proof -
  have "unat (k AND 0x1F) < 32" "unat (drop_bit 8 k AND 0x0F) < 16" "unat (drop_bit 5 k AND 0x0F) < 16"
    using unat_and_less [of "0x1F" 5 k] unat_and_less [of "0x0F" 4 "drop_bit 8 k"] unat_and_less [of "0x0F" 4 "drop_bit 5 k"] by simp_all
  then show "layer_at_0 k < 32" "layer_at_8 k < 16" "layer_at_5 k < 16"
    by (simp_all add: keycode_fields word_less_nat_alt unsigned_ucast_eq take_bit_nat_eq_self)
qed

lemma mod_config_small:
  assumes "md < 32"
  shows "mod_config cfg md < 32"
proof -
  have t: "\<forall>m \<in> set layer_numbers. swap_with_gui MOD_LGUI MOD_RGUI MOD_LALT MOD_RALT m < 32 \<and>
    swap_with_gui MOD_RGUI MOD_RGUI MOD_RALT MOD_RALT m < 32 \<and> swap_with_gui MOD_LGUI MOD_RGUI MOD_LCTL MOD_RCTL m < 32 \<and>
    swap_with_gui MOD_RGUI MOD_RGUI MOD_RCTL MOD_RCTL m < 32 \<and> (m AND NOT MOD_LGUI) AND NOT MOD_RGUI < 32"
    by code_simp
  have t: "swap_with_gui MOD_LGUI MOD_RGUI MOD_LALT MOD_RALT m < 32" "swap_with_gui MOD_RGUI MOD_RGUI MOD_RALT MOD_RALT m < 32"
    "swap_with_gui MOD_LGUI MOD_RGUI MOD_LCTL MOD_RCTL m < 32" "swap_with_gui MOD_RGUI MOD_RGUI MOD_RCTL MOD_RCTL m < 32"
    "(m AND NOT MOD_LGUI) AND NOT MOD_RGUI < 32" if "m < 32" for m
    using bspec [OF t layer_number_cases [OF that]] by blast+
  then show ?thesis using assms by (simp add: mod_config_def Let_def t split del: if_split) (simp add: t)
qed

lemma keycode_valid: "valid_action (action_for_keycode cfg k)"
proof -
  note c = keycode_config_low [OF unat_low_code]
  have basic: "unat k' < 256" if "keycode_in (ucast KC_A) (ucast KC_EXSEL) k' \<or> keycode_in (ucast KC_LEFT_CTRL) (ucast KC_RIGHT_GUI) k'" for k'
    using that by (auto simp: range_nat keycode_bounds)
  have mouse: "valid_action (ACTION_MOUSEKEY k')" if "keycode_in (ucast KC_MS_UP) (ucast KC_MS_ACCEL2) k'" for k'
  proof -
    have u: "unat KC_MS_UP \<le> unat k'" "unat k' \<le> unat KC_MS_ACCEL2" using that by (simp_all add: range_nat unat_ucast_byte)
    then have "kind_id (ACTION_MOUSEKEY k') = ACT_MOUSEKEY"
      using kind_id_small [of k' ACT_MOUSEKEY] by (simp add: ACTION_MOUSEKEY_def keycode_bounds)
    moreover have "key_code (ACTION_MOUSEKEY k') = ucast k'"
      by (rule bit_word_eqI) (auto simp: key_code_def ACTION_MOUSEKEY_def ACTION_def bit_ucast_iff bit_or_iff bit_push_bit_iff)
    moreover have "unat (ucast k' :: u8) = unat k'"
      using u by (simp add: unsigned_ucast_eq take_bit_nat_eq_self keycode_bounds)
    ultimately show ?thesis using u by (auto simp: valid_action_def action_kinds IS_MOUSE_KEYCODE_def word_le_nat_alt)
  qed
  have one: "valid_action ACTION_TRANSPARENT" "valid_action ACTION_NO"
    by (simp_all add: valid_by_kind kind_id_def ACTION_TRANSPARENT_def ACTION_NO_def action_kinds)
  have sel: "valid_action (ACTION_LAYER_GOTO (layer_at_0 k'))" "valid_action (ACTION_LAYER_TOGGLE (layer_at_0 k'))"
    "valid_action (ACTION_DEFAULT_LAYER_SET (layer_at_0 k'))" for k'
    using tap_layer_decode(4-6) [OF layer_fields_small(1), of k'] by (auto intro: selects_kind [OF layer_fields_small(1)])
  have small: "l < 16 \<Longrightarrow> l < 32" for l :: u8 by (simp add: word_less_nat_alt)
  show ?thesis
    unfolding action_for_keycode_def Let_def
    by (simp add: basic mouse one sel c valid_mods(1-3) valid_mods(4) [of 0, simplified] valid_usages valid_layer_mods mod_config_small layer_fields_small
        small [OF layer_fields_small(2)] valid_layer_tap ACTION_LAYER_MOMENTARY_def ACTION_LAYER_ONESHOT_def
        ACTION_LAYER_TAP_TOGGLE_def OP_ON_OFF_def OP_ONESHOT_def OP_TAP_TOGGLE_def)
qed


text \<open>The layer keys reach the layer they name: for each of the 32 layers the action of \<open>MO\<close>, \<open>OSL\<close> and \<open>TT\<close> carries
  the layer and its operation, and the actions of \<open>TO\<close>, \<open>TG\<close> and \<open>DF\<close> select its bit with their operation and edge.\<close>
lemma layer_keys_name_their_layer:
  assumes "l < 32"
  shows "tap_layer l OP_ON_OFF (action_for_keycode cfg (MO l)) \<and> tap_layer l OP_ONESHOT (action_for_keycode cfg (OSL l)) \<and>
    tap_layer l OP_TAP_TOGGLE (action_for_keycode cfg (TT l)) \<and>
    (let a = action_for_keycode cfg (TO l) in selects_layer l a \<and> bitop_op a = OP_BIT_SET \<and> bitop_on a = ON_PRESS) \<and>
    (let a = action_for_keycode cfg (TG l) in selects_layer l a \<and> bitop_op a = OP_BIT_XOR \<and> bitop_on a = ON_RELEASE) \<and>
    (let a = action_for_keycode cfg (DF l) in selects_layer l a \<and> bitop_op a = OP_BIT_SET \<and> bitop_on a = 0)"
  using layer_keycodes [OF assms] tap_layer_decode [OF assms] by (simp add: action_in_range)

text \<open>With the GUI keys disabled, the right-hand flag is cleared together with GUI, so every right-hand modifier of a
  one-shot or modified key becomes the left-hand one.\<close>
lemma no_gui_loses_right_hand:
  assumes "no_gui cfg" "\<not> swap_lalt_lgui cfg" "\<not> swap_ralt_rgui cfg" "\<not> swap_lctl_lgui cfg" "\<not> swap_rctl_rgui cfg"
  shows "action_for_keycode cfg (OSM MOD_RSFT) = action_for_keycode cfg (OSM MOD_LSFT) \<and> mod_config cfg md = md AND NOT 0x18"
proof -
  have "mod_config cfg md = md AND NOT 0x18" for md
    using assms by (simp add: mod_config_def five_bit_mods and.assoc)
  moreover have "MOD_RSFT < 32" "MOD_LSFT < 32" by (simp_all add: five_bit_mods)
  note layer_keycodes(7) [OF this(1)] layer_keycodes(7) [OF this(2)]
  ultimately show ?thesis by (simp add: action_in_range five_bit_mods)
qed

lemma layer_mod_keycodes:
  assumes "l < 16" "m < 32"
  shows "keycode_in 0x5000 0x51FF (LM l m) \<and> layer_at_5 (LM l m) = l \<and> layer_at_0 (LM l m) = m"
proof -
  have "\<forall>l \<in> set (take 16 layer_numbers). \<forall>m \<in> set layer_numbers.
      keycode_in 0x5000 0x51FF (LM l m) \<and> layer_at_5 (LM l m) = l \<and> layer_at_0 (LM l m) = m"
    by code_simp
  moreover have "l \<in> set (map of_nat [0..<16])" using assms(1) by (intro word_in_upt) (simp_all add: word_less_nat_alt)
  then have "l \<in> set (take 16 layer_numbers)" by (simp add: layer_numbers_def take_map)
  ultimately show ?thesis using layer_number_cases [OF assms(2)] by blast
qed

text \<open>A layer-mod key with right-hand modifiers turns on the next layer instead of an even one: the modifiers are
  shifted as an integer, and the right-hand flag lands in the lowest bit of the layer.\<close>
lemma layer_mod_right_hand_leaves_layer:
  assumes "l < 16" "m < 32" "bit (mod_config cfg m) 4"
  shows "layer_mods_layer (action_for_keycode cfg (LM l m)) = l OR 1 \<and>
    layer_mods_mods (action_for_keycode cfg (LM l m)) = push_bit 4 (mod_config cfg m)"
proof -
  have d: "\<forall>l \<in> set (take 16 layer_numbers). \<forall>m \<in> set (drop 16 layer_numbers).
      layer_mods_layer (ACTION_LAYER_MODS l (layer_mod_param m)) = l OR 1 \<and>
      layer_mods_mods (ACTION_LAYER_MODS l (layer_mod_param m)) = push_bit 4 m"
    by code_simp
  have l: "l \<in> set (take 16 layer_numbers)"
    using word_in_upt [of 0 l 16] assms(1) by (simp add: word_less_nat_alt layer_numbers_def take_map)
  define md where "md = mod_config cfg m"
  have md: "md < 32" "bit md 4" using mod_config_small [OF assms(2)] assms(3) by (simp_all add: md_def)
  have "md \<in> set (drop 16 layer_numbers)"
  proof -
    have "\<forall>m \<in> set layer_numbers. bit m 4 \<longrightarrow> m \<in> set (drop 16 layer_numbers)" by code_simp
    then show ?thesis using layer_number_cases [OF md(1)] md(2) by blast
  qed
  with d l have "layer_mods_layer (ACTION_LAYER_MODS l (layer_mod_param md)) = l OR 1 \<and>
      layer_mods_mods (ACTION_LAYER_MODS l (layer_mod_param md)) = push_bit 4 md" by blast
  then show ?thesis using layer_mod_keycodes [OF assms(1,2)] by (simp add: action_in_range md_def)
qed

end
