(* ===== verification/Qmk_Process_Keys.thy ===== *)
theory Qmk_Process_Keys
  imports Qmk_Keymap
begin

text \<open>
  Key events and their records (\<^verbatim>\<open>quantum/keyboard.h\<close>, \<^verbatim>\<open>quantum/action.h\<close>), the state of the key pipeline, and the
  handlers every key code passes through before it becomes an action (\<^verbatim>\<open>process_record_quantum\<close> of
  \<^verbatim>\<open>quantum/quantum.c\<close>): the features of this build, which are the macros of VIA, the keys of the keyboard, the
  backlight keys, space cadet, magic, grave escape and the tri layer.
\<close>

subsection \<open>Events and records\<close>

type_synonym u4 = "4 word"

record keyevent_t =
  event_key :: keypos_t
  event_pressed :: bool
  event_time :: u16

record tap_t =
  interrupted :: bool
  tap_count :: u4

record keyrecord_t =
  event :: keyevent_t
  tap :: tap_t

definition KEYLOC_TICK :: u8 where "KEYLOC_TICK = 255"

definition KEYEQ :: "keypos_t \<Rightarrow> keypos_t \<Rightarrow> bool" where
  "KEYEQ p q \<longleftrightarrow> row p = row q \<and> col p = col q"

definition IS_NOEVENT :: "keyevent_t \<Rightarrow> bool" where
  "IS_NOEVENT e \<longleftrightarrow> event_time e = 0 \<or> (row (event_key e) = KEYLOC_TICK \<and> col (event_key e) = KEYLOC_TICK)"
definition IS_EVENT :: "keyevent_t \<Rightarrow> bool" where "IS_EVENT e \<longleftrightarrow> \<not> IS_NOEVENT e"
definition IS_PRESSED :: "keyevent_t \<Rightarrow> bool" where "IS_PRESSED e \<longleftrightarrow> IS_EVENT e \<and> event_pressed e"
definition IS_RELEASED :: "keyevent_t \<Rightarrow> bool" where "IS_RELEASED e \<longleftrightarrow> IS_EVENT e \<and> \<not> event_pressed e"

definition MAKE_KEYEVENT :: "u16 \<Rightarrow> u8 \<Rightarrow> u8 \<Rightarrow> bool \<Rightarrow> keyevent_t" where
  "MAKE_KEYEVENT now r c press = \<lparr>event_key = \<lparr>col = c, row = r\<rparr>, event_pressed = press, event_time = now OR 1\<rparr>"
definition TICK_EVENT :: "u16 \<Rightarrow> keyevent_t" where "TICK_EVENT now = MAKE_KEYEVENT now KEYLOC_TICK KEYLOC_TICK False"

text \<open>\<^verbatim>\<open>(keyrecord_t){}\<close>, and a record for an event.\<close>

definition no_tap :: tap_t where "no_tap = \<lparr>interrupted = False, tap_count = 0\<rparr>"
definition record_for :: "keyevent_t \<Rightarrow> keyrecord_t" where "record_for e = \<lparr>event = e, tap = no_tap\<rparr>"
definition no_record :: keyrecord_t where
  "no_record = record_for \<lparr>event_key = \<lparr>col = 0, row = 0\<rparr>, event_pressed = False, event_time = 0\<rparr>"

subsection \<open>State and environment\<close>

record kb_st =
  act :: action_st
  grave_esc_was_shifted :: bool
  sc_last :: u8
  sc_timer :: u16
  tri_layer_lower_layer :: u8
  tri_layer_upper_layer :: u8
  tri_layer_adjust_layer :: u8
  tapping_key :: keyrecord_t
  waiting_buffer :: "keyrecord_t list"
  waiting_buffer_head :: u8
  waiting_buffer_tail :: u8

text \<open>
  What the pipeline takes from elsewhere: the keymap, the compile-time options of the tapping code, the settings word
  that was in the EEPROM at the start, the state of the host's LEDs, the keyboard's own handler, and the
  sending of a macro.
\<close>

record kb_env =
  keycode_at :: "u8 \<Rightarrow> keypos_t \<Rightarrow> u16"
  oneshot_timeout :: u16
  tapping_term :: u16
  quick_tap_term :: u16
  permissive_hold :: bool
  hold_on_other_key_press :: bool
  ignore_mod_tap_interrupt :: bool
  stored_config :: u16
  host_leds :: "host_driver_t \<Rightarrow> u8"
  process_record_kb :: "u16 \<Rightarrow> keyrecord_t \<Rightarrow> kb_st \<Rightarrow> bool \<times> kb_st"
  macro_send :: "u8 \<Rightarrow> action_st \<Rightarrow> action_st"

definition map_act :: "(action_st \<Rightarrow> action_st) \<Rightarrow> kb_st \<Rightarrow> kb_st" where
  "map_act f s = s\<lparr>act := f (act s)\<rparr>"

definition map_layers :: "(layer_st \<Rightarrow> layer_st) \<Rightarrow> action_st \<Rightarrow> action_st" where
  "map_layers f a = a\<lparr>layers := f (layers a)\<rparr>"

definition the_keymap :: "kb_env \<Rightarrow> action_st \<Rightarrow> keymap_fun" where
  "the_keymap env a = action_for_key (keycode_at env) (keymap_config a)"

subsection \<open>Key codes with modifiers\<close>

definition extract_mod_bits :: "u16 \<Rightarrow> u8" where
  "extract_mod_bits code =
    (let m = (if keycode_in 0x0100 0x1FFF code
      then (\<lambda>b i. if bit code b then bitmask (if bit code 12 then i + 4 else i) else 0) else (\<lambda>_ _. 0)) in
     m 8 0 OR m 9 1 OR m 10 2 OR m 11 3)"

definition is_modifier_code16 :: "u16 \<Rightarrow> bool" where
  "is_modifier_code16 code \<longleftrightarrow> ucast KC_LEFT_CTRL \<le> code \<and> code \<le> ucast KC_RIGHT_GUI"

definition register_code16 :: "u16 \<Rightarrow> u16 \<Rightarrow> u16 \<Rightarrow> action_st \<Rightarrow> action_st" where
  "register_code16 T now code s =
    (let s = (if is_modifier_code16 code \<or> code = 0 then register_mods T now (extract_mod_bits code) s
              else register_weak_mods T now (extract_mod_bits code) s) in
     register_code T now (ucast code) s)"

definition unregister_code16 :: "u16 \<Rightarrow> u16 \<Rightarrow> u16 \<Rightarrow> action_st \<Rightarrow> action_st" where
  "unregister_code16 T now code s =
    (let s = unregister_code T now (ucast code) s in
     if is_modifier_code16 code \<or> code = 0 then unregister_mods T now (extract_mod_bits code) s
     else unregister_weak_mods T now (extract_mod_bits code) s)"

definition tap_code16_delay :: "u16 \<Rightarrow> u16 \<Rightarrow> u16 \<Rightarrow> u16 \<Rightarrow> action_st \<Rightarrow> action_st" where
  "tap_code16_delay T now code delay s = unregister_code16 T (now + delay) code (register_code16 T now code s)"

definition tap_code16 :: "u16 \<Rightarrow> u16 \<Rightarrow> u16 \<Rightarrow> action_st \<Rightarrow> action_st" where
  "tap_code16 T now code s =
    tap_code16_delay T now code (if code = ucast KC_CAPS_LOCK then TAP_HOLD_CAPS_DELAY else TAP_CODE_DELAY) s"

subsection \<open>The key code of an event\<close>

definition get_event_keycode :: "kb_env \<Rightarrow> keyevent_t \<Rightarrow> bool \<Rightarrow> action_st \<Rightarrow> u16 \<times> action_st" where
  "get_event_keycode env e update_layer_cache a =
    (if \<not> disable_action_cache (layers a) then
       (if event_pressed e \<and> update_layer_cache then
          let layer = layer_switch_get_layer (the_keymap env a) (event_key e) (layers a) in
          (keymap_key_to_keycode (keycode_at env) layer (event_key e), map_layers (update_source_layers_cache (event_key e) layer) a)
        else (keymap_key_to_keycode (keycode_at env) (read_source_layers_cache (event_key e) (layers a)) (event_key e), a))
     else (keymap_key_to_keycode (keycode_at env) (layer_switch_get_layer (the_keymap env a) (event_key e) (layers a)) (event_key e), a))"

definition get_record_keycode :: "kb_env \<Rightarrow> keyrecord_t \<Rightarrow> bool \<Rightarrow> action_st \<Rightarrow> u16 \<times> action_st" where
  "get_record_keycode env r update_layer_cache a = get_event_keycode env (event r) update_layer_cache a"

subsection \<open>Keys of the tri layer\<close>

definition QK_TRI_LAYER_LOWER :: u16 where "QK_TRI_LAYER_LOWER = 0x7C77"
definition QK_TRI_LAYER_UPPER :: u16 where "QK_TRI_LAYER_UPPER = 0x7C78"
definition TRI_LAYER_LOWER_LAYER :: u8 where "TRI_LAYER_LOWER_LAYER = 1"
definition TRI_LAYER_UPPER_LAYER :: u8 where "TRI_LAYER_UPPER_LAYER = 2"
definition TRI_LAYER_ADJUST_LAYER :: u8 where "TRI_LAYER_ADJUST_LAYER = 3"

definition set_tri_layer_lower_layer :: "u8 \<Rightarrow> kb_st \<Rightarrow> kb_st" where
  "set_tri_layer_lower_layer layer s = s\<lparr>tri_layer_lower_layer := layer\<rparr>"
definition set_tri_layer_upper_layer :: "u8 \<Rightarrow> kb_st \<Rightarrow> kb_st" where
  "set_tri_layer_upper_layer layer s = s\<lparr>tri_layer_upper_layer := layer\<rparr>"
definition set_tri_layer_adjust_layer :: "u8 \<Rightarrow> kb_st \<Rightarrow> kb_st" where
  "set_tri_layer_adjust_layer layer s = s\<lparr>tri_layer_adjust_layer := layer\<rparr>"
definition set_tri_layer_layers :: "u8 \<Rightarrow> u8 \<Rightarrow> u8 \<Rightarrow> kb_st \<Rightarrow> kb_st" where
  "set_tri_layer_layers lower raise adjust s =
    s\<lparr>tri_layer_lower_layer := lower, tri_layer_upper_layer := raise, tri_layer_adjust_layer := adjust\<rparr>"

definition update_tri_layers :: "kb_st \<Rightarrow> kb_st" where
  "update_tri_layers s =
    map_act (map_layers (update_tri_layer (tri_layer_lower_layer s) (tri_layer_upper_layer s) (tri_layer_adjust_layer s))) s"

definition process_tri_layer :: "u16 \<Rightarrow> keyrecord_t \<Rightarrow> kb_st \<Rightarrow> bool \<times> kb_st" where
  "process_tri_layer keycode r s =
    (if keycode = QK_TRI_LAYER_LOWER then
       (False, update_tri_layers
         (map_act (map_layers ((if event_pressed (event r) then layer_on else layer_off) (tri_layer_lower_layer s))) s))
     else if keycode = QK_TRI_LAYER_UPPER then
       (False, update_tri_layers
         (map_act (map_layers ((if event_pressed (event r) then layer_on else layer_off) (tri_layer_upper_layer s))) s))
     else (True, s))"

subsection \<open>Grave escape\<close>

definition QK_GRAVE_ESCAPE :: u16 where "QK_GRAVE_ESCAPE = 0x7C16"
definition MOD_MASK_SG :: u8 where "MOD_MASK_SG = 0xAA"

definition process_grave_esc :: "kb_env \<Rightarrow> u16 \<Rightarrow> u16 \<Rightarrow> keyrecord_t \<Rightarrow> kb_st \<Rightarrow> bool \<times> kb_st" where
  "process_grave_esc env now keycode r s =
    (if keycode = QK_GRAVE_ESCAPE then
       let shifted = (get_mods (act s) AND MOD_MASK_SG \<noteq> 0);
           s = (if event_pressed (event r)
             then map_act (add_key (if shifted then KC_GRAVE else KC_ESCAPE)) (s\<lparr>grave_esc_was_shifted := shifted\<rparr>)
             else map_act (del_key (if grave_esc_was_shifted s then KC_GRAVE else KC_ESCAPE)) s) in
       (False, map_act (send_keyboard_report (oneshot_timeout env) now) s)
     else (True, s))"

subsection \<open>Space cadet\<close>

definition KC_9 :: u8 where "KC_9 = 0x26"
definition KC_0 :: u8 where "KC_0 = 0x27"
definition KC_ENTER :: u8 where "KC_ENTER = 0x28"

definition on_modifier :: "(u8 \<Rightarrow> action_st \<Rightarrow> action_st) \<Rightarrow> u8 \<Rightarrow> kb_st \<Rightarrow> kb_st" where
  "on_modifier f code s = (if IS_MODIFIER_KEYCODE code then map_act (f (MOD_BIT code)) s else s)"

definition perform_space_cadet :: "kb_env \<Rightarrow> u16 \<Rightarrow> keyrecord_t \<Rightarrow> u8 \<Rightarrow> u8 \<Rightarrow> u8 \<Rightarrow> kb_st \<Rightarrow> kb_st" where
  "perform_space_cadet env now r holdMod tapMod keycode s =
    (let T = oneshot_timeout env in
     if event_pressed (event r) then on_modifier (register_mods T now) holdMod (s\<lparr>sc_last := holdMod, sc_timer := now\<rparr>)
     else if sc_last s = holdMod \<and> TIMER_DIFF_16 now (sc_timer s) < tapping_term env then
       let s = (if holdMod \<noteq> tapMod then on_modifier (register_mods T now) tapMod (on_modifier (unregister_mods T now) holdMod s) else s);
           s = map_act (tap_code T now keycode) s in
       on_modifier (unregister_mods T now) tapMod s
     else on_modifier (unregister_mods T now) holdMod s)"

text \<open>Key code, modifier when held, modifier and key when tapped; \<^verbatim>\<open>KC_TRANSPARENT\<close> is not a modifier.\<close>

definition space_cadet_keys :: "(u16 \<times> u8 \<times> u8 \<times> u8) list" where
  "space_cadet_keys =
    [(0x7C1A, KC_LEFT_SHIFT, KC_LEFT_SHIFT, KC_9), (0x7C1B, KC_RIGHT_SHIFT, KC_RIGHT_SHIFT, KC_0),
     (0x7C18, KC_LEFT_CTRL, KC_LEFT_SHIFT, KC_9), (0x7C19, KC_RIGHT_CTRL, KC_RIGHT_SHIFT, KC_0),
     (0x7C1C, KC_LEFT_ALT, KC_LEFT_SHIFT, KC_9), (0x7C1D, KC_RIGHT_ALT, KC_RIGHT_SHIFT, KC_0),
     (0x7C1E, KC_RIGHT_SHIFT, 1, KC_ENTER)]"

definition process_space_cadet :: "kb_env \<Rightarrow> u16 \<Rightarrow> u16 \<Rightarrow> keyrecord_t \<Rightarrow> kb_st \<Rightarrow> bool \<times> kb_st" where
  "process_space_cadet env now keycode r s =
    (case map_of space_cadet_keys keycode of
      Some (holdMod, tapMod, k) \<Rightarrow> (False, perform_space_cadet env now r holdMod tapMod k s)
    | None \<Rightarrow> (True, if event_pressed (event r) then s\<lparr>sc_last := 0\<rparr> else s))"

subsection \<open>Magic\<close>

definition QK_MAGIC_SWAP_CONTROL_CAPS_LOCK :: u16 where "QK_MAGIC_SWAP_CONTROL_CAPS_LOCK = 0x7000"
definition QK_MAGIC_UNSWAP_CONTROL_CAPS_LOCK :: u16 where "QK_MAGIC_UNSWAP_CONTROL_CAPS_LOCK = 0x7001"
definition QK_MAGIC_TOGGLE_CONTROL_CAPS_LOCK :: u16 where "QK_MAGIC_TOGGLE_CONTROL_CAPS_LOCK = 0x7002"
definition QK_MAGIC_CAPS_LOCK_AS_CONTROL_OFF :: u16 where "QK_MAGIC_CAPS_LOCK_AS_CONTROL_OFF = 0x7003"
definition QK_MAGIC_CAPS_LOCK_AS_CONTROL_ON :: u16 where "QK_MAGIC_CAPS_LOCK_AS_CONTROL_ON = 0x7004"
definition QK_MAGIC_SWAP_LALT_LGUI :: u16 where "QK_MAGIC_SWAP_LALT_LGUI = 0x7005"
definition QK_MAGIC_UNSWAP_LALT_LGUI :: u16 where "QK_MAGIC_UNSWAP_LALT_LGUI = 0x7006"
definition QK_MAGIC_SWAP_RALT_RGUI :: u16 where "QK_MAGIC_SWAP_RALT_RGUI = 0x7007"
definition QK_MAGIC_UNSWAP_RALT_RGUI :: u16 where "QK_MAGIC_UNSWAP_RALT_RGUI = 0x7008"
definition QK_MAGIC_GUI_ON :: u16 where "QK_MAGIC_GUI_ON = 0x7009"
definition QK_MAGIC_GUI_OFF :: u16 where "QK_MAGIC_GUI_OFF = 0x700A"
definition QK_MAGIC_TOGGLE_GUI :: u16 where "QK_MAGIC_TOGGLE_GUI = 0x700B"
definition QK_MAGIC_SWAP_GRAVE_ESC :: u16 where "QK_MAGIC_SWAP_GRAVE_ESC = 0x700C"
definition QK_MAGIC_UNSWAP_GRAVE_ESC :: u16 where "QK_MAGIC_UNSWAP_GRAVE_ESC = 0x700D"
definition QK_MAGIC_SWAP_BACKSLASH_BACKSPACE :: u16 where "QK_MAGIC_SWAP_BACKSLASH_BACKSPACE = 0x700E"
definition QK_MAGIC_UNSWAP_BACKSLASH_BACKSPACE :: u16 where "QK_MAGIC_UNSWAP_BACKSLASH_BACKSPACE = 0x700F"
definition QK_MAGIC_TOGGLE_BACKSLASH_BACKSPACE :: u16 where "QK_MAGIC_TOGGLE_BACKSLASH_BACKSPACE = 0x7010"
definition QK_MAGIC_NKRO_ON :: u16 where "QK_MAGIC_NKRO_ON = 0x7011"
definition QK_MAGIC_NKRO_OFF :: u16 where "QK_MAGIC_NKRO_OFF = 0x7012"
definition QK_MAGIC_TOGGLE_NKRO :: u16 where "QK_MAGIC_TOGGLE_NKRO = 0x7013"
definition QK_MAGIC_SWAP_ALT_GUI :: u16 where "QK_MAGIC_SWAP_ALT_GUI = 0x7014"
definition QK_MAGIC_UNSWAP_ALT_GUI :: u16 where "QK_MAGIC_UNSWAP_ALT_GUI = 0x7015"
definition QK_MAGIC_TOGGLE_ALT_GUI :: u16 where "QK_MAGIC_TOGGLE_ALT_GUI = 0x7016"
definition QK_MAGIC_SWAP_LCTL_LGUI :: u16 where "QK_MAGIC_SWAP_LCTL_LGUI = 0x7017"
definition QK_MAGIC_UNSWAP_LCTL_LGUI :: u16 where "QK_MAGIC_UNSWAP_LCTL_LGUI = 0x7018"
definition QK_MAGIC_SWAP_RCTL_RGUI :: u16 where "QK_MAGIC_SWAP_RCTL_RGUI = 0x7019"
definition QK_MAGIC_UNSWAP_RCTL_RGUI :: u16 where "QK_MAGIC_UNSWAP_RCTL_RGUI = 0x701A"
definition QK_MAGIC_SWAP_CTL_GUI :: u16 where "QK_MAGIC_SWAP_CTL_GUI = 0x701B"
definition QK_MAGIC_UNSWAP_CTL_GUI :: u16 where "QK_MAGIC_UNSWAP_CTL_GUI = 0x701C"
definition QK_MAGIC_TOGGLE_CTL_GUI :: u16 where "QK_MAGIC_TOGGLE_CTL_GUI = 0x701D"
definition QK_MAGIC_EE_HANDS_LEFT :: u16 where "QK_MAGIC_EE_HANDS_LEFT = 0x701E"
definition QK_MAGIC_EE_HANDS_RIGHT :: u16 where "QK_MAGIC_EE_HANDS_RIGHT = 0x701F"
definition QK_MAGIC_SWAP_ESCAPE_CAPS_LOCK :: u16 where "QK_MAGIC_SWAP_ESCAPE_CAPS_LOCK = 0x7020"
definition QK_MAGIC_UNSWAP_ESCAPE_CAPS_LOCK :: u16 where "QK_MAGIC_UNSWAP_ESCAPE_CAPS_LOCK = 0x7021"
definition QK_MAGIC_TOGGLE_ESCAPE_CAPS_LOCK :: u16 where "QK_MAGIC_TOGGLE_ESCAPE_CAPS_LOCK = 0x7022"

lemmas magic_keycodes = QK_MAGIC_SWAP_CONTROL_CAPS_LOCK_def QK_MAGIC_UNSWAP_CONTROL_CAPS_LOCK_def
  QK_MAGIC_TOGGLE_CONTROL_CAPS_LOCK_def QK_MAGIC_CAPS_LOCK_AS_CONTROL_OFF_def
  QK_MAGIC_CAPS_LOCK_AS_CONTROL_ON_def QK_MAGIC_SWAP_LALT_LGUI_def QK_MAGIC_UNSWAP_LALT_LGUI_def
  QK_MAGIC_SWAP_RALT_RGUI_def QK_MAGIC_UNSWAP_RALT_RGUI_def QK_MAGIC_GUI_ON_def QK_MAGIC_GUI_OFF_def
  QK_MAGIC_TOGGLE_GUI_def QK_MAGIC_SWAP_GRAVE_ESC_def QK_MAGIC_UNSWAP_GRAVE_ESC_def
  QK_MAGIC_SWAP_BACKSLASH_BACKSPACE_def QK_MAGIC_UNSWAP_BACKSLASH_BACKSPACE_def
  QK_MAGIC_TOGGLE_BACKSLASH_BACKSPACE_def QK_MAGIC_NKRO_ON_def QK_MAGIC_NKRO_OFF_def QK_MAGIC_TOGGLE_NKRO_def
  QK_MAGIC_SWAP_ALT_GUI_def QK_MAGIC_UNSWAP_ALT_GUI_def QK_MAGIC_TOGGLE_ALT_GUI_def QK_MAGIC_SWAP_LCTL_LGUI_def
  QK_MAGIC_UNSWAP_LCTL_LGUI_def QK_MAGIC_SWAP_RCTL_RGUI_def QK_MAGIC_UNSWAP_RCTL_RGUI_def
  QK_MAGIC_SWAP_CTL_GUI_def QK_MAGIC_UNSWAP_CTL_GUI_def QK_MAGIC_TOGGLE_CTL_GUI_def QK_MAGIC_EE_HANDS_LEFT_def
  QK_MAGIC_EE_HANDS_RIGHT_def QK_MAGIC_SWAP_ESCAPE_CAPS_LOCK_def QK_MAGIC_UNSWAP_ESCAPE_CAPS_LOCK_def
  QK_MAGIC_TOGGLE_ESCAPE_CAPS_LOCK_def

definition IS_MAGIC_KEYCODE :: "u16 \<Rightarrow> bool" where
  "IS_MAGIC_KEYCODE code \<longleftrightarrow> keycode_in QK_MAGIC_SWAP_CONTROL_CAPS_LOCK QK_MAGIC_TOGGLE_ESCAPE_CAPS_LOCK code"

text \<open>The settings with a bit given, or a bit flipped; the last one is copied from another bit.\<close>

definition with_bit :: "nat \<Rightarrow> bool \<Rightarrow> u16 \<Rightarrow> u16" where "with_bit n b cfg = (if b then set_bit n cfg else unset_bit n cfg)"

definition magic_settings :: "u16 \<Rightarrow> u16 \<Rightarrow> u16" where
  "magic_settings k cfg =
    (if k = QK_MAGIC_SWAP_CONTROL_CAPS_LOCK then with_bit 0 True cfg
     else if k = QK_MAGIC_SWAP_ESCAPE_CAPS_LOCK then with_bit 11 True cfg
     else if k = QK_MAGIC_CAPS_LOCK_AS_CONTROL_ON then with_bit 1 True cfg
     else if k = QK_MAGIC_SWAP_LALT_LGUI then with_bit 2 True cfg
     else if k = QK_MAGIC_SWAP_RALT_RGUI then with_bit 3 True cfg
     else if k = QK_MAGIC_SWAP_LCTL_LGUI then with_bit 8 True cfg
     else if k = QK_MAGIC_SWAP_RCTL_RGUI then with_bit 9 True cfg
     else if k = QK_MAGIC_GUI_OFF then with_bit 4 True cfg
     else if k = QK_MAGIC_SWAP_GRAVE_ESC then with_bit 5 True cfg
     else if k = QK_MAGIC_SWAP_BACKSLASH_BACKSPACE then with_bit 6 True cfg
     else if k = QK_MAGIC_NKRO_ON then with_bit NKRO_BIT True cfg
     else if k = QK_MAGIC_SWAP_ALT_GUI then with_bit 2 True (with_bit 3 True cfg)
     else if k = QK_MAGIC_SWAP_CTL_GUI then with_bit 8 True (with_bit 9 True cfg)
     else if k = QK_MAGIC_UNSWAP_CONTROL_CAPS_LOCK then with_bit 0 False cfg
     else if k = QK_MAGIC_UNSWAP_ESCAPE_CAPS_LOCK then with_bit 11 False cfg
     else if k = QK_MAGIC_CAPS_LOCK_AS_CONTROL_OFF then with_bit 1 False cfg
     else if k = QK_MAGIC_UNSWAP_LALT_LGUI then with_bit 2 False cfg
     else if k = QK_MAGIC_UNSWAP_RALT_RGUI then with_bit 3 False cfg
     else if k = QK_MAGIC_UNSWAP_LCTL_LGUI then with_bit 8 False cfg
     else if k = QK_MAGIC_UNSWAP_RCTL_RGUI then with_bit 9 False cfg
     else if k = QK_MAGIC_GUI_ON then with_bit 4 False cfg
     else if k = QK_MAGIC_UNSWAP_GRAVE_ESC then with_bit 5 False cfg
     else if k = QK_MAGIC_UNSWAP_BACKSLASH_BACKSPACE then with_bit 6 False cfg
     else if k = QK_MAGIC_NKRO_OFF then with_bit NKRO_BIT False cfg
     else if k = QK_MAGIC_UNSWAP_ALT_GUI then with_bit 2 False (with_bit 3 False cfg)
     else if k = QK_MAGIC_UNSWAP_CTL_GUI then with_bit 8 False (with_bit 9 False cfg)
     else if k = QK_MAGIC_TOGGLE_ALT_GUI then let cfg = flip_bit 2 cfg in with_bit 3 (bit cfg 2) cfg
     else if k = QK_MAGIC_TOGGLE_CTL_GUI then let cfg = flip_bit 8 cfg in with_bit 9 (bit cfg 8) cfg
     else if k = QK_MAGIC_TOGGLE_BACKSLASH_BACKSPACE then flip_bit 6 cfg
     else if k = QK_MAGIC_TOGGLE_NKRO then flip_bit NKRO_BIT cfg
     else if k = QK_MAGIC_TOGGLE_GUI then flip_bit 4 cfg
     else if k = QK_MAGIC_TOGGLE_CONTROL_CAPS_LOCK then flip_bit 0 cfg
     else if k = QK_MAGIC_TOGGLE_ESCAPE_CAPS_LOCK then flip_bit 11 cfg
     else cfg)"

text \<open>The settings word in the EEPROM: what was stored last, or what was there at the start.\<close>

fun newest_stored :: "notice list \<Rightarrow> u16 option" where
  "newest_stored [] = None"
| "newest_stored (keymap_config_stored cfg # ns) = Some cfg"
| "newest_stored (_ # ns) = newest_stored ns"

definition stored_keymap_config :: "kb_env \<Rightarrow> action_st \<Rightarrow> u16" where
  "stored_keymap_config env a = (case newest_stored (notices a) of None \<Rightarrow> stored_config env | Some cfg \<Rightarrow> cfg)"

definition process_magic :: "kb_env \<Rightarrow> u16 \<Rightarrow> u16 \<Rightarrow> keyrecord_t \<Rightarrow> kb_st \<Rightarrow> bool \<times> kb_st" where
  "process_magic env now keycode r s =
    (if event_pressed (event r) \<and> IS_MAGIC_KEYCODE keycode then
       let T = oneshot_timeout env;
           a = act s;
           a = a\<lparr>keymap_config := stored_keymap_config env a\<rparr>;
           a = (if keycode \<in> {QK_MAGIC_NKRO_ON, QK_MAGIC_NKRO_OFF, QK_MAGIC_TOGGLE_NKRO} then clear_keyboard T now a else a);
           a = a\<lparr>keymap_config := magic_settings keycode (keymap_config a)\<rparr>;
           a = (if keycode = QK_MAGIC_EE_HANDS_LEFT then notify (handedness_stored True) a
                else if keycode = QK_MAGIC_EE_HANDS_RIGHT then notify (handedness_stored False) a else a);
           a = notify (keymap_config_stored (keymap_config a)) a in
       (False, s\<lparr>act := clear_keyboard T now a\<rparr>)
     else (True, s))"

subsection \<open>Backlight keys and macros\<close>

definition process_backlight :: "u16 \<Rightarrow> keyrecord_t \<Rightarrow> kb_st \<Rightarrow> bool \<times> kb_st" where
  "process_backlight keycode r s =
    (if event_pressed (event r) \<and> keycode_in 0x7800 0x7805 keycode then (False, map_act (notify (led_matrix_key keycode)) s)
     else (True, s))"

definition via_macro_key :: "kb_env \<Rightarrow> u16 \<Rightarrow> keyrecord_t \<Rightarrow> kb_st \<Rightarrow> bool \<times> kb_st" where
  "via_macro_key env keycode r s =
    (if event_pressed (event r) \<and> keycode_in 0x7700 0x777F keycode
     then (False, map_act (macro_send env (ucast (keycode - 0x7700))) s) else (True, s))"

subsection \<open>The handlers in their order\<close>

text \<open>A conjunction of handlers: the first one that returns false ends it.\<close>

fun run_handlers :: "('s \<Rightarrow> bool \<times> 's) list \<Rightarrow> 's \<Rightarrow> bool \<times> 's" where
  "run_handlers [] s = (True, s)"
| "run_handlers (f # fs) s = (case f s of (continue, s) \<Rightarrow> if continue then run_handlers fs s else (False, s))"

definition handlers :: "kb_env \<Rightarrow> u16 \<Rightarrow> u16 \<Rightarrow> keyrecord_t \<Rightarrow> (kb_st \<Rightarrow> bool \<times> kb_st) list" where
  "handlers env now keycode r =
    [via_macro_key env keycode r, process_record_kb env keycode r, process_backlight keycode r,
     process_space_cadet env now keycode r, process_magic env now keycode r, process_grave_esc env now keycode r,
     process_tri_layer keycode r]"

definition shutdown_quantum :: "kb_env \<Rightarrow> u16 \<Rightarrow> kb_st \<Rightarrow> kb_st" where
  "shutdown_quantum env now s = map_act (clear_keyboard (oneshot_timeout env) now) s"

definition reset_keyboard :: "kb_env \<Rightarrow> u16 \<Rightarrow> kb_st \<Rightarrow> kb_st" where
  "reset_keyboard env now s = map_act (notify bootloader_jump) (shutdown_quantum env now s)"

definition soft_reset_keyboard :: "kb_env \<Rightarrow> u16 \<Rightarrow> kb_st \<Rightarrow> kb_st" where
  "soft_reset_keyboard env now s = map_act (notify mcu_reset) (shutdown_quantum env now s)"

definition QK_BOOTLOADER :: u16 where "QK_BOOTLOADER = 0x7C00"
definition QK_REBOOT :: u16 where "QK_REBOOT = 0x7C01"
definition QK_DEBUG_TOGGLE :: u16 where "QK_DEBUG_TOGGLE = 0x7C02"
definition QK_CLEAR_EEPROM :: u16 where "QK_CLEAR_EEPROM = 0x7C03"
definition QK_ONE_SHOT_ON :: u16 where "QK_ONE_SHOT_ON = 0x7C5A"
definition QK_ONE_SHOT_OFF :: u16 where "QK_ONE_SHOT_OFF = 0x7C5B"
definition QK_ONE_SHOT_TOGGLE :: u16 where "QK_ONE_SHOT_TOGGLE = 0x7C5C"

lemmas quantum_keycodes = QK_BOOTLOADER_def QK_REBOOT_def QK_DEBUG_TOGGLE_def QK_CLEAR_EEPROM_def QK_ONE_SHOT_ON_def
  QK_ONE_SHOT_OFF_def QK_ONE_SHOT_TOGGLE_def QK_GRAVE_ESCAPE_def QK_TRI_LAYER_LOWER_def QK_TRI_LAYER_UPPER_def

definition quantum_key :: "kb_env \<Rightarrow> u16 \<Rightarrow> u16 \<Rightarrow> kb_st \<Rightarrow> bool \<times> kb_st" where
  "quantum_key env now keycode s =
    (if keycode = QK_BOOTLOADER then (False, reset_keyboard env now s)
     else if keycode = QK_REBOOT then (False, soft_reset_keyboard env now s)
     else if keycode = QK_DEBUG_TOGGLE then (False, map_act (notify debug_toggled) s)
     else if keycode = QK_CLEAR_EEPROM then (False, soft_reset_keyboard env now (map_act (notify eeprom_disabled) s))
     else if keycode = QK_ONE_SHOT_TOGGLE then (True, map_act oneshot_toggle s)
     else if keycode = QK_ONE_SHOT_ON then (True, map_act oneshot_enable s)
     else if keycode = QK_ONE_SHOT_OFF then (True, map_act oneshot_disable s)
     else (True, s))"

definition process_record_quantum :: "kb_env \<Rightarrow> u16 \<Rightarrow> keyrecord_t \<Rightarrow> kb_st \<Rightarrow> bool \<times> kb_st" where
  "process_record_quantum env now r s =
    (case get_record_keycode env r True (act s) of (keycode, a) \<Rightarrow>
       (case run_handlers (handlers env now keycode r) (s\<lparr>act := a\<rparr>) of (continue, s) \<Rightarrow>
          if \<not> continue then (False, s)
          else if event_pressed (event r) then quantum_key env now keycode s
          else (True, s)))"

end
