(* ===== verification/Qmk_Process_Action.thy ===== *)
theory Qmk_Process_Action
  imports Qmk_Process_Keys
begin

text \<open>
  What a key event does (\<^verbatim>\<open>process_action\<close> and \<^verbatim>\<open>process_record\<close> of \<^verbatim>\<open>quantum/action.c\<close>).  A function that
  changes the record it is given returns it.  The build has no swap hands, no retro tapping and no
  toggling of one-shot keys by tapping.
\<close>

subsection \<open>The action of a record\<close>

definition TAPPING_TOGGLE :: u4 where "TAPPING_TOGGLE = 5"

text \<open>Modifiers of an action, moved to the right hand by the kind.\<close>

definition action_mods :: "u8 \<Rightarrow> action_t \<Rightarrow> u8" where
  "action_mods left_kind a = (if kind_id a = left_kind then key_mods a else push_bit 4 (key_mods a))"

definition press_mods_key :: "u16 \<Rightarrow> u16 \<Rightarrow> u8 \<Rightarrow> u8 \<Rightarrow> action_st \<Rightarrow> action_st" where
  "press_mods_key T now mods code s =
    (let s = (if mods \<noteq> 0
       then send_keyboard_report T now ((if IS_MODIFIER_KEYCODE code \<or> code = 0 then add_mods mods else add_weak_mods mods) s)
       else s) in
     register_code T now code s)"

definition release_mods_key :: "u16 \<Rightarrow> u16 \<Rightarrow> u8 \<Rightarrow> u8 \<Rightarrow> action_st \<Rightarrow> action_st" where
  "release_mods_key T now mods code s =
    (let s = unregister_code T now code s in
     if mods \<noteq> 0
     then send_keyboard_report T now ((if IS_MODIFIER_KEYCODE code \<or> code = 0 then del_mods mods else del_weak_mods mods) s)
     else s)"

text \<open>The delay of a tap moves the timer before the release.\<close>

definition release_tap :: "u16 \<Rightarrow> u16 \<Rightarrow> u8 \<Rightarrow> action_st \<Rightarrow> action_st" where
  "release_tap T now code s =
    unregister_code T (now + (if code = KC_CAPS_LOCK then TAP_HOLD_CAPS_DELAY else TAP_CODE_DELAY)) code s"

definition oneshot_mods_action :: "u16 \<Rightarrow> u16 \<Rightarrow> bool \<Rightarrow> u4 \<Rightarrow> u8 \<Rightarrow> u8 \<Rightarrow> action_st \<Rightarrow> action_st" where
  "oneshot_mods_action T now pressed count mods code s =
    (if \<not> is_oneshot_enabled s then (if pressed then press_mods_key T now mods code s else release_mods_key T now mods code s)
     else if pressed then
       (if count = 0 then register_mods T now (mods OR get_oneshot_mods s) s
        else if count = 1 then set_oneshot_mods now (mods OR get_oneshot_mods s) s
        else register_mods T now (mods OR get_oneshot_mods s) s)
     else
       (if count = 0 then unregister_mods T now mods (clear_oneshot_mods s)
        else if count = 1 then s
        else clear_oneshot_mods (unregister_mods T now mods s)))"

definition mods_tap_action :: "kb_env \<Rightarrow> u16 \<Rightarrow> keyrecord_t \<Rightarrow> action_t \<Rightarrow> action_st \<Rightarrow> keyrecord_t \<times> action_st" where
  "mods_tap_action env now r a s =
    (let T = oneshot_timeout env; mods = action_mods ACT_LMODS_TAP a; code = key_code a;
         pressed = event_pressed (event r); count = tap_count (tap r) in
     if code = MODS_ONESHOT then (r, oneshot_mods_action T now pressed count mods code s)
     else if code = MODS_TAP_TOGGLE then
       (r, if pressed then (if count \<le> TAPPING_TOGGLE then register_mods T now mods s else s)
           else (if count < TAPPING_TOGGLE then unregister_mods T now mods s else s))
     else if pressed then
       (if 0 < count then
          (if \<not> ignore_mod_tap_interrupt env \<and> interrupted (tap r)
           then (r\<lparr>tap := (tap r)\<lparr>tap_count := 0\<rparr>\<rparr>, register_mods T now mods s)
           else (r, register_code T now code s))
        else (r, register_mods T now mods s))
     else (r, if 0 < count then release_tap T now code s else unregister_mods T now mods s))"

text \<open>Bitwise operations on the layers; shifts are at the width of the layer state.\<close>

definition layer_action :: "bool \<Rightarrow> action_t \<Rightarrow> layer_st \<Rightarrow> layer_st" where
  "layer_action pressed a s =
    (let shift = 4 * unat (bitop_part a);
         bits = push_bit shift (bitop_bits a);
         mask = (if bitop_xbit a then NOT (push_bit shift 0x0F) else 0) in
     if bitop_on a = 0 then
       (if \<not> pressed then
          (if bitop_op a = OP_BIT_AND then default_layer_and (bits OR mask) s
           else if bitop_op a = OP_BIT_OR then default_layer_or (bits OR mask) s
           else if bitop_op a = OP_BIT_XOR then default_layer_xor (bits OR mask) s
           else default_layer_set (bits OR mask) s)
        else s)
     else if bitop_on a AND (if pressed then ON_PRESS else ON_RELEASE) \<noteq> 0 then
       (if bitop_op a = OP_BIT_AND then layer_and (bits OR mask) s
        else if bitop_op a = OP_BIT_OR then layer_or (bits OR mask) s
        else if bitop_op a = OP_BIT_XOR then layer_xor (bits OR mask) s
        else layer_state_set (bits OR mask) s)
     else s)"

definition oneshot_layer_action :: "u16 \<Rightarrow> bool \<Rightarrow> u4 \<Rightarrow> u8 \<Rightarrow> action_st \<Rightarrow> action_st" where
  "oneshot_layer_action now pressed count layer s =
    (if \<not> is_oneshot_enabled s then map_layers ((if pressed then layer_on else layer_off) layer) s
     else if pressed then set_oneshot_layer now layer ONESHOT_START (map_layers (layer_on layer) s)
     else let s = clear_oneshot_layer_state ONESHOT_PRESSED s in
       if 1 < count then clear_oneshot_layer_state ONESHOT_OTHER_KEY_PRESSED s else s)"

definition layer_tap_action :: "kb_env \<Rightarrow> u16 \<Rightarrow> bool \<Rightarrow> u4 \<Rightarrow> action_t \<Rightarrow> action_st \<Rightarrow> action_st" where
  "layer_tap_action env now pressed count a s =
    (let T = oneshot_timeout env; layer = layer_tap_val a; code = key_code a in
     if code = OP_TAP_TOGGLE then
       (if (if pressed then count < TAPPING_TOGGLE else count \<le> TAPPING_TOGGLE) then map_layers (layer_invert layer) s else s)
     else if code = OP_ON_OFF then map_layers ((if pressed then layer_on else layer_off) layer) s
     else if code = OP_OFF_ON then map_layers ((if pressed then layer_off else layer_on) layer) s
     else if code = OP_SET_CLEAR then map_layers (if pressed then layer_move layer else layer_clear) s
     else if code = OP_ONESHOT then oneshot_layer_action now pressed count layer s
     else if pressed then (if 0 < count then register_code T now code s else map_layers (layer_on layer) s)
     else (if 0 < count then release_tap T now code s else map_layers (layer_off layer) s))"

definition is_layer_kind :: "action_t \<Rightarrow> bool" where
  "is_layer_kind a \<longleftrightarrow> kind_id a = ACT_LAYER \<or> kind_id a = ACT_LAYER_MODS \<or> kind_id a = ACT_LAYER_TAP \<or> kind_id a = ACT_LAYER_TAP_EXT"

text \<open>The switch over the kinds, and the LEDs after a layer action.\<close>

definition action_switch :: "kb_env \<Rightarrow> u16 \<Rightarrow> keyrecord_t \<Rightarrow> action_t \<Rightarrow> action_st \<Rightarrow> keyrecord_t \<times> action_st" where
  "action_switch env now r a s =
    (let T = oneshot_timeout env; pressed = event_pressed (event r); count = tap_count (tap r); kind = kind_id a in
     if kind = ACT_LMODS \<or> kind = ACT_RMODS then
       (r, if pressed then press_mods_key T now (action_mods ACT_LMODS a) (key_code a) s
           else release_mods_key T now (action_mods ACT_LMODS a) (key_code a) s)
     else if kind = ACT_LMODS_TAP \<or> kind = ACT_RMODS_TAP then mods_tap_action env now r a s
     else if kind = ACT_USAGE then
       (r, if usage_page a = PAGE_SYSTEM then map_host (host_system_send (if pressed then usage_code a else 0)) s
           else if usage_page a = PAGE_CONSUMER then map_host (host_consumer_send (if pressed then usage_code a else 0)) s
           else s)
     else if kind = ACT_MOUSEKEY then (r, register_mouse (key_code a) pressed s)
     else if kind = ACT_LAYER then (r, map_layers (layer_action pressed a) s)
     else if kind = ACT_LAYER_MODS then
       (r, if pressed then register_mods T now (layer_mods_mods a) (map_layers (layer_on (layer_mods_layer a)) s)
           else map_layers (layer_off (layer_mods_layer a)) (unregister_mods T now (layer_mods_mods a) s))
     else if kind = ACT_LAYER_TAP \<or> kind = ACT_LAYER_TAP_EXT then (r, layer_tap_action env now pressed count a s)
     else (r, s))"

definition update_leds :: "kb_env \<Rightarrow> action_t \<Rightarrow> action_st \<Rightarrow> action_st" where
  "update_leds env a s =
    (if is_layer_kind a then notify (leds_set (host_keyboard_leds (host_leds env) (host_if s))) s else s)"

text \<open>A press that is not a modifier ends a one-shot layer.\<close>

definition uses_oneshot_layer :: "keyrecord_t \<Rightarrow> action_t \<Rightarrow> action_st \<Rightarrow> bool" where
  "uses_oneshot_layer r a s \<longleftrightarrow>
    is_oneshot_layer_active s \<and> event_pressed (event r) \<and>
    (kind_id a = ACT_USAGE \<or>
      \<not> (IS_MODIFIER_KEYCODE (key_code a) \<or>
         (tap_count (tap r) = 0 \<and> (kind_id a = ACT_LMODS_TAP \<or> kind_id a = ACT_RMODS_TAP)))) \<and>
    is_oneshot_enabled s"

text \<open>Everything but the nested release; the flag asks for it.\<close>

definition process_action_body :: "kb_env \<Rightarrow> u16 \<Rightarrow> keyrecord_t \<Rightarrow> action_t \<Rightarrow> action_st \<Rightarrow> bool \<times> keyrecord_t \<times> action_st" where
  "process_action_body env now r a s =
    (let used = uses_oneshot_layer r a s;
         s = (if used then clear_oneshot_layer_state ONESHOT_OTHER_KEY_PRESSED s else s);
         do_release_oneshot = (used \<and> \<not> is_oneshot_layer_active s);
         (r, s) = action_switch env now r a s;
         s = update_leds env a s in
     (do_release_oneshot \<and> get_oneshot_layer_state s AND ONESHOT_PRESSED = 0, r, s))"

subsection \<open>Processing a record\<close>

text \<open>
  \<^verbatim>\<open>process_record\<close> and \<^verbatim>\<open>process_action\<close> call each other, but only once: the nested record is a release, and a release
  asks for no further one.  So the processing is parametrised by what it does with the action; the
  equation of the source is \<open>process_action_eq\<close>.
\<close>

definition process_record_handler_with ::
  "(keyrecord_t \<Rightarrow> action_t \<Rightarrow> kb_st \<Rightarrow> keyrecord_t \<times> kb_st) \<Rightarrow> kb_env \<Rightarrow> keyrecord_t \<Rightarrow> kb_st \<Rightarrow> keyrecord_t \<times> kb_st" where
  "process_record_handler_with pa env r s =
    (case store_or_get_action (the_keymap env (act s)) (event_pressed (event r)) (event_key (event r)) (layers (act s)) of
       (a, l) \<Rightarrow> pa r a (map_act (map_layers (\<lambda>_. l)) s))"

definition process_record_with ::
  "(keyrecord_t \<Rightarrow> action_t \<Rightarrow> kb_st \<Rightarrow> keyrecord_t \<times> kb_st) \<Rightarrow> kb_env \<Rightarrow> u16 \<Rightarrow> keyrecord_t \<Rightarrow> kb_st \<Rightarrow> keyrecord_t \<times> kb_st" where
  "process_record_with pa env now r s =
    (if IS_NOEVENT (event r) then (r, s)
     else (case process_record_quantum env now r s of (continue, s) \<Rightarrow>
       if \<not> continue then
         (r, if is_oneshot_layer_active (act s) \<and> event_pressed (event r) \<and> is_oneshot_enabled (act s)
             then map_act (clear_oneshot_layer_state ONESHOT_OTHER_KEY_PRESSED) s else s)
       else process_record_handler_with pa env r s))"

definition process_action_plain :: "kb_env \<Rightarrow> u16 \<Rightarrow> keyrecord_t \<Rightarrow> action_t \<Rightarrow> kb_st \<Rightarrow> keyrecord_t \<times> kb_st" where
  "process_action_plain env now r a s =
    (case process_action_body env now r a (act s) of (_, r, a') \<Rightarrow> (r, s\<lparr>act := a'\<rparr>))"

definition release_record :: "keyrecord_t \<Rightarrow> keyrecord_t" where
  "release_record r = r\<lparr>event := (event r)\<lparr>event_pressed := False\<rparr>\<rparr>"

definition process_action :: "kb_env \<Rightarrow> u16 \<Rightarrow> keyrecord_t \<Rightarrow> action_t \<Rightarrow> kb_st \<Rightarrow> keyrecord_t \<times> kb_st" where
  "process_action env now r a s =
    (case process_action_body env now r a (act s) of (release, r, a') \<Rightarrow>
       let s = s\<lparr>act := a'\<rparr> in
       if release then
         let r = release_record r;
             s = map_act (map_layers (layer_on (get_oneshot_layer (act s)))) s;
             (r, s) = process_record_with (process_action_plain env now) env now r s in
         (r, map_act (map_layers (layer_off (get_oneshot_layer (act s)))) s)
       else (r, s))"

definition process_record_handler :: "kb_env \<Rightarrow> u16 \<Rightarrow> keyrecord_t \<Rightarrow> kb_st \<Rightarrow> keyrecord_t \<times> kb_st" where
  "process_record_handler env now = process_record_handler_with (process_action env now) env"

definition process_record :: "kb_env \<Rightarrow> u16 \<Rightarrow> keyrecord_t \<Rightarrow> kb_st \<Rightarrow> keyrecord_t \<times> kb_st" where
  "process_record env now = process_record_with (process_action env now) env now"

definition process_record_nocache :: "kb_env \<Rightarrow> u16 \<Rightarrow> keyrecord_t \<Rightarrow> kb_st \<Rightarrow> keyrecord_t \<times> kb_st" where
  "process_record_nocache env now r s =
    (let s = map_act (map_layers (\<lambda>l. l\<lparr>disable_action_cache := True\<rparr>)) s;
         (r, s) = process_record env now r s in
     (r, map_act (map_layers (\<lambda>l. l\<lparr>disable_action_cache := False\<rparr>)) s))"

text \<open>A release needs no nested one, so the nested call is a call of \<open>process_record\<close>.\<close>

lemma action_switch_pressed: "event_pressed (event (fst (action_switch env now r a s))) = event_pressed (event r)"
  by (simp add: action_switch_def mods_tap_action_def Let_def)

lemma process_action_release:
  "\<not> event_pressed (event r) \<Longrightarrow> process_action env now r a s = process_action_plain env now r a s"
  by (simp add: process_action_def process_action_plain_def process_action_body_def uses_oneshot_layer_def Let_def split_beta)

lemma process_record_release:
  assumes "\<not> event_pressed (event r)"
  shows "process_record_with (process_action_plain env now) env now r s = process_record env now r s"
  using assms
  by (simp add: process_record_def process_record_with_def process_record_handler_with_def process_action_release
      split: prod.splits)

lemma process_action_eq:
  "process_action env now r a s =
    (case process_action_body env now r a (act s) of (release, r, a') \<Rightarrow>
       let s = s\<lparr>act := a'\<rparr> in
       if release then
         let r = release_record r;
             s = map_act (map_layers (layer_on (get_oneshot_layer (act s)))) s;
             (r, s) = process_record env now r s in
         (r, map_act (map_layers (layer_off (get_oneshot_layer (act s)))) s)
       else (r, s))"
proof -
  have "\<not> event_pressed (event (release_record r))" for r by (simp add: release_record_def)
  then show ?thesis by (simp add: process_action_def process_record_release Let_def split: prod.splits)
qed

subsection \<open>Tap keys\<close>

definition is_tap_action :: "action_t \<Rightarrow> bool" where
  "is_tap_action a \<longleftrightarrow>
    (kind_id a = ACT_LMODS_TAP \<or> kind_id a = ACT_RMODS_TAP \<or> kind_id a = ACT_LAYER_TAP \<or> kind_id a = ACT_LAYER_TAP_EXT) \<and>
    (key_code a \<le> KC_RIGHT_GUI \<or> key_code a = OP_TAP_TOGGLE \<or> key_code a = OP_ONESHOT) \<or>
    kind_id a = ACT_SWAP_HANDS \<and> (key_code a \<le> KC_RIGHT_GUI \<or> key_code a = 0xF1)"

definition is_tap_record :: "kb_env \<Rightarrow> keyrecord_t \<Rightarrow> action_st \<Rightarrow> bool" where
  "is_tap_record env r a \<longleftrightarrow>
    \<not> IS_NOEVENT (event r) \<and> is_tap_action (layer_switch_get_action (the_keymap env a) (event_key (event r)) (layers a))"

end
