(* ===== verification/Qmk_Tapping.thy ===== *)
theory Qmk_Tapping
  imports Qmk_Process_Action
begin

text \<open>
  Deciding between tap and hold (\<^verbatim>\<open>quantum/action_tapping.c\<close>): the key being tapped, the buffer of events that wait
  for the decision, and the entry of the key pipeline (\<^verbatim>\<open>action_exec\<close>).  The terms and the two options are the
  same for every key; auto shift and combos are not part of the build.
\<close>

subsection \<open>The waiting buffer\<close>

definition WAITING_BUFFER_SIZE :: nat where "WAITING_BUFFER_SIZE = 8"

definition next_slot :: "u8 \<Rightarrow> u8" where "next_slot i = (i + 1) mod of_nat WAITING_BUFFER_SIZE"

definition waiting_buffer_enq :: "keyrecord_t \<Rightarrow> kb_st \<Rightarrow> bool \<times> kb_st" where
  "waiting_buffer_enq r s =
    (if IS_NOEVENT (event r) then (True, s)
     else if next_slot (waiting_buffer_head s) = waiting_buffer_tail s then (False, s)
     else (True, s\<lparr>waiting_buffer := (waiting_buffer s)[unat (waiting_buffer_head s) := r],
                   waiting_buffer_head := next_slot (waiting_buffer_head s)\<rparr>))"

definition waiting_buffer_clear :: "kb_st \<Rightarrow> kb_st" where
  "waiting_buffer_clear s = s\<lparr>waiting_buffer_head := 0, waiting_buffer_tail := 0\<rparr>"

text \<open>
  The loops go from the tail to the head, modulo the size: the slots they visit are these.  The indices
  stay below the size, so that many steps are enough.
\<close>

fun slots_between :: "nat \<Rightarrow> u8 \<Rightarrow> u8 \<Rightarrow> u8 list" where
  "slots_between 0 i h = []"
| "slots_between (Suc n) i h = (if i = h then [] else i # slots_between n (next_slot i) h)"

definition waiting_slots :: "kb_st \<Rightarrow> u8 list" where
  "waiting_slots s = slots_between WAITING_BUFFER_SIZE (waiting_buffer_tail s) (waiting_buffer_head s)"

definition slot :: "kb_st \<Rightarrow> u8 \<Rightarrow> keyrecord_t" where "slot s i = waiting_buffer s ! unat i"

definition waiting_buffer_typed :: "keyevent_t \<Rightarrow> kb_st \<Rightarrow> bool" where
  "waiting_buffer_typed e s \<longleftrightarrow>
    (\<exists>i \<in> set (waiting_slots s). KEYEQ (event_key e) (event_key (event (slot s i))) \<and>
      event_pressed e \<noteq> event_pressed (event (slot s i)))"

definition waiting_buffer_has_anykey_pressed :: "kb_st \<Rightarrow> bool" where
  "waiting_buffer_has_anykey_pressed s \<longleftrightarrow> (\<exists>i \<in> set (waiting_slots s). event_pressed (event (slot s i)))"

subsection \<open>The tapping key\<close>

definition IS_TAPPING :: "kb_st \<Rightarrow> bool" where "IS_TAPPING s \<longleftrightarrow> IS_EVENT (event (tapping_key s))"
definition IS_TAPPING_PRESSED :: "kb_st \<Rightarrow> bool" where
  "IS_TAPPING_PRESSED s \<longleftrightarrow> IS_TAPPING s \<and> event_pressed (event (tapping_key s))"
definition IS_TAPPING_RELEASED :: "kb_st \<Rightarrow> bool" where
  "IS_TAPPING_RELEASED s \<longleftrightarrow> IS_TAPPING s \<and> \<not> event_pressed (event (tapping_key s))"
definition IS_TAPPING_KEY :: "keypos_t \<Rightarrow> kb_st \<Rightarrow> bool" where
  "IS_TAPPING_KEY p s \<longleftrightarrow> IS_TAPPING s \<and> KEYEQ (event_key (event (tapping_key s))) p"

definition WITHIN_TAPPING_TERM :: "kb_env \<Rightarrow> keyevent_t \<Rightarrow> kb_st \<Rightarrow> bool" where
  "WITHIN_TAPPING_TERM env e s \<longleftrightarrow> TIMER_DIFF_16 (event_time e) (event_time (event (tapping_key s))) < tapping_term env"
definition WITHIN_QUICK_TAP_TERM :: "kb_env \<Rightarrow> keyevent_t \<Rightarrow> kb_st \<Rightarrow> bool" where
  "WITHIN_QUICK_TAP_TERM env e s \<longleftrightarrow> TIMER_DIFF_16 (event_time e) (event_time (event (tapping_key s))) < quick_tap_term env"

definition set_tapping_key :: "keyrecord_t \<Rightarrow> kb_st \<Rightarrow> kb_st" where "set_tapping_key r s = s\<lparr>tapping_key := r\<rparr>"

text \<open>\<^verbatim>\<open>process_record(&tapping_key)\<close>: the call may change the tapping key.\<close>

definition process_tapping_key :: "kb_env \<Rightarrow> u16 \<Rightarrow> kb_st \<Rightarrow> kb_st" where
  "process_tapping_key env now s = (case process_record env now (tapping_key s) s of (r, s) \<Rightarrow> set_tapping_key r s)"

definition with_count :: "u4 \<Rightarrow> keyrecord_t \<Rightarrow> keyrecord_t" where
  "with_count n r = r\<lparr>tap := (tap r)\<lparr>tap_count := n\<rparr>\<rparr>"

text \<open>The first waiting release of the tapping key within the term.\<close>

fun find_release :: "kb_env \<Rightarrow> kb_st \<Rightarrow> u8 list \<Rightarrow> u8 option" where
  "find_release env s [] = None"
| "find_release env s (i # is) =
    (if IS_TAPPING_KEY (event_key (event (slot s i))) s \<and> \<not> event_pressed (event (slot s i)) \<and>
        WITHIN_TAPPING_TERM env (event (slot s i)) s
     then Some i else find_release env s is)"

definition waiting_buffer_scan_tap :: "kb_env \<Rightarrow> u16 \<Rightarrow> kb_st \<Rightarrow> kb_st" where
  "waiting_buffer_scan_tap env now s =
    (if 0 < tap_count (tap (tapping_key s)) \<or> \<not> event_pressed (event (tapping_key s)) then s
     else (case find_release env s (waiting_slots s) of
       None \<Rightarrow> s
     | Some i \<Rightarrow>
         let s = set_tapping_key (with_count 1 (tapping_key s)) s;
             s = s\<lparr>waiting_buffer := (waiting_buffer s)[unat i := with_count 1 (slot s i)]\<rparr> in
         process_tapping_key env now s))"

text \<open>Without swap hands the hint does nothing.\<close>

definition process_record_tap_hint :: "keyrecord_t \<Rightarrow> kb_st \<Rightarrow> kb_st" where "process_record_tap_hint r s = s"

subsection \<open>Processing an event\<close>

text \<open>The release of a modifier or layer key pressed before: it waits with the tapping key.\<close>

definition retained_release :: "kb_env \<Rightarrow> keyrecord_t \<Rightarrow> kb_st \<Rightarrow> bool" where
  "retained_release env r s =
    (let a = layer_switch_get_action (the_keymap env (act s)) (event_key (event r)) (layers (act s)) in
     if kind_id a = ACT_LMODS \<or> kind_id a = ACT_RMODS then
       key_mods a \<noteq> 0 \<and> key_code a = 0 \<or> IS_MODIFIER_KEYCODE (key_code a)
     else if kind_id a = ACT_LMODS_TAP \<or> kind_id a = ACT_RMODS_TAP then
       key_mods a \<noteq> 0 \<and> tap_count (tap r) = 0 \<or> IS_MODIFIER_KEYCODE (key_code a)
     else if kind_id a = ACT_LAYER_TAP \<or> kind_id a = ACT_LAYER_TAP_EXT then
       key_code a \<le> OP_TAP_TOGGLE - 1 \<or> key_code a \<in> {OP_ON_OFF, OP_OFF_ON, OP_SET_CLEAR}
     else False)"

text \<open>A new tap key while the last one is still down: a tap of more than one is released first.\<close>

definition start_new_tap :: "kb_env \<Rightarrow> u16 \<Rightarrow> keyrecord_t \<Rightarrow> kb_st \<Rightarrow> kb_st" where
  "start_new_tap env now r s =
    (let s = (if 1 < tap_count (tap (tapping_key s))
         then snd (process_record env now
           \<lparr>event = \<lparr>event_key = event_key (event (tapping_key s)), event_pressed = False, event_time = event_time (event r)\<rparr>,
            tap = tap (tapping_key s)\<rparr> s)
         else s) in
     waiting_buffer_scan_tap env now (set_tapping_key r s))"

text \<open>
  The result is whether the event was consumed, the record, and the state.  \<open>tapping_undecided\<close> is the part for a
  tapping key without a tap in its term, \<open>tapping_counted\<close> the part for one with a tap.
\<close>

definition tapping_undecided :: "kb_env \<Rightarrow> u16 \<Rightarrow> keyrecord_t \<Rightarrow> kb_st \<Rightarrow> bool \<times> keyrecord_t \<times> kb_st" where
  "tapping_undecided env now r s =
    (let e = event r in
     if IS_TAPPING_KEY (event_key e) s \<and> \<not> event_pressed e then
       let s = process_tapping_key env now (set_tapping_key (with_count 1 (tapping_key s)) s) in
       (False, r\<lparr>tap := tap (tapping_key s)\<rparr>, s)
     else if IS_RELEASED e \<and> waiting_buffer_typed e s \<and> permissive_hold env then
       (False, r, set_tapping_key no_record (process_tapping_key env now s))
     else if IS_RELEASED e \<and> \<not> waiting_buffer_typed e s then
       (if retained_release env r s then (False, r, s)
        else case process_record env now r s of (r, s) \<Rightarrow> (True, r, s))
     else if event_pressed e then
       let s = set_tapping_key ((tapping_key s)\<lparr>tap := (tap (tapping_key s))\<lparr>interrupted := True\<rparr>\<rparr>) s in
       (False, r, if hold_on_other_key_press env then set_tapping_key no_record (process_tapping_key env now s) else s)
     else (False, r, s))"

definition tapping_counted :: "kb_env \<Rightarrow> u16 \<Rightarrow> bool \<Rightarrow> keyrecord_t \<Rightarrow> kb_st \<Rightarrow> bool \<times> keyrecord_t \<times> kb_st" where
  "tapping_counted env now within r s =
    (let e = event r in
     if IS_TAPPING_KEY (event_key e) s \<and> \<not> event_pressed e then
       (case process_record env now (r\<lparr>tap := tap (tapping_key s)\<rparr>) s of
          (r, s) \<Rightarrow> (True, r, set_tapping_key (if within then r else no_record) s))
     else if is_tap_record env r (act s) \<and> event_pressed e then (True, r, start_new_tap env now r s)
     else (case process_record env now r s of (r, s) \<Rightarrow> (True, r, s)))"

definition tapping_released :: "kb_env \<Rightarrow> u16 \<Rightarrow> keyrecord_t \<Rightarrow> kb_st \<Rightarrow> bool \<times> keyrecord_t \<times> kb_st" where
  "tapping_released env now r s =
    (let e = event r in
     if WITHIN_TAPPING_TERM env e s then
       if event_pressed e then
         if IS_TAPPING_KEY (event_key e) s then
           if WITHIN_QUICK_TAP_TERM env e s \<and> \<not> interrupted (tap (tapping_key s)) \<and> 0 < tap_count (tap (tapping_key s)) then
             let r = r\<lparr>tap := tap (tapping_key s)\<rparr>;
                 r = (if tap_count (tap r) < 15 then with_count (tap_count (tap r) + 1) r else r) in
             (case process_record env now r s of (r, s) \<Rightarrow> (True, r, set_tapping_key r s))
           else (True, r, set_tapping_key r s)
         else if is_tap_record env r (act s) then (True, r, waiting_buffer_scan_tap env now (set_tapping_key r s))
         else
           let s = set_tapping_key ((tapping_key s)\<lparr>tap := (tap (tapping_key s))\<lparr>interrupted := True\<rparr>\<rparr>) s in
           (case process_record env now r s of (r, s) \<Rightarrow> (True, r, s))
       else (case process_record env now r s of (r, s) \<Rightarrow> (True, r, s))
     else (False, r, set_tapping_key no_record s))"

definition process_tapping :: "kb_env \<Rightarrow> u16 \<Rightarrow> keyrecord_t \<Rightarrow> kb_st \<Rightarrow> bool \<times> keyrecord_t \<times> kb_st" where
  "process_tapping env now r s =
    (if IS_TAPPING_PRESSED s then
       if WITHIN_TAPPING_TERM env (event r) s then
         if tap_count (tap (tapping_key s)) = 0 then tapping_undecided env now r s
         else tapping_counted env now True r s
       else if tap_count (tap (tapping_key s)) = 0 then
         (False, r, set_tapping_key no_record (process_tapping_key env now s))
       else tapping_counted env now False r s
     else if IS_TAPPING_RELEASED s then tapping_released env now r s
     else if event_pressed (event r) \<and> is_tap_record env r (act s) then
       let s = process_record_tap_hint r (set_tapping_key r s) in
       (True, r, waiting_buffer_scan_tap env now s)
     else (case process_record env now r s of (r, s) \<Rightarrow> (True, r, s)))"

subsection \<open>The loop over the waiting events\<close>

text \<open>
  Every turn moves the tail one slot towards the head, so the number of waiting events bounds the turns; the fuel is
  the size of the buffer.  A waiting record that the processing changes is changed in its slot.
\<close>

fun process_waiting :: "nat \<Rightarrow> kb_env \<Rightarrow> u16 \<Rightarrow> kb_st \<Rightarrow> kb_st" where
  "process_waiting 0 env now s = s"
| "process_waiting (Suc n) env now s =
    (if waiting_buffer_tail s = waiting_buffer_head s then s
     else (case process_tapping env now (slot s (waiting_buffer_tail s)) s of (consumed, r, s') \<Rightarrow>
       let s' = s'\<lparr>waiting_buffer := (waiting_buffer s')[unat (waiting_buffer_tail s) := r]\<rparr> in
       if consumed then process_waiting n env now (s'\<lparr>waiting_buffer_tail := next_slot (waiting_buffer_tail s')\<rparr>) else s'))"

definition action_tapping_process :: "kb_env \<Rightarrow> u16 \<Rightarrow> keyrecord_t \<Rightarrow> kb_st \<Rightarrow> kb_st" where
  "action_tapping_process env now r s =
    (let s = (case process_tapping env now r s of (consumed, r, s) \<Rightarrow>
           if consumed then s
           else (case waiting_buffer_enq r s of (stored, s) \<Rightarrow>
             if stored then s
             else set_tapping_key no_record (waiting_buffer_clear (map_act (clear_keyboard (oneshot_timeout env) now) s)))) in
     process_waiting WAITING_BUFFER_SIZE env now s)"

subsection \<open>The entry\<close>

definition pre_process_record_quantum :: "keyrecord_t \<Rightarrow> bool" where "pre_process_record_quantum r = True"

definition action_exec :: "kb_env \<Rightarrow> u16 \<Rightarrow> keyevent_t \<Rightarrow> kb_st \<Rightarrow> kb_st" where
  "action_exec env now e s =
    (let s = (if event_pressed e then map_act clear_weak_mods s else s);
         s = (if is_oneshot_enabled (act s) \<and> 0 < oneshot_timeout env then
            let s = (if has_oneshot_layer_timed_out (oneshot_timeout env) now (act s)
                then map_act (clear_oneshot_layer_state ONESHOT_OTHER_KEY_PRESSED) s else s) in
            if has_oneshot_mods_timed_out (oneshot_timeout env) now (act s) then map_act clear_oneshot_mods s else s
          else s);
         r = record_for e in
     if IS_NOEVENT (event r) \<or> pre_process_record_quantum r then action_tapping_process env now r s else s)"

end
