(* ===== verification/Qmk_Matrix_Task.thy ===== *)
theory Qmk_Matrix_Task
  imports Qmk_Tapping
begin

text \<open>
  From the debounced matrix to key events: \<^verbatim>\<open>matrix_task\<close> of \<^verbatim>\<open>quantum/keyboard.c\<close>, which compares the matrix with the
  one it has seen before, and the tick events that drive the tapping code.  The debounced rows are the
  input; \<open>clock r c\<close> is what \<^verbatim>\<open>timer_read\<close> returns when the key in that row and column is processed.  The
  matrix of this keyboard has diodes, so there is no ghosting.
\<close>

type_synonym matrix_row_t = u16

record matrix_st =
  kb :: kb_st
  matrix_previous :: "matrix_row_t list"
  last_tick :: u16
  switch_log :: "(nat \<times> nat \<times> bool) list"

definition exec_event :: "kb_env \<Rightarrow> u16 \<Rightarrow> keyevent_t \<Rightarrow> matrix_st \<Rightarrow> matrix_st" where
  "exec_event env now e m = m\<lparr>kb := action_exec env now e (kb m)\<rparr>"

definition generate_tick_event :: "kb_env \<Rightarrow> u16 \<Rightarrow> matrix_st \<Rightarrow> matrix_st" where
  "generate_tick_event env now m =
    (if TIMER_DIFF_16 now (last_tick m) \<noteq> 0 then (exec_event env now (TICK_EVENT now) m)\<lparr>last_tick := now\<rparr> else m)"

text \<open>The LED animations see the switches; the call is recorded.\<close>

definition switch_events :: "nat \<Rightarrow> nat \<Rightarrow> bool \<Rightarrow> matrix_st \<Rightarrow> matrix_st" where
  "switch_events r c press m = m\<lparr>switch_log := (r, c, press) # switch_log m\<rparr>"

definition key_task :: "kb_env \<Rightarrow> (nat \<Rightarrow> nat \<Rightarrow> u16) \<Rightarrow> bool \<Rightarrow> nat \<Rightarrow> matrix_row_t \<Rightarrow> matrix_row_t \<Rightarrow> nat \<Rightarrow> matrix_st \<Rightarrow> matrix_st" where
  "key_task env clock process_keypress r current changes c m =
    (if bit changes c then
       let press = bit current c;
           m = (if process_keypress
             then exec_event env (clock r c) (MAKE_KEYEVENT (clock r c) (of_nat r) (of_nat c) press) m else m) in
       switch_events r c press m
     else m)"

definition row_task :: "kb_env \<Rightarrow> (nat \<Rightarrow> nat \<Rightarrow> u16) \<Rightarrow> bool \<Rightarrow> matrix_row_t list \<Rightarrow> nat \<Rightarrow> matrix_st \<Rightarrow> matrix_st" where
  "row_task env clock process_keypress rows r m =
    (let current = rows ! r; changes = current XOR (matrix_previous m ! r) in
     if changes = 0 then m
     else let m = fold (key_task env clock process_keypress r current changes) [0..<MATRIX_COLS] m in
       m\<lparr>matrix_previous := (matrix_previous m)[r := current]\<rparr>)"

definition matrix_task :: "kb_env \<Rightarrow> bool \<Rightarrow> bool \<Rightarrow> u16 \<Rightarrow> (nat \<Rightarrow> nat \<Rightarrow> u16) \<Rightarrow> matrix_row_t list \<Rightarrow> matrix_st \<Rightarrow> bool \<times> matrix_st" where
  "matrix_task env can_read process_keypress now clock rows m =
    (if \<not> can_read then (False, generate_tick_event env now m)
     else if \<forall>r \<in> set [0..<MATRIX_ROWS]. matrix_previous m ! r XOR rows ! r = 0 then (False, generate_tick_event env now m)
     else (True, fold (row_task env clock process_keypress rows) [0..<MATRIX_ROWS] m))"

end
