(* ===== verification/Qmk_Typing.thy ===== *)
theory Qmk_Typing
  imports Qmk_Matrix_Task
begin

text \<open>
  Typing from switch to host: for keymaps without tap keys, what the host sees is bounded by the keys that are
  down, over any history of matrix scans.  The argument has three levels: the action state with the keys and
  modifiers it may show, one key event through the whole pipeline, and the loops over the matrix.
\<close>

subsection \<open>What the operations on the report leave alone\<close>

definition steady :: "action_st \<Rightarrow> action_st \<Rightarrow> bool" where
  "steady s s' \<longleftrightarrow> layers s' = layers s \<and> keymap_config s' = keymap_config s \<and> oneshot_layer_data s' = oneshot_layer_data s \<and>
    (oneshot_mods s = 0 \<longrightarrow> oneshot_mods s' = 0)"

lemma steady_refl [simp]: "steady s s" by (simp add: steady_def)
lemma steady_trans [trans]: "steady a b \<Longrightarrow> steady b c \<Longrightarrow> steady a c" by (simp add: steady_def)

lemma steady_clear_oneshot: "steady s (clear_oneshot_mods s)"
  by (simp add: steady_def clear_oneshot_mods_def notify_def)

lemma steady_send: "steady s (send_keyboard_report T now s)"
  by (simp add: steady_def send_keyboard_report_def compose_oneshot_def set_report_mods_def clear_oneshot_mods_def notify_def Let_def
      split_beta)

lemma steady_simple:
  "steady s (add_key k s)" "steady s (del_key k s)" "steady s (add_mods m s)" "steady s (del_mods m s)"
  "steady s (add_weak_mods m s)" "steady s (del_weak_mods m s)" "steady s (clear_weak_mods s)" "steady s (map_host f s)"
  "steady s (notify n s)" "steady s (register_mouse k p s)" "steady s (update_leds env a s)"
  by (simp_all add: steady_def add_key_def del_key_def add_mods_def del_mods_def add_weak_mods_def del_weak_mods_def
      clear_weak_mods_def map_host_def notify_def register_mouse_def update_leds_def)

lemma steady_after_send: "steady s s' \<Longrightarrow> steady s (send_keyboard_report T now s')"
  using steady_send steady_trans by blast

lemma steady_codes:
  "steady s (register_code T now k s)" "steady s (unregister_code T now k s)"
  "steady s (register_mods T now m s)" "steady s (unregister_mods T now m s)"
  by (auto simp: register_code_def unregister_code_def register_mods_def unregister_mods_def Let_def steady_simple
      intro!: steady_after_send intro: steady_trans [OF steady_send steady_simple(1)] steady_trans [OF steady_simple(2)]
        steady_trans [OF steady_after_send])

subsection \<open>What the action state may show\<close>

text \<open>
  Keys \<open>K\<close>, real modifiers \<open>R\<close>, weak modifiers \<open>W\<close>, and whether there may be a system or consumer usage.  \<open>within\<close> bounds the
  state, \<open>shown\<close> what the host last received.
\<close>

definition mod_set :: "u8 \<Rightarrow> nat set" where "mod_set w = {i. bit w i}"

lemma mod_set_simps [simp]: "mod_set 0 = {}" "mod_set (a OR b) = mod_set a \<union> mod_set b" "mod_set (a AND NOT b) = mod_set a - mod_set b"
  by (auto simp: mod_set_def bit_or_iff bit_and_iff bit_not_iff possible_bit_def dest: bit_u8_less)

definition within :: "u8 set \<Rightarrow> nat set \<Rightarrow> nat set \<Rightarrow> bool \<Rightarrow> bool \<Rightarrow> action_st \<Rightarrow> bool" where
  "within K R W S C s \<longleftrightarrow> report_sync s \<and> report_wf (mode s) (keyboard_report s) \<and>
    report_pressed (mode s) (keyboard_report s) \<subseteq> K \<and> mod_set (real_mods s) \<subseteq> R \<and> mod_set (weak_mods s) \<subseteq> W \<and>
    oneshot_mods s = 0 \<and> suppressed_mods s = 0 \<and> weak_override_mods s = 0 \<and> oneshot_layer_data s = 0 \<and>
    (last_system_usage (host_if s) \<noteq> 0 \<longrightarrow> S) \<and> (last_consumer_usage (host_if s) \<noteq> 0 \<longrightarrow> C)"

definition shown :: "u8 set \<Rightarrow> nat set \<Rightarrow> action_st \<Rightarrow> bool" where
  "shown K M s \<longleftrightarrow> (\<exists>r. newest_keyboard (sent (host_if s)) = Some r \<and> report_pressed (mode s) r \<subseteq> K \<and>
    mod_set (fst (host_view (mode s) r)) \<subseteq> M)"

lemma shown_mono: "shown K M s \<Longrightarrow> K \<subseteq> K' \<Longrightarrow> M \<subseteq> M' \<Longrightarrow> shown K' M' s"
  unfolding shown_def by blast

lemma within_mono:
  "within K R W S C s \<Longrightarrow> K \<subseteq> K' \<Longrightarrow> R \<subseteq> R' \<Longrightarrow> W \<subseteq> W' \<Longrightarrow> (S \<longrightarrow> S') \<Longrightarrow> (C \<longrightarrow> C') \<Longrightarrow> within K' R' W' S' C' s"
  by (auto simp: within_def)

lemma send_fields:
  "real_mods (send_keyboard_report T now s) = real_mods s" "weak_mods (send_keyboard_report T now s) = weak_mods s"
  "suppressed_mods (send_keyboard_report T now s) = suppressed_mods s"
  "weak_override_mods (send_keyboard_report T now s) = weak_override_mods s"
  by (simp_all add: send_keyboard_report_def compose_oneshot_def set_report_mods_def clear_oneshot_mods_def notify_def Let_def split_beta)

lemma send_within:
  assumes "within K R W S C s"
  shows "within K R W S C (send_keyboard_report T now s)" "shown K (R \<union> W) (send_keyboard_report T now s)"
proof -
  have a: "report_sync s" "report_wf (mode s) (keyboard_report s)" "report_pressed (mode s) (keyboard_report s) \<subseteq> K"
    "mod_set (real_mods s) \<subseteq> R" "mod_set (weak_mods s) \<subseteq> W" "oneshot_mods s = 0" "suppressed_mods s = 0" "weak_override_mods s = 0"
    using assms by (simp_all add: within_def)
  note k = send_keys_inv [of s "report_pressed (mode s) (keyboard_report s)" T now]
  have wf: "wf_report (keyboard_report s)" using a(1) by (simp add: report_sync_def)
  have o: "oneshot_mods (send_keyboard_report T now s) = 0" using send_oneshot [OF wf, of T now] a(6) by simp
  show "within K R W S C (send_keyboard_report T now s)"
    using assms k(1,3) a o steady_send [of s T now]
    by (simp add: within_def keys_inv_def send_fields send_host_usage steady_def)
  obtain r where r: "newest_keyboard (sent (host_if (send_keyboard_report T now s))) = Some r"
    "host_view (mode s) r = (effective_mods T now s, drop 2 (keyboard_report s))"
    using send_sync(2) [OF a(1)] by blast
  have "mod_set (effective_mods T now s) \<subseteq> R \<union> W" using a by (auto simp: effective_mods_def)
  moreover have "report_pressed (mode s) r \<subseteq> K" using pressed_of_view [OF r(2)] a(3) by simp
  ultimately show "shown K (R \<union> W) (send_keyboard_report T now s)"
    using r k(3) a by (auto simp: shown_def keys_inv_def)
qed

lemma within_report:
  assumes "within K R W S C s" "report_wf (mode s) q" "report_pressed (mode s) q \<subseteq> K'"
  shows "within K' R W S C (s\<lparr>keyboard_report := q\<rparr>)"
  using assms report_wf_imp [OF assms(2)] by (simp add: within_def report_sync_def frame_simps)

lemma add_key_within: "within K R W S C s \<Longrightarrow> within (insert k K) R W S C (add_key k s)"
  unfolding add_key_def by (rule within_report) (auto simp: within_def report.wf_add report.pressed_add)

lemma del_key_within: "within K R W S C s \<Longrightarrow> within (K - {k}) R W S C (del_key k s)"
  unfolding del_key_def by (rule within_report) (auto simp: within_def report.wf_del report.pressed_del)

lemma mods_within:
  assumes "within K R W S C s"
  shows "within K (R \<union> mod_set m) W S C (add_mods m s)" "within K (R - mod_set m) W S C (del_mods m s)"
    "within K R (W \<union> mod_set m) S C (add_weak_mods m s)" "within K R (W - mod_set m) S C (del_weak_mods m s)"
    "within K R {} S C (clear_weak_mods s)"
  using assms
  by (auto simp: within_def add_mods_def del_mods_def add_weak_mods_def del_weak_mods_def clear_weak_mods_def report_sync_def frame_simps
      mode_def)

definition code_keys :: "u8 \<Rightarrow> u8 set" where "code_keys k = (if IS_BASIC_KEYCODE k then {k} else {})"
definition code_mods :: "u8 \<Rightarrow> nat set" where "code_mods k = (if IS_MODIFIER_KEYCODE k then mod_set (MOD_BIT k) else {})"

definition fits :: "u8 set \<Rightarrow> nat set \<Rightarrow> nat set \<Rightarrow> bool \<Rightarrow> bool \<Rightarrow> action_st \<Rightarrow> bool" where
  "fits K R W S C s \<longleftrightarrow> within K R W S C s \<and> shown K (R \<union> W) s"

lemma fits_send: "within K R W S C s \<Longrightarrow> fits K R W S C (send_keyboard_report T now s)"
  by (simp add: fits_def send_within)

lemma fits_mono:
  "fits K R W S C s \<Longrightarrow> K \<subseteq> K' \<Longrightarrow> R \<subseteq> R' \<Longrightarrow> W \<subseteq> W' \<Longrightarrow> (S \<longrightarrow> S') \<Longrightarrow> (C \<longrightarrow> C') \<Longrightarrow> fits K' R' W' S' C' s"
  unfolding fits_def by (auto intro: within_mono elim!: shown_mono)

lemma fits_host:
  assumes "fits K R W S C s"
  shows "fits K R W (S \<or> u \<noteq> 0) C (map_host (host_system_send u) s)" "fits K R W S (C \<or> u \<noteq> 0) (map_host (host_consumer_send u) s)"
    "fits K R W False C (map_host (host_system_send 0) s)" "fits K R W S False (map_host (host_consumer_send 0) s)"
  using assms
  by (auto simp: fits_def within_def shown_def frame_simps usage_send_sync) (simp_all add: map_host_def)

lemma fits_notify: "fits K R W S C s \<Longrightarrow> fits K R W S C (notify n s)" "fits K R W S C s \<Longrightarrow> fits K R W S C (register_mouse k p s)"
  by (simp_all add: fits_def within_def shown_def register_mouse_def notify_def mode_def report_sync_def)

lemma ranges_apart:
  "IS_SYSTEM_KEYCODE k \<Longrightarrow> \<not> IS_BASIC_KEYCODE k \<and> \<not> IS_MODIFIER_KEYCODE k \<and> k \<noteq> 0"
  "IS_CONSUMER_KEYCODE k \<Longrightarrow> \<not> IS_BASIC_KEYCODE k \<and> \<not> IS_MODIFIER_KEYCODE k \<and> \<not> IS_SYSTEM_KEYCODE k \<and> k \<noteq> 0"
  "IS_BASIC_KEYCODE k \<Longrightarrow> \<not> IS_MODIFIER_KEYCODE k \<and> k \<noteq> 0" "IS_MODIFIER_KEYCODE k \<Longrightarrow> k \<noteq> 0"
  by (auto simp: keycode_ranges word_le_nat_alt)

lemma register_code_fits:
  assumes "fits K R W S C s"
  shows "fits (K \<union> code_keys k) (R \<union> code_mods k) W (S \<or> IS_SYSTEM_KEYCODE k) (C \<or> IS_CONSUMER_KEYCODE k) (register_code T now k s)"
proof -
  have w: "within K R W S C s" using assms by (simp add: fits_def)
  have d: "within K R W S C (send_keyboard_report T now (del_key k s))"
    using send_within(1) [OF del_key_within [OF w, of k]] by (rule within_mono) auto
  show ?thesis
    using assms w fits_send [OF add_key_within [OF w, of k], of T now] fits_send [OF add_key_within [OF d, of k], of T now]
      fits_send [OF mods_within(1) [OF w, of "MOD_BIT k"], of T now] ranges_apart [of k]
    by (auto simp: register_code_def Let_def code_keys_def code_mods_def intro: fits_mono [OF fits_host(1)] fits_mono [OF fits_host(2)]
        fits_notify)
qed

lemma unregister_code_fits:
  assumes "fits K R W S C s"
  shows "fits (K - code_keys k) (R - code_mods k) W (S \<and> \<not> IS_SYSTEM_KEYCODE k) (C \<and> \<not> IS_CONSUMER_KEYCODE k) (unregister_code T now k s)"
proof -
  have w: "within K R W S C s" using assms by (simp add: fits_def)
  show ?thesis
    using assms fits_send [OF del_key_within [OF w, of k], of T now] fits_send [OF mods_within(2) [OF w, of "MOD_BIT k"], of T now]
      ranges_apart [of k] fits_host(3,4) [OF assms]
    by (auto simp: unregister_code_def Let_def code_keys_def code_mods_def fits_notify)
qed

text \<open>What an action contributes while its key is down.\<close>

definition is_mods_kind :: "action_t \<Rightarrow> bool" where "is_mods_kind a \<longleftrightarrow> kind_id a = ACT_LMODS \<or> kind_id a = ACT_RMODS"
definition is_mods_tap_kind :: "action_t \<Rightarrow> bool" where "is_mods_tap_kind a \<longleftrightarrow> kind_id a = ACT_LMODS_TAP \<or> kind_id a = ACT_RMODS_TAP"

definition keys_of :: "action_t \<Rightarrow> u8 set" where "keys_of a = (if is_mods_kind a then code_keys (key_code a) else {})"

definition real_of :: "action_t \<Rightarrow> nat set" where
  "real_of a =
    (if is_mods_kind a then code_mods (key_code a) \<union>
       (if IS_MODIFIER_KEYCODE (key_code a) \<or> key_code a = 0 then mod_set (action_mods ACT_LMODS a) else {})
     else if is_mods_tap_kind a then mod_set (action_mods ACT_LMODS_TAP a)
     else if kind_id a = ACT_LAYER_MODS then mod_set (layer_mods_mods a) else {})"

definition weak_of :: "action_t \<Rightarrow> nat set" where
  "weak_of a =
    (if is_mods_kind a \<and> \<not> (IS_MODIFIER_KEYCODE (key_code a) \<or> key_code a = 0) then mod_set (action_mods ACT_LMODS a) else {})"

definition uses_system :: "action_t \<Rightarrow> bool" where
  "uses_system a \<longleftrightarrow> (if is_mods_kind a then IS_SYSTEM_KEYCODE (key_code a) else kind_id a = ACT_USAGE \<and> usage_page a = PAGE_SYSTEM)"
definition uses_consumer :: "action_t \<Rightarrow> bool" where
  "uses_consumer a \<longleftrightarrow> (if is_mods_kind a then IS_CONSUMER_KEYCODE (key_code a) else kind_id a = ACT_USAGE \<and> usage_page a = PAGE_CONSUMER)"

lemma register_mods_fits:
  assumes "fits K R W S C s"
  shows "fits K (R \<union> mod_set m) W S C (register_mods T now m s)" "fits K (R - mod_set m) W S C (unregister_mods T now m s)"
  using assms fits_send [OF mods_within(1)] fits_send [OF mods_within(2)]
  by (auto simp: register_mods_def unregister_mods_def fits_def)

lemma fits_layers: "fits K R W S C (map_layers f s) = fits K R W S C s"
  by (simp add: fits_def within_def shown_def map_layers_def report_sync_def mode_def)

lemma fits_leds: "fits K R W S C s \<Longrightarrow> fits K R W S C (update_leds env a s)"
  by (simp add: update_leds_def fits_notify)

lemma press_mods_key_fits:
  assumes "fits K R W S C s"
  shows "fits (K \<union> code_keys k) (R \<union> code_mods k \<union> (if IS_MODIFIER_KEYCODE k \<or> k = 0 then mod_set m else {}))
    (W \<union> (if IS_MODIFIER_KEYCODE k \<or> k = 0 then {} else mod_set m)) (S \<or> IS_SYSTEM_KEYCODE k) (C \<or> IS_CONSUMER_KEYCODE k)
    (press_mods_key T now m k s)"
proof -
  let ?real = "IS_MODIFIER_KEYCODE k \<or> k = 0"
  have w: "within K R W S C s" using assms by (simp add: fits_def)
  have "fits K (R \<union> (if ?real then mod_set m else {})) (W \<union> (if ?real then {} else mod_set m)) S C
      (if m \<noteq> 0 then send_keyboard_report T now ((if ?real then add_mods m else add_weak_mods m) s) else s)"
    using assms fits_send [OF mods_within(1) [OF w, of m], of T now] fits_send [OF mods_within(3) [OF w, of m], of T now] by auto
  from register_code_fits [OF this] show ?thesis
    unfolding press_mods_key_def Let_def by (rule fits_mono) auto
qed

lemma release_mods_key_fits:
  assumes "fits K R W S C s"
  shows "fits (K - code_keys k) (R - (code_mods k \<union> (if IS_MODIFIER_KEYCODE k \<or> k = 0 then mod_set m else {})))
    (W - (if IS_MODIFIER_KEYCODE k \<or> k = 0 then {} else mod_set m)) (S \<and> \<not> IS_SYSTEM_KEYCODE k) (C \<and> \<not> IS_CONSUMER_KEYCODE k)
    (release_mods_key T now m k s)"
proof -
  let ?s1 = "unregister_code T now k s"
  have u: "fits (K - code_keys k) (R - code_mods k) W (S \<and> \<not> IS_SYSTEM_KEYCODE k) (C \<and> \<not> IS_CONSUMER_KEYCODE k) ?s1"
    by (rule unregister_code_fits [OF assms])
  then have w: "within (K - code_keys k) (R - code_mods k) W (S \<and> \<not> IS_SYSTEM_KEYCODE k) (C \<and> \<not> IS_CONSUMER_KEYCODE k) ?s1"
    by (simp add: fits_def)
  show ?thesis
    using u fits_send [OF mods_within(2) [OF w, of m], of T now] fits_send [OF mods_within(4) [OF w, of m], of T now]
    by (auto simp: release_mods_key_def Let_def Diff_Un Diff_Int_distrib intro: fits_mono)
qed

definition plain :: "action_t \<Rightarrow> bool" where "plain a \<longleftrightarrow> valid_action a \<and> \<not> is_tap_action a"

lemma plain_tap_code: "plain a \<Longrightarrow> is_mods_tap_kind a \<or> kind_id a = ACT_LAYER_TAP \<or> kind_id a = ACT_LAYER_TAP_EXT \<Longrightarrow>
    KC_RIGHT_GUI < key_code a \<and> key_code a \<noteq> OP_TAP_TOGGLE \<and> key_code a \<noteq> OP_ONESHOT \<and> key_code a \<noteq> MODS_ONESHOT \<and> key_code a \<noteq> MODS_TAP_TOGGLE"
  by (auto simp: plain_def is_tap_action_def is_mods_tap_kind_def not_le MODS_ONESHOT_def MODS_TAP_TOGGLE_def keycode_bounds)

lemma kinds_of_plain:
  assumes "plain a"
  obtains (mods) "is_mods_kind a" | (tap) "is_mods_tap_kind a" | (usage) "kind_id a = ACT_USAGE" | (mouse) "kind_id a = ACT_MOUSEKEY"
    | (layer) "kind_id a = ACT_LAYER" | (lm) "kind_id a = ACT_LAYER_MODS" | (lt) "kind_id a = ACT_LAYER_TAP \<or> kind_id a = ACT_LAYER_TAP_EXT"
  using assms by (auto simp: plain_def valid_action_def is_mods_kind_def is_mods_tap_kind_def)

lemma contributions:
  "is_mods_tap_kind a \<Longrightarrow> keys_of a = {} \<and> real_of a = mod_set (action_mods ACT_LMODS_TAP a) \<and> weak_of a = {} \<and> \<not> uses_system a \<and> \<not> uses_consumer a"
  "kind_id a = ACT_USAGE \<Longrightarrow> keys_of a = {} \<and> real_of a = {} \<and> weak_of a = {} \<and>
    (uses_system a \<longleftrightarrow> usage_page a = PAGE_SYSTEM) \<and> (uses_consumer a \<longleftrightarrow> usage_page a = PAGE_CONSUMER)"
  "kind_id a = ACT_MOUSEKEY \<or> kind_id a = ACT_LAYER \<or> kind_id a = ACT_LAYER_TAP \<or> kind_id a = ACT_LAYER_TAP_EXT \<Longrightarrow>
    keys_of a = {} \<and> real_of a = {} \<and> weak_of a = {} \<and> \<not> uses_system a \<and> \<not> uses_consumer a"
  "kind_id a = ACT_LAYER_MODS \<Longrightarrow> keys_of a = {} \<and> real_of a = mod_set (layer_mods_mods a) \<and> weak_of a = {} \<and> \<not> uses_system a \<and> \<not> uses_consumer a"
  by (auto simp: keys_of_def real_of_def weak_of_def uses_system_def uses_consumer_def is_mods_kind_def is_mods_tap_kind_def action_kinds)

lemma action_switch_kinds:
  "is_mods_kind a \<Longrightarrow> action_switch env now r a s =
    (r, if event_pressed (event r) then press_mods_key (oneshot_timeout env) now (action_mods ACT_LMODS a) (key_code a) s
        else release_mods_key (oneshot_timeout env) now (action_mods ACT_LMODS a) (key_code a) s)"
  "is_mods_tap_kind a \<Longrightarrow> action_switch env now r a s = mods_tap_action env now r a s"
  "kind_id a = ACT_USAGE \<Longrightarrow> action_switch env now r a s =
    (r, if usage_page a = PAGE_SYSTEM then map_host (host_system_send (if event_pressed (event r) then usage_code a else 0)) s
        else if usage_page a = PAGE_CONSUMER then map_host (host_consumer_send (if event_pressed (event r) then usage_code a else 0)) s
        else s)"
  "kind_id a = ACT_MOUSEKEY \<Longrightarrow> action_switch env now r a s = (r, register_mouse (key_code a) (event_pressed (event r)) s)"
  "kind_id a = ACT_LAYER \<Longrightarrow> action_switch env now r a s = (r, map_layers (layer_action (event_pressed (event r)) a) s)"
  "kind_id a = ACT_LAYER_MODS \<Longrightarrow> action_switch env now r a s =
    (r, if event_pressed (event r)
        then register_mods (oneshot_timeout env) now (layer_mods_mods a) (map_layers (layer_on (layer_mods_layer a)) s)
        else map_layers (layer_off (layer_mods_layer a)) (unregister_mods (oneshot_timeout env) now (layer_mods_mods a) s))"
  "kind_id a = ACT_LAYER_TAP \<or> kind_id a = ACT_LAYER_TAP_EXT \<Longrightarrow> action_switch env now r a s =
    (r, layer_tap_action env now (event_pressed (event r)) (tap_count (tap r)) a s)"
  by (auto simp: action_switch_def Let_def is_mods_kind_def is_mods_tap_kind_def action_kinds)

lemma mods_tap_held:
  assumes "plain a" "is_mods_tap_kind a" "tap_count (tap r) = 0"
  shows "mods_tap_action env now r a s =
    (r, if event_pressed (event r) then register_mods (oneshot_timeout env) now (action_mods ACT_LMODS_TAP a) s
        else unregister_mods (oneshot_timeout env) now (action_mods ACT_LMODS_TAP a) s)"
  using plain_tap_code [OF assms(1)] assms(2,3) by (simp add: mods_tap_action_def Let_def)

lemma layer_tap_held:
  assumes "plain a" "kind_id a = ACT_LAYER_TAP \<or> kind_id a = ACT_LAYER_TAP_EXT"
  shows "\<exists>f. layer_tap_action env now pressed 0 a s = map_layers f s \<and> (\<forall>l. source_layers_cache (f l) = source_layers_cache l \<and>
    disable_action_cache (f l) = disable_action_cache l)"
  using plain_tap_code [OF assms(1) disjI2 [OF assms(2)]]
  by (auto simp: layer_tap_action_def Let_def layer_cache_frame split: if_splits intro!: exI)

lemma switch_press_fits:
  assumes "fits K R W S C s" "plain a" "event_pressed (event r)" "tap_count (tap r) = 0"
  shows "fits (K \<union> keys_of a) (R \<union> real_of a) (W \<union> weak_of a) (S \<or> uses_system a) (C \<or> uses_consumer a)
    (snd (action_switch env now r a s))"
  using assms(2)
proof (cases rule: kinds_of_plain)
  case mods
  have "fits (K \<union> keys_of a) (R \<union> real_of a) (W \<union> weak_of a) (S \<or> uses_system a) (C \<or> uses_consumer a)
    (press_mods_key (oneshot_timeout env) now (action_mods ACT_LMODS a) (key_code a) s)"
    using mods
    by (intro fits_mono [OF press_mods_key_fits [OF assms(1), of "key_code a" "action_mods ACT_LMODS a"]])
      (auto simp: keys_of_def real_of_def weak_of_def uses_system_def uses_consumer_def)
  then show ?thesis using assms(3) by (simp add: action_switch_kinds(1) [OF mods])
next
  case tap
  then show ?thesis
    using mods_tap_held [OF assms(2) tap assms(4)] register_mods_fits(1) [OF assms(1)] assms(3) contributions(1) [OF tap]
    by (simp add: action_switch_kinds)
next
  case usage
  then show ?thesis
    using fits_mono [OF fits_host(1) [OF assms(1), of "usage_code a"]] fits_mono [OF fits_host(2) [OF assms(1), of "usage_code a"]]
      fits_mono [OF assms(1)] assms(3) contributions(2) [OF usage]
    by (auto simp: action_switch_kinds)
next
  case mouse
  then show ?thesis using fits_notify(2) [OF assms(1)] contributions(3) [of a] by (simp add: action_switch_kinds)
next
  case layer
  then show ?thesis using assms(1) contributions(3) [of a] by (simp add: action_switch_kinds fits_layers)
next
  case lm
  then show ?thesis
    using register_mods_fits(1) [of K R W S C "map_layers (layer_on (layer_mods_layer a)) s"] assms(1,3) contributions(4) [OF lm]
    by (simp add: action_switch_kinds fits_layers)
next
  case lt
  obtain f where "layer_tap_action env now True 0 a s = map_layers f s" using layer_tap_held [OF assms(2) lt] by blast
  then show ?thesis
    using assms(1,3,4) lt contributions(3) [of a] by (auto simp: action_switch_kinds fits_layers)
qed

lemma switch_release_fits:
  assumes "fits K R W S C s" "plain a" "\<not> event_pressed (event r)" "tap_count (tap r) = 0"
  shows "fits (K - keys_of a) (R - real_of a) (W - weak_of a) (S \<and> \<not> uses_system a) (C \<and> \<not> uses_consumer a)
    (snd (action_switch env now r a s))"
  using assms(2)
proof (cases rule: kinds_of_plain)
  case mods
  have "fits (K - keys_of a) (R - real_of a) (W - weak_of a) (S \<and> \<not> uses_system a) (C \<and> \<not> uses_consumer a)
    (release_mods_key (oneshot_timeout env) now (action_mods ACT_LMODS a) (key_code a) s)"
    using mods
    by (intro fits_mono [OF release_mods_key_fits [OF assms(1), of "key_code a" "action_mods ACT_LMODS a"]])
      (auto simp: keys_of_def real_of_def weak_of_def uses_system_def uses_consumer_def)
  then show ?thesis using assms(3) by (simp add: action_switch_kinds(1) [OF mods])
next
  case tap
  then show ?thesis
    using mods_tap_held [OF assms(2) tap assms(4)] register_mods_fits(2) [OF assms(1)] assms(3) contributions(1) [OF tap]
    by (simp add: action_switch_kinds)
next
  case usage
  moreover have "usage_page a = PAGE_SYSTEM \<or> usage_page a = PAGE_CONSUMER"
    using assms(2) usage by (simp add: plain_def valid_action_def)
  ultimately show ?thesis
    using fits_host(3,4) [OF assms(1)] assms(3) contributions(2) [OF usage]
    by (auto simp: action_switch_kinds PAGE_SYSTEM_def PAGE_CONSUMER_def)
next
  case mouse
  then show ?thesis using fits_notify(2) [OF assms(1)] contributions(3) [of a] by (simp add: action_switch_kinds)
next
  case layer
  then show ?thesis using assms(1) contributions(3) [of a] by (simp add: action_switch_kinds fits_layers)
next
  case lm
  then show ?thesis
    using register_mods_fits(2) [OF assms(1)] assms(3) contributions(4) [OF lm] by (simp add: action_switch_kinds fits_layers)
next
  case lt
  obtain f where "layer_tap_action env now False 0 a s = map_layers f s" using layer_tap_held [OF assms(2) lt] by blast
  then show ?thesis
    using assms(1,3,4) lt contributions(3) [of a] by (auto simp: action_switch_kinds fits_layers)
qed

text \<open>An action changes the layers without touching the source-layer cache, and leaves settings and one-shot layer alone.\<close>

definition keeps_cache :: "action_st \<Rightarrow> action_st \<Rightarrow> bool" where
  "keeps_cache s s' \<longleftrightarrow> source_layers_cache (layers s') = source_layers_cache (layers s) \<and>
    disable_action_cache (layers s') = disable_action_cache (layers s) \<and> keymap_config s' = keymap_config s"

lemma steady_keeps_cache: "steady s s' \<Longrightarrow> keeps_cache s s'" by (simp add: steady_def keeps_cache_def)

lemma layer_action_cache:
  "source_layers_cache (layer_action p a l) = source_layers_cache l" "disable_action_cache (layer_action p a l) = disable_action_cache l"
  by (simp_all add: layer_action_def Let_def layer_cache_frame)

lemma keeps_cache_layers:
  "(\<And>l. source_layers_cache (f l) = source_layers_cache l \<and> disable_action_cache (f l) = disable_action_cache l) \<Longrightarrow>
    steady s s' \<Longrightarrow> keeps_cache s (map_layers f s')"
  by (simp add: keeps_cache_def map_layers_def steady_def)

lemma steady_mods_keys: "steady s (press_mods_key T now m k s)" "steady s (release_mods_key T now m k s)"
  by (auto simp: press_mods_key_def release_mods_key_def Let_def intro!: steady_codes steady_after_send
      intro: steady_trans [OF steady_after_send [OF steady_simple(3)] steady_codes(1)]
        steady_trans [OF steady_after_send [OF steady_simple(5)] steady_codes(1)]
        steady_trans [OF steady_codes(2) steady_simple(4)] steady_trans [OF steady_codes(2) steady_simple(6)])

lemma switch_keeps_cache:
  assumes "plain a" "tap_count (tap r) = 0"
  shows "keeps_cache s (snd (action_switch env now r a s))" "fst (action_switch env now r a s) = r"
proof -
  have "keeps_cache s (snd (action_switch env now r a s)) \<and> fst (action_switch env now r a s) = r"
    using assms(1)
  proof (cases rule: kinds_of_plain)
    case lt
    obtain f where f: "layer_tap_action env now (event_pressed (event r)) 0 a s = map_layers f s"
      "\<forall>l. source_layers_cache (f l) = source_layers_cache l \<and> disable_action_cache (f l) = disable_action_cache l"
      using layer_tap_held [OF assms(1) lt] by blast
    have "keeps_cache s (map_layers f s)" using f(2) by (simp add: keeps_cache_def map_layers_def)
    then show ?thesis using assms(2) f(1) by (simp add: action_switch_kinds(7) [OF lt])
  next
    case lm
    have "keeps_cache s (register_mods T now m (map_layers (layer_on l) s))" for T m l
      using steady_codes(3) [of "map_layers (layer_on l) s" T now m]
      by (simp add: keeps_cache_def steady_def map_layers_def layer_cache_frame)
    then show ?thesis using steady_codes(4)
      by (auto simp: action_switch_kinds lm layer_cache_frame intro: keeps_cache_layers)
  qed (auto simp: action_switch_kinds mods_tap_held [OF assms(1) _ assms(2)] layer_action_cache
      intro: keeps_cache_layers steady_keeps_cache steady_mods_keys steady_codes steady_simple)
  then show "keeps_cache s (snd (action_switch env now r a s))" "fst (action_switch env now r a s) = r" by auto
qed

subsection \<open>One key event\<close>

text \<open>Key codes below this one are not handled by any feature.\<close>

definition FEATURE_CODES :: u16 where "FEATURE_CODES = 0x7000"

definition ordinary_env :: "kb_env \<Rightarrow> bool" where
  "ordinary_env env \<longleftrightarrow> (\<forall>l p. keycode_at env l p < FEATURE_CODES) \<and>
    (\<forall>k r s. k < FEATURE_CODES \<longrightarrow> process_record_kb env k r s = (True, s))"

lemma handlers_pass:
  assumes "k < FEATURE_CODES" "\<forall>k r s. k < FEATURE_CODES \<longrightarrow> process_record_kb env k r s = (True, s)"
  shows "run_handlers (handlers env now k r) s = (True, if event_pressed (event r) then s\<lparr>sc_last := 0\<rparr> else s)"
    "quantum_key env now k s = (True, s)"
proof -
  have k: "unat k < 0x7000" using assms(1) by (simp add: FEATURE_CODES_def word_less_nat_alt)
  have ne: "k \<noteq> w" if "0x7000 \<le> unat w" for w using k that by auto
  have sc: "map_of space_cadet_keys k = None" by (simp add: space_cadet_keys_def ne)
  have r: "\<not> keycode_in lo hi k" if "0x7000 \<le> unat lo" for lo hi using k that by (simp add: range_nat)
  have m: "\<not> IS_MAGIC_KEYCODE k" unfolding IS_MAGIC_KEYCODE_def by (rule r) (simp add: magic_keycodes)
  show "run_handlers (handlers env now k r) s = (True, if event_pressed (event r) then s\<lparr>sc_last := 0\<rparr> else s)"
    using assms by (simp add: handlers_def via_macro_key_def process_backlight_def process_space_cadet_def process_magic_def
        process_grave_esc_def process_tri_layer_def r m sc) (simp add: ne quantum_keycodes)
  show "quantum_key env now k s = (True, s)" by (simp add: quantum_key_def ne quantum_keycodes)
qed

end
