(* ===== verification/Qmk_Key_Events.thy ===== *)
theory Qmk_Key_Events
  imports Qmk_Typing
begin

text \<open>
  One key event through the whole pipeline, and histories of matrix scans, for keymaps without tap keys: the
  invariant that ties what the host may see to the keys that are down.
\<close>

subsection \<open>A record without a tap\<close>

definition plain_keymap :: "kb_env \<Rightarrow> action_st \<Rightarrow> bool" where
  "plain_keymap env a \<longleftrightarrow> (\<forall>l p. plain (the_keymap env a l p))"

text \<open>The layers after the two lookups of a press, and after those of a release.\<close>

definition event_layers :: "keymap_fun \<Rightarrow> bool \<Rightarrow> keypos_t \<Rightarrow> layer_st \<Rightarrow> layer_st" where
  "event_layers km press p L =
    (if press then let l = layer_switch_get_layer km p L in update_source_layers_cache p l (update_source_layers_cache p l L) else L)"

definition event_layer :: "keymap_fun \<Rightarrow> bool \<Rightarrow> keypos_t \<Rightarrow> layer_st \<Rightarrow> u8" where
  "event_layer km press p L = (if press then layer_switch_get_layer km p L else read_source_layers_cache p L)"

lemma get_layer_cache [simp]:
  "layer_switch_get_layer km p (update_source_layers_cache q l L) = layer_switch_get_layer km p L"
  "disable_action_cache (update_source_layers_cache q l L) = disable_action_cache L"
  "layer_state (update_source_layers_cache q l L) = layer_state L"
  by (simp_all add: layer_switch_get_layer_def update_source_layers_cache_def)

lemma the_keymap_frame [simp]:
  "the_keymap env (map_layers f a) = the_keymap env a" "layers (map_layers f a) = f (layers a)"
  "oneshot_layer_data (map_layers f a) = oneshot_layer_data a"
  by (simp_all add: the_keymap_def map_layers_def)

lemma ordinary_code:
  assumes "ordinary_env env"
  shows "keymap_key_to_keycode (keycode_at env) l p < FEATURE_CODES"
  using assms by (simp add: keymap_key_to_keycode_def ordinary_env_def FEATURE_CODES_def)

definition sc_cleared :: "bool \<Rightarrow> kb_st \<Rightarrow> kb_st" where "sc_cleared press s = (if press then s\<lparr>sc_last := 0\<rparr> else s)"

lemma process_quantum_plain:
  assumes "ordinary_env env" "\<not> disable_action_cache (layers (act s))"
  shows "process_record_quantum env now r s =
    (True, sc_cleared (event_pressed (event r)) (s\<lparr>act := (if event_pressed (event r)
      then map_layers (update_source_layers_cache (event_key (event r)) (layer_switch_get_layer (the_keymap env (act s)) (event_key (event r)) (layers (act s)))) (act s)
      else act s)\<rparr>))"
proof -
  have hook: "\<forall>k r s. k < FEATURE_CODES \<longrightarrow> process_record_kb env k r s = (True, s)" using assms(1) by (simp add: ordinary_env_def)
  note h = handlers_pass [OF ordinary_code [OF assms(1)] hook]
  show ?thesis
    using assms(2) by (simp add: process_record_quantum_def get_record_keycode_def get_event_keycode_def Let_def h sc_cleared_def)
qed

lemma map_layers_twice [simp]: "map_layers f (map_layers g a) = map_layers (\<lambda>l. f (g l)) a"
  by (simp add: map_layers_def)

lemma process_action_plain_keys:
  assumes "plain a" "tap_count (tap r) = 0" "oneshot_layer_data (act s) = 0"
  shows "process_action env now r a s = (r, s\<lparr>act := update_leds env a (snd (action_switch env now r a (act s)))\<rparr>)"
proof -
  have "\<not> is_oneshot_layer_active (act s)"
    using assms(3) by (simp add: is_oneshot_layer_active_def get_oneshot_layer_state_def)
  then show ?thesis
    using switch_keeps_cache(2) [OF assms(1,2)]
    by (simp add: process_action_def process_action_body_def uses_oneshot_layer_def Let_def split_beta)
qed

lemma process_plain:
  assumes "ordinary_env env" "plain_keymap env (act s)" "\<not> disable_action_cache (layers (act s))"
    "IS_EVENT (event r)" "tap_count (tap r) = 0" "oneshot_layer_data (act s) = 0"
  defines "km \<equiv> the_keymap env (act s)" and "press \<equiv> event_pressed (event r)" and "p \<equiv> event_key (event r)"
  defines "a \<equiv> km (event_layer km press p (layers (act s))) p"
  shows "process_record env now r s =
    (r, sc_cleared press (s\<lparr>act := update_leds env a (snd (action_switch env now r a (map_layers (event_layers km press p) (act s))))\<rparr>))"
proof -
  have pl: "plain (km l p)" for l using assms(2) by (simp add: plain_keymap_def km_def)
  note pa = process_action_plain_keys [OF pl assms(5)]
  have id: "map_layers (\<lambda>_. layers x) x = x" "map_layers (\<lambda>l. l) x = x" for x by (simp_all add: map_layers_def)
  have ml: "map_layers (event_layers km b q) x = map_layers (\<lambda>_. event_layers km b q (layers x)) x" for b q x
    by (simp add: map_layers_def)
  have swap: "s\<lparr>sc_last := 0, act := x\<rparr> = s\<lparr>act := x, sc_last := 0\<rparr>" for x by simp
  show ?thesis
    unfolding process_record_def process_record_with_def process_quantum_plain [OF assms(1,3)] process_record_handler_with_def
    using assms(3,4,6)
    by (cases press)
      (simp_all add: press_def [symmetric] p_def [symmetric] km_def [symmetric] a_def event_layer_def event_layers_def IS_EVENT_def
        store_or_get_action_def Let_def sc_cleared_def map_act_def pa id ml swap)
qed

subsection \<open>An event while nothing is being tapped\<close>

definition idle :: "kb_st \<Rightarrow> bool" where
  "idle s \<longleftrightarrow> \<not> IS_TAPPING s \<and> waiting_buffer_head s = waiting_buffer_tail s"

lemma idle_frame [simp]:
  "idle (s\<lparr>act := a\<rparr>) = idle s" "idle (sc_cleared b s) = idle s" "idle (map_act f s) = idle s"
  "act (sc_cleared b s) = act s" "IS_TAPPING (s\<lparr>act := a\<rparr>) = IS_TAPPING s" "IS_TAPPING (sc_cleared b s) = IS_TAPPING s"
  by (simp_all add: idle_def IS_TAPPING_def sc_cleared_def map_act_def)

lemma process_waiting_idle [simp]: "idle s \<Longrightarrow> process_waiting n env now s = s"
  by (cases n) (simp_all add: idle_def)

lemma tapping_process_idle:
  assumes "idle s" "\<not> (event_pressed (event r) \<and> is_tap_record env r (act s))" "process_record env now r s = (r', s')" "idle s'"
  shows "action_tapping_process env now r s = s'"
proof -
  have "\<not> IS_TAPPING s" using assms(1) by (simp add: idle_def)
  then show ?thesis
    using assms(2-4) by (auto simp: action_tapping_process_def process_tapping_def IS_TAPPING_PRESSED_def IS_TAPPING_RELEASED_def)
qed

lemma no_oneshot_to_clear:
  assumes "oneshot_layer_data a = 0" "oneshot_mods a = 0"
  shows "clear_oneshot_layer_state m a = a" "clear_oneshot_mods a = a"
  using assms by (simp_all add: clear_oneshot_layer_state_def clear_oneshot_mods_def Let_def)

definition weak_cleared :: "bool \<Rightarrow> action_st \<Rightarrow> action_st" where "weak_cleared press a = (if press then clear_weak_mods a else a)"

lemma weak_cleared_frame [simp]:
  "layers (weak_cleared b a) = layers a" "the_keymap env (weak_cleared b a) = the_keymap env a"
  "oneshot_layer_data (weak_cleared b a) = oneshot_layer_data a" "oneshot_mods (weak_cleared b a) = oneshot_mods a"
  by (simp_all add: weak_cleared_def clear_weak_mods_def the_keymap_def)

lemma action_exec_idle:
  assumes "idle s" "oneshot_layer_data (act s) = 0" "oneshot_mods (act s) = 0"
  shows "action_exec env now e s =
    action_tapping_process env now (record_for e) (s\<lparr>act := weak_cleared (event_pressed e) (act s)\<rparr>)"
proof -
  have "map_act f x = x" if "f (act x) = act x" for f x using that by (simp add: map_act_def)
  then show ?thesis
    using assms(2,3)
    by (simp add: action_exec_def Let_def weak_cleared_def map_act_def no_oneshot_to_clear pre_process_record_quantum_def
        clear_weak_mods_def)
qed

lemma action_exec_tick:
  assumes "idle s" "oneshot_layer_data (act s) = 0" "oneshot_mods (act s) = 0" "IS_NOEVENT e" "\<not> event_pressed e"
  shows "action_exec env now e s = s"
  unfolding action_exec_idle [OF assms(1-3)] using assms(1,4,5)
  by (intro tapping_process_idle) (simp_all add: weak_cleared_def record_for_def process_record_def process_record_with_def)

lemma action_exec_plain:
  assumes "idle s" "oneshot_layer_data (act s) = 0" "oneshot_mods (act s) = 0" "ordinary_env env" "plain_keymap env (act s)"
    "\<not> disable_action_cache (layers (act s))" "IS_EVENT e"
  defines "km \<equiv> the_keymap env (act s)" and "press \<equiv> event_pressed e" and "p \<equiv> event_key e"
  defines "a \<equiv> km (event_layer km press p (layers (act s))) p"
  shows "action_exec env now e s = sc_cleared press (s\<lparr>act := update_leds env a (snd (action_switch env now (record_for e) a
      (map_layers (event_layers km press p) (weak_cleared press (act s)))))\<rparr>)"
proof -
  let ?s = "s\<lparr>act := weak_cleared press (act s)\<rparr>"
  have pk: "plain_keymap env (act ?s)" using assms(5) by (simp add: plain_keymap_def)
  have r: "IS_EVENT (event (record_for e))" "tap_count (tap (record_for e)) = 0" "event (record_for e) = e"
    using assms(7) by (simp_all add: record_for_def no_tap_def)
  have nt: "\<not> is_tap_record env (record_for e) (act ?s)"
    using pk by (simp add: is_tap_record_def plain_keymap_def plain_def layer_switch_get_action_def)
  note pr = process_plain [OF assms(4) pk _ r(1,2), of now]
  show ?thesis
    unfolding action_exec_idle [OF assms(1-3)] press_def [symmetric]
  proof (rule tapping_process_idle)
    show "process_record env now (record_for e) ?s = (record_for e, sc_cleared press (s\<lparr>act := update_leds env a (snd (action_switch env now (record_for e) a
      (map_layers (event_layers km press p) (weak_cleared press (act s)))))\<rparr>))"
      using pr assms(2,6) by (simp add: r(3) press_def [symmetric] p_def [symmetric] km_def [symmetric] a_def)
  qed (use assms(1) nt in simp_all)
qed

subsection \<open>The keys that are down\<close>

definition held_action :: "kb_env \<Rightarrow> action_st \<Rightarrow> keypos_t \<Rightarrow> action_t" where
  "held_action env a p = the_keymap env a (read_source_layers_cache p (layers a)) p"

definition held_fits :: "(keypos_t \<Rightarrow> action_t) \<Rightarrow> keypos_t set \<Rightarrow> action_st \<Rightarrow> bool" where
  "held_fits A H = fits (\<Union>p\<in>H. keys_of (A p)) (\<Union>p\<in>H. real_of (A p)) (\<Union>p\<in>H. weak_of (A p))
    (\<exists>p\<in>H. uses_system (A p)) (\<exists>p\<in>H. uses_consumer (A p))"

definition typing_inv :: "kb_env \<Rightarrow> keypos_t set \<Rightarrow> kb_st \<Rightarrow> bool" where
  "typing_inv env H s \<longleftrightarrow> idle s \<and> plain_keymap env (act s) \<and> wf_layers (layers (act s)) \<and>
    \<not> disable_action_cache (layers (act s)) \<and> H \<subseteq> Collect in_matrix \<and> held_fits (held_action env (act s)) H (act s)"

lemma fits_oneshot: "fits K R W S C a \<Longrightarrow> oneshot_layer_data a = 0 \<and> oneshot_mods a = 0"
  by (simp add: fits_def within_def)

lemma typing_inv_oneshot: "typing_inv env H s \<Longrightarrow> oneshot_layer_data (act s) = 0 \<and> oneshot_mods (act s) = 0"
  by (auto simp: typing_inv_def held_fits_def dest: fits_oneshot)

lemma fits_weak_cleared: "fits K R W S C a \<Longrightarrow> fits K R W S C (weak_cleared b a)"
proof -
  assume f: "fits K R W S C a"
  then have "within K R W S C a" by (simp add: fits_def)
  then have "within K R {} S C (clear_weak_mods a)" by (rule mods_within(5))
  then have "within K R W S C (clear_weak_mods a)" by (rule within_mono) auto
  moreover have "shown K (R \<union> W) (clear_weak_mods a)"
    using f by (simp add: fits_def shown_def clear_weak_mods_def mode_def)
  ultimately show ?thesis using f by (simp add: fits_def weak_cleared_def)
qed

lemma read_cache_cong:
  "source_layers_cache L = source_layers_cache L' \<Longrightarrow> read_source_layers_cache q L = read_source_layers_cache q L'"
  by (simp add: read_source_layers_cache_def)

lemma event_layers_cache:
  assumes "wf_layers L" "in_matrix p"
  shows "wf_layers (event_layers km press p L)" "disable_action_cache (event_layers km press p L) = disable_action_cache L"
    "read_source_layers_cache p (event_layers km press p L) = event_layer km press p L"
    "in_matrix q \<Longrightarrow> q \<noteq> p \<Longrightarrow> read_source_layers_cache q (event_layers km press p L) = read_source_layers_cache q L"
  using assms layer_cache.wf_put [of L p] layer_cache.get_put_same layer_cache.get_put_other layer_cache.wf_put
    layer_switch_get_layer_less [of km p L]
  by (simp_all add: event_layers_def event_layer_def Let_def)

text \<open>What a key event leaves of the state: the cache of the event, the settings, and the bounds of the action.\<close>

lemma event_result:
  assumes "typing_inv env H s" "ordinary_env env" "IS_EVENT e" "in_matrix (event_key e)"
  defines "km \<equiv> the_keymap env (act s)" and "press \<equiv> event_pressed e" and "p \<equiv> event_key e"
  defines "a \<equiv> km (event_layer km press p (layers (act s))) p"
  defines "x \<equiv> map_layers (event_layers km press p) (weak_cleared press (act s))"
  obtains s' where "action_exec env now e s = s'" "idle s'" "act s' = update_leds env a (snd (action_switch env now (record_for e) a x))"
    "the_keymap env (act s') = km" "wf_layers (layers (act s'))" "\<not> disable_action_cache (layers (act s'))"
    "held_action env (act s') p = a" "\<forall>q. in_matrix q \<and> q \<noteq> p \<longrightarrow> held_action env (act s') q = held_action env (act s) q"
proof -
  have i: "idle s" "plain_keymap env (act s)" "wf_layers (layers (act s))" "\<not> disable_action_cache (layers (act s))"
    using assms(1) by (simp_all add: typing_inv_def)
  have pl: "plain a" using i(2) by (simp add: plain_keymap_def a_def km_def)
  have r: "tap_count (tap (record_for e)) = 0" by (simp add: record_for_def no_tap_def)
  define s' where "s' = action_exec env now e s"
  have s': "s' = sc_cleared press (s\<lparr>act := update_leds env a (snd (action_switch env now (record_for e) a x))\<rparr>)"
    unfolding s'_def x_def a_def km_def press_def p_def
    using typing_inv_oneshot [OF assms(1)] by (intro action_exec_plain i assms(2,3)) simp_all
  have act': "act s' = update_leds env a (snd (action_switch env now (record_for e) a x))" by (simp add: s')
  have k: "keeps_cache x (act s')"
    using switch_keeps_cache(1) [OF pl r, of x env now] steady_keeps_cache [OF steady_simple(11)]
    by (simp add: act' keeps_cache_def)
  have cache: "source_layers_cache (layers (act s')) = source_layers_cache (event_layers km press p (layers (act s)))"
    "disable_action_cache (layers (act s')) = disable_action_cache (event_layers km press p (layers (act s)))"
    "keymap_config (act s') = keymap_config (act s)"
    using k by (simp_all add: keeps_cache_def x_def) (simp add: map_layers_def weak_cleared_def clear_weak_mods_def)
  note ev = event_layers_cache [OF i(3) assms(4) [folded p_def], where km = km and press = press]
  have km': "the_keymap env (act s') = km" using cache(3) by (simp add: the_keymap_def km_def)
  show thesis
  proof (rule that)
    show "action_exec env now e s = s'" by (simp add: s'_def)
    show "idle s'" using i(1) by (simp add: s')
    show "wf_layers (layers (act s'))" using ev(1) cache(1) by (simp add: wf_layers_def)
    show "held_action env (act s') p = a"
      using ev(3) read_cache_cong [OF cache(1), of p] by (simp add: held_action_def km' a_def)
    show "\<forall>q. in_matrix q \<and> q \<noteq> p \<longrightarrow> held_action env (act s') q = held_action env (act s) q"
      using ev(4) read_cache_cong [OF cache(1)] by (simp add: held_action_def km') (simp add: km_def)
  qed (use act' km' cache(2) ev(2) i(4) in simp_all)
qed

lemma held_fits_press:
  assumes "held_fits A H x" "plain a" "\<forall>q\<in>H. A' q = A q" "A' p = a" "event_pressed (event r)" "tap_count (tap r) = 0"
  shows "held_fits A' (insert p H) (update_leds env a (snd (action_switch env now r a x)))"
proof -
  note f = fits_leds [OF switch_press_fits [OF assms(1) [unfolded held_fits_def] assms(2,5,6), of env now], of env a]
  show ?thesis unfolding held_fits_def by (rule fits_mono [OF f]) (use assms(3,4) in auto)
qed

lemma held_fits_release:
  assumes "held_fits A H x" "plain a" "\<forall>q\<in>H - {p}. A' q = A q" "A p = a" "\<not> event_pressed (event r)" "tap_count (tap r) = 0"
  shows "held_fits A' (H - {p}) (update_leds env a (snd (action_switch env now r a x)))"
proof -
  note f = fits_leds [OF switch_release_fits [OF assms(1) [unfolded held_fits_def] assms(2,5,6), of env now], of env a]
  show ?thesis unfolding held_fits_def by (rule fits_mono [OF f]) (use assms(3,4) in auto)
qed

lemma press_keeps_inv:
  assumes "typing_inv env H s" "ordinary_env env" "IS_EVENT e" "event_pressed e" "in_matrix (event_key e)" "event_key e \<notin> H"
  shows "typing_inv env (insert (event_key e) H) (action_exec env now e s)"
proof -
  let ?km = "the_keymap env (act s)" and ?p = "event_key e" and ?r = "record_for e"
  let ?a = "?km (event_layer ?km True ?p (layers (act s))) ?p"
  let ?x = "map_layers (event_layers ?km True ?p) (weak_cleared True (act s))"
  have H: "H \<subseteq> Collect in_matrix" "plain_keymap env (act s)" "held_fits (held_action env (act s)) H (act s)"
    using assms(1) by (simp_all add: typing_inv_def)
  obtain s' where s': "action_exec env now e s = s'" "idle s'" "act s' = update_leds env ?a (snd (action_switch env now ?r ?a ?x))"
    "the_keymap env (act s') = ?km" "wf_layers (layers (act s'))" "\<not> disable_action_cache (layers (act s'))"
    "held_action env (act s') ?p = ?a" "\<forall>q. in_matrix q \<and> q \<noteq> ?p \<longrightarrow> held_action env (act s') q = held_action env (act s) q"
    using event_result [OF assms(1-3,5), of now] assms(4) by auto
  have x: "held_fits (held_action env (act s)) H ?x" using H(3) by (simp add: held_fits_def fits_layers fits_weak_cleared)
  have "held_fits (held_action env (act s')) (insert ?p H) (act s')" unfolding s'(3)
    by (rule held_fits_press [OF x]) (use H s'(7,8) assms(4,6) s'(3) in \<open>auto simp: plain_keymap_def record_for_def no_tap_def\<close>)
  then show ?thesis using s'(1,2,4-6) H assms(5) by (simp add: typing_inv_def plain_keymap_def)
qed

lemma release_keeps_inv:
  assumes "typing_inv env H s" "ordinary_env env" "IS_EVENT e" "\<not> event_pressed e" "in_matrix (event_key e)"
  shows "typing_inv env (H - {event_key e}) (action_exec env now e s)"
proof -
  let ?km = "the_keymap env (act s)" and ?p = "event_key e" and ?r = "record_for e"
  let ?a = "?km (event_layer ?km False ?p (layers (act s))) ?p"
  let ?x = "map_layers (event_layers ?km False ?p) (weak_cleared False (act s))"
  have H: "H \<subseteq> Collect in_matrix" "plain_keymap env (act s)" "held_fits (held_action env (act s)) H (act s)"
    using assms(1) by (simp_all add: typing_inv_def)
  obtain s' where s': "action_exec env now e s = s'" "idle s'" "act s' = update_leds env ?a (snd (action_switch env now ?r ?a ?x))"
    "the_keymap env (act s') = ?km" "wf_layers (layers (act s'))" "\<not> disable_action_cache (layers (act s'))"
    "held_action env (act s') ?p = ?a" "\<forall>q. in_matrix q \<and> q \<noteq> ?p \<longrightarrow> held_action env (act s') q = held_action env (act s) q"
    using event_result [OF assms(1-3,5), of now] assms(4) by auto
  have x: "held_fits (held_action env (act s)) H ?x" using H(3) by (simp add: held_fits_def fits_layers fits_weak_cleared)
  have a: "held_action env (act s) ?p = ?a" by (simp add: held_action_def event_layer_def)
  have "held_fits (held_action env (act s')) (H - {?p}) (act s')" unfolding s'(3)
    by (rule held_fits_release [OF x _ _ a]) (use H s'(8) assms(4) s'(3) in \<open>auto simp: plain_keymap_def record_for_def no_tap_def\<close>)
  then show ?thesis using s'(1,2,4-6) H by (auto simp: typing_inv_def plain_keymap_def)
qed

subsection \<open>Scans of the matrix\<close>

definition key_at :: "nat \<Rightarrow> nat \<Rightarrow> keypos_t" where "key_at r c = \<lparr>col = of_nat c, row = of_nat r\<rparr>"

definition down :: "matrix_row_t list \<Rightarrow> keypos_t set" where
  "down rows = {p. in_matrix p \<and> bit (rows ! unat (row p)) (unat (col p))}"

text \<open>In the middle of a row: the first \<open>c\<close> keys of row \<open>r\<close> are taken over.\<close>

definition partly_down :: "matrix_row_t list \<Rightarrow> nat \<Rightarrow> matrix_row_t \<Rightarrow> nat \<Rightarrow> keypos_t set" where
  "partly_down rows r current c =
    {p. in_matrix p \<and> bit (if unat (row p) = r \<and> unat (col p) < c then current else rows ! unat (row p)) (unat (col p))}"

lemma key_at_facts:
  assumes "r < 6" "c < 16"
  shows "in_matrix (key_at r c)" "unat (row (key_at r c)) = r" "unat (col (key_at r c)) = c"
    "in_matrix p \<and> unat (row p) = r \<and> unat (col p) = c \<longleftrightarrow> p = key_at r c"
proof -
  show a: "unat (row (key_at r c)) = r" "unat (col (key_at r c)) = c" using assms by (simp_all add: key_at_def unat_of_nat_u8)
  then show b: "in_matrix (key_at r c)" using assms by (simp add: in_matrix_def)
  show "in_matrix p \<and> unat (row p) = r \<and> unat (col p) = c \<longleftrightarrow> p = key_at r c"
    using a b by (cases p) (auto simp: key_at_def word_unat_eq_iff)
qed

lemma partly_down_step:
  assumes "r < 6" "c < 16"
  shows "partly_down rows r current (Suc c) =
    (if bit current c then insert (key_at r c) (partly_down rows r current c) else partly_down rows r current c - {key_at r c})"
  using key_at_facts [OF assms] assms
  by (auto simp: partly_down_def less_Suc_eq split: if_splits)

lemma partly_down_same:
  assumes "r < 6" "c < 16" "bit current c = bit (rows ! r) c"
  shows "partly_down rows r current (Suc c) = partly_down rows r current c"
proof -
  have "key_at r c \<in> partly_down rows r current c \<longleftrightarrow> bit (rows ! r) c"
    using key_at_facts(1-3) [OF assms(1,2)] by (simp add: partly_down_def)
  then show ?thesis using partly_down_step [OF assms(1,2), of rows current] assms(3) by auto
qed

lemma key_event_facts:
  assumes "r < 6" "c < 16"
  shows "IS_EVENT (MAKE_KEYEVENT now (of_nat r) (of_nat c) b)" "event_key (MAKE_KEYEVENT now (of_nat r) (of_nat c) b) = key_at r c"
    "event_pressed (MAKE_KEYEVENT now (of_nat r) (of_nat c) b) = b"
proof -
  have "bit (now OR 1) 0" by (simp add: bit_or_iff)
  then have "now OR 1 \<noteq> 0" by auto
  moreover have "(of_nat r :: u8) \<noteq> 255"
  proof
    assume "(of_nat r :: u8) = 255"
    then have "unat (of_nat r :: u8) = unat (255 :: u8)" by simp
    then show False using assms(1) by (simp add: unat_of_nat_u8)
  qed
  ultimately show "IS_EVENT (MAKE_KEYEVENT now (of_nat r) (of_nat c) b)"
    by (simp add: IS_EVENT_def IS_NOEVENT_def MAKE_KEYEVENT_def KEYLOC_TICK_def)
qed (simp_all add: MAKE_KEYEVENT_def key_at_def)

lemma key_task_inv:
  assumes "typing_inv env (partly_down rows r current c) (kb m)" "ordinary_env env" "r < 6" "c < 16"
  shows "typing_inv env (partly_down rows r current (Suc c)) (kb (key_task env clock True r current (current XOR rows ! r) c m))"
    "matrix_previous (key_task env clock True r current (current XOR rows ! r) c m) = matrix_previous m"
proof -
  note k = key_event_facts [OF assms(3,4), of "clock r c"] key_at_facts(1) [OF assms(3,4)]
  have mem: "key_at r c \<in> partly_down rows r current c \<longleftrightarrow> bit (rows ! r) c"
    using key_at_facts(1-3) [OF assms(3,4)] by (simp add: partly_down_def)
  show "typing_inv env (partly_down rows r current (Suc c)) (kb (key_task env clock True r current (current XOR rows ! r) c m))"
  proof (cases "bit current c = bit (rows ! r) c")
    case True
    then show ?thesis using assms(1) partly_down_same [OF assms(3,4) True] by (simp add: key_task_def bit_xor_iff)
  next
    case False
    then show ?thesis
      using press_keeps_inv [OF assms(1,2) k(1), of True "clock r c"] release_keeps_inv [OF assms(1,2) k(1), of False "clock r c"]
        partly_down_step [OF assms(3,4), of rows current] k mem
      by (cases "bit current c") (simp_all add: key_task_def bit_xor_iff exec_event_def switch_events_def Let_def)
  qed
qed (simp add: key_task_def exec_event_def switch_events_def Let_def)

lemma keys_inv_fold:
  assumes "typing_inv env (partly_down rows r current 0) (kb m)" "ordinary_env env" "r < 6" "c \<le> 16"
  shows "typing_inv env (partly_down rows r current c) (kb (fold (key_task env clock True r current (current XOR rows ! r)) [0..<c] m)) \<and>
    matrix_previous (fold (key_task env clock True r current (current XOR rows ! r)) [0..<c] m) = matrix_previous m"
  using assms(4)
proof (induction c)
  case 0
  then show ?case using assms(1) by simp
next
  case (Suc c)
  then show ?case
    using key_task_inv [OF _ assms(2,3), of rows current c "fold (key_task env clock True r current (current XOR rows ! r)) [0..<c] m" clock]
    by simp
qed

lemma partly_down_ends:
  assumes "r < length rows"
  shows "partly_down rows r current 0 = down rows" "partly_down rows r current 16 = down (rows[r := current])"
  using assms by (auto simp: partly_down_def down_def in_matrix_def nth_list_update)

definition matrix_inv :: "kb_env \<Rightarrow> matrix_st \<Rightarrow> bool" where
  "matrix_inv env m \<longleftrightarrow> length (matrix_previous m) = MATRIX_ROWS \<and> typing_inv env (down (matrix_previous m)) (kb m)"

lemma row_task_inv:
  assumes "matrix_inv env m" "ordinary_env env" "r < 6"
  shows "matrix_inv env (row_task env clock True rows r m) \<and>
    matrix_previous (row_task env clock True rows r m) = (matrix_previous m)[r := rows ! r]"
proof (cases "rows ! r XOR matrix_previous m ! r = 0")
  case True
  then show ?thesis using assms(1) by (simp add: row_task_def Let_def xor_eq_zero_iff)
next
  case False
  let ?f = "fold (key_task env clock True r (rows ! r) (rows ! r XOR matrix_previous m ! r)) [0..<16] m"
  have l: "r < length (matrix_previous m)" using assms(1,3) by (simp add: matrix_inv_def)
  have "typing_inv env (partly_down (matrix_previous m) r (rows ! r) 0) (kb m)"
    using assms(1) by (simp add: matrix_inv_def partly_down_ends(1) [OF l])
  from keys_inv_fold [OF this assms(2,3), of 16 clock]
  have "typing_inv env (down ((matrix_previous m)[r := rows ! r])) (kb ?f)" "matrix_previous ?f = matrix_previous m"
    by (simp_all add: partly_down_ends(2) [OF l])
  then show ?thesis using False assms(1) by (simp add: row_task_def Let_def matrix_inv_def)
qed

lemma rows_inv:
  assumes "matrix_inv env m" "ordinary_env env" "n \<le> 6"
  shows "matrix_inv env (fold (row_task env clock True rows) [0..<n] m) \<and>
    (\<forall>r < 6. matrix_previous (fold (row_task env clock True rows) [0..<n] m) ! r = (if r < n then rows ! r else matrix_previous m ! r))"
  using assms(3)
proof (induction n)
  case 0
  then show ?case using assms(1) by simp
next
  case (Suc n)
  let ?m = "fold (row_task env clock True rows) [0..<n] m"
  have i: "matrix_inv env ?m" "\<forall>r < 6. matrix_previous ?m ! r = (if r < n then rows ! r else matrix_previous m ! r)"
    using Suc by simp_all
  have "length (matrix_previous ?m) = 6" using i(1) by (simp add: matrix_inv_def)
  then show ?case using row_task_inv [OF i(1) assms(2), of n clock rows] i(2) Suc.prems
    by (auto simp: nth_list_update less_Suc_eq)
qed

lemma tick_inv:
  assumes "matrix_inv env m"
  shows "matrix_inv env (generate_tick_event env now m)" "matrix_previous (generate_tick_event env now m) = matrix_previous m"
proof -
  have i: "idle (kb m)" "oneshot_layer_data (act (kb m)) = 0" "oneshot_mods (act (kb m)) = 0"
    using assms typing_inv_oneshot [of env "down (matrix_previous m)" "kb m"] by (simp_all add: matrix_inv_def typing_inv_def)
  have "IS_NOEVENT (TICK_EVENT now)" "\<not> event_pressed (TICK_EVENT now)"
    by (simp_all add: TICK_EVENT_def MAKE_KEYEVENT_def IS_NOEVENT_def)
  note t = action_exec_tick [OF i this]
  show "matrix_inv env (generate_tick_event env now m)" "matrix_previous (generate_tick_event env now m) = matrix_previous m"
    using assms t by (simp_all add: generate_tick_event_def matrix_inv_def exec_event_def)
qed

lemma matrix_task_inv:
  assumes "matrix_inv env m" "ordinary_env env" "length rows = 6"
  shows "matrix_inv env (snd (matrix_task env can_read True now clock rows m))"
    "can_read \<Longrightarrow> matrix_previous (snd (matrix_task env can_read True now clock rows m)) = rows"
proof -
  have l: "length (matrix_previous m) = 6" using assms(1) by (simp add: matrix_inv_def)
  note all = rows_inv [OF assms(1,2) order_refl, of clock rows]
  have "length (matrix_previous (fold (row_task env clock True rows) [0..<6] m)) = 6" using all by (simp add: matrix_inv_def)
  with all have "matrix_previous (fold (row_task env clock True rows) [0..<6] m) = rows"
    using assms(3) by (intro nth_equalityI) auto
  moreover have "matrix_previous m = rows" if "\<forall>r\<in>set [0..<6]. matrix_previous m ! r XOR rows ! r = 0"
    using that l assms(3) by (intro nth_equalityI) (auto simp: xor_eq_zero_iff)
  ultimately show "matrix_inv env (snd (matrix_task env can_read True now clock rows m))"
    "can_read \<Longrightarrow> matrix_previous (snd (matrix_task env can_read True now clock rows m)) = rows"
    using all tick_inv [OF assms(1), of now] by (auto simp: matrix_task_def)
qed

subsection \<open>Histories\<close>

text \<open>A call of the task: whether the matrix can be read, the timer, the timer at each key, and the rows.\<close>

type_synonym scan = "bool \<times> u16 \<times> (nat \<Rightarrow> nat \<Rightarrow> u16) \<times> matrix_row_t list"

fun run_scans :: "kb_env \<Rightarrow> scan list \<Rightarrow> matrix_st \<Rightarrow> matrix_st" where
  "run_scans env [] m = m"
| "run_scans env ((can_read, now, clock, rows) # scans) m =
    run_scans env scans (snd (matrix_task env can_read True now clock rows m))"

lemma run_scans_inv:
  "matrix_inv env m \<Longrightarrow> ordinary_env env \<Longrightarrow> \<forall>(_, _, _, rows) \<in> set scans. length rows = 6 \<Longrightarrow> matrix_inv env (run_scans env scans m)"
  by (induction env scans m rule: run_scans.induct) (auto simp: matrix_task_inv)

lemma run_scans_append: "run_scans env (xs @ ys) m = run_scans env ys (run_scans env xs m)"
  by (induction env xs m rule: run_scans.induct) auto

lemma held_fits_shown:
  assumes "held_fits A H a"
  shows "\<exists>r. newest_keyboard (sent (host_if a)) = Some r \<and> report_pressed (mode a) r \<subseteq> (\<Union>p\<in>H. keys_of (A p)) \<and>
    mod_set (fst (host_view (mode a) r)) \<subseteq> (\<Union>p\<in>H. real_of (A p) \<union> weak_of (A p)) \<and>
    (H = {} \<longrightarrow> fst (host_view (mode a) r) = 0 \<and> last_system_usage (host_if a) = 0 \<and> last_consumer_usage (host_if a) = 0)"
proof -
  have f: "within (\<Union>p\<in>H. keys_of (A p)) (\<Union>p\<in>H. real_of (A p)) (\<Union>p\<in>H. weak_of (A p)) (\<exists>p\<in>H. uses_system (A p))
      (\<exists>p\<in>H. uses_consumer (A p)) a" "shown (\<Union>p\<in>H. keys_of (A p)) ((\<Union>p\<in>H. real_of (A p)) \<union> (\<Union>p\<in>H. weak_of (A p))) a"
    using assms by (simp_all add: held_fits_def fits_def)
  have z: "mod_set w = {} \<Longrightarrow> w = 0" for w by (auto simp: mod_set_def word_eq_zero_iff_bits)
  obtain r where r: "newest_keyboard (sent (host_if a)) = Some r" "report_pressed (mode a) r \<subseteq> (\<Union>p\<in>H. keys_of (A p))"
    "mod_set (fst (host_view (mode a) r)) \<subseteq> (\<Union>p\<in>H. real_of (A p)) \<union> (\<Union>p\<in>H. weak_of (A p))"
    using f(2) by (auto simp: shown_def)
  have "H = {} \<longrightarrow> fst (host_view (mode a) r) = 0 \<and> last_system_usage (host_if a) = 0 \<and> last_consumer_usage (host_if a) = 0"
    using f(1) r(3) z by (auto simp: within_def)
  then show ?thesis using r by (intro exI [of _ r]) (auto simp: UN_Un_distrib)
qed

text \<open>From switch to host, for a keymap without tap keys: after any history of matrix scans, the keys and modifiers
  the host shows are those of keys that are down in the last scan, each with the action of the layer it was
  pressed on; when all switches are open the host shows no key, no modifier and no media usage.\<close>
lemma host_shows_only_keys_down:
  assumes "matrix_inv env m" "ordinary_env env" "\<forall>(_, _, _, rows) \<in> set scans. length rows = 6" "length rows = 6"
    "m' = run_scans env (scans @ [(True, now, clock, rows)]) m" "a = act (kb m')"
  shows "\<exists>r. newest_keyboard (sent (host_if a)) = Some r \<and>
    report_pressed (mode a) r \<subseteq> (\<Union>p\<in>down rows. keys_of (held_action env a p)) \<and>
    mod_set (fst (host_view (mode a) r)) \<subseteq> (\<Union>p\<in>down rows. real_of (held_action env a p) \<union> weak_of (held_action env a p)) \<and>
    (down rows = {} \<longrightarrow> report_pressed (mode a) r = {} \<and> fst (host_view (mode a) r) = 0 \<and>
      last_system_usage (host_if a) = 0 \<and> last_consumer_usage (host_if a) = 0)"
proof -
  note i = run_scans_inv [OF assms(1-3)]
  have "matrix_inv env m'" "matrix_previous m' = rows"
    using matrix_task_inv [OF i assms(2,4), of True now clock] by (simp_all add: assms(5) run_scans_append)
  then have "held_fits (held_action env a) (down rows) a" by (simp add: matrix_inv_def typing_inv_def assms(6))
  from held_fits_shown [OF this] show ?thesis by auto
qed

text \<open>A keymap with a shifted A in the corner and A everywhere else, and the keyboard at rest.\<close>

definition demo_env :: kb_env where
  "demo_env = \<lparr>keycode_at = (\<lambda>l p. if p = key_at 0 0 then 0x0204 else 4), oneshot_timeout = 0, tapping_term = 200, quick_tap_term = 200,
    permissive_hold = False, hold_on_other_key_press = False, ignore_mod_tap_interrupt = False, stored_config = 0x400,
    host_leds = (\<lambda>_. 0), process_record_kb = (\<lambda>k r s. (True, s)), macro_send = (\<lambda>i a. a)\<rparr>"

definition rest :: kb_st where
  "rest = \<lparr>act = idle_action, grave_esc_was_shifted = False, sc_last = 0, sc_timer = 0, tri_layer_lower_layer = 1, tri_layer_upper_layer = 2,
    tri_layer_adjust_layer = 3, tapping_key = no_record, waiting_buffer = replicate 8 no_record, waiting_buffer_head = 0,
    waiting_buffer_tail = 0\<rparr>"

definition matrix_rest :: matrix_st where
  "matrix_rest = \<lparr>kb = rest, matrix_previous = replicate 6 0, last_tick = 0, switch_log = []\<rparr>"

lemma demo_ordinary: "ordinary_env demo_env"
  by (simp add: ordinary_env_def demo_env_def FEATURE_CODES_def)

lemma demo_plain: "plain_keymap demo_env idle_action"
proof -
  have "\<not> is_tap_action (action_for_keycode 0x400 k)" if "k \<in> {0, 4, 0x0204}" for k
  proof -
    have "\<forall>k \<in> set [0, 4, 0x0204]. \<not> is_tap_action (action_for_keycode 0x400 k)" by code_simp
    then show ?thesis using that by auto
  qed
  then show ?thesis
    using keycode_valid by (simp add: plain_keymap_def plain_def the_keymap_def action_for_key_def keymap_key_to_keycode_def demo_env_def idle_action_def)
qed

lemma rest_inv: "matrix_inv demo_env matrix_rest"
proof -
  have d: "down (replicate 6 0) = {}" by (simp add: down_def in_matrix_def)
  have w: "within {} {} {} False False idle_action"
    using idle_action_sync idle_action_wf idle_action_pressed by (simp add: within_def) (simp add: idle_action_def)
  have "shown {} {} idle_action"
    by (simp add: shown_def idle_action_mode) (simp add: idle_action_def host_view_def nkro_on_def report_pressed_def pressed_keys_alt
        report_keys_def empty_report_def report_mods_def)
  with w have "held_fits A {} idle_action" for A by (simp add: held_fits_def fits_def)
  moreover have "idle rest" by (simp add: idle_def IS_TAPPING_def rest_def no_record_def record_for_def IS_EVENT_def IS_NOEVENT_def)
  ultimately show ?thesis
    using demo_plain by (simp add: matrix_inv_def matrix_rest_def d typing_inv_def rest_def)
      (simp add: idle_action_def wf_layers_def wf_cache_def init_layers_def)
qed

end
