(* ===== verification/Qmk_Tap_Hold.thy ===== *)
theory Qmk_Tap_Hold
  imports Qmk_Key_Events Qmk_Ring
begin

text \<open>
  What the tapping code decides: a tap key pressed alone sends nothing until it is released or its term ends; then
  it is a tap or a hold; and a key that was pressed meanwhile waits for the decision and gets its action after it.
  The keys are the mod-taps and layer-taps of a key code, \<^verbatim>\<open>MT(mods, kc)\<close> and \<^verbatim>\<open>LT(layer, kc)\<close>.
\<close>

subsection \<open>A record of any action\<close>

text \<open>The record and the actions' state after an event with the action \<open>a\<close>.\<close>

definition acted :: "kb_env \<Rightarrow> u16 \<Rightarrow> keyrecord_t \<Rightarrow> action_t \<Rightarrow> action_st \<Rightarrow> action_st" where
  "acted env now r a x = update_leds env a (snd (action_switch env now r a x))"

lemma process_action_any:
  assumes "oneshot_layer_data (act s) = 0"
  shows "process_action env now r a s = (fst (action_switch env now r a (act s)), s\<lparr>act := acted env now r a (act s)\<rparr>)"
proof -
  have "\<not> is_oneshot_layer_active (act s)"
    using assms by (simp add: is_oneshot_layer_active_def get_oneshot_layer_state_def)
  then show ?thesis
    by (simp add: process_action_def process_action_body_def uses_oneshot_layer_def Let_def split_beta acted_def)
qed

lemma process_any:
  assumes "ordinary_env env" "\<not> disable_action_cache (layers (act s))" "IS_EVENT (event r)" "oneshot_layer_data (act s) = 0"
  defines "km \<equiv> the_keymap env (act s)" and "press \<equiv> event_pressed (event r)" and "p \<equiv> event_key (event r)"
  defines "a \<equiv> km (event_layer km press p (layers (act s))) p"
  defines "x \<equiv> map_layers (event_layers km press p) (act s)"
  shows "process_record env now r s = (fst (action_switch env now r a x), sc_cleared press (s\<lparr>act := acted env now r a x\<rparr>))"
proof -
  have id: "map_layers (\<lambda>_. layers y) y = y" "map_layers (\<lambda>l. l) y = y" for y by (simp_all add: map_layers_def)
  have ml: "map_layers (event_layers km b q) y = map_layers (\<lambda>_. event_layers km b q (layers y)) y" for b q y
    by (simp add: map_layers_def)
  have swap: "s\<lparr>sc_last := 0, act := y\<rparr> = s\<lparr>act := y, sc_last := 0\<rparr>" for y by simp
  show ?thesis
    unfolding process_record_def process_record_with_def process_quantum_plain [OF assms(1,2)] process_record_handler_with_def
    using assms(2,3,4)
    by (cases press)
      (simp_all add: press_def [symmetric] p_def [symmetric] km_def [symmetric] a_def x_def event_layer_def event_layers_def IS_EVENT_def
        store_or_get_action_def Let_def sc_cleared_def map_act_def process_action_any id ml swap)
qed

lemma process_noevent: "IS_NOEVENT (event r) \<Longrightarrow> process_record env now r s = (r, s)"
  by (simp add: process_record_def process_record_with_def)

subsection \<open>Actions of tap keys\<close>

definition tap_hold :: "action_t \<Rightarrow> bool" where
  "tap_hold a \<longleftrightarrow> (is_mods_tap_kind a \<or> kind_id a = ACT_LAYER_TAP \<or> kind_id a = ACT_LAYER_TAP_EXT) \<and>
    MODS_TAP_TOGGLE < key_code a \<and> key_code a \<le> KC_RIGHT_GUI"

definition hold_start :: "kb_env \<Rightarrow> u16 \<Rightarrow> action_t \<Rightarrow> action_st \<Rightarrow> action_st" where
  "hold_start env now a x = update_leds env a
    (if is_mods_tap_kind a then register_mods (oneshot_timeout env) now (action_mods ACT_LMODS_TAP a) x
     else map_layers (layer_on (layer_tap_val a)) x)"

definition hold_end :: "kb_env \<Rightarrow> u16 \<Rightarrow> action_t \<Rightarrow> action_st \<Rightarrow> action_st" where
  "hold_end env now a x = update_leds env a
    (if is_mods_tap_kind a then unregister_mods (oneshot_timeout env) now (action_mods ACT_LMODS_TAP a) x
     else map_layers (layer_off (layer_tap_val a)) x)"

definition tap_start :: "kb_env \<Rightarrow> u16 \<Rightarrow> action_t \<Rightarrow> action_st \<Rightarrow> action_st" where
  "tap_start env now a x = update_leds env a (register_code (oneshot_timeout env) now (key_code a) x)"

definition tap_end :: "kb_env \<Rightarrow> u16 \<Rightarrow> action_t \<Rightarrow> action_st \<Rightarrow> action_st" where
  "tap_end env now a x = update_leds env a (release_tap (oneshot_timeout env) now (key_code a) x)"

lemma tap_hold_code:
  assumes "tap_hold a"
  shows "key_code a \<noteq> MODS_ONESHOT" "key_code a \<noteq> MODS_TAP_TOGGLE" "key_code a \<noteq> OP_TAP_TOGGLE" "key_code a \<noteq> OP_ON_OFF"
    "key_code a \<noteq> OP_OFF_ON" "key_code a \<noteq> OP_SET_CLEAR" "key_code a \<noteq> OP_ONESHOT" "is_tap_action a"
proof -
  have c: "MODS_TAP_TOGGLE < key_code a" "key_code a \<le> KC_RIGHT_GUI" using assms by (simp_all add: tap_hold_def)
  then show "key_code a \<noteq> MODS_ONESHOT" "key_code a \<noteq> MODS_TAP_TOGGLE" by (auto simp: MODS_ONESHOT_def)
  from c(2) show "key_code a \<noteq> OP_TAP_TOGGLE" "key_code a \<noteq> OP_ON_OFF" "key_code a \<noteq> OP_OFF_ON" "key_code a \<noteq> OP_SET_CLEAR"
    "key_code a \<noteq> OP_ONESHOT"
    by (auto simp: OP_TAP_TOGGLE_def OP_ON_OFF_def OP_OFF_ON_def OP_SET_CLEAR_def OP_ONESHOT_def keycode_bounds)
  show "is_tap_action a" using assms by (auto simp: tap_hold_def is_tap_action_def is_mods_tap_kind_def)
qed

text \<open>A tap counts for a mod-tap unless another key interrupted it.\<close>

definition counts_as_tap :: "kb_env \<Rightarrow> tap_t \<Rightarrow> action_t \<Rightarrow> bool" where
  "counts_as_tap env t a \<longleftrightarrow> 0 < tap_count t \<and> (is_mods_tap_kind a \<longrightarrow> ignore_mod_tap_interrupt env \<or> \<not> interrupted t)"

lemma switch_tap_key:
  assumes "tap_hold a"
  shows "is_mods_tap_kind a \<Longrightarrow> action_switch env now r a x =
      (if event_pressed (event r) then
         if 0 < tap_count (tap r) then
           (if \<not> ignore_mod_tap_interrupt env \<and> interrupted (tap r)
            then (r\<lparr>tap := (tap r)\<lparr>tap_count := 0\<rparr>\<rparr>, register_mods (oneshot_timeout env) now (action_mods ACT_LMODS_TAP a) x)
            else (r, register_code (oneshot_timeout env) now (key_code a) x))
         else (r, register_mods (oneshot_timeout env) now (action_mods ACT_LMODS_TAP a) x)
       else (r, if 0 < tap_count (tap r) then release_tap (oneshot_timeout env) now (key_code a) x
         else unregister_mods (oneshot_timeout env) now (action_mods ACT_LMODS_TAP a) x))"
    "\<not> is_mods_tap_kind a \<Longrightarrow> action_switch env now r a x =
      (r, if event_pressed (event r)
        then (if 0 < tap_count (tap r) then register_code (oneshot_timeout env) now (key_code a) x else map_layers (layer_on (layer_tap_val a)) x)
        else (if 0 < tap_count (tap r) then release_tap (oneshot_timeout env) now (key_code a) x else map_layers (layer_off (layer_tap_val a)) x))"
proof -
  note c = tap_hold_code [OF assms]
  show "is_mods_tap_kind a \<Longrightarrow> action_switch env now r a x =
      (if event_pressed (event r) then
         if 0 < tap_count (tap r) then
           (if \<not> ignore_mod_tap_interrupt env \<and> interrupted (tap r)
            then (r\<lparr>tap := (tap r)\<lparr>tap_count := 0\<rparr>\<rparr>, register_mods (oneshot_timeout env) now (action_mods ACT_LMODS_TAP a) x)
            else (r, register_code (oneshot_timeout env) now (key_code a) x))
         else (r, register_mods (oneshot_timeout env) now (action_mods ACT_LMODS_TAP a) x)
       else (r, if 0 < tap_count (tap r) then release_tap (oneshot_timeout env) now (key_code a) x
         else unregister_mods (oneshot_timeout env) now (action_mods ACT_LMODS_TAP a) x))"
    by (simp only: action_switch_kinds(2) mods_tap_action_def Let_def c if_False)
  assume "\<not> is_mods_tap_kind a"
  then have "kind_id a = ACT_LAYER_TAP \<or> kind_id a = ACT_LAYER_TAP_EXT" using assms by (simp add: tap_hold_def)
  from action_switch_kinds(7) [OF this] show "action_switch env now r a x =
      (r, if event_pressed (event r)
        then (if 0 < tap_count (tap r) then register_code (oneshot_timeout env) now (key_code a) x else map_layers (layer_on (layer_tap_val a)) x)
        else (if 0 < tap_count (tap r) then release_tap (oneshot_timeout env) now (key_code a) x else map_layers (layer_off (layer_tap_val a)) x))"
    by (simp only: layer_tap_action_def Let_def c if_False)
qed

lemma switch_tap_hold:
  assumes "tap_hold a"
  shows "event_pressed (event r) \<Longrightarrow> tap_count (tap r) = 0 \<Longrightarrow> fst (action_switch env now r a x) = r \<and> acted env now r a x = hold_start env now a x"
    "event_pressed (event r) \<Longrightarrow> counts_as_tap env (tap r) a \<Longrightarrow> fst (action_switch env now r a x) = r \<and> acted env now r a x = tap_start env now a x"
    "\<not> event_pressed (event r) \<Longrightarrow> tap_count (tap r) = 0 \<Longrightarrow> fst (action_switch env now r a x) = r \<and> acted env now r a x = hold_end env now a x"
    "\<not> event_pressed (event r) \<Longrightarrow> 0 < tap_count (tap r) \<Longrightarrow> fst (action_switch env now r a x) = r \<and> acted env now r a x = tap_end env now a x"
  subgoal by (cases "is_mods_tap_kind a") (simp_all add: switch_tap_key [OF assms] acted_def hold_start_def)
  subgoal by (cases "is_mods_tap_kind a") (auto simp: switch_tap_key [OF assms] acted_def tap_start_def counts_as_tap_def)
  subgoal by (cases "is_mods_tap_kind a") (simp_all add: switch_tap_key [OF assms] acted_def hold_end_def)
  subgoal by (cases "is_mods_tap_kind a") (simp_all add: switch_tap_key [OF assms] acted_def tap_end_def)
  done

lemma steady_tap: "steady s (release_tap T now k s)"
  by (simp add: release_tap_def steady_codes)

subsection \<open>The tapping key before the decision\<close>

text \<open>No one-shot key is active, the actions of pressed keys are remembered, and the waiting buffer is sound.\<close>

definition quiet :: "action_st \<Rightarrow> bool" where
  "quiet x \<longleftrightarrow> oneshot_layer_data x = 0 \<and> oneshot_mods x = 0 \<and> \<not> disable_action_cache (layers x) \<and> wf_layers (layers x)"

definition calm :: "kb_st \<Rightarrow> bool" where
  "calm s \<longleftrightarrow> quiet (act s) \<and> length (waiting_buffer s) = WAITING_BUFFER_SIZE \<and>
    waiting_buffer_head s < of_nat WAITING_BUFFER_SIZE \<and> waiting_buffer_tail s < of_nat WAITING_BUFFER_SIZE"

definition undecided :: "keyevent_t \<Rightarrow> kb_st \<Rightarrow> bool" where
  "undecided e s \<longleftrightarrow> IS_PRESSED e \<and> event (tapping_key s) = e \<and> tap_count (tap (tapping_key s)) = 0"

definition in_term :: "kb_env \<Rightarrow> keyevent_t \<Rightarrow> keyevent_t \<Rightarrow> bool" where
  "in_term env e e' \<longleftrightarrow> TIMER_DIFF_16 (event_time e') (event_time e) < tapping_term env"

lemma undecided_tapping:
  assumes "undecided e s"
  shows "IS_TAPPING s" "IS_TAPPING_PRESSED s" "IS_TAPPING_KEY q s \<longleftrightarrow> KEYEQ (event_key e) q"
    "WITHIN_TAPPING_TERM env e' s \<longleftrightarrow> in_term env e e'" "tap_count (tap (tapping_key s)) = 0"
  using assms
  by (auto simp: undecided_def IS_TAPPING_def IS_TAPPING_PRESSED_def IS_TAPPING_KEY_def IS_PRESSED_def WITHIN_TAPPING_TERM_def in_term_def)

lemma no_waiting_slots: "waiting_buffer_head s = waiting_buffer_tail s \<Longrightarrow> waiting_slots s = []"
  by (simp add: waiting_slots_def WAITING_BUFFER_SIZE_def numeral_eq_Suc)

lemma process_waiting_empty [simp]: "waiting_buffer_head s = waiting_buffer_tail s \<Longrightarrow> process_waiting n env now s = s"
  by (cases n) simp_all

lemma action_exec_calm:
  assumes "calm s"
  shows "action_exec env now e s = action_tapping_process env now (record_for e) (s\<lparr>act := weak_cleared (event_pressed e) (act s)\<rparr>)"
proof -
  have "map_act f x = x" if "f (act x) = act x" for f x using that by (simp add: map_act_def)
  then show ?thesis
    using assms
    by (simp add: calm_def quiet_def action_exec_def Let_def weak_cleared_def map_act_def no_oneshot_to_clear pre_process_record_quantum_def
        clear_weak_mods_def)
qed

lemma press_tap_key:
  assumes "calm s" "idle s" "IS_EVENT e" "event_pressed e"
    "is_tap_action (layer_switch_get_action (the_keymap env (act s)) (event_key e) (layers (act s)))"
  shows "action_exec env now e s = s\<lparr>act := clear_weak_mods (act s), tapping_key := record_for e\<rparr>"
proof -
  let ?s = "s\<lparr>act := clear_weak_mods (act s)\<rparr>"
  have i: "\<not> IS_TAPPING ?s" "waiting_buffer_head s = waiting_buffer_tail s" using assms(2) by (simp_all add: idle_def)
  have t: "is_tap_record env (record_for e) (act ?s)"
    using assms(3,5) by (simp add: is_tap_record_def record_for_def IS_EVENT_def clear_weak_mods_def the_keymap_def)
  have "waiting_buffer_scan_tap env now (s\<lparr>act := clear_weak_mods (act s), tapping_key := record_for e\<rparr>) =
      s\<lparr>act := clear_weak_mods (act s), tapping_key := record_for e\<rparr>"
    using i(2) by (simp add: waiting_buffer_scan_tap_def no_waiting_slots)
  then have "process_tapping env now (record_for e) ?s = (True, record_for e, s\<lparr>act := clear_weak_mods (act s), tapping_key := record_for e\<rparr>)"
    using i(1) t assms(4)
    by (simp add: process_tapping_def IS_TAPPING_PRESSED_def IS_TAPPING_RELEASED_def process_record_tap_hint_def set_tapping_key_def
        Let_def record_for_def)
  then show ?thesis
    using assms(4) i(2) by (simp add: action_exec_calm [OF assms(1)] weak_cleared_def action_tapping_process_def Let_def)
qed

lemma tick_facts: "IS_NOEVENT (TICK_EVENT t)" "\<not> event_pressed (TICK_EVENT t)" "event_key (TICK_EVENT t) = \<lparr>col = 255, row = 255\<rparr>"
  by (simp_all add: TICK_EVENT_def MAKE_KEYEVENT_def IS_NOEVENT_def KEYLOC_TICK_def)

lemma tick_in_term:
  assumes "calm s" "undecided e s" "waiting_buffer_head s = waiting_buffer_tail s" "in_term env e (TICK_EVENT t)"
  shows "action_exec env now (TICK_EVENT t) s = s"
proof -
  have k: "\<not> KEYEQ (event_key e) (event_key (TICK_EVENT t))"
    using assms(2) by (auto simp: undecided_def IS_PRESSED_def IS_EVENT_def IS_NOEVENT_def KEYEQ_def tick_facts KEYLOC_TICK_def)
  have "process_tapping env now (record_for (TICK_EVENT t)) s = (False, record_for (TICK_EVENT t), s)"
    using assms(4) k tick_facts
    by (simp add: process_tapping_def undecided_tapping [OF assms(2)] tapping_undecided_def Let_def record_for_def IS_RELEASED_def IS_EVENT_def)
  then show ?thesis
    using assms(3) tick_facts
    by (simp add: action_exec_calm [OF assms(1)] weak_cleared_def action_tapping_process_def Let_def waiting_buffer_enq_def record_for_def)
qed

subsection \<open>The decision\<close>

definition current_action :: "kb_env \<Rightarrow> keypos_t \<Rightarrow> action_st \<Rightarrow> action_t" where
  "current_action env p x = layer_switch_get_action (the_keymap env x) p (layers x)"

definition remembered :: "kb_env \<Rightarrow> keypos_t \<Rightarrow> action_st \<Rightarrow> action_st" where
  "remembered env p x = map_layers (event_layers (the_keymap env x) True p) x"

lemma process_press:
  assumes "ordinary_env env" "calm s" "IS_PRESSED (event r)" "current_action env (event_key (event r)) (act s) = a"
  shows "process_record env now r s =
    (fst (action_switch env now r a (remembered env (event_key (event r)) (act s))),
     s\<lparr>act := acted env now r a (remembered env (event_key (event r)) (act s)), sc_last := 0\<rparr>)"
proof -
  have d: "\<not> disable_action_cache (layers (act s))" "oneshot_layer_data (act s) = 0" using assms(2) by (simp_all add: calm_def quiet_def)
  have e: "IS_EVENT (event r)" "event_pressed (event r)" using assms(3) by (simp_all add: IS_PRESSED_def)
  have a: "the_keymap env (act s) (layer_switch_get_layer (the_keymap env (act s)) (event_key (event r)) (layers (act s))) (event_key (event r)) = a"
    using assms(4) by (simp add: current_action_def layer_switch_get_action_def)
  show ?thesis
    using process_any [OF assms(1) d(1) e(1) d(2), of now] e(2) by (simp add: a event_layer_def remembered_def sc_cleared_def)
qed

lemma process_release:
  assumes "ordinary_env env" "calm s" "IS_RELEASED (event r)" "held_action env (act s) (event_key (event r)) = a"
  shows "process_record env now r s = (fst (action_switch env now r a (act s)), s\<lparr>act := acted env now r a (act s)\<rparr>)"
proof -
  have d: "\<not> disable_action_cache (layers (act s))" "oneshot_layer_data (act s) = 0" using assms(2) by (simp_all add: calm_def quiet_def)
  have e: "IS_EVENT (event r)" "\<not> event_pressed (event r)" using assms(3) by (simp_all add: IS_RELEASED_def)
  have id: "map_layers (\<lambda>l. l) y = y" for y by (simp add: map_layers_def)
  have l: "event_layers km False q = (\<lambda>l. l)" for km q by (rule ext) (simp add: event_layers_def)
  show ?thesis
    using process_any [OF assms(1) d(1) e(1) d(2), of now] e(2) assms(4) by (simp add: held_action_def event_layer_def sc_cleared_def id l)
qed

text \<open>What an action leaves of the quiet state and of the remembered layers.\<close>

definition calm_step :: "action_st \<Rightarrow> action_st \<Rightarrow> bool" where
  "calm_step x y \<longleftrightarrow> keeps_cache x y \<and> (quiet x \<longrightarrow> quiet y)"

lemma calm_step_trans: "calm_step x y \<Longrightarrow> calm_step y z \<Longrightarrow> calm_step x z"
  by (auto simp: calm_step_def keeps_cache_def)

lemma calm_step_steady: "steady x y \<Longrightarrow> calm_step x y"
  by (simp add: calm_step_def steady_def quiet_def keeps_cache_def)

lemma calm_step_layers:
  assumes "\<And>l. source_layers_cache (f l) = source_layers_cache l" "\<And>l. disable_action_cache (f l) = disable_action_cache l"
  shows "calm_step x (map_layers f x)"
  using assms by (simp add: calm_step_def quiet_def keeps_cache_def map_layers_def wf_layers_def)

lemma calm_step_leds: "calm_step x y \<Longrightarrow> calm_step x (update_leds env a y)"
  by (rule calm_step_trans [OF _ calm_step_steady [OF steady_simple(11)]])

lemma calm_step_tap:
  "calm_step x (tap_start env now a x)" "calm_step x (tap_end env now a x)"
  "calm_step x (hold_start env now a x)" "calm_step x (hold_end env now a x)"
  unfolding tap_start_def tap_end_def hold_start_def hold_end_def
  by (rule calm_step_leds, simp add: calm_step_steady calm_step_layers steady_codes steady_tap layer_cache_frame)+

lemma held_action_step: "calm_step x y \<Longrightarrow> held_action env y p = held_action env x p"
  by (simp add: calm_step_def keeps_cache_def held_action_def the_keymap_def read_source_layers_cache_def)

lemma map_layers_frame: "oneshot_mods (map_layers f x) = oneshot_mods x"
  by (simp add: map_layers_def)

lemma remembered_facts:
  assumes "quiet x" "in_matrix p"
  shows "quiet (remembered env p x)" "held_action env (remembered env p x) p = current_action env p x"
    "in_matrix q \<Longrightarrow> q \<noteq> p \<Longrightarrow> held_action env (remembered env p x) q = held_action env x q"
  using assms event_layers_cache [of "layers x" p, where km = "the_keymap env x" and press = True]
  by (simp_all add: quiet_def map_layers_frame remembered_def held_action_def current_action_def layer_switch_get_action_def event_layer_def)

lemma weak_cleared_quiet [simp]: "quiet (weak_cleared b x) = quiet x" "quiet (clear_weak_mods x) = quiet x"
  by (simp_all add: quiet_def weak_cleared_def clear_weak_mods_def)

lemma calm_frame [simp]:
  "calm (s\<lparr>tapping_key := r\<rparr>) = calm s" "calm (s\<lparr>sc_last := c\<rparr>) = calm s"
  "calm (s\<lparr>waiting_buffer := (waiting_buffer s)[i := r]\<rparr>) = calm s"
  by (simp_all add: calm_def)

lemma calm_act: "calm s \<Longrightarrow> quiet x \<Longrightarrow> calm (s\<lparr>act := x\<rparr>)"
  by (simp add: calm_def)

text \<open>What the tap key does when it is decided to be a hold, and a tap.\<close>

lemma start_tapping_key:
  assumes "ordinary_env env" "calm s" "undecided e s" "current_action env (event_key e) (act s) = a" "tap_hold a"
  defines "x \<equiv> remembered env (event_key e) (act s)"
  shows "process_tapping_key env now s = s\<lparr>act := hold_start env now a x, sc_last := 0\<rparr>"
    "counts_as_tap env \<lparr>interrupted = interrupted (tap (tapping_key s)), tap_count = 1\<rparr> a \<Longrightarrow>
      process_tapping_key env now (set_tapping_key (with_count 1 (tapping_key s)) s) =
        s\<lparr>act := tap_start env now a x, tapping_key := with_count 1 (tapping_key s), sc_last := 0\<rparr>"
proof -
  have u: "IS_PRESSED (event (tapping_key s))" "event (tapping_key s) = e" "tap_count (tap (tapping_key s)) = 0" "event_pressed e"
    using assms(3) by (auto simp: undecided_def IS_PRESSED_def)
  show "process_tapping_key env now s = s\<lparr>act := hold_start env now a x, sc_last := 0\<rparr>"
    using process_press [OF assms(1,2) u(1), of a now] switch_tap_hold(1) [OF assms(5), of "tapping_key s" env now x] u assms(4)
    by (simp add: process_tapping_key_def set_tapping_key_def x_def)
  assume c: "counts_as_tap env \<lparr>interrupted = interrupted (tap (tapping_key s)), tap_count = 1\<rparr> a"
  have w: "event (with_count 1 (tapping_key s)) = e"
    "tap (with_count 1 (tapping_key s)) = \<lparr>interrupted = interrupted (tap (tapping_key s)), tap_count = 1\<rparr>"
    using u(2) by (cases "tap (tapping_key s)", simp add: with_count_def)+
  have swap: "s\<lparr>tapping_key := r, act := y, sc_last := 0\<rparr> = s\<lparr>act := y, tapping_key := r, sc_last := 0\<rparr>" for r y by simp
  show "process_tapping_key env now (set_tapping_key (with_count 1 (tapping_key s)) s) =
        s\<lparr>act := tap_start env now a x, tapping_key := with_count 1 (tapping_key s), sc_last := 0\<rparr>"
    using process_press [of env "s\<lparr>tapping_key := with_count 1 (tapping_key s)\<rparr>" "with_count 1 (tapping_key s)" a now]
      switch_tap_hold(2) [OF assms(5), of "with_count 1 (tapping_key s)" env now x] u w c assms(1,2,4)
    by (simp add: process_tapping_key_def set_tapping_key_def x_def)
qed

text \<open>The term ends: the first event after it makes the key a hold.\<close>

lemma tick_after_term:
  assumes "ordinary_env env" "calm s" "undecided e s" "current_action env (event_key e) (act s) = a" "tap_hold a"
    "waiting_buffer_head s = waiting_buffer_tail s" "\<not> in_term env e (TICK_EVENT t)"
  shows "action_exec env now (TICK_EVENT t) s =
    s\<lparr>act := hold_start env now a (remembered env (event_key e) (act s)), sc_last := 0, tapping_key := no_record\<rparr>"
proof -
  have "process_tapping env now (record_for (TICK_EVENT t)) s = (False, record_for (TICK_EVENT t),
      s\<lparr>act := hold_start env now a (remembered env (event_key e) (act s)), sc_last := 0, tapping_key := no_record\<rparr>)"
    using assms(7) start_tapping_key(1) [OF assms(1-5)] undecided_tapping [OF assms(3)]
    by (simp add: process_tapping_def set_tapping_key_def record_for_def)
  then show ?thesis
    using assms(6) tick_facts
    by (simp add: action_exec_calm [OF assms(2)] weak_cleared_def action_tapping_process_def Let_def waiting_buffer_enq_def record_for_def)
qed

subsection \<open>The events that wait\<close>

definition waiting_ring :: "kb_st \<Rightarrow> keyrecord_t ring" where
  "waiting_ring s = \<lparr>ring_slots = waiting_buffer s, ring_head = unat (waiting_buffer_head s), ring_tail = unat (waiting_buffer_tail s)\<rparr>"

definition pending :: "kb_st \<Rightarrow> keyrecord_t list" where "pending s = ring_contents WAITING_BUFFER_SIZE (waiting_ring s)"

definition buffer_ok :: "kb_st \<Rightarrow> bool" where "buffer_ok s \<longleftrightarrow> ring_inv WAITING_BUFFER_SIZE (waiting_ring s)"

lemma buffer_ok_iff:
  "buffer_ok s \<longleftrightarrow> length (waiting_buffer s) = WAITING_BUFFER_SIZE \<and>
    waiting_buffer_head s < of_nat WAITING_BUFFER_SIZE \<and> waiting_buffer_tail s < of_nat WAITING_BUFFER_SIZE"
  by (simp add: buffer_ok_def ring_inv_def waiting_ring_def WAITING_BUFFER_SIZE_def word_less_nat_alt)

lemma calm_iff: "calm s \<longleftrightarrow> quiet (act s) \<and> buffer_ok s"
  by (simp add: calm_def buffer_ok_iff)

lemma buffer_frame [simp]:
  "pending (s\<lparr>act := x\<rparr>) = pending s" "pending (s\<lparr>tapping_key := r\<rparr>) = pending s" "pending (s\<lparr>sc_last := c\<rparr>) = pending s"
  "buffer_ok (s\<lparr>act := x\<rparr>) = buffer_ok s" "buffer_ok (s\<lparr>tapping_key := r\<rparr>) = buffer_ok s" "buffer_ok (s\<lparr>sc_last := c\<rparr>) = buffer_ok s"
  by (simp_all add: pending_def buffer_ok_def waiting_ring_def)

lemma unat_next_slot: "i < of_nat WAITING_BUFFER_SIZE \<Longrightarrow> unat (next_slot i) = (unat i + 1) mod WAITING_BUFFER_SIZE"
proof -
  assume "i < of_nat WAITING_BUFFER_SIZE"
  then have "unat i + 1 < 2 ^ LENGTH(8)" by (simp add: WAITING_BUFFER_SIZE_def word_less_nat_alt)
  then have "unat (i + 1) = unat i + 1" using unat_add_lem [of i 1] by simp
  then show ?thesis by (simp add: next_slot_def WAITING_BUFFER_SIZE_def unat_mod_distrib)
qed

lemma pending_empty: "buffer_ok s \<Longrightarrow> waiting_buffer_head s = waiting_buffer_tail s \<longleftrightarrow> pending s = []"
  using ring_empty_iff [of WAITING_BUFFER_SIZE "waiting_ring s"]
  by (auto simp: buffer_ok_def pending_def waiting_ring_def word_unat_eq_iff)

lemma pending_enq:
  assumes "buffer_ok s" "IS_EVENT (event r)" "length (pending s) < WAITING_BUFFER_SIZE - 1"
  obtains b h where "waiting_buffer_enq r s = (True, s\<lparr>waiting_buffer := b, waiting_buffer_head := h\<rparr>)"
    "pending (s\<lparr>waiting_buffer := b, waiting_buffer_head := h\<rparr>) = pending s @ [r]"
    "buffer_ok (s\<lparr>waiting_buffer := b, waiting_buffer_head := h\<rparr>)"
proof -
  let ?b = "(waiting_buffer s)[unat (waiting_buffer_head s) := r]" and ?h = "next_slot (waiting_buffer_head s)"
  have h: "waiting_buffer_head s < of_nat WAITING_BUFFER_SIZE" using assms(1) by (simp add: buffer_ok_iff)
  have inv: "ring_inv WAITING_BUFFER_SIZE (waiting_ring s)" using assms(1) by (simp add: buffer_ok_def)
  have room: "(ring_head (waiting_ring s) + 1) mod WAITING_BUFFER_SIZE \<noteq> ring_tail (waiting_ring s)"
    using ring_full_iff [OF inv] assms(3) by (simp add: pending_def)
  then have "?h \<noteq> waiting_buffer_tail s" using unat_next_slot [OF h] by (auto simp: waiting_ring_def)
  then have enq: "waiting_buffer_enq r s = (True, s\<lparr>waiting_buffer := ?b, waiting_buffer_head := ?h\<rparr>)"
    using assms(2) by (simp add: waiting_buffer_enq_def IS_EVENT_def)
  have "waiting_ring (s\<lparr>waiting_buffer := ?b, waiting_buffer_head := ?h\<rparr>) =
      (waiting_ring s)\<lparr>ring_slots := (ring_slots (waiting_ring s))[ring_head (waiting_ring s) := r],
        ring_head := (ring_head (waiting_ring s) + 1) mod WAITING_BUFFER_SIZE\<rparr>"
    by (simp add: waiting_ring_def unat_next_slot [OF h])
  from ring_put [OF inv room this] show thesis by (intro that [OF enq]) (simp_all add: pending_def buffer_ok_def)
qed

lemma ring_forget:
  assumes "ring_inv n q" "ring_head q \<noteq> ring_tail q" "q' = q\<lparr>ring_tail := (ring_tail q + 1) mod n\<rparr>"
  shows "ring_contents n (q'\<lparr>ring_slots := (ring_slots q)[ring_tail q := x]\<rparr>) = ring_contents n q'"
proof -
  have inv: "length (ring_slots q) = n" "ring_head q < n" "ring_tail q < n" using assms(1) by (simp_all add: ring_inv_def)
  have "(ring_tail q' + i) mod n \<noteq> ring_tail q" if "i < ring_count n q'" for i
  proof
    assume e: "(ring_tail q' + i) mod n = ring_tail q"
    have l: "ring_tail q' < n" "i < n" "i + 1 < n"
      using that inv assms(2) by (auto simp: assms(3) ring_count_def ring_next split: if_splits)
    have m: "(ring_tail q + (i + 1)) mod n = ring_tail q" using e by (simp add: assms(3) mod_simps)
    show False
    proof (cases "ring_tail q + (i + 1) < n")
      case False
      then have "(ring_tail q + (i + 1)) mod n = ring_tail q + (i + 1) - n" using l inv by (simp add: le_mod_geq)
      then show False using m l False by simp
    qed (use m in simp)
  qed
  then have "map (\<lambda>i. (ring_slots q)[ring_tail q := x] ! ((ring_tail q' + i) mod n)) [0..<ring_count n q'] =
      map (\<lambda>i. ring_slots q ! ((ring_tail q' + i) mod n)) [0..<ring_count n q']"
    by (intro map_cong refl nth_list_update_neq) (metis atLeastLessThan_iff set_upt)
  moreover have "ring_count n (q'\<lparr>ring_slots := z\<rparr>) = ring_count n q'" for z by (simp add: ring_count_def)
  ultimately show ?thesis by (simp add: ring_contents_def assms(3))
qed

lemma pending_step:
  assumes "buffer_ok s" "pending s = r # rs"
  shows "waiting_buffer_tail s \<noteq> waiting_buffer_head s" "slot s (waiting_buffer_tail s) = r"
    "pending (s\<lparr>waiting_buffer := (waiting_buffer s)[unat (waiting_buffer_tail s) := x],
      waiting_buffer_tail := next_slot (waiting_buffer_tail s)\<rparr>) = rs"
    "buffer_ok (s\<lparr>waiting_buffer := (waiting_buffer s)[unat (waiting_buffer_tail s) := x],
      waiting_buffer_tail := next_slot (waiting_buffer_tail s)\<rparr>)"
proof -
  let ?q = "waiting_ring s"
  let ?q' = "?q\<lparr>ring_tail := (ring_tail ?q + 1) mod WAITING_BUFFER_SIZE\<rparr>"
  have inv: "ring_inv WAITING_BUFFER_SIZE ?q" using assms(1) by (simp add: buffer_ok_def)
  have t: "waiting_buffer_tail s < of_nat WAITING_BUFFER_SIZE" using assms(1) by (simp add: buffer_ok_iff)
  show ne: "waiting_buffer_tail s \<noteq> waiting_buffer_head s" using pending_empty [OF assms(1)] assms(2) by auto
  then have "ring_head ?q \<noteq> ring_tail ?q" by (auto simp: waiting_ring_def word_unat_eq_iff)
  note d = ring_drop [OF inv this refl] ring_forget [OF inv this refl]
  have w: "waiting_ring (s\<lparr>waiting_buffer := (waiting_buffer s)[unat (waiting_buffer_tail s) := x],
      waiting_buffer_tail := next_slot (waiting_buffer_tail s)\<rparr>) = ?q'\<lparr>ring_slots := (ring_slots ?q)[ring_tail ?q := x]\<rparr>"
    by (simp add: waiting_ring_def unat_next_slot [OF t])
  show "slot s (waiting_buffer_tail s) = r" using d(1) assms(2) by (simp add: pending_def slot_def waiting_ring_def)
  show "pending (s\<lparr>waiting_buffer := (waiting_buffer s)[unat (waiting_buffer_tail s) := x],
      waiting_buffer_tail := next_slot (waiting_buffer_tail s)\<rparr>) = rs"
    using d assms(2) by (simp add: pending_def w)
  show "buffer_ok (s\<lparr>waiting_buffer := (waiting_buffer s)[unat (waiting_buffer_tail s) := x],
      waiting_buffer_tail := next_slot (waiting_buffer_tail s)\<rparr>)"
    using d(1) by (simp add: buffer_ok_def w ring_inv_def)
qed

text \<open>
  The loop, when every waiting event is consumed with the effect \<open>f\<close> and keeps \<open>P\<close>, a property of the state that
  does not look at the buffer.
\<close>

definition same_buffer :: "kb_st \<Rightarrow> kb_st \<Rightarrow> bool" where
  "same_buffer s s' \<longleftrightarrow> waiting_buffer s' = waiting_buffer s \<and> waiting_buffer_head s' = waiting_buffer_head s \<and>
    waiting_buffer_tail s' = waiting_buffer_tail s"

lemma process_waiting_consumes:
  assumes step: "\<And>r s. r \<in> set rs \<Longrightarrow> P s \<Longrightarrow> buffer_ok s \<Longrightarrow>
      \<exists>r' s'. process_tapping env now r s = (True, r', s') \<and> same_buffer s s' \<and> P s' \<and> act s' = f r (act s)"
    and P: "\<And>s b t. P s \<Longrightarrow> P (s\<lparr>waiting_buffer := b, waiting_buffer_tail := t\<rparr>)"
    and s: "P s" "buffer_ok s" "pending s = rs @ qs"
  shows "\<exists>s'. process_waiting (length rs + n) env now s = process_waiting n env now s' \<and> P s' \<and> buffer_ok s' \<and>
    pending s' = qs \<and> act s' = fold f rs (act s)"
  using step s
proof (induction rs arbitrary: s)
  case Nil
  then show ?case by (intro exI [of _ s]) simp
next
  case (Cons r rs)
  have b: "pending s = r # (rs @ qs)" using Cons.prems(4) by simp
  obtain r' s' where p: "process_tapping env now r s = (True, r', s')" "same_buffer s s'" "P s'" "act s' = f r (act s)"
    using Cons.prems(1) [OF _ Cons.prems(2,3), of r] by auto
  let ?s = "s'\<lparr>waiting_buffer := (waiting_buffer s')[unat (waiting_buffer_tail s') := r'],
      waiting_buffer_tail := next_slot (waiting_buffer_tail s')\<rparr>"
  have b': "buffer_ok s'" "pending s' = r # (rs @ qs)"
    using p(2) Cons.prems(3) b by (simp_all add: same_buffer_def buffer_ok_def pending_def waiting_ring_def)
  have "process_waiting (length (r # rs) + n) env now s = process_waiting (length rs + n) env now ?s"
    using pending_step(1,2) [OF Cons.prems(3) b] p(1,2) by (simp add: same_buffer_def Let_def)
  moreover have "\<exists>s''. process_waiting (length rs + n) env now ?s = process_waiting n env now s'' \<and> P s'' \<and> buffer_ok s'' \<and>
      pending s'' = qs \<and> act s'' = fold f rs (act ?s)"
    by (rule Cons.IH) (use Cons.prems(1) P p(3) pending_step(3,4) [OF b'] in auto)
  ultimately show ?case using p(4) by simp
qed

subsection \<open>Events of other keys\<close>

text \<open>The effect of a record of a key that is not a tap key.\<close>

definition perform :: "kb_env \<Rightarrow> u16 \<Rightarrow> keyrecord_t \<Rightarrow> action_st \<Rightarrow> action_st" where
  "perform env now r x =
    (if event_pressed (event r)
     then acted env now r (current_action env (event_key (event r)) x) (remembered env (event_key (event r)) x)
     else acted env now r (held_action env x (event_key (event r))) x)"

definition only_tap_key :: "keymap_fun \<Rightarrow> keypos_t \<Rightarrow> bool" where
  "only_tap_key km p \<longleftrightarrow> (\<forall>l q. q \<noteq> p \<longrightarrow> plain (km l q))"

definition other_key :: "keypos_t \<Rightarrow> keyrecord_t \<Rightarrow> bool" where
  "other_key p r \<longleftrightarrow> IS_EVENT (event r) \<and> in_matrix (event_key (event r)) \<and> event_key (event r) \<noteq> p \<and> tap_count (tap r) = 0"

lemma KEYEQ_iff: "KEYEQ p q \<longleftrightarrow> p = q"
  by (cases p, cases q) (auto simp: KEYEQ_def)

lemma calm_step_plain:
  assumes "plain a" "tap_count (tap r) = 0"
  shows "calm_step x (acted env now r a x)"
proof -
  have "calm_step x (snd (action_switch env now r a x))"
    using assms(1)
  proof (cases rule: kinds_of_plain)
    case lt
    obtain f where f: "layer_tap_action env now (event_pressed (event r)) 0 a x = map_layers f x"
      "\<forall>l. source_layers_cache (f l) = source_layers_cache l \<and> disable_action_cache (f l) = disable_action_cache l"
      using layer_tap_held [OF assms(1) lt] by blast
    have "calm_step x (map_layers f x)" by (rule calm_step_layers) (use f(2) in blast)+
    then show ?thesis using assms(2) f(1) by (simp add: action_switch_kinds(7) [OF lt])
  next
    case lm
    have "calm_step x (register_mods T now m (map_layers (layer_on l) x))" for T m l
      by (rule calm_step_trans [OF _ calm_step_steady [OF steady_codes(3)]], rule calm_step_layers) (simp_all add: layer_cache_frame)
    moreover have "calm_step x (map_layers (layer_off l) (unregister_mods T now m x))" for T m l
      by (rule calm_step_trans [OF calm_step_steady [OF steady_codes(4)]], rule calm_step_layers) (simp_all add: layer_cache_frame)
    ultimately show ?thesis by (simp add: action_switch_kinds lm)
  next
    case layer
    then show ?thesis by (simp add: action_switch_kinds calm_step_layers layer_action_cache)
  qed (auto simp: action_switch_kinds mods_tap_held [OF assms(1) _ assms(2)]
      intro!: calm_step_steady steady_mods_keys steady_codes steady_simple)
  then show ?thesis unfolding acted_def by (rule calm_step_leds)
qed

lemma calm_step_keymap: "calm_step x y \<Longrightarrow> the_keymap env y = the_keymap env x"
  by (simp add: calm_step_def keeps_cache_def the_keymap_def)

lemma remembered_keymap [simp]: "the_keymap env (remembered env q x) = the_keymap env x"
  by (simp add: remembered_def)

lemma perform_other_key:
  assumes "ordinary_env env" "calm s" "only_tap_key (the_keymap env (act s)) p" "other_key p r"
  shows "\<exists>s'. process_record env now r s = (r, s') \<and> same_buffer s s' \<and> tapping_key s' = tapping_key s \<and>
    act s' = perform env now r (act s)" (is ?process)
    "quiet (perform env now r (act s))" "the_keymap env (perform env now r (act s)) = the_keymap env (act s)"
    "in_matrix p \<Longrightarrow> held_action env (perform env now r (act s)) p = held_action env (act s) p"
proof -
  let ?q = "event_key (event r)"
  have r: "IS_EVENT (event r)" "in_matrix ?q" "?q \<noteq> p" "tap_count (tap r) = 0" using assms(4) by (simp_all add: other_key_def)
  have q: "quiet (act s)" using assms(2) by (simp add: calm_def)
  have plain: "plain (the_keymap env (act s) l ?q)" for l using assms(3) r(3) by (simp add: only_tap_key_def)
  then have pc: "plain (current_action env ?q (act s))" "plain (held_action env (act s) ?q)"
    by (simp_all add: current_action_def layer_switch_get_action_def held_action_def)
  note c = calm_step_plain [OF pc(1) r(4), of "remembered env ?q (act s)" env now] calm_step_plain [OF pc(2) r(4), of "act s" env now]
  note m = remembered_facts [OF q r(2)]
  show "quiet (perform env now r (act s))"
    using c m(1) q by (auto simp: perform_def calm_step_def)
  show "the_keymap env (perform env now r (act s)) = the_keymap env (act s)"
    using calm_step_keymap [OF c(1)] calm_step_keymap [OF c(2)] by (simp add: perform_def)
  show "in_matrix p \<Longrightarrow> held_action env (perform env now r (act s)) p = held_action env (act s) p"
    using held_action_step [OF c(1), of env p] held_action_step [OF c(2), of env p] m(3) r(3) by (simp add: perform_def)
  show ?process
    using process_press [OF assms(1,2), of r _ now] process_release [OF assms(1,2), of r _ now] r(1)
      switch_keeps_cache(2) [OF pc(1) r(4)] switch_keeps_cache(2) [OF pc(2) r(4)]
    by (cases "event_pressed (event r)") (simp_all add: perform_def same_buffer_def IS_PRESSED_def IS_RELEASED_def)
qed

lemma calm_after:
  assumes "calm s" "same_buffer s s'" "quiet (act s')"
  shows "calm s'"
  using assms by (simp add: calm_def same_buffer_def)

lemma other_key_not_tap:
  assumes "only_tap_key (the_keymap env x) p" "other_key p r"
  shows "\<not> is_tap_record env r x"
  using assms by (simp add: is_tap_record_def only_tap_key_def other_key_def plain_def layer_switch_get_action_def)

subsection \<open>The waiting events after the decision\<close>

text \<open>The situation: \<open>e\<close> is the press of the tap key, \<open>a\<close> its action, \<open>rs\<close> are the events of other keys that wait.\<close>

definition waiting_for :: "kb_env \<Rightarrow> keyevent_t \<Rightarrow> action_t \<Rightarrow> keyrecord_t list \<Rightarrow> kb_st \<Rightarrow> bool" where
  "waiting_for env e a rs s \<longleftrightarrow> calm s \<and> undecided e s \<and> in_matrix (event_key e) \<and>
    only_tap_key (the_keymap env (act s)) (event_key e) \<and> current_action env (event_key e) (act s) = a \<and> tap_hold a \<and>
    pending s = rs \<and> (\<forall>r \<in> set rs. other_key (event_key e) r)"

lemma length_pending: "buffer_ok s \<Longrightarrow> length (pending s) < WAITING_BUFFER_SIZE"
  using ring_count_less by (auto simp: buffer_ok_def pending_def)

lemma fuel_split:
  assumes "buffer_ok s" "pending s = rs"
  obtains n where "WAITING_BUFFER_SIZE = length rs + n"
  using length_pending [OF assms(1)] assms(2) le_Suc_ex less_imp_le by blast

lemma consumed_when_idle:
  assumes "ordinary_env env" "other_key p r" "calm s" "\<not> IS_TAPPING s" "only_tap_key (the_keymap env (act s)) p"
  shows "\<exists>r' s'. process_tapping env now r s = (True, r', s') \<and> same_buffer s s' \<and>
    (quiet (act s') \<and> \<not> IS_TAPPING s' \<and> only_tap_key (the_keymap env (act s')) p) \<and> act s' = perform env now r (act s)"
proof -
  note o = perform_other_key [OF assms(1,3,5,2), of now]
  obtain s' where s': "process_record env now r s = (r, s')" "same_buffer s s'" "tapping_key s' = tapping_key s" "act s' = perform env now r (act s)"
    using o(1) by blast
  have "process_tapping env now r s = (True, r, s')"
    using assms(4) other_key_not_tap [OF assms(5,2)] s'(1)
    by (simp add: process_tapping_def IS_TAPPING_PRESSED_def IS_TAPPING_RELEASED_def)
  then show ?thesis using s' o(2,3) assms(4,5) by (auto simp: IS_TAPPING_def)
qed

lemma consumed_when_counted:
  assumes "ordinary_env env" "other_key p r" "calm s" "tapping_key s = k" "IS_PRESSED (event k)" "event_key (event k) = p"
    "0 < tap_count (tap k)" "only_tap_key (the_keymap env (act s)) p" "in_matrix p" "held_action env (act s) p = a"
  shows "\<exists>r' s'. process_tapping env now r s = (True, r', s') \<and> same_buffer s s' \<and>
    (quiet (act s') \<and> tapping_key s' = k \<and> only_tap_key (the_keymap env (act s')) p \<and> held_action env (act s') p = a) \<and>
    act s' = perform env now r (act s)"
proof -
  note o = perform_other_key [OF assms(1,3,8,2), of now]
  obtain s' where s': "process_record env now r s = (r, s')" "same_buffer s s'" "tapping_key s' = tapping_key s" "act s' = perform env now r (act s)"
    using o(1) by blast
  have t: "IS_TAPPING_PRESSED s" "\<not> IS_TAPPING_KEY (event_key (event r)) s" "tap_count (tap (tapping_key s)) \<noteq> 0"
    using assms(2,4-7) by (auto simp: IS_TAPPING_PRESSED_def IS_TAPPING_def IS_TAPPING_KEY_def IS_PRESSED_def KEYEQ_iff other_key_def)
  have "process_tapping env now r s = (True, r, s')"
    using t other_key_not_tap [OF assms(8,2)] s'(1) by (simp add: process_tapping_def tapping_counted_def Let_def)
  then show ?thesis using s' o(2-4) assms(4,8-10) by auto
qed

text \<open>The term is over: a hold, then the waiting events.\<close>

lemma hold_then_waiting:
  assumes "ordinary_env env" "waiting_for env e a rs s" "\<not> in_term env e (TICK_EVENT t)"
  shows "\<exists>s'. action_exec env now (TICK_EVENT t) s = s' \<and> calm s' \<and> idle s' \<and>
    act s' = fold (perform env now) rs (hold_start env now a (remembered env (event_key e) (act s)))"
proof -
  let ?p = "event_key e" and ?x = "remembered env (event_key e) (act s)"
  let ?s = "s\<lparr>act := hold_start env now a ?x, sc_last := 0, tapping_key := no_record\<rparr>"
  have w: "calm s" "undecided e s" "in_matrix ?p" "only_tap_key (the_keymap env (act s)) ?p" "current_action env ?p (act s) = a"
    "tap_hold a" "pending s = rs" "\<forall>r \<in> set rs. other_key ?p r"
    using assms(2) by (simp_all add: waiting_for_def)
  have b: "buffer_ok s" "quiet (act s)" using w(1) by (simp_all add: calm_iff)
  have "process_tapping env now (record_for (TICK_EVENT t)) s = (False, record_for (TICK_EVENT t), ?s)"
    using assms(3) start_tapping_key(1) [OF assms(1) w(1,2,5,6)] undecided_tapping [OF w(2)]
    by (simp add: process_tapping_def set_tapping_key_def record_for_def)
  then have e: "action_exec env now (TICK_EVENT t) s = process_waiting WAITING_BUFFER_SIZE env now ?s"
    using tick_facts
    by (simp add: action_exec_calm [OF w(1)] weak_cleared_def action_tapping_process_def Let_def waiting_buffer_enq_def record_for_def)
  have cs: "calm_step ?x (hold_start env now a ?x)" by (rule calm_step_tap)
  have "quiet (hold_start env now a ?x)" using cs remembered_facts(1) [OF b(2) w(3)] by (simp add: calm_step_def)
  then have P: "quiet (act ?s) \<and> \<not> IS_TAPPING ?s \<and> only_tap_key (the_keymap env (act ?s)) ?p"
    using b w(4) calm_step_keymap [OF cs, of env]
    by (simp add: calm_iff IS_TAPPING_def no_record_def record_for_def IS_EVENT_def IS_NOEVENT_def)
  obtain n where n: "WAITING_BUFFER_SIZE = length rs + n" using fuel_split [OF b(1) w(7)] .
  have "\<exists>s'. process_waiting (length rs + n) env now ?s = process_waiting n env now s' \<and>
      (quiet (act s') \<and> \<not> IS_TAPPING s' \<and> only_tap_key (the_keymap env (act s')) ?p) \<and> buffer_ok s' \<and>
      pending s' = [] \<and> act s' = fold (perform env now) rs (act ?s)"
    by (rule process_waiting_consumes [OF consumed_when_idle [OF assms(1)]])
      (use P b w(7,8) in \<open>auto simp: calm_iff IS_TAPPING_def\<close>)
  then show ?thesis using pending_empty by (auto simp: e n calm_iff idle_def)
qed

text \<open>The tap key is released in its term: the tap's press, the waiting events, the tap's release.\<close>

lemma tap_then_waiting:
  assumes "ordinary_env env" "waiting_for env e a rs s" "IS_RELEASED e2" "event_key e2 = event_key e" "in_term env e e2"
    "length rs < WAITING_BUFFER_SIZE - 1" "counts_as_tap env \<lparr>interrupted = interrupted (tap (tapping_key s)), tap_count = 1\<rparr> a"
  shows "\<exists>s'. action_exec env now e2 s = s' \<and> calm s' \<and> pending s' = [] \<and>
    act s' = tap_end env now a (fold (perform env now) rs (tap_start env now a (remembered env (event_key e) (act s))))"
proof -
  let ?p = "event_key e" and ?x = "remembered env (event_key e) (act s)"
  let ?k = "with_count 1 (tapping_key s)"
  let ?r = "(record_for e2)\<lparr>tap := tap ?k\<rparr>"
  let ?s = "s\<lparr>act := tap_start env now a ?x, tapping_key := ?k, sc_last := 0\<rparr>"
  have w: "calm s" "undecided e s" "in_matrix ?p" "only_tap_key (the_keymap env (act s)) ?p" "current_action env ?p (act s) = a"
    "tap_hold a" "pending s = rs" "\<forall>r \<in> set rs. other_key ?p r"
    using assms(2) by (simp_all add: waiting_for_def)
  have b: "buffer_ok s" "quiet (act s)" using w(1) by (simp_all add: calm_iff)
  have e2: "IS_EVENT e2" "\<not> event_pressed e2" using assms(3) by (simp_all add: IS_RELEASED_def)
  have k: "event ?k = e" "IS_PRESSED (event ?k)" "tap_count (tap ?k) = 1" "event_pressed e"
    using w(2) by (auto simp: undecided_def with_count_def IS_PRESSED_def)
  have p: "process_tapping env now (record_for e2) s = (False, ?r, ?s)"
    using assms(4,5) e2 start_tapping_key(2) [OF assms(1) w(1,2,5,6) assms(7)] undecided_tapping [OF w(2)]
    by (simp add: process_tapping_def tapping_undecided_def Let_def record_for_def KEYEQ_iff)
  have cs: "calm_step ?x (tap_start env now a ?x)" by (rule calm_step_tap)
  have q: "quiet (tap_start env now a ?x)" "held_action env (tap_start env now a ?x) ?p = a"
    using cs remembered_facts(1,2) [OF b(2) w(3)] held_action_step [OF cs] w(5) by (simp_all add: calm_step_def)
  have "buffer_ok ?s" "length (pending ?s) < WAITING_BUFFER_SIZE - 1" using b w(7) assms(6) by simp_all
  moreover have "IS_EVENT (event ?r)" using e2 by (simp add: record_for_def)
  ultimately obtain ub uh where enq: "waiting_buffer_enq ?r ?s = (True, ?s\<lparr>waiting_buffer := ub, waiting_buffer_head := uh\<rparr>)"
    "pending (?s\<lparr>waiting_buffer := ub, waiting_buffer_head := uh\<rparr>) = pending ?s @ [?r]"
    "buffer_ok (?s\<lparr>waiting_buffer := ub, waiting_buffer_head := uh\<rparr>)"
    using pending_enq by blast
  let ?t = "?s\<lparr>waiting_buffer := ub, waiting_buffer_head := uh\<rparr>"
  have e: "action_exec env now e2 s = process_waiting WAITING_BUFFER_SIZE env now ?t"
    using p e2 enq(1) by (simp add: action_exec_calm [OF w(1)] weak_cleared_def action_tapping_process_def Let_def)
  define n where "n = WAITING_BUFFER_SIZE - length rs - 1"
  have n: "WAITING_BUFFER_SIZE = length rs + Suc n" using assms(6) by (simp add: n_def WAITING_BUFFER_SIZE_def)
  let ?P = "\<lambda>z. quiet (act z) \<and> tapping_key z = ?k \<and> only_tap_key (the_keymap env (act z)) ?p \<and> held_action env (act z) ?p = a"
  have "\<exists>s'. process_waiting (length rs + Suc n) env now ?t = process_waiting (Suc n) env now s' \<and> ?P s' \<and> buffer_ok s' \<and>
      pending s' = [?r] \<and> act s' = fold (perform env now) rs (act ?t)"
  proof (rule process_waiting_consumes)
    fix r z assume "r \<in> set rs" "?P z" "buffer_ok z"
    then show "\<exists>r' s'. process_tapping env now r z = (True, r', s') \<and> same_buffer z s' \<and> ?P s' \<and> act s' = perform env now r (act z)"
      using k w(3,8) by (intro consumed_when_counted [OF assms(1)]) (auto simp: calm_iff)
  next
    show "?P ?t" using q w(4) calm_step_keymap [OF cs, of env] by simp
  qed (use enq(2,3) w(7) in auto)
  then obtain z where z: "process_waiting (length rs + Suc n) env now ?t = process_waiting (Suc n) env now z" "?P z" "buffer_ok z"
    "pending z = [?r]" "act z = fold (perform env now) rs (act ?t)"
    by blast
  note ps = pending_step [OF z(3), of ?r "[]"]
  have r: "event_key (event ?r) = ?p" "IS_RELEASED (event ?r)" "?r\<lparr>tap := tap (tapping_key z)\<rparr> = ?r" "0 < tap_count (tap ?r)"
    "\<not> event_pressed (event ?r)"
    using assms(3,4) k z(2) e2 by (simp_all add: record_for_def)
  have cz: "calm z" using z(2,3) by (simp add: calm_iff)
  have tz: "IS_TAPPING_PRESSED z" "IS_TAPPING_KEY ?p z" "WITHIN_TAPPING_TERM env (event ?r) z" "tap_count (tap (tapping_key z)) \<noteq> 0"
    using k z(2) assms(5) by (auto simp: IS_TAPPING_PRESSED_def IS_TAPPING_def IS_TAPPING_KEY_def IS_PRESSED_def KEYEQ_iff
        WITHIN_TAPPING_TERM_def in_term_def record_for_def)
  let ?z = "z\<lparr>act := tap_end env now a (act z), tapping_key := ?r\<rparr>"
  have "process_record env now ?r z = (?r, z\<lparr>act := tap_end env now a (act z)\<rparr>)"
    using process_release [OF assms(1) cz r(2), of a now] switch_tap_hold(4) [OF w(6) r(5,4), of env now "act z"] z(2) r(1) by simp
  then have "process_tapping env now ?r z = (True, ?r, ?z)"
    using tz r by (simp add: process_tapping_def tapping_counted_def Let_def set_tapping_key_def)
  then obtain y where y: "process_waiting (Suc n) env now z = process_waiting n env now y" "pending y = []" "buffer_ok y"
    "act y = tap_end env now a (act z)"
    using ps(1,2) z(4) pending_step(3,4) [of ?z ?r "[]"] z(3)
    by (auto simp: Let_def)
  have "quiet (act y)" using calm_step_tap(2) [of "act z" env now a] z(2) y(4) by (simp add: calm_step_def)
  then show ?thesis using e z(1,5) y pending_empty [OF y(3)] by (simp add: n calm_iff)
qed

subsection \<open>Waiting\<close>

lemma waiting_slots_table:
  "\<forall>i \<in> set [0..<8]. \<forall>h \<in> set [0..<8]. map unat (slots_between WAITING_BUFFER_SIZE (of_nat i) (of_nat h)) =
    map (\<lambda>j. (i + j) mod 8) [0..<(if i \<le> h then h - i else h + 8 - i)]"
  by code_simp

lemma pending_slots:
  assumes "buffer_ok s"
  shows "map (slot s) (waiting_slots s) = pending s"
proof -
  let ?i = "unat (waiting_buffer_tail s)" and ?h = "unat (waiting_buffer_head s)"
  have "?i \<in> set [0..<8]" "?h \<in> set [0..<8]"
    using assms by (simp_all add: buffer_ok_iff WAITING_BUFFER_SIZE_def word_less_nat_alt)
  then have "map unat (slots_between WAITING_BUFFER_SIZE (of_nat ?i) (of_nat ?h)) =
      map (\<lambda>j. (?i + j) mod 8) [0..<(if ?i \<le> ?h then ?h - ?i else ?h + 8 - ?i)]"
    using waiting_slots_table by blast
  then have "map ((!) (waiting_buffer s)) (map unat (waiting_slots s)) = pending s"
    by (simp add: waiting_slots_def pending_def ring_contents_def ring_count_def waiting_ring_def WAITING_BUFFER_SIZE_def)
  moreover have "slot s = (!) (waiting_buffer s) \<circ> unat" by (simp add: slot_def fun_eq_iff)
  ultimately show ?thesis by simp
qed

lemma waiting_buffer_typed_iff:
  assumes "buffer_ok s"
  shows "waiting_buffer_typed e s \<longleftrightarrow>
    (\<exists>r \<in> set (pending s). event_key (event r) = event_key e \<and> event_pressed (event r) \<noteq> event_pressed e)"
  unfolding waiting_buffer_typed_def KEYEQ_iff pending_slots [OF assms, symmetric] set_map by force

definition waits_decision :: "kb_env \<Rightarrow> bool" where
  "waits_decision env \<longleftrightarrow> \<not> permissive_hold env \<and> \<not> hold_on_other_key_press env"

definition interrupt :: "keyrecord_t \<Rightarrow> keyrecord_t" where "interrupt r = r\<lparr>tap := (tap r)\<lparr>interrupted := True\<rparr>\<rparr>"

lemma undecided_other_key:
  assumes "undecided e s" "in_term env e (event r)" "event_key (event r) \<noteq> event_key e" "IS_EVENT (event r)" "waits_decision env"
    "event_pressed (event r) \<or> waiting_buffer_typed (event r) s"
  shows "process_tapping env now r s =
    (False, r, if event_pressed (event r) then s\<lparr>tapping_key := interrupt (tapping_key s)\<rparr> else s)"
  using assms undecided_tapping [OF assms(1)]
  by (auto simp: process_tapping_def tapping_undecided_def Let_def waits_decision_def KEYEQ_iff IS_RELEASED_def set_tapping_key_def
      interrupt_def)

lemma undecided_interrupt: "undecided e s \<Longrightarrow> undecided e (s\<lparr>tapping_key := interrupt (tapping_key s)\<rparr>)"
  by (simp add: undecided_def interrupt_def)

text \<open>The oldest waiting event is a press in the term.\<close>

definition oldest_waits :: "kb_env \<Rightarrow> keyevent_t \<Rightarrow> keyrecord_t list \<Rightarrow> bool" where
  "oldest_waits env e rs \<longleftrightarrow> (\<forall>r qs. rs = r # qs \<longrightarrow>
    event_pressed (event r) \<and> IS_EVENT (event r) \<and> event_key (event r) \<noteq> event_key e \<and> in_term env e (event r))"

lemma blocked_loop:
  assumes "undecided e s" "buffer_ok s" "oldest_waits env e (pending s)" "waits_decision env"
  shows "process_waiting (Suc n) env now s =
    (if pending s = [] then s else s\<lparr>tapping_key := interrupt (tapping_key s)\<rparr>)"
proof (cases "pending s")
  case Nil
  then show ?thesis using pending_empty [OF assms(2)] by simp
next
  case (Cons r rs)
  have r: "event_pressed (event r)" "IS_EVENT (event r)" "event_key (event r) \<noteq> event_key e" "in_term env e (event r)"
    using assms(3) Cons by (auto simp: oldest_waits_def)
  note st = pending_step(1,2) [OF assms(2) Cons]
  have "waiting_buffer s ! unat (waiting_buffer_tail s) = r" using st(2) by (simp add: slot_def)
  then have "(waiting_buffer s)[unat (waiting_buffer_tail s) := r] = waiting_buffer s" using list_update_id by metis
  then show ?thesis
    using undecided_other_key [OF assms(1) r(4,3,2) assms(4) disjI1 [OF r(1)], of now] r(1) st Cons by (simp add: Let_def)
qed

lemma other_key_waits:
  assumes "calm s" "undecided e s" "in_term env e e'" "IS_EVENT e'" "event_key e' \<noteq> event_key e" "waits_decision env"
    "event_pressed e' \<or> (\<exists>r \<in> set (pending s). event_key (event r) = event_key e' \<and> event_pressed (event r))"
    "length (pending s) < WAITING_BUFFER_SIZE - 1" "oldest_waits env e (pending s)"
  shows "\<exists>s'. action_exec env now e' s = s' \<and> act s' = weak_cleared (event_pressed e') (act s) \<and> undecided e s' \<and> buffer_ok s' \<and>
    pending s' = pending s @ [record_for e'] \<and> oldest_waits env e (pending s')"
proof -
  let ?r = "record_for e'"
  let ?s = "s\<lparr>act := weak_cleared (event_pressed e') (act s)\<rparr>"
  let ?s1 = "if event_pressed e' then ?s\<lparr>tapping_key := interrupt (tapping_key s)\<rparr> else ?s"
  have b: "buffer_ok ?s1" "pending ?s1 = pending s" "undecided e ?s" using assms(1,2) by (simp_all add: calm_iff undecided_def)
  have ev: "event ?r = e'" by (simp add: record_for_def)
  have typed: "event_pressed (event ?r) \<or> waiting_buffer_typed (event ?r) ?s"
    using assms(1,7) by (auto simp: ev waiting_buffer_typed_iff calm_iff)
  have p: "process_tapping env now ?r ?s = (False, ?r, ?s1)"
    using undecided_other_key [OF b(3), of env ?r now] assms(3-6) typed by (simp add: ev)
  have u: "undecided e ?s1" using undecided_interrupt [OF b(3)] b(3) by (cases "event_pressed e'") simp_all
  have "IS_EVENT (event ?r)" "length (pending ?s1) < WAITING_BUFFER_SIZE - 1" using assms(4,8) b(2) by (simp_all add: ev)
  then obtain ub uh where enq: "waiting_buffer_enq ?r ?s1 = (True, ?s1\<lparr>waiting_buffer := ub, waiting_buffer_head := uh\<rparr>)"
    "pending (?s1\<lparr>waiting_buffer := ub, waiting_buffer_head := uh\<rparr>) = pending ?s1 @ [?r]"
    "buffer_ok (?s1\<lparr>waiting_buffer := ub, waiting_buffer_head := uh\<rparr>)"
    using pending_enq [OF b(1)] by blast
  let ?t = "?s1\<lparr>waiting_buffer := ub, waiting_buffer_head := uh\<rparr>"
  have ow: "oldest_waits env e (pending s @ [?r])"
    using assms(3-5,7,9) by (cases "pending s") (auto simp: oldest_waits_def ev)
  have t: "undecided e ?t" "pending ?t = pending s @ [?r]" "act ?t = act ?s"
    using u enq(2) b(2) by (auto simp: undecided_def)
  have "process_waiting WAITING_BUFFER_SIZE env now ?t = ?t\<lparr>tapping_key := interrupt (tapping_key ?t)\<rparr>"
    using blocked_loop [OF t(1) enq(3) _ assms(6), of 7 now] ow t(2) by (simp add: WAITING_BUFFER_SIZE_def)
  then have e: "action_exec env now e' s = ?t\<lparr>tapping_key := interrupt (tapping_key ?t)\<rparr>"
    using p enq(1) by (simp add: action_exec_calm [OF assms(1)] action_tapping_process_def Let_def)
  have "undecided e (?t\<lparr>tapping_key := interrupt (tapping_key ?t)\<rparr>)" by (rule undecided_interrupt [OF t(1)])
  then show ?thesis unfolding e using t(2,3) enq(3) ow by (intro exI [of _ "?t\<lparr>tapping_key := interrupt (tapping_key ?t)\<rparr>"]) auto
qed

lemma tick_waits:
  assumes "calm s" "undecided e s" "in_term env e (TICK_EVENT t)" "oldest_waits env e (pending s)" "waits_decision env"
  shows "action_exec env now (TICK_EVENT t) s = (if pending s = [] then s else s\<lparr>tapping_key := interrupt (tapping_key s)\<rparr>)"
proof -
  have k: "\<not> KEYEQ (event_key e) (event_key (TICK_EVENT t))"
    using assms(2) by (auto simp: undecided_def IS_PRESSED_def IS_EVENT_def IS_NOEVENT_def KEYEQ_def tick_facts KEYLOC_TICK_def)
  have p: "process_tapping env now (record_for (TICK_EVENT t)) s = (False, record_for (TICK_EVENT t), s)"
    using assms(3) k tick_facts
    by (simp add: process_tapping_def undecided_tapping [OF assms(2)] tapping_undecided_def Let_def record_for_def IS_RELEASED_def IS_EVENT_def)
  have "buffer_ok s" using assms(1) by (simp add: calm_iff)
  note l = blocked_loop [OF assms(2) this assms(4,5), of 7 now]
  show ?thesis
    using p l tick_facts
    by (simp add: action_exec_calm [OF assms(1)] weak_cleared_def action_tapping_process_def Let_def waiting_buffer_enq_def
        record_for_def WAITING_BUFFER_SIZE_def del: process_waiting.simps)
qed

fun feed_events :: "kb_env \<Rightarrow> (u16 \<times> keyevent_t) list \<Rightarrow> kb_st \<Rightarrow> kb_st" where
  "feed_events env [] s = s"
| "feed_events env ((now, e) # es) s = feed_events env es (action_exec env now e s)"

lemma feed_events_append: "feed_events env (xs @ ys) s = feed_events env ys (feed_events env xs s)"
  by (induction env xs s rule: feed_events.induct) auto

text \<open>
  Events within the term of the tap key \<open>e\<close>: ticks, presses of other keys, and their releases; the records of the keys.
\<close>

fun rolled :: "kb_env \<Rightarrow> keyevent_t \<Rightarrow> keyrecord_t list \<Rightarrow> (u16 \<times> keyevent_t) list \<Rightarrow> bool" where
  "rolled env e seen [] = True"
| "rolled env e seen ((now, e') # es) =
    (in_term env e e' \<and>
     (if IS_NOEVENT e' then (\<exists>t. e' = TICK_EVENT t) \<and> rolled env e seen es
      else other_key (event_key e) (record_for e') \<and>
        (event_pressed e' \<or> (\<exists>r \<in> set seen. event_key (event r) = event_key e' \<and> event_pressed (event r))) \<and>
        rolled env e (seen @ [record_for e']) es))"

definition key_records :: "(u16 \<times> keyevent_t) list \<Rightarrow> keyrecord_t list" where
  "key_records es = map (\<lambda>(now, e). record_for e) (filter (\<lambda>(now, e). IS_EVENT e) es)"

lemma key_records_Cons: "key_records ((now, e) # es) = (if IS_NOEVENT e then key_records es else record_for e # key_records es)"
  by (simp add: key_records_def IS_EVENT_def)

lemma key_records_Nil: "key_records [] = []" by (simp add: key_records_def)

lemma rolled_waits:
  assumes "calm s" "undecided e s" "oldest_waits env e (pending s)" "waits_decision env" "rolled env e (pending s) es"
    "length (pending s) + length (key_records es) < WAITING_BUFFER_SIZE" "weak_mods (act s) = 0"
  shows "calm (feed_events env es s) \<and> undecided e (feed_events env es s) \<and> act (feed_events env es s) = act s \<and>
    pending (feed_events env es s) = pending s @ key_records es \<and>
    (pending s = [] \<and> key_records es = [] \<longrightarrow> tapping_key (feed_events env es s) = tapping_key s)"
  using assms
proof (induction es arbitrary: s)
  case Nil
  then show ?case by (simp add: key_records_def)
next
  case (Cons ne es)
  obtain now e' where ne: "ne = (now, e')" by (cases ne)
  have w: "weak_cleared b (act s) = act s" for b using Cons.prems(7) by (simp add: weak_cleared_def clear_weak_mods_def)
  show ?case
  proof (cases "IS_NOEVENT e'")
    case True
    then obtain t where t: "e' = TICK_EVENT t" using Cons.prems(5) ne by auto
    have tm: "in_term env e (TICK_EVENT t)" using Cons.prems(5) ne t by simp
    let ?s = "if pending s = [] then s else s\<lparr>tapping_key := interrupt (tapping_key s)\<rparr>"
    have x: "action_exec env now e' s = ?s" unfolding t by (rule tick_waits [OF Cons.prems(1,2) tm Cons.prems(3,4)])
    have f: "calm ?s" "undecided e ?s" "pending ?s = pending s" "act ?s = act s"
      using Cons.prems(1,2) undecided_interrupt by simp_all
    show ?thesis using Cons.IH [of ?s] Cons.prems f True by (auto simp: ne x key_records_Cons)
  next
    case False
    have r: "in_term env e e'" "IS_EVENT e'" "event_key e' \<noteq> event_key e"
      "event_pressed e' \<or> (\<exists>r \<in> set (pending s). event_key (event r) = event_key e' \<and> event_pressed (event r))"
      "rolled env e (pending s @ [record_for e']) es" "length (pending s) < WAITING_BUFFER_SIZE - 1"
      using Cons.prems(5,6) False by (auto simp: ne IS_EVENT_def other_key_def record_for_def key_records_Cons)
    obtain s' where s': "action_exec env now e' s = s'" "act s' = act s" "undecided e s'" "buffer_ok s'"
      "pending s' = pending s @ [record_for e']" "oldest_waits env e (pending s')"
      using other_key_waits [OF Cons.prems(1,2) r(1-3) Cons.prems(4) r(4,6) Cons.prems(3), of now] w by auto
    have "calm s'" using Cons.prems(1) s'(2,4) by (simp add: calm_iff)
    then show ?thesis using Cons.IH [of s'] Cons.prems(4,6,7) s' r(5) False by (auto simp: ne key_records_Cons)
  qed
qed

lemma rolled_other: "rolled env e seen es \<Longrightarrow> \<forall>r \<in> set (key_records es). other_key (event_key e) r"
  by (induction env e seen es rule: rolled.induct) (auto simp: key_records_Cons key_records_Nil split: if_splits)

subsection \<open>From the press to the decision\<close>

lemma tap_key_history:
  assumes "calm s" "idle s" "waits_decision env" "IS_PRESSED e" "in_matrix (event_key e)"
    "only_tap_key (the_keymap env (act s)) (event_key e)" "current_action env (event_key e) (act s) = a" "tap_hold a"
    "rolled env e [] es" "length (key_records es) < WAITING_BUFFER_SIZE"
  shows "\<exists>s'. feed_events env ((now0, e) # es) s = s' \<and> waiting_for env e a (key_records es) s' \<and> act s' = clear_weak_mods (act s) \<and>
    (key_records es = [] \<longrightarrow> \<not> interrupted (tap (tapping_key s')))"
proof -
  let ?s = "s\<lparr>act := clear_weak_mods (act s), tapping_key := record_for e\<rparr>"
  have e: "IS_EVENT e" "event_pressed e" using assms(4) by (simp_all add: IS_PRESSED_def)
  have c: "current_action env (event_key e) (clear_weak_mods (act s)) = a" "the_keymap env (clear_weak_mods (act s)) = the_keymap env (act s)"
    using assms(7) by (simp_all add: current_action_def clear_weak_mods_def the_keymap_def)
  have p: "action_exec env now0 e s = ?s"
    using tap_hold_code(8) [OF assms(8)] assms(7) by (intro press_tap_key assms(1,2) e) (simp add: current_action_def)
  have b: "calm ?s" "pending s = []" using assms(1,2) pending_empty [of s] by (simp_all add: calm_iff idle_def)
  have u: "undecided e ?s" using assms(4) by (simp add: undecided_def record_for_def no_tap_def)
  have "feed_events env ((now0, e) # es) s = feed_events env es ?s" by (simp add: p)
  then show ?thesis
    using rolled_waits [OF b(1) u _ assms(3), of es] assms(5,6,8-10) b(2) c rolled_other [OF assms(9)]
    by (auto simp: oldest_waits_def waiting_for_def clear_weak_mods_def record_for_def no_tap_def)
qed

lemma tap_key_held:
  assumes "calm s" "idle s" "ordinary_env env" "waits_decision env" "IS_PRESSED e" "in_matrix (event_key e)"
    "only_tap_key (the_keymap env (act s)) (event_key e)" "current_action env (event_key e) (act s) = a" "tap_hold a"
    "rolled env e [] es" "length (key_records es) < WAITING_BUFFER_SIZE" "\<not> in_term env e (TICK_EVENT t)"
  shows "act (feed_events env ((now0, e) # es @ [(now, TICK_EVENT t)]) s) =
    fold (perform env now) (key_records es) (hold_start env now a (remembered env (event_key e) (clear_weak_mods (act s))))"
proof -
  obtain s' where s': "feed_events env ((now0, e) # es) s = s'" "waiting_for env e a (key_records es) s'" "act s' = clear_weak_mods (act s)"
    using tap_key_history [OF assms(1,2,4-11)] by blast
  show ?thesis
    using hold_then_waiting [OF assms(3) s'(2) assms(12), of now] s'(3) feed_events_append [of env "(now0, e) # es" "[(now, TICK_EVENT t)]" s]
    unfolding s'(1) by auto
qed

lemma tap_key_tapped:
  assumes "calm s" "idle s" "ordinary_env env" "waits_decision env" "IS_PRESSED e" "in_matrix (event_key e)"
    "only_tap_key (the_keymap env (act s)) (event_key e)" "current_action env (event_key e) (act s) = a" "tap_hold a"
    "rolled env e [] es" "length (key_records es) < WAITING_BUFFER_SIZE - 1"
    "IS_RELEASED e2" "event_key e2 = event_key e" "in_term env e e2"
    "is_mods_tap_kind a \<longrightarrow> ignore_mod_tap_interrupt env \<or> key_records es = []"
  shows "act (feed_events env ((now0, e) # es @ [(now, e2)]) s) = tap_end env now a
    (fold (perform env now) (key_records es) (tap_start env now a (remembered env (event_key e) (clear_weak_mods (act s)))))"
proof -
  have l: "length (key_records es) < WAITING_BUFFER_SIZE" using assms(11) by simp
  obtain s' where s': "feed_events env ((now0, e) # es) s = s'" "waiting_for env e a (key_records es) s'" "act s' = clear_weak_mods (act s)"
    "key_records es = [] \<longrightarrow> \<not> interrupted (tap (tapping_key s'))"
    using tap_key_history [OF assms(1,2,4-10) l] by blast
  have "counts_as_tap env \<lparr>interrupted = interrupted (tap (tapping_key s')), tap_count = 1\<rparr> a"
    using assms(15) s'(4) by (auto simp: counts_as_tap_def)
  from tap_then_waiting [OF assms(3) s'(2) assms(12-14,11) this, of now] show ?thesis
    using s'(3) feed_events_append [of env "(now0, e) # es" "[(now, e2)]" s] unfolding s'(1) by auto
qed



text \<open>A keymap with \<^verbatim>\<open>LT(1, KC_A)\<close> in the corner, B on layer 0 and C on layer 1.\<close>

definition lt_env :: kb_env where
  "lt_env = demo_env\<lparr>keycode_at := (\<lambda>l p. if p = key_at 0 0 then 0x4104 else if l = 1 then 6 else 5)\<rparr>"

lemma lt_ordinary: "ordinary_env lt_env"
  using demo_ordinary by (simp add: ordinary_env_def lt_env_def FEATURE_CODES_def)

definition lt_press :: keyevent_t where "lt_press = MAKE_KEYEVENT 1 0 0 True"
definition lt_release :: keyevent_t where "lt_release = MAKE_KEYEVENT 101 0 0 False"
definition other_press :: keyevent_t where "other_press = MAKE_KEYEVENT 5 0 1 True"

lemma lt_events:
  "IS_PRESSED lt_press" "event_key lt_press = key_at 0 0" "IS_RELEASED lt_release" "event_key lt_release = key_at 0 0"
  "IS_EVENT other_press" "event_pressed other_press" "event_key other_press = key_at 0 1" "in_matrix (key_at 0 0)" "in_matrix (key_at 0 1)"
  "key_at 0 1 \<noteq> key_at 0 0"
  by (simp_all add: lt_press_def lt_release_def other_press_def IS_PRESSED_def IS_RELEASED_def IS_EVENT_def IS_NOEVENT_def
      MAKE_KEYEVENT_def KEYLOC_TICK_def key_at_def in_matrix_def)

lemma lt_terms:
  "in_term lt_env lt_press other_press" "in_term lt_env lt_press lt_release" "\<not> in_term lt_env lt_press (TICK_EVENT 300)"
  by (simp_all add: in_term_def lt_env_def demo_env_def lt_press_def lt_release_def other_press_def TICK_EVENT_def MAKE_KEYEVENT_def
      TIMER_DIFF_16_def)

lemma lt_keymap: "only_tap_key (the_keymap lt_env idle_action) (key_at 0 0)"
proof -
  have "\<forall>k \<in> set [0, 5, 6]. \<not> is_tap_action (action_for_keycode 0x400 k)" by code_simp
  then show ?thesis
    using keycode_valid
    by (auto simp: only_tap_key_def plain_def the_keymap_def action_for_key_def keymap_key_to_keycode_def lt_env_def idle_action_def)
qed

lemma lt_action: "tap_hold (current_action lt_env (key_at 0 0) idle_action)" "\<not> is_mods_tap_kind (current_action lt_env (key_at 0 0) idle_action)"
proof -
  have "current_action lt_env (key_at 0 0) idle_action = action_for_keycode 0x400 0x4104"
    using lt_events(8) by (simp add: current_action_def layer_switch_get_action_def the_keymap_def action_for_key_def keymap_key_to_keycode_def
        lt_env_def idle_action_def)
  moreover have "tap_hold (action_for_keycode 0x400 0x4104) \<and> \<not> is_mods_tap_kind (action_for_keycode 0x400 0x4104)" by code_simp
  ultimately show "tap_hold (current_action lt_env (key_at 0 0) idle_action)" "\<not> is_mods_tap_kind (current_action lt_env (key_at 0 0) idle_action)"
    by simp_all
qed

lemma rest_calm: "calm rest" "idle rest" "waits_decision lt_env"
  using rest_inv
  by (simp_all add: matrix_inv_def matrix_rest_def typing_inv_def calm_iff buffer_ok_iff waits_decision_def lt_env_def demo_env_def)
    (simp add: rest_def idle_action_def quiet_def WAITING_BUFFER_SIZE_def wf_layers_def wf_cache_def init_layers_def)

lemma lt_rolled: "rolled lt_env lt_press [] [(5, other_press)]" "key_records [(5, other_press)] = [record_for other_press]"
  using lt_events lt_terms
  by (simp_all add: key_records_def other_key_def record_for_def no_tap_def) (simp add: IS_EVENT_def)



end
