(* ===== verification/Qmk_Waiting.thy ===== *)
theory Qmk_Waiting
  imports Qmk_Tap_Hold
begin

text \<open>
  The waiting buffer of the tapping code for every keymap and every option: its indices stay in range, the loop over
  it ends within its size, and what happens when it is full.
\<close>

subsection \<open>Who touches the buffer\<close>

text \<open>The processing of a record may mark a waiting record as a tap, but moves neither head nor tail.\<close>

definition queue_of :: "kb_st \<Rightarrow> nat \<times> u8 \<times> u8" where
  "queue_of s = (length (waiting_buffer s), waiting_buffer_head s, waiting_buffer_tail s)"

lemma queue_of_updates [simp]:
  "queue_of (map_act f s) = queue_of s" "queue_of (s\<lparr>act := x\<rparr>) = queue_of s" "queue_of (set_tapping_key r s) = queue_of s"
  "queue_of (s\<lparr>sc_last := c\<rparr>) = queue_of s" "queue_of (s\<lparr>sc_timer := w\<rparr>) = queue_of s"
  "queue_of (s\<lparr>grave_esc_was_shifted := b\<rparr>) = queue_of s"
  "queue_of (s\<lparr>waiting_buffer := (waiting_buffer s)[i := r]\<rparr>) = queue_of s"
  by (simp_all add: queue_of_def map_act_def set_tapping_key_def)

lemma queue_of_helpers [simp]:
  "queue_of (on_modifier f code s) = queue_of s" "queue_of (update_tri_layers s) = queue_of s"
  by (simp_all add: on_modifier_def update_tri_layers_def)

definition hook_keeps_queue :: "kb_env \<Rightarrow> bool" where
  "hook_keeps_queue env \<longleftrightarrow> (\<forall>k r s. queue_of (snd (process_record_kb env k r s)) = queue_of s)"

lemma run_handlers_keeps:
  assumes "\<forall>f \<in> set fs. \<forall>s. queue_of (snd (f s)) = queue_of s"
  shows "queue_of (snd (run_handlers fs s)) = queue_of s"
  using assms
proof (induction fs arbitrary: s)
  case (Cons f fs)
  obtain c t where f: "f s = (c, t)" by (cases "f s")
  have "queue_of t = queue_of s" using Cons.prems f by (metis list.set_intros(1) snd_conv)
  then show ?case using Cons f by simp
qed simp

lemma handlers_keep:
  "queue_of (snd (via_macro_key env k r s)) = queue_of s" "queue_of (snd (process_backlight k r s)) = queue_of s"
  "queue_of (snd (process_space_cadet env now k r s)) = queue_of s" "queue_of (snd (process_magic env now k r s)) = queue_of s"
  "queue_of (snd (process_grave_esc env now k r s)) = queue_of s" "queue_of (snd (process_tri_layer k r s)) = queue_of s"
  "queue_of (snd (quantum_key env now k s)) = queue_of s"
  by (simp_all add: via_macro_key_def process_backlight_def process_space_cadet_def perform_space_cadet_def process_magic_def
      process_grave_esc_def process_tri_layer_def quantum_key_def reset_keyboard_def soft_reset_keyboard_def shutdown_quantum_def
      Let_def split: option.splits prod.splits)

lemma quantum_keeps:
  assumes "hook_keeps_queue env"
  shows "queue_of (snd (process_record_quantum env now r s)) = queue_of s"
proof -
  have "queue_of (snd (run_handlers (handlers env now k r) s)) = queue_of s" for k s
    using assms by (intro run_handlers_keeps) (auto simp: handlers_def handlers_keep hook_keeps_queue_def)
  then have "queue_of t = queue_of s" if "run_handlers (handlers env now k r) s = (c, t)" for k s c t
    using that by (metis snd_conv)
  then show ?thesis
    by (auto simp: process_record_quantum_def handlers_keep split: prod.splits)
qed

lemma process_with_keeps:
  assumes "hook_keeps_queue env" "\<And>r a s. queue_of (snd (pa r a s)) = queue_of s"
  shows "queue_of (snd (process_record_with pa env now r s)) = queue_of s"
proof -
  obtain c t where q: "process_record_quantum env now r s = (c, t)" by (cases "process_record_quantum env now r s")
  have "queue_of t = queue_of s" using quantum_keeps [OF assms(1), of now r s] q by simp
  then show ?thesis using q assms(2) by (simp add: process_record_with_def process_record_handler_with_def split: prod.splits)
qed

lemma process_record_keeps:
  assumes "hook_keeps_queue env"
  shows "queue_of (snd (process_record env now r s)) = queue_of s"
proof -
  have p: "queue_of (snd (process_action_plain env now r a s)) = queue_of s" for r a s
    by (simp add: process_action_plain_def split: prod.splits)
  have "queue_of (snd (process_action env now r a s)) = queue_of s" for r a s
  proof -
    have "queue_of y = queue_of s" if "process_record_with (process_action_plain env now) env now r' z = (r'', y)" "queue_of z = queue_of s" for r' z r'' y
      using process_with_keeps [OF assms, of "process_action_plain env now" now r' z] p that by simp
    then show ?thesis by (auto simp: process_action_def Let_def split: prod.splits)
  qed
  then show ?thesis unfolding process_record_def by (rule process_with_keeps [OF assms])
qed

lemma tapping_key_keeps [simp]:
  assumes "hook_keeps_queue env"
  shows "queue_of (process_tapping_key env now s) = queue_of s"
  by (simp add: process_tapping_key_def split_beta process_record_keeps [OF assms])

lemma scan_tap_keeps [simp]:
  assumes "hook_keeps_queue env"
  shows "queue_of (waiting_buffer_scan_tap env now s) = queue_of s"
  using assms by (simp add: waiting_buffer_scan_tap_def Let_def split: option.splits)

lemma process_tapping_keeps:
  assumes "hook_keeps_queue env"
  shows "queue_of (snd (snd (process_tapping env now r s))) = queue_of s"
proof -
  note p = split_beta Let_def process_record_keeps [OF assms]
  have "queue_of (snd (snd (tapping_undecided env now r s))) = queue_of s"
    using assms by (simp add: tapping_undecided_def p)
  moreover have "queue_of (snd (snd (tapping_counted env now w r s))) = queue_of s" for w
    using assms by (simp add: tapping_counted_def start_new_tap_def p)
  moreover have "queue_of (snd (snd (tapping_released env now r s))) = queue_of s"
    using assms by (simp add: tapping_released_def p)
  ultimately show ?thesis
    using assms by (simp add: process_tapping_def process_record_tap_hint_def p)
qed

subsection \<open>The loop ends\<close>

lemma buffer_ok_queue: "queue_of s' = queue_of s \<Longrightarrow> buffer_ok s' = buffer_ok s"
  by (simp add: queue_of_def buffer_ok_iff)

lemma length_pending_queue: "queue_of s' = queue_of s \<Longrightarrow> length (pending s') = length (pending s)"
  by (simp add: queue_of_def pending_def ring_count_def waiting_ring_def)

text \<open>The turn of the loop after a consumed record, and after a refused one.\<close>

definition turn_done :: "keyrecord_t \<Rightarrow> u8 \<Rightarrow> kb_st \<Rightarrow> kb_st" where
  "turn_done r i s = s\<lparr>waiting_buffer := (waiting_buffer s)[unat i := r]\<rparr>"

definition turn_next :: "keyrecord_t \<Rightarrow> u8 \<Rightarrow> kb_st \<Rightarrow> kb_st" where
  "turn_next r i s = (turn_done r i s)\<lparr>waiting_buffer_tail := next_slot (waiting_buffer_tail s)\<rparr>"

lemma process_waiting_turn:
  assumes "waiting_buffer_tail s \<noteq> waiting_buffer_head s" "process_tapping env now (slot s (waiting_buffer_tail s)) s = (c, r, s')"
  shows "process_waiting (Suc n) env now s =
    (if c then process_waiting n env now (turn_next r (waiting_buffer_tail s) s') else turn_done r (waiting_buffer_tail s) s')"
  using assms by (simp add: turn_next_def turn_done_def Let_def)

lemma turn_next_pending:
  assumes "hook_keeps_queue env" "buffer_ok s" "waiting_buffer_tail s \<noteq> waiting_buffer_head s"
    "process_tapping env now (slot s (waiting_buffer_tail s)) s = (c, r, s')"
  shows "buffer_ok (turn_next r (waiting_buffer_tail s) s')"
    "Suc (length (pending (turn_next r (waiting_buffer_tail s) s'))) = length (pending s)"
    "buffer_ok (turn_done r (waiting_buffer_tail s) s')"
proof -
  have q: "queue_of s' = queue_of s" using process_tapping_keeps [OF assms(1), of now "slot s (waiting_buffer_tail s)" s] assms(4) by simp
  have ok: "buffer_ok s'" using buffer_ok_queue [OF q] assms(2) by simp
  have t: "waiting_buffer_tail s' = waiting_buffer_tail s" using q by (simp add: queue_of_def)
  have "pending s \<noteq> []" using pending_empty [OF assms(2)] assms(3) by simp
  then have l: "0 < length (pending s')" using length_pending_queue [OF q] by simp
  then obtain r0 rs where p: "pending s' = r0 # rs" by (cases "pending s'") auto
  note st = pending_step(3,4) [OF ok p, of r]
  show "buffer_ok (turn_next r (waiting_buffer_tail s) s')"
    "Suc (length (pending (turn_next r (waiting_buffer_tail s) s'))) = length (pending s)"
    using st p length_pending_queue [OF q] by (simp_all add: turn_next_def turn_done_def t)
  show "buffer_ok (turn_done r (waiting_buffer_tail s) s')" using ok by (simp add: turn_done_def buffer_ok_iff)
qed

text \<open>The loop of the source, as a relation.\<close>

inductive waiting_loop :: "kb_env \<Rightarrow> u16 \<Rightarrow> kb_st \<Rightarrow> kb_st \<Rightarrow> bool" for env now where
  exhausted: "waiting_buffer_tail s = waiting_buffer_head s \<Longrightarrow> waiting_loop env now s s"
| refused: "waiting_buffer_tail s \<noteq> waiting_buffer_head s \<Longrightarrow>
    process_tapping env now (slot s (waiting_buffer_tail s)) s = (False, r, s') \<Longrightarrow>
    waiting_loop env now s (turn_done r (waiting_buffer_tail s) s')"
| consumed: "waiting_buffer_tail s \<noteq> waiting_buffer_head s \<Longrightarrow>
    process_tapping env now (slot s (waiting_buffer_tail s)) s = (True, r, s') \<Longrightarrow>
    waiting_loop env now (turn_next r (waiting_buffer_tail s) s') s'' \<Longrightarrow> waiting_loop env now s s''"

inductive_cases waiting_loopE: "waiting_loop env now s s'"

lemma waiting_loop_unique: "waiting_loop env now s s1 \<Longrightarrow> waiting_loop env now s s2 \<Longrightarrow> s1 = s2"
proof (induction arbitrary: s2 rule: waiting_loop.induct)
  case (exhausted s)
  from exhausted(2) show ?case by (rule waiting_loopE) (use exhausted(1) in simp_all)
next
  case (refused s r s')
  from refused(3) show ?case by (rule waiting_loopE) (use refused(1,2) in simp_all)
next
  case (consumed s r s' s'')
  from consumed(5) show ?case by (rule waiting_loopE) (use consumed(1,2,4) in simp_all)
qed

lemma process_waiting_loop:
  assumes "hook_keeps_queue env" "buffer_ok s" "length (pending s) \<le> n"
  shows "waiting_loop env now s (process_waiting n env now s) \<and> buffer_ok (process_waiting n env now s)"
  using assms(2,3)
proof (induction n arbitrary: s)
  case 0
  then show ?case using pending_empty [of s] by (auto intro: waiting_loop.exhausted)
next
  case (Suc n)
  show ?case
  proof (cases "waiting_buffer_tail s = waiting_buffer_head s")
    case True
    then show ?thesis using Suc.prems by (auto intro: waiting_loop.exhausted)
  next
    case False
    obtain c r s' where p: "process_tapping env now (slot s (waiting_buffer_tail s)) s = (c, r, s')"
      by (cases "process_tapping env now (slot s (waiting_buffer_tail s)) s") auto
    note t = turn_next_pending [OF assms(1) Suc.prems(1) False p]
    show ?thesis
      using Suc.IH [OF t(1)] t(2,3) Suc.prems(2) False p
      by (cases c) (auto simp: process_waiting_turn [OF False p] intro: waiting_loop.intros simp del: process_waiting.simps)
  qed
qed

lemma enq_ok:
  assumes "buffer_ok s"
  shows "buffer_ok (snd (waiting_buffer_enq r s))"
proof -
  have "next_slot (waiting_buffer_head s) < 8" using unat_next_slot [of "waiting_buffer_head s"] assms
    by (simp add: buffer_ok_iff WAITING_BUFFER_SIZE_def word_less_nat_alt)
  then show ?thesis using assms by (simp add: waiting_buffer_enq_def buffer_ok_iff WAITING_BUFFER_SIZE_def)
qed

lemma action_exec_ok:
  assumes "hook_keeps_queue env" "buffer_ok s"
  shows "buffer_ok (action_exec env now e s)"
proof -
  have tp: "buffer_ok (action_tapping_process env now r s)" if "buffer_ok s" for r s
  proof -
    obtain c r' s' where p: "process_tapping env now r s = (c, r', s')" by (cases "process_tapping env now r s") auto
    have ok: "buffer_ok s'" using process_tapping_keeps [OF assms(1), of now r s] p buffer_ok_queue [of s' s] that by simp
    obtain b s'' where e: "waiting_buffer_enq r' s' = (b, s'')" by (cases "waiting_buffer_enq r' s'")
    have ok': "buffer_ok s''" using enq_ok [OF ok, of r'] e by simp
    have cl: "buffer_ok (set_tapping_key no_record (waiting_buffer_clear (map_act f s'')))" for f
      using ok' by (simp add: buffer_ok_iff set_tapping_key_def waiting_buffer_clear_def map_act_def WAITING_BUFFER_SIZE_def)
    define z where "z = (if c then s' else if b then s'' else set_tapping_key no_record (waiting_buffer_clear (map_act (clear_keyboard (oneshot_timeout env) now) s'')))"
    have "buffer_ok z" using ok ok' cl by (simp add: z_def)
    then have "buffer_ok (process_waiting WAITING_BUFFER_SIZE env now z)"
      using process_waiting_loop [OF assms(1), of z WAITING_BUFFER_SIZE now] length_pending [of z] by simp
    then show ?thesis using p e by (cases c; cases b) (simp_all add: action_tapping_process_def Let_def z_def)
  qed
  have m: "buffer_ok (map_act f t) = buffer_ok t" for f t by (rule buffer_ok_queue) simp
  show ?thesis using assms(2) by (simp add: action_exec_def Let_def tp m)
qed

text \<open>C17: The loop over the waiting events ends for every state, keymap and option: its result is the one value the loop of
  the source can have, it takes at most as many turns as the buffer has slots, and every event leaves the
  indices of the buffer in range.\<close>
theorem waiting_loop_ends:
  assumes "hook_keeps_queue env" "buffer_ok s"
  shows "(waiting_loop env now s s' \<longleftrightarrow> s' = process_waiting WAITING_BUFFER_SIZE env now s) \<and> buffer_ok (action_exec env now e s)"
  using process_waiting_loop [OF assms, of WAITING_BUFFER_SIZE now] length_pending [OF assms(2)] waiting_loop_unique
    action_exec_ok [OF assms, of now e]
  by fastforce

theorem waiting_loop_ends_witness:
  "(waiting_loop lt_env 300 rest rest \<longleftrightarrow> rest = process_waiting WAITING_BUFFER_SIZE lt_env 300 rest) \<and>
    buffer_ok (action_exec lt_env 300 lt_press rest)"
proof (rule waiting_loop_ends)
  show "hook_keeps_queue lt_env" by (simp add: hook_keeps_queue_def lt_env_def demo_env_def)
  show "buffer_ok rest" using rest_calm(1) by (simp add: calm_iff)
qed

subsection \<open>A full buffer\<close>

text \<open>C40: When seven events wait and the tap key is still undecided, the press of another key drops all of them and itself: the
  keyboard is cleared, the buffer is empty, and no key is being tapped.\<close>
theorem waiting_overflow_clears:
  assumes "calm s" "undecided e s" "in_term env e e'" "IS_PRESSED e'" "event_key e' \<noteq> event_key e" "waits_decision env"
    "length (pending s) = WAITING_BUFFER_SIZE - 1"
  shows "act (action_exec env now e' s) = clear_keyboard (oneshot_timeout env) now (clear_weak_mods (act s)) \<and>
    pending (action_exec env now e' s) = [] \<and> \<not> IS_TAPPING (action_exec env now e' s)"
proof -
  let ?r = "record_for e'"
  let ?s = "s\<lparr>act := clear_weak_mods (act s)\<rparr>"
  let ?s1 = "?s\<lparr>tapping_key := interrupt (tapping_key s)\<rparr>"
  have e': "IS_EVENT e'" "event_pressed e'" "event ?r = e'" using assms(4) by (simp_all add: IS_PRESSED_def record_for_def)
  have ok: "buffer_ok s" using assms(1) by (simp add: calm_iff)
  have u: "undecided e ?s" using assms(2) by (simp add: undecided_def)
  have p: "process_tapping env now ?r ?s = (False, ?r, ?s1)"
    using undecided_other_key [OF u, of env ?r now] assms(3,5,6) e' by simp
  have "next_slot (waiting_buffer_head s) = waiting_buffer_tail s"
  proof -
    have h: "waiting_buffer_head s < of_nat WAITING_BUFFER_SIZE" using ok by (simp add: buffer_ok_iff)
    have "ring_inv WAITING_BUFFER_SIZE (waiting_ring s)" using ok by (simp add: buffer_ok_def)
    from ring_full_iff [OF this] assms(7) unat_next_slot [OF h] show ?thesis
      by (simp add: pending_def waiting_ring_def word_unat_eq_iff WAITING_BUFFER_SIZE_def)
  qed
  then have q: "waiting_buffer_enq ?r ?s1 = (False, ?s1)"
    using e' by (simp add: waiting_buffer_enq_def IS_EVENT_def)
  show ?thesis
    using p q e' by (simp add: action_exec_calm [OF assms(1)] weak_cleared_def action_tapping_process_def Let_def map_act_def
        waiting_buffer_clear_def set_tapping_key_def pending_def waiting_ring_def ring_contents_def ring_count_def
        IS_TAPPING_def no_record_def record_for_def IS_EVENT_def IS_NOEVENT_def)
qed

definition crowded :: kb_st where
  "crowded = rest\<lparr>tapping_key := record_for lt_press, waiting_buffer_head := 7\<rparr>"

lemma crowded_facts: "calm crowded" "undecided lt_press crowded" "length (pending crowded) = WAITING_BUFFER_SIZE - 1"
  using rest_calm(1) lt_events(1)
  by (simp_all add: crowded_def calm_iff buffer_ok_iff undecided_def record_for_def no_tap_def rest_def pending_def waiting_ring_def
      ring_count_def WAITING_BUFFER_SIZE_def)

theorem waiting_overflow_clears_witness:
  "pending (action_exec lt_env 5 other_press crowded) = [] \<and> \<not> IS_TAPPING (action_exec lt_env 5 other_press crowded)"
  using waiting_overflow_clears [OF crowded_facts(1,2) lt_terms(1) _ _ rest_calm(3) crowded_facts(3), of 5] lt_events
  by (simp add: IS_PRESSED_def)

end
