(* ===== verification/Qmk_Debounce.thy ===== *)
theory Qmk_Debounce
  imports Qmk_Bitwise
begin

text \<open>
  The seven debounce algorithms of \<^verbatim>\<open>quantum/debounce\<close>.  The arrays of \<^verbatim>\<open>num_rows\<close> rows are lists of that
  length, the raw matrix is an argument, the cooked matrix is updated in place and is part of the
  state the loops work on.  \<open>now\<close> is the timer at the call; time does not advance inside a call.
  \<open>D\<close> is \<^verbatim>\<open>DEBOUNCE\<close>, in milliseconds; the files that keep 8-bit or 7-bit counters cap it.

  The algorithms share a contract, the locale \<open>debouncer\<close>: a cooked bit is its old value or the raw
  one.  Those whose result says whether the cooked matrix changed satisfy its extension
  \<open>reporting_debouncer\<close>.
\<close>

subsection \<open>Shared data\<close>

type_synonym matrix_row_t = u16
type_synonym matrix = "matrix_row_t list"

definition COLS :: nat where "COLS = 16"

definition col_mask :: "nat \<Rightarrow> matrix_row_t" where "col_mask col = push_bit col 1"

text \<open>The elapsed time as the files with 8-bit counters clip it.\<close>

definition elapsed8 :: "u32 \<Rightarrow> u8" where
  "elapsed8 e = (if 255 < e then 255 else ucast e)"

subsection \<open>No debouncing\<close>

definition debounce_none :: "matrix \<Rightarrow> matrix \<Rightarrow> bool \<times> matrix" where
  "debounce_none raw cooked = (raw \<noteq> cooked, raw)"

subsection \<open>Global timer, deferred\<close>

record sym_defer_g_st =
  debouncing :: bool
  debouncing_time :: u32

definition sym_defer_g :: "nat \<Rightarrow> u32 \<Rightarrow> matrix \<Rightarrow> bool \<Rightarrow> matrix \<Rightarrow> sym_defer_g_st \<Rightarrow> bool \<times> matrix \<times> sym_defer_g_st" where
  "sym_defer_g D now raw changed cooked s =
    (if D = 0 then let (c, cooked) = debounce_none raw cooked in (c, cooked, s)
     else let s = (if changed then s\<lparr>debouncing := True, debouncing_time := now\<rparr> else s) in
       if debouncing s \<and> D \<le> unat (TIMER_DIFF_32 now (debouncing_time s))
       then (cooked \<noteq> raw, raw, s\<lparr>debouncing := False\<rparr>)
       else (False, cooked, s))"

subsection \<open>Per-row timer, deferred\<close>

record sym_defer_pr_st =
  pr_last_time :: u16
  countdowns :: "u8 list"
  last_raw :: matrix

definition sym_defer_pr_init :: "nat \<Rightarrow> u16 \<Rightarrow> sym_defer_pr_st" where
  "sym_defer_pr_init num_rows now = \<lparr>pr_last_time = now, countdowns = replicate num_rows 0, last_raw = replicate num_rows 0\<rparr>"

fun sym_defer_pr_rows :: "nat \<Rightarrow> u8 \<Rightarrow> matrix \<Rightarrow> matrix \<Rightarrow> u8 list \<Rightarrow> matrix \<Rightarrow> bool \<Rightarrow> bool \<times> matrix \<times> u8 list \<times> matrix" where
  "sym_defer_pr_rows D elapsed (raw_row # raw) (cooked_row # cooked) (countdown # cs) (l # ls) changed =
    (let (cooked_row', countdown', l', changed) =
       (if raw_row \<noteq> l then (cooked_row, of_nat D, raw_row, changed)
        else if elapsed < countdown then (cooked_row, countdown - elapsed, l, changed)
        else if countdown \<noteq> 0 then (raw_row, 0, l, changed \<or> cooked_row XOR raw_row \<noteq> 0)
        else (cooked_row, countdown, l, changed));
         (changed, cooked, cs, ls) = sym_defer_pr_rows D elapsed raw cooked cs ls changed in
     (changed, cooked_row' # cooked, countdown' # cs, l' # ls))"
| "sym_defer_pr_rows D elapsed raw cooked cs ls changed = (changed, cooked, cs, ls)"

definition sym_defer_pr :: "nat \<Rightarrow> u16 \<Rightarrow> matrix \<Rightarrow> bool \<Rightarrow> matrix \<Rightarrow> sym_defer_pr_st \<Rightarrow> bool \<times> matrix \<times> sym_defer_pr_st" where
  "sym_defer_pr D now raw changed cooked s =
    (let elapsed16 = TIMER_DIFF_16 now (pr_last_time s);
         elapsed = (if 255 < elapsed16 then 255 else ucast elapsed16);
         (cooked_changed, cooked, cs, ls) = sym_defer_pr_rows D elapsed raw cooked (countdowns s) (last_raw s) False in
     (cooked_changed, cooked, \<lparr>pr_last_time = now, countdowns = cs, last_raw = ls\<rparr>))"

subsection \<open>Counters per row or per key\<close>

text \<open>
  The state of the four algorithms with counters, \<open>'c\<close> being a counter.  The counters are one array,
  walked by a pointer; the key in row \<open>r\<close> and column \<open>c\<close> has index \<open>r * COLS + c\<close>.
\<close>

record 'c counter_st =
  debounce_counters :: "'c list"
  last_time :: u32
  counters_need_update :: bool
  matrix_need_update :: bool
  cooked_changed :: bool
  cooked :: matrix

definition counters_init :: "'c \<Rightarrow> nat \<Rightarrow> 'c counter_st \<Rightarrow> 'c counter_st" where
  "counters_init z n s = s\<lparr>debounce_counters := replicate n z\<rparr>"

text \<open>
  The frame that the four files share: first the counters are brought up to date, then a changed
  matrix, or one with an expired counter, is transferred.
\<close>

definition run_counters ::
  "(u8 \<Rightarrow> 'c counter_st \<Rightarrow> 'c counter_st) \<Rightarrow> ('c counter_st \<Rightarrow> 'c counter_st) \<Rightarrow> u32 \<Rightarrow> bool \<Rightarrow> 'c counter_st \<Rightarrow> 'c counter_st" where
  "run_counters update transfer now changed s =
    (let s = s\<lparr>cooked_changed := False\<rparr>;
         updated_last = counters_need_update s;
         s = (if counters_need_update s then
                let elapsed = TIMER_DIFF_32 now (last_time s); s = s\<lparr>last_time := now\<rparr> in
                if 0 < elapsed then update (elapsed8 elapsed) s else s
              else s) in
     if changed \<or> matrix_need_update s then
       transfer (if \<not> updated_last then s\<lparr>last_time := now\<rparr> else s)
     else s)"

text \<open>The two nested loops, and the loop over the rows only.\<close>

definition for_keys :: "nat \<Rightarrow> (nat \<Rightarrow> nat \<Rightarrow> 's \<Rightarrow> 's) \<Rightarrow> 's \<Rightarrow> 's" where
  "for_keys num_rows body s = fold (\<lambda>row s. fold (\<lambda>col s. body row col s) [0..<COLS] s) [0..<num_rows] s"

subsubsection \<open>Symmetric, deferred, per key\<close>

definition sym_defer_pk_expire :: "matrix \<Rightarrow> u8 \<Rightarrow> nat \<Rightarrow> nat \<Rightarrow> u8 counter_st \<Rightarrow> u8 counter_st" where
  "sym_defer_pk_expire raw elapsed row col s =
    (let i = row * COLS + col; counter = debounce_counters s ! i in
     if counter \<noteq> 0 then
       if counter \<le> elapsed then
         let cooked_next = (cooked s ! row AND NOT (col_mask col)) OR (raw ! row AND col_mask col) in
         s\<lparr>debounce_counters := (debounce_counters s)[i := 0],
           cooked_changed := cooked_changed s \<or> cooked s ! row XOR cooked_next \<noteq> 0,
           cooked := (cooked s)[row := cooked_next]\<rparr>
       else s\<lparr>debounce_counters := (debounce_counters s)[i := counter - elapsed], counters_need_update := True\<rparr>
     else s)"

definition sym_defer_pk_update :: "nat \<Rightarrow> matrix \<Rightarrow> u8 \<Rightarrow> u8 counter_st \<Rightarrow> u8 counter_st" where
  "sym_defer_pk_update num_rows raw elapsed s =
    for_keys num_rows (sym_defer_pk_expire raw elapsed) (s\<lparr>counters_need_update := False\<rparr>)"

definition sym_defer_pk_start :: "nat \<Rightarrow> matrix_row_t \<Rightarrow> nat \<Rightarrow> nat \<Rightarrow> u8 counter_st \<Rightarrow> u8 counter_st" where
  "sym_defer_pk_start D delta row col s =
    (let i = row * COLS + col in
     if delta AND col_mask col \<noteq> 0 then
       if debounce_counters s ! i = 0
       then s\<lparr>debounce_counters := (debounce_counters s)[i := of_nat D], counters_need_update := True\<rparr>
       else s
     else s\<lparr>debounce_counters := (debounce_counters s)[i := 0]\<rparr>)"

definition sym_defer_pk_transfer :: "nat \<Rightarrow> nat \<Rightarrow> matrix \<Rightarrow> u8 counter_st \<Rightarrow> u8 counter_st" where
  "sym_defer_pk_transfer D num_rows raw s =
    fold (\<lambda>row s. let delta = raw ! row XOR cooked s ! row in
        fold (\<lambda>col s. sym_defer_pk_start D delta row col s) [0..<COLS] s) [0..<num_rows] s"

definition sym_defer_pk :: "nat \<Rightarrow> u32 \<Rightarrow> matrix \<Rightarrow> bool \<Rightarrow> u8 counter_st \<Rightarrow> u8 counter_st" where
  "sym_defer_pk D now raw changed s =
    (if D = 0 then s\<lparr>cooked_changed := fst (debounce_none raw (cooked s)), cooked := snd (debounce_none raw (cooked s))\<rparr>
     else let n = length raw in
       run_counters (sym_defer_pk_update n raw) (sym_defer_pk_transfer (min D 255) n raw) now changed
         (s\<lparr>matrix_need_update := False\<rparr>))"

subsubsection \<open>Symmetric, eager, per key\<close>

definition sym_eager_pk_expire :: "u8 \<Rightarrow> nat \<Rightarrow> nat \<Rightarrow> u8 counter_st \<Rightarrow> u8 counter_st" where
  "sym_eager_pk_expire elapsed row col s =
    (let i = row * COLS + col; counter = debounce_counters s ! i in
     if counter \<noteq> 0 then
       if counter \<le> elapsed then s\<lparr>debounce_counters := (debounce_counters s)[i := 0], matrix_need_update := True\<rparr>
       else s\<lparr>debounce_counters := (debounce_counters s)[i := counter - elapsed], counters_need_update := True\<rparr>
     else s)"

definition sym_eager_pk_update :: "nat \<Rightarrow> u8 \<Rightarrow> u8 counter_st \<Rightarrow> u8 counter_st" where
  "sym_eager_pk_update num_rows elapsed s =
    for_keys num_rows (sym_eager_pk_expire elapsed) (s\<lparr>counters_need_update := False, matrix_need_update := False\<rparr>)"

definition sym_eager_pk_flip :: "nat \<Rightarrow> matrix_row_t \<Rightarrow> nat \<Rightarrow> nat \<Rightarrow> matrix_row_t \<times> u8 counter_st \<Rightarrow> matrix_row_t \<times> u8 counter_st" where
  "sym_eager_pk_flip D delta row col = (\<lambda>(existing_row, s).
    (let i = row * COLS + col in
     if delta AND col_mask col \<noteq> 0 \<and> debounce_counters s ! i = 0
     then (existing_row XOR col_mask col,
           s\<lparr>debounce_counters := (debounce_counters s)[i := of_nat D], counters_need_update := True, cooked_changed := True\<rparr>)
     else (existing_row, s)))"

definition sym_eager_pk_transfer :: "nat \<Rightarrow> nat \<Rightarrow> matrix \<Rightarrow> u8 counter_st \<Rightarrow> u8 counter_st" where
  "sym_eager_pk_transfer D num_rows raw s =
    fold (\<lambda>row s. let delta = raw ! row XOR cooked s ! row;
            (existing_row, s) = fold (\<lambda>col. sym_eager_pk_flip D delta row col) [0..<COLS] (cooked s ! row, s) in
        s\<lparr>cooked := (cooked s)[row := existing_row]\<rparr>) [0..<num_rows] s"

definition sym_eager_pk :: "nat \<Rightarrow> u32 \<Rightarrow> matrix \<Rightarrow> bool \<Rightarrow> u8 counter_st \<Rightarrow> u8 counter_st" where
  "sym_eager_pk D now raw changed s =
    (if D = 0 then s\<lparr>cooked_changed := fst (debounce_none raw (cooked s)), cooked := snd (debounce_none raw (cooked s))\<rparr>
     else let n = length raw in
       run_counters (sym_eager_pk_update n) (sym_eager_pk_transfer (min D 255) n raw) now changed s)"

subsubsection \<open>Symmetric, eager, per row\<close>

definition sym_eager_pr_expire :: "u8 \<Rightarrow> nat \<Rightarrow> u8 counter_st \<Rightarrow> u8 counter_st" where
  "sym_eager_pr_expire elapsed row s =
    (let counter = debounce_counters s ! row in
     if counter \<noteq> 0 then
       if counter \<le> elapsed then s\<lparr>debounce_counters := (debounce_counters s)[row := 0], matrix_need_update := True\<rparr>
       else s\<lparr>debounce_counters := (debounce_counters s)[row := counter - elapsed], counters_need_update := True\<rparr>
     else s)"

definition sym_eager_pr_update :: "nat \<Rightarrow> u8 \<Rightarrow> u8 counter_st \<Rightarrow> u8 counter_st" where
  "sym_eager_pr_update num_rows elapsed s =
    fold (sym_eager_pr_expire elapsed) [0..<num_rows] (s\<lparr>counters_need_update := False, matrix_need_update := False\<rparr>)"

text \<open>The change is computed after the assignment, as in the code.\<close>

definition sym_eager_pr_copy :: "nat \<Rightarrow> matrix \<Rightarrow> nat \<Rightarrow> u8 counter_st \<Rightarrow> u8 counter_st" where
  "sym_eager_pr_copy D raw row s =
    (if cooked s ! row \<noteq> raw ! row \<and> debounce_counters s ! row = 0 then
       let s = s\<lparr>debounce_counters := (debounce_counters s)[row := of_nat D], cooked := (cooked s)[row := raw ! row]\<rparr> in
       s\<lparr>cooked_changed := cooked_changed s \<or> cooked s ! row XOR raw ! row \<noteq> 0, counters_need_update := True\<rparr>
     else s)"

definition sym_eager_pr_transfer :: "nat \<Rightarrow> nat \<Rightarrow> matrix \<Rightarrow> u8 counter_st \<Rightarrow> u8 counter_st" where
  "sym_eager_pr_transfer D num_rows raw s = fold (sym_eager_pr_copy D raw) [0..<num_rows] s"

definition sym_eager_pr :: "nat \<Rightarrow> u32 \<Rightarrow> matrix \<Rightarrow> bool \<Rightarrow> u8 counter_st \<Rightarrow> u8 counter_st" where
  "sym_eager_pr D now raw changed s =
    (if D = 0 then s\<lparr>cooked_changed := fst (debounce_none raw (cooked s)), cooked := snd (debounce_none raw (cooked s))\<rparr>
     else let n = length raw in
       run_counters (sym_eager_pr_update n) (sym_eager_pr_transfer (min D 255) n raw) now changed s)"

subsubsection \<open>Eager press, deferred release, per key\<close>

record debounce_counter_t =
  pressed :: bool
  dtime :: "7 word"

definition asym_expire :: "matrix \<Rightarrow> u8 \<Rightarrow> nat \<Rightarrow> nat \<Rightarrow> debounce_counter_t counter_st \<Rightarrow> debounce_counter_t counter_st" where
  "asym_expire raw elapsed row col s =
    (let i = row * COLS + col; counter = debounce_counters s ! i in
     if dtime counter \<noteq> 0 then
       if unat (dtime counter) \<le> unat elapsed then
         let s = s\<lparr>debounce_counters := (debounce_counters s)[i := counter\<lparr>dtime := 0\<rparr>]\<rparr> in
         if pressed counter then s\<lparr>matrix_need_update := True\<rparr>
         else let cooked_next = (cooked s ! row AND NOT (col_mask col)) OR (raw ! row AND col_mask col) in
           s\<lparr>cooked_changed := cooked_changed s \<or> cooked_next XOR cooked s ! row \<noteq> 0, cooked := (cooked s)[row := cooked_next]\<rparr>
       else s\<lparr>debounce_counters := (debounce_counters s)[i := counter\<lparr>dtime := dtime counter - ucast elapsed\<rparr>],
              counters_need_update := True\<rparr>
     else s)"

definition asym_update :: "nat \<Rightarrow> matrix \<Rightarrow> u8 \<Rightarrow> debounce_counter_t counter_st \<Rightarrow> debounce_counter_t counter_st" where
  "asym_update num_rows raw elapsed s =
    for_keys num_rows (asym_expire raw elapsed) (s\<lparr>counters_need_update := False, matrix_need_update := False\<rparr>)"

definition asym_key :: "nat \<Rightarrow> matrix \<Rightarrow> matrix_row_t \<Rightarrow> nat \<Rightarrow> nat \<Rightarrow> debounce_counter_t counter_st \<Rightarrow> debounce_counter_t counter_st" where
  "asym_key D raw delta row col s =
    (let i = row * COLS + col; counter = debounce_counters s ! i in
     if delta AND col_mask col \<noteq> 0 then
       if dtime counter = 0 then
         let counter = \<lparr>pressed = raw ! row AND col_mask col \<noteq> 0, dtime = of_nat D\<rparr>;
             s = s\<lparr>debounce_counters := (debounce_counters s)[i := counter], counters_need_update := True\<rparr> in
         if pressed counter then s\<lparr>cooked := (cooked s)[row := cooked s ! row XOR col_mask col], cooked_changed := True\<rparr> else s
       else s
     else if dtime counter \<noteq> 0 \<and> \<not> pressed counter then s\<lparr>debounce_counters := (debounce_counters s)[i := counter\<lparr>dtime := 0\<rparr>]\<rparr>
     else s)"

definition asym_transfer :: "nat \<Rightarrow> nat \<Rightarrow> matrix \<Rightarrow> debounce_counter_t counter_st \<Rightarrow> debounce_counter_t counter_st" where
  "asym_transfer D num_rows raw s =
    fold (\<lambda>row s. let delta = raw ! row XOR cooked s ! row in
        fold (\<lambda>col s. asym_key D raw delta row col s) [0..<COLS] s) [0..<num_rows] s"

definition asym_eager_defer_pk :: "nat \<Rightarrow> u32 \<Rightarrow> matrix \<Rightarrow> bool \<Rightarrow> debounce_counter_t counter_st \<Rightarrow> debounce_counter_t counter_st" where
  "asym_eager_defer_pk D now raw changed s =
    (if D = 0 then s\<lparr>cooked_changed := fst (debounce_none raw (cooked s)), cooked := snd (debounce_none raw (cooked s))\<rparr>
     else let n = length raw in
       run_counters (asym_update n raw) (asym_transfer (min D 127) n raw) now changed s)"

end
