(* ===== verification/Qmk_Key_Loops.thy ===== *)
theory Qmk_Key_Loops
  imports Qmk_Debounce
begin

text \<open>
  The loops over the keys of the matrix, one key at a time: a loop whose body reads and writes only
  the entry of its own key applies one function to every key.  The per-key debounce algorithms are
  described through these loops by what they do to the pair of counter and cooked bit of a key.
\<close>

subsection \<open>Loops over rows and columns\<close>

lemma less_COLS [simp]: "COLS = 16"
  by (simp add: COLS_def)

lemma key_index_inject:
  assumes "c < 16" "c' < (16 :: nat)"
  shows "r * 16 + c = r' * 16 + c' \<longleftrightarrow> r = r' \<and> c = c'"
proof
  assume eq: "r * 16 + c = r' * 16 + c'"
  have "(r * 16 + c) div 16 = r" "(r' * 16 + c') div 16 = r'" using assms by simp_all
  then show "r = r' \<and> c = c'" using eq by simp
qed simp

lemma key_index_less: "r < n \<Longrightarrow> c < 16 \<Longrightarrow> r * 16 + c < n * (16 :: nat)"
  by linarith

lemma upt_subset: "set [0..<n] \<subseteq> {..<n}"
  by auto

locale key_loop =
  fixes n :: nat
    and wf :: "'s \<Rightarrow> bool"
    and key :: "'s \<Rightarrow> nat \<Rightarrow> nat \<Rightarrow> 'k"
    and body :: "nat \<Rightarrow> nat \<Rightarrow> 's \<Rightarrow> 's"
    and step :: "nat \<Rightarrow> nat \<Rightarrow> 'k \<Rightarrow> 'k"
  assumes wf_body: "wf s \<Longrightarrow> r < n \<Longrightarrow> c < COLS \<Longrightarrow> wf (body r c s)"
    and key_body: "wf s \<Longrightarrow> r < n \<Longrightarrow> c < COLS \<Longrightarrow> r' < n \<Longrightarrow> c' < COLS \<Longrightarrow>
      key (body r c s) r' c' = (if r' = r \<and> c' = c then step r c (key s r c) else key s r' c')"
begin

lemma cols_loop:
  assumes "wf s" "r < n" "distinct cs" "set cs \<subseteq> {..<COLS}" "r' < n" "c' < COLS"
  shows "wf (fold (\<lambda>c s. body r c s) cs s) \<and> key (fold (\<lambda>c s. body r c s) cs s) r' c' =
    (if r' = r \<and> c' \<in> set cs then step r c' (key s r' c') else key s r' c')"
  using assms
proof (induction cs arbitrary: s)
  case (Cons c cs)
  then have "wf (body r c s)" by (auto intro: wf_body)
  then show ?case using Cons by (auto simp: key_body)
qed simp

lemma rows_loop:
  assumes "wf s" "distinct rs" "set rs \<subseteq> {..<n}" "r' < n" "c' < COLS"
  shows "wf (fold (\<lambda>r s. fold (\<lambda>c s. body r c s) [0..<COLS] s) rs s) \<and>
    key (fold (\<lambda>r s. fold (\<lambda>c s. body r c s) [0..<COLS] s) rs s) r' c' =
    (if r' \<in> set rs then step r' c' (key s r' c') else key s r' c')"
  using assms
proof (induction rs arbitrary: s)
  case (Cons r rs)
  have r: "r < n" "r \<notin> set rs" using Cons.prems by auto
  have inner: "wf (fold (\<lambda>c s. body r c s) [0..<COLS] s)"
    using cols_loop [OF Cons.prems(1) r(1) _ upt_subset, of r 0] r(1) by simp
  have keys: "\<And>r' c'. r' < n \<Longrightarrow> c' < COLS \<Longrightarrow> key (fold (\<lambda>c s. body r c s) [0..<COLS] s) r' c' =
      (if r' = r then step r c' (key s r' c') else key s r' c')"
    using cols_loop [OF Cons.prems(1) r(1) _ upt_subset] r(1) by auto
  show ?case using Cons.IH [OF inner] Cons.prems keys r by auto
qed simp

lemma wf_for_keys: "wf s \<Longrightarrow> wf (for_keys n body s)"
  unfolding for_keys_def
proof (cases "n = 0")
  case False
  assume "wf s"
  then show "wf (fold (\<lambda>row s. fold (\<lambda>col s. body row col s) [0..<COLS] s) [0..<n] s)"
    using rows_loop [OF _ _ upt_subset, of s 0 0] False by simp
qed simp

lemma key_for_keys: "wf s \<Longrightarrow> r < n \<Longrightarrow> c < COLS \<Longrightarrow> key (for_keys n body s) r c = step r c (key s r c)"
  unfolding for_keys_def using rows_loop [OF _ _ upt_subset, of s r c] by simp

end

text \<open>A flag that the body of the loop may raise, and never lowers.\<close>

locale flag_loop = key_loop +
  fixes flag :: "'s \<Rightarrow> bool"
    and raises :: "nat \<Rightarrow> nat \<Rightarrow> 'k \<Rightarrow> bool"
  assumes flag_body: "wf s \<Longrightarrow> r < n \<Longrightarrow> c < COLS \<Longrightarrow> flag (body r c s) \<longleftrightarrow> flag s \<or> raises r c (key s r c)"
begin

lemma cols_flag:
  assumes "wf s" "r < n" "distinct cs" "set cs \<subseteq> {..<COLS}"
  shows "flag (fold (\<lambda>c s. body r c s) cs s) \<longleftrightarrow> flag s \<or> (\<exists>c\<in>set cs. raises r c (key s r c))"
  using assms
proof (induction cs arbitrary: s)
  case (Cons c cs)
  have c: "c < COLS" "wf (body r c s)" using Cons.prems by (auto intro: wf_body)
  have "\<forall>c'\<in>set cs. key (body r c s) r c' = key s r c'"
    using Cons.prems by (auto simp: key_body)
  then show ?case using Cons c by (auto simp: flag_body)
qed simp

lemma rows_flag:
  assumes "wf s" "distinct rs" "set rs \<subseteq> {..<n}"
  shows "flag (fold (\<lambda>r s. fold (\<lambda>c s. body r c s) [0..<COLS] s) rs s) \<longleftrightarrow>
    flag s \<or> (\<exists>r\<in>set rs. \<exists>c<COLS. raises r c (key s r c))"
  using assms
proof (induction rs arbitrary: s)
  case (Cons r rs)
  let ?s = "fold (\<lambda>c s. body r c s) [0..<COLS] s"
  have r: "r < n" "r \<notin> set rs" using Cons.prems by auto
  have w: "wf ?s" using cols_loop [OF Cons.prems(1) r(1) _ upt_subset, of r 0] r by simp
  have "\<forall>r'\<in>set rs. \<forall>c<COLS. key ?s r' c = key s r' c"
    using cols_loop [OF Cons.prems(1) r(1) _ upt_subset] Cons.prems r by auto
  moreover have "flag ?s \<longleftrightarrow> flag s \<or> (\<exists>c<COLS. raises r c (key s r c))"
    using cols_flag [OF Cons.prems(1) r(1) _ upt_subset] by auto
  ultimately show ?case using Cons w by auto
qed simp

lemma flag_for_keys: "wf s \<Longrightarrow> flag (for_keys n body s) \<longleftrightarrow> flag s \<or> (\<exists>r<n. \<exists>c<COLS. raises r c (key s r c))"
  unfolding for_keys_def using rows_flag [OF _ _ upt_subset, of s] by auto

end

subsection \<open>A row difference computed before the columns are walked\<close>

lemma captured_delta:
  assumes "\<And>c s. P s \<Longrightarrow> c < 16 \<Longrightarrow> P (B (delta s) c s)"
    and "\<And>d d' c s. c < 16 \<Longrightarrow> bit (d :: u16) c = bit d' c \<Longrightarrow> B d c s = B d' c s"
    and "\<And>c c' s. P s \<Longrightarrow> c < 16 \<Longrightarrow> c' < 16 \<Longrightarrow> c \<noteq> c' \<Longrightarrow> bit (delta (B (delta s) c s)) c' = bit (delta s) c'"
    and "P s" "distinct cs" "set cs \<subseteq> {..<16}" "\<forall>c\<in>set cs. bit d c = bit (delta s) c"
  shows "fold (\<lambda>c s. B d c s) cs s = fold (\<lambda>c s. B (delta s) c s) cs s"
  using assms(4-7)
proof (induction cs arbitrary: s)
  case (Cons c cs)
  have c: "c < 16" "bit d c = bit (delta s) c" using Cons.prems by auto
  have eq: "B d c s = B (delta s) c s" by (rule assms(2) [OF c])
  have "\<forall>c'\<in>set cs. bit d c' = bit (delta (B (delta s) c s)) c'"
    using Cons.prems assms(3) [OF Cons.prems(1) c(1)] by (auto simp: subset_iff)
  then show ?case using Cons assms(1) [OF Cons.prems(1) c(1)] by (simp add: eq)
qed simp

subsection \<open>The state of a key\<close>

text \<open>Counter and cooked bit of the key in row \<open>r\<close>, column \<open>c\<close>.\<close>

definition key_state :: "'c counter_st \<Rightarrow> nat \<Rightarrow> nat \<Rightarrow> 'c \<times> bool" where
  "key_state s r c = (debounce_counters s ! (r * COLS + c), bit (cooked s ! r) c)"

definition wf_counters :: "nat \<Rightarrow> 'c counter_st \<Rightarrow> bool" where
  "wf_counters n s \<longleftrightarrow> length (debounce_counters s) = n * COLS \<and> length (cooked s) = n"

lemmas counter_loop_defs = key_state_def wf_counters_def key_index_inject key_index_less nth_list_update

lemma nth_update_any: "xs[i := x] ! j = (if i = j \<and> i < length xs then x else xs ! j)"
  by (cases "i < length xs") (auto simp: nth_list_update list_update_beyond)

lemma bit_col_mask [bitlevel_simps]: "bit (col_mask c) m \<longleftrightarrow> m = c \<and> c < 16"
  using bit_bitmask [of c m, where ?'a = 16] by (simp add: col_mask_def bitmask_def)

lemma and_col_mask [bitlevel_simps]: "w AND col_mask c \<noteq> 0 \<longleftrightarrow> bit w c"
  using and_bitmask_nonzero [of w c] by (simp add: col_mask_def bitmask_def)

lemma bit_replace [bitlevel_simps]:
  "c < 16 \<Longrightarrow> bit ((a AND NOT (col_mask c)) OR (b AND col_mask c)) m = (if m = c then bit b c else bit (a :: u16) m)"
  by (auto simp: bit_simps bit_col_mask dest: bit_imp_le_length)

lemma replace_changes:
  "c < 16 \<Longrightarrow> (a XOR ((a AND NOT (col_mask c)) OR (b AND col_mask c)) \<noteq> 0) \<longleftrightarrow> bit a c \<noteq> bit (b :: u16) c"
proof -
  assume c: "c < 16"
  have "a XOR ((a AND NOT (col_mask c)) OR (b AND col_mask c)) = (if bit a c = bit b c then 0 else col_mask c)"
    using c by (intro bit_word_eqI) (auto simp: bit_simps bit_col_mask)
  moreover have "col_mask c \<noteq> 0" using bit_col_mask [of c c] c by (metis bit_0_eq bot_apply bot_bool_def)
  ultimately show ?thesis by simp
qed

lemma bit_flip [bitlevel_simps]: "c < 16 \<Longrightarrow> bit (a XOR col_mask c) m = (if m = c then \<not> bit a c else bit (a :: u16) m)"
  by (auto simp: bit_simps bit_col_mask)

lemma cooked_eq_iff:
  assumes "length a = n" "length b = n"
  shows "a = b \<longleftrightarrow> (\<forall>r<n. \<forall>c<16. bit (a ! r) c = bit (b ! r :: u16) c)"
  using assms by (auto simp: list_eq_iff_nth_eq intro!: bit_word_eqI)

end
