(* ===== verification/Qmk_Debounce_Keys.thy ===== *)
theory Qmk_Debounce_Keys
  imports Qmk_Key_Loops
begin

text \<open>
  What the per-key and per-row debounce algorithms do to one key, and the two contracts they satisfy.
  Each loop of an algorithm is an interpretation of the loop locales.
\<close>

subsection \<open>Symmetric, deferred, per key\<close>

fun defer_expire :: "u8 \<Rightarrow> bool \<Rightarrow> u8 \<times> bool \<Rightarrow> u8 \<times> bool" where
  "defer_expire e v (cnt, b) = (if cnt = 0 then (cnt, b) else if cnt \<le> e then (0, v) else (cnt - e, b))"

fun defer_start :: "nat \<Rightarrow> bool \<Rightarrow> u8 \<times> bool \<Rightarrow> u8 \<times> bool" where
  "defer_start D v (cnt, b) = (if v = b then (0, b) else if cnt = 0 then (of_nat D, b) else (cnt, b))"

interpretation defer_expire_changed: flag_loop n "wf_counters n" key_state "sym_defer_pk_expire raw e"
  "\<lambda>r c. defer_expire e (bit (raw ! r) c)" cooked_changed "\<lambda>r c (cnt, b). cnt \<noteq> 0 \<and> cnt \<le> e \<and> bit (raw ! r) c \<noteq> b"
  for n raw e
  by unfold_locales
    (auto simp: sym_defer_pk_expire_def counter_loop_defs Let_def bitlevel_simps replace_changes split: if_splits)

interpretation defer_expire_need: flag_loop n "wf_counters n" key_state "sym_defer_pk_expire raw e"
  "\<lambda>r c. defer_expire e (bit (raw ! r) c)" counters_need_update "\<lambda>r c (cnt, b). e < cnt"
  for n raw e
  by unfold_locales (auto simp: sym_defer_pk_expire_def counter_loop_defs Let_def split: if_splits)

definition live_start :: "nat \<Rightarrow> matrix \<Rightarrow> nat \<Rightarrow> nat \<Rightarrow> u8 counter_st \<Rightarrow> u8 counter_st" where
  "live_start D raw row col s = sym_defer_pk_start D (raw ! row XOR cooked s ! row) row col s"

interpretation defer_start: flag_loop n "wf_counters n" key_state "live_start D raw"
  "\<lambda>r c. defer_start D (bit (raw ! r) c)" counters_need_update "\<lambda>r c (cnt, b). bit (raw ! r) c \<noteq> b \<and> cnt = 0"
  for n D raw
  by unfold_locales
    (auto simp: live_start_def sym_defer_pk_start_def counter_loop_defs Let_def bitlevel_simps bit_xor_iff split: if_splits)

interpretation defer_start_changed: flag_loop n "wf_counters n" key_state "live_start D raw"
  "\<lambda>r c. defer_start D (bit (raw ! r) c)" cooked_changed "\<lambda>r c k. False" for n D raw
  by unfold_locales (simp add: live_start_def sym_defer_pk_start_def Let_def)

lemma sym_defer_pk_transfer_eq: "sym_defer_pk_transfer D n raw s = for_keys n (live_start D raw) s"
proof -
  have "fold (\<lambda>col s. sym_defer_pk_start D (raw ! row XOR cooked s0 ! row) row col s) [0..<COLS] s0 =
      fold (\<lambda>col s. live_start D raw row col s) [0..<COLS] s0" for row s0
    unfolding live_start_def
    by (rule captured_delta [where P = "\<lambda>_. True"])
      (auto simp: sym_defer_pk_start_def Let_def bitlevel_simps bit_xor_iff)
  then show ?thesis by (simp add: sym_defer_pk_transfer_def for_keys_def Let_def)
qed


subsection \<open>Symmetric, eager, per key\<close>

fun eager_expire :: "u8 \<Rightarrow> u8 \<times> bool \<Rightarrow> u8 \<times> bool" where
  "eager_expire e (cnt, b) = (if cnt \<le> e then 0 else cnt - e, b)"

fun eager_flip :: "nat \<Rightarrow> bool \<Rightarrow> u8 \<times> bool \<Rightarrow> u8 \<times> bool" where
  "eager_flip D v (cnt, b) = (if v \<noteq> b \<and> cnt = 0 then (of_nat D, v) else (cnt, b))"

interpretation eager_expire: flag_loop n "wf_counters n" key_state "sym_eager_pk_expire e"
  "\<lambda>r c. eager_expire e" cooked_changed "\<lambda>r c k. False"
  for n e
  by unfold_locales (auto simp: sym_eager_pk_expire_def counter_loop_defs Let_def split: if_splits)

definition live_flip :: "nat \<Rightarrow> matrix_row_t \<Rightarrow> nat \<Rightarrow> nat \<Rightarrow> u8 counter_st \<Rightarrow> u8 counter_st" where
  "live_flip D delta row col s =
    (let i = row * COLS + col in
     if delta AND col_mask col \<noteq> 0 \<and> debounce_counters s ! i = 0
     then s\<lparr>debounce_counters := (debounce_counters s)[i := of_nat D], counters_need_update := True, cooked_changed := True,
       cooked := (cooked s)[row := cooked s ! row XOR col_mask col]\<rparr>
     else s)"

interpretation eager_flip: flag_loop n "wf_counters n" key_state "\<lambda>r c s. live_flip D (raw ! r XOR cooked s ! r) r c s"
  "\<lambda>r c. eager_flip D (bit (raw ! r) c)" cooked_changed "\<lambda>r c (cnt, b). bit (raw ! r) c \<noteq> b \<and> cnt = 0"
  for n D raw
  by unfold_locales
    (auto simp: live_flip_def counter_loop_defs Let_def bitlevel_simps bit_xor_iff split: if_splits)

text \<open>The local copy of the row that is written back after its columns.\<close>

lemma existing_row_loop:
  "fold (\<lambda>col. sym_eager_pk_flip D delta row col) cs (e, s) = (e', s') \<Longrightarrow>
    s'\<lparr>cooked := (cooked s')[row := e']\<rparr> = fold (\<lambda>col s. live_flip D delta row col s) cs (s\<lparr>cooked := (cooked s)[row := e]\<rparr>)"
proof (induction cs arbitrary: e s)
  case (Cons c cs)
  obtain e1 s1 where f: "sym_eager_pk_flip D delta row c (e, s) = (e1, s1)" by fastforce
  have "live_flip D delta row c (s\<lparr>cooked := (cooked s)[row := e]\<rparr>) = s1\<lparr>cooked := (cooked s1)[row := e1]\<rparr>"
    using f by (cases "row < length (cooked s)") (auto simp: sym_eager_pk_flip_def live_flip_def Let_def list_update_beyond split: if_splits)
  then show ?case using Cons f by simp
qed simp

lemma sym_eager_pk_transfer_eq:
  "sym_eager_pk_transfer D n raw s = for_keys n (\<lambda>r c s. live_flip D (raw ! r XOR cooked s ! r) r c s) s"
proof -
  have "(let delta = raw ! row XOR cooked s0 ! row;
         (existing_row, s) = fold (\<lambda>col. sym_eager_pk_flip D delta row col) [0..<COLS] (cooked s0 ! row, s0) in
       s\<lparr>cooked := (cooked s)[row := existing_row]\<rparr>) =
      fold (\<lambda>col s. live_flip D (raw ! row XOR cooked s ! row) row col s) [0..<COLS] s0" for row s0
  proof -
    let ?d = "raw ! row XOR cooked s0 ! row"
    obtain e s' where f: "fold (\<lambda>col. sym_eager_pk_flip D ?d row col) [0..<COLS] (cooked s0 ! row, s0) = (e, s')" by fastforce
    have "s'\<lparr>cooked := (cooked s')[row := e]\<rparr> = fold (\<lambda>col s. live_flip D ?d row col s) [0..<COLS] s0"
      using existing_row_loop [OF f] by simp
    also have "\<dots> = fold (\<lambda>col s. live_flip D (raw ! row XOR cooked s ! row) row col s) [0..<COLS] s0"
      by (rule captured_delta [where P = "\<lambda>_. True"])
        (auto simp: live_flip_def Let_def bitlevel_simps bit_xor_iff nth_update_any split: if_splits)
    finally show ?thesis using f by (simp add: Let_def)
  qed
  then show ?thesis by (simp add: sym_eager_pk_transfer_def for_keys_def)
qed

subsection \<open>Eager press, deferred release, per key\<close>

fun asym_expire_key :: "u8 \<Rightarrow> bool \<Rightarrow> debounce_counter_t \<times> bool \<Rightarrow> debounce_counter_t \<times> bool" where
  "asym_expire_key e v (k, b) =
    (if dtime k = 0 then (k, b)
     else if unat (dtime k) \<le> unat e then (k\<lparr>dtime := 0\<rparr>, if pressed k then b else v)
     else (k\<lparr>dtime := dtime k - ucast e\<rparr>, b))"

fun asym_transfer_key :: "nat \<Rightarrow> bool \<Rightarrow> debounce_counter_t \<times> bool \<Rightarrow> debounce_counter_t \<times> bool" where
  "asym_transfer_key D v (k, b) =
    (if v \<noteq> b then if dtime k = 0 then (\<lparr>pressed = v, dtime = of_nat D\<rparr>, v \<or> b) else (k, b)
     else if dtime k \<noteq> 0 \<and> \<not> pressed k then (k\<lparr>dtime := 0\<rparr>, b) else (k, b))"

interpretation asym_expire: flag_loop n "wf_counters n" key_state "asym_expire raw e"
  "\<lambda>r c. asym_expire_key e (bit (raw ! r) c)" cooked_changed
  "\<lambda>r c (k, b). dtime k \<noteq> 0 \<and> unat (dtime k) \<le> unat e \<and> \<not> pressed k \<and> bit (raw ! r) c \<noteq> b"
  for n raw e
  by unfold_locales
    (auto simp: asym_expire_def counter_loop_defs Let_def bitlevel_simps replace_changes xor.commute split: if_splits)

interpretation asym_transfer: flag_loop n "wf_counters n" key_state "\<lambda>r c s. asym_key D raw (raw ! r XOR cooked s ! r) r c s"
  "\<lambda>r c. asym_transfer_key D (bit (raw ! r) c)" cooked_changed "\<lambda>r c (k, b). bit (raw ! r) c \<and> \<not> b \<and> dtime k = 0"
  for n D raw
  by unfold_locales
    (auto simp: asym_key_def counter_loop_defs Let_def bitlevel_simps bit_xor_iff split: if_splits)

lemma asym_transfer_eq:
  "asym_transfer D n raw s = for_keys n (\<lambda>r c s. asym_key D raw (raw ! r XOR cooked s ! r) r c s) s"
proof -
  have "fold (\<lambda>col s. asym_key D raw (raw ! row XOR cooked s0 ! row) row col s) [0..<COLS] s0 =
      fold (\<lambda>col s. asym_key D raw (raw ! row XOR cooked s ! row) row col s) [0..<COLS] s0" for row s0
    by (rule captured_delta [where P = "\<lambda>_. True"])
      (auto simp: asym_key_def Let_def bitlevel_simps bit_xor_iff nth_update_any split: if_splits)
  then show ?thesis by (simp add: asym_transfer_def for_keys_def Let_def)
qed


subsection \<open>One call of an algorithm with counters per key\<close>

locale counter_algorithm =
  fixes n :: nat
    and raw :: matrix
    and update :: "u8 \<Rightarrow> 'c counter_st \<Rightarrow> 'c counter_st"
    and transfer :: "'c counter_st \<Rightarrow> 'c counter_st"
    and ustep :: "u8 \<Rightarrow> nat \<Rightarrow> nat \<Rightarrow> 'c \<times> bool \<Rightarrow> 'c \<times> bool"
    and tstep :: "nat \<Rightarrow> nat \<Rightarrow> 'c \<times> bool \<Rightarrow> 'c \<times> bool"
  assumes u_wf: "wf_counters n s \<Longrightarrow> wf_counters n (update e s)"
    and u_key: "wf_counters n s \<Longrightarrow> r < n \<Longrightarrow> c < COLS \<Longrightarrow> key_state (update e s) r c = ustep e r c (key_state s r c)"
    and u_changed: "wf_counters n s \<Longrightarrow> cooked_changed (update e s) \<longleftrightarrow>
      cooked_changed s \<or> (\<exists>r<n. \<exists>c<COLS. snd (ustep e r c (key_state s r c)) \<noteq> snd (key_state s r c))"
    and u_raw: "snd (ustep e r c k) = snd k \<or> snd (ustep e r c k) = bit (raw ! r) c"
    and t_wf: "wf_counters n s \<Longrightarrow> wf_counters n (transfer s)"
    and t_key: "wf_counters n s \<Longrightarrow> r < n \<Longrightarrow> c < COLS \<Longrightarrow> key_state (transfer s) r c = tstep r c (key_state s r c)"
    and t_changed: "wf_counters n s \<Longrightarrow> cooked_changed (transfer s) \<longleftrightarrow>
      cooked_changed s \<or> (\<exists>r<n. \<exists>c<COLS. snd (tstep r c (key_state s r c)) \<noteq> snd (key_state s r c))"
    and t_raw: "snd (tstep r c k) = snd k \<or> snd (tstep r c k) = bit (raw ! r) c"
begin

text \<open>The state after the counters were brought up to date.\<close>

definition updated :: "u32 \<Rightarrow> 'c counter_st \<Rightarrow> 'c counter_st" where
  "updated now s = (let s = s\<lparr>cooked_changed := False\<rparr> in
     if counters_need_update s then
       let elapsed = TIMER_DIFF_32 now (last_time s); s = s\<lparr>last_time := now\<rparr> in
       if 0 < elapsed then update (elapsed8 elapsed) s else s
     else s)"

lemma run_eq: "run_counters update transfer now changed s =
  (if changed \<or> matrix_need_update (updated now s)
   then transfer (if \<not> counters_need_update s then (updated now s)\<lparr>last_time := now\<rparr> else updated now s)
   else updated now s)"
  by (simp add: run_counters_def updated_def Let_def)

lemma frame_last_time:
  "wf_counters n (s\<lparr>last_time := t\<rparr>) = wf_counters n s" "key_state (s\<lparr>last_time := t\<rparr>) = key_state s"
  "wf_counters n (s\<lparr>cooked_changed := f\<rparr>) = wf_counters n s" "key_state (s\<lparr>cooked_changed := f\<rparr>) = key_state s"
  by (simp_all add: wf_counters_def key_state_def fun_eq_iff)

lemma updated_facts:
  assumes "wf_counters n s"
  shows "wf_counters n (updated now s)"
    and "r < n \<Longrightarrow> c < COLS \<Longrightarrow> snd (key_state (updated now s) r c) = snd (key_state s r c) \<or>
      snd (key_state (updated now s) r c) = bit (raw ! r) c"
    and "cooked_changed (updated now s) \<longleftrightarrow> (\<exists>r<n. \<exists>c<COLS. snd (key_state (updated now s) r c) \<noteq> snd (key_state s r c))"
  using assms by (simp_all add: updated_def Let_def u_wf u_key u_changed u_raw frame_last_time cong: conj_cong)

lemma transferred_facts:
  assumes "wf_counters n s"
  shows "wf_counters n (transfer s)"
    and "r < n \<Longrightarrow> c < COLS \<Longrightarrow> snd (key_state (transfer s) r c) = snd (key_state s r c) \<or>
      snd (key_state (transfer s) r c) = bit (raw ! r) c"
    and "cooked_changed (transfer s) \<longleftrightarrow>
      cooked_changed s \<or> (\<exists>r<n. \<exists>c<COLS. snd (key_state (transfer s) r c) \<noteq> snd (key_state s r c))"
  using assms by (simp_all add: t_wf t_key t_changed t_raw cong: conj_cong)

lemma run_facts:
  assumes "wf_counters n s" and s'_def: "s' = run_counters update transfer now changed s"
  shows "wf_counters n s'"
    and "r < n \<Longrightarrow> c < COLS \<Longrightarrow> snd (key_state s' r c) = snd (key_state s r c) \<or> snd (key_state s' r c) = bit (raw ! r) c"
    and "cooked_changed s' \<longleftrightarrow> (\<exists>r<n. \<exists>c<COLS. snd (key_state s' r c) \<noteq> snd (key_state s r c))"
proof -
  note u = updated_facts [OF assms(1), where now = now]
  let ?u = "if \<not> counters_need_update s then (updated now s)\<lparr>last_time := now\<rparr> else updated now s"
  have k: "key_state ?u = key_state (updated now s)" "wf_counters n ?u" "cooked_changed ?u = cooked_changed (updated now s)"
    using u(1) by (simp_all add: frame_last_time)
  note t = transferred_facts [OF k(2), unfolded k(1,3)]
  show "wf_counters n s'" using u(1) t(1) by (simp add: s'_def run_eq)
  show "r < n \<Longrightarrow> c < COLS \<Longrightarrow> snd (key_state s' r c) = snd (key_state s r c) \<or> snd (key_state s' r c) = bit (raw ! r) c"
    using u(2) [of r c] t(2) [of r c] unfolding s'_def run_eq by (cases "changed \<or> matrix_need_update (updated now s)") auto
  show "cooked_changed s' \<longleftrightarrow> (\<exists>r<n. \<exists>c<COLS. snd (key_state s' r c) \<noteq> snd (key_state s r c))"
  proof (cases "changed \<or> matrix_need_update (updated now s)")
    case True
    then have s': "s' = transfer ?u" by (simp add: s'_def run_eq)
    have "snd (key_state (transfer ?u) r c) \<noteq> snd (key_state s r c) \<longleftrightarrow>
        snd (key_state (updated now s) r c) \<noteq> snd (key_state s r c) \<or> snd (key_state (transfer ?u) r c) \<noteq> snd (key_state (updated now s) r c)"
      if "r < n" "c < COLS" for r c
      using t(2) [OF that] u(2) [OF that] by metis
    then show ?thesis unfolding s' t(3) u(3) by blast
  qed (use u(3) in \<open>simp add: s'_def run_eq\<close>)
qed

end

lemma counter_flags_frame [simp]:
  "wf_counters n (s\<lparr>counters_need_update := f\<rparr>) = wf_counters n s" "key_state (s\<lparr>counters_need_update := f\<rparr>) = key_state s"
  "wf_counters n (s\<lparr>matrix_need_update := f\<rparr>) = wf_counters n s" "key_state (s\<lparr>matrix_need_update := f\<rparr>) = key_state s"
  by (simp_all add: wf_counters_def key_state_def fun_eq_iff)

text \<open>When a step changes the cooked bit.\<close>

lemma snd_steps [simp]: "snd (defer_start D v k) = snd k" "snd (eager_expire e k) = snd k"
  by (cases k; auto)+

lemma flips:
  "(case k of (cnt, b) \<Rightarrow> cnt \<noteq> 0 \<and> cnt \<le> e \<and> v \<noteq> b) \<longleftrightarrow> snd (defer_expire e v k) \<noteq> snd k"
  "(case k of (cnt, b) \<Rightarrow> v \<noteq> b \<and> cnt = 0) \<longleftrightarrow> snd (eager_flip D v k) \<noteq> snd k"
  "(case j of (k, b) \<Rightarrow> dtime k \<noteq> 0 \<and> unat (dtime k) \<le> unat e \<and> \<not> pressed k \<and> v \<noteq> b) \<longleftrightarrow> snd (asym_expire_key e v j) \<noteq> snd j"
  "(case j of (k, b) \<Rightarrow> v \<and> \<not> b \<and> dtime k = 0) \<longleftrightarrow> snd (asym_transfer_key D v j) \<noteq> snd j"
  by (cases k; cases j; auto)+

interpretation defer_pk: counter_algorithm n raw "sym_defer_pk_update n raw" "sym_defer_pk_transfer D n raw"
  "\<lambda>e r c. defer_expire e (bit (raw ! r) c)" "\<lambda>r c. defer_start D (bit (raw ! r) c)" for n raw D
proof unfold_locales
  fix s :: "u8 counter_st" and e
  assume wf: "wf_counters n s"
  show "cooked_changed (sym_defer_pk_update n raw e s) \<longleftrightarrow> cooked_changed s \<or>
      (\<exists>r<n. \<exists>c<COLS. snd (defer_expire e (bit (raw ! r) c) (key_state s r c)) \<noteq> snd (key_state s r c))"
    unfolding sym_defer_pk_update_def using defer_expire_changed.flag_for_keys [of n "s\<lparr>counters_need_update := False\<rparr>" raw e, unfolded flips] wf by simp
qed (auto simp: sym_defer_pk_update_def sym_defer_pk_transfer_eq defer_expire_changed.wf_for_keys defer_expire_changed.key_for_keys
    defer_start.wf_for_keys defer_start.key_for_keys defer_start_changed.flag_for_keys split: if_splits)

interpretation eager_pk: counter_algorithm n raw "sym_eager_pk_update n" "sym_eager_pk_transfer D n raw"
  "\<lambda>e r c. eager_expire e" "\<lambda>r c. eager_flip D (bit (raw ! r) c)" for n raw D
proof unfold_locales
  fix s :: "u8 counter_st"
  assume wf: "wf_counters n s"
  show "cooked_changed (sym_eager_pk_transfer D n raw s) \<longleftrightarrow> cooked_changed s \<or>
      (\<exists>r<n. \<exists>c<COLS. snd (eager_flip D (bit (raw ! r) c) (key_state s r c)) \<noteq> snd (key_state s r c))"
    unfolding sym_eager_pk_transfer_eq using eager_flip.flag_for_keys [OF wf, of D raw, unfolded flips(2) [where D = D]] by simp
qed (auto simp: sym_eager_pk_update_def sym_eager_pk_transfer_eq eager_expire.wf_for_keys eager_expire.key_for_keys
    eager_expire.flag_for_keys eager_flip.wf_for_keys eager_flip.key_for_keys split: if_splits)

interpretation asym_pk: counter_algorithm n raw "asym_update n raw" "asym_transfer D n raw"
  "\<lambda>e r c. asym_expire_key e (bit (raw ! r) c)" "\<lambda>r c. asym_transfer_key D (bit (raw ! r) c)" for n raw D
proof unfold_locales
  fix s :: "debounce_counter_t counter_st" and e
  assume wf: "wf_counters n s"
  show "cooked_changed (asym_update n raw e s) \<longleftrightarrow> cooked_changed s \<or>
      (\<exists>r<n. \<exists>c<COLS. snd (asym_expire_key e (bit (raw ! r) c) (key_state s r c)) \<noteq> snd (key_state s r c))"
    unfolding asym_update_def using asym_expire.flag_for_keys [of n "s\<lparr>counters_need_update := False, matrix_need_update := False\<rparr>" raw e, unfolded flips] wf by simp
  show "cooked_changed (asym_transfer D n raw s) \<longleftrightarrow> cooked_changed s \<or>
      (\<exists>r<n. \<exists>c<COLS. snd (asym_transfer_key D (bit (raw ! r) c) (key_state s r c)) \<noteq> snd (key_state s r c))"
    unfolding asym_transfer_eq using asym_transfer.flag_for_keys [OF wf, of D raw, unfolded flips(4) [where D = D]] by simp
qed (auto simp: asym_update_def asym_transfer_eq asym_expire.wf_for_keys asym_expire.key_for_keys
    asym_transfer.wf_for_keys asym_transfer.key_for_keys split: if_splits)

end
