(* ===== verification/Qmk_Debounce_Contract.thy ===== *)
theory Qmk_Debounce_Contract
  imports Qmk_Debounce_Keys
begin

text \<open>
  The contracts of the debounce algorithms: no algorithm invents a key, and all but one report
  exactly the calls that change the cooked matrix.  The main loop of the keyboard relies on the
  report to decide whether to look at the matrix at all.
\<close>

subsection \<open>The contracts\<close>

locale debouncer =
  fixes step :: "'t \<Rightarrow> matrix \<Rightarrow> bool \<Rightarrow> 's \<Rightarrow> bool \<times> 's"
    and cooked_of :: "'s \<Rightarrow> matrix"
    and ok :: "nat \<Rightarrow> 's \<Rightarrow> bool"
  assumes ok_step: "ok n s \<Longrightarrow> length raw = n \<Longrightarrow> ok n (snd (step t raw ch s))"
    and ok_length: "ok n s \<Longrightarrow> length (cooked_of s) = n"
    and old_or_raw: "ok n s \<Longrightarrow> length raw = n \<Longrightarrow> r < n \<Longrightarrow> c < 16 \<Longrightarrow>
      bit (cooked_of (snd (step t raw ch s)) ! r) c = bit (cooked_of s ! r) c \<or>
      bit (cooked_of (snd (step t raw ch s)) ! r) c = bit (raw ! r) c"
begin

fun run :: "('t \<times> matrix \<times> bool) list \<Rightarrow> 's \<Rightarrow> 's" where
  "run [] s = s"
| "run ((t, raw, ch) # calls) s = run calls (snd (step t raw ch s))"

text \<open>A key whose raw state had one value during all calls, and whose cooked state had it before, keeps it.\<close>

lemma no_invented_keys:
  assumes "ok n s" "\<forall>(t, raw, ch) \<in> set calls. length raw = n \<and> bit (raw ! r) c = v" "r < n" "c < 16" "bit (cooked_of s ! r) c = v"
  shows "bit (cooked_of (run calls s) ! r) c = v"
  using assms
proof (induction calls arbitrary: s)
  case (Cons call calls)
  obtain t raw ch where call: "call = (t, raw, ch)" by (cases call)
  then have raw: "length raw = n" "bit (raw ! r) c = v" using Cons.prems by auto
  have "bit (cooked_of (snd (step t raw ch s)) ! r) c = v"
    using old_or_raw [OF Cons.prems(1) raw(1) Cons.prems(3,4), of t ch] raw(2) Cons.prems(5) by auto
  then show ?case using Cons ok_step [OF Cons.prems(1) raw(1)] by (simp add: call)
qed simp

end

locale reporting_debouncer = debouncer step cooked_of ok
  for step :: "'t \<Rightarrow> matrix \<Rightarrow> bool \<Rightarrow> 's \<Rightarrow> bool \<times> 's" and cooked_of :: "'s \<Rightarrow> matrix" and ok :: "nat \<Rightarrow> 's \<Rightarrow> bool" +
  assumes reports: "ok n s \<Longrightarrow> length raw = n \<Longrightarrow> fst (step t raw ch s) \<longleftrightarrow> cooked_of (snd (step t raw ch s)) \<noteq> cooked_of s"
begin

text \<open>A consumer that copies the matrix only when a change is reported.\<close>

fun mirror :: "('t \<times> matrix \<times> bool) list \<Rightarrow> 's \<Rightarrow> matrix \<Rightarrow> matrix" where
  "mirror [] s m = m"
| "mirror ((t, raw, ch) # calls) s m =
    (let (rep, s') = step t raw ch s in mirror calls s' (if rep then cooked_of s' else m))"

lemma mirror_is_current:
  "ok n s \<Longrightarrow> \<forall>(t, raw, ch) \<in> set calls. length raw = n \<Longrightarrow> mirror calls s (cooked_of s) = cooked_of (run calls s)"
proof (induction calls arbitrary: s)
  case (Cons call calls)
  obtain t raw ch where call: "call = (t, raw, ch)" by (cases call)
  then have raw: "length raw = n" using Cons.prems by auto
  show ?case
    using Cons.IH [OF ok_step [OF Cons.prems(1) raw, of t ch]] Cons.prems(2) reports [OF Cons.prems(1) raw, of t ch]
    by (cases "fst (step t raw ch s)") (auto simp: call split_beta Let_def)
qed simp

end

subsection \<open>The algorithms\<close>

definition none_step :: "u32 \<Rightarrow> matrix \<Rightarrow> bool \<Rightarrow> matrix \<Rightarrow> bool \<times> matrix" where
  "none_step t raw ch m = debounce_none raw m"

interpretation none: reporting_debouncer none_step "\<lambda>m. m" "\<lambda>n m. length m = n"
  by unfold_locales (auto simp: none_step_def debounce_none_def)

definition g_step :: "nat \<Rightarrow> u32 \<Rightarrow> matrix \<Rightarrow> bool \<Rightarrow> matrix \<times> sym_defer_g_st \<Rightarrow> bool \<times> matrix \<times> sym_defer_g_st" where
  "g_step D t raw ch ms = sym_defer_g D t raw ch (fst ms) (snd ms)"

interpretation g: reporting_debouncer "g_step D" fst "\<lambda>n ms. length (fst ms) = n" for D
  by unfold_locales (auto simp: g_step_def sym_defer_g_def debounce_none_def Let_def)

lemma cooked_bits: "bit (cooked s ! r) c = snd (key_state s r c)"
  by (simp add: key_state_def)

lemma key_states_differ:
  "wf_counters n s \<Longrightarrow> wf_counters n s' \<Longrightarrow> cooked s' \<noteq> cooked s \<longleftrightarrow> (\<exists>r<n. \<exists>c<COLS. snd (key_state s' r c) \<noteq> snd (key_state s r c))"
  using cooked_eq_iff [of "cooked s'" n "cooked s"] by (auto simp: wf_counters_def cooked_bits)

definition pk_step :: "(nat \<Rightarrow> u32 \<Rightarrow> matrix \<Rightarrow> bool \<Rightarrow> 'c counter_st \<Rightarrow> 'c counter_st) \<Rightarrow>
    nat \<Rightarrow> u32 \<Rightarrow> matrix \<Rightarrow> bool \<Rightarrow> 'c counter_st \<Rightarrow> bool \<times> 'c counter_st" where
  "pk_step f D t raw ch s = (let s' = f D t raw ch s in (cooked_changed s', s'))"

lemma none_counters:
  assumes "wf_counters n s" "length raw = n"
  shows "wf_counters n (s\<lparr>cooked_changed := f, cooked := raw\<rparr>)" "key_state (s\<lparr>cooked_changed := f, cooked := raw\<rparr>) r c = (fst (key_state s r c), bit (raw ! r) c)"
  using assms by (simp_all add: wf_counters_def key_state_def)

lemma pk_laws:
  assumes "counter_algorithm n raw u tr us ts" "wf_counters n s" "length raw = n" "key_state s0 = key_state s" "cooked s0 = cooked s" "wf_counters n s0"
    and f: "f D t raw ch s = (if D = 0 then s\<lparr>cooked_changed := fst (debounce_none raw (cooked s)), cooked := snd (debounce_none raw (cooked s))\<rparr>
      else run_counters u tr t ch s0)"
  shows "wf_counters n (snd (pk_step f D t raw ch s))"
    and "r < n \<Longrightarrow> c < 16 \<Longrightarrow> bit (cooked (snd (pk_step f D t raw ch s)) ! r) c = bit (cooked s ! r) c \<or>
      bit (cooked (snd (pk_step f D t raw ch s)) ! r) c = bit (raw ! r) c"
    and "fst (pk_step f D t raw ch s) \<longleftrightarrow> cooked (snd (pk_step f D t raw ch s)) \<noteq> cooked s"
proof -
  note run = counter_algorithm.run_facts [OF assms(1,6) refl, where now = t and changed = ch]
  show wf': "wf_counters n (snd (pk_step f D t raw ch s))"
    using assms(2,3) run(1) by (simp add: pk_step_def Let_def f debounce_none_def none_counters)
  show "r < n \<Longrightarrow> c < 16 \<Longrightarrow> bit (cooked (snd (pk_step f D t raw ch s)) ! r) c = bit (cooked s ! r) c \<or>
      bit (cooked (snd (pk_step f D t raw ch s)) ! r) c = bit (raw ! r) c"
    using assms(2-4) run(2) [of r c] by (auto simp: pk_step_def Let_def f debounce_none_def cooked_bits none_counters)
  show "fst (pk_step f D t raw ch s) \<longleftrightarrow> cooked (snd (pk_step f D t raw ch s)) \<noteq> cooked s"
  proof (cases "D = 0")
    case True
    then show ?thesis using f by (auto simp: pk_step_def Let_def debounce_none_def)
  next
    case False
    then have p: "pk_step f D t raw ch s = (cooked_changed (run_counters u tr t ch s0), run_counters u tr t ch s0)"
      using f by (simp add: pk_step_def Let_def)
    show ?thesis using run(3) key_states_differ [OF assms(2) wf'] unfolding p fst_conv snd_conv assms(4) by blast
  qed
qed

interpretation sym_defer_pk: reporting_debouncer "pk_step sym_defer_pk D" cooked wf_counters for D
proof unfold_locales
  fix n t ch r c and raw :: matrix and s :: "u8 counter_st"
  assume wf: "wf_counters n s" and raw: "length raw = n"
  have f: "sym_defer_pk D t raw ch s = (if D = 0
      then s\<lparr>cooked_changed := fst (debounce_none raw (cooked s)), cooked := snd (debounce_none raw (cooked s))\<rparr>
      else run_counters (sym_defer_pk_update n raw) (sym_defer_pk_transfer (min D 255) n raw) t ch (s\<lparr>matrix_need_update := False\<rparr>))"
    using raw by (simp add: sym_defer_pk_def)
  show "wf_counters n (snd (pk_step sym_defer_pk D t raw ch s))"
    "r < n \<Longrightarrow> c < 16 \<Longrightarrow> bit (cooked (snd (pk_step sym_defer_pk D t raw ch s)) ! r) c = bit (cooked s ! r) c \<or>
      bit (cooked (snd (pk_step sym_defer_pk D t raw ch s)) ! r) c = bit (raw ! r) c"
    "fst (pk_step sym_defer_pk D t raw ch s) \<longleftrightarrow> cooked (snd (pk_step sym_defer_pk D t raw ch s)) \<noteq> cooked s"
    using pk_laws [where f = sym_defer_pk, OF defer_pk.counter_algorithm_axioms wf raw _ _ _ f] wf by simp_all
qed (simp add: wf_counters_def)

interpretation sym_eager_pk: reporting_debouncer "pk_step sym_eager_pk D" cooked wf_counters for D
proof unfold_locales
  fix n t ch r c and raw :: matrix and s :: "u8 counter_st"
  assume wf: "wf_counters n s" and raw: "length raw = n"
  have f: "sym_eager_pk D t raw ch s = (if D = 0
      then s\<lparr>cooked_changed := fst (debounce_none raw (cooked s)), cooked := snd (debounce_none raw (cooked s))\<rparr>
      else run_counters (sym_eager_pk_update n) (sym_eager_pk_transfer (min D 255) n raw) t ch s)"
    using raw by (simp add: sym_eager_pk_def)
  show "wf_counters n (snd (pk_step sym_eager_pk D t raw ch s))"
    "r < n \<Longrightarrow> c < 16 \<Longrightarrow> bit (cooked (snd (pk_step sym_eager_pk D t raw ch s)) ! r) c = bit (cooked s ! r) c \<or>
      bit (cooked (snd (pk_step sym_eager_pk D t raw ch s)) ! r) c = bit (raw ! r) c"
    "fst (pk_step sym_eager_pk D t raw ch s) \<longleftrightarrow> cooked (snd (pk_step sym_eager_pk D t raw ch s)) \<noteq> cooked s"
    using pk_laws [where f = sym_eager_pk, OF eager_pk.counter_algorithm_axioms wf raw refl refl wf f] by simp_all
qed (simp add: wf_counters_def)

interpretation asym_eager_defer_pk: reporting_debouncer "pk_step asym_eager_defer_pk D" cooked wf_counters for D
proof unfold_locales
  fix n t ch r c and raw :: matrix and s :: "debounce_counter_t counter_st"
  assume wf: "wf_counters n s" and raw: "length raw = n"
  have f: "asym_eager_defer_pk D t raw ch s = (if D = 0
      then s\<lparr>cooked_changed := fst (debounce_none raw (cooked s)), cooked := snd (debounce_none raw (cooked s))\<rparr>
      else run_counters (asym_update n raw) (asym_transfer (min D 127) n raw) t ch s)"
    using raw by (simp add: asym_eager_defer_pk_def)
  show "wf_counters n (snd (pk_step asym_eager_defer_pk D t raw ch s))"
    "r < n \<Longrightarrow> c < 16 \<Longrightarrow> bit (cooked (snd (pk_step asym_eager_defer_pk D t raw ch s)) ! r) c = bit (cooked s ! r) c \<or>
      bit (cooked (snd (pk_step asym_eager_defer_pk D t raw ch s)) ! r) c = bit (raw ! r) c"
    "fst (pk_step asym_eager_defer_pk D t raw ch s) \<longleftrightarrow> cooked (snd (pk_step asym_eager_defer_pk D t raw ch s)) \<noteq> cooked s"
    using pk_laws [where f = asym_eager_defer_pk, OF asym_pk.counter_algorithm_axioms wf raw refl refl wf f] by simp_all
qed (simp add: wf_counters_def)


subsubsection \<open>Row timers\<close>

lemma sym_defer_pr_rows_facts:
  assumes "sym_defer_pr_rows D e raw mx cs ls ch = (ch', mx', cs', ls')"
    "length raw = n" "length mx = n" "length cs = n" "length ls = n"
  shows "length mx' = n \<and> length cs' = n \<and> length ls' = n \<and> (ch' \<longleftrightarrow> ch \<or> mx' \<noteq> mx) \<and>
    (\<forall>r<n. mx' ! r = mx ! r \<or> mx' ! r = raw ! r)"
  using assms
proof (induction D e raw mx cs ls ch arbitrary: n ch' mx' cs' ls' rule: sym_defer_pr_rows.induct)
  case (1 D e raw_row raw cooked_row mx c cs l ls ch)
  obtain row' c' l' ch1 where row: "(if raw_row \<noteq> l then (cooked_row, of_nat D, raw_row, ch)
      else if e < c then (cooked_row, c - e, l, ch)
      else if c \<noteq> 0 then (raw_row, 0, l, ch \<or> cooked_row XOR raw_row \<noteq> 0) else (cooked_row, c, l, ch)) = (row', c', l', ch1)"
    by (metis prod_cases4)
  obtain ch2 ck2 cs2 ls2 where rec: "sym_defer_pr_rows D e raw mx cs ls ch1 = (ch2, ck2, cs2, ls2)" by (metis prod_cases4)
  have rowf: "ch1 \<longleftrightarrow> ch \<or> row' \<noteq> cooked_row" "row' = cooked_row \<or> row' = raw_row"
    using row by (auto simp: xor_eq_zero_iff split: if_splits)
  obtain m where n: "n = Suc m" using 1(3) by (cases n) auto
  have "ch' = ch2" "mx' = row' # ck2" "cs' = c' # cs2" "ls' = l' # ls2"
    using 1(2) row rec by (auto simp: Let_def)
  moreover have "length ck2 = m \<and> length cs2 = m \<and> length ls2 = m \<and> (ch2 \<longleftrightarrow> ch1 \<or> ck2 \<noteq> mx) \<and>
      (\<forall>r<m. ck2 ! r = mx ! r \<or> ck2 ! r = raw ! r)"
    using 1(1) [OF row [symmetric] refl refl refl rec] 1(3-6) n by simp
  ultimately show ?case using rowf n by (auto simp: nth_Cons split: nat.splits)
qed auto

definition pr_step :: "nat \<Rightarrow> u16 \<Rightarrow> matrix \<Rightarrow> bool \<Rightarrow> matrix \<times> sym_defer_pr_st \<Rightarrow> bool \<times> matrix \<times> sym_defer_pr_st" where
  "pr_step D t raw ch ms = sym_defer_pr D t raw ch (fst ms) (snd ms)"

definition pr_ok :: "nat \<Rightarrow> matrix \<times> sym_defer_pr_st \<Rightarrow> bool" where
  "pr_ok n ms \<longleftrightarrow> length (fst ms) = n \<and> length (countdowns (snd ms)) = n \<and> length (last_raw (snd ms)) = n"

lemma pr_step_facts:
  assumes "pr_ok n ms" "length raw = n"
  shows "pr_ok n (snd (pr_step D t raw ch ms)) \<and> (fst (pr_step D t raw ch ms) \<longleftrightarrow> fst (snd (pr_step D t raw ch ms)) \<noteq> fst ms) \<and>
    (\<forall>r<n. fst (snd (pr_step D t raw ch ms)) ! r = fst ms ! r \<or> fst (snd (pr_step D t raw ch ms)) ! r = raw ! r)"
proof -
  let ?e = "if 255 < TIMER_DIFF_16 t (pr_last_time (snd ms)) then 255 else ucast (TIMER_DIFF_16 t (pr_last_time (snd ms)))"
  obtain ch' ck cs ls where r: "sym_defer_pr_rows D ?e raw (fst ms) (countdowns (snd ms)) (last_raw (snd ms)) False = (ch', ck, cs, ls)"
    by (metis prod_cases4)
  then have "pr_step D t raw ch ms = (ch', ck, \<lparr>pr_last_time = t, countdowns = cs, last_raw = ls\<rparr>)"
    by (simp add: pr_step_def sym_defer_pr_def Let_def)
  then show ?thesis using sym_defer_pr_rows_facts [OF r, of n] assms by (simp add: pr_ok_def)
qed

interpretation sym_defer_pr: reporting_debouncer "pr_step D" fst pr_ok for D
proof unfold_locales
  fix n s t ch r c and raw :: matrix
  assume "pr_ok n s" "length raw = n"
  note facts = pr_step_facts [OF this, of D t ch]
  show "pr_ok n (snd (pr_step D t raw ch s))" "fst (pr_step D t raw ch s) \<longleftrightarrow> fst (snd (pr_step D t raw ch s)) \<noteq> fst s"
    using facts by blast+
  show "r < n \<Longrightarrow> c < 16 \<Longrightarrow> bit (fst (snd (pr_step D t raw ch s)) ! r) c = bit (fst s ! r) c \<or>
      bit (fst (snd (pr_step D t raw ch s)) ! r) c = bit (raw ! r) c"
    using facts by metis
qed (simp add: pr_ok_def)

definition pr_wf :: "nat \<Rightarrow> u8 counter_st \<Rightarrow> bool" where
  "pr_wf n s \<longleftrightarrow> length (debounce_counters s) = n \<and> length (cooked s) = n"

text \<open>What the per-row loops of the eager algorithm keep: shape, flag, and rows that are old or raw.\<close>

definition pr_keeps :: "matrix \<Rightarrow> u8 counter_st \<Rightarrow> u8 counter_st \<Rightarrow> bool" where
  "pr_keeps raw s s' \<longleftrightarrow> length (debounce_counters s') = length (debounce_counters s) \<and> length (cooked s') = length (cooked s) \<and>
    cooked_changed s' = cooked_changed s \<and> (\<forall>r<length (cooked s). cooked s' ! r = cooked s ! r \<or> cooked s' ! r = raw ! r)"

lemma pr_keeps_refl [simp]: "pr_keeps raw s s"
  by (simp add: pr_keeps_def)

lemma pr_keeps_trans:
  assumes "pr_keeps raw s s'" "pr_keeps raw s' s''"
  shows "pr_keeps raw s s''"
proof -
  have "cooked s'' ! r = cooked s ! r \<or> cooked s'' ! r = raw ! r" if "r < length (cooked s)" for r
  proof -
    have "cooked s' ! r = cooked s ! r \<or> cooked s' ! r = raw ! r" "cooked s'' ! r = cooked s' ! r \<or> cooked s'' ! r = raw ! r"
      using assms that by (simp_all add: pr_keeps_def)
    then show ?thesis by auto
  qed
  then show ?thesis using assms by (simp add: pr_keeps_def)
qed

lemma pr_keeps_fold: "(\<And>x s. pr_keeps raw s (f x s)) \<Longrightarrow> pr_keeps raw s (fold f xs s)"
  by (induction xs arbitrary: s) (auto intro: pr_keeps_trans)

lemma pr_keeps_update: "pr_keeps raw s (sym_eager_pr_update n e s)"
proof -
  have "pr_keeps raw s (s\<lparr>counters_need_update := False, matrix_need_update := False\<rparr>)" by (simp add: pr_keeps_def)
  moreover have "pr_keeps raw s (sym_eager_pr_expire e row s)" for row s
    by (simp add: sym_eager_pr_expire_def pr_keeps_def Let_def)
  then have "pr_keeps raw s (fold (sym_eager_pr_expire e) rows s)" for rows s by (rule pr_keeps_fold)
  ultimately show ?thesis unfolding sym_eager_pr_update_def by (rule pr_keeps_trans)
qed

lemma pr_keeps_transfer:
  assumes "length (cooked s) = n" shows "pr_keeps raw s (sym_eager_pr_transfer D n raw s)"
proof -
  have copy: "row < length (cooked s) \<Longrightarrow> pr_keeps raw s (sym_eager_pr_copy D raw row s)" for row s
    by (auto simp: sym_eager_pr_copy_def pr_keeps_def Let_def nth_list_update)
  have "pr_keeps raw s (fold (sym_eager_pr_copy D raw) rows s)" if "set rows \<subseteq> {..<length (cooked s)}" for rows s
    using that
  proof (induction rows arbitrary: s)
    case (Cons row rows)
    then have k: "pr_keeps raw s (sym_eager_pr_copy D raw row s)" using copy by auto
    then have "set rows \<subseteq> {..<length (cooked (sym_eager_pr_copy D raw row s))}" using Cons.prems by (auto simp: pr_keeps_def)
    then show ?case using Cons.IH k by (auto intro: pr_keeps_trans)
  qed simp
  then show ?thesis unfolding sym_eager_pr_transfer_def using assms by (auto simp: subset_iff)
qed

lemma pr_keeps_run:
  assumes "length (cooked s) = n"
  shows "pr_keeps raw (s\<lparr>cooked_changed := False\<rparr>) (run_counters (sym_eager_pr_update n) (sym_eager_pr_transfer D n raw) now ch s)"
proof -
  let ?s = "s\<lparr>cooked_changed := False\<rparr>"
  define u where "u = (if counters_need_update s then if 0 < TIMER_DIFF_32 now (last_time s)
    then sym_eager_pr_update n (elapsed8 (TIMER_DIFF_32 now (last_time s))) (?s\<lparr>last_time := now\<rparr>) else ?s\<lparr>last_time := now\<rparr> else ?s)"
  define v where "v = (if \<not> counters_need_update s then u\<lparr>last_time := now\<rparr> else u)"
  have lt: "pr_keeps raw s (s\<lparr>last_time := now\<rparr>)" for s by (simp add: pr_keeps_def)
  have u: "pr_keeps raw ?s u" using pr_keeps_trans [OF lt pr_keeps_update] lt by (simp add: u_def)
  have v: "pr_keeps raw ?s v" using u pr_keeps_trans [OF u lt] by (simp add: v_def)
  then have "length (cooked v) = n" using assms by (simp add: pr_keeps_def)
  from pr_keeps_trans [OF v pr_keeps_transfer [OF this]] have "pr_keeps raw ?s (sym_eager_pr_transfer D n raw v)" .
  moreover have "run_counters (sym_eager_pr_update n) (sym_eager_pr_transfer D n raw) now ch s =
      (if ch \<or> matrix_need_update u then sym_eager_pr_transfer D n raw v else u)"
    by (simp add: run_counters_def Let_def u_def v_def)
  ultimately show ?thesis using u by simp
qed

interpretation sym_eager_pr: debouncer "pk_step sym_eager_pr D" cooked pr_wf for D
proof unfold_locales
  fix n t ch r c and raw :: matrix and s :: "u8 counter_st"
  assume s: "pr_wf n s" and raw: "length raw = n"
  have k: "D \<noteq> 0 \<Longrightarrow> pr_keeps raw (s\<lparr>cooked_changed := False\<rparr>) (sym_eager_pr D t raw ch s)"
    using pr_keeps_run [of s n raw "min D 255" t ch] s raw by (simp add: sym_eager_pr_def pr_wf_def Let_def)
  show "pr_wf n (snd (pk_step sym_eager_pr D t raw ch s))"
    using k s raw by (cases "D = 0") (auto simp: pk_step_def pr_wf_def pr_keeps_def sym_eager_pr_def debounce_none_def Let_def)
  show "r < n \<Longrightarrow> c < 16 \<Longrightarrow> bit (cooked (snd (pk_step sym_eager_pr D t raw ch s)) ! r) c = bit (cooked s ! r) c \<or>
      bit (cooked (snd (pk_step sym_eager_pr D t raw ch s)) ! r) c = bit (raw ! r) c"
  proof (cases "D = 0")
    case False
    assume "r < n" "c < 16"
    then have "cooked (sym_eager_pr D t raw ch s) ! r = cooked s ! r \<or> cooked (sym_eager_pr D t raw ch s) ! r = raw ! r"
      using k [OF False] s by (simp add: pr_keeps_def pr_wf_def)
    then show ?thesis by (auto simp: pk_step_def Let_def)
  qed (simp add: pk_step_def sym_eager_pr_def debounce_none_def Let_def)
qed (simp add: pr_wf_def)

subsection \<open>Properties\<close>

text \<open>C38: Six of the seven algorithms report a change exactly when the cooked matrix changed.\<close>
theorem debounce_reports_changes:
  assumes "length raw = n" "length m = n" "pr_ok n (m, p)" "wf_counters n s" "wf_counters n a"
  shows "(fst (debounce_none raw m) \<longleftrightarrow> snd (debounce_none raw m) \<noteq> m) \<and>
    (fst (sym_defer_g D t raw ch m g) \<longleftrightarrow> fst (snd (sym_defer_g D t raw ch m g)) \<noteq> m) \<and>
    (fst (sym_defer_pr D t16 raw ch m p) \<longleftrightarrow> fst (snd (sym_defer_pr D t16 raw ch m p)) \<noteq> m) \<and>
    (cooked_changed (sym_defer_pk D t raw ch s) \<longleftrightarrow> cooked (sym_defer_pk D t raw ch s) \<noteq> cooked s) \<and>
    (cooked_changed (sym_eager_pk D t raw ch s) \<longleftrightarrow> cooked (sym_eager_pk D t raw ch s) \<noteq> cooked s) \<and>
    (cooked_changed (asym_eager_defer_pk D t raw ch a) \<longleftrightarrow> cooked (asym_eager_defer_pk D t raw ch a) \<noteq> cooked a)"
  using none.reports [of m n raw] g.reports [of "(m, g)" n raw D t ch] sym_defer_pr.reports [OF assms(3,1), of D t16 ch]
    sym_defer_pk.reports [OF assms(4,1), of D t ch] sym_eager_pk.reports [OF assms(4,1), of D t ch]
    asym_eager_defer_pk.reports [OF assms(5,1), of D t ch] assms(1,2)
  by (simp add: none_step_def g_step_def pr_step_def pk_step_def Let_def)

definition demo_counters :: "'c \<Rightarrow> nat \<Rightarrow> 'c counter_st" where
  "demo_counters z n = \<lparr>debounce_counters = replicate (n * COLS) z, last_time = 0, counters_need_update = False,
    matrix_need_update = False, cooked_changed = False, cooked = replicate n 0\<rparr>"

lemma demo_counters_wf: "wf_counters n (demo_counters z n)"
  by (simp add: wf_counters_def demo_counters_def)

theorem debounce_reports_changes_witness:
  "cooked_changed (sym_eager_pk 5 7 [3, 0] True (demo_counters 0 2)) \<longleftrightarrow>
    cooked (sym_eager_pk 5 7 [3, 0] True (demo_counters 0 2)) \<noteq> [0, 0]"
proof -
  have "pr_ok 2 ([0, 0], sym_defer_pr_init 2 0)" by (simp add: pr_ok_def sym_defer_pr_init_def)
  from debounce_reports_changes [OF _ _ this demo_counters_wf demo_counters_wf, of "[3, 0]" 5 7 True] show ?thesis
    by (simp add: demo_counters_def numeral_2_eq_2)
qed

text \<open>The eager per-row algorithm never reports a change, although it changes the cooked matrix:
  the difference is taken after the row was assigned.\<close>
lemma sym_eager_pr_never_reports:
  assumes "D \<noteq> 0" "length (cooked s) = length raw"
  shows "\<not> cooked_changed (sym_eager_pr D t raw ch s)"
  using pr_keeps_run [OF assms(2), of raw "min D 255" t ch] assms(1) by (simp add: sym_eager_pr_def pr_keeps_def Let_def)

end
