(* ===== verification/Qmk_Debounce_Time.thy ===== *)
theory Qmk_Debounce_Time
  imports Qmk_Debounce_Contract
begin

text \<open>
  The timing guarantees of the deferred algorithms over whole histories of scans: a cooked key
  changes only after the raw key had the new value in every scan of the last \<open>D\<close> milliseconds, and a
  raw key that was stable that long is in the cooked matrix.  Times are natural numbers that the
  32-bit timer shows modulo its width.
\<close>

subsection \<open>Histories\<close>

text \<open>The scans so far, newest first: time and raw matrix.  The raw matrix starts with all keys off.\<close>

type_synonym history = "(nat \<times> matrix) list"

fun prev_raw :: "nat \<Rightarrow> history \<Rightarrow> matrix" where
  "prev_raw n [] = replicate n 0"
| "prev_raw n ((t, raw) # h) = raw"

text \<open>Time does not run backwards, and two scans are less than 24 days apart.\<close>

fun scans :: "nat \<Rightarrow> history \<Rightarrow> bool" where
  "scans n [] = True"
| "scans n [(t, raw)] = (length raw = n)"
| "scans n ((t, raw) # (t', raw') # h) = (length raw = n \<and> t' \<le> t \<and> t - t' < 2 ^ 31 \<and> scans n ((t', raw') # h))"

definition age :: "history \<Rightarrow> nat \<Rightarrow> nat" where
  "age h k = fst (h ! 0) - fst (h ! k)"

lemma scans_Cons: "scans n ((t, raw) # h) \<longleftrightarrow> length raw = n \<and> scans n h \<and> (h \<noteq> [] \<longrightarrow> fst (h ! 0) \<le> t \<and> t - fst (h ! 0) < 2 ^ 31)"
  by (cases h) auto

lemma scans_sorted: "scans n h \<Longrightarrow> k < length h \<Longrightarrow> fst (h ! k) \<le> fst (h ! 0)"
proof (induction h arbitrary: k)
  case (Cons x h)
  obtain t raw where x: "x = (t, raw)" by (cases x)
  show ?case
  proof (cases k)
    case (Suc j)
    then have "h \<noteq> []" "j < length h" using Cons.prems by auto
    moreover have "scans n h" "fst (h ! 0) \<le> t" using Cons.prems \<open>h \<noteq> []\<close> by (auto simp: x scans_Cons)
    ultimately have "fst (h ! j) \<le> t" using Cons.IH by fastforce
    then show ?thesis by (simp add: Suc x)
  qed simp
qed simp

lemma scans_mono: "scans n h \<Longrightarrow> i \<le> j \<Longrightarrow> j < length h \<Longrightarrow> fst (h ! j) \<le> fst (h ! i)"
proof (induction h arbitrary: i j)
  case (Cons x h)
  show ?case
  proof (cases i)
    case 0
    then show ?thesis using scans_sorted [OF Cons.prems(1,3)] by simp
  next
    case (Suc i')
    then obtain j' where "j = Suc j'" using Cons.prems(2) by (cases j) auto
    moreover have "scans n h" using Cons.prems(1) by (cases x) (simp add: scans_Cons)
    ultimately show ?thesis using Cons Suc by simp
  qed
qed simp

lemma age_Suc:
  assumes "scans n ((t, raw) # h)" "k < length h"
  shows "age ((t, raw) # h) (Suc k) = (t - fst (h ! 0)) + age h k"
proof -
  have "h \<noteq> []" using assms(2) by auto
  then have "scans n h" "fst (h ! 0) \<le> t" using assms(1) by (auto simp: scans_Cons)
  then show ?thesis using scans_sorted [of n h k] assms(2) by (simp add: age_def)
qed

lemma age_0 [simp]: "age h 0 = 0"
  by (simp add: age_def)

lemma timer_diff_of_nat:
  "b \<le> a \<Longrightarrow> a - b < 2 ^ 32 \<Longrightarrow> unat (TIMER_DIFF_32 (of_nat a) (of_nat b)) = a - b"
  using TIMER_DIFF_32_elapsed [of "a - b" "of_nat b"] by (simp flip: of_nat_add)

subsection \<open>The global algorithm\<close>

fun g_run :: "nat \<Rightarrow> nat \<Rightarrow> history \<Rightarrow> matrix \<times> sym_defer_g_st" where
  "g_run D n [] = (replicate n 0, \<lparr>debouncing = False, debouncing_time = 0\<rparr>)"
| "g_run D n ((t, raw) # h) =
    (let (m, g) = g_run D n h in snd (sym_defer_g D (of_nat t) raw (raw \<noteq> prev_raw n h) m g))"

text \<open>While debouncing, the raw matrix is unchanged since the scan \<open>k\<close>, which was less than \<open>D\<close> ago.\<close>

definition g_pending :: "nat \<Rightarrow> history \<Rightarrow> sym_defer_g_st \<Rightarrow> nat \<Rightarrow> bool" where
  "g_pending D h g k \<longleftrightarrow> k < length h \<and> (\<forall>i\<le>k. snd (h ! i) = snd (h ! 0)) \<and> (Suc k < length h \<longrightarrow> snd (h ! Suc k) \<noteq> snd (h ! 0)) \<and>
    debouncing_time g = of_nat (fst (h ! k)) \<and> age h k < D"

definition g_inv :: "nat \<Rightarrow> nat \<Rightarrow> history \<Rightarrow> matrix \<times> sym_defer_g_st \<Rightarrow> bool" where
  "g_inv D n h ms \<longleftrightarrow> (if debouncing (snd ms) then \<exists>k. g_pending D h (snd ms) k else fst ms = prev_raw n h)"

lemma g_pending_Cons:
  assumes "scans n ((t, raw) # h)" "g_pending D h g k" "raw = prev_raw n h" "D \<le> 2 ^ 31"
  shows "unat (TIMER_DIFF_32 (of_nat t) (debouncing_time g)) = age ((t, raw) # h) (Suc k)"
    and "\<forall>i\<le>Suc k. snd (((t, raw) # h) ! i) = raw"
    and "age ((t, raw) # h) (Suc k) < D \<Longrightarrow> g_pending D ((t, raw) # h) g (Suc k)"
proof -
  have k: "k < length h" "\<forall>i\<le>k. snd (h ! i) = snd (h ! 0)" "debouncing_time g = of_nat (fst (h ! k))" "age h k < D"
    "Suc k < length h \<longrightarrow> snd (h ! Suc k) \<noteq> snd (h ! 0)"
    using assms(2) unfolding g_pending_def by blast+
  have h: "h \<noteq> []" "scans n h" "fst (h ! 0) \<le> t" "t - fst (h ! 0) < 2 ^ 31" using assms(1) k(1) by (auto simp: scans_Cons)
  have raw: "raw = snd (h ! 0)" using assms(3) h(1) by (cases h) auto
  have le: "fst (h ! k) \<le> fst (h ! 0)" by (rule scans_sorted [OF h(2) k(1)])
  have "t - fst (h ! k) < 2 ^ 32" using h(3,4) k(4) le assms(4) by (simp add: age_def)
  then show "unat (TIMER_DIFF_32 (of_nat t) (debouncing_time g)) = age ((t, raw) # h) (Suc k)"
    using timer_diff_of_nat [of "fst (h ! k)" t] le h(3) by (simp add: k(3) age_def)
  show all: "\<forall>i\<le>Suc k. snd (((t, raw) # h) ! i) = raw"
  proof (intro allI impI)
    fix i assume "i \<le> Suc k"
    show "snd (((t, raw) # h) ! i) = raw"
    proof (cases i)
      case (Suc j)
      then have "snd (h ! j) = snd (h ! 0)" using k(2) \<open>i \<le> Suc k\<close> by blast
      then show ?thesis by (simp add: Suc raw)
    qed simp
  qed
  show "age ((t, raw) # h) (Suc k) < D \<Longrightarrow> g_pending D ((t, raw) # h) g (Suc k)"
    using k(1,3,5) all raw unfolding g_pending_def by simp
qed

lemma g_run_inv:
  assumes "0 < D" "D \<le> 2 ^ 31" "scans n h"
  shows "g_inv D n h (g_run D n h)"
  using assms(3)
proof (induction h)
  case Nil
  then show ?case by (simp add: g_inv_def)
next
  case (Cons x h)
  obtain t raw where x: "x = (t, raw)" by (cases x)
  obtain m g where run: "g_run D n h = (m, g)" by fastforce
  have inv: "g_inv D n h (m, g)" using Cons by (auto simp: run x scans_Cons)
  show ?case
  proof (cases "raw = prev_raw n h")
    case False
    have "g_pending D ((t, raw) # h) (g\<lparr>debouncing := True, debouncing_time := of_nat t\<rparr>) 0"
      using False assms(1) by (cases h) (auto simp: g_pending_def)
    then show ?thesis using False assms(1) by (auto simp: x run g_inv_def sym_defer_g_def Let_def TIMER_DIFF_32_def)
  next
    case True
    show ?thesis
    proof (cases "debouncing g")
      case deb: True
      then obtain k where k: "g_pending D h g k" using inv by (auto simp: g_inv_def)
      note c = g_pending_Cons [OF Cons.prems [unfolded x] k True assms(2)]
      show ?thesis
        using c(1,3) True deb assms(1) by (auto simp: x run g_inv_def sym_defer_g_def Let_def)
    qed (use True inv in \<open>auto simp: x run g_inv_def sym_defer_g_def Let_def debounce_none_def\<close>)
  qed
qed

lemma g_timing:
  assumes "0 < D" "D \<le> 2 ^ 31" "scans n ((t, raw) # h)"
  shows "(fst (g_run D n ((t, raw) # h)) \<noteq> fst (g_run D n h) \<longrightarrow>
      (\<exists>k\<le>length h. (\<forall>i\<le>k. snd (((t, raw) # h) ! i) = raw) \<and> D \<le> age ((t, raw) # h) k)) \<and>
    (\<forall>k\<le>length h. (\<forall>i\<le>k. snd (((t, raw) # h) ! i) = raw) \<and> D \<le> age ((t, raw) # h) k \<longrightarrow> fst (g_run D n ((t, raw) # h)) = raw)"
proof
  let ?h = "(t, raw) # h"
  have h: "scans n h" using assms(3) by (simp add: scans_Cons)
  obtain m g where run: "g_run D n h = (m, g)" by fastforce
  have inv: "g_inv D n h (m, g)" using g_run_inv [OF assms(1,2) h] by (simp add: run)
  show "fst (g_run D n ?h) \<noteq> fst (g_run D n h) \<longrightarrow> (\<exists>k\<le>length h. (\<forall>i\<le>k. snd (?h ! i) = raw) \<and> D \<le> age ?h k)"
  proof
    assume ch: "fst (g_run D n ?h) \<noteq> fst (g_run D n h)"
    then have raw: "raw = prev_raw n h" and deb: "debouncing g" and D: "D \<le> unat (TIMER_DIFF_32 (of_nat t) (debouncing_time g))"
      using assms(1) by (auto simp: run sym_defer_g_def Let_def TIMER_DIFF_32_def split: if_splits)
    obtain k where k: "g_pending D h g k" using inv deb by (auto simp: g_inv_def)
    note c = g_pending_Cons [OF assms(3) k raw assms(2)]
    have "Suc k \<le> length h" using k by (simp add: g_pending_def)
    then show "\<exists>k\<le>length h. (\<forall>i\<le>k. snd (?h ! i) = raw) \<and> D \<le> age ?h k" using c(1,2) D by metis
  qed
  show "\<forall>k\<le>length h. (\<forall>i\<le>k. snd (?h ! i) = raw) \<and> D \<le> age ?h k \<longrightarrow> fst (g_run D n ?h) = raw"
  proof (intro allI impI)
    fix k assume "k \<le> length h" and k: "(\<forall>i\<le>k. snd (?h ! i) = raw) \<and> D \<le> age ?h k"
    have "\<not> g_pending D ?h g' j" for g' j
    proof
      assume j: "g_pending D ?h g' j"
      have "k \<le> j"
      proof (rule ccontr)
        assume "\<not> k \<le> j"
        then have "Suc j \<le> k" by simp
        then have "snd (?h ! Suc j) = raw" "Suc j < length ?h" using k \<open>k \<le> length h\<close> by auto
        then show False using j by (auto simp: g_pending_def)
      qed
      have "fst (?h ! j) \<le> fst (?h ! k)"
        using j by (intro scans_mono [OF assms(3) \<open>k \<le> j\<close>]) (simp add: g_pending_def)
      then have "age ?h k \<le> age ?h j" unfolding age_def by simp
      then show False using j k by (simp add: g_pending_def)
    qed
    then show "fst (g_run D n ?h) = raw"
      using g_run_inv [OF assms] by (auto simp: g_inv_def split: if_splits)
  qed
qed

text \<open>C9: The algorithm of the keyboard: the cooked matrix changes only when every scan of the last
  \<open>D\<close> milliseconds saw the same raw matrix, and once that is the case the cooked matrix is the raw one.\<close>
theorem sym_defer_g_timing:
  assumes "0 < D" "D \<le> 2 ^ 31" "scans n ((t, raw) # h)"
  shows "(fst (g_run D n ((t, raw) # h)) \<noteq> fst (g_run D n h) \<longrightarrow>
      (\<exists>k\<le>length h. (\<forall>i\<le>k. snd (((t, raw) # h) ! i) = raw) \<and> D \<le> age ((t, raw) # h) k)) \<and>
    (\<forall>k\<le>length h. (\<forall>i\<le>k. snd (((t, raw) # h) ! i) = raw) \<and> D \<le> age ((t, raw) # h) k \<longrightarrow> fst (g_run D n ((t, raw) # h)) = raw)"
  using assms by (rule g_timing)

theorem sym_defer_g_timing_witness:
  "fst (g_run 5 1 [(109, [4]), (104, [4]), (103, [0]), (100, [4])]) = [4]"
proof -
  have scans: "scans 1 ((109, [4]) # [(104, [4]), (103, [0]), (100, [4])])" by simp
  have D: "0 < (5 :: nat)" "5 \<le> (2 :: nat) ^ 31" by simp_all
  show ?thesis
    by (rule sym_defer_g_timing [OF D scans, THEN conjunct2, THEN spec, of 1, THEN mp, THEN mp]) (auto simp: age_def le_Suc_eq)
qed

subsection \<open>The per-key algorithm\<close>

text \<open>What the loops leave alone.\<close>

interpretation defer_expire_matrix: flag_loop n "wf_counters n" key_state "sym_defer_pk_expire raw e"
  "\<lambda>r c. defer_expire e (bit (raw ! r) c)" matrix_need_update "\<lambda>r c k. False" for n raw e
  by unfold_locales (simp add: sym_defer_pk_expire_def Let_def)

interpretation defer_expire_time: flag_loop n "wf_counters n" key_state "sym_defer_pk_expire raw e"
  "\<lambda>r c. defer_expire e (bit (raw ! r) c)" "\<lambda>s. last_time s = T" "\<lambda>r c k. False" for n raw e T
  by unfold_locales (simp add: sym_defer_pk_expire_def Let_def)

interpretation defer_start_time: flag_loop n "wf_counters n" key_state "live_start D raw"
  "\<lambda>r c. defer_start D (bit (raw ! r) c)" "\<lambda>s. last_time s = T" "\<lambda>r c k. False" for n D raw T
  by unfold_locales (simp add: live_start_def sym_defer_pk_start_def Let_def)

text \<open>A running counter keeps the flag up that makes the next call look at the counters.\<close>

definition counters_seen :: "nat \<Rightarrow> u8 counter_st \<Rightarrow> bool" where
  "counters_seen n s \<longleftrightarrow> (\<forall>r<n. \<forall>c<COLS. fst (key_state s r c) \<noteq> 0 \<longrightarrow> counters_need_update s)"

lemma expire_zero: "fst (defer_expire e v k) \<noteq> 0 \<Longrightarrow> e < fst k"
  by (cases k) (auto split: if_splits)

lemma update_call:
  assumes "wf_counters n s" "s' = sym_defer_pk_update n raw e s"
  shows "wf_counters n s'" "r < n \<Longrightarrow> c < COLS \<Longrightarrow> key_state s' r c = defer_expire e (bit (raw ! r) c) (key_state s r c)"
    "matrix_need_update s' = matrix_need_update s" "last_time s' = last_time s" "counters_seen n s'"
proof -
  let ?s = "s\<lparr>counters_need_update := False\<rparr>"
  have w: "wf_counters n ?s" using assms(1) by simp
  have s': "s' = for_keys n (sym_defer_pk_expire raw e) ?s" by (simp add: assms(2) sym_defer_pk_update_def)
  show "wf_counters n s'" unfolding s' by (rule defer_expire_changed.wf_for_keys [OF w])
  show key: "r < n \<Longrightarrow> c < COLS \<Longrightarrow> key_state s' r c = defer_expire e (bit (raw ! r) c) (key_state s r c)" for r c
    unfolding s' using defer_expire_changed.key_for_keys [OF w] by simp
  show "matrix_need_update s' = matrix_need_update s" unfolding s' using defer_expire_matrix.flag_for_keys [OF w] by simp
  show "last_time s' = last_time s" unfolding s' using defer_expire_time.flag_for_keys [OF w] by simp
  have "counters_need_update s' \<longleftrightarrow> (\<exists>r<n. \<exists>c<COLS. case key_state s r c of (cnt, b) \<Rightarrow> e < cnt)"
    unfolding s' using defer_expire_need.flag_for_keys [OF w] by simp
  then show "counters_seen n s'"
    unfolding counters_seen_def
  proof (intro allI impI)
    fix r c assume need: "counters_need_update s' \<longleftrightarrow> (\<exists>r<n. \<exists>c<COLS. case key_state s r c of (cnt, b) \<Rightarrow> e < cnt)"
      and rc: "r < n" "c < COLS" "fst (key_state s' r c) \<noteq> 0"
    have "e < fst (key_state s r c)" using expire_zero rc(3) unfolding key [OF rc(1,2)] .
    then show "counters_need_update s'" unfolding need using rc(1,2) by (auto simp: split_beta)
  qed
qed

lemma start_call:
  assumes "wf_counters n s" "s' = sym_defer_pk_transfer D n raw s" "counters_seen n s"
  shows "wf_counters n s'" "r < n \<Longrightarrow> c < COLS \<Longrightarrow> key_state s' r c = defer_start D (bit (raw ! r) c) (key_state s r c)"
    "last_time s' = last_time s" "counters_seen n s'"
proof -
  have s': "s' = for_keys n (live_start D raw) s" by (simp add: assms(2) sym_defer_pk_transfer_eq)
  show "wf_counters n s'" unfolding s' by (rule defer_start.wf_for_keys [OF assms(1)])
  show key: "r < n \<Longrightarrow> c < COLS \<Longrightarrow> key_state s' r c = defer_start D (bit (raw ! r) c) (key_state s r c)" for r c
    unfolding s' by (rule defer_start.key_for_keys [OF assms(1)])
  show "last_time s' = last_time s" unfolding s' using defer_start_time.flag_for_keys [OF assms(1)] by simp
  have need: "counters_need_update s' \<longleftrightarrow> counters_need_update s \<or>
      (\<exists>r<n. \<exists>c<COLS. case key_state s r c of (cnt, b) \<Rightarrow> bit (raw ! r) c \<noteq> b \<and> cnt = 0)"
    unfolding s' by (rule defer_start.flag_for_keys [OF assms(1)])
  show "counters_seen n s'"
    unfolding counters_seen_def
  proof (intro allI impI)
    fix r c assume rc: "r < n" "c < COLS" "fst (key_state s' r c) \<noteq> 0"
    obtain cnt b where k: "key_state s r c = (cnt, b)" by fastforce
    have "cnt \<noteq> 0 \<or> bit (raw ! r) c \<noteq> b \<and> cnt = 0"
      using rc(3) key [OF rc(1,2)] k by (auto split: if_splits)
    then show "counters_need_update s'"
    proof
      assume "cnt \<noteq> 0"
      then have "counters_need_update s" using assms(3) rc k unfolding counters_seen_def by force
      then show ?thesis using need by blast
    next
      assume "bit (raw ! r) c \<noteq> b \<and> cnt = 0"
      then have "\<exists>r<n. \<exists>c<COLS. bit (raw ! r) c \<noteq> snd (key_state s r c) \<and> fst (key_state s r c) = 0"
        using k rc(1,2) by (metis fst_conv snd_conv)
      then show ?thesis using need by (simp add: split_beta)
    qed
  qed
qed


text \<open>One call, key by key.\<close>

definition pk_key :: "nat \<Rightarrow> u32 \<Rightarrow> bool \<Rightarrow> bool \<Rightarrow> bool \<Rightarrow> u8 \<times> bool \<Rightarrow> u8 \<times> bool" where
  "pk_key D elapsed need ch v k =
    (let k = (if need \<and> 0 < elapsed then defer_expire (elapsed8 elapsed) v k else k) in
     if ch then defer_start D v k else k)"

lemma pk_call:
  assumes "wf_counters n s" "length raw = n" "0 < D" "counters_seen n s" "s' = sym_defer_pk D now raw ch s"
  shows "wf_counters n s'" "counters_seen n s'" "counters_need_update s' \<Longrightarrow> last_time s' = now"
    "r < n \<Longrightarrow> c < COLS \<Longrightarrow> key_state s' r c =
      pk_key (min D 255) (TIMER_DIFF_32 now (last_time s)) (counters_need_update s) ch (bit (raw ! r) c) (key_state s r c)"
proof -
  let ?el = "TIMER_DIFF_32 now (last_time s)"
  define s1 where "s1 = s\<lparr>matrix_need_update := False, cooked_changed := False\<rparr>"
  define u where "u = (if counters_need_update s
    then if 0 < ?el then sym_defer_pk_update n raw (elapsed8 ?el) (s1\<lparr>last_time := now\<rparr>) else s1\<lparr>last_time := now\<rparr> else s1)"
  define v where "v = (if \<not> counters_need_update s then u\<lparr>last_time := now\<rparr> else u)"
  have s1: "wf_counters n s1" "key_state s1 = key_state s" "counters_seen n s1" "\<not> matrix_need_update s1" "last_time s1 = last_time s"
    "counters_need_update s1 = counters_need_update s"
    using assms(1,4) by (simp_all add: s1_def wf_counters_def key_state_def fun_eq_iff counters_seen_def)
  have lt: "wf_counters n (x\<lparr>last_time := now\<rparr>) = wf_counters n x" "key_state (x\<lparr>last_time := now\<rparr>) = key_state x"
    "counters_seen n (x\<lparr>last_time := now\<rparr>) = counters_seen n x" for x :: "u8 counter_st"
    by (simp_all add: wf_counters_def key_state_def fun_eq_iff counters_seen_def)
  note up = update_call [of n "s1\<lparr>last_time := now\<rparr>", unfolded lt, OF s1(1) refl, where raw = raw and e = "elapsed8 ?el"]
  have u: "wf_counters n u" "counters_seen n u" "\<not> matrix_need_update u" "counters_need_update s \<Longrightarrow> last_time u = now"
    "\<not> counters_need_update s \<Longrightarrow> u = s1"
    "\<And>r c. r < n \<Longrightarrow> c < COLS \<Longrightarrow> key_state u r c =
      (if counters_need_update s \<and> 0 < ?el then defer_expire (elapsed8 ?el) (bit (raw ! r) c) (key_state s r c) else key_state s r c)"
    using up s1 by (auto simp: u_def lt)
  have v: "wf_counters n v" "counters_seen n v" "last_time v = now" "key_state v = key_state u"
    using u by (auto simp: v_def lt)
  note st = start_call [OF v(1) refl v(2), where D = "min D 255" and raw = raw, unfolded v(4)]
  have "s' = (if ch \<or> matrix_need_update u then sym_defer_pk_transfer (min D 255) n raw v else u)"
    using assms(2,3,5) by (simp add: sym_defer_pk_def run_counters_def Let_def u_def v_def s1_def)
  then have s': "s' = (if ch then sym_defer_pk_transfer (min D 255) n raw v else u)" using u(3) by simp
  show "wf_counters n s'" "counters_seen n s'" using u(1,2) st(1,4) by (simp_all add: s')
  show "counters_need_update s' \<Longrightarrow> last_time s' = now"
    using st(3) v(3) u(4,5) s1(6) by (cases "ch"; cases "counters_need_update s") (simp_all add: s')
  show "r < n \<Longrightarrow> c < COLS \<Longrightarrow> key_state s' r c =
      pk_key (min D 255) ?el (counters_need_update s) ch (bit (raw ! r) c) (key_state s r c)"
    using st(2) u(6) by (simp add: s' pk_key_def)
qed


subsection \<open>Timing of the per-key algorithm\<close>

fun pk_run :: "nat \<Rightarrow> nat \<Rightarrow> history \<Rightarrow> u8 counter_st" where
  "pk_run D n [] = demo_counters 0 n"
| "pk_run D n ((t, raw) # h) = sym_defer_pk D (of_nat t) raw (raw \<noteq> prev_raw n h) (pk_run D n h)"

text \<open>The raw key had the value \<open>v\<close> in the scans 0 to \<open>k\<close>.\<close>

definition stable :: "history \<Rightarrow> nat \<Rightarrow> nat \<Rightarrow> bool \<Rightarrow> nat \<Rightarrow> bool" where
  "stable h r c v k \<longleftrightarrow> k < length h \<and> (\<forall>i\<le>k. bit (snd (h ! i) ! r) c = v)"

lemma stable_Cons:
  "stable ((t, raw) # h) r c v (Suc k) \<longleftrightarrow> bit (raw ! r) c = v \<and> stable h r c v k"
  "stable ((t, raw) # h) r c v 0 \<longleftrightarrow> bit (raw ! r) c = v"
proof -
  have "(\<forall>i\<le>Suc k. P i) \<longleftrightarrow> P 0 \<and> (\<forall>i\<le>k. P (Suc i))" for P :: "nat \<Rightarrow> bool"
    by (metis Suc_le_mono not0_implies_Suc zero_le)
  then show "stable ((t, raw) # h) r c v (Suc k) \<longleftrightarrow> bit (raw ! r) c = v \<and> stable h r c v k"
    unfolding stable_def by auto
qed (simp add: stable_def)

text \<open>
  A running counter counts down from \<open>D\<close> by the time the raw key has differed from the cooked one; a
  key without a running counter agrees.
\<close>

definition key_inv :: "nat \<Rightarrow> nat \<Rightarrow> history \<Rightarrow> nat \<Rightarrow> nat \<Rightarrow> u8 \<times> bool \<Rightarrow> bool" where
  "key_inv D n h r c k \<longleftrightarrow>
    (if fst k = 0 then bit (prev_raw n h ! r) c = snd k
     else (\<exists>j. stable h r c (\<not> snd k) j \<and> D \<le> unat (fst k) + age h j) \<and>
       (\<forall>j. stable h r c (\<not> snd k) j \<longrightarrow> unat (fst k) + age h j \<le> D))"


lemma unat_elapsed8: "unat (elapsed8 e) = min 255 (unat e)"
proof (cases "255 < e")
  case True
  then have "255 < unat e" by (simp add: word_less_nat_alt)
  then show ?thesis using True by (simp add: elapsed8_def)
next
  case False
  then have "unat e \<le> 255" by (simp add: word_less_nat_alt)
  then show ?thesis using False by (simp add: elapsed8_def unsigned_ucast_eq take_bit_nat_eq_self)
qed

lemma elapsed8_counter:
  "cnt \<le> elapsed8 e \<longleftrightarrow> unat cnt \<le> unat e" "\<not> unat cnt \<le> unat e \<Longrightarrow> unat (cnt - elapsed8 e) = unat cnt - unat e"
proof -
  have "unat cnt < 2 ^ LENGTH(8)" by (rule unsigned_less)
  then have c: "unat cnt \<le> 255" by simp
  then show le: "cnt \<le> elapsed8 e \<longleftrightarrow> unat cnt \<le> unat e" by (simp add: word_le_nat_alt unat_elapsed8)
  assume "\<not> unat cnt \<le> unat e"
  then have "elapsed8 e \<le> cnt" "unat e \<le> 255" using le c by auto
  then show "unat (cnt - elapsed8 e) = unat cnt - unat e" by (simp add: unat_sub unat_elapsed8)
qed

lemma fresh_key_step:
  assumes "key_inv D n h r c (0, b)" "0 < D" "D \<le> 255" "k = pk_key D e need (raw \<noteq> prev_raw n h) (bit (raw ! r) c) (0, b)"
  shows "key_inv D n ((t, raw) # h) r c k \<and> snd k = b"
proof -
  have prev: "bit (prev_raw n h ! r) c = b" using assms(1) by (simp add: key_inv_def)
  have D: "unat (of_nat D :: u8) = D" using assms(3) by (simp add: unat_of_nat take_bit_nat_eq_self)
  then have D0: "(of_nat D :: u8) \<noteq> 0" using assms(2) by (metis unat_0 less_numeral_extra(3))
  show ?thesis
  proof (cases "bit (raw ! r) c = b")
    case True
    then have "k = (0, b)" by (simp add: assms(4) pk_key_def Let_def)
    then show ?thesis using True by (simp add: key_inv_def)
  next
    case False
    then have k: "k = (of_nat D, b)" using prev by (auto simp: assms(4) pk_key_def Let_def)
    have "\<not> stable h r c (\<not> b) j" for j using prev by (cases h) (auto simp: stable_def)
    then have "stable ((t, raw) # h) r c (\<not> b) j \<longleftrightarrow> j = 0" for j using False by (cases j) (simp_all add: stable_Cons)
    then show ?thesis using D D0 by (auto simp: k key_inv_def)
  qed
qed

lemma running_key_step:
  assumes "scans n ((t, raw) # h)" "key_inv D n h r c (cnt, b)" "cnt \<noteq> 0" "h \<noteq> []" "unat e = t - fst (h ! 0)"
    "k = pk_key D e True (raw \<noteq> prev_raw n h) (bit (raw ! r) c) (cnt, b)"
  shows "key_inv D n ((t, raw) # h) r c k \<and>
    (snd k \<noteq> b \<longrightarrow> (\<exists>j. stable ((t, raw) # h) r c (snd k) j \<and> D \<le> age ((t, raw) # h) j))"
proof -
  let ?h = "(t, raw) # h" and ?v = "bit (raw ! r) c"
  obtain j where j: "stable h r c (\<not> b) j" "D \<le> unat cnt + age h j"
    and ub: "\<And>i. stable h r c (\<not> b) i \<Longrightarrow> unat cnt + age h i \<le> D"
    using assms(2,3) by (auto simp: key_inv_def)
  have prev: "bit (prev_raw n h ! r) c = (\<not> b)" using j(1) assms(4) by (cases h) (auto simp: stable_def)
  have age: "age ?h (Suc i) = unat e + age h i" if "stable h r c x i" for i x
    using age_Suc [OF assms(1), of i] that assms(5) by (simp add: stable_def)
  show ?thesis
  proof (cases "unat cnt \<le> unat e")
    case True
    then have e: "0 < e" using assms(3) by (metis le_zero_eq unat_eq_zero unat_0 word_gt_0)
    then have k: "k = (0, ?v)" using True assms(3) by (simp add: assms(6) pk_key_def elapsed8_counter Let_def)
    have "?v \<noteq> b \<Longrightarrow> stable ?h r c ?v (Suc j) \<and> D \<le> age ?h (Suc j)"
      using j True age [OF j(1)] by (auto simp: stable_Cons)
    then show ?thesis unfolding k by (auto simp: key_inv_def)
  next
    case False
    let ?c = "if 0 < e then cnt - elapsed8 e else cnt"
    have c: "unat ?c = unat cnt - unat e" "?c \<noteq> 0"
      using False elapsed8_counter(2) [OF False] by (auto simp: unat_gt_0 word_gt_0)
    have k: "k = (if raw \<noteq> prev_raw n h \<and> ?v = b then (0, b) else (?c, b))"
      using False assms(3) c(2) by (auto simp: assms(6) pk_key_def elapsed8_counter Let_def)
    show ?thesis
    proof (cases "?v = b")
      case True
      then have "k = (0, b)" using prev k by auto
      then show ?thesis using True by (simp add: key_inv_def)
    next
      case v: False
      then have kk: "k = (?c, b)" using k by simp
      have "stable ?h r c (\<not> b) (Suc j) \<and> D \<le> unat ?c + age ?h (Suc j)"
        using v j age [OF j(1)] c(1) False by (simp add: stable_Cons)
      moreover have "unat ?c + age ?h i \<le> D" if "stable ?h r c (\<not> b) i" for i
      proof (cases i)
        case 0
        then show ?thesis using ub [OF j(1)] c(1) by simp
      next
        case (Suc i')
        then have i': "stable h r c (\<not> b) i'" using that by (simp add: stable_Cons)
        then show ?thesis using ub [OF i'] age [OF i'] c(1) False Suc by simp
      qed
      ultimately show ?thesis using c(2) unfolding kk key_inv_def by auto
    qed
  qed
qed


text \<open>The invariant of the whole state, and the effect of one more scan on every key.\<close>

definition pk_inv :: "nat \<Rightarrow> nat \<Rightarrow> history \<Rightarrow> u8 counter_st \<Rightarrow> bool" where
  "pk_inv D n h s \<longleftrightarrow> wf_counters n s \<and> counters_seen n s \<and>
    (counters_need_update s \<longrightarrow> h \<noteq> [] \<and> last_time s = of_nat (fst (h ! 0))) \<and>
    (\<forall>r<n. \<forall>c<COLS. key_inv (min D 255) n h r c (key_state s r c))"

lemma pk_scan:
  assumes "pk_inv D n h s" "0 < D" "scans n ((t, raw) # h)" "s' = sym_defer_pk D (of_nat t) raw (raw \<noteq> prev_raw n h) s"
  shows "pk_inv D n ((t, raw) # h) s' \<and> (\<forall>r<n. \<forall>c<COLS. snd (key_state s' r c) \<noteq> snd (key_state s r c) \<longrightarrow>
    (\<exists>j. stable ((t, raw) # h) r c (snd (key_state s' r c)) j \<and> min D 255 \<le> age ((t, raw) # h) j))"
proof -
  let ?h = "(t, raw) # h"
  have s: "wf_counters n s" "counters_seen n s" using assms(1) by (simp_all add: pk_inv_def)
  have raw: "length raw = n" using assms(3) by (simp add: scans_Cons)
  note call = pk_call [OF s(1) raw assms(2) s(2) assms(4)]
  have key: "key_inv (min D 255) n ?h r c (key_state s' r c) \<and>
      (snd (key_state s' r c) \<noteq> snd (key_state s r c) \<longrightarrow> (\<exists>j. stable ?h r c (snd (key_state s' r c)) j \<and> min D 255 \<le> age ?h j))"
    if rc: "r < n" "c < COLS" for r c
  proof -
    obtain cnt b where k: "key_state s r c = (cnt, b)" by fastforce
    have inv: "key_inv (min D 255) n h r c (cnt, b)" using assms(1) rc unfolding pk_inv_def k [symmetric] by blast
    note k' = call(4) [OF rc, unfolded k]
    show ?thesis
    proof (cases "cnt = 0")
      case True
      then show ?thesis using fresh_key_step [OF inv [unfolded True] _ _ k' [unfolded True]] assms(2) k by simp
    next
      case False
      then have need: "counters_need_update s = True" using s(2) rc k unfolding counters_seen_def by force
      then have h: "h \<noteq> []" "last_time s = of_nat (fst (h ! 0))" using assms(1) by (simp_all add: pk_inv_def)
      have "unat (TIMER_DIFF_32 (of_nat t) (last_time s)) = t - fst (h ! 0)"
        using assms(3) h by (auto simp: scans_Cons intro!: timer_diff_of_nat)
      then show ?thesis using running_key_step [OF assms(3) inv False h(1) _ k' [unfolded need]] k by simp
    qed
  qed
  then have "pk_inv D n ?h s'" using call(1-3) by (simp add: pk_inv_def)
  then show ?thesis using key by blast
qed

lemma pk_run_inv: "0 < D \<Longrightarrow> scans n h \<Longrightarrow> pk_inv D n h (pk_run D n h)"
proof (induction h)
  case Nil
  have "key_state (demo_counters 0 n) r c = (0 :: u8, False)" if "r < n" "c < 16" for r c
    using that key_index_less [OF that] by (simp add: key_state_def demo_counters_def)
  then show ?case
    by (auto simp: pk_inv_def demo_counters_wf counters_seen_def key_inv_def) (simp add: demo_counters_def)
next
  case (Cons x h)
  obtain t raw where x: "x = (t, raw)" by (cases x)
  have "scans n h" using Cons.prems(2) by (simp add: x scans_Cons)
  then show ?case using pk_scan [OF Cons.IH _ Cons.prems(2) [unfolded x] refl] Cons.prems(1) by (simp add: x)
qed

text \<open>The per-key algorithm: a key of the cooked matrix changes only when every scan of the last
  \<open>D\<close> milliseconds saw the raw key in its new state, whatever the other keys did, and once that is
  the case the cooked key has that state.\<close>
lemma sym_defer_pk_timing:
  assumes "0 < D" "scans n ((t, raw) # h)" "r < n" "c < 16"
  shows "(bit (cooked (pk_run D n ((t, raw) # h)) ! r) c \<noteq> bit (cooked (pk_run D n h) ! r) c \<longrightarrow>
      (\<exists>j. stable ((t, raw) # h) r c (bit (cooked (pk_run D n ((t, raw) # h)) ! r) c) j \<and> min D 255 \<le> age ((t, raw) # h) j)) \<and>
    (\<forall>j v. stable ((t, raw) # h) r c v j \<and> min D 255 \<le> age ((t, raw) # h) j \<longrightarrow> bit (cooked (pk_run D n ((t, raw) # h)) ! r) c = v)"
proof -
  let ?h = "(t, raw) # h"
  have h: "scans n h" and rc: "r < n" "c < COLS" using assms(2-4) by (simp_all add: scans_Cons)
  have s': "pk_run D n ?h = sym_defer_pk D (of_nat t) raw (raw \<noteq> prev_raw n h) (pk_run D n h)" by simp
  note scan = pk_scan [OF pk_run_inv [OF assms(1) h] assms(1,2) s']
  obtain cnt b where k: "key_state (pk_run D n ?h) r c = (cnt, b)" by fastforce
  have inv: "key_inv (min D 255) n ?h r c (cnt, b)" using scan rc by (simp only: pk_inv_def flip: k)
  have "b = v" if j: "stable ?h r c v j" "min D 255 \<le> age ?h j" for j v
  proof (rule ccontr)
    assume "b \<noteq> v"
    then have v: "stable ?h r c (\<not> b) j" using j(1) by (cases b; cases v) auto
    have "bit (raw ! r) c = v" using j(1) by (auto simp: stable_def)
    then have "cnt \<noteq> 0" using inv \<open>b \<noteq> v\<close> by (auto simp: key_inv_def)
    then have "unat cnt + age ?h j \<le> min D 255" using inv v by (simp add: key_inv_def)
    then have "unat cnt = 0" using j(2) by linarith
    then show False using \<open>cnt \<noteq> 0\<close> by (simp add: unat_eq_zero)
  qed
  then show ?thesis using scan rc k unfolding cooked_bits by (auto simp del: pk_run.simps)
qed

end
