(* ===== verification/Qmk_Matrix.thy ===== *)
theory Qmk_Matrix
  imports Qmk_Waiting Qmk_Debounce_Time
begin

text \<open>
  The scan of the switches (\<^verbatim>\<open>keyboards/keychron/k3_pro/matrix.c\<close>) and the common part of the matrix
  (\<^verbatim>\<open>quantum/matrix_common.c\<close>).  Column 0 is a pin, the others are outputs of two cascaded 74HC595 registers that get
  their 16 bits over SPI; a column is selected by driving it low.  The level of a row pin is a parameter, the
  circuit; a circuit with diodes pulls a row low exactly when a selected column has a closed switch in it.
\<close>

subsection \<open>Columns and rows\<close>

record scan_hw =
  col0_low :: bool
  shift_outputs :: u16

type_synonym circuit = "scan_hw \<Rightarrow> nat \<Rightarrow> bool"

definition HC595_output :: "u16 \<Rightarrow> scan_hw \<Rightarrow> scan_hw" where
  "HC595_output data h = h\<lparr>shift_outputs := data\<rparr>"

definition setPinOutput_writeLow :: "scan_hw \<Rightarrow> scan_hw" where "setPinOutput_writeLow h = h\<lparr>col0_low := True\<rparr>"
definition setPinInputHigh_atomic :: "scan_hw \<Rightarrow> scan_hw" where "setPinInputHigh_atomic h = h\<lparr>col0_low := False\<rparr>"

definition select_col :: "nat \<Rightarrow> scan_hw \<Rightarrow> scan_hw" where
  "select_col c h = (if c < 1 then setPinOutput_writeLow h else HC595_output (NOT (push_bit (c - 1) 1)) h)"

definition unselect_col :: "nat \<Rightarrow> scan_hw \<Rightarrow> scan_hw" where
  "unselect_col c h =
    (if c < 1 then setPinInputHigh_atomic h else if MATRIX_COLS - 1 \<le> c then HC595_output 0xFFFF h else h)"

definition unselect_cols :: "scan_hw \<Rightarrow> scan_hw" where "unselect_cols h = HC595_output 0xFFFF (setPinInputHigh_atomic h)"
definition select_all_cols :: "scan_hw \<Rightarrow> scan_hw" where "select_all_cols h = HC595_output 0 (setPinOutput_writeLow h)"

definition read_row :: "circuit \<Rightarrow> scan_hw \<Rightarrow> nat \<Rightarrow> nat \<Rightarrow> matrix \<Rightarrow> matrix" where
  "read_row circuit h c r m =
    (if \<not> circuit h r then m[r := m ! r OR push_bit c 1] else m[r := m ! r AND NOT (push_bit c 1)])"

definition matrix_read_rows_on_col :: "circuit \<Rightarrow> nat \<Rightarrow> matrix \<times> scan_hw \<Rightarrow> matrix \<times> scan_hw" where
  "matrix_read_rows_on_col circuit c mh =
    (case mh of (m, h) \<Rightarrow>
       let h = select_col c h;
           m = fold (read_row circuit h c) [0..<MATRIX_ROWS] m in
       (m, unselect_col c h))"

definition matrix_scan_custom :: "circuit \<Rightarrow> matrix \<Rightarrow> scan_hw \<Rightarrow> bool \<times> matrix \<times> scan_hw" where
  "matrix_scan_custom circuit current h =
    (let (m, h) = fold (matrix_read_rows_on_col circuit) [0..<MATRIX_COLS] (replicate MATRIX_ROWS 0, h);
         changed = (current \<noteq> m) in
     (changed, if changed then m else current, h))"

subsection \<open>The matrix\<close>

record scanner_st =
  raw_matrix :: matrix
  cooked_matrix :: matrix
  debouncer :: sym_defer_g_st
  hw :: scan_hw

definition matrix_init :: "scanner_st \<Rightarrow> scanner_st" where
  "matrix_init s = s\<lparr>hw := unselect_cols (hw s), raw_matrix := replicate MATRIX_ROWS 0, cooked_matrix := replicate MATRIX_ROWS 0\<rparr>"

definition matrix_scan :: "nat \<Rightarrow> u32 \<Rightarrow> circuit \<Rightarrow> scanner_st \<Rightarrow> bool \<times> scanner_st" where
  "matrix_scan D now circuit s =
    (let (changed, raw, h) = matrix_scan_custom circuit (raw_matrix s) (hw s);
         (changed, cooked, d) = sym_defer_g D now raw changed (cooked_matrix s) (debouncer s) in
     (changed, s\<lparr>raw_matrix := raw, cooked_matrix := cooked, debouncer := d, hw := h\<rparr>))"

definition matrix_is_on :: "nat \<Rightarrow> nat \<Rightarrow> scanner_st \<Rightarrow> bool" where
  "matrix_is_on r c s \<longleftrightarrow> cooked_matrix s ! r AND push_bit c 1 \<noteq> 0"
definition matrix_get_row :: "nat \<Rightarrow> scanner_st \<Rightarrow> u16" where "matrix_get_row r s = cooked_matrix s ! r"
definition peek_matrix :: "nat \<Rightarrow> nat \<Rightarrow> bool \<Rightarrow> scanner_st \<Rightarrow> bool" where
  "peek_matrix r c raw s \<longleftrightarrow> (if raw then raw_matrix s ! r else cooked_matrix s ! r) AND push_bit c 1 \<noteq> 0"

subsection \<open>What a scan reads\<close>

text \<open>The columns that are low.\<close>

definition driven :: "scan_hw \<Rightarrow> nat \<Rightarrow> bool" where
  "driven h c \<longleftrightarrow> (if c = 0 then col0_low h else \<not> bit (shift_outputs h) (c - 1))"

type_synonym switches = "nat \<Rightarrow> nat \<Rightarrow> bool"

definition diode_circuit :: "switches \<Rightarrow> circuit \<Rightarrow> bool" where
  "diode_circuit sw circuit \<longleftrightarrow> (\<forall>h r. r < MATRIX_ROWS \<longrightarrow> (circuit h r \<longleftrightarrow> \<not> (\<exists>c < MATRIX_COLS. driven h c \<and> sw r c)))"

definition unselected :: "scan_hw \<Rightarrow> bool" where "unselected h \<longleftrightarrow> \<not> col0_low h \<and> shift_outputs h = 0xFFFF"

definition shows_switches :: "switches \<Rightarrow> matrix \<Rightarrow> bool" where
  "shows_switches sw m \<longleftrightarrow> length m = MATRIX_ROWS \<and> (\<forall>r < MATRIX_ROWS. \<forall>c < MATRIX_COLS. bit (m ! r) c = sw r c)"

lemma read_rows:
  assumes "length m = MATRIX_ROWS" "n \<le> MATRIX_ROWS"
  shows "length (fold (read_row circuit h c) [0..<n] m) = MATRIX_ROWS \<and>
    (\<forall>r < MATRIX_ROWS. fold (read_row circuit h c) [0..<n] m ! r =
      (if r < n then if \<not> circuit h r then m ! r OR push_bit c 1 else m ! r AND NOT (push_bit c 1) else m ! r))"
  using assms(2)
proof (induction n)
  case (Suc n)
  then show ?case using assms(1) by (auto simp: read_row_def nth_list_update less_Suc_eq)
qed (use assms(1) in simp)

text \<open>While a column is read it is the only one that is low; afterwards at most that column is, and not column 0.\<close>

definition ready_for :: "nat \<Rightarrow> scan_hw \<Rightarrow> bool" where
  "ready_for n h \<longleftrightarrow> \<not> col0_low h \<and>
    (shift_outputs h = 0xFFFF \<or> (1 < n \<and> n < MATRIX_COLS \<and> shift_outputs h = NOT (push_bit (n - 2) 1)))"

lemma bit_all_high: "i < 16 \<Longrightarrow> bit (0xFFFF :: u16) i"
proof -
  have "(0xFFFF :: u16) = - 1" by simp
  then show "i < 16 \<Longrightarrow> bit (0xFFFF :: u16) i" by (simp only: bit_minus_1_iff possible_bit_word) simp
qed

lemma driven_high:
  assumes "\<not> col0_low h" "shift_outputs h = 0xFFFF" "d < MATRIX_COLS"
  shows "\<not> driven h d"
  using assms bit_all_high [of "d - 1"] by (auto simp: driven_def)

lemma driven_one:
  assumes "\<not> col0_low h" "shift_outputs h = NOT (push_bit k 1)" "k < 16" "d < MATRIX_COLS"
  shows "driven h d \<longleftrightarrow> d = Suc k"
  using assms by (cases d) (auto simp: driven_def bit_not_iff bit_exp_iff)

lemma select_only:
  assumes "ready_for c h" "c < MATRIX_COLS" "d < MATRIX_COLS"
  shows "driven (select_col c h) d \<longleftrightarrow> d = c"
proof (cases c)
  case 0
  have "shift_outputs h = 0xFFFF" using assms(1) 0 by (simp add: ready_for_def)
  then show ?thesis using assms(3) 0 bit_all_high [of "d - 1"] by (auto simp: select_col_def setPinOutput_writeLow_def driven_def)
next
  case (Suc c')
  then show ?thesis using assms driven_one [of "select_col c h" c' d]
    by (simp add: ready_for_def select_col_def HC595_output_def)
qed

lemma ready_next:
  assumes "ready_for c h" "c < MATRIX_COLS"
  shows "ready_for (Suc c) (unselect_col c (select_col c h))"
proof (cases c)
  case 0
  then show ?thesis using assms
    by (simp add: ready_for_def select_col_def unselect_col_def setPinOutput_writeLow_def setPinInputHigh_atomic_def)
next
  case (Suc c')
  then show ?thesis using assms
    by (auto simp: ready_for_def select_col_def unselect_col_def HC595_output_def)
qed

lemma scan_column:
  assumes "diode_circuit sw circuit" "ready_for c h" "c < MATRIX_COLS" "length m = MATRIX_ROWS"
  shows "\<exists>m' h'. matrix_read_rows_on_col circuit c (m, h) = (m', h') \<and> ready_for (Suc c) h' \<and> length m' = MATRIX_ROWS \<and>
    (\<forall>r < MATRIX_ROWS. \<forall>d < MATRIX_COLS. bit (m' ! r) d = (if d = c then sw r c else bit (m ! r) d))"
proof -
  let ?h = "select_col c h" and ?m = "fold (read_row circuit (select_col c h) c) [0..<MATRIX_ROWS] m"
  have low: "circuit ?h r \<longleftrightarrow> \<not> sw r c" if "r < MATRIX_ROWS" for r
    using assms(1,3) that select_only [OF assms(2,3)] by (auto simp: diode_circuit_def)
  note rr = read_rows [OF assms(4) order_refl, of circuit ?h c]
  have "bit (?m ! r) d = (if d = c then sw r c else bit (m ! r) d)" if "r < MATRIX_ROWS" "d < MATRIX_COLS" for r d
    using rr low that assms(3) by (auto simp: bit_or_iff bit_and_iff bit_not_iff bit_exp_iff)
  then show ?thesis using ready_next [OF assms(2,3)] rr by (simp add: matrix_read_rows_on_col_def Let_def)
qed

lemma scan_columns:
  assumes "diode_circuit sw circuit" "unselected h" "n \<le> MATRIX_COLS"
  shows "\<exists>m' h'. fold (matrix_read_rows_on_col circuit) [0..<n] (replicate MATRIX_ROWS 0, h) = (m', h') \<and> ready_for n h' \<and>
    length m' = MATRIX_ROWS \<and> (\<forall>r < MATRIX_ROWS. \<forall>d < MATRIX_COLS. bit (m' ! r) d \<longleftrightarrow> d < n \<and> sw r d)"
  using assms(3)
proof (induction n)
  case 0
  then show ?case using assms(2) by (simp add: ready_for_def unselected_def)
next
  case (Suc n)
  then obtain m h' where f: "fold (matrix_read_rows_on_col circuit) [0..<n] (replicate MATRIX_ROWS 0, h) = (m, h')" "ready_for n h'"
    "length m = MATRIX_ROWS" "\<forall>r < MATRIX_ROWS. \<forall>d < MATRIX_COLS. bit (m ! r) d \<longleftrightarrow> d < n \<and> sw r d"
    by auto
  have "n < MATRIX_COLS" using Suc.prems by simp
  from scan_column [OF assms(1) f(2) this f(3)] obtain m2 h2 where c: "matrix_read_rows_on_col circuit n (m, h') = (m2, h2)"
    "ready_for (Suc n) h2" "length m2 = MATRIX_ROWS"
    "\<forall>r < MATRIX_ROWS. \<forall>d < MATRIX_COLS. bit (m2 ! r) d = (if d = n then sw r n else bit (m ! r) d)" by blast
  then show ?case using f(1,4) by (auto simp: less_Suc_eq)
qed

lemma matrix_scan_custom_reads:
  assumes "diode_circuit sw circuit" "unselected h"
  obtains m h' where "matrix_scan_custom circuit current h = (current \<noteq> m, m, h')" "shows_switches sw m" "unselected h'"
proof -
  obtain m h' where f: "fold (matrix_read_rows_on_col circuit) [0..<MATRIX_COLS] (replicate MATRIX_ROWS 0, h) = (m, h')"
    "ready_for MATRIX_COLS h'" "length m = MATRIX_ROWS"
    "\<forall>r < MATRIX_ROWS. \<forall>d < MATRIX_COLS. bit (m ! r) d \<longleftrightarrow> d < MATRIX_COLS \<and> sw r d"
    using scan_columns [OF assms order_refl] by blast
  show thesis
  proof (rule that)
    show "matrix_scan_custom circuit current h = (current \<noteq> m, m, h')" using f(1) by (auto simp: matrix_scan_custom_def Let_def)
    show "shows_switches sw m" using f(3,4) by (simp add: shows_switches_def)
    show "unselected h'" using f(2) by (simp add: ready_for_def unselected_def)
  qed
qed

lemma shows_switches_unique: "shows_switches sw m \<Longrightarrow> shows_switches sw m' \<Longrightarrow> m = m'"
  by (auto simp: shows_switches_def intro!: nth_equalityI bit_word_eqI)

subsection \<open>Scan, debounce and key events\<close>

record keyboard_st =
  scanner :: scanner_st
  events :: matrix_st

text \<open>\<^verbatim>\<open>matrix_task\<close> with its call of \<^verbatim>\<open>matrix_scan\<close>.\<close>

definition keyboard_matrix_task ::
  "nat \<Rightarrow> kb_env \<Rightarrow> bool \<Rightarrow> u32 \<Rightarrow> (nat \<Rightarrow> nat \<Rightarrow> u16) \<Rightarrow> circuit \<Rightarrow> keyboard_st \<Rightarrow> bool \<times> keyboard_st" where
  "keyboard_matrix_task D env can_read now clock circuit k =
    (let k = (if can_read then k\<lparr>scanner := snd (matrix_scan D now circuit (scanner k))\<rparr> else k);
         (changed, m) = matrix_task env can_read True (ucast now) clock (cooked_matrix (scanner k)) (events k) in
     (changed, k\<lparr>events := m\<rparr>))"

text \<open>Runs of the task, the newest first: the time, the switches, and the timer at each key.\<close>

type_synonym board_history = "(nat \<times> switches \<times> (nat \<Rightarrow> nat \<Rightarrow> u16)) list"

fun run_board :: "nat \<Rightarrow> kb_env \<Rightarrow> (switches \<Rightarrow> circuit) \<Rightarrow> keyboard_st \<Rightarrow> board_history \<Rightarrow> keyboard_st" where
  "run_board D env wiring k [] = k"
| "run_board D env wiring k ((t, sw, clock) # h) =
    snd (keyboard_matrix_task D env True (of_nat t) clock (wiring sw) (run_board D env wiring k h))"

definition switch_rows :: "switches \<Rightarrow> matrix" where
  "switch_rows sw = map (\<lambda>r. fold (\<lambda>c w. if sw r c then w OR push_bit c 1 else w) [0..<MATRIX_COLS] 0) [0..<MATRIX_ROWS]"

lemma switch_row_bits:
  "n \<le> 16 \<Longrightarrow> c < 16 \<Longrightarrow> bit (fold (\<lambda>c w. if f c then w OR push_bit c 1 else w) [0..<n] (0 :: u16)) c \<longleftrightarrow> c < n \<and> f c"
proof (induction n)
  case (Suc n)
  then show ?case by (auto simp: bit_or_iff bit_exp_iff less_Suc_eq)
qed simp

lemma switch_rows_shows: "shows_switches sw (switch_rows sw)"
  using switch_row_bits [of MATRIX_COLS] by (simp add: shows_switches_def switch_rows_def)

definition raw_history :: "board_history \<Rightarrow> history" where
  "raw_history h = map (\<lambda>(t, sw, clock). (t, switch_rows sw)) h"

definition closed :: "switches \<Rightarrow> keypos_t set" where
  "closed sw = {p. in_matrix p \<and> sw (unat (row p)) (unat (col p))}"

lemma down_switch_rows: "down (switch_rows sw) = closed sw"
  using switch_rows_shows [of sw] by (auto simp: down_def closed_def shows_switches_def in_matrix_def)

text \<open>The keyboard after the start: nothing selected, all switches taken as open.\<close>

definition at_start :: "kb_env \<Rightarrow> keyboard_st \<Rightarrow> bool" where
  "at_start env k \<longleftrightarrow> unselected (hw (scanner k)) \<and> raw_matrix (scanner k) = replicate MATRIX_ROWS 0 \<and>
    cooked_matrix (scanner k) = replicate MATRIX_ROWS 0 \<and> debouncer (scanner k) = \<lparr>debouncing = False, debouncing_time = 0\<rparr> \<and>
    matrix_inv env (events k) \<and> matrix_previous (events k) = replicate MATRIX_ROWS 0"

lemma g_run_length:
  "scans n h \<Longrightarrow> length (fst (g_run D n h)) = n"
proof (induction h)
  case (Cons x h)
  obtain t raw where x: "x = (t, raw)" by (cases x)
  then show ?case using Cons by (auto simp: scans_Cons sym_defer_g_def debounce_none_def Let_def split_beta)
qed simp

lemma run_board_facts:
  fixes D :: nat
  assumes "at_start env k" "ordinary_env env" "\<And>sw. diode_circuit sw (wiring sw)"
  defines "s \<equiv> run_board D env wiring k"
  assumes "scans MATRIX_ROWS (raw_history h)"
  shows "unselected (hw (scanner (s h))) \<and> raw_matrix (scanner (s h)) = prev_raw MATRIX_ROWS (raw_history h) \<and>
    (cooked_matrix (scanner (s h)), debouncer (scanner (s h))) = g_run D MATRIX_ROWS (raw_history h) \<and>
    matrix_inv env (events (s h)) \<and> matrix_previous (events (s h)) = cooked_matrix (scanner (s h))"
  using assms(5)
proof (induction h)
  case Nil
  then show ?case using assms(1) by (simp add: s_def at_start_def raw_history_def)
next
  case (Cons x h)
  obtain t sw clock where x: "x = (t, sw, clock)" by (cases x)
  have h: "scans MATRIX_ROWS (raw_history h)" "scans MATRIX_ROWS ((t, switch_rows sw) # raw_history h)"
    using Cons.prems by (simp_all add: x raw_history_def scans_Cons)
  note i = Cons.IH [OF h(1)]
  obtain m hw' where sc: "matrix_scan_custom (wiring sw) (raw_matrix (scanner (s h))) (hw (scanner (s h))) =
      (raw_matrix (scanner (s h)) \<noteq> m, m, hw')" "shows_switches sw m" "unselected hw'"
    using matrix_scan_custom_reads [OF assms(3)] i by blast
  have m: "m = switch_rows sw" using shows_switches_unique [OF sc(2) switch_rows_shows] .
  obtain c cooked d where g: "sym_defer_g D (of_nat t) m (m \<noteq> prev_raw MATRIX_ROWS (raw_history h)) (cooked_matrix (scanner (s h))) (debouncer (scanner (s h))) =
      (c, cooked, d)" by (cases "sym_defer_g D (of_nat t) m (m \<noteq> prev_raw MATRIX_ROWS (raw_history h)) (cooked_matrix (scanner (s h))) (debouncer (scanner (s h)))") auto
  have ne: "(raw_matrix (scanner (s h)) \<noteq> m) = (m \<noteq> prev_raw MATRIX_ROWS (raw_history h))" using i by auto
  have run: "g_run D MATRIX_ROWS ((t, m) # raw_history h) = (cooked, d)"
  proof -
    have "g_run D MATRIX_ROWS (raw_history h) = (cooked_matrix (scanner (s h)), debouncer (scanner (s h)))" using i by simp
    then show ?thesis using g by simp
  qed
  let ?sc = "(scanner (s h))\<lparr>raw_matrix := m, cooked_matrix := cooked, debouncer := d, hw := hw'\<rparr>"
  have "snd (matrix_scan D (of_nat t) (wiring sw) (scanner (s h))) = ?sc"
    using sc(1) g by (simp add: matrix_scan_def Let_def ne)
  then have st: "scanner (s (x # h)) = ?sc"
    "events (s (x # h)) = snd (matrix_task env True True (ucast (of_nat t :: u32)) clock cooked (events (s h)))"
    by (simp_all add: s_def x keyboard_matrix_task_def Let_def split_beta)
  have "length cooked = 6" using g_run_length [of MATRIX_ROWS "(t, m) # raw_history h" D] h(2) run m by simp
  note t = matrix_task_inv [OF _ assms(2) this, of "events (s h)" True "ucast (of_nat t :: u32)" clock]
  show ?case using st t i sc(3) run m by (simp add: x raw_history_def)
qed

subsection \<open>From the switches to the host\<close>

lemma stable_switches_taken_over:
  assumes "0 < D" "D \<le> 2 ^ 31" "scans MATRIX_ROWS (raw_history h)" "i < length h" "\<forall>j\<le>i. fst (snd (h ! j)) = sw"
    "D \<le> fst (h ! 0) - fst (h ! i)"
  shows "fst (g_run D MATRIX_ROWS (raw_history h)) = switch_rows sw"
proof -
  obtain x h' where h: "h = x # h'" using assms(4) by (cases h) auto
  obtain t sw' clock where x: "x = (t, sw', clock)" by (cases x)
  have nth: "raw_history h ! j = (fst (h ! j), switch_rows (fst (snd (h ! j))))" if "j < length h" for j
    using that by (simp add: raw_history_def split_beta)
  have sw: "sw' = sw" using assms(5) h x by auto
  have r: "raw_history h = (t, switch_rows sw) # raw_history h'" by (simp add: h x sw raw_history_def)
  have "\<forall>j\<le>i. snd (raw_history h ! j) = switch_rows sw" using assms(4,5) nth by auto
  moreover have "D \<le> age (raw_history h) i" using assms(4,6) nth by (simp add: age_def h)
  moreover have "i \<le> length (raw_history h')" using assms(4) by (simp add: h raw_history_def)
  ultimately show ?thesis using g_timing [OF assms(1,2), of MATRIX_ROWS t "switch_rows sw" "raw_history h'"] assms(3) r by auto
qed


text \<open>A board at rest: one switch is closed for a while, then all are open for six milliseconds.\<close>

definition diodes :: "switches \<Rightarrow> circuit" where
  "diodes sw h r \<longleftrightarrow> \<not> (\<exists>c \<in> set [0..<MATRIX_COLS]. driven h c \<and> sw r c)"

definition board_rest :: keyboard_st where
  "board_rest = \<lparr>scanner = \<lparr>raw_matrix = replicate MATRIX_ROWS 0, cooked_matrix = replicate MATRIX_ROWS 0,
      debouncer = \<lparr>debouncing = False, debouncing_time = 0\<rparr>, hw = \<lparr>col0_low = False, shift_outputs = 0xFFFF\<rparr>\<rparr>,
    events = matrix_rest\<rparr>"

definition one_closed :: switches where "one_closed r c \<longleftrightarrow> r = 2 \<and> c = 3"
definition all_open :: switches where "all_open r c \<longleftrightarrow> False"


end
