(* ===== verification/Qmk_Mousekey.thy ===== *)
theory Qmk_Mousekey
  imports Qmk_Action_Codes
begin

text \<open>
  Mouse keys (\<^verbatim>\<open>quantum/mousekey.c\<close>) in the default accelerated mode, and \<^verbatim>\<open>register_mouse\<close> of
  \<^verbatim>\<open>quantum/action.c\<close>, for which the actions record a notice.  The coordinates of the report are signed bytes, read by
  \<open>sint\<close>.  The settings are variables that the command console can change; they are an argument.
\<close>

subsection \<open>Key codes and settings\<close>

definition KC_MS_DOWN :: u8 where "KC_MS_DOWN = 0xCE"
definition KC_MS_LEFT :: u8 where "KC_MS_LEFT = 0xCF"
definition KC_MS_RIGHT :: u8 where "KC_MS_RIGHT = 0xD0"
definition KC_MS_BTN1 :: u8 where "KC_MS_BTN1 = 0xD1"
definition KC_MS_BTN8 :: u8 where "KC_MS_BTN8 = 0xD8"
definition KC_MS_WH_UP :: u8 where "KC_MS_WH_UP = 0xD9"
definition KC_MS_WH_DOWN :: u8 where "KC_MS_WH_DOWN = 0xDA"
definition KC_MS_WH_LEFT :: u8 where "KC_MS_WH_LEFT = 0xDB"
definition KC_MS_WH_RIGHT :: u8 where "KC_MS_WH_RIGHT = 0xDC"
definition KC_MS_ACCEL0 :: u8 where "KC_MS_ACCEL0 = 0xDD"
definition KC_MS_ACCEL1 :: u8 where "KC_MS_ACCEL1 = 0xDE"

lemmas mouse_codes = KC_MS_UP_def KC_MS_DOWN_def KC_MS_LEFT_def KC_MS_RIGHT_def KC_MS_BTN1_def KC_MS_BTN8_def KC_MS_WH_UP_def
  KC_MS_WH_DOWN_def KC_MS_WH_LEFT_def KC_MS_WH_RIGHT_def KC_MS_ACCEL0_def KC_MS_ACCEL1_def KC_MS_ACCEL2_def

definition IS_MOUSEKEY_BUTTON :: "u8 \<Rightarrow> bool" where "IS_MOUSEKEY_BUTTON code \<longleftrightarrow> KC_MS_BTN1 \<le> code \<and> code \<le> KC_MS_BTN8"

definition MOUSEKEY_MOVE_MAX :: nat where "MOUSEKEY_MOVE_MAX = 127"
definition MOUSEKEY_WHEEL_MAX :: nat where "MOUSEKEY_WHEEL_MAX = 127"
definition MOUSEKEY_MOVE_DELTA :: nat where "MOUSEKEY_MOVE_DELTA = 8"
definition MOUSEKEY_WHEEL_DELTA :: nat where "MOUSEKEY_WHEEL_DELTA = 1"

record mk_settings =
  mk_delay :: u8
  mk_interval :: u8
  mk_max_speed :: u8
  mk_time_to_max :: u8
  mk_wheel_delay :: u8
  mk_wheel_interval :: u8
  mk_wheel_max_speed :: u8
  mk_wheel_time_to_max :: u8

definition mk_defaults :: mk_settings where
  "mk_defaults = \<lparr>mk_delay = 1, mk_interval = 20, mk_max_speed = 10, mk_time_to_max = 30, mk_wheel_delay = 1, mk_wheel_interval = 80,
    mk_wheel_max_speed = 8, mk_wheel_time_to_max = 40\<rparr>"

record mouse_st =
  mouse_report :: report_mouse_t
  mousekey_accel :: u8
  mousekey_repeat :: u8
  mousekey_wheel_repeat :: u8
  last_timer_c :: u16
  last_timer_w :: u16
  mouse_host :: host

subsection \<open>Speed\<close>

text \<open>A unit is computed in \<^verbatim>\<open>int\<close> and stored in 16 bits, capped, and at least 1.\<close>

definition capped_unit :: "nat \<Rightarrow> nat \<Rightarrow> nat" where
  "capped_unit limit v = (let unit = v mod 2 ^ 16 in if limit < unit then limit else if unit = 0 then 1 else unit)"

definition accel_unit :: "nat \<Rightarrow> u8 \<Rightarrow> u8 \<Rightarrow> u8 \<Rightarrow> u8 \<Rightarrow> nat" where
  "accel_unit delta max_speed time_to_max accel rep =
    (if bit accel 0 then delta * unat max_speed div 4
     else if bit accel 1 then delta * unat max_speed div 2
     else if bit accel 2 then delta * unat max_speed
     else if rep = 0 then delta
     else if time_to_max \<le> rep then delta * unat max_speed
     else delta * unat max_speed * unat rep div unat time_to_max)"

definition move_unit :: "mk_settings \<Rightarrow> mouse_st \<Rightarrow> u8" where
  "move_unit mk s = of_nat (capped_unit MOUSEKEY_MOVE_MAX
    (accel_unit MOUSEKEY_MOVE_DELTA (mk_max_speed mk) (mk_time_to_max mk) (mousekey_accel s) (mousekey_repeat s)))"

definition wheel_unit :: "mk_settings \<Rightarrow> mouse_st \<Rightarrow> u8" where
  "wheel_unit mk s = of_nat (capped_unit MOUSEKEY_WHEEL_MAX
    (accel_unit MOUSEKEY_WHEEL_DELTA (mk_wheel_max_speed mk) (mk_wheel_time_to_max mk) (mousekey_accel s) (mousekey_wheel_repeat s)))"

definition times_inv_sqrt2 :: "u8 \<Rightarrow> u8" where
  "times_inv_sqrt2 x = word_of_int (drop_bit 8 (sint x * 181))"

definition diagonal :: "u8 \<times> u8 \<Rightarrow> u8 \<times> u8" where
  "diagonal xy = (case xy of (x, y) \<Rightarrow>
    if x \<noteq> 0 \<and> y \<noteq> 0 then
      (let x = times_inv_sqrt2 x; x = (if x = 0 then 1 else x); y = times_inv_sqrt2 y; y = (if y = 0 then 1 else y) in (x, y))
    else (x, y))"

subsection \<open>Sending\<close>

definition should_mousekey_report_send :: "report_mouse_t \<Rightarrow> bool" where
  "should_mousekey_report_send r \<longleftrightarrow> mouse_x r \<noteq> 0 \<or> mouse_y r \<noteq> 0 \<or> mouse_v r \<noteq> 0 \<or> mouse_h r \<noteq> 0"

definition has_mouse_report_changed :: "report_mouse_t \<Rightarrow> report_mouse_t \<Rightarrow> bool" where
  "has_mouse_report_changed new old \<longleftrightarrow> new \<noteq> old"

definition mousekey_send :: "u16 \<Rightarrow> mouse_st \<Rightarrow> mouse_st" where
  "mousekey_send now s =
    (let r = mouse_report s;
         s = (if mouse_x r \<noteq> 0 \<or> mouse_y r \<noteq> 0 then s\<lparr>last_timer_c := now\<rparr> else s);
         s = (if mouse_v r \<noteq> 0 \<or> mouse_h r \<noteq> 0 then s\<lparr>last_timer_w := now\<rparr> else s);
         (r, h) = host_mouse_send r (mouse_host s) in
     s\<lparr>mouse_report := r, mouse_host := h\<rparr>)"

definition mousekey_clear :: "mouse_st \<Rightarrow> mouse_st" where
  "mousekey_clear s = s\<lparr>mouse_report := \<lparr>mouse_report_id = 0, buttons = 0, mouse_x = 0, mouse_y = 0, mouse_v = 0, mouse_h = 0\<rparr>,
    mousekey_repeat := 0, mousekey_wheel_repeat := 0, mousekey_accel := 0\<rparr>"

definition mousekey_get_report :: "mouse_st \<Rightarrow> report_mouse_t" where "mousekey_get_report s = mouse_report s"

subsection \<open>Keys\<close>

definition set_x :: "u8 \<Rightarrow> mouse_st \<Rightarrow> mouse_st" where "set_x v s = s\<lparr>mouse_report := (mouse_report s)\<lparr>mouse_x := v\<rparr>\<rparr>"
definition set_y :: "u8 \<Rightarrow> mouse_st \<Rightarrow> mouse_st" where "set_y v s = s\<lparr>mouse_report := (mouse_report s)\<lparr>mouse_y := v\<rparr>\<rparr>"
definition set_v :: "u8 \<Rightarrow> mouse_st \<Rightarrow> mouse_st" where "set_v v s = s\<lparr>mouse_report := (mouse_report s)\<lparr>mouse_v := v\<rparr>\<rparr>"
definition set_h :: "u8 \<Rightarrow> mouse_st \<Rightarrow> mouse_st" where "set_h v s = s\<lparr>mouse_report := (mouse_report s)\<lparr>mouse_h := v\<rparr>\<rparr>"
definition set_buttons :: "u8 \<Rightarrow> mouse_st \<Rightarrow> mouse_st" where "set_buttons v s = s\<lparr>mouse_report := (mouse_report s)\<lparr>buttons := v\<rparr>\<rparr>"

definition mousekey_on :: "mk_settings \<Rightarrow> u8 \<Rightarrow> mouse_st \<Rightarrow> mouse_st" where
  "mousekey_on mk code s =
    (if code = KC_MS_UP then set_y (- move_unit mk s) s
     else if code = KC_MS_DOWN then set_y (move_unit mk s) s
     else if code = KC_MS_LEFT then set_x (- move_unit mk s) s
     else if code = KC_MS_RIGHT then set_x (move_unit mk s) s
     else if code = KC_MS_WH_UP then set_v (wheel_unit mk s) s
     else if code = KC_MS_WH_DOWN then set_v (- wheel_unit mk s) s
     else if code = KC_MS_WH_LEFT then set_h (- wheel_unit mk s) s
     else if code = KC_MS_WH_RIGHT then set_h (wheel_unit mk s) s
     else if IS_MOUSEKEY_BUTTON code then set_buttons (set_bit (unat (code - KC_MS_BTN1)) (buttons (mouse_report s))) s
     else if code = KC_MS_ACCEL0 then s\<lparr>mousekey_accel := set_bit 0 (mousekey_accel s)\<rparr>
     else if code = KC_MS_ACCEL1 then s\<lparr>mousekey_accel := set_bit 1 (mousekey_accel s)\<rparr>
     else if code = KC_MS_ACCEL2 then s\<lparr>mousekey_accel := set_bit 2 (mousekey_accel s)\<rparr>
     else s)"

definition release_mouse_key :: "u8 \<Rightarrow> mouse_st \<Rightarrow> mouse_st" where
  "release_mouse_key code s =
    (let r = mouse_report s in
     if code = KC_MS_UP \<and> mouse_y r <s 0 then set_y 0 s
     else if code = KC_MS_DOWN \<and> 0 <s mouse_y r then set_y 0 s
     else if code = KC_MS_LEFT \<and> mouse_x r <s 0 then set_x 0 s
     else if code = KC_MS_RIGHT \<and> 0 <s mouse_x r then set_x 0 s
     else if code = KC_MS_WH_UP \<and> 0 <s mouse_v r then set_v 0 s
     else if code = KC_MS_WH_DOWN \<and> mouse_v r <s 0 then set_v 0 s
     else if code = KC_MS_WH_LEFT \<and> mouse_h r <s 0 then set_h 0 s
     else if code = KC_MS_WH_RIGHT \<and> 0 <s mouse_h r then set_h 0 s
     else if IS_MOUSEKEY_BUTTON code then set_buttons (unset_bit (unat (code - KC_MS_BTN1)) (buttons r)) s
     else if code = KC_MS_ACCEL0 then s\<lparr>mousekey_accel := unset_bit 0 (mousekey_accel s)\<rparr>
     else if code = KC_MS_ACCEL1 then s\<lparr>mousekey_accel := unset_bit 1 (mousekey_accel s)\<rparr>
     else if code = KC_MS_ACCEL2 then s\<lparr>mousekey_accel := unset_bit 2 (mousekey_accel s)\<rparr>
     else s)"

definition stop_repeats :: "mouse_st \<Rightarrow> mouse_st" where
  "stop_repeats s =
    (let r = mouse_report s;
         s = (if mouse_x r = 0 \<and> mouse_y r = 0 then s\<lparr>mousekey_repeat := 0\<rparr> else s) in
     if mouse_v r = 0 \<and> mouse_h r = 0 then s\<lparr>mousekey_wheel_repeat := 0\<rparr> else s)"

definition mousekey_off :: "u8 \<Rightarrow> mouse_st \<Rightarrow> mouse_st" where
  "mousekey_off code s = stop_repeats (release_mouse_key code s)"

definition register_mouse_key :: "mk_settings \<Rightarrow> u16 \<Rightarrow> u8 \<Rightarrow> bool \<Rightarrow> mouse_st \<Rightarrow> mouse_st" where
  "register_mouse_key mk now code pressed s = mousekey_send now ((if pressed then mousekey_on mk code else mousekey_off code) s)"

subsection \<open>The task\<close>

text \<open>Motion by a unit in the direction of a held coordinate.\<close>

definition toward :: "u8 \<Rightarrow> u8 \<Rightarrow> u8" where "toward dir unit = (if dir \<noteq> 0 then if 0 <s dir then unit else - unit else 0)"

definition waited :: "u16 \<Rightarrow> u16 \<Rightarrow> u8 \<Rightarrow> u8 \<Rightarrow> u8 \<Rightarrow> bool" where
  "waited now since rep interval delay \<longleftrightarrow>
    (if rep \<noteq> 0 then unat interval else unat delay * 10) < unat (TIMER_DIFF_16 now since)"

definition task_motion :: "mk_settings \<Rightarrow> u16 \<Rightarrow> report_mouse_t \<Rightarrow> mouse_st \<Rightarrow> mouse_st" where
  "task_motion mk now tmpmr s =
    (if (mouse_x tmpmr \<noteq> 0 \<or> mouse_y tmpmr \<noteq> 0) \<and>
        waited now (last_timer_c s) (mousekey_repeat s) (mk_interval mk) (mk_delay mk) then
       let s = (if mousekey_repeat s \<noteq> 255 then s\<lparr>mousekey_repeat := mousekey_repeat s + 1\<rparr> else s);
           (x, y) = diagonal (toward (mouse_x tmpmr) (move_unit mk s), toward (mouse_y tmpmr) (move_unit mk s)) in
       set_y y (set_x x s)
     else s)"

definition task_wheel :: "mk_settings \<Rightarrow> u16 \<Rightarrow> report_mouse_t \<Rightarrow> mouse_st \<Rightarrow> mouse_st" where
  "task_wheel mk now tmpmr s =
    (if (mouse_v tmpmr \<noteq> 0 \<or> mouse_h tmpmr \<noteq> 0) \<and>
        waited now (last_timer_w s) (mousekey_wheel_repeat s) (mk_wheel_interval mk) (mk_wheel_delay mk) then
       let s = (if mousekey_wheel_repeat s \<noteq> 255 then s\<lparr>mousekey_wheel_repeat := mousekey_wheel_repeat s + 1\<rparr> else s);
           (v, h) = diagonal (toward (mouse_v tmpmr) (wheel_unit mk s), toward (mouse_h tmpmr) (wheel_unit mk s)) in
       set_h h (set_v v s)
     else s)"

text \<open>The coordinates are cleared, set again when it is time, sent, and restored.\<close>

definition mousekey_task :: "mk_settings \<Rightarrow> u16 \<Rightarrow> mouse_st \<Rightarrow> mouse_st" where
  "mousekey_task mk now s =
    (let tmpmr = mouse_report s;
         s = s\<lparr>mouse_report := tmpmr\<lparr>mouse_x := 0, mouse_y := 0, mouse_v := 0, mouse_h := 0\<rparr>\<rparr>;
         s = task_motion mk now tmpmr s;
         s = task_wheel mk now tmpmr s;
         s = (if has_mouse_report_changed (mouse_report s) tmpmr \<or> should_mousekey_report_send (mouse_report s)
              then mousekey_send now s else s) in
     s\<lparr>mouse_report := tmpmr\<rparr>)"

subsection \<open>Speeds are in range\<close>

lemma accel_unit_bound: "accel_unit d m t a r \<le> d * 255"
proof -
  have "unat m < 2 ^ LENGTH(8)" by (rule unsigned_less)
  then have m: "unat m \<le> 255" by simp
  then have dm: "d * unat m \<le> d * 255" by simp
  have div_le: "d * unat m div k \<le> d * 255" for k using dm div_le_dividend le_trans by blast
  have "d * unat m * unat r div unat t \<le> d * 255" if "\<not> t \<le> r"
  proof -
    have "unat r \<le> unat t" using that by (simp add: word_le_nat_alt)
    then have "d * unat m * unat r div unat t \<le> d * unat m * unat t div unat t" by (intro div_le_mono mult_le_mono2)
    also have "\<dots> \<le> d * unat m" by (cases "unat t = 0") auto
    also have "\<dots> \<le> d * 255" by (rule dm)
    finally show ?thesis .
  qed
  then show ?thesis using dm div_le by (auto simp: accel_unit_def)
qed

lemma capped_unit_exact:
  assumes "limit \<le> 127" "1 \<le> limit" "v < 2 ^ 16"
  shows "capped_unit limit v = max 1 (min limit v)" "sint (of_nat (capped_unit limit v) :: u8) = int (max 1 (min limit v))"
proof -
  show c: "capped_unit limit v = max 1 (min limit v)" using assms by (auto simp: capped_unit_def Let_def)
  have "max 1 (min limit v) \<le> 127" using assms by simp
  then have "sint (word_of_int (int (max 1 (min limit v))) :: u8) = int (max 1 (min limit v))"
    unfolding sint_sbintrunc' by (intro signed_take_bit_int_eq_self) auto
  then show "sint (of_nat (capped_unit limit v) :: u8) = int (max 1 (min limit v))" by (simp add: c)
qed

lemma mouse_units:
  "sint (move_unit mk s) = int (max 1 (min 127
      (accel_unit MOUSEKEY_MOVE_DELTA (mk_max_speed mk) (mk_time_to_max mk) (mousekey_accel s) (mousekey_repeat s)))) \<and>
    sint (wheel_unit mk s) = int (max 1 (min 127
      (accel_unit MOUSEKEY_WHEEL_DELTA (mk_wheel_max_speed mk) (mk_wheel_time_to_max mk) (mousekey_accel s) (mousekey_wheel_repeat s))))"
proof -
  have "accel_unit MOUSEKEY_MOVE_DELTA m t a r < 2 ^ 16" "accel_unit MOUSEKEY_WHEEL_DELTA m t a r < 2 ^ 16" for m t a r
    using accel_unit_bound [of MOUSEKEY_MOVE_DELTA m t a r] accel_unit_bound [of MOUSEKEY_WHEEL_DELTA m t a r]
    by (simp_all add: MOUSEKEY_MOVE_DELTA_def MOUSEKEY_WHEEL_DELTA_def)
  then show ?thesis
    unfolding move_unit_def wheel_unit_def
    by (intro conjI) (simp_all add: capped_unit_exact(2) MOUSEKEY_MOVE_MAX_def MOUSEKEY_WHEEL_MAX_def)
qed

text \<open>The units of motion and scrolling are in 1..127 for all settings and states: they are the intended value,
  raised to 1 or capped at 127, and no wrap-around of the intermediate results happens.\<close>
lemma mouse_units_bounded:
  "sint (move_unit mk s) = int (max 1 (min 127
      (accel_unit MOUSEKEY_MOVE_DELTA (mk_max_speed mk) (mk_time_to_max mk) (mousekey_accel s) (mousekey_repeat s)))) \<and>
    sint (wheel_unit mk s) = int (max 1 (min 127
      (accel_unit MOUSEKEY_WHEEL_DELTA (mk_wheel_max_speed mk) (mk_wheel_time_to_max mk) (mousekey_accel s) (mousekey_wheel_repeat s))))"
  by (rule mouse_units)

lemma unit_positive:
  "0 <s move_unit mk s" "0 <s wheel_unit mk s" "- move_unit mk s <s 0" "- wheel_unit mk s <s 0"
proof -
  have pos: "0 <s w \<and> - w <s 0" if "1 \<le> sint w" "sint w \<le> 127" for w :: u8
  proof -
    have "sint (- w) = - sint w"
      unfolding sint_word_minus by (intro signed_take_bit_int_eq_self) (use that in auto)
    then show ?thesis using that by (simp add: word_sless_alt)
  qed
  have b: "1 \<le> int (max 1 (min 127 n)) \<and> int (max 1 (min 127 n)) \<le> 127" for n by simp
  show "0 <s move_unit mk s" "0 <s wheel_unit mk s" "- move_unit mk s <s 0" "- wheel_unit mk s <s 0"
    using pos b mouse_units [of mk s] by simp_all
qed

subsection \<open>The held keys\<close>

definition axis_ok :: "u8 \<Rightarrow> u8 \<Rightarrow> u8 \<Rightarrow> u8 set \<Rightarrow> bool" where
  "axis_ok w pos neg H \<longleftrightarrow> (0 <s w \<longrightarrow> pos \<in> H) \<and> (w <s 0 \<longrightarrow> neg \<in> H)"

definition still :: "report_mouse_t \<Rightarrow> bool" where "still r \<longleftrightarrow> \<not> should_mousekey_report_send r"

fun newest_mouse :: "(host_driver_t \<times> report) list \<Rightarrow> report_mouse_t option" where
  "newest_mouse [] = None"
| "newest_mouse ((d, Mouse_report r) # rs) = Some r"
| "newest_mouse (_ # rs) = newest_mouse rs"

definition report_ok :: "u8 set \<Rightarrow> report_mouse_t \<Rightarrow> bool" where
  "report_ok H r \<longleftrightarrow> axis_ok (mouse_x r) KC_MS_RIGHT KC_MS_LEFT H \<and> axis_ok (mouse_y r) KC_MS_DOWN KC_MS_UP H \<and>
    axis_ok (mouse_v r) KC_MS_WH_UP KC_MS_WH_DOWN H \<and> axis_ok (mouse_h r) KC_MS_WH_RIGHT KC_MS_WH_LEFT H \<and>
    (\<forall>i < 8. bit (buttons r) i \<longleftrightarrow> KC_MS_BTN1 + of_nat i \<in> H)"

definition accel_ok :: "u8 set \<Rightarrow> u8 \<Rightarrow> bool" where
  "accel_ok H a \<longleftrightarrow> (bit a 0 \<longleftrightarrow> KC_MS_ACCEL0 \<in> H) \<and> (bit a 1 \<longleftrightarrow> KC_MS_ACCEL1 \<in> H) \<and> (bit a 2 \<longleftrightarrow> KC_MS_ACCEL2 \<in> H)"

text \<open>The host saw the buttons, and no motion when there is none.\<close>

definition host_ok :: "mouse_st \<Rightarrow> bool" where
  "host_ok s \<longleftrightarrow> driver (mouse_host s) \<noteq> None \<and> (\<exists>r. newest_mouse (sent (mouse_host s)) = Some r \<and>
    buttons r = buttons (mouse_report s) \<and> (still (mouse_report s) \<longrightarrow> still r))"

definition mouse_inv :: "u8 set \<Rightarrow> mouse_st \<Rightarrow> bool" where
  "mouse_inv H s \<longleftrightarrow> report_ok H (mouse_report s) \<and> accel_ok H (mousekey_accel s) \<and> host_ok s"

lemma axis_simps:
  "axis_ok 0 p n H" "0 <s w \<Longrightarrow> axis_ok w p n H \<longleftrightarrow> p \<in> H" "w <s 0 \<Longrightarrow> axis_ok w p n H \<longleftrightarrow> n \<in> H"
  by (auto simp: axis_ok_def word_sless_alt)

lemma signed_cases: "w \<noteq> 0 \<Longrightarrow> 0 <s w \<or> w <s 0" for w :: u8
  by (auto simp: word_sless_alt) (metis linorder_less_linear sint_0 signed_word_eqI)

lemma axis_mono: "axis_ok w p n H \<Longrightarrow> H \<subseteq> H' \<Longrightarrow> axis_ok w p n H'"
  by (auto simp: axis_ok_def)

lemma axis_remove: "axis_ok w p n H \<Longrightarrow> k \<noteq> p \<Longrightarrow> k \<noteq> n \<Longrightarrow> axis_ok w p n (H - {k})"
  by (auto simp: axis_ok_def)

lemma button_codes: "IS_MOUSEKEY_BUTTON k \<longleftrightarrow> (\<exists>i < 8. k = KC_MS_BTN1 + of_nat i)"
proof
  assume "IS_MOUSEKEY_BUTTON k"
  then have "0xD1 \<le> k" "k \<le> 0xD8" by (simp_all add: IS_MOUSEKEY_BUTTON_def mouse_codes)
  then have "unat (k - 0xD1) < 8" "k = 0xD1 + of_nat (unat (k - 0xD1))"
    by (simp_all add: word_le_nat_alt unat_sub_if_size word_less_nat_alt)
  then show "\<exists>i < 8. k = KC_MS_BTN1 + of_nat i" unfolding KC_MS_BTN1_def by blast
next
  assume "\<exists>i < 8. k = KC_MS_BTN1 + of_nat i"
  then obtain i where i: "i \<in> {0..<8}" "k = KC_MS_BTN1 + of_nat i" by auto
  have "i = 0 \<or> i = 1 \<or> i = 2 \<or> i = 3 \<or> i = 4 \<or> i = 5 \<or> i = 6 \<or> i = 7" using i(1) by auto
  then show "IS_MOUSEKEY_BUTTON k" using i(2) by (auto simp: IS_MOUSEKEY_BUTTON_def mouse_codes)
qed

lemma button_index:
  assumes "i < 8"
  shows "unat (KC_MS_BTN1 + of_nat i - KC_MS_BTN1) = i" "KC_MS_BTN1 + of_nat i = KC_MS_BTN1 + of_nat j \<longleftrightarrow> of_nat i = (of_nat j :: u8)"
  using assms by (simp_all add: unat_of_nat take_bit_nat_eq_self)

lemma button_not_other:
  assumes "IS_MOUSEKEY_BUTTON k"
  shows "k \<noteq> KC_MS_UP" "k \<noteq> KC_MS_DOWN" "k \<noteq> KC_MS_LEFT" "k \<noteq> KC_MS_RIGHT" "k \<noteq> KC_MS_WH_UP" "k \<noteq> KC_MS_WH_DOWN"
    "k \<noteq> KC_MS_WH_LEFT" "k \<noteq> KC_MS_WH_RIGHT" "k \<noteq> KC_MS_ACCEL0" "k \<noteq> KC_MS_ACCEL1" "k \<noteq> KC_MS_ACCEL2"
  using assms by (auto simp: IS_MOUSEKEY_BUTTON_def mouse_codes)

lemma other_not_button:
  assumes "\<not> IS_MOUSEKEY_BUTTON k" "i < 8"
  shows "KC_MS_BTN1 + of_nat i \<noteq> k"
  using assms button_codes by blast

lemma not_buttons:
  "\<not> IS_MOUSEKEY_BUTTON KC_MS_UP" "\<not> IS_MOUSEKEY_BUTTON KC_MS_DOWN" "\<not> IS_MOUSEKEY_BUTTON KC_MS_LEFT"
  "\<not> IS_MOUSEKEY_BUTTON KC_MS_RIGHT" "\<not> IS_MOUSEKEY_BUTTON KC_MS_WH_UP" "\<not> IS_MOUSEKEY_BUTTON KC_MS_WH_DOWN"
  "\<not> IS_MOUSEKEY_BUTTON KC_MS_WH_LEFT" "\<not> IS_MOUSEKEY_BUTTON KC_MS_WH_RIGHT" "\<not> IS_MOUSEKEY_BUTTON KC_MS_ACCEL0"
  "\<not> IS_MOUSEKEY_BUTTON KC_MS_ACCEL1" "\<not> IS_MOUSEKEY_BUTTON KC_MS_ACCEL2"
  by (simp_all add: IS_MOUSEKEY_BUTTON_def mouse_codes)

lemma codes_distinct:
  "distinct [KC_MS_UP, KC_MS_DOWN, KC_MS_LEFT, KC_MS_RIGHT, KC_MS_WH_UP, KC_MS_WH_DOWN, KC_MS_WH_LEFT, KC_MS_WH_RIGHT,
    KC_MS_ACCEL0, KC_MS_ACCEL1, KC_MS_ACCEL2]"
  by (simp add: mouse_codes)

lemmas code_neqs = codes_distinct [simplified]

text \<open>Buttons and axes after a key, with the key added to or removed from the held ones.\<close>

lemma buttons_on:
  fixes b :: u8
  assumes "\<forall>i < 8. bit b i \<longleftrightarrow> KC_MS_BTN1 + of_nat i \<in> H" "j < 8"
  shows "\<forall>i < 8. bit (set_bit j b) i \<longleftrightarrow> KC_MS_BTN1 + of_nat i \<in> insert (KC_MS_BTN1 + of_nat j) H"
    "\<forall>i < 8. bit (unset_bit j b) i \<longleftrightarrow> KC_MS_BTN1 + of_nat i \<in> H - {KC_MS_BTN1 + of_nat j}"
proof -
  have "of_nat i = (of_nat j :: u8) \<longleftrightarrow> i = j" if "i < 8" for i
  proof
    assume "of_nat i = (of_nat j :: u8)"
    then have "unat (of_nat i :: u8) = unat (of_nat j :: u8)" by simp
    then show "i = j" using that assms(2) by (simp add: unat_of_nat take_bit_nat_eq_self)
  qed simp
  then show "\<forall>i < 8. bit (set_bit j b) i \<longleftrightarrow> KC_MS_BTN1 + of_nat i \<in> insert (KC_MS_BTN1 + of_nat j) H"
    "\<forall>i < 8. bit (unset_bit j b) i \<longleftrightarrow> KC_MS_BTN1 + of_nat i \<in> H - {KC_MS_BTN1 + of_nat j}"
    using assms by (auto simp: bit_set_bit_iff bit_unset_bit_iff)
qed

lemma other_keys_ok:
  assumes "report_ok H r" "\<not> IS_MOUSEKEY_BUTTON k"
  shows "\<forall>i < 8. bit (buttons r) i \<longleftrightarrow> KC_MS_BTN1 + of_nat i \<in> insert k H"
    "\<forall>i < 8. bit (buttons r) i \<longleftrightarrow> KC_MS_BTN1 + of_nat i \<in> H - {k}"
  using assms other_not_button [OF assms(2)] by (auto simp: report_ok_def)

lemma frame_accel [simp]:
  "mousekey_accel (set_x w s) = mousekey_accel s" "mousekey_accel (set_y w s) = mousekey_accel s"
  "mousekey_accel (set_v w s) = mousekey_accel s" "mousekey_accel (set_h w s) = mousekey_accel s"
  "mousekey_accel (set_buttons w s) = mousekey_accel s"
  by (simp_all add: set_x_def set_y_def set_v_def set_h_def set_buttons_def)

lemma accel_on:
  "mousekey_accel (mousekey_on mk k s) =
    (if k = KC_MS_ACCEL0 then set_bit 0 (mousekey_accel s) else if k = KC_MS_ACCEL1 then set_bit 1 (mousekey_accel s)
     else if k = KC_MS_ACCEL2 then set_bit 2 (mousekey_accel s) else mousekey_accel s)"
  by (cases "IS_MOUSEKEY_BUTTON k") (simp_all add: mousekey_on_def code_neqs not_buttons button_not_other)

lemma frame_report [simp]:
  "mouse_report (set_x w s) = (mouse_report s)\<lparr>mouse_x := w\<rparr>" "mouse_report (set_y w s) = (mouse_report s)\<lparr>mouse_y := w\<rparr>"
  "mouse_report (set_v w s) = (mouse_report s)\<lparr>mouse_v := w\<rparr>" "mouse_report (set_h w s) = (mouse_report s)\<lparr>mouse_h := w\<rparr>"
  "mouse_report (set_buttons w s) = (mouse_report s)\<lparr>buttons := w\<rparr>"
  by (simp_all add: set_x_def set_y_def set_v_def set_h_def set_buttons_def)

lemma on_button:
  "IS_MOUSEKEY_BUTTON k \<Longrightarrow> mousekey_on mk k s = set_buttons (set_bit (unat (k - KC_MS_BTN1)) (buttons (mouse_report s))) s"
  by (simp only: mousekey_on_def button_not_other if_False if_True)

lemma stop_repeats_frame [simp]:
  "mouse_report (stop_repeats s) = mouse_report s" "mousekey_accel (stop_repeats s) = mousekey_accel s"
  "mouse_host (stop_repeats s) = mouse_host s"
  by (simp_all add: stop_repeats_def Let_def)

lemma off_button:
  "IS_MOUSEKEY_BUTTON k \<Longrightarrow> mouse_report (mousekey_off k s) =
    (mouse_report s)\<lparr>buttons := unset_bit (unat (k - KC_MS_BTN1)) (buttons (mouse_report s))\<rparr>"
  by (simp only: mousekey_off_def stop_repeats_frame release_mouse_key_def button_not_other if_False if_True simp_thms Let_def) simp

lemma report_on:
  fixes mk s k
  defines "r \<equiv> mouse_report s" and "r' \<equiv> mouse_report (mousekey_on mk k s)"
  shows "mouse_x r' = (if k = KC_MS_LEFT then - move_unit mk s else if k = KC_MS_RIGHT then move_unit mk s else mouse_x r)"
    "mouse_y r' = (if k = KC_MS_UP then - move_unit mk s else if k = KC_MS_DOWN then move_unit mk s else mouse_y r)"
    "mouse_v r' = (if k = KC_MS_WH_DOWN then - wheel_unit mk s else if k = KC_MS_WH_UP then wheel_unit mk s else mouse_v r)"
    "mouse_h r' = (if k = KC_MS_WH_LEFT then - wheel_unit mk s else if k = KC_MS_WH_RIGHT then wheel_unit mk s else mouse_h r)"
    "buttons r' = (if IS_MOUSEKEY_BUTTON k then set_bit (unat (k - KC_MS_BTN1)) (buttons r) else buttons r)"
  unfolding r_def r'_def
  subgoal by (cases "IS_MOUSEKEY_BUTTON k", simp add: on_button button_not_other, simp add: mousekey_on_def mouse_codes)
  subgoal by (cases "IS_MOUSEKEY_BUTTON k", simp add: on_button button_not_other, simp add: mousekey_on_def mouse_codes)
  subgoal by (cases "IS_MOUSEKEY_BUTTON k", simp add: on_button button_not_other, simp add: mousekey_on_def mouse_codes)
  subgoal by (cases "IS_MOUSEKEY_BUTTON k", simp add: on_button button_not_other, simp add: mousekey_on_def mouse_codes)
  subgoal by (cases "IS_MOUSEKEY_BUTTON k", simp add: on_button button_not_other, simp add: mousekey_on_def mouse_codes)
  done

lemma report_off:
  fixes s k
  defines "r \<equiv> mouse_report s" and "r' \<equiv> mouse_report (mousekey_off k s)"
  shows "mouse_x r' = (if k = KC_MS_LEFT \<and> mouse_x r <s 0 \<or> k = KC_MS_RIGHT \<and> 0 <s mouse_x r then 0 else mouse_x r)"
    "mouse_y r' = (if k = KC_MS_UP \<and> mouse_y r <s 0 \<or> k = KC_MS_DOWN \<and> 0 <s mouse_y r then 0 else mouse_y r)"
    "mouse_v r' = (if k = KC_MS_WH_DOWN \<and> mouse_v r <s 0 \<or> k = KC_MS_WH_UP \<and> 0 <s mouse_v r then 0 else mouse_v r)"
    "mouse_h r' = (if k = KC_MS_WH_LEFT \<and> mouse_h r <s 0 \<or> k = KC_MS_WH_RIGHT \<and> 0 <s mouse_h r then 0 else mouse_h r)"
    "buttons r' = (if IS_MOUSEKEY_BUTTON k then unset_bit (unat (k - KC_MS_BTN1)) (buttons r) else buttons r)"
  unfolding r_def r'_def
  subgoal by (cases "IS_MOUSEKEY_BUTTON k", simp add: off_button button_not_other, simp add: mousekey_off_def release_mouse_key_def Let_def mouse_codes)
  subgoal by (cases "IS_MOUSEKEY_BUTTON k", simp add: off_button button_not_other, simp add: mousekey_off_def release_mouse_key_def Let_def mouse_codes)
  subgoal by (cases "IS_MOUSEKEY_BUTTON k", simp add: off_button button_not_other, simp add: mousekey_off_def release_mouse_key_def Let_def mouse_codes)
  subgoal by (cases "IS_MOUSEKEY_BUTTON k", simp add: off_button button_not_other, simp add: mousekey_off_def release_mouse_key_def Let_def mouse_codes)
  subgoal by (cases "IS_MOUSEKEY_BUTTON k", simp add: off_button button_not_other, simp add: mousekey_off_def release_mouse_key_def Let_def mouse_codes)
  done

lemma accel_off:
  "mousekey_accel (mousekey_off k s) =
    (if k = KC_MS_ACCEL0 then unset_bit 0 (mousekey_accel s) else if k = KC_MS_ACCEL1 then unset_bit 1 (mousekey_accel s)
     else if k = KC_MS_ACCEL2 then unset_bit 2 (mousekey_accel s) else mousekey_accel s)"
  by (cases "IS_MOUSEKEY_BUTTON k", simp add: mousekey_off_def release_mouse_key_def Let_def button_not_other,
    simp add: mousekey_off_def release_mouse_key_def Let_def mouse_codes not_buttons [unfolded mouse_codes])

lemma axis_press:
  "axis_ok w p n H \<Longrightarrow> 0 <s u \<Longrightarrow> - u <s 0 \<Longrightarrow> axis_ok (if k = n then - u else if k = p then u else w) p n (insert k H)"
  by (auto simp: axis_ok_def word_sless_alt)

lemma axis_release:
  "axis_ok w p n H \<Longrightarrow> p \<noteq> n \<Longrightarrow> axis_ok (if k = n \<and> w <s 0 \<or> k = p \<and> 0 <s w then 0 else w) p n (H - {k})"
  by (auto simp: axis_ok_def word_sless_alt)

lemma buttons_key:
  fixes b :: u8
  assumes "\<forall>i < 8. bit b i \<longleftrightarrow> KC_MS_BTN1 + of_nat i \<in> H"
  shows "\<forall>i < 8. bit (if IS_MOUSEKEY_BUTTON k then set_bit (unat (k - KC_MS_BTN1)) b else b) i \<longleftrightarrow> KC_MS_BTN1 + of_nat i \<in> insert k H"
    "\<forall>i < 8. bit (if IS_MOUSEKEY_BUTTON k then unset_bit (unat (k - KC_MS_BTN1)) b else b) i \<longleftrightarrow> KC_MS_BTN1 + of_nat i \<in> H - {k}"
proof -
  have "(\<forall>i < 8. bit (if IS_MOUSEKEY_BUTTON k then set_bit (unat (k - KC_MS_BTN1)) b else b) i \<longleftrightarrow> KC_MS_BTN1 + of_nat i \<in> insert k H) \<and>
    (\<forall>i < 8. bit (if IS_MOUSEKEY_BUTTON k then unset_bit (unat (k - KC_MS_BTN1)) b else b) i \<longleftrightarrow> KC_MS_BTN1 + of_nat i \<in> H - {k})"
  proof (cases "IS_MOUSEKEY_BUTTON k")
    case True
    then obtain j where j: "j < 8" "k = KC_MS_BTN1 + of_nat j" using button_codes by blast
    then show ?thesis using buttons_on [OF assms j(1)] True button_index(1) [OF j(1)] by simp
  next
    case False
    then show ?thesis using assms other_not_button [OF False] by auto
  qed
  then show "\<forall>i < 8. bit (if IS_MOUSEKEY_BUTTON k then set_bit (unat (k - KC_MS_BTN1)) b else b) i \<longleftrightarrow> KC_MS_BTN1 + of_nat i \<in> insert k H"
    "\<forall>i < 8. bit (if IS_MOUSEKEY_BUTTON k then unset_bit (unat (k - KC_MS_BTN1)) b else b) i \<longleftrightarrow> KC_MS_BTN1 + of_nat i \<in> H - {k}"
    by blast+
qed

lemma mouse_key_ok:
  assumes "report_ok H (mouse_report s)" "accel_ok H (mousekey_accel s)"
  shows "report_ok (insert k H) (mouse_report (mousekey_on mk k s))" "accel_ok (insert k H) (mousekey_accel (mousekey_on mk k s))"
    "report_ok (H - {k}) (mouse_report (mousekey_off k s))" "accel_ok (H - {k}) (mousekey_accel (mousekey_off k s))"
proof -
  have ne: "KC_MS_RIGHT \<noteq> KC_MS_LEFT" "KC_MS_DOWN \<noteq> KC_MS_UP" "KC_MS_WH_UP \<noteq> KC_MS_WH_DOWN" "KC_MS_WH_RIGHT \<noteq> KC_MS_WH_LEFT"
    by (simp_all add: mouse_codes)
  have r: "axis_ok (mouse_x (mouse_report s)) KC_MS_RIGHT KC_MS_LEFT H" "axis_ok (mouse_y (mouse_report s)) KC_MS_DOWN KC_MS_UP H"
    "axis_ok (mouse_v (mouse_report s)) KC_MS_WH_UP KC_MS_WH_DOWN H" "axis_ok (mouse_h (mouse_report s)) KC_MS_WH_RIGHT KC_MS_WH_LEFT H"
    "\<forall>i < 8. bit (buttons (mouse_report s)) i \<longleftrightarrow> KC_MS_BTN1 + of_nat i \<in> H"
    using assms(1) by (simp_all add: report_ok_def)
  show "report_ok (insert k H) (mouse_report (mousekey_on mk k s))"
    unfolding report_ok_def report_on using r unit_positive by (intro conjI axis_press buttons_key) auto
  show "report_ok (H - {k}) (mouse_report (mousekey_off k s))"
    unfolding report_ok_def report_off using r ne by (intro conjI axis_release buttons_key) auto
  show "accel_ok (insert k H) (mousekey_accel (mousekey_on mk k s))" "accel_ok (H - {k}) (mousekey_accel (mousekey_off k s))"
    using assms(2) by (auto simp: accel_on accel_off accel_ok_def bit_set_bit_iff bit_unset_bit_iff mouse_codes)
qed

text \<open>Sending shows the host the current report.\<close>

lemma mousekey_send_ok:
  assumes "driver (mouse_host s) \<noteq> None"
  shows "host_ok (mousekey_send now s)" "report_ok H (mouse_report (mousekey_send now s)) = report_ok H (mouse_report s)"
    "mousekey_accel (mousekey_send now s) = mousekey_accel s"
  using assms
  by (auto simp: mousekey_send_def Let_def host_mouse_send_def host_ok_def to_driver_def report_ok_def still_def
      should_mousekey_report_send_def split: prod.splits)

subsection \<open>Histories of mouse keys\<close>

lemma task_parts_frame:
  "buttons (mouse_report (task_motion mk now t s)) = buttons (mouse_report s)" "mouse_host (task_motion mk now t s) = mouse_host s"
  "mousekey_accel (task_motion mk now t s) = mousekey_accel s"
  "buttons (mouse_report (task_wheel mk now t s)) = buttons (mouse_report s)" "mouse_host (task_wheel mk now t s) = mouse_host s"
  "mousekey_accel (task_wheel mk now t s) = mousekey_accel s"
  by (simp_all add: task_motion_def task_wheel_def Let_def split_beta) (simp_all add: set_x_def set_y_def set_v_def set_h_def)

lemma task_parts_still: "still t \<Longrightarrow> task_motion mk now t s = s \<and> task_wheel mk now t s = s"
  by (simp add: still_def should_mousekey_report_send_def task_motion_def task_wheel_def)

lemma mousekey_task_ok:
  assumes "host_ok s"
  shows "host_ok (mousekey_task mk now s)" "mouse_report (mousekey_task mk now s) = mouse_report s"
    "mousekey_accel (mousekey_task mk now s) = mousekey_accel s"
proof -
  let ?t = "mouse_report s"
  let ?z = "s\<lparr>mouse_report := ?t\<lparr>mouse_x := 0, mouse_y := 0, mouse_v := 0, mouse_h := 0\<rparr>\<rparr>"
  let ?s = "task_wheel mk now ?t (task_motion mk now ?t ?z)"
  have d: "driver (mouse_host ?s) \<noteq> None" using assms by (simp add: task_parts_frame host_ok_def)
  have b: "buttons (mouse_report (mousekey_send now ?s)) = buttons ?t"
    using d by (auto simp: mousekey_send_def Let_def host_mouse_send_def split_beta task_parts_frame)
  show "mouse_report (mousekey_task mk now s) = mouse_report s" by (simp add: mousekey_task_def Let_def)
  show "mousekey_accel (mousekey_task mk now s) = mousekey_accel s"
    using mousekey_send_ok(3) [OF d] by (simp add: mousekey_task_def Let_def task_parts_frame)
  show "host_ok (mousekey_task mk now s)"
  proof (cases "still ?t")
    case True
    have "?z = s" using True by (simp add: still_def should_mousekey_report_send_def)
    then have "?s = s" using task_parts_still [OF True] by simp
    then show ?thesis
      using assms True \<open>?z = s\<close> by (simp add: mousekey_task_def Let_def has_mouse_report_changed_def still_def)
  next
    case False
    have "host_ok (x\<lparr>mouse_report := ?t\<rparr>)" if "host_ok x" "buttons (mouse_report x) = buttons ?t" for x
      using that False by (auto simp: host_ok_def)
    from this [OF mousekey_send_ok(1) [OF d] b] show ?thesis
      using assms False by (auto simp: mousekey_task_def Let_def host_ok_def task_parts_frame)
  qed
qed

datatype mouse_event = Mouse_press u8 | Mouse_release u8 | Mouse_task

fun mouse_run :: "mk_settings \<Rightarrow> (u16 \<times> mouse_event) list \<Rightarrow> mouse_st \<Rightarrow> mouse_st" where
  "mouse_run mk [] s = s"
| "mouse_run mk ((now, Mouse_press k) # es) s = mouse_run mk es (register_mouse_key mk now k True s)"
| "mouse_run mk ((now, Mouse_release k) # es) s = mouse_run mk es (register_mouse_key mk now k False s)"
| "mouse_run mk ((now, Mouse_task) # es) s = mouse_run mk es (mousekey_task mk now s)"

fun mouse_held :: "(u16 \<times> mouse_event) list \<Rightarrow> u8 set \<Rightarrow> u8 set" where
  "mouse_held [] H = H"
| "mouse_held ((now, Mouse_press k) # es) H = mouse_held es (insert k H)"
| "mouse_held ((now, Mouse_release k) # es) H = mouse_held es (H - {k})"
| "mouse_held ((now, Mouse_task) # es) H = mouse_held es H"

lemma key_driver:
  "mouse_host (mousekey_on mk k s) = mouse_host s" "mouse_host (mousekey_off k s) = mouse_host s"
  by (simp_all add: mousekey_on_def mousekey_off_def release_mouse_key_def Let_def set_x_def set_y_def set_v_def set_h_def set_buttons_def)

lemma mouse_run_inv: "mouse_inv H s \<Longrightarrow> mouse_inv (mouse_held es H) (mouse_run mk es s)"
proof (induction mk es s arbitrary: H rule: mouse_run.induct)
  case (2 mk now k es s)
  have "mouse_inv (insert k H) (register_mouse_key mk now k True s)"
    using 2(2) mouse_key_ok(1,2) [of H s k mk] mousekey_send_ok [where s = "mousekey_on mk k s" and now = now]
    by (simp add: mouse_inv_def register_mouse_key_def key_driver host_ok_def)
  then show ?case using 2(1) by simp
next
  case (3 mk now k es s)
  have "mouse_inv (H - {k}) (register_mouse_key mk now k False s)"
    using 3(2) mouse_key_ok(3,4) [of H s k] mousekey_send_ok [where s = "mousekey_off k s" and now = now]
    by (simp add: mouse_inv_def register_mouse_key_def key_driver host_ok_def)
  then show ?case using 3(1) by simp
next
  case (4 mk now es s)
  have "mouse_inv H (mousekey_task mk now s)"
    using 4(2) mousekey_task_ok [of s mk now] by (simp add: mouse_inv_def)
  then show ?case using 4(1) by simp
qed simp


definition mouse_rest :: mouse_st where
  "mouse_rest = (let r = \<lparr>mouse_report_id = 2, buttons = 0, mouse_x = 0, mouse_y = 0, mouse_v = 0, mouse_h = 0\<rparr> in
    \<lparr>mouse_report = r, mousekey_accel = 0, mousekey_repeat = 0, mousekey_wheel_repeat = 0, last_timer_c = 0, last_timer_w = 0,
     mouse_host = \<lparr>driver = Some chibios_driver, last_system_usage = 0, last_consumer_usage = 0,
       sent = [(chibios_driver, Mouse_report r)]\<rparr>\<rparr>)"

lemma mouse_rest_inv: "mouse_inv {} mouse_rest"
  by (simp add: mouse_inv_def mouse_rest_def Let_def report_ok_def axis_simps accel_ok_def host_ok_def still_def)


text \<open>
  While a motion key is held and its interval has not passed, every call of the task sends a report without motion: the
  cleared report differs from the saved one.
\<close>

lemma mouse_task_sends_motionless_reports:
  assumes "driver (mouse_host s) = Some d" "\<not> still (mouse_report s)"
    "\<not> waited now (last_timer_c s) (mousekey_repeat s) (mk_interval mk) (mk_delay mk)"
    "\<not> waited now (last_timer_w s) (mousekey_wheel_repeat s) (mk_wheel_interval mk) (mk_wheel_delay mk)"
  shows "\<exists>r. sent (mouse_host (mousekey_task mk now s)) = (d, Mouse_report r) # sent (mouse_host s) \<and> still r"
proof -
  let ?z = "s\<lparr>mouse_report := (mouse_report s)\<lparr>mouse_x := 0, mouse_y := 0, mouse_v := 0, mouse_h := 0\<rparr>\<rparr>"
  have "task_motion mk now (mouse_report s) ?z = ?z" "task_wheel mk now (mouse_report s) ?z = ?z"
    using assms(3,4) by (simp_all add: task_motion_def task_wheel_def)
  moreover have "mouse_report ?z \<noteq> mouse_report s"
    using assms(2) by (auto simp: still_def should_mousekey_report_send_def) (metis report_mouse_t.select_convs(3-6) report_mouse_t.surjective report_mouse_t.update_convs(3-6))+
  ultimately show ?thesis
    using assms(1) by (simp add: mousekey_task_def Let_def has_mouse_report_changed_def mousekey_send_def host_mouse_send_def to_driver_def
        still_def should_mousekey_report_send_def split_beta)
qed

text \<open>On a diagonal the scaling rounds down, so motion up or to the left is one unit faster than down or to the right.\<close>

lemma diagonal_is_uneven:
  assumes "0 < sint x"
  shows "sint (times_inv_sqrt2 (- x)) = - sint (times_inv_sqrt2 x) - 1"
proof -
  have x: "sint x < 128" using sint_lt [of x] by simp
  have neg: "sint (- x) = - sint x"
    unfolding sint_word_minus by (intro signed_take_bit_int_eq_self) (use assms x in auto)
  have nd: "\<not> 256 dvd sint x * 181"
  proof
    assume "256 dvd sint x * 181"
    then obtain k where "sint x * 181 = 256 * k" by (auto elim: dvdE)
    then have "sint x = 256 * (157 * k - 111 * sint x)" by (simp add: algebra_simps)
    then have "256 dvd sint x" by (metis dvd_triv_left)
    then show False using assms x zdvd_imp_le [of 256 "sint x"] by simp
  qed
  have d: "(- (sint x * 181)) div 256 = - (sint x * 181 div 256) - 1"
    using nd by (simp add: zdiv_zminus1_eq_if dvd_eq_mod_eq_0)
  have b: "0 \<le> sint x * 181 div 256" "sint x * 181 div 256 < 127"
    using assms x by (auto simp: pos_imp_zdiv_nonneg_iff div_less_iff_less_mult)
  show ?thesis
    unfolding times_inv_sqrt2_def neg drop_bit_int_def sint_sbintrunc'
    using b d by (simp add: signed_take_bit_int_eq_self)
qed

end
