(* ===== verification/Qmk_Deferred.thy ===== *)
theory Qmk_Deferred
  imports Qmk_Prelude
begin

text \<open>
  Deferred execution (\<^verbatim>\<open>quantum/deferred_exec.c\<close>): a table of callbacks, each with a token and a trigger time, that
  the keyboard loop runs when they are due. A callback is client code: it is a parameter of the model that may change
  the whole state, the table it is called from included. Calling a NULL callback is the result None of the task.
\<close>

subsection \<open>The table\<close>

definition INVALID_DEFERRED_TOKEN :: u8 where
  "INVALID_DEFERRED_TOKEN = 0"

record ('c, 'a) executor =
  token :: u8
  trigger_time :: u32
  callback :: "'c option"
  cb_arg :: "'a option"

record ('c, 'a, 'w) deferred_st =
  current_token :: u8
  executors :: "('c, 'a) executor list"
  last_execution_time :: u32
  world :: 'w

definition empty_executor :: "('c, 'a) executor" where
  "empty_executor = \<lparr>token = INVALID_DEFERRED_TOKEN, trigger_time = 0, callback = None, cb_arg = None\<rparr>"

definition token_can_be_used :: "('c, 'a) executor list \<Rightarrow> u8 \<Rightarrow> bool" where
  "token_can_be_used tab t \<longleftrightarrow> t \<noteq> INVALID_DEFERRED_TOKEN \<and> list_all (\<lambda>e. token e \<noteq> t) tab"

lemma unat_pred_less: "x \<noteq> 0 \<Longrightarrow> unat (x - 1 :: 'a::len word) < unat x"
  by (metis diff_less less_numeral_extra(1) unat_gt_0 unat_minus_one)

text \<open>The search for a token: the result and the value \<^verbatim>\<open>current_token\<close> is left with.\<close>

function alloc_loop :: "('c, 'a) executor list \<Rightarrow> u8 \<Rightarrow> u8 \<Rightarrow> u8 \<times> u8" where
  "alloc_loop tab first cur =
    (if token_can_be_used tab cur then (cur, cur)
     else if cur + 1 = first then (INVALID_DEFERRED_TOKEN, cur + 1)
     else alloc_loop tab first (cur + 1))"
  by pat_completeness auto

termination
proof (relation "measure (\<lambda>(tab, first, cur). unat (first - cur - 1))", goal_cases)
  case (2 tab first cur)
  then have "first - cur - 1 \<noteq> 0" by (metis add_diff_cancel_left' diff_add_cancel diff_eq_eq eq_iff_diff_eq_0)
  from unat_pred_less [OF this] show ?case by (simp add: algebra_simps)
qed simp

declare alloc_loop.simps [simp del]

definition allocate_token :: "('c, 'a) executor list \<Rightarrow> u8 \<Rightarrow> u8 \<times> u8" where
  "allocate_token tab cur = alloc_loop tab (cur + 1) (cur + 1)"

text \<open>The loops over the table that stop at the first entry of a kind.\<close>

fun first_slot :: "('c, 'a) executor list \<Rightarrow> u8 \<Rightarrow> nat option" where
  "first_slot [] t = None"
| "first_slot (e # es) t = (if token e = t then Some 0 else map_option Suc (first_slot es t))"

subsection \<open>The operations\<close>

definition defer_exec_advanced ::
  "u32 \<Rightarrow> u32 \<Rightarrow> 'c option \<Rightarrow> 'a option \<Rightarrow> ('c, 'a, 'w) deferred_st \<Rightarrow> u8 \<times> ('c, 'a, 'w) deferred_st" where
  "defer_exec_advanced now delay_ms cb arg s =
    (if executors s = [] \<or> delay_ms = 0 \<or> cb = None then (INVALID_DEFERRED_TOKEN, s)
     else case first_slot (executors s) INVALID_DEFERRED_TOKEN of
       None \<Rightarrow> (INVALID_DEFERRED_TOKEN, s)
     | Some i \<Rightarrow>
        (let (t, cur) = allocate_token (executors s) (current_token s); s1 = s\<lparr>current_token := cur\<rparr> in
         if t = INVALID_DEFERRED_TOKEN then (INVALID_DEFERRED_TOKEN, s1)
         else (cur, s1\<lparr>executors := (executors s)[i :=
                \<lparr>token = cur, trigger_time = now + delay_ms, callback = cb, cb_arg = arg\<rparr>]\<rparr>)))"

definition extend_deferred_exec_advanced ::
  "u32 \<Rightarrow> u8 \<Rightarrow> u32 \<Rightarrow> ('c, 'a, 'w) deferred_st \<Rightarrow> bool \<times> ('c, 'a, 'w) deferred_st" where
  "extend_deferred_exec_advanced now t delay_ms s =
    (if executors s = [] \<or> delay_ms = 0 \<or> t = INVALID_DEFERRED_TOKEN then (False, s)
     else case first_slot (executors s) t of
       None \<Rightarrow> (False, s)
     | Some i \<Rightarrow> (True, s\<lparr>executors := (executors s)[i := (executors s ! i)\<lparr>trigger_time := now + delay_ms\<rparr>]\<rparr>))"

definition cancel_deferred_exec_advanced :: "u8 \<Rightarrow> ('c, 'a, 'w) deferred_st \<Rightarrow> bool \<times> ('c, 'a, 'w) deferred_st" where
  "cancel_deferred_exec_advanced t s =
    (if executors s = [] \<or> t = INVALID_DEFERRED_TOKEN then (False, s)
     else case first_slot (executors s) t of
       None \<Rightarrow> (False, s)
     | Some i \<Rightarrow> (True, s\<lparr>executors := (executors s)[i := empty_executor]\<rparr>))"

text \<open>A callback gets its trigger time and argument, and returns the delay to its next call.\<close>

type_synonym ('c, 'a, 'w) callback_fn =
  "'c \<Rightarrow> u32 \<Rightarrow> 'a option \<Rightarrow> ('c, 'a, 'w) deferred_st \<Rightarrow> u32 \<times> ('c, 'a, 'w) deferred_st"

definition due :: "u32 \<Rightarrow> ('c, 'a) executor \<Rightarrow> bool" where
  "due now e \<longleftrightarrow> token e \<noteq> INVALID_DEFERRED_TOKEN \<and> sint (TIMER_DIFF_32 (trigger_time e) now) \<le> 0"

definition requeue :: "u32 \<Rightarrow> ('c, 'a) executor \<Rightarrow> ('c, 'a) executor" where
  "requeue delay_ms e =
    (if delay_ms > 0 then e\<lparr>trigger_time := trigger_time e + delay_ms\<rparr> else empty_executor)"

definition run_executor ::
  "('c, 'a, 'w) callback_fn \<Rightarrow> u32 \<Rightarrow> nat \<Rightarrow> ('c, 'a, 'w) deferred_st \<Rightarrow> ('c, 'a, 'w) deferred_st option" where
  "run_executor call now i s =
    (let e = executors s ! i in
     if due now e then
       case callback e of
         None \<Rightarrow> None
       | Some c \<Rightarrow>
          (let (delay_ms, s1) = call c (trigger_time e) (cb_arg e) s in
           Some (s1\<lparr>executors := (executors s1)[i := requeue delay_ms (executors s1 ! i)]\<rparr>))
     else Some s)"

fun run_executors ::
  "('c, 'a, 'w) callback_fn \<Rightarrow> u32 \<Rightarrow> nat list \<Rightarrow> ('c, 'a, 'w) deferred_st \<Rightarrow> ('c, 'a, 'w) deferred_st option" where
  "run_executors call now [] s = Some s"
| "run_executors call now (i # is) s = Option.bind (run_executor call now i s) (run_executors call now is)"

definition deferred_exec_advanced_task ::
  "('c, 'a, 'w) callback_fn \<Rightarrow> u32 \<Rightarrow> ('c, 'a, 'w) deferred_st \<Rightarrow> ('c, 'a, 'w) deferred_st option" where
  "deferred_exec_advanced_task call now s =
    (if sint (TIMER_DIFF_32 now (last_execution_time s)) > 0
     then run_executors call now [0..<length (executors s)] (s\<lparr>last_execution_time := now\<rparr>)
     else Some s)"

text \<open>The basic interface: the same operations on the firmware's own table.\<close>

definition MAX_DEFERRED_EXECUTORS :: nat where
  "MAX_DEFERRED_EXECUTORS = 8"

definition basic_executors :: "'w \<Rightarrow> ('c, 'a, 'w) deferred_st" where
  "basic_executors w = \<lparr>current_token = 0, executors = replicate MAX_DEFERRED_EXECUTORS empty_executor,
    last_execution_time = 0, world = w\<rparr>"

definition defer_exec :: "u32 \<Rightarrow> u32 \<Rightarrow> 'c option \<Rightarrow> 'a option \<Rightarrow> ('c, 'a, 'w) deferred_st \<Rightarrow> u8 \<times> ('c, 'a, 'w) deferred_st" where
  "defer_exec now delay_ms cb arg s = defer_exec_advanced now delay_ms cb arg s"

definition extend_deferred_exec :: "u32 \<Rightarrow> u8 \<Rightarrow> u32 \<Rightarrow> ('c, 'a, 'w) deferred_st \<Rightarrow> bool \<times> ('c, 'a, 'w) deferred_st" where
  "extend_deferred_exec now t delay_ms s = extend_deferred_exec_advanced now t delay_ms s"

definition cancel_deferred_exec :: "u8 \<Rightarrow> ('c, 'a, 'w) deferred_st \<Rightarrow> bool \<times> ('c, 'a, 'w) deferred_st" where
  "cancel_deferred_exec t s = cancel_deferred_exec_advanced t s"

definition deferred_exec_task :: "('c, 'a, 'w) callback_fn \<Rightarrow> u32 \<Rightarrow> ('c, 'a, 'w) deferred_st \<Rightarrow> ('c, 'a, 'w) deferred_st option" where
  "deferred_exec_task call now s = deferred_exec_advanced_task call now s"

subsection \<open>Tokens\<close>

definition deferred_ok :: "('c, 'a, 'w) deferred_st \<Rightarrow> bool" where
  "deferred_ok s \<longleftrightarrow>
    (\<forall>i < length (executors s). token (executors s ! i) \<noteq> INVALID_DEFERRED_TOKEN \<longrightarrow>
      callback (executors s ! i) \<noteq> None \<and>
      (\<forall>j < length (executors s). token (executors s ! j) = token (executors s ! i) \<longrightarrow> j = i))"

lemma alloc_loop_result:
  "alloc_loop tab first cur = (t, c) \<Longrightarrow>
    token_can_be_used tab t \<and> c = t \<or> t = INVALID_DEFERRED_TOKEN \<and> c = first"
  by (induction tab first cur rule: alloc_loop.induct) (metis (no_types, lifting) alloc_loop.simps prod.inject)

lemma alloc_loop_fails:
  assumes "alloc_loop tab first cur = (INVALID_DEFERRED_TOKEN, c)" "k \<le> unat (first - cur - 1)"
  shows "\<not> token_can_be_used tab (cur + of_nat k)"
  using assms
proof (induction tab first cur arbitrary: k rule: alloc_loop.induct)
  case (1 tab first cur)
  have n: "\<not> token_can_be_used tab cur"
    using "1.prems"(1) by (subst (asm) alloc_loop.simps) (auto simp: token_can_be_used_def split: if_splits)
  show ?case
  proof (cases k)
    case (Suc j)
    have f: "cur + 1 \<noteq> first" using "1.prems"(2) Suc by auto
    then have z: "first - cur - 1 \<noteq> 0" by (metis add_diff_cancel_left' diff_add_cancel diff_eq_eq eq_iff_diff_eq_0)
    have e: "alloc_loop tab first (cur + 1) = (INVALID_DEFERRED_TOKEN, c)"
      using "1.prems"(1) n f by (subst (asm) alloc_loop.simps) simp
    have w: "first - (cur + 1) - 1 = first - cur - 1 - 1" by (simp add: algebra_simps)
    have "j \<le> unat (first - (cur + 1) - 1)"
      using "1.prems"(2) Suc unfolding w unat_minus_one [OF z] by simp
    from "1.IH" [OF n f e this] show ?thesis using Suc by (simp add: algebra_simps)
  qed (use n in simp)
qed

lemma used_tokens:
  assumes "token_can_be_used tab t = False" "t \<noteq> INVALID_DEFERRED_TOKEN"
  shows "t \<in> set (map token tab)"
  using assms by (auto simp: token_can_be_used_def list_all_iff)

text \<open>With fewer than 255 slots there is always a token left for a new entry.\<close>

lemma allocate_token_succeeds:
  assumes "length tab < 255" "allocate_token tab cur = (t, c)"
  shows "token_can_be_used tab t \<and> c = t"
proof (rule ccontr)
  assume "\<not> ?thesis"
  then have a: "alloc_loop tab (cur + 1) (cur + 1) = (INVALID_DEFERRED_TOKEN, c)"
    using assms(2) alloc_loop_result unfolding allocate_token_def by metis
  have u: "\<not> token_can_be_used tab x" for x
  proof -
    have m: "unat (cur + 1 - (cur + 1) - 1 :: u8) = 255"
      by (simp add: unsigned_minus_1_eq_mask mask_eq_exp_minus_1)
    have "unat (x - (cur + 1)) \<le> 255" 
      using unsigned_less [of "x - (cur + 1)", where 'a = nat] by simp
    from alloc_loop_fails [OF a, of "unat (x - (cur + 1))"] this m show ?thesis by simp
  qed
  have "(UNIV :: u8 set) - {0} \<subseteq> set (map token tab)"
    using u used_tokens [of tab] by (auto simp: INVALID_DEFERRED_TOKEN_def)
  then have "card ((UNIV :: u8 set) - {0}) \<le> length tab"
    by (metis List.finite_set card_length card_mono length_map order_trans)
  then show False using assms(1) by (simp add: card_word)
qed


lemma deferred_ok_update:
  assumes "deferred_ok s" "executors s' = (executors s)[i := e]"
    "token e \<noteq> INVALID_DEFERRED_TOKEN \<Longrightarrow> callback e \<noteq> None"
    "token e = INVALID_DEFERRED_TOKEN \<or> token e = token (executors s ! i) \<or> token_can_be_used (executors s) (token e)"
  shows "deferred_ok s'"
proof (cases "i < length (executors s)")
  case True
  then show ?thesis
    using assms by (auto simp: deferred_ok_def nth_list_update token_can_be_used_def list_all_length)
qed (use assms in \<open>simp add: deferred_ok_def\<close>)

lemma first_slot_bound: "first_slot tab t = Some i \<Longrightarrow> i < length tab \<and> token (tab ! i) = t"
  by (induction tab arbitrary: i) (auto split: if_splits)

lemma empty_executor_token [simp]: "token empty_executor = INVALID_DEFERRED_TOKEN"
  by (simp add: empty_executor_def)

lemma requeue_token: "token (requeue d e) = INVALID_DEFERRED_TOKEN \<or> token (requeue d e) = token e \<and> callback (requeue d e) = callback e"
  by (simp add: requeue_def)

lemma defer_keeps_ok:
  assumes "deferred_ok s"
  shows "deferred_ok (snd (defer_exec_advanced now d cb arg s))"
proof (cases "executors s = [] \<or> d = 0 \<or> cb = None \<or> first_slot (executors s) INVALID_DEFERRED_TOKEN = None")
  case False
  then obtain i where i: "first_slot (executors s) INVALID_DEFERRED_TOKEN = Some i" by auto
  obtain t c where a: "allocate_token (executors s) (current_token s) = (t, c)" by force
  have r: "token_can_be_used (executors s) t \<and> c = t \<or> t = INVALID_DEFERRED_TOKEN"
    using a alloc_loop_result unfolding allocate_token_def by metis
  show ?thesis
  proof (cases "t = INVALID_DEFERRED_TOKEN")
    case True
    then show ?thesis using False i a assms by (simp add: defer_exec_advanced_def deferred_ok_def)
  next
    case f: False
    then show ?thesis using False i a r assms
      by (auto simp: defer_exec_advanced_def intro: deferred_ok_update [OF assms])
  qed
qed (use assms in \<open>auto simp: defer_exec_advanced_def\<close>)

lemma extend_keeps_ok:
  assumes "deferred_ok s"
  shows "deferred_ok (snd (extend_deferred_exec_advanced now t d s))"
proof (cases "executors s = [] \<or> d = 0 \<or> t = INVALID_DEFERRED_TOKEN \<or> first_slot (executors s) t = None")
  case False
  then obtain i where i: "first_slot (executors s) t = Some i" by auto
  note b = first_slot_bound [OF this]
  have "callback (executors s ! i) \<noteq> None" using assms b False by (auto simp: deferred_ok_def)
  then show ?thesis using False i
    by (auto simp: extend_deferred_exec_advanced_def intro: deferred_ok_update [OF assms])
qed (use assms in \<open>auto simp: extend_deferred_exec_advanced_def\<close>)

lemma cancel_keeps_ok:
  assumes "deferred_ok s"
  shows "deferred_ok (snd (cancel_deferred_exec_advanced t s))"
  using assms by (auto simp: cancel_deferred_exec_advanced_def split: option.splits intro: deferred_ok_update [OF assms])

lemma operations_keep_length:
  "length (executors (snd (defer_exec_advanced now d cb arg s))) = length (executors s)"
  "length (executors (snd (extend_deferred_exec_advanced now t d s))) = length (executors s)"
  "length (executors (snd (cancel_deferred_exec_advanced t s))) = length (executors s)"
  by (simp_all add: defer_exec_advanced_def extend_deferred_exec_advanced_def cancel_deferred_exec_advanced_def Let_def
      split: option.splits prod.splits)

text \<open>A callback that uses the operations, and nothing else, on the table keeps the table in order.\<close>

definition well_behaved :: "('c, 'a, 'w) callback_fn \<Rightarrow> bool" where
  "well_behaved call \<longleftrightarrow> (\<forall>c t a s. deferred_ok s \<longrightarrow>
    deferred_ok (snd (call c t a s)) \<and> length (executors (snd (call c t a s))) = length (executors s))"

lemma run_executor_ok:
  assumes "well_behaved call" "deferred_ok s" "i < length (executors s)"
  obtains s' where "run_executor call now i s = Some s'" "deferred_ok s'" "length (executors s') = length (executors s)"
proof (cases "due now (executors s ! i)")
  case True
  then obtain c where c: "callback (executors s ! i) = Some c" using assms(2,3) by (auto simp: deferred_ok_def due_def)
  obtain d t where r: "call c (trigger_time (executors s ! i)) (cb_arg (executors s ! i)) s = (d, t)" by force
  have t: "deferred_ok t" "length (executors t) = length (executors s)"
    using assms(1,2) r unfolding well_behaved_def by (metis snd_conv)+
  let ?e = "requeue d (executors t ! i)"
  have "deferred_ok (t\<lparr>executors := (executors t)[i := ?e]\<rparr>)"
  proof (rule deferred_ok_update [OF t(1)])
    show "token ?e \<noteq> INVALID_DEFERRED_TOKEN \<Longrightarrow> callback ?e \<noteq> None"
      using requeue_token [of d "executors t ! i"] t assms(3) by (auto simp: deferred_ok_def)
  qed (use requeue_token [of d "executors t ! i"] in auto)
  then show thesis using that True c r t by (simp add: run_executor_def)
qed (use assms that in \<open>auto simp: run_executor_def\<close>)

lemma run_executors_ok:
  assumes "well_behaved call" "deferred_ok s" "\<forall>i \<in> set is. i < length (executors s)"
  shows "\<exists>s'. run_executors call now is s = Some s' \<and> deferred_ok s' \<and> length (executors s') = length (executors s)"
  using assms(2,3)
proof (induction "is" arbitrary: s)
  case (Cons i "is")
  obtain t where t: "run_executor call now i s = Some t" "deferred_ok t" "length (executors t) = length (executors s)"
    using run_executor_ok [OF assms(1) Cons.prems(1)] Cons.prems(2) by (metis list.set_intros(1))
  have "\<forall>i \<in> set is. i < length (executors t)" using Cons.prems(2) t(3) by simp
  from Cons.IH [OF t(2) this] show ?case using t by auto
qed simp

lemma task_ok:
  assumes "well_behaved call" "deferred_ok s"
  shows "\<exists>s'. deferred_exec_advanced_task call now s = Some s' \<and> deferred_ok s' \<and> length (executors s') = length (executors s)"
proof -
  have "deferred_ok (s\<lparr>last_execution_time := now\<rparr>)" using assms(2) by (simp add: deferred_ok_def)
  from run_executors_ok [OF assms(1) this, of "[0..<length (executors s)]" now] show ?thesis
    using assms(2) by (auto simp: deferred_exec_advanced_task_def)
qed

text \<open>The states a table of \<^verbatim>\<open>n\<close> slots goes through.\<close>

inductive table_reaches :: "('c, 'a, 'w) callback_fn \<Rightarrow> nat \<Rightarrow> ('c, 'a, 'w) deferred_st \<Rightarrow> bool" for call n where
  initial: "executors s = replicate n empty_executor \<Longrightarrow> table_reaches call n s"
| deferring: "table_reaches call n s \<Longrightarrow> table_reaches call n (snd (defer_exec_advanced now d cb arg s))"
| extending: "table_reaches call n s \<Longrightarrow> table_reaches call n (snd (extend_deferred_exec_advanced now t d s))"
| cancelling: "table_reaches call n s \<Longrightarrow> table_reaches call n (snd (cancel_deferred_exec_advanced t s))"
| running: "table_reaches call n s \<Longrightarrow> deferred_exec_advanced_task call now s = Some s' \<Longrightarrow> table_reaches call n s'"

lemma basic_executors_reached: "table_reaches call MAX_DEFERRED_EXECUTORS (basic_executors w)"
  by (rule table_reaches.initial) (simp add: basic_executors_def)

lemma reached_tables_ok:
  assumes "table_reaches call n s" "well_behaved call"
  shows "deferred_ok s \<and> length (executors s) = n"
  using assms(1)
proof induction
  case (initial s)
  then show ?case by (simp add: deferred_ok_def)
next
  case (running s now s')
  from task_ok [OF assms(2), of s now] running show ?case by auto
qed (simp_all add: defer_keeps_ok extend_keeps_ok cancel_keeps_ok operations_keep_length)


subsection \<open>When callbacks run\<close>

text \<open>
  Callbacks that leave the table alone: they change only their own world, in which \<open>logof\<close> reads the calls made so
  far (the callback, its trigger time and its argument).
\<close>

definition quiet :: "('c, 'a, 'w) callback_fn \<Rightarrow> ('w \<Rightarrow> ('c \<times> u32 \<times> 'a option) list) \<Rightarrow> bool" where
  "quiet call logof \<longleftrightarrow> (\<forall>c t a s. \<exists>w. snd (call c t a s) = s\<lparr>world := w\<rparr> \<and> logof w = logof (world s) @ [(c, t, a)])"

definition call_of :: "('c, 'a) executor \<Rightarrow> 'c \<times> u32 \<times> 'a option" where
  "call_of e = (the (callback e), trigger_time e, cb_arg e)"

definition calls_of :: "('w \<Rightarrow> ('c \<times> u32 \<times> 'a option) list) \<Rightarrow> 'c \<Rightarrow> ('c, 'a, 'w) deferred_st \<Rightarrow> ('c \<times> u32 \<times> 'a option) list" where
  "calls_of logof c s = filter (\<lambda>x. fst x = c) (logof (world s))"

fun run_tasks :: "('c, 'a, 'w) callback_fn \<Rightarrow> u32 list \<Rightarrow> ('c, 'a, 'w) deferred_st \<Rightarrow> ('c, 'a, 'w) deferred_st option" where
  "run_tasks call [] s = Some s"
| "run_tasks call (now # nows) s = Option.bind (deferred_exec_advanced_task call now s) (run_tasks call nows)"

lemma quiet_well_behaved:
  fixes call :: "('c, 'a, 'w) callback_fn"
  assumes "quiet call logof"
  shows "well_behaved call"
  unfolding well_behaved_def
proof (intro allI impI)
  fix c t a and s :: "('c, 'a, 'w) deferred_st"
  assume ok: "deferred_ok s"
  obtain w where "snd (call c t a s) = s\<lparr>world := w\<rparr>" using assms unfolding quiet_def by blast
  then show "deferred_ok (snd (call c t a s)) \<and> length (executors (snd (call c t a s))) = length (executors s)"
    using ok by (simp add: deferred_ok_def)
qed

text \<open>What one pass over the table does to an entry.\<close>

definition served :: "u32 \<Rightarrow> ('c, 'a) executor \<Rightarrow> ('c, 'a) executor \<Rightarrow> bool" where
  "served now e e' \<longleftrightarrow> (if due now e then \<exists>d. e' = requeue d e else e' = e)"

lemma run_executor_quiet:
  assumes "quiet call logof" "deferred_ok s" "i < length (executors s)"
  obtains e' s' where "run_executor call now i s = Some s'" "executors s' = (executors s)[i := e']"
    "served now (executors s ! i) e'" "last_execution_time s' = last_execution_time s"
    "logof (world s') = logof (world s) @ (if due now (executors s ! i) then [call_of (executors s ! i)] else [])"
proof (cases "due now (executors s ! i)")
  case True
  then obtain c where c: "callback (executors s ! i) = Some c" using assms(2,3) by (auto simp: deferred_ok_def due_def)
  obtain d t where r: "call c (trigger_time (executors s ! i)) (cb_arg (executors s ! i)) s = (d, t)" by force
  obtain w where "t = s\<lparr>world := w\<rparr>"
    "logof w = logof (world s) @ [(c, trigger_time (executors s ! i), cb_arg (executors s ! i))]"
    using assms(1) r unfolding quiet_def by (metis snd_conv)
  with True c r show thesis
    
    by (intro that [of "s\<lparr>world := w, executors := (executors s)[i := requeue d (executors s ! i)]\<rparr>" "requeue d (executors s ! i)"]) (auto simp: run_executor_def served_def call_of_def)
next
  case False
  then show thesis using that [of s "executors s ! i"] by (simp add: run_executor_def served_def)
qed

lemma run_executors_quiet:
  assumes "quiet call logof" "deferred_ok s" "k \<le> length (executors s)"
  shows "\<exists>s'. run_executors call now [k..<length (executors s)] s = Some s' \<and>
    length (executors s') = length (executors s) \<and> last_execution_time s' = last_execution_time s \<and>
    (\<forall>j < length (executors s). if j < k then executors s' ! j = executors s ! j else served now (executors s ! j) (executors s' ! j)) \<and>
    logof (world s') = logof (world s) @ map call_of (filter (due now) (drop k (executors s)))"
  using assms(2,3)
proof (induction "length (executors s) - k" arbitrary: k s)
  case 0
  then show ?case by simp
next
  case (Suc n)
  then have k: "k < length (executors s)" by simp
  obtain e' t where t: "run_executor call now k s = Some t" "executors t = (executors s)[k := e']"
    "served now (executors s ! k) e'" "last_execution_time t = last_execution_time s"
    "logof (world t) = logof (world s) @ (if due now (executors s ! k) then [call_of (executors s ! k)] else [])"
    using run_executor_quiet [OF assms(1) Suc.prems(1) k] by metis
  have l: "length (executors t) = length (executors s)" using t(2) by simp
  have ok: "deferred_ok t"
    using run_executor_ok [OF quiet_well_behaved [OF assms(1)] Suc.prems(1) k, of now] t(1) by (metis option.inject)
  have n: "n = length (executors t) - Suc k" "Suc k \<le> length (executors t)" using Suc.hyps(2) k l by simp_all
  obtain s' where s': "run_executors call now [Suc k..<length (executors s)] t = Some s'"
    "length (executors s') = length (executors s)" "last_execution_time s' = last_execution_time s"
    "\<forall>j < length (executors s). if j < Suc k then executors s' ! j = executors t ! j
       else served now (executors t ! j) (executors s' ! j)"
    "logof (world s') = logof (world t) @ map call_of (filter (due now) (drop (Suc k) (executors t)))"
    using Suc.hyps(1) [OF n(1) ok n(2)] l t(4) by auto
  have "run_executors call now [k..<length (executors s)] s = Some s'"
    using t(1) s'(1) k by (simp add: upt_rec [of k])
  moreover have "if j < k then executors s' ! j = executors s ! j else served now (executors s ! j) (executors s' ! j)"
    if "j < length (executors s)" for j
    using s'(4) that t(2,3) k by (cases "j = k") (auto split: if_splits)
  moreover have "logof (world s') = logof (world s) @ map call_of (filter (due now) (drop k (executors s)))"
    using s'(5) t(2,5) k by (simp add: Cons_nth_drop_Suc [symmetric])
  ultimately show ?case using s'(2,3) by blast
qed

lemma task_quiet:
  assumes "quiet call logof" "deferred_ok s" "sint (TIMER_DIFF_32 now (last_execution_time s)) > 0"
  obtains s' where "deferred_exec_advanced_task call now s = Some s'" "deferred_ok s'"
    "length (executors s') = length (executors s)" "last_execution_time s' = now"
    "\<And>j. j < length (executors s) \<Longrightarrow> served now (executors s ! j) (executors s' ! j)"
    "logof (world s') = logof (world s) @ map call_of (filter (due now) (executors s))"
proof -
  let ?s = "s\<lparr>last_execution_time := now\<rparr>"
  have ok: "deferred_ok ?s" using assms(2) by (simp add: deferred_ok_def)
  obtain s' where s': "run_executors call now [0..<length (executors s)] ?s = Some s'"
    "length (executors s') = length (executors s)" "last_execution_time s' = now"
    "\<forall>j < length (executors s). served now (executors s ! j) (executors s' ! j)"
    "logof (world s') = logof (world s) @ map call_of (filter (due now) (executors s))"
    using run_executors_quiet [OF assms(1) ok, of 0 now] by auto
  have r: "deferred_exec_advanced_task call now s = Some s'" using s'(1) assms(3) by (simp add: deferred_exec_advanced_task_def)
  then have "deferred_ok s'" using task_ok [OF quiet_well_behaved [OF assms(1)] assms(2), of now] by auto
  with r s' show thesis by (intro that) auto
qed


text \<open>Distances between times that are less than half the range of the timer apart.\<close>

lemma sint_distance:
  assumes "- (2 ^ 31) \<le> x - y" "x - y < 2 ^ 31"
  shows "sint (TIMER_DIFF_32 (t + word_of_int x) (t + word_of_int y)) = x - y"
proof -
  have e: "TIMER_DIFF_32 (t + word_of_int x) (t + word_of_int y) = (word_of_int (x - y) :: u32)"
    by (simp add: TIMER_DIFF_32_def)
  have "sint (word_of_int z :: u32) = z" if "- (2 ^ 31) \<le> z" "z < 2 ^ 31" for z
    using that by (simp add: sint_sbintrunc' signed_take_bit_int_eq_self)
  from this [of "x - y"] show ?thesis unfolding e using assms by blast
qed

text \<open>Slot \<open>i\<close>, and only it, waits to call \<open>c\<close> at time \<open>trig\<close>.\<close>

definition awaits :: "nat \<Rightarrow> 'c \<Rightarrow> u32 \<Rightarrow> 'a option \<Rightarrow> ('c, 'a, 'w) deferred_st \<Rightarrow> bool" where
  "awaits i c trig arg s \<longleftrightarrow> i < length (executors s) \<and>
    token (executors s ! i) \<noteq> INVALID_DEFERRED_TOKEN \<and> trigger_time (executors s ! i) = trig \<and>
    callback (executors s ! i) = Some c \<and> cb_arg (executors s ! i) = arg \<and>
    (\<forall>j < length (executors s). callback (executors s ! j) = Some c \<longrightarrow> j = i)"

lemma awaits_calls:
  assumes "awaits i c trig arg s" "deferred_ok s"
  shows "filter (\<lambda>x. fst x = c) (map call_of (filter (due now) (executors s))) =
    (if due now (executors s ! i) then [(c, trig, arg)] else [])"
proof -
  let ?tab = "executors s"
  have i: "i < length ?tab" using assms(1) by (simp add: awaits_def)
  have other: "filter (\<lambda>x. fst x = c) (map call_of (filter (due now) es)) = []"
    if es: "\<forall>e \<in> set es. \<exists>j < length ?tab. j \<noteq> i \<and> e = ?tab ! j" for es
  proof -
    have "fst (call_of e) \<noteq> c" if e: "e \<in> set es" "due now e" for e
    proof -
      obtain j where j: "j < length ?tab" "j \<noteq> i" "e = ?tab ! j" using bspec [OF es e(1)] by (elim exE conjE)
      have "callback e \<noteq> None" using assms(2) e(2) j by (auto simp: deferred_ok_def due_def)
      moreover have "callback e \<noteq> Some c" using assms(1) j by (auto simp: awaits_def)
      ultimately show ?thesis by (auto simp: call_of_def)
    qed
    then show ?thesis unfolding filter_map filter_filter map_is_Nil_conv by (simp add: filter_empty_conv)
  qed
  have before: "filter (\<lambda>x. fst x = c) (map call_of (filter (due now) (take i ?tab))) = []"
  proof (intro other ballI)
    fix e assume "e \<in> set (take i ?tab)"
    then obtain k where "k < i" "e = ?tab ! k" by (auto simp: in_set_conv_nth)
    then show "\<exists>j < length ?tab. j \<noteq> i \<and> e = ?tab ! j" using i by (intro exI [of _ k]) auto
  qed
  have after: "filter (\<lambda>x. fst x = c) (map call_of (filter (due now) (drop (Suc i) ?tab))) = []"
  proof (intro other ballI)
    fix e assume "e \<in> set (drop (Suc i) ?tab)"
    then obtain k where "k < length ?tab - Suc i" "e = ?tab ! (Suc i + k)" by (auto simp: in_set_conv_nth)
    then show "\<exists>j < length ?tab. j \<noteq> i \<and> e = ?tab ! j" by (intro exI [of _ "Suc i + k"]) auto
  qed
  have "call_of (?tab ! i) = (c, trig, arg)" using assms(1) by (auto simp: awaits_def call_of_def)
  then show ?thesis
    by (subst id_take_nth_drop [OF i]) (simp add: before after)
qed

lemma served_callback: "served now e e' \<Longrightarrow> callback e' = callback e \<or> callback e' = None"
  by (auto simp: served_def requeue_def empty_executor_def split: if_splits)

lemma awaits_step:
  assumes q: "quiet call logof" and ok: "deferred_ok s" and w: "awaits i c trig arg s"
  obtains s' where "deferred_exec_advanced_task call now s = Some s'" "deferred_ok s'"
    "\<not> due now (executors s ! i) \<Longrightarrow> awaits i c trig arg s'"
    "\<not> due now (executors s ! i) \<Longrightarrow> calls_of logof c s' = calls_of logof c s"
    "due now (executors s ! i) \<Longrightarrow> sint (TIMER_DIFF_32 now (last_execution_time s)) > 0 \<Longrightarrow>
      calls_of logof c s' = calls_of logof c s @ [(c, trig, arg)]"
    "last_execution_time s' = now \<or> last_execution_time s' = last_execution_time s"
proof (cases "sint (TIMER_DIFF_32 now (last_execution_time s)) > 0")
  case True
  obtain s' where s': "deferred_exec_advanced_task call now s = Some s'" "deferred_ok s'"
    "length (executors s') = length (executors s)" "last_execution_time s' = now"
    "\<And>j. j < length (executors s) \<Longrightarrow> served now (executors s ! j) (executors s' ! j)"
    "logof (world s') = logof (world s) @ map call_of (filter (due now) (executors s))"
    using task_quiet [OF q ok True] by metis
  have c: "calls_of logof c s' = calls_of logof c s @ (if due now (executors s ! i) then [(c, trig, arg)] else [])"
    using awaits_calls [OF w ok, of now] s'(6) by (simp add: calls_of_def)
  have a: "awaits i c trig arg s'" if "\<not> due now (executors s ! i)"
  proof -
    have "executors s' ! i = executors s ! i" using s'(5) [of i] w that by (auto simp: awaits_def served_def)
    moreover have "j = i" if "j < length (executors s')" "callback (executors s' ! j) = Some c" for j
      using served_callback [OF s'(5) [of j]] that w s'(3) by (auto simp: awaits_def)
    ultimately show ?thesis using w s'(3) by (auto simp: awaits_def)
  qed
  show thesis using that [OF s'(1,2) a] c s'(4) by simp
next
  case False
  then show thesis using that [of s] ok w by (simp add: deferred_exec_advanced_task_def)
qed

lemma due_later:
  assumes "awaits i c (t0 + of_nat d) arg s" "d < 2 ^ 31" "k < 2 ^ 31"
  shows "due (t0 + of_nat k) (executors s ! i) \<longleftrightarrow> d \<le> k"
proof -
  have "sint (TIMER_DIFF_32 (t0 + word_of_int (int d)) (t0 + word_of_int (int k))) = int d - int k"
    using assms(2,3) by (intro sint_distance) auto
  then show ?thesis using assms(1) by (auto simp: due_def awaits_def)
qed

lemma not_run_early:
  assumes "quiet call logof" "awaits i c (t0 + of_nat d) arg s" "deferred_ok s" "d < 2 ^ 31" "\<forall>k \<in> set ks. k < d"
    "last_execution_time s = t0 + word_of_int x" "- int m \<le> x" "x < int d"
  shows "\<exists>s' y. run_tasks call (map (\<lambda>k. t0 + of_nat k) ks) s = Some s' \<and> awaits i c (t0 + of_nat d) arg s' \<and> deferred_ok s' \<and>
    calls_of logof c s' = calls_of logof c s \<and> last_execution_time s' = t0 + word_of_int y \<and> - int m \<le> y \<and> y < int d"
  using assms(2,3,5,6,7,8)
proof (induction ks arbitrary: s x)
  case (Cons k ks)
  obtain t where t: "deferred_exec_advanced_task call (t0 + of_nat k) s = Some t" "deferred_ok t"
    "\<not> due (t0 + of_nat k) (executors s ! i) \<Longrightarrow> awaits i c (t0 + of_nat d) arg t"
    "\<not> due (t0 + of_nat k) (executors s ! i) \<Longrightarrow> calls_of logof c t = calls_of logof c s"
    "last_execution_time t = t0 + of_nat k \<or> last_execution_time t = last_execution_time s"
    using awaits_step [OF assms(1) Cons.prems(2,1), of "t0 + of_nat k"] by metis
  have k: "k < d" using Cons.prems(3) by simp
  then have "\<not> due (t0 + of_nat k) (executors s ! i)"
    using due_later [OF Cons.prems(1) assms(4), of k] assms(4) by simp
  note t = t(1,2) t(3,4) [OF this] t(5)
  have ks: "\<forall>k \<in> set ks. k < d" using Cons.prems(3) by simp
  obtain y where y: "last_execution_time t = t0 + word_of_int y" "- int m \<le> y" "y < int d"
    using t(5) Cons.prems(4,5,6) k by (metis less_imp_of_nat_less negative_zle of_int_of_nat_eq)
  from Cons.IH [OF t(3,2) ks y] t(1,4) show ?case by auto
qed auto

lemma first_slot_exists: "\<exists>e \<in> set tab. token e = t \<Longrightarrow> \<exists>i. first_slot tab t = Some i"
  by (induction tab) auto

text \<open>Putting a new callback into a table with a free slot.\<close>

lemma defer_awaits:
  assumes "\<forall>e \<in> set (executors s). callback e \<noteq> Some c" "\<exists>e \<in> set (executors s). token e = INVALID_DEFERRED_TOKEN"
    "length (executors s) < 255" "d \<noteq> 0"
  obtains tok s' i where "defer_exec_advanced now d (Some c) arg s = (tok, s')" "tok \<noteq> INVALID_DEFERRED_TOKEN"
    "awaits i c (now + d) arg s'" "world s' = world s" "last_execution_time s' = last_execution_time s"
proof -
  obtain i where i: "first_slot (executors s) INVALID_DEFERRED_TOKEN = Some i" using first_slot_exists [OF assms(2)] ..
  obtain t cur where a: "allocate_token (executors s) (current_token s) = (t, cur)" by force
  note u = allocate_token_succeeds [OF assms(3) a]
  let ?e = "\<lparr>token = cur, trigger_time = now + d, callback = Some c, cb_arg = arg\<rparr>"
  let ?s = "s\<lparr>current_token := cur, executors := (executors s)[i := ?e]\<rparr>"
  have b: "i < length (executors s)" using first_slot_bound [OF i] by simp
  have r: "defer_exec_advanced now d (Some c) arg s = (cur, ?s)" "cur \<noteq> INVALID_DEFERRED_TOKEN"
    using i a u assms(4) b by (auto simp: defer_exec_advanced_def token_can_be_used_def)
  have "awaits i c (now + d) arg ?s"
    using assms(1) b r(2) by (auto simp: awaits_def nth_list_update)
  from that [OF r this] show thesis by simp
qed


subsection \<open>Where the table surprises\<close>

text \<open>
  A callback that cancels its own entry and defers a new one gets the slot it is called from; when it then returns 0
  the task clears that slot, and the new entry is lost although its token was valid.
\<close>

definition restart_self :: "(nat, nat, unit) callback_fn" where
  "restart_self c t a s =
    (let (b, s1) = cancel_deferred_exec_advanced (current_token s) s;
         (tok, s2) = defer_exec_advanced t 10 (Some c) a s1 in (0, s2))"

lemma self_restart_is_lost:
  fixes s :: "(nat, nat, unit) deferred_st"
  assumes "s = \<lparr>current_token = 1, executors = [\<lparr>token = 1, trigger_time = 5, callback = Some 0, cb_arg = None\<rparr>],
    last_execution_time = 4, world = ()\<rparr>"
  shows "token (executors (snd (restart_self 0 5 None s)) ! 0) = 2"
    "map_option executors (deferred_exec_advanced_task restart_self 5 s) = Some [empty_executor]"
  unfolding assms
  by (simp_all add: restart_self_def cancel_deferred_exec_advanced_def defer_exec_advanced_def allocate_token_def
      alloc_loop.simps [of _ 2 2] token_can_be_used_def INVALID_DEFERRED_TOKEN_def empty_executor_def
      deferred_exec_advanced_task_def run_executor_def due_def requeue_def TIMER_DIFF_32_def)

text \<open>A delay of half the timer's range or more is due at the next pass.\<close>

lemma long_delay_runs_at_once:
  assumes "2 ^ 31 < d" "d < 2 ^ 32" "token e \<noteq> INVALID_DEFERRED_TOKEN" "trigger_time e = t0 + of_nat d"
  shows "due (t0 + 1) e"
proof -
  have "TIMER_DIFF_32 (trigger_time e) (t0 + 1) = word_of_int (int d - 2 ^ 32 - 1)"
    using assms(4) by (simp add: TIMER_DIFF_32_def)
  moreover have "sint (word_of_int z :: u32) = z" if "- (2 ^ 31) \<le> z" "z < 2 ^ 31" for z
    using that by (simp add: sint_sbintrunc' signed_take_bit_int_eq_self)
  from this [of "int d - 2 ^ 32 - 1"] have "sint (word_of_int (int d - 2 ^ 32 - 1) :: u32) = int d - 2 ^ 32 - 1"
    using assms(1,2) by simp
  ultimately show ?thesis using assms(2,3) by (simp add: due_def)
qed

subsection \<open>Properties\<close>

text \<open>C23: whatever is deferred, extended, cancelled and run, also by the callbacks themselves, two live entries of the
  table never share a token, and a pass over the table ends without calling a NULL callback.\<close>

theorem deferred_table_safe:
  assumes "table_reaches call n s" "well_behaved call"
  shows "(\<forall>i < n. \<forall>j < n. token (executors s ! i) = token (executors s ! j) \<longrightarrow>
      i = j \<or> token (executors s ! i) = INVALID_DEFERRED_TOKEN) \<and>
    deferred_exec_advanced_task call now s \<noteq> None"
proof -
  have r: "deferred_ok s" "length (executors s) = n" using reached_tables_ok [OF assms] by simp_all
  show ?thesis using r task_ok [OF assms(2) r(1), of now] unfolding deferred_ok_def by auto
qed

lemma restart_self_well_behaved: "well_behaved restart_self"
  by (auto simp: well_behaved_def restart_self_def operations_keep_length split: prod.splits)
    (metis cancel_keeps_ok defer_keeps_ok snd_conv, metis operations_keep_length(1,3) snd_conv)

lemma deferred_table_safe_witness:
  "\<exists>s. table_reaches restart_self 1 s \<and> token (executors s ! 0) = 1 \<and> deferred_exec_advanced_task restart_self 9 s \<noteq> None"
proof -
  let ?s = "\<lparr>current_token = 0, executors = [empty_executor], last_execution_time = 0, world = ()\<rparr> :: (nat, nat, unit) deferred_st"
  let ?t = "snd (defer_exec_advanced 5 3 (Some 7) None ?s)"
  have "table_reaches restart_self 1 ?t" by (intro table_reaches.intros) simp
  moreover have "token (executors ?t ! 0) = 1"
    by (simp add: defer_exec_advanced_def allocate_token_def alloc_loop.simps [of _ 1 1] token_can_be_used_def
        INVALID_DEFERRED_TOKEN_def empty_executor_def)
  ultimately show ?thesis using deferred_table_safe [OF _ restart_self_well_behaved] by blast
qed

text \<open>C22: a callback that is deferred by \<open>d\<close> milliseconds is not called by any pass over the table before \<open>d\<close>
  milliseconds have gone by, and the first pass from then on calls it exactly once, with its trigger time and
  its argument, whatever other entries the table has.\<close>

theorem deferred_runs_when_due:
  assumes "quiet call logof" "deferred_ok s" "length (executors s) < 255"
    "\<forall>e \<in> set (executors s). callback e \<noteq> Some c" "\<exists>e \<in> set (executors s). token e = INVALID_DEFERRED_TOKEN"
    "0 < d" "\<forall>k \<in> set ks. k < d" "d \<le> k" "k + m < 2 ^ 31" "last_execution_time s = t0 - of_nat m"
  shows "\<exists>tok s1 s2 s3. defer_exec_advanced t0 (of_nat d) (Some c) arg s = (tok, s1) \<and> tok \<noteq> INVALID_DEFERRED_TOKEN \<and>
    run_tasks call (map (\<lambda>k. t0 + of_nat k) ks) s1 = Some s2 \<and> calls_of logof c s2 = calls_of logof c s \<and>
    deferred_exec_advanced_task call (t0 + of_nat k) s2 = Some s3 \<and>
    calls_of logof c s3 = calls_of logof c s @ [(c, t0 + of_nat d, arg)]"
proof -
  have "unat (of_nat d :: u32) = d" using assms(8,9) by (simp add: unat_of_nat take_bit_nat_eq_self)
  then have "of_nat d \<noteq> (0 :: u32)" using assms(6) by auto
  from defer_awaits [OF assms(4,5,3) this, of t0 arg]
  obtain tok s1 i where s1: "defer_exec_advanced t0 (of_nat d) (Some c) arg s = (tok, s1)" "tok \<noteq> INVALID_DEFERRED_TOKEN"
    "awaits i c (t0 + of_nat d) arg s1" "world s1 = world s" "last_execution_time s1 = last_execution_time s" by metis
  have ok: "deferred_ok s1" using defer_keeps_ok [OF assms(2)] s1(1) by (metis snd_conv)
  have d: "d < 2 ^ 31" using assms(8,9) by simp
  have "last_execution_time s1 = t0 + word_of_int (- int m)" using s1(5) assms(10) by simp
  from not_run_early [OF assms(1) s1(3) ok d assms(7) this, of m]
  obtain s2 y where s2: "run_tasks call (map (\<lambda>k. t0 + of_nat k) ks) s1 = Some s2" "awaits i c (t0 + of_nat d) arg s2"
    "deferred_ok s2" "calls_of logof c s2 = calls_of logof c s1" "last_execution_time s2 = t0 + word_of_int y"
    "- int m \<le> y" "y < int d" using assms(6) by auto
  have "sint (TIMER_DIFF_32 (t0 + word_of_int (int k)) (t0 + word_of_int y)) = int k - y"
    using s2(6,7) assms(8,9) by (intro sint_distance) auto
  then have "sint (TIMER_DIFF_32 (t0 + of_nat k) (last_execution_time s2)) > 0" using s2(5,7) assms(8) by simp
  moreover have "due (t0 + of_nat k) (executors s2 ! i)" using due_later [OF s2(2) d] assms(8,9) by simp
  ultimately obtain s3 where "deferred_exec_advanced_task call (t0 + of_nat k) s2 = Some s3"
    "calls_of logof c s3 = calls_of logof c s2 @ [(c, t0 + of_nat d, arg)]"
    using awaits_step [OF assms(1) s2(3,2), of "t0 + of_nat k"] by metis
  then show ?thesis using s1 s2 by (auto simp: calls_of_def)
qed

definition blink_callback :: "(nat, nat, (nat \<times> u32 \<times> nat option) list) callback_fn" where
  "blink_callback c t a s = (if c = 0 then 500 else 0, s\<lparr>world := world s @ [(c, t, a)]\<rparr>)"

lemma deferred_runs_when_due_witness:
  "\<exists>s1 s2 s3. snd (defer_exec_advanced 100 20 (Some 1) (Some 5) \<lparr>current_token = 0, executors = [empty_executor, empty_executor],
      last_execution_time = 98, world = []\<rparr>) = s1 \<and>
    run_tasks blink_callback [103, 119] s1 = Some s2 \<and> calls_of id 1 s2 = [] \<and>
    deferred_exec_advanced_task blink_callback 121 s2 = Some s3 \<and> calls_of id 1 s3 = [(1, 120, Some 5)]"
proof -
  let ?s = "\<lparr>current_token = 0, executors = [empty_executor, empty_executor],
    last_execution_time = 98, world = []\<rparr> :: (nat, nat, (nat \<times> u32 \<times> nat option) list) deferred_st"
  have q: "quiet blink_callback id" by (simp add: quiet_def blink_callback_def)
  have ok: "deferred_ok ?s" by (simp add: deferred_ok_def less_Suc_eq)
  have "\<exists>tok s1 s2 s3. defer_exec_advanced 100 (of_nat 20) (Some 1) (Some 5) ?s = (tok, s1) \<and> tok \<noteq> INVALID_DEFERRED_TOKEN \<and>
    run_tasks blink_callback (map (\<lambda>k. 100 + of_nat k) [3, 19]) s1 = Some s2 \<and> calls_of id 1 s2 = calls_of id 1 ?s \<and>
    deferred_exec_advanced_task blink_callback (100 + of_nat 21) s2 = Some s3 \<and>
    calls_of id 1 s3 = calls_of id 1 ?s @ [(1, 100 + of_nat 20, Some 5)]"
    by (rule deferred_runs_when_due [OF q ok, where m = 2]) (simp_all add: empty_executor_def)
  then show ?thesis by (auto simp: calls_of_def)
qed

end
