(* ===== verification/Qmk_Send_String.thy ===== *)
theory Qmk_Send_String
  imports Qmk_Keymap Qmk_Dynamic_Keymap
begin

text \<open>
  Typing text (\<^verbatim>\<open>quantum/send_string/send_string.c\<close>): the tables from ASCII to key codes, the escape sequences
  for taps, presses, releases and delays, and numbers in hexadecimal.  A string is the memory from its first
  byte on; reading past the end of it, or past a table, is None.  The timer advances by the waits of the
  functions; \<open>T\<close> is the one-shot timeout.  The second part is the other end: what a host with the US layout
  types when it receives the reports.
\<close>

subsection \<open>The tables\<close>

definition KCLUT_ENTRY :: "bool list \<Rightarrow> u8" where
  "KCLUT_ENTRY bs = foldr (\<lambda>(i, b) w. (if b then bitmask i else 0) OR w) (zip [0..<8] bs) 0"

definition no_chars :: "bool list" where
  "no_chars = replicate 8 False"

definition ascii_to_shift_lut :: "u8 list" where
  "ascii_to_shift_lut =
    [KCLUT_ENTRY no_chars, KCLUT_ENTRY no_chars, KCLUT_ENTRY no_chars, KCLUT_ENTRY no_chars,
     KCLUT_ENTRY [False, True, True, True, True, True, True, False],
     KCLUT_ENTRY [True, True, True, True, False, False, False, False],
     KCLUT_ENTRY no_chars,
     KCLUT_ENTRY [False, False, True, False, True, False, True, True],
     KCLUT_ENTRY (replicate 8 True), KCLUT_ENTRY (replicate 8 True), KCLUT_ENTRY (replicate 8 True),
     KCLUT_ENTRY [True, True, True, False, False, False, True, True],
     KCLUT_ENTRY no_chars, KCLUT_ENTRY no_chars, KCLUT_ENTRY no_chars,
     KCLUT_ENTRY [False, False, False, True, True, True, True, False]]"

definition ascii_to_altgr_lut :: "u8 list" where
  "ascii_to_altgr_lut = replicate 16 (KCLUT_ENTRY no_chars)"

definition ascii_to_dead_lut :: "u8 list" where
  "ascii_to_dead_lut = replicate 16 (KCLUT_ENTRY no_chars)"

definition ascii_to_keycode_lut :: "u8 list" where
  "ascii_to_keycode_lut =
    [0, 0, 0, 0, 0, 0, 0, 0, 0x2A, 0x2B, 0x28, 0, 0, 0, 0, 0,
     0, 0, 0, 0, 0, 0, 0, 0, 0, 0, 0, 0x29, 0, 0, 0, 0,
     0x2C, 0x1E, 0x34, 0x20, 0x21, 0x22, 0x24, 0x34, 0x26, 0x27, 0x25, 0x2E, 0x36, 0x2D, 0x37, 0x38,
     0x27, 0x1E, 0x1F, 0x20, 0x21, 0x22, 0x23, 0x24, 0x25, 0x26, 0x33, 0x33, 0x36, 0x2E, 0x37, 0x38,
     0x1F, 0x04, 0x05, 0x06, 0x07, 0x08, 0x09, 0x0A, 0x0B, 0x0C, 0x0D, 0x0E, 0x0F, 0x10, 0x11, 0x12,
     0x13, 0x14, 0x15, 0x16, 0x17, 0x18, 0x19, 0x1A, 0x1B, 0x1C, 0x1D, 0x2F, 0x31, 0x30, 0x23, 0x2D,
     0x35, 0x04, 0x05, 0x06, 0x07, 0x08, 0x09, 0x0A, 0x0B, 0x0C, 0x0D, 0x0E, 0x0F, 0x10, 0x11, 0x12,
     0x13, 0x14, 0x15, 0x16, 0x17, 0x18, 0x19, 0x1A, 0x1B, 0x1C, 0x1D, 0x2F, 0x31, 0x30, 0x35, 0x4C]"

definition PGM_LOADBIT :: "u8 list \<Rightarrow> nat \<Rightarrow> bool" where
  "PGM_LOADBIT mem pos \<longleftrightarrow> drop_bit (pos mod 8) (mem ! (pos div 8)) AND 0x01 = 1"

subsection \<open>Sending\<close>

text \<open>The tables end at 127; a byte above it reads past them.\<close>

definition send_char :: "u16 \<Rightarrow> u16 \<Rightarrow> u8 \<Rightarrow> action_st \<Rightarrow> action_st option" where
  "send_char T now ascii_code s =
    (if length ascii_to_keycode_lut \<le> unat ascii_code then None
     else
       let keycode = ascii_to_keycode_lut ! unat ascii_code;
           is_shifted = PGM_LOADBIT ascii_to_shift_lut (unat ascii_code);
           is_altgred = PGM_LOADBIT ascii_to_altgr_lut (unat ascii_code);
           is_dead = PGM_LOADBIT ascii_to_dead_lut (unat ascii_code);
           s = (if is_shifted then register_code T now KC_LEFT_SHIFT s else s);
           s = (if is_altgred then register_code T now KC_RIGHT_ALT s else s);
           s = tap_code T now keycode s;
           s = (if is_altgred then unregister_code T now KC_RIGHT_ALT s else s);
           s = (if is_shifted then unregister_code T now KC_LEFT_SHIFT s else s) in
       Some (if is_dead then tap_code T now KC_SPACE s else s))"

definition send_nibble :: "u16 \<Rightarrow> u16 \<Rightarrow> u8 \<Rightarrow> action_st \<Rightarrow> action_st option" where
  "send_nibble T now number s =
    (let n = number AND 0xF in if n \<le> 9 then send_char T now (n + 48) s else send_char T now (n - 10 + 97) s)"

definition send_byte :: "u16 \<Rightarrow> u16 \<Rightarrow> u8 \<Rightarrow> action_st \<Rightarrow> action_st option" where
  "send_byte T now number s =
    Option.bind (send_nibble T now (drop_bit 4 number) s) (send_nibble T now (number AND 0xF))"

definition send_word :: "u16 \<Rightarrow> u16 \<Rightarrow> u16 \<Rightarrow> action_st \<Rightarrow> action_st option" where
  "send_word T now number s =
    Option.bind (send_byte T now (ucast (drop_bit 8 number)) s) (send_byte T now (ucast (number AND 0xFF)))"

definition send_dword :: "u16 \<Rightarrow> u16 \<Rightarrow> u32 \<Rightarrow> action_st \<Rightarrow> action_st option" where
  "send_dword T now number s =
    Option.bind (send_word T now (ucast (drop_bit 16 number)) s) (send_word T now (ucast (number AND 0xFFFF)))"

text \<open>
  The argument of a delay: the milliseconds, and the memory from the byte on that ended it.  That byte is dropped
  by the step to the next character, a terminating NUL too.
\<close>

fun delay_argument :: "nat \<Rightarrow> u8 list \<Rightarrow> (nat \<times> u8 list) option" where
  "delay_argument ms [] = None"
| "delay_argument ms (c # mem) = (if 48 \<le> c \<and> c \<le> 57 then delay_argument (ms * 10 + unat (c - 48)) mem else Some (ms, c # mem))"

text \<open>One round of the loop without the interval: the new time, the memory from the next character on and the state.\<close>

definition send_escape :: "u16 \<Rightarrow> u16 \<Rightarrow> u8 list \<Rightarrow> action_st \<Rightarrow> (u16 \<times> u8 list \<times> action_st) option" where
  "send_escape T now mem s =
    (case mem of [] \<Rightarrow> None
     | c # mem1 \<Rightarrow>
        if c = SS_TAP_CODE then (case mem1 of [] \<Rightarrow> None | k # mem2 \<Rightarrow> Some (now, mem2, tap_code T now k s))
        else if c = SS_DOWN_CODE then (case mem1 of [] \<Rightarrow> None | k # mem2 \<Rightarrow> Some (now, mem2, register_code T now k s))
        else if c = SS_UP_CODE then (case mem1 of [] \<Rightarrow> None | k # mem2 \<Rightarrow> Some (now, mem2, unregister_code T now k s))
        else if c = SS_DELAY_CODE then
          (case delay_argument 0 mem1 of None \<Rightarrow> None | Some (ms, mem2) \<Rightarrow> Some (now + of_nat ms, tl mem2, s))
        else Some (now, mem1, s))"

lemma delay_argument_shorter: "delay_argument ms mem = Some (n, mem') \<Longrightarrow> mem' \<noteq> [] \<and> length mem' \<le> length mem"
  by (induction ms mem rule: delay_argument.induct) (auto split: if_splits)

lemma send_escape_shorter: "send_escape T now mem s = Some (now', mem', s') \<Longrightarrow> length mem' \<le> length mem"
  by (auto simp: send_escape_def split: list.splits if_splits option.splits prod.splits dest!: delay_argument_shorter)

function send_string_with_delay :: "u16 \<Rightarrow> u8 \<Rightarrow> u16 \<Rightarrow> u8 list \<Rightarrow> action_st \<Rightarrow> (u16 \<times> action_st) option" where
  "send_string_with_delay T interval now [] s = None"
| "send_string_with_delay T interval now (c # mem) s =
    (if c = 0 then Some (now, s)
     else if c = SS_QMK_PREFIX then
       (case send_escape T now mem s of
          None \<Rightarrow> None
        | Some (now', mem', s') \<Rightarrow> send_string_with_delay T interval (now' + ucast interval) mem' s')
     else
       (case send_char T now c s of
          None \<Rightarrow> None
        | Some s' \<Rightarrow> send_string_with_delay T interval (now + ucast interval) mem s'))"
  by pat_completeness auto

termination
  by (relation "measure (\<lambda>(T, interval, now, mem, s). length mem)") (auto dest: send_escape_shorter)

definition send_string :: "u16 \<Rightarrow> u16 \<Rightarrow> u8 list \<Rightarrow> action_st \<Rightarrow> (u16 \<times> action_st) option" where
  "send_string T now mem s = send_string_with_delay T 0 now mem s"

text \<open>A macro is sent piece by piece, each piece a string of its own with its terminator.\<close>

fun send_pieces :: "u16 \<Rightarrow> u16 \<Rightarrow> u8 list list \<Rightarrow> action_st \<Rightarrow> (u16 \<times> action_st) option" where
  "send_pieces T now [] s = Some (now, s)"
| "send_pieces T now (p # ps) s =
    (case send_string T now (p @ [0]) s of None \<Rightarrow> None | Some (now', s') \<Rightarrow> send_pieces T now' ps s')"

subsection \<open>The host's side\<close>

text \<open>
  The usages of the keyboard page as a host with the US layout reads them (HID usage tables, section 10): usage,
  character, shifted character.
\<close>

definition us_keys :: "(u8 \<times> u8 \<times> u8) list" where
  "us_keys =
    [(0x1E, 49, 33), (0x1F, 50, 64), (0x20, 51, 35), (0x21, 52, 36), (0x22, 53, 37), (0x23, 54, 94), (0x24, 55, 38),
     (0x25, 56, 42), (0x26, 57, 40), (0x27, 48, 41), (0x28, 10, 10), (0x29, 27, 27), (0x2A, 8, 8), (0x2B, 9, 9),
     (0x2C, 32, 32), (0x2D, 45, 95), (0x2E, 61, 43), (0x2F, 91, 123), (0x30, 93, 125), (0x31, 92, 124), (0x33, 59, 58),
     (0x34, 39, 34), (0x35, 96, 126), (0x36, 44, 60), (0x37, 46, 62), (0x38, 47, 63), (0x4C, 127, 127),
     (0x54, 47, 47), (0x55, 42, 42), (0x56, 45, 45), (0x57, 43, 43), (0x58, 10, 10), (0x59, 49, 49), (0x5A, 50, 50),
     (0x5B, 51, 51), (0x5C, 52, 52), (0x5D, 53, 53), (0x5E, 54, 54), (0x5F, 55, 55), (0x60, 56, 56), (0x61, 57, 57),
     (0x62, 48, 48), (0x63, 46, 46)]"

definition us_char :: "bool \<Rightarrow> u8 \<Rightarrow> u8 option" where
  "us_char shift k =
    (if 0x04 \<le> k \<and> k \<le> 0x1D then Some (k - 0x04 + (if shift then 65 else 97))
     else map_option (if shift then snd else fst) (map_of us_keys k))"

definition SHIFTS :: u8 where "SHIFTS = 0x22"

definition all_usages :: "u8 list" where
  "all_usages = map of_nat [1..<256]"

text \<open>
  A key that was not in the last report gives a character, provided the modifiers other than shift are exactly
  \<open>m\<close>: with \<open>m = 0\<close> this is plain text, with another mask what is entered while that modifier is held.
\<close>

definition key_chars :: "u8 \<Rightarrow> u8 \<Rightarrow> u8 set \<Rightarrow> u8 list" where
  "key_chars m mods K =
    (if mods AND NOT SHIFTS = m then List.map_filter (us_char (mods AND SHIFTS \<noteq> 0)) (filter (\<lambda>k. k \<in> K) all_usages) else [])"

definition keys_at_host :: "host_mode \<Rightarrow> (host_driver_t \<times> report) list \<Rightarrow> u8 set" where
  "keys_at_host h rs = (case newest_keyboard rs of None \<Rightarrow> {} | Some r \<Rightarrow> report_pressed h r)"

fun host_typed :: "u8 \<Rightarrow> host_mode \<Rightarrow> (host_driver_t \<times> report) list \<Rightarrow> u8 list" where
  "host_typed m h [] = []"
| "host_typed m h ((d, Keyboard_report r) # rs) =
    host_typed m h rs @ key_chars m (fst (host_view h r)) (report_pressed h r - keys_at_host h rs)"
| "host_typed m h (_ # rs) = host_typed m h rs"

definition typed_by :: "u8 \<Rightarrow> action_st \<Rightarrow> u8 list" where
  "typed_by m s = host_typed m (mode s) (sent (host_if s))"

lemma key_chars_none [simp]: "key_chars m mods {} = []"
  by (simp add: key_chars_def map_filter_simps)

lemma filter_single: "distinct xs \<Longrightarrow> k \<in> set xs \<Longrightarrow> filter (\<lambda>x. x = k) xs = [k]"
  by (induction xs) (auto simp: filter_empty_conv)

lemma all_usages_facts: "distinct all_usages" "k \<noteq> 0 \<Longrightarrow> k \<in> set all_usages"
proof -
  have "inj_on (of_nat :: nat \<Rightarrow> u8) (set [1..<256])"
    by (rule inj_on_inverseI [of _ unat]) (simp add: unat_of_nat take_bit_nat_eq_self)
  then show "distinct all_usages" by (simp only: all_usages_def distinct_map distinct_upt simp_thms)
  show "k \<in> set all_usages" if "k \<noteq> 0"
    unfolding all_usages_def using that unsigned_less [of k, where 'a = nat]
    by (intro word_in_upt) (auto simp: Suc_le_eq unat_gt_0)
qed

lemma key_chars_one:
  "k \<noteq> 0 \<Longrightarrow> key_chars m mods {k} =
    (if mods AND NOT SHIFTS = m then (case us_char (mods AND SHIFTS \<noteq> 0) k of None \<Rightarrow> [] | Some c \<Rightarrow> [c]) else [])"
  using filter_single [OF all_usages_facts, of k] by (auto simp: key_chars_def map_filter_simps split: option.splits)

text \<open>What one report adds.\<close>

lemma send_typed:
  assumes "keys_inv s K"
  shows "typed_by m (send_keyboard_report T now s) =
      typed_by m s @ key_chars m (effective_mods T now s) (K - keys_at_host (mode s) (sent (host_if s)))"
    "keys_at_host (mode s) (sent (host_if (send_keyboard_report T now s))) = K"
proof -
  let ?c = "composed T now s"
  let ?s' = "send_keyboard_report T now s"
  have sync: "report_sync s" and K: "report_pressed (mode s) (keyboard_report s) = K" using assms by (simp_all add: keys_inv_def)
  have wf: "wf_report (keyboard_report s)" and d: "driver (host_if s) \<noteq> None" using sync by (auto simp: report_sync_def)
  note c = composed_facts [OF wf, of T now]
  note n = send_sync [OF sync, of T now]
  obtain r where r: "newest_keyboard (sent (host_if ?s')) = Some r"
    "host_view (mode s) r = (effective_mods T now s, drop 2 (keyboard_report s))" using n(2) by blast
  have p: "report_pressed (mode s) r = K" using pressed_of_view [OF r(2)] K by simp
  show "keys_at_host (mode s) (sent (host_if ?s')) = K" using r(1) p by (simp add: keys_at_host_def)
  show "typed_by m ?s' = typed_by m s @ key_chars m (effective_mods T now s) (K - keys_at_host (mode s) (sent (host_if s)))"
  proof (cases "keyboard_report ?c = last_report ?c")
    case True
    then have h: "host_if ?s' = host_if s" by (simp add: send_keyboard_report_eq Let_def c)
    then show ?thesis using r(1) p by (simp add: typed_by_def n(4) keys_at_host_def)
  next
    case False
    then have "host_if ?s' = snd (host_keyboard_send (mode s) (keyboard_report ?c) (host_if s))"
      by (simp add: send_keyboard_report_eq Let_def c)
    then obtain q where q: "sent (host_if ?s') = (the (driver (host_if s)), Keyboard_report q) # sent (host_if s)"
      using d by (auto simp: host_keyboard_send_def to_driver_def Let_def)
    then have "q = r" using r(1) by simp
    then show ?thesis using q r(2) p by (simp add: typed_by_def n(4))
  qed
qed

subsection \<open>Keys and modifiers in a quiet state\<close>

text \<open>No key is down, the host knows it, and \<open>M\<close> and the weak \<open>W\<close> are the only modifiers.\<close>

definition quiet_weak :: "u8 \<Rightarrow> u8 \<Rightarrow> action_st \<Rightarrow> bool" where
  "quiet_weak M W s \<longleftrightarrow> keys_inv s {} \<and> keys_at_host (mode s) (sent (host_if s)) = {} \<and> real_mods s = M \<and> weak_mods s = W \<and>
    oneshot_mods s = 0 \<and> suppressed_mods s = 0 \<and> weak_override_mods s = 0"

abbreviation quiet_with :: "u8 \<Rightarrow> action_st \<Rightarrow> bool" where
  "quiet_with M s \<equiv> quiet_weak M 0 s"

lemma quiet_effective: "real_mods s = M \<Longrightarrow> weak_mods s = W \<Longrightarrow> oneshot_mods s = 0 \<Longrightarrow> suppressed_mods s = 0 \<Longrightarrow>
    weak_override_mods s = 0 \<Longrightarrow> effective_mods T now s = M OR W"
  by (simp add: effective_mods_def)

lemma send_mods_frame:
  "real_mods (send_keyboard_report T now s) = real_mods s" "weak_mods (send_keyboard_report T now s) = weak_mods s"
  "suppressed_mods (send_keyboard_report T now s) = suppressed_mods s"
  "weak_override_mods (send_keyboard_report T now s) = weak_override_mods s"
  "oneshot_mods s = 0 \<Longrightarrow> oneshot_mods (send_keyboard_report T now s) = 0"
  by (simp_all add: send_keyboard_report_def compose_oneshot_def set_report_mods_def clear_oneshot_mods_def notify_def Let_def split_beta)

lemma key_mods_frame:
  "real_mods (add_key k s) = real_mods s" "weak_mods (add_key k s) = weak_mods s" "oneshot_mods (add_key k s) = oneshot_mods s"
  "suppressed_mods (add_key k s) = suppressed_mods s" "weak_override_mods (add_key k s) = weak_override_mods s"
  "real_mods (del_key k s) = real_mods s" "weak_mods (del_key k s) = weak_mods s" "oneshot_mods (del_key k s) = oneshot_mods s"
  "suppressed_mods (del_key k s) = suppressed_mods s" "weak_override_mods (del_key k s) = weak_override_mods s"
  by (simp_all add: add_key_def del_key_def)

lemma room_when_empty:
  assumes "report_wf h r" "report_pressed h r = {}" "IS_BASIC_KEYCODE k"
  shows "report_room h r k"
proof (cases "nkro_on h")
  case True
  have "unat k \<le> 0xA4" using assms(3) by (simp add: keycode_ranges word_le_nat_alt)
  then have "key_byte k < 30" by (simp add: key_byte_def unat_drop_bit_eq) (simp add: drop_bit_eq_div)
  then show ?thesis using True by (simp add: report_room_def)
next
  case False
  then have "length (report_keys r) = 6" "set (report_keys r) \<subseteq> {0}"
    using assms(1,2) by (auto simp: report_wf_def wf_boot_def report_pressed_def pressed_keys_alt)
  then have "0 \<in> set (report_keys r)" by (cases "report_keys r") auto
  then show ?thesis using False assms(3) by (auto simp: report_room_def keycode_ranges)
qed

text \<open>Tapping a key in a quiet state types its character.\<close>

lemma press_release_quiet:
  assumes "quiet_weak M W s" "IS_BASIC_KEYCODE k"
  shows "quiet_weak M W (unregister_code T now' k (register_code T now k s))" "mode (unregister_code T now' k (register_code T now k s)) = mode s"
    "typed_by m (unregister_code T now' k (register_code T now k s)) = typed_by m s @ key_chars m (M OR W) {k}"
proof -
  have i: "keys_inv s {}" and h: "keys_at_host (mode s) (sent (host_if s)) = {}"
    and f: "real_mods s = M" "weak_mods s = W" "oneshot_mods s = 0" "suppressed_mods s = 0" "weak_override_mods s = 0"
    using assms(1) by (simp_all add: quiet_weak_def)
  have wf: "report_wf (mode s) (keyboard_report s)" "report_pressed (mode s) (keyboard_report s) = {}"
    using i by (simp_all add: keys_inv_def)
  have nz: "k \<noteq> 0" using assms(2) by (auto simp: keycode_ranges)
  define a where "a = send_keyboard_report T now (add_key k s)"
  define b where "b = send_keyboard_report T now' (del_key k a)"
  have "\<not> is_key_pressed (mode s) (keyboard_report s) k"
    using is_key_pressed_iff [OF report_wf_imp [OF wf(1)]] nz wf(2) by simp
  then have tap: "unregister_code T now' k (register_code T now k s) = b"
    using nz assms(2) by (simp add: register_code_def unregister_code_def a_def b_def)
  have ia: "keys_inv (add_key k s) {k}"
    using add_key_inv [OF i room_when_empty [OF wf assms(2)]] by simp
  note sa = send_keys_inv [OF ia, of T now] and ta = send_typed(1) [OF ia, where m = m and T = T and now = now] send_typed(2) [OF ia, where T = T and now = now]
  have ib: "keys_inv (del_key k a) {}" using del_key_inv [OF sa(1), of k] by (simp add: a_def)
  note sb = send_keys_inv [OF ib, of T now'] and tb = send_typed(1) [OF ib, where m = m and T = T and now = now'] send_typed(2) [OF ib, where T = T and now = now']
  have mode: "mode a = mode s" "mode b = mode s" using sa(3) sb(3) by (simp_all add: a_def b_def frame_simps)
  have fa: "real_mods a = M" "weak_mods a = W" "oneshot_mods a = 0" "suppressed_mods a = 0" "weak_override_mods a = 0"
    using f by (simp_all add: a_def send_mods_frame key_mods_frame)
  have fb: "real_mods b = M" "weak_mods b = W" "oneshot_mods b = 0" "suppressed_mods b = 0" "weak_override_mods b = 0"
    using fa by (simp_all add: b_def send_mods_frame key_mods_frame)
  have "effective_mods T now (add_key k s) = M OR W" by (rule quiet_effective) (simp_all add: key_mods_frame f)
  then have typed_a: "typed_by m a = typed_by m s @ key_chars m (M OR W) {k}"
    using ta(1) h by (simp add: a_def frame_simps) (simp add: typed_by_def frame_simps)
  have "typed_by m b = typed_by m a"
    using tb(1) by (simp add: b_def) (simp add: typed_by_def frame_simps)
  then show "typed_by m (unregister_code T now' k (register_code T now k s)) = typed_by m s @ key_chars m (M OR W) {k}" by (simp add: tap typed_a)
  have "keys_at_host (mode b) (sent (host_if b)) = {}" using tb(2) mode by (simp add: b_def frame_simps)
  then show "quiet_weak M W (unregister_code T now' k (register_code T now k s))" using sb(1) fb by (simp add: quiet_weak_def tap b_def [symmetric])
  show "mode (unregister_code T now' k (register_code T now k s)) = mode s" using mode by (simp add: tap)
qed

lemma tap_code_quiet:
  assumes "quiet_weak M W s" "IS_BASIC_KEYCODE k"
  shows "quiet_weak M W (tap_code T now k s)" "mode (tap_code T now k s) = mode s"
    "typed_by m (tap_code T now k s) = typed_by m s @ key_chars m (M OR W) {k}"
  by (simp_all add: tap_code_def tap_code_delay_def press_release_quiet [OF assms])

text \<open>Changing the modifiers types nothing.\<close>

lemma mods_quiet:
  assumes "quiet_weak M W s" "s' = send_keyboard_report T now (s\<lparr>real_mods := M', weak_mods := W'\<rparr>)"
  shows "quiet_weak M' W' s'" "mode s' = mode s" "typed_by m s' = typed_by m s"
proof -
  let ?s = "s\<lparr>real_mods := M', weak_mods := W'\<rparr>"
  have i: "keys_inv ?s {}" and h: "keys_at_host (mode ?s) (sent (host_if ?s)) = {}"
    using assms(1) by (simp_all add: quiet_weak_def keys_inv_def report_sync_def frame_simps)
  note k = send_keys_inv [OF i, of T now] and t = send_typed(1) [OF i, where m = m and T = T and now = now] send_typed(2) [OF i, where T = T and now = now]
  show m: "mode s' = mode s" using k(3) by (simp add: assms(2) frame_simps)
  show "typed_by m s' = typed_by m s" using t(1) h by (simp add: assms(2)) (simp add: typed_by_def frame_simps)
  show "quiet_weak M' W' s'"
    using k(1) t(2) assms(1) m by (simp add: quiet_weak_def assms(2) send_mods_frame frame_simps)
qed

lemma register_modifier_quiet:
  assumes "quiet_with M s" "IS_MODIFIER_KEYCODE k"
  shows "quiet_with (M OR MOD_BIT k) (register_code T now k s)" "mode (register_code T now k s) = mode s"
    "typed_by m (register_code T now k s) = typed_by m s"
    "quiet_with (M AND NOT (MOD_BIT k)) (unregister_code T now k s)" "mode (unregister_code T now k s) = mode s"
    "typed_by m (unregister_code T now k s) = typed_by m s"
proof -
  have n: "k \<noteq> 0" "\<not> IS_BASIC_KEYCODE k" using assms(2) by (auto simp: keycode_ranges word_le_nat_alt)
  have w: "s\<lparr>real_mods := X\<rparr> = s\<lparr>real_mods := X, weak_mods := 0\<rparr>" for X
    using assms(1) by (cases s) (simp add: quiet_weak_def)
  have e: "register_code T now k s = send_keyboard_report T now (s\<lparr>real_mods := M OR MOD_BIT k, weak_mods := 0\<rparr>)"
    "unregister_code T now k s = send_keyboard_report T now (s\<lparr>real_mods := M AND NOT (MOD_BIT k), weak_mods := 0\<rparr>)"
    using assms n
    by (simp_all add: register_code_def unregister_code_def add_mods_def del_mods_def flip: w) (simp_all add: quiet_weak_def)
  note q = mods_quiet [OF assms(1)]
  show "quiet_with (M OR MOD_BIT k) (register_code T now k s)" "mode (register_code T now k s) = mode s"
    "typed_by m (register_code T now k s) = typed_by m s"
    "quiet_with (M AND NOT (MOD_BIT k)) (unregister_code T now k s)" "mode (unregister_code T now k s) = mode s"
    "typed_by m (unregister_code T now k s) = typed_by m s"
    by (rule q [OF e(1)] q [OF e(2)])+
qed

subsection \<open>Characters and text\<close>

text \<open>The tables against the layout: the characters that are typed, and that the others are not keys at all.\<close>

definition typable :: "u8 \<Rightarrow> bool" where
  "typable c \<longleftrightarrow> 32 \<le> c \<and> c \<le> 127 \<or> c \<in> {8, 9, 10, 27}"

definition char_entry_ok :: "nat \<Rightarrow> bool" where
  "char_entry_ok n \<longleftrightarrow>
    (let k = ascii_to_keycode_lut ! n in
     \<not> PGM_LOADBIT ascii_to_altgr_lut n \<and> \<not> PGM_LOADBIT ascii_to_dead_lut n \<and>
     (if typable (of_nat n) then IS_BASIC_KEYCODE k \<and> us_char (PGM_LOADBIT ascii_to_shift_lut n) k = Some (of_nat n)
      else k = 0 \<and> \<not> PGM_LOADBIT ascii_to_shift_lut n))"

lemma char_entries: "list_all char_entry_ok [0..<128]"
  by code_simp

lemma char_entry:
  assumes "unat c < 128"
  shows "\<not> PGM_LOADBIT ascii_to_altgr_lut (unat c)" "\<not> PGM_LOADBIT ascii_to_dead_lut (unat c)"
    "typable c \<Longrightarrow> IS_BASIC_KEYCODE (ascii_to_keycode_lut ! unat c)"
    "typable c \<Longrightarrow> us_char (PGM_LOADBIT ascii_to_shift_lut (unat c)) (ascii_to_keycode_lut ! unat c) = Some c"
    "\<not> typable c \<Longrightarrow> ascii_to_keycode_lut ! unat c = 0" "\<not> typable c \<Longrightarrow> \<not> PGM_LOADBIT ascii_to_shift_lut (unat c)"
proof -
  have c: "unat c \<in> set [0..<128]" unfolding set_upt atLeastLessThan_iff using assms by (intro conjI le0)
  have "char_entry_ok (unat c)" by (rule char_entries [unfolded list_all_iff, THEN bspec, OF c])
  then show "\<not> PGM_LOADBIT ascii_to_altgr_lut (unat c)" "\<not> PGM_LOADBIT ascii_to_dead_lut (unat c)"
    "typable c \<Longrightarrow> IS_BASIC_KEYCODE (ascii_to_keycode_lut ! unat c)"
    "typable c \<Longrightarrow> us_char (PGM_LOADBIT ascii_to_shift_lut (unat c)) (ascii_to_keycode_lut ! unat c) = Some c"
    "\<not> typable c \<Longrightarrow> ascii_to_keycode_lut ! unat c = 0" "\<not> typable c \<Longrightarrow> \<not> PGM_LOADBIT ascii_to_shift_lut (unat c)"
    by (simp_all add: char_entry_ok_def Let_def)
qed

lemma length_keycode_lut: "length ascii_to_keycode_lut = 128"
  by (simp add: ascii_to_keycode_lut_def)

lemma and_not_disjoint:
  assumes "a AND b = (0 :: 'a::len word)"
  shows "a AND NOT b = a"
proof -
  have "(a AND b) OR (a AND NOT b) = a" by (simp flip: bit.conj_disj_distrib)
  then show ?thesis using assms by simp
qed

lemma shift_bits:
  assumes "M AND SHIFTS = 0"
  shows "M AND NOT SHIFTS = M" "(M OR 2) AND NOT SHIFTS = M" "(M OR 2) AND SHIFTS \<noteq> 0" "(M OR 2) AND NOT 2 = M"
proof -
  show n: "M AND NOT SHIFTS = M"
    using assms by (rule and_not_disjoint)
  have s: "2 AND NOT SHIFTS = 0" "2 AND SHIFTS = 2" "(2 :: u8) AND NOT 2 = 0" "SHIFTS AND 2 = 2" by (simp_all add: SHIFTS_def)
  show "(M OR 2) AND NOT SHIFTS = M" by (simp add: bit.conj_disj_distrib2 n s(1))
  show "(M OR 2) AND SHIFTS \<noteq> 0" by (simp add: bit.conj_disj_distrib2 assms s(2))
  have "M AND 2 = (M AND SHIFTS) AND 2" by (simp only: and.assoc s(4))
  then have "M AND NOT 2 = M" using assms by (intro and_not_disjoint) simp
  then show "(M OR 2) AND NOT 2 = M" by (simp add: bit.conj_disj_distrib2 s(3))
qed

lemma left_shift: "IS_MODIFIER_KEYCODE KC_LEFT_SHIFT" "MOD_BIT KC_LEFT_SHIFT = 2"
  by (simp_all add: keycode_ranges KC_LEFT_SHIFT_def MOD_BIT_def bitmask_def)

lemma tap_code_none [simp]: "tap_code T now 0 s = s"
  by (simp add: tap_code_def tap_code_delay_def register_code_def unregister_code_def)

text \<open>A character is typed, with any modifiers but shift held, and leaves the state as quiet as before.\<close>

lemma send_char_quiet:
  assumes "quiet_with M s" "M AND SHIFTS = 0" "unat c < 128"
  obtains s' where "send_char T now c s = Some s'" "quiet_with M s'" "mode s' = mode s"
    "\<forall>m. typed_by m s' = typed_by m s @ (if m = M \<and> typable c then [c] else [])"
proof -
  note e = char_entry [OF assms(3)]
  let ?k = "ascii_to_keycode_lut ! unat c"
  have nz: "IS_BASIC_KEYCODE k \<Longrightarrow> k \<noteq> 0" for k by (auto simp: keycode_ranges)
  show thesis
  proof (cases "typable c")
    case False
    then have "send_char T now c s = Some s" using e assms(3) by (simp add: send_char_def length_keycode_lut)
    from that [OF this assms(1)] show thesis using False by simp
  next
    case t: True
    note k = e(3) [OF t] and u = e(4) [OF t]
    show thesis
    proof (cases "PGM_LOADBIT ascii_to_shift_lut (unat c)")
      case False
      then have "send_char T now c s = Some (tap_code T now ?k s)"
        using e(1,2) assms(3) by (simp add: send_char_def length_keycode_lut)
      moreover have "key_chars m M {?k} = (if m = M then [c] else [])" for m
        using u False assms(2) shift_bits(1) [OF assms(2)] by (simp add: key_chars_one [OF nz [OF k]])
      ultimately show thesis using that tap_code_quiet [OF assms(1) k] t by simp
    next
      case True
      let ?a = "register_code T now KC_LEFT_SHIFT s"
      let ?b = "tap_code T now ?k ?a"
      let ?c = "unregister_code T now KC_LEFT_SHIFT ?b"
      have "send_char T now c s = Some ?c"
        using True e(1,2) assms(3) by (simp add: send_char_def length_keycode_lut)
      moreover note a = register_modifier_quiet(1-3) [OF assms(1) left_shift(1), where T = T and now = now, unfolded left_shift(2)]
      moreover note b = tap_code_quiet [OF a(1) k, where T = T and now = now]
      moreover note register_modifier_quiet(4-6) [OF b(1) left_shift(1), where T = T and now = now, unfolded left_shift(2)]
      moreover have "key_chars m (M OR 2) {?k} = (if m = M then [c] else [])" for m
        using u True shift_bits [OF assms(2)] by (simp add: key_chars_one [OF nz [OF k]])
      ultimately show thesis using that [of ?c] t shift_bits(4) [OF assms(2)] by simp
    qed
  qed
qed

lemma send_text_quiet:
  assumes "quiet_with M s" "M AND SHIFTS = 0" "\<forall>c \<in> set cs. unat c < 128 \<and> c \<noteq> 0 \<and> c \<noteq> SS_QMK_PREFIX"
  obtains s' now' where "send_string_with_delay T interval now (cs @ 0 # beyond) s = Some (now', s')" "quiet_with M s'" "mode s' = mode s"
    "typed_by M s' = typed_by M s @ filter typable cs" "now' = now + of_nat (length cs) * ucast interval"
  using assms(1,3)
proof (induction cs arbitrary: s now thesis)
  case Nil
  then show ?case by simp
next
  case (Cons c cs)
  have c: "unat c < 128" "c \<noteq> 0" "c \<noteq> SS_QMK_PREFIX" using Cons.prems(3) by auto
  obtain t where t: "send_char T now c s = Some t" "quiet_with M t" "mode t = mode s"
    "\<forall>m. typed_by m t = typed_by m s @ (if m = M \<and> typable c then [c] else [])"
    using send_char_quiet [OF Cons.prems(2) assms(2) c(1), of T now] by blast
  obtain s' now' where s': "send_string_with_delay T interval (now + ucast interval) (cs @ 0 # beyond) t = Some (now', s')"
    "quiet_with M s'" "mode s' = mode t" "typed_by M s' = typed_by M t @ filter typable cs"
    "now' = now + ucast interval + of_nat (length cs) * ucast interval"
    using Cons.IH [OF _ t(2)] Cons.prems(3) by auto
  show ?case
    using Cons.prems(1) [of now' s'] c(2,3) t s' by (simp add: algebra_simps)
qed

lemma send_pieces_quiet:
  assumes "quiet_with M s" "M AND SHIFTS = 0" "\<forall>c \<in> set cs. unat c < 128 \<and> c \<noteq> 0 \<and> c \<noteq> SS_QMK_PREFIX"
  obtains s' where "send_pieces T now (map (\<lambda>b. [b]) cs) s = Some (now, s')" "quiet_with M s'" "mode s' = mode s"
    "typed_by M s' = typed_by M s @ filter typable cs"
  using assms(1,3)
proof (induction cs arbitrary: s thesis)
  case Nil
  then show ?case by simp
next
  case (Cons c cs)
  have c: "\<forall>x \<in> set [c]. unat x < 128 \<and> x \<noteq> 0 \<and> x \<noteq> SS_QMK_PREFIX" using Cons.prems(3) by auto
  obtain t where t: "send_string T now [c, 0] s = Some (now, t)" "quiet_with M t" "mode t = mode s"
    "typed_by M t = typed_by M s @ filter typable [c]"
    using send_text_quiet [OF Cons.prems(2) assms(2) c, of T 0 now "[]"] by (auto simp: send_string_def)
  obtain s' where s': "send_pieces T now (map (\<lambda>b. [b]) cs) t = Some (now, s')" "quiet_with M s'" "mode s' = mode t"
    "typed_by M s' = typed_by M t @ filter typable cs"
    using Cons.IH [OF _ t(2)] Cons.prems(3) by auto
  show ?case using Cons.prems(1) [of s'] t s' by simp
qed

subsection \<open>Where strings end badly\<close>

text \<open>A byte above 127 reads past the tables, and an escape that the string ends in reads past the string.\<close>

lemma send_char_past_tables: "128 \<le> unat c \<Longrightarrow> send_char T now c s = None"
  by (simp add: send_char_def length_keycode_lut)

lemma send_string_open_escape:
  "send_string T now [SS_QMK_PREFIX, 0] s = None"
  "send_string T now [SS_QMK_PREFIX, SS_DELAY_CODE, 53, 0] s = None"
  by (simp_all add: send_string_def send_escape_def ss_consts)

lemma idle_quiet: "quiet_with 0 idle_action"
  using idle_keys_inv
  by (simp add: quiet_weak_def keys_at_host_def)
    (simp add: idle_action_def mode_def nkro_on_def NKRO_BIT_def report_pressed_def pressed_keys_alt report_keys_def empty_report_def)

subsection \<open>Properties\<close>

text \<open>C18: when no key and no modifier is down, sending a string of ASCII characters makes a host with the US layout
  type exactly its characters, in order, whatever the report mode and the interval; afterwards the host
  again sees no key and no modifier.  Control characters without a key are skipped.\<close>

theorem send_string_types_text:
  assumes "quiet_with 0 s" "\<forall>c \<in> set cs. unat c < 128 \<and> c \<noteq> 0 \<and> c \<noteq> SS_QMK_PREFIX"
  shows "\<exists>now' s'. send_string_with_delay T interval now (cs @ 0 # beyond) s = Some (now', s') \<and>
    typed_by 0 s' = typed_by 0 s @ filter typable cs \<and> quiet_with 0 s' \<and>
    now' = now + of_nat (length cs) * ucast interval"
  using send_text_quiet [OF assms(1) _ assms(2)] by (metis and_zero_eq bit.conj_zero_left)

theorem send_string_types_text_witness:
  "\<exists>now' s'. send_string_with_delay 0 5 100 [72, 105, 33, 7, 0] idle_action = Some (now', s') \<and>
    typed_by 0 s' = typed_by 0 idle_action @ [72, 105, 33] \<and> now' = 120"
  using send_string_types_text [OF idle_quiet, of "[72, 105, 33, 7]" 0 5 100 "[]"]
  by (auto simp: typable_def SS_QMK_PREFIX_def)

text \<open>C19: a text macro that is stored in the EEPROM through the host protocol is what its key types: if the macro
  buffer holds texts with their terminators, sending macro \<open>k\<close> reads the \<open>k\<close>-th one back and makes the
  host type its characters.\<close>

theorem stored_macro_is_typed:
  assumes "keymap_eeprom d dev_ok n contents read_ok" "dev_ok e"
    "\<forall>m \<in> set ms. \<forall>c \<in> set m. unat c < 128 \<and> c \<noteq> 0 \<and> c \<noteq> SS_QMK_PREFIX"
    "k < length ms" "k < DYNAMIC_KEYMAP_MACRO_COUNT"
    "read_at (contents e) DYNAMIC_KEYMAP_MACRO_EEPROM_ADDR DYNAMIC_KEYMAP_MACRO_EEPROM_SIZE =
      concat (map (\<lambda>m. m @ [0]) ms) @ unused"
    "last (concat (map (\<lambda>m. m @ [0]) ms) @ unused) = 0" "quiet_with 0 s"
  shows "\<exists>pieces s'. dynamic_keymap_macro_send d (of_nat k) e = Some pieces \<and>
    send_pieces T now pieces s = Some (now, s') \<and> typed_by 0 s' = typed_by 0 s @ filter typable (ms ! k) \<and> quiet_with 0 s'"
proof -
  have "\<forall>m \<in> set ms. plain m" using assms(3) by (auto simp: plain_def)
  note m = macro_send_sends_text [OF assms(1,2) this assms(4,5,6,7)]
  have "\<forall>c \<in> set (ms ! k). unat c < 128 \<and> c \<noteq> 0 \<and> c \<noteq> SS_QMK_PREFIX" using assms(3,4) by auto
  then show ?thesis using m send_pieces_quiet [OF assms(8), of "ms ! k" T now] by (metis and_zero_eq bit.conj_zero_left)
qed

theorem stored_macro_is_typed_witness:
  "\<exists>pieces s'. dynamic_keymap_macro_send (l4_dev mock_ops) (of_nat 0) (eeprom_write_block mock_ops [104, 105] 806 fresh_fee) =
      Some pieces \<and>
    send_pieces 0 7 pieces idle_action = Some (7, s') \<and> typed_by 0 s' = typed_by 0 idle_action @ [104, 105]"
proof -
  have "\<exists>pieces s'. dynamic_keymap_macro_send (l4_dev mock_ops) (of_nat 0) (eeprom_write_block mock_ops [104, 105] 806 fresh_fee) =
      Some pieces \<and>
    send_pieces 0 7 pieces idle_action = Some (7, s') \<and> typed_by 0 s' = typed_by 0 idle_action @ filter typable ([[104, 105]] ! 0) \<and>
    quiet_with 0 s'"
    by (rule stored_macro_is_typed [OF mock_keymap_eeprom text_macro_fee(1), where unused = "replicate 1239 0"])
      (simp_all add: text_macro_fee(2) DYNAMIC_KEYMAP_MACRO_COUNT_def SS_QMK_PREFIX_def idle_quiet)
  then show ?thesis by (auto simp: typable_def)
qed

end
