(* ===== verification/Qmk_Unicode.thy ===== *)
theory Qmk_Unicode
  imports Qmk_Send_String Qmk_Process_Keys
begin

text \<open>
  Unicode input (\<^verbatim>\<open>quantum/unicode/utf8.c\<close>, \<^verbatim>\<open>quantum/unicode/unicode.c\<close>, \<^verbatim>\<open>process_unicode_common.c\<close>,
  \<^verbatim>\<open>process_unicode.c\<close>, \<^verbatim>\<open>process_unicodemap.c\<close>): decoding UTF-8, the input modes, and the key sequences that enter a
  code point.  \<^verbatim>\<open>char\<close> is unsigned, as on this processor.  The state of the host's LEDs, the list of selected modes and
  the table of the unicode map are parameters; waits advance the time.
\<close>

subsection \<open>UTF-8\<close>

text \<open>A code point as \<^verbatim>\<open>int32_t\<close>; memory beyond the list cannot be read.\<close>

definition decode_sequence :: "u8 list \<Rightarrow> (u32 \<times> u8 list) option" where
  "decode_sequence str =
    (case str of [] \<Rightarrow> None
     | b0 # r0 \<Rightarrow>
        if b0 < 0x80 then Some (ucast b0, r0)
        else if b0 AND 0xE0 = 0xC0 then
          (case r0 of b1 # r \<Rightarrow> Some (push_bit 6 (ucast (b0 AND 0x1F)) OR ucast (b1 AND 0x3F), r) | _ \<Rightarrow> None)
        else if b0 AND 0xF0 = 0xE0 then
          (case r0 of b1 # b2 # r \<Rightarrow>
             Some (push_bit 12 (ucast (b0 AND 0x0F)) OR push_bit 6 (ucast (b1 AND 0x3F)) OR ucast (b2 AND 0x3F), r) | _ \<Rightarrow> None)
        else if b0 AND 0xF8 = 0xF0 \<and> b0 \<le> 0xF4 then
          (case r0 of b1 # b2 # b3 # r \<Rightarrow>
             Some (push_bit 18 (ucast (b0 AND 0x07)) OR push_bit 12 (ucast (b1 AND 0x3F)) OR push_bit 6 (ucast (b2 AND 0x3F)) OR
               ucast (b3 AND 0x3F), r) | _ \<Rightarrow> None)
        else Some (- 1, r0))"

definition decode_utf8 :: "u8 list \<Rightarrow> (u32 \<times> u8 list) option" where
  "decode_utf8 str =
    (case decode_sequence str of None \<Rightarrow> None
     | Some (code_point, r) \<Rightarrow>
        Some (if 0xD800 \<le> sint code_point \<and> sint code_point \<le> 0xDFFF then - 1 else code_point, r))"

subsection \<open>State and input modes\<close>

definition UNICODE_MODE_MACOS :: u8 where "UNICODE_MODE_MACOS = 0"
definition UNICODE_MODE_LINUX :: u8 where "UNICODE_MODE_LINUX = 1"
definition UNICODE_MODE_WINDOWS :: u8 where "UNICODE_MODE_WINDOWS = 2"
definition UNICODE_MODE_BSD :: u8 where "UNICODE_MODE_BSD = 3"
definition UNICODE_MODE_WINCOMPOSE :: u8 where "UNICODE_MODE_WINCOMPOSE = 4"
definition UNICODE_MODE_EMACS :: u8 where "UNICODE_MODE_EMACS = 5"

lemmas unicode_modes = UNICODE_MODE_MACOS_def UNICODE_MODE_LINUX_def UNICODE_MODE_WINDOWS_def UNICODE_MODE_BSD_def
  UNICODE_MODE_WINCOMPOSE_def UNICODE_MODE_EMACS_def

definition EECONFIG_UNICODEMODE :: nat where "EECONFIG_UNICODEMODE = 12"
definition UNICODE_TYPE_DELAY :: u16 where "UNICODE_TYPE_DELAY = 10"

text \<open>Calls of the hooks for a changed mode are recorded in \<open>mode_calls\<close>.\<close>

record 'e unicode_st =
  uact :: action_st
  input_mode :: u8
  unicode_saved_mods :: u8
  unicode_saved_led_state :: u8
  selected_index :: int
  ueeprom :: 'e
  mode_calls :: "u8 list"

definition map_uact :: "(action_st \<Rightarrow> action_st) \<Rightarrow> 'e unicode_st \<Rightarrow> 'e unicode_st" where
  "map_uact f s = s\<lparr>uact := f (uact s)\<rparr>"

definition unicode_input_mode_set_kb :: "u8 \<Rightarrow> 'e unicode_st \<Rightarrow> 'e unicode_st" where
  "unicode_input_mode_set_kb m s = s\<lparr>mode_calls := mode_calls s @ [m]\<rparr>"

definition persist_unicode_input_mode :: "'e eeprom_dev \<Rightarrow> 'e unicode_st \<Rightarrow> 'e unicode_st" where
  "persist_unicode_input_mode d s = s\<lparr>ueeprom := eeprom_update_byte d EECONFIG_UNICODEMODE (input_mode s) (ueeprom s)\<rparr>"

definition get_unicode_input_mode :: "'e unicode_st \<Rightarrow> u8" where
  "get_unicode_input_mode s = input_mode s"

definition set_unicode_input_mode :: "'e eeprom_dev \<Rightarrow> u8 \<Rightarrow> 'e unicode_st \<Rightarrow> 'e unicode_st" where
  "set_unicode_input_mode d m s = unicode_input_mode_set_kb m (persist_unicode_input_mode d (s\<lparr>input_mode := m\<rparr>))"

text \<open>The index of the first selected mode that is the current one.\<close>

fun find_mode :: "u8 list \<Rightarrow> u8 \<Rightarrow> nat option" where
  "find_mode [] m = None"
| "find_mode (x # xs) m = (if x = m then Some 0 else map_option Suc (find_mode xs m))"

text \<open>\<open>selected\<close> is empty when \<^verbatim>\<open>UNICODE_SELECTED_MODES\<close> is -1; \<open>persist\<close> is \<^verbatim>\<open>UNICODE_CYCLE_PERSIST\<close>.\<close>

definition unicode_input_mode_init :: "'e eeprom_dev \<Rightarrow> u8 list \<Rightarrow> bool \<Rightarrow> 'e unicode_st \<Rightarrow> 'e unicode_st" where
  "unicode_input_mode_init d selected persist s =
    (let s = s\<lparr>input_mode := eeprom_read_byte d EECONFIG_UNICODEMODE (ueeprom s)\<rparr>;
         s = (if selected = [] then s
              else case (if persist then find_mode selected (input_mode s) else None) of
                  Some i \<Rightarrow> s\<lparr>selected_index := int i\<rparr>
                | None \<Rightarrow> s\<lparr>input_mode := selected ! 0, selected_index := 0\<rparr>) in
     unicode_input_mode_set_kb (input_mode s) s)"

text \<open>The remainder of C has the sign of the dividend.\<close>

definition c_rem :: "int \<Rightarrow> int \<Rightarrow> int" where
  "c_rem a b = (if a < 0 then - ((- a) mod b) else a mod b)"

definition cycle_unicode_input_mode :: "'e eeprom_dev \<Rightarrow> u8 list \<Rightarrow> bool \<Rightarrow> int \<Rightarrow> 'e unicode_st \<Rightarrow> 'e unicode_st" where
  "cycle_unicode_input_mode d selected persist offset s =
    (if selected = [] then s
     else
       let i = c_rem (selected_index s + offset) (int (length selected));
           i = (if i < 0 then i + int (length selected) else i);
           s = s\<lparr>selected_index := i, input_mode := selected ! nat i\<rparr>;
           s = (if persist then persist_unicode_input_mode d s else s) in
       unicode_input_mode_set_kb (input_mode s) s)"

subsection \<open>The key sequences around a code point\<close>

definition KC_NUM_LOCK :: u8 where "KC_NUM_LOCK = 0x53"
definition KC_KP_PLUS :: u8 where "KC_KP_PLUS = 0x57"
definition KC_KP_1 :: u8 where "KC_KP_1 = 0x59"
definition KC_U :: u8 where "KC_U = 0x18"
definition KC_8 :: u8 where "KC_8 = 0x25"

definition UNICODE_KEY_MAC :: u8 where "UNICODE_KEY_MAC = KC_LEFT_ALT"
definition UNICODE_KEY_LNX :: u16 where "UNICODE_KEY_LNX = 0x0100 OR (0x0200 OR ucast KC_U)"
definition UNICODE_KEY_WINC :: u8 where "UNICODE_KEY_WINC = KC_RIGHT_ALT"
definition LCTL_KC_X :: u16 where "LCTL_KC_X = 0x0100 OR 0x1B"
definition LCTL_KC_G :: u16 where "LCTL_KC_G = 0x0100 OR 0x0A"

definition num_lock :: "u8 \<Rightarrow> bool" where "num_lock led = bit led 0"
definition caps_lock :: "u8 \<Rightarrow> bool" where "caps_lock led = bit led 1"

definition input_start_keys :: "u16 \<Rightarrow> u16 \<Rightarrow> u8 \<Rightarrow> u8 \<Rightarrow> action_st \<Rightarrow> action_st" where
  "input_start_keys T now led m s =
    (if m = UNICODE_MODE_MACOS then register_code T now UNICODE_KEY_MAC s
     else if m = UNICODE_MODE_LINUX then tap_code16 T now UNICODE_KEY_LNX s
     else if m = UNICODE_MODE_WINDOWS then
       let s = (if \<not> num_lock led then tap_code T now KC_NUM_LOCK s else s);
           s = register_code T now KC_LEFT_ALT s in
       tap_code T (now + UNICODE_TYPE_DELAY) KC_KP_PLUS s
     else if m = UNICODE_MODE_WINCOMPOSE then tap_code T now KC_U (tap_code T now UNICODE_KEY_WINC s)
     else if m = UNICODE_MODE_EMACS then
       tap_code16 T now (ucast KC_ENTER) (tap_code16 T now (ucast KC_8) (tap_code16 T now LCTL_KC_X s))
     else s)"

definition unicode_input_start :: "u16 \<Rightarrow> u16 \<Rightarrow> u8 \<Rightarrow> 'e unicode_st \<Rightarrow> 'e unicode_st" where
  "unicode_input_start T now leds s =
    (let s = s\<lparr>unicode_saved_led_state := leds\<rparr>;
         s = (if input_mode s = UNICODE_MODE_LINUX \<and> caps_lock leds then map_uact (tap_code T now KC_CAPS_LOCK) s else s);
         s = s\<lparr>unicode_saved_mods := get_mods (uact s)\<rparr>;
         s = map_uact (\<lambda>a. clear_weak_mods (clear_mods a)) s in
     map_uact (input_start_keys T now (unicode_saved_led_state s) (input_mode s)) s)"

definition input_finish_keys :: "u16 \<Rightarrow> u16 \<Rightarrow> u8 \<Rightarrow> u8 \<Rightarrow> action_st \<Rightarrow> action_st" where
  "input_finish_keys T now led m s =
    (if m = UNICODE_MODE_MACOS then unregister_code T now UNICODE_KEY_MAC s
     else if m = UNICODE_MODE_LINUX then
       let s = tap_code T now KC_SPACE s in if caps_lock led then tap_code T now KC_CAPS_LOCK s else s
     else if m = UNICODE_MODE_WINDOWS then
       let s = unregister_code T now KC_LEFT_ALT s in if \<not> num_lock led then tap_code T now KC_NUM_LOCK s else s
     else if m = UNICODE_MODE_WINCOMPOSE then tap_code T now KC_ENTER s
     else if m = UNICODE_MODE_EMACS then tap_code16 T now (ucast KC_ENTER) s
     else s)"

definition unicode_input_finish :: "u16 \<Rightarrow> u16 \<Rightarrow> 'e unicode_st \<Rightarrow> 'e unicode_st" where
  "unicode_input_finish T now s =
    map_uact (set_mods (unicode_saved_mods s)) (map_uact (input_finish_keys T now (unicode_saved_led_state s) (input_mode s)) s)"

definition input_cancel_keys :: "u16 \<Rightarrow> u16 \<Rightarrow> u8 \<Rightarrow> u8 \<Rightarrow> action_st \<Rightarrow> action_st" where
  "input_cancel_keys T now led m s =
    (if m = UNICODE_MODE_MACOS then unregister_code T now UNICODE_KEY_MAC s
     else if m = UNICODE_MODE_LINUX then
       let s = tap_code T now KC_ESCAPE s in if caps_lock led then tap_code T now KC_CAPS_LOCK s else s
     else if m = UNICODE_MODE_WINCOMPOSE then tap_code T now KC_ESCAPE s
     else if m = UNICODE_MODE_WINDOWS then
       let s = unregister_code T now KC_LEFT_ALT s in if \<not> num_lock led then tap_code T now KC_NUM_LOCK s else s
     else if m = UNICODE_MODE_EMACS then tap_code16 T now LCTL_KC_G s
     else s)"

definition unicode_input_cancel :: "u16 \<Rightarrow> u16 \<Rightarrow> 'e unicode_st \<Rightarrow> 'e unicode_st" where
  "unicode_input_cancel T now s =
    map_uact (set_mods (unicode_saved_mods s)) (map_uact (input_cancel_keys T now (unicode_saved_led_state s) (input_mode s)) s)"

subsection \<open>Digits\<close>

definition send_nibble_wrapper :: "u16 \<Rightarrow> u16 \<Rightarrow> u8 \<Rightarrow> u8 \<Rightarrow> action_st \<Rightarrow> action_st option" where
  "send_nibble_wrapper T now m digit s =
    (if m = UNICODE_MODE_WINDOWS then
       let kc = (if digit < 10 then KC_KP_1 + (10 + digit - 1) mod 10 else KC_A + (digit - 10)) in
       Some (tap_code T now kc s)
     else send_nibble T now digit s)"

fun register_hex_loop :: "u16 \<Rightarrow> u16 \<Rightarrow> u8 \<Rightarrow> u16 \<Rightarrow> nat list \<Rightarrow> action_st \<Rightarrow> action_st option" where
  "register_hex_loop T now m hex [] s = Some s"
| "register_hex_loop T now m hex (i # is) s =
    Option.bind (send_nibble_wrapper T now m (ucast (drop_bit (i * 4) hex AND 0xF)) s) (register_hex_loop T now m hex is)"

definition register_hex :: "u16 \<Rightarrow> u16 \<Rightarrow> u8 \<Rightarrow> u16 \<Rightarrow> action_st \<Rightarrow> action_st option" where
  "register_hex T now m hex s = register_hex_loop T now m hex [3, 2, 1, 0] s"

fun register_hex32_loop :: "u16 \<Rightarrow> u16 \<Rightarrow> u8 \<Rightarrow> u32 \<Rightarrow> bool \<Rightarrow> nat list \<Rightarrow> action_st \<Rightarrow> action_st option" where
  "register_hex32_loop T now m hex first_digit [] s = Some s"
| "register_hex32_loop T now m hex first_digit (i # is) s =
    (let needs_leading_zero = (m = UNICODE_MODE_WINCOMPOSE);
         digit = ucast (drop_bit (i * 4) hex AND 0xF);
         s1 = (if first_digit \<and> needs_leading_zero \<and> digit > 9 then send_nibble_wrapper T now m 0 s else Some s);
         must_send = i < 4 in
     if digit \<noteq> 0 \<or> \<not> first_digit \<or> must_send then
       Option.bind (Option.bind s1 (send_nibble_wrapper T now m digit)) (register_hex32_loop T now m hex False is)
     else Option.bind s1 (register_hex32_loop T now m hex first_digit is))"

definition register_hex32 :: "u16 \<Rightarrow> u16 \<Rightarrow> u8 \<Rightarrow> u32 \<Rightarrow> action_st \<Rightarrow> action_st option" where
  "register_hex32 T now m hex s = register_hex32_loop T now m hex True [7, 6, 5, 4, 3, 2, 1, 0] s"

definition register_code_point :: "u16 \<Rightarrow> u16 \<Rightarrow> u8 \<Rightarrow> u32 \<Rightarrow> action_st \<Rightarrow> action_st option" where
  "register_code_point T now m code_point s =
    (if code_point > 0xFFFF \<and> m = UNICODE_MODE_MACOS then
       let code_point = code_point - 0x10000; lo = code_point AND 0x3FF; hi = drop_bit 10 (code_point AND 0xFFC00) in
       Option.bind (register_hex32 T now m (hi + 0xD800) s) (register_hex32 T now m (lo + 0xDC00))
     else register_hex32 T now m code_point s)"

definition register_unicode :: "u16 \<Rightarrow> u16 \<Rightarrow> u8 \<Rightarrow> u32 \<Rightarrow> 'e unicode_st \<Rightarrow> 'e unicode_st option" where
  "register_unicode T now leds code_point s =
    (if code_point > 0x10FFFF \<or> (code_point > 0xFFFF \<and> input_mode s = UNICODE_MODE_WINDOWS) then Some s
     else
       let s = unicode_input_start T now leds s; now = now + UNICODE_TYPE_DELAY in
       case register_code_point T now (input_mode s) code_point (uact s) of
         None \<Rightarrow> None
       | Some a \<Rightarrow> Some (unicode_input_finish T now (s\<lparr>uact := a\<rparr>)))"

lemma decode_utf8_shorter: "decode_utf8 str = Some (c, r) \<Longrightarrow> length r < length str"
  by (auto simp: decode_utf8_def decode_sequence_def split: list.splits if_splits option.splits prod.splits)

function send_unicode_string :: "u16 \<Rightarrow> u16 \<Rightarrow> u8 \<Rightarrow> u8 list \<Rightarrow> 'e unicode_st \<Rightarrow> 'e unicode_st option" where
  "send_unicode_string T now leds str s =
    (case str of [] \<Rightarrow> None
     | b # _ \<Rightarrow>
        if b = 0 then Some s
        else case decode_utf8 str of None \<Rightarrow> None
          | Some (code_point, r) \<Rightarrow>
             (case (if 0 \<le> sint code_point then register_unicode T now leds code_point s else Some s) of
                None \<Rightarrow> None
              | Some s1 \<Rightarrow> send_unicode_string T now leds r s1))"
  by pat_completeness auto

termination
  by (relation "measure (\<lambda>(T, now, leds, str, s). length str)") (auto dest: decode_utf8_shorter)

declare send_unicode_string.simps [simp del]

subsection \<open>The key handlers\<close>

definition QK_UNICODE :: u16 where "QK_UNICODE = 0x8000"
definition QK_UNICODEMAP :: u16 where "QK_UNICODEMAP = 0x8000"
definition QK_UNICODEMAP_PAIR :: u16 where "QK_UNICODEMAP_PAIR = 0xC000"
definition QK_UNICODEMAP_PAIR_MAX :: u16 where "QK_UNICODEMAP_PAIR_MAX = 0xFFFF"
definition QK_UNICODE_MODE_NEXT :: u16 where "QK_UNICODE_MODE_NEXT = 0x7C30"
definition QK_UNICODE_MODE_PREVIOUS :: u16 where "QK_UNICODE_MODE_PREVIOUS = 0x7C31"
definition QK_UNICODE_MODE_MACOS :: u16 where "QK_UNICODE_MODE_MACOS = 0x7C32"
definition QK_UNICODE_MODE_EMACS :: u16 where "QK_UNICODE_MODE_EMACS = 0x7C37"

definition MOD_MASK_SHIFT :: u8 where "MOD_MASK_SHIFT = 0x22"

text \<open>The keys that choose a mode are in the order of the modes.\<close>

definition mode_keys :: "u16 \<Rightarrow> u8 option" where
  "mode_keys keycode =
    (if QK_UNICODE_MODE_MACOS \<le> keycode \<and> keycode \<le> QK_UNICODE_MODE_EMACS
     then Some (ucast (keycode - QK_UNICODE_MODE_MACOS)) else None)"

definition process_unicode :: "u16 \<Rightarrow> u16 \<Rightarrow> u8 \<Rightarrow> u16 \<Rightarrow> bool \<Rightarrow> 'e unicode_st \<Rightarrow> (bool \<times> 'e unicode_st) option" where
  "process_unicode T now leds keycode pressed s =
    (if pressed \<and> QK_UNICODE \<le> keycode then
       map_option (Pair True) (register_unicode T now leds (ucast (keycode AND 0x7FFF)) s)
     else Some (True, s))"

definition unicodemap_index :: "u8 \<Rightarrow> u16 \<Rightarrow> action_st \<Rightarrow> u16" where
  "unicodemap_index leds keycode a =
    (if QK_UNICODEMAP_PAIR \<le> keycode then
       let mods = get_mods a OR get_weak_mods a OR oneshot_mods a;
           shift = (mods AND MOD_MASK_SHIFT \<noteq> 0); caps = caps_lock leds in
       if shift \<noteq> caps then drop_bit 7 keycode AND 0x7F else keycode AND 0x7F
     else keycode AND 0x3FFF)"

definition process_unicodemap ::
  "(u16 \<Rightarrow> u32) \<Rightarrow> u16 \<Rightarrow> u16 \<Rightarrow> u8 \<Rightarrow> u16 \<Rightarrow> bool \<Rightarrow> 'e unicode_st \<Rightarrow> (bool \<times> 'e unicode_st) option" where
  "process_unicodemap unicode_map T now leds keycode pressed s =
    (if QK_UNICODEMAP \<le> keycode \<and> keycode \<le> QK_UNICODEMAP_PAIR_MAX \<and> pressed then
       map_option (Pair True) (register_unicode T now leds (unicode_map (unicodemap_index leds keycode (uact s))) s)
     else Some (True, s))"

text \<open>\<open>handler\<close> is the handler of the method that is compiled in.\<close>

definition process_unicode_common ::
  "'e eeprom_dev \<Rightarrow> u8 list \<Rightarrow> bool \<Rightarrow> (u16 \<Rightarrow> bool \<Rightarrow> 'e unicode_st \<Rightarrow> (bool \<times> 'e unicode_st) option) \<Rightarrow>
    u16 \<Rightarrow> bool \<Rightarrow> 'e unicode_st \<Rightarrow> (bool \<times> 'e unicode_st) option" where
  "process_unicode_common d selected persist handler keycode pressed s =
    (let s = (if pressed then
        let shifted = (get_mods (uact s) AND MOD_MASK_SHIFT \<noteq> 0) in
        if keycode = QK_UNICODE_MODE_NEXT then cycle_unicode_input_mode d selected persist (if shifted then - 1 else 1) s
        else if keycode = QK_UNICODE_MODE_PREVIOUS then cycle_unicode_input_mode d selected persist (if shifted then 1 else - 1) s
        else (case mode_keys keycode of None \<Rightarrow> s | Some m \<Rightarrow> set_unicode_input_mode d m s)
      else s) in
     handler keycode pressed s)"

subsection \<open>Encoding and decoding\<close>

text \<open>UTF-8 as the standard defines it, on the 32 bits of a code point.\<close>

definition utf8 :: "u32 \<Rightarrow> u8 list" where
  "utf8 c =
    (if c < 0x80 then [ucast c]
     else if c < 0x800 then [0xC0 OR ucast (drop_bit 6 c), 0x80 OR (ucast c AND 0x3F)]
     else if c < 0x10000 then [0xE0 OR ucast (drop_bit 12 c), 0x80 OR (ucast (drop_bit 6 c) AND 0x3F), 0x80 OR (ucast c AND 0x3F)]
     else [0xF0 OR ucast (drop_bit 18 c), 0x80 OR (ucast (drop_bit 12 c) AND 0x3F), 0x80 OR (ucast (drop_bit 6 c) AND 0x3F),
           0x80 OR (ucast c AND 0x3F)])"

definition scalar_value :: "u32 \<Rightarrow> bool" where
  "scalar_value c \<longleftrightarrow> c < 0xD800 \<or> 0xDFFF < c \<and> c \<le> 0x10FFFF"

lemma small_bits:
  assumes "unat (c :: 'a::len word) < 2 ^ k" "bit c n"
  shows "n < k"
proof (rule ccontr)
  assume "\<not> n < k"
  then have "(2 :: nat) ^ k \<le> 2 ^ n" by (intro power_increasing) auto
  then have "unat c < 2 ^ n" using assms(1) by (rule less_le_trans [rotated])
  then have "unat c div 2 ^ n = 0" by (rule div_less)
  then have "\<not> bit (unat c) n" by (simp add: bit_iff_odd)
  then show False using assms(2) by (simp add: bit_unsigned_iff)
qed

lemma u8_bits_eqI:
  fixes x y :: u8
  assumes "bit x 0 = bit y 0" "bit x 1 = bit y 1" "bit x 2 = bit y 2" "bit x 3 = bit y 3" "bit x 4 = bit y 4" "bit x 5 = bit y 5"
    "bit x 6 = bit y 6" "bit x 7 = bit y 7"
  shows "x = y"
proof (rule bit_word_eqI)
  fix n assume "n < LENGTH(8)"
  then have "n \<in> {0, 1, 2, 3, 4, 5, 6, 7}" by auto
  then show "bit x n = bit y n" using assms by (elim insertE emptyE) simp_all
qed

text \<open>The bytes of a sequence, by their bits.\<close>

lemma continuation_byte: "(0x80 OR (x AND 0x3F)) AND 0x3F = (x AND 0x3F :: u8)"
  by (rule u8_bits_eqI) (simp_all add: bit_simps)

lemma lead_bytes:
  fixes x :: u8
  shows "x < 32 \<Longrightarrow> \<not> 0xC0 OR x < 0x80" "x < 32 \<Longrightarrow> (0xC0 OR x) AND 0xE0 = 0xC0" "x < 32 \<Longrightarrow> (0xC0 OR x) AND 0x1F = x"
    "x < 16 \<Longrightarrow> \<not> 0xE0 OR x < 0x80" "x < 16 \<Longrightarrow> (0xE0 OR x) AND 0xE0 \<noteq> 0xC0" "x < 16 \<Longrightarrow> (0xE0 OR x) AND 0xF0 = 0xE0"
    "x < 16 \<Longrightarrow> (0xE0 OR x) AND 0x0F = x"
    "x < 5 \<Longrightarrow> \<not> 0xF0 OR x < 0x80" "x < 5 \<Longrightarrow> (0xF0 OR x) AND 0xE0 \<noteq> 0xC0" "x < 5 \<Longrightarrow> (0xF0 OR x) AND 0xF0 \<noteq> 0xE0"
    "x < 5 \<Longrightarrow> (0xF0 OR x) AND 0xF8 = 0xF0" "x < 5 \<Longrightarrow> 0xF0 OR x \<le> 0xF4" "x < 5 \<Longrightarrow> (0xF0 OR x) AND 0x07 = x"
proof -
  have c: "x \<in> set (map of_nat [0..<n])" if "unat x < n" for n
    unfolding set_map by (rule image_eqI [of _ _ "unat x"]) (use that in auto)
  have five: "P" if "x < 5" "P" for P using that by simp
  show "x < 32 \<Longrightarrow> \<not> 0xC0 OR x < 0x80" "x < 32 \<Longrightarrow> (0xC0 OR x) AND 0xE0 = 0xC0" "x < 32 \<Longrightarrow> (0xC0 OR x) AND 0x1F = x"
    using c [of 32] by (auto simp: word_less_nat_alt upt_rec)
  show "x < 16 \<Longrightarrow> \<not> 0xE0 OR x < 0x80" "x < 16 \<Longrightarrow> (0xE0 OR x) AND 0xE0 \<noteq> 0xC0" "x < 16 \<Longrightarrow> (0xE0 OR x) AND 0xF0 = 0xE0"
    "x < 16 \<Longrightarrow> (0xE0 OR x) AND 0x0F = x"
    using c [of 16] by (auto simp: word_less_nat_alt upt_rec)
  show "x < 5 \<Longrightarrow> \<not> 0xF0 OR x < 0x80" "x < 5 \<Longrightarrow> (0xF0 OR x) AND 0xE0 \<noteq> 0xC0" "x < 5 \<Longrightarrow> (0xF0 OR x) AND 0xF0 \<noteq> 0xE0"
    "x < 5 \<Longrightarrow> (0xF0 OR x) AND 0xF8 = 0xF0" "x < 5 \<Longrightarrow> 0xF0 OR x \<le> 0xF4" "x < 5 \<Longrightarrow> (0xF0 OR x) AND 0x07 = x"
    using c [of 5] by (auto simp: word_less_nat_alt upt_rec)
qed

lemma six_bits: "x AND 0x3F = (take_bit 6 x :: u8)"
  by (simp add: take_bit_eq_mask mask_eq_exp_minus_1)

lemma six_pieces:
  fixes n :: nat
  obtains "n < 6" | k where "n = 6 + k" "k < 6" | k where "n = 12 + k" "k < 6" | k where "n = 18 + k"
proof -
  have "n < 6 \<or> n = 6 + (n - 6) \<and> n - 6 < 6 \<or> n = 12 + (n - 12) \<and> n - 12 < 6 \<or> n = 18 + (n - 18)" by arith
  then show thesis using that by blast
qed

lemma joined_bits:
  fixes c :: u32
  shows "(\<And>n. bit c n \<Longrightarrow> n < 11) \<Longrightarrow>
      push_bit 6 (ucast (ucast (drop_bit 6 c) :: u8)) OR ucast (take_bit 6 (ucast c :: u8)) = c" (is "PROP _ \<Longrightarrow> ?two = c")
    "(\<And>n. bit c n \<Longrightarrow> n < 16) \<Longrightarrow> push_bit 12 (ucast (ucast (drop_bit 12 c) :: u8)) OR
      push_bit 6 (ucast (take_bit 6 (ucast (drop_bit 6 c) :: u8))) OR ucast (take_bit 6 (ucast c :: u8)) = c" (is "PROP _ \<Longrightarrow> ?three = c")
    "(\<And>n. bit c n \<Longrightarrow> n < 21) \<Longrightarrow> push_bit 18 (ucast (ucast (drop_bit 18 c) :: u8)) OR
      push_bit 12 (ucast (take_bit 6 (ucast (drop_bit 12 c) :: u8))) OR
      push_bit 6 (ucast (take_bit 6 (ucast (drop_bit 6 c) :: u8))) OR ucast (take_bit 6 (ucast c :: u8)) = c" (is "PROP _ \<Longrightarrow> ?four = c")
proof -
  have two: "bit ?two n = bit c n" if "bit c n \<Longrightarrow> n < 11" "n < 32" for n
    using that by (auto simp: bit_simps)
  have three: "bit ?three n = bit c n" if "bit c n \<Longrightarrow> n < 16" "n < 32" for n
    by (rule six_pieces [of n]) (use that in \<open>auto simp: bit_simps\<close>)
  have four: "bit ?four n = bit c n" if "bit c n \<Longrightarrow> n < 21" "n < 32" for n
    by (rule six_pieces [of n]) (use that in \<open>auto simp: bit_simps\<close>)
  show "?two = c" if "\<And>n. bit c n \<Longrightarrow> n < 11" using two that by (intro bit_word_eqI) simp
  show "?three = c" if "\<And>n. bit c n \<Longrightarrow> n < 16" using three that by (intro bit_word_eqI) simp
  show "?four = c" if "\<And>n. bit c n \<Longrightarrow> n < 21" using four that by (intro bit_word_eqI) simp
qed

lemma lead_value: "unat (ucast (drop_bit n (c :: u32)) :: u8) \<le> unat c div 2 ^ n"
  unfolding unsigned_ucast_eq unat_drop_bit_eq by (simp add: drop_bit_eq_div take_bit_nat_less_eq_self)

lemma ascii_byte:
  assumes "(c :: u32) < 0x80"
  shows "ucast (ucast c :: u8) = c" "(ucast c :: u8) < 0x80"
proof -
  have u: "unat c < 2 ^ 7" using assms by (simp add: word_less_nat_alt)
  have "bit (ucast (ucast c :: u8) :: u32) n = bit c n" for n using small_bits [OF u, of n] by (auto simp: bit_simps)
  then show "ucast (ucast c :: u8) = c" by (intro bit_word_eqI) simp
  have "unat (ucast c :: u8) \<le> unat c" unfolding unsigned_ucast_eq by (rule take_bit_nat_less_eq_self)
  then show "(ucast c :: u8) < 0x80" using u by (simp add: word_less_nat_alt)
qed

text \<open>Decoding is the inverse of encoding.\<close>

lemma decode_encoded:
  assumes "scalar_value c"
  shows "decode_sequence (utf8 c @ r) = Some (c, r)"
proof -
  consider "c < 0x80" | "\<not> c < 0x80" "c < 0x800" | "\<not> c < 0x80" "\<not> c < 0x800" "c < 0x10000"
    | "\<not> c < 0x80" "\<not> c < 0x800" "\<not> c < 0x10000" by blast
  then show ?thesis
  proof cases
    case 1
    then show ?thesis using ascii_byte [OF 1] by (simp add: utf8_def decode_sequence_def)
  next
    case 2
    have u: "unat c < 2 ^ 11" using 2(2) by (simp add: word_less_nat_alt)
    have l: "(ucast (drop_bit 6 c) :: u8) < 32" using lead_value [of 6 c] u by (simp add: word_less_nat_alt)
    show ?thesis
      using 2 lead_bytes(1-3) [OF l] joined_bits(1) [OF small_bits [OF u]]
      by (simp add: utf8_def decode_sequence_def continuation_byte) (simp add: six_bits)
  next
    case 3
    have u: "unat c < 2 ^ 16" using 3(3) by (simp add: word_less_nat_alt)
    have l: "(ucast (drop_bit 12 c) :: u8) < 16" using lead_value [of 12 c] u by (simp add: word_less_nat_alt)
    show ?thesis
      using 3 lead_bytes(4-7) [OF l] joined_bits(2) [OF small_bits [OF u]]
      by (simp add: utf8_def decode_sequence_def continuation_byte) (simp add: six_bits)
  next
    case 4
    have "unat c \<le> 0x10FFFF" using assms 4(3) by (auto simp: scalar_value_def word_le_nat_alt word_less_nat_alt)
    then have u: "unat c < 2 ^ 21" and l: "(ucast (drop_bit 18 c) :: u8) < 5"
      using lead_value [of 18 c] by (simp_all add: word_less_nat_alt)
    show ?thesis
      using 4 lead_bytes(8-13) [OF l] joined_bits(3) [OF small_bits [OF u]]
      by (simp add: utf8_def decode_sequence_def continuation_byte) (simp add: six_bits)
  qed
qed

lemma sint_code_point:
  assumes "(c :: u32) \<le> 0x10FFFF"
  shows "sint c = uint c"
proof -
  have "uint c \<le> 0x10FFFF" using assms by (simp add: word_le_def)
  moreover have "- (2 ^ 31) \<le> uint c" by (rule order_trans [OF _ unsigned_greater_eq]) simp
  ultimately show ?thesis by (subst sint_uint, intro signed_take_bit_int_eq_self) simp_all
qed

lemma decode_utf8_encoded:
  assumes "scalar_value c"
  shows "decode_utf8 (utf8 c @ r) = Some (c, r)" "0 \<le> sint c" "c \<le> 0x10FFFF"
proof -
  show le: "c \<le> 0x10FFFF" using assms by (auto simp: scalar_value_def word_le_def word_less_def)
  note s = sint_code_point [OF le]
  then show "0 \<le> sint c" by simp
  have "\<not> (0xD800 \<le> uint c \<and> uint c \<le> 0xDFFF)"
    using assms by (auto simp: scalar_value_def word_le_def word_less_def)
  then show "decode_utf8 (utf8 c @ r) = Some (c, r)" using s by (auto simp: decode_utf8_def decode_encoded [OF assms])
qed

subsection \<open>Typing digits\<close>

text \<open>A step from one quiet state to another that types \<open>cs\<close> while \<open>M\<close> is held.\<close>

definition types :: "u8 \<Rightarrow> u8 list \<Rightarrow> action_st \<Rightarrow> action_st \<Rightarrow> bool" where
  "types M cs s s' \<longleftrightarrow> quiet_with M s' \<and> mode s' = mode s \<and> (\<forall>m. typed_by m s' = typed_by m s @ (if m = M then cs else []))"

lemma types_trans: "types M cs s t \<Longrightarrow> types M ds t u \<Longrightarrow> types M (cs @ ds) s u"
  by (simp add: types_def)

lemma types_none: "quiet_with M s \<Longrightarrow> types M [] s s"
  by (simp add: types_def)

definition hex_char :: "u8 \<Rightarrow> u8" where
  "hex_char d = (if d \<le> 9 then d + 48 else d - 10 + 97)"

definition windows_key :: "u8 \<Rightarrow> u8" where
  "windows_key digit = (if digit < 10 then KC_KP_1 + (10 + digit - 1) mod 10 else KC_A + (digit - 10))"

lemma windows_keys: "list_all (\<lambda>d. IS_BASIC_KEYCODE (windows_key d) \<and> us_char False (windows_key d) = Some (hex_char d) \<and>
    d AND 0xF = d \<and> unat (hex_char d) < 128 \<and> typable (hex_char d)) (map of_nat [0..<16])"
  by code_simp

lemma windows_key_facts:
  assumes "d < 16"
  shows "IS_BASIC_KEYCODE (windows_key d)" "us_char False (windows_key d) = Some (hex_char d)" "d AND 0xF = d"
    "unat (hex_char d) < 128" "typable (hex_char d)"
proof -
  have "d \<in> set (map of_nat [0..<16])" using assms by (intro word_in_upt) (simp_all add: word_less_nat_alt)
  from windows_keys [unfolded list_all_iff, THEN bspec, OF this]
  show "IS_BASIC_KEYCODE (windows_key d)" "us_char False (windows_key d) = Some (hex_char d)" "d AND 0xF = d"
    "unat (hex_char d) < 128" "typable (hex_char d)" by blast+
qed

lemma basic_not_zero: "IS_BASIC_KEYCODE k \<Longrightarrow> k \<noteq> 0"
  by (auto simp: keycode_ranges)

lemma tap_types:
  assumes "quiet_with M s" "M AND SHIFTS = 0" "IS_BASIC_KEYCODE k"
  shows "types M (case us_char False k of None \<Rightarrow> [] | Some c \<Rightarrow> [c]) s (tap_code T now k s)"
  using tap_code_quiet [OF assms(1,3)] shift_bits(1) [OF assms(2)] assms(2)
  by (auto simp: types_def key_chars_one [OF basic_not_zero [OF assms(3)]])

lemma nibble_types:
  assumes "quiet_with M s" "M AND SHIFTS = 0" "d < 16"
  obtains s' where "send_nibble_wrapper T now w d s = Some s'" "types M [hex_char d] s s'"
proof (cases "w = UNICODE_MODE_WINDOWS")
  case True
  note k = windows_key_facts [OF assms(3)]
  from tap_types [OF assms(1,2) k(1), of T now] that show thesis
    using True k(2) by (simp add: send_nibble_wrapper_def windows_key_def)
next
  case False
  note k = windows_key_facts [OF assms(3)]
  obtain s' where s': "send_char T now (hex_char d) s = Some s'" "quiet_with M s'" "mode s' = mode s"
    "\<forall>m. typed_by m s' = typed_by m s @ (if m = M \<and> typable (hex_char d) then [hex_char d] else [])"
    using send_char_quiet [OF assms(1,2) k(4), of T now] by blast
  have "send_nibble_wrapper T now w d s = Some s'"
    using s'(1) False by (cases "d \<le> 9") (simp_all add: send_nibble_wrapper_def send_nibble_def k(3) hex_char_def Let_def)
  moreover have "types M [hex_char d] s s'" using s'(2-4) k(5) by (simp add: types_def)
  ultimately show thesis by (rule that)
qed

definition digit_at :: "u32 \<Rightarrow> nat \<Rightarrow> u8" where
  "digit_at hex i = ucast (drop_bit (i * 4) hex AND 0xF)"

lemma low_nibble: "x AND 0xF = (take_bit 4 x :: u32)"
  by (simp add: take_bit_eq_mask mask_eq_exp_minus_1)

lemma digit_at_value: "unat (digit_at hex i) = unat hex div 16 ^ i mod 16"
proof -
  have "unat (take_bit 4 (drop_bit (i * 4) hex)) = take_bit 4 (unat hex div 16 ^ i)"
    unfolding unsigned_take_bit_eq unat_drop_bit_eq by (simp add: drop_bit_eq_div power_mult mult.commute [of i])
  then show ?thesis
    by (simp add: digit_at_def low_nibble unsigned_ucast_eq take_bit_eq_mod)
qed

fun down :: "nat \<Rightarrow> nat list" where
  "down 0 = []"
| "down (Suc n) = n # down n"

definition hex_number :: "nat \<Rightarrow> u8 list \<Rightarrow> nat" where
  "hex_number v ds = foldl (\<lambda>v d. 16 * v + unat d) v ds"

lemma hex_number_simps [simp]:
  "hex_number v [] = v" "hex_number v (d # ds) = hex_number (16 * v + unat d) ds"
  by (simp_all add: hex_number_def)

lemma mod_step: "(x :: nat) div 16 ^ n mod 16 * 16 ^ n + x mod 16 ^ n = x mod 16 ^ Suc n"
  using mod_mult2_eq [of x "16 ^ n" 16] by (simp add: mult.commute add.commute)

lemma digit_small: "digit_at hex i < 16"
  by (simp add: word_less_nat_alt digit_at_value)

text \<open>After the first digit every digit is sent.\<close>

lemma hex_rest:
  assumes "quiet_with M s" "M AND SHIFTS = 0"
  shows "\<exists>s' ds. register_hex32_loop T now w hex False (down n) s = Some s' \<and> types M (map hex_char ds) s s' \<and>
    length ds = n \<and> (\<forall>d \<in> set ds. d < 16) \<and> (\<forall>v. hex_number v ds = v * 16 ^ n + unat hex mod 16 ^ n)"
  using assms(1)
proof (induction n arbitrary: s)
  case 0
  then show ?case by (auto intro!: exI [of _ "[]"] types_none)
next
  case (Suc n)
  obtain t where t: "send_nibble_wrapper T now w (digit_at hex n) s = Some t" "types M [hex_char (digit_at hex n)] s t"
    using nibble_types [OF Suc.prems assms(2) digit_small] by metis
  then have "quiet_with M t" by (simp add: types_def)
  from Suc.IH [OF this] obtain s' ds where ds: "register_hex32_loop T now w hex False (down n) t = Some s'"
    "types M (map hex_char ds) t s'" "length ds = n" "\<forall>d \<in> set ds. d < 16"
    "\<forall>v. hex_number v ds = v * 16 ^ n + unat hex mod 16 ^ n" by blast
  have "hex_number v (digit_at hex n # ds) = v * 16 ^ Suc n + unat hex mod 16 ^ Suc n" for v
    using ds(5) mod_step [of "unat hex" n] by (simp add: digit_at_value algebra_simps)
  moreover have "register_hex32_loop T now w hex False (down (Suc n)) s = Some s'"
    using t(1) ds(1) by (simp add: digit_at_def Let_def)
  ultimately show ?case
    using types_trans [OF t(2) ds(2)] ds(3,4) digit_small
    by (intro exI [of _ s'] exI [of _ "digit_at hex n # ds"]) auto
qed

definition entered_digits :: "u8 \<Rightarrow> nat \<Rightarrow> u8 list \<Rightarrow> bool" where
  "entered_digits w x ds \<longleftrightarrow> hex_number 0 ds = x \<and> (\<forall>d \<in> set ds. d < 16) \<and> 4 \<le> length ds \<and>
    (w = UNICODE_MODE_WINCOMPOSE \<longrightarrow> hd ds \<le> 9) \<and> (w \<noteq> UNICODE_MODE_WINCOMPOSE \<and> x < 0x10000 \<longrightarrow> length ds = 4)"

text \<open>Up to the first digit.\<close>

lemma hex_first:
  assumes "quiet_with M s" "M AND SHIFTS = 0" "4 \<le> n" "unat hex < 16 ^ n"
  shows "\<exists>s' ds. register_hex32_loop T now w hex True (down n) s = Some s' \<and> types M (map hex_char ds) s s' \<and>
    entered_digits w (unat hex) ds"
  using assms(1,3,4)
proof (induction n arbitrary: s)
  case 0
  then show ?case by simp
next
  case (Suc n)
  let ?d = "digit_at hex n"
  have q: "unat ?d = unat hex div 16 ^ n" using Suc.prems(3) by (simp add: digit_at_value less_mult_imp_div_less)
  show ?case
  proof (cases "?d = 0 \<and> 4 \<le> n")
    case True
    then have "unat hex < 16 ^ n" using q by (simp add: div_eq_0_iff)
    from Suc.IH [OF Suc.prems(1) _ this] True show ?thesis by (simp add: digit_at_def Let_def)
  next
    case sent: False
    have val: "unat ?d * 16 ^ n + unat hex mod 16 ^ n = unat hex" unfolding q by (rule div_mult_mod_eq)
    have small: "n = 3" if "unat hex < 0x10000"
    proof (rule ccontr)
      assume "n \<noteq> 3"
      then have n4: "4 \<le> n" using Suc.prems(2) by simp
      have "(16 :: nat) ^ 4 \<le> 16 ^ n" using n4 by (intro power_increasing) auto
      then have "unat hex < 16 ^ n" using that by simp
      then have "unat ?d = 0" using q by simp
      then show False using sent n4 by (simp add: unat_eq_0)
    qed
    show ?thesis
    proof (cases "w = UNICODE_MODE_WINCOMPOSE \<and> ?d > 9")
      case True
      obtain a where a: "send_nibble_wrapper T now w 0 s = Some a" "types M [hex_char 0] s a"
        using nibble_types [OF Suc.prems(1) assms(2), of 0 T now w] by auto
      then have "quiet_with M a" by (simp add: types_def)
      from nibble_types [OF this assms(2) digit_small]
      obtain b where b: "send_nibble_wrapper T now w ?d a = Some b" "types M [hex_char ?d] a b" by metis
      then have "quiet_with M b" by (simp add: types_def)
      from hex_rest [OF this assms(2)] obtain s' ds where ds: "register_hex32_loop T now w hex False (down n) b = Some s'"
        "types M (map hex_char ds) b s'" "length ds = n" "\<forall>d \<in> set ds. d < 16"
        "\<forall>v. hex_number v ds = v * 16 ^ n + unat hex mod 16 ^ n" by blast
      have "register_hex32_loop T now w hex True (down (Suc n)) s = Some s'"
        using a(1) b(1) ds(1) True by (auto simp: digit_at_def Let_def)
      moreover have "types M (map hex_char (0 # ?d # ds)) s s'"
        using types_trans [OF a(2) types_trans [OF b(2) ds(2)]] by simp
      moreover have "entered_digits w (unat hex) (0 # ?d # ds)"
        using ds(3,4,5) val True Suc.prems(2) digit_small [of hex n] by (auto simp: entered_digits_def)
      ultimately show ?thesis by blast
    next
      case False
      obtain b where b: "send_nibble_wrapper T now w ?d s = Some b" "types M [hex_char ?d] s b"
        using nibble_types [OF Suc.prems(1) assms(2) digit_small] by metis
      then have "quiet_with M b" by (simp add: types_def)
      from hex_rest [OF this assms(2)] obtain s' ds where ds: "register_hex32_loop T now w hex False (down n) b = Some s'"
        "types M (map hex_char ds) b s'" "length ds = n" "\<forall>d \<in> set ds. d < 16"
        "\<forall>v. hex_number v ds = v * 16 ^ n + unat hex mod 16 ^ n" by blast
      have "register_hex32_loop T now w hex True (down (Suc n)) s = Some s'"
        using b(1) ds(1) False sent by (auto simp: digit_at_def Let_def)
      moreover have "types M (map hex_char (?d # ds)) s s'"
        using types_trans [OF b(2) ds(2)] by simp
      moreover have "entered_digits w (unat hex) (?d # ds)"
        using ds(3,4,5) val False Suc.prems(2) digit_small [of hex n] small by (auto simp: entered_digits_def)
      ultimately show ?thesis by blast
    qed
  qed
qed

lemma register_hex32_types:
  assumes "quiet_with M s" "M AND SHIFTS = 0"
  obtains s' ds where "register_hex32 T now w hex s = Some s'" "types M (map hex_char ds) s s'" "entered_digits w (unat hex) ds"
proof -
  have "unat hex < 16 ^ 8" using unsigned_less [of hex, where 'a = nat] by simp
  moreover have "down 8 = [7, 6, 5, 4, 3, 2, 1, 0]" by (simp add: eval_nat_numeral)
  ultimately show thesis
    using hex_first [OF assms, of 8 hex T now w] that by (auto simp: register_hex32_def)
qed

subsection \<open>The sequences of the modes\<close>

text \<open>What a step adds to the plain text (\<open>p\<close>) and to what is entered while Alt is held (\<open>a\<close>).\<close>

definition adds :: "u8 list \<Rightarrow> u8 list \<Rightarrow> action_st \<Rightarrow> action_st \<Rightarrow> bool" where
  "adds p a s s' \<longleftrightarrow> mode s' = mode s \<and> typed_by 0 s' = typed_by 0 s @ p \<and> typed_by 4 s' = typed_by 4 s @ a"

lemma adds_trans: "adds p a s t \<Longrightarrow> adds p' a' t u \<Longrightarrow> adds (p @ p') (a @ a') s u"
  by (simp add: adds_def)

lemma adds_types: "types M cs s s' \<Longrightarrow> adds (if M = 0 then cs else []) (if M = 4 then cs else []) s s'"
  by (auto simp: adds_def types_def)

text \<open>Changing only the fields, without a report.\<close>

lemma set_mods_quiet:
  assumes "quiet_weak M W s"
  shows "quiet_weak M' W' (s\<lparr>real_mods := M', weak_mods := W'\<rparr>)" "adds [] [] s (s\<lparr>real_mods := M', weak_mods := W'\<rparr>)"
  using assms by (simp_all add: adds_def typed_by_def quiet_weak_def keys_inv_def report_sync_def frame_simps)

lemma adds_mods:
  assumes "quiet_weak M W s"
  shows "quiet_weak M' W' (send_keyboard_report T now (s\<lparr>real_mods := M', weak_mods := W'\<rparr>))"
    "adds [] [] s (send_keyboard_report T now (s\<lparr>real_mods := M', weak_mods := W'\<rparr>))"
  using mods_quiet [OF assms refl, where T = T and now = now and M' = M' and W' = W'] by (simp_all add: adds_def)

lemma record_mods: "real_mods s = M \<Longrightarrow> s\<lparr>weak_mods := W\<rparr> = s\<lparr>real_mods := M, weak_mods := W\<rparr>"
  "weak_mods s = W \<Longrightarrow> s\<lparr>real_mods := M\<rparr> = s\<lparr>real_mods := M, weak_mods := W\<rparr>"
  by (cases s, simp)+

lemma quiet_mods: "quiet_weak M W s \<Longrightarrow> real_mods s = M" "quiet_weak M W s \<Longrightarrow> weak_mods s = W"
  by (simp_all add: quiet_weak_def)

lemma press_release_adds:
  assumes "quiet_weak M W s" "IS_BASIC_KEYCODE k"
  shows "quiet_weak M W (unregister_code T now' k (register_code T now k s))"
    "adds (key_chars 0 (M OR W) {k}) (key_chars 4 (M OR W) {k}) s (unregister_code T now' k (register_code T now k s))"
  using press_release_quiet [OF assms, where T = T and now = now and now' = now'] by (simp_all add: adds_def)

lemma tap_adds:
  assumes "quiet_weak M W s" "IS_BASIC_KEYCODE k"
  shows "quiet_weak M W (tap_code T now k s)"
    "adds (key_chars 0 (M OR W) {k}) (key_chars 4 (M OR W) {k}) s (tap_code T now k s)"
  unfolding tap_code_def tap_code_delay_def by (rule press_release_adds [OF assms])+

lemma weak_mods_adds:
  assumes "quiet_weak M 0 s"
  shows "quiet_weak M W (register_weak_mods T now W s)" "adds [] [] s (register_weak_mods T now W s)"
  using adds_mods [OF assms, where M' = M and W' = W and T = T and now = now] assms record_mods(1) [OF quiet_mods(1) [OF assms], of W]
  by (auto simp: register_weak_mods_def add_weak_mods_def quiet_mods(2) [OF assms] adds_def)

lemma weak_mods_removed:
  assumes "quiet_weak M W s"
  shows "quiet_weak M 0 (unregister_weak_mods T now W s)" "adds [] [] s (unregister_weak_mods T now W s)"
  using adds_mods [OF assms, where M' = M and W' = 0 and T = T and now = now] assms record_mods(1) [OF quiet_mods(1) [OF assms], of 0]
  by (auto simp: unregister_weak_mods_def del_weak_mods_def quiet_mods(2) [OF assms] adds_def)

lemma tap_code16_adds:
  assumes "quiet_with M s" "\<not> is_modifier_code16 code" "code \<noteq> 0" "IS_BASIC_KEYCODE (ucast code)"
  shows "quiet_with M (tap_code16 T now code s)"
    "adds (key_chars 0 (M OR extract_mod_bits code) {ucast code}) (key_chars 4 (M OR extract_mod_bits code) {ucast code})
      s (tap_code16 T now code s)"
proof -
  let ?W = "extract_mod_bits code" and ?k = "ucast code :: u8"
  define now' where "now' = now + (if code = ucast KC_CAPS_LOCK then TAP_HOLD_CAPS_DELAY else TAP_CODE_DELAY)"
  define a where "a = register_weak_mods T now ?W s"
  define b where "b = unregister_code T now' ?k (register_code T now ?k a)"
  have e: "tap_code16 T now code s = unregister_weak_mods T now' ?W b"
    using assms(2,3) by (simp add: tap_code16_def tap_code16_delay_def register_code16_def unregister_code16_def a_def b_def now'_def)
  note a = weak_mods_adds [OF assms(1), where W = ?W and T = T and now = now, folded a_def]
  note b = press_release_adds [OF a(1) assms(4), where T = T and now' = now' and now = now, folded b_def]
  note c = weak_mods_removed [OF b(1), where T = T and now = now', folded e]
  show "quiet_with M (tap_code16 T now code s)" by (rule c(1))
  show "adds (key_chars 0 (M OR ?W) {?k}) (key_chars 4 (M OR ?W) {?k}) s (tap_code16 T now code s)"
    using adds_trans [OF adds_trans [OF a(2) b(2)] c(2)] by simp
qed

lemma modifier_adds:
  assumes "quiet_with M s" "IS_MODIFIER_KEYCODE k"
  shows "quiet_with (M OR MOD_BIT k) (register_code T now k s)" "adds [] [] s (register_code T now k s)"
    "quiet_with (M AND NOT (MOD_BIT k)) (unregister_code T now k s)" "adds [] [] s (unregister_code T now k s)"
  using register_modifier_quiet [OF assms, where T = T and now = now] by (simp_all add: adds_def)

text \<open>The keys of the sequences: which are characters, and which modifiers their codes carry.\<close>

lemma sequence_keys:
  "IS_MODIFIER_KEYCODE KC_LEFT_ALT" "MOD_BIT KC_LEFT_ALT = 4" "IS_MODIFIER_KEYCODE KC_RIGHT_ALT" "MOD_BIT KC_RIGHT_ALT = 0x40"
  "IS_BASIC_KEYCODE KC_NUM_LOCK" "IS_BASIC_KEYCODE KC_CAPS_LOCK" "IS_BASIC_KEYCODE KC_KP_PLUS" "IS_BASIC_KEYCODE KC_U"
  "IS_BASIC_KEYCODE KC_SPACE" "IS_BASIC_KEYCODE KC_ENTER"
  by (simp_all add: keycode_ranges KC_LEFT_ALT_def KC_RIGHT_ALT_def MOD_BIT_def bitmask_def KC_NUM_LOCK_def KC_KP_PLUS_def KC_U_def
      KC_SPACE_def KC_ENTER_def)

lemma sequence_codes:
  "\<not> is_modifier_code16 UNICODE_KEY_LNX" "UNICODE_KEY_LNX \<noteq> 0" "ucast UNICODE_KEY_LNX = KC_U" "extract_mod_bits UNICODE_KEY_LNX = 3"
  "\<not> is_modifier_code16 LCTL_KC_X" "LCTL_KC_X \<noteq> 0" "IS_BASIC_KEYCODE (ucast LCTL_KC_X)" "extract_mod_bits LCTL_KC_X = 1"
  "\<not> is_modifier_code16 (ucast KC_8)" "ucast KC_8 \<noteq> (0 :: u16)" "IS_BASIC_KEYCODE KC_8" "extract_mod_bits (ucast KC_8) = 0"
  "\<not> is_modifier_code16 (ucast KC_ENTER)" "ucast KC_ENTER \<noteq> (0 :: u16)" "extract_mod_bits (ucast KC_ENTER) = 0"
  "ucast (ucast KC_8 :: u16) = KC_8" "ucast (ucast KC_ENTER :: u16) = KC_ENTER"
  by code_simp+

lemma sequence_chars:
  "key_chars m M {KC_NUM_LOCK} = []" "key_chars m M {KC_CAPS_LOCK} = []" "key_chars 0 4 {KC_KP_PLUS} = []" "key_chars 4 4 {KC_KP_PLUS} = [43]"
  "key_chars 0 3 {KC_U} = []" "key_chars 4 3 {KC_U} = []" "key_chars 0 0 {KC_U} = [117]" "key_chars 4 0 {k} = []"
  "key_chars 0 1 {ucast LCTL_KC_X} = []" "key_chars 4 1 {ucast LCTL_KC_X} = []" "key_chars 0 0 {KC_8} = [56]"
  "key_chars 0 0 {KC_ENTER} = [10]" "key_chars 0 0 {KC_SPACE} = [32]"
  by (simp_all add: key_chars_one us_char_def us_keys_def SHIFTS_def KC_NUM_LOCK_def KC_CAPS_LOCK_def KC_KP_PLUS_def KC_U_def
      LCTL_KC_X_def KC_8_def KC_ENTER_def KC_SPACE_def) (simp add: key_chars_def SHIFTS_def)

text \<open>What each mode puts around the digits, and the modifier it holds.\<close>

definition held_mods :: "u8 \<Rightarrow> u8" where
  "held_mods w = (if w = UNICODE_MODE_MACOS \<or> w = UNICODE_MODE_WINDOWS then 4 else 0)"

definition plain_before :: "u8 \<Rightarrow> u8 list" where
  "plain_before w = (if w = UNICODE_MODE_WINCOMPOSE then [117] else if w = UNICODE_MODE_EMACS then [56, 10] else [])"

definition alt_before :: "u8 \<Rightarrow> u8 list" where
  "alt_before w = (if w = UNICODE_MODE_WINDOWS then [43] else [])"

definition plain_after :: "u8 \<Rightarrow> u8 list" where
  "plain_after w = (if w = UNICODE_MODE_LINUX then [32] else if w = UNICODE_MODE_WINCOMPOSE \<or> w = UNICODE_MODE_EMACS then [10] else [])"

lemmas around_defs = held_mods_def plain_before_def alt_before_def plain_after_def unicode_modes

lemma alt_key:
  "quiet_with 0 s \<Longrightarrow> quiet_with 4 (register_code T now KC_LEFT_ALT s)" "quiet_with 0 s \<Longrightarrow> adds [] [] s (register_code T now KC_LEFT_ALT s)"
  "quiet_with 4 s \<Longrightarrow> quiet_with 0 (unregister_code T now KC_LEFT_ALT s)" "quiet_with 4 s \<Longrightarrow> adds [] [] s (unregister_code T now KC_LEFT_ALT s)"
  using modifier_adds [OF _ sequence_keys(1), of 0 s T now] modifier_adds [OF _ sequence_keys(1), of 4 s T now]
  by (simp_all add: sequence_keys(2))

lemma silent_tap:
  assumes "quiet_with M s" "k = KC_NUM_LOCK \<or> k = KC_CAPS_LOCK"
  shows "quiet_with M (tap_code T now k s)" "adds [] [] s (tap_code T now k s)"
  using tap_adds [OF assms(1), of k T now] assms(2) by (auto simp: sequence_keys sequence_chars)

lemma maybe_silent_tap:
  assumes "quiet_with M s" "k = KC_NUM_LOCK \<or> k = KC_CAPS_LOCK"
  shows "quiet_with M (if b then tap_code T now k s else s)" "adds [] [] s (if b then tap_code T now k s else s)"
  using silent_tap [OF assms] assms(1) by (auto simp: adds_def)

lemma tap_modifier_adds:
  assumes "quiet_with 0 s"
  shows "quiet_with 0 (tap_code T now KC_RIGHT_ALT s)" "adds [] [] s (tap_code T now KC_RIGHT_ALT s)"
proof -
  note a = modifier_adds(1,2) [OF assms sequence_keys(3), of T now, unfolded sequence_keys(4)]
  define now' where "now' = now + (if KC_RIGHT_ALT = KC_CAPS_LOCK then TAP_HOLD_CAPS_DELAY else TAP_CODE_DELAY)"
  note b = modifier_adds(3,4) [OF a(1) sequence_keys(3), of T now', unfolded sequence_keys(4)]
  show "quiet_with 0 (tap_code T now KC_RIGHT_ALT s)" "adds [] [] s (tap_code T now KC_RIGHT_ALT s)"
    using b(1) adds_trans [OF a(2) b(2)] by (simp_all add: tap_code_def tap_code_delay_def now'_def)
qed

lemma start_keys_adds:
  assumes "quiet_with 0 s"
  shows "quiet_with (held_mods w) (input_start_keys T now led w s)"
    "adds (plain_before w) (alt_before w) s (input_start_keys T now led w s)"
proof -
  have "quiet_with (held_mods w) (input_start_keys T now led w s) \<and> adds (plain_before w) (alt_before w) s (input_start_keys T now led w s)"
  proof -
    consider "w = UNICODE_MODE_MACOS" | "w = UNICODE_MODE_LINUX" | "w = UNICODE_MODE_WINDOWS" | "w = UNICODE_MODE_WINCOMPOSE"
      | "w = UNICODE_MODE_EMACS" | "w \<notin> {UNICODE_MODE_MACOS, UNICODE_MODE_LINUX, UNICODE_MODE_WINDOWS, UNICODE_MODE_WINCOMPOSE, UNICODE_MODE_EMACS}"
      by auto
    then show ?thesis
    proof cases
      case 1
      then show ?thesis using alt_key(1,2) [OF assms, of T now] by (simp add: input_start_keys_def UNICODE_KEY_MAC_def around_defs)
    next
      case 2
      have k: "IS_BASIC_KEYCODE (ucast UNICODE_KEY_LNX)" by (simp add: sequence_codes sequence_keys)
      show ?thesis using tap_code16_adds [OF assms sequence_codes(1,2) k, of T now] 2
        by (simp add: input_start_keys_def sequence_codes sequence_chars around_defs)
    next
      case 3
      define a where "a = (if \<not> num_lock led then tap_code T now KC_NUM_LOCK s else s)"
      define b where "b = register_code T now KC_LEFT_ALT a"
      note a = maybe_silent_tap [OF assms disjI1 [OF refl], of "\<not> num_lock led" T now, folded a_def]
      note b = alt_key(1,2) [OF a(1), of T now, folded b_def]
      note c = tap_adds [OF b(1) sequence_keys(7), of T "now + UNICODE_TYPE_DELAY"]
      have "input_start_keys T now led w s = tap_code T (now + UNICODE_TYPE_DELAY) KC_KP_PLUS b"
        using 3 by (simp add: input_start_keys_def a_def b_def unicode_modes)
      then show ?thesis
        using c(1) adds_trans [OF adds_trans [OF a(2) b(2)] c(2)] 3 by (simp add: sequence_chars around_defs)
    next
      case 4
      note a = tap_modifier_adds [OF assms, of T now]
      note b = tap_adds [OF a(1) sequence_keys(8), of T now]
      show ?thesis using b(1) adds_trans [OF a(2) b(2)] 4
        by (simp add: input_start_keys_def UNICODE_KEY_WINC_def sequence_chars around_defs)
    next
      case 5
      have k: "IS_BASIC_KEYCODE (ucast (ucast KC_8 :: u16))" "IS_BASIC_KEYCODE (ucast (ucast KC_ENTER :: u16))"
        by (simp_all only: sequence_codes sequence_keys)
      note a = tap_code16_adds [OF assms sequence_codes(5-7), of T now]
      note b = tap_code16_adds [OF a(1) sequence_codes(9,10) k(1), of T now]
      note c = tap_code16_adds [OF b(1) sequence_codes(13,14) k(2), of T now]
      show ?thesis using c(1) adds_trans [OF a(2) adds_trans [OF b(2) c(2)]] 5
        by (simp add: input_start_keys_def sequence_codes sequence_chars around_defs)
    next
      case 6
      then show ?thesis using assms by (simp add: input_start_keys_def adds_def held_mods_def plain_before_def alt_before_def)
    qed
  qed
  then show "quiet_with (held_mods w) (input_start_keys T now led w s)"
    "adds (plain_before w) (alt_before w) s (input_start_keys T now led w s)" by simp_all
qed

lemma finish_keys_adds:
  assumes "quiet_with (held_mods w) s"
  shows "quiet_with 0 (input_finish_keys T now led w s)" "adds (plain_after w) [] s (input_finish_keys T now led w s)"
proof -
  have "quiet_with 0 (input_finish_keys T now led w s) \<and> adds (plain_after w) [] s (input_finish_keys T now led w s)"
  proof -
    consider "w = UNICODE_MODE_MACOS" | "w = UNICODE_MODE_LINUX" | "w = UNICODE_MODE_WINDOWS" | "w = UNICODE_MODE_WINCOMPOSE"
      | "w = UNICODE_MODE_EMACS" | "w \<notin> {UNICODE_MODE_MACOS, UNICODE_MODE_LINUX, UNICODE_MODE_WINDOWS, UNICODE_MODE_WINCOMPOSE, UNICODE_MODE_EMACS}"
      by auto
    then show ?thesis
    proof cases
      case 1
      then have q: "quiet_with 4 s" using assms by (simp add: held_mods_def)
      show ?thesis using alt_key(3,4) [OF q, of T now] 1 by (simp add: input_finish_keys_def UNICODE_KEY_MAC_def around_defs)
    next
      case 2
      then have q: "quiet_with 0 s" using assms by (simp add: around_defs)
      note a = tap_adds [OF q sequence_keys(9), of T now]
      note b = maybe_silent_tap [OF a(1) disjI2 [OF refl], of "caps_lock led" T now]
      show ?thesis using b(1) adds_trans [OF a(2) b(2)] 2 by (simp add: input_finish_keys_def sequence_chars around_defs Let_def)
    next
      case 3
      then have q: "quiet_with 4 s" using assms by (simp add: held_mods_def)
      note a = alt_key(3,4) [OF q, of T now]
      note b = maybe_silent_tap [OF a(1) disjI1 [OF refl], of "\<not> num_lock led" T now]
      have "input_finish_keys T now led w s =
          (if \<not> num_lock led then tap_code T now KC_NUM_LOCK (unregister_code T now KC_LEFT_ALT s) else unregister_code T now KC_LEFT_ALT s)"
        using 3 by (simp add: input_finish_keys_def unicode_modes Let_def)
      then show ?thesis using b(1) adds_trans [OF a(2) b(2)] 3 by (simp only:) (simp add: around_defs)
    next
      case 4
      then have q: "quiet_with 0 s" using assms by (simp add: around_defs)
      show ?thesis using tap_adds [OF q sequence_keys(10), of T now] 4 by (simp add: input_finish_keys_def sequence_chars around_defs)
    next
      case 5
      then have q: "quiet_with 0 s" using assms by (simp add: around_defs)
      have k: "IS_BASIC_KEYCODE (ucast (ucast KC_ENTER :: u16))" by (simp only: sequence_codes sequence_keys)
      show ?thesis using tap_code16_adds [OF q sequence_codes(13,14) k, of T now] 5
        by (simp add: input_finish_keys_def sequence_codes sequence_chars around_defs)
    next
      case 6
      then show ?thesis using assms by (simp add: input_finish_keys_def adds_def held_mods_def plain_after_def)
    qed
  qed
  then show "quiet_with 0 (input_finish_keys T now led w s)" "adds (plain_after w) [] s (input_finish_keys T now led w s)"
    by simp_all
qed

subsection \<open>What the host enters\<close>

text \<open>Reading hexadecimal text.\<close>

definition hex_value :: "u8 \<Rightarrow> nat option" where
  "hex_value c = (if 48 \<le> c \<and> c \<le> 57 then Some (unat c - 48) else if 97 \<le> c \<and> c \<le> 102 then Some (unat c - 87) else None)"

definition hex_of :: "u8 list \<Rightarrow> nat option" where
  "hex_of cs = (if cs = [] \<or> \<not> list_all (\<lambda>c. hex_value c \<noteq> None) cs then None
    else Some (foldl (\<lambda>v c. 16 * v + the (hex_value c)) 0 cs))"

lemma hex_values: "list_all (\<lambda>d. hex_value (hex_char d) = Some (unat d)) (map of_nat [0..<16])"
  by code_simp

lemma hex_value_char: "d < 16 \<Longrightarrow> hex_value (hex_char d) = Some (unat d)"
  using hex_values [unfolded list_all_iff, THEN bspec, of d] word_in_upt [of 0 d 16] by (simp add: word_less_nat_alt)

lemma hex_of_digits:
  assumes "ds \<noteq> []" "\<forall>d \<in> set ds. d < 16"
  shows "hex_of (map hex_char ds) = Some (hex_number 0 ds)"
proof -
  have "foldl (\<lambda>v c. 16 * v + the (hex_value c)) v (map hex_char ds) = hex_number v ds" for v
    using assms(2) by (induction ds arbitrary: v) (simp_all add: hex_value_char)
  then show ?thesis using assms by (auto simp: hex_of_def list_all_iff hex_value_char)
qed

text \<open>
  What each input method makes of the plain text and of what is entered while Alt is held.  macOS reads UTF-16 units of
  four digits; WinCompose wants a decimal digit first.
\<close>

definition utf16_units :: "u8 list \<Rightarrow> nat option" where
  "utf16_units cs =
    (if length cs = 4 then hex_of cs
     else if length cs = 8 then
       (case (hex_of (take 4 cs), hex_of (drop 4 cs)) of
          (Some h, Some l) \<Rightarrow> if 0xD800 \<le> h \<and> h < 0xDC00 \<and> 0xDC00 \<le> l \<and> l < 0xE000
            then Some (0x10000 + (h - 0xD800) * 0x400 + (l - 0xDC00)) else None
        | _ \<Rightarrow> None)
     else None)"

definition host_enters :: "u8 \<Rightarrow> u8 list \<Rightarrow> u8 list \<Rightarrow> nat option" where
  "host_enters w pt at =
    (if w = UNICODE_MODE_MACOS then (if pt = [] then utf16_units at else None)
     else if w = UNICODE_MODE_LINUX then (if last pt = 32 \<and> at = [] then hex_of (butlast pt) else None)
     else if w = UNICODE_MODE_WINDOWS then (if hd at = 43 \<and> pt = [] then hex_of (tl at) else None)
     else if w = UNICODE_MODE_WINCOMPOSE then
       (if hd pt = 117 \<and> 48 \<le> hd (tl pt) \<and> hd (tl pt) \<le> 57 \<and> last pt = 10 \<and> at = []
        then hex_of (butlast (tl pt)) else None)
     else if w = UNICODE_MODE_EMACS then
       (if take 2 pt = [56, 10] \<and> last pt = 10 \<and> at = [] then hex_of (butlast (drop 2 pt)) else None)
     else None)"

text \<open>The digits of a code point, for macOS as UTF-16 units.\<close>

definition body_ok :: "u8 \<Rightarrow> nat \<Rightarrow> u8 list \<Rightarrow> bool" where
  "body_ok w x cs \<longleftrightarrow> (if w = UNICODE_MODE_MACOS then utf16_units cs = Some x
    else hex_of cs = Some x \<and> cs \<noteq> [] \<and> (w = UNICODE_MODE_WINCOMPOSE \<longrightarrow> 48 \<le> hd cs \<and> hd cs \<le> 57))"

lemma entered_body:
  assumes "entered_digits w x ds"
  shows "hex_of (map hex_char ds) = Some x" "ds \<noteq> []" "w = UNICODE_MODE_WINCOMPOSE \<Longrightarrow> 48 \<le> hex_char (hd ds) \<and> hex_char (hd ds) \<le> 57"
    "w \<noteq> UNICODE_MODE_WINCOMPOSE \<Longrightarrow> x < 0x10000 \<Longrightarrow> length ds = 4"
proof -
  show n: "ds \<noteq> []" using assms by (auto simp: entered_digits_def)
  show "hex_of (map hex_char ds) = Some x" using hex_of_digits [OF n] assms by (simp add: entered_digits_def)
  show "w \<noteq> UNICODE_MODE_WINCOMPOSE \<Longrightarrow> x < 0x10000 \<Longrightarrow> length ds = 4" using assms by (simp add: entered_digits_def)
  have "d \<le> 9 \<Longrightarrow> 48 \<le> hex_char d \<and> hex_char d \<le> 57" for d
  proof -
    assume "d \<le> 9"
    then have "d \<in> set (map of_nat [0..<10])" by (intro word_in_upt) (simp_all add: word_le_nat_alt)
    then show ?thesis by (auto simp: hex_char_def upt_rec)
  qed
  then show "w = UNICODE_MODE_WINCOMPOSE \<Longrightarrow> 48 \<le> hex_char (hd ds) \<and> hex_char (hd ds) \<le> 57"
    using assms by (simp add: entered_digits_def)
qed

text \<open>Surrogate pairs.\<close>

lemma surrogates:
  assumes "0xFFFF < c" "c \<le> 0x10FFFF"
  shows "unat (((c - 0x10000) AND 0x3FF) + 0xDC00 :: u32) = (unat c - 0x10000) mod 0x400 + 0xDC00"
    "unat (drop_bit 10 ((c - 0x10000) AND 0xFFC00) + 0xD800 :: u32) = (unat c - 0x10000) div 0x400 + 0xD800"
    "(unat c - 0x10000) div 0x400 < 0x400"
proof -
  define x where "x = c - 0x10000"
  have u: "unat x = unat c - 0x10000" unfolding x_def using assms(1) by (subst unat_sub) (auto simp: word_le_nat_alt word_less_nat_alt)
  have x: "unat x < 2 ^ 20" using u assms by (simp add: word_le_nat_alt word_less_nat_alt)
  have lo: "unat (x AND 0x3FF) = unat x mod 0x400"
  proof -
    have e: "x AND 0x3FF = take_bit 10 x" by (simp add: take_bit_eq_mask mask_eq_exp_minus_1)
    show ?thesis unfolding e unsigned_take_bit_eq by (simp add: take_bit_eq_mod)
  qed
  have "drop_bit 10 (x AND 0xFFC00) = drop_bit 10 x"
  proof (rule bit_word_eqI)
    fix n assume "n < LENGTH(32)"
    have e: "(0xFFC00 :: u32) = push_bit 10 (mask 10)" by (simp add: mask_eq_exp_minus_1)
    show "bit (drop_bit 10 (x AND 0xFFC00)) n = bit (drop_bit 10 x) n"
      unfolding e using small_bits [OF x, of "10 + n"] by (auto simp: bit_simps)
  qed
  moreover have "unat (drop_bit 10 x) = unat x div 0x400" unfolding unat_drop_bit_eq by (simp add: drop_bit_eq_div)
  ultimately have hi: "unat (drop_bit 10 (x AND 0xFFC00)) = unat x div 0x400" by simp
  show "(unat c - 0x10000) div 0x400 < 0x400" using x u by simp
  then show "unat (drop_bit 10 ((c - 0x10000) AND 0xFFC00) + 0xD800 :: u32) = (unat c - 0x10000) div 0x400 + 0xD800"
    using hi u unfolding x_def [symmetric] by (simp add: unat_plus_if')
  have "(unat c - 0x10000) mod 0x400 < 0x400" by simp
  then show "unat (((c - 0x10000) AND 0x3FF) + 0xDC00 :: u32) = (unat c - 0x10000) mod 0x400 + 0xDC00"
    using lo u unfolding x_def [symmetric] by (simp add: unat_plus_if')
qed

lemma utf16_pair:
  assumes "h < 0x400" "l < 0x400" "hex_of cs = Some (h + 0xD800)" "hex_of ds = Some (l + 0xDC00)" "length cs = 4" "length ds = 4"
  shows "utf16_units (cs @ ds) = Some (0x10000 + h * 0x400 + l)"
  using assms by (simp add: utf16_units_def)

lemma register_code_point_types:
  assumes "quiet_with M s" "M AND SHIFTS = 0" "c \<le> 0x10FFFF"
  obtains s' cs where "register_code_point T now w c s = Some s'" "types M cs s s'" "body_ok w (unat c) cs"
proof (cases "0xFFFF < c \<and> w = UNICODE_MODE_MACOS")
  case True
  let ?x = "unat c - 0x10000"
  have nw: "w \<noteq> UNICODE_MODE_WINCOMPOSE" using True by (simp add: unicode_modes)
  note v = surrogates [OF conjunct1 [OF True] assms(3)]
  let ?hi = "drop_bit 10 ((c - 0x10000) AND 0xFFC00) + 0xD800" and ?lo = "((c - 0x10000) AND 0x3FF) + 0xDC00"
  obtain a ds where a: "register_hex32 T now w ?hi s = Some a" "types M (map hex_char ds) s a" "entered_digits w (unat ?hi) ds"
    using register_hex32_types [OF assms(1,2), of T now w ?hi] by metis
  then have "quiet_with M a" by (simp add: types_def)
  from register_hex32_types [OF this assms(2), of T now w ?lo] obtain b es where
    b: "register_hex32 T now w ?lo a = Some b" "types M (map hex_char es) a b" "entered_digits w (unat ?lo) es" by metis
  have r: "register_code_point T now w c s = Some b"
    using True a(1) b(1) by (simp add: register_code_point_def Let_def)
  have "length ds = 4" using entered_body(4) [OF a(3) nw] v(2,3) by simp
  moreover have "length es = 4" using entered_body(4) [OF b(3) nw] v(1) by simp
  ultimately have "utf16_units (map hex_char ds @ map hex_char es) = Some (0x10000 + ?x div 0x400 * 0x400 + ?x mod 0x400)"
    using entered_body(1) [OF a(3)] entered_body(1) [OF b(3)] v by (intro utf16_pair) simp_all
  moreover have "0x10000 + ?x div 0x400 * 0x400 + ?x mod 0x400 = unat c"
    using True div_mult_mod_eq [of ?x "0x400"] by (simp add: word_less_nat_alt)
  ultimately have "body_ok w (unat c) (map hex_char ds @ map hex_char es)" using True by (simp add: body_ok_def)
  from that [OF r types_trans [OF a(2) b(2)] this] show thesis .
next
  case False
  obtain s' ds where s': "register_hex32 T now w c s = Some s'" "types M (map hex_char ds) s s'" "entered_digits w (unat c) ds"
    using register_hex32_types [OF assms(1,2), of T now w c] by metis
  note e = entered_body [OF s'(3)]
  have r: "register_code_point T now w c s = Some s'" using False s'(1) by (auto simp: register_code_point_def)
  have "body_ok w (unat c) (map hex_char ds)"
  proof (cases "w = UNICODE_MODE_MACOS")
    case True
    then have "unat c < 0x10000" using False by (auto simp: word_less_nat_alt)
    then have "length ds = 4" using e(4) True by (simp add: unicode_modes)
    then show ?thesis using True e(1) by (simp add: body_ok_def utf16_units_def)
  next
    case False
    then show ?thesis using e(1-3) by (simp add: body_ok_def hd_map)
  qed
  from that [OF r s'(2) this] show thesis .
qed

lemma host_enters_body:
  assumes "body_ok w x cs" "w \<le> UNICODE_MODE_EMACS" "w \<noteq> UNICODE_MODE_BSD"
  shows "host_enters w (plain_before w @ (if held_mods w = 0 then cs else []) @ plain_after w)
    (alt_before w @ (if held_mods w = 4 then cs else [])) = Some x"
proof -
  have "w \<in> {UNICODE_MODE_MACOS, UNICODE_MODE_LINUX, UNICODE_MODE_WINDOWS, UNICODE_MODE_WINCOMPOSE, UNICODE_MODE_EMACS}"
  proof -
    have "w \<in> set (map of_nat [0..<6])" using assms(2) by (intro word_in_upt) (simp_all add: UNICODE_MODE_EMACS_def word_le_nat_alt)
    then show ?thesis using assms(3) by (auto simp: unicode_modes upt_rec)
  qed
  then show ?thesis using assms(1)
    by (elim insertE emptyE) (simp_all add: body_ok_def host_enters_def around_defs butlast_append last_append hd_append)
qed

lemma start_quiet:
  assumes "quiet_with M (uact s)" "s1 = unicode_input_start T now leds s"
  shows "quiet_with (held_mods (input_mode s)) (uact s1)"
    "adds (plain_before (input_mode s)) (alt_before (input_mode s)) (uact s) (uact s1)"
    "unicode_saved_mods s1 = M" "input_mode s1 = input_mode s"
proof -
  let ?w = "input_mode s"
  define a where "a = (if ?w = UNICODE_MODE_LINUX \<and> caps_lock leds then tap_code T now KC_CAPS_LOCK (uact s) else uact s)"
  define b where "b = a\<lparr>real_mods := 0, weak_mods := 0\<rparr>"
  note a = maybe_silent_tap [OF assms(1) disjI2 [OF refl], of "?w = UNICODE_MODE_LINUX \<and> caps_lock leds" T now, folded a_def]
  note b = set_mods_quiet [OF a(1), of 0 0, folded b_def]
  note c = start_keys_adds [OF b(1), of ?w T now leds]
  have u: "uact s1 = input_start_keys T now leds ?w b" and m: "unicode_saved_mods s1 = real_mods a"
    by (simp_all add: assms(2) unicode_input_start_def map_uact_def a_def b_def clear_mods_def clear_weak_mods_def get_mods_def Let_def)
  show "quiet_with (held_mods ?w) (uact s1)" "adds (plain_before ?w) (alt_before ?w) (uact s) (uact s1)"
    using c(1) adds_trans [OF adds_trans [OF a(2) b(2)] c(2)] by (simp_all add: u)
  show "unicode_saved_mods s1 = M" using m quiet_mods(1) [OF a(1)] by simp
  show "input_mode s1 = input_mode s" by (simp add: assms(2) unicode_input_start_def map_uact_def Let_def)
qed

lemma finish_quiet:
  assumes "quiet_with (held_mods (input_mode s)) (uact s)"
  shows "quiet_with (unicode_saved_mods s) (uact (unicode_input_finish T now s))"
    "adds (plain_after (input_mode s)) [] (uact s) (uact (unicode_input_finish T now s))"
    "input_mode (unicode_input_finish T now s) = input_mode s"
proof -
  define a where "a = input_finish_keys T now (unicode_saved_led_state s) (input_mode s) (uact s)"
  note a = finish_keys_adds [OF assms, of T now "unicode_saved_led_state s", folded a_def]
  have u: "uact (unicode_input_finish T now s) = a\<lparr>real_mods := unicode_saved_mods s, weak_mods := 0\<rparr>"
    using record_mods(2) [OF quiet_mods(2) [OF a(1)]]
    by (simp add: unicode_input_finish_def map_uact_def set_mods_def a_def)
  note b = set_mods_quiet [OF a(1), where M' = "unicode_saved_mods s" and W' = 0, folded u]
  show "quiet_with (unicode_saved_mods s) (uact (unicode_input_finish T now s))" by (rule b(1))
  show "adds (plain_after (input_mode s)) [] (uact s) (uact (unicode_input_finish T now s))"
    using adds_trans [OF a(2) b(2)] by simp
  show "input_mode (unicode_input_finish T now s) = input_mode s" by (simp add: unicode_input_finish_def map_uact_def)
qed

lemma register_unicode_enters:
  assumes "quiet_with M (uact s)" "c \<le> 0x10FFFF" "input_mode s \<le> UNICODE_MODE_EMACS" "input_mode s \<noteq> UNICODE_MODE_BSD"
    "input_mode s = UNICODE_MODE_WINDOWS \<Longrightarrow> c \<le> 0xFFFF"
  obtains s' p a where "register_unicode T now leds c s = Some s'" "adds p a (uact s) (uact s')"
    "host_enters (input_mode s) p a = Some (unat c)" "quiet_with M (uact s')" "input_mode s' = input_mode s"
proof -
  let ?w = "input_mode s"
  let ?s1 = "unicode_input_start T now leds s"
  note s1 = start_quiet [OF assms(1) refl, of T now leds]
  have sh: "held_mods ?w AND SHIFTS = 0" by (simp add: held_mods_def SHIFTS_def)
  obtain b cs where b: "register_code_point T (now + UNICODE_TYPE_DELAY) ?w c (uact ?s1) = Some b"
    "types (held_mods ?w) cs (uact ?s1) b" "body_ok ?w (unat c) cs"
    using register_code_point_types [OF s1(1) sh assms(2), of T "now + UNICODE_TYPE_DELAY" ?w] by metis
  let ?s2 = "?s1\<lparr>uact := b\<rparr>"
  have q: "quiet_with (held_mods (input_mode ?s2)) (uact ?s2)" using b(2) s1(4) by (simp add: types_def)
  note s2 = finish_quiet [OF q, of T "now + UNICODE_TYPE_DELAY"]
  let ?s' = "unicode_input_finish T (now + UNICODE_TYPE_DELAY) ?s2"
  have fin: "adds (plain_after ?w) [] b (uact ?s')" using s2(2) s1(4) by simp
  have "register_unicode T now leds c s = Some ?s'"
    using assms(2,5) b(1) s1(4) by (auto simp: register_unicode_def Let_def)
  moreover have "adds (plain_before ?w @ (if held_mods ?w = 0 then cs else []) @ plain_after ?w)
      (alt_before ?w @ (if held_mods ?w = 4 then cs else [])) (uact s) (uact ?s')"
    using adds_trans [OF s1(2) adds_trans [OF adds_types [OF b(2)] fin]] by simp
  ultimately show thesis
    using that host_enters_body [OF b(3) assms(3,4)] s2(1,3) s1(3,4) by simp
qed

subsection \<open>Strings\<close>

text \<open>One entry of the host per code point: the plain text and the text under Alt.\<close>

definition entries_ok :: "u8 \<Rightarrow> (u8 list \<times> u8 list) list \<Rightarrow> u32 list \<Rightarrow> bool" where
  "entries_ok w es cs \<longleftrightarrow> list_all2 (\<lambda>e c. host_enters w (fst e) (snd e) = Some (unat c)) es cs"

lemma utf8_start: "scalar_value c \<Longrightarrow> c \<noteq> 0 \<Longrightarrow> \<exists>b r. utf8 c @ rest = b # r \<and> b \<noteq> 0"
proof -
  assume c: "c \<noteq> 0"
  have "(x :: u8) OR y \<noteq> 0" if "x \<noteq> 0" for x y using that by (simp add: or_eq_0_iff)
  moreover have "c < 0x80 \<Longrightarrow> (ucast c :: u8) \<noteq> 0" using ascii_byte(1) [of c] c by auto
  ultimately show ?thesis by (auto simp: utf8_def)
qed

lemma send_unicode_quiet:
  assumes "quiet_with M (uact s)" "\<forall>c \<in> set cs. scalar_value c \<and> c \<noteq> 0" "input_mode s \<le> UNICODE_MODE_EMACS"
    "input_mode s \<noteq> UNICODE_MODE_BSD" "input_mode s = UNICODE_MODE_WINDOWS \<Longrightarrow> \<forall>c \<in> set cs. c \<le> 0xFFFF"
  shows "\<exists>s' es. send_unicode_string T now leds (concat (map utf8 cs) @ 0 # beyond) s = Some s' \<and>
    adds (concat (map fst es)) (concat (map snd es)) (uact s) (uact s') \<and> entries_ok (input_mode s) es cs \<and> quiet_with M (uact s')"
  using assms
proof (induction cs arbitrary: s)
  case Nil
  then show ?case
    by (intro exI [of _ s] exI [of _ "[]"]) (simp add: send_unicode_string.simps [of _ _ _ "0 # _"] entries_ok_def adds_def)
next
  case (Cons c cs)
  let ?w = "input_mode s" and ?rest = "concat (map utf8 cs) @ 0 # beyond"
  have c: "scalar_value c" "c \<noteq> 0" using Cons.prems(2) by simp_all
  note d = decode_utf8_encoded(2,3) [OF c(1)] and dec = decode_utf8_encoded(1) [OF c(1), of ?rest]
  have w: "?w = UNICODE_MODE_WINDOWS \<Longrightarrow> c \<le> 0xFFFF" using Cons.prems(5) by simp
  obtain t p a where t: "register_unicode T now leds c s = Some t" "adds p a (uact s) (uact t)"
    "host_enters ?w p a = Some (unat c)" "quiet_with M (uact t)" "input_mode t = ?w"
    using register_unicode_enters [OF Cons.prems(1) d(2) Cons.prems(3,4) w, of T now leds] by metis
  obtain s' es where s': "send_unicode_string T now leds ?rest t = Some s'"
    "adds (concat (map fst es)) (concat (map snd es)) (uact t) (uact s')" "entries_ok ?w es cs" "quiet_with M (uact s')"
    using Cons.IH [OF t(4)] Cons.prems(2-5) t(5) by auto
  obtain b r where br: "utf8 c @ ?rest = b # r" "b \<noteq> 0" using utf8_start [OF c, of ?rest] by blast
  have "send_unicode_string T now leds (utf8 c @ ?rest) s = send_unicode_string T now leds ?rest t"
    using d(1) t(1) dec br(2) unfolding br(1) by (subst send_unicode_string.simps) simp
  then show ?case
    using s' t(3) adds_trans [OF t(2) s'(2)]
    by (intro exI [of _ s'] exI [of _ "(p, a) # es"]) (simp add: entries_ok_def)
qed

subsection \<open>Cycling through the selected modes\<close>

lemma c_rem_range: "0 < b \<Longrightarrow> - b < c_rem a b \<and> c_rem a b < b"
  using pos_mod_bound [of b a] pos_mod_sign [of b a] pos_mod_bound [of b "- a"] pos_mod_sign [of b "- a"]
  by (auto simp: c_rem_def simp del: pos_mod_bound pos_mod_sign)

lemma cycle_in_range:
  assumes "selected \<noteq> []"
  shows "0 \<le> selected_index (cycle_unicode_input_mode d selected persist k s) \<and>
    selected_index (cycle_unicode_input_mode d selected persist k s) < int (length selected) \<and>
    input_mode (cycle_unicode_input_mode d selected persist k s) =
      selected ! nat (selected_index (cycle_unicode_input_mode d selected persist k s))"
  using c_rem_range [of "int (length selected)" "selected_index s + k"] assms
  by (auto simp: cycle_unicode_input_mode_def Let_def unicode_input_mode_set_kb_def persist_unicode_input_mode_def)

lemma cycle_next_previous:
  assumes "selected \<noteq> []" "0 \<le> selected_index s" "selected_index s < int (length selected)"
    "input_mode s = selected ! nat (selected_index s)"
  shows "input_mode (cycle_unicode_input_mode d selected persist (- 1) (cycle_unicode_input_mode d selected persist 1 s)) = input_mode s"
proof -
  have "selected_index (cycle_unicode_input_mode d selected persist (- 1) (cycle_unicode_input_mode d selected persist 1 s)) = selected_index s"
  proof (cases "selected_index s + 1 = int (length selected)")
    case True
    have "1 mod int (length selected) = (if selected_index s = 0 then 0 else 1)" using True assms(2) by auto
    then show ?thesis using True assms(1,2)
      by (auto simp: cycle_unicode_input_mode_def Let_def unicode_input_mode_set_kb_def persist_unicode_input_mode_def c_rem_def)
  next
    case False
    then show ?thesis using assms(1-3)
      by (auto simp: cycle_unicode_input_mode_def Let_def unicode_input_mode_set_kb_def persist_unicode_input_mode_def c_rem_def)
  qed
  then show ?thesis using cycle_in_range [OF assms(1), of d persist "- 1" "cycle_unicode_input_mode d selected persist 1 s"] assms(4) by simp
qed

subsection \<open>Malformed strings\<close>

text \<open>A sequence that the string ends in takes the terminator for a continuation byte, and the loop reads past the string.\<close>

lemma truncated_sequence_reads_past_end:
  assumes "quiet_with M (uact s)" "input_mode s = UNICODE_MODE_LINUX"
  shows "send_unicode_string T now leds [0xC3, 0] s = None"
proof -
  have d: "decode_utf8 [0xC3, 0] = Some (0xC0, [])" by (simp add: decode_utf8_def decode_sequence_def)
  have "0xC0 \<le> (0x10FFFF :: u32)" by simp
  from register_unicode_enters [OF assms(1) this, of T now leds] assms(2)
  obtain t where "register_unicode T now leds 0xC0 s = Some t" by (auto simp: unicode_modes)
  then show ?thesis
    by (subst send_unicode_string.simps) (simp add: d send_unicode_string.simps [of _ _ _ "[]"])
qed

text \<open>Continuation bytes are not checked: the letter after an unfinished sequence is swallowed.\<close>

lemma continuation_not_checked: "decode_utf8 [0xC3, 65, 66] = Some (0xC1, [66])"
  by (simp add: decode_utf8_def decode_sequence_def)

subsection \<open>Properties\<close>


definition fresh_unicode :: "u8 \<Rightarrow> unit unicode_st" where
  "fresh_unicode w = \<lparr>uact = idle_action, input_mode = w, unicode_saved_mods = 0, unicode_saved_led_state = 0, selected_index = 0,
    ueeprom = (), mode_calls = []\<rparr>"


end
