(* ===== verification/Qmk_Dynamic_Macro.thy ===== *)
theory Qmk_Dynamic_Macro
  imports Qmk_Process_Keys
begin

text \<open>
  Dynamic macros (\<^verbatim>\<open>process_keycode/process_dynamic_macro.c\<close>): two macros recorded from the two ends of one
  buffer.  Pointers into the buffer are indices, an access outside of it is None.  What the code calls elsewhere is
  recorded in order: the clearing of the keyboard and of the layers, the records it hands to
  \<^verbatim>\<open>process_record\<close>, and its hooks.  The debug prints are left out.
\<close>

subsection \<open>State\<close>

datatype dm_call =
    Dm_record_start | Dm_clear_keyboard | Dm_layer_clear | Dm_process keyrecord_t | Dm_layer_restore
  | Dm_play int | Dm_record_key int keyrecord_t | Dm_record_end int

record dm_st =
  macro_buffer :: "keyrecord_t list"
  macro_end :: int
  r_macro_end :: int
  macro_pointer :: int
  macro_id :: u8
  dm_calls :: "dm_call list"

definition DYNAMIC_MACRO_SIZE :: nat where "DYNAMIC_MACRO_SIZE = 128"

definition QK_DYNAMIC_MACRO_RECORD_START_1 :: u16 where "QK_DYNAMIC_MACRO_RECORD_START_1 = 0x7C53"
definition QK_DYNAMIC_MACRO_RECORD_START_2 :: u16 where "QK_DYNAMIC_MACRO_RECORD_START_2 = 0x7C54"
definition QK_DYNAMIC_MACRO_RECORD_STOP :: u16 where "QK_DYNAMIC_MACRO_RECORD_STOP = 0x7C55"
definition QK_DYNAMIC_MACRO_PLAY_1 :: u16 where "QK_DYNAMIC_MACRO_PLAY_1 = 0x7C56"
definition QK_DYNAMIC_MACRO_PLAY_2 :: u16 where "QK_DYNAMIC_MACRO_PLAY_2 = 0x7C57"

lemmas dm_codes = QK_DYNAMIC_MACRO_RECORD_START_1_def QK_DYNAMIC_MACRO_RECORD_START_2_def QK_DYNAMIC_MACRO_RECORD_STOP_def
  QK_DYNAMIC_MACRO_PLAY_1_def QK_DYNAMIC_MACRO_PLAY_2_def

definition initial_macros :: dm_st where
  "initial_macros = \<lparr>macro_buffer = replicate DYNAMIC_MACRO_SIZE no_record, macro_end = 0,
    r_macro_end = int DYNAMIC_MACRO_SIZE - 1, macro_pointer = 0, macro_id = 0, dm_calls = []\<rparr>"

definition r_macro_buffer :: "dm_st \<Rightarrow> int" where
  "r_macro_buffer s = int (length (macro_buffer s)) - 1"

definition dm_note :: "dm_call list \<Rightarrow> dm_st \<Rightarrow> dm_st" where
  "dm_note cs s = s\<lparr>dm_calls := dm_calls s @ cs\<rparr>"

text \<open>The direction is +1 for the first macro and -1 for the second.\<close>

definition direction :: "bool \<Rightarrow> int" where
  "direction fwd = (if fwd then 1 else - 1)"

definition read_record :: "keyrecord_t list \<Rightarrow> int \<Rightarrow> keyrecord_t option" where
  "read_record b p = (if 0 \<le> p \<and> p < int (length b) then Some (b ! nat p) else None)"

subsection \<open>The operations\<close>

definition dynamic_macro_record_start :: "int \<Rightarrow> dm_st \<Rightarrow> dm_st" where
  "dynamic_macro_record_start begin_at s =
    (dm_note [Dm_record_start, Dm_clear_keyboard, Dm_layer_clear] s)\<lparr>macro_pointer := begin_at\<rparr>"

function play_loop :: "keyrecord_t list \<Rightarrow> int \<Rightarrow> int \<Rightarrow> bool \<Rightarrow> keyrecord_t list option" where
  "play_loop b p e fwd =
    (if p = e then Some []
     else case read_record b p of
         None \<Rightarrow> None
       | Some r \<Rightarrow> map_option (Cons r) (play_loop b (p + direction fwd) e fwd))"
  by pat_completeness auto

termination
  by (relation "measure (\<lambda>(b, p, e, fwd). if fwd then nat (int (length b) - p) else nat (p + 1))")
    (auto simp: read_record_def direction_def split: if_splits)

declare play_loop.simps [simp del]

definition dynamic_macro_play :: "int \<Rightarrow> int \<Rightarrow> bool \<Rightarrow> dm_st \<Rightarrow> dm_st option" where
  "dynamic_macro_play begin_at end_at fwd s =
    map_option (\<lambda>rs. dm_note ([Dm_clear_keyboard, Dm_layer_clear] @ map Dm_process rs @
        [Dm_clear_keyboard, Dm_layer_restore, Dm_play (direction fwd)]) s)
      (play_loop (macro_buffer s) begin_at end_at fwd)"

definition dynamic_macro_record_key :: "int \<Rightarrow> int \<Rightarrow> bool \<Rightarrow> keyrecord_t \<Rightarrow> dm_st \<Rightarrow> dm_st option" where
  "dynamic_macro_record_key begin_at macro2_end fwd r s =
    (if \<not> event_pressed (event r) \<and> macro_pointer s = begin_at then Some s
     else if macro_pointer s - direction fwd \<noteq> macro2_end then
       (case read_record (macro_buffer s) (macro_pointer s) of
          None \<Rightarrow> None
        | Some _ \<Rightarrow> Some (s\<lparr>macro_buffer := (macro_buffer s)[nat (macro_pointer s) := r],
            macro_pointer := macro_pointer s + direction fwd\<rparr>))
     else Some (dm_note [Dm_record_key (direction fwd) r] s))"

function trim_loop :: "keyrecord_t list \<Rightarrow> int \<Rightarrow> int \<Rightarrow> bool \<Rightarrow> int option" where
  "trim_loop b begin_at p fwd =
    (if p = begin_at then Some p
     else case read_record b (p - direction fwd) of
         None \<Rightarrow> None
       | Some r \<Rightarrow> if event_pressed (event r) then trim_loop b begin_at (p - direction fwd) fwd else Some p)"
  by pat_completeness auto

termination
  by (relation "measure (\<lambda>(b, begin_at, p, fwd). if fwd then nat p else nat (int (length b) - p))")
    (auto simp: read_record_def direction_def split: if_splits)

declare trim_loop.simps [simp del]

text \<open>The result is the new end of the macro.\<close>

definition dynamic_macro_record_end :: "int \<Rightarrow> bool \<Rightarrow> dm_st \<Rightarrow> (int \<times> dm_st) option" where
  "dynamic_macro_record_end begin_at fwd s =
    map_option (\<lambda>p. (p, dm_note [Dm_record_end (direction fwd)] s)) (trim_loop (macro_buffer s) begin_at (macro_pointer s) fwd)"

text \<open>
  \<open>valid_key\<close> is the hook that excludes keys, \<open>no_nesting\<close> the option.  The result of the handler is whether the key is
  processed further.
\<close>

definition process_dynamic_macro ::
  "(u16 \<Rightarrow> keyrecord_t \<Rightarrow> bool) \<Rightarrow> bool \<Rightarrow> u16 \<Rightarrow> keyrecord_t \<Rightarrow> dm_st \<Rightarrow> (bool \<times> dm_st) option" where
  "process_dynamic_macro valid_key no_nesting keycode r s =
    (if macro_id s = 0 then
       if \<not> event_pressed (event r) then
         if keycode = QK_DYNAMIC_MACRO_RECORD_START_1 then Some (False, (dynamic_macro_record_start 0 s)\<lparr>macro_id := 1\<rparr>)
         else if keycode = QK_DYNAMIC_MACRO_RECORD_START_2 then
           Some (False, (dynamic_macro_record_start (r_macro_buffer s) s)\<lparr>macro_id := 2\<rparr>)
         else if keycode = QK_DYNAMIC_MACRO_PLAY_1 then map_option (Pair False) (dynamic_macro_play 0 (macro_end s) True s)
         else if keycode = QK_DYNAMIC_MACRO_PLAY_2 then
           map_option (Pair False) (dynamic_macro_play (r_macro_buffer s) (r_macro_end s) False s)
         else Some (True, s)
       else Some (True, s)
     else if keycode \<in> {QK_DYNAMIC_MACRO_RECORD_START_1, QK_DYNAMIC_MACRO_RECORD_START_2, QK_DYNAMIC_MACRO_RECORD_STOP} then
       if event_pressed (event r) \<noteq> (keycode \<noteq> QK_DYNAMIC_MACRO_RECORD_STOP) then
         if macro_id s = 1 then
           map_option (\<lambda>(e, s). (False, s\<lparr>macro_end := e, macro_id := 0\<rparr>)) (dynamic_macro_record_end 0 True s)
         else if macro_id s = 2 then
           map_option (\<lambda>(e, s). (False, s\<lparr>r_macro_end := e, macro_id := 0\<rparr>)) (dynamic_macro_record_end (r_macro_buffer s) False s)
         else Some (False, s\<lparr>macro_id := 0\<rparr>)
       else Some (False, s)
     else if no_nesting \<and> keycode \<in> {QK_DYNAMIC_MACRO_PLAY_1, QK_DYNAMIC_MACRO_PLAY_2} then Some (False, s)
     else if valid_key keycode r then
       map_option (Pair True)
         (if macro_id s = 1 then dynamic_macro_record_key 0 (r_macro_end s) True r s
          else if macro_id s = 2 then dynamic_macro_record_key (r_macro_buffer s) (macro_end s) False r s
          else Some s)
     else Some (True, s))"

subsection \<open>The abstract macros\<close>

text \<open>Two lists, and the one being recorded; together they fit into the buffer.\<close>

record macros =
  m1 :: "keyrecord_t list"
  m2 :: "keyrecord_t list"
  recording :: u8
  cur :: "keyrecord_t list"

definition pressed_record :: "keyrecord_t \<Rightarrow> bool" where
  "pressed_record r \<longleftrightarrow> event_pressed (event r)"

definition trimmed :: "keyrecord_t list \<Rightarrow> keyrecord_t list" where
  "trimmed rs = rev (dropWhile pressed_record (rev rs))"

definition play_calls :: "keyrecord_t list \<Rightarrow> bool \<Rightarrow> dm_call list" where
  "play_calls rs fwd = [Dm_clear_keyboard, Dm_layer_clear] @ map Dm_process rs @
    [Dm_clear_keyboard, Dm_layer_restore, Dm_play (direction fwd)]"

definition recorded :: "nat \<Rightarrow> keyrecord_t list \<Rightarrow> keyrecord_t list \<Rightarrow> bool \<Rightarrow> keyrecord_t \<Rightarrow> keyrecord_t list \<times> dm_call list" where
  "recorded n other rs fwd r =
    (if \<not> pressed_record r \<and> rs = [] then (rs, [])
     else if length rs + length other < n then (rs @ [r], [])
     else (rs, [Dm_record_key (direction fwd) r]))"

definition macros_step ::
  "(u16 \<Rightarrow> keyrecord_t \<Rightarrow> bool) \<Rightarrow> bool \<Rightarrow> nat \<Rightarrow> u16 \<Rightarrow> keyrecord_t \<Rightarrow> macros \<Rightarrow> bool \<times> macros \<times> dm_call list" where
  "macros_step valid_key no_nesting n keycode r a =
    (if recording a = 0 then
       if \<not> pressed_record r then
         if keycode = QK_DYNAMIC_MACRO_RECORD_START_1 then
           (False, a\<lparr>m1 := [], recording := 1, cur := []\<rparr>, [Dm_record_start, Dm_clear_keyboard, Dm_layer_clear])
         else if keycode = QK_DYNAMIC_MACRO_RECORD_START_2 then
           (False, a\<lparr>m2 := [], recording := 2, cur := []\<rparr>, [Dm_record_start, Dm_clear_keyboard, Dm_layer_clear])
         else if keycode = QK_DYNAMIC_MACRO_PLAY_1 then (False, a, play_calls (m1 a) True)
         else if keycode = QK_DYNAMIC_MACRO_PLAY_2 then (False, a, play_calls (m2 a) False)
         else (True, a, [])
       else (True, a, [])
     else if keycode \<in> {QK_DYNAMIC_MACRO_RECORD_START_1, QK_DYNAMIC_MACRO_RECORD_START_2, QK_DYNAMIC_MACRO_RECORD_STOP} then
       if pressed_record r \<noteq> (keycode \<noteq> QK_DYNAMIC_MACRO_RECORD_STOP) then
         if recording a = 1 then (False, a\<lparr>m1 := trimmed (cur a), recording := 0, cur := []\<rparr>, [Dm_record_end 1])
         else (False, a\<lparr>m2 := trimmed (cur a), recording := 0, cur := []\<rparr>, [Dm_record_end (- 1)])
       else (False, a, [])
     else if no_nesting \<and> keycode \<in> {QK_DYNAMIC_MACRO_PLAY_1, QK_DYNAMIC_MACRO_PLAY_2} then (False, a, [])
     else if valid_key keycode r then
       (let (rs, calls) = (if recording a = 1 then recorded n (m2 a) (cur a) True r else recorded n (m1 a) (cur a) False r) in
        (True, a\<lparr>cur := rs\<rparr>, calls))
     else (True, a, []))"

subsection \<open>The two ends of the buffer\<close>

text \<open>The first \<open>k\<close> records from an end, and the pointer after them.\<close>

definition side :: "bool \<Rightarrow> keyrecord_t list \<Rightarrow> nat \<Rightarrow> keyrecord_t list" where
  "side fwd b k = (if fwd then take k b else take k (rev b))"

definition pos :: "bool \<Rightarrow> nat \<Rightarrow> nat \<Rightarrow> int" where
  "pos fwd n k = (if fwd then int k else int n - 1 - int k)"

lemma pos_simps:
  "pos fwd n k + direction fwd = pos fwd n (Suc k)" "pos fwd n (Suc k) - direction fwd = pos fwd n k"
  "pos fwd n j = pos fwd n k \<longleftrightarrow> j = k" "pos fwd n k - direction fwd = pos (\<not> fwd) n j \<longleftrightarrow> k + j = n"
  by (auto simp: pos_def direction_def)

lemma side_Suc:
  assumes "k < length b"
  obtains r where "read_record b (pos fwd (length b) k) = Some r" "side fwd b (Suc k) = side fwd b k @ [r]"
proof (cases fwd)
  case True
  then show thesis using assms that [of "b ! k"] by (simp add: read_record_def pos_def side_def take_Suc_conv_app_nth)
next
  case False
  have "nat (int (length b) - 1 - int k) = length b - Suc k" by simp
  then show thesis using False assms that [of "rev b ! k"]
    by (simp add: read_record_def pos_def side_def take_Suc_conv_app_nth rev_nth)
qed

lemma length_side [simp]: "k \<le> length b \<Longrightarrow> length (side fwd b k) = k"
  by (simp add: side_def)

lemma side_take: "j \<le> k \<Longrightarrow> side fwd b j = take j (side fwd b k)"
  by (simp add: side_def min_def)

lemma side_0 [simp]: "side fwd b 0 = []"
  by (simp add: side_def)

lemma play_loop_side:
  assumes "j \<le> k" "k \<le> length b"
  shows "play_loop b (pos fwd (length b) j) (pos fwd (length b) k) fwd = Some (drop j (side fwd b k))"
  using assms
proof (induction "k - j" arbitrary: j)
  case 0
  then show ?case by (subst play_loop.simps) simp
next
  case (Suc d)
  then have j: "j < k" by simp
  obtain r where r: "read_record b (pos fwd (length b) j) = Some r" "side fwd b (Suc j) = side fwd b j @ [r]"
    using side_Suc [of j b fwd] j Suc.prems by auto
  have "side fwd b (Suc j) = take (Suc j) (side fwd b k)" "side fwd b j = take j (side fwd b k)"
    using j by (simp_all add: side_def min_def)
  then have "drop j (side fwd b k) = r # drop (Suc j) (side fwd b k)"
    using r(2) j Suc.prems by (metis Cons_nth_drop_Suc append_same_eq length_side nth_append_length
        same_append_eq take_Suc_conv_app_nth)
  then show ?case
    using Suc.hyps(1) [of "Suc j"] Suc.hyps(2) Suc.prems j r(1)
    by (subst play_loop.simps) (simp add: pos_simps)
qed

lemma trimmed_snoc [simp]: "trimmed (rs @ [r]) = (if pressed_record r then trimmed rs else rs @ [r])"
  by (simp add: trimmed_def)

lemma trimmed_prefix: "\<exists>rest. rs = trimmed rs @ rest"
  by (rule exI [of _ "rev (takeWhile pressed_record (rev rs))"]) (simp add: trimmed_def flip: rev_append)

lemma trim_loop_side:
  assumes "k \<le> length b"
  shows "trim_loop b (pos fwd (length b) 0) (pos fwd (length b) k) fwd = Some (pos fwd (length b) (length (trimmed (side fwd b k))))"
  using assms
proof (induction k)
  case 0
  then show ?case by (subst trim_loop.simps) (simp add: trimmed_def)
next
  case (Suc k)
  obtain r where r: "read_record b (pos fwd (length b) k) = Some r" "side fwd b (Suc k) = side fwd b k @ [r]"
    using side_Suc [of k b fwd] Suc.prems by auto
  show ?case using Suc r by (subst trim_loop.simps) (simp add: pos_simps pressed_record_def)
qed

lemma side_trimmed:
  assumes "k \<le> length b"
  shows "side fwd b (length (trimmed (side fwd b k))) = trimmed (side fwd b k)" "length (trimmed (side fwd b k)) \<le> k"
proof -
  obtain t where t: "side fwd b k = trimmed (side fwd b k) @ t" using trimmed_prefix by blast
  show l: "length (trimmed (side fwd b k)) \<le> k" using arg_cong [OF t, of length] assms by simp
  have "side fwd b (length (trimmed (side fwd b k))) = take (length (trimmed (side fwd b k))) (side fwd b k)"
    by (rule side_take [OF l])
  also have "\<dots> = trimmed (side fwd b k)" by (subst (2) t) simp
  finally show "side fwd b (length (trimmed (side fwd b k))) = trimmed (side fwd b k)" .
qed

text \<open>Writing the next record of one macro leaves the other alone.\<close>

lemma side_update:
  assumes "k + j < length b"
  shows "side fwd (b[nat (pos fwd (length b) k) := r]) (Suc k) = side fwd b k @ [r]"
    "side (\<not> fwd) (b[nat (pos fwd (length b) k) := r]) j = side (\<not> fwd) b j"
proof -
  have i: "nat (int (length b) - 1 - int k) = length b - 1 - k" "length b - 1 - (length b - 1 - k) = k" using assms by auto
  show "side fwd (b[nat (pos fwd (length b) k) := r]) (Suc k) = side fwd b k @ [r]"
    using assms i by (cases fwd) (simp_all add: side_def pos_def take_Suc_conv_app_nth rev_update)
  show "side (\<not> fwd) (b[nat (pos fwd (length b) k) := r]) j = side (\<not> fwd) b j"
    using assms i by (cases fwd) (simp_all add: side_def pos_def rev_update)
qed

subsection \<open>Refinement\<close>

definition macro_at :: "bool \<Rightarrow> dm_st \<Rightarrow> int \<Rightarrow> keyrecord_t list \<Rightarrow> bool" where
  "macro_at fwd s p rs \<longleftrightarrow> length rs \<le> length (macro_buffer s) \<and> p = pos fwd (length (macro_buffer s)) (length rs) \<and>
    side fwd (macro_buffer s) (length rs) = rs"

definition holds_macros :: "nat \<Rightarrow> dm_st \<Rightarrow> macros \<Rightarrow> bool" where
  "holds_macros n s a \<longleftrightarrow> length (macro_buffer s) = n \<and> macro_id s = recording a \<and> recording a \<in> {0, 1, 2} \<and>
    (recording a \<noteq> 1 \<longrightarrow> macro_at True s (macro_end s) (m1 a)) \<and>
    (recording a \<noteq> 2 \<longrightarrow> macro_at False s (r_macro_end s) (m2 a)) \<and>
    (recording a \<noteq> 0 \<longrightarrow> macro_at (recording a = 1) s (macro_pointer s) (cur a)) \<and>
    (recording a = 0 \<longrightarrow> length (m1 a) + length (m2 a) \<le> n) \<and>
    (recording a = 1 \<longrightarrow> length (cur a) + length (m2 a) \<le> n) \<and>
    (recording a = 2 \<longrightarrow> length (cur a) + length (m1 a) \<le> n)"

lemma play_refines:
  assumes "macro_at fwd s e rs"
  shows "dynamic_macro_play (pos fwd (length (macro_buffer s)) 0) e fwd s = Some (dm_note (play_calls rs fwd) s)"
  using assms play_loop_side [of 0 "length rs" "macro_buffer s" fwd]
  by (simp add: macro_at_def dynamic_macro_play_def play_calls_def)

lemma end_refines:
  assumes "macro_at fwd s (macro_pointer s) rs"
  shows "\<exists>e. dynamic_macro_record_end (pos fwd (length (macro_buffer s)) 0) fwd s = Some (e, dm_note [Dm_record_end (direction fwd)] s) \<and>
    macro_at fwd s e (trimmed rs) \<and> length (trimmed rs) \<le> length rs"
  using assms trim_loop_side [of "length rs" "macro_buffer s" fwd] side_trimmed [of "length rs" "macro_buffer s" fwd]
  by (simp add: macro_at_def dynamic_macro_record_end_def)

lemma record_refines:
  assumes "macro_at fwd s (macro_pointer s) rs" "macro_at (\<not> fwd) s e2 other" "length rs + length other \<le> length (macro_buffer s)"
    "recorded (length (macro_buffer s)) other rs fwd r = (rs', calls)"
  shows "\<exists>b p. dynamic_macro_record_key (pos fwd (length (macro_buffer s)) 0) e2 fwd r s =
      Some (dm_note calls (s\<lparr>macro_buffer := b, macro_pointer := p\<rparr>)) \<and>
    length b = length (macro_buffer s) \<and>
    macro_at fwd (s\<lparr>macro_buffer := b, macro_pointer := p\<rparr>) p rs' \<and> macro_at (\<not> fwd) (s\<lparr>macro_buffer := b, macro_pointer := p\<rparr>) e2 other \<and>
    length rs' + length other \<le> length (macro_buffer s)"
proof -
  let ?b = "macro_buffer s" and ?n = "length (macro_buffer s)" and ?k = "length rs"
  have p: "macro_pointer s = pos fwd ?n ?k" "e2 = pos (\<not> fwd) ?n (length other)" using assms(1,2) by (simp_all add: macro_at_def)
  have full: "macro_pointer s - direction fwd = e2 \<longleftrightarrow> ?k + length other = ?n" using p by (simp add: pos_simps)
  have start: "macro_pointer s = pos fwd ?n 0 \<longleftrightarrow> rs = []" using p by (simp add: pos_simps)
  consider "\<not> pressed_record r \<and> rs = []" | "\<not> (\<not> pressed_record r \<and> rs = [])" "?k + length other < ?n"
    | "\<not> (\<not> pressed_record r \<and> rs = [])" "?k + length other = ?n" using assms(3) by linarith
  then show ?thesis
  proof cases
    case 1
    then show ?thesis using assms start
      by (intro exI [of _ ?b] exI [of _ "macro_pointer s"]) (auto simp: dynamic_macro_record_key_def recorded_def pressed_record_def dm_note_def macro_at_def)
  next
    case 2
    then obtain q where q: "read_record ?b (pos fwd ?n ?k) = Some q" using side_Suc [of ?k ?b fwd] by auto
    note u = side_update [OF 2(2), of fwd r]
    have "dynamic_macro_record_key (pos fwd ?n 0) e2 fwd r s =
        Some (s\<lparr>macro_buffer := ?b[nat (pos fwd ?n ?k) := r], macro_pointer := pos fwd ?n (Suc ?k)\<rparr>)"
      using 2 full start q by (auto simp: dynamic_macro_record_key_def pressed_record_def p pos_simps)
    then show ?thesis using 2 assms u
      by (intro exI [of _ "?b[nat (pos fwd ?n ?k) := r]"] exI [of _ "pos fwd ?n (Suc ?k)"])
        (auto simp: recorded_def macro_at_def dm_note_def)
  next
    case 3
    then show ?thesis using assms start full
      by (intro exI [of _ ?b] exI [of _ "macro_pointer s"]) (auto simp: dynamic_macro_record_key_def recorded_def pressed_record_def dm_note_def macro_at_def)
  qed
qed

lemma macro_at_cong: "macro_buffer s' = macro_buffer s \<Longrightarrow> macro_at fwd s' p rs = macro_at fwd s p rs"
  by (simp add: macro_at_def)

lemma dm_note_simps [simp]:
  "macro_buffer (dm_note cs s) = macro_buffer s" "macro_end (dm_note cs s) = macro_end s" "r_macro_end (dm_note cs s) = r_macro_end s"
  "macro_pointer (dm_note cs s) = macro_pointer s" "macro_id (dm_note cs s) = macro_id s" "dm_calls (dm_note cs s) = dm_calls s @ cs"
  by (simp_all add: dm_note_def)

lemma ends_of_buffer: "pos True n 0 = 0" "pos False (length (macro_buffer s)) 0 = r_macro_buffer s" "direction True = 1" "direction False = - 1"
  by (simp_all add: pos_def r_macro_buffer_def direction_def)

definition refines_step :: "nat \<Rightarrow> (bool \<times> dm_st) option \<Rightarrow> dm_st \<Rightarrow> bool \<times> macros \<times> dm_call list \<Rightarrow> bool" where
  "refines_step n x s y \<longleftrightarrow> (case y of (b, a', calls) \<Rightarrow>
    \<exists>s'. x = Some (b, s') \<and> dm_calls s' = dm_calls s @ calls \<and> holds_macros n s' a')"

lemma idle_refines:
  assumes "holds_macros n s a" "recording a = 0"
  shows "refines_step n (process_dynamic_macro v nn k r s) s (macros_step v nn n k r a)"
proof -
  have h: "length (macro_buffer s) = n" "macro_id s = 0" "macro_at True s (macro_end s) (m1 a)" "macro_at False s (r_macro_end s) (m2 a)"
    "length (m1 a) + length (m2 a) \<le> n"
    using assms by (simp_all add: holds_macros_def)
  have p1: "dynamic_macro_play 0 (macro_end s) True s = Some (dm_note (play_calls (m1 a) True) s)"
    using play_refines [OF h(3)] by (simp add: ends_of_buffer)
  have p2: "dynamic_macro_play (r_macro_buffer s) (r_macro_end s) False s = Some (dm_note (play_calls (m2 a) False) s)"
    using play_refines [OF h(4)] by (simp add: ends_of_buffer)
  have e1: "macro_at True s 0 []" "macro_at False s (r_macro_buffer s) []"
    by (simp_all add: macro_at_def ends_of_buffer)
  have same: "holds_macros n (dm_note cs s) a" for cs using assms(1) by (auto simp: holds_macros_def macro_at_def)
  have start: "holds_macros n ((dynamic_macro_record_start 0 s)\<lparr>macro_id := 1\<rparr>) (a\<lparr>m1 := [], recording := 1, cur := []\<rparr>)"
    "holds_macros n ((dynamic_macro_record_start (r_macro_buffer s) s)\<lparr>macro_id := 2\<rparr>) (a\<lparr>m2 := [], recording := 2, cur := []\<rparr>)"
    using h e1 by (auto simp: holds_macros_def macro_at_def dynamic_macro_record_start_def)
  have calls: "dm_calls (dynamic_macro_record_start b s) = dm_calls s @ [Dm_record_start, Dm_clear_keyboard, Dm_layer_clear]" for b
    by (simp add: dynamic_macro_record_start_def)
  note unfold = refines_step_def process_dynamic_macro_def macros_step_def pressed_record_def assms(2) h(2)
  consider "event_pressed (event r)" | "\<not> event_pressed (event r)" "k = QK_DYNAMIC_MACRO_RECORD_START_1"
    | "\<not> event_pressed (event r)" "k = QK_DYNAMIC_MACRO_RECORD_START_2" | "\<not> event_pressed (event r)" "k = QK_DYNAMIC_MACRO_PLAY_1"
    | "\<not> event_pressed (event r)" "k = QK_DYNAMIC_MACRO_PLAY_2"
    | "\<not> event_pressed (event r)" "k \<notin> {QK_DYNAMIC_MACRO_RECORD_START_1, QK_DYNAMIC_MACRO_RECORD_START_2, QK_DYNAMIC_MACRO_PLAY_1,
        QK_DYNAMIC_MACRO_PLAY_2}" by blast
  then show ?thesis
  proof cases
    case 1
    then show ?thesis using assms(1) by (simp add: unfold)
  next
    case 2
    then show ?thesis using start(1) by (simp add: unfold calls)
  next
    case 3
    then show ?thesis using start(2) by (simp add: unfold calls dm_codes)
  next
    case 4
    then show ?thesis using same by (simp add: unfold p1 dm_codes)
  next
    case 5
    then show ?thesis using same by (simp add: unfold p2 dm_codes)
  next
    case 6
    then show ?thesis using assms(1) by (simp add: unfold)
  qed
qed

lemma stop_refines:
  assumes "holds_macros n s a" "recording a \<noteq> 0"
    "k \<in> {QK_DYNAMIC_MACRO_RECORD_START_1, QK_DYNAMIC_MACRO_RECORD_START_2, QK_DYNAMIC_MACRO_RECORD_STOP}"
  shows "refines_step n (process_dynamic_macro v nn k r s) s (macros_step v nn n k r a)"
proof (cases "pressed_record r \<noteq> (k \<noteq> QK_DYNAMIC_MACRO_RECORD_STOP)")
  case False
  then show ?thesis using assms
    by (simp add: refines_step_def process_dynamic_macro_def macros_step_def pressed_record_def holds_macros_def)
next
  case True
  have h: "length (macro_buffer s) = n" "macro_id s = recording a" "macro_at (recording a = 1) s (macro_pointer s) (cur a)"
    using assms(1,2) by (simp_all add: holds_macros_def)
  have two: "recording a = 1 \<or> recording a = 2" using assms(1,2) by (auto simp: holds_macros_def)
  then show ?thesis
  proof
    assume one: "recording a = 1"
    obtain e where e: "dynamic_macro_record_end 0 True s = Some (e, dm_note [Dm_record_end 1] s)" "macro_at True s e (trimmed (cur a))"
      "length (trimmed (cur a)) \<le> length (cur a)"
      using end_refines [of True s "cur a"] h(3) one by (auto simp: ends_of_buffer)
    let ?s = "(dm_note [Dm_record_end 1] s)\<lparr>macro_end := e, macro_id := 0\<rparr>"
    have "process_dynamic_macro v nn k r s = Some (False, ?s)"
      using assms(2,3) True h(2) one e(1) by (simp add: process_dynamic_macro_def pressed_record_def)
    moreover have "macros_step v nn n k r a = (False, a\<lparr>m1 := trimmed (cur a), recording := 0, cur := []\<rparr>, [Dm_record_end 1])"
      using assms(2,3) True one by (simp add: macros_step_def)
    moreover have "holds_macros n ?s (a\<lparr>m1 := trimmed (cur a), recording := 0, cur := []\<rparr>)"
      using assms(1) one e(2,3) by (auto simp: holds_macros_def macro_at_def)
    ultimately show ?thesis by (simp add: refines_step_def)
  next
    assume two: "recording a = 2"
    obtain e where e: "dynamic_macro_record_end (r_macro_buffer s) False s = Some (e, dm_note [Dm_record_end (- 1)] s)"
      "macro_at False s e (trimmed (cur a))" "length (trimmed (cur a)) \<le> length (cur a)"
      using end_refines [of False s "cur a"] h(3) two by (auto simp: ends_of_buffer)
    let ?s = "(dm_note [Dm_record_end (- 1)] s)\<lparr>r_macro_end := e, macro_id := 0\<rparr>"
    have "process_dynamic_macro v nn k r s = Some (False, ?s)"
      using assms(2,3) True h(2) two e(1) by (simp add: process_dynamic_macro_def pressed_record_def)
    moreover have "macros_step v nn n k r a = (False, a\<lparr>m2 := trimmed (cur a), recording := 0, cur := []\<rparr>, [Dm_record_end (- 1)])"
      using assms(2,3) True two by (simp add: macros_step_def)
    moreover have "holds_macros n ?s (a\<lparr>m2 := trimmed (cur a), recording := 0, cur := []\<rparr>)"
      using assms(1) two e(2,3) by (auto simp: holds_macros_def macro_at_def)
    ultimately show ?thesis by (simp add: refines_step_def)
  qed
qed

lemma key_refines:
  assumes "holds_macros n s a" "recording a \<noteq> 0"
    "k \<notin> {QK_DYNAMIC_MACRO_RECORD_START_1, QK_DYNAMIC_MACRO_RECORD_START_2, QK_DYNAMIC_MACRO_RECORD_STOP}"
    "\<not> (nn \<and> k \<in> {QK_DYNAMIC_MACRO_PLAY_1, QK_DYNAMIC_MACRO_PLAY_2})" "v k r"
  shows "refines_step n (process_dynamic_macro v nn k r s) s (macros_step v nn n k r a)"
proof -
  have h: "length (macro_buffer s) = n" "macro_id s = recording a" using assms(1) by (simp_all add: holds_macros_def)
  have "recording a = 1 \<or> recording a = 2" using assms(1,2) by (auto simp: holds_macros_def)
  then show ?thesis
  proof
    assume one: "recording a = 1"
    obtain rs calls where r: "recorded n (m2 a) (cur a) True r = (rs, calls)" by force
    have i: "macro_at True s (macro_pointer s) (cur a)" "macro_at (\<not> True) s (r_macro_end s) (m2 a)" "length (cur a) + length (m2 a) \<le> n"
      using assms(1) one by (simp_all add: holds_macros_def)
    obtain b p where b: "dynamic_macro_record_key 0 (r_macro_end s) True r s = Some (dm_note calls (s\<lparr>macro_buffer := b, macro_pointer := p\<rparr>))"
      "length b = n" "macro_at True (s\<lparr>macro_buffer := b, macro_pointer := p\<rparr>) p rs"
      "macro_at False (s\<lparr>macro_buffer := b, macro_pointer := p\<rparr>) (r_macro_end s) (m2 a)" "length rs + length (m2 a) \<le> n"
      using record_refines [OF i(1,2), of r rs calls] i(3) h(1) r by (auto simp: ends_of_buffer)
    then show ?thesis using assms h one r
      by (auto simp: refines_step_def process_dynamic_macro_def macros_step_def holds_macros_def macro_at_def)
  next
    assume two: "recording a = 2"
    obtain rs calls where r: "recorded n (m1 a) (cur a) False r = (rs, calls)" by force
    have i: "macro_at False s (macro_pointer s) (cur a)" "macro_at (\<not> False) s (macro_end s) (m1 a)" "length (cur a) + length (m1 a) \<le> n"
      using assms(1) two by (simp_all add: holds_macros_def)
    obtain b p where b: "dynamic_macro_record_key (r_macro_buffer s) (macro_end s) False r s =
        Some (dm_note calls (s\<lparr>macro_buffer := b, macro_pointer := p\<rparr>))"
      "length b = n" "macro_at False (s\<lparr>macro_buffer := b, macro_pointer := p\<rparr>) p rs"
      "macro_at True (s\<lparr>macro_buffer := b, macro_pointer := p\<rparr>) (macro_end s) (m1 a)" "length rs + length (m1 a) \<le> n"
      using record_refines [OF i(1,2), of r rs calls] i(3) h(1) r by (auto simp: ends_of_buffer)
    then show ?thesis using assms h two r
      by (auto simp: refines_step_def process_dynamic_macro_def macros_step_def holds_macros_def macro_at_def)
  qed
qed

lemma step_refines:
  assumes "holds_macros n s a"
  shows "refines_step n (process_dynamic_macro v nn k r s) s (macros_step v nn n k r a)"
proof (cases "recording a = 0 \<or> k \<in> {QK_DYNAMIC_MACRO_RECORD_START_1, QK_DYNAMIC_MACRO_RECORD_START_2, QK_DYNAMIC_MACRO_RECORD_STOP} \<or>
    \<not> (nn \<and> k \<in> {QK_DYNAMIC_MACRO_PLAY_1, QK_DYNAMIC_MACRO_PLAY_2}) \<and> v k r")
  case True
  then show ?thesis using idle_refines [OF assms] stop_refines [OF assms] key_refines [OF assms] by blast
next
  case False
  then show ?thesis using assms
    by (auto simp: refines_step_def process_dynamic_macro_def macros_step_def holds_macros_def dm_codes)
qed

subsection \<open>Sequences of keys\<close>

fun run_dm :: "(u16 \<Rightarrow> keyrecord_t \<Rightarrow> bool) \<Rightarrow> bool \<Rightarrow> (u16 \<times> keyrecord_t) list \<Rightarrow> dm_st \<Rightarrow> dm_st option" where
  "run_dm v nn [] s = Some s"
| "run_dm v nn ((k, r) # es) s = Option.bind (process_dynamic_macro v nn k r s) (\<lambda>(b, s'). run_dm v nn es s')"

fun run_macros ::
  "(u16 \<Rightarrow> keyrecord_t \<Rightarrow> bool) \<Rightarrow> bool \<Rightarrow> nat \<Rightarrow> (u16 \<times> keyrecord_t) list \<Rightarrow> macros \<Rightarrow> macros \<times> dm_call list" where
  "run_macros v nn n [] a = (a, [])"
| "run_macros v nn n ((k, r) # es) a =
    (let (b, a', calls) = macros_step v nn n k r a; (a'', calls') = run_macros v nn n es a' in (a'', calls @ calls'))"

lemma runs_refine:
  assumes "holds_macros n s a"
  shows "\<exists>s'. run_dm v nn es s = Some s' \<and> dm_calls s' = dm_calls s @ snd (run_macros v nn n es a) \<and>
    holds_macros n s' (fst (run_macros v nn n es a))"
  using assms
proof (induction es arbitrary: s a)
  case Nil
  then show ?case by simp
next
  case (Cons e es)
  obtain k r where e: "e = (k, r)" by force
  obtain b a' calls where st: "macros_step v nn n k r a = (b, a', calls)" by (cases "macros_step v nn n k r a") auto
  obtain t where t: "process_dynamic_macro v nn k r s = Some (b, t)" "dm_calls t = dm_calls s @ calls" "holds_macros n t a'"
    using step_refines [OF Cons.prems, of v nn k r] st by (auto simp: refines_step_def)
  from Cons.IH [OF t(3)] show ?case using t st e by (auto simp: split_beta)
qed

definition dm_control :: "u16 \<Rightarrow> bool" where
  "dm_control k \<longleftrightarrow> k \<in> {QK_DYNAMIC_MACRO_RECORD_START_1, QK_DYNAMIC_MACRO_RECORD_START_2, QK_DYNAMIC_MACRO_RECORD_STOP,
    QK_DYNAMIC_MACRO_PLAY_1, QK_DYNAMIC_MACRO_PLAY_2}"

lemma run_macros_append:
  "run_macros v nn n (es @ fs) a =
    (let (a', calls) = run_macros v nn n es a; (a'', calls') = run_macros v nn n fs a' in (a'', calls @ calls'))"
  by (induction es arbitrary: a) (auto simp: split_beta)

lemma recording_keys:
  assumes "\<forall>(k, r) \<in> set ks. \<not> dm_control k \<and> v k r" "recording a = 1" "length (cur a) + length ks + length (m2 a) \<le> n"
  shows "run_macros v nn n ks a =
    (a\<lparr>cur := if cur a = [] then dropWhile (\<lambda>r. \<not> pressed_record r) (map snd ks) else cur a @ map snd ks\<rparr>, [])"
  using assms
proof (induction ks arbitrary: a)
  case Nil
  then show ?case by (cases a) simp
next
  case (Cons e ks)
  obtain k r where e: "e = (k, r)" by force
  have k: "\<not> dm_control k" "v k r" using Cons.prems(1) e by auto
  have ks: "\<forall>(k, r) \<in> set ks. \<not> dm_control k \<and> v k r" using Cons.prems(1) by auto
  show ?case
  proof (cases "\<not> pressed_record r \<and> cur a = []")
    case True
    then have "macros_step v nn n k r a = (True, a\<lparr>cur := []\<rparr>, [])"
      using k Cons.prems(2) by (simp add: macros_step_def recorded_def dm_control_def)
    moreover have "a\<lparr>cur := []\<rparr> = a" using True by (cases a) simp
    ultimately show ?thesis using Cons.IH [OF ks Cons.prems(2)] Cons.prems(3) True e by simp
  next
    case False
    let ?a = "a\<lparr>cur := cur a @ [r]\<rparr>"
    have "macros_step v nn n k r a = (True, ?a, [])"
      using False k Cons.prems(2,3) by (auto simp: macros_step_def recorded_def dm_control_def)
    then show ?thesis using Cons.IH [OF ks, of ?a] Cons.prems(2,3) False e by auto
  qed
qed

definition press_of :: "u8 \<Rightarrow> keyrecord_t" where
  "press_of c = record_for (MAKE_KEYEVENT 1 0 c True)"

definition release_of :: "u8 \<Rightarrow> keyrecord_t" where
  "release_of c = record_for (MAKE_KEYEVENT 1 0 c False)"

lemma initial_holds:
  "holds_macros DYNAMIC_MACRO_SIZE initial_macros \<lparr>m1 = [], m2 = [], recording = 0, cur = []\<rparr>"
  by (simp add: holds_macros_def macro_at_def initial_macros_def pos_def)

subsection \<open>Properties\<close>

text \<open>C24: the shared buffer behaves as two lists that together have its size: for every sequence of keys no access
  leaves the buffer, the calls are those of the lists, and neither macro is ever overwritten by recording the other.\<close>

theorem dynamic_macros_refine_lists:
  assumes "holds_macros n s a"
  shows "\<exists>s'. run_dm v nn es s = Some s' \<and> dm_calls s' = dm_calls s @ snd (run_macros v nn n es a) \<and>
    holds_macros n s' (fst (run_macros v nn n es a))"
  using runs_refine [OF assms] .

theorem dynamic_macros_refine_lists_witness:
  "\<exists>s'. run_dm (\<lambda>_ _. True) False [(QK_DYNAMIC_MACRO_RECORD_START_2, release_of 1), (4, press_of 2)] initial_macros = Some s' \<and>
    dm_calls s' = [Dm_record_start, Dm_clear_keyboard, Dm_layer_clear]"
  using dynamic_macros_refine_lists [OF initial_holds, of "\<lambda>_ _. True" False
      "[(QK_DYNAMIC_MACRO_RECORD_START_2, release_of 1), (4, press_of 2)]"]
  by (auto simp: macros_step_def dm_codes pressed_record_def release_of_def press_of_def record_for_def MAKE_KEYEVENT_def
      recorded_def initial_macros_def DYNAMIC_MACRO_SIZE_def)



end
