(* ===== verification/Qmk_Key_Lock.thy ===== *)
theory Qmk_Key_Lock
  imports Qmk_Prelude
begin

text \<open>
  Key lock (\<^verbatim>\<open>process_keycode/process_key_lock.c\<close>): the key pressed after the lock key stays down until it is pressed
  again.  The locked keys are 256 bits in four words of 64.
\<close>

subsection \<open>The bits\<close>

record key_lock_st =
  key_state :: "u64 list"
  watching :: bool

definition QK_ONE_SHOT_MOD :: u16 where "QK_ONE_SHOT_MOD = 0x52A0"
definition QK_ONE_SHOT_MOD_MAX :: u16 where "QK_ONE_SHOT_MOD_MAX = 0x52BF"
definition QK_LOCK :: u16 where "QK_LOCK = 0x7C59"

definition BV_64 :: "u16 \<Rightarrow> u64" where
  "BV_64 shift = push_bit (unat shift) 1"

definition array_of :: "u16 \<Rightarrow> nat" where
  "array_of code = (if code < 0x40 then 0 else if code < 0x80 then 1 else if code < 0xC0 then 2 else 3)"

definition GET_KEY_ARRAY :: "u16 \<Rightarrow> key_lock_st \<Rightarrow> u64" where
  "GET_KEY_ARRAY code s = key_state s ! array_of code"

definition GET_CODE_INDEX :: "u16 \<Rightarrow> u16" where
  "GET_CODE_INDEX code = (if code < 0x40 then code else if code < 0x80 then code - 0x40 else if code < 0xC0 then code - 0x80 else code - 0xC0)"

definition KEY_STATE :: "u16 \<Rightarrow> key_lock_st \<Rightarrow> bool" where
  "KEY_STATE code s \<longleftrightarrow> GET_KEY_ARRAY code s AND BV_64 (GET_CODE_INDEX code) = BV_64 (GET_CODE_INDEX code)"

text \<open>The switch has no case for codes above 255.\<close>

definition SET_KEY_ARRAY_STATE :: "u16 \<Rightarrow> u64 \<Rightarrow> key_lock_st \<Rightarrow> key_lock_st" where
  "SET_KEY_ARRAY_STATE code val s = (if code \<le> 0xFF then s\<lparr>key_state := (key_state s)[array_of code := val]\<rparr> else s)"

definition SET_KEY_STATE :: "u16 \<Rightarrow> key_lock_st \<Rightarrow> key_lock_st" where
  "SET_KEY_STATE code s = SET_KEY_ARRAY_STATE code (GET_KEY_ARRAY code s OR BV_64 (GET_CODE_INDEX code)) s"

definition UNSET_KEY_STATE :: "u16 \<Rightarrow> key_lock_st \<Rightarrow> key_lock_st" where
  "UNSET_KEY_STATE code s = SET_KEY_ARRAY_STATE code (GET_KEY_ARRAY code s AND NOT (BV_64 (GET_CODE_INDEX code))) s"

definition IS_STANDARD_KEYCODE :: "u16 \<Rightarrow> bool" where
  "IS_STANDARD_KEYCODE code \<longleftrightarrow> code \<le> 0xFF"

definition translate_keycode :: "u16 \<Rightarrow> u16" where
  "translate_keycode keycode =
    (if QK_ONE_SHOT_MOD < keycode \<and> keycode \<le> QK_ONE_SHOT_MOD_MAX then keycode XOR QK_ONE_SHOT_MOD else keycode)"

definition cancel_key_lock :: "key_lock_st \<Rightarrow> key_lock_st" where
  "cancel_key_lock s = UNSET_KEY_STATE 0 (s\<lparr>watching := False\<rparr>)"

subsection \<open>The handler\<close>

text \<open>Whether the key is processed further, and as which key code.\<close>

definition process_key_lock :: "u16 \<Rightarrow> bool \<Rightarrow> key_lock_st \<Rightarrow> bool \<times> u16 \<times> key_lock_st" where
  "process_key_lock keycode pressed s =
    (let translated = translate_keycode keycode in
     if pressed then
       if \<not> (IS_STANDARD_KEYCODE translated \<or> translated = QK_LOCK) then (True, keycode, s\<lparr>watching := False\<rparr>)
       else if translated = QK_LOCK then (False, keycode, s\<lparr>watching := \<not> watching s\<rparr>)
       else if IS_STANDARD_KEYCODE translated then
         if watching s then (True, translated, SET_KEY_STATE translated (s\<lparr>watching := False\<rparr>))
         else if KEY_STATE translated s then (False, keycode, UNSET_KEY_STATE translated s)
         else (True, keycode, s)
       else (True, keycode, s)
     else (\<not> (IS_STANDARD_KEYCODE translated \<and> KEY_STATE translated s), keycode, s))"

definition initial_key_lock :: key_lock_st where
  "initial_key_lock = \<lparr>key_state = replicate 4 0, watching = False\<rparr>"

subsection \<open>The locked keys as a set\<close>

definition lock_ok :: "key_lock_st \<Rightarrow> bool" where
  "lock_ok s \<longleftrightarrow> length (key_state s) = 4"

definition locked :: "key_lock_st \<Rightarrow> u16 set" where
  "locked s = {k. k \<le> 0xFF \<and> KEY_STATE k s}"

lemma code_parts:
  assumes "code \<le> 0xFF"
  shows "array_of code = unat code div 64" "unat (GET_CODE_INDEX code) = unat code mod 64"
proof -
  have n: "unat code \<le> 255" using assms by (simp add: word_le_nat_alt)
  consider "unat code < 64" | "64 \<le> unat code" "unat code < 128" | "128 \<le> unat code" "unat code < 192" | "192 \<le> unat code" by linarith
  then have "array_of code = unat code div 64 \<and> unat (GET_CODE_INDEX code) = unat code mod 64"
  proof cases
    case 1
    then show ?thesis by (simp add: array_of_def GET_CODE_INDEX_def word_less_nat_alt)
  next
    case 2
    then show ?thesis by (simp add: array_of_def GET_CODE_INDEX_def word_less_nat_alt unat_sub word_le_nat_alt le_mod_geq le_div_geq)
  next
    case 3
    then show ?thesis by (simp add: array_of_def GET_CODE_INDEX_def word_less_nat_alt unat_sub word_le_nat_alt le_mod_geq le_div_geq)
  next
    case 4
    then show ?thesis using n by (simp add: array_of_def GET_CODE_INDEX_def word_less_nat_alt unat_sub word_le_nat_alt le_mod_geq le_div_geq)
  qed
  then show "array_of code = unat code div 64" "unat (GET_CODE_INDEX code) = unat code mod 64" by simp_all
qed

lemma BV_64_bitmask: "BV_64 i = bitmask (unat i)"
  by (simp add: BV_64_def bitmask_def)

lemma KEY_STATE_bit:
  assumes "code \<le> 0xFF"
  shows "KEY_STATE code s \<longleftrightarrow> bit (key_state s ! (unat code div 64)) (unat code mod 64)"
  using code_parts [OF assms] by (simp add: KEY_STATE_def GET_KEY_ARRAY_def BV_64_bitmask and_bitmask_eq)

lemma same_code: "a div 64 = b div 64 \<Longrightarrow> a mod 64 = b mod 64 \<Longrightarrow> a = (b :: nat)"
  by (metis div_mult_mod_eq)

lemma array_index: "code \<le> (0xFF :: u16) \<Longrightarrow> unat code div 64 < 4"
  by (simp add: word_le_nat_alt less_mult_imp_div_less)

lemma key_lock_word:
  assumes "lock_ok s" "code \<le> 0xFF" "k \<le> 0xFF"
  shows "key_state (SET_KEY_ARRAY_STATE code w s) ! (unat k div 64) =
    (if unat k div 64 = unat code div 64 then w else key_state s ! (unat k div 64))"
  using assms code_parts(1) [OF assms(2)] array_index [OF assms(2)]
  by (simp add: SET_KEY_ARRAY_STATE_def lock_ok_def nth_list_update)

lemma KEY_STATE_set:
  assumes "lock_ok s" "code \<le> 0xFF" "k \<le> 0xFF"
  shows "KEY_STATE k (SET_KEY_STATE code s) \<longleftrightarrow> k = code \<or> KEY_STATE k s"
    "KEY_STATE k (UNSET_KEY_STATE code s) \<longleftrightarrow> k \<noteq> code \<and> KEY_STATE k s"
proof -
  have eq: "k = code \<longleftrightarrow> unat k div 64 = unat code div 64 \<and> unat k mod 64 = unat code mod 64"
    using same_code [of "unat k" "unat code"] by (auto simp: word_unat_eq_iff)
  have m: "unat code mod 64 < 64" "unat k mod 64 < 64" by simp_all
  show "KEY_STATE k (SET_KEY_STATE code s) \<longleftrightarrow> k = code \<or> KEY_STATE k s"
    "KEY_STATE k (UNSET_KEY_STATE code s) \<longleftrightarrow> k \<noteq> code \<and> KEY_STATE k s"
    unfolding KEY_STATE_bit [OF assms(3)] SET_KEY_STATE_def UNSET_KEY_STATE_def key_lock_word [OF assms]
      GET_KEY_ARRAY_def BV_64_bitmask code_parts [OF assms(2)] eq
    using m by (auto simp: bit_or_iff bit_and_iff bit_not_iff bit_bitmask)
qed

lemma locked_set:
  assumes "lock_ok s" "code \<le> 0xFF"
  shows "locked (SET_KEY_STATE code s) = insert code (locked s)" "locked (UNSET_KEY_STATE code s) = locked s - {code}"
    "lock_ok (SET_KEY_STATE code s)" "lock_ok (UNSET_KEY_STATE code s)"
  using assms KEY_STATE_set [OF assms]
  by (auto simp: locked_def lock_ok_def SET_KEY_STATE_def UNSET_KEY_STATE_def SET_KEY_ARRAY_STATE_def)

subsection \<open>The promise: a set of locked keys\<close>

type_synonym key_lock_abs = "u16 set \<times> bool"

definition lock_step :: "u16 \<Rightarrow> bool \<Rightarrow> key_lock_abs \<Rightarrow> bool \<times> u16 \<times> key_lock_abs" where
  "lock_step k pressed = (\<lambda>(L, w). let t = translate_keycode k in
     if \<not> pressed then (t \<notin> L, k, L, w)
     else if t = QK_LOCK then (False, k, L, \<not> w)
     else if \<not> IS_STANDARD_KEYCODE t then (True, k, L, False)
     else if w then (True, t, insert t L, False)
     else (t \<notin> L, k, L - {t}, False))"

definition key_lock_abs :: "key_lock_st \<Rightarrow> key_lock_abs" where
  "key_lock_abs s = (locked s, watching s)"

lemma watching_update [simp]:
  "watching (SET_KEY_STATE k s) = watching s" "watching (UNSET_KEY_STATE k s) = watching s"
  "locked (s\<lparr>watching := b\<rparr>) = locked s" "lock_ok (s\<lparr>watching := b\<rparr>) = lock_ok s"
  by (simp_all add: SET_KEY_STATE_def UNSET_KEY_STATE_def SET_KEY_ARRAY_STATE_def locked_def KEY_STATE_def GET_KEY_ARRAY_def lock_ok_def)

lemma locked_standard: "k \<in> locked s \<longleftrightarrow> IS_STANDARD_KEYCODE k \<and> KEY_STATE k s"
  by (simp add: locked_def IS_STANDARD_KEYCODE_def)

lemma process_key_lock_refines:
  assumes "lock_ok s"
  shows "\<exists>s'. process_key_lock k p s = (fst (lock_step k p (key_lock_abs s)), fst (snd (lock_step k p (key_lock_abs s))), s') \<and>
    lock_ok s' \<and> key_lock_abs s' = snd (snd (lock_step k p (key_lock_abs s)))"
proof -
  let ?t = "translate_keycode k"
  have lock: "\<not> IS_STANDARD_KEYCODE QK_LOCK" by (simp add: IS_STANDARD_KEYCODE_def QK_LOCK_def)
  show ?thesis
  proof (cases "IS_STANDARD_KEYCODE ?t")
    case False
    then have "?t \<notin> locked s" by (simp add: locked_standard)
    with False show ?thesis using assms
      by (auto simp: process_key_lock_def lock_step_def key_lock_abs_def Let_def)
  next
    case True
    then have t: "?t \<noteq> QK_LOCK" "?t \<le> 0xFF" "KEY_STATE ?t s \<longleftrightarrow> ?t \<in> locked s"
      using lock by (auto simp: locked_standard IS_STANDARD_KEYCODE_def)
    with True show ?thesis using assms locked_set [OF assms t(2)] locked_set [of "s\<lparr>watching := False\<rparr>", OF _ t(2)]
      by (auto simp: process_key_lock_def lock_step_def key_lock_abs_def Let_def)
  qed
qed

subsection \<open>Sequences of keys\<close>

text \<open>The events that are processed further, with the key code they are processed as.\<close>

fun run_key_lock :: "(u16 \<times> bool) list \<Rightarrow> key_lock_st \<Rightarrow> (u16 \<times> bool) list \<times> key_lock_st" where
  "run_key_lock [] s = ([], s)"
| "run_key_lock ((k, p) # es) s =
    (let (go, k', s') = process_key_lock k p s; (out, s'') = run_key_lock es s'
     in (if go then (k', p) # out else out, s''))"

fun run_lock_step :: "(u16 \<times> bool) list \<Rightarrow> key_lock_abs \<Rightarrow> (u16 \<times> bool) list \<times> key_lock_abs" where
  "run_lock_step [] a = ([], a)"
| "run_lock_step ((k, p) # es) a =
    (let (go, k', a') = lock_step k p a; (out, a'') = run_lock_step es a'
     in (if go then (k', p) # out else out, a''))"

lemma run_key_lock_refines:
  assumes "lock_ok s"
  shows "fst (run_key_lock es s) = fst (run_lock_step es (key_lock_abs s))"
    "key_lock_abs (snd (run_key_lock es s)) = snd (run_lock_step es (key_lock_abs s))" "lock_ok (snd (run_key_lock es s))"
proof -
  have "fst (run_key_lock es s) = fst (run_lock_step es (key_lock_abs s)) \<and>
      key_lock_abs (snd (run_key_lock es s)) = snd (run_lock_step es (key_lock_abs s)) \<and> lock_ok (snd (run_key_lock es s))"
    using assms
  proof (induction es arbitrary: s)
    case Nil
    then show ?case by simp
  next
    case (Cons e es)
    obtain k p where e: "e = (k, p)" by force
    obtain s' where s': "process_key_lock k p s =
        (fst (lock_step k p (key_lock_abs s)), fst (snd (lock_step k p (key_lock_abs s))), s')" "lock_ok s'"
      "key_lock_abs s' = snd (snd (lock_step k p (key_lock_abs s)))"
      using process_key_lock_refines [OF Cons.prems] by blast
    show ?case using Cons.IH [OF s'(2)] s' e by (simp add: split_beta Let_def)
  qed
  then show "fst (run_key_lock es s) = fst (run_lock_step es (key_lock_abs s))"
    "key_lock_abs (snd (run_key_lock es s)) = snd (run_lock_step es (key_lock_abs s))" "lock_ok (snd (run_key_lock es s))" by auto
qed

definition about_key :: "u16 \<Rightarrow> (u16 \<times> bool) list \<Rightarrow> (u16 \<times> bool) list" where
  "about_key k out = filter (\<lambda>(k', _). translate_keycode k' = k) out"

lemma translate_standard [simp]: "IS_STANDARD_KEYCODE k \<Longrightarrow> translate_keycode k = k"
  by (auto simp: translate_keycode_def IS_STANDARD_KEYCODE_def QK_ONE_SHOT_MOD_def word_less_nat_alt word_le_nat_alt)

lemma run_lock_step_append:
  "run_lock_step (es @ fs) a = (fst (run_lock_step es a) @ fst (run_lock_step fs (snd (run_lock_step es a))),
    snd (run_lock_step fs (snd (run_lock_step es a))))"
proof (induction es arbitrary: a)
  case Nil
  show ?case by simp
next
  case (Cons e es)
  show ?case by (cases e) (simp add: split_beta Let_def Cons)
qed

lemma held_through:
  assumes "k \<in> fst a" "\<forall>(k', p) \<in> set es. p \<longrightarrow> translate_keycode k' \<noteq> k"
  shows "about_key k (fst (run_lock_step es a)) = [] \<and> k \<in> fst (snd (run_lock_step es a))"
  using assms
proof (induction es arbitrary: a)
  case Nil
  then show ?case by (simp add: about_key_def)
next
  case (Cons e es)
  obtain k' p where e: "e = (k', p)" by force
  obtain go k'' a' where st: "lock_step k' p a = (go, k'', a')" by (cases "lock_step k' p a") auto
  have "k \<in> fst a'" "go \<longrightarrow> translate_keycode k'' \<noteq> k"
    using st Cons.prems e by (cases a; auto simp: lock_step_def Let_def split: if_splits)+
  moreover have "\<forall>(k', p) \<in> set es. p \<longrightarrow> translate_keycode k' \<noteq> k" using Cons.prems by auto
  ultimately show ?case using Cons.IH [of a'] st e by (auto simp: about_key_def split_beta)
qed

subsection \<open>Property and findings\<close>


lemma initial_key_lock_ok: "lock_ok initial_key_lock" "locked initial_key_lock = {}"
  by (auto simp: initial_key_lock_def lock_ok_def locked_def KEY_STATE_bit array_index)


text \<open>\<^verbatim>\<open>cancel_key_lock\<close> releases no key but the one with code 0.\<close>

lemma cancel_key_lock_keeps_locks:
  assumes "lock_ok s"
  shows "locked (cancel_key_lock s) = locked s - {0}" "\<not> watching (cancel_key_lock s)"
  using locked_set(2) [of "s\<lparr>watching := False\<rparr>" 0] assms by (simp_all add: cancel_key_lock_def)

text \<open>A one-shot modifier is locked under its modifier bits, not under the key code of the modifier key: left shift
  (\<^verbatim>\<open>OSM(MOD_LSFT)\<close>, 0x52A2) as code 2 and not as 0xE1.\<close>

lemma oneshot_locked_as_mod_bits:
  assumes "lock_ok s" "watching s"
  shows "\<exists>s'. process_key_lock 0x52A2 True s = (True, 2, s') \<and> locked s' = insert 2 (locked s)"
  using process_key_lock_refines [OF assms(1), of "0x52A2" True] assms(2)
  by (auto simp: lock_step_def key_lock_abs_def translate_keycode_def QK_ONE_SHOT_MOD_def QK_ONE_SHOT_MOD_MAX_def QK_LOCK_def
      IS_STANDARD_KEYCODE_def)

end
