(* ===== verification/Qmk_Lib8.thy ===== *)
theory Qmk_Lib8
  imports Qmk_Prelude "HOL-Library.Signed_Division"
begin

text \<open>
  The 8-bit arithmetic the LED effects use (\<^verbatim>\<open>lib/lib8tion\<close>: \<^verbatim>\<open>scale8.h\<close>, \<^verbatim>\<open>math8.h\<close>, \<^verbatim>\<open>trig8.h\<close>, the C
  versions, which are the ones an ARM build takes).  Intermediate results have the width of the source where it
  can matter; \<open>i8\<close> marks the 8-bit values that are signed.
\<close>

type_synonym i8 = "8 word"

subsection \<open>Scaling and saturation\<close>

definition scale8 :: "u8 \<Rightarrow> u8 \<Rightarrow> u8" where
  "scale8 i scale = ucast (drop_bit 8 (ucast i * ucast scale :: u16))"

definition scale16by8 :: "u16 \<Rightarrow> u8 \<Rightarrow> u16" where
  "scale16by8 i scale = ucast ((ucast i * ucast scale :: u32) div 256)"

definition qadd8 :: "u8 \<Rightarrow> u8 \<Rightarrow> u8" where
  "qadd8 i j = (let t = (ucast i + ucast j :: u16) in ucast (if t > 255 then 255 else t))"

definition qsub8 :: "u8 \<Rightarrow> u8 \<Rightarrow> u8" where
  "qsub8 i j = (let t = uint i - uint j in word_of_int (if t < 0 then 0 else t))"

definition abs8 :: "i8 \<Rightarrow> i8" where
  "abs8 i = (if sint i < 0 then - i else i)"

lemma byte_less: "unat (w :: u8) < 256"
  using unsigned_less [of w, where 'a = nat] by simp

lemma half_less: "unat (v :: u16) < 65536"
  using unsigned_less [of v, where 'a = nat] by simp

lemma unat_widen:
  "unat (ucast (w :: u8) :: u16) = unat w" "unat (ucast w :: u32) = unat w" "unat (ucast (v :: u16) :: u32) = unat v"
  using byte_less [of w] half_less [of v] by (simp_all add: unsigned_ucast_eq take_bit_nat_eq_self)

lemma unat_narrow: "unat (ucast (v :: u16) :: u8) = unat v mod 256" "unat (ucast (x :: u32) :: u16) = unat x mod 65536"
  by (simp_all add: unsigned_ucast_eq take_bit_eq_mod)

lemma unat_scale8: "unat (scale8 i s) = unat i * unat s div 256"
proof -
  have b: "unat i * unat s \<le> 255 * 255" using byte_less [of i] byte_less [of s] by (intro mult_le_mono) simp_all
  then have "unat (ucast i * ucast s :: u16) = unat i * unat s" by (simp add: unat_word_ariths unat_widen)
  with b show ?thesis by (simp add: scale8_def unat_narrow drop_bit_eq_div unat_div)
qed

lemma scale8_le: "scale8 i s \<le> s"
proof -
  have "unat i * unat s \<le> 256 * unat s" using byte_less [of i] by (intro mult_le_mono) simp_all
  then have "unat i * unat s div 256 \<le> 256 * unat s div 256" by (rule div_le_mono)
  then show ?thesis by (simp add: word_le_nat_alt unat_scale8)
qed

lemma unat_scale16by8: "unat (scale16by8 i s) = unat i * unat s div 256"
proof -
  have b: "unat i * unat s \<le> 65535 * 255" using byte_less [of s] half_less [of i] by (intro mult_le_mono) simp_all
  then have "unat (ucast i * ucast s :: u32) = unat i * unat s" by (simp add: unat_word_ariths unat_widen)
  with b show ?thesis by (simp add: scale16by8_def unat_narrow unat_div)
qed

lemma unat_qadd8: "unat (qadd8 i j) = min 255 (unat i + unat j)"
proof -
  have p: "unat (ucast i + ucast j :: u16) = unat i + unat j"
    using byte_less [of i] byte_less [of j] by (simp add: unat_word_ariths unat_widen)
  show ?thesis
  proof (cases "unat i + unat j > 255")
    case True
    then show ?thesis by (simp add: qadd8_def Let_def word_less_nat_alt p)
  next
    case False
    then show ?thesis by (simp add: qadd8_def Let_def word_less_nat_alt p unat_narrow)
  qed
qed

lemma unat_qsub8: "unat (qsub8 i j) = unat i - unat j"
proof (cases "i < j")
  case True
  then have "unat i \<le> unat j" by (simp add: word_less_nat_alt)
  with True show ?thesis by (simp add: qsub8_def word_less_def)
next
  case False
  then have "qsub8 i j = i - j" by (simp add: qsub8_def word_less_def not_less)
  then show ?thesis using False by (simp add: unat_sub not_less word_le_nat_alt)
qed

subsection \<open>Square root\<close>

text \<open>The loop searches for the root between \<open>low\<close> and \<open>hi\<close>.\<close>

definition middle :: "u8 \<Rightarrow> u8 \<Rightarrow> u8" where
  "middle low hi = ucast (drop_bit 1 (ucast low + ucast hi :: u16))"

lemma unat_middle: "unat (middle low hi) = (unat low + unat hi) div 2"
  using byte_less [of low] byte_less [of hi]
  by (simp add: middle_def unat_narrow unat_drop_bit_eq drop_bit_eq_div unat_word_ariths unat_widen)

lemma middle_up: "m \<noteq> 255 \<Longrightarrow> unat (m + 1 :: u8) = unat m + 1"
  using byte_less [of m] by (auto simp: unat_word_ariths word_unat_eq_iff)

lemma middle_down: "m \<noteq> 0 \<Longrightarrow> unat (m - 1 :: u8) = unat m - 1"
  by (simp add: unat_minus_one)

lemma search_below:
  assumes "(x :: u16) < ucast (middle low hi) * ucast (middle low hi)" "low \<le> middle low hi - 1"
  shows "unat (middle low hi - 1) - unat low < unat hi - unat low"
proof -
  have "middle low hi \<noteq> 0" using assms(1) by auto
  then have "unat (middle low hi) \<noteq> 0" "unat (middle low hi - 1) = unat (middle low hi) - 1"
    by (simp_all add: middle_down unat_eq_0)
  then show ?thesis using assms(2) by (simp add: word_le_nat_alt unat_middle)
qed

lemma search_above:
  assumes "middle low hi \<noteq> 255" "middle low hi + 1 \<le> hi"
  shows "unat hi - unat (middle low hi + 1) < unat hi - unat low"
  using assms by (simp add: word_le_nat_alt middle_up unat_middle)

function sqrt_loop :: "u16 \<Rightarrow> u8 \<Rightarrow> u8 \<Rightarrow> u8" where
  "sqrt_loop x low hi =
    (let mid = middle low hi in
     if x < ucast mid * ucast mid then
       (let hi = mid - 1 in if low \<le> hi then sqrt_loop x low hi else low - 1)
     else if mid = 255 then 255
     else (let low = mid + 1 in if low \<le> hi then sqrt_loop x low hi else low - 1))"
  by pat_completeness auto

termination
  by (relation "measure (\<lambda>(x, low, hi). unat hi - unat low)") (simp_all add: search_below search_above)

declare sqrt_loop.simps [simp del]

definition sqrt16 :: "u16 \<Rightarrow> u8" where
  "sqrt16 x =
    (if x \<le> 1 then ucast x
     else sqrt_loop x 1 (if x > 7904 then 255 else ucast (drop_bit 5 x + 8)))"

lemma unat_square: "unat (ucast (m :: u8) * ucast m :: u16) = unat m * unat m"
proof -
  have "unat m * unat m \<le> 255 * 255" using byte_less [of m] by (intro mult_le_mono) simp_all
  then show ?thesis by (simp add: unat_word_ariths unat_widen)
qed

definition is_root :: "nat \<Rightarrow> nat \<Rightarrow> bool" where
  "is_root r x \<longleftrightarrow> r * r \<le> x \<and> x < (r + 1) * (r + 1)"

lemma sqrt_loop_root:
  assumes "1 \<le> unat low" "unat low \<le> unat hi" "(unat low - 1) * (unat low - 1) \<le> unat x" "unat x < (unat hi + 1) * (unat hi + 1)"
  shows "is_root (unat (sqrt_loop x low hi)) (unat x)"
  using assms
proof (induction x low hi rule: sqrt_loop.induct)
  case (1 x low hi)
  let ?m = "middle low hi"
  have m: "unat low \<le> unat ?m" "unat ?m \<le> unat hi" using 1(4) by (simp_all add: unat_middle)
  have below: "x < ucast ?m * ucast ?m \<longleftrightarrow> unat x < unat ?m * unat ?m" by (simp add: word_less_nat_alt unat_square)
  have low1: "unat (low - 1) = unat low - 1" using 1(3) by (intro middle_down) auto
  show ?case
  proof (cases "unat x < unat ?m * unat ?m")
    case True
    have d: "unat (?m - 1) = unat ?m - 1" using m 1(3) by (intro middle_down) auto
    show ?thesis
    proof (cases "low \<le> ?m - 1")
      case le: True
      have "is_root (unat (sqrt_loop x low (?m - 1))) (unat x)"
        using 1(1) [OF refl _ refl le] True below 1(3,5) le m d by (simp add: word_le_nat_alt)
      then show ?thesis using True below le by (simp add: sqrt_loop.simps [of x low hi])
    next
      case False
      then have "unat ?m = unat low" using m d by (simp add: word_le_nat_alt)
      then have "is_root (unat low - 1) (unat x)" using True 1(3,5) by (simp add: is_root_def)
      then show ?thesis using True below False by (simp add: sqrt_loop.simps [of x low hi] low1)
    qed
  next
    case False
    show ?thesis
    proof (cases "?m = 255")
      case True
      have "is_root 255 (unat x)" using False True half_less [of x] by (simp add: is_root_def)
      then show ?thesis using False below True by (simp add: sqrt_loop.simps [of x low hi])
    next
      case n: False
      note u = middle_up [OF n]
      show ?thesis
      proof (cases "?m + 1 \<le> hi")
        case le: True
        have "is_root (unat (sqrt_loop x (?m + 1) hi)) (unat x)"
          using 1(2) [OF refl _ n refl le] False below 1(6) le u by (simp add: word_le_nat_alt)
        then show ?thesis using False below n le by (simp add: sqrt_loop.simps [of x low hi])
      next
        case f: False
        then have "unat ?m = unat hi" using m u by (simp add: word_le_nat_alt)
        then have "is_root (unat ?m) (unat x)" using False 1(6) by (simp add: is_root_def)
        then show ?thesis using False below n f by (simp add: sqrt_loop.simps [of x low hi])
      qed
    qed
  qed
qed

lemma root_bound: "x < (x div 32 + 8 + 1) * (x div 32 + 8 + 1)" for x :: nat
proof -
  define k where "k = x div 32"
  have x: "x < 32 * k + 32" unfolding k_def by presburger
  have "32 * k + 31 < (k + 9) * (k + 9)"
  proof (cases "7 \<le> k")
    case True
    then obtain d where "k = 7 + d" using le_Suc_ex by blast
    then show ?thesis by (simp add: algebra_simps)
  next
    case False
    then have "k \<in> {0, 1, 2, 3, 4, 5, 6}" by auto
    then show ?thesis by auto
  qed
  then have "x < (k + 8 + 1) * (k + 8 + 1)" using x by (simp add: add.commute)
  then show ?thesis by (simp only: k_def)
qed

text \<open>The initial estimate of the upper bound is never too small.\<close>

lemma sqrt16_root: "is_root (unat (sqrt16 x)) (unat x)"
proof (cases "x \<le> 1")
  case True
  then have "unat x = 0 \<or> unat x = 1" by (simp add: word_le_nat_alt le_Suc_eq)
  then show ?thesis using True by (auto simp: sqrt16_def is_root_def unat_narrow)
next
  case False
  then have x: "2 \<le> unat x" by (simp add: word_le_nat_alt)
  show ?thesis
  proof (cases "x > 7904")
    case True
    then show ?thesis using False half_less [of x] sqrt_loop_root [of 1 255 x] by (simp add: sqrt16_def)
  next
    case f: False
    let ?h = "ucast (drop_bit 5 x + 8) :: u8"
    have "unat x \<le> 7904" using f by (simp add: word_less_nat_alt)
    then have "unat ?h = unat x div 32 + 8"
      by (simp add: unat_narrow unat_word_ariths unat_drop_bit_eq drop_bit_eq_div)
    then show ?thesis using False f root_bound [of "unat x"] sqrt_loop_root [of 1 ?h x] by (simp add: sqrt16_def add.commute)
  qed
qed

subsection \<open>Sine, cosine, angle\<close>

definition b_m16_interleave :: "u8 list" where
  "b_m16_interleave = [0, 49, 49, 41, 90, 27, 117, 10]"

definition sin8 :: "u8 \<Rightarrow> u8" where
  "sin8 theta =
    (let offset = (if theta AND 0x40 \<noteq> 0 then 255 - theta else theta) AND 0x3F;
         secoffset = offset AND 0x0F;
         secoffset = (if theta AND 0x40 \<noteq> 0 then secoffset + 1 else secoffset);
         s2 = unat (drop_bit 4 offset * 2);
         b = b_m16_interleave ! s2; m16 = b_m16_interleave ! (s2 + 1);
         mx = ucast (drop_bit 4 (ucast m16 * ucast secoffset :: u16)) :: u8;
         y = mx + b;
         y = (if theta AND 0x80 \<noteq> 0 then - y else y)
     in y + 128)"

definition cos8 :: "u8 \<Rightarrow> u8" where
  "cos8 theta = sin8 (theta + 64)"

text \<open>The quotients are those of C, rounded towards zero.\<close>

definition atan2_8 :: "u16 \<Rightarrow> u16 \<Rightarrow> u8" where
  "atan2_8 dy dx =
    (if dy = 0 then if 0 \<le> sint dx then 0 else 128
     else let abs_y = sint (if 0 < sint dy then dy else - dy); x = sint dx;
              a = word_of_int (if 0 \<le> x then 32 - 32 * (x - abs_y) sdiv (x + abs_y)
                               else 96 - 32 * (x + abs_y) sdiv (abs_y - x)) :: i8
          in if sint dy < 0 then - a else a)"

text \<open>The table is only read inside of it.\<close>

lemma sin8_in_table: "unat (drop_bit 4 (w AND 0x3F :: u8) * 2) + 1 < length b_m16_interleave"
proof -
  have "w AND 0x3F = take_bit 6 w" by (simp add: take_bit_eq_mask mask_eq_exp_minus_1)
  then have "unat (w AND 0x3F) < 64" by (simp add: unsigned_take_bit_eq take_bit_eq_mod unat_mod)
  then have "unat (w AND 0x3F) div 16 < 4" by (simp add: less_mult_imp_div_less)
  then show ?thesis by (simp add: b_m16_interleave_def unat_word_ariths unat_drop_bit_eq drop_bit_eq_div)
qed

text \<open>The angle fits its signed byte and no divisor is zero: the first two octants give 0 to 64, the next two 65 to 127.\<close>

lemma sdiv_bounds:
  fixes n b :: int
  assumes "0 < b" "\<bar>n\<bar> < (k + 1) * b"
  shows "\<bar>n sdiv b\<bar> \<le> k"
proof -
  have "\<bar>n\<bar> div b < k + 1"
  proof (rule ccontr)
    assume "\<not> \<bar>n\<bar> div b < k + 1"
    then have "(k + 1) * b \<le> \<bar>n\<bar> div b * b" using assms(1) by (intro mult_right_mono) simp_all
    moreover have "\<bar>n\<bar> div b * b + \<bar>n\<bar> mod b = \<bar>n\<bar>" "0 \<le> \<bar>n\<bar> mod b" using assms(1) by simp_all
    ultimately show False using assms(2) by linarith
  qed
  moreover have "0 \<le> \<bar>n\<bar> div b" using assms(1) by (simp add: pos_imp_zdiv_nonneg_iff)
  ultimately show ?thesis using assms(1) by (auto simp: signed_divide_int_def abs_mult sgn_if)
qed

lemma atan2_8_range:
  fixes x y :: int
  assumes "0 < y"
  shows "0 \<le> x \<Longrightarrow> x + y \<noteq> 0 \<and> 32 - 32 * (x - y) sdiv (x + y) \<in> {0..64}"
    "x < 0 \<Longrightarrow> y - x \<noteq> 0 \<and> 96 - 32 * (x + y) sdiv (y - x) \<in> {65..127}"
proof -
  show "x + y \<noteq> 0 \<and> 32 - 32 * (x - y) sdiv (x + y) \<in> {0..64}" if "0 \<le> x"
  proof -
    have "\<bar>32 * (x - y)\<bar> < (32 + 1) * (x + y)" using that assms by (auto simp: abs_if)
    then have "\<bar>32 * (x - y) sdiv (x + y)\<bar> \<le> 32" using that assms by (intro sdiv_bounds) simp_all
    then show ?thesis using that assms by (simp add: abs_le_iff)
  qed
  show "y - x \<noteq> 0 \<and> 96 - 32 * (x + y) sdiv (y - x) \<in> {65..127}" if "x < 0"
  proof -
    have "\<bar>32 * (x + y)\<bar> < (31 + 1) * (y - x)" using that assms by (auto simp: abs_if)
    then have "\<bar>32 * (x + y) sdiv (y - x)\<bar> \<le> 31" using that assms by (intro sdiv_bounds) simp_all
    then show ?thesis using that assms by (simp add: abs_le_iff)
  qed
qed

end
