(* ===== verification/Qmk_Led_Effects.thy ===== *)
theory Qmk_Led_Effects
  imports Qmk_Lib8
begin

text \<open>
  The LED effects (\<^verbatim>\<open>quantum/led_matrix/animations\<close>) of the build with one LED per key (\<^verbatim>\<open>k3_pro/ansi/white\<close>, 84
  LEDs).  An effect is called with the number of its iteration in the frame and sets the LEDs of that part; what
  it does is the list of its calls of the driver.  The result says whether the frame goes on.  \<open>None\<close> is a
  division by zero.
\<close>

subsection \<open>Data\<close>

definition LED_COUNT :: u8 where "LED_COUNT = 84"
definition LED_HITS_TO_REMEMBER :: nat where "LED_HITS_TO_REMEMBER = 8"
definition LED_FLAG_ALL :: u8 where "LED_FLAG_ALL = 0xFF"
definition LED_FLAG_MODIFIER :: u8 where "LED_FLAG_MODIFIER = 0x01"
definition NO_LED :: u8 where "NO_LED = 255"

definition LED_MATRIX_LED_PROCESS_LIMIT :: u8 where
  "LED_MATRIX_LED_PROCESS_LIMIT = (LED_COUNT + 4) div 5"

text \<open>The configuration word; its reserved bits are not used.\<close>

record led_eeconfig =
  led_enable :: "2 word"
  led_mode :: "6 word"
  led_val :: u8
  led_speed :: u8
  led_flags :: u8

record effect_params =
  iter :: u8
  par_flags :: u8
  init :: bool

record last_hit =
  hit_count :: u8
  hit_x :: "u8 list"
  hit_y :: "u8 list"
  hit_index :: "u8 list"
  hit_tick :: "u16 list"

record led_layout =
  matrix_co :: "u8 list list"
  point_x :: "u8 list"
  point_y :: "u8 list"
  led_flag :: "u8 list"

text \<open>What an effect reads: the layout, the settings, the time and the key hits of the frame.\<close>

record led_frame =
  g_led_config :: led_layout
  led_config :: led_eeconfig
  g_led_timer :: u32
  g_last_hit_tracker :: last_hit

datatype led_call =
    Led_set_value nat u8 | Led_set_value_all u8 | Led_flush | Led_shutdown | Led_exit_shutdown | Led_driver_init
  | Led_indicators_kb | Led_indicators_user | Led_indicators_advanced_kb u8 u8 | Led_indicators_advanced_user u8 u8
  | Led_none_indicators_kb | Led_none_indicators_user | Led_eeconfig_init

definition k_led_matrix_center_x :: u8 where "k_led_matrix_center_x = 112"
definition k_led_matrix_center_y :: u8 where "k_led_matrix_center_y = 32"

subsection \<open>The part of a frame\<close>

definition LED_MATRIX_USE_LIMITS :: "effect_params \<Rightarrow> u8 \<times> u8" where
  "LED_MATRIX_USE_LIMITS p =
    (let min = LED_MATRIX_LED_PROCESS_LIMIT * iter p; max = min + LED_MATRIX_LED_PROCESS_LIMIT
     in (min, if max > LED_COUNT then LED_COUNT else max))"

definition HAS_ANY_FLAGS :: "u8 \<Rightarrow> u8 \<Rightarrow> bool" where
  "HAS_ANY_FLAGS bs flags \<longleftrightarrow> bs AND flags \<noteq> 0"

definition HAS_FLAGS :: "u8 \<Rightarrow> u8 \<Rightarrow> bool" where
  "HAS_FLAGS bs flags \<longleftrightarrow> bs AND flags = flags"

definition led_matrix_check_finished_leds :: "u8 \<Rightarrow> bool" where
  "led_matrix_check_finished_leds led_idx \<longleftrightarrow> led_idx < LED_COUNT"

text \<open>The loop all effects share: the LEDs of the part that have one of the flags are set.\<close>

definition effect_leds :: "led_frame \<Rightarrow> effect_params \<Rightarrow> (nat \<Rightarrow> u8) \<Rightarrow> (led_call list \<times> bool) option" where
  "effect_leds g p f =
    (let (led_min, led_max) = LED_MATRIX_USE_LIMITS p in
     Some (map (\<lambda>i. Led_set_value i (f i))
             (filter (\<lambda>i. HAS_ANY_FLAGS (led_flag (g_led_config g) ! i) (par_flags p)) [unat led_min ..< unat led_max]),
           led_matrix_check_finished_leds led_max))"

definition point_dx :: "led_frame \<Rightarrow> u8 \<Rightarrow> nat \<Rightarrow> u16" where
  "point_dx g x i = ucast (point_x (g_led_config g) ! i) - ucast x"

definition point_dy :: "led_frame \<Rightarrow> u8 \<Rightarrow> nat \<Rightarrow> u16" where
  "point_dy g y i = ucast (point_y (g_led_config g) ! i) - ucast y"

definition effect_runner_dx_dy ::
  "led_frame \<Rightarrow> effect_params \<Rightarrow> (u8 \<Rightarrow> u16 \<Rightarrow> u16 \<Rightarrow> u8 \<Rightarrow> u8) \<Rightarrow> (led_call list \<times> bool) option" where
  "effect_runner_dx_dy g p effect_func =
    (let time = ucast (scale16by8 (ucast (g_led_timer g)) (led_speed (led_config g) div 2)) in
     effect_leds g p (\<lambda>i. effect_func (led_val (led_config g)) (point_dx g k_led_matrix_center_x i)
       (point_dy g k_led_matrix_center_y i) time))"

definition effect_runner_dx_dy_dist ::
  "led_frame \<Rightarrow> effect_params \<Rightarrow> (u8 \<Rightarrow> u16 \<Rightarrow> u16 \<Rightarrow> u8 \<Rightarrow> u8 \<Rightarrow> u8) \<Rightarrow> (led_call list \<times> bool) option" where
  "effect_runner_dx_dy_dist g p effect_func =
    (let time = ucast (scale16by8 (ucast (g_led_timer g)) (led_speed (led_config g) div 2)) in
     effect_leds g p (\<lambda>i.
       let dx = point_dx g k_led_matrix_center_x i; dy = point_dy g k_led_matrix_center_y i; dist = sqrt16 (dx * dx + dy * dy)
       in effect_func (led_val (led_config g)) dx dy dist time))"

definition effect_runner_i ::
  "led_frame \<Rightarrow> effect_params \<Rightarrow> (u8 \<Rightarrow> nat \<Rightarrow> u8 \<Rightarrow> u8) \<Rightarrow> (led_call list \<times> bool) option" where
  "effect_runner_i g p effect_func =
    (let time = ucast (scale16by8 (ucast (g_led_timer g)) (led_speed (led_config g) div 4)) in
     effect_leds g p (\<lambda>i. effect_func (led_val (led_config g)) i time))"

definition effect_runner_sin_cos_i ::
  "led_frame \<Rightarrow> effect_params \<Rightarrow> (u8 \<Rightarrow> i8 \<Rightarrow> i8 \<Rightarrow> nat \<Rightarrow> u8 \<Rightarrow> u8) \<Rightarrow> (led_call list \<times> bool) option" where
  "effect_runner_sin_cos_i g p effect_func =
    (let time = scale16by8 (ucast (g_led_timer g)) (led_speed (led_config g) div 4);
         cos_value = cos8 (ucast time) - 128; sin_value = sin8 (ucast time) - 128 in
     effect_leds g p (\<lambda>i. effect_func (led_val (led_config g)) cos_value sin_value i (ucast time)))"

text \<open>The most recent hit of LED \<open>i\<close> that is younger than \<open>tick\<close>; the search goes down from the newest.\<close>

fun find_hit :: "last_hit \<Rightarrow> nat \<Rightarrow> nat \<Rightarrow> u16 \<Rightarrow> u16" where
  "find_hit h i 0 tick = tick"
| "find_hit h i (Suc j) tick =
    (if unat (hit_index h ! j) = i \<and> hit_tick h ! j < tick then hit_tick h ! j else find_hit h i j tick)"

definition effect_runner_reactive ::
  "led_frame \<Rightarrow> effect_params \<Rightarrow> (u8 \<Rightarrow> u16 \<Rightarrow> u8) \<Rightarrow> (led_call list \<times> bool) option" where
  "effect_runner_reactive g p effect_func =
    (if led_speed (led_config g) = 0 then None
     else let max_tick = 65535 div ucast (led_speed (led_config g)) :: u16 in
       effect_leds g p (\<lambda>i.
         let tick = find_hit (g_last_hit_tracker g) i (unat (hit_count (g_last_hit_tracker g))) max_tick;
             offset = scale16by8 tick (led_speed (led_config g))
         in effect_func (led_val (led_config g)) offset))"

definition effect_runner_reactive_splash ::
  "u8 \<Rightarrow> led_frame \<Rightarrow> effect_params \<Rightarrow> (u8 \<Rightarrow> u16 \<Rightarrow> u16 \<Rightarrow> u8 \<Rightarrow> u16 \<Rightarrow> u8) \<Rightarrow> (led_call list \<times> bool) option" where
  "effect_runner_reactive_splash start g p effect_func =
    (let h = g_last_hit_tracker g in
     effect_leds g p (\<lambda>i.
       let val = foldl (\<lambda>val j.
             let dx = point_dx g (hit_x h ! j) i; dy = point_dy g (hit_y h ! j) i; dist = sqrt16 (dx * dx + dy * dy);
                 tick = scale16by8 (hit_tick h ! j) (led_speed (led_config g))
             in effect_func val dx dy dist tick) 0 [unat start ..< unat (hit_count h)]
       in scale8 val (led_val (led_config g))))"

subsection \<open>The effects\<close>

definition SOLID :: "led_frame \<Rightarrow> effect_params \<Rightarrow> (led_call list \<times> bool) option" where
  "SOLID g p = effect_leds g p (\<lambda>i. led_val (led_config g))"

definition BREATHING :: "led_frame \<Rightarrow> effect_params \<Rightarrow> (led_call list \<times> bool) option" where
  "BREATHING g p =
    (let time = scale16by8 (ucast (g_led_timer g)) (led_speed (led_config g) div 8);
         val = scale8 (abs8 (sin8 (ucast time) - 128) * 2) (led_val (led_config g))
     in effect_leds g p (\<lambda>i. val))"

definition ALPHAS_MODS :: "led_frame \<Rightarrow> effect_params \<Rightarrow> (led_call list \<times> bool) option" where
  "ALPHAS_MODS g p =
    (let val1 = led_val (led_config g); val2 = val1 + led_speed (led_config g) in
     effect_leds g p (\<lambda>i. if HAS_FLAGS (led_flag (g_led_config g) ! i) LED_FLAG_MODIFIER then val2 else val1))"

definition BAND_math :: "led_frame \<Rightarrow> u8 \<Rightarrow> nat \<Rightarrow> u8 \<Rightarrow> u8" where
  "BAND_math g val i time =
    (let v = uint val - \<bar>uint (scale8 (point_x (g_led_config g) ! i) 228) + 28 - uint time\<bar> * 8
     in scale8 (if v < 0 then 0 else word_of_int v) val)"

definition BAND_PINWHEEL_math :: "u8 \<Rightarrow> u16 \<Rightarrow> u16 \<Rightarrow> u8 \<Rightarrow> u8" where
  "BAND_PINWHEEL_math val dx dy time = scale8 (val - time - atan2_8 dy dx * 3) val"

definition BAND_SPIRAL_math :: "u8 \<Rightarrow> u16 \<Rightarrow> u16 \<Rightarrow> u8 \<Rightarrow> u8 \<Rightarrow> u8" where
  "BAND_SPIRAL_math val dx dy dist time = scale8 (val + dist - time - atan2_8 dy dx) val"

definition CYCLE_LEFT_RIGHT_math :: "led_frame \<Rightarrow> u8 \<Rightarrow> nat \<Rightarrow> u8 \<Rightarrow> u8" where
  "CYCLE_LEFT_RIGHT_math g val i time = scale8 (point_x (g_led_config g) ! i - time) val"

definition CYCLE_UP_DOWN_math :: "led_frame \<Rightarrow> u8 \<Rightarrow> nat \<Rightarrow> u8 \<Rightarrow> u8" where
  "CYCLE_UP_DOWN_math g val i time = scale8 (point_y (g_led_config g) ! i - time) val"

definition CYCLE_OUT_IN_math :: "u8 \<Rightarrow> u16 \<Rightarrow> u16 \<Rightarrow> u8 \<Rightarrow> u8 \<Rightarrow> u8" where
  "CYCLE_OUT_IN_math val dx dy dist time = scale8 (word_of_nat (3 * unat dist div 2) + time) val"

definition DUAL_BEACON_math :: "led_frame \<Rightarrow> u8 \<Rightarrow> i8 \<Rightarrow> i8 \<Rightarrow> nat \<Rightarrow> u8 \<Rightarrow> u8" where
  "DUAL_BEACON_math g val sin cos i time =
    scale8 (word_of_int (((uint (point_y (g_led_config g) ! i) - uint k_led_matrix_center_y) * sint cos +
        (uint (point_x (g_led_config g) ! i) - uint k_led_matrix_center_x) * sint sin) sdiv 128)) val"

definition WAVE_LEFT_RIGHT_math :: "led_frame \<Rightarrow> u8 \<Rightarrow> nat \<Rightarrow> u8 \<Rightarrow> u8" where
  "WAVE_LEFT_RIGHT_math g val i time = scale8 (sin8 (point_x (g_led_config g) ! i - time)) val"

definition WAVE_UP_DOWN_math :: "led_frame \<Rightarrow> u8 \<Rightarrow> nat \<Rightarrow> u8 \<Rightarrow> u8" where
  "WAVE_UP_DOWN_math g val i time = scale8 (sin8 (point_y (g_led_config g) ! i - time)) val"

definition SOLID_REACTIVE_SIMPLE_math :: "u8 \<Rightarrow> u16 \<Rightarrow> u8" where
  "SOLID_REACTIVE_SIMPLE_math val offset = scale8 (ucast (255 - offset)) val"

definition SOLID_REACTIVE_WIDE_math :: "u8 \<Rightarrow> u16 \<Rightarrow> u16 \<Rightarrow> u8 \<Rightarrow> u16 \<Rightarrow> u8" where
  "SOLID_REACTIVE_WIDE_math val dx dy dist tick =
    (let effect = tick + ucast dist * 5; effect = (if effect > 255 then 255 else effect)
     in qadd8 val (ucast (255 - effect)))"

definition times16_capped :: "u16 \<Rightarrow> int" where
  "times16_capped d = (if sint d * 16 > 255 then 255 else sint d * 16)"

definition SOLID_REACTIVE_CROSS_math :: "u8 \<Rightarrow> u16 \<Rightarrow> u16 \<Rightarrow> u8 \<Rightarrow> u16 \<Rightarrow> u8" where
  "SOLID_REACTIVE_CROSS_math val dx dy dist tick =
    (let effect = tick + ucast dist;
         dx = times16_capped (if sint dx < 0 then - dx else dx);
         dy = times16_capped (if sint dy < 0 then - dy else dy);
         effect = effect + word_of_int (if dx > dy then dy else dx);
         effect = (if effect > 255 then 255 else effect)
     in qadd8 val (ucast (255 - effect)))"

definition SOLID_REACTIVE_NEXUS_math :: "u8 \<Rightarrow> u16 \<Rightarrow> u16 \<Rightarrow> u8 \<Rightarrow> u16 \<Rightarrow> u8" where
  "SOLID_REACTIVE_NEXUS_math val dx dy dist tick =
    (let effect = tick - ucast dist;
         effect = (if effect > 255 then 255 else effect);
         effect = (if dist > 72 then 255 else effect);
         effect = (if (sint dx > 8 \<or> sint dx < - 8) \<and> (sint dy > 8 \<or> sint dy < - 8) then 255 else effect)
     in qadd8 val (ucast (255 - effect)))"

definition SOLID_SPLASH_math :: "u8 \<Rightarrow> u16 \<Rightarrow> u16 \<Rightarrow> u8 \<Rightarrow> u16 \<Rightarrow> u8" where
  "SOLID_SPLASH_math val dx dy dist tick =
    (let effect = tick - ucast dist; effect = (if effect > 255 then 255 else effect)
     in qadd8 val (ucast (255 - effect)))"

text \<open>The effects in the order of their numbers; those that start at the last hit and those for all hits.\<close>

definition last_hit_only :: "led_frame \<Rightarrow> u8" where
  "last_hit_only g = qsub8 (hit_count (g_last_hit_tracker g)) 1"

datatype led_effect =
    SOLID_EFFECT | ALPHAS_MODS_EFFECT | BREATHING_EFFECT | BAND_EFFECT | BAND_PINWHEEL_EFFECT | BAND_SPIRAL_EFFECT
  | CYCLE_LEFT_RIGHT_EFFECT | CYCLE_UP_DOWN_EFFECT | CYCLE_OUT_IN_EFFECT | DUAL_BEACON_EFFECT | SOLID_REACTIVE_SIMPLE_EFFECT
  | SOLID_REACTIVE_WIDE_EFFECT | SOLID_REACTIVE_MULTIWIDE_EFFECT | SOLID_REACTIVE_CROSS_EFFECT | SOLID_REACTIVE_MULTICROSS_EFFECT
  | SOLID_REACTIVE_NEXUS_EFFECT | SOLID_REACTIVE_MULTINEXUS_EFFECT | SOLID_SPLASH_EFFECT | SOLID_MULTISPLASH_EFFECT
  | WAVE_LEFT_RIGHT_EFFECT | WAVE_UP_DOWN_EFFECT

definition BAND :: "led_frame \<Rightarrow> effect_params \<Rightarrow> (led_call list \<times> bool) option" where
  "BAND g p = effect_runner_i g p (BAND_math g)"

definition BAND_PINWHEEL :: "led_frame \<Rightarrow> effect_params \<Rightarrow> (led_call list \<times> bool) option" where
  "BAND_PINWHEEL g p = effect_runner_dx_dy g p BAND_PINWHEEL_math"

definition BAND_SPIRAL :: "led_frame \<Rightarrow> effect_params \<Rightarrow> (led_call list \<times> bool) option" where
  "BAND_SPIRAL g p = effect_runner_dx_dy_dist g p BAND_SPIRAL_math"

definition CYCLE_LEFT_RIGHT :: "led_frame \<Rightarrow> effect_params \<Rightarrow> (led_call list \<times> bool) option" where
  "CYCLE_LEFT_RIGHT g p = effect_runner_i g p (CYCLE_LEFT_RIGHT_math g)"

definition CYCLE_UP_DOWN :: "led_frame \<Rightarrow> effect_params \<Rightarrow> (led_call list \<times> bool) option" where
  "CYCLE_UP_DOWN g p = effect_runner_i g p (CYCLE_UP_DOWN_math g)"

definition CYCLE_OUT_IN :: "led_frame \<Rightarrow> effect_params \<Rightarrow> (led_call list \<times> bool) option" where
  "CYCLE_OUT_IN g p = effect_runner_dx_dy_dist g p CYCLE_OUT_IN_math"

definition DUAL_BEACON :: "led_frame \<Rightarrow> effect_params \<Rightarrow> (led_call list \<times> bool) option" where
  "DUAL_BEACON g p = effect_runner_sin_cos_i g p (DUAL_BEACON_math g)"

definition SOLID_REACTIVE_SIMPLE :: "led_frame \<Rightarrow> effect_params \<Rightarrow> (led_call list \<times> bool) option" where
  "SOLID_REACTIVE_SIMPLE g p = effect_runner_reactive g p SOLID_REACTIVE_SIMPLE_math"

definition SOLID_REACTIVE_WIDE :: "led_frame \<Rightarrow> effect_params \<Rightarrow> (led_call list \<times> bool) option" where
  "SOLID_REACTIVE_WIDE g p = effect_runner_reactive_splash (last_hit_only g) g p SOLID_REACTIVE_WIDE_math"

definition SOLID_REACTIVE_MULTIWIDE :: "led_frame \<Rightarrow> effect_params \<Rightarrow> (led_call list \<times> bool) option" where
  "SOLID_REACTIVE_MULTIWIDE g p = effect_runner_reactive_splash 0 g p SOLID_REACTIVE_WIDE_math"

definition SOLID_REACTIVE_CROSS :: "led_frame \<Rightarrow> effect_params \<Rightarrow> (led_call list \<times> bool) option" where
  "SOLID_REACTIVE_CROSS g p = effect_runner_reactive_splash (last_hit_only g) g p SOLID_REACTIVE_CROSS_math"

definition SOLID_REACTIVE_MULTICROSS :: "led_frame \<Rightarrow> effect_params \<Rightarrow> (led_call list \<times> bool) option" where
  "SOLID_REACTIVE_MULTICROSS g p = effect_runner_reactive_splash 0 g p SOLID_REACTIVE_CROSS_math"

definition SOLID_REACTIVE_NEXUS :: "led_frame \<Rightarrow> effect_params \<Rightarrow> (led_call list \<times> bool) option" where
  "SOLID_REACTIVE_NEXUS g p = effect_runner_reactive_splash (last_hit_only g) g p SOLID_REACTIVE_NEXUS_math"

definition SOLID_REACTIVE_MULTINEXUS :: "led_frame \<Rightarrow> effect_params \<Rightarrow> (led_call list \<times> bool) option" where
  "SOLID_REACTIVE_MULTINEXUS g p = effect_runner_reactive_splash 0 g p SOLID_REACTIVE_NEXUS_math"

definition SOLID_SPLASH :: "led_frame \<Rightarrow> effect_params \<Rightarrow> (led_call list \<times> bool) option" where
  "SOLID_SPLASH g p = effect_runner_reactive_splash (last_hit_only g) g p SOLID_SPLASH_math"

definition SOLID_MULTISPLASH :: "led_frame \<Rightarrow> effect_params \<Rightarrow> (led_call list \<times> bool) option" where
  "SOLID_MULTISPLASH g p = effect_runner_reactive_splash 0 g p SOLID_SPLASH_math"

definition WAVE_LEFT_RIGHT :: "led_frame \<Rightarrow> effect_params \<Rightarrow> (led_call list \<times> bool) option" where
  "WAVE_LEFT_RIGHT g p = effect_runner_i g p (WAVE_LEFT_RIGHT_math g)"

definition WAVE_UP_DOWN :: "led_frame \<Rightarrow> effect_params \<Rightarrow> (led_call list \<times> bool) option" where
  "WAVE_UP_DOWN g p = effect_runner_i g p (WAVE_UP_DOWN_math g)"

fun run_effect :: "led_effect \<Rightarrow> led_frame \<Rightarrow> effect_params \<Rightarrow> (led_call list \<times> bool) option" where
  "run_effect SOLID_EFFECT g p = SOLID g p"
| "run_effect ALPHAS_MODS_EFFECT g p = ALPHAS_MODS g p"
| "run_effect BREATHING_EFFECT g p = BREATHING g p"
| "run_effect BAND_EFFECT g p = BAND g p"
| "run_effect BAND_PINWHEEL_EFFECT g p = BAND_PINWHEEL g p"
| "run_effect BAND_SPIRAL_EFFECT g p = BAND_SPIRAL g p"
| "run_effect CYCLE_LEFT_RIGHT_EFFECT g p = CYCLE_LEFT_RIGHT g p"
| "run_effect CYCLE_UP_DOWN_EFFECT g p = CYCLE_UP_DOWN g p"
| "run_effect CYCLE_OUT_IN_EFFECT g p = CYCLE_OUT_IN g p"
| "run_effect DUAL_BEACON_EFFECT g p = DUAL_BEACON g p"
| "run_effect SOLID_REACTIVE_SIMPLE_EFFECT g p = SOLID_REACTIVE_SIMPLE g p"
| "run_effect SOLID_REACTIVE_WIDE_EFFECT g p = SOLID_REACTIVE_WIDE g p"
| "run_effect SOLID_REACTIVE_MULTIWIDE_EFFECT g p = SOLID_REACTIVE_MULTIWIDE g p"
| "run_effect SOLID_REACTIVE_CROSS_EFFECT g p = SOLID_REACTIVE_CROSS g p"
| "run_effect SOLID_REACTIVE_MULTICROSS_EFFECT g p = SOLID_REACTIVE_MULTICROSS g p"
| "run_effect SOLID_REACTIVE_NEXUS_EFFECT g p = SOLID_REACTIVE_NEXUS g p"
| "run_effect SOLID_REACTIVE_MULTINEXUS_EFFECT g p = SOLID_REACTIVE_MULTINEXUS g p"
| "run_effect SOLID_SPLASH_EFFECT g p = SOLID_SPLASH g p"
| "run_effect SOLID_MULTISPLASH_EFFECT g p = SOLID_MULTISPLASH g p"
| "run_effect WAVE_LEFT_RIGHT_EFFECT g p = WAVE_LEFT_RIGHT g p"
| "run_effect WAVE_UP_DOWN_EFFECT g p = WAVE_UP_DOWN g p"

text \<open>The effects the build enables, numbered from 1.\<close>

definition led_matrix_effects :: "led_effect list" where
  "led_matrix_effects = [SOLID_EFFECT, BREATHING_EFFECT, BAND_PINWHEEL_EFFECT, BAND_SPIRAL_EFFECT, CYCLE_LEFT_RIGHT_EFFECT,
    CYCLE_UP_DOWN_EFFECT, CYCLE_OUT_IN_EFFECT, DUAL_BEACON_EFFECT, SOLID_REACTIVE_SIMPLE_EFFECT, SOLID_REACTIVE_MULTIWIDE_EFFECT,
    SOLID_REACTIVE_MULTINEXUS_EFFECT, SOLID_SPLASH_EFFECT, WAVE_LEFT_RIGHT_EFFECT, WAVE_UP_DOWN_EFFECT]"

subsection \<open>What an effect sets\<close>

lemmas effect_math = BAND_math_def BAND_PINWHEEL_math_def BAND_SPIRAL_math_def CYCLE_LEFT_RIGHT_math_def CYCLE_UP_DOWN_math_def
  CYCLE_OUT_IN_math_def DUAL_BEACON_math_def WAVE_LEFT_RIGHT_math_def WAVE_UP_DOWN_math_def SOLID_REACTIVE_SIMPLE_math_def

lemmas effect_defs =
  BAND_def BAND_PINWHEEL_def BAND_SPIRAL_def CYCLE_LEFT_RIGHT_def CYCLE_UP_DOWN_def CYCLE_OUT_IN_def DUAL_BEACON_def
  SOLID_REACTIVE_SIMPLE_def SOLID_REACTIVE_WIDE_def SOLID_REACTIVE_MULTIWIDE_def SOLID_REACTIVE_CROSS_def
  SOLID_REACTIVE_MULTICROSS_def SOLID_REACTIVE_NEXUS_def SOLID_REACTIVE_MULTINEXUS_def SOLID_SPLASH_def
  SOLID_MULTISPLASH_def WAVE_LEFT_RIGHT_def WAVE_UP_DOWN_def

lemmas effect_runners = SOLID_def BREATHING_def effect_defs effect_runner_i_def effect_runner_dx_dy_def effect_runner_dx_dy_dist_def
  effect_runner_sin_cos_i_def effect_runner_reactive_def effect_runner_reactive_splash_def

definition sets_leds :: "led_effect \<Rightarrow> led_frame \<Rightarrow> (nat \<Rightarrow> u8) \<Rightarrow> bool" where
  "sets_leds e g f \<longleftrightarrow> (\<forall>p. run_effect e g p = effect_leds g p f)"

text \<open>The value of an LED does not depend on the part of the frame, and it is a scaled brightness.\<close>

lemma effect_values:
  assumes "e \<noteq> ALPHAS_MODS_EFFECT" "e = SOLID_REACTIVE_SIMPLE_EFFECT \<longrightarrow> led_speed (led_config g) \<noteq> 0"
  shows "\<exists>f. sets_leds e g f \<and> (\<forall>i. f i \<le> led_val (led_config g))"
proof -
  have "\<exists>f. (\<forall>p. effect_leds g p h = effect_leds g p f) \<and> (\<forall>i. f i \<le> v)" if "\<forall>i. h i \<le> v" for h v
    using that by blast
  note pick = this
  show ?thesis unfolding sets_leds_def
    by (cases e; use assms in \<open>simp add: effect_runners Let_def\<close>;
        intro pick allI; simp add: effect_math scale8_le Let_def)
qed

text \<open>The parts of a frame: 17 LEDs each, the fifth ends at the last LED.\<close>

definition part_of_frame :: "nat \<Rightarrow> nat list" where
  "part_of_frame n = [17 * n ..< min 84 (17 * n + 17)]"

lemma frame_parts: "concat (map part_of_frame [0..<5]) = [0..<84]"
  by (simp add: part_of_frame_def upt_rec)

lemma process_limit: "LED_MATRIX_LED_PROCESS_LIMIT = 17"
  by (simp add: LED_MATRIX_LED_PROCESS_LIMIT_def LED_COUNT_def)

lemma limits_of_part:
  assumes "n < 5"
  shows "LED_MATRIX_USE_LIMITS (p\<lparr>iter := word_of_nat n\<rparr>) = (word_of_nat (17 * n), word_of_nat (min 84 (17 * n + 17)))"
proof -
  have "n \<in> {0, 1, 2, 3, 4}" using assms by auto
  then show ?thesis by (auto simp: LED_MATRIX_USE_LIMITS_def process_limit LED_COUNT_def)
qed

definition lit_by :: "led_frame \<Rightarrow> u8 \<Rightarrow> nat list \<Rightarrow> nat list" where
  "lit_by g flags is = filter (\<lambda>i. HAS_ANY_FLAGS (led_flag (g_led_config g) ! i) flags) is"

lemma effect_leds_part:
  assumes "n < 5"
  shows "effect_leds g (p\<lparr>iter := word_of_nat n\<rparr>) f =
    Some (map (\<lambda>i. Led_set_value i (f i)) (lit_by g (par_flags p) (part_of_frame n)), n < 4)"
proof -
  have "n \<in> {0, 1, 2, 3, 4}" using assms by auto
  then show ?thesis unfolding effect_leds_def limits_of_part [OF assms]
    by (auto simp: lit_by_def part_of_frame_def led_matrix_check_finished_leds_def LED_COUNT_def)
qed

lemma lit_by_frame: "concat (map (\<lambda>n. lit_by g flags (part_of_frame n)) [0..<5]) = lit_by g flags [0..<84]"
proof -
  have "lit_by g flags (concat xss) = concat (map (lit_by g flags) xss)" for xss
    by (induction xss) (simp_all add: lit_by_def)
  from this [of "map part_of_frame [0..<5]"] show ?thesis unfolding frame_parts by (simp add: comp_def)
qed

text \<open>Outside of the parts nothing is set either: the limits never go past the last LED.\<close>

lemma effect_leds_in_range:
  assumes "effect_leds g p f = Some (calls, going)" "c \<in> set calls"
  shows "\<exists>i. c = Led_set_value i (f i) \<and> i < 84"
  using assms
  by (auto simp: effect_leds_def LED_MATRIX_USE_LIMITS_def LED_COUNT_def Let_def word_le_nat_alt word_less_nat_alt
      split: if_splits)

subsection \<open>Properties and findings\<close>

text \<open>C35: no effect sets an LED outside of the matrix or brighter than the configured brightness, at any time, for any key
  hits and layout.\<close>

theorem effects_within_brightness:
  assumes "e \<in> set led_matrix_effects" "run_effect e g p = Some (calls, going)" "c \<in> set calls"
  shows "\<exists>i v. c = Led_set_value i v \<and> i < 84 \<and> v \<le> led_val (led_config g)"
proof -
  have e: "e \<noteq> ALPHAS_MODS_EFFECT" using assms(1) by (auto simp: led_matrix_effects_def)
  have "e = SOLID_REACTIVE_SIMPLE_EFFECT \<longrightarrow> led_speed (led_config g) \<noteq> 0"
    using assms(2) by (auto simp: SOLID_REACTIVE_SIMPLE_def effect_runner_reactive_def)
  then obtain f where f: "sets_leds e g f" "\<forall>i. f i \<le> led_val (led_config g)" using effect_values [OF e] by blast
  then show ?thesis using effect_leds_in_range [of g p f calls going c] assms(2,3) by (auto simp: sets_leds_def)
qed

definition small_layout :: led_layout where
  "small_layout = \<lparr>matrix_co = [], point_x = replicate 84 7, point_y = replicate 84 9, led_flag = replicate 84 4\<rparr>"

definition no_hits :: last_hit where
  "no_hits = \<lparr>hit_count = 0, hit_x = replicate 8 0, hit_y = replicate 8 0, hit_index = replicate 8 0, hit_tick = replicate 8 65535\<rparr>"

definition small_frame :: led_frame where
  "small_frame = \<lparr>g_led_config = small_layout, led_config = \<lparr>led_enable = 1, led_mode = 1, led_val = 80, led_speed = 127, led_flags = 255\<rparr>,
    g_led_timer = 5000, g_last_hit_tracker = no_hits\<rparr>"

theorem effects_within_brightness_witness:
  "\<exists>i v. Led_set_value 0 80 = Led_set_value i v \<and> i < 84 \<and> v \<le> (80 :: u8)"
  using effects_within_brightness [of SOLID_EFFECT small_frame "\<lparr>iter = 0, par_flags = 255, init = False\<rparr>"
      "fst (the (run_effect SOLID_EFFECT small_frame \<lparr>iter = 0, par_flags = 255, init = False\<rparr>))" True "Led_set_value 0 80"]
  by (simp add: led_matrix_effects_def SOLID_def effect_leds_def LED_MATRIX_USE_LIMITS_def process_limit LED_COUNT_def
      led_matrix_check_finished_leds_def HAS_ANY_FLAGS_def small_frame_def small_layout_def)

text \<open>The reactive effect divides by the speed, which the speed keys and the host can set to zero; the other reactive
  effects do not.\<close>

lemma reactive_divides_by_speed:
  "led_speed (led_config g) = 0 \<Longrightarrow> run_effect SOLID_REACTIVE_SIMPLE_EFFECT g p = None"
  by (simp add: SOLID_REACTIVE_SIMPLE_def effect_runner_reactive_def)

lemma reactive_only_zero_speed: "run_effect e g p = None \<longleftrightarrow> e = SOLID_REACTIVE_SIMPLE_EFFECT \<and> led_speed (led_config g) = 0"
  by (cases e) (simp_all add: effect_runners ALPHAS_MODS_def effect_leds_def Let_def split_beta)

text \<open>At full speed the wide effect lights the LEDs at a distance of 52 to 102 again just before the hit is forgotten, 65
  seconds after the key: the sum wraps around at 16 bits.\<close>

lemma reactive_wide_wraps:
  "SOLID_REACTIVE_WIDE_math 0 dx dy 60 (scale16by8 65535 255) = 212"
  "SOLID_REACTIVE_WIDE_math 0 dx dy 60 (scale16by8 30000 255) = 0"
  by (simp_all add: SOLID_REACTIVE_WIDE_math_def scale16by8_def qadd8_def Let_def)

end
