(* ===== verification/Qmk_Led_Matrix.thy ===== *)
theory Qmk_Led_Matrix
  imports Qmk_Led_Effects
begin

text \<open>
  The LED matrix (\<^verbatim>\<open>quantum/led_matrix/led_matrix.c\<close> with the turn-off brightness, the timeout and the shutdown of
  the driver of this build): the task that renders frame after frame, the key hits, the settings and their
  keys.  Calls of the driver and of the hooks are recorded in order; \<open>stored_config\<close> is the copy in the EEPROM.
  The debug prints are left out.
\<close>

subsection \<open>State\<close>

datatype led_task_states = STARTING | RENDERING | FLUSHING | SYNCING

definition LED_MATRIX_TIMEOUT_INFINITE :: u32 where "LED_MATRIX_TIMEOUT_INFINITE = - 1"
definition LED_MATRIX_LED_FLUSH_LIMIT :: u32 where "LED_MATRIX_LED_FLUSH_LIMIT = 16"
definition LED_MATRIX_BRIGHTNESS_TURN_OFF_VAL :: u8 where "LED_MATRIX_BRIGHTNESS_TURN_OFF_VAL = 48"
definition LED_MATRIX_MAXIMUM_BRIGHTNESS :: u8 where "LED_MATRIX_MAXIMUM_BRIGHTNESS = 255"
definition LED_MATRIX_VAL_STEP :: u8 where "LED_MATRIX_VAL_STEP = 16"
definition LED_MATRIX_SPD_STEP :: u8 where "LED_MATRIX_SPD_STEP = 16"
definition LED_MATRIX_DEFAULT_MODE :: "6 word" where "LED_MATRIX_DEFAULT_MODE = 1"
definition LED_MATRIX_DEFAULT_VAL :: u8 where "LED_MATRIX_DEFAULT_VAL = LED_MATRIX_MAXIMUM_BRIGHTNESS"
definition LED_MATRIX_DEFAULT_SPD :: u8 where "LED_MATRIX_DEFAULT_SPD = 255 div 2"
definition LED_MATRIX_NONE :: u8 where "LED_MATRIX_NONE = 0"

definition LED_MATRIX_EFFECT_MAX :: u8 where
  "LED_MATRIX_EFFECT_MAX = word_of_nat (length led_matrix_effects + 1)"

record led_st = led_frame +
  stored_config :: led_eeconfig
  dirty_led_matrix :: bool
  driver_shutdown :: bool
  suspend_state :: bool
  led_last_enable :: u8
  led_last_effect :: u8
  led_effect_params :: effect_params
  led_task_state :: led_task_states
  led_anykey_timer :: u32
  led_matrix_timeout :: u32
  led_timer_buffer :: u32
  last_hit_buffer :: last_hit
  led_calls :: "led_call list"

text \<open>The time of the call, and what the keyboard says: whether it is the master, and whether the driver may be shut
  down.\<close>

record led_env =
  led_now :: u32
  led_master :: bool
  led_matrix_driver_allow_shutdown :: bool

definition led_do :: "led_call list \<Rightarrow> led_st \<Rightarrow> led_st" where
  "led_do cs s = s\<lparr>led_calls := led_calls s @ cs\<rparr>"

definition led_elapsed :: "led_env \<Rightarrow> u32 \<Rightarrow> u32" where
  "led_elapsed e t = TIMER_DIFF_32 (led_now e) t"

definition set_config :: "(led_eeconfig \<Rightarrow> led_eeconfig) \<Rightarrow> led_st \<Rightarrow> led_st" where
  "set_config f s = s\<lparr>led_config := f (led_config s)\<rparr>"

subsection \<open>Settings in the EEPROM\<close>

definition eeconfig_flush_led_matrix :: "bool \<Rightarrow> led_st \<Rightarrow> led_st" where
  "eeconfig_flush_led_matrix force s =
    (if force \<or> dirty_led_matrix s then s\<lparr>stored_config := led_config s, dirty_led_matrix := False\<rparr> else s)"

definition eeconfig_init_led_matrix :: "led_st \<Rightarrow> led_st" where
  "eeconfig_init_led_matrix s = s\<lparr>led_config := stored_config s, dirty_led_matrix := False\<rparr>"

definition eeconfig_flag_led_matrix :: "bool \<Rightarrow> led_st \<Rightarrow> led_st" where
  "eeconfig_flag_led_matrix v s = s\<lparr>dirty_led_matrix := dirty_led_matrix s \<or> v\<rparr>"

definition eeconfig_update_led_matrix :: "led_st \<Rightarrow> led_st" where
  "eeconfig_update_led_matrix s = eeconfig_flush_led_matrix True s"

definition eeconfig_update_led_matrix_default :: "led_st \<Rightarrow> led_st" where
  "eeconfig_update_led_matrix_default s =
    eeconfig_flush_led_matrix True (s\<lparr>led_config := \<lparr>led_enable = 1, led_mode = LED_MATRIX_DEFAULT_MODE,
      led_val = LED_MATRIX_DEFAULT_VAL, led_speed = LED_MATRIX_DEFAULT_SPD, led_flags = LED_FLAG_ALL\<rparr>\<rparr>)"

subsection \<open>Key hits\<close>

definition led_matrix_map_row_column_to_led :: "led_layout \<Rightarrow> nat \<Rightarrow> nat \<Rightarrow> u8 list" where
  "led_matrix_map_row_column_to_led lay row column =
    (let led_index = matrix_co lay ! row ! column in if led_index \<noteq> NO_LED then [led_index] else [])"

text \<open>What \<^verbatim>\<open>memcpy\<close> within one array leaves when it copies upwards.\<close>

definition shift_down :: "nat \<Rightarrow> 'a list \<Rightarrow> 'a list" where
  "shift_down n xs = drop n xs @ drop (LED_HITS_TO_REMEMBER - n) xs"

definition make_room :: "nat \<Rightarrow> last_hit \<Rightarrow> last_hit" where
  "make_room n h =
    (if unat (hit_count h) + n > LED_HITS_TO_REMEMBER then
       h\<lparr>hit_x := shift_down n (hit_x h), hit_y := shift_down n (hit_y h), hit_tick := shift_down n (hit_tick h),
         hit_index := shift_down n (hit_index h), hit_count := word_of_nat (LED_HITS_TO_REMEMBER - n)\<rparr>
     else h)"

definition add_hit :: "led_layout \<Rightarrow> last_hit \<Rightarrow> u8 \<Rightarrow> last_hit" where
  "add_hit lay h led =
    (let i = unat (hit_count h) in
     h\<lparr>hit_x := (hit_x h)[i := point_x lay ! unat led], hit_y := (hit_y h)[i := point_y lay ! unat led],
       hit_index := (hit_index h)[i := led], hit_tick := (hit_tick h)[i := 0], hit_count := hit_count h + 1\<rparr>)"

definition process_led_matrix :: "led_env \<Rightarrow> nat \<Rightarrow> nat \<Rightarrow> bool \<Rightarrow> led_st \<Rightarrow> led_st" where
  "process_led_matrix e row col pressed s =
    (if \<not> led_master e then s
     else let s = s\<lparr>led_anykey_timer := 0\<rparr>;
              led = (if pressed then led_matrix_map_row_column_to_led (g_led_config s) row col else [])
          in s\<lparr>last_hit_buffer := foldl (add_hit (g_led_config s)) (make_room (length led) (last_hit_buffer s)) led\<rparr>)"

definition age_hit :: "u32 \<Rightarrow> last_hit \<Rightarrow> nat \<Rightarrow> last_hit" where
  "age_hit deltaTime h i =
    (if 65535 - deltaTime < ucast (hit_tick h ! i) then h\<lparr>hit_count := hit_count h - 1\<rparr>
     else h\<lparr>hit_tick := (hit_tick h)[i := hit_tick h ! i + ucast deltaTime]\<rparr>)"

definition led_task_timers :: "led_env \<Rightarrow> led_st \<Rightarrow> led_st" where
  "led_task_timers e s =
    (let deltaTime = led_elapsed e (led_timer_buffer s); s = s\<lparr>led_timer_buffer := led_now e\<rparr>;
         s = (if led_anykey_timer s < - 1
              then s\<lparr>led_anykey_timer := (if - 1 - deltaTime < led_anykey_timer s then - 1 else led_anykey_timer s + deltaTime)\<rparr>
              else s)
     in s\<lparr>last_hit_buffer := foldl (age_hit deltaTime) (last_hit_buffer s) [0..<unat (hit_count (last_hit_buffer s))]\<rparr>)"

subsection \<open>The task\<close>

definition led_matrix_none :: "led_st \<Rightarrow> bool \<times> led_st" where
  "led_matrix_none s =
    (False, if init (led_effect_params s)
            then led_do [Led_set_value_all 0, Led_none_indicators_kb, Led_none_indicators_user] s else s)"

text \<open>The switch over the effects; a number without an effect renders nothing.\<close>

definition render_effect :: "u8 \<Rightarrow> led_st \<Rightarrow> (bool \<times> led_st) option" where
  "render_effect effect s =
    (if effect = LED_MATRIX_NONE then Some (led_matrix_none s)
     else if effect < LED_MATRIX_EFFECT_MAX then
       map_option (\<lambda>(calls, rendering). (rendering, led_do calls s))
         (run_effect (led_matrix_effects ! (unat effect - 1)) (led_frame.truncate s) (led_effect_params s))
     else Some (False, s))"

definition led_task_sync :: "led_env \<Rightarrow> led_st \<Rightarrow> led_st" where
  "led_task_sync e s =
    (let s = eeconfig_flush_led_matrix False s in
     if LED_MATRIX_LED_FLUSH_LIMIT \<le> led_elapsed e (g_led_timer s) then s\<lparr>led_task_state := STARTING\<rparr> else s)"

definition led_task_start :: "led_st \<Rightarrow> led_st" where
  "led_task_start s =
    s\<lparr>led_effect_params := (led_effect_params s)\<lparr>iter := 0\<rparr>, g_led_timer := led_timer_buffer s,
      g_last_hit_tracker := last_hit_buffer s, led_task_state := RENDERING\<rparr>"

definition enable_byte :: "led_st \<Rightarrow> u8" where
  "enable_byte s = ucast (led_enable (led_config s))"

definition begin_render :: "u8 \<Rightarrow> led_st \<Rightarrow> led_st" where
  "begin_render effect s =
    (let s = s\<lparr>led_effect_params := (led_effect_params s)\<lparr>init := effect \<noteq> led_last_effect s \<or> enable_byte s \<noteq> led_last_enable s\<rparr>\<rparr> in
     if par_flags (led_effect_params s) \<noteq> led_flags (led_config s)
     then led_do [Led_set_value_all 0] (s\<lparr>led_effect_params := (led_effect_params s)\<lparr>par_flags := led_flags (led_config s)\<rparr>\<rparr>)
     else s)"

definition end_render :: "u8 \<Rightarrow> bool \<Rightarrow> led_st \<Rightarrow> led_st" where
  "end_render effect rendering s =
    (let s = s\<lparr>led_effect_params := (led_effect_params s)\<lparr>iter := iter (led_effect_params s) + 1\<rparr>\<rparr> in
     if \<not> rendering then
       s\<lparr>led_task_state := (if \<not> init (led_effect_params s) \<and> effect = LED_MATRIX_NONE then SYNCING else FLUSHING)\<rparr>
     else s)"

definition led_task_render :: "u8 \<Rightarrow> led_st \<Rightarrow> led_st option" where
  "led_task_render effect s =
    map_option (\<lambda>(rendering, s). end_render effect rendering s) (render_effect effect (begin_render effect s))"

definition led_matrix_driver_shutdown :: "led_st \<Rightarrow> led_st" where
  "led_matrix_driver_shutdown s = led_do [Led_shutdown] (s\<lparr>driver_shutdown := True\<rparr>)"

definition led_task_flush :: "led_env \<Rightarrow> u8 \<Rightarrow> led_st \<Rightarrow> led_st" where
  "led_task_flush e effect s =
    (let s = s\<lparr>led_last_effect := effect, led_last_enable := enable_byte s\<rparr>;
         s = (if driver_shutdown s then led_do [Led_exit_shutdown] (s\<lparr>driver_shutdown := False\<rparr>) else s);
         s = led_do [Led_flush] s;
         s = (if effect = LED_MATRIX_NONE \<and> \<not> driver_shutdown s \<and> led_matrix_driver_allow_shutdown e
              then led_matrix_driver_shutdown s else s)
     in s\<lparr>led_task_state := SYNCING\<rparr>)"

definition led_matrix_indicators_advanced :: "led_st \<Rightarrow> led_st" where
  "led_matrix_indicators_advanced s =
    (let (mn, mx) = LED_MATRIX_USE_LIMITS ((led_effect_params s)\<lparr>iter := iter (led_effect_params s) - 1\<rparr>) in
     led_do [Led_indicators_advanced_kb mn mx, Led_indicators_advanced_user mn mx] s)"

definition led_matrix_indicators :: "led_st \<Rightarrow> led_st" where
  "led_matrix_indicators s = led_do [Led_indicators_kb, Led_indicators_user] s"

definition suspend_backlight :: "led_st \<Rightarrow> bool" where
  "suspend_backlight s \<longleftrightarrow> suspend_state s \<or> led_matrix_timeout s < led_anykey_timer s"

definition current_effect :: "led_st \<Rightarrow> u8" where
  "current_effect s = (if suspend_backlight s \<or> led_enable (led_config s) = 0 then 0 else ucast (led_mode (led_config s)))"

definition led_matrix_task :: "led_env \<Rightarrow> led_st \<Rightarrow> led_st option" where
  "led_matrix_task e s =
    (let s = led_task_timers e s; effect = current_effect s in
     case led_task_state s of
       STARTING \<Rightarrow> Some (led_task_start s)
     | RENDERING \<Rightarrow> map_option (\<lambda>s. if effect \<noteq> 0 then led_matrix_indicators_advanced (led_matrix_indicators s) else s)
         (led_task_render effect s)
     | FLUSHING \<Rightarrow> Some (led_task_flush e effect s)
     | SYNCING \<Rightarrow> Some (led_task_sync e s))"

definition fresh_hits :: "last_hit \<Rightarrow> last_hit" where
  "fresh_hits h = h\<lparr>hit_count := 0, hit_tick := map (\<lambda>_. 65535) (hit_tick h)\<rparr>"

text \<open>\<open>initialised\<close> is \<^verbatim>\<open>eeconfig_is_enabled\<close>.\<close>

definition led_matrix_init :: "bool \<Rightarrow> led_st \<Rightarrow> led_st" where
  "led_matrix_init initialised s =
    (let s = (led_do [Led_driver_init] s)\<lparr>driver_shutdown := False, g_last_hit_tracker := fresh_hits (g_last_hit_tracker s),
           last_hit_buffer := fresh_hits (last_hit_buffer s)\<rparr>;
         s = (if \<not> initialised then eeconfig_update_led_matrix_default (led_do [Led_eeconfig_init] s) else s);
         s = eeconfig_init_led_matrix s
     in if led_mode (led_config s) = 0 then eeconfig_update_led_matrix_default s else s)"

definition led_matrix_set_suspend_state :: "led_env \<Rightarrow> bool \<Rightarrow> led_st \<Rightarrow> led_st option" where
  "led_matrix_set_suspend_state e state s =
    map_option (\<lambda>s. s\<lparr>suspend_state := state\<rparr>)
      (if state \<and> \<not> suspend_state s \<and> led_master e then map_option (led_task_flush e 0) (led_task_render 0 s) else Some s)"

subsection \<open>The keys of the backlight\<close>

definition led_matrix_set_val_eeprom_helper :: "u8 \<Rightarrow> bool \<Rightarrow> led_st \<Rightarrow> led_st" where
  "led_matrix_set_val_eeprom_helper val write_to_eeprom s =
    (if led_enable (led_config s) = 0 then s
     else eeconfig_flag_led_matrix write_to_eeprom
       (set_config (\<lambda>c. c\<lparr>led_val := (if val > LED_MATRIX_MAXIMUM_BRIGHTNESS then LED_MATRIX_MAXIMUM_BRIGHTNESS else val)\<rparr>) s))"

text \<open>
  The loop that raises the brightness above the turn-off value.  It runs with the backlight on, where
  \<^verbatim>\<open>led_matrix_increase_val_helper\<close> does not call back (\<open>raise_val_increases\<close>).
\<close>

function raise_val :: "bool \<Rightarrow> led_st \<Rightarrow> led_st" where
  "raise_val w s =
    (if led_enable (led_config s) \<noteq> 0 \<and> led_val (led_config s) \<le> LED_MATRIX_BRIGHTNESS_TURN_OFF_VAL
     then raise_val w (led_matrix_set_val_eeprom_helper (qadd8 (led_val (led_config s)) LED_MATRIX_VAL_STEP) w s)
     else s)"
  by pat_completeness auto

termination
  by (relation "measure (\<lambda>(w, s). 255 - unat (led_val (led_config s)))")
    (auto simp: led_matrix_set_val_eeprom_helper_def set_config_def eeconfig_flag_led_matrix_def word_le_nat_alt word_less_nat_alt
      unat_qadd8 LED_MATRIX_BRIGHTNESS_TURN_OFF_VAL_def LED_MATRIX_MAXIMUM_BRIGHTNESS_def LED_MATRIX_VAL_STEP_def)

declare raise_val.simps [simp del]

definition led_matrix_toggle_eeprom_helper :: "bool \<Rightarrow> led_st \<Rightarrow> led_st" where
  "led_matrix_toggle_eeprom_helper write_to_eeprom s =
    raise_val write_to_eeprom (eeconfig_flag_led_matrix write_to_eeprom
      ((set_config (\<lambda>c. c\<lparr>led_enable := led_enable c XOR 1\<rparr>) s)\<lparr>led_task_state := STARTING\<rparr>))"

definition led_matrix_increase_val_helper :: "bool \<Rightarrow> led_st \<Rightarrow> led_st" where
  "led_matrix_increase_val_helper write_to_eeprom s =
    (if led_enable (led_config s) = 0 then led_matrix_toggle_eeprom_helper write_to_eeprom s
     else led_matrix_set_val_eeprom_helper (qadd8 (led_val (led_config s)) LED_MATRIX_VAL_STEP) write_to_eeprom s)"

lemma raise_val_increases:
  "raise_val w s =
    (if led_enable (led_config s) \<noteq> 0 \<and> led_val (led_config s) \<le> LED_MATRIX_BRIGHTNESS_TURN_OFF_VAL
     then raise_val w (led_matrix_increase_val_helper w s) else s)"
  by (subst raise_val.simps) (simp add: led_matrix_increase_val_helper_def)

definition led_matrix_decrease_val_helper :: "bool \<Rightarrow> led_st \<Rightarrow> led_st" where
  "led_matrix_decrease_val_helper write_to_eeprom s =
    (let s = led_matrix_set_val_eeprom_helper (qsub8 (led_val (led_config s)) LED_MATRIX_VAL_STEP) write_to_eeprom s in
     if led_enable (led_config s) \<noteq> 0 \<and> led_val (led_config s) \<le> LED_MATRIX_BRIGHTNESS_TURN_OFF_VAL
     then led_matrix_toggle_eeprom_helper write_to_eeprom s else s)"

definition led_matrix_enable_noeeprom :: "led_st \<Rightarrow> led_st" where
  "led_matrix_enable_noeeprom s =
    (let s = (if led_enable (led_config s) = 0 then s\<lparr>led_task_state := STARTING\<rparr> else s)
     in raise_val False (set_config (\<lambda>c. c\<lparr>led_enable := 1\<rparr>) s))"

definition led_matrix_enable :: "led_st \<Rightarrow> led_st" where
  "led_matrix_enable s = raise_val True (eeconfig_flag_led_matrix True (led_matrix_enable_noeeprom s))"

definition led_matrix_disable_noeeprom :: "led_st \<Rightarrow> led_st" where
  "led_matrix_disable_noeeprom s =
    (let s = (if led_enable (led_config s) \<noteq> 0 then s\<lparr>led_task_state := STARTING\<rparr> else s)
     in set_config (\<lambda>c. c\<lparr>led_enable := 0\<rparr>) s)"

definition led_matrix_disable :: "led_st \<Rightarrow> led_st" where
  "led_matrix_disable s = eeconfig_flag_led_matrix True (led_matrix_disable_noeeprom s)"

definition led_matrix_is_enabled :: "led_st \<Rightarrow> bool" where
  "led_matrix_is_enabled s \<longleftrightarrow> led_enable (led_config s) \<noteq> 0"

definition led_matrix_mode_eeprom_helper :: "u8 \<Rightarrow> bool \<Rightarrow> led_st \<Rightarrow> led_st" where
  "led_matrix_mode_eeprom_helper mode write_to_eeprom s =
    (if led_enable (led_config s) = 0 then s
     else eeconfig_flag_led_matrix write_to_eeprom
       ((set_config (\<lambda>c. c\<lparr>led_mode :=
            (if mode < 1 then 1 else if LED_MATRIX_EFFECT_MAX \<le> mode then ucast (LED_MATRIX_EFFECT_MAX - 1) else ucast mode)\<rparr>) s)
         \<lparr>led_task_state := STARTING\<rparr>))"

definition led_matrix_step_helper :: "bool \<Rightarrow> led_st \<Rightarrow> led_st" where
  "led_matrix_step_helper write_to_eeprom s =
    (let mode = ucast (led_mode (led_config s)) + 1 in
     led_matrix_mode_eeprom_helper (if mode < LED_MATRIX_EFFECT_MAX then mode else 1) write_to_eeprom s)"

definition led_matrix_step_reverse_helper :: "bool \<Rightarrow> led_st \<Rightarrow> led_st" where
  "led_matrix_step_reverse_helper write_to_eeprom s =
    (let mode = ucast (led_mode (led_config s)) - 1 in
     led_matrix_mode_eeprom_helper (if mode < 1 then LED_MATRIX_EFFECT_MAX - 1 else mode) write_to_eeprom s)"

definition led_matrix_set_speed_eeprom_helper :: "u8 \<Rightarrow> bool \<Rightarrow> led_st \<Rightarrow> led_st" where
  "led_matrix_set_speed_eeprom_helper speed write_to_eeprom s =
    eeconfig_flag_led_matrix write_to_eeprom (set_config (\<lambda>c. c\<lparr>led_speed := speed\<rparr>) s)"

definition led_matrix_increase_speed_helper :: "bool \<Rightarrow> led_st \<Rightarrow> led_st" where
  "led_matrix_increase_speed_helper write_to_eeprom s =
    led_matrix_set_speed_eeprom_helper (qadd8 (led_speed (led_config s)) LED_MATRIX_SPD_STEP) write_to_eeprom s"

definition led_matrix_decrease_speed_helper :: "bool \<Rightarrow> led_st \<Rightarrow> led_st" where
  "led_matrix_decrease_speed_helper write_to_eeprom s =
    led_matrix_set_speed_eeprom_helper (qsub8 (led_speed (led_config s)) LED_MATRIX_SPD_STEP) write_to_eeprom s"

definition led_matrix_set_flags_eeprom_helper :: "u8 \<Rightarrow> bool \<Rightarrow> led_st \<Rightarrow> led_st" where
  "led_matrix_set_flags_eeprom_helper flags write_to_eeprom s =
    eeconfig_flag_led_matrix write_to_eeprom (set_config (\<lambda>c. c\<lparr>led_flags := flags\<rparr>) s)"

definition led_matrix_disable_timeout_set :: "u32 \<Rightarrow> led_st \<Rightarrow> led_st" where
  "led_matrix_disable_timeout_set timeout s = s\<lparr>led_matrix_timeout := timeout\<rparr>"

definition led_matrix_disable_time_reset :: "led_st \<Rightarrow> led_st" where
  "led_matrix_disable_time_reset s = s\<lparr>led_anykey_timer := 0\<rparr>"

text \<open>The keys of \<^verbatim>\<open>process_keycode/process_backlight.c\<close>; the result is whether the key is processed further.\<close>

definition QK_BACKLIGHT_ON :: u16 where "QK_BACKLIGHT_ON = 0x7800"
definition QK_BACKLIGHT_OFF :: u16 where "QK_BACKLIGHT_OFF = 0x7801"
definition QK_BACKLIGHT_TOGGLE :: u16 where "QK_BACKLIGHT_TOGGLE = 0x7802"
definition QK_BACKLIGHT_DOWN :: u16 where "QK_BACKLIGHT_DOWN = 0x7803"
definition QK_BACKLIGHT_UP :: u16 where "QK_BACKLIGHT_UP = 0x7804"
definition QK_BACKLIGHT_STEP :: u16 where "QK_BACKLIGHT_STEP = 0x7805"

lemmas backlight_codes = QK_BACKLIGHT_ON_def QK_BACKLIGHT_OFF_def QK_BACKLIGHT_TOGGLE_def QK_BACKLIGHT_DOWN_def QK_BACKLIGHT_UP_def
  QK_BACKLIGHT_STEP_def

definition backlight_key :: "u16 \<Rightarrow> bool \<Rightarrow> led_st \<Rightarrow> bool \<times> led_st" where
  "backlight_key keycode pressed s =
    (if pressed then
       if keycode = QK_BACKLIGHT_ON then (False, led_matrix_enable s)
       else if keycode = QK_BACKLIGHT_OFF then (False, led_matrix_disable s)
       else if keycode = QK_BACKLIGHT_DOWN then (False, led_matrix_decrease_val_helper True s)
       else if keycode = QK_BACKLIGHT_UP then (False, led_matrix_increase_val_helper True s)
       else if keycode = QK_BACKLIGHT_TOGGLE then (False, led_matrix_toggle_eeprom_helper True s)
       else if keycode = QK_BACKLIGHT_STEP then (False, led_matrix_step_helper True s)
       else (True, s)
     else (True, s))"

subsection \<open>The settings stay usable\<close>

definition lit_ok :: "led_eeconfig \<Rightarrow> bool" where
  "lit_ok c \<longleftrightarrow> led_enable c \<in> {0, 1} \<and> (led_enable c = 1 \<longrightarrow> LED_MATRIX_BRIGHTNESS_TURN_OFF_VAL < led_val c) \<and>
    1 \<le> led_mode c \<and> ucast (led_mode c) < LED_MATRIX_EFFECT_MAX"

lemma set_config_simps [simp]:
  "led_config (set_config f s) = f (led_config s)" "led_config (eeconfig_flag_led_matrix w s) = led_config s"
  "led_config (s\<lparr>led_task_state := st\<rparr>) = led_config s"
  by (simp_all add: set_config_def eeconfig_flag_led_matrix_def)

lemma max_brightness [simp]: "\<not> LED_MATRIX_MAXIMUM_BRIGHTNESS < (v :: u8)"
  by (simp add: LED_MATRIX_MAXIMUM_BRIGHTNESS_def word_less_nat_alt not_less byte_less Suc_leI less_Suc_eq_le [symmetric])

lemma effect_max: "LED_MATRIX_EFFECT_MAX = 15"
  by (simp add: LED_MATRIX_EFFECT_MAX_def led_matrix_effects_def)

lemma raise_val_config:
  "led_enable (led_config (raise_val w s)) = led_enable (led_config s)" "led_mode (led_config (raise_val w s)) = led_mode (led_config s)"
  "led_enable (led_config s) \<noteq> 0 \<Longrightarrow> LED_MATRIX_BRIGHTNESS_TURN_OFF_VAL < led_val (led_config (raise_val w s))"
  "led_enable (led_config s) = 0 \<Longrightarrow> raise_val w s = s"
proof -
  have "led_enable (led_config (raise_val w s)) = led_enable (led_config s) \<and>
      led_mode (led_config (raise_val w s)) = led_mode (led_config s) \<and>
      (led_enable (led_config s) \<noteq> 0 \<longrightarrow> LED_MATRIX_BRIGHTNESS_TURN_OFF_VAL < led_val (led_config (raise_val w s)))"
  proof (induction w s rule: raise_val.induct)
    case (1 w s)
    show ?case
    proof (cases "led_enable (led_config s) \<noteq> 0 \<and> led_val (led_config s) \<le> LED_MATRIX_BRIGHTNESS_TURN_OFF_VAL")
      case True
      with 1 [OF True] show ?thesis by (simp add: raise_val.simps [of w s] led_matrix_set_val_eeprom_helper_def)
    next
      case False
      then show ?thesis by (auto simp: raise_val.simps [of w s] not_le)
    qed
  qed
  then show "led_enable (led_config (raise_val w s)) = led_enable (led_config s)"
    "led_mode (led_config (raise_val w s)) = led_mode (led_config s)"
    "led_enable (led_config s) \<noteq> 0 \<Longrightarrow> LED_MATRIX_BRIGHTNESS_TURN_OFF_VAL < led_val (led_config (raise_val w s))" by simp_all
  show "led_enable (led_config s) = 0 \<Longrightarrow> raise_val w s = s" by (simp add: raise_val.simps [of w s])
qed

lemma xor_one: "e \<in> {0, 1} \<Longrightarrow> e XOR 1 = (if e = 0 then 1 else 0 :: 2 word)"
  by auto

lemma toggle_lit_ok:
  assumes "led_enable (led_config s) \<in> {0, 1}" "1 \<le> led_mode (led_config s)" "ucast (led_mode (led_config s)) < LED_MATRIX_EFFECT_MAX"
  shows "lit_ok (led_config (led_matrix_toggle_eeprom_helper w s))"
  using assms xor_one [OF assms(1)]
  by (cases "led_enable (led_config s) = 0") (auto simp: lit_ok_def led_matrix_toggle_eeprom_helper_def raise_val_config)

lemma up_above: "LED_MATRIX_BRIGHTNESS_TURN_OFF_VAL < v \<Longrightarrow> LED_MATRIX_BRIGHTNESS_TURN_OFF_VAL < qadd8 v LED_MATRIX_VAL_STEP"
  by (simp add: word_less_nat_alt unat_qadd8 LED_MATRIX_BRIGHTNESS_TURN_OFF_VAL_def LED_MATRIX_VAL_STEP_def)

lemma modes:
  assumes "ucast (m :: 6 word) < (15 :: u8)"
  shows "m \<in> {0, 1, 2, 3, 4, 5, 6, 7, 8, 9, 10, 11, 12, 13, 14}"
proof -
  have "unat m < 64" using unsigned_less [of m, where 'a = nat] by simp
  then have "unat m < 15" using assms by (simp add: word_less_nat_alt unsigned_ucast_eq take_bit_nat_eq_self)
  then have "unat m \<in> set [0..<15]" by simp
  then have "word_of_nat (unat m) \<in> (\<lambda>n. word_of_nat n :: 6 word) ` set [0..<15]" by (rule imageI)
  then show ?thesis by (simp add: upt_rec)
qed

lemma step_lit_ok:
  assumes "lit_ok (led_config s)"
  shows "lit_ok (led_config (led_matrix_step_helper w s))" "lit_ok (led_config (led_matrix_step_reverse_helper w s))"
  using assms modes [of "led_mode (led_config s)"]
  by (auto simp: lit_ok_def led_matrix_step_helper_def led_matrix_step_reverse_helper_def led_matrix_mode_eeprom_helper_def Let_def
      effect_max)

lemma raise_lit_ok:
  assumes "lit_ok (led_config s)"
  shows "lit_ok (led_config (raise_val w s))"
  using assms raise_val_config [where w = w and s = s] by (cases "led_enable (led_config s) = 0") (auto simp: lit_ok_def)

lemma backlight_key_lit_ok:
  assumes "lit_ok (led_config s)"
  shows "lit_ok (led_config (snd (backlight_key k p s)))"
proof -
  have on: "lit_ok (led_config (led_matrix_enable s))" if "lit_ok (led_config (led_matrix_enable_noeeprom s))"
    using raise_lit_ok [of "eeconfig_flag_led_matrix True (led_matrix_enable_noeeprom s)" True] that
    by (simp add: led_matrix_enable_def)
  have "lit_ok (led_config (led_matrix_enable_noeeprom s))"
    using assms by (auto simp: lit_ok_def led_matrix_enable_noeeprom_def Let_def raise_val_config)
  note on = on [OF this]
  have off: "lit_ok (led_config (led_matrix_disable s))"
    using assms by (auto simp: lit_ok_def led_matrix_disable_def led_matrix_disable_noeeprom_def Let_def)
  have tog: "lit_ok (led_config (led_matrix_toggle_eeprom_helper True s))"
    using assms by (intro toggle_lit_ok) (simp_all add: lit_ok_def)
  have up: "lit_ok (led_config (led_matrix_increase_val_helper True s))"
    using assms tog by (auto simp: led_matrix_increase_val_helper_def led_matrix_set_val_eeprom_helper_def lit_ok_def up_above)
  have down: "lit_ok (led_config (led_matrix_decrease_val_helper True s))"
  proof (cases "led_enable (led_config s) = 0")
    case True
    then show ?thesis using assms by (simp add: led_matrix_decrease_val_helper_def led_matrix_set_val_eeprom_helper_def)
  next
    case False
    let ?s = "led_matrix_set_val_eeprom_helper (qsub8 (led_val (led_config s)) LED_MATRIX_VAL_STEP) True s"
    have c: "led_config ?s = (led_config s)\<lparr>led_val := qsub8 (led_val (led_config s)) LED_MATRIX_VAL_STEP\<rparr>"
      using False by (simp add: led_matrix_set_val_eeprom_helper_def)
    have "lit_ok (led_config (led_matrix_toggle_eeprom_helper True ?s))"
      using assms c by (intro toggle_lit_ok) (simp_all add: lit_ok_def)
    moreover have "lit_ok (led_config ?s)" if "\<not> led_val (led_config ?s) \<le> LED_MATRIX_BRIGHTNESS_TURN_OFF_VAL"
      using assms that c by (simp add: lit_ok_def not_le)
    ultimately show ?thesis using False c by (auto simp: led_matrix_decrease_val_helper_def Let_def)
  qed
  show ?thesis using assms on off tog up down step_lit_ok [OF assms, of True] by (simp add: backlight_key_def)
qed

text \<open>From valid settings the keys of the backlight keep it valid: they never leave it on but too dark to see, the
  effect is always one that exists, and raising the brightness ends.\<close>

lemma backlight_keys_keep_settings_valid:
  assumes "lit_ok (led_config s)"
  shows "lit_ok (led_config (foldl (\<lambda>s (k, p). snd (backlight_key k p s)) s ks))"
  using assms by (induction ks arbitrary: s) (auto simp: backlight_key_lit_ok)

definition initial_led :: "led_layout \<Rightarrow> led_eeconfig \<Rightarrow> led_st" where
  "initial_led lay c =
    \<lparr>g_led_config = lay, led_config = c, g_led_timer = 0, g_last_hit_tracker = no_hits,
     stored_config = c, dirty_led_matrix = False, driver_shutdown = False, suspend_state = False, led_last_enable = 255,
     led_last_effect = 255, led_effect_params = \<lparr>iter = 0, par_flags = LED_FLAG_ALL, init = False\<rparr>, led_task_state = SYNCING,
     led_anykey_timer = 0, led_matrix_timeout = LED_MATRIX_TIMEOUT_INFINITE, led_timer_buffer = 0, last_hit_buffer = no_hits,
     led_calls = []\<rparr>"

definition default_led_config :: led_eeconfig where
  "default_led_config = \<lparr>led_enable = 1, led_mode = LED_MATRIX_DEFAULT_MODE, led_val = LED_MATRIX_DEFAULT_VAL,
    led_speed = LED_MATRIX_DEFAULT_SPD, led_flags = LED_FLAG_ALL\<rparr>"

lemma default_lit_ok: "lit_ok default_led_config"
  by (simp add: lit_ok_def default_led_config_def LED_MATRIX_DEFAULT_MODE_def LED_MATRIX_DEFAULT_VAL_def
      LED_MATRIX_MAXIMUM_BRIGHTNESS_def LED_MATRIX_BRIGHTNESS_TURN_OFF_VAL_def effect_max)

subsection \<open>Switching the driver off\<close>

text \<open>When the last frame that was flushed was the dark one, the driver is shut down.\<close>

definition shut_inv :: "led_st \<Rightarrow> bool" where
  "shut_inv s \<longleftrightarrow> (led_last_effect s = 0 \<longrightarrow> driver_shutdown s)"

lemma timers_form:
  "\<exists>a h. led_task_timers e s = s\<lparr>led_timer_buffer := led_now e, led_anykey_timer := a, last_hit_buffer := h\<rparr> \<and> led_anykey_timer s \<le> a"
proof -
  let ?d = "led_elapsed e (led_timer_buffer s)"
  have "x \<le> x + d" if "\<not> - 1 - d < x" for x d :: u32
  proof -
    have d: "unat (- 1 - d) = 2 ^ 32 - 1 - unat d"
      using unsigned_less [of d, where 'a = nat] by (simp add: unat_sub word_order.extremum unsigned_minus_1_eq_mask mask_eq_exp_minus_1)
    then have "unat x + unat d \<le> 2 ^ 32 - 1" using that unsigned_less [of d, where 'a = nat] by (simp add: word_less_nat_alt not_less)
    then show ?thesis by (simp add: word_le_nat_alt unat_word_ariths)
  qed
  then have "led_anykey_timer s \<le> (if - 1 - ?d < led_anykey_timer s then - 1 else led_anykey_timer s + ?d)" by simp
  note le = this
  show ?thesis
  proof (cases "led_anykey_timer s < - 1")
    case True
    with le show ?thesis unfolding led_task_timers_def Let_def by auto
  next
    case False
    then show ?thesis unfolding led_task_timers_def Let_def by (intro exI [of _ "led_anykey_timer s"]) auto
  qed
qed

definition backlight_off :: "led_st \<Rightarrow> bool" where
  "backlight_off s \<longleftrightarrow> suspend_backlight s \<or> led_enable (led_config s) = 0"

lemma off_effect: "backlight_off s \<longleftrightarrow> suspend_backlight s \<or> led_enable (led_config s) = 0" "backlight_off s \<Longrightarrow> current_effect s = 0"
  by (auto simp: backlight_off_def current_effect_def)

text \<open>What a call of the task does while the backlight is off.\<close>

definition shutdown_steps :: "led_task_states \<Rightarrow> nat" where
  "shutdown_steps st = (case st of SYNCING \<Rightarrow> 4 | STARTING \<Rightarrow> 3 | RENDERING \<Rightarrow> 2 | FLUSHING \<Rightarrow> 1)"

lemma task_off:
  assumes "backlight_off s" "led_matrix_driver_allow_shutdown e" "shut_inv s"
  shows "\<exists>s'. led_matrix_task e s = Some s' \<and> backlight_off s' \<and> shut_inv s' \<and> (driver_shutdown s \<longrightarrow> driver_shutdown s') \<and>
    (driver_shutdown s' \<or> shutdown_steps (led_task_state s') < shutdown_steps (led_task_state s) \<or>
     led_task_state s = SYNCING \<and> led_task_state s' = SYNCING \<and> led_elapsed e (g_led_timer s) < LED_MATRIX_LED_FLUSH_LIMIT)"
proof -
  obtain a h where t: "led_task_timers e s = s\<lparr>led_timer_buffer := led_now e, led_anykey_timer := a, last_hit_buffer := h\<rparr>"
    "led_anykey_timer s \<le> a" using timers_form [of e s] by blast
  let ?t = "s\<lparr>led_timer_buffer := led_now e, led_anykey_timer := a, last_hit_buffer := h\<rparr>"
  have off: "backlight_off ?t" using assms(1) t(2) by (auto simp: backlight_off_def suspend_backlight_def)
  note eff = off_effect(2) [OF off]
  have inv: "shut_inv ?t" using assms(3) by (simp add: shut_inv_def enable_byte_def)
  show ?thesis
  proof (cases "led_task_state s")
    case STARTING
    then show ?thesis using t(1) off inv
      by (auto simp: led_matrix_task_def led_task_start_def shutdown_steps_def backlight_off_def suspend_backlight_def
          shut_inv_def enable_byte_def)
  next
    case RENDERING
    then show ?thesis using t(1) off inv eff
      by (auto simp: led_matrix_task_def led_task_render_def begin_render_def end_render_def render_effect_def led_matrix_none_def LED_MATRIX_NONE_def Let_def
          led_do_def shutdown_steps_def backlight_off_def suspend_backlight_def shut_inv_def enable_byte_def)
  next
    case FLUSHING
    then show ?thesis using t(1) off inv eff assms(2)
      by (auto simp: led_matrix_task_def led_task_flush_def LED_MATRIX_NONE_def Let_def led_matrix_driver_shutdown_def
          led_do_def backlight_off_def suspend_backlight_def shut_inv_def enable_byte_def)
  next
    case SYNCING
    then show ?thesis using t(1) off inv
      by (auto simp: led_matrix_task_def led_task_sync_def Let_def eeconfig_flush_led_matrix_def shutdown_steps_def backlight_off_def
          suspend_backlight_def shut_inv_def enable_byte_def led_elapsed_def)
  qed
qed

fun led_tasks :: "led_env list \<Rightarrow> led_st \<Rightarrow> led_st option" where
  "led_tasks [] s = Some s"
| "led_tasks (e # es) s = Option.bind (led_matrix_task e s) (led_tasks es)"

lemma stays_shut:
  assumes "backlight_off s" "shut_inv s" "driver_shutdown s" "\<forall>e \<in> set es. led_matrix_driver_allow_shutdown e"
  shows "\<exists>s'. led_tasks es s = Some s' \<and> driver_shutdown s'"
  using assms
proof (induction es arbitrary: s)
  case Nil
  then show ?case by simp
next
  case (Cons e es)
  obtain s' where s': "led_matrix_task e s = Some s'" "backlight_off s'" "shut_inv s'" "driver_shutdown s'"
    using task_off [OF Cons.prems(1) _ Cons.prems(2), of e] Cons.prems(3,4) by auto
  show ?case using Cons.IH [OF s'(2-4)] Cons.prems(4) s'(1) by simp
qed

lemma shut_within:
  assumes "backlight_off s" "shut_inv s" "\<forall>e \<in> set es. led_matrix_driver_allow_shutdown e"
    "shutdown_steps (led_task_state s) \<le> length es" "led_task_state s = SYNCING \<longrightarrow> LED_MATRIX_LED_FLUSH_LIMIT \<le> led_elapsed (hd es) (g_led_timer s)"
  shows "\<exists>s'. led_tasks es s = Some s' \<and> driver_shutdown s'"
  using assms
proof (induction es arbitrary: s)
  case Nil
  then show ?case by (simp add: shutdown_steps_def split: led_task_states.splits)
next
  case (Cons e es)
  obtain s' where s': "led_matrix_task e s = Some s'" "backlight_off s'" "shut_inv s'"
    "driver_shutdown s' \<or> shutdown_steps (led_task_state s') < shutdown_steps (led_task_state s)"
    using task_off [OF Cons.prems(1) _ Cons.prems(2), of e] Cons.prems(3,5) by (auto simp: not_less [symmetric])
  show ?case
  proof (cases "driver_shutdown s'")
    case True
    then show ?thesis using stays_shut [OF s'(2,3)] Cons.prems(3) s'(1) by simp
  next
    case False
    then have "led_task_state s' \<noteq> SYNCING" "shutdown_steps (led_task_state s') \<le> length es"
      using s'(4) Cons.prems(4) by (auto simp: shutdown_steps_def split: led_task_states.splits)
    then show ?thesis using Cons.IH [OF s'(2,3)] Cons.prems(3) s'(1) by simp
  qed
qed

text \<open>Everything the keyboard does with the LED matrix, the initialisation apart.\<close>

datatype led_op =
    Led_task led_env | Led_key led_env nat nat bool | Led_backlight_key u16 bool | Led_suspend led_env bool
  | Led_enable | Led_disable | Led_timeout u32 | Led_time_reset

fun do_led_op :: "led_op \<Rightarrow> led_st \<Rightarrow> led_st option" where
  "do_led_op (Led_task e) s = led_matrix_task e s"
| "do_led_op (Led_key e row col pressed) s = Some (process_led_matrix e row col pressed s)"
| "do_led_op (Led_backlight_key k pressed) s = Some (snd (backlight_key k pressed s))"
| "do_led_op (Led_suspend e state) s = led_matrix_set_suspend_state e state s"
| "do_led_op Led_enable s = Some (led_matrix_enable_noeeprom s)"
| "do_led_op Led_disable s = Some (led_matrix_disable_noeeprom s)"
| "do_led_op (Led_timeout t) s = Some (led_matrix_disable_timeout_set t s)"
| "do_led_op Led_time_reset s = Some (led_matrix_disable_time_reset s)"

fun op_allows :: "led_op \<Rightarrow> bool" where
  "op_allows (Led_task e) = led_matrix_driver_allow_shutdown e"
| "op_allows (Led_suspend e state) = led_matrix_driver_allow_shutdown e"
| "op_allows _ = True"

fun led_ops :: "led_op list \<Rightarrow> led_st \<Rightarrow> led_st option" where
  "led_ops [] s = Some s"
| "led_ops (x # xs) s = Option.bind (do_led_op x s) (led_ops xs)"

definition same_driver :: "led_st \<Rightarrow> led_st \<Rightarrow> bool" where
  "same_driver s s' \<longleftrightarrow> driver_shutdown s' = driver_shutdown s \<and> led_last_effect s' = led_last_effect s"

lemma same_driver_shut: "same_driver s s' \<Longrightarrow> shut_inv s \<Longrightarrow> shut_inv s'"
  by (simp add: same_driver_def shut_inv_def)

lemma same_driver_trans: "same_driver s s' \<Longrightarrow> same_driver s' s'' \<Longrightarrow> same_driver s s''"
  by (simp add: same_driver_def)

lemma same_driver_simps [simp]:
  "same_driver s s" "same_driver s (set_config f s')  = same_driver s s'" "same_driver s (eeconfig_flag_led_matrix w s') = same_driver s s'"
  "same_driver s (s'\<lparr>led_task_state := st\<rparr>) = same_driver s s'" "same_driver s (led_do cs s') = same_driver s s'"
  "same_driver s (led_matrix_set_val_eeprom_helper v w s') = same_driver s s'"
  by (simp_all add: same_driver_def set_config_def eeconfig_flag_led_matrix_def led_do_def led_matrix_set_val_eeprom_helper_def)

lemma same_driver_raise [simp]: "same_driver s (raise_val w s') = same_driver s s'"
proof (induction w s' rule: raise_val.induct)
  case (1 w s')
  show ?case
  proof (cases "led_enable (led_config s') \<noteq> 0 \<and> led_val (led_config s') \<le> LED_MATRIX_BRIGHTNESS_TURN_OFF_VAL")
    case True
    with 1 [OF True] show ?thesis by (simp add: raise_val.simps [of w s'])
  next
    case False
    then show ?thesis by (auto simp: raise_val.simps [of w s'])
  qed
qed

lemma settings_same_driver:
  "same_driver s (led_matrix_enable_noeeprom s)" "same_driver s (led_matrix_disable_noeeprom s)"
  "same_driver s (snd (backlight_key k p s))" "same_driver s (process_led_matrix e r c p s)"
  by (simp_all add: backlight_key_def led_matrix_enable_def led_matrix_enable_noeeprom_def led_matrix_disable_def
      led_matrix_disable_noeeprom_def led_matrix_decrease_val_helper_def led_matrix_increase_val_helper_def
      led_matrix_toggle_eeprom_helper_def led_matrix_step_helper_def led_matrix_mode_eeprom_helper_def Let_def)
    (simp add: process_led_matrix_def same_driver_def Let_def)

lemma render_calls_only: "render_effect effect s = Some (r, s') \<Longrightarrow> \<exists>cs. s' = led_do cs s"
  by (auto simp: render_effect_def led_matrix_none_def split: if_splits) (auto simp: led_do_def intro: exI [of _ "[]"])

lemma begin_end_same_driver [simp]:
  "same_driver s (begin_render effect s') = same_driver s s'" "same_driver s (end_render effect r s') = same_driver s s'"
  by (auto simp: begin_render_def end_render_def Let_def same_driver_def led_do_def)

lemma render_same_driver: "led_task_render effect s = Some s' \<Longrightarrow> same_driver s s'"
  using render_calls_only by (fastforce simp: led_task_render_def)

lemma start_sync_same_driver: "same_driver s (led_task_start s)" "same_driver s (led_task_sync e s)"
  by (simp_all add: led_task_start_def led_task_sync_def eeconfig_flush_led_matrix_def same_driver_def Let_def)

lemma flush_shut: "led_matrix_driver_allow_shutdown e \<Longrightarrow> shut_inv (led_task_flush e effect s)"
  by (simp add: led_task_flush_def Let_def shut_inv_def led_do_def led_matrix_driver_shutdown_def LED_MATRIX_NONE_def)

lemma op_keeps_shut:
  assumes "do_led_op x s = Some s'" "shut_inv s" "op_allows x"
  shows "shut_inv s'"
proof (cases x)
  case (Led_task e)
  obtain a h where t: "led_task_timers e s = s\<lparr>led_timer_buffer := led_now e, led_anykey_timer := a, last_hit_buffer := h\<rparr>"
    using timers_form [of e s] by blast
  have i: "shut_inv (led_task_timers e s)" using assms(2) by (simp add: t shut_inv_def)
  show ?thesis
  proof (cases "led_task_state (led_task_timers e s)")
    case RENDERING
    then obtain r where r: "led_task_render (current_effect (led_task_timers e s)) (led_task_timers e s) = Some r"
      "s' = r \<or> s' = led_matrix_indicators_advanced (led_matrix_indicators r)"
      using assms(1) Led_task by (auto simp: led_matrix_task_def Let_def split: if_splits)
    have "shut_inv r" using same_driver_shut [OF render_same_driver [OF r(1)] i] .
    then show ?thesis using r(2)
      by (auto simp: led_matrix_indicators_advanced_def led_matrix_indicators_def led_do_def shut_inv_def split_beta)
  next
    case FLUSHING
    then show ?thesis using assms Led_task flush_shut by (auto simp: led_matrix_task_def Let_def)
  qed (use assms(1) Led_task same_driver_shut [OF start_sync_same_driver(1) i] same_driver_shut [OF start_sync_same_driver(2) i] in
      \<open>auto simp: led_matrix_task_def Let_def\<close>)
next
  case (Led_suspend e state)
  show ?thesis
  proof (cases "state \<and> \<not> suspend_state s \<and> led_master e")
    case True
    then obtain r where "s' = (led_task_flush e 0 r)\<lparr>suspend_state := state\<rparr>"
      using assms(1) Led_suspend by (auto simp: led_matrix_set_suspend_state_def)
    then show ?thesis using flush_shut [of e 0 r] assms(3) Led_suspend by (simp add: shut_inv_def)
  next
    case False
    then show ?thesis using assms Led_suspend by (auto simp: led_matrix_set_suspend_state_def shut_inv_def)
  qed
qed (use assms same_driver_shut [OF _ assms(2)] settings_same_driver in
    \<open>auto simp: led_matrix_disable_timeout_set_def led_matrix_disable_time_reset_def shut_inv_def\<close>)

lemma ops_keep_shut:
  assumes "led_ops xs s = Some s'" "shut_inv s" "\<forall>x \<in> set xs. op_allows x"
  shows "shut_inv s'"
  using assms
proof (induction xs arbitrary: s)
  case Nil
  then show ?case by simp
next
  case (Cons x xs)
  then obtain t where "do_led_op x s = Some t" "led_ops xs t = Some s'" by (auto split: bind_splits)
  with Cons show ?case using op_keeps_shut [of x s t] by simp
qed


definition led_at :: "u32 \<Rightarrow> led_env" where
  "led_at t = \<lparr>led_now = t, led_master = True, led_matrix_driver_allow_shutdown = True\<rparr>"


subsection \<open>A frame\<close>

definition is_value :: "led_call \<Rightarrow> bool" where
  "is_value c \<longleftrightarrow> (case c of Led_set_value i v \<Rightarrow> True | Led_set_value_all v \<Rightarrow> True | Led_driver_init \<Rightarrow> True | _ \<Rightarrow> False)"

text \<open>The first part of a frame may start with switching all LEDs off.\<close>

definition cleared :: "nat \<Rightarrow> led_call list \<Rightarrow> led_call list \<Rightarrow> bool" where
  "cleared n cs vs \<longleftrightarrow> (\<exists>pre. (pre = [] \<or> n = 0 \<and> pre = [Led_set_value_all 0]) \<and> filter is_value cs = pre @ vs)"

text \<open>The backlight is on, with an effect that can be computed, and does not time out.\<close>

definition shining :: "led_st \<Rightarrow> bool" where
  "shining s \<longleftrightarrow> \<not> suspend_state s \<and> led_matrix_timeout s = LED_MATRIX_TIMEOUT_INFINITE \<and> lit_ok (led_config s) \<and>
    led_enable (led_config s) = 1 \<and> led_speed (led_config s) \<noteq> 0"

definition effect_of :: "led_st \<Rightarrow> led_effect" where
  "effect_of s = led_matrix_effects ! (unat (led_mode (led_config s)) - 1)"

lemma never_above_infinite [simp]: "\<not> LED_MATRIX_TIMEOUT_INFINITE < t"
  by (simp add: LED_MATRIX_TIMEOUT_INFINITE_def not_less word_order.extremum)

lemma shining_effect:
  assumes "shining s"
  shows "current_effect s = ucast (led_mode (led_config s))" "(ucast (led_mode (led_config s)) :: u8) \<noteq> 0"
    "(ucast (led_mode (led_config s)) :: u8) < LED_MATRIX_EFFECT_MAX" "effect_of s \<in> set led_matrix_effects"
    "unat (ucast (led_mode (led_config s)) :: u8) = unat (led_mode (led_config s))"
proof -
  have m: "led_mode (led_config s) \<in> {1, 2, 3, 4, 5, 6, 7, 8, 9, 10, 11, 12, 13, 14}"
    using assms modes [of "led_mode (led_config s)"] by (auto simp: shining_def lit_ok_def effect_max)
  show "current_effect s = ucast (led_mode (led_config s))"
    using assms by (simp add: current_effect_def suspend_backlight_def shining_def)
  show "(ucast (led_mode (led_config s)) :: u8) \<noteq> 0" "(ucast (led_mode (led_config s)) :: u8) < LED_MATRIX_EFFECT_MAX"
    "unat (ucast (led_mode (led_config s)) :: u8) = unat (led_mode (led_config s))"
    using m by (auto simp: effect_max)
  show "effect_of s \<in> set led_matrix_effects" using m by (auto simp: effect_of_def led_matrix_effects_def)
qed

lemma timers_shining:
  "\<exists>a h. led_task_timers e s = s\<lparr>led_timer_buffer := led_now e, led_anykey_timer := a, last_hit_buffer := h\<rparr>"
  using timers_form [of e s] by blast

text \<open>One call while the frame is rendered: the LEDs of part \<open>n\<close> are set.\<close>

definition in_frame :: "nat \<Rightarrow> (nat \<Rightarrow> u8) \<Rightarrow> led_st \<Rightarrow> bool" where
  "in_frame n f s \<longleftrightarrow> shining s \<and> iter (led_effect_params s) = word_of_nat n \<and>
    (0 < n \<longrightarrow> par_flags (led_effect_params s) = led_flags (led_config s)) \<and> (\<forall>p. run_effect (effect_of s) (led_frame.truncate s) p = effect_leds (led_frame.truncate s) p f)"

lemma filter_values [simp]: "filter is_value (map (\<lambda>i. Led_set_value i (f i)) xs) = map (\<lambda>i. Led_set_value i (f i)) xs"
  by (simp add: filter_map is_value_def comp_def)

lemma render_values:
  assumes "in_frame n f s" "n < 5"
  shows "\<exists>s' cs. led_task_render (ucast (led_mode (led_config s))) s = Some s' \<and> led_calls s' = led_calls s @ cs \<and>
    cleared n cs (map (\<lambda>i. Led_set_value i (f i)) (lit_by (led_frame.truncate s) (led_flags (led_config s)) (part_of_frame n))) \<and>
    in_frame (n + 1) f s' \<and> led_task_state s' = (if n < 4 then led_task_state s else FLUSHING) \<and>
    led_frame.truncate s' = led_frame.truncate s \<and> driver_shutdown s' = driver_shutdown s"
proof -
  let ?e = "ucast (led_mode (led_config s)) :: u8"
  have sh: "shining s" and it: "iter (led_effect_params s) = word_of_nat n"
    and run: "\<And>p. run_effect (effect_of s) (led_frame.truncate s) p = effect_leds (led_frame.truncate s) p f"
    using assms(1) by (simp_all add: in_frame_def)
  note e = shining_effect(2,3,5) [OF sh]
  let ?b = "begin_render ?e s"
  have b: "led_frame.truncate ?b = led_frame.truncate s" "led_config ?b = led_config s" "driver_shutdown ?b = driver_shutdown s"
    "led_task_state ?b = led_task_state s" "shining ?b"
    "iter (led_effect_params ?b) = word_of_nat n" "par_flags (led_effect_params ?b) = led_flags (led_config s)"
    using sh it by (auto simp: begin_render_def Let_def led_do_def led_frame.truncate_def shining_def)
  obtain cs where cs: "led_calls ?b = led_calls s @ cs" "filter is_value cs = cs" "cs = [] \<or> n = 0 \<and> cs = [Led_set_value_all 0]"
  proof (cases "par_flags (led_effect_params s) = led_flags (led_config s)")
    case True
    then show ?thesis by (intro that [of "[]"]) (simp_all add: begin_render_def)
  next
    case False
    then have "n = 0" using assms(1) by (simp add: in_frame_def)
    then show ?thesis using False by (intro that [of "[Led_set_value_all 0]"]) (simp_all add: begin_render_def led_do_def is_value_def)
  qed
  let ?vs = "map (\<lambda>i. Led_set_value i (f i)) (lit_by (led_frame.truncate s) (led_flags (led_config s)) (part_of_frame n))"
  have "led_effect_params ?b = (led_effect_params ?b)\<lparr>iter := word_of_nat n\<rparr>" using b(6) by simp
  then have leds: "effect_leds (led_frame.truncate s) (led_effect_params ?b) f = Some (?vs, n < 4)"
    using effect_leds_part [OF assms(2), of "led_frame.truncate s" "led_effect_params ?b" f] b(7) by simp
  have none: "?e \<noteq> LED_MATRIX_NONE" using e(1) by (simp add: LED_MATRIX_NONE_def)
  let ?s = "end_render ?e (n < 4) (led_do ?vs ?b)"
  have "led_task_render ?e s = Some ?s"
    using none e run leds by (simp add: led_task_render_def render_effect_def b(1) effect_of_def)
  moreover have "led_calls ?s = led_calls s @ (cs @ ?vs)" by (simp add: end_render_def Let_def led_do_def cs(1))
  moreover have "cleared n (cs @ ?vs) ?vs" using cs(2,3) by (auto simp: cleared_def)
  moreover have "led_task_state ?s = (if n < 4 then led_task_state s else FLUSHING)"
    using none by (simp add: end_render_def Let_def led_do_def b(4))
  moreover have tr: "led_frame.truncate ?s = led_frame.truncate s" "driver_shutdown ?s = driver_shutdown s"
    using b(1,3) by (simp_all add: end_render_def Let_def led_do_def led_frame.truncate_def)
  moreover have "in_frame (n + 1) f ?s"
  proof -
    have "shining ?s" using b(5) by (simp add: end_render_def Let_def led_do_def shining_def)
    moreover have "iter (led_effect_params ?s) = word_of_nat (n + 1)" using b(6) by (simp add: end_render_def Let_def led_do_def)
    moreover have "effect_of ?s = effect_of s" using b(2) by (simp add: end_render_def Let_def led_do_def effect_of_def)
    moreover have "par_flags (led_effect_params ?s) = led_flags (led_config ?s)" using b(2,7) by (simp add: end_render_def Let_def led_do_def)
    ultimately show ?thesis using run tr(1) by (simp add: in_frame_def)
  qed
  ultimately show ?thesis by blast
qed

lemma in_frame_simps:
  "in_frame n f (led_do cs s) = in_frame n f s"
  "in_frame n f (s\<lparr>led_timer_buffer := t, led_anykey_timer := a, last_hit_buffer := h\<rparr>) = in_frame n f s"
  by (simp_all add: in_frame_def shining_def effect_of_def led_do_def led_frame.truncate_def)

lemma render_part:
  assumes "in_frame n f s" "n < 5" "led_task_state s = RENDERING"
  shows "\<exists>s' cs. led_matrix_task e s = Some s' \<and> led_calls s' = led_calls s @ cs \<and>
    cleared n cs (map (\<lambda>i. Led_set_value i (f i)) (lit_by (led_frame.truncate s) (led_flags (led_config s)) (part_of_frame n))) \<and>
    in_frame (n + 1) f s' \<and> led_task_state s' = (if n < 4 then RENDERING else FLUSHING) \<and>
    led_frame.truncate s' = led_frame.truncate s \<and> driver_shutdown s' = driver_shutdown s"
proof -
  obtain a h where t: "led_task_timers e s = s\<lparr>led_timer_buffer := led_now e, led_anykey_timer := a, last_hit_buffer := h\<rparr>"
    using timers_shining by blast
  let ?t = "s\<lparr>led_timer_buffer := led_now e, led_anykey_timer := a, last_hit_buffer := h\<rparr>"
  have f: "in_frame n f ?t" using assms(1) by (simp add: in_frame_simps)
  then have eff: "current_effect ?t = ucast (led_mode (led_config ?t))" "current_effect ?t \<noteq> 0"
    using shining_effect(1,2) [of ?t] by (simp_all add: in_frame_def)
  obtain s' cs where s': "led_task_render (ucast (led_mode (led_config ?t))) ?t = Some s'" "led_calls s' = led_calls s @ cs"
    "cleared n cs (map (\<lambda>i. Led_set_value i (f i)) (lit_by (led_frame.truncate s) (led_flags (led_config s)) (part_of_frame n)))"
    "in_frame (n + 1) f s'" "led_task_state s' = (if n < 4 then RENDERING else FLUSHING)"
    "led_frame.truncate s' = led_frame.truncate s" "driver_shutdown s' = driver_shutdown s"
    using render_values [OF f assms(2)] assms(3) by (auto simp: led_frame.truncate_def)
  let ?s = "led_matrix_indicators_advanced (led_matrix_indicators s')"
  obtain ds where ds: "?s = led_do ds s'" "filter is_value ds = []"
    by (auto simp: led_matrix_indicators_advanced_def led_matrix_indicators_def led_do_def is_value_def split_beta)
  have "led_matrix_task e s = Some ?s" using eff s'(1) assms(3) by (simp add: led_matrix_task_def t)
  moreover have "in_frame (n + 1) f ?s" using s'(4) ds(1) by (simp add: in_frame_simps)
  moreover have "led_calls ?s = led_calls s @ (cs @ ds)" "led_task_state ?s = led_task_state s'" "driver_shutdown ?s = driver_shutdown s'"
    "led_frame.truncate ?s = led_frame.truncate s'" using s'(2) ds(1) by (simp_all add: led_do_def led_frame.truncate_def)
  moreover have "cleared n (cs @ ds) (map (\<lambda>i. Led_set_value i (f i)) (lit_by (led_frame.truncate s) (led_flags (led_config s)) (part_of_frame n)))"
    using s'(3) ds(2) by (simp add: cleared_def)
  ultimately show ?thesis using s'(5-7) by (intro exI [of _ ?s] exI [of _ "cs @ ds"]) simp
qed

definition part_values :: "led_st \<Rightarrow> (nat \<Rightarrow> u8) \<Rightarrow> nat \<Rightarrow> led_call list" where
  "part_values s f n =
    map (\<lambda>i. Led_set_value i (f i)) (lit_by (led_frame.truncate s) (led_flags (led_config s)) (part_of_frame n))"

lemma same_frame:
  assumes "led_frame.truncate s' = led_frame.truncate s"
  shows "part_values s' = part_values s" "led_config s' = led_config s" "g_led_config s' = g_led_config s"
  using assms by (auto simp: part_values_def led_frame.truncate_def fun_eq_iff)

lemma render_rest:
  assumes "in_frame n f s" "n < 5" "led_task_state s = RENDERING" "length es = 5 - n"
  shows "\<exists>s' cs. led_tasks es s = Some s' \<and> led_calls s' = led_calls s @ cs \<and>
    cleared n cs (concat (map (part_values s f) [n..<5])) \<and> in_frame 5 f s' \<and> led_task_state s' = FLUSHING \<and>
    led_frame.truncate s' = led_frame.truncate s \<and> driver_shutdown s' = driver_shutdown s"
  using assms
proof (induction es arbitrary: n s)
  case Nil
  then show ?case by simp
next
  case (Cons e es)
  obtain t cs where t: "led_matrix_task e s = Some t" "led_calls t = led_calls s @ cs" "cleared n cs (part_values s f n)"
    "in_frame (n + 1) f t" "led_task_state t = (if n < 4 then RENDERING else FLUSHING)"
    "led_frame.truncate t = led_frame.truncate s" "driver_shutdown t = driver_shutdown s"
    using render_part [OF Cons.prems(1-3), of e] by (auto simp: part_values_def)
  note pv = same_frame(1) [OF t(6)]
  show ?case
  proof (cases "n < 4")
    case True
    have rt: "led_task_state t = RENDERING" and len: "n + 1 < 5" "length es = 5 - (n + 1)" using True t(5) Cons.prems(4) by simp_all
    obtain s' ds where s': "led_tasks es t = Some s'" "led_calls s' = led_calls t @ ds"
      "cleared (n + 1) ds (concat (map (part_values t f) [n + 1..<5]))" "in_frame 5 f s'" "led_task_state s' = FLUSHING"
      "led_frame.truncate s' = led_frame.truncate t" "driver_shutdown s' = driver_shutdown t"
      using Cons.IH [OF t(4) len(1) rt len(2)] by blast
    have "[n..<5] = n # [n + 1..<5]" using True by (simp add: upt_rec)
    moreover have "filter is_value ds = concat (map (part_values s f) [n + 1..<5])" using s'(3) pv by (simp add: cleared_def)
    ultimately have "cleared n (cs @ ds) (concat (map (part_values s f) [n..<5]))" using t(3) by (auto simp: cleared_def)
    then show ?thesis using t s' by (intro exI [of _ s'] exI [of _ "cs @ ds"]) simp
  next
    case False
    then have "n = 4" using Cons.prems(2) by linarith
    moreover have "es = []" using Cons.prems(4) \<open>n = 4\<close> by simp
    ultimately have "n = 4" "es = []" by simp_all
    then show ?thesis using t by (intro exI [of _ t] exI [of _ cs]) (simp add: upt_rec)
  qed
qed

lemma led_tasks_append: "led_tasks (es @ fs) s = Option.bind (led_tasks es s) (led_tasks fs)"
  by (induction es arbitrary: s) (auto split: bind_splits)

text \<open>While the backlight is on, the seven calls of a frame give every LED with one of the enabled flags the value its
  effect computes for the frame, exactly once, in order, none brighter than the configured brightness, and flush
  them to a driver that is not shut down.  If the flags have changed, all LEDs are switched off before.\<close>

lemma frame_sets_every_led:
  assumes "shining s" "led_task_state s = STARTING" "length es = 7"
  shows "\<exists>f s' cs. led_tasks es s = Some s' \<and> led_calls s' = led_calls s @ cs @ [Led_flush] \<and>
    cleared 0 cs (map (\<lambda>i. Led_set_value i (f i)) (lit_by (led_frame.truncate s) (led_flags (led_config s)) [0..<84])) \<and>
    sets_leds (effect_of s) (led_frame.truncate (led_task_start (led_task_timers (hd es) s))) f \<and>
    (\<forall>i. f i \<le> led_val (led_config s)) \<and> \<not> driver_shutdown s' \<and> led_task_state s' = SYNCING"
proof -
  obtain e0 es5 e6 where es: "es = [e0] @ es5 @ [e6]" "length es5 = 5"
  proof -
    obtain e0 es' where a: "es = e0 # es'" "length es' = 6" using assms(3) by (cases es) auto
    obtain es5 e6 where "es' = es5 @ [e6]" "length es5 = 5" using a(2) by (cases es' rule: rev_cases) auto
    then show ?thesis using a that by auto
  qed
  obtain a h where t: "led_task_timers e0 s = s\<lparr>led_timer_buffer := led_now e0, led_anykey_timer := a, last_hit_buffer := h\<rparr>"
    using timers_shining by blast
  define b where "b = led_task_start (s\<lparr>led_timer_buffer := led_now e0, led_anykey_timer := a, last_hit_buffer := h\<rparr>)"
  have b: "led_matrix_task e0 s = Some b" "led_calls b = led_calls s" "led_task_state b = RENDERING" "shining b"
    "iter (led_effect_params b) = 0" "led_config b = led_config s" "g_led_config b = g_led_config s"
    using assms(1,2) by (simp_all add: led_matrix_task_def t b_def led_task_start_def shining_def)
  have "effect_of b \<noteq> ALPHAS_MODS_EFFECT" using shining_effect(4) [OF b(4)] by (auto simp: led_matrix_effects_def)
  moreover have "led_speed (led_config (led_frame.truncate b)) \<noteq> 0" using b(4) by (simp add: shining_def led_frame.truncate_def)
  ultimately obtain f where f: "sets_leds (effect_of b) (led_frame.truncate b) f" "\<forall>i. f i \<le> led_val (led_config b)"
    using effect_values [of "effect_of b" "led_frame.truncate b"] by (auto simp: led_frame.truncate_def)
  have "in_frame 0 f b" using b(4,5) f(1) by (simp add: in_frame_def sets_leds_def)
  then obtain c cs where c: "led_tasks es5 b = Some c" "led_calls c = led_calls b @ cs"
    "cleared 0 cs (concat (map (part_values b f) [0..<5]))" "in_frame 5 f c" "led_task_state c = FLUSHING"
    using render_rest [of 0 f b es5] b(3) es(2) by auto
  have vals: "concat (map (part_values b f) [0..<5]) =
      map (\<lambda>i. Led_set_value i (f i)) (lit_by (led_frame.truncate s) (led_flags (led_config s)) [0..<84])"
  proof -
    have "concat (map (part_values b f) [0..<5]) =
        map (\<lambda>i. Led_set_value i (f i)) (concat (map (\<lambda>n. lit_by (led_frame.truncate b) (led_flags (led_config b)) (part_of_frame n)) [0..<5]))"
      by (simp add: part_values_def [abs_def] map_concat comp_def)
    also have "\<dots> = map (\<lambda>i. Led_set_value i (f i)) (lit_by (led_frame.truncate b) (led_flags (led_config b)) [0..<84])"
      by (simp only: lit_by_frame)
    finally show ?thesis using b(6,7) by (simp add: lit_by_def led_frame.truncate_def)
  qed
  obtain a' h' where t': "led_task_timers e6 c = c\<lparr>led_timer_buffer := led_now e6, led_anykey_timer := a', last_hit_buffer := h'\<rparr>"
    using timers_shining by blast
  let ?c = "c\<lparr>led_timer_buffer := led_now e6, led_anykey_timer := a', last_hit_buffer := h'\<rparr>"
  have "shining ?c" using c(4) by (simp add: in_frame_def shining_def)
  then have eff: "current_effect ?c \<noteq> 0" using shining_effect(1,2) [of ?c] by simp
  let ?s = "led_task_flush e6 (current_effect ?c) ?c"
  have "led_matrix_task e6 c = Some ?s" using c(5) by (simp add: led_matrix_task_def Let_def t')
  then have "led_tasks es s = Some ?s" using b(1) c(1) by (simp add: es(1) led_tasks_append)
  moreover obtain ds where ds: "led_calls ?s = led_calls c @ ds @ [Led_flush]" "filter is_value ds = []" "\<not> driver_shutdown ?s"
    "led_task_state ?s = SYNCING"
  proof (cases "driver_shutdown c")
    case True
    then show ?thesis using eff
      by (intro that [of "[Led_exit_shutdown]"]) (simp_all add: led_task_flush_def Let_def led_do_def LED_MATRIX_NONE_def is_value_def)
  next
    case False
    then show ?thesis using eff
      by (intro that [of "[]"]) (simp_all add: led_task_flush_def Let_def led_do_def LED_MATRIX_NONE_def)
  qed
  moreover have "led_calls ?s = led_calls s @ (cs @ ds) @ [Led_flush]" using c(2) b(2) ds(1) by simp
  moreover have "cleared 0 (cs @ ds) (map (\<lambda>i. Led_set_value i (f i)) (lit_by (led_frame.truncate s) (led_flags (led_config s)) [0..<84]))"
    using c(3) ds(2) vals by (simp add: cleared_def)
  moreover have "sets_leds (effect_of s) (led_frame.truncate (led_task_start (led_task_timers (hd es) s))) f"
    using f(1) b(6) by (simp add: effect_of_def es(1) t b_def)
  ultimately show ?thesis using f(2) b(6)
    by (intro exI [of _ f] exI [of _ ?s] exI [of _ "cs @ ds"]) simp
qed

subsection \<open>The key hits as a list\<close>

definition hits_ok :: "last_hit \<Rightarrow> bool" where
  "hits_ok h \<longleftrightarrow> unat (hit_count h) \<le> 8 \<and> length (hit_x h) = 8 \<and> length (hit_y h) = 8 \<and> length (hit_index h) = 8 \<and> length (hit_tick h) = 8"

definition hit_at :: "last_hit \<Rightarrow> nat \<Rightarrow> u8 \<times> u8 \<times> u8 \<times> u16" where
  "hit_at h j = (hit_x h ! j, hit_y h ! j, hit_index h ! j, hit_tick h ! j)"

definition hits_of :: "last_hit \<Rightarrow> (u8 \<times> u8 \<times> u8 \<times> u16) list" where
  "hits_of h = map (hit_at h) [0..<unat (hit_count h)]"

lemma make_room_hits:
  assumes "hits_ok h"
  shows "hits_ok (make_room 1 h)" "unat (hit_count (make_room 1 h)) < 8"
    "hits_of (make_room 1 h) = (if length (hits_of h) = 8 then tl (hits_of h) else hits_of h)"
proof -
  show "hits_ok (make_room 1 h)" "unat (hit_count (make_room 1 h)) < 8"
    using assms by (auto simp: hits_ok_def make_room_def shift_down_def LED_HITS_TO_REMEMBER_def)
  show "hits_of (make_room 1 h) = (if length (hits_of h) = 8 then tl (hits_of h) else hits_of h)"
  proof (cases "unat (hit_count h) = 8")
    case True
    have "hit_at (make_room 1 h) j = hit_at h (j + 1)" if "j < 7" for j
      using assms True that by (simp add: hit_at_def make_room_def shift_down_def LED_HITS_TO_REMEMBER_def hits_ok_def nth_append)
    then have "hits_of (make_room 1 h) = map (\<lambda>j. hit_at h (j + 1)) [0..<7]"
      using True by (simp add: hits_of_def make_room_def LED_HITS_TO_REMEMBER_def)
    then show ?thesis using True by (simp add: hits_of_def map_Suc_upt [symmetric] comp_def upt_rec del: map_Suc_upt)
  next
    case False
    then show ?thesis using assms by (simp add: hits_of_def make_room_def LED_HITS_TO_REMEMBER_def hits_ok_def)
  qed
qed

lemma add_hit_hits:
  assumes "hits_ok h" "unat (hit_count h) < 8"
  shows "hits_ok (add_hit lay h led)" "hits_of (add_hit lay h led) = hits_of h @ [(point_x lay ! unat led, point_y lay ! unat led, led, 0)]"
proof -
  have c: "unat (hit_count h + 1) = unat (hit_count h) + 1" using assms(2) by (simp add: unat_word_ariths)
  show "hits_ok (add_hit lay h led)" using assms c by (simp add: hits_ok_def add_hit_def Let_def)
  have "hit_at (add_hit lay h led) j = hit_at h j" if "j < unat (hit_count h)" for j
    using that by (simp add: hit_at_def add_hit_def Let_def)
  moreover have "hit_at (add_hit lay h led) (unat (hit_count h)) = (point_x lay ! unat led, point_y lay ! unat led, led, 0)"
    using assms by (simp add: hit_at_def add_hit_def Let_def hits_ok_def)
  ultimately show "hits_of (add_hit lay h led) = hits_of h @ [(point_x lay ! unat led, point_y lay ! unat led, led, 0)]"
    using c by (simp add: hits_of_def add_hit_def Let_def)
qed

text \<open>A press appends its LED, the oldest of eight hits makes room.\<close>

lemma press_remembers_hit:
  assumes "hits_ok (last_hit_buffer s)" "led_master e" "matrix_co (g_led_config s) ! row ! col = led" "led \<noteq> NO_LED"
  shows "hits_ok (last_hit_buffer (process_led_matrix e row col True s))"
    "hits_of (last_hit_buffer (process_led_matrix e row col True s)) =
      (if length (hits_of (last_hit_buffer s)) = 8 then tl (hits_of (last_hit_buffer s)) else hits_of (last_hit_buffer s)) @
      [(point_x (g_led_config s) ! unat led, point_y (g_led_config s) ! unat led, led, 0)]"
  using make_room_hits [OF assms(1)] add_hit_hits [OF make_room_hits(1,2) [OF assms(1)]] assms(2-4)
  by (simp_all add: process_led_matrix_def led_matrix_map_row_column_to_led_def Let_def)

text \<open>A hit that gets too old is the oldest, but the newest is forgotten in its place.\<close>

definition two_hits :: last_hit where
  "two_hits = no_hits\<lparr>hit_count := 2, hit_index := [1, 2, 0, 0, 0, 0, 0, 0], hit_tick := [65000, 10, 0, 0, 0, 0, 0, 0]\<rparr>"

lemma newest_hit_forgotten:
  "map (\<lambda>(x, y, i, t). (i, t)) (hits_of (foldl (age_hit 600) two_hits [0..<unat (hit_count two_hits)])) = [(1, 65000)]"
  by (simp add: two_hits_def no_hits_def age_hit_def hits_of_def hit_at_def upt_rec)

end
