(* ===== verification/Qmk_Indicator.thy ===== *)
theory Qmk_Indicator
  imports Qmk_Led_Matrix Qmk_Bt_Module
begin

text \<open>
  The indicators of the Bluetooth keyboards (\<^verbatim>\<open>bluetooth/indicator.c\<close> and \<^verbatim>\<open>bluetooth/bat_level_animation.c\<close>) on the LED
  matrix and the pins of this build: the LED of the host while it is connecting, the warnings of a low battery
  and the animation of the battery level.  An access outside of a table of the hosts is None.
\<close>

subsection \<open>State\<close>

datatype indicator_type_t = INDICATOR_NONE | INDICATOR_OFF | INDICATOR_ON | INDICATOR_ON_OFF | INDICATOR_BLINK | INDICATOR_LAST

record indicator_config_t =
  ind_type :: indicator_type_t
  on_time :: u32
  off_time :: u32
  duration :: u32
  highlight :: bool
  ind_value :: u8
  ind_elapsed :: u32

definition pairing_config :: indicator_config_t where
  "pairing_config = \<lparr>ind_type = INDICATOR_BLINK, on_time = 1000, off_time = 1000, duration = 0, highlight = True, ind_value = 0, ind_elapsed = 0\<rparr>"

definition connected_config :: indicator_config_t where
  "connected_config = \<lparr>ind_type = INDICATOR_ON_OFF, on_time = 2000, off_time = 250, duration = 2000, highlight = True, ind_value = 0,
    ind_elapsed = 0\<rparr>"

definition reconnecting_config :: indicator_config_t where
  "reconnecting_config = \<lparr>ind_type = INDICATOR_BLINK, on_time = 100, off_time = 100, duration = 600, highlight = True, ind_value = 0,
    ind_elapsed = 0\<rparr>"

definition disconnected_config :: indicator_config_t where
  "disconnected_config = \<lparr>ind_type = INDICATOR_NONE, on_time = 100, off_time = 100, duration = 600, highlight = False, ind_value = 0,
    ind_elapsed = 0\<rparr>"

datatype bat_lvl_ani = BAT_LVL_ANI_NONE | BAT_LVL_ANI_GROWING | BAT_LVL_ANI_BLINK_OFF | BAT_LVL_ANI_BLINK_ON

text \<open>\<open>cb_type\<close> is the static variable \<^verbatim>\<open>type\<close>; \<open>set_state\<close> and \<open>set_host\<close> are those of \<^verbatim>\<open>indicator_set\<close>.\<close>

record ind_st =
  leds :: led_st
  indicator_config :: indicator_config_t
  indicator_state :: bluetooth_state_t
  next_period :: u16
  cb_type :: indicator_type_t
  indicator_timer_buffer :: u32
  bat_low_pin_indicator :: u32
  bat_low_blink_duration :: u32
  bat_low_backlit_indicator :: u32
  bat_low_ind_state :: u8
  rtc_time :: u32
  set_state :: bluetooth_state_t
  set_host :: u8
  last_host_index :: u8
  animation_state :: bat_lvl_ani
  bat_lvl_ani_timer_buffer :: u32
  bat_percentage :: u8
  cur_percentage :: u8
  time_interval :: u32
  host_led_pin :: bool
  bat_low_led_pin :: bool

text \<open>The time, the transport, what the battery and the host say, and the environment of the LED matrix.\<close>

record ind_env =
  ind_now :: u32
  ind_rtc_ms :: u32
  ind_transport :: transport_t
  ind_critical_low :: bool
  ind_battery_empty :: bool
  ind_caps_lock :: bool
  ind_allow_shutdown :: bool

definition ind_elapsed32 :: "ind_env \<Rightarrow> u32 \<Rightarrow> u32" where
  "ind_elapsed32 e t = TIMER_DIFF_32 (ind_now e) t"

definition on_leds :: "(led_st \<Rightarrow> led_st) \<Rightarrow> ind_st \<Rightarrow> ind_st" where
  "on_leds f s = s\<lparr>leds := f (leds s)\<rparr>"

definition HOST_DEVICES_COUNT :: nat where "HOST_DEVICES_COUNT = 3"
definition LED_ON :: u8 where "LED_ON = 0x80"
definition LOW_BAT_IND_INDEX :: nat where "LOW_BAT_IND_INDEX = 77"
definition CAPS_LOCK_INDEX :: nat where "CAPS_LOCK_INDEX = 46"
definition LOW_BAT_LED_BLINK_PERIOD :: u32 where "LOW_BAT_LED_BLINK_PERIOD = 1000"
definition LOW_BAT_LED_BLINK_DURATION :: u32 where "LOW_BAT_LED_BLINK_DURATION = 10000"
definition LOW_BAT_LED_BLINK_TIMES :: u8 where "LOW_BAT_LED_BLINK_TIMES = 3"
definition LOW_BAT_LED_TRIG_INTERVAL :: u32 where "LOW_BAT_LED_TRIG_INTERVAL = 30000"
definition BAT_LEVEL_GROWING_INTERVAL :: u32 where "BAT_LEVEL_GROWING_INTERVAL = 150"
definition BAT_LEVEL_ON_INTERVAL :: u32 where "BAT_LEVEL_ON_INTERVAL = 3000"
definition DISCONNECTED_BACKLIGHT_DISABLE_TIMEOUT :: u32 where "DISCONNECTED_BACKLIGHT_DISABLE_TIMEOUT = 40"
definition CONNECTED_BACKLIGHT_DISABLE_TIMEOUT :: u32 where "CONNECTED_BACKLIGHT_DISABLE_TIMEOUT = 600"
definition HOST_LED_PIN_LIST :: "string list" where "HOST_LED_PIN_LIST = [''H3'', ''H3'', ''H3'']"
definition HOST_LED_MATRIX_LIST :: "nat list" where "HOST_LED_MATRIX_LIST = [17, 18, 19]"
definition BAT_LEVEL_LED_LIST :: "nat list" where "BAT_LEVEL_LED_LIST = [17, 18, 19, 20, 21, 22, 23, 24, 25, 26]"

definition DECIDE_TIME :: "u32 \<Rightarrow> u32 \<Rightarrow> u32" where
  "DECIDE_TIME t d = (if d = 0 then LED_MATRIX_TIMEOUT_INFINITE else if t > d then t else d)"

subsection \<open>The LED matrix below\<close>

definition indicator_enable :: "ind_st \<Rightarrow> ind_st" where
  "indicator_enable s = (if \<not> led_matrix_is_enabled (leds s) then on_leds led_matrix_enable_noeeprom s else s)"

definition indicator_disable :: "ind_st \<Rightarrow> ind_st" where
  "indicator_disable = on_leds led_matrix_disable_noeeprom"

definition indicator_set_backlit_timeout :: "u32 \<Rightarrow> ind_st \<Rightarrow> ind_st" where
  "indicator_set_backlit_timeout t = on_leds (led_matrix_disable_timeout_set t)"

definition indicator_reset_backlit_time :: "ind_st \<Rightarrow> ind_st" where
  "indicator_reset_backlit_time = on_leds led_matrix_disable_time_reset"

definition indicator_eeconfig_reload :: "ind_st \<Rightarrow> ind_st" where
  "indicator_eeconfig_reload = on_leds (\<lambda>l.
    let l = l\<lparr>led_config := stored_config l\<rparr> in if led_mode (led_config l) = 0 then eeconfig_update_led_matrix_default l else l)"

definition indicator_is_running :: "ind_st \<Rightarrow> bool" where
  "indicator_is_running s \<longleftrightarrow> bat_low_blink_duration s \<noteq> 0 \<or> bat_low_ind_state s \<noteq> 0 \<or> ind_value (indicator_config s) \<noteq> 0"

definition set_led :: "nat \<Rightarrow> u8 \<Rightarrow> ind_st \<Rightarrow> ind_st" where
  "set_led i v = on_leds (led_do [Led_set_value i v])"

definition set_all_leds_off :: "ind_st \<Rightarrow> ind_st" where
  "set_all_leds_off = on_leds (led_do [Led_set_value_all 0])"

text \<open>Entry \<^verbatim>\<open>index - 1\<close> of a table of the hosts.\<close>

definition of_host :: "'a list \<Rightarrow> u8 \<Rightarrow> 'a option" where
  "of_host xs i = (if 1 \<le> unat i \<and> unat i \<le> length xs then Some (xs ! (unat i - 1)) else None)"

subsection \<open>Animation of the battery level\<close>

definition bat_level_animiation_start :: "ind_env \<Rightarrow> u8 \<Rightarrow> ind_st \<Rightarrow> ind_st" where
  "bat_level_animiation_start e percentage s =
    (indicator_enable s)\<lparr>animation_state := BAT_LVL_ANI_GROWING, bat_percentage := percentage, bat_lvl_ani_timer_buffer := ind_now e,
      cur_percentage := 0, time_interval := BAT_LEVEL_GROWING_INTERVAL\<rparr>"

definition bat_level_animiation_stop :: "ind_st \<Rightarrow> ind_st" where
  "bat_level_animiation_stop s = s\<lparr>animation_state := BAT_LVL_ANI_NONE\<rparr>"

definition bat_level_animiation_actived :: "ind_st \<Rightarrow> bool" where
  "bat_level_animiation_actived s \<longleftrightarrow> animation_state s \<noteq> BAT_LVL_ANI_NONE"

definition bat_level_animiation_indicate :: "ind_st \<Rightarrow> ind_st option" where
  "bat_level_animiation_indicate s =
    (let s = on_leds (led_do (map (\<lambda>i. Led_set_value i 0) [0..<unat LED_COUNT + 1])) s in
     if animation_state s = BAT_LVL_ANI_GROWING \<or> animation_state s = BAT_LVL_ANI_BLINK_ON then
       let n = unat (cur_percentage s div 10) in
       if n \<le> length BAT_LEVEL_LED_LIST then Some (on_leds (led_do (map (\<lambda>i. Led_set_value (BAT_LEVEL_LED_LIST ! i) 255) [0..<n])) s)
       else None
     else Some s)"

definition bat_level_animiation_update :: "ind_env \<Rightarrow> ind_st \<Rightarrow> ind_st" where
  "bat_level_animiation_update e s =
    (case animation_state s of
       BAT_LVL_ANI_GROWING \<Rightarrow>
         if cur_percentage s < bat_percentage s then s\<lparr>cur_percentage := cur_percentage s + 10\<rparr>
         else (if cur_percentage s = 0 then s\<lparr>cur_percentage := 10\<rparr> else s)\<lparr>animation_state := BAT_LVL_ANI_BLINK_OFF\<rparr>
     | BAT_LVL_ANI_BLINK_OFF \<Rightarrow> s\<lparr>time_interval := BAT_LEVEL_ON_INTERVAL, animation_state := BAT_LVL_ANI_BLINK_ON\<rparr>
     | BAT_LVL_ANI_BLINK_ON \<Rightarrow>
         let s = indicator_eeconfig_reload (s\<lparr>animation_state := BAT_LVL_ANI_NONE\<rparr>) in
         if ind_value (indicator_config s) = 0 \<and> \<not> led_matrix_is_enabled (leds s) then indicator_disable s else s
     | BAT_LVL_ANI_NONE \<Rightarrow> s)\<lparr>bat_lvl_ani_timer_buffer := ind_now e\<rparr>"

definition bat_level_animiation_task :: "ind_env \<Rightarrow> ind_st \<Rightarrow> ind_st" where
  "bat_level_animiation_task e s =
    (if bat_level_animiation_actived s \<and> time_interval s < ind_elapsed32 e (bat_lvl_ani_timer_buffer s)
     then bat_level_animiation_update e s else s)"

subsection \<open>What the indicators show\<close>

definition os_state_indicate :: "ind_env \<Rightarrow> ind_st \<Rightarrow> ind_st" where
  "os_state_indicate e s = (if ind_caps_lock e then set_led CAPS_LOCK_INDEX 0 s else s)"

definition host_indicate :: "ind_st \<Rightarrow> ind_st option" where
  "host_indicate s =
    (let host_index = ind_value (indicator_config s) AND 0x0F in
     Option.bind
       (if highlight (indicator_config s) then Some (set_all_leds_off s)
        else if last_host_index s \<noteq> host_index then
          map_option (\<lambda>i. (set_led i 0 s)\<lparr>last_host_index := host_index\<rparr>) (of_host HOST_LED_MATRIX_LIST (last_host_index s))
        else Some s)
       (\<lambda>s. map_option (\<lambda>i. set_led i (if ind_value (indicator_config s) AND 0x80 \<noteq> 0 then 255 else 0) s)
         (of_host HOST_LED_MATRIX_LIST host_index)))"

definition low_battery_indicate :: "ind_st \<Rightarrow> ind_st" where
  "low_battery_indicate s =
    (if bat_low_ind_state s \<noteq> 0 \<and> bat_low_ind_state s AND 0x0F \<le> LOW_BAT_LED_BLINK_TIMES
     then set_led LOW_BAT_IND_INDEX (if bat_low_ind_state s AND 0x80 \<noteq> 0 then 255 else 0) s else s)"

text \<open>The indicators of the user come first and let the others go on.\<close>

definition led_matrix_indicators_kb :: "ind_env \<Rightarrow> ind_st \<Rightarrow> ind_st option" where
  "led_matrix_indicators_kb e s =
    (let s = on_leds (led_do [Led_indicators_user]) s in
     if ind_transport e = TRANSPORT_BLUETOOTH then
       if ind_critical_low e then Some (set_all_leds_off s)
       else
         let s = (if ind_battery_empty e then set_all_leds_off s else s); s = low_battery_indicate s in
         Option.bind (if bat_level_animiation_actived s then bat_level_animiation_indicate s else Some s)
           (\<lambda>s. if ind_value (indicator_config s) \<noteq> 0 then host_indicate s else Some (os_state_indicate e s))
     else Some (os_state_indicate e s))"

definition led_matrix_none_indicators_kb :: "ind_env \<Rightarrow> ind_st \<Rightarrow> ind_st" where
  "led_matrix_none_indicators_kb = os_state_indicate"

subsection \<open>The state of the connection\<close>

definition map_ind :: "(indicator_config_t \<Rightarrow> indicator_config_t) \<Rightarrow> ind_st \<Rightarrow> ind_st" where
  "map_ind f s = s\<lparr>indicator_config := f (indicator_config s)\<rparr>"

definition low_nibble :: "ind_st \<Rightarrow> ind_st" where
  "low_nibble = map_ind (\<lambda>c. c\<lparr>ind_value := ind_value c AND 0x0F\<rparr>)"

text \<open>The end of a period: the next one is added to the elapsed time, unless the time is up.\<close>

definition next_phase :: "ind_st \<Rightarrow> bool \<times> ind_st" where
  "next_phase s =
    (let c = indicator_config s in
     if (duration c = 0 \<or> ind_elapsed c \<le> duration c) \<and> next_period s \<noteq> 0
     then (False, map_ind (\<lambda>c. c\<lparr>ind_elapsed := ind_elapsed c + ucast (next_period s)\<rparr>) s)
     else (True, s))"

definition indicator_phase :: "ind_st \<Rightarrow> bool \<times> ind_st" where
  "indicator_phase s =
    (let c = indicator_config s in
     case cb_type s of
       INDICATOR_NONE \<Rightarrow> (False, s)
     | INDICATOR_OFF \<Rightarrow> (True, s\<lparr>next_period := 0\<rparr>)
     | INDICATOR_ON \<Rightarrow>
         if ind_value c \<noteq> 0 then
           if ind_elapsed c = 0 then
             (False, map_ind (\<lambda>c. c\<lparr>ind_value := ind_value c OR LED_ON,
               ind_elapsed := (if duration c \<noteq> 0 then ind_elapsed c + duration c else ind_elapsed c)\<rparr>) s)
           else (True, s)
         else (False, s)
     | INDICATOR_ON_OFF \<Rightarrow>
         if ind_value c \<noteq> 0 then
           next_phase (if ind_elapsed c = 0
             then (map_ind (\<lambda>c. c\<lparr>ind_value := ind_value c OR LED_ON\<rparr>) s)\<lparr>next_period := ucast (on_time c)\<rparr>
             else (low_nibble s)\<lparr>next_period := ucast (duration c - on_time c)\<rparr>)
         else (False, s)
     | INDICATOR_BLINK \<Rightarrow>
         if ind_value c \<noteq> 0 then
           next_phase (if ind_value c AND LED_ON \<noteq> 0
             then (low_nibble s)\<lparr>next_period := ucast (off_time c)\<rparr>
             else (map_ind (\<lambda>c. c\<lparr>ind_value := ind_value c OR LED_ON\<rparr>) s)\<lparr>next_period := ucast (on_time c)\<rparr>)
         else (False, s)
     | INDICATOR_LAST \<Rightarrow> (True, s\<lparr>next_period := 0\<rparr>))"

definition host_pin_indicate :: "bool \<Rightarrow> ind_st \<Rightarrow> ind_st" where
  "host_pin_indicate time_up s =
    (let v = ind_value (indicator_config s); idx = (v AND 0x0F) - 1 in
     if v \<noteq> 0 \<and> unat idx < HOST_DEVICES_COUNT then s\<lparr>host_led_pin := v AND 0x80 \<noteq> 0 \<and> \<not> time_up\<rparr> else s)"

definition indicator_timer_cb :: "ind_env \<Rightarrow> indicator_type_t \<Rightarrow> ind_st \<Rightarrow> ind_st option" where
  "indicator_timer_cb e arg s =
    (let s = (if arg \<noteq> INDICATOR_LAST then s\<lparr>cb_type := arg\<rparr> else s);
         (time_up, s) = indicator_phase s;
         s = host_pin_indicate time_up s in
     map_option (\<lambda>s.
         if ind_value (indicator_config s) = 0 then
           let s = indicator_eeconfig_reload s in if \<not> led_matrix_is_enabled (leds s) then indicator_disable s else s
         else s)
       (if time_up then map_option (map_ind (\<lambda>c. c\<lparr>ind_value := 0\<rparr>)) (led_matrix_indicators_kb e (low_nibble s)) else Some s))"

definition set_config_for :: "indicator_config_t \<Rightarrow> u8 \<Rightarrow> ind_st \<Rightarrow> ind_st" where
  "set_config_for c v s = s\<lparr>indicator_config := c\<lparr>ind_value := (if ind_type c = INDICATOR_NONE then 0 else v)\<rparr>\<rparr>"

definition start_indicator :: "ind_env \<Rightarrow> indicator_config_t \<Rightarrow> u8 \<Rightarrow> ind_st \<Rightarrow> ind_st option" where
  "start_indicator e c v s = indicator_timer_cb e (ind_type c) (set_config_for c v s)"

definition disconnected_timeout :: u32 where
  "disconnected_timeout = DISCONNECTED_BACKLIGHT_DISABLE_TIMEOUT * 1000"

definition connected_timeout :: u32 where
  "connected_timeout = CONNECTED_BACKLIGHT_DISABLE_TIMEOUT * 1000"

definition set_decided_timeout :: "u32 \<Rightarrow> ind_st \<Rightarrow> ind_st" where
  "set_decided_timeout t s = indicator_set_backlit_timeout (DECIDE_TIME t (duration (indicator_config s))) s"

definition indicator_set_state :: "ind_env \<Rightarrow> bluetooth_state_t \<Rightarrow> u8 \<Rightarrow> ind_st \<Rightarrow> ind_st option" where
  "indicator_set_state e state host s =
    (case state of
       BLUETOOTH_DISCONNECTED \<Rightarrow>
         Option.bind (of_host HOST_LED_PIN_LIST host) (\<lambda>_.
           map_option (\<lambda>s. if ind_critical_low e then indicator_set_backlit_timeout 1000 s else set_decided_timeout disconnected_timeout s)
             (start_indicator e disconnected_config host (s\<lparr>host_led_pin := False\<rparr>)))
     | BLUETOOTH_CONNECTED \<Rightarrow>
         map_option (set_decided_timeout connected_timeout)
           (if indicator_state s \<noteq> BLUETOOTH_CONNECTED then start_indicator e connected_config host s else Some s)
     | BLUETOOTH_PARING \<Rightarrow> map_option (set_decided_timeout disconnected_timeout) (start_indicator e pairing_config (LED_ON OR host) s)
     | BLUETOOTH_RECONNECTING \<Rightarrow>
         map_option (set_decided_timeout disconnected_timeout) (start_indicator e reconnecting_config (LED_ON OR host) s)
     | BLUETOOTH_SUSPEND \<Rightarrow> map_option (indicator_set_backlit_timeout 100) (start_indicator e disconnected_config host s)
     | _ \<Rightarrow> Some s)"

definition indicator_set :: "ind_env \<Rightarrow> bluetooth_state_t \<Rightarrow> u8 \<Rightarrow> ind_st \<Rightarrow> ind_st option" where
  "indicator_set e state host s =
    (if ind_transport e \<noteq> TRANSPORT_BLUETOOTH then Some s
     else let host_index_changed = (set_host s \<noteq> host \<and> state \<noteq> BLUETOOTH_DISCONNECTED);
              s = (if host_index_changed then s\<lparr>set_host := host\<rparr> else s) in
       if set_state s \<noteq> state \<or> host_index_changed then
         let s = indicator_reset_backlit_time (indicator_enable (s\<lparr>set_state := state, indicator_timer_buffer := ind_now e\<rparr>)) in
         map_option (\<lambda>s. s\<lparr>indicator_state := state\<rparr>) (indicator_set_state e state host s)
       else Some s)"

definition indicator_stop :: "ind_st \<Rightarrow> ind_st" where
  "indicator_stop s =
    (let s = indicator_eeconfig_reload (map_ind (\<lambda>c. c\<lparr>ind_value := 0\<rparr>) s) in
     if led_matrix_is_enabled (leds s) then indicator_enable s else indicator_disable s)"

subsection \<open>Low battery\<close>

definition indicator_battery_low_enable :: "ind_env \<Rightarrow> bool \<Rightarrow> ind_st \<Rightarrow> ind_st" where
  "indicator_battery_low_enable e enable s =
    (if enable then
       if bat_low_blink_duration s = 0 then s\<lparr>bat_low_blink_duration := ind_now e OR 1, bat_low_pin_indicator := ind_now e OR 1\<rparr>
       else s\<lparr>bat_low_blink_duration := ind_now e OR 1\<rparr>
     else s\<lparr>bat_low_led_pin := False\<rparr>)"

definition nonzero_now :: "ind_env \<Rightarrow> u32" where
  "nonzero_now e = (if ind_now e = 0 then 1 else ind_now e)"

definition indicator_battery_low_backlit_enable :: "ind_env \<Rightarrow> bool \<Rightarrow> ind_st \<Rightarrow> ind_st" where
  "indicator_battery_low_backlit_enable e enable s =
    (if enable then
       let t = ind_rtc_ms e;
           s = (if rtc_time s > t then if bat_low_ind_state s = 0 then s\<lparr>rtc_time := t\<rparr> else s\<lparr>rtc_time := rtc_time s + t\<rparr> else s) in
       if (rtc_time s = 0 \<or> t - rtc_time s > LOW_BAT_LED_TRIG_INTERVAL) \<and> bat_low_ind_state s = 0
       then indicator_enable (s\<lparr>bat_low_backlit_indicator := nonzero_now e, rtc_time := t, bat_low_ind_state := 1\<rparr>)
       else s
     else
       let s = indicator_eeconfig_reload (s\<lparr>rtc_time := 0, bat_low_ind_state := 0\<rparr>) in
       if \<not> led_matrix_is_enabled (leds s) then indicator_disable s else s)"

definition low_pin_task :: "ind_env \<Rightarrow> ind_st \<Rightarrow> ind_st" where
  "low_pin_task e s =
    (if bat_low_pin_indicator s \<noteq> 0 \<and> ind_elapsed32 e (bat_low_pin_indicator s) > LOW_BAT_LED_BLINK_PERIOD then
       let s = s\<lparr>bat_low_led_pin := \<not> bat_low_led_pin s, bat_low_pin_indicator := ind_now e OR 1\<rparr> in
       if ind_elapsed32 e (bat_low_blink_duration s) > LOW_BAT_LED_BLINK_DURATION \<and> \<not> bat_low_led_pin s
       then s\<lparr>bat_low_blink_duration := 0, bat_low_pin_indicator := 0\<rparr> else s
     else s)"

definition low_backlit_task :: "ind_env \<Rightarrow> ind_st \<Rightarrow> ind_st" where
  "low_backlit_task e s =
    (if bat_low_ind_state s \<noteq> 0 then
       if bat_low_ind_state s AND 0x0F \<le> LOW_BAT_LED_BLINK_TIMES \<and> ind_elapsed32 e (bat_low_backlit_indicator s) > LOW_BAT_LED_BLINK_PERIOD then
         let v = bat_low_ind_state s;
             s = s\<lparr>bat_low_ind_state := (if v AND 0x80 \<noteq> 0 then (v AND 0x7F) + 1 else v OR 0x80),
               bat_low_backlit_indicator := nonzero_now e\<rparr> in
         if bat_low_ind_state s AND 0x0F > LOW_BAT_LED_BLINK_TIMES \<and> ind_allow_shutdown e then indicator_disable s else s
       else if bat_low_ind_state s AND 0x0F > LOW_BAT_LED_BLINK_TIMES then s\<lparr>bat_low_ind_state := 0\<rparr>
       else s
     else s)"

definition indicator_battery_low :: "ind_env \<Rightarrow> ind_st \<Rightarrow> ind_st" where
  "indicator_battery_low e s = low_backlit_task e (low_pin_task e s)"

definition indicator_task :: "ind_env \<Rightarrow> ind_st \<Rightarrow> ind_st option" where
  "indicator_task e s =
    (let s = bat_level_animiation_task e s in
     map_option (indicator_battery_low e)
       (if ind_value (indicator_config s) \<noteq> 0 \<and> ucast (next_period s) \<le> ind_elapsed32 e (indicator_timer_buffer s)
        then map_option (\<lambda>s. s\<lparr>indicator_timer_buffer := ind_now e\<rparr>) (indicator_timer_cb e (cb_type s) s)
        else Some s))"

subsection \<open>Start and host LEDs\<close>

definition indicator_init :: "ind_st \<Rightarrow> ind_st" where
  "indicator_init s =
    s\<lparr>indicator_config := \<lparr>ind_type = INDICATOR_NONE, on_time = 0, off_time = 0, duration = 0, highlight = False, ind_value = 0,
        ind_elapsed = 0\<rparr>, host_led_pin := False, bat_low_led_pin := False\<rparr>"

text \<open>\<open>user_handles\<close> is the result of \<^verbatim>\<open>led_update_user\<close>; the write to the pin of the caps lock LED is left out.\<close>

definition led_update_kb :: "ind_env \<Rightarrow> bool \<Rightarrow> ind_st \<Rightarrow> bool \<times> ind_st" where
  "led_update_kb e user_handles s =
    (user_handles,
     if user_handles \<and> \<not> led_matrix_is_enabled (leds s) then
       let s = on_leds (led_do [Led_exit_shutdown]) s; s = os_state_indicate e (set_all_leds_off s); s = on_leds (led_do [Led_flush]) s
       in if ind_allow_shutdown e then on_leds (led_do [Led_shutdown]) s else s
     else s)"

definition initial_indicator :: "led_st \<Rightarrow> ind_st" where
  "initial_indicator l = indicator_init
    \<lparr>leds = l, indicator_config = disconnected_config, indicator_state = BLUETOOTH_RESET, next_period = 0, cb_type = INDICATOR_NONE,
     indicator_timer_buffer = 0, bat_low_pin_indicator = 0, bat_low_blink_duration = 0, bat_low_backlit_indicator = 0,
     bat_low_ind_state = 0, rtc_time = 0, set_state = BLUETOOTH_RESET, set_host = 0, last_host_index = 0xFF,
     animation_state = BAT_LVL_ANI_NONE, bat_lvl_ani_timer_buffer = 0, bat_percentage = 0, cur_percentage = 0, time_interval = 0,
     host_led_pin = False, bat_low_led_pin = False\<rparr>"

subsection \<open>No access outside of the tables\<close>

definition host_values :: "u8 set" where
  "host_values = {1, 2, 3, 0x81, 0x82, 0x83}"

definition ind_ok :: "ind_st \<Rightarrow> bool" where
  "ind_ok s \<longleftrightarrow> (ind_value (indicator_config s) \<noteq> 0 \<longrightarrow> ind_value (indicator_config s) \<in> host_values \<and> highlight (indicator_config s)) \<and>
    bat_percentage s \<le> 100 \<and> cur_percentage s < 110"

text \<open>The fields the invariant is about.\<close>

definition same_view :: "ind_st \<Rightarrow> ind_st \<Rightarrow> bool" where
  "same_view s s' \<longleftrightarrow> indicator_config s' = indicator_config s \<and> bat_percentage s' = bat_percentage s \<and>
    cur_percentage s' = cur_percentage s \<and> animation_state s' = animation_state s"

lemma same_view_ok: "same_view s s' \<Longrightarrow> ind_ok s' = ind_ok s"
  by (simp add: same_view_def ind_ok_def)

lemma same_view_refl [simp]: "same_view s s"
  by (simp add: same_view_def)

lemma on_leds_view [simp]: "same_view s (on_leds f s') = same_view s s'"
  by (simp add: same_view_def on_leds_def)

lemmas on_leds_ops = indicator_enable_def indicator_disable_def indicator_set_backlit_timeout_def indicator_reset_backlit_time_def
  indicator_eeconfig_reload_def set_led_def set_all_leds_off_def

lemma on_leds_ops_view [simp]:
  "same_view s (indicator_enable s') = same_view s s'" "same_view s (indicator_disable s') = same_view s s'"
  "same_view s (indicator_set_backlit_timeout t s') = same_view s s'" "same_view s (indicator_reset_backlit_time s') = same_view s s'"
  "same_view s (indicator_eeconfig_reload s') = same_view s s'" "same_view s (set_led i v s') = same_view s s'"
  "same_view s (set_all_leds_off s') = same_view s s'" "same_view s (os_state_indicate e s') = same_view s s'"
  "same_view s (low_battery_indicate s') = same_view s s'"
  by (simp_all add: on_leds_ops os_state_indicate_def low_battery_indicate_def)

lemma host_values_index:
  assumes "v \<in> host_values"
  shows "of_host HOST_LED_MATRIX_LIST (v AND 0x0F) \<noteq> None" "v AND 0x0F \<in> host_values" "v OR LED_ON \<in> host_values" "v \<noteq> 0"
    "v AND 0x0F \<noteq> 0" "v OR LED_ON \<noteq> 0"
  using assms by (auto simp: host_values_def of_host_def HOST_LED_MATRIX_LIST_def LED_ON_def)

lemma animation_safe:
  assumes "ind_ok s"
  shows "\<exists>s'. bat_level_animiation_indicate s = Some s' \<and> same_view s s'"
proof -
  have "unat (cur_percentage s) < 11 * 10" using assms by (simp add: ind_ok_def word_less_nat_alt)
  then have "unat (cur_percentage s) div 10 < 11" by (rule less_mult_imp_div_less)
  then have "unat (cur_percentage s div 10) \<le> 10" by (simp add: unat_div)
  then show ?thesis by (auto simp: bat_level_animiation_indicate_def BAT_LEVEL_LED_LIST_def Let_def) (simp_all add: on_leds_def same_view_def)
qed

lemma host_indicate_safe:
  assumes "ind_ok s" "ind_value (indicator_config s) \<noteq> 0"
  shows "\<exists>s'. host_indicate s = Some s' \<and> same_view s s'"
proof -
  have v: "ind_value (indicator_config s) \<in> host_values" "highlight (indicator_config s)" using assms by (simp_all add: ind_ok_def)
  then obtain i where i: "of_host HOST_LED_MATRIX_LIST (ind_value (indicator_config s) AND 0x0F) = Some i"
    using host_values_index(1) by blast
  have c: "indicator_config (set_all_leds_off s) = indicator_config s" by (simp add: set_all_leds_off_def on_leds_def)
  show ?thesis using v(2) i by (simp add: host_indicate_def c)
qed

lemma indicators_kb_safe:
  assumes "ind_ok s"
  shows "\<exists>s'. led_matrix_indicators_kb e s = Some s' \<and> same_view s s'"
proof -
  have anim: "\<exists>s'. (if bat_level_animiation_actived t then bat_level_animiation_indicate t else Some t) = Some s' \<and> same_view s s'"
    if "same_view s t" for t
    using animation_safe [of t] same_view_ok [OF that] assms that by (auto simp: same_view_def)
  have rest: "\<exists>s'. (if ind_value (indicator_config t) \<noteq> 0 then host_indicate t else Some (os_state_indicate e t)) = Some s' \<and> same_view s s'"
    if "same_view s t" for t
    using host_indicate_safe [of t] same_view_ok [OF that] assms that
    by (auto simp: same_view_def [of s t] same_view_def [of t]) (auto simp: same_view_def os_state_indicate_def set_led_def on_leds_def)
  let ?t = "low_battery_indicate (if ind_battery_empty e then set_all_leds_off (on_leds (led_do [Led_indicators_user]) s)
    else on_leds (led_do [Led_indicators_user]) s)"
  have "same_view s ?t" by simp
  from anim [OF this] rest show ?thesis by (auto simp: led_matrix_indicators_kb_def Let_def)
qed

lemma ind_ok_simps [simp]:
  "ind_ok (on_leds f s) = ind_ok s" "ind_ok (indicator_enable s) = ind_ok s" "ind_ok (indicator_disable s) = ind_ok s"
  "ind_ok (indicator_set_backlit_timeout t s) = ind_ok s" "ind_ok (indicator_reset_backlit_time s) = ind_ok s"
  "ind_ok (indicator_eeconfig_reload s) = ind_ok s" "ind_ok (set_decided_timeout t s) = ind_ok s"
  "ind_ok (s\<lparr>host_led_pin := b\<rparr>) = ind_ok s" "ind_ok (s\<lparr>cb_type := ty\<rparr>) = ind_ok s" "ind_ok (s\<lparr>next_period := p\<rparr>) = ind_ok s"
  "ind_ok (s\<lparr>set_host := h\<rparr>) = ind_ok s" "ind_ok (s\<lparr>set_state := st\<rparr>) = ind_ok s"
  "ind_ok (s\<lparr>indicator_state := st\<rparr>) = ind_ok s" "ind_ok (s\<lparr>indicator_timer_buffer := t\<rparr>) = ind_ok s"
  by (simp_all add: on_leds_ops set_decided_timeout_def) (simp_all add: ind_ok_def on_leds_def)

lemma next_phase_ok: "ind_ok s \<Longrightarrow> ind_ok (snd (next_phase s))"
  by (simp add: next_phase_def map_ind_def ind_ok_def Let_def)

lemma phase_ok:
  assumes "ind_ok s"
  shows "ind_ok (snd (indicator_phase s))"
proof -
  let ?c = "indicator_config s"
  have lit: "ind_ok (map_ind (\<lambda>c. c\<lparr>ind_value := ind_value c OR LED_ON, ind_elapsed := t c\<rparr>) s)"
    "ind_ok ((map_ind (\<lambda>c. c\<lparr>ind_value := ind_value c OR LED_ON\<rparr>) s)\<lparr>next_period := p\<rparr>)"
    "ind_ok ((low_nibble s)\<lparr>next_period := p\<rparr>)" if "ind_value ?c \<noteq> 0" for t p
    using assms that host_values_index(2,3) by (auto simp: ind_ok_def map_ind_def low_nibble_def)
  show ?thesis using assms lit
    by (cases "cb_type s") (auto simp: indicator_phase_def Let_def intro!: next_phase_ok)
qed

lemma timer_cb_ok:
  assumes "ind_ok s"
  shows "\<exists>s'. indicator_timer_cb e arg s = Some s' \<and> ind_ok s'"
proof -
  let ?s = "if arg \<noteq> INDICATOR_LAST then s\<lparr>cb_type := arg\<rparr> else s"
  have "ind_ok ?s" using assms by (simp add: ind_ok_def)
  obtain time_up t where p: "indicator_phase ?s = (time_up, t)" by force
  have t: "ind_ok (host_pin_indicate time_up t)" using phase_ok [OF \<open>ind_ok ?s\<close>] p
    by (simp add: host_pin_indicate_def Let_def ind_ok_def)
  let ?t = "host_pin_indicate time_up t"
  have low: "ind_ok (low_nibble ?t)" using t host_values_index(2) by (auto simp: ind_ok_def low_nibble_def map_ind_def)
  obtain u where u: "(if time_up then map_option (map_ind (\<lambda>c. c\<lparr>ind_value := 0\<rparr>)) (led_matrix_indicators_kb e (low_nibble ?t)) else Some ?t) = Some u"
    "ind_ok u"
  proof (cases time_up)
    case True
    obtain v where v: "led_matrix_indicators_kb e (low_nibble ?t) = Some v" "same_view (low_nibble ?t) v"
      using indicators_kb_safe [OF low] by blast
    then have "ind_ok (map_ind (\<lambda>c. c\<lparr>ind_value := 0\<rparr>) v)" using same_view_ok [OF v(2)] low by (simp add: ind_ok_def map_ind_def)
    then show ?thesis using True v(1) that by simp
  qed (use t that in simp)
  let ?r = "if ind_value (indicator_config u) = 0
    then if \<not> led_matrix_is_enabled (leds (indicator_eeconfig_reload u)) then indicator_disable (indicator_eeconfig_reload u)
      else indicator_eeconfig_reload u else u"
  have "indicator_timer_cb e arg s = Some ?r" unfolding indicator_timer_cb_def Let_def p using u(1) by simp
  moreover have "ind_ok ?r" using u(2) by simp
  ultimately show ?thesis by blast
qed

lemma host_set_ok:
  assumes "ind_ok s" "host \<in> {1, 2, 3}"
  shows "\<exists>s'. indicator_set e state host s = Some s' \<and> ind_ok s'"
proof -
  have v: "host \<in> host_values" "LED_ON OR host \<in> host_values" "of_host HOST_LED_PIN_LIST host \<noteq> None"
    using assms(2) by (auto simp: host_values_def LED_ON_def of_host_def HOST_LED_PIN_LIST_def)
  have start: "\<exists>s'. start_indicator e c w t = Some s' \<and> ind_ok s'"
    if "ind_ok t" "ind_type c = INDICATOR_NONE \<or> w \<in> host_values \<and> highlight c" for t c w
  proof -
    have "ind_ok (set_config_for c w t)" using that by (auto simp: ind_ok_def set_config_for_def)
    then show ?thesis unfolding start_indicator_def by (rule timer_cb_ok)
  qed
  have "\<exists>s'. indicator_set_state e state host t = Some s' \<and> ind_ok s'" if "ind_ok t" for t
  proof (cases state)
    case BLUETOOTH_DISCONNECTED
    then show ?thesis using start [of "t\<lparr>host_led_pin := False\<rparr>" disconnected_config host] that v(3)
      by (auto simp: indicator_set_state_def disconnected_config_def)
  next
    case BLUETOOTH_CONNECTED
    then show ?thesis using start [OF that, of connected_config host] that v(1)
      by (auto simp: indicator_set_state_def connected_config_def)
  next
    case BLUETOOTH_PARING
    then show ?thesis using start [OF that, of pairing_config "LED_ON OR host"] v(2)
      by (auto simp: indicator_set_state_def pairing_config_def)
  next
    case BLUETOOTH_RECONNECTING
    then show ?thesis using start [OF that, of reconnecting_config "LED_ON OR host"] v(2)
      by (auto simp: indicator_set_state_def reconnecting_config_def)
  next
    case BLUETOOTH_SUSPEND
    then show ?thesis using start [OF that, of disconnected_config host]
      by (auto simp: indicator_set_state_def disconnected_config_def)
  qed (use that in \<open>simp_all add: indicator_set_state_def\<close>)
  note set = this
  define t where "t = (if set_host s \<noteq> host \<and> state \<noteq> BLUETOOTH_DISCONNECTED then s\<lparr>set_host := host\<rparr> else s)"
  have "ind_ok t" using assms(1) by (simp add: t_def)
  then have "ind_ok (indicator_reset_backlit_time (indicator_enable (t\<lparr>set_state := state, indicator_timer_buffer := ind_now e\<rparr>)))" by simp
  from set [OF this] obtain u where u: "indicator_set_state e state host
      (indicator_reset_backlit_time (indicator_enable (t\<lparr>set_state := state, indicator_timer_buffer := ind_now e\<rparr>))) = Some u" "ind_ok u" by blast
  show ?thesis using u \<open>ind_ok t\<close> assms(1) by (auto simp: indicator_set_def Let_def t_def [symmetric])
qed

lemma animation_task_ok:
  assumes "ind_ok s"
  shows "ind_ok (bat_level_animiation_task e s)"
proof -
  have up: "cur_percentage s + 10 < 110" if "cur_percentage s < bat_percentage s"
    using that assms by (simp add: ind_ok_def word_less_nat_alt word_le_nat_alt unat_word_ariths)
  have fields: "ind_ok (t\<lparr>bat_lvl_ani_timer_buffer := x\<rparr>) = ind_ok t" "ind_ok (t\<lparr>animation_state := a\<rparr>) = ind_ok t"
    "ind_ok (t\<lparr>time_interval := x\<rparr>) = ind_ok t" for t x a
    by (simp_all add: ind_ok_def)
  have "ind_ok (s\<lparr>cur_percentage := cur_percentage s + 10\<rparr>)" if "cur_percentage s < bat_percentage s"
    using up [OF that] assms by (simp add: ind_ok_def)
  moreover have "ind_ok (s\<lparr>cur_percentage := 10\<rparr>)" using assms by (simp add: ind_ok_def)
  ultimately have "ind_ok (bat_level_animiation_update e s)" using assms
    by (cases "animation_state s") (simp_all add: bat_level_animiation_update_def Let_def fields)
  then show ?thesis using assms by (simp add: bat_level_animiation_task_def)
qed

lemma low_battery_ok: "ind_ok s \<Longrightarrow> ind_ok (indicator_battery_low e s)"
proof -
  have fields: "ind_ok (t\<lparr>bat_low_led_pin := b\<rparr>) = ind_ok t" "ind_ok (t\<lparr>bat_low_pin_indicator := x\<rparr>) = ind_ok t"
    "ind_ok (t\<lparr>bat_low_blink_duration := x\<rparr>) = ind_ok t" "ind_ok (t\<lparr>bat_low_ind_state := v\<rparr>) = ind_ok t"
    "ind_ok (t\<lparr>bat_low_backlit_indicator := x\<rparr>) = ind_ok t" for t b x v
    by (simp_all add: ind_ok_def)
  show "ind_ok s \<Longrightarrow> ind_ok (indicator_battery_low e s)"
    by (simp add: indicator_battery_low_def low_backlit_task_def low_pin_task_def Let_def fields)
qed

lemma indicator_task_ok:
  assumes "ind_ok s"
  shows "\<exists>s'. indicator_task e s = Some s' \<and> ind_ok s'"
proof -
  let ?s = "bat_level_animiation_task e s"
  have ok: "ind_ok ?s" using animation_task_ok [OF assms] .
  obtain u where u: "indicator_timer_cb e (cb_type ?s) ?s = Some u" "ind_ok u" using timer_cb_ok [OF ok] by blast
  then have "ind_ok (u\<lparr>indicator_timer_buffer := ind_now e\<rparr>)" by simp
  then show ?thesis using u low_battery_ok ok by (auto simp: indicator_task_def Let_def)
qed

datatype ind_op =
    Ind_task ind_env | Ind_set ind_env bluetooth_state_t u8 | Ind_stop | Ind_low ind_env bool | Ind_low_backlit ind_env bool
  | Ind_animation ind_env u8 | Ind_animation_stop | Ind_frame ind_env | Ind_host_leds ind_env bool | Ind_matrix "led_st \<Rightarrow> led_st"

fun do_ind_op :: "ind_op \<Rightarrow> ind_st \<Rightarrow> ind_st option" where
  "do_ind_op (Ind_task e) s = indicator_task e s"
| "do_ind_op (Ind_set e state host) s = indicator_set e state host s"
| "do_ind_op Ind_stop s = Some (indicator_stop s)"
| "do_ind_op (Ind_low e b) s = Some (indicator_battery_low_enable e b s)"
| "do_ind_op (Ind_low_backlit e b) s = Some (indicator_battery_low_backlit_enable e b s)"
| "do_ind_op (Ind_animation e p) s = Some (bat_level_animiation_start e p s)"
| "do_ind_op Ind_animation_stop s = Some (bat_level_animiation_stop s)"
| "do_ind_op (Ind_frame e) s = led_matrix_indicators_kb e s"
| "do_ind_op (Ind_host_leds e b) s = Some (snd (led_update_kb e b s))"
| "do_ind_op (Ind_matrix f) s = Some (on_leds f s)"

fun ind_ops :: "ind_op list \<Rightarrow> ind_st \<Rightarrow> ind_st option" where
  "ind_ops [] s = Some s"
| "ind_ops (x # xs) s = Option.bind (do_ind_op x s) (ind_ops xs)"

text \<open>The module names one of the three hosts, and the battery level is a percentage.\<close>

fun op_valid :: "ind_op \<Rightarrow> bool" where
  "op_valid (Ind_set e state host) \<longleftrightarrow> host \<in> {1, 2, 3}"
| "op_valid (Ind_animation e p) \<longleftrightarrow> p \<le> 100"
| "op_valid _ \<longleftrightarrow> True"

lemma op_ok:
  assumes "ind_ok s" "op_valid x"
  shows "\<exists>s'. do_ind_op x s = Some s' \<and> ind_ok s'"
proof (cases x)
  case (Ind_task e)
  then show ?thesis using indicator_task_ok [OF assms(1)] by simp
next
  case (Ind_set e state host)
  then show ?thesis using host_set_ok [OF assms(1)] assms(2) by simp
next
  case Ind_stop
  have "ind_ok (map_ind (\<lambda>c. c\<lparr>ind_value := 0\<rparr>) s)" using assms(1) by (simp add: ind_ok_def map_ind_def)
  then show ?thesis using Ind_stop by (simp add: indicator_stop_def Let_def)
next
  case (Ind_low e b)
  then show ?thesis using assms(1) by (simp add: indicator_battery_low_enable_def ind_ok_def)
next
  case (Ind_low_backlit e b)
  have fields: "ind_ok (t\<lparr>rtc_time := x\<rparr>) = ind_ok t" "ind_ok (t\<lparr>bat_low_ind_state := v\<rparr>) = ind_ok t"
    "ind_ok (t\<lparr>bat_low_backlit_indicator := x\<rparr>) = ind_ok t" for t x v
    by (simp_all add: ind_ok_def)
  show ?thesis using assms(1) by (simp add: Ind_low_backlit indicator_battery_low_backlit_enable_def Let_def fields)
next
  case (Ind_animation e p)
  then have "ind_ok (bat_level_animiation_start e p s)" using assms same_view_ok [of s "indicator_enable s"]
    by (simp add: bat_level_animiation_start_def ind_ok_def same_view_def indicator_enable_def on_leds_def)
  then show ?thesis using Ind_animation by simp
next
  case Ind_animation_stop
  then show ?thesis using assms(1) by (simp add: bat_level_animiation_stop_def ind_ok_def)
next
  case (Ind_frame e)
  then show ?thesis using indicators_kb_safe [OF assms(1), of e] same_view_ok assms(1) by auto
next
  case (Ind_host_leds e b)
  then show ?thesis using assms(1) by (simp add: led_update_kb_def Let_def os_state_indicate_def set_led_def set_all_leds_off_def)
next
  case (Ind_matrix f)
  then show ?thesis using assms(1) by simp
qed

text \<open>C29: the indicators never read outside of their tables: after any sequence of operations, for hosts 1 to 3 and battery
  levels up to 100, every operation has a result, and the animation stays within its ten LEDs.\<close>

theorem indicators_stay_in_tables:
  assumes "ind_ok s" "\<forall>x \<in> set xs. op_valid x"
  shows "\<exists>s'. ind_ops xs s = Some s' \<and> ind_ok s'"
  using assms
proof (induction xs arbitrary: s)
  case Nil
  then show ?case by simp
next
  case (Cons x xs)
  obtain t where "do_ind_op x s = Some t" "ind_ok t" using op_ok [OF Cons.prems(1), of x] Cons.prems(2) by auto
  then show ?case using Cons.IH [of t] Cons.prems(2) by simp
qed

lemma initial_indicator_ok: "ind_ok (initial_indicator l)"
  by (simp add: initial_indicator_def indicator_init_def ind_ok_def)

definition ind_at :: "u32 \<Rightarrow> ind_env" where
  "ind_at t = \<lparr>ind_now = t, ind_rtc_ms = t, ind_transport = TRANSPORT_BLUETOOTH, ind_critical_low = False, ind_battery_empty = False,
    ind_caps_lock = False, ind_allow_shutdown = True\<rparr>"

theorem indicators_stay_in_tables_witness:
  "\<exists>s'. ind_ops [Ind_set (ind_at 5) BLUETOOTH_RECONNECTING 2, Ind_frame (ind_at 6), Ind_animation (ind_at 7) 100, Ind_task (ind_at 200)]
    (initial_indicator (initial_led small_layout default_led_config)) = Some s' \<and> ind_ok s'"
  by (rule indicators_stay_in_tables) (simp_all add: initial_indicator_ok)

subsection \<open>An indicator goes out\<close>

fun ind_tasks :: "ind_env list \<Rightarrow> ind_st \<Rightarrow> ind_st option" where
  "ind_tasks [] s = Some s"
| "ind_tasks (e # es) s = Option.bind (indicator_task e s) (ind_tasks es)"

fun spaced :: "u32 \<Rightarrow> ind_env list \<Rightarrow> bool" where
  "spaced t [] \<longleftrightarrow> True"
| "spaced t (e # es) \<longleftrightarrow> 2000 \<le> TIMER_DIFF_32 (ind_now e) t \<and> spaced (ind_now e) es"

definition same_timer :: "ind_st \<Rightarrow> ind_st \<Rightarrow> bool" where
  "same_timer s s' \<longleftrightarrow> indicator_config s' = indicator_config s \<and> cb_type s' = cb_type s \<and> next_period s' = next_period s \<and>
    indicator_timer_buffer s' = indicator_timer_buffer s"

lemma on_leds_timer [simp]:
  "same_timer s s" "same_timer s (on_leds f s') = same_timer s s'" "same_timer s (indicator_disable s') = same_timer s s'"
  "same_timer s (indicator_eeconfig_reload s') = same_timer s s'" "same_timer s (set_led i v s') = same_timer s s'"
  "same_timer s (set_all_leds_off s') = same_timer s s'" "same_timer s (os_state_indicate e s') = same_timer s s'"
  "same_timer s (indicator_set_backlit_timeout t s') = same_timer s s'" "same_timer s (set_decided_timeout t s') = same_timer s s'"
  by (simp_all add: on_leds_ops os_state_indicate_def set_decided_timeout_def) (simp_all add: same_timer_def on_leds_def)

lemma task_parts_timer:
  "same_timer s (bat_level_animiation_task e s)" "same_timer s (indicator_battery_low e s)"
proof -
  have r: "same_timer s (indicator_eeconfig_reload (s\<lparr>animation_state := a\<rparr>))" for a
    by (simp add: same_timer_def indicator_eeconfig_reload_def on_leds_def)
  have u: "same_timer s (t\<lparr>bat_lvl_ani_timer_buffer := x\<rparr>) = same_timer s t" for t x by (simp add: same_timer_def)
  have f: "same_timer s (t\<lparr>time_interval := x, animation_state := a\<rparr>) = same_timer s t" "same_timer s (t\<lparr>cur_percentage := v\<rparr>) = same_timer s t"
    "same_timer s (t\<lparr>animation_state := a\<rparr>) = same_timer s t" for t x a v by (simp_all add: same_timer_def)
  have "same_timer s (bat_level_animiation_update e s)" using r
    by (cases "animation_state s") (simp_all add: bat_level_animiation_update_def Let_def u f, simp_all add: same_timer_def)
  then show "same_timer s (bat_level_animiation_task e s)" by (simp add: bat_level_animiation_task_def)
  have l: "same_timer s (t\<lparr>bat_low_led_pin := b\<rparr>) = same_timer s t" "same_timer s (t\<lparr>bat_low_pin_indicator := x\<rparr>) = same_timer s t"
    "same_timer s (t\<lparr>bat_low_blink_duration := x\<rparr>) = same_timer s t" "same_timer s (t\<lparr>bat_low_ind_state := v\<rparr>) = same_timer s t"
    "same_timer s (t\<lparr>bat_low_backlit_indicator := x\<rparr>) = same_timer s t" for t b x v by (simp_all add: same_timer_def)
  show "same_timer s (indicator_battery_low e s)"
    by (simp add: indicator_battery_low_def low_backlit_task_def low_pin_task_def Let_def l)
qed

text \<open>A call whose time is up ends the indicator; the other calls pass on what the phase gave.\<close>

lemma timer_cb_phase:
  assumes "ind_ok s" "arg \<noteq> INDICATOR_LAST" "indicator_phase (s\<lparr>cb_type := arg\<rparr>) = (up, t)"
  shows "\<exists>s'. indicator_timer_cb e arg s = Some s' \<and> ind_ok s' \<and>
    (up \<longrightarrow> ind_value (indicator_config s') = 0) \<and> (\<not> up \<longrightarrow> same_timer t s')"
proof -
  have t: "ind_ok (host_pin_indicate up t)" using phase_ok [of "s\<lparr>cb_type := arg\<rparr>"] assms(1,3)
    by (simp add: host_pin_indicate_def Let_def)
  have st: "same_timer t (host_pin_indicate up t)" by (simp add: host_pin_indicate_def Let_def same_timer_def)
  let ?t = "host_pin_indicate up t"
  have low: "ind_ok (low_nibble ?t)" using t host_values_index(2) by (auto simp: ind_ok_def low_nibble_def map_ind_def)
  obtain v where v: "led_matrix_indicators_kb e (low_nibble ?t) = Some v" using indicators_kb_safe [OF low] by blast
  obtain s' where s': "indicator_timer_cb e arg s = Some s'" "ind_ok s'" using timer_cb_ok [OF assms(1)] by blast
  show ?thesis
  proof (cases up)
    case True
    then have "ind_value (indicator_config s') = 0" using s'(1) assms(2,3) v
      unfolding indicator_timer_cb_def Let_def [of "if arg \<noteq> _ then _ else _"] by (auto simp: map_ind_def Let_def on_leds_ops on_leds_def)
    then show ?thesis using s' True by simp
  next
    case False
    then have "same_timer t s'" using s'(1) assms(2,3) st
      unfolding indicator_timer_cb_def Let_def [of "if arg \<noteq> _ then _ else _"] by (auto simp: Let_def)
    then show ?thesis using s' False by simp
  qed
qed

text \<open>At most \<open>n\<close> more periods, the last one having started at \<open>t\<close>.\<close>

definition periods_left :: "u32 \<Rightarrow> nat \<Rightarrow> ind_st \<Rightarrow> bool" where
  "periods_left t n s \<longleftrightarrow> (let c = indicator_config s in
     ind_value c = 0 \<or> indicator_timer_buffer s = t \<and>
       (cb_type s = INDICATOR_BLINK \<and> on_time c = 100 \<and> off_time c = 100 \<and> duration c = 600 \<and> next_period s = 100 \<and>
          unat (ind_elapsed c) \<le> 700 \<and> 800 \<le> unat (ind_elapsed c) + 100 * n \<or>
        cb_type s = INDICATOR_ON_OFF \<and> on_time c = 2000 \<and> duration c = 2000 \<and> next_period s = 2000 \<and> ind_elapsed c = 2000 \<and> 1 \<le> n))"

lemma periods_left_same: "same_timer s s' \<Longrightarrow> periods_left t n s' = periods_left t n s"
  by (simp add: same_timer_def periods_left_def)

lemma phase_uses_period:
  assumes "periods_left t n s" "ind_value (indicator_config s) \<noteq> 0" "indicator_phase s = (up, u)" "\<not> up"
  shows "periods_left t' (n - 1) (u\<lparr>indicator_timer_buffer := t'\<rparr>)"
proof (cases "cb_type s = INDICATOR_BLINK")
  case True
  let ?x = "ind_elapsed (indicator_config s)"
  have left: "on_time (indicator_config s) = 100" "off_time (indicator_config s) = 100" "duration (indicator_config s) = 600"
    "unat ?x \<le> 700" "800 \<le> unat ?x + 100 * n"
    using assms(1,2) True by (auto simp: periods_left_def Let_def)
  have add: "unat (?x + 100) = unat ?x + 100" if "unat ?x \<le> 600"
    using that by (simp add: unat_word_ariths)
  have "?x \<le> 600" using assms(2-4) left True
    by (auto simp: indicator_phase_def next_phase_def Let_def map_ind_def low_nibble_def split: if_splits)
  then have x: "unat ?x \<le> 600" by (simp add: word_le_nat_alt)
  show ?thesis using assms(2-4) left add [OF x] x True
    by (auto simp: indicator_phase_def next_phase_def Let_def map_ind_def low_nibble_def periods_left_def split: if_splits)
next
  case False
  then show ?thesis using assms
    by (auto simp: periods_left_def indicator_phase_def next_phase_def Let_def map_ind_def low_nibble_def split: if_splits)
qed

lemma task_uses_period:
  assumes "ind_ok s" "periods_left t n s" "2000 \<le> TIMER_DIFF_32 (ind_now e) t"
  shows "\<exists>s'. indicator_task e s = Some s' \<and> ind_ok s' \<and> periods_left (ind_now e) (n - 1) s'"
proof -
  let ?s = "bat_level_animiation_task e s"
  obtain s' where s': "indicator_task e s = Some s'" "ind_ok s'" using indicator_task_ok [OF assms(1)] by blast
  have ok: "ind_ok ?s" using animation_task_ok [OF assms(1)] .
  have left: "periods_left t n ?s" using periods_left_same [OF task_parts_timer(1)] assms(2) by simp
  have low: "periods_left (ind_now e) (n - 1) (indicator_battery_low e u) = periods_left (ind_now e) (n - 1) u" for u
    using periods_left_same [OF task_parts_timer(2)] .
  have "periods_left (ind_now e) (n - 1) s'"
  proof (cases "ind_value (indicator_config ?s) = 0")
    case True
    then have "s' = indicator_battery_low e ?s" using s'(1) by (simp add: indicator_task_def Let_def)
    then show ?thesis using True low [of ?s] by (simp add: periods_left_def)
  next
    case False
    have "(100 :: u32) \<le> TIMER_DIFF_32 (ind_now e) t" using order_trans [OF _ assms(3), of 100] by simp
    with False have due: "ucast (next_period ?s) \<le> ind_elapsed32 e (indicator_timer_buffer ?s)" "cb_type ?s \<noteq> INDICATOR_LAST"
      using left assms(3) by (auto simp: periods_left_def ind_elapsed32_def Let_def)
    obtain up p where p: "indicator_phase ?s = (up, p)" by force
    then obtain u where u: "indicator_timer_cb e (cb_type ?s) ?s = Some u" "up \<longrightarrow> ind_value (indicator_config u) = 0" "\<not> up \<longrightarrow> same_timer p u"
      using timer_cb_phase [OF ok due(2), of up p e] by auto
    then have eq: "s' = indicator_battery_low e (u\<lparr>indicator_timer_buffer := ind_now e\<rparr>)"
      using s'(1) False due by (simp add: indicator_task_def Let_def)
    have "periods_left (ind_now e) (n - 1) (u\<lparr>indicator_timer_buffer := ind_now e\<rparr>)"
    proof (cases up)
      case True
      then show ?thesis using u(2) by (simp add: periods_left_def)
    next
      case no: False
      have "periods_left (ind_now e) (n - 1) (p\<lparr>indicator_timer_buffer := ind_now e\<rparr>)"
        using phase_uses_period [OF left False p no] .
      then show ?thesis using u(3) no by (simp add: periods_left_def same_timer_def)
    qed
    then show ?thesis using eq low by simp
  qed
  then show ?thesis using s' by blast
qed

lemma tasks_use_periods:
  assumes "ind_ok s" "periods_left t n s" "spaced t es" "n \<le> length es"
  shows "\<exists>s'. ind_tasks es s = Some s' \<and> ind_value (indicator_config s') = 0"
  using assms
proof (induction es arbitrary: s t n)
  case Nil
  then show ?case by (auto simp: periods_left_def Let_def)
next
  case (Cons e es)
  obtain u where u: "indicator_task e s = Some u" "ind_ok u" "periods_left (ind_now e) (n - 1) u"
    using task_uses_period [OF Cons.prems(1,2)] Cons.prems(3) by auto
  then show ?case using Cons.IH [OF u(2,3)] Cons.prems(3,4) by simp
qed

lemma start_uses_period:
  assumes "ind_ok s" "host \<in> {1, 2, 3}" "c = connected_config \<and> v = host \<or> c = reconnecting_config \<and> v = LED_ON OR host \<or> c = disconnected_config"
  shows "\<exists>s'. start_indicator e c v s = Some s' \<and> ind_ok s' \<and> periods_left (indicator_timer_buffer s) 7 s'"
proof -
  let ?s = "set_config_for c v s"
  have vals: "host \<in> host_values" "LED_ON OR host \<in> host_values" using assms(2) by (auto simp: host_values_def LED_ON_def)
  have ok: "ind_ok ?s" using assms(1,3) vals
    by (auto simp: ind_ok_def set_config_for_def connected_config_def reconnecting_config_def disconnected_config_def)
  obtain up p where p: "indicator_phase (?s\<lparr>cb_type := ind_type c\<rparr>) = (up, p)" by force
  have ty: "ind_type c \<noteq> INDICATOR_LAST" using assms(3) by (auto simp: connected_config_def reconnecting_config_def disconnected_config_def)
  from timer_cb_phase [OF ok ty p, of e] obtain s' where s': "start_indicator e c v s = Some s'" "ind_ok s'"
    "up \<longrightarrow> ind_value (indicator_config s') = 0" "\<not> up \<longrightarrow> same_timer p s'"
    by (auto simp: start_indicator_def)
  have bits: "LED_ON OR host \<noteq> 0" "(LED_ON OR host) AND LED_ON \<noteq> 0" "host \<noteq> 0" using assms(2) by (auto simp: LED_ON_def)
  note defs = set_config_for_def indicator_phase_def next_phase_def map_ind_def low_nibble_def
  from assms(3) have "\<not> up \<and> periods_left (indicator_timer_buffer s) 7 p"
  proof (elim disjE)
    assume "c = connected_config \<and> v = host"
    then have "(up, p) = (False, (map_ind (\<lambda>c. c\<lparr>ind_value := ind_value c OR LED_ON, ind_elapsed := 2000\<rparr>) ?s)
      \<lparr>cb_type := INDICATOR_ON_OFF, next_period := 2000\<rparr>)"
      unfolding p [symmetric] using bits by (simp add: defs connected_config_def Let_def)
    then show ?thesis using \<open>c = _ \<and> _\<close> by (simp add: periods_left_def defs connected_config_def Let_def)
  next
    assume "c = reconnecting_config \<and> v = LED_ON OR host"
    then have "(up, p) = (False, (map_ind (\<lambda>c. c\<lparr>ind_value := ind_value c AND 0x0F, ind_elapsed := 100\<rparr>) ?s)
      \<lparr>cb_type := INDICATOR_BLINK, next_period := 100\<rparr>)"
      unfolding p [symmetric] using bits by (simp add: defs reconnecting_config_def Let_def)
    then show ?thesis using \<open>c = _ \<and> _\<close> by (simp add: periods_left_def defs reconnecting_config_def Let_def)
  next
    assume "c = disconnected_config"
    then have "(up, p) = (False, ?s\<lparr>cb_type := INDICATOR_NONE\<rparr>)"
      unfolding p [symmetric] by (simp add: defs disconnected_config_def Let_def)
    then show ?thesis using \<open>c = _\<close> by (simp add: periods_left_def defs disconnected_config_def Let_def)
  qed
  then have "periods_left (indicator_timer_buffer s) 7 s'" using s'(4) periods_left_same by blast
  then show ?thesis using s'(1,2) by blast
qed



subsection \<open>Where the code and its intent part\<close>

text \<open>The end of the low-battery warning switches the LED off but leaves its timers, so it blinks on.\<close>

lemma warning_goes_on:
  assumes "bat_low_pin_indicator s \<noteq> 0" "LOW_BAT_LED_BLINK_PERIOD < ind_elapsed32 e (bat_low_pin_indicator s)"
  shows "bat_low_led_pin (low_pin_task e (indicator_battery_low_enable e' False s))"
  using assms by (simp add: low_pin_task_def indicator_battery_low_enable_def Let_def)

text \<open>The start of a warning is made odd and so can lie in the future: two calls of the task within that millisecond end it.\<close>

lemma warning_aborted:
  assumes "bat_low_blink_duration s = 0" "\<not> bat_low_led_pin s" "ind_now e = 100"
  shows "let s' = low_pin_task e (low_pin_task e (indicator_battery_low_enable e True s)) in
    bat_low_blink_duration s' = 0 \<and> bat_low_pin_indicator s' = 0 \<and> \<not> bat_low_led_pin s'"
  using assms by (simp add: low_pin_task_def indicator_battery_low_enable_def ind_elapsed32_def TIMER_DIFF_32_def
    LOW_BAT_LED_BLINK_PERIOD_def LOW_BAT_LED_BLINK_DURATION_def Let_def)

text \<open>Host 0 is not checked: the entry before the table of the pins is written.\<close>

lemma host_zero_before_table:
  assumes "ind_transport e = TRANSPORT_BLUETOOTH" "set_state s \<noteq> BLUETOOTH_DISCONNECTED"
  shows "indicator_set e BLUETOOTH_DISCONNECTED 0 s = None"
  using assms by (simp add: indicator_set_def indicator_set_state_def of_host_def Let_def)

text \<open>The animation clears one LED more than there are.\<close>

lemma animation_one_led_more:
  "\<exists>cs. led_calls (leds (the (bat_level_animiation_indicate (s\<lparr>animation_state := BAT_LVL_ANI_BLINK_OFF\<rparr>)))) = cs @ [Led_set_value (unat LED_COUNT) 0]"
  by (simp add: bat_level_animiation_indicate_def Let_def on_leds_def led_do_def)

end
