(* ===== verification/Qmk_Ckled2001.thy ===== *)
theory Qmk_Ckled2001
  imports Qmk_Indicator
begin

text \<open>
  The LED driver below the LED matrix: \<^verbatim>\<open>drivers/led/ckled2001-simple.c\<close>, its use in \<^verbatim>\<open>led_matrix_drivers.c\<close> and the tables of
  \<^verbatim>\<open>k3_pro/ansi/white/white.c\<close>.  The bus is the list of its transfers; whether the n-th one is acknowledged is a parameter.
  The registers of the chip are what the acknowledged transfers write, by the rules the comments of the driver give.
\<close>

subsection \<open>Tables of the keyboard\<close>

text \<open>The number of the driver (two bits) and the address of an LED.\<close>

record ckled2001_led =
  driver :: "2 word"
  led_v :: u8

definition g_ckled2001_leds :: "ckled2001_led list" where
  "g_ckled2001_leds = map (\<lambda>(d, a). \<lparr>driver = d, led_v = a\<rparr>)
  [(0, 0x50), (0, 0x51), (0, 0x52), (0, 0x53), (0, 0x54), (0, 0x55), (0, 0x56), (0, 0x57), (0, 0x58), (0, 0x59), (0, 0x5A), (0, 0x5B),
   (0, 0x5C), (0, 0x5D), (0, 0x5E), (0, 0x5F), (0, 0x40), (0, 0x41), (0, 0x42), (0, 0x43), (0, 0x44), (0, 0x45), (0, 0x46), (0, 0x47),
   (0, 0x48), (0, 0x49), (0, 0x4A), (0, 0x4B), (0, 0x4C), (0, 0x4D), (0, 0x4F), (0, 0x30), (0, 0x31), (0, 0x32), (0, 0x33), (0, 0x34),
   (0, 0x35), (0, 0x36), (0, 0x37), (0, 0x38), (0, 0x39), (0, 0x3A), (0, 0x3B), (0, 0x3C), (0, 0x3D), (0, 0x3F), (0, 0x20), (0, 0x21),
   (0, 0x22), (0, 0x23), (0, 0x24), (0, 0x25), (0, 0x26), (0, 0x27), (0, 0x28), (0, 0x29), (0, 0x2A), (0, 0x2B), (0, 0x2D), (0, 0x2F),
   (0, 0x10), (0, 0x12), (0, 0x13), (0, 0x14), (0, 0x15), (0, 0x16), (0, 0x17), (0, 0x18), (0, 0x19), (0, 0x1A), (0, 0x1B), (0, 0x1D),
   (0, 0x1E), (0, 0x1F), (0, 0x00), (0, 0x01), (0, 0x02), (0, 0x06), (0, 0x0A), (0, 0x0B), (0, 0x0C), (0, 0x0D), (0, 0x0E), (0, 0x0F)]"

definition g_led_config_white :: led_layout where
  "g_led_config_white = \<lparr>
    matrix_co = [
     [0, 1, 2, 3, 4, 5, 6, 7, 8, 9, 10, 11, 12, 13, 14, 15],
     [16, 17, 18, 19, 20, 21, 22, 23, 24, 25, 26, 27, 28, 29, NO_LED, 30],
     [31, 32, 33, 34, 35, 36, 37, 38, 39, 40, 41, 42, 43, 44, NO_LED, 45],
     [46, 47, 48, 49, 50, 51, 52, 53, 54, 55, 56, 57, NO_LED, 58, NO_LED, 59],
     [60, NO_LED, 61, 62, 63, 64, 65, 66, 67, 68, 69, 70, NO_LED, 71, 72, 73],
     [74, 75, 76, NO_LED, NO_LED, NO_LED, 77, NO_LED, NO_LED, NO_LED, 78, 79, 80, 81, 82, 83]],
    point_x = [
     0, 14, 29, 44, 59, 74, 89, 104, 119, 134, 149, 164, 179, 194, 209, 223, 0, 14, 29, 44, 59, 74, 89, 104, 119, 134, 149, 164,
     179, 201, 223, 3, 22, 37, 52, 67, 82, 97, 112, 126, 141, 156, 171, 186, 205, 223, 5, 26, 41, 55, 70, 85, 100, 115, 130, 145,
     160, 175, 199, 223, 9, 33, 48, 63, 78, 93, 108, 123, 138, 153, 168, 188, 209, 223, 1, 20, 39, 95, 149, 164, 179, 194, 209, 223],
    point_y = [
     0, 0, 0, 0, 0, 0, 0, 0, 0, 0, 0, 0, 0, 0, 0, 0, 12, 12, 12, 12, 12, 12, 12, 12, 12, 12, 12, 12,
     12, 12, 12, 25, 25, 25, 25, 25, 25, 25, 25, 25, 25, 25, 25, 25, 25, 25, 38, 38, 38, 38, 38, 38, 38, 38, 38, 38,
     38, 38, 38, 38, 51, 51, 51, 51, 51, 51, 51, 51, 51, 51, 51, 51, 51, 51, 64, 64, 64, 64, 64, 64, 64, 64, 64, 64],
    led_flag = replicate 84 4\<rparr>"

subsection \<open>Transfers\<close>

text \<open>A transfer is its address byte, its bytes, and whether it was acknowledged.\<close>

type_synonym transfer = "u8 \<times> u8 list \<times> bool"

record ckled_st =
  g_pwm_buffer :: "u8 list list"
  g_pwm_buffer_update_required :: "bool list"
  g_led_control_registers :: "u8 list list"
  g_led_control_registers_update_required :: "bool list"
  shutdown_pin :: bool
  transfers :: "transfer list"

definition DRIVER_COUNT :: nat where "DRIVER_COUNT = 1"
definition DRIVER_ADDR_1 :: u8 where "DRIVER_ADDR_1 = 0x74"
definition CONFIGURE_CMD_PAGE :: u8 where "CONFIGURE_CMD_PAGE = 0xFD"
definition LED_CONTROL_PAGE :: u8 where "LED_CONTROL_PAGE = 0"
definition LED_PWM_PAGE :: u8 where "LED_PWM_PAGE = 1"
definition FUNCTION_PAGE :: u8 where "FUNCTION_PAGE = 3"
definition CURRENT_TUNE_PAGE :: u8 where "CURRENT_TUNE_PAGE = 4"
definition CONFIGURATION_REG :: u8 where "CONFIGURATION_REG = 0"
definition MSKSW_SHUT_DOWN_MODE :: u8 where "MSKSW_SHUT_DOWN_MODE = 0"
definition MSKSW_NORMAL_MODE :: u8 where "MSKSW_NORMAL_MODE = 1"
definition PDU_REG :: u8 where "PDU_REG = 0x13"
definition MSKSET_CA_CB_CHANNEL :: u8 where "MSKSET_CA_CB_CHANNEL = 0xAA"
definition SCAN_PHASE_REG :: u8 where "SCAN_PHASE_REG = 0x14"
definition PHASE_CHANNEL :: u8 where "PHASE_CHANNEL = 6"
definition SLEW_RATE_CONTROL_MODE1_REG :: u8 where "SLEW_RATE_CONTROL_MODE1_REG = 0x15"
definition MSKPWM_DELAY_PHASE_ENABLE :: u8 where "MSKPWM_DELAY_PHASE_ENABLE = 4"
definition SLEW_RATE_CONTROL_MODE2_REG :: u8 where "SLEW_RATE_CONTROL_MODE2_REG = 0x16"
definition MSKDRIVING_SINKING_CHHANNEL_SLEWRATE_ENABLE :: u8 where "MSKDRIVING_SINKING_CHHANNEL_SLEWRATE_ENABLE = 0xC0"
definition SOFTWARE_SLEEP_REG :: u8 where "SOFTWARE_SLEEP_REG = 0x1A"
definition MSKSLEEP_ENABLE :: u8 where "MSKSLEEP_ENABLE = 2"
definition MSKSLEEP_DISABLE :: u8 where "MSKSLEEP_DISABLE = 0"
definition LED_CONTROL_ON_OFF_LENGTH :: nat where "LED_CONTROL_ON_OFF_LENGTH = 0x18"
definition LED_CURRENT_TUNE_LENGTH :: nat where "LED_CURRENT_TUNE_LENGTH = 0x0C"
definition CKLED2001_CURRENT_TUNE :: "u8 list" where "CKLED2001_CURRENT_TUNE = replicate 12 0x20"

definition i2c_transmit :: "(nat \<Rightarrow> bool) \<Rightarrow> u8 \<Rightarrow> u8 list \<Rightarrow> ckled_st \<Rightarrow> bool \<times> ckled_st" where
  "i2c_transmit ack a bs s = (ack (length (transfers s)), s\<lparr>transfers := transfers s @ [(a, bs, ack (length (transfers s)))]\<rparr>)"

definition CKLED2001_write_register :: "(nat \<Rightarrow> bool) \<Rightarrow> u8 \<Rightarrow> u8 \<Rightarrow> u8 \<Rightarrow> ckled_st \<Rightarrow> bool \<times> ckled_st" where
  "CKLED2001_write_register ack addr reg data s = i2c_transmit ack (push_bit 1 addr) [reg, data] s"

text \<open>Writes whose result is ignored.\<close>

definition write_registers :: "(nat \<Rightarrow> bool) \<Rightarrow> u8 \<Rightarrow> (u8 \<times> u8) list \<Rightarrow> ckled_st \<Rightarrow> ckled_st" where
  "write_registers ack addr = fold (\<lambda>(reg, data) s. snd (CKLED2001_write_register ack addr reg data s))"

fun write_pwm_parts :: "(nat \<Rightarrow> bool) \<Rightarrow> u8 \<Rightarrow> u8 list \<Rightarrow> nat list \<Rightarrow> ckled_st \<Rightarrow> bool \<times> ckled_st" where
  "write_pwm_parts ack addr buf [] s = (True, s)"
| "write_pwm_parts ack addr buf (i # is) s =
    (let (ok, s) = i2c_transmit ack (push_bit 1 addr) (of_nat i # map (\<lambda>j. buf ! (i + j)) [0..<16]) s in
     if ok then write_pwm_parts ack addr buf is s else (False, s))"

definition CKLED2001_write_pwm_buffer :: "(nat \<Rightarrow> bool) \<Rightarrow> u8 \<Rightarrow> u8 list \<Rightarrow> ckled_st \<Rightarrow> bool \<times> ckled_st" where
  "CKLED2001_write_pwm_buffer ack addr buf = write_pwm_parts ack addr buf (map (\<lambda>k. 16 * k) [0..<12])"

definition all_registers :: "nat \<Rightarrow> (nat \<Rightarrow> u8) \<Rightarrow> (u8 \<times> u8) list" where
  "all_registers n f = map (\<lambda>i. (of_nat i, f i)) [0..<n]"

definition CKLED2001_init :: "(nat \<Rightarrow> bool) \<Rightarrow> u8 \<Rightarrow> ckled_st \<Rightarrow> ckled_st" where
  "CKLED2001_init ack addr = write_registers ack addr
    ([(CONFIGURE_CMD_PAGE, FUNCTION_PAGE), (CONFIGURATION_REG, MSKSW_SHUT_DOWN_MODE), (PDU_REG, MSKSET_CA_CB_CHANNEL),
      (SCAN_PHASE_REG, PHASE_CHANNEL), (SLEW_RATE_CONTROL_MODE1_REG, MSKPWM_DELAY_PHASE_ENABLE),
      (SLEW_RATE_CONTROL_MODE2_REG, MSKDRIVING_SINKING_CHHANNEL_SLEWRATE_ENABLE), (SOFTWARE_SLEEP_REG, MSKSLEEP_DISABLE),
      (CONFIGURE_CMD_PAGE, LED_CONTROL_PAGE)] @ all_registers LED_CONTROL_ON_OFF_LENGTH (\<lambda>_. 0) @
     [(CONFIGURE_CMD_PAGE, LED_PWM_PAGE)] @ all_registers LED_CURRENT_TUNE_LENGTH (\<lambda>_. 0) @
     [(CONFIGURE_CMD_PAGE, CURRENT_TUNE_PAGE)] @ all_registers LED_CURRENT_TUNE_LENGTH (\<lambda>i. CKLED2001_CURRENT_TUNE ! i) @
     [(CONFIGURE_CMD_PAGE, LED_CONTROL_PAGE)] @ all_registers LED_CONTROL_ON_OFF_LENGTH (\<lambda>_. 0xFF) @
     [(CONFIGURE_CMD_PAGE, FUNCTION_PAGE), (CONFIGURATION_REG, MSKSW_NORMAL_MODE)])"

subsection \<open>Values and control bits\<close>

definition CKLED2001_set_value :: "int \<Rightarrow> u8 \<Rightarrow> ckled_st \<Rightarrow> ckled_st" where
  "CKLED2001_set_value index value s =
    (if 0 \<le> index \<and> index < int (unat LED_COUNT) then
       let led = g_ckled2001_leds ! nat index; d = unat (driver led) in
       s\<lparr>g_pwm_buffer := (g_pwm_buffer s)[d := (g_pwm_buffer s ! d)[unat (led_v led) := value]],
         g_pwm_buffer_update_required := (g_pwm_buffer_update_required s)[d := True]\<rparr>
     else s)"

definition CKLED2001_set_value_all :: "u8 \<Rightarrow> ckled_st \<Rightarrow> ckled_st" where
  "CKLED2001_set_value_all value = fold (\<lambda>i. CKLED2001_set_value (int i) value) [0..<unat LED_COUNT]"

definition CKLED2001_set_led_control_register :: "u8 \<Rightarrow> bool \<Rightarrow> ckled_st \<Rightarrow> ckled_st" where
  "CKLED2001_set_led_control_register index value s =
    (let led = g_ckled2001_leds ! unat index; d = unat (driver led);
         control_register = unat (led_v led div 8); bit_value = unat (led_v led mod 8);
         old = g_led_control_registers s ! d ! control_register;
         new = (if value then old OR push_bit bit_value 1 else old AND NOT (push_bit bit_value 1)) in
     s\<lparr>g_led_control_registers := (g_led_control_registers s)[d := (g_led_control_registers s ! d)[control_register := new]],
       g_led_control_registers_update_required := (g_led_control_registers_update_required s)[d := True]\<rparr>)"

definition CKLED2001_update_pwm_buffers :: "(nat \<Rightarrow> bool) \<Rightarrow> u8 \<Rightarrow> nat \<Rightarrow> ckled_st \<Rightarrow> ckled_st" where
  "CKLED2001_update_pwm_buffers ack addr index s =
    (let s = (if g_pwm_buffer_update_required s ! index then
                let s = snd (CKLED2001_write_register ack addr CONFIGURE_CMD_PAGE LED_PWM_PAGE s);
                    (ok, s) = CKLED2001_write_pwm_buffer ack addr (g_pwm_buffer s ! index) s in
                if ok then s
                else s\<lparr>g_led_control_registers_update_required := (g_led_control_registers_update_required s)[index := True]\<rparr>
              else s) in
     s\<lparr>g_pwm_buffer_update_required := (g_pwm_buffer_update_required s)[index := False]\<rparr>)"

definition CKLED2001_update_led_control_registers :: "(nat \<Rightarrow> bool) \<Rightarrow> u8 \<Rightarrow> nat \<Rightarrow> ckled_st \<Rightarrow> ckled_st" where
  "CKLED2001_update_led_control_registers ack addr index s =
    (let s = (if g_led_control_registers_update_required s ! index then
                write_registers ack addr ((CONFIGURE_CMD_PAGE, LED_CONTROL_PAGE) # all_registers 24 (\<lambda>i. g_led_control_registers s ! index ! i)) s
              else s) in
     s\<lparr>g_led_control_registers_update_required := (g_led_control_registers_update_required s)[index := False]\<rparr>)"

definition CKLED2001_sw_return_normal :: "(nat \<Rightarrow> bool) \<Rightarrow> u8 \<Rightarrow> ckled_st \<Rightarrow> ckled_st" where
  "CKLED2001_sw_return_normal ack addr = write_registers ack addr [(CONFIGURE_CMD_PAGE, FUNCTION_PAGE), (CONFIGURATION_REG, MSKSW_NORMAL_MODE)]"

definition CKLED2001_sw_shutdown :: "(nat \<Rightarrow> bool) \<Rightarrow> u8 \<Rightarrow> ckled_st \<Rightarrow> ckled_st" where
  "CKLED2001_sw_shutdown ack addr = write_registers ack addr
    [(CONFIGURE_CMD_PAGE, FUNCTION_PAGE), (CONFIGURATION_REG, MSKSW_SHUT_DOWN_MODE), (SOFTWARE_SLEEP_REG, MSKSLEEP_ENABLE)]"

subsection \<open>The driver of the LED matrix\<close>

text \<open>This keyboard has a shutdown pin, which the driver uses in place of the shutdown register; high means on.\<close>

definition led_driver_init :: "(nat \<Rightarrow> bool) \<Rightarrow> ckled_st \<Rightarrow> ckled_st" where
  "led_driver_init ack s =
    (let s = CKLED2001_init ack DRIVER_ADDR_1 (s\<lparr>shutdown_pin := True\<rparr>);
         s = fold (\<lambda>i. CKLED2001_set_led_control_register (of_nat i) True) [0..<unat LED_COUNT] s
     in CKLED2001_update_led_control_registers ack DRIVER_ADDR_1 0 s)"

definition led_driver_flush :: "(nat \<Rightarrow> bool) \<Rightarrow> ckled_st \<Rightarrow> ckled_st" where
  "led_driver_flush ack = CKLED2001_update_pwm_buffers ack DRIVER_ADDR_1 0"

definition led_driver_shutdown :: "ckled_st \<Rightarrow> ckled_st" where
  "led_driver_shutdown s = s\<lparr>shutdown_pin := False\<rparr>"

definition led_driver_exit_shutdown :: "ckled_st \<Rightarrow> ckled_st" where
  "led_driver_exit_shutdown s = s\<lparr>shutdown_pin := True\<rparr>"

text \<open>The calls of the LED matrix; the hooks for the indicators make their own calls.\<close>

fun led_driver :: "(nat \<Rightarrow> bool) \<Rightarrow> led_call \<Rightarrow> ckled_st \<Rightarrow> ckled_st" where
  "led_driver ack (Led_set_value i v) s = CKLED2001_set_value (int i) v s"
| "led_driver ack (Led_set_value_all v) s = CKLED2001_set_value_all v s"
| "led_driver ack Led_flush s = led_driver_flush ack s"
| "led_driver ack Led_shutdown s = led_driver_shutdown s"
| "led_driver ack Led_exit_shutdown s = led_driver_exit_shutdown s"
| "led_driver ack Led_driver_init s = led_driver_init ack s"
| "led_driver ack _ s = s"

definition led_driver_calls :: "(nat \<Rightarrow> bool) \<Rightarrow> led_call list \<Rightarrow> ckled_st \<Rightarrow> ckled_st" where
  "led_driver_calls ack = fold (led_driver ack)"

definition initial_ckled :: "u8 list \<Rightarrow> ckled_st" where
  "initial_ckled buf = \<lparr>g_pwm_buffer = [buf], g_pwm_buffer_update_required = [False], g_led_control_registers = [replicate 24 0],
    g_led_control_registers_update_required = [False], shutdown_pin = False, transfers = []\<rparr>"

subsection \<open>The registers of the chip\<close>

text \<open>The first byte is a register of the selected page, the others go to it and the registers after it; one register selects the page.\<close>

record chip =
  page :: u8
  regs :: "u8 \<Rightarrow> u8 \<Rightarrow> u8"

fun write_from :: "u8 \<Rightarrow> u8 list \<Rightarrow> (u8 \<Rightarrow> u8) \<Rightarrow> u8 \<Rightarrow> u8" where
  "write_from r [] f = f"
| "write_from r (d # ds) f = write_from (r + 1) ds (f(r := d))"

definition chip_receive :: "u8 list \<Rightarrow> chip \<Rightarrow> chip" where
  "chip_receive bs c = (case bs of
      [] \<Rightarrow> c
    | r # ds \<Rightarrow> if r = CONFIGURE_CMD_PAGE then (case ds of [] \<Rightarrow> c | p # _ \<Rightarrow> c\<lparr>page := p\<rparr>)
        else c\<lparr>regs := (regs c)(page c := write_from r ds (regs c (page c)))\<rparr>)"

definition chip_step :: "transfer \<Rightarrow> chip \<Rightarrow> chip" where
  "chip_step t c = (case t of (a, bs, ok) \<Rightarrow> if ok \<and> a = push_bit 1 DRIVER_ADDR_1 then chip_receive bs c else c)"

definition chip_after :: "chip \<Rightarrow> ckled_st \<Rightarrow> chip" where
  "chip_after c s = fold chip_step (transfers s) c"

definition led_register :: "chip \<Rightarrow> nat \<Rightarrow> u8" where
  "led_register c i = regs c LED_PWM_PAGE (led_v (g_ckled2001_leds ! i))"

text \<open>The value that was given to an LED last.\<close>

definition value_of_led :: "nat \<Rightarrow> led_call \<Rightarrow> u8 option" where
  "value_of_led i c = (case c of Led_set_value j v \<Rightarrow> if i = j then Some v else None | Led_set_value_all v \<Rightarrow> Some v | _ \<Rightarrow> None)"

definition last_value :: "nat \<Rightarrow> led_call list \<Rightarrow> u8 option \<Rightarrow> u8 option" where
  "last_value i = fold (\<lambda>c v. case value_of_led i c of None \<Rightarrow> v | Some w \<Rightarrow> Some w)"

lemma leds_table:
  "length g_ckled2001_leds = 84" "list_all (\<lambda>l. driver l = 0 \<and> led_v l < 192) g_ckled2001_leds"
  by (simp_all add: g_ckled2001_leds_def)

lemma led_addresses:
  "map (\<lambda>l. unat (led_v l)) g_ckled2001_leds = [80..<96] @ [64..<78] @ [79] @ [48..<62] @ [63] @ [32..<44] @ [45, 47] @
    [16] @ [18..<28] @ [29..<32] @ [0..<3] @ [6] @ [10..<16]"
  by (simp add: g_ckled2001_leds_def upt_rec)

lemma led_addresses_distinct: "distinct (map (\<lambda>l. unat (led_v l)) g_ckled2001_leds)"
  unfolding led_addresses by simp

lemma led_at:
  assumes "i < 84"
  shows "driver (g_ckled2001_leds ! i) = 0" "unat (led_v (g_ckled2001_leds ! i)) < 192"
proof -
  have "g_ckled2001_leds ! i \<in> set g_ckled2001_leds" using assms leds_table(1) by simp
  then have "driver (g_ckled2001_leds ! i) = 0 \<and> led_v (g_ckled2001_leds ! i) < 192" using leds_table(2) by (simp add: list_all_iff)
  then show "driver (g_ckled2001_leds ! i) = 0" "unat (led_v (g_ckled2001_leds ! i)) < 192" by (simp_all add: word_less_nat_alt)
qed

lemma led_address_inj:
  assumes "i < 84" "j < 84"
  shows "led_v (g_ckled2001_leds ! i) = led_v (g_ckled2001_leds ! j) \<longleftrightarrow> i = j"
  using nth_eq_iff_index_eq [OF led_addresses_distinct, of i j] assms leds_table(1) by auto

lemma write_from_outside: "\<forall>k < length ds. x \<noteq> r + of_nat k \<Longrightarrow> write_from r ds f x = f x"
proof (induction ds arbitrary: r f)
  case (Cons d ds)
  have "x \<noteq> r" using Cons.prems by (auto dest: spec [of _ 0])
  moreover have "x \<noteq> r + 1 + of_nat k" if "k < length ds" for k
    using Cons.prems that by (auto dest: spec [of _ "Suc k"] simp: add.assoc)
  ultimately show ?case using Cons.IH by simp
qed simp

lemma write_from_inside:
  assumes "k < length ds" "length ds \<le> 256"
  shows "write_from r ds f (r + of_nat k) = ds ! k"
  using assms
proof (induction ds arbitrary: r f k)
  case (Cons d ds)
  show ?case
  proof (cases k)
    case 0
    have "r \<noteq> r + 1 + of_nat j" if "j < length ds" for j
    proof -
      have "unat (1 + of_nat j :: u8) = 1 + j" using that Cons.prems(2) by (simp add: unat_word_ariths unat_of_nat)
      then have "(1 + of_nat j :: u8) \<noteq> 0" by (metis Zero_not_Suc plus_1_eq_Suc unat_0)
      then show ?thesis by (simp add: add.assoc)
    qed
    then show ?thesis using write_from_outside [of ds r "r + 1" "f(r := d)"] 0 by simp
  next
    case (Suc j)
    have w: "write_from r (d # ds) f = write_from (r + 1) ds (f(r := d))" by (rule write_from.simps)
    have e: "r + of_nat k = (r + 1) + of_nat j" using Suc by (simp add: algebra_simps)
    have "write_from (r + 1) ds (f(r := d)) (r + 1 + of_nat j) = ds ! j" using Cons.IH Cons.prems Suc by simp
    then show ?thesis unfolding e w using Suc by simp
  qed
qed simp

subsection \<open>A flush brings the values to the chip\<close>

definition pwm_transfer :: "u8 list \<Rightarrow> nat \<Rightarrow> transfer" where
  "pwm_transfer buf k = (push_bit 1 DRIVER_ADDR_1, of_nat (16 * k) # map (\<lambda>j. buf ! (16 * k + j)) [0..<16], True)"

lemma pwm_parts_acked:
  assumes "\<forall>n. ack n"
  shows "write_pwm_parts ack DRIVER_ADDR_1 buf (map (\<lambda>k. 16 * k) ks) s = (True, s\<lparr>transfers := transfers s @ map (pwm_transfer buf) ks\<rparr>)"
  using assms by (induction ks arbitrary: s) (simp_all add: i2c_transmit_def pwm_transfer_def)

lemma pwm_transfer_chip:
  assumes "k < 12" "page c = LED_PWM_PAGE"
  shows "page (chip_step (pwm_transfer buf k) c) = LED_PWM_PAGE"
    "v < 16 * k \<Longrightarrow> regs (chip_step (pwm_transfer buf k) c) LED_PWM_PAGE (of_nat v) = regs c LED_PWM_PAGE (of_nat v)"
    "16 * k \<le> v \<Longrightarrow> v < 16 * k + 16 \<Longrightarrow> regs (chip_step (pwm_transfer buf k) c) LED_PWM_PAGE (of_nat v) = buf ! v"
proof -
  let ?ds = "map (\<lambda>j. buf ! (16 * k + j)) [0..<16]"
  have small: "unat (of_nat w :: u8) = w" if "w < 16 * k + 16" for w
    using that assms(1) by (subst unat_of_nat) simp
  have r: "(of_nat (16 * k) :: u8) \<noteq> CONFIGURE_CMD_PAGE"
  proof
    assume "(of_nat (16 * k) :: u8) = CONFIGURE_CMD_PAGE"
    from arg_cong [OF this, of unat] have "16 * k = unat CONFIGURE_CMD_PAGE" using small [of "16 * k"] by simp
    then show False using assms(1) by (simp add: CONFIGURE_CMD_PAGE_def)
  qed
  have step: "chip_step (pwm_transfer buf k) c = c\<lparr>regs := (regs c)(LED_PWM_PAGE := write_from (of_nat (16 * k)) ?ds (regs c LED_PWM_PAGE))\<rparr>"
    using r assms(2) by (simp add: chip_step_def pwm_transfer_def chip_receive_def)
  show "page (chip_step (pwm_transfer buf k) c) = LED_PWM_PAGE" by (simp add: step assms(2))
  show "regs (chip_step (pwm_transfer buf k) c) LED_PWM_PAGE (of_nat v) = regs c LED_PWM_PAGE (of_nat v)" if "v < 16 * k"
  proof -
    have "(of_nat v :: u8) \<noteq> of_nat (16 * k) + of_nat j" if "j < 16" for j
    proof
      assume "(of_nat v :: u8) = of_nat (16 * k) + of_nat j"
      then have "(of_nat v :: u8) = of_nat (16 * k + j)" by simp
      from arg_cong [OF this, of unat] show False using small [of v] small [of "16 * k + j"] \<open>v < 16 * k\<close> that by simp
    qed
    then show ?thesis by (simp add: step write_from_outside)
  qed
  show "regs (chip_step (pwm_transfer buf k) c) LED_PWM_PAGE (of_nat v) = buf ! v" if "16 * k \<le> v" "v < 16 * k + 16"
  proof -
    have e: "(of_nat v :: u8) = of_nat (16 * k) + of_nat (v - 16 * k)" using that(1) by (metis le_add_diff_inverse of_nat_add)
    have "write_from (of_nat (16 * k)) ?ds (regs c LED_PWM_PAGE) (of_nat (16 * k) + of_nat (v - 16 * k)) = ?ds ! (v - 16 * k)"
      by (rule write_from_inside) (use that in simp_all)
    then show ?thesis unfolding e [symmetric] using that by (simp add: step)
  qed
qed

lemma pwm_transfers_chip:
  assumes "page c = LED_PWM_PAGE" "n \<le> 12"
  shows "page (fold chip_step (map (pwm_transfer buf) [0..<n]) c) = LED_PWM_PAGE \<and>
    (\<forall>v < 16 * n. regs (fold chip_step (map (pwm_transfer buf) [0..<n]) c) LED_PWM_PAGE (of_nat v) = buf ! v)"
  using assms(2)
proof (induction n)
  case (Suc n)
  let ?c = "fold chip_step (map (pwm_transfer buf) [0..<n]) c"
  have "page ?c = LED_PWM_PAGE" "\<forall>v < 16 * n. regs ?c LED_PWM_PAGE (of_nat v) = buf ! v" "n < 12" using Suc by simp_all
  note t = pwm_transfer_chip [where buf = buf, OF this(3,1)]
  have "regs (chip_step (pwm_transfer buf n) ?c) LED_PWM_PAGE (of_nat v) = buf ! v" if "v < 16 * Suc n" for v
    using that t(2) [of v] t(3) [of v] \<open>\<forall>v < 16 * n. _\<close> by (cases "v < 16 * n") simp_all
  then show ?case using t(1) by simp
qed (use assms(1) in simp)

lemma flush_chip:
  assumes "\<forall>n. ack n" "g_pwm_buffer_update_required s = [True]" "g_pwm_buffer s = [buf]" "v < 192"
  shows "regs (chip_after c (led_driver_flush ack s)) LED_PWM_PAGE (of_nat v) = buf ! v"
proof -
  have ack: "ack = (\<lambda>_. True)" using assms(1) by auto
  let ?t = "(push_bit 1 DRIVER_ADDR_1, [CONFIGURE_CMD_PAGE, LED_PWM_PAGE], True)"
  have "transfers (led_driver_flush ack s) = transfers s @ ?t # map (pwm_transfer buf) [0..<12]"
    using assms(2,3) pwm_parts_acked [OF assms(1), of buf "[0..<12]"] ack
    by (simp add: led_driver_flush_def CKLED2001_update_pwm_buffers_def CKLED2001_write_register_def i2c_transmit_def
        CKLED2001_write_pwm_buffer_def Let_def del: map_map upt_rec)
  then have "chip_after c (led_driver_flush ack s) = fold chip_step (map (pwm_transfer buf) [0..<12]) (chip_step ?t (chip_after c s))"
    by (simp add: chip_after_def)
  moreover have "page (chip_step ?t (chip_after c s)) = LED_PWM_PAGE" by (simp add: chip_step_def chip_receive_def)
  ultimately show ?thesis using pwm_transfers_chip [of "chip_step ?t (chip_after c s)" 12 buf] assms(4) by simp
qed

subsection \<open>Every LED shows its last value\<close>

definition driver_ok :: "ckled_st \<Rightarrow> bool" where
  "driver_ok s \<longleftrightarrow> length (g_pwm_buffer s) = 1 \<and> length (g_pwm_buffer s ! 0) = 192 \<and> length (g_pwm_buffer_update_required s) = 1"

definition shows_values :: "(nat \<Rightarrow> u8 option) \<Rightarrow> chip \<Rightarrow> ckled_st \<Rightarrow> bool" where
  "shows_values vals c s \<longleftrightarrow> driver_ok s \<and> (\<forall>i < 84. \<forall>v. vals i = Some v \<longrightarrow>
     g_pwm_buffer s ! 0 ! unat (led_v (g_ckled2001_leds ! i)) = v \<and>
     (\<not> g_pwm_buffer_update_required s ! 0 \<longrightarrow> led_register (chip_after c s) i = v))"

lemma driver_ok_fields:
  assumes "driver_ok s"
  obtains buf req where "g_pwm_buffer s = [buf]" "length buf = 192" "g_pwm_buffer_update_required s = [req]"
  using assms by (auto simp: driver_ok_def length_Suc_conv)

lemma set_value_shows:
  assumes "shows_values vals c s"
  shows "shows_values (\<lambda>i. if i = j then Some v else vals i) c (CKLED2001_set_value (int j) v s)"
proof (cases "j < 84")
  case True
  from assms have "driver_ok s" by (simp add: shows_values_def)
  then obtain buf req where b: "g_pwm_buffer s = [buf]" "length buf = 192" "g_pwm_buffer_update_required s = [req]"
    by (rule driver_ok_fields)
  let ?a = "\<lambda>i. unat (led_v (g_ckled2001_leds ! i))"
  have "CKLED2001_set_value (int j) v s = s\<lparr>g_pwm_buffer := [buf[?a j := v]], g_pwm_buffer_update_required := [True]\<rparr>"
    using True b led_at(1) [OF True] by (simp add: CKLED2001_set_value_def LED_COUNT_def)
  moreover have "buf[?a j := v] ! ?a i = (if i = j then v else buf ! ?a i)" if "i < 84" for i
    using led_address_inj [OF that True] led_at(2) [OF that] b(2) by (auto simp: nth_list_update word_unat_eq_iff)
  ultimately show ?thesis using assms b by (simp add: shows_values_def driver_ok_def)
next
  case False
  then show ?thesis using assms by (simp add: CKLED2001_set_value_def LED_COUNT_def shows_values_def)
qed

lemma set_values_shows:
  assumes "shows_values vals c s"
  shows "shows_values (\<lambda>i. if i \<in> set js then Some v else vals i) c (fold (\<lambda>j. CKLED2001_set_value (int j) v) js s)"
  using assms
proof (induction js arbitrary: vals s)
  case (Cons j js)
  from Cons.IH [OF set_value_shows [OF Cons.prems, of j v]]
  have "shows_values (\<lambda>i. if i \<in> set js then Some v else if i = j then Some v else vals i) c
    (fold (\<lambda>j. CKLED2001_set_value (int j) v) js (CKLED2001_set_value (int j) v s))" .
  moreover have "(\<lambda>i. if i \<in> set js then Some v else if i = j then Some v else vals i) = (\<lambda>i. if i \<in> set (j # js) then Some v else vals i)"
    by auto
  ultimately show ?case by simp
qed simp

lemma flush_shows:
  assumes "\<forall>n. ack n" "shows_values vals c s"
  shows "shows_values vals c (led_driver_flush ack s) \<and> \<not> g_pwm_buffer_update_required (led_driver_flush ack s) ! 0"
proof -
  from assms have "driver_ok s" by (simp add: shows_values_def)
  then obtain buf req where b: "g_pwm_buffer s = [buf]" "length buf = 192" "g_pwm_buffer_update_required s = [req]"
    by (rule driver_ok_fields)
  have ack: "ack = (\<lambda>_. True)" using assms(1) by auto
  show ?thesis
  proof (cases req)
    case True
    have "g_pwm_buffer (led_driver_flush ack s) = [buf]" "g_pwm_buffer_update_required (led_driver_flush ack s) = [False]"
      using b True pwm_parts_acked [OF assms(1), of buf "[0..<12]"] ack
      by (simp_all add: led_driver_flush_def CKLED2001_update_pwm_buffers_def CKLED2001_write_register_def i2c_transmit_def
        CKLED2001_write_pwm_buffer_def Let_def del: map_map upt_rec)
    moreover have "led_register (chip_after c (led_driver_flush ack s)) i = buf ! unat (led_v (g_ckled2001_leds ! i))" if "i < 84" for i
      using flush_chip [OF assms(1) _ b(1) led_at(2) [OF that], of c] b(3) True by (simp add: led_register_def)
    ultimately show ?thesis using assms(2) b by (simp add: shows_values_def driver_ok_def)
  next
    case False
    then have "led_driver_flush ack s = s" using b by (simp add: led_driver_flush_def CKLED2001_update_pwm_buffers_def)
    then show ?thesis using assms(2) b False by simp
  qed
qed

lemma driver_call_shows:
  assumes "\<forall>n. ack n" "shows_values vals c s" "x \<noteq> Led_driver_init"
  shows "shows_values (\<lambda>i. case value_of_led i x of None \<Rightarrow> vals i | Some w \<Rightarrow> Some w) c (led_driver ack x s)"
proof (cases x)
  case (Led_set_value j v)
  have "(\<lambda>i. case value_of_led i x of None \<Rightarrow> vals i | Some w \<Rightarrow> Some w) = (\<lambda>i. if i = j then Some v else vals i)"
    using Led_set_value by (auto simp: value_of_led_def)
  then show ?thesis using set_value_shows [OF assms(2)] Led_set_value by simp
next
  case (Led_set_value_all v)
  have "shows_values (\<lambda>i. if i \<in> set [0..<84] then Some v else vals i) c (led_driver ack x s)"
    using set_values_shows [OF assms(2), of "[0..<84]" v] Led_set_value_all by (simp add: CKLED2001_set_value_all_def LED_COUNT_def)
  then show ?thesis using Led_set_value_all by (simp add: shows_values_def value_of_led_def)
next
  case Led_flush
  then show ?thesis using flush_shows [OF assms(1,2)] by (simp add: value_of_led_def)
qed (use assms(2,3) in \<open>simp_all add: value_of_led_def shows_values_def driver_ok_def led_driver_shutdown_def led_driver_exit_shutdown_def chip_after_def\<close>)

lemma driver_calls_show:
  assumes "\<forall>n. ack n" "shows_values vals c s" "Led_driver_init \<notin> set cs"
  shows "shows_values (\<lambda>i. last_value i cs (vals i)) c (led_driver_calls ack cs s)"
  using assms(2,3)
proof (induction cs arbitrary: vals s)
  case (Cons x cs)
  then have x: "x \<noteq> Led_driver_init" "Led_driver_init \<notin> set cs" by auto
  show ?case using Cons.IH [OF driver_call_shows [OF assms(1) Cons.prems(1) x(1)] x(2)]
    by (simp add: last_value_def led_driver_calls_def)
qed (simp add: last_value_def led_driver_calls_def)

lemma flushed_values:
  assumes "driver_ok s" "\<forall>n. ack n" "Led_driver_init \<notin> set cs" "i < 84" "last_value i cs None = Some v"
  shows "led_register (chip_after c (led_driver_calls ack (cs @ [Led_flush]) s)) i = v"
proof -
  have "shows_values (\<lambda>_. None) c s" using assms(1) by (simp add: shows_values_def)
  from flush_shows [OF assms(2) driver_calls_show [OF assms(2) this assms(3)]] assms(4,5)
  show ?thesis by (simp add: shows_values_def led_driver_calls_def)
qed

lemma last_value_filter: "last_value i (filter is_value cs) v = last_value i cs v"
proof -
  have "value_of_led i x = None" if "\<not> is_value x" for x using that by (simp add: is_value_def value_of_led_def split: led_call.splits)
  then show ?thesis by (induction cs arbitrary: v) (simp_all add: last_value_def)
qed

lemma last_value_map:
  "last_value i (map (\<lambda>i. Led_set_value i (f i)) is) v = (if i \<in> set is then Some (f i) else v)"
  by (induction "is" arbitrary: v) (auto simp: last_value_def value_of_led_def)



subsection \<open>Failures and the start\<close>

text \<open>A flush that fails is not repeated, and the control registers it asks for are never written again.\<close>

lemma failed_flush_not_repeated:
  assumes "driver_ok s"
  shows "led_driver_flush ack' (led_driver_flush ack s) = led_driver_flush ack s"
proof -
  obtain buf req where b: "g_pwm_buffer_update_required s = [req]" using assms by (rule driver_ok_fields)
  have req: "g_pwm_buffer_update_required (snd (write_pwm_parts ack a buf is t)) = g_pwm_buffer_update_required t" for a buf "is" t
    by (induction "is" arbitrary: t) (simp_all add: i2c_transmit_def)
  have "g_pwm_buffer_update_required (led_driver_flush ack s) = [False]"
    using b req [of DRIVER_ADDR_1 "g_pwm_buffer s ! 0"]
    by (simp add: led_driver_flush_def CKLED2001_update_pwm_buffers_def CKLED2001_write_register_def i2c_transmit_def
      CKLED2001_write_pwm_buffer_def Let_def split_beta del: upt_rec)
  then show ?thesis by (simp add: led_driver_flush_def [of ack'] CKLED2001_update_pwm_buffers_def)
qed

lemma write_registers_acked:
  "write_registers (\<lambda>_. True) addr ws s =
    s\<lparr>transfers := transfers s @ map (\<lambda>(reg, data). (push_bit 1 addr, [reg, data], True)) ws\<rparr>"
  by (induction ws arbitrary: s) (auto simp: write_registers_def CKLED2001_write_register_def i2c_transmit_def)

text \<open>The loop over the page of the values stops after twelve registers of 192.\<close>

lemma init_clears_twelve:
  "regs (chip_after c (CKLED2001_init (\<lambda>_. True) DRIVER_ADDR_1 (initial_ckled buf))) LED_PWM_PAGE 12 = regs c LED_PWM_PAGE 12"
  by (simp add: CKLED2001_init_def write_registers_acked chip_after_def initial_ckled_def all_registers_def
    LED_CONTROL_ON_OFF_LENGTH_def LED_CURRENT_TUNE_LENGTH_def chip_step_def chip_receive_def upt_rec
    CONFIGURE_CMD_PAGE_def FUNCTION_PAGE_def LED_CONTROL_PAGE_def LED_PWM_PAGE_def CURRENT_TUNE_PAGE_def CONFIGURATION_REG_def
    PDU_REG_def SCAN_PHASE_REG_def SLEW_RATE_CONTROL_MODE1_REG_def SLEW_RATE_CONTROL_MODE2_REG_def SOFTWARE_SLEEP_REG_def)

end
