(* ===== verification/Qmk_Factory_Test.thy ===== *)
theory Qmk_Factory_Test
  imports Qmk_Led_Matrix Qmk_Via Qmk_K3_Pro
begin

text \<open>
  The factory reset by keys and the factory test over raw HID (\<^verbatim>\<open>bluetooth/factory_test.c\<close>): three keys held for three
  seconds, the backlight test, the blinking after a reset, and the packets of the test program with their check sum.
\<close>

subsection \<open>State\<close>

definition BACKLIGHT_TEST_OFF :: u8 where "BACKLIGHT_TEST_OFF = 0"
definition BACKLIGHT_TEST_WHITE :: u8 where "BACKLIGHT_TEST_WHITE = 1"
definition BACKLIGHT_TEST_MAX :: u8 where "BACKLIGHT_TEST_MAX = 5"
definition KEY_PRESS_FN :: u8 where "KEY_PRESS_FN = 1"
definition KEY_PRESS_J :: u8 where "KEY_PRESS_J = 2"
definition KEY_PRESS_Z :: u8 where "KEY_PRESS_Z = 4"
definition KEY_PRESS_BL_KEY1 :: u8 where "KEY_PRESS_BL_KEY1 = 8"
definition KEY_PRESS_BL_KEY2 :: u8 where "KEY_PRESS_BL_KEY2 = 16"

definition KEY_PRESS_FACTORY_RESET :: u8 where
  "KEY_PRESS_FACTORY_RESET = KEY_PRESS_FN OR KEY_PRESS_J OR KEY_PRESS_Z"

definition KEY_PRESS_BACKLIGTH_TEST :: u8 where
  "KEY_PRESS_BACKLIGTH_TEST = KEY_PRESS_FN OR KEY_PRESS_BL_KEY1 OR KEY_PRESS_BL_KEY2"

definition FACTORY_TEST_CMD_BACKLIGHT :: u8 where "FACTORY_TEST_CMD_BACKLIGHT = 1"
definition FACTORY_TEST_CMD_OS_SWITCH :: u8 where "FACTORY_TEST_CMD_OS_SWITCH = 2"
definition FACTORY_TEST_CMD_INT_PIN :: u8 where "FACTORY_TEST_CMD_INT_PIN = 4"
definition FACTORY_TEST_CMD_GET_TRANSPORT :: u8 where "FACTORY_TEST_CMD_GET_TRANSPORT = 5"
definition FACTORY_TEST_CMD_RADIO_CARRIER :: u8 where "FACTORY_TEST_CMD_RADIO_CARRIER = 7"
definition OS_SWITCH :: u8 where "OS_SWITCH = 1"

definition FN_KEY1 :: u16 where "FN_KEY1 = 0x5221"
definition FN_KEY2 :: u16 where "FN_KEY2 = 0x5223"
definition KEY_J :: u16 where "KEY_J = 0x0D"
definition KEY_Z :: u16 where "KEY_Z = 0x1D"
definition BL_TEST_KEY1 :: u16 where "BL_TEST_KEY1 = 0x4F"
definition BL_TEST_KEY2 :: u16 where "BL_TEST_KEY2 = 0x4A"

text \<open>The static variables, and the state of the parts that are reset or tested.\<close>

record 's factory_st =
  factory_reset_timer :: u32
  factory_reset_state :: u8
  backlight_test_mode :: u8
  factory_reset_ind_timer :: u32
  factory_reset_ind_state :: u8
  report_os_sw_state :: bool
  ft_eeprom :: 's
  ft_layers :: layer_st
  ft_leds :: led_st
  ft_link :: link
  bt_reset_requested :: bool
  ft_raw_out :: "u8 list list"
  ckbt51_int_input_pin :: bool
  dip_switch_reads :: nat

record ft_env =
  ft_now :: u32
  ft_transport :: transport_t
  usb_power_sense_pin :: bool
  bluetooth_int_input_pin :: bool

subsection \<open>Keys\<close>

definition nonzero_time :: "u32 \<Rightarrow> u32" where
  "nonzero_time t = (if t = 0 then 1 else t)"

definition factory_timer_start :: "u32 \<Rightarrow> 's factory_st \<Rightarrow> 's factory_st" where
  "factory_timer_start now s = s\<lparr>factory_reset_timer := nonzero_time now\<rparr>"

definition release_key :: "u8 \<Rightarrow> 's factory_st \<Rightarrow> 's factory_st" where
  "release_key k s = s\<lparr>factory_reset_state := factory_reset_state s AND NOT k, factory_reset_timer := 0\<rparr>"

text \<open>A key that starts the timer when it completes \<open>combination\<close>.\<close>

definition press_key :: "u32 \<Rightarrow> u8 \<Rightarrow> u8 \<Rightarrow> 's factory_st \<Rightarrow> 's factory_st" where
  "press_key now k combination s =
    (let s = s\<lparr>factory_reset_state := factory_reset_state s OR k\<rparr> in
     if factory_reset_state s = combination then factory_timer_start now s else s)"

definition process_record_factory_reset :: "u32 \<Rightarrow> u16 \<Rightarrow> bool \<Rightarrow> 's factory_st \<Rightarrow> 's factory_st" where
  "process_record_factory_reset now keycode pressed s =
    (if keycode = FN_KEY1 \<or> keycode = FN_KEY2 then
       if pressed then s\<lparr>factory_reset_state := factory_reset_state s OR KEY_PRESS_FN\<rparr> else release_key KEY_PRESS_FN s
     else if keycode = KEY_J then
       if pressed then press_key now KEY_PRESS_J 0x07 s else release_key KEY_PRESS_J s
     else if keycode = KEY_Z then
       if pressed then press_key now KEY_PRESS_Z 0x07 s else release_key KEY_PRESS_Z s
     else if keycode = BL_TEST_KEY1 then
       if pressed then
         if backlight_test_mode s \<noteq> 0 then
           let s = s\<lparr>backlight_test_mode := backlight_test_mode s + 1\<rparr> in
           if backlight_test_mode s \<ge> BACKLIGHT_TEST_MAX then s\<lparr>backlight_test_mode := BACKLIGHT_TEST_WHITE\<rparr> else s
         else press_key now KEY_PRESS_BL_KEY1 0x19 s
       else release_key KEY_PRESS_BL_KEY1 s
     else if keycode = BL_TEST_KEY2 then
       if pressed then
         if backlight_test_mode s \<noteq> 0 then s\<lparr>backlight_test_mode := BACKLIGHT_TEST_OFF\<rparr>
         else press_key now KEY_PRESS_BL_KEY2 0x19 s
       else release_key KEY_PRESS_BL_KEY2 s
     else s)"

text \<open>The keyboard passes on the key codes that are not its own (\<^verbatim>\<open>process_record_kb_bt\<close>).\<close>

definition FACTORY_RESET_CHECK :: "u32 \<Rightarrow> u16 \<Rightarrow> bool \<Rightarrow> 's factory_st \<Rightarrow> 's factory_st" where
  "FACTORY_RESET_CHECK now keycode pressed s =
    (if KC_LOPTN \<le> keycode \<and> keycode \<le> BAT_LVL then s else process_record_factory_reset now keycode pressed s)"

subsection \<open>The task\<close>

definition enable_leds :: "'s factory_st \<Rightarrow> 's factory_st" where
  "enable_leds s = (if \<not> led_matrix_is_enabled (ft_leds s) then s\<lparr>ft_leds := led_matrix_enable (ft_leds s)\<rparr> else s)"

text \<open>The reset keeps the default layer: \<^verbatim>\<open>eeconfig_init\<close> changes it and it is set again.\<close>

definition factory_reset :: "'s eeprom_dev \<Rightarrow> 's via_env \<Rightarrow> u32 \<Rightarrow> 's factory_st \<Rightarrow> 's factory_st" where
  "factory_reset d env now s =
    (let s = s\<lparr>factory_reset_ind_timer := nonzero_time now, factory_reset_ind_state := factory_reset_ind_state s + 1\<rparr>;
         default_layer_tmp = default_layer_state (ft_layers s);
         (ee, dls) = eeconfig_init d env (ft_eeprom s);
         s = s\<lparr>ft_eeprom := ee, ft_layers := default_layer_set default_layer_tmp ((ft_layers s)\<lparr>default_layer_state := dls\<rparr>)\<rparr>;
         s = enable_leds s;
         s = s\<lparr>ft_leds := led_matrix_init True (ft_leds s)\<rparr>
     in s\<lparr>ft_link := ckbt51_factory_reset (ft_link s), bt_reset_requested := True\<rparr>)"

definition factory_timer_check :: "'s eeprom_dev \<Rightarrow> 's via_env \<Rightarrow> u32 \<Rightarrow> 's factory_st \<Rightarrow> 's factory_st" where
  "factory_timer_check d env now s =
    (if TIMER_DIFF_32 now (factory_reset_timer s) > 3000 then
       let s = s\<lparr>factory_reset_timer := 0\<rparr>;
           s = (if factory_reset_state s = KEY_PRESS_FACTORY_RESET then factory_reset d env now s
                else if factory_reset_state s = KEY_PRESS_BACKLIGTH_TEST then (enable_leds s)\<lparr>backlight_test_mode := BACKLIGHT_TEST_WHITE\<rparr>
                else s)
       in s\<lparr>factory_reset_state := 0\<rparr>
     else s)"

definition factory_reset_ind_timer_check :: "u32 \<Rightarrow> 's factory_st \<Rightarrow> 's factory_st" where
  "factory_reset_ind_timer_check now s =
    (if factory_reset_ind_timer s \<noteq> 0 \<and> TIMER_DIFF_32 now (factory_reset_ind_timer s) > 250 then
       let n = factory_reset_ind_state s; s = s\<lparr>factory_reset_ind_state := n + 1\<rparr> in
       if n > 6 then s\<lparr>factory_reset_ind_timer := 0, factory_reset_ind_state := 0\<rparr>
       else s\<lparr>factory_reset_ind_timer := nonzero_time now\<rparr>
     else s)"

definition factory_reset_task :: "'s eeprom_dev \<Rightarrow> 's via_env \<Rightarrow> u32 \<Rightarrow> 's factory_st \<Rightarrow> 's factory_st" where
  "factory_reset_task d env now s =
    (let s = (if factory_reset_timer s \<noteq> 0 then factory_timer_check d env now s else s) in
     if factory_reset_ind_timer s \<noteq> 0 then factory_reset_ind_timer_check now s else s)"

definition led_matrix_indicators_user :: "'s factory_st \<Rightarrow> 's factory_st" where
  "led_matrix_indicators_user s =
    (if factory_reset_ind_state s \<noteq> 0
     then s\<lparr>ft_leds := led_do [Led_set_value_all (if factory_reset_ind_state s mod 2 \<noteq> 0 then 0 else 255)] (ft_leds s)\<rparr> else s)"

subsection \<open>Packets\<close>

definition ft_checksum :: "u8 list \<Rightarrow> u16" where
  "ft_checksum data = fold (\<lambda>i checksum. checksum + ucast (data ! i)) [1..<RAW_EPSIZE - 3] 0"

text \<open>The payloads have two or three bytes; more than 31 would not fit.\<close>

definition factory_test_packet :: "u8 list \<Rightarrow> u8 list" where
  "factory_test_packet payload =
    (let data = take RAW_EPSIZE (0xAB # payload @ replicate RAW_EPSIZE 0); checksum = ft_checksum data in
     data[RAW_EPSIZE - 2 := low_byte checksum, RAW_EPSIZE - 1 := high_byte checksum])"

definition factory_test_send :: "u8 list \<Rightarrow> 's factory_st \<Rightarrow> 's factory_st" where
  "factory_test_send payload s = s\<lparr>ft_raw_out := ft_raw_out s @ [factory_test_packet payload]\<rparr>"

definition pin_byte :: "bool \<Rightarrow> u8" where
  "pin_byte b = (if b then 1 else 0)"

definition transport_byte :: "transport_t \<Rightarrow> u8" where
  "transport_byte t = (case t of TRANSPORT_NONE \<Rightarrow> 0 | TRANSPORT_USB \<Rightarrow> 1 | TRANSPORT_BLUETOOTH \<Rightarrow> 2)"

definition checksum_matches :: "u8 list \<Rightarrow> bool" where
  "checksum_matches data \<longleftrightarrow>
    ft_checksum data AND 0xFF = ucast (data ! (RAW_EPSIZE - 2)) \<and> drop_bit 8 (ft_checksum data) = ucast (data ! (RAW_EPSIZE - 1))"

definition factory_test_cmd :: "ft_env \<Rightarrow> u8 list \<Rightarrow> 's factory_st \<Rightarrow> 's factory_st" where
  "factory_test_cmd e data s =
    (if data ! 1 = FACTORY_TEST_CMD_BACKLIGHT then s\<lparr>backlight_test_mode := data ! 2, factory_reset_timer := 0\<rparr>
     else if data ! 1 = FACTORY_TEST_CMD_OS_SWITCH then
       let s = s\<lparr>report_os_sw_state := data ! 2 \<noteq> 0\<rparr> in
       if report_os_sw_state s then s\<lparr>dip_switch_reads := dip_switch_reads s + 1\<rparr> else s
     else if data ! 1 = FACTORY_TEST_CMD_INT_PIN then
       if data ! 2 = 0xA1 then s\<lparr>ft_link := ckbt51_int_pin_test (data ! 3 \<noteq> 0) (ft_link s)\<rparr>
       else if data ! 2 = 0xA2 then s\<lparr>ckbt51_int_input_pin := data ! 3 \<noteq> 0\<rparr>
       else if data ! 2 = 0xA3 then factory_test_send [FACTORY_TEST_CMD_INT_PIN, 0xA3, pin_byte (bluetooth_int_input_pin e)] s
       else s
     else if data ! 1 = FACTORY_TEST_CMD_GET_TRANSPORT then
       factory_test_send [FACTORY_TEST_CMD_GET_TRANSPORT, transport_byte (ft_transport e), pin_byte (usb_power_sense_pin e)] s
     else if data ! 1 = FACTORY_TEST_CMD_RADIO_CARRIER then
       if data ! 2 < 79 then s\<lparr>ft_link := ckbt51_radio_test (data ! 2) (ft_link s)\<rparr> else s
     else s)"

definition factory_test_rx :: "ft_env \<Rightarrow> u8 list \<Rightarrow> 's factory_st \<Rightarrow> 's factory_st" where
  "factory_test_rx e data s =
    (if data ! 0 = 0xAB then if \<not> checksum_matches data then s else factory_test_cmd e data s else s)"

definition dip_switch_update_user :: "bool \<Rightarrow> 's factory_st \<Rightarrow> 's factory_st" where
  "dip_switch_update_user on s =
    (if report_os_sw_state s then factory_test_send [FACTORY_TEST_CMD_OS_SWITCH, OS_SWITCH, pin_byte on] s else s)"

subsection \<open>A reset needs three keys for three seconds\<close>

datatype ft_op = Ft_key u32 u16 bool | Ft_task u32 | Ft_rx ft_env "u8 list" | Ft_dip bool | Ft_indicators

fun do_ft :: "'s eeprom_dev \<Rightarrow> 's via_env \<Rightarrow> ft_op \<Rightarrow> 's factory_st \<Rightarrow> 's factory_st" where
  "do_ft d env (Ft_key now k pressed) s = FACTORY_RESET_CHECK now k pressed s"
| "do_ft d env (Ft_task now) s = factory_reset_task d env now s"
| "do_ft d env (Ft_rx e data) s = factory_test_rx e data s"
| "do_ft d env (Ft_dip on) s = dip_switch_update_user on s"
| "do_ft d env Ft_indicators s = led_matrix_indicators_user s"

definition ft_ops :: "'s eeprom_dev \<Rightarrow> 's via_env \<Rightarrow> ft_op list \<Rightarrow> 's factory_st \<Rightarrow> 's factory_st" where
  "ft_ops d env = fold (do_ft d env)"

text \<open>The key is down after the events.\<close>

definition key_down :: "u16 \<Rightarrow> ft_op list \<Rightarrow> bool" where
  "key_down k xs = fold (\<lambda>x b. case x of Ft_key t k' pressed \<Rightarrow> if k' = k then pressed else b | _ \<Rightarrow> b) xs False"

definition reset_keys :: "u16 set" where
  "reset_keys = {FN_KEY1, FN_KEY2, KEY_J, KEY_Z}"

text \<open>J or Z went down at \<open>t0\<close>, and since then none of the keys was released.\<close>

definition held_since :: "u32 \<Rightarrow> ft_op list \<Rightarrow> bool" where
  "held_since t0 xs \<longleftrightarrow> (\<exists>ys k zs. xs = ys @ Ft_key t0 k True # zs \<and> k \<in> {KEY_J, KEY_Z} \<and>
    (\<forall>t. \<forall>k' \<in> reset_keys. Ft_key t k' False \<notin> set zs))"

lemma held_since_start: "k \<in> {KEY_J, KEY_Z} \<Longrightarrow> held_since t0 (xs @ [Ft_key t0 k True])"
  unfolding held_since_def by (intro exI [of _ xs] exI [of _ k] exI [of _ "[]"]) simp

lemma held_since_snoc:
  assumes "held_since t0 xs" "\<forall>t. \<forall>k \<in> reset_keys. x \<noteq> Ft_key t k False"
  shows "held_since t0 (xs @ [x])"
proof -
  obtain ys k zs where "xs = ys @ Ft_key t0 k True # zs" "k \<in> {KEY_J, KEY_Z}" "\<forall>t. \<forall>k' \<in> reset_keys. Ft_key t k' False \<notin> set zs"
    using assms(1) by (auto simp: held_since_def)
  then show ?thesis using assms(2) unfolding held_since_def
    by (intro exI [of _ ys] exI [of _ k] exI [of _ "zs @ [x]"]) auto
qed

lemma key_down_snoc:
  "key_down k (xs @ [x]) = (case x of Ft_key t k' pressed \<Rightarrow> if k' = k then pressed else key_down k xs | _ \<Rightarrow> key_down k xs)"
  unfolding key_down_def by (cases x) simp_all

text \<open>The bits of the state stand for keys that are down; a running timer was started by J or Z or for the backlight test.\<close>

definition ft_inv :: "ft_op list \<Rightarrow> 's factory_st \<Rightarrow> bool" where
  "ft_inv xs s \<longleftrightarrow>
    (bit (factory_reset_state s) 0 \<longrightarrow> key_down FN_KEY1 xs \<or> key_down FN_KEY2 xs) \<and>
    (bit (factory_reset_state s) 1 \<longrightarrow> key_down KEY_J xs) \<and> (bit (factory_reset_state s) 2 \<longrightarrow> key_down KEY_Z xs) \<and>
    (factory_reset_timer s \<noteq> 0 \<longrightarrow>
      (\<exists>t0. held_since t0 xs \<and> factory_reset_timer s = nonzero_time t0) \<or> bit (factory_reset_state s) 3)"

text \<open>What the reset leaves as it is.\<close>

definition same_reset :: "'s factory_st \<Rightarrow> 's factory_st \<Rightarrow> bool" where
  "same_reset s s' \<longleftrightarrow> factory_reset_state s' = factory_reset_state s \<and>
    (factory_reset_timer s' = factory_reset_timer s \<or> factory_reset_timer s' = 0)"

lemma ft_inv_other:
  assumes "ft_inv xs s" "same_reset s s'" "\<forall>t. \<forall>k \<in> reset_keys. \<forall>b. x \<noteq> Ft_key t k b"
  shows "ft_inv (xs @ [x]) s'"
proof -
  have "key_down k (xs @ [x]) = key_down k xs" if "k \<in> reset_keys" for k
    using assms(3) that by (cases x) (auto simp: key_down_snoc)
  then have "key_down FN_KEY1 (xs @ [x]) = key_down FN_KEY1 xs" "key_down FN_KEY2 (xs @ [x]) = key_down FN_KEY2 xs"
    "key_down KEY_J (xs @ [x]) = key_down KEY_J xs" "key_down KEY_Z (xs @ [x]) = key_down KEY_Z xs"
    by (simp_all add: reset_keys_def)
  moreover have "held_since t0 (xs @ [x])" if "held_since t0 xs" for t0
    using held_since_snoc [OF that] assms(3) by blast
  ultimately show ?thesis using assms(1,2) unfolding ft_inv_def same_reset_def by metis
qed

lemma timer_check_inv:
  "factory_reset_state (factory_timer_check d env now s) = factory_reset_state s \<and>
     factory_reset_timer (factory_timer_check d env now s) = factory_reset_timer s \<or>
   factory_reset_state (factory_timer_check d env now s) = 0 \<and> factory_reset_timer (factory_timer_check d env now s) = 0"
  by (auto simp: factory_timer_check_def factory_reset_def enable_leds_def Let_def split: prod.splits)

lemma ind_timer_same:
  "same_reset s (factory_reset_ind_timer_check now s)" "ft_eeprom (factory_reset_ind_timer_check now s) = ft_eeprom s"
  "bt_reset_requested (factory_reset_ind_timer_check now s) = bt_reset_requested s"
  by (auto simp: factory_reset_ind_timer_check_def same_reset_def Let_def)

lemma task_inv:
  assumes "ft_inv xs s"
  shows "ft_inv (xs @ [Ft_task now]) (factory_reset_task d env now s)"
proof -
  define t where "t = (if factory_reset_timer s \<noteq> 0 then factory_timer_check d env now s else s)"
  have t: "same_reset s t \<or> factory_reset_state t = 0 \<and> factory_reset_timer t = 0"
    using timer_check_inv [of d env now s] by (auto simp: t_def same_reset_def)
  have "same_reset t (factory_reset_task d env now s)"
    using ind_timer_same(1) [of t now] by (simp add: factory_reset_task_def t_def [symmetric] same_reset_def)
  then have "same_reset s (factory_reset_task d env now s) \<or>
      factory_reset_state (factory_reset_task d env now s) = 0 \<and> factory_reset_timer (factory_reset_task d env now s) = 0"
    using t by (auto simp: same_reset_def)
  then show ?thesis
  proof
    assume "same_reset s (factory_reset_task d env now s)"
    then show ?thesis by (rule ft_inv_other [OF assms]) simp
  qed (simp add: ft_inv_def)
qed

lemmas ft_keys = FN_KEY1_def FN_KEY2_def KEY_J_def KEY_Z_def BL_TEST_KEY1_def BL_TEST_KEY2_def
lemmas ft_bits = KEY_PRESS_FN_def KEY_PRESS_J_def KEY_PRESS_Z_def KEY_PRESS_BL_KEY1_def KEY_PRESS_BL_KEY2_def

lemma release_inv:
  assumes "ft_inv xs s" "\<forall>k' \<in> {FN_KEY1, FN_KEY2}. k = k' \<longrightarrow> bit m 0" "k = KEY_J \<longrightarrow> bit m 1" "k = KEY_Z \<longrightarrow> bit m 2"
  shows "ft_inv (xs @ [Ft_key now k False]) (release_key m s)"
  using assms by (auto simp: ft_inv_def release_key_def key_down_snoc bit_simps)

lemma press_other_inv:
  assumes "ft_inv xs s" "k \<notin> reset_keys" "bit m 0 = False" "bit m 1 = False" "bit m 2 = False" "bit c 3"
  shows "ft_inv (xs @ [Ft_key now k True]) (press_key now m c s)"
proof -
  have down: "key_down k' (xs @ [Ft_key now k True]) = key_down k' xs" if "k' \<in> reset_keys" for k'
    using assms(2) that by (auto simp: key_down_snoc)
  have held: "held_since t0 (xs @ [Ft_key now k True])" if "held_since t0 xs" for t0
    using held_since_snoc [OF that] by simp
  let ?st = "factory_reset_state s OR m"
  have b: "bit ?st 0 = bit (factory_reset_state s) 0" "bit ?st 1 = bit (factory_reset_state s) 1" "bit ?st 2 = bit (factory_reset_state s) 2"
    "bit (factory_reset_state s) 3 \<Longrightarrow> bit ?st 3" "?st = c \<Longrightarrow> bit ?st 3"
    using assms(3-6) by (simp_all add: bit_or_iff)
  have f: "factory_reset_state (press_key now m c s) = ?st"
    "factory_reset_timer (press_key now m c s) = (if ?st = c then nonzero_time now else factory_reset_timer s)"
    by (simp_all add: press_key_def factory_timer_start_def Let_def)
  have d: "key_down FN_KEY1 (xs @ [Ft_key now k True]) = key_down FN_KEY1 xs" "key_down FN_KEY2 (xs @ [Ft_key now k True]) = key_down FN_KEY2 xs"
    "key_down KEY_J (xs @ [Ft_key now k True]) = key_down KEY_J xs" "key_down KEY_Z (xs @ [Ft_key now k True]) = key_down KEY_Z xs"
    using down by (simp_all add: reset_keys_def)
  show ?thesis using assms(1) held b(4,5) unfolding ft_inv_def f b(1-3) d by (cases "?st = c") auto
qed

lemma press_reset_inv:
  assumes "ft_inv xs s" "k = KEY_J \<and> m = KEY_PRESS_J \<or> k = KEY_Z \<and> m = KEY_PRESS_Z"
  shows "ft_inv (xs @ [Ft_key now k True]) (press_key now m 7 s)"
proof -
  have down: "key_down k' (xs @ [Ft_key now k True]) \<longleftrightarrow> k' = k \<or> key_down k' xs" for k'
    by (auto simp: key_down_snoc)
  have held: "held_since t0 (xs @ [Ft_key now k True])" if "held_since t0 xs" for t0
    using held_since_snoc [OF that] by simp
  have now: "held_since now (xs @ [Ft_key now k True])" using held_since_start assms(2) by auto
  let ?st = "factory_reset_state s OR m"
  have b: "bit ?st 0 \<longleftrightarrow> bit (factory_reset_state s) 0" "bit ?st 3 \<longleftrightarrow> bit (factory_reset_state s) 3"
    "bit ?st 1 \<longrightarrow> k = KEY_J \<or> bit (factory_reset_state s) 1" "bit ?st 2 \<longrightarrow> k = KEY_Z \<or> bit (factory_reset_state s) 2"
    using assms(2) by (auto simp: bit_simps ft_bits)
  have f: "factory_reset_state (press_key now m 7 s) = ?st"
    "factory_reset_timer (press_key now m 7 s) = (if ?st = 7 then nonzero_time now else factory_reset_timer s)"
    by (simp_all add: press_key_def factory_timer_start_def Let_def)
  have old: "factory_reset_timer s \<noteq> 0 \<longrightarrow>
    (\<exists>t0. held_since t0 xs \<and> factory_reset_timer s = nonzero_time t0) \<or> bit (factory_reset_state s) 3"
    using assms(1) by (simp add: ft_inv_def)
  have "factory_reset_timer (press_key now m 7 s) \<noteq> 0 \<longrightarrow>
    (\<exists>t0. held_since t0 (xs @ [Ft_key now k True]) \<and> factory_reset_timer (press_key now m 7 s) = nonzero_time t0) \<or> bit ?st 3"
    unfolding f(2) b(2) using old now held by (cases "?st = 7") auto
  then show ?thesis using assms(1) b(1,3,4) unfolding ft_inv_def f(1) down by (elim conjE, intro conjI) auto
qed

lemma press_fn_inv:
  assumes "ft_inv xs s" "k = FN_KEY1 \<or> k = FN_KEY2"
  shows "ft_inv (xs @ [Ft_key now k True]) (s\<lparr>factory_reset_state := factory_reset_state s OR KEY_PRESS_FN\<rparr>)"
proof -
  have down: "key_down k' (xs @ [Ft_key now k True]) \<longleftrightarrow> k' = k \<or> key_down k' xs" for k'
    by (auto simp: key_down_snoc)
  have held: "held_since t0 (xs @ [Ft_key now k True])" if "held_since t0 xs" for t0
    using held_since_snoc [OF that] by simp
  show ?thesis using assms held down by (auto simp: ft_inv_def bit_simps ft_bits)
qed

lemma key_inv:
  assumes "ft_inv xs s"
  shows "ft_inv (xs @ [Ft_key now k p]) (process_record_factory_reset now k p s)"
proof (cases "k \<in> reset_keys")
  case True
  then consider "k = FN_KEY1 \<or> k = FN_KEY2" | "k = KEY_J" | "k = KEY_Z" by (auto simp: reset_keys_def)
  then show ?thesis
  proof cases
    case 1
    show ?thesis
    proof (cases p)
      case True
      then show ?thesis using press_fn_inv [OF assms 1] 1 by (auto simp: process_record_factory_reset_def)
    next
      case False
      have "ft_inv (xs @ [Ft_key now k False]) (release_key KEY_PRESS_FN s)"
        by (rule release_inv [OF assms]) (use 1 in \<open>auto simp: ft_bits ft_keys\<close>)
      then show ?thesis using False 1 by (auto simp: process_record_factory_reset_def)
    qed
  next
    case 2
    have "ft_inv (xs @ [Ft_key now k False]) (release_key KEY_PRESS_J s)"
      by (rule release_inv [OF assms]) (use 2 in \<open>auto simp: ft_bits ft_keys\<close>)
    moreover have "ft_inv (xs @ [Ft_key now k True]) (press_key now KEY_PRESS_J 7 s)" using press_reset_inv [OF assms] 2 by simp
    ultimately show ?thesis using 2 by (simp add: process_record_factory_reset_def ft_keys)
  next
    case 3
    have "ft_inv (xs @ [Ft_key now k False]) (release_key KEY_PRESS_Z s)"
      by (rule release_inv [OF assms]) (use 3 in \<open>auto simp: ft_bits ft_keys\<close>)
    moreover have "ft_inv (xs @ [Ft_key now k True]) (press_key now KEY_PRESS_Z 7 s)" using press_reset_inv [OF assms] 3 by simp
    ultimately show ?thesis using 3 by (simp add: process_record_factory_reset_def ft_keys)
  qed
next
  case False
  have same: "ft_inv (xs @ [Ft_key now k p]) s'" if "same_reset s s'" for s'
    by (rule ft_inv_other [OF assms that]) (use False in blast)
  have press: "ft_inv (xs @ [Ft_key now k True]) (press_key now m 0x19 s)" if "m = KEY_PRESS_BL_KEY1 \<or> m = KEY_PRESS_BL_KEY2" for m
    by (rule press_other_inv [OF assms False]) (use that in \<open>auto simp: ft_bits\<close>)
  have release: "ft_inv (xs @ [Ft_key now k False]) (release_key m s)" for m
    by (rule release_inv [OF assms]) (use False in \<open>auto simp: reset_keys_def\<close>)
  have "k \<noteq> FN_KEY1" "k \<noteq> FN_KEY2" "k \<noteq> KEY_J" "k \<noteq> KEY_Z" using False by (auto simp: reset_keys_def)
  then show ?thesis using same press release
    by (cases p) (auto simp: process_record_factory_reset_def Let_def same_reset_def)
qed

lemma rx_same:
  "same_reset s (factory_test_rx e data s)" "ft_eeprom (factory_test_rx e data s) = ft_eeprom s"
  "bt_reset_requested (factory_test_rx e data s) = bt_reset_requested s"
  by (simp_all add: factory_test_rx_def factory_test_cmd_def factory_test_send_def same_reset_def Let_def)

lemma key_keeps_settings:
  "ft_eeprom (process_record_factory_reset now k p s) = ft_eeprom s"
  "bt_reset_requested (process_record_factory_reset now k p s) = bt_reset_requested s"
  by (simp_all add: process_record_factory_reset_def release_key_def press_key_def factory_timer_start_def Let_def)

lemma check_inv:
  assumes "ft_inv xs s"
  shows "ft_inv (xs @ [Ft_key now k p]) (FACTORY_RESET_CHECK now k p s)"
proof (cases "KC_LOPTN \<le> k \<and> k \<le> BAT_LVL")
  case True
  then have "k \<notin> reset_keys" by (auto simp: reset_keys_def ft_keys KC_LOPTN_def BAT_LVL_def)
  then have "ft_inv (xs @ [Ft_key now k p]) s" by (intro ft_inv_other [OF assms]) (auto simp: same_reset_def)
  then show ?thesis using True by (simp add: FACTORY_RESET_CHECK_def)
qed (use key_inv [OF assms] in \<open>auto simp: FACTORY_RESET_CHECK_def\<close>)

lemma other_ops_keep_settings:
  "ft_eeprom (dip_switch_update_user on s) = ft_eeprom s" "bt_reset_requested (dip_switch_update_user on s) = bt_reset_requested s"
  "ft_eeprom (led_matrix_indicators_user s) = ft_eeprom s" "bt_reset_requested (led_matrix_indicators_user s) = bt_reset_requested s"
  by (simp_all add: dip_switch_update_user_def factory_test_send_def led_matrix_indicators_user_def)

lemma ft_op_inv:
  assumes "ft_inv xs s"
  shows "ft_inv (xs @ [x]) (do_ft d env x s)"
proof (cases x)
  case (Ft_rx e data)
  then show ?thesis using ft_inv_other [OF assms rx_same(1) [of s e data], of x] by simp
next
  case (Ft_dip on)
  have "same_reset s (dip_switch_update_user on s)" by (simp add: dip_switch_update_user_def factory_test_send_def same_reset_def)
  then show ?thesis using ft_inv_other [OF assms _, of _ x] Ft_dip by simp
next
  case Ft_indicators
  have "same_reset s (led_matrix_indicators_user s)" by (simp add: led_matrix_indicators_user_def same_reset_def)
  then show ?thesis using ft_inv_other [OF assms _, of _ x] Ft_indicators by simp
qed (use check_inv [OF assms] task_inv [OF assms] in simp_all)

lemma ft_ops_inv:
  assumes "factory_reset_state s = 0" "factory_reset_timer s = 0"
  shows "ft_inv xs (ft_ops d env xs s)"
proof (induction xs rule: rev_induct)
  case Nil
  then show ?case using assms by (simp add: ft_ops_def ft_inv_def)
next
  case (snoc x xs)
  then show ?case using ft_op_inv by (simp add: ft_ops_def)
qed

lemma task_resets:
  assumes "(ft_eeprom (factory_reset_task d env now s), bt_reset_requested (factory_reset_task d env now s)) \<noteq>
    (ft_eeprom s, bt_reset_requested s)"
  shows "factory_reset_timer s \<noteq> 0 \<and> factory_reset_state s = 7 \<and> 3000 < TIMER_DIFF_32 now (factory_reset_timer s)"
proof -
  define t where "t = (if factory_reset_timer s \<noteq> 0 then factory_timer_check d env now s else s)"
  have "ft_eeprom (factory_reset_task d env now s) = ft_eeprom t" "bt_reset_requested (factory_reset_task d env now s) = bt_reset_requested t"
    by (simp_all add: factory_reset_task_def t_def [symmetric] ind_timer_same)
  then have ne: "ft_eeprom t \<noteq> ft_eeprom s \<or> bt_reset_requested t \<noteq> bt_reset_requested s" using assms by simp
  then have "factory_reset_timer s \<noteq> 0" "t = factory_timer_check d env now s" by (auto simp: t_def split: if_splits)
  moreover from ne this(2) have "3000 < TIMER_DIFF_32 now (factory_reset_timer s)" "factory_reset_state s = KEY_PRESS_FACTORY_RESET"
    by (auto simp: factory_timer_check_def enable_leds_def Let_def split: if_splits)
  ultimately show ?thesis by (simp add: KEY_PRESS_FACTORY_RESET_def ft_bits)
qed

lemma task_keeps_default_layer:
  "default_layer_state (ft_layers (factory_reset_task d env now s)) = default_layer_state (ft_layers s)"
proof -
  have leds: "ft_layers (enable_leds u) = ft_layers u" for u :: "'a factory_st" by (simp add: enable_leds_def)
  have "default_layer_state (ft_layers (factory_reset d env now u)) = default_layer_state (ft_layers u)" for u
    by (simp add: factory_reset_def leds default_layer_set_def default_layer_state_set_def default_layer_state_set_kb_def
      default_layer_state_set_user_def Let_def split_beta)
  then have "default_layer_state (ft_layers (factory_timer_check d env now u)) = default_layer_state (ft_layers u)" for u
    by (simp add: factory_timer_check_def leds Let_def)
  moreover have "ft_layers (factory_reset_ind_timer_check now u) = ft_layers u" for u :: "'a factory_st"
    by (simp add: factory_reset_ind_timer_check_def Let_def)
  ultimately show ?thesis by (simp add: factory_reset_task_def Let_def)
qed


definition initial_factory :: "'s \<Rightarrow> layer_st \<Rightarrow> led_st \<Rightarrow> link \<Rightarrow> 's factory_st" where
  "initial_factory ee ly l k = \<lparr>factory_reset_timer = 0, factory_reset_state = 0, backlight_test_mode = BACKLIGHT_TEST_OFF,
    factory_reset_ind_timer = 0, factory_reset_ind_state = 0, report_os_sw_state = False, ft_eeprom = ee, ft_layers = ly, ft_leds = l,
    ft_link = k, bt_reset_requested = False, ft_raw_out = [], ckbt51_int_input_pin = False, dip_switch_reads = 0\<rparr>"

definition demo_factory :: "mock_flash fee factory_st" where
  "demo_factory = initial_factory fresh_fee \<lparr>default_layer_state = 4, layer_state = 0, source_layers_cache = [], disable_action_cache = False\<rparr>
    (initial_led small_layout default_led_config) idle_link"


subsection \<open>Packets of the test program\<close>

lemma ft_checksum_sum: "ft_checksum data = (\<Sum>i \<in> {1..<29}. ucast (data ! i))"
proof -
  have "fold (\<lambda>i c. c + f i) is a = a + sum_list (map f is)" for f :: "nat \<Rightarrow> u16" and "is" a
    by (induction "is" arbitrary: a) (simp_all add: algebra_simps)
  from this [of "\<lambda>i. ucast (data ! i)" "[1..<29]" 0] show ?thesis
    by (simp add: ft_checksum_def RAW_EPSIZE_def sum_list_distinct_conv_sum_set del: upt_rec)
qed

lemma ft_checksum_update:
  assumes "i < length data" "length data = 32"
  shows "ft_checksum (data[i := b]) = (if i \<in> {1..<29} then ft_checksum data + (ucast b - ucast (data ! i)) else ft_checksum data)"
proof (cases "i \<in> {1..<29}")
  case True
  have "(\<Sum>j \<in> {1..<29} - {i}. ucast (data[i := b] ! j)) = (\<Sum>j \<in> {1..<29} - {i}. ucast (data ! j) :: u16)"
    by (rule sum.cong) (use assms in auto)
  moreover have "(\<Sum>j \<in> {1..<29}. f j) = f i + (\<Sum>j \<in> {1..<29} - {i}. f j)" for f :: "nat \<Rightarrow> u16"
    using sum.remove [OF _ True, of f] by simp
  ultimately show ?thesis using True assms unfolding ft_checksum_sum by (simp only: if_True) simp
next
  case False
  have "(\<Sum>j \<in> {1..<29}. ucast (data[i := b] ! j)) = (\<Sum>j \<in> {1..<29}. ucast (data ! j) :: u16)"
    by (rule sum.cong) (use False in auto)
  then show ?thesis unfolding if_not_P [OF False] unfolding ft_checksum_sum .
qed

lemma same_halves:
  assumes "(x :: u16) AND 0xFF = y AND 0xFF" "drop_bit 8 x = drop_bit 8 y"
  shows "x = y"
proof (rule bit_word_eqI)
  fix n assume "n < LENGTH(16)"
  show "bit x n = bit y n"
  proof (cases "n < 8")
    case True
    then have "n \<in> {0, 1, 2, 3, 4, 5, 6, 7}" by auto
    then have "bit (0xFF :: u16) n" by auto
    then show ?thesis using arg_cong [OF assms(1), of "\<lambda>w. bit w n"] by (simp add: bit_and_iff)
  next
    case False
    then show ?thesis using arg_cong [OF assms(2), of "\<lambda>w. bit w (n - 8)"] by (simp add: bit_drop_bit_eq)
  qed
qed

text \<open>A packet whose check sum matches does not match any more when one byte has changed, except for byte 29.\<close>

lemma changed_packet:
  assumes "length data = 32" "checksum_matches data" "1 \<le> i" "i < 32" "i \<noteq> 29" "b \<noteq> data ! i"
  shows "\<not> checksum_matches (data[i := b])"
proof
  assume m: "checksum_matches (data[i := b])"
  let ?c = "ft_checksum (data[i := b])"
  have uc: "(ucast b :: u16) \<noteq> ucast (data ! i)" using assms(6) by (simp add: ucast_16_inj)
  have up: "?c = (if i \<in> {1..<29} then ft_checksum data + (ucast b - ucast (data ! i)) else ft_checksum data)"
    using ft_checksum_update assms(1,4) by simp
  have old: "ft_checksum data AND 0xFF = ucast (data ! 30)" "drop_bit 8 (ft_checksum data) = ucast (data ! 31)"
    using assms(2) by (simp_all add: checksum_matches_def RAW_EPSIZE_def)
  have new: "?c AND 0xFF = ucast (data[i := b] ! 30)" "drop_bit 8 ?c = ucast (data[i := b] ! 31)"
    using m by (simp_all add: checksum_matches_def RAW_EPSIZE_def)
  consider "i < 29" | "i = 30" | "i = 31" using assms(4,5) by linarith
  then show False
  proof cases
    case 1
    then have "data[i := b] ! 30 = data ! 30" "data[i := b] ! 31 = data ! 31" by simp_all
    then have "?c AND 0xFF = ft_checksum data AND 0xFF" "drop_bit 8 ?c = drop_bit 8 (ft_checksum data)"
      unfolding old new by simp_all
    then have "?c = ft_checksum data" by (rule same_halves)
    moreover have "i \<in> {1..<29}" using 1 assms(3) by simp
    ultimately have "ft_checksum data + (ucast b - ucast (data ! i)) = ft_checksum data" using up by (simp only: if_True)
    then have "ucast b - ucast (data ! i) = (0 :: u16)" by (simp only: add_cancel_left_right)
    then show False using uc by (simp only: right_minus_eq)
  next
    case 2
    then have "?c = ft_checksum data" using up by simp
    then show False using old(1) new(1) uc 2 assms(1) by simp
  next
    case 3
    then have "?c = ft_checksum data" using up by simp
    then show False using old(2) new(2) uc 3 assms(1) by simp
  qed
qed

lemma packet_ok:
  assumes "length payload \<le> 28"
  shows "length (factory_test_packet payload) = 32" "checksum_matches (factory_test_packet payload)"
    "factory_test_packet payload ! 0 = 0xAB" "take (length payload) (drop 1 (factory_test_packet payload)) = payload"
proof -
  define data where "data = take 32 (0xAB # payload @ replicate 32 (0 :: u8))"
  have data: "length data = 32" by (simp add: data_def)
  have p: "factory_test_packet payload = data[30 := low_byte (ft_checksum data), 31 := high_byte (ft_checksum data)]"
    by (simp add: factory_test_packet_def data_def RAW_EPSIZE_def Let_def)
  show "length (factory_test_packet payload) = 32" by (simp add: p data)
  have "ft_checksum (factory_test_packet payload) = ft_checksum data"
    using data by (simp add: p ft_checksum_update)
  then show "checksum_matches (factory_test_packet payload)"
    using data by (simp add: checksum_matches_def RAW_EPSIZE_def p low_byte_cast high_byte_cast)
  show "factory_test_packet payload ! 0 = 0xAB" by (simp add: p data_def)
  have "take (length payload) (drop 1 (factory_test_packet payload)) = take (length payload) (drop 1 data)"
    using assms by (simp add: p drop_update_swap take_update_swap list_update_beyond)
  also have "\<dots> = payload" using assms by (simp add: data_def take_Cons')
  finally show "take (length payload) (drop 1 (factory_test_packet payload)) = payload" .
qed

text \<open>C31: what the keyboard sends to the test program is a packet its own receiver accepts, with the payload after the first byte,
  and when any one byte of it but byte 29 is changed, the receiver ignores it.\<close>

theorem corrupted_packet_ignored:
  assumes "length payload \<le> 28" "i < 32" "i \<noteq> 29" "b \<noteq> factory_test_packet payload ! i"
  shows "checksum_matches (factory_test_packet payload) \<and> take (length payload) (drop 1 (factory_test_packet payload)) = payload \<and>
    factory_test_rx e (factory_test_packet payload) s = factory_test_cmd e (factory_test_packet payload) s \<and>
    factory_test_rx e ((factory_test_packet payload)[i := b]) s = s"
proof -
  note ok = packet_ok [OF assms(1)]
  have "factory_test_rx e ((factory_test_packet payload)[i := b]) s = s"
  proof (cases "i = 0")
    case True
    then show ?thesis using assms(4) ok(1,3) by (simp add: factory_test_rx_def)
  next
    case False
    then show ?thesis using changed_packet [OF ok(1,2) _ assms(2-4)] by (simp add: factory_test_rx_def)
  qed
  then show ?thesis using ok by (simp add: factory_test_rx_def)
qed

theorem corrupted_packet_ignored_witness:
  "checksum_matches (factory_test_packet [5, 2, 1]) \<and>
    factory_test_rx \<lparr>ft_now = 0, ft_transport = TRANSPORT_USB, usb_power_sense_pin = True, bluetooth_int_input_pin = False\<rparr>
      ((factory_test_packet [5, 2, 1])[2 := 9]) demo_factory = demo_factory"
  using corrupted_packet_ignored [of "[5, 2, 1]" 2 9 _ demo_factory]
  by (simp add: factory_test_packet_def RAW_EPSIZE_def Let_def)

text \<open>The sum of the receiver and the sender ends one byte before the check sum: byte 29 is not protected.\<close>

lemma byte_29_unprotected:
  assumes "length payload \<le> 28"
  shows "checksum_matches ((factory_test_packet payload)[29 := b])"
  using packet_ok(1,2) [OF assms] ft_checksum_update [of 29 "factory_test_packet payload" b]
  by (simp add: checksum_matches_def RAW_EPSIZE_def)

end
