(* ===== verification/Spec2Isabelle.thy ===== *)
theory Spec2Isabelle
  imports Qmk_Report Qmk_Layers Qmk_Via Qmk_Wl_Driver Qmk_K3_Pro Qmk_Matrix Qmk_Mousekey Qmk_Deferred Qmk_Unicode Qmk_Dynamic_Macro Qmk_Key_Lock Qmk_Ckled2001 Qmk_Factory_Test
begin

text \<open>
  Verification library for the Keychron K3 Pro build of the QMK firmware: the path of a key press from
  the debounced matrix to the report the computer receives, over USB or Bluetooth, and the storage that
  keeps the keymap and the settings.

  \<^bold>\<open>How the program is put together.\<close>  The main loop scans the matrix, debounces it, and turns each
  changed key into an event.  The action of an event comes from the highest active layer that is not
  transparent at the key; for a press the layer is remembered, and the release uses it.  Actions change
  modifiers, keys and layers; the keyboard report is composed of these and handed to the host driver when
  it differs from the last one.  On a cable the driver is the USB stack.  Without one it is the Bluetooth
  driver: reports go into a queue of 512 slots, a task sends them through the serial protocol of the
  CKBT51 module, and packets of the module come back as acknowledgements and events in a second queue.  The
  keymap, the macros and the settings are bytes of an EEPROM that is emulated in flash; the host reads and
  writes them through the VIA protocol.

  \<^bold>\<open>Build.\<close>  The K3 Pro (ANSI, white, VIA keymap): N-key rollover on USB and on Bluetooth, mouse keys and
  extra keys, 6 rows of 16 columns, 4 layers, the STM32L432 with its emulated EEPROM, an EEPROM of 2047
  addresses for the dynamic keymap, debouncing of 5 ms with \<^verbatim>\<open>sym_defer_g\<close>, USB kept connected in Bluetooth
  mode, no one-shot timeout.  The wear leveling and the other six debounce algorithms are modelled as well; the
  other Keychron boards and builds use them.

  \<^bold>\<open>Basics.\<close>
  \<^item> \<^verbatim>\<open>Qmk_Prelude\<close>: names of the machine integers, \<^verbatim>\<open>platforms/timer.h\<close>, generic lemmas.
  \<^item> \<^verbatim>\<open>Qmk_Bitwise\<close>: \<^verbatim>\<open>quantum/bitwise.c\<close>; each helper equals a reference on the set of bits.
  \<^item> \<^verbatim>\<open>Qmk_Bytes\<close>, \<^verbatim>\<open>Qmk_Store\<close>: byte arrays and little-endian integers; the locale of a store of values
    under keys, with the theorem on sequences of writes that EEPROM, keymap and layer cache instantiate.

  \<^bold>\<open>Reports and actions.\<close>
  \<^item> \<^verbatim>\<open>Qmk_Report\<close>: \<^verbatim>\<open>tmk_core/protocol/report.c\<close>; the six-key and the bitmap report as sets of keys.
  \<^item> \<^verbatim>\<open>Qmk_Host\<close>: \<^verbatim>\<open>tmk_core/protocol/host.c\<close>; the driver is the list of reports handed to it.
  \<^item> \<^verbatim>\<open>Qmk_Action_Util\<close>: \<^verbatim>\<open>quantum/action_util.c\<close>; what the host last saw is the report composed of the
    current modifiers and keys, and a one-shot modifier or layer lives for exactly one key.
  \<^item> \<^verbatim>\<open>Qmk_Layers\<close>: \<^verbatim>\<open>quantum/action_layer.c\<close>; layer operations are set operations, the active layer is
    the highest one that is not transparent, and the source-layer cache gives a release its press's action.
  \<^item> \<^verbatim>\<open>Qmk_Action_Codes\<close>: the register, unregister, tap and clear functions of \<^verbatim>\<open>quantum/action.c\<close>.
  \<^item> \<^verbatim>\<open>Qmk_Keymap\<close>: \<^verbatim>\<open>keymap_common.c\<close>, \<^verbatim>\<open>keycode_config.c\<close>, \<^verbatim>\<open>action_code.h\<close>: the action of a key code, after the
    remapping by the magic settings.  Every key code gives an action of a kind that is handled.
  \<^item> \<^verbatim>\<open>Qmk_Process_Keys\<close>: \<^verbatim>\<open>process_record_quantum\<close> of \<^verbatim>\<open>quantum.c\<close> and the key handlers of this build
    (\<^verbatim>\<open>process_keycode/\<close>: magic, grave escape, space cadet, tri layer; the macro keys of \<^verbatim>\<open>via.c\<close>).  The hooks
    of the keyboard and the keymap are the fields of \<^verbatim>\<open>kb_env\<close>.
  \<^item> \<^verbatim>\<open>Qmk_Process_Action\<close>: \<^verbatim>\<open>process_action\<close> and \<^verbatim>\<open>process_record\<close> of \<^verbatim>\<open>action.c\<close>, one function per kind of action.
  \<^item> \<^verbatim>\<open>Qmk_Tapping\<close>: \<^verbatim>\<open>action_tapping.c\<close>, the tapping key and the waiting buffer, and \<^verbatim>\<open>action_exec\<close>.
  \<^item> \<^verbatim>\<open>Qmk_Matrix_Task\<close>: \<^verbatim>\<open>matrix_task\<close> of \<^verbatim>\<open>keyboard.c\<close>, from the debounced rows to key and tick events.
  \<^item> \<^verbatim>\<open>Qmk_Typing\<close>, \<^verbatim>\<open>Qmk_Key_Events\<close>: for a keymap without tap keys, an invariant that bounds the keys and modifiers
    of the report by the keys that are down, kept by every step from the matrix to the host.
  \<^item> \<^verbatim>\<open>Qmk_Tap_Hold\<close>: what the tapping code decides for a mod-tap or layer-tap key, and that the events held back until
    then take effect in their order; \<^verbatim>\<open>Qmk_Waiting\<close>: the waiting buffer for every keymap and option, with its loop
    as a relation that the bounded recursion computes.
  \<^item> \<^verbatim>\<open>Qmk_Mousekey\<close>: \<^verbatim>\<open>mousekey.c\<close>; the pointer follows the held keys, with speeds in range.
  \<^item> \<^verbatim>\<open>Qmk_Send_String\<close>: \<^verbatim>\<open>send_string.c\<close>, and the text a host with the US layout types when it receives the reports;
    text that is sent, or stored as a macro, is the text that is typed.
  \<^item> \<^verbatim>\<open>Qmk_Unicode\<close>: \<^verbatim>\<open>quantum/unicode\<close> and its key handlers: UTF-8, the input modes, the keys of a code point; what
    the input method of each mode enters is the code point.
  \<^item> \<^verbatim>\<open>Qmk_Dynamic_Macro\<close>: \<^verbatim>\<open>process_dynamic_macro.c\<close>; two macros at the ends of one buffer as two lists.
  \<^item> \<^verbatim>\<open>Qmk_Key_Lock\<close>: \<^verbatim>\<open>process_key_lock.c\<close>; the bits of the locked keys as a set, and what the host gets of a locked key.
  \<^item> \<^verbatim>\<open>Qmk_Deferred\<close>: \<^verbatim>\<open>deferred_exec.c\<close>; the table of deferred callbacks, its tokens, and when they are called.

  \<^bold>\<open>Matrix and debouncing.\<close>
  \<^item> \<^verbatim>\<open>Qmk_Matrix\<close>: \<^verbatim>\<open>k3_pro/matrix.c\<close> and \<^verbatim>\<open>matrix_common.c\<close>: a scan reads exactly the closed switches, for every
    circuit with diodes; composed with the debouncing and the key events, from the switches to the host.
  \<^item> \<^verbatim>\<open>Qmk_Debounce\<close>: all algorithms of \<^verbatim>\<open>quantum/debounce\<close>; \<^verbatim>\<open>Qmk_Key_Loops\<close> and \<^verbatim>\<open>Qmk_Debounce_Keys\<close>
    reduce them to one key; \<^verbatim>\<open>Qmk_Debounce_Contract\<close>: what they report is what changed (with one exception
    that is proved); \<^verbatim>\<open>Qmk_Debounce_Time\<close>: when a deferred algorithm takes a key over, and that it does.

  \<^bold>\<open>LED matrix.\<close>
  \<^item> \<^verbatim>\<open>Qmk_Lib8\<close>: the 8-bit arithmetic of \<^verbatim>\<open>lib/lib8tion\<close>; the square root is the integer square root, the angle fits its byte.
  \<^item> \<^verbatim>\<open>Qmk_Led_Effects\<close>: \<^verbatim>\<open>quantum/led_matrix/animations\<close>, every effect as the list of its driver calls; all stay within the
    matrix and the configured brightness.
  \<^item> \<^verbatim>\<open>Qmk_Led_Matrix\<close>: \<^verbatim>\<open>led_matrix.c\<close> and \<^verbatim>\<open>process_backlight.c\<close>: a frame reaches every LED, the keys keep the settings
    valid, the driver is shut down when the backlight is off, and the key hits are a bounded list.
  \<^item> \<^verbatim>\<open>Qmk_Indicator\<close>: \<^verbatim>\<open>bluetooth/indicator.c\<close> and \<^verbatim>\<open>bat_level_animation.c\<close> on the LED matrix: the LED of the host goes out,
    and no table is read outside of its bounds.
  \<^item> \<^verbatim>\<open>Qmk_Ckled2001\<close>: \<^verbatim>\<open>ckled2001-simple.c\<close>, \<^verbatim>\<open>led_matrix_drivers.c\<close> and the LED tables of this keyboard, down to the transfers
    on the bus; what an effect computes for a frame is what the registers of the chip hold after it.

  \<^bold>\<open>Storage.\<close>
  \<^item> \<^verbatim>\<open>Qmk_Flash\<close>: the operations of \<^verbatim>\<open>flash_stm32.h\<close> as a record of functions with the laws of NOR flash as
    a locale; the mock of \<^verbatim>\<open>platforms/test\<close> satisfies them.
  \<^item> \<^verbatim>\<open>Qmk_Eeprom_L4\<close>, \<^verbatim>\<open>Qmk_Fee_Correct\<close>, \<^verbatim>\<open>Qmk_Eeprom\<close>: \<^verbatim>\<open>eeprom_stm32_l4.c\<close> and \<^verbatim>\<open>eeprom_driver.c\<close>: reads return the
    last write, also after a restart that keeps only the flash.
  \<^item> \<^verbatim>\<open>Qmk_Wear_Leveling\<close>, \<^verbatim>\<open>Qmk_Wl_Correct\<close>, \<^verbatim>\<open>Qmk_Wl_Driver\<close>: \<^verbatim>\<open>wear_leveling.c\<close> over the complementing driver;
    the same guarantees, through consolidations.
  \<^item> \<^verbatim>\<open>Qmk_Dynamic_Keymap\<close>, \<^verbatim>\<open>Qmk_Via\<close>: \<^verbatim>\<open>dynamic_keymap.c\<close>, \<^verbatim>\<open>eeconfig.c\<close>, \<^verbatim>\<open>via.c\<close>: keymap, macros, settings, the
    host protocol, and the start-up that notices an interrupted initialisation.

  \<^bold>\<open>Bluetooth\<close> (\<^verbatim>\<open>keyboards/keychron/bluetooth\<close>).
  \<^item> \<^verbatim>\<open>Qmk_Ring\<close>: both ring buffers refine bounded lists (a locale with two interpretations).
  \<^item> \<^verbatim>\<open>Qmk_Ckbt51\<close>: \<^verbatim>\<open>ckbt51.c\<close>; every frame sent is one the receiver accepts, and the reception of the module's
    packets byte by byte.
  \<^item> \<^verbatim>\<open>Qmk_Bluetooth\<close>: \<^verbatim>\<open>bluetooth.c\<close> and \<^verbatim>\<open>report_buffer.c\<close>; \<^verbatim>\<open>Qmk_Bt_Reports\<close>: which reports reach the module, in
    which order and how often; \<^verbatim>\<open>Qmk_Bt_Module\<close>: \<^verbatim>\<open>battery.c\<close> and the events of the module.
  \<^item> \<^verbatim>\<open>Qmk_Transport\<close>: \<^verbatim>\<open>transport.c\<close>; changing the transport leaves no key down on either host.
  \<^item> \<^verbatim>\<open>Qmk_K3_Pro\<close>: \<^verbatim>\<open>k3_pro.c\<close>, its keys and its task.
  \<^item> \<^verbatim>\<open>Qmk_Factory_Test\<close>: \<^verbatim>\<open>factory_test.c\<close>; which keys, held how long, reset the keyboard, and the packets of the test program.

  \<^bold>\<open>Conventions.\<close>  A C module's static variables are a record; a function returns the changed record, in the
  order of the source.  Pointers to buffers are lists of bytes.  Integers keep their width as words, so
  wrap-around is the program's.  Calls that leave the modelled part (driver calls, the custom hooks
  of a board) are recorded in a list in the order they happen.

  \<^bold>\<open>Bounds.\<close>  One loop has fuel, the one over the waiting events of the tapping code; its fuel is the number of slots,
  and it is proved to compute the result of the loop.  All others are bounded by the length of an array, by
  the bytes received, or by a counter, and are structural recursions or folds over these.  A queued report is sent at most
  32 times, so the liveness theorem on the report buffer asks for 31 calls of the task per report.  The ring
  buffers hold one element less than they have slots.

  \<^bold>\<open>Not modelled.\<close>  USB stacks, clocks and
  low-power modes (registers and interrupts); LED effects and indicators (their calls are recorded); features this build does not enable.  The flash controller, the tables of the keymap, timers and
  the serial line are parameters.  Next in the plan: the remaining key handlers.
\<close>

subsection \<open>The keymap through the storage stack\<close>

context nor_flash
begin

lemma keymap_restart:
  assumes "fee_inv fl wf s" "\<forall>((l, r, c), k) \<in> set ws. in_keymap l r c" "\<forall>a. \<not> ecc a" "in_keymap l r c"
    "fee_flash ram = fee_flash (puts (\<lambda>(l, r, c). dynamic_keymap_set_keycode (l4_dev fl) l r c) ws s)"
  shows "dynamic_keymap_get_keycode (l4_dev fl) l r c (snd (EEPROM_Init fl ecc ram)) =
    (case map_of (rev ws) (l, r, c) of None \<Rightarrow> dynamic_keymap_get_keycode (l4_dev fl) l r c s | Some k \<Rightarrow> k)"
proof -
  let ?s = "puts (\<lambda>(l, r, c). dynamic_keymap_set_keycode (l4_dev fl) l r c) ws s"
  have ok: "\<forall>(k, v) \<in> set ws. (case k of (l, r, c) \<Rightarrow> in_keymap l r c) \<and> True"
    using assms(2) by (auto simp: split_beta)
  have inv: "fee_inv fl wf ?s" using l4_keymap.keycodes.wf_puts [OF assms(1) ok] .
  obtain s' where s': "EEPROM_Init fl ecc ram = (FEE_DENSITY_BYTES, s')" "fee_inv fl wf s'" "DataBuf s' = DataBuf ?s"
    using restart_same [OF inv assms(3,5)] by blast
  have "dynamic_keymap_get_keycode (l4_dev fl) l r c s' = dynamic_keymap_get_keycode (l4_dev fl) l r c ?s"
    using s' inv assms(4) by (simp add: l4_keymap.get_keycode_contents)
  then show ?thesis
    using l4_keymap.keycodes.get_puts [OF assms(1) ok, of "(l, r, c)"] assms(4) s'(1)
    by (simp split: option.splits)
qed

end

text \<open>C1: Key codes set by the host are kept across a power cycle: after any sequence of key-code
  changes, with the RAM lost and the flash kept, the restarted emulation of the STM32L432 driver returns
  the last key code set for every key, and the earlier one where none was set.\<close>
theorem keymap_survives_power_cycle:
  assumes "nor_flash fl dev_ok ready" "fee_inv fl dev_ok s" "\<forall>((l, r, c), k) \<in> set ws. in_keymap l r c"
    "\<forall>a. \<not> ecc a" "in_keymap l r c"
    "fee_flash ram = fee_flash (puts (\<lambda>(l, r, c). dynamic_keymap_set_keycode (l4_dev fl) l r c) ws s)"
  shows "dynamic_keymap_get_keycode (l4_dev fl) l r c (snd (EEPROM_Init fl ecc ram)) =
    (case map_of (rev ws) (l, r, c) of None \<Rightarrow> dynamic_keymap_get_keycode (l4_dev fl) l r c s | Some k \<Rightarrow> k)"
  using nor_flash.keymap_restart [OF assms] .

theorem keymap_survives_power_cycle_witness:
  "dynamic_keymap_get_keycode (l4_dev mock_ops) 1 2 3 (snd (EEPROM_Init mock_ops no_ecc
      \<lparr>DataBuf = [], empty_slot = 0, eccd = True,
       fee_flash = fee_flash (dynamic_keymap_set_keycode (l4_dev mock_ops) 1 2 3 0x5221 fresh_fee)\<rparr>)) = 0x5221"
  using keymap_survives_power_cycle [OF mock.nor_flash_axioms fresh_fee_inv, of "[((1, 2, 3), 0x5221)]" no_ecc 1 2 3
      "\<lparr>DataBuf = [], empty_slot = 0, eccd = True,
       fee_flash = fee_flash (dynamic_keymap_set_keycode (l4_dev mock_ops) 1 2 3 0x5221 fresh_fee)\<rparr>"]
  by (simp add: no_ecc_def in_keymap_def DYNAMIC_KEYMAP_LAYER_COUNT_def)

end
